(* ===== verification/Pico_Prelude.thy ===== *)
theory Pico_Prelude
  imports Main "HOL-Library.Word"
begin

unbundle bit_operations_syntax

text \<open>
  Shared vocabulary of the development: the C integer types of picoTCP as words, the error
  codes of \<open>pico_err_e\<close>, the byte-order conversions of \<open>include/pico_config.h\<close> (a little-endian
  host, as the default build sets \<open>ENDIAN=little\<close>), byte access to memory, and the generic
  lemmas on words and lists that several components use.
\<close>

section \<open>Machine integers\<close>

type_synonym u8 = "8 word"
type_synonym u16 = "16 word"
type_synonym u32 = "32 word"
type_synonym u64 = "64 word"

text \<open>Rewrite rules that turn word facts into facts on naturals.\<close>

named_theorems pico_arith

text \<open>Case-split rules of the components' result types.\<close>

named_theorems pico_defs

section \<open>Error codes\<close>

datatype pico_err_t =
    PICO_ERR_NOERR | PICO_ERR_EPERM | PICO_ERR_ENOENT | PICO_ERR_EINTR | PICO_ERR_EIO
  | PICO_ERR_ENXIO | PICO_ERR_EAGAIN | PICO_ERR_ENOMEM | PICO_ERR_EACCESS | PICO_ERR_EFAULT
  | PICO_ERR_EBUSY | PICO_ERR_EEXIST | PICO_ERR_EINVAL | PICO_ERR_ENONET | PICO_ERR_EPROTO
  | PICO_ERR_ENOPROTOOPT | PICO_ERR_EPROTONOSUPPORT | PICO_ERR_EOPNOTSUPP
  | PICO_ERR_EADDRINUSE | PICO_ERR_EADDRNOTAVAIL | PICO_ERR_ENETDOWN | PICO_ERR_ENETUNREACH
  | PICO_ERR_ECONNRESET | PICO_ERR_EISCONN | PICO_ERR_ENOTCONN | PICO_ERR_ESHUTDOWN
  | PICO_ERR_ETIMEDOUT | PICO_ERR_ECONNREFUSED | PICO_ERR_EHOSTDOWN | PICO_ERR_EHOSTUNREACH

section \<open>Byte order\<close>

definition short_be :: "u16 \<Rightarrow> u16" where
  "short_be le = push_bit 8 (le AND 0xFF) OR (drop_bit 8 le AND 0xFF)"

definition long_be :: "u32 \<Rightarrow> u32" where
  "long_be le =
     (let b0 = le AND 0xFF; b1 = drop_bit 8 le AND 0xFF;
          b2 = drop_bit 16 le AND 0xFF; b3 = drop_bit 24 le AND 0xFF
      in b3 + push_bit 8 b2 + push_bit 16 b1 + push_bit 24 b0)"

text \<open>Unaligned little-endian reads; the pointer is the list from the address on.\<close>

definition short_from :: "u8 list \<Rightarrow> u16" where
  "short_from p = push_bit 8 (ucast (p ! 1)) + ucast (p ! 0)"

definition long_from :: "u8 list \<Rightarrow> u32" where
  "long_from p = push_bit 24 (ucast (p ! 3)) + push_bit 16 (ucast (p ! 2))
     + push_bit 8 (ucast (p ! 1)) + ucast (p ! 0)"

text \<open>The bytes of a 32-bit variable in memory, lowest address first.\<close>

definition bytes_of_u32 :: "u32 \<Rightarrow> u8 list" where
  "bytes_of_u32 w = [ucast w, ucast (drop_bit 8 w), ucast (drop_bit 16 w), ucast (drop_bit 24 w)]"

section \<open>Generic lemmas\<close>

text \<open>Updated functions stay unevaluated until they are applied.\<close>

declare fun_upd_apply [code]

lemma unat_u8_less [pico_arith]: "unat (x :: u8) < 256"
  using unsigned_less [of x] by simp

lemma unat_u16_less [pico_arith]: "unat (x :: u16) < 65536"
  using unsigned_less [of x] by simp

lemma unat_u32_less [pico_arith]: "unat (x :: u32) < 4294967296"
  using unsigned_less [of x] by simp

lemma unat_plus_no_wrap:
  "unat x + unat y < 2 ^ LENGTH('a) \<Longrightarrow> unat (x + y) = unat x + unat (y :: 'a::len word)"
  by (simp add: unat_word_ariths)

lemma unat_drop_bit_div: "unat (drop_bit n (x :: 'a::len word)) = unat x div 2 ^ n"
  by (metis unat_drop_bit_eq drop_bit_eq_div)

lemma unat_take_bit_mod: "unat (take_bit n (x :: 'a::len word)) = unat x mod 2 ^ n"
  by (metis unsigned_take_bit_eq take_bit_eq_mod)

lemma unat_ucast_mod: "unat (ucast (x :: 'a::len word) :: 'b::len word) = unat x mod 2 ^ LENGTH('b)"
  by (metis take_bit_eq_mod unsigned_ucast_eq)

lemma unat_ucast_up:
  assumes "LENGTH('a) \<le> LENGTH('b)"
  shows "unat (ucast (x :: 'a::len word) :: 'b::len word) = unat x"
proof -
  have "unat x < 2 ^ LENGTH('a)" by simp
  also have "(2 :: nat) ^ LENGTH('a) \<le> 2 ^ LENGTH('b)" using assms by simp
  finally show ?thesis by (simp add: unat_ucast_mod)
qed

lemma unat_of_nat_u32: "k < 2 ^ 32 \<Longrightarrow> unat (of_nat k :: u32) = k"
  by (simp add: unsigned_of_nat take_bit_nat_eq_self)

text \<open>The value of a word read as a signed number.\<close>

lemma sint_u32: "sint (x :: u32) = (if uint x < 2 ^ 31 then uint x else uint x - 2 ^ 32)"
proof -
  have r: "0 \<le> uint x" "uint x < 2 ^ 32" using uint_lt2p [of x] by simp_all
  have s: "sint x = signed_take_bit 31 (uint x)" by (simp add: sint_uint)
  show ?thesis
  proof (cases "uint x < 2 ^ 31")
    case True
    have "signed_take_bit 31 (uint x) = uint x"
    proof (rule signed_take_bit_int_eq_self)
      show "- (2 ^ 31) \<le> uint x" by (rule order_trans [OF _ r(1)]) simp
    qed (rule True)
    then show ?thesis using True s by simp
  next
    case False
    have "take_bit (Suc 31) (uint x) = take_bit (Suc 31) (uint x - 2 ^ 32)"
      using r by (simp add: take_bit_eq_mod)
    then have "signed_take_bit 31 (uint x) = signed_take_bit 31 (uint x - 2 ^ 32)"
      by (simp only: signed_take_bit_eq_iff_take_bit_eq)
    also have "\<dots> = uint x - 2 ^ 32"
    proof (rule signed_take_bit_int_eq_self)
      show "- (2 ^ 31) \<le> uint x - 2 ^ 32" using False by simp
      show "uint x - 2 ^ 32 < 2 ^ 31" using r(2) by simp
    qed
    finally show ?thesis using False s by simp
  qed
qed

lemma and_0xFF: "(x :: 'a::len word) AND 0xFF = take_bit 8 x"
proof -
  have "(0xFF :: 'a word) = mask 8" by (simp add: mask_eq_exp_minus_1)
  then show ?thesis by (simp only: take_bit_eq_mask)
qed

lemma short_be_or: "short_be x = push_bit 8 (take_bit 8 x) OR take_bit 8 (drop_bit 8 x)"
  by (simp only: short_be_def and_0xFF)

lemma long_be_or:
  "long_be x = take_bit 8 (drop_bit 24 x) OR push_bit 8 (take_bit 8 (drop_bit 16 x))
     OR push_bit 16 (take_bit 8 (drop_bit 8 x)) OR push_bit 24 (take_bit 8 x)"
proof -
  let ?b0 = "take_bit 8 x" and ?b1 = "take_bit 8 (drop_bit 8 x)"
  let ?b2 = "take_bit 8 (drop_bit 16 x)" and ?b3 = "take_bit 8 (drop_bit 24 x)"
  have 1: "?b3 + push_bit 8 ?b2 = ?b3 OR push_bit 8 ?b2"
    by (rule disjunctive_add) (auto simp: bit_simps)
  have 2: "(?b3 OR push_bit 8 ?b2) + push_bit 16 ?b1 = ?b3 OR push_bit 8 ?b2 OR push_bit 16 ?b1"
    by (subst disjunctive_add) (auto simp: bit_simps or.assoc)
  have 3: "(?b3 OR push_bit 8 ?b2 OR push_bit 16 ?b1) + push_bit 24 ?b0
      = ?b3 OR push_bit 8 ?b2 OR push_bit 16 ?b1 OR push_bit 24 ?b0"
    by (subst disjunctive_add) (auto simp: bit_simps or.assoc)
  show ?thesis by (simp only: long_be_def Let_def and_0xFF 1 2 3)
qed

lemma bit_short_be: "bit (short_be x) n \<longleftrightarrow>
   (if n < 8 then bit x (n + 8) else n < 16 \<and> bit x (n - 8))"
  by (auto simp: short_be_or bit_simps ac_simps)

lemma bit_long_be: "bit (long_be x) n \<longleftrightarrow>
   (if n < 8 then bit x (n + 24) else if n < 16 then bit x (n + 8)
    else if n < 24 then bit x (n - 8) else n < 32 \<and> bit x (n - 24))"
proof -
  have "n < 8 \<or> 8 \<le> n \<and> n < 16 \<or> 16 \<le> n \<and> n < 24 \<or> 24 \<le> n" by arith
  then show ?thesis
    by (elim disjE) (auto simp: long_be_or bit_simps ac_simps)
qed

lemma short_be_short_be [simp]: "short_be (short_be x) = x"
proof (rule bit_word_eqI)
  fix n assume "n < LENGTH(16)"
  then have "n < 8 \<or> 8 \<le> n \<and> n < 16" by simp arith
  then show "bit (short_be (short_be x)) n = bit x n"
    by (elim disjE) (auto simp: bit_short_be)
qed

lemma long_be_long_be [simp]: "long_be (long_be x) = x"
proof (rule bit_word_eqI)
  fix n assume "n < LENGTH(32)"
  then have "n < 8 \<or> 8 \<le> n \<and> n < 16 \<or> 16 \<le> n \<and> n < 24 \<or> 24 \<le> n \<and> n < 32" by simp arith
  then show "bit (long_be (long_be x)) n = bit x n"
    by (elim disjE) (auto simp: bit_long_be)
qed

lemma long_be_inject [simp]: "long_be x = long_be y \<longleftrightarrow> x = y"
  by (metis long_be_long_be)

lemma short_be_inject [simp]: "short_be x = short_be y \<longleftrightarrow> x = y"
  by (metis short_be_short_be)

lemma long_from_bytes: "long_from (bytes_of_u32 w) = w"
proof -
  let ?b0 = "take_bit 8 w" and ?b1 = "push_bit 8 (take_bit 8 (drop_bit 8 w))"
  let ?b2 = "push_bit 16 (take_bit 8 (drop_bit 16 w))" and ?b3 = "push_bit 24 (take_bit 8 (drop_bit 24 w))"
  have a: "(push_bit 24 (ucast (ucast (drop_bit 24 w) :: u8)) :: u32) = ?b3"
    "(push_bit 16 (ucast (ucast (drop_bit 16 w) :: u8)) :: u32) = ?b2"
    "(push_bit 8 (ucast (ucast (drop_bit 8 w) :: u8)) :: u32) = ?b1"
    "(ucast (ucast w :: u8) :: u32) = ?b0"
    by (rule bit_word_eqI; auto simp: bit_simps)+
  have 1: "?b3 + ?b2 = ?b3 OR ?b2" by (rule disjunctive_add) (auto simp: bit_simps)
  have 2: "(?b3 OR ?b2) + ?b1 = ?b3 OR ?b2 OR ?b1" by (subst disjunctive_add) (auto simp: bit_simps or.assoc)
  have 3: "(?b3 OR ?b2 OR ?b1) + ?b0 = ?b3 OR ?b2 OR ?b1 OR ?b0" by (subst disjunctive_add) (auto simp: bit_simps or.assoc)
  have "long_from (bytes_of_u32 w) = ?b3 + ?b2 + ?b1 + ?b0"
    using a by (simp add: long_from_def bytes_of_u32_def)
  also have "\<dots> = ?b3 OR ?b2 OR ?b1 OR ?b0" by (simp only: 1 2 3)
  also have "\<dots> = w"
  proof (rule bit_word_eqI)
    fix n assume "n < LENGTH(32)"
    then have "n < 8 \<or> 8 \<le> n \<and> n < 16 \<or> 16 \<le> n \<and> n < 24 \<or> 24 \<le> n \<and> n < 32" by simp arith
    then show "bit (?b3 OR ?b2 OR ?b1 OR ?b0) n = bit w n" by (elim disjE) (auto simp: bit_simps)
  qed
  finally show ?thesis .
qed

end
