(* ===== verification/Checksum.thy ===== *)
theory Checksum
  imports Pico_Prelude
begin

text \<open>
  The Internet checksum of \<open>stack/pico_frame.c\<close>: the 32-bit accumulator over little-endian
  half words, the end-around folding, and the one- and two-buffer entry points.  The lemmas
  show that the routine computes the RFC 1071 checksum of the big-endian words although it
  adds the words in host order, that the sum of two buffers is the sum of their
  concatenation, and that a receiver accepts what a sender stored.
\<close>

section \<open>The code\<close>

text \<open>The loop \<open>while (buf < stop) sum += *buf++\<close> over the bytes between the two pointers.\<close>

fun checksum_words :: "u32 \<Rightarrow> u8 list \<Rightarrow> u32" where
  "checksum_words sm (a # b # rest) =
     checksum_words (sm + ucast (push_bit 8 (ucast b :: u16) + ucast a)) rest"
| "checksum_words sm _ = sm"

definition pico_checksum_adder :: "u32 \<Rightarrow> u8 list \<Rightarrow> nat \<Rightarrow> u32" where
  "pico_checksum_adder sm data len =
     (let (len, sm) = (if odd len then (len - 1, sm + ucast (data ! (len - 1))) else (len, sm))
      in checksum_words sm (take len data))"

lemma and_0xFFFF: "(s :: u32) AND 0xFFFF = take_bit 16 s"
proof -
  have "(0xFFFF :: u32) = mask 16" by (simp add: mask_eq_exp_minus_1)
  then show ?thesis by (simp only: take_bit_eq_mask)
qed

lemma unat_fold_step:
  "unat ((s AND 0x0000FFFF) + drop_bit 16 (s :: u32)) = unat s mod 65536 + unat s div 65536"
proof -
  have b: "unat s < 4294967296" by (rule unat_u32_less)
  have 1: "unat (s AND 0x0000FFFF) = unat s mod 65536"
    by (simp only: and_0xFFFF unat_take_bit_mod) simp
  have 2: "unat (drop_bit 16 s) = unat s div 65536"
    by (simp only: unat_drop_bit_div) simp
  have "unat s div 65536 < 65536" using b by (simp add: div_less_iff_less_mult)
  moreover have "unat s mod 65536 < 65536" by simp
  ultimately have "unat s mod 65536 + unat s div 65536 < 2 ^ 32" by simp
  then show ?thesis by (simp add: unat_plus_no_wrap 1 2 del: power_numeral)
qed

lemma drop16_nz: "drop_bit 16 (s :: u32) \<noteq> 0 \<longleftrightarrow> 65536 \<le> unat s"
  by (simp only: word_unat_eq_iff unat_drop_bit_div) (simp add: div_greater_zero_iff)

function checksum_fold :: "u32 \<Rightarrow> u32" where
  "checksum_fold sm =
     (if drop_bit 16 sm \<noteq> 0 then checksum_fold ((sm AND 0x0000FFFF) + drop_bit 16 sm) else sm)"
  by pat_completeness auto

termination
proof (relation "measure unat")
  fix sm :: u32 assume "drop_bit 16 sm \<noteq> 0"
  then have "65536 \<le> unat sm" by (simp only: drop16_nz)
  then have "unat sm mod 65536 + unat sm div 65536 < unat sm"
    using div_mult_mod_eq [of "unat sm" 65536] by linarith
  then show "((sm AND 0x0000FFFF) + drop_bit 16 sm, sm) \<in> measure unat"
    by (simp add: unat_fold_step)
qed simp

declare checksum_fold.simps [simp del]

definition pico_checksum_finalize :: "u32 \<Rightarrow> u16" where
  "pico_checksum_finalize sm = short_be (ucast (NOT (checksum_fold sm)))"

definition pico_checksum :: "u8 list \<Rightarrow> nat \<Rightarrow> u16" where
  "pico_checksum inbuf len = pico_checksum_finalize (pico_checksum_adder 0 inbuf len)"

definition pico_dualbuffer_checksum :: "u8 list \<Rightarrow> nat \<Rightarrow> u8 list \<Rightarrow> nat \<Rightarrow> u16" where
  "pico_dualbuffer_checksum inbuf1 len1 inbuf2 len2 =
     pico_checksum_finalize
       (pico_checksum_adder (pico_checksum_adder 0 inbuf1 len1) inbuf2 len2)"

section \<open>The reference checksum of RFC 1071\<close>

text \<open>
  The sum of the big-endian 16-bit words (an odd last byte is padded with a zero byte) and
  the one's complement of its end-around sum, over the naturals.
\<close>

fun be_words_sum :: "u8 list \<Rightarrow> nat" where
  "be_words_sum (a # b # rest) = 256 * unat a + unat b + be_words_sum rest"
| "be_words_sum [a] = 256 * unat a"
| "be_words_sum [] = 0"

definition ones_complement :: "nat \<Rightarrow> nat" where
  "ones_complement n = (if n = 0 then 0 else (n - 1) mod 65535 + 1)"

definition rfc1071 :: "u8 list \<Rightarrow> nat" where
  "rfc1071 bs = 65535 - ones_complement (be_words_sum bs)"

text \<open>What the code adds instead: the words in the byte order of the host.\<close>

fun le_words_sum :: "u8 list \<Rightarrow> nat" where
  "le_words_sum (a # b # rest) = unat a + 256 * unat b + le_words_sum rest"
| "le_words_sum [a] = unat a"
| "le_words_sum [] = 0"

section \<open>The accumulator\<close>

lemma unat_le_word: "unat (push_bit 8 (ucast (b :: u8) :: u16) + ucast (a :: u8)) = unat a + 256 * unat b"
proof -
  have a: "unat (ucast a :: u16) = unat a" by (simp add: unat_ucast_up)
  have b: "unat (ucast b :: u16) = unat b" by (simp add: unat_ucast_up)
  have ab: "256 * unat b + unat a < 65536" "unat b < 256"
    using unat_u8_less [of a] unat_u8_less [of b] by linarith+
  have p: "unat (push_bit 8 (ucast b :: u16)) = 256 * unat b"
    using ab by (simp add: push_bit_eq_mult unat_word_ariths b)
  show ?thesis using ab by (simp add: unat_plus_no_wrap p a)
qed

lemma checksum_words_add: "checksum_words (s + c) xs = checksum_words s xs + c"
proof (induction s xs rule: checksum_words.induct)
  case (1 s a b rest)
  let ?w = "ucast (push_bit 8 (ucast b :: u16) + ucast a) :: u32"
  have "checksum_words (s + c + ?w) rest = checksum_words ((s + ?w) + c) rest"
    by (simp add: ac_simps)
  with 1 show ?case by simp
qed simp_all

lemma checksum_words_append:
  "even (length xs) \<Longrightarrow> checksum_words s (xs @ ys) = checksum_words (checksum_words s xs) ys"
  by (induction s xs rule: checksum_words.induct) auto

lemma le_words_sum_append:
  "even (length xs) \<Longrightarrow> le_words_sum (xs @ ys) = le_words_sum xs + le_words_sum ys"
  by (induction xs rule: le_words_sum.induct) auto

lemma be_words_sum_append:
  "even (length xs) \<Longrightarrow> be_words_sum (xs @ ys) = be_words_sum xs + be_words_sum ys"
  by (induction xs rule: be_words_sum.induct) auto

lemma unat_checksum_words:
  "even (length xs) \<Longrightarrow> unat s + le_words_sum xs < 2 ^ 32 \<Longrightarrow>
   unat (checksum_words s xs) = unat s + le_words_sum xs"
proof (induction s xs rule: checksum_words.induct)
  case (1 s a b rest)
  let ?w = "push_bit 8 (ucast b :: u16) + ucast a"
  have w: "unat (ucast ?w :: u32) = unat a + 256 * unat b"
    by (subst unat_ucast_up) (simp, rule unat_le_word)
  have "unat (s + ucast ?w) = unat s + (unat a + 256 * unat b)"
    using "1.prems" by (subst unat_plus_no_wrap) (simp_all add: w)
  with 1 show ?case by simp
qed auto

lemma le_words_sum_bound: "le_words_sum xs \<le> 65535 * ((length xs + 1) div 2)"
proof (induction xs rule: le_words_sum.induct)
  case (1 a b rest)
  have "unat a < 256" "unat b < 256" by (rule unat_u8_less)+
  with 1 show ?case by simp
next
  case (2 a)
  have "unat a < 256" by (rule unat_u8_less)
  then show ?case by simp
qed simp

lemma unat_pico_checksum_adder:
  assumes "len \<le> length data" "unat s + le_words_sum (take len data) < 2 ^ 32"
  shows "unat (pico_checksum_adder s data len) = unat s + le_words_sum (take len data)"
proof (cases "odd len")
  case False
  with assms show ?thesis by (simp add: pico_checksum_adder_def unat_checksum_words)
next
  case True
  then obtain n where n: "len = Suc n" "even n" by (cases len) auto
  with assms(1) have tk: "take len data = take n data @ [data ! n]"
    by (simp add: take_Suc_conv_app_nth)
  have le: "le_words_sum (take len data) = le_words_sum (take n data) + unat (data ! n)"
    using n assms(1) unfolding tk by (subst le_words_sum_append) simp_all
  have b: "unat (ucast (data ! n) :: u32) = unat (data ! n)" by (simp add: unat_ucast_up)
  have "unat (s + ucast (data ! n)) = unat s + unat (data ! n)"
    using assms(2) le by (subst unat_plus_no_wrap) (simp_all add: b)
  with n assms le show ?thesis
    by (simp add: pico_checksum_adder_def unat_checksum_words)
qed

section \<open>Folding\<close>

lemma ones_complement_cong:
  "0 < m \<Longrightarrow> 0 < n \<Longrightarrow> m mod 65535 = n mod 65535 \<Longrightarrow> ones_complement m = ones_complement n"
proof -
  assume m: "0 < m" and n: "0 < n" and eq: "m mod 65535 = n mod 65535"
  have "(m - 1) mod 65535 = (n - 1) mod 65535"
  proof -
    from eq obtain p q where "m + 65535 * p = n + 65535 * q" by (auto simp: nat_mod_eq_iff)
    with m n have "(m - 1) + 65535 * p = (n - 1) + 65535 * q" by linarith
    then show ?thesis by (auto simp: nat_mod_eq_iff)
  qed
  with m n show ?thesis by (simp add: ones_complement_def)
qed

lemma ones_complement_id: "n < 65536 \<Longrightarrow> ones_complement n = n"
  by (auto simp: ones_complement_def)

lemma ones_complement_bound: "ones_complement n < 65536"
  using mod_less_divisor [of 65535 "n - 1"] by (simp add: ones_complement_def del: mod_less_divisor)

lemma ones_complement_mod: "ones_complement n mod 65535 = n mod 65535"
proof (cases n)
  case (Suc k)
  then show ?thesis by (simp add: ones_complement_def mod_Suc_eq)
qed (simp add: ones_complement_def)

lemma ones_complement_eq_0: "ones_complement n = 0 \<longleftrightarrow> n = 0"
  by (simp add: ones_complement_def)

lemma unat_checksum_fold: "unat (checksum_fold s) = ones_complement (unat s)"
proof (induction s rule: checksum_fold.induct)
  case (1 s)
  show ?case
  proof (cases "drop_bit 16 s \<noteq> 0")
    case True
    then have big: "65536 \<le> unat s" by (simp only: drop16_nz)
    let ?s' = "(s AND 0x0000FFFF) + drop_bit 16 s"
    have s': "unat ?s' = unat s mod 65536 + unat s div 65536" by (rule unat_fold_step)
    have split: "unat s = 65535 * (unat s div 65536) + unat ?s'"
      using div_mult_mod_eq [of "unat s" 65536] unfolding s' by linarith
    have "0 < unat s div 65536" using big by (simp add: div_greater_zero_iff)
    then have pos: "0 < unat ?s'" unfolding s' by simp
    have "unat ?s' mod 65535 = unat s mod 65535" by (subst split) simp
    then have "ones_complement (unat ?s') = ones_complement (unat s)"
      using pos big by (intro ones_complement_cong) auto
    with 1 True show ?thesis by (subst checksum_fold.simps) simp
  next
    case False
    then have "unat s < 65536" using drop16_nz [of s] by linarith
    with False show ?thesis by (subst checksum_fold.simps) (simp add: ones_complement_id)
  qed
qed

lemma unat_short_be: "unat (short_be x) = 256 * (unat x mod 256) + unat x div 256"
proof -
  have lo: "unat (push_bit 8 (take_bit 8 x)) = 256 * (unat x mod 256)"
    by (simp add: push_bit_eq_mult unat_word_ariths unat_take_bit_mod)
  have hi: "unat (take_bit 8 (drop_bit 8 x)) = unat x div 256"
    using unat_u16_less [of x]
    by (simp only: unat_take_bit_mod unat_drop_bit_div) simp
  have "short_be x = push_bit 8 (take_bit 8 x) + take_bit 8 (drop_bit 8 x)"
    unfolding short_be_or by (rule disjunctive_add [symmetric]) (auto simp: bit_simps)
  moreover have "256 * (unat x mod 256) + unat x div 256 < 65536"
    using unat_u16_less [of x] mod_less_divisor [of 256 "unat x"]
      div_less_iff_less_mult [of 256 "unat x" 256] by linarith
  ultimately show ?thesis by (simp add: unat_plus_no_wrap lo hi)
qed

lemma unat_NOT_u16: "unat (NOT (x :: u16)) = 65535 - unat x"
proof -
  have "NOT x = - 1 - x" by (simp add: not_eq_complement)
  moreover have "x \<le> - 1" by simp
  ultimately show ?thesis by (simp add: unat_sub unsigned_minus_1_eq_mask mask_eq_exp_minus_1)
qed

lemma ucast_NOT_u32: "(ucast (NOT (x :: u32)) :: u16) = NOT (ucast x)"
  by (rule bit_word_eqI) (simp add: bit_simps)

section \<open>The checksum is the one of RFC 1071\<close>

lemma be_le_words_sum: "be_words_sum xs mod 65535 = (256 * le_words_sum xs) mod 65535"
proof (induction xs rule: be_words_sum.induct)
  case (1 a b rest)
  have "256 * le_words_sum (a # b # rest)
      = (256 * unat a + unat b + 256 * le_words_sum rest) + 65535 * unat b" by simp
  then have "(256 * le_words_sum (a # b # rest)) mod 65535
      = (256 * unat a + unat b + 256 * le_words_sum rest) mod 65535" by (simp only: mod_mult_self2)
  also have "\<dots> = (256 * unat a + unat b + be_words_sum rest) mod 65535"
    using 1 by (metis mod_add_right_eq)
  finally show ?case by simp
qed simp_all

lemma be_words_sum_0: "be_words_sum xs = 0 \<longleftrightarrow> le_words_sum xs = 0"
  by (induction xs rule: be_words_sum.induct) auto

lemma unat_pico_checksum_finalize:
  "unat (pico_checksum_finalize s) =
     (let f = 65535 - ones_complement (unat s) in 256 * (f mod 256) + f div 256)"
proof -
  have "unat (ucast (checksum_fold s) :: u16) = ones_complement (unat s)"
    by (simp add: unat_ucast_mod unat_checksum_fold ones_complement_bound)
  then have "unat (NOT (ucast (checksum_fold s) :: u16)) = 65535 - ones_complement (unat s)"
    by (simp only: unat_NOT_u16)
  then show ?thesis
    by (simp add: pico_checksum_finalize_def unat_short_be Let_def unat_NOT_u16 ucast_NOT_u32)
qed

lemma swapped_complement:
  assumes z: "m = 0 \<longleftrightarrow> l = 0" and c: "m mod 65535 = (256 * l) mod 65535"
  shows "(let f = 65535 - ones_complement l in 256 * (f mod 256) + f div 256)
     = 65535 - ones_complement m"
proof -
  define f where "f = 65535 - ones_complement l"
  define r where "r = 256 * (f mod 256) + f div 256"
  have f: "f < 65536" unfolding f_def by simp
  have lf: "ones_complement l + f = 65535"
    using ones_complement_bound [of l] unfolding f_def by simp
  have r: "r < 65536"
    using f mod_less_divisor [of 256 f] div_less_iff_less_mult [of 256 f 256]
    unfolding r_def by linarith
  have "256 * f + 0 = r + 65535 * (f div 256)"
    using div_mult_mod_eq [of f 256] unfolding r_def by linarith
  then have "(256 * f) mod 65535 = r mod 65535" by (metis add_0_right mod_mult_self2)
  then have "(m + r) mod 65535 = (256 * l + 256 * f) mod 65535"
    by (metis c mod_add_cong)
  also have "\<dots> = (256 * (l mod 65535) + 256 * f) mod 65535"
    by (metis mod_add_left_eq mod_mult_right_eq)
  also have "\<dots> = (256 * (ones_complement l + f)) mod 65535"
    by (metis distrib_left mod_add_left_eq mod_mult_right_eq ones_complement_mod)
  also have "\<dots> = 0" by (simp add: lf)
  finally have sum0: "(m + r) mod 65535 = 0" .
  have r_top: "r = 65535 \<longleftrightarrow> m = 0"
  proof
    assume "m = 0"
    then have "f = 65535" using z by (simp add: f_def ones_complement_def)
    then show "r = 65535" by (simp add: r_def)
  next
    assume "r = 65535"
    then have "f mod 256 = 255 \<and> f div 256 = 255"
      using f mod_less_divisor [of 256 f] div_less_iff_less_mult [of 256 f 256]
      unfolding r_def by linarith
    then have "f = 65535" using div_mult_mod_eq [of f 256] by linarith
    then have "ones_complement l = 0" using lf by simp
    then show "m = 0" using z by (simp add: ones_complement_eq_0)
  qed
  have "r = 65535 - ones_complement m"
  proof (cases "m = 0")
    case True
    with r_top show ?thesis by (simp add: ones_complement_def)
  next
    case False
    then have "r < 65535" using r r_top by linarith
    have g: "0 < ones_complement m" "ones_complement m \<le> 65535"
      using False ones_complement_bound [of m] by (simp_all add: ones_complement_def)
    have "(ones_complement m + r) mod 65535 = 0"
      using sum0 by (metis mod_add_left_eq ones_complement_mod)
    then obtain k where "ones_complement m + r = 65535 * k" by (auto simp: mod_eq_0_iff_dvd dvd_def)
    moreover from this have "k = 1"
    proof -
      have "0 < 65535 * k" "65535 * k < 65535 * 2"
        using g \<open>r < 65535\<close> calculation by linarith+
      then show ?thesis by simp
    qed
    ultimately show ?thesis by simp
  qed
  then show ?thesis by (simp add: r_def f_def Let_def)
qed

lemma pico_checksum_rfc1071_lemma:
  assumes "len \<le> length data" "len \<le> 131072"
  shows "unat (pico_checksum data len) = rfc1071 (take len data)"
proof -
  let ?bs = "take len data"
  have "le_words_sum ?bs \<le> 65535 * ((len + 1) div 2)"
    using le_words_sum_bound [of ?bs] assms(1) by (simp add: min_absorb2)
  also have "(len + 1) div 2 \<le> 65536" using assms(2) by simp
  finally have "le_words_sum ?bs < 2 ^ 32" by simp
  then have "unat (pico_checksum_adder 0 data len) = le_words_sum ?bs"
    using assms(1) by (simp add: unat_pico_checksum_adder)
  then show ?thesis
    using swapped_complement [OF be_words_sum_0 be_le_words_sum]
    by (simp add: pico_checksum_def unat_pico_checksum_finalize rfc1071_def)
qed

text \<open>C32: over any buffer of at most 128 KiB, the code's routine, which adds the words in host
  byte order and swaps the result, returns exactly the RFC 1071 checksum of the big-endian
  words, odd lengths included.\<close>

theorem pico_checksum_is_rfc1071:
  assumes "len \<le> length data" "len \<le> 131072"
  shows "unat (pico_checksum data len) = rfc1071 (take len data)"
  using assms by (rule pico_checksum_rfc1071_lemma)

theorem pico_checksum_is_rfc1071_witness:
  "unat (pico_checksum [0x00, 0x01, 0xF2, 0x03, 0xF4] 5) = rfc1071 [0x00, 0x01, 0xF2, 0x03, 0xF4]"
  using pico_checksum_is_rfc1071 [of 5 "[0x00, 0x01, 0xF2, 0x03, 0xF4]"] by simp

section \<open>Sender and receiver\<close>

text \<open>
  The sender computes the checksum with the field zeroed and stores it in network byte order
  (\<open>hdr->crc = short_be(pico_checksum(...))\<close>): high byte first.
\<close>

definition crc_bytes :: "u16 \<Rightarrow> u8 list" where
  "crc_bytes c = [ucast (drop_bit 8 c), ucast c]"

lemma crc_bytes_sum: "be_words_sum (crc_bytes c) = unat c"
proof -
  have "unat (ucast (drop_bit 8 c) :: u8) = unat c div 256"
    using unat_u16_less [of c] by (simp only: unat_ucast_mod unat_drop_bit_div) simp
  moreover have "unat (ucast c :: u8) = unat c mod 256" by (simp add: unat_ucast_mod)
  ultimately show ?thesis by (simp add: crc_bytes_def)
qed

lemma ones_complement_total:
  assumes "c = 65535 - ones_complement m"
  shows "ones_complement (m + c) = 65535"
proof (cases "m = 0")
  case True
  with assms show ?thesis by (simp add: ones_complement_def)
next
  case False
  have "ones_complement m + c = 65535" using assms ones_complement_bound [of m] by simp
  then have "(m + c) mod 65535 = 65535 mod 65535"
    by (metis mod_add_left_eq ones_complement_mod)
  then have "ones_complement (m + c) = ones_complement 65535"
    using False by (intro ones_complement_cong) simp_all
  then show ?thesis by (simp add: ones_complement_def)
qed

lemma checksum_stored:
  assumes "even (length pre)" "length pre + 2 + length post \<le> 131072"
  shows "pico_checksum (pre @ crc_bytes (pico_checksum (pre @ [0, 0] @ post) (length pre + 2 + length post)) @ post)
           (length pre + 2 + length post) = 0"
proof -
  let ?n = "length pre + 2 + length post"
  let ?c = "pico_checksum (pre @ [0, 0] @ post) ?n"
  let ?m = "be_words_sum pre + be_words_sum post"
  have "unat ?c = 65535 - ones_complement ?m"
    using assms by (simp add: pico_checksum_rfc1071_lemma rfc1071_def be_words_sum_append)
  then have "ones_complement (?m + unat ?c) = 65535" by (rule ones_complement_total)
  moreover have "be_words_sum (pre @ crc_bytes ?c @ post) = ?m + unat ?c"
    using assms(1) crc_bytes_sum [of ?c]
    by (simp add: be_words_sum_append crc_bytes_def)
  ultimately have "unat (pico_checksum (pre @ crc_bytes ?c @ post) ?n) = 0"
    using assms(2) by (subst pico_checksum_rfc1071_lemma) (simp_all add: rfc1071_def crc_bytes_def)
  then show ?thesis by (simp add: unat_eq_zero)
qed

text \<open>C33: whatever a sender puts around a zeroed checksum field at an even offset, storing the
  code's own checksum there in network byte order makes the receiver's checksum over the whole
  buffer zero, which is the test the stack applies to received headers.\<close>

theorem pico_checksum_verifies:
  assumes "even (length pre)" "length pre + 2 + length post \<le> 131072"
  shows "pico_checksum (pre @ crc_bytes (pico_checksum (pre @ [0, 0] @ post) (length pre + 2 + length post)) @ post)
           (length pre + 2 + length post) = 0"
  using assms by (rule checksum_stored)

theorem pico_checksum_verifies_witness:
  "pico_checksum ([0x45, 0] @ crc_bytes (pico_checksum ([0x45, 0] @ [0, 0] @ [7]) 5) @ [7]) 5 = 0"
proof -
  have n: "length [0x45 :: u8, 0] + 2 + length [7 :: u8] = 5" by simp
  show ?thesis using pico_checksum_verifies [of "[0x45, 0]" "[7]", unfolded n] by simp
qed

lemma dualbuffer_concat:
  assumes "even len1" "len1 \<le> length b1" "len2 \<le> length b2"
  shows "pico_dualbuffer_checksum b1 len1 b2 len2
       = pico_checksum (take len1 b1 @ take len2 b2) (len1 + len2)"
proof (cases "odd len2")
  case False
  with assms show ?thesis
    by (simp add: pico_dualbuffer_checksum_def pico_checksum_def pico_checksum_adder_def
        checksum_words_append)
next
  case True
  then obtain n where n: "len2 = Suc n" "even n" by (cases len2) auto
  then have "checksum_words (0 + ucast (b2 ! n)) (take len1 b1 @ take n b2)
      = checksum_words (checksum_words 0 (take len1 b1) + ucast (b2 ! n)) (take n b2)"
    using assms by (simp only: checksum_words_append checksum_words_add) (simp add: checksum_words_append checksum_words_add)
  with assms n show ?thesis
    by (simp add: pico_dualbuffer_checksum_def pico_checksum_def pico_checksum_adder_def nth_append)
qed

text \<open>The two-buffer routine used for TCP and UDP pseudo headers returns the checksum of the
  two buffers laid one after the other, provided the first length is even, as the comment on
  the routine demands.\<close>

theorem pico_dualbuffer_checksum_concat:
  assumes "even len1" "len1 \<le> length b1" "len2 \<le> length b2"
  shows "pico_dualbuffer_checksum b1 len1 b2 len2
       = pico_checksum (take len1 b1 @ take len2 b2) (len1 + len2)"
  using assms by (rule dualbuffer_concat)

theorem pico_dualbuffer_checksum_concat_witness:
  "pico_dualbuffer_checksum [1, 2] 2 [3, 4, 5] 3 = pico_checksum [1, 2, 3, 4, 5] 5"
  using pico_dualbuffer_checksum_concat [of 2 "[1, 2]" 3 "[3, 4, 5]"] by simp

end
