(* ===== verification/PTree.thy ===== *)
theory PTree
  imports Pico_Prelude "HOL-Library.Monad_Syntax"
begin

text \<open>
  The container of \<open>stack/pico_tree.c\<close>: a red-black tree of nodes linked by parent and child
  pointers, with one sentinel node \<open>LEAF\<close>.  The model keeps the pointers: node addresses are
  naturals, the sentinel is address 0, and every operation is the sequence of pointer writes
  of the code.  Loops that follow pointers are \<open>partial_function (option)\<close>, so not terminating
  is the value \<open>None\<close>; the proofs are in the theories that follow.

  \<open>tree->compare\<close> is the argument \<open>cmp\<close> of the operations.  The allocator is the field \<open>brk\<close>
  (the next address never handed out) and the argument \<open>mem_ok\<close> (whether \<open>PICO_ZALLOC\<close>
  succeeds).  Every tree has its own copy of the sentinel, which the program shares.
\<close>

section \<open>Nodes and trees\<close>

datatype tree_color = RED | BLACK

record 'k pico_tree_node =
  keyValue :: "'k option"
  parent :: nat
  leftChild :: nat
  rightChild :: nat
  color :: tree_color

record 'k pico_tree =
  root :: nat
  nodes :: "nat \<Rightarrow> 'k pico_tree_node"
  brk :: nat

abbreviation LEAF :: nat where "LEAF \<equiv> 0"

definition leaf_node :: "'k pico_tree_node" where
  "leaf_node = \<lparr>keyValue = None, parent = LEAF, leftChild = LEAF, rightChild = LEAF, color = BLACK\<rparr>"

definition empty_tree :: "'k pico_tree" where
  "empty_tree = \<lparr>root = LEAF, nodes = (\<lambda>_. leaf_node), brk = 1\<rparr>"

text \<open>\<open>node->field\<close> and \<open>node->field = v\<close>.\<close>

abbreviation parent_of :: "'k pico_tree \<Rightarrow> nat \<Rightarrow> nat" where
  "parent_of t x \<equiv> parent (nodes t x)"
abbreviation left_of :: "'k pico_tree \<Rightarrow> nat \<Rightarrow> nat" where
  "left_of t x \<equiv> leftChild (nodes t x)"
abbreviation right_of :: "'k pico_tree \<Rightarrow> nat \<Rightarrow> nat" where
  "right_of t x \<equiv> rightChild (nodes t x)"
abbreviation color_of :: "'k pico_tree \<Rightarrow> nat \<Rightarrow> tree_color" where
  "color_of t x \<equiv> color (nodes t x)"
abbreviation key_of :: "'k pico_tree \<Rightarrow> nat \<Rightarrow> 'k" where
  "key_of t x \<equiv> the (keyValue (nodes t x))"
abbreviation GRANPA :: "'k pico_tree \<Rightarrow> nat \<Rightarrow> nat" where
  "GRANPA t x \<equiv> parent_of t (parent_of t x)"
abbreviation AM_I_LEFT_CHILD :: "'k pico_tree \<Rightarrow> nat \<Rightarrow> bool" where
  "AM_I_LEFT_CHILD t x \<equiv> x = left_of t (parent_of t x)"
abbreviation AM_I_RIGHT_CHILD :: "'k pico_tree \<Rightarrow> nat \<Rightarrow> bool" where
  "AM_I_RIGHT_CHILD t x \<equiv> x = right_of t (parent_of t x)"

definition set_parent :: "'k pico_tree \<Rightarrow> nat \<Rightarrow> nat \<Rightarrow> 'k pico_tree" where
  "set_parent t x v = t\<lparr>nodes := (nodes t)(x := (nodes t x)\<lparr>parent := v\<rparr>)\<rparr>"
definition set_left :: "'k pico_tree \<Rightarrow> nat \<Rightarrow> nat \<Rightarrow> 'k pico_tree" where
  "set_left t x v = t\<lparr>nodes := (nodes t)(x := (nodes t x)\<lparr>leftChild := v\<rparr>)\<rparr>"
definition set_right :: "'k pico_tree \<Rightarrow> nat \<Rightarrow> nat \<Rightarrow> 'k pico_tree" where
  "set_right t x v = t\<lparr>nodes := (nodes t)(x := (nodes t x)\<lparr>rightChild := v\<rparr>)\<rparr>"
definition set_color :: "'k pico_tree \<Rightarrow> nat \<Rightarrow> tree_color \<Rightarrow> 'k pico_tree" where
  "set_color t x c = t\<lparr>nodes := (nodes t)(x := (nodes t x)\<lparr>color := c\<rparr>)\<rparr>"

section \<open>Traversal\<close>

partial_function (option) pico_tree_firstNode :: "'k pico_tree \<Rightarrow> nat \<Rightarrow> nat option" where
  "pico_tree_firstNode t node =
     (if left_of t node \<noteq> LEAF then pico_tree_firstNode t (left_of t node) else Some node)"

partial_function (option) pico_tree_lastNode :: "'k pico_tree \<Rightarrow> nat \<Rightarrow> nat option" where
  "pico_tree_lastNode t node =
     (if right_of t node \<noteq> LEAF then pico_tree_lastNode t (right_of t node) else Some node)"

partial_function (option) climb_right :: "'k pico_tree \<Rightarrow> nat \<Rightarrow> nat option" where
  "climb_right t node =
     (if parent_of t node \<noteq> LEAF \<and> AM_I_RIGHT_CHILD t node
      then climb_right t (parent_of t node) else Some node)"

definition pico_tree_next :: "'k pico_tree \<Rightarrow> nat \<Rightarrow> nat option" where
  "pico_tree_next t node =
     (if right_of t node \<noteq> LEAF then pico_tree_firstNode t (right_of t node)
      else if parent_of t node \<noteq> LEAF \<and> AM_I_LEFT_CHILD t node then Some (parent_of t node)
      else map_option (parent_of t) (climb_right t node))"

partial_function (option) climb_left :: "'k pico_tree \<Rightarrow> nat \<Rightarrow> nat option" where
  "climb_left t node =
     (if node \<noteq> LEAF \<and> AM_I_LEFT_CHILD t node
      then climb_left t (parent_of t node) else Some node)"

definition pico_tree_prev :: "'k pico_tree \<Rightarrow> nat \<Rightarrow> nat option" where
  "pico_tree_prev t node =
     (if left_of t node \<noteq> LEAF then pico_tree_lastNode t (left_of t node)
      else if parent_of t node \<noteq> LEAF \<and> AM_I_RIGHT_CHILD t node then Some (parent_of t node)
      else map_option (parent_of t) (climb_left t node))"

definition pico_tree_first :: "'k pico_tree \<Rightarrow> 'k option option" where
  "pico_tree_first t = map_option (\<lambda>n. keyValue (nodes t n)) (pico_tree_firstNode t (root t))"

definition pico_tree_last :: "'k pico_tree \<Rightarrow> 'k option option" where
  "pico_tree_last t = map_option (\<lambda>n. keyValue (nodes t n)) (pico_tree_lastNode t (root t))"

definition pico_tree_empty :: "'k pico_tree \<Rightarrow> bool" where
  "pico_tree_empty t = (root t = LEAF)"

text \<open>The macro \<open>pico_tree_foreach\<close>: the keys its body sees, in order.\<close>

partial_function (option) foreach_from :: "'k pico_tree \<Rightarrow> nat \<Rightarrow> 'k list option" where
  "foreach_from t idx =
     (if idx = LEAF then Some []
      else do { nxt \<leftarrow> pico_tree_next t idx;
                ks \<leftarrow> foreach_from t nxt;
                Some (key_of t idx # ks) })"

definition pico_tree_foreach :: "'k pico_tree \<Rightarrow> 'k list option" where
  "pico_tree_foreach t = do { f \<leftarrow> pico_tree_firstNode t (root t); foreach_from t f }"

section \<open>Search\<close>

partial_function (option) find_loop ::
    "('k \<Rightarrow> 'k \<Rightarrow> int) \<Rightarrow> 'k pico_tree \<Rightarrow> 'k \<Rightarrow> nat \<Rightarrow> nat option" where
  "find_loop cmp t key found =
     (if found \<noteq> LEAF then
        (let result = cmp (key_of t found) key in
         if result = 0 then Some found
         else if result < 0 then find_loop cmp t key (right_of t found)
         else find_loop cmp t key (left_of t found))
      else Some LEAF)"

text \<open>\<open>NULL\<close> is address 0 as well: the search never returns the sentinel itself.\<close>

definition pico_tree_findNode ::
    "('k \<Rightarrow> 'k \<Rightarrow> int) \<Rightarrow> 'k pico_tree \<Rightarrow> 'k \<Rightarrow> nat option" where
  "pico_tree_findNode cmp t key = find_loop cmp t key (root t)"

definition pico_tree_findKey ::
    "('k \<Rightarrow> 'k \<Rightarrow> int) \<Rightarrow> 'k pico_tree \<Rightarrow> 'k \<Rightarrow> 'k option option" where
  "pico_tree_findKey cmp t key = do {
     found \<leftarrow> pico_tree_findNode cmp t key;
     Some (if found = LEAF then None else keyValue (nodes t found)) }"

section \<open>Rotations\<close>

definition rotateToLeft :: "'k pico_tree \<Rightarrow> nat \<Rightarrow> 'k pico_tree" where
  "rotateToLeft t node =
     (let temp = right_of t node in
      if temp = LEAF then t else
      let t = set_right t node (left_of t temp);
          t = (if left_of t temp \<noteq> LEAF then set_parent t (left_of t temp) node else t);
          t = set_parent t temp (parent_of t node);
          t = (if parent_of t node = LEAF then t\<lparr>root := temp\<rparr>
               else if node = left_of t (parent_of t node) then set_left t (parent_of t node) temp
               else set_right t (parent_of t node) temp);
          t = set_left t temp node
      in set_parent t node temp)"

definition rotateToRight :: "'k pico_tree \<Rightarrow> nat \<Rightarrow> 'k pico_tree" where
  "rotateToRight t node =
     (let temp = left_of t node;
          t = set_left t node (right_of t temp) in
      if temp = LEAF then t else
      let t = (if right_of t temp \<noteq> LEAF then set_parent t (right_of t temp) node else t);
          t = set_parent t temp (parent_of t node);
          t = (if parent_of t node = LEAF then t\<lparr>root := temp\<rparr>
               else if node = right_of t (parent_of t node) then set_right t (parent_of t node) temp
               else set_left t (parent_of t node) temp);
          t = set_right t temp node
      in set_parent t node temp)"

section \<open>Insertion\<close>

definition create_node :: "'k pico_tree \<Rightarrow> 'k \<Rightarrow> bool \<Rightarrow> nat \<times> 'k pico_tree" where
  "create_node t key mem_ok =
     (if \<not> mem_ok then (LEAF, t)
      else (brk t, t\<lparr>nodes := (nodes t)(brk t := \<lparr>keyValue = Some key, parent = LEAF,
               leftChild = LEAF, rightChild = LEAF, color = RED\<rparr>), brk := Suc (brk t)\<rparr>))"

partial_function (option) insert_loop ::
    "('k \<Rightarrow> 'k \<Rightarrow> int) \<Rightarrow> 'k pico_tree \<Rightarrow> 'k \<Rightarrow> nat \<Rightarrow> nat \<Rightarrow> nat option" where
  "insert_loop cmp t key temp last_node =
     (if temp \<noteq> LEAF
      then insert_loop cmp t key
             (if cmp key (key_of t temp) < 0 then left_of t temp else right_of t temp) temp
      else Some last_node)"

definition pico_tree_insert_node ::
    "('k \<Rightarrow> 'k \<Rightarrow> int) \<Rightarrow> 'k pico_tree \<Rightarrow> nat \<Rightarrow> 'k pico_tree option" where
  "pico_tree_insert_node cmp t ins = do {
     last_node \<leftarrow> insert_loop cmp t (key_of t ins) (root t) LEAF;
     let t = set_parent t ins last_node;
     Some (if last_node = LEAF then t\<lparr>root := ins\<rparr>
           else if cmp (key_of t ins) (key_of t last_node) < 0 then set_left t last_node ins
           else set_right t last_node ins) }"

text \<open>One iteration of the loop of \<open>fix_insert_collisions\<close>: the tree and the next \<open>node\<close>.\<close>

definition fix_insert_body :: "'k pico_tree \<Rightarrow> nat \<Rightarrow> 'k pico_tree \<times> nat" where
  "fix_insert_body t node =
     (if AM_I_RIGHT_CHILD t (parent_of t node) then
        (let temp = left_of t (GRANPA t node) in
         if color_of t temp = RED then
           (let t = set_color t (parent_of t node) BLACK;
                t = set_color t temp BLACK;
                t = set_color t (GRANPA t node) RED
            in (t, GRANPA t node))
         else
           (let (t, node) = (if AM_I_LEFT_CHILD t node
                  then (rotateToRight t (parent_of t node), parent_of t node) else (t, node));
                t = set_color t (parent_of t node) BLACK;
                t = set_color t (GRANPA t node) RED
            in (rotateToLeft t (GRANPA t node), node)))
      else if AM_I_LEFT_CHILD t (parent_of t node) then
        (let temp = right_of t (GRANPA t node) in
         if color_of t temp = RED then
           (let t = set_color t (parent_of t node) BLACK;
                t = set_color t temp BLACK;
                t = set_color t (GRANPA t node) RED
            in (t, GRANPA t node))
         else
           (let (t, node) = (if AM_I_RIGHT_CHILD t node
                  then (rotateToLeft t (parent_of t node), parent_of t node) else (t, node));
                t = set_color t (parent_of t node) BLACK;
                t = set_color t (GRANPA t node) RED
            in (rotateToRight t (GRANPA t node), node)))
      else (t, node))"

partial_function (option) fix_insert_loop :: "'k pico_tree \<Rightarrow> nat \<Rightarrow> 'k pico_tree option" where
  "fix_insert_loop t node =
     (if color_of t (parent_of t node) = RED \<and> GRANPA t node \<noteq> LEAF
      then (case fix_insert_body t node of (t', node') \<Rightarrow> fix_insert_loop t' node')
      else Some t)"

definition fix_insert_collisions :: "'k pico_tree \<Rightarrow> nat \<Rightarrow> 'k pico_tree option" where
  "fix_insert_collisions t node = do {
     t \<leftarrow> fix_insert_loop t node;
     Some (set_color t (root t) BLACK) }"

text \<open>
  What \<open>pico_tree_insert\<close> returns: \<open>NULL\<close> for success, the key already there (with
  \<open>pico_err = EEXIST\<close>), or \<open>&LEAF\<close> when no memory is left (\<open>pico_err = ENOMEM\<close>).
\<close>

datatype 'k insert_result = Ins_NULL | Ins_EEXIST 'k | Ins_LEAF

definition pico_tree_insert ::
    "('k \<Rightarrow> 'k \<Rightarrow> int) \<Rightarrow> 'k pico_tree \<Rightarrow> 'k \<Rightarrow> bool \<Rightarrow> ('k insert_result \<times> 'k pico_tree) option" where
  "pico_tree_insert cmp t key mem_ok = do {
     localKey \<leftarrow> (if root t \<noteq> LEAF then pico_tree_findKey cmp t key else Some None);
     case localKey of
       Some k \<Rightarrow> Some (Ins_EEXIST k, t)
     | None \<Rightarrow>
         (case create_node t key mem_ok of (ins, t) \<Rightarrow>
            if ins = LEAF then Some (Ins_LEAF, t)
            else do { t \<leftarrow> pico_tree_insert_node cmp t ins;
                      t \<leftarrow> fix_insert_collisions t ins;
                      Some (Ins_NULL, t) }) }"

section \<open>Deletion\<close>

definition switchNodes :: "'k pico_tree \<Rightarrow> nat \<Rightarrow> nat \<Rightarrow> 'k pico_tree" where
  "switchNodes t nodeA nodeB =
     (let t = (if parent_of t nodeA = LEAF then t\<lparr>root := nodeB\<rparr>
               else if nodeA \<noteq> LEAF then
                 (if AM_I_LEFT_CHILD t nodeA then set_left t (parent_of t nodeA) nodeB
                  else set_right t (parent_of t nodeA) nodeB)
               else t)
      in if nodeB \<noteq> LEAF then set_parent t nodeB (parent_of t nodeA) else t)"

text \<open>The result holds the tree, the node \<open>*temp\<close> and the colour that left its place.\<close>

definition pico_tree_delete_node ::
    "'k pico_tree \<Rightarrow> nat \<Rightarrow> ('k pico_tree \<times> nat \<times> tree_color) option" where
  "pico_tree_delete_node t d = do {
     min \<leftarrow> pico_tree_firstNode t (right_of t d);
     let nodeColor = color_of t min;
     let temp = right_of t min;
     let t = (if parent_of t min = d \<and> temp \<noteq> LEAF then set_parent t temp min
              else (let t = switchNodes t min (right_of t min);
                        t = set_right t min (right_of t d)
                    in if right_of t min \<noteq> LEAF then set_parent t (right_of t min) min else t));
     let t = switchNodes t d min;
     let t = set_left t min (left_of t d);
     let t = (if left_of t min \<noteq> LEAF then set_parent t (left_of t min) min else t);
     let t = set_color t min (color_of t d);
     Some (t, temp, nodeColor) }"

definition pico_tree_delete_check_switch ::
    "'k pico_tree \<Rightarrow> nat \<Rightarrow> ('k pico_tree \<times> nat \<times> tree_color) option" where
  "pico_tree_delete_check_switch t del =
     (if left_of t del = LEAF then
        Some (switchNodes t del (right_of t del), right_of t del, color_of t del)
      else if right_of t del = LEAF then
        Some (switchNodes t del (left_of t del), left_of t del, color_of t del)
      else pico_tree_delete_node t del)"

text \<open>One iteration of the loop of \<open>fix_delete_collisions\<close>.\<close>

definition fix_delete_body :: "'k pico_tree \<Rightarrow> nat \<Rightarrow> 'k pico_tree \<times> nat" where
  "fix_delete_body t node =
     (if AM_I_LEFT_CHILD t node then
        (let temp = right_of t (parent_of t node);
             (t, temp) = (if color_of t temp = RED then
                (let t = set_color t temp BLACK;
                     t = set_color t (parent_of t node) RED;
                     t = rotateToLeft t (parent_of t node)
                 in (t, right_of t (parent_of t node))) else (t, temp))
         in if color_of t (left_of t temp) = BLACK \<and> color_of t (right_of t temp) = BLACK
            then (set_color t temp RED, parent_of t node)
            else
              (let (t, temp) = (if color_of t (right_of t temp) = BLACK then
                     (let t = set_color t (left_of t temp) BLACK;
                          t = set_color t temp RED;
                          t = rotateToRight t temp
                      in (t, right_of t (parent_of t temp))) else (t, temp));
                   t = set_color t temp (color_of t (parent_of t node));
                   t = set_color t (parent_of t node) BLACK;
                   t = set_color t (right_of t temp) BLACK;
                   t = rotateToLeft t (parent_of t node)
               in (t, root t)))
      else
        (let temp = left_of t (parent_of t node);
             (t, temp) = (if color_of t temp = RED then
                (let t = set_color t temp BLACK;
                     t = set_color t (parent_of t node) RED;
                     t = rotateToRight t (parent_of t node)
                 in (t, left_of t (parent_of t node))) else (t, temp))
         in if color_of t (right_of t temp) = BLACK \<and> color_of t (left_of t temp) = BLACK
            then (set_color t temp RED, parent_of t node)
            else
              (let (t, temp) = (if color_of t (left_of t temp) = BLACK then
                     (let t = set_color t (right_of t temp) BLACK;
                          t = set_color t temp RED;
                          t = rotateToLeft t temp
                      in (t, left_of t (parent_of t temp))) else (t, temp));
                   t = set_color t temp (color_of t (parent_of t node));
                   t = set_color t (parent_of t node) BLACK;
                   t = set_color t (left_of t temp) BLACK;
                   t = rotateToRight t (parent_of t node)
               in (t, root t))))"

partial_function (option) fix_delete_loop ::
    "'k pico_tree \<Rightarrow> nat \<Rightarrow> ('k pico_tree \<times> nat) option" where
  "fix_delete_loop t node =
     (if node \<noteq> root t \<and> color_of t node = BLACK \<and> node \<noteq> LEAF
      then (case fix_delete_body t node of (t', node') \<Rightarrow> fix_delete_loop t' node')
      else Some (t, node))"

definition fix_delete_collisions :: "'k pico_tree \<Rightarrow> nat \<Rightarrow> 'k pico_tree option" where
  "fix_delete_collisions t node = do {
     (t, node) \<leftarrow> fix_delete_loop t node;
     Some (set_color t node BLACK) }"

definition if_nodecolor_black_fix_collisions ::
    "'k pico_tree \<Rightarrow> nat \<Rightarrow> tree_color \<Rightarrow> 'k pico_tree option" where
  "if_nodecolor_black_fix_collisions t temp nodeColor =
     (if nodeColor = BLACK then fix_delete_collisions t temp else Some t)"

text \<open>\<open>pico_tree_delete\<close> returns the removed key, or \<open>NULL\<close>.  The node itself is freed; its
  address is not handed out again (\<open>brk\<close> only grows).\<close>

definition pico_tree_delete ::
    "('k \<Rightarrow> 'k \<Rightarrow> int) \<Rightarrow> 'k pico_tree \<Rightarrow> 'k option \<Rightarrow> ('k option \<times> 'k pico_tree) option" where
  "pico_tree_delete cmp t key =
     (case key of
        None \<Rightarrow> Some (None, t)
      | Some k \<Rightarrow> do {
          del \<leftarrow> pico_tree_findNode cmp t k;
          if del = LEAF then Some (None, t)
          else do {
            let lkey = keyValue (nodes t del);
            (t, temp, nodeColor) \<leftarrow> pico_tree_delete_check_switch t del;
            t \<leftarrow> if_nodecolor_black_fix_collisions t temp nodeColor;
            Some (lkey, t) } })"

text \<open>The loops evaluate by their own equations.\<close>

declare pico_tree_firstNode.simps [code] pico_tree_lastNode.simps [code]
declare climb_right.simps [code] climb_left.simps [code] foreach_from.simps [code]
declare find_loop.simps [code] insert_loop.simps [code]
declare fix_insert_loop.simps [code] fix_delete_loop.simps [code]

end
