(* ===== verification/PTree_Shape.thy ===== *)
theory PTree_Shape
  imports PTree
begin

text \<open>
  The abstraction of the pointer tree.  A \<open>shape\<close> is a binary tree of node addresses;
  \<open>tree_rep t s\<close> says that the pointers of \<open>t\<close> are exactly those of \<open>s\<close> (every child pointer
  and every parent pointer), with no node shared, all nodes allocated and the sentinel
  pointing to itself.  A context \<open>ctx\<close> is a shape with a hole, so that an operation at a
  node is a fact about \<open>plug C s\<close>.  Colours are unconstrained: what is proved from
  \<open>tree_rep\<close> holds however badly the tree is balanced.
\<close>

section \<open>Shapes and contexts\<close>

datatype shape = L | N shape nat shape

fun root_of :: "shape \<Rightarrow> nat" where
  "root_of L = LEAF"
| "root_of (N l a r) = a"

fun ino :: "shape \<Rightarrow> nat list" where
  "ino L = []"
| "ino (N l a r) = ino l @ a # ino r"

datatype ctx = Top | InL ctx nat shape | InR ctx shape nat

fun plug :: "ctx \<Rightarrow> shape \<Rightarrow> shape" where
  "plug Top s = s"
| "plug (InL C a r) s = plug C (N s a r)"
| "plug (InR C l a) s = plug C (N l a s)"

fun up :: "ctx \<Rightarrow> nat" where
  "up Top = LEAF"
| "up (InL C a r) = a"
| "up (InR C l a) = a"

fun depth :: "ctx \<Rightarrow> nat" where
  "depth Top = 0"
| "depth (InL C a r) = Suc (depth C)"
| "depth (InR C l a) = Suc (depth C)"

fun ino_before :: "ctx \<Rightarrow> nat list" where
  "ino_before Top = []"
| "ino_before (InL C a r) = ino_before C"
| "ino_before (InR C l a) = ino_before C @ ino l @ [a]"

fun ino_after :: "ctx \<Rightarrow> nat list" where
  "ino_after Top = []"
| "ino_after (InL C a r) = a # ino r @ ino_after C"
| "ino_after (InR C l a) = ino_after C"

lemma ino_plug: "ino (plug C s) = ino_before C @ ino s @ ino_after C"
  by (induction C s rule: plug.induct) auto

lemma up_in_ctx: "up C \<noteq> LEAF \<Longrightarrow> up C \<in> set (ino_before C) \<union> set (ino_after C)"
  by (cases C) auto

fun compose :: "ctx \<Rightarrow> ctx \<Rightarrow> ctx" where
  "compose C Top = C"
| "compose C (InL D a r) = InL (compose C D) a r"
| "compose C (InR D l a) = InR (compose C D) l a"

lemma plug_compose: "plug (compose C D) s = plug C (plug D s)"
  by (induction D arbitrary: s) auto

lemma shape_split: "a \<in> set (ino s) \<Longrightarrow> \<exists>C l r. s = plug C (N l a r)"
proof (induction s)
  case (N l b r)
  show ?case
  proof (cases "b = a")
    case True
    then have "N l b r = plug Top (N l a r)" by simp
    then show ?thesis by blast
  next
    case False
    with N.prems have "a \<in> set (ino l) \<or> a \<in> set (ino r)" by auto
    then show ?thesis
    proof
      assume "a \<in> set (ino l)"
      then obtain C l' r' where "l = plug C (N l' a r')" using N.IH(1) by blast
      then have "N l b r = plug (compose (InL Top b r) C) (N l' a r')" by (simp add: plug_compose)
      then show ?thesis by blast
    next
      assume "a \<in> set (ino r)"
      then obtain C l' r' where "r = plug C (N l' a r')" using N.IH(2) by blast
      then have "N l b r = plug (compose (InR Top l b) C) (N l' a r')" by (simp add: plug_compose)
      then show ?thesis by blast
    qed
  qed
qed simp

section \<open>Pointers that form a shape\<close>

type_synonym 'k mem = "nat \<Rightarrow> 'k pico_tree_node"

fun linked :: "'k mem \<Rightarrow> nat \<Rightarrow> shape \<Rightarrow> bool" where
  "linked m p L \<longleftrightarrow> True"
| "linked m p (N l a r) \<longleftrightarrow> a \<noteq> LEAF \<and> parent (m a) = p \<and> leftChild (m a) = root_of l
     \<and> rightChild (m a) = root_of r \<and> linked m a l \<and> linked m a r"

text \<open>The pointers of a context whose hole holds a tree with root \<open>q\<close>.\<close>

fun linked_ctx :: "'k mem \<Rightarrow> ctx \<Rightarrow> nat \<Rightarrow> bool" where
  "linked_ctx m Top q \<longleftrightarrow> True"
| "linked_ctx m (InL C a r) q \<longleftrightarrow> a \<noteq> LEAF \<and> parent (m a) = up C \<and> leftChild (m a) = q
     \<and> rightChild (m a) = root_of r \<and> linked m a r \<and> linked_ctx m C a"
| "linked_ctx m (InR C l a) q \<longleftrightarrow> a \<noteq> LEAF \<and> parent (m a) = up C \<and> leftChild (m a) = root_of l
     \<and> rightChild (m a) = q \<and> linked m a l \<and> linked_ctx m C a"

fun ctx_root :: "ctx \<Rightarrow> nat \<Rightarrow> nat" where
  "ctx_root Top q = q"
| "ctx_root (InL C a r) q = ctx_root C a"
| "ctx_root (InR C l a) q = ctx_root C a"

lemma root_plug: "root_of (plug C s) = ctx_root C (root_of s)"
  by (induction C s rule: plug.induct) auto

lemma linked_plug: "linked m LEAF (plug C s) \<longleftrightarrow> linked m (up C) s \<and> linked_ctx m C (root_of s)"
  by (induction C s rule: plug.induct) auto

lemma linked_upd [simp]: "x \<notin> set (ino s) \<Longrightarrow> linked (m(x := v)) p s = linked m p s"
  by (induction s arbitrary: p) auto

lemma linked_ctx_upd [simp]:
  "x \<notin> set (ino_before C) \<Longrightarrow> x \<notin> set (ino_after C) \<Longrightarrow>
   linked_ctx (m(x := v)) C q = linked_ctx m C q"
  by (induction C arbitrary: q) auto

lemma linked_nonleaf: "linked m p s \<Longrightarrow> LEAF \<notin> set (ino s)"
  by (induction s arbitrary: p) auto

lemma linked_ctx_nonleaf: "linked_ctx m C q \<Longrightarrow> LEAF \<notin> set (ino_before C) \<and> LEAF \<notin> set (ino_after C)"
  by (induction C arbitrary: q) (auto dest: linked_nonleaf)

lemma linked_ctx_up: "linked_ctx m C q \<Longrightarrow> up C = LEAF \<longleftrightarrow> C = Top"
  by (cases C) auto

definition sentinel_ok :: "'k mem \<Rightarrow> bool" where
  "sentinel_ok m \<longleftrightarrow> parent (m LEAF) = LEAF \<and> leftChild (m LEAF) = LEAF \<and> rightChild (m LEAF) = LEAF
     \<and> keyValue (m LEAF) = None"

lemma sentinel_upd [simp]: "x \<noteq> LEAF \<Longrightarrow> sentinel_ok (m(x := v)) = sentinel_ok m"
  by (simp add: sentinel_ok_def)

definition tree_rep :: "'k pico_tree \<Rightarrow> shape \<Rightarrow> bool" where
  "tree_rep t s \<longleftrightarrow> root t = root_of s \<and> linked (nodes t) LEAF s \<and> distinct (ino s)
     \<and> sentinel_ok (nodes t)
     \<and> (\<forall>a \<in> set (ino s). a < brk t \<and> keyValue (nodes t a) \<noteq> None)"

text \<open>The keys in order.\<close>

definition keys_of :: "'k pico_tree \<Rightarrow> shape \<Rightarrow> 'k list" where
  "keys_of t s = map (key_of t) (ino s)"

lemma tree_rep_plug:
  "tree_rep t (plug C s) \<longleftrightarrow> root t = ctx_root C (root_of s)
     \<and> linked (nodes t) (up C) s \<and> linked_ctx (nodes t) C (root_of s)
     \<and> distinct (ino_before C @ ino s @ ino_after C) \<and> sentinel_ok (nodes t)
     \<and> (\<forall>a \<in> set (ino_before C @ ino s @ ino_after C). a < brk t \<and> keyValue (nodes t a) \<noteq> None)"
  unfolding tree_rep_def by (simp only: root_plug linked_plug ino_plug conj_assoc)

section \<open>Operations that leave keys alone\<close>

definition same_data :: "'k pico_tree \<Rightarrow> 'k pico_tree \<Rightarrow> bool" where
  "same_data t t' \<longleftrightarrow> brk t' = brk t \<and> (\<forall>x. keyValue (nodes t' x) = keyValue (nodes t x))"

definition same_color :: "'k pico_tree \<Rightarrow> 'k pico_tree \<Rightarrow> bool" where
  "same_color t t' \<longleftrightarrow> (\<forall>x. color (nodes t' x) = color (nodes t x))"

lemma same_data_trans: "same_data t u \<Longrightarrow> same_data u v \<Longrightarrow> same_data t v"
  by (simp add: same_data_def)

lemma same_data_keys: "same_data t t' \<Longrightarrow> ino s' = ino s \<Longrightarrow> keys_of t' s' = keys_of t s"
  by (simp add: same_data_def keys_of_def)

lemma set_color_fields [simp]:
  "root (set_color t x c) = root t" "brk (set_color t x c) = brk t"
  "parent_of (set_color t x c) y = parent_of t y" "left_of (set_color t x c) y = left_of t y"
  "right_of (set_color t x c) y = right_of t y" "keyValue (nodes (set_color t x c) y) = keyValue (nodes t y)"
  "color_of (set_color t x c) y = (if y = x then c else color_of t y)"
  by (simp_all add: set_color_def)

lemma set_parent_fields [simp]:
  "root (set_parent t x v) = root t" "brk (set_parent t x v) = brk t"
  "parent_of (set_parent t x v) y = (if y = x then v else parent_of t y)"
  "left_of (set_parent t x v) y = left_of t y" "right_of (set_parent t x v) y = right_of t y"
  "keyValue (nodes (set_parent t x v) y) = keyValue (nodes t y)"
  "color_of (set_parent t x v) y = color_of t y"
  by (simp_all add: set_parent_def)

lemma set_left_fields [simp]:
  "root (set_left t x v) = root t" "brk (set_left t x v) = brk t"
  "parent_of (set_left t x v) y = parent_of t y"
  "left_of (set_left t x v) y = (if y = x then v else left_of t y)"
  "right_of (set_left t x v) y = right_of t y"
  "keyValue (nodes (set_left t x v) y) = keyValue (nodes t y)"
  "color_of (set_left t x v) y = color_of t y"
  by (simp_all add: set_left_def)

lemma set_right_fields [simp]:
  "root (set_right t x v) = root t" "brk (set_right t x v) = brk t"
  "parent_of (set_right t x v) y = parent_of t y" "left_of (set_right t x v) y = left_of t y"
  "right_of (set_right t x v) y = (if y = x then v else right_of t y)"
  "keyValue (nodes (set_right t x v) y) = keyValue (nodes t y)"
  "color_of (set_right t x v) y = color_of t y"
  by (simp_all add: set_right_def)

lemma linked_set_color [simp]: "linked (nodes (set_color t x c)) p s = linked (nodes t) p s"
  by (induction s arbitrary: p) simp_all

lemma tree_rep_set_color [simp]: "tree_rep (set_color t x c) s = tree_rep t s"
  by (simp add: tree_rep_def sentinel_ok_def)

lemma same_data_set_color [simp]: "same_data t (set_color t x c)"
  by (simp add: same_data_def)

section \<open>Frame and replacement lemmas\<close>

definition same_links :: "'k mem \<Rightarrow> 'k mem \<Rightarrow> nat \<Rightarrow> bool" where
  "same_links m m' x \<longleftrightarrow> parent (m' x) = parent (m x) \<and> leftChild (m' x) = leftChild (m x)
     \<and> rightChild (m' x) = rightChild (m x)"

lemma linked_cong:
  "(\<And>x. x \<in> set (ino s) \<Longrightarrow> same_links m m' x) \<Longrightarrow> linked m' p s = linked m p s"
  by (induction s arbitrary: p) (auto simp: same_links_def)

text \<open>A subtree whose root gets a new parent.\<close>

lemma linked_reparent:
  assumes "linked m p s" "distinct (ino s)"
    and "\<And>x. x \<in> set (ino s) \<Longrightarrow> x \<noteq> root_of s \<Longrightarrow> same_links m m' x"
    and "s \<noteq> L \<Longrightarrow> parent (m' (root_of s)) = p' \<and> leftChild (m' (root_of s)) = leftChild (m (root_of s))
          \<and> rightChild (m' (root_of s)) = rightChild (m (root_of s))"
  shows "linked m' p' s"
proof (cases s)
  case (N l a r)
  have "linked m' a l = linked m a l" "linked m' a r = linked m a r"
    using assms(2,3) N by (auto intro!: linked_cong)
  with assms N show ?thesis by simp
qed simp

text \<open>A context whose hole gets a tree with another root.\<close>

fun is_left :: "ctx \<Rightarrow> bool" where
  "is_left (InL C a r) = True"
| "is_left _ = False"

lemma linked_ctx_cong:
  "(\<And>x. x \<in> set (ino_before C) \<union> set (ino_after C) \<Longrightarrow> same_links m m' x) \<Longrightarrow>
   linked_ctx m' C q = linked_ctx m C q"
proof (induction C arbitrary: q)
  case (InL C a r)
  have "linked m' a r = linked m a r" by (rule linked_cong) (simp add: InL.prems)
  moreover have "linked_ctx m' C a = linked_ctx m C a" by (rule InL.IH) (auto intro: InL.prems)
  moreover have "same_links m m' a" by (simp add: InL.prems)
  ultimately show ?case by (simp add: same_links_def)
next
  case (InR C l a)
  have "linked m' a l = linked m a l" by (rule linked_cong) (simp add: InR.prems)
  moreover have "linked_ctx m' C a = linked_ctx m C a" by (rule InR.IH) (auto intro: InR.prems)
  moreover have "same_links m m' a" by (simp add: InR.prems)
  ultimately show ?case by (simp add: same_links_def)
qed simp

lemma linked_ctx_child:
  assumes "linked_ctx m C q" "distinct (ino_before C @ ino_after C)"
    and "\<And>x. x \<in> set (ino_before C) \<union> set (ino_after C) \<Longrightarrow> x \<noteq> up C \<Longrightarrow> same_links m m' x"
    and "C \<noteq> Top \<Longrightarrow> parent (m' (up C)) = parent (m (up C))"
    and "is_left C \<Longrightarrow> leftChild (m' (up C)) = q' \<and> rightChild (m' (up C)) = rightChild (m (up C))"
    and "C \<noteq> Top \<Longrightarrow> \<not> is_left C \<Longrightarrow> rightChild (m' (up C)) = q' \<and> leftChild (m' (up C)) = leftChild (m (up C))"
  shows "linked_ctx m' C q'"
proof (cases C)
  case (InL D a r)
  have "linked m' a r = linked m a r" "linked_ctx m' D a = linked_ctx m D a"
    using assms(2,3) InL by (auto intro!: linked_cong linked_ctx_cong)
  with assms InL show ?thesis by simp
next
  case (InR D l a)
  have "linked m' a l = linked m a l" "linked_ctx m' D a = linked_ctx m D a"
    using assms(2,3) InR by (auto intro!: linked_cong linked_ctx_cong)
  with assms InR show ?thesis by simp
qed simp

lemma ctx_child_side:
  assumes "linked_ctx m C q" "C \<noteq> Top" "q \<noteq> LEAF" "q \<notin> set (ino_before C) \<union> set (ino_after C)"
  shows "leftChild (m (up C)) = q \<longleftrightarrow> is_left C" "rightChild (m (up C)) = q \<longleftrightarrow> \<not> is_left C"
proof -
  have root_in: "root_of s \<noteq> q" if "q \<notin> set (ino s)" for s
    using that assms(3) by (cases s) auto
  show "leftChild (m (up C)) = q \<longleftrightarrow> is_left C" "rightChild (m (up C)) = q \<longleftrightarrow> \<not> is_left C"
    using assms root_in by (cases C; simp)+
qed

section \<open>Rotations\<close>

text \<open>What a rotation writes, field by field.\<close>

lemma rotateToLeft_fields:
  fixes t :: "'k pico_tree"
  assumes "right_of t a = b" "parent_of t a = p" "left_of t b = c"
    and "b \<noteq> LEAF" "a \<noteq> b" "c \<noteq> a" "c \<noteq> b" "p \<noteq> a" "p \<noteq> b" "c \<noteq> LEAF \<Longrightarrow> c \<noteq> p"
  shows "root (rotateToLeft t a) = (if p = LEAF then b else root t)"
    and "parent_of (rotateToLeft t a) x
       = (if x = a then b else if x = b then p else if x = c \<and> c \<noteq> LEAF then a else parent_of t x)"
    and "left_of (rotateToLeft t a) x
       = (if x = b then a else if x = p \<and> p \<noteq> LEAF \<and> left_of t p = a then b else left_of t x)"
    and "right_of (rotateToLeft t a) x
       = (if x = a then c else if x = p \<and> p \<noteq> LEAF \<and> left_of t p \<noteq> a then b else right_of t x)"
    and "keyValue (nodes (rotateToLeft t a) x) = keyValue (nodes t x)"
    and "color_of (rotateToLeft t a) x = color_of t x"
    and "brk (rotateToLeft t a) = brk t"
proof -
  define t1 where "t1 = set_right t a c"
  define t2 where "t2 = (if c \<noteq> LEAF then set_parent t1 c a else t1)"
  define t3 where "t3 = set_parent t2 b p"
  define t4 where "t4 = (if p = LEAF then t3\<lparr>root := b\<rparr>
      else if left_of t p = a then set_left t3 p b else set_right t3 p b)"
  have f2: "root t2 = root t" "brk t2 = brk t" "keyValue (nodes t2 y) = keyValue (nodes t y)"
    "color_of t2 y = color_of t y" "left_of t2 y = left_of t y"
    "right_of t2 y = (if y = a then c else right_of t y)"
    "parent_of t2 y = (if y = c \<and> c \<noteq> LEAF then a else parent_of t y)" for y
    by (simp_all add: t2_def t1_def)
  have f3: "root t3 = root t" "brk t3 = brk t" "keyValue (nodes t3 y) = keyValue (nodes t y)"
    "color_of t3 y = color_of t y" "left_of t3 y = left_of t y"
    "right_of t3 y = (if y = a then c else right_of t y)"
    "parent_of t3 y = (if y = b then p else if y = c \<and> c \<noteq> LEAF then a else parent_of t y)" for y
    by (simp_all add: t3_def f2)
  have f4: "root t4 = (if p = LEAF then b else root t)" "brk t4 = brk t"
    "keyValue (nodes t4 y) = keyValue (nodes t y)" "color_of t4 y = color_of t y"
    "left_of t4 y = (if y = p \<and> p \<noteq> LEAF \<and> left_of t p = a then b else left_of t y)"
    "right_of t4 y = (if y = a then c else if y = p \<and> p \<noteq> LEAF \<and> left_of t p \<noteq> a then b else right_of t y)"
    "parent_of t4 y = (if y = b then p else if y = c \<and> c \<noteq> LEAF then a else parent_of t y)" for y
    using assms by (auto simp: t4_def f3)
  have eq: "rotateToLeft t a = set_parent (set_left t4 b a) a b"
    using assms
    by (cases "c = LEAF"; cases "p = LEAF"; cases "left_of t p = a")
       (simp_all add: rotateToLeft_def Let_def t4_def t3_def t2_def t1_def)
  show "root (rotateToLeft t a) = (if p = LEAF then b else root t)"
    "parent_of (rotateToLeft t a) x
       = (if x = a then b else if x = b then p else if x = c \<and> c \<noteq> LEAF then a else parent_of t x)"
    "left_of (rotateToLeft t a) x
       = (if x = b then a else if x = p \<and> p \<noteq> LEAF \<and> left_of t p = a then b else left_of t x)"
    "right_of (rotateToLeft t a) x
       = (if x = a then c else if x = p \<and> p \<noteq> LEAF \<and> left_of t p \<noteq> a then b else right_of t x)"
    "keyValue (nodes (rotateToLeft t a) x) = keyValue (nodes t x)"
    "color_of (rotateToLeft t a) x = color_of t x" "brk (rotateToLeft t a) = brk t"
    using assms by (simp_all add: eq f4)
qed

lemma rotateToRight_fields:
  fixes t :: "'k pico_tree"
  assumes "left_of t a = b" "parent_of t a = p" "right_of t b = c"
    and "b \<noteq> LEAF" "a \<noteq> b" "c \<noteq> a" "c \<noteq> b" "p \<noteq> a" "p \<noteq> b" "c \<noteq> LEAF \<Longrightarrow> c \<noteq> p"
  shows "root (rotateToRight t a) = (if p = LEAF then b else root t)"
    and "parent_of (rotateToRight t a) x
       = (if x = a then b else if x = b then p else if x = c \<and> c \<noteq> LEAF then a else parent_of t x)"
    and "right_of (rotateToRight t a) x
       = (if x = b then a else if x = p \<and> p \<noteq> LEAF \<and> right_of t p = a then b else right_of t x)"
    and "left_of (rotateToRight t a) x
       = (if x = a then c else if x = p \<and> p \<noteq> LEAF \<and> right_of t p \<noteq> a then b else left_of t x)"
    and "keyValue (nodes (rotateToRight t a) x) = keyValue (nodes t x)"
    and "color_of (rotateToRight t a) x = color_of t x"
    and "brk (rotateToRight t a) = brk t"
proof -
  define t1 where "t1 = set_left t a c"
  define t2 where "t2 = (if c \<noteq> LEAF then set_parent t1 c a else t1)"
  define t3 where "t3 = set_parent t2 b p"
  define t4 where "t4 = (if p = LEAF then t3\<lparr>root := b\<rparr>
      else if right_of t p = a then set_right t3 p b else set_left t3 p b)"
  have f2: "root t2 = root t" "brk t2 = brk t" "keyValue (nodes t2 y) = keyValue (nodes t y)"
    "color_of t2 y = color_of t y" "right_of t2 y = right_of t y"
    "left_of t2 y = (if y = a then c else left_of t y)"
    "parent_of t2 y = (if y = c \<and> c \<noteq> LEAF then a else parent_of t y)" for y
    by (simp_all add: t2_def t1_def)
  have f3: "root t3 = root t" "brk t3 = brk t" "keyValue (nodes t3 y) = keyValue (nodes t y)"
    "color_of t3 y = color_of t y" "right_of t3 y = right_of t y"
    "left_of t3 y = (if y = a then c else left_of t y)"
    "parent_of t3 y = (if y = b then p else if y = c \<and> c \<noteq> LEAF then a else parent_of t y)" for y
    by (simp_all add: t3_def f2)
  have f4: "root t4 = (if p = LEAF then b else root t)" "brk t4 = brk t"
    "keyValue (nodes t4 y) = keyValue (nodes t y)" "color_of t4 y = color_of t y"
    "right_of t4 y = (if y = p \<and> p \<noteq> LEAF \<and> right_of t p = a then b else right_of t y)"
    "left_of t4 y = (if y = a then c else if y = p \<and> p \<noteq> LEAF \<and> right_of t p \<noteq> a then b else left_of t y)"
    "parent_of t4 y = (if y = b then p else if y = c \<and> c \<noteq> LEAF then a else parent_of t y)" for y
    using assms by (auto simp: t4_def f3)
  have eq: "rotateToRight t a = set_parent (set_right t4 b a) a b"
    using assms
    by (cases "c = LEAF"; cases "p = LEAF"; cases "right_of t p = a")
       (simp_all add: rotateToRight_def Let_def t4_def t3_def t2_def t1_def)
  show "root (rotateToRight t a) = (if p = LEAF then b else root t)"
    "parent_of (rotateToRight t a) x
       = (if x = a then b else if x = b then p else if x = c \<and> c \<noteq> LEAF then a else parent_of t x)"
    "right_of (rotateToRight t a) x
       = (if x = b then a else if x = p \<and> p \<noteq> LEAF \<and> right_of t p = a then b else right_of t x)"
    "left_of (rotateToRight t a) x
       = (if x = a then c else if x = p \<and> p \<noteq> LEAF \<and> right_of t p \<noteq> a then b else left_of t x)"
    "keyValue (nodes (rotateToRight t a) x) = keyValue (nodes t x)"
    "color_of (rotateToRight t a) x = color_of t x" "brk (rotateToRight t a) = brk t"
    using assms by (simp_all add: eq f4)
qed

text \<open>
  What a rotation at \<open>a\<close> (with child \<open>b\<close>, whose inner subtree \<open>B\<close> changes sides) does to the
  pointers around it, for both directions.
\<close>

lemma rotated_parts:
  fixes m m' :: "'k mem"
  assumes ctx: "linked_ctx m C a" and B: "linked m b B" and A: "linked m qA A" and D: "linked m qD D"
    and dist: "distinct ([a, b] @ ino A @ ino B @ ino D @ ino_before C @ ino_after C)"
    and leafs: "a \<noteq> LEAF" "b \<noteq> LEAF"
    and par: "\<And>x. parent (m' x) = (if x = a then b else if x = b then up C
               else if x = root_of B \<and> root_of B \<noteq> LEAF then a else parent (m x))"
    and kids: "\<And>x. x \<noteq> a \<Longrightarrow> x \<noteq> b \<Longrightarrow> x \<noteq> up C \<Longrightarrow>
               leftChild (m' x) = leftChild (m x) \<and> rightChild (m' x) = rightChild (m x)"
    and hole: "C \<noteq> Top \<Longrightarrow> leftChild (m' (up C)) = (if is_left C then b else leftChild (m (up C)))
               \<and> rightChild (m' (up C)) = (if is_left C then rightChild (m (up C)) else b)"
  shows "linked m' qA A" "linked m' qD D" "linked m' a B" "linked_ctx m' C b"
proof -
  have nlB: "LEAF \<notin> set (ino B)" and nlA: "LEAF \<notin> set (ino A)" and nlD: "LEAF \<notin> set (ino D)"
    by (rule linked_nonleaf [OF B], rule linked_nonleaf [OF A], rule linked_nonleaf [OF D])
  have nlC: "LEAF \<notin> set (ino_before C)" "LEAF \<notin> set (ino_after C)"
    using linked_ctx_nonleaf [OF ctx] by simp_all
  have c_in: "root_of B = LEAF \<or> root_of B \<in> set (ino B)" by (cases B) auto
  have p_in: "up C = LEAF \<or> up C \<in> set (ino_before C) \<union> set (ino_after C)"
    using up_in_ctx [of C] by blast
  have same: "same_links m m' x" if "x \<noteq> a" "x \<noteq> b" "x \<noteq> up C" "x = root_of B \<longrightarrow> x = LEAF" for x
    using that par kids by (auto simp: same_links_def)
  let ?E = "set (ino_before C) \<union> set (ino_after C)"
  have dj: "x \<noteq> a \<and> x \<noteq> b" if "x \<in> set (ino A) \<or> x \<in> set (ino B) \<or> x \<in> set (ino D) \<or> x \<in> ?E" for x
    using that dist by auto
  have dE: "x \<in> set (ino A) \<or> x \<in> set (ino B) \<or> x \<in> set (ino D) \<Longrightarrow> x \<notin> ?E" for x
    using dist by auto
  have dB: "x \<in> set (ino B) \<Longrightarrow> x \<notin> set (ino A) \<and> x \<notin> set (ino D)" for x
    using dist by auto
  have not_up: "x \<noteq> up C" if "x \<in> set (ino A) \<or> x \<in> set (ino B) \<or> x \<in> set (ino D)" for x
    using dE [OF that] that p_in nlA nlB nlD by metis
  have not_c: "x = root_of B \<Longrightarrow> x = LEAF" if "x \<notin> set (ino B)" for x
    using that c_in by metis
  have out: "x \<noteq> a \<and> x \<noteq> b \<and> x \<noteq> up C \<and> (x = root_of B \<longrightarrow> x = LEAF)"
    if "x \<in> set (ino A) \<or> x \<in> set (ino D)" for x
    using dj [of x] not_up [of x] not_c [of x] dB [of x] that by argo
  have "linked m' qA A = linked m qA A"
    by (rule linked_cong) (metis out same)
  with A show "linked m' qA A" by simp
  have "linked m' qD D = linked m qD D"
    by (rule linked_cong) (metis out same)
  with D show "linked m' qD D" by simp
  have outB: "x \<noteq> a \<and> x \<noteq> b \<and> x \<noteq> up C" if "x \<in> set (ino B)" for x
    using that dj [of x] not_up [of x] by argo
  show "linked m' a B"
  proof (rule linked_reparent [OF B])
    show "distinct (ino B)" using dist by simp
    show "same_links m m' x" if "x \<in> set (ino B)" "x \<noteq> root_of B" for x
      using that outB same by blast
    show "parent (m' (root_of B)) = a \<and> leftChild (m' (root_of B)) = leftChild (m (root_of B))
      \<and> rightChild (m' (root_of B)) = rightChild (m (root_of B))" if "B \<noteq> L"
    proof -
      have "root_of B \<noteq> LEAF" "root_of B \<in> set (ino B)" using that nlB by (cases B; auto)+
      then show ?thesis using outB [of "root_of B"] par [of "root_of B"] kids [of "root_of B"] by simp
    qed
  qed
  have outC: "x \<noteq> a \<and> x \<noteq> b \<and> (x = root_of B \<longrightarrow> x = LEAF)"
    if "x \<in> ?E" for x
    using that dj [of x] not_c [of x] dE [of x] by argo
  show "linked_ctx m' C b"
  proof (rule linked_ctx_child [OF ctx])
    show "distinct (ino_before C @ ino_after C)" using dist by simp
    show "same_links m m' x" if "x \<in> set (ino_before C) \<union> set (ino_after C)" "x \<noteq> up C" for x
      using that outC same by blast
    show "parent (m' (up C)) = parent (m (up C))" if "C \<noteq> Top"
    proof -
      have "up C \<noteq> LEAF" using that linked_ctx_up [OF ctx] by simp
      then show ?thesis using outC p_in par [of "up C"] by auto
    qed
  qed (use hole in \<open>cases C; simp\<close>)+
qed

lemma ctx_root_Top: "ctx_root C q = (if C = Top then q else ctx_root C r)"
  by (cases C) auto

text \<open>A rotation turns one shape into the other and leaves keys and colours alone.\<close>

lemma rotateToLeft_rep:
  assumes "tree_rep t (plug C (N A a (N B b D)))"
  shows "tree_rep (rotateToLeft t a) (plug C (N (N A a B) b D))"
    and "same_data t (rotateToLeft t a)" and "same_color t (rotateToLeft t a)"
proof -
  note rep = assms [unfolded tree_rep_plug]
  let ?c = "root_of B" and ?p = "up C" and ?t' = "rotateToLeft t a"
  have ctx: "linked_ctx (nodes t) C a" using rep by simp
  have lk: "linked (nodes t) a A" "linked (nodes t) b B" "linked (nodes t) b D"
    and ptrs: "right_of t a = b" "parent_of t a = ?p" "left_of t b = ?c"
    and leafs: "a \<noteq> LEAF" "b \<noteq> LEAF" using rep by simp_all
  have dist: "distinct ([a, b] @ ino A @ ino B @ ino D @ ino_before C @ ino_after C)"
    using rep by auto
  have c_in: "?c = LEAF \<or> ?c \<in> set (ino B)" by (cases B) auto
  have p_in: "?p = LEAF \<or> ?p \<in> set (ino_before C) \<union> set (ino_after C)" using up_in_ctx [of C] by blast
  have ne: "a \<noteq> b" "?c \<noteq> a" "?c \<noteq> b" "?p \<noteq> a" "?p \<noteq> b" "?c \<noteq> LEAF \<Longrightarrow> ?c \<noteq> ?p"
    using dist c_in p_in leafs by auto
  note f = rotateToLeft_fields [OF ptrs leafs(2) ne]
  have a_out: "a \<notin> set (ino_before C) \<union> set (ino_after C)" using dist by auto
  have pC: "?p = LEAF \<longleftrightarrow> C = Top" by (rule linked_ctx_up [OF ctx])
  note side = ctx_child_side [OF ctx _ leafs(1) a_out]
  have parts: "linked (nodes ?t') a A" "linked (nodes ?t') b D" "linked (nodes ?t') a B"
      "linked_ctx (nodes ?t') C b"
    by (rule rotated_parts [OF ctx lk(2,1,3) dist leafs];
        use ne pC side in \<open>auto simp: f\<close>)+
  have "root ?t' = ctx_root C b"
    using rep pC ctx_root_Top [of C b a] by (simp add: f)
  moreover have "sentinel_ok (nodes ?t')" using rep leafs by (simp add: sentinel_ok_def f)
  moreover have "linked (nodes ?t') ?p (N (N A a B) b D)"
    using parts leafs ne ptrs rep by (simp add: f)
  ultimately show "tree_rep ?t' (plug C (N (N A a B) b D))"
    using parts(4) rep unfolding tree_rep_plug by (simp add: f)
  show "same_data t ?t'" "same_color t ?t'" by (simp_all add: same_data_def same_color_def f)
qed

lemma rotateToRight_rep:
  assumes "tree_rep t (plug C (N (N D b B) a A))"
  shows "tree_rep (rotateToRight t a) (plug C (N D b (N B a A)))"
    and "same_data t (rotateToRight t a)" and "same_color t (rotateToRight t a)"
proof -
  note rep = assms [unfolded tree_rep_plug]
  let ?c = "root_of B" and ?p = "up C" and ?t' = "rotateToRight t a"
  have ctx: "linked_ctx (nodes t) C a" using rep by simp
  have lk: "linked (nodes t) a A" "linked (nodes t) b B" "linked (nodes t) b D"
    and ptrs: "left_of t a = b" "parent_of t a = ?p" "right_of t b = ?c"
    and leafs: "a \<noteq> LEAF" "b \<noteq> LEAF" using rep by simp_all
  have dist: "distinct ([a, b] @ ino A @ ino B @ ino D @ ino_before C @ ino_after C)"
    using rep by auto
  have c_in: "?c = LEAF \<or> ?c \<in> set (ino B)" by (cases B) auto
  have p_in: "?p = LEAF \<or> ?p \<in> set (ino_before C) \<union> set (ino_after C)" using up_in_ctx [of C] by blast
  have ne: "a \<noteq> b" "?c \<noteq> a" "?c \<noteq> b" "?p \<noteq> a" "?p \<noteq> b" "?c \<noteq> LEAF \<Longrightarrow> ?c \<noteq> ?p"
    using dist c_in p_in leafs by auto
  note f = rotateToRight_fields [OF ptrs leafs(2) ne]
  have a_out: "a \<notin> set (ino_before C) \<union> set (ino_after C)" using dist by auto
  have pC: "?p = LEAF \<longleftrightarrow> C = Top" by (rule linked_ctx_up [OF ctx])
  note side = ctx_child_side [OF ctx _ leafs(1) a_out]
  have parts: "linked (nodes ?t') a A" "linked (nodes ?t') b D" "linked (nodes ?t') a B"
      "linked_ctx (nodes ?t') C b"
    by (rule rotated_parts [OF ctx lk(2,1,3) dist leafs];
        use ne pC side in \<open>auto simp: f\<close>)+
  have "root ?t' = ctx_root C b"
    using rep pC ctx_root_Top [of C b a] by (simp add: f)
  moreover have "sentinel_ok (nodes ?t')" using rep leafs by (simp add: sentinel_ok_def f)
  moreover have "linked (nodes ?t') ?p (N D b (N B a A))"
    using parts leafs ne ptrs rep by (simp add: f)
  ultimately show "tree_rep ?t' (plug C (N D b (N B a A)))"
    using parts(4) rep unfolding tree_rep_plug by (simp add: f)
  show "same_data t ?t'" "same_color t ?t'" by (simp_all add: same_data_def same_color_def f)
qed

end
