(* ===== verification/PTree_Insert.thy ===== *)
theory PTree_Insert
  imports PTree_Shape
begin

text \<open>
  Insertion into the pointer tree: where the search for a place ends, what linking the new
  node does to the shape, and that rebalancing (\<open>fix_insert_collisions\<close>) always returns and
  keeps the nodes in their order.  No assumption is made on the colours.
\<close>

section \<open>Reading pointers off a shape\<close>

lemma rep_node:
  assumes "tree_rep t (plug C (N l a r))"
  shows "parent_of t a = up C" "left_of t a = root_of l" "right_of t a = root_of r" "a \<noteq> LEAF"
  using assms by (simp_all add: tree_rep_plug)

lemma rep_leaf:
  assumes "tree_rep t s"
  shows "parent_of t LEAF = LEAF" "left_of t LEAF = LEAF" "right_of t LEAF = LEAF"
    "keyValue (nodes t LEAF) = None"
  using assms by (simp_all add: tree_rep_def sentinel_ok_def)

lemma rep_nonleaf: "tree_rep t s \<Longrightarrow> LEAF \<notin> set (ino s)"
  using linked_nonleaf by (auto simp: tree_rep_def)

lemma root_of_cases: "root_of s = LEAF \<or> root_of s \<in> set (ino s)"
  by (cases s) auto

lemma rep_distinct: "tree_rep t (plug C s) \<Longrightarrow> distinct (ino_before C @ ino s @ ino_after C)"
  by (simp add: tree_rep_plug)

lemma rep_root_leaf: "tree_rep t s \<Longrightarrow> root_of s = LEAF \<longleftrightarrow> s = L"
  by (cases s) (auto simp: tree_rep_def)

section \<open>The place of a new key\<close>

lemma insert_loop_place:
  assumes "tree_rep t (plug C s)"
    and "sorted_wrt (\<lambda>x y. cmp key (key_of t x) < 0 \<longrightarrow> cmp key (key_of t y) < 0) (ino (plug C s))"
    and "\<forall>x \<in> set (ino_before C). \<not> cmp key (key_of t x) < 0"
    and "\<forall>x \<in> set (ino_after C). cmp key (key_of t x) < 0"
  shows "\<exists>D. plug C s = plug D L \<and> insert_loop cmp t key (root_of s) (up C) = Some (up D)
      \<and> (\<forall>x \<in> set (ino_before D). \<not> cmp key (key_of t x) < 0)
      \<and> (\<forall>x \<in> set (ino_after D). cmp key (key_of t x) < 0)"
  using assms
proof (induction s arbitrary: C)
  case L
  then show ?case by (subst insert_loop.simps) auto
next
  case (N l a r)
  note p = rep_node [OF N.prems(1)]
  show ?case
  proof (cases "cmp key (key_of t a) < 0")
    case True
    have "\<exists>D. plug (InL C a r) l = plug D L
        \<and> insert_loop cmp t key (root_of l) (up (InL C a r)) = Some (up D)
        \<and> (\<forall>x \<in> set (ino_before D). \<not> cmp key (key_of t x) < 0)
        \<and> (\<forall>x \<in> set (ino_after D). cmp key (key_of t x) < 0)"
      by (rule N.IH(1)) (use N.prems True in \<open>auto simp: ino_plug sorted_wrt_append\<close>)
    moreover have "insert_loop cmp t key (root_of (N l a r)) (up C) = insert_loop cmp t key (root_of l) a"
      using p True by (subst insert_loop.simps) simp
    ultimately show ?thesis by simp
  next
    case False
    have "\<exists>D. plug (InR C l a) r = plug D L
        \<and> insert_loop cmp t key (root_of r) (up (InR C l a)) = Some (up D)
        \<and> (\<forall>x \<in> set (ino_before D). \<not> cmp key (key_of t x) < 0)
        \<and> (\<forall>x \<in> set (ino_after D). cmp key (key_of t x) < 0)"
      by (rule N.IH(2)) (use N.prems False in \<open>auto simp: ino_plug sorted_wrt_append\<close>)
    moreover have "insert_loop cmp t key (root_of (N l a r)) (up C) = insert_loop cmp t key (root_of r) a"
      using p False by (subst insert_loop.simps) simp
    ultimately show ?thesis by simp
  qed
qed

lemma up_side: "C \<noteq> Top \<Longrightarrow> if is_left C then up C \<in> set (ino_after C) else up C \<in> set (ino_before C)"
  by (cases C) auto

section \<open>Linking the new node\<close>

text \<open>A node that is allocated but not in the tree yet.\<close>

definition fresh_node :: "'k pico_tree \<Rightarrow> nat \<Rightarrow> shape \<Rightarrow> bool" where
  "fresh_node t x s \<longleftrightarrow> x \<notin> set (ino s) \<and> x \<noteq> LEAF \<and> x < brk t \<and> left_of t x = LEAF
     \<and> right_of t x = LEAF \<and> keyValue (nodes t x) \<noteq> None"

lemma create_node_rep:
  assumes "tree_rep t s" "0 < brk t" "create_node t key True = (x, t')"
  shows "tree_rep t' s" "fresh_node t' x s" "key_of t' x = key"
    and "\<forall>a \<in> set (ino s). keyValue (nodes t' a) = keyValue (nodes t a)" "0 < brk t'" "x = brk t"
proof -
  have eq: "x = brk t" "brk t' = Suc (brk t)" "root t' = root t"
    "nodes t' = (nodes t)(x := \<lparr>keyValue = Some key, parent = LEAF, leftChild = LEAF,
       rightChild = LEAF, color = RED\<rparr>)"
    using assms(3) by (auto simp: create_node_def)
  have out: "x \<notin> set (ino s)" using assms(1) eq(1) by (auto simp: tree_rep_def)
  show "tree_rep t' s" using assms(1,2) out by (auto simp: tree_rep_def eq)
  show "fresh_node t' x s" using out assms(2) by (auto simp: fresh_node_def eq)
  show "key_of t' x = key" by (simp add: eq)
  show "\<forall>a \<in> set (ino s). keyValue (nodes t' a) = keyValue (nodes t a)" using out by (auto simp: eq)
  show "0 < brk t'" "x = brk t" by (simp_all add: eq)
qed

text \<open>Hanging a fresh node into a hole.\<close>

lemma link_node_rep:
  assumes rep: "tree_rep t (plug D L)" and fr: "fresh_node t x (plug D L)"
    and t': "t' = (if D = Top then (set_parent t x LEAF)\<lparr>root := x\<rparr>
        else if is_left D then set_left (set_parent t x (up D)) (up D) x
        else set_right (set_parent t x (up D)) (up D) x)"
  shows "tree_rep t' (plug D (N L x L))" "same_data t t'"
proof -
  note r = rep [unfolded tree_rep_plug]
  have ctx: "linked_ctx (nodes t) D LEAF" using r by simp
  have upx: "up D \<noteq> x" and x: "x \<notin> set (ino_before D)" "x \<notin> set (ino_after D)" "x \<noteq> LEAF"
    using fr up_in_ctx [of D] by (auto simp: fresh_node_def ino_plug)
  have f: "parent_of t' y = (if y = x then up D else parent_of t y)"
    "left_of t' y = (if D \<noteq> Top \<and> is_left D \<and> y = up D then x else left_of t y)"
    "right_of t' y = (if D \<noteq> Top \<and> \<not> is_left D \<and> y = up D then x else right_of t y)"
    "keyValue (nodes t' y) = keyValue (nodes t y)" "brk t' = brk t" for y
    using t' by (auto simp: set_parent_def)
  have "linked_ctx (nodes t') D x"
  proof (rule linked_ctx_child [OF ctx])
    show "same_links (nodes t) (nodes t') y"
      if "y \<in> set (ino_before D) \<union> set (ino_after D)" "y \<noteq> up D" for y
      using that x by (auto simp: same_links_def f)
  qed (use r upx in \<open>auto simp: f\<close>)
  moreover have "linked (nodes t') (up D) (N L x L)"
    using fr x upx by (auto simp: fresh_node_def f)
  moreover have "root t' = ctx_root D x"
  proof (cases "D = Top")
    case True
    then show ?thesis using t' by simp
  next
    case False
    then have "root t' = root t" using t' by (simp add: set_parent_def set_left_def set_right_def)
    then show ?thesis using r False ctx_root_Top [of D LEAF x] by simp
  qed
  moreover have "sentinel_ok (nodes t')"
    using r linked_ctx_up [OF ctx] x by (auto simp: sentinel_ok_def f)
  ultimately show "tree_rep t' (plug D (N L x L))"
    using r fr unfolding tree_rep_plug by (auto simp: f fresh_node_def ino_plug)
  show "same_data t t'" by (simp add: same_data_def f)
qed

lemma pico_tree_insert_node_rep:
  assumes rep: "tree_rep t s" and fr: "fresh_node t x s" and k: "key_of t x = key"
    and mono: "sorted_wrt (\<lambda>x y. cmp key (key_of t x) < 0 \<longrightarrow> cmp key (key_of t y) < 0) (ino s)"
  shows "\<exists>t' D. s = plug D L \<and> pico_tree_insert_node cmp t x = Some t'
      \<and> tree_rep t' (plug D (N L x L)) \<and> same_data t t'
      \<and> (\<forall>y \<in> set (ino_before D). \<not> cmp key (key_of t y) < 0)
      \<and> (\<forall>y \<in> set (ino_after D). cmp key (key_of t y) < 0)"
proof -
  have rt: "root t = root_of s" using rep by (simp add: tree_rep_def)
  obtain D where D: "s = plug D L" "insert_loop cmp t key (root t) LEAF = Some (up D)"
      "\<forall>y \<in> set (ino_before D). \<not> cmp key (key_of t y) < 0"
      "\<forall>y \<in> set (ino_after D). cmp key (key_of t y) < 0"
    using insert_loop_place [of t Top s cmp key] rep mono rt by auto
  have ctx: "linked_ctx (nodes t) D LEAF" using rep D(1) by (simp add: tree_rep_plug)
  let ?t = "set_parent t x (up D)"
  let ?t' = "if D = Top then ?t\<lparr>root := x\<rparr>
        else if is_left D then set_left ?t (up D) x else set_right ?t (up D) x"
  have side: "D \<noteq> Top \<Longrightarrow> cmp key (key_of t (up D)) < 0 \<longleftrightarrow> is_left D"
    using up_side [of D] D(3,4) by (auto split: if_splits)
  have "pico_tree_insert_node cmp t x = Some ?t'"
    using D(2) k side linked_ctx_up [OF ctx] by (auto simp: pico_tree_insert_node_def Let_def)
  moreover have "tree_rep ?t' (plug D (N L x L))" "same_data t ?t'"
    using link_node_rep [OF rep [unfolded D(1)] fr [unfolded D(1)] refl]
    by (cases D; simp)+
  ultimately show ?thesis using D by blast
qed

section \<open>Rebalancing keeps the order and returns\<close>

text \<open>
  What one iteration must do: keep the data and the in-order list, and either move the node
  nearer to the root or leave it under a black parent, which ends the loop.
\<close>

definition fix_step_ok :: "'k pico_tree \<Rightarrow> ctx \<Rightarrow> shape \<Rightarrow> 'k pico_tree \<times> nat \<Rightarrow> bool" where
  "fix_step_ok t C s res \<longleftrightarrow> (case res of (t', y) \<Rightarrow>
     same_data t t' \<and>
     (\<exists>C' l r. tree_rep t' (plug C' (N l y r)) \<and> ino (plug C' (N l y r)) = ino (plug C s) \<and>
        (depth C' < depth C \<or> color_of t' (parent_of t' y) = BLACK)))"

lemma fix_step_okI:
  assumes "same_data t t'" "tree_rep t' (plug C' (N l y r))" "ino (plug C' (N l y r)) = ino (plug C s)"
    and "depth C' < depth C \<or> color_of t' (parent_of t' y) = BLACK"
  shows "fix_step_ok t C s (t', y)"
  using assms by (auto simp: fix_step_ok_def)

text \<open>The recolouring of the grandparent step.\<close>

lemma recolor_fields:
  assumes "p \<noteq> g"
  shows "color_of (set_color (set_color t p BLACK) g RED) p = BLACK"
  using assms by simp

lemma same_color_at: "same_color t t' \<Longrightarrow> color_of t' x = color_of t x"
  by (simp add: same_color_def)

lemma rotateToRight_recolored:
  assumes "tree_rep t (plug C (N (N D b B) a A))"
  defines "t1 \<equiv> set_color (set_color t b BLACK) a RED"
  shows "tree_rep (rotateToRight t1 a) (plug C (N D b (N B a A)))"
    and "same_data t (rotateToRight t1 a)" and "color_of (rotateToRight t1 a) b = BLACK"
proof -
  have r: "tree_rep t1 (plug C (N (N D b B) a A))" using assms by simp
  have ab: "b \<noteq> a" using rep_distinct [OF assms(1)] by auto
  show "tree_rep (rotateToRight t1 a) (plug C (N D b (N B a A)))" by (rule rotateToRight_rep(1) [OF r])
  have "same_data t t1" by (simp add: t1_def same_data_def)
  then show "same_data t (rotateToRight t1 a)" by (rule same_data_trans) (rule rotateToRight_rep(2) [OF r])
  show "color_of (rotateToRight t1 a) b = BLACK"
    using same_color_at [OF rotateToRight_rep(3) [OF r], of b] ab by (simp add: t1_def)
qed

lemma rotateToLeft_recolored:
  assumes "tree_rep t (plug C (N A a (N B b D)))"
  defines "t1 \<equiv> set_color (set_color t b BLACK) a RED"
  shows "tree_rep (rotateToLeft t1 a) (plug C (N (N A a B) b D))"
    and "same_data t (rotateToLeft t1 a)" and "color_of (rotateToLeft t1 a) b = BLACK"
proof -
  have r: "tree_rep t1 (plug C (N A a (N B b D)))" using assms by simp
  have ab: "b \<noteq> a" using rep_distinct [OF assms(1)] by auto
  show "tree_rep (rotateToLeft t1 a) (plug C (N (N A a B) b D))" by (rule rotateToLeft_rep(1) [OF r])
  have "same_data t t1" by (simp add: t1_def same_data_def)
  then show "same_data t (rotateToLeft t1 a)" by (rule same_data_trans) (rule rotateToLeft_rep(2) [OF r])
  show "color_of (rotateToLeft t1 a) b = BLACK"
    using same_color_at [OF rotateToLeft_rep(3) [OF r], of b] ab by (simp add: t1_def)
qed

text \<open>The pointers of a node, its parent and its grandparent.\<close>

lemma grandchild_left:
  assumes "tree_rep t (plug C (N (N A p B) g U))"
  shows "parent_of t p = g" "left_of t g = p" "right_of t g = root_of U" "parent_of t g = up C"
    "left_of t p = root_of A" "right_of t p = root_of B" "p \<noteq> root_of U" "g \<noteq> p" "p \<noteq> LEAF"
    "root_of A \<noteq> LEAF \<Longrightarrow> root_of A \<noteq> root_of B" "root_of A \<noteq> LEAF \<Longrightarrow> parent_of t (root_of A) = p"
    "root_of B \<noteq> LEAF \<Longrightarrow> root_of B \<noteq> root_of A" "root_of B \<noteq> LEAF \<Longrightarrow> parent_of t (root_of B) = p"
proof -
  note r = assms [unfolded tree_rep_plug]
  have d: "distinct (ino A @ p # ino B @ g # ino U)" using rep_distinct [OF assms] by auto
  show "parent_of t p = g" "left_of t g = p" "right_of t g = root_of U" "parent_of t g = up C"
    "left_of t p = root_of A" "right_of t p = root_of B" "p \<noteq> LEAF" using r by simp_all
  show "p \<noteq> root_of U" using root_of_cases [of U] d r by auto
  show "g \<noteq> p" using d by auto
  show "root_of A \<noteq> LEAF \<Longrightarrow> root_of A \<noteq> root_of B" "root_of B \<noteq> LEAF \<Longrightarrow> root_of B \<noteq> root_of A"
    using root_of_cases [of A] root_of_cases [of B] d by auto
  show "root_of A \<noteq> LEAF \<Longrightarrow> parent_of t (root_of A) = p" using r by (cases A) auto
  show "root_of B \<noteq> LEAF \<Longrightarrow> parent_of t (root_of B) = p" using r by (cases B) auto
qed

lemma grandchild_right:
  assumes "tree_rep t (plug C (N U g (N B p A)))"
  shows "parent_of t p = g" "right_of t g = p" "left_of t g = root_of U" "parent_of t g = up C"
    "right_of t p = root_of A" "left_of t p = root_of B" "p \<noteq> root_of U" "g \<noteq> p" "p \<noteq> LEAF"
    "root_of A \<noteq> LEAF \<Longrightarrow> root_of A \<noteq> root_of B" "root_of A \<noteq> LEAF \<Longrightarrow> parent_of t (root_of A) = p"
    "root_of B \<noteq> LEAF \<Longrightarrow> root_of B \<noteq> root_of A" "root_of B \<noteq> LEAF \<Longrightarrow> parent_of t (root_of B) = p"
proof -
  note r = assms [unfolded tree_rep_plug]
  have d: "distinct (ino U @ g # ino B @ p # ino A)" using rep_distinct [OF assms] by auto
  show "parent_of t p = g" "right_of t g = p" "left_of t g = root_of U" "parent_of t g = up C"
    "right_of t p = root_of A" "left_of t p = root_of B" "p \<noteq> LEAF" using r by simp_all
  show "p \<noteq> root_of U" using root_of_cases [of U] d r by auto
  show "g \<noteq> p" using d by auto
  show "root_of A \<noteq> LEAF \<Longrightarrow> root_of A \<noteq> root_of B" "root_of B \<noteq> LEAF \<Longrightarrow> root_of B \<noteq> root_of A"
    using root_of_cases [of A] root_of_cases [of B] d by auto
  show "root_of A \<noteq> LEAF \<Longrightarrow> parent_of t (root_of A) = p" using r by (cases A) auto
  show "root_of B \<noteq> LEAF \<Longrightarrow> parent_of t (root_of B) = p" using r by (cases B) auto
qed

lemma fix_insert_red:
  assumes "tree_rep t (plug C s)" "plug C s = plug D (N gl g gr)" "depth D < depth C"
  shows "fix_step_ok t C s (set_color (set_color (set_color t p BLACK) u BLACK) g RED, g)"
  using assms by (intro fix_step_okI [of _ _ D gl _ gr]) (simp_all add: same_data_def)

lemma fix_step_rotated:
  assumes "same_data t t'" "tree_rep t' (plug C' (N l y r))" "ino (plug C' (N l y r)) = ino (plug C s)"
    and "up C' = b" "color_of t' b = BLACK"
  shows "fix_step_ok t C s (t', y)"
  using assms rep_node(1) [OF assms(2)] by (intro fix_step_okI) auto

lemma fix_insert_body_left:
  assumes rep: "tree_rep t (plug C s)" and C: "C = InL (InL D g U) p B \<or> C = InR (InL D g U) A p"
    and s: "s = N l x r"
  shows "fix_step_ok t C s (fix_insert_body t x)"
proof -
  obtain A' B' where eq: "plug C s = plug D (N (N A' p B') g U)" and up: "up C = p"
    and side: "C = InL (InL D g U) p B \<and> A' = s \<and> B' = B \<or> C = InR (InL D g U) A p \<and> A' = A \<and> B' = s"
    using C by auto
  note g = grandchild_left [OF rep [unfolded eq]]
  have x: "parent_of t x = p" "x \<noteq> LEAF" using rep s up by (auto simp: tree_rep_plug)
  have dep: "depth D < depth C" using C by auto
  have body: "fix_insert_body t x =
     (if color_of t (root_of U) = RED
      then (set_color (set_color (set_color t p BLACK) (root_of U) BLACK) g RED, g)
      else (let (t, node) = (if AM_I_RIGHT_CHILD t x
                  then (rotateToLeft t (parent_of t x), parent_of t x) else (t, x));
                t = set_color t (parent_of t node) BLACK;
                t = set_color t (GRANPA t node) RED
            in (rotateToRight t (GRANPA t node), node)))"
    using x g(1-9) by (simp add: fix_insert_body_def Let_def)
  show ?thesis
  proof (cases "color_of t (root_of U) = RED")
    case True
    then show ?thesis using fix_insert_red [OF rep eq dep] body by simp
  next
    case uncle: False
    from side show ?thesis
    proof
      assume outer: "C = InL (InL D g U) p B \<and> A' = s \<and> B' = B"
      then have "\<not> AM_I_RIGHT_CHILD t x" using s x g(6,10) by simp
      then have b: "fix_insert_body t x = (rotateToRight (set_color (set_color t p BLACK) g RED) g, x)"
        using body uncle x g by (simp add: Let_def)
      note rot = rotateToRight_recolored [OF rep [unfolded eq]]
      show ?thesis unfolding b
        by (rule fix_step_rotated [where C' = "InL D p (N B' g U)" and l = l and r = r and b = p])
           (use rot outer s in \<open>simp_all add: ino_plug\<close>)
    next
      assume inner: "C = InR (InL D g U) A p \<and> A' = A \<and> B' = s"
      then have xr: "AM_I_RIGHT_CHILD t x" using s x g(6,10) by simp
      define t1 where "t1 = rotateToLeft t p"
      have r0: "tree_rep t (plug (InL D g U) (N A p (N l x r)))" using rep inner s by simp
      have r1: "tree_rep t1 (plug D (N (N (N A p l) x r) g U))" and sd1: "same_data t t1"
        using rotateToLeft_rep [OF r0] by (simp_all add: t1_def)
      note g1 = grandchild_left [OF r1]
      have p1: "parent_of t1 p = x" using r1 by (simp add: tree_rep_plug)
      have b: "fix_insert_body t x = (rotateToRight (set_color (set_color t1 x BLACK) g RED) g, p)"
        using body uncle x g1 p1 xr by (simp add: Let_def t1_def)
      note rot = rotateToRight_recolored [OF r1]
      show ?thesis unfolding b
        by (rule fix_step_rotated [where C' = "InL D x (N r g U)" and l = A and r = l and b = x])
           (use rot inner s same_data_trans [OF sd1] in \<open>simp_all add: ino_plug\<close>)
    qed
  qed
qed

lemma fix_insert_body_right:
  assumes rep: "tree_rep t (plug C s)" and C: "C = InR (InR D U g) B p \<or> C = InL (InR D U g) p A"
    and s: "s = N l x r"
  shows "fix_step_ok t C s (fix_insert_body t x)"
proof -
  obtain A' B' where eq: "plug C s = plug D (N U g (N B' p A'))" and up: "up C = p"
    and side: "C = InR (InR D U g) B p \<and> A' = s \<and> B' = B \<or> C = InL (InR D U g) p A \<and> A' = A \<and> B' = s"
    using C by auto
  note g = grandchild_right [OF rep [unfolded eq]]
  have x: "parent_of t x = p" "x \<noteq> LEAF" using rep s up by (auto simp: tree_rep_plug)
  have dep: "depth D < depth C" using C by auto
  have body: "fix_insert_body t x =
     (if color_of t (root_of U) = RED
      then (set_color (set_color (set_color t p BLACK) (root_of U) BLACK) g RED, g)
      else (let (t, node) = (if AM_I_LEFT_CHILD t x
                  then (rotateToRight t (parent_of t x), parent_of t x) else (t, x));
                t = set_color t (parent_of t node) BLACK;
                t = set_color t (GRANPA t node) RED
            in (rotateToLeft t (GRANPA t node), node)))"
    using x g(1-9) by (simp add: fix_insert_body_def Let_def)
  show ?thesis
  proof (cases "color_of t (root_of U) = RED")
    case True
    then show ?thesis using fix_insert_red [OF rep eq dep] body by simp
  next
    case uncle: False
    from side show ?thesis
    proof
      assume outer: "C = InR (InR D U g) B p \<and> A' = s \<and> B' = B"
      then have "\<not> AM_I_LEFT_CHILD t x" using s x g(6,10) by simp
      then have b: "fix_insert_body t x = (rotateToLeft (set_color (set_color t p BLACK) g RED) g, x)"
        using body uncle x g by (simp add: Let_def)
      note rot = rotateToLeft_recolored [OF rep [unfolded eq]]
      show ?thesis unfolding b
        by (rule fix_step_rotated [where C' = "InR D (N U g B') p" and l = l and r = r and b = p])
           (use rot outer s in \<open>simp_all add: ino_plug\<close>)
    next
      assume inner: "C = InL (InR D U g) p A \<and> A' = A \<and> B' = s"
      then have xr: "AM_I_LEFT_CHILD t x" using s x g(6,10) by simp
      define t1 where "t1 = rotateToRight t p"
      have r0: "tree_rep t (plug (InR D U g) (N (N l x r) p A))" using rep inner s by simp
      have r1: "tree_rep t1 (plug D (N U g (N l x (N r p A))))" and sd1: "same_data t t1"
        using rotateToRight_rep [OF r0] by (simp_all add: t1_def)
      note g1 = grandchild_right [OF r1]
      have p1: "parent_of t1 p = x" using r1 by (simp add: tree_rep_plug)
      have b: "fix_insert_body t x = (rotateToLeft (set_color (set_color t1 x BLACK) g RED) g, p)"
        using body uncle x g1 p1 xr by (simp add: Let_def t1_def)
      note rot = rotateToLeft_recolored [OF r1]
      show ?thesis unfolding b
        by (rule fix_step_rotated [where C' = "InR D (N U g l) x" and l = r and r = A and b = x])
           (use rot inner s same_data_trans [OF sd1] in \<open>simp_all add: ino_plug\<close>)
    qed
  qed
qed

lemma fix_insert_body_ok:
  assumes rep: "tree_rep t (plug C (N l x r))" and "GRANPA t x \<noteq> LEAF"
  shows "fix_step_ok t C (N l x r) (fix_insert_body t x)"
proof -
  have up: "parent_of t x = up C" by (rule rep_node(1) [OF rep])
  have leaf: "parent_of t LEAF = LEAF" by (rule rep_leaf(1) [OF rep])
  show ?thesis
  proof (cases C)
    case Top
    then show ?thesis using assms up leaf by simp
  next
    case (InL C' p B)
    show ?thesis
    proof (cases C')
      case Top
      then show ?thesis using assms InL up rep_node(1) [of t Top "N l x r" p B] by simp
    qed (use fix_insert_body_left [OF rep _ refl] fix_insert_body_right [OF rep _ refl] InL in blast)+
  next
    case (InR C' A p)
    show ?thesis
    proof (cases C')
      case Top
      then show ?thesis using assms InR up rep_node(1) [of t Top A p "N l x r"] by simp
    qed (use fix_insert_body_left [OF rep _ refl] fix_insert_body_right [OF rep _ refl] InR in blast)+
  qed
qed

text \<open>The loop returns, with the data and the order of the nodes unchanged.\<close>

lemma fix_insert_loop_stop:
  "color_of t (parent_of t x) = BLACK \<or> GRANPA t x = LEAF \<Longrightarrow> fix_insert_loop t x = Some t"
  by (subst fix_insert_loop.simps) auto

lemma fix_insert_loop_rep:
  assumes "tree_rep t (plug C (N l x r))"
  shows "\<exists>t' s'. fix_insert_loop t x = Some t' \<and> tree_rep t' s' \<and> ino s' = ino (plug C (N l x r))
      \<and> same_data t t'"
  using assms
proof (induction "depth C" arbitrary: t C l x r rule: less_induct)
  case less
  show ?case
  proof (cases "color_of t (parent_of t x) = RED \<and> GRANPA t x \<noteq> LEAF")
    case False
    then have "fix_insert_loop t x = Some t"
      by (intro fix_insert_loop_stop) (metis tree_color.exhaust)
    then show ?thesis using less.prems by (auto simp: same_data_def)
  next
    case True
    obtain t' y where b: "fix_insert_body t x = (t', y)" by force
    obtain C' l' r' where st: "same_data t t'" "tree_rep t' (plug C' (N l' y r'))"
        "ino (plug C' (N l' y r')) = ino (plug C (N l x r))"
        "depth C' < depth C \<or> color_of t' (parent_of t' y) = BLACK"
      using fix_insert_body_ok [OF less.prems] True b by (auto simp: fix_step_ok_def)
    have step: "fix_insert_loop t x = fix_insert_loop t' y"
      using True b by (subst fix_insert_loop.simps) simp
    have "\<exists>t'' s'. fix_insert_loop t' y = Some t'' \<and> tree_rep t'' s'
        \<and> ino s' = ino (plug C' (N l' y r')) \<and> same_data t' t''"
      using st(4)
    proof
      assume "depth C' < depth C"
      then show ?thesis by (rule less.hyps) (rule st(2))
    next
      assume "color_of t' (parent_of t' y) = BLACK"
      then have "fix_insert_loop t' y = Some t'" by (simp add: fix_insert_loop_stop)
      then show ?thesis using st(2) by (auto simp: same_data_def)
    qed
    then show ?thesis using step st(1,3) same_data_trans by metis
  qed
qed

lemma fix_insert_collisions_rep:
  assumes "tree_rep t (plug C (N l x r))"
  shows "\<exists>t' s'. fix_insert_collisions t x = Some t' \<and> tree_rep t' s'
      \<and> ino s' = ino (plug C (N l x r)) \<and> same_data t t'"
proof -
  obtain t' s' where "fix_insert_loop t x = Some t'" "tree_rep t' s'"
      "ino s' = ino (plug C (N l x r))" "same_data t t'"
    using fix_insert_loop_rep [OF assms] by blast
  then show ?thesis by (auto simp: fix_insert_collisions_def same_data_def)
qed

end
