(* ===== verification/PTree_Search.thy ===== *)
theory PTree_Search
  imports PTree_Insert
begin

text \<open>
  Traversal and search of the pointer tree, the contract of \<open>tree->compare\<close> (the locale
  \<open>key_order\<close>), and the abstract container the tree implements: the list of its keys in
  order.  \<open>tree_keys t ks\<close> relates a pointer tree to that list; the operations on the list are
  \<open>keys_find\<close>, \<open>keys_insert\<close> and \<open>keys_delete\<close>, and the components that only use the interface
  of \<open>pico_tree.h\<close> keep the list as their state.
\<close>

section \<open>First, next, foreach\<close>

lemma firstNode_rep:
  "tree_rep t (plug C s) \<Longrightarrow> s \<noteq> L \<Longrightarrow> pico_tree_firstNode t (root_of s) = Some (hd (ino s))"
proof (induction s arbitrary: C)
  case (N l a r)
  note p = rep_node [OF N.prems(1)]
  show ?case
  proof (cases "l = L")
    case True
    then show ?thesis using p by (subst pico_tree_firstNode.simps) simp
  next
    case False
    then have "root_of l \<noteq> LEAF" using N.prems(1) by (cases l) (auto simp: tree_rep_plug)
    moreover have "pico_tree_firstNode t (root_of l) = Some (hd (ino l))"
      by (rule N.IH(1) [of "InL C a r"]) (use N.prems False in simp_all)
    moreover have "ino l \<noteq> []" using False by (cases l) auto
    ultimately show ?thesis using p by (subst pico_tree_firstNode.simps) simp
  qed
qed simp

lemma lastNode_rep:
  "tree_rep t (plug C s) \<Longrightarrow> s \<noteq> L \<Longrightarrow> pico_tree_lastNode t (root_of s) = Some (last (ino s))"
proof (induction s arbitrary: C)
  case (N l a r)
  note p = rep_node [OF N.prems(1)]
  show ?case
  proof (cases "r = L")
    case True
    then show ?thesis using p by (subst pico_tree_lastNode.simps) simp
  next
    case False
    then have "root_of r \<noteq> LEAF" using N.prems(1) by (cases r) (auto simp: tree_rep_plug)
    moreover have "pico_tree_lastNode t (root_of r) = Some (last (ino r))"
      by (rule N.IH(2) [of "InR C l a"]) (use N.prems False in simp_all)
    moreover have "ino r \<noteq> []" using False by (cases r) auto
    ultimately show ?thesis using p by (subst pico_tree_lastNode.simps) simp
  qed
qed simp

lemma firstNode_leaf: "tree_rep t s \<Longrightarrow> pico_tree_firstNode t LEAF = Some LEAF"
  using rep_leaf [of t s] by (subst pico_tree_firstNode.simps) simp

lemma lastNode_leaf: "tree_rep t s \<Longrightarrow> pico_tree_lastNode t LEAF = Some LEAF"
  using rep_leaf [of t s] by (subst pico_tree_lastNode.simps) simp

text \<open>Which child a node is.\<close>

lemma child_side:
  assumes "tree_rep t (plug C s)" "s \<noteq> L" "C \<noteq> Top"
  shows "AM_I_LEFT_CHILD t (root_of s) \<longleftrightarrow> is_left C" "AM_I_RIGHT_CHILD t (root_of s) \<longleftrightarrow> \<not> is_left C"
    and "parent_of t (root_of s) = up C" "up C \<noteq> LEAF"
proof -
  have r: "linked_ctx (nodes t) C (root_of s)" "linked (nodes t) (up C) s"
    using assms(1) by (simp_all add: tree_rep_plug)
  have a: "root_of s \<noteq> LEAF" "root_of s \<in> set (ino s)" using assms(2) r(2) by (cases s; auto)+
  then have out: "root_of s \<notin> set (ino_before C) \<union> set (ino_after C)"
    using rep_distinct [OF assms(1)] by auto
  show par: "parent_of t (root_of s) = up C" using r(2) assms(2) by (cases s) auto
  show "up C \<noteq> LEAF" using linked_ctx_up [OF r(1)] assms(3) by simp
  show "AM_I_LEFT_CHILD t (root_of s) \<longleftrightarrow> is_left C" "AM_I_RIGHT_CHILD t (root_of s) \<longleftrightarrow> \<not> is_left C"
    using ctx_child_side [OF r(1) assms(3) a(1) out] by (auto simp: par)
qed

lemma top_side:
  assumes "tree_rep t s" "s \<noteq> L"
  shows "parent_of t (root_of s) = LEAF" "\<not> AM_I_LEFT_CHILD t (root_of s)" "root_of s \<noteq> LEAF"
proof -
  have r: "linked (nodes t) LEAF s" using assms(1) by (simp add: tree_rep_def)
  then show p: "parent_of t (root_of s) = LEAF" and nl: "root_of s \<noteq> LEAF"
    using assms(2) by (cases s; simp)+
  show "\<not> AM_I_LEFT_CHILD t (root_of s)" using rep_leaf [OF assms(1)] nl by (simp add: p)
qed

definition hd_or_LEAF :: "nat list \<Rightarrow> nat" where
  "hd_or_LEAF xs = (case xs of [] \<Rightarrow> LEAF | x # _ \<Rightarrow> x)"

lemma hd_or_LEAF_simps [simp]:
  "hd_or_LEAF [] = LEAF" "hd_or_LEAF (x # xs) = x" "xs \<noteq> [] \<Longrightarrow> hd_or_LEAF xs = hd xs"
  by (simp_all add: hd_or_LEAF_def split: list.splits)

lemma climb_right_rep:
  "tree_rep t (plug C s) \<Longrightarrow> s \<noteq> L \<Longrightarrow>
   map_option (parent_of t) (climb_right t (root_of s)) = Some (hd_or_LEAF (ino_after C))"
proof (induction C arbitrary: s)
  case Top
  then show ?case using top_side [of t s] by (subst climb_right.simps) simp
next
  case (InL C a r)
  then show ?case using child_side [of t "InL C a r" s] by (subst climb_right.simps) simp
next
  case (InR C l a)
  have "climb_right t (root_of s) = climb_right t a"
    using child_side [OF InR.prems] by (subst climb_right.simps) simp
  then show ?case using InR.IH [of "N l a s"] InR.prems by simp
qed

lemma climb_left_rep:
  "tree_rep t (plug C s) \<Longrightarrow> s \<noteq> L \<Longrightarrow>
   map_option (parent_of t) (climb_left t (root_of s)) = Some (hd_or_LEAF (rev (ino_before C)))"
proof (induction C arbitrary: s)
  case Top
  then show ?case using top_side [of t s] by (subst climb_left.simps) simp
next
  case (InR C l a)
  then show ?case using child_side [of t "InR C l a" s] by (subst climb_left.simps) simp
next
  case (InL C a r)
  have nl: "root_of s \<noteq> LEAF"
    using InL.prems linked_nonleaf by (cases s) (auto simp: tree_rep_plug)
  have "climb_left t (root_of s) = climb_left t a"
    using child_side [OF InL.prems] nl by (subst climb_left.simps) simp
  then show ?case using InL.IH [of "N s a r"] InL.prems by simp
qed

lemma ino_empty [simp]: "ino s = [] \<longleftrightarrow> s = L" "[] = ino s \<longleftrightarrow> s = L"
  by (cases s; auto)+

lemma distinct_split_unique:
  assumes "distinct (xs @ a # ys)" "xs @ a # ys = xs' @ a # ys'"
  shows "xs = xs' \<and> ys = ys'"
proof -
  have "a \<notin> set xs" "a \<notin> set ys" using assms(1) by auto
  then show ?thesis using assms(2) append_Cons_eq_iff by metis
qed

lemma pico_tree_next_rep:
  assumes "tree_rep t s" "ino s = xs @ a # ys"
  shows "pico_tree_next t a = Some (hd_or_LEAF ys)"
proof -
  obtain C l r where s: "s = plug C (N l a r)" using shape_split [of a s] assms(2) by auto
  note rep = assms(1) [unfolded s]
  note p = rep_node [OF rep]
  have "distinct (ino s)" using assms(1) by (simp add: tree_rep_def)
  then have ys: "ys = ino r @ ino_after C"
    using distinct_split_unique [of xs a ys "ino_before C @ ino l" "ino r @ ino_after C"] assms(2)
    by (simp add: s ino_plug)
  show ?thesis
  proof (cases "r = L")
    case False
    then have "root_of r \<noteq> LEAF" using rep linked_nonleaf by (cases r) (auto simp: tree_rep_plug)
    then show ?thesis
      using p firstNode_rep [of t "InR C l a" r] rep False ys by (simp add: pico_tree_next_def)
  next
    case r: True
    show ?thesis
    proof (cases "C \<noteq> Top \<and> is_left C")
      case True
      then have "hd_or_LEAF ys = up C" using ys r by (cases C) auto
      then show ?thesis using p r child_side [OF rep] True by (simp add: pico_tree_next_def)
    next
      case False
      then have "\<not> (parent_of t a \<noteq> LEAF \<and> AM_I_LEFT_CHILD t a)"
        using child_side(1) [OF rep] top_side [of t "N l a r"] rep by (cases C) auto
      then show ?thesis using p r climb_right_rep [OF rep] ys by (auto simp: pico_tree_next_def)
    qed
  qed
qed

lemma pico_tree_prev_rep:
  assumes "tree_rep t s" "ino s = xs @ a # ys"
  shows "pico_tree_prev t a = Some (hd_or_LEAF (rev xs))"
proof -
  obtain C l r where s: "s = plug C (N l a r)" using shape_split [of a s] assms(2) by auto
  note rep = assms(1) [unfolded s]
  note p = rep_node [OF rep]
  have "distinct (ino s)" using assms(1) by (simp add: tree_rep_def)
  then have xs: "xs = ino_before C @ ino l"
    using distinct_split_unique [of xs a ys "ino_before C @ ino l" "ino r @ ino_after C"] assms(2)
    by (simp add: s ino_plug)
  show ?thesis
  proof (cases "l = L")
    case False
    then have "root_of l \<noteq> LEAF" using rep linked_nonleaf by (cases l) (auto simp: tree_rep_plug)
    then show ?thesis
      using p lastNode_rep [of t "InL C a r" l] rep False xs
      by (simp add: pico_tree_prev_def hd_rev)
  next
    case l: True
    show ?thesis
    proof (cases "C \<noteq> Top \<and> \<not> is_left C")
      case True
      then have "hd_or_LEAF (rev xs) = up C" using xs l by (cases C) auto
      then show ?thesis using p l child_side [OF rep] True by (simp add: pico_tree_prev_def)
    next
      case False
      then have "\<not> (parent_of t a \<noteq> LEAF \<and> AM_I_RIGHT_CHILD t a)"
        using child_side(2) [OF rep] top_side [of t "N l a r"] rep by (cases C) auto
      then show ?thesis using p l climb_left_rep [OF rep] xs by (auto simp: pico_tree_prev_def)
    qed
  qed
qed

lemma foreach_from_rep:
  "tree_rep t s \<Longrightarrow> ino s = xs @ ys \<Longrightarrow> foreach_from t (hd_or_LEAF ys) = Some (map (key_of t) ys)"
proof (induction ys arbitrary: xs)
  case Nil
  then show ?case by (subst foreach_from.simps) simp
next
  case (Cons a ys)
  have "a \<noteq> LEAF" using rep_nonleaf [OF Cons.prems(1)] Cons.prems(2) by (auto simp: in_set_conv_decomp)
  moreover have "foreach_from t (hd_or_LEAF ys) = Some (map (key_of t) ys)"
    using Cons.IH [of "xs @ [a]"] Cons.prems by simp
  ultimately show ?case
    using pico_tree_next_rep [OF Cons.prems] by (subst foreach_from.simps) simp
qed

lemma pico_tree_foreach_rep:
  assumes "tree_rep t s"
  shows "pico_tree_foreach t = Some (keys_of t s)"
proof -
  have "pico_tree_firstNode t (root t) = Some (hd_or_LEAF (ino s))"
  proof (cases "s = L")
    case True
    then show ?thesis using assms firstNode_leaf [OF assms] by (simp add: tree_rep_def)
  next
    case False
    then show ?thesis using assms firstNode_rep [of t Top s] by (simp add: tree_rep_def)
  qed
  then show ?thesis using foreach_from_rep [of t s "[]" "ino s"] assms
    by (simp add: pico_tree_foreach_def keys_of_def)
qed

section \<open>The abstract container\<close>

text \<open>The tree holds the keys \<open>ks\<close>, in this order.\<close>

definition tree_keys :: "'k pico_tree \<Rightarrow> 'k list \<Rightarrow> bool" where
  "tree_keys t ks \<longleftrightarrow> 0 < brk t \<and> (\<exists>s. tree_rep t s \<and> keys_of t s = ks)"

lemma tree_keys_empty: "tree_keys empty_tree []"
proof -
  have "tree_rep empty_tree L"
    by (simp add: tree_rep_def empty_tree_def sentinel_ok_def leaf_node_def)
  then show ?thesis unfolding tree_keys_def by (auto simp: keys_of_def empty_tree_def intro: exI [of _ L])
qed

lemma tree_keys_first:
  assumes "tree_keys t ks"
  shows "pico_tree_first t = Some (case ks of [] \<Rightarrow> None | k # _ \<Rightarrow> Some k)"
proof -
  obtain s where s: "tree_rep t s" "keys_of t s = ks" using assms by (auto simp: tree_keys_def)
  show ?thesis
  proof (cases "s = L")
    case True
    then show ?thesis using s firstNode_leaf [OF s(1)] rep_leaf [OF s(1)]
      by (auto simp: pico_tree_first_def tree_rep_def keys_of_def)
  next
    case False
    then have "ino s \<noteq> []" by (cases s) auto
    then obtain a as where a: "ino s = a # as" by (cases "ino s") auto
    then have "keyValue (nodes t a) = Some (key_of t a)"
      using s(1) rep_nonleaf [of t s] by (auto simp: tree_rep_def)
    then show ?thesis using s a firstNode_rep [of t Top s] False
      by (auto simp: pico_tree_first_def tree_rep_def keys_of_def)
  qed
qed

section \<open>Search with any compare function\<close>

text \<open>The search ends and only finds what compares equal, whatever the compare function.\<close>

lemma find_loop_sound:
  "tree_rep t (plug C s) \<Longrightarrow> \<exists>a. find_loop cmp t key (root_of s) = Some a
     \<and> (a = LEAF \<or> a \<in> set (ino s) \<and> cmp (key_of t a) key = 0)"
proof (induction s arbitrary: C)
  case L
  then show ?case by (subst find_loop.simps) simp
next
  case (N l a r)
  note p = rep_node [OF N.prems]
  have "tree_rep t (plug (InL C a r) l)" "tree_rep t (plug (InR C l a) r)" using N.prems by simp_all
  note ih = N.IH(1) [OF this(1)] N.IH(2) [OF this(2)]
  show ?case using ih p by (subst find_loop.simps) (auto simp: Let_def)
qed

lemma findKey_sound:
  assumes "tree_keys t ks"
  shows "\<exists>res. pico_tree_findKey cmp t key = Some res \<and> (\<forall>k. res = Some k \<longrightarrow> k \<in> set ks \<and> cmp k key = 0)"
proof -
  obtain s where s: "tree_rep t s" "keys_of t s = ks" using assms by (auto simp: tree_keys_def)
  obtain a where a: "find_loop cmp t key (root_of s) = Some a"
    "a = LEAF \<or> a \<in> set (ino s) \<and> cmp (key_of t a) key = 0"
    using find_loop_sound [of t Top s cmp key] s(1) by auto
  have node: "pico_tree_findNode cmp t key = Some a"
    using a(1) s(1) by (simp add: pico_tree_findNode_def tree_rep_def)
  show ?thesis
  proof (cases "a = LEAF")
    case True
    then show ?thesis using node by (simp add: pico_tree_findKey_def)
  next
    case False
    then have ain: "a \<in> set (ino s)" "cmp (key_of t a) key = 0" using a(2) by simp_all
    then obtain k where "keyValue (nodes t a) = Some k" using s(1) by (auto simp: tree_rep_def)
    moreover have "key_of t a \<in> set ks" using ain(1) s(2) by (auto simp: keys_of_def)
    ultimately show ?thesis using node False ain(2) by (simp add: pico_tree_findKey_def)
  qed
qed

section \<open>The contract of the compare function\<close>

text \<open>
  What \<open>pico_tree.c\<close> relies on: on the keys in use, the compare function of a tree is a total
  preorder.  Every tree of the program interprets this locale on its own compare function.
\<close>

locale key_order =
  fixes cmp :: "'k \<Rightarrow> 'k \<Rightarrow> int" and valid :: "'k \<Rightarrow> bool"
  assumes cmp_sym: "valid x \<Longrightarrow> valid y \<Longrightarrow> cmp x y < 0 \<longleftrightarrow> 0 < cmp y x"
    and cmp_trans: "valid x \<Longrightarrow> valid y \<Longrightarrow> valid z \<Longrightarrow> cmp x y \<le> 0 \<Longrightarrow> cmp y z \<le> 0 \<Longrightarrow> cmp x z \<le> 0"

fun keys_find :: "('k \<Rightarrow> 'k \<Rightarrow> int) \<Rightarrow> 'k \<Rightarrow> 'k list \<Rightarrow> 'k option" where
  "keys_find cmp key [] = None"
| "keys_find cmp key (k # ks) = (if cmp k key = 0 then Some k else keys_find cmp key ks)"

fun keys_insert :: "('k \<Rightarrow> 'k \<Rightarrow> int) \<Rightarrow> 'k \<Rightarrow> 'k list \<Rightarrow> 'k list" where
  "keys_insert cmp key [] = [key]"
| "keys_insert cmp key (k # ks) = (if cmp key k < 0 then key # k # ks else k # keys_insert cmp key ks)"

fun keys_delete :: "('k \<Rightarrow> 'k \<Rightarrow> int) \<Rightarrow> 'k \<Rightarrow> 'k list \<Rightarrow> 'k list" where
  "keys_delete cmp key [] = []"
| "keys_delete cmp key (k # ks) = (if cmp k key = 0 then ks else k # keys_delete cmp key ks)"

definition keys_sorted :: "('k \<Rightarrow> 'k \<Rightarrow> int) \<Rightarrow> 'k list \<Rightarrow> bool" where
  "keys_sorted cmp ks = sorted_wrt (\<lambda>x y. cmp x y < 0) ks"

context key_order
begin

lemma cmp_refl: "valid x \<Longrightarrow> cmp x x = 0"
  using cmp_sym [of x x] by (cases "cmp x x < 0") auto

lemma cmp_le_iff: "valid x \<Longrightarrow> valid y \<Longrightarrow> cmp x y \<le> 0 \<longleftrightarrow> 0 \<le> cmp y x"
  using cmp_sym [of y x] by auto

lemma cmp_eq_sym: "valid x \<Longrightarrow> valid y \<Longrightarrow> cmp x y = 0 \<longleftrightarrow> cmp y x = 0"
  using cmp_sym [of x y] cmp_sym [of y x] by auto

lemma cmp_less_le_trans:
  assumes "valid x" "valid y" "valid z" "cmp x y < 0" "cmp y z \<le> 0"
  shows "cmp x z < 0"
proof (rule ccontr)
  assume "\<not> cmp x z < 0"
  then have "cmp z x \<le> 0" using assms cmp_le_iff [of z x] by simp
  then have "cmp y x \<le> 0" using assms cmp_trans [of y z x] by simp
  then show False using assms cmp_sym [of x y] by simp
qed

lemma cmp_le_less_trans:
  assumes "valid x" "valid y" "valid z" "cmp x y \<le> 0" "cmp y z < 0"
  shows "cmp x z < 0"
proof (rule ccontr)
  assume "\<not> cmp x z < 0"
  then have "cmp z x \<le> 0" using assms cmp_le_iff [of z x] by simp
  then have "cmp z y \<le> 0" using assms cmp_trans [of z x y] by simp
  then show False using assms cmp_sym [of y z] by simp
qed

lemma find_None: "keys_find cmp key ks = None \<longleftrightarrow> (\<forall>k \<in> set ks. cmp k key \<noteq> 0)"
  by (induction ks) auto

lemma find_Some: "keys_find cmp key ks = Some k \<Longrightarrow> k \<in> set ks \<and> cmp k key = 0"
  by (induction ks) (auto split: if_splits)

lemma insert_set: "set (keys_insert cmp key ks) = insert key (set ks)"
  by (induction ks) auto

lemma insert_length: "length (keys_insert cmp key ks) = Suc (length ks)"
  by (induction ks) auto

lemma insert_split:
  assumes "\<forall>x \<in> set xs. \<not> cmp key x < 0" "\<forall>y \<in> set ys. cmp key y < 0"
  shows "keys_insert cmp key (xs @ ys) = xs @ key # ys"
  using assms by (induction xs) (auto, cases ys, auto)

lemma insert_sorted:
  assumes "keys_sorted cmp ks" "\<forall>k \<in> set (key # ks). valid k" "\<forall>k \<in> set ks. cmp k key \<noteq> 0"
  shows "keys_sorted cmp (keys_insert cmp key ks)"
  using assms
proof (induction ks)
  case (Cons k ks)
  show ?case
  proof (cases "cmp key k < 0")
    case True
    then have "\<forall>y \<in> set ks. cmp key y < 0"
      using Cons.prems cmp_less_le_trans [of key k] by (auto simp: keys_sorted_def intro: less_imp_le)
    then show ?thesis using Cons.prems(1) True by (simp add: keys_sorted_def)
  next
    case False
    then have "cmp k key < 0" using Cons.prems cmp_le_iff [of k key] by auto
    then show ?thesis using False Cons by (simp add: keys_sorted_def insert_set)
  qed
qed (simp add: keys_sorted_def)

lemma delete_set:
  assumes "keys_sorted cmp ks" "\<forall>k \<in> set (key # ks). valid k"
  shows "set (keys_delete cmp key ks) = {k \<in> set ks. cmp k key \<noteq> 0}"
  using assms
proof (induction ks)
  case (Cons k ks)
  have "cmp y key \<noteq> 0" if "cmp k key = 0" "y \<in> set ks" for y
  proof -
    have "cmp k y < 0" using that Cons.prems(1) by (simp add: keys_sorted_def)
    then have "cmp key y < 0"
      using that Cons.prems(2) cmp_le_less_trans [of key k y] cmp_eq_sym [of k key] by simp
    then show ?thesis using that Cons.prems(2) cmp_sym [of key y] by simp
  qed
  then show ?case using Cons by (auto simp: keys_sorted_def)
qed simp

lemma delete_sorted: "keys_sorted cmp ks \<Longrightarrow> keys_sorted cmp (keys_delete cmp key ks)"
proof (induction ks)
  case (Cons k ks)
  have "set (keys_delete cmp key ks) \<subseteq> set ks" by (induction ks) auto
  then show ?case using Cons by (auto simp: keys_sorted_def)
qed (simp add: keys_sorted_def)

lemma find_insert:
  assumes "valid key" "valid k" "\<forall>x \<in> set ks. valid x"  "keys_sorted cmp ks" "\<forall>x \<in> set ks. cmp x k \<noteq> 0"
  shows "keys_find cmp key (keys_insert cmp k ks)
     = (if cmp k key = 0 then Some k else keys_find cmp key ks)"
proof -
  have other: "cmp x key \<noteq> 0" if "x \<in> set ks" "cmp k key = 0" for x
  proof
    assume "cmp x key = 0"
    then have "cmp x k \<le> 0" "cmp k x \<le> 0"
      using that assms cmp_trans [of x key k] cmp_trans [of k key x] cmp_eq_sym [of key k]
        cmp_eq_sym [of x key] by auto
    then show False using that assms cmp_le_iff [of k x] by force
  qed
  then show ?thesis using assms(4) by (induction ks) (auto simp: keys_sorted_def)
qed

lemma sorted_eq_unique:
  assumes "keys_sorted cmp (xs @ k # ys)" "\<forall>x \<in> set (key # xs @ k # ys). valid x" "cmp k key = 0"
  shows "(\<forall>x \<in> set xs. cmp x key < 0) \<and> (\<forall>y \<in> set ys. 0 < cmp y key)"
proof (intro conjI ballI)
  fix x assume "x \<in> set xs"
  then show "cmp x key < 0"
    using assms cmp_less_le_trans [of x k key] by (auto simp: keys_sorted_def sorted_wrt_append)
next
  fix y assume y: "y \<in> set ys"
  then have "cmp key y < 0"
    using assms cmp_le_less_trans [of key k y] cmp_eq_sym [of k key]
    by (auto simp: keys_sorted_def sorted_wrt_append)
  then show "0 < cmp y key" using assms(2) y cmp_sym [of key y] by auto
qed

lemma find_unique:
  assumes "keys_sorted cmp ks" "\<forall>x \<in> set (key # ks). valid x" "k \<in> set ks" "cmp k key = 0"
  shows "keys_find cmp key ks = Some k"
proof -
  obtain xs ys where ks: "ks = xs @ k # ys" using assms(3) by (metis split_list)
  then have "\<forall>x \<in> set xs. cmp x key \<noteq> 0" using sorted_eq_unique [of xs k ys key] assms by auto
  then have "keys_find cmp key (xs @ k # ys) = Some k" using assms(4) by (induction xs) auto
  then show ?thesis by (simp add: ks)
qed

lemma delete_split:
  assumes "keys_sorted cmp (xs @ k # ys)" "\<forall>x \<in> set (key # xs @ k # ys). valid x" "cmp k key = 0"
  shows "keys_delete cmp key (xs @ k # ys) = xs @ ys"
proof -
  have "\<forall>x \<in> set xs. cmp x key \<noteq> 0" using sorted_eq_unique [OF assms] by auto
  then show ?thesis using assms(3) by (induction xs) auto
qed

section \<open>Search in the pointer tree\<close>

lemma find_loop_rep:
  assumes "tree_rep t (plug C s)" "keys_sorted cmp (keys_of t s)"
    and "\<forall>x \<in> set (key # keys_of t s). valid x"
  shows "\<exists>a. find_loop cmp t key (root_of s) = Some a
     \<and> (a = LEAF \<and> (\<forall>x \<in> set (ino s). cmp (key_of t x) key \<noteq> 0)
        \<or> a \<in> set (ino s) \<and> cmp (key_of t a) key = 0)"
  using assms
proof (induction s arbitrary: C)
  case L
  then show ?case by (subst find_loop.simps) simp
next
  case (N l a r)
  note p = rep_node [OF N.prems(1)]
  let ?k = "key_of t a"
  have sl: "keys_sorted cmp (keys_of t l)" and sr: "keys_sorted cmp (keys_of t r)"
    and la: "\<And>x. x \<in> set (ino l) \<Longrightarrow> cmp (key_of t x) ?k < 0"
    and ra: "\<And>x. x \<in> set (ino r) \<Longrightarrow> cmp ?k (key_of t x) < 0"
    using N.prems(2) by (auto simp: keys_sorted_def keys_of_def sorted_wrt_append)
  have v: "valid key" "valid ?k" "\<And>x. x \<in> set (ino l) \<Longrightarrow> valid (key_of t x)"
    "\<And>x. x \<in> set (ino r) \<Longrightarrow> valid (key_of t x)"
    using N.prems(3) by (auto simp: keys_of_def)
  consider "cmp ?k key = 0" | "cmp ?k key < 0" | "0 < cmp ?k key" by linarith
  then show ?case
  proof cases
    case 1
    then have "find_loop cmp t key a = Some a" using p(4) by (subst find_loop.simps) simp
    then show ?thesis using 1 by simp
  next
    case 2
    have "\<exists>b. find_loop cmp t key (root_of r) = Some b
     \<and> (b = LEAF \<and> (\<forall>x \<in> set (ino r). cmp (key_of t x) key \<noteq> 0)
        \<or> b \<in> set (ino r) \<and> cmp (key_of t b) key = 0)"
      by (rule N.IH(2) [of "InR C l a"]) (use N.prems sr in \<open>auto simp: keys_of_def\<close>)
    moreover have "find_loop cmp t key a = find_loop cmp t key (root_of r)"
      using p 2 by (subst find_loop.simps) simp
    moreover have "cmp (key_of t x) key < 0" if "x \<in> set (ino l)" for x
      using cmp_less_le_trans [of "key_of t x" ?k key] la [OF that] v that 2 by simp
    ultimately show ?thesis using 2 by fastforce
  next
    case 3
    have "\<exists>b. find_loop cmp t key (root_of l) = Some b
     \<and> (b = LEAF \<and> (\<forall>x \<in> set (ino l). cmp (key_of t x) key \<noteq> 0)
        \<or> b \<in> set (ino l) \<and> cmp (key_of t b) key = 0)"
      by (rule N.IH(1) [of "InL C a r"]) (use N.prems sl in \<open>auto simp: keys_of_def\<close>)
    moreover have "find_loop cmp t key a = find_loop cmp t key (root_of l)"
      using p 3 by (subst find_loop.simps) simp
    moreover have "0 < cmp (key_of t x) key" if "x \<in> set (ino r)" for x
    proof -
      have "cmp key ?k < 0" using 3 v cmp_sym [of key ?k] by simp
      then have "cmp key (key_of t x) < 0"
        using cmp_less_le_trans [of key ?k "key_of t x"] ra [OF that] v that by simp
      then show ?thesis using v(1) v(4) [OF that] cmp_sym [of key "key_of t x"] by simp
    qed
    ultimately show ?thesis using 3 by fastforce
  qed
qed

lemma findNode_rep:
  assumes "tree_rep t s" "keys_sorted cmp (keys_of t s)"
    and "\<forall>x \<in> set (key # keys_of t s). valid x"
  shows "\<exists>a. pico_tree_findNode cmp t key = Some a
     \<and> (case keys_find cmp key (keys_of t s) of None \<Rightarrow> a = LEAF
        | Some k \<Rightarrow> a \<in> set (ino s) \<and> keyValue (nodes t a) = Some k)"
proof -
  obtain a where a: "pico_tree_findNode cmp t key = Some a"
     "a = LEAF \<and> (\<forall>x \<in> set (ino s). cmp (key_of t x) key \<noteq> 0)
        \<or> a \<in> set (ino s) \<and> cmp (key_of t a) key = 0"
    using find_loop_rep [of t Top s key] assms
    by (auto simp: pico_tree_findNode_def tree_rep_def)
  from a(2) show ?thesis
  proof
    assume none: "a = LEAF \<and> (\<forall>x \<in> set (ino s). cmp (key_of t x) key \<noteq> 0)"
    then have "keys_find cmp key (keys_of t s) = None" by (auto simp: find_None keys_of_def)
    then show ?thesis using a(1) none by simp
  next
    assume found: "a \<in> set (ino s) \<and> cmp (key_of t a) key = 0"
    then have "keys_find cmp key (keys_of t s) = Some (key_of t a)"
      using find_unique [of "keys_of t s" key "key_of t a"] assms(2,3) by (simp add: keys_of_def)
    moreover obtain k where "keyValue (nodes t a) = Some k"
      using found assms(1) by (auto simp: tree_rep_def)
    ultimately show ?thesis using a(1) found by simp
  qed
qed

lemma findKey_rep:
  assumes "tree_rep t s" "keys_sorted cmp (keys_of t s)"
    and "\<forall>x \<in> set (key # keys_of t s). valid x"
  shows "pico_tree_findKey cmp t key = Some (keys_find cmp key (keys_of t s))"
proof -
  obtain a where "pico_tree_findNode cmp t key = Some a"
     "case keys_find cmp key (keys_of t s) of None \<Rightarrow> a = LEAF
        | Some k \<Rightarrow> a \<in> set (ino s) \<and> keyValue (nodes t a) = Some k"
    using findNode_rep [OF assms] by blast
  moreover have "a \<noteq> LEAF" if "a \<in> set (ino s)" using rep_nonleaf [OF assms(1)] that by metis
  ultimately show ?thesis
    by (cases "keys_find cmp key (keys_of t s)") (auto simp: pico_tree_findKey_def)
qed

end

context key_order
begin

lemma insert_refines:
  assumes "tree_keys t ks" "keys_sorted cmp ks" "\<forall>x \<in> set (key # ks). valid x"
  shows "case keys_find cmp key ks of
      Some k \<Rightarrow> pico_tree_insert cmp t key mem_ok = Some (Ins_EEXIST k, t)
    | None \<Rightarrow> if mem_ok then \<exists>t'. pico_tree_insert cmp t key mem_ok = Some (Ins_NULL, t')
                 \<and> tree_keys t' (keys_insert cmp key ks)
              else pico_tree_insert cmp t key mem_ok = Some (Ins_LEAF, t)"
proof -
  obtain s where s: "tree_rep t s" "keys_of t s = ks" and brk: "0 < brk t"
    using assms(1) by (auto simp: tree_keys_def)
  have find: "(if root t \<noteq> LEAF then pico_tree_findKey cmp t key else Some None)
      = Some (keys_find cmp key ks)"
  proof (cases "root t = LEAF")
    case True
    then have "s = L" using s(1) rep_root_leaf [OF s(1)] by (simp add: tree_rep_def)
    then show ?thesis using True s(2) by (simp add: keys_of_def)
  next
    case False
    then show ?thesis using findKey_rep [of t s key] s assms(2,3) by simp
  qed
  show ?thesis
  proof (cases "keys_find cmp key ks")
    case (Some k)
    then show ?thesis using find by (simp add: pico_tree_insert_def)
  next
    case None
    show ?thesis
    proof (cases mem_ok)
      case False
      then show ?thesis using None find by (simp add: pico_tree_insert_def create_node_def)
    next
      case True
      obtain x t1 where c: "create_node t key True = (x, t1)" by force
      note cr = create_node_rep [OF s(1) brk c]
      have keys1: "keys_of t1 s = ks" using cr(4) s(2) by (auto simp: keys_of_def)
      have "sorted_wrt (\<lambda>a b. cmp key a < 0 \<longrightarrow> cmp key b < 0) ks"
        using assms(2,3) cmp_less_le_trans [of key]
        by (auto simp: keys_sorted_def intro!: sorted_wrt_mono_rel [of _ "\<lambda>a b. cmp a b < 0"]
              intro: less_imp_le)
      then have mono: "sorted_wrt (\<lambda>x y. cmp key (key_of t1 x) < 0 \<longrightarrow> cmp key (key_of t1 y) < 0) (ino s)"
        using keys1 by (auto simp: keys_of_def sorted_wrt_map)
      obtain t2 D where D: "s = plug D L" "pico_tree_insert_node cmp t1 x = Some t2"
        "tree_rep t2 (plug D (N L x L))" "same_data t1 t2"
        "\<forall>y \<in> set (ino_before D). \<not> cmp key (key_of t1 y) < 0"
        "\<forall>y \<in> set (ino_after D). cmp key (key_of t1 y) < 0"
        using pico_tree_insert_node_rep [where cmp = cmp and key = key, OF cr(1,2,3) mono] by blast
      obtain t3 s3 where f: "fix_insert_collisions t2 x = Some t3" "tree_rep t3 s3"
        "ino s3 = ino (plug D (N L x L))" "same_data t2 t3"
        using fix_insert_collisions_rep [OF D(3)] by blast
      have "keys_of t3 s3 = map (key_of t1) (ino_before D @ x # ino_after D)"
        using D(4) f(3,4) by (simp add: keys_of_def same_data_def ino_plug)
      also have "\<dots> = keys_insert cmp key ks"
        using D(1,5,6) cr(3) keys1
          insert_split [of "map (key_of t1) (ino_before D)" key "map (key_of t1) (ino_after D)"]
        by (auto simp: keys_of_def ino_plug)
      finally have k: "keys_of t3 s3 = keys_insert cmp key ks" .
      have "0 < brk t3" using D(4) f(4) cr(5) by (simp add: same_data_def)
      moreover have "x \<noteq> LEAF" using cr(2) by (simp add: fresh_node_def)
      ultimately show ?thesis using None True find c D(2) f(1,2) k
        by (auto simp: pico_tree_insert_def tree_keys_def)
    qed
  qed
qed

end

end
