(* ===== verification/PTree_Delete.thy ===== *)
theory PTree_Delete
  imports PTree_Search
begin

text \<open>
  Deletion from the pointer tree: unlinking a node with one child, moving the successor into
  the place of a node with two, and rebalancing (\<open>fix_delete_collisions\<close>), which always returns
  and keeps the other nodes in order.  As for insertion nothing is assumed of the colours,
  not even of the colour of the sentinel, which deletion can leave red.
\<close>

section \<open>Replacing a child\<close>

lemma switchNodes_ctx:
  assumes ctx: "linked_ctx (nodes t) C a" and a: "a \<noteq> LEAF" "a \<notin> set (ino_before C) \<union> set (ino_after C)"
    and par: "parent_of t a = up C" and rt: "root t = ctx_root C a"
    and b: "b \<notin> set (ino_before C) \<union> set (ino_after C)"
    and dist: "distinct (ino_before C @ ino_after C)"
  defines "t' \<equiv> switchNodes t a b"
  shows "linked_ctx (nodes t') C b" "root t' = ctx_root C b" "brk t' = brk t"
    and "keyValue (nodes t' x) = keyValue (nodes t x)"
    and "parent_of t' x = (if x = b \<and> b \<noteq> LEAF then up C else parent_of t x)"
    and "x \<notin> set (ino_before C) \<union> set (ino_after C) \<Longrightarrow> left_of t' x = left_of t x \<and> right_of t' x = right_of t x"
proof -
  have pC: "up C = LEAF \<longleftrightarrow> C = Top" by (rule linked_ctx_up [OF ctx])
  have side: "C \<noteq> Top \<Longrightarrow> a = left_of t (up C) \<longleftrightarrow> is_left C"
    using ctx_child_side(1) [OF ctx _ a] by metis
  define t1 where "t1 = (if C = Top then t\<lparr>root := b\<rparr>
      else if is_left C then set_left t (up C) b else set_right t (up C) b)"
  have t': "t' = (if b \<noteq> LEAF then set_parent t1 b (up C) else t1)"
    using pC side a by (cases "C = Top") (simp_all add: t'_def switchNodes_def t1_def par Let_def)
  have f: "root t' = (if C = Top then b else root t)" "brk t' = brk t"
    "keyValue (nodes t' y) = keyValue (nodes t y)"
    "parent_of t' y = (if y = b \<and> b \<noteq> LEAF then up C else parent_of t y)"
    "left_of t' y = (if C \<noteq> Top \<and> is_left C \<and> y = up C then b else left_of t y)"
    "right_of t' y = (if C \<noteq> Top \<and> \<not> is_left C \<and> y = up C then b else right_of t y)" for y
    by (simp_all add: t' t1_def)
  show "brk t' = brk t" "keyValue (nodes t' x) = keyValue (nodes t x)"
    "parent_of t' x = (if x = b \<and> b \<noteq> LEAF then up C else parent_of t x)" by (simp_all add: f)
  show "root t' = ctx_root C b" using rt ctx_root_Top [of C b a] by (simp add: f)
  show "left_of t' x = left_of t x \<and> right_of t' x = right_of t x"
    if "x \<notin> set (ino_before C) \<union> set (ino_after C)"
    using that up_in_ctx [of C] pC by (auto simp: f)
  have upb: "C \<noteq> Top \<Longrightarrow> up C \<noteq> b" using b up_in_ctx [of C] pC by auto
  show "linked_ctx (nodes t') C b"
  proof (rule linked_ctx_child [OF ctx dist])
    show "same_links (nodes t) (nodes t') y"
      if "y \<in> set (ino_before C) \<union> set (ino_after C)" "y \<noteq> up C" for y
      using that b by (auto simp: same_links_def f)
  qed (use upb in \<open>auto simp: f\<close>)
qed

lemma switchNodes_sentinel:
  assumes "sentinel_ok (nodes t)" "linked_ctx (nodes t) C a" "parent_of t a = up C"
  shows "sentinel_ok (nodes (switchNodes t a b))"
  using assms linked_ctx_up [OF assms(2)]
  by (auto simp: sentinel_ok_def switchNodes_def Let_def)

text \<open>A node with at most one child is spliced out.\<close>

lemma switchNodes_splice:
  assumes rep: "tree_rep t (plug C (N l a r))" and one: "l = L \<and> w = r \<or> r = L \<and> w = l"
  defines "t' \<equiv> switchNodes t a (root_of w)"
  shows "tree_rep t' (plug C w)" and "same_data t t'"
    and "x \<notin> set (ino (plug C w)) \<Longrightarrow> x \<noteq> LEAF \<Longrightarrow> left_of t' x = left_of t x \<and> right_of t' x = right_of t x"
proof -
  note r = rep [unfolded tree_rep_plug]
  have lw: "linked (nodes t) a w" and ctx: "linked_ctx (nodes t) C a" and sub: "set (ino w) \<subseteq> set (ino (N l a r))"
    and dw: "distinct (ino w)" and aw: "a \<notin> set (ino w)" and a0: "a \<noteq> LEAF" using r one by auto
  have d: "distinct (ino_before C @ ino w @ ino_after C)" using rep_distinct [OF rep] one by auto
  have out: "a \<notin> set (ino_before C) \<union> set (ino_after C)" using rep_distinct [OF rep] by auto
  have b: "root_of w \<notin> set (ino_before C) \<union> set (ino_after C)"
    using root_of_cases [of w] d linked_ctx_nonleaf [OF ctx] by auto
  have par: "parent_of t a = up C" and rt: "root t = ctx_root C a" and dd: "distinct (ino_before C @ ino_after C)"
    using r d by auto
  note f = switchNodes_ctx [OF ctx a0 out par rt b dd, folded t'_def]
  have "linked (nodes t') (up C) w"
  proof (rule linked_reparent [OF lw dw])
    have lr: "left_of t' x = left_of t x \<and> right_of t' x = right_of t x" if "x \<in> set (ino w)" for x
      by (rule f(6)) (use that d in auto)
    show "same_links (nodes t) (nodes t') x" if "x \<in> set (ino w)" "x \<noteq> root_of w" for x
      using that lr [OF that(1)] f(5) [of x] by (simp add: same_links_def)
    show "parent_of t' (root_of w) = up C \<and> left_of t' (root_of w) = left_of t (root_of w)
      \<and> right_of t' (root_of w) = right_of t (root_of w)" if "w \<noteq> L"
    proof -
      have "root_of w \<in> set (ino w)" "root_of w \<noteq> LEAF" using that linked_nonleaf [OF lw] by (cases w; auto)+
      then show ?thesis using lr f(5) [of "root_of w"] by simp
    qed
  qed
  moreover have "sentinel_ok (nodes t')"
    unfolding t'_def using r by (intro switchNodes_sentinel [OF _ ctx par]) simp
  ultimately show "tree_rep t' (plug C w)"
    using r d f(1,2) sub unfolding tree_rep_plug by (auto simp: f(3,4))
  show "same_data t t'" by (simp add: same_data_def f(3,4))
  show "left_of t' x = left_of t x \<and> right_of t' x = right_of t x"
    if "x \<notin> set (ino (plug C w))" "x \<noteq> LEAF"
    by (rule f(6)) (use that in \<open>auto simp: ino_plug\<close>)
qed

section \<open>Moving the successor\<close>

text \<open>The last steps of \<open>pico_tree_delete_node\<close>: \<open>m\<close> takes the place of \<open>d\<close>.\<close>

definition take_place :: "'k pico_tree \<Rightarrow> nat \<Rightarrow> nat \<Rightarrow> 'k pico_tree" where
  "take_place t d m =
     (let t = switchNodes t d m;
          t = set_left t m (left_of t d);
          t = (if left_of t m \<noteq> LEAF then set_parent t (left_of t m) m else t)
      in set_color t m (color_of t d))"

lemma take_place_rep:
  assumes ctx: "linked_ctx (nodes t) C d" and par: "parent_of t d = up C" and rt: "root t = ctx_root C d"
    and l: "linked (nodes t) d l" "left_of t d = root_of l"
    and r: "linked (nodes t) m r" "right_of t m = root_of r"
    and dist: "distinct ([d, m] @ ino l @ ino r @ ino_before C @ ino_after C)"
    and leafs: "d \<noteq> LEAF" "m \<noteq> LEAF" and sen: "sentinel_ok (nodes t)"
    and alloc: "\<forall>x \<in> set (ino (plug C (N l m r))). x < brk t \<and> keyValue (nodes t x) \<noteq> None"
  shows "tree_rep (take_place t d m) (plug C (N l m r))" "same_data t (take_place t d m)"
proof -
  let ?t' = "take_place t d m"
  define t1 where "t1 = switchNodes t d m"
  have d: "d \<notin> set (ino_before C) \<union> set (ino_after C)" "m \<notin> set (ino_before C) \<union> set (ino_after C)"
    "distinct (ino_before C @ ino_after C)" using dist by auto
  note f1 = switchNodes_ctx [OF ctx leafs(1) d(1) par rt d(2,3), folded t1_def]
  have lc: "root_of l = LEAF \<or> root_of l \<in> set (ino l)" by (rule root_of_cases)
  have ld: "left_of t1 d = root_of l" using f1(6) [OF d(1)] l(2) by simp
  have t': "?t' = set_color (if root_of l \<noteq> LEAF then set_parent (set_left t1 m (root_of l)) (root_of l) m
       else set_left t1 m (root_of l)) m (color_of t1 d)"
    using ld dist by (simp add: take_place_def Let_def t1_def [symmetric])
  have f: "root ?t' = root t1" "brk ?t' = brk t" "keyValue (nodes ?t' x) = keyValue (nodes t x)"
    "parent_of ?t' x = (if x = root_of l \<and> x \<noteq> LEAF then m else parent_of t1 x)"
    "left_of ?t' x = (if x = m then root_of l else left_of t1 x)"
    "right_of ?t' x = right_of t1 x" for x
    by (simp_all add: t' f1(3,4))
  have nl: "LEAF \<notin> set (ino l)" "LEAF \<notin> set (ino r)" by (rule linked_nonleaf [OF l(1)], rule linked_nonleaf [OF r(1)])
  have same: "same_links (nodes t) (nodes ?t') x"
    if "x \<notin> set (ino_before C) \<union> set (ino_after C)" "x \<noteq> m" "x = root_of l \<longrightarrow> x = LEAF" for x
    using that f1(5) [of x] f1(6) [OF that(1)] by (auto simp: same_links_def f)
  have L: "linked (nodes ?t') m l"
  proof (rule linked_reparent [OF l(1)])
    show "distinct (ino l)" using dist by simp
    show "same_links (nodes t) (nodes ?t') x" if "x \<in> set (ino l)" "x \<noteq> root_of l" for x
      by (rule same) (use that dist in auto)
    show "parent_of ?t' (root_of l) = m \<and> left_of ?t' (root_of l) = left_of t (root_of l)
       \<and> right_of ?t' (root_of l) = right_of t (root_of l)" if "l \<noteq> L"
    proof -
      have "root_of l \<in> set (ino l)" using that by (cases l) auto
      then have "root_of l \<notin> set (ino_before C) \<union> set (ino_after C)" "root_of l \<noteq> m" "root_of l \<noteq> LEAF"
        using dist nl by auto
      then show ?thesis using f1(6) [of "root_of l"] by (simp add: f)
    qed
  qed
  have R: "linked (nodes ?t') m r"
  proof -
    have "linked (nodes ?t') m r = linked (nodes t) m r"
      by (rule linked_cong, rule same) (use dist lc in auto)
    with r(1) show ?thesis by simp
  qed
  have "linked_ctx (nodes ?t') C m = linked_ctx (nodes t1) C m"
    by (rule linked_ctx_cong) (use dist lc d in \<open>auto simp: same_links_def f\<close>)
  then have C: "linked_ctx (nodes ?t') C m" using f1(1) by simp
  have M: "parent_of ?t' m = up C" "left_of ?t' m = root_of l" "right_of ?t' m = root_of r"
    using f1(5) [of m] f1(6) [OF d(2)] leafs(2) r(2) lc dist by (auto simp: f)
  have "sentinel_ok (nodes t1)" unfolding t1_def by (rule switchNodes_sentinel [OF sen ctx par])
  then have "sentinel_ok (nodes ?t')" using leafs(2) sen by (simp add: sentinel_ok_def f)
  then show "tree_rep ?t' (plug C (N l m r))"
    using f1(2) L R C M leafs dist alloc unfolding tree_rep_plug by (auto simp: f ino_plug)
  show "same_data t ?t'" by (simp add: same_data_def f)
qed

text \<open>The leftmost node of a subtree, with the way to it.\<close>

lemma firstNode_split:
  assumes "tree_rep t (plug C s)" "s \<noteq> L"
  shows "\<exists>E m w. s = plug E (N L m w) \<and> ino_before E = [] \<and> pico_tree_firstNode t (root_of s) = Some m"
  using assms
proof (induction s arbitrary: C)
  case (N l a r)
  note p = rep_node [OF N.prems(1)]
  show ?case
  proof (cases "l = L")
    case True
    then have "pico_tree_firstNode t a = Some a" using p by (subst pico_tree_firstNode.simps) simp
    then show ?thesis using True by (intro exI [of _ Top]) auto
  next
    case False
    then have nl: "root_of l \<noteq> LEAF" using N.prems(1) linked_nonleaf by (cases l) (auto simp: tree_rep_plug)
    have "\<exists>E m w. l = plug E (N L m w) \<and> ino_before E = [] \<and> pico_tree_firstNode t (root_of l) = Some m"
      by (rule N.IH(1) [of "InL C a r"]) (use N.prems False in simp_all)
    then obtain E m w where E: "l = plug E (N L m w)" "ino_before E = []"
      "pico_tree_firstNode t (root_of l) = Some m" by blast
    have before: "ino_before (compose (InL Top a r) E) = []" using E(2) by (induction E) auto
    have "N l a r = plug (compose (InL Top a r) E) (N L m w)" by (simp add: plug_compose E(1))
    moreover have "pico_tree_firstNode t a = Some m"
      using p nl E(3) by (subst pico_tree_firstNode.simps) simp
    ultimately show ?thesis using before by (metis root_of.simps(2))
  qed
qed simp

lemma set_parent_id: "parent_of t x = v \<Longrightarrow> set_parent t x v = t"
  by (auto simp: set_parent_def intro!: pico_tree.equality)

lemma set_left_id: "left_of t x = v \<Longrightarrow> set_left t x v = t"
  by (auto simp: set_left_def intro!: pico_tree.equality)

text \<open>The successor is the right child of \<open>d\<close> and has a right subtree: no pointer of it moves.\<close>

lemma delete_node_child:
  assumes rep: "tree_rep t (plug C (N l d (N L m w)))" and w: "w \<noteq> L"
  shows "pico_tree_delete_node t d = Some (take_place t d m, root_of w, color_of t m)"
    and "tree_rep (take_place t d m) (plug C (N l m w))" "same_data t (take_place t d m)"
proof -
  note r = rep [unfolded tree_rep_plug]
  have p: "right_of t d = m" "parent_of t m = d" "right_of t m = root_of w" "left_of t m = LEAF" using r by auto
  have w0: "root_of w \<noteq> LEAF" "parent_of t (root_of w) = m" using r w by (cases w; auto)+
  have "pico_tree_firstNode t m = Some m" using p by (subst pico_tree_firstNode.simps) simp
  then show "pico_tree_delete_node t d = Some (take_place t d m, root_of w, color_of t m)"
    using p w0 by (simp add: pico_tree_delete_node_def set_parent_id take_place_def Let_def)
  have dist: "distinct ([d, m] @ ino l @ ino w @ ino_before C @ ino_after C)" using rep_distinct [OF rep] by auto
  have a: "\<forall>x \<in> set (ino (plug C (N l m w))). x < brk t \<and> keyValue (nodes t x) \<noteq> None"
    using r by (auto simp: ino_plug)
  show "tree_rep (take_place t d m) (plug C (N l m w))" "same_data t (take_place t d m)"
    by (rule take_place_rep [OF _ _ _ _ _ _ p(3) dist _ _ _ a]; use r in simp)+
qed

text \<open>The other successors are spliced out first and get the right subtree of \<open>d\<close>.\<close>

lemma delete_node_splice:
  assumes rep: "tree_rep t (plug C (N l d (plug E (N L m w))))" and E: "ino_before E = []"
    and not_child: "E \<noteq> Top \<or> w = L"
  shows "\<exists>t'. pico_tree_delete_node t d = Some (t', root_of w, color_of t m)
     \<and> tree_rep t' (plug C (N l m (plug E w))) \<and> same_data t t'"
proof -
  let ?r = "plug E w" and ?F = "compose (InR C l d) E"
  have rep0: "tree_rep t (plug ?F (N L m w))" using rep by (simp add: plug_compose)
  define t1 where "t1 = switchNodes t m (root_of w)"
  have sp: "tree_rep t1 (plug ?F w)" "same_data t t1"
    using switchNodes_splice [OF rep0, of w] by (simp_all add: t1_def)
  have d0: "distinct (ino_before C @ ino l @ d # ino (plug E (N L m w)) @ ino_after C)"
    using rep_distinct [OF rep] by simp
  have m: "m \<notin> set (ino (plug ?F w))" "m \<noteq> LEAF"
    using d0 rep_node(4) [OF rep0] by (auto simp: plug_compose ino_plug)
  have mk: "left_of t1 m = left_of t m" "right_of t1 m = right_of t m"
    using switchNodes_splice(3) [OF rep0, of w m] m by (simp_all add: t1_def)
  have rep1: "tree_rep t1 (plug C (N l d ?r))" using sp(1) by (simp add: plug_compose)
  note r1 = rep1 [unfolded tree_rep_plug]
  have rd: "right_of t1 d = root_of ?r" using r1 by simp
  define t2 where "t2 = (if root_of ?r \<noteq> LEAF then set_parent (set_right t1 m (root_of ?r)) (root_of ?r) m
     else set_right t1 m (root_of ?r))"
  have pm: "\<not> (parent_of t m = d \<and> root_of w \<noteq> LEAF)"
  proof
    assume a: "parent_of t m = d \<and> root_of w \<noteq> LEAF"
    then have "E \<noteq> Top" using not_child by auto
    then have "up ?F \<in> set (ino_after E)" using E by (cases E) auto
    moreover have "up ?F = d" using a rep_node(1) [OF rep0] by simp
    ultimately show False using d0 by (auto simp: ino_plug)
  qed
  have first: "pico_tree_firstNode t (right_of t d) = Some m"
  proof -
    have "tree_rep t (plug (InR C l d) (plug E (N L m w)))" using rep by simp
    then have "pico_tree_firstNode t (root_of (plug E (N L m w))) = Some (hd (ino (plug E (N L m w))))"
      by (rule firstNode_rep) (cases E; auto simp: ino_plug simp flip: ino_empty)
    then show ?thesis using rep_node(3) [OF rep] E by (simp add: ino_plug)
  qed
  have eq: "pico_tree_delete_node t d = Some (take_place t2 d m, root_of w, color_of t m)"
    using pm first rep_node(3) [OF rep0] rd
    by (auto simp: pico_tree_delete_node_def take_place_def Let_def t2_def t1_def [symmetric])
  have rc: "root_of ?r = LEAF \<or> root_of ?r \<in> set (ino ?r)" by (rule root_of_cases)
  have m1: "m \<notin> set (ino ?r) \<union> {d} \<union> set (ino l) \<union> set (ino_before C) \<union> set (ino_after C)"
    using m by (auto simp: plug_compose ino_plug)
  have d1: "distinct (ino_before C @ ino l @ d # ino ?r @ ino_after C)" using rep_distinct [OF rep1] by simp
  have f: "root t2 = root t1" "brk t2 = brk t1" "keyValue (nodes t2 x) = keyValue (nodes t1 x)"
    "parent_of t2 x = (if x = root_of ?r \<and> x \<noteq> LEAF then m else parent_of t1 x)"
    "left_of t2 x = left_of t1 x" "right_of t2 x = (if x = m then root_of ?r else right_of t1 x)" for x
    by (simp_all add: t2_def)
  have same: "same_links (nodes t1) (nodes t2) x" if "x \<noteq> m" "x = root_of ?r \<longrightarrow> x = LEAF" for x
    using that by (auto simp: same_links_def f)
  have nlr: "LEAF \<notin> set (ino ?r)" using r1 linked_nonleaf [of "nodes t1" d ?r] by auto
  have "linked (nodes t2) m ?r"
  proof (rule linked_reparent [of "nodes t1" d])
    show "same_links (nodes t1) (nodes t2) x" if "x \<in> set (ino ?r)" "x \<noteq> root_of ?r" for x
      by (rule same) (use that m1 in auto)
    show "parent_of t2 (root_of ?r) = m \<and> left_of t2 (root_of ?r) = left_of t1 (root_of ?r)
       \<and> right_of t2 (root_of ?r) = right_of t1 (root_of ?r)" if "?r \<noteq> L"
    proof -
      have "root_of ?r \<in> set (ino ?r)" using that by (cases ?r) auto
      then show ?thesis using m1 nlr by (auto simp: f)
    qed
  qed (use r1 d1 in auto)
  moreover have "linked (nodes t2) d l = linked (nodes t1) d l"
    by (rule linked_cong, rule same) (use m1 d1 rc in auto)
  moreover have "linked_ctx (nodes t2) C d = linked_ctx (nodes t1) C d"
    by (rule linked_ctx_cong, rule same) (use m1 d1 rc in auto)
  moreover have "parent_of t2 d = up C" "left_of t2 d = root_of l" "right_of t2 m = root_of ?r" "root t2 = ctx_root C d"
    using r1 m1 d1 rc by (auto simp: f)
  moreover have "sentinel_ok (nodes t2)" using r1 m by (auto simp: sentinel_ok_def f)
  moreover have "\<forall>x \<in> set (ino (plug C (N l m ?r))). x < brk t2 \<and> keyValue (nodes t2 x) \<noteq> None"
    using rep sp(2) by (auto simp: tree_rep_plug ino_plug f same_data_def)
  moreover have "distinct ([d, m] @ ino l @ ino ?r @ ino_before C @ ino_after C)" using d1 m1 by auto
  ultimately have "tree_rep (take_place t2 d m) (plug C (N l m ?r))" "same_data t2 (take_place t2 d m)"
    using take_place_rep [of t2 C d l m ?r] r1 m(2) by simp_all
  moreover have "same_data t t2" using sp(2) by (simp add: same_data_def f)
  ultimately show ?thesis using eq same_data_trans by blast
qed

text \<open>
  Unlinking any node: the tree without it, and the node from which rebalancing starts, which
  is the sentinel or the root of a subtree.
\<close>

lemma pico_tree_delete_check_switch_rep:
  assumes rep: "tree_rep t (plug C (N l d r))"
  shows "\<exists>t' s' tmp col. pico_tree_delete_check_switch t d = Some (t', tmp, col)
     \<and> tree_rep t' s' \<and> ino s' = ino_before C @ ino l @ ino r @ ino_after C \<and> same_data t t'
     \<and> (\<exists>C' w. s' = plug C' w \<and> tmp = root_of w)"
proof -
  note p = rep_node [OF rep]
  have z: "x = L \<longleftrightarrow> root_of x = LEAF" if "x = l \<or> x = r" for x
    using that rep linked_nonleaf by (cases x) (auto simp: tree_rep_plug)
  consider (l) "l = L" | (r) "l \<noteq> L" "r = L" | (both) "l \<noteq> L" "r \<noteq> L" by blast
  then show ?thesis
  proof cases
    case l
    then show ?thesis using p switchNodes_splice [OF rep, of r]
      by (force simp: pico_tree_delete_check_switch_def ino_plug)
  next
    case r
    then show ?thesis using p z switchNodes_splice [OF rep, of l]
      by (force simp: pico_tree_delete_check_switch_def ino_plug)
  next
    case both
    then have eq: "pico_tree_delete_check_switch t d = pico_tree_delete_node t d"
      using p z by (simp add: pico_tree_delete_check_switch_def)
    obtain E m w where E: "r = plug E (N L m w)" "ino_before E = []"
      using firstNode_split [of t "InR C l d" r] rep both by auto
    obtain t' where t': "pico_tree_delete_node t d = Some (t', root_of w, color_of t m)"
      "tree_rep t' (plug C (N l m (plug E w)))" "same_data t t'"
    proof (cases "E \<noteq> Top \<or> w = L")
      case True
      then show ?thesis using that delete_node_splice [OF rep [unfolded E(1)] E(2)] by blast
    next
      case False
      then show ?thesis using that delete_node_child [of t C l d m w] rep E(1) by simp
    qed
    have "plug C (N l m (plug E w)) = plug (compose (InR C l m) E) w" by (simp add: plug_compose)
    moreover have "ino (plug C (N l m (plug E w))) = ino_before C @ ino l @ ino r @ ino_after C"
      using E by (simp add: ino_plug)
    ultimately show ?thesis using eq t'
      by (intro exI [of _ t'] exI [of _ "plug C (N l m (plug E w))"] exI [of _ "root_of w"]
            exI [of _ "color_of t m"]) auto
  qed
qed

section \<open>Rebalancing\<close>

text \<open>A rotation, also where there is no child to rotate with: then nothing moves.\<close>

lemma rotateToLeft_any:
  assumes "tree_rep t (plug C (N A a R))"
  shows "\<exists>s'. tree_rep (rotateToLeft t a) (plug C s') \<and> ino s' = ino (N A a R)"
    and "same_data t (rotateToLeft t a)" and "same_color t (rotateToLeft t a)"
proof -
  have "(\<exists>s'. tree_rep (rotateToLeft t a) (plug C s') \<and> ino s' = ino (N A a R))
     \<and> same_data t (rotateToLeft t a) \<and> same_color t (rotateToLeft t a)"
  proof (cases R)
    case L
    then have "right_of t a = LEAF" using rep_node [OF assms] by simp
    then have "rotateToLeft t a = t" by (simp add: rotateToLeft_def)
    then show ?thesis using assms by (auto simp: same_data_def same_color_def intro!: exI [of _ "N A a R"])
  next
    case (N B b D)
    then show ?thesis using rotateToLeft_rep [of t C A a B b D] assms
      by (intro conjI exI [of _ "N (N A a B) b D"]) simp_all
  qed
  then show "\<exists>s'. tree_rep (rotateToLeft t a) (plug C s') \<and> ino s' = ino (N A a R)"
    "same_data t (rotateToLeft t a)" "same_color t (rotateToLeft t a)" by auto
qed

lemma rotateToRight_any:
  assumes "tree_rep t (plug C (N R a A))"
  shows "\<exists>s'. tree_rep (rotateToRight t a) (plug C s') \<and> ino s' = ino (N R a A)"
    and "same_data t (rotateToRight t a)" and "same_color t (rotateToRight t a)"
proof -
  have "(\<exists>s'. tree_rep (rotateToRight t a) (plug C s') \<and> ino s' = ino (N R a A))
     \<and> same_data t (rotateToRight t a) \<and> same_color t (rotateToRight t a)"
  proof (cases R)
    case L
    then have "left_of t a = LEAF" "right_of t LEAF = LEAF"
      using rep_node [OF assms] rep_leaf [OF assms] by simp_all
    then have "rotateToRight t a = t" by (simp add: rotateToRight_def set_left_id)
    then show ?thesis using assms by (auto simp: same_data_def same_color_def intro!: exI [of _ "N R a A"])
  next
    case (N D b B)
    then show ?thesis using rotateToRight_rep [of t C D b B a A] assms
      by (intro conjI exI [of _ "N D b (N B a A)"]) simp_all
  qed
  then show "\<exists>s'. tree_rep (rotateToRight t a) (plug C s') \<and> ino s' = ino (N R a A)"
    "same_data t (rotateToRight t a)" "same_color t (rotateToRight t a)" by auto
qed

text \<open>
  What one iteration must do, as for insertion: the next node is nearer to the root, or red,
  or the root; in the last two cases the loop ends.
\<close>

definition del_step_ok :: "'k pico_tree \<Rightarrow> ctx \<Rightarrow> shape \<Rightarrow> 'k pico_tree \<times> nat \<Rightarrow> bool" where
  "del_step_ok t C s res \<longleftrightarrow> (case res of (t', y) \<Rightarrow>
     same_data t t' \<and>
     (\<exists>C' l r. tree_rep t' (plug C' (N l y r)) \<and> ino (plug C' (N l y r)) = ino (plug C s) \<and>
        (depth C' < depth C \<or> color_of t' y = RED \<or> y = root t')))"

lemma del_step_okI:
  assumes "same_data t t'" "tree_rep t' (plug C' (N l y r))" "ino (plug C' (N l y r)) = ino (plug C s)"
    and "depth C' < depth C \<or> color_of t' y = RED \<or> y = root t'"
  shows "del_step_ok t C s (t', y)"
  using assms by (auto simp: del_step_ok_def)

lemma del_step_root:
  assumes "same_data t t'" "tree_rep t' s'" "ino s' = ino (plug C s)" "s \<noteq> L"
  shows "del_step_ok t C s (t', root t')"
proof -
  have "s' \<noteq> L" using assms(3,4) by (auto simp: ino_plug)
  then obtain l y r where s': "s' = N l y r" by (cases s') auto
  then have "y = root t'" using assms(2) by (simp add: tree_rep_def)
  then show ?thesis using assms s' by (intro del_step_okI [of _ _ Top l _ r]) simp_all
qed

text \<open>The second half of an iteration at a left child, when the sibling is \<open>q\<close>.\<close>

definition delete_tail_left :: "'k pico_tree \<Rightarrow> nat \<Rightarrow> nat \<Rightarrow> 'k pico_tree \<times> nat" where
  "delete_tail_left t node q =
     (if color_of t (left_of t q) = BLACK \<and> color_of t (right_of t q) = BLACK
      then (set_color t q RED, parent_of t node)
      else
        (let (t, temp) = (if color_of t (right_of t q) = BLACK then
               (let t = set_color t (left_of t q) BLACK;
                    t = set_color t q RED;
                    t = rotateToRight t q
                in (t, right_of t (parent_of t q))) else (t, q));
             t = set_color t temp (color_of t (parent_of t node));
             t = set_color t (parent_of t node) BLACK;
             t = set_color t (right_of t temp) BLACK;
             t = rotateToLeft t (parent_of t node)
         in (t, root t)))"

lemma delete_tail_left_ok:
  assumes rep: "tree_rep t (plug D (N (N l x r) p R))" and q: "q = root_of R"
    and res: "delete_tail_left t x q = (t', y)"
  shows "same_data t t'" and "\<exists>s'. tree_rep t' s' \<and> ino s' = ino (plug D (N (N l x r) p R)) \<and> y = root t'
     \<or> tree_rep t' (plug D (N (N l x r) p R)) \<and> y = p \<and> color_of t' p = color_of t p"
proof -
  have par: "parent_of t x = p" using rep by (simp add: tree_rep_plug)
  have pq: "p \<noteq> q" using rep_distinct [OF rep] root_of_cases [of R] rep
      q by (auto simp: tree_rep_plug)
  show "same_data t t'" and "\<exists>s'. tree_rep t' s' \<and> ino s' = ino (plug D (N (N l x r) p R)) \<and> y = root t'
     \<or> tree_rep t' (plug D (N (N l x r) p R)) \<and> y = p \<and> color_of t' p = color_of t p"
  proof (atomize (full), cases "color_of t (left_of t q) = BLACK \<and> color_of t (right_of t q) = BLACK")
    case True
    then have "t' = set_color t q RED" "y = p" using res par by (auto simp: delete_tail_left_def)
    then show "same_data t t' \<and> (\<exists>s'. tree_rep t' s' \<and> ino s' = ino (plug D (N (N l x r) p R)) \<and> y = root t'
     \<or> tree_rep t' (plug D (N (N l x r) p R)) \<and> y = p \<and> color_of t' p = color_of t p)"
      using rep pq by simp
  next
    case False
    define t1 where "t1 = (if color_of t (right_of t q) = BLACK
      then rotateToRight (set_color (set_color t (left_of t q) BLACK) q RED) q else t)"
    have "\<exists>R1. tree_rep t1 (plug D (N (N l x r) p R1)) \<and> ino R1 = ino R \<and> same_data t t1"
    proof (cases "color_of t (right_of t q) = BLACK")
      case right: True
      let ?t = "set_color (set_color t (left_of t q) BLACK) q RED"
      obtain B d where R: "R = N B q d"
      proof (cases R)
        case L
        then have "q = LEAF" using q by simp
        then show ?thesis using right False rep_leaf [OF rep] by simp
      qed (use q that in auto)
      have "tree_rep ?t (plug (InR D (N l x r) p) (N B q d))" using rep R by simp
      note rot = rotateToRight_any [OF this]
      then obtain R1 where "tree_rep t1 (plug (InR D (N l x r) p) R1)" "ino R1 = ino R" "same_data ?t t1"
        using right R by (auto simp: t1_def)
      then show ?thesis using same_data_trans [of t ?t t1] by (auto simp: same_data_def)
    qed (use rep in \<open>auto simp: t1_def same_data_def\<close>)
    then obtain R1 where R1: "tree_rep t1 (plug D (N (N l x r) p R1))" "ino R1 = ino R" "same_data t t1" by blast
    have par1: "parent_of t1 x = p" using R1(1) by (simp add: tree_rep_plug)
    define u where "u = (if color_of t (right_of t q) = BLACK then right_of t1 (parent_of t1 q) else q)"
    have inner: "(if color_of t (right_of t q) = BLACK then
               (let t = set_color t (left_of t q) BLACK;
                    t = set_color t q RED;
                    t = rotateToRight t q
                in (t, right_of t (parent_of t q))) else (t, q)) = (t1, u)"
      by (simp add: t1_def u_def Let_def)
    have u: "delete_tail_left t x q = (let t' = rotateToLeft (set_color (set_color (set_color t1 u (color_of t1 p)) p BLACK)
         (right_of t1 u) BLACK) p in (t', root t'))"
      unfolding delete_tail_left_def inner if_not_P [OF False] using par1 by (simp add: Let_def)
    let ?t2 = "set_color (set_color (set_color t1 u (color_of t1 p)) p BLACK) (right_of t1 u) BLACK"
    have "tree_rep ?t2 (plug D (N (N l x r) p R1))" using R1(1) by simp
    note rot = rotateToLeft_any [OF this]
    have t': "t' = rotateToLeft ?t2 p" "y = root t'" using u res by (auto simp: Let_def)
    obtain s' where "tree_rep t' (plug D s')" "ino s' = ino (N (N l x r) p R1)" using rot(1) t'(1) by blast
    then have "\<exists>s'. tree_rep t' s' \<and> ino s' = ino (plug D (N (N l x r) p R)) \<and> y = root t'"
      using R1(2) t'(2) by (intro exI [of _ "plug D s'"]) (simp add: ino_plug)
    moreover have "same_data t t'" using R1(3) rot(2) t'(1) by (simp add: same_data_def)
    ultimately show "same_data t t' \<and> (\<exists>s'. tree_rep t' s' \<and> ino s' = ino (plug D (N (N l x r) p R)) \<and> y = root t'
     \<or> tree_rep t' (plug D (N (N l x r) p R)) \<and> y = p \<and> color_of t' p = color_of t p)" by blast
  qed
qed

lemma fix_delete_body_left:
  assumes rep: "tree_rep t (plug (InL D p R) (N l x r))"
  shows "del_step_ok t (InL D p R) (N l x r) (fix_delete_body t x)"
proof -
  let ?C = "InL D p R" and ?s = "N l x r" and ?q = "root_of R"
  have rep1: "tree_rep t (plug D (N ?s p R))" using rep by simp
  have par: "parent_of t x = p" and sib: "right_of t p = ?q" and am: "AM_I_LEFT_CHILD t x"
    using rep1 by (auto simp: tree_rep_plug)
  define t1 where "t1 = (if color_of t ?q = RED
     then rotateToLeft (set_color (set_color t ?q BLACK) p RED) p else t)"
  obtain D1 R1 where s1: "tree_rep t1 (plug D1 (N ?s p R1))" "ino (plug D1 (N ?s p R1)) = ino (plug ?C ?s)"
      "same_data t t1" "depth D1 \<le> depth D \<or> color_of t1 p = RED"
      "color_of t ?q = RED \<or> root_of R1 = ?q"
  proof (cases "color_of t ?q = RED")
    case True
    let ?t = "set_color (set_color t ?q BLACK) p RED"
    have rt: "tree_rep ?t (plug D (N ?s p R))" using rep1 by simp
    have col: "color_of t1 p = RED"
      using rotateToLeft_any(3) [OF rt] True by (simp add: t1_def same_color_def)
    have sd: "same_data t t1" using rotateToLeft_any(2) [OF rt] True by (simp add: t1_def same_data_def)
    show ?thesis
    proof (cases R)
      case L
      then have "rotateToLeft ?t p = ?t" using sib by (simp add: rotateToLeft_def)
      then show ?thesis using that [of D R] rt True sd col by (simp add: t1_def)
    next
      case (N B b d)
      then have "tree_rep t1 (plug (InL D b d) (N ?s p B))"
        using rotateToLeft_rep(1) [of ?t D ?s p B b d] rt True by (simp add: t1_def)
      then show ?thesis using that [of "InL D b d" B] sd col True N by (simp add: ino_plug)
    qed
  next
    case False
    then show ?thesis using that [of D R] rep1 by (simp add: t1_def same_data_def)
  qed
  have par1: "parent_of t1 x = p" and sib1: "right_of t1 p = root_of R1" using s1(1) by (auto simp: tree_rep_plug)
  have body: "fix_delete_body t x = delete_tail_left t1 x (root_of R1)"
    using am par par1 sib sib1 s1(5) by (auto simp: fix_delete_body_def delete_tail_left_def t1_def Let_def)
  obtain t' y where ty: "delete_tail_left t1 x (root_of R1) = (t', y)" by force
  note tail = delete_tail_left_ok [OF s1(1) refl ty]
  have sd: "same_data t t'" by (rule same_data_trans [OF s1(3) tail(1)])
  from tail(2) obtain s' where "tree_rep t' s' \<and> ino s' = ino (plug D1 (N ?s p R1)) \<and> y = root t'
     \<or> tree_rep t' (plug D1 (N ?s p R1)) \<and> y = p \<and> color_of t' p = color_of t1 p" by blast
  then show ?thesis
  proof
    assume "tree_rep t' s' \<and> ino s' = ino (plug D1 (N ?s p R1)) \<and> y = root t'"
    then show ?thesis unfolding body ty using del_step_root [OF sd, of s'] s1(2) by simp
  next
    assume a: "tree_rep t' (plug D1 (N ?s p R1)) \<and> y = p \<and> color_of t' p = color_of t1 p"
    show ?thesis unfolding body ty
      by (rule del_step_okI [OF sd, of D1 ?s _ R1]) (use a s1(2,4) in auto)
  qed
qed

text \<open>The second half of an iteration at a right child, when the sibling is \<open>q\<close>.\<close>

definition delete_tail_right :: "'k pico_tree \<Rightarrow> nat \<Rightarrow> nat \<Rightarrow> 'k pico_tree \<times> nat" where
  "delete_tail_right t node q =
     (if color_of t (right_of t q) = BLACK \<and> color_of t (left_of t q) = BLACK
      then (set_color t q RED, parent_of t node)
      else
        (let (t, temp) = (if color_of t (left_of t q) = BLACK then
               (let t = set_color t (right_of t q) BLACK;
                    t = set_color t q RED;
                    t = rotateToLeft t q
                in (t, left_of t (parent_of t q))) else (t, q));
             t = set_color t temp (color_of t (parent_of t node));
             t = set_color t (parent_of t node) BLACK;
             t = set_color t (left_of t temp) BLACK;
             t = rotateToRight t (parent_of t node)
         in (t, root t)))"

lemma delete_tail_right_ok:
  assumes rep: "tree_rep t (plug D (N R p (N l x r)))" and q: "q = root_of R"
    and res: "delete_tail_right t x q = (t', y)"
  shows "same_data t t'" and "\<exists>s'. tree_rep t' s' \<and> ino s' = ino (plug D (N R p (N l x r))) \<and> y = root t'
     \<or> tree_rep t' (plug D (N R p (N l x r))) \<and> y = p \<and> color_of t' p = color_of t p"
proof -
  have par: "parent_of t x = p" using rep by (simp add: tree_rep_plug)
  have pq: "p \<noteq> q" using rep_distinct [OF rep] root_of_cases [of R] rep
      q by (auto simp: tree_rep_plug)
  show "same_data t t'" and "\<exists>s'. tree_rep t' s' \<and> ino s' = ino (plug D (N R p (N l x r))) \<and> y = root t'
     \<or> tree_rep t' (plug D (N R p (N l x r))) \<and> y = p \<and> color_of t' p = color_of t p"
  proof (atomize (full), cases "color_of t (right_of t q) = BLACK \<and> color_of t (left_of t q) = BLACK")
    case True
    then have "t' = set_color t q RED" "y = p" using res par by (auto simp: delete_tail_right_def)
    then show "same_data t t' \<and> (\<exists>s'. tree_rep t' s' \<and> ino s' = ino (plug D (N R p (N l x r))) \<and> y = root t'
     \<or> tree_rep t' (plug D (N R p (N l x r))) \<and> y = p \<and> color_of t' p = color_of t p)"
      using rep pq by simp
  next
    case False
    define t1 where "t1 = (if color_of t (left_of t q) = BLACK
      then rotateToLeft (set_color (set_color t (right_of t q) BLACK) q RED) q else t)"
    have "\<exists>R1. tree_rep t1 (plug D (N R1 p (N l x r))) \<and> ino R1 = ino R \<and> same_data t t1"
    proof (cases "color_of t (left_of t q) = BLACK")
      case right: True
      let ?t = "set_color (set_color t (right_of t q) BLACK) q RED"
      obtain B d where R: "R = N d q B"
      proof (cases R)
        case L
        then have "q = LEAF" using q by simp
        then show ?thesis using right False rep_leaf [OF rep] by simp
      qed (use q that in auto)
      have "tree_rep ?t (plug (InL D p (N l x r)) (N d q B))" using rep R by simp
      note rot = rotateToLeft_any [OF this]
      then obtain R1 where "tree_rep t1 (plug (InL D p (N l x r)) R1)" "ino R1 = ino R" "same_data ?t t1"
        using right R by (auto simp: t1_def)
      then show ?thesis using same_data_trans [of t ?t t1] by (auto simp: same_data_def)
    qed (use rep in \<open>auto simp: t1_def same_data_def\<close>)
    then obtain R1 where R1: "tree_rep t1 (plug D (N R1 p (N l x r)))" "ino R1 = ino R" "same_data t t1" by blast
    have par1: "parent_of t1 x = p" using R1(1) by (simp add: tree_rep_plug)
    define u where "u = (if color_of t (left_of t q) = BLACK then left_of t1 (parent_of t1 q) else q)"
    have inner: "(if color_of t (left_of t q) = BLACK then
               (let t = set_color t (right_of t q) BLACK;
                    t = set_color t q RED;
                    t = rotateToLeft t q
                in (t, left_of t (parent_of t q))) else (t, q)) = (t1, u)"
      by (simp add: t1_def u_def Let_def)
    have u: "delete_tail_right t x q = (let t' = rotateToRight (set_color (set_color (set_color t1 u (color_of t1 p)) p BLACK)
         (left_of t1 u) BLACK) p in (t', root t'))"
      unfolding delete_tail_right_def inner if_not_P [OF False] using par1 by (simp add: Let_def)
    let ?t2 = "set_color (set_color (set_color t1 u (color_of t1 p)) p BLACK) (left_of t1 u) BLACK"
    have "tree_rep ?t2 (plug D (N R1 p (N l x r)))" using R1(1) by simp
    note rot = rotateToRight_any [OF this]
    have t': "t' = rotateToRight ?t2 p" "y = root t'" using u res by (auto simp: Let_def)
    obtain s' where "tree_rep t' (plug D s')" "ino s' = ino (N R1 p (N l x r))" using rot(1) t'(1) by blast
    then have "\<exists>s'. tree_rep t' s' \<and> ino s' = ino (plug D (N R p (N l x r))) \<and> y = root t'"
      using R1(2) t'(2) by (intro exI [of _ "plug D s'"]) (simp add: ino_plug)
    moreover have "same_data t t'" using R1(3) rot(2) t'(1) by (simp add: same_data_def)
    ultimately show "same_data t t' \<and> (\<exists>s'. tree_rep t' s' \<and> ino s' = ino (plug D (N R p (N l x r))) \<and> y = root t'
     \<or> tree_rep t' (plug D (N R p (N l x r))) \<and> y = p \<and> color_of t' p = color_of t p)" by blast
  qed
qed

lemma fix_delete_body_right:
  assumes rep: "tree_rep t (plug (InR D R p) (N l x r))"
  shows "del_step_ok t (InR D R p) (N l x r) (fix_delete_body t x)"
proof -
  let ?C = "InR D R p" and ?s = "N l x r" and ?q = "root_of R"
  have rep1: "tree_rep t (plug D (N R p ?s))" using rep by simp
  have par: "parent_of t x = p" and sib: "left_of t p = ?q" 
    using rep1 by (auto simp: tree_rep_plug)
  have am: "\<not> AM_I_LEFT_CHILD t x" using child_side(1) [OF rep] by simp
  define t1 where "t1 = (if color_of t ?q = RED
     then rotateToRight (set_color (set_color t ?q BLACK) p RED) p else t)"
  obtain D1 R1 where s1: "tree_rep t1 (plug D1 (N R1 p ?s))" "ino (plug D1 (N R1 p ?s)) = ino (plug ?C ?s)"
      "same_data t t1" "depth D1 \<le> depth D \<or> color_of t1 p = RED"
      "color_of t ?q = RED \<or> root_of R1 = ?q"
  proof (cases "color_of t ?q = RED")
    case True
    let ?t = "set_color (set_color t ?q BLACK) p RED"
    have rt: "tree_rep ?t (plug D (N R p ?s))" using rep1 by simp
    have col: "color_of t1 p = RED"
      using rotateToRight_any(3) [OF rt] True by (simp add: t1_def same_color_def)
    have sd: "same_data t t1" using rotateToRight_any(2) [OF rt] True by (simp add: t1_def same_data_def)
    show ?thesis
    proof (cases R)
      case L
      then have "rotateToRight ?t p = ?t"
        using sib rep_leaf(3) [OF rep] by (simp add: rotateToRight_def set_left_id)
      then show ?thesis using that [of D R] rt True sd col by (simp add: t1_def)
    next
      case (N d b B)
      then have "tree_rep t1 (plug (InR D d b) (N B p ?s))"
        using rotateToRight_rep(1) [of ?t D d b B p ?s] rt True by (simp add: t1_def)
      then show ?thesis using that [of "InR D d b" B] sd col True N by (simp add: ino_plug)
    qed
  next
    case False
    then show ?thesis using that [of D R] rep1 by (simp add: t1_def same_data_def)
  qed
  have par1: "parent_of t1 x = p" and sib1: "left_of t1 p = root_of R1" using s1(1) by (auto simp: tree_rep_plug)
  have body: "fix_delete_body t x = delete_tail_right t1 x (root_of R1)"
    using am par par1 sib sib1 s1(5) by (auto simp: fix_delete_body_def delete_tail_right_def t1_def Let_def)
  obtain t' y where ty: "delete_tail_right t1 x (root_of R1) = (t', y)" by force
  note tail = delete_tail_right_ok [OF s1(1) refl ty]
  have sd: "same_data t t'" by (rule same_data_trans [OF s1(3) tail(1)])
  from tail(2) obtain s' where "tree_rep t' s' \<and> ino s' = ino (plug D1 (N R1 p ?s)) \<and> y = root t'
     \<or> tree_rep t' (plug D1 (N R1 p ?s)) \<and> y = p \<and> color_of t' p = color_of t1 p" by blast
  then show ?thesis
  proof
    assume "tree_rep t' s' \<and> ino s' = ino (plug D1 (N R1 p ?s)) \<and> y = root t'"
    then show ?thesis unfolding body ty using del_step_root [OF sd, of s'] s1(2) by simp
  next
    assume a: "tree_rep t' (plug D1 (N R1 p ?s)) \<and> y = p \<and> color_of t' p = color_of t1 p"
    show ?thesis unfolding body ty
      by (rule del_step_okI [OF sd, of D1 R1 _ ?s]) (use a s1(2,4) in auto)
  qed
qed

lemma fix_delete_body_ok:
  assumes "tree_rep t (plug C (N l x r))" "C \<noteq> Top"
  shows "del_step_ok t C (N l x r) (fix_delete_body t x)"
  using assms fix_delete_body_left fix_delete_body_right by (cases C) blast+

text \<open>The loop returns whatever the colours are.\<close>

lemma fix_delete_loop_stop:
  "x = root t \<or> color_of t x = RED \<or> x = LEAF \<Longrightarrow> fix_delete_loop t x = Some (t, x)"
  by (subst fix_delete_loop.simps) auto

lemma fix_delete_loop_rep:
  assumes "tree_rep t (plug C (N l x r))"
  shows "\<exists>t' s' y. fix_delete_loop t x = Some (t', y) \<and> tree_rep t' s' \<and> ino s' = ino (plug C (N l x r))
      \<and> same_data t t'"
  using assms
proof (induction "depth C" arbitrary: t C l x r rule: less_induct)
  case less
  show ?case
  proof (cases "x \<noteq> root t \<and> color_of t x = BLACK \<and> x \<noteq> LEAF")
    case False
    then have "fix_delete_loop t x = Some (t, x)"
      by (intro fix_delete_loop_stop) (metis tree_color.exhaust)
    then show ?thesis using less.prems by (auto simp: same_data_def)
  next
    case True
    have "C \<noteq> Top" using True less.prems by (auto simp: tree_rep_def)
    obtain t' y where b: "fix_delete_body t x = (t', y)" by force
    obtain C' l' r' where st: "same_data t t'" "tree_rep t' (plug C' (N l' y r'))"
        "ino (plug C' (N l' y r')) = ino (plug C (N l x r))"
        "depth C' < depth C \<or> color_of t' y = RED \<or> y = root t'"
      using fix_delete_body_ok [OF less.prems \<open>C \<noteq> Top\<close>] b by (auto simp: del_step_ok_def)
    have step: "fix_delete_loop t x = fix_delete_loop t' y"
      using True b by (subst fix_delete_loop.simps) simp
    have "\<exists>t'' s' z. fix_delete_loop t' y = Some (t'', z) \<and> tree_rep t'' s'
        \<and> ino s' = ino (plug C' (N l' y r')) \<and> same_data t' t''"
      using st(4)
    proof
      assume "depth C' < depth C"
      then show ?thesis by (rule less.hyps) (rule st(2))
    next
      assume "color_of t' y = RED \<or> y = root t'"
      then have "fix_delete_loop t' y = Some (t', y)" by (auto intro: fix_delete_loop_stop)
      then show ?thesis using st(2) by (auto simp: same_data_def)
    qed
    then show ?thesis using step st(1,3) same_data_trans by metis
  qed
qed

lemma if_nodecolor_black_fix_collisions_rep:
  assumes "tree_rep t (plug C w)"
  shows "\<exists>t' s'. if_nodecolor_black_fix_collisions t (root_of w) col = Some t' \<and> tree_rep t' s'
      \<and> ino s' = ino (plug C w) \<and> same_data t t'"
proof -
  obtain t' s' y where l: "fix_delete_loop t (root_of w) = Some (t', y)" "tree_rep t' s'"
      "ino s' = ino (plug C w)" "same_data t t'"
  proof (cases w)
    case L
    then have "fix_delete_loop t (root_of w) = Some (t, LEAF)" by (simp add: fix_delete_loop_stop)
    then show ?thesis using that assms by (simp add: same_data_def)
  next
    case (N l x r)
    then show ?thesis using that fix_delete_loop_rep [of t C l x r] assms by auto
  qed
  then have "\<exists>t' s'. fix_delete_collisions t (root_of w) = Some t' \<and> tree_rep t' s'
      \<and> ino s' = ino (plug C w) \<and> same_data t t'"
    by (intro exI [of _ "set_color t' y BLACK"] exI [of _ s'])
       (simp add: fix_delete_collisions_def same_data_def)
  then show ?thesis using assms
    by (cases col) (auto simp: if_nodecolor_black_fix_collisions_def same_data_def)
qed

section \<open>Deletion on the list of keys\<close>

context key_order
begin

lemma delete_refines:
  assumes "tree_keys t ks" "keys_sorted cmp ks" "\<forall>x \<in> set (key # ks). valid x"
  shows "\<exists>t'. pico_tree_delete cmp t (Some key) = Some (keys_find cmp key ks, t')
     \<and> tree_keys t' (keys_delete cmp key ks)"
proof -
  obtain s where s: "tree_rep t s" "keys_of t s = ks" and brk: "0 < brk t"
    using assms(1) by (auto simp: tree_keys_def)
  obtain d where d: "pico_tree_findNode cmp t key = Some d"
    "case keys_find cmp key ks of None \<Rightarrow> d = LEAF
        | Some k \<Rightarrow> d \<in> set (ino s) \<and> keyValue (nodes t d) = Some k"
    using findNode_rep [of t s key] s assms(2,3) by auto
  show ?thesis
  proof (cases "keys_find cmp key ks")
    case None
    then have "keys_delete cmp key ks = ks" by (induction ks) (auto split: if_splits)
    then show ?thesis using None d assms(1) by (simp add: pico_tree_delete_def)
  next
    case (Some k)
    then have din: "d \<in> set (ino s)" "keyValue (nodes t d) = Some k" using d(2) by simp_all
    then obtain C l r where sd: "s = plug C (N l d r)" using shape_split by blast
    have d0: "d \<noteq> LEAF" using rep_node(4) [OF s(1) [unfolded sd]] .
    obtain t1 s1 tmp col where c: "pico_tree_delete_check_switch t d = Some (t1, tmp, col)"
      "tree_rep t1 s1" "ino s1 = ino_before C @ ino l @ ino r @ ino_after C" "same_data t t1"
      "\<exists>C' w. s1 = plug C' w \<and> tmp = root_of w"
      using pico_tree_delete_check_switch_rep [OF s(1) [unfolded sd]] by blast
    obtain t2 s2 where f: "if_nodecolor_black_fix_collisions t1 tmp col = Some t2" "tree_rep t2 s2"
      "ino s2 = ino s1" "same_data t1 t2"
      using if_nodecolor_black_fix_collisions_rep c(2,5) by blast
    let ?xs = "map (key_of t) (ino_before C @ ino l)" and ?ys = "map (key_of t) (ino r @ ino_after C)"
    have ks: "ks = ?xs @ k # ?ys" using s(2) din(2) by (simp add: sd keys_of_def ino_plug)
    have "cmp k key = 0" using find_Some [OF Some] by simp
    then have "keys_delete cmp key ks = ?xs @ ?ys"
      using delete_split [of ?xs k ?ys key] assms(2,3) ks by simp
    moreover have "keys_of t2 s2 = ?xs @ ?ys"
      using f(3,4) c(3,4) by (simp add: keys_of_def same_data_def)
    moreover have "0 < brk t2" using brk f(4) c(4) by (simp add: same_data_def)
    ultimately show ?thesis using Some d(1) d0 din c(1) f(1,2)
      by (auto simp: pico_tree_delete_def tree_keys_def)
  qed
qed

end

end
