(* ===== verification/PTree_Spec.thy ===== *)
theory PTree_Spec
  imports PTree_Delete
begin

text \<open>
  The contract of \<open>pico_tree.h\<close>: a sorted container without duplicates.  The locale
  \<open>sorted_container\<close> states it and derives what clients use; every \<open>key_order\<close> gives the
  pointer tree as an instance.  The properties at the end say that the functions of
  \<open>pico_tree.c\<close> return on every well-formed tree and compute the list operations, and show
  what they do not keep: the colours.
\<close>

section \<open>The contract\<close>

definition tree_inv :: "('k \<Rightarrow> 'k \<Rightarrow> int) \<Rightarrow> ('k \<Rightarrow> bool) \<Rightarrow> 'k pico_tree \<Rightarrow> 'k list \<Rightarrow> bool" where
  "tree_inv cmp valid t ks \<longleftrightarrow> tree_keys t ks \<and> keys_sorted cmp ks \<and> (\<forall>x \<in> set ks. valid x)"

locale sorted_container = key_order cmp valid
  for cmp :: "'k \<Rightarrow> 'k \<Rightarrow> int" and valid :: "'k \<Rightarrow> bool" +
  fixes inv :: "'t \<Rightarrow> 'k list \<Rightarrow> bool"
    and ins :: "'t \<Rightarrow> 'k \<Rightarrow> bool \<Rightarrow> ('k insert_result \<times> 't) option"
    and find :: "'t \<Rightarrow> 'k \<Rightarrow> 'k option option"
    and del :: "'t \<Rightarrow> 'k option \<Rightarrow> ('k option \<times> 't) option"
    and each :: "'t \<Rightarrow> 'k list option"
  assumes inv_sorted: "inv t ks \<Longrightarrow> keys_sorted cmp ks \<and> (\<forall>x \<in> set ks. valid x)"
    and ins_new: "inv t ks \<Longrightarrow> valid k \<Longrightarrow> keys_find cmp k ks = None \<Longrightarrow>
        \<exists>t'. ins t k True = Some (Ins_NULL, t') \<and> inv t' (keys_insert cmp k ks)"
    and ins_old: "inv t ks \<Longrightarrow> valid k \<Longrightarrow> keys_find cmp k ks = Some k' \<Longrightarrow>
        ins t k m = Some (Ins_EEXIST k', t)"
    and find_law: "inv t ks \<Longrightarrow> valid k \<Longrightarrow> find t k = Some (keys_find cmp k ks)"
    and del_law: "inv t ks \<Longrightarrow> valid k \<Longrightarrow>
        \<exists>t'. del t (Some k) = Some (keys_find cmp k ks, t') \<and> inv t' (keys_delete cmp k ks)"
    and each_law: "inv t ks \<Longrightarrow> each t = Some ks"
begin

lemma find_after_insert:
  assumes "inv t ks" "valid k" "valid k'" "keys_find cmp k ks = None"
  shows "\<exists>t'. ins t k True = Some (Ins_NULL, t')
     \<and> find t' k' = Some (if cmp k k' = 0 then Some k else keys_find cmp k' ks)"
proof -
  have s: "keys_sorted cmp ks" "\<forall>x \<in> set ks. valid x" using inv_sorted [OF assms(1)] by simp_all
  obtain t' where t': "ins t k True = Some (Ins_NULL, t')" "inv t' (keys_insert cmp k ks)"
    using ins_new [OF assms(1,2,4)] by blast
  have "\<forall>x \<in> set ks. cmp x k \<noteq> 0" using assms(4) by (simp add: find_None)
  then show ?thesis
    using t' find_law [OF t'(2) assms(3)] find_insert [OF assms(3,2) s(2,1)] by auto
qed

lemma insert_twice:
  assumes "inv t ks" "valid k" "keys_find cmp k ks = None"
  shows "\<exists>t'. ins t k True = Some (Ins_NULL, t') \<and> ins t' k m = Some (Ins_EEXIST k, t')"
proof -
  have s: "keys_sorted cmp ks" "\<forall>x \<in> set ks. valid x" using inv_sorted [OF assms(1)] by simp_all
  obtain t' where t': "ins t k True = Some (Ins_NULL, t')" "inv t' (keys_insert cmp k ks)"
    using ins_new [OF assms] by blast
  have "\<forall>x \<in> set ks. cmp x k \<noteq> 0" using assms(3) by (simp add: find_None)
  then have "keys_find cmp k (keys_insert cmp k ks) = Some k"
    using find_insert [OF assms(2,2) s(2,1)] assms(2) by (simp add: cmp_refl)
  then show ?thesis using t' ins_old [OF t'(2) assms(2)] by blast
qed

lemma find_after_delete:
  assumes "inv t ks" "valid k"
  shows "\<exists>t'. del t (Some k) = Some (keys_find cmp k ks, t') \<and> find t' k = Some None"
proof -
  have s: "keys_sorted cmp ks" "\<forall>x \<in> set (k # ks). valid x" using inv_sorted [OF assms(1)] assms(2) by simp_all
  obtain t' where t': "del t (Some k) = Some (keys_find cmp k ks, t')" "inv t' (keys_delete cmp k ks)"
    using del_law [OF assms] by blast
  have "keys_find cmp k (keys_delete cmp k ks) = None"
    using delete_set [OF s] by (simp add: find_None)
  then show ?thesis using t' find_law [OF t'(2) assms(2)] by auto
qed

end

section \<open>The tree keeps the contract\<close>


context key_order
begin

lemma insert_inv:
  assumes "tree_inv cmp valid t ks" "valid key"
  shows "case keys_find cmp key ks of
      Some k \<Rightarrow> pico_tree_insert cmp t key mem_ok = Some (Ins_EEXIST k, t)
    | None \<Rightarrow> if mem_ok then \<exists>t'. pico_tree_insert cmp t key mem_ok = Some (Ins_NULL, t')
                 \<and> tree_inv cmp valid t' (keys_insert cmp key ks)
              else pico_tree_insert cmp t key mem_ok = Some (Ins_LEAF, t)"
proof -
  have a: "tree_keys t ks" "keys_sorted cmp ks" "\<forall>x \<in> set (key # ks). valid x"
    using assms by (auto simp: tree_inv_def)
  have "keys_sorted cmp (keys_insert cmp key ks)" if "keys_find cmp key ks = None"
    using insert_sorted [OF a(2,3)] that by (simp add: find_None)
  then show ?thesis using insert_refines [OF a, of mem_ok] a(3)
    by (auto simp: tree_inv_def insert_set split: option.splits)
qed

lemma delete_inv:
  assumes "tree_inv cmp valid t ks" "valid key"
  shows "\<exists>t'. pico_tree_delete cmp t (Some key) = Some (keys_find cmp key ks, t')
     \<and> tree_inv cmp valid t' (keys_delete cmp key ks)"
proof -
  have a: "tree_keys t ks" "keys_sorted cmp ks" "\<forall>x \<in> set (key # ks). valid x"
    using assms by (auto simp: tree_inv_def)
  show ?thesis using delete_refines [OF a] delete_sorted [OF a(2)] delete_set [OF a(2,3)] a(3)
    by (auto simp: tree_inv_def)
qed

lemma find_inv:
  assumes "tree_inv cmp valid t ks" "valid key"
  shows "pico_tree_findKey cmp t key = Some (keys_find cmp key ks)"
  using assms findKey_rep by (auto simp: tree_inv_def tree_keys_def)

end

lemma tree_keys_foreach: "tree_keys t ks \<Longrightarrow> pico_tree_foreach t = Some ks"
  using pico_tree_foreach_rep by (auto simp: tree_keys_def)

sublocale key_order \<subseteq> rbt: sorted_container cmp valid "tree_inv cmp valid"
    "pico_tree_insert cmp" "pico_tree_findKey cmp" "pico_tree_delete cmp" pico_tree_foreach
proof unfold_locales
  fix t ks assume "tree_inv cmp valid t ks"
  then show "keys_sorted cmp ks \<and> (\<forall>x \<in> set ks. valid x)" by (simp add: tree_inv_def)
next
  fix t ks k assume "tree_inv cmp valid t ks" "valid k" "keys_find cmp k ks = None"
  then show "\<exists>t'. pico_tree_insert cmp t k True = Some (Ins_NULL, t')
      \<and> tree_inv cmp valid t' (keys_insert cmp k ks)"
    using insert_inv [of t ks k True] by simp
next
  fix t ks k k' m assume "tree_inv cmp valid t ks" "valid k" "keys_find cmp k ks = Some k'"
  then show "pico_tree_insert cmp t k m = Some (Ins_EEXIST k', t)"
    using insert_inv [of t ks k m] by simp
next
  fix t ks assume "tree_inv cmp valid t ks"
  then show "pico_tree_foreach t = Some ks" by (simp add: tree_inv_def tree_keys_foreach)
qed (use find_inv delete_inv in auto)

section \<open>Compare functions given by a key\<close>

text \<open>The usual compare function: less, greater or equal in a linear order of some key.\<close>

definition key_cmp :: "('a \<Rightarrow> 'b::linorder) \<Rightarrow> 'a \<Rightarrow> 'a \<Rightarrow> int" where
  "key_cmp k a b = (if k a < k b then - 1 else if k b < k a then 1 else 0)"

lemma key_order_by_key:
  assumes "\<And>a b. valid a \<Longrightarrow> valid b \<Longrightarrow> cmp a b = key_cmp k a b"
  shows "key_order cmp valid"
proof
  fix x y assume "valid x" "valid y"
  then show "cmp x y < 0 \<longleftrightarrow> 0 < cmp y x" using assms by (auto simp: key_cmp_def)
next
  fix x y z assume v: "valid x" "valid y" "valid z" and le: "cmp x y \<le> 0" "cmp y z \<le> 0"
  then have "k x \<le> k y" "k y \<le> k z" using assms by (auto simp: key_cmp_def split: if_splits)
  then show "cmp x z \<le> 0" using v assms by (auto simp: key_cmp_def)
qed

section \<open>An instance\<close>

text \<open>The compare function of most trees of the program: the order of an integer field.\<close>

definition int_compare :: "int \<Rightarrow> int \<Rightarrow> int" where
  "int_compare a b = (if a < b then - 1 else if b < a then 1 else 0)"

interpretation int_tree: key_order int_compare "\<lambda>_. True"
  by unfold_locales (auto simp: int_compare_def split: if_splits)

lemma tree_inv_empty: "tree_inv cmp valid empty_tree []"
  by (simp add: tree_inv_def tree_keys_empty keys_sorted_def)

section \<open>Properties\<close>

text \<open>C30: \<open>pico_tree_insert\<close> returns on every well-formed tree whatever its colours; it reports
  the key already present, adds nothing when memory is short, and otherwise the tree holds the
  key at its place in the order, without duplicates.\<close>

theorem pico_tree_insert_correct:
  assumes "key_order cmp valid" "tree_inv cmp valid t ks" "valid key"
  shows "case keys_find cmp key ks of
      Some k \<Rightarrow> pico_tree_insert cmp t key mem_ok = Some (Ins_EEXIST k, t)
    | None \<Rightarrow> if mem_ok then \<exists>t'. pico_tree_insert cmp t key mem_ok = Some (Ins_NULL, t')
                 \<and> tree_inv cmp valid t' (keys_insert cmp key ks)
              else pico_tree_insert cmp t key mem_ok = Some (Ins_LEAF, t)"
  by (rule key_order.insert_inv [OF assms])

theorem pico_tree_insert_correct_witness:
  "\<exists>t1 t2. pico_tree_insert int_compare empty_tree 5 True = Some (Ins_NULL, t1)
     \<and> pico_tree_insert int_compare t1 3 True = Some (Ins_NULL, t2)
     \<and> tree_inv int_compare (\<lambda>_. True) t2 [3, 5]"
proof -
  note ins = pico_tree_insert_correct [OF int_tree.key_order_axioms, where mem_ok = True]
  obtain t1 where t1: "pico_tree_insert int_compare empty_tree 5 True = Some (Ins_NULL, t1)"
    "tree_inv int_compare (\<lambda>_. True) t1 [5]"
    using ins [OF tree_inv_empty, where key = 5] by auto
  obtain t2 where "pico_tree_insert int_compare t1 3 True = Some (Ins_NULL, t2)"
    "tree_inv int_compare (\<lambda>_. True) t2 [3, 5]"
    using ins [OF t1(2), where key = 3] by (auto simp: int_compare_def)
  with t1(1) show ?thesis by blast
qed

text \<open>C31: \<open>pico_tree_delete\<close> returns on every well-formed tree whatever its colours; it returns
  the key it removed (or NULL) and the tree holds the other keys in order.\<close>

theorem pico_tree_delete_correct:
  assumes "key_order cmp valid" "tree_inv cmp valid t ks" "valid key"
  shows "\<exists>t'. pico_tree_delete cmp t (Some key) = Some (keys_find cmp key ks, t')
     \<and> tree_inv cmp valid t' (keys_delete cmp key ks)"
  by (rule key_order.delete_inv [OF assms])

theorem pico_tree_delete_correct_witness:
  "\<exists>t1 t2. pico_tree_insert int_compare empty_tree 5 True = Some (Ins_NULL, t1)
     \<and> pico_tree_delete int_compare t1 (Some 5) = Some (Some 5, t2)
     \<and> tree_inv int_compare (\<lambda>_. True) t2 []"
proof -
  obtain t1 where t1: "pico_tree_insert int_compare empty_tree 5 True = Some (Ins_NULL, t1)"
    "tree_inv int_compare (\<lambda>_. True) t1 [5]"
    using int_tree.insert_inv [OF tree_inv_empty, where key = 5 and mem_ok = True] by auto
  then show ?thesis
    using pico_tree_delete_correct [OF int_tree.key_order_axioms t1(2), where key = 5]
    by (auto simp: int_compare_def)
qed

text \<open>\<open>pico_tree_findKey\<close> returns the stored key that compares equal, or NULL when there is
  none, on every well-formed tree.\<close>

theorem pico_tree_findKey_correct:
  assumes "key_order cmp valid" "tree_inv cmp valid t ks" "valid key"
  shows "\<exists>res. pico_tree_findKey cmp t key = Some res
     \<and> (\<forall>k. res = Some k \<longleftrightarrow> k \<in> set ks \<and> cmp k key = 0)"
proof -
  have "keys_find cmp key ks = Some k \<longleftrightarrow> k \<in> set ks \<and> cmp k key = 0" for k
    using key_order.find_unique [OF assms(1), of ks key k] key_order.find_Some [OF assms(1), of key ks k]
      assms(2,3) by (auto simp: tree_inv_def)
  then show ?thesis using key_order.find_inv [OF assms] by blast
qed

theorem pico_tree_findKey_correct_witness:
  "\<exists>t1. pico_tree_insert int_compare empty_tree 5 True = Some (Ins_NULL, t1)
     \<and> pico_tree_findKey int_compare t1 5 = Some (Some 5)
     \<and> pico_tree_findKey int_compare t1 4 = Some None"
proof -
  obtain t1 where t1: "pico_tree_insert int_compare empty_tree 5 True = Some (Ins_NULL, t1)"
    "tree_inv int_compare (\<lambda>_. True) t1 [5]"
    using int_tree.insert_inv [OF tree_inv_empty, where key = 5 and mem_ok = True] by auto
  note f = pico_tree_findKey_correct [OF int_tree.key_order_axioms t1(2)]
  have "pico_tree_findKey int_compare t1 5 = Some (Some 5)" using f [where key = 5] by (auto simp: int_compare_def)
  moreover have "pico_tree_findKey int_compare t1 4 = Some None"
  proof -
    obtain res where res: "pico_tree_findKey int_compare t1 4 = Some res"
      "\<forall>k. res = Some k \<longleftrightarrow> k \<in> set [5] \<and> int_compare k 4 = 0" using f [where key = 4] by blast
    then have "res = None" by (cases res) (auto simp: int_compare_def split: if_splits)
    then show ?thesis using res(1) by simp
  qed
  ultimately show ?thesis using t1(1) by blast
qed

text \<open>The traversal macro \<open>pico_tree_foreach\<close> (with \<open>pico_tree_firstNode\<close> and
  \<open>pico_tree_next\<close>) ends and visits every key once, in order.\<close>

theorem pico_tree_foreach_in_order:
  assumes "tree_keys t ks"
  shows "pico_tree_foreach t = Some ks"
  by (rule tree_keys_foreach [OF assms])

theorem pico_tree_foreach_in_order_witness:
  "\<exists>t1. pico_tree_insert int_compare empty_tree 5 True = Some (Ins_NULL, t1)
     \<and> pico_tree_foreach t1 = Some [5]"
proof -
  obtain t1 where t1: "pico_tree_insert int_compare empty_tree 5 True = Some (Ins_NULL, t1)"
    "tree_inv int_compare (\<lambda>_. True) t1 [5]"
    using int_tree.insert_inv [OF tree_inv_empty, where key = 5 and mem_ok = True] by auto
  then show ?thesis using pico_tree_foreach_in_order [of t1 "[5]"] by (auto simp: tree_inv_def)
qed

section \<open>What deletion does not keep\<close>

text \<open>A sequence of calls, positive numbers inserted and negative ones deleted.\<close>

fun tree_calls :: "int list \<Rightarrow> int pico_tree \<Rightarrow> int pico_tree option" where
  "tree_calls [] t = Some t"
| "tree_calls (k # ks) t =
     (case (if 0 < k then map_option snd (pico_tree_insert int_compare t k True)
            else map_option snd (pico_tree_delete int_compare t (Some (- k)))) of
        None \<Rightarrow> None | Some t' \<Rightarrow> tree_calls ks t')"

text \<open>Deletions can leave the sentinel red, so that later calls treat a missing child as a
  red node: the loop of \<open>fix_delete_collisions\<close> recolours the sibling without checking that
  there is one.\<close>

theorem delete_colours_sentinel_red:
  "map_option (\<lambda>t. color_of t LEAF)
     (tree_calls [3, 1, 12, 2, -12, 12, 4, 10, -10, -4, -3] empty_tree) = Some RED"
  by code_simp

text \<open>The number of black nodes on every path from a node to a missing child, if they agree.\<close>

fun black_height :: "nat \<Rightarrow> int pico_tree \<Rightarrow> nat \<Rightarrow> nat option" where
  "black_height 0 t x = None"
| "black_height (Suc fuel) t x =
     (if x = LEAF then Some 0
      else case (black_height fuel t (left_of t x), black_height fuel t (right_of t x)) of
        (Some a, Some b) \<Rightarrow> if a = b then Some (a + (if color_of t x = BLACK then 1 else 0)) else None
      | _ \<Rightarrow> None)"

text \<open>Deleting a black node without children is not rebalanced: rebalancing starts at the
  sentinel, where the loop does not run, and the tree loses its uniform black height.\<close>

theorem delete_breaks_black_height:
  "(case tree_calls [1, 2, 3, 4] empty_tree of
      Some t \<Rightarrow> black_height 10 t (root t) \<noteq> None
        \<and> (case tree_calls [-1] t of Some t' \<Rightarrow> black_height 10 t' (root t') = None | None \<Rightarrow> False)
    | None \<Rightarrow> False)"
  by code_simp

end
