(* ===== verification/Frame.thy ===== *)
theory Frame
  imports Pico_Prelude "HOL-Library.Monad_Syntax"
begin

text \<open>
  Packet buffers (\<open>stack/pico_frame.c\<close>): frames that share a buffer through a usage counter.
  The memory is explicit: frames, data blocks, counters and endpoint infos are maps from
  addresses, so an access to memory that is not allocated is the value \<open>None\<close>, and what is
  freed when is part of the result.  Addresses are integers and the pointer arithmetic is
  the code's; the allocator is the arguments \<open>p_addr\<close>, \<open>b_addr\<close> (0 when it fails).  A usage
  counter lies behind the data of a block (\<open>Cin b\<close>) or in an allocation of its own (\<open>Cext c\<close>).
\<close>

section \<open>Memory\<close>

datatype cptr = Cin int | Cext int

record pico_frame =
  next_frame :: int
  buffer :: int
  buffer_len :: u32
  start :: int
  len :: u32
  usage_count :: cptr
  datalink_hdr :: int
  net_hdr :: int
  net_len :: u16
  transport_hdr :: int
  transport_len :: u16
  app_hdr :: int
  app_len :: u16
  timestamp :: u64
  failure_count :: u16
  proto :: u8
  flags :: u8
  payload :: int
  payload_len :: u16
  frag :: u16
  info :: int
  priority :: "8 word"
  transport_flags_saved :: u8
  notify_free :: bool
  send_ttl :: u8
  send_tos :: u8

record fmem =
  frames :: "int \<Rightarrow> pico_frame option"
  blocks :: "int \<Rightarrow> u8 list option"
  counters :: "cptr \<Rightarrow> u32 option"
  infos :: "int \<Rightarrow> (u8 list) option"
  notified :: "int list"

abbreviation NULL :: int where "NULL \<equiv> 0"

definition PICO_FRAME_FLAG_BCAST :: u8 where "PICO_FRAME_FLAG_BCAST = 0x01"
definition PICO_FRAME_FLAG_EXT_BUFFER :: u8 where "PICO_FRAME_FLAG_EXT_BUFFER = 0x02"
definition PICO_FRAME_FLAG_EXT_USAGE_COUNTER :: u8 where "PICO_FRAME_FLAG_EXT_USAGE_COUNTER = 0x04"

definition ext_buffer_flag :: "pico_frame \<Rightarrow> bool" where
  "ext_buffer_flag f = (flags f AND PICO_FRAME_FLAG_EXT_BUFFER \<noteq> 0)"

definition ext_counter_flag :: "pico_frame \<Rightarrow> bool" where
  "ext_counter_flag f = (flags f AND PICO_FRAME_FLAG_EXT_USAGE_COUNTER \<noteq> 0)"

text \<open>A frame from \<open>PICO_ZALLOC\<close>.\<close>

definition zero_frame :: pico_frame where
  "zero_frame = \<lparr>next_frame = NULL, buffer = NULL, buffer_len = 0, start = NULL, len = 0,
     usage_count = Cext NULL, datalink_hdr = NULL, net_hdr = NULL, net_len = 0,
     transport_hdr = NULL, transport_len = 0, app_hdr = NULL, app_len = 0, timestamp = 0,
     failure_count = 0, proto = 0, flags = 0, payload = NULL, payload_len = 0, frag = 0,
     info = NULL, priority = 0, transport_flags_saved = 0, notify_free = False, send_ttl = 0,
     send_tos = 0\<rparr>"

text \<open>\<open>PICO_FREE\<close>: freeing NULL does nothing, freeing what is not allocated is an error.  A
  block takes the counter behind its data with it.\<close>

definition free_block :: "fmem \<Rightarrow> int \<Rightarrow> fmem option" where
  "free_block m b =
     (if b = NULL then Some m
      else case blocks m b of None \<Rightarrow> None
        | Some _ \<Rightarrow> Some (m\<lparr>blocks := (blocks m)(b := None), counters := (counters m)(Cin b := None)\<rparr>))"

definition free_counter :: "fmem \<Rightarrow> cptr \<Rightarrow> fmem option" where
  "free_counter m c =
     (case c of Cin _ \<Rightarrow> None
      | Cext _ \<Rightarrow> (case counters m c of None \<Rightarrow> None
          | Some _ \<Rightarrow> Some (m\<lparr>counters := (counters m)(c := None)\<rparr>)))"

definition free_info :: "fmem \<Rightarrow> int \<Rightarrow> fmem option" where
  "free_info m i = (case infos m i of None \<Rightarrow> None | Some _ \<Rightarrow> Some (m\<lparr>infos := (infos m)(i := None)\<rparr>))"

definition free_frame :: "fmem \<Rightarrow> int \<Rightarrow> fmem" where
  "free_frame m f = m\<lparr>frames := (frames m)(f := None)\<rparr>"

section \<open>Discarding and sharing\<close>

definition release_buffer :: "fmem \<Rightarrow> pico_frame \<Rightarrow> int \<Rightarrow> fmem option" where
  "release_buffer m fr b =
     (if \<not> ext_buffer_flag fr then free_block m b
      else if notify_free fr then Some (m\<lparr>notified := notified m @ [b]\<rparr>) else Some m)"

definition pico_frame_discard :: "fmem \<Rightarrow> int \<Rightarrow> fmem option" where
  "pico_frame_discard m f =
     (if f = NULL then Some m else do {
        fr \<leftarrow> frames m f;
        c \<leftarrow> counters m (usage_count fr);
        let m = m\<lparr>counters := (counters m)(usage_count fr \<mapsto> c - 1)\<rparr>;
        m \<leftarrow> (if c - 1 = 0 then do {
                m \<leftarrow> (if ext_counter_flag fr then free_counter m (usage_count fr) else Some m);
                m \<leftarrow> release_buffer m fr (buffer fr);
                (if info fr \<noteq> NULL then free_info m (info fr) else Some m)
              } else Some m);
        Some (free_frame m f) })"

definition pico_frame_copy :: "fmem \<Rightarrow> int \<Rightarrow> int \<Rightarrow> (int \<times> fmem) option" where
  "pico_frame_copy m f p_addr =
     (if p_addr = NULL then Some (NULL, m) else do {
        fr \<leftarrow> frames m f;
        c \<leftarrow> counters m (usage_count fr);
        Some (p_addr, m\<lparr>counters := (counters m)(usage_count fr \<mapsto> c + 1),
                        frames := (frames m)(p_addr \<mapsto> fr\<lparr>next_frame := NULL\<rparr>)\<rparr>) })"

section \<open>Allocation\<close>

definition frame_buffer_size :: "u32 \<Rightarrow> u32" where
  "frame_buffer_size sz =
     (let align = sz mod 4 in if align \<noteq> 0 then sz + (4 - align) else sz)"

definition pico_frame_do_alloc ::
    "fmem \<Rightarrow> u32 \<Rightarrow> bool \<Rightarrow> bool \<Rightarrow> int \<Rightarrow> int \<Rightarrow> int \<times> fmem" where
  "pico_frame_do_alloc m sz zerocopy ext_buffer p_addr b_addr =
     (if p_addr = NULL then (NULL, m)
      else if ext_buffer \<and> \<not> zerocopy then (NULL, m)
      else if b_addr = NULL then (NULL, m)
      else
        let b = (if zerocopy then NULL else b_addr);
            uc = (if zerocopy then Cext b_addr else Cin b_addr);
            m = (if zerocopy then m
                 else m\<lparr>blocks := (blocks m)(b_addr \<mapsto> replicate (unat (frame_buffer_size sz)) 0)\<rparr>);
            fl = (if zerocopy then PICO_FRAME_FLAG_EXT_USAGE_COUNTER else 0);
            fl = (if ext_buffer then fl OR PICO_FRAME_FLAG_EXT_BUFFER else fl);
            p = zero_frame\<lparr>buffer := b, usage_count := uc, buffer_len := sz, start := b,
                  len := sz, net_hdr := b, datalink_hdr := b, transport_hdr := b,
                  app_hdr := b, payload := b, flags := fl\<rparr>
        in (p_addr, m\<lparr>counters := (counters m)(uc \<mapsto> 1), frames := (frames m)(p_addr \<mapsto> p)\<rparr>))"

definition pico_frame_alloc :: "fmem \<Rightarrow> u32 \<Rightarrow> int \<Rightarrow> int \<Rightarrow> int \<times> fmem" where
  "pico_frame_alloc m sz p_addr b_addr = pico_frame_do_alloc m sz False False p_addr b_addr"

definition pico_frame_alloc_skeleton :: "fmem \<Rightarrow> u32 \<Rightarrow> bool \<Rightarrow> int \<Rightarrow> int \<Rightarrow> int \<times> fmem" where
  "pico_frame_alloc_skeleton m sz ext_buffer p_addr b_addr =
     pico_frame_do_alloc m sz True ext_buffer p_addr b_addr"

definition pico_frame_skeleton_set_buffer :: "fmem \<Rightarrow> int \<Rightarrow> int \<Rightarrow> (int \<times> fmem) option" where
  "pico_frame_skeleton_set_buffer m f buf =
     (if buf = NULL then Some (-1, m) else do {
        fr \<leftarrow> frames m f;
        Some (0, m\<lparr>frames := (frames m)(f \<mapsto> fr\<lparr>buffer := buf, start := buf\<rparr>)\<rparr>) })"

section \<open>Growing\<close>

text \<open>Returns the old buffer (NULL on failure), the old size and the memory.\<close>

definition pico_frame_new_buffer ::
    "fmem \<Rightarrow> int \<Rightarrow> u32 \<Rightarrow> int \<Rightarrow> (int \<times> u32 \<times> fmem) option" where
  "pico_frame_new_buffer m f sz b_addr =
     (if f = NULL then Some (NULL, 0, m) else do {
        fr \<leftarrow> frames m f;
        (if sz < buffer_len fr then Some (NULL, 0, m) else do {
          uc \<leftarrow> counters m (usage_count fr);
          (if b_addr = NULL then Some (NULL, buffer_len fr, m) else do {
            let m = m\<lparr>blocks := (blocks m)(b_addr \<mapsto> replicate (unat (frame_buffer_size sz)) 0),
                      counters := (counters m)(Cin b_addr \<mapsto> uc),
                      frames := (frames m)(f \<mapsto> fr\<lparr>buffer := b_addr, usage_count := Cin b_addr,
                                                     buffer_len := sz\<rparr>)\<rparr>;
            m \<leftarrow> (if ext_counter_flag fr then free_counter m (usage_count fr) else Some m);
            Some (buffer fr, buffer_len fr, m) }) }) })"

definition pico_frame_update_pointers :: "fmem \<Rightarrow> int \<Rightarrow> int \<Rightarrow> int \<Rightarrow> (int \<times> fmem) option" where
  "pico_frame_update_pointers m f addr_diff oldbuf = do {
     fr \<leftarrow> frames m f;
     let fr' = fr\<lparr>net_hdr := net_hdr fr + addr_diff, datalink_hdr := datalink_hdr fr + addr_diff,
                  transport_hdr := transport_hdr fr + addr_diff, app_hdr := app_hdr fr + addr_diff,
                  start := start fr + addr_diff, payload := payload fr + addr_diff\<rparr>;
     m \<leftarrow> release_buffer (m\<lparr>frames := (frames m)(f \<mapsto> fr')\<rparr>) fr oldbuf;
     Some (0, m\<lparr>frames := (frames m)(f \<mapsto> fr'\<lparr>flags := 0\<rparr>)\<rparr>) }"

text \<open>\<open>memcpy\<close> of the first \<open>n\<close> bytes of block \<open>src\<close> to offset \<open>off\<close> of block \<open>dst\<close>.\<close>

definition copy_block :: "fmem \<Rightarrow> int \<Rightarrow> nat \<Rightarrow> int \<Rightarrow> nat \<Rightarrow> fmem option" where
  "copy_block m dst off src n = do {
     d \<leftarrow> blocks m dst;
     s \<leftarrow> blocks m src;
     if n \<le> length s \<and> off + n \<le> length d
     then Some (m\<lparr>blocks := (blocks m)(dst \<mapsto> take off d @ take n s @ drop (off + n) d)\<rparr>)
     else None }"

definition pico_frame_grow_head :: "fmem \<Rightarrow> int \<Rightarrow> u32 \<Rightarrow> int \<Rightarrow> (int \<times> fmem) option" where
  "pico_frame_grow_head m f sz b_addr = do {
     (oldbuf, oldsize, m) \<leftarrow> pico_frame_new_buffer m f sz b_addr;
     (if oldbuf = NULL then Some (-1, m) else do {
        fr \<leftarrow> frames m f;
        m \<leftarrow> copy_block m (buffer fr) (unat (buffer_len fr - oldsize)) oldbuf (unat oldsize);
        pico_frame_update_pointers m f
          (buffer fr + int (unat (buffer_len fr)) - int (unat oldsize) - oldbuf) oldbuf }) }"

definition pico_frame_grow :: "fmem \<Rightarrow> int \<Rightarrow> u32 \<Rightarrow> int \<Rightarrow> (int \<times> fmem) option" where
  "pico_frame_grow m f sz b_addr = do {
     (oldbuf, oldsize, m) \<leftarrow> pico_frame_new_buffer m f sz b_addr;
     (if oldbuf = NULL then Some (-1, m) else do {
        fr \<leftarrow> frames m f;
        m \<leftarrow> copy_block m (buffer fr) 0 oldbuf (unat oldsize);
        pico_frame_update_pointers m f (buffer fr - oldbuf) oldbuf }) }"

section \<open>Deep copy\<close>

text \<open>\<open>p_addr\<close>, \<open>b_addr\<close> and \<open>i_addr\<close> are the three allocations: frame, buffer, endpoint info.\<close>

definition pico_frame_deepcopy ::
    "fmem \<Rightarrow> int \<Rightarrow> int \<Rightarrow> int \<Rightarrow> int \<Rightarrow> (int \<times> fmem) option" where
  "pico_frame_deepcopy m f p_addr b_addr i_addr = do {
     fr \<leftarrow> frames m f;
     let (new, m) = pico_frame_alloc m (buffer_len fr) p_addr b_addr;
     (if new = NULL then Some (NULL, m) else do {
        nw \<leftarrow> frames m new;
        let addr_diff = buffer nw - buffer fr;
        let nf = fr\<lparr>buffer := buffer nw, usage_count := usage_count nw,
              datalink_hdr := datalink_hdr fr + addr_diff, net_hdr := net_hdr fr + addr_diff,
              transport_hdr := transport_hdr fr + addr_diff, app_hdr := app_hdr fr + addr_diff,
              start := start fr + addr_diff, payload := payload fr + addr_diff\<rparr>;
        (if info fr \<noteq> NULL then
           (if i_addr = NULL then do {
              m \<leftarrow> pico_frame_discard
                     (m\<lparr>frames := (frames m)(new \<mapsto> nf\<lparr>info := NULL\<rparr>)\<rparr>) new;
              Some (NULL, m) }
            else do {
              inf \<leftarrow> infos m (info fr);
              Some (new, m\<lparr>infos := (infos m)(i_addr \<mapsto> inf),
                           frames := (frames m)(new \<mapsto> nf\<lparr>info := i_addr, next_frame := NULL\<rparr>)\<rparr>) })
         else Some (new, m\<lparr>frames := (frames m)(new \<mapsto> nf\<lparr>next_frame := NULL\<rparr>)\<rparr>)) }) }"

end
