(* ===== verification/Frame_Props.thy ===== *)
theory Frame_Props
  imports Frame
begin

text \<open>
  The ownership invariant of frames: a usage counter holds the number of frames that share
  it, frames that share it agree on what they own, and frames that do not share it own
  different memory.  Allocation, copying and discarding keep it, so no frame is ever left
  with freed memory and the last discard frees everything; growing keeps it for a frame
  nobody else uses.
\<close>

section \<open>The invariant\<close>

definition users :: "fmem \<Rightarrow> cptr \<Rightarrow> int set" where
  "users m c = {f. \<exists>fr. frames m f = Some fr \<and> usage_count fr = c}"

definition owns_block :: "pico_frame \<Rightarrow> bool" where
  "owns_block fr \<longleftrightarrow> \<not> ext_buffer_flag fr \<and> buffer fr \<noteq> NULL"

text \<open>A frame on its own: its counter, block and info are allocated, and a counter inside a
  block is inside its own block.\<close>

definition frame_ok :: "fmem \<Rightarrow> pico_frame \<Rightarrow> bool" where
  "frame_ok m fr \<longleftrightarrow>
     (case usage_count fr of
        Cin b \<Rightarrow> b = buffer fr \<and> b \<noteq> NULL \<and> \<not> ext_counter_flag fr \<and> \<not> ext_buffer_flag fr
      | Cext c \<Rightarrow> ext_counter_flag fr)
     \<and> (owns_block fr \<longrightarrow> blocks m (buffer fr) \<noteq> None)
     \<and> (info fr \<noteq> NULL \<longrightarrow> infos m (info fr) \<noteq> None)"

definition share_ok :: "pico_frame \<Rightarrow> pico_frame \<Rightarrow> bool" where
  "share_ok fr gr \<longleftrightarrow>
     (if usage_count fr = usage_count gr
      then buffer fr = buffer gr \<and> info fr = info gr \<and> ext_buffer_flag fr = ext_buffer_flag gr
        \<and> ext_counter_flag fr = ext_counter_flag gr
      else \<not> (owns_block fr \<and> owns_block gr \<and> buffer fr = buffer gr)
        \<and> (info fr \<noteq> NULL \<longrightarrow> info fr \<noteq> info gr))"

definition frames_ok :: "fmem \<Rightarrow> bool" where
  "frames_ok m \<longleftrightarrow> finite (dom (frames m)) \<and> frames m NULL = None
     \<and> (\<forall>f fr. frames m f = Some fr \<longrightarrow> frame_ok m fr
          \<and> counters m (usage_count fr) = Some (of_nat (card (users m (usage_count fr))))
          \<and> card (users m (usage_count fr)) < 2 ^ 32)
     \<and> (\<forall>f fr g gr. frames m f = Some fr \<longrightarrow> frames m g = Some gr \<longrightarrow> share_ok fr gr)"

lemma users_finite: "frames_ok m \<Longrightarrow> finite (users m c)"
  by (rule finite_subset [of _ "dom (frames m)"]) (auto simp: users_def frames_ok_def)

lemma users_pos: "frames_ok m \<Longrightarrow> frames m f = Some fr \<Longrightarrow> 0 < card (users m (usage_count fr))"
  using users_finite [of m "usage_count fr"] by (auto simp: card_gt_0_iff users_def)

lemma frames_okD:
  assumes "frames_ok m" "frames m f = Some fr"
  shows "frame_ok m fr" "counters m (usage_count fr) = Some (of_nat (card (users m (usage_count fr))))"
    and "card (users m (usage_count fr)) < 2 ^ 32" "f \<noteq> NULL"
    and "\<And>g gr. frames m g = Some gr \<Longrightarrow> share_ok fr gr"
  using assms by (auto simp: frames_ok_def)

lemma count_one:
  assumes "frames_ok m" "frames m f = Some fr"
  shows "(of_nat (card (users m (usage_count fr))) :: u32) = 1 \<longleftrightarrow> card (users m (usage_count fr)) = 1"
  using unat_of_nat_u32 [OF frames_okD(3) [OF assms]] by (metis of_nat_1 unat_1)

section \<open>Discarding\<close>

text \<open>What is left of the memory: the frame is gone, and if it was the last one of its counter,
  so is what it owned.\<close>

definition discarded :: "fmem \<Rightarrow> int \<Rightarrow> pico_frame \<Rightarrow> fmem \<Rightarrow> bool" where
  "discarded m f fr m' \<longleftrightarrow> frames m' = (frames m)(f := None) \<and>
     (if card (users m (usage_count fr)) = 1 then
        counters m' (usage_count fr) = (if ext_counter_flag fr \<or> owns_block fr then None else Some 0)
        \<and> (\<forall>c. c \<noteq> usage_count fr \<longrightarrow> c \<noteq> Cin (buffer fr) \<longrightarrow> counters m' c = counters m c)
        \<and> (owns_block fr \<or> counters m' (Cin (buffer fr)) = counters m (Cin (buffer fr)) \<or> usage_count fr = Cin (buffer fr))
        \<and> blocks m' = (if owns_block fr then (blocks m)(buffer fr := None) else blocks m)
        \<and> infos m' = (if info fr \<noteq> NULL then (infos m)(info fr := None) else infos m)
      else counters m' = (counters m)(usage_count fr \<mapsto> of_nat (card (users m (usage_count fr)) - 1))
        \<and> blocks m' = blocks m \<and> infos m' = infos m)"

lemma pico_frame_discard_steps:
  assumes ok: "frames_ok m" and f: "frames m f = Some fr"
  shows "\<exists>m'. pico_frame_discard m f = Some m' \<and> discarded m f fr m'"
proof -
  let ?k = "card (users m (usage_count fr))"
  note fo = frames_okD [OF ok f]
  have fok: "frame_ok m fr" by (rule fo(1))
  have kpos: "0 < ?k" by (rule users_pos [OF ok f])
  show ?thesis
  proof (cases "?k = 1")
    case False
    then have "(of_nat ?k :: u32) \<noteq> 1" using count_one [OF ok f] by simp
    moreover have "(of_nat ?k :: u32) - 1 = of_nat (?k - 1)" using kpos by (simp add: of_nat_diff)
    ultimately show ?thesis using f fo(2,4) False
      by (simp add: pico_frame_discard_def free_frame_def discarded_def Let_def)
  next
    case True
    show ?thesis
    proof (cases "usage_count fr")
      case (Cin b)
      then show ?thesis using True f fo(2,4) fok
        by (auto simp: pico_frame_discard_def free_frame_def discarded_def Let_def frame_ok_def
            release_buffer_def free_block_def free_info_def owns_block_def)
    next
      case (Cext c)
      then show ?thesis using True f fo(2,4) fok
        by (auto simp: pico_frame_discard_def free_frame_def discarded_def Let_def frame_ok_def
            release_buffer_def free_block_def free_info_def free_counter_def owns_block_def)
    qed
  qed
qed

lemma users_discarded: "frames m' = (frames m)(f := None) \<Longrightarrow> users m' c = users m c - {f}"
  by (auto simp: users_def)

lemma discarded_ok:
  assumes ok: "frames_ok m" and f: "frames m f = Some fr" and d: "discarded m f fr m'"
  shows "frames_ok m'"
proof -
  let ?c = "usage_count fr"
  note fo = frames_okD [OF ok f]
  have fr': "frames m' = (frames m)(f := None)" using d by (simp add: discarded_def)
  note us = users_discarded [OF fr']
  have rest: "frame_ok m' gr \<and> counters m' (usage_count gr) = Some (of_nat (card (users m' (usage_count gr))))
       \<and> card (users m' (usage_count gr)) < 2 ^ 32" if g: "frames m' g = Some gr" for g gr
  proof -
    have g0: "frames m g = Some gr" "g \<noteq> f" using g fr' by (auto split: if_splits)
    note go = frames_okD [OF ok g0(1)]
    have sh: "share_ok fr gr" by (rule fo(5) [OF g0(1)])
    have lt: "card (users m' (usage_count gr)) < 2 ^ 32"
      using go(3) card_mono [OF users_finite [OF ok, of "usage_count gr"], of "users m' (usage_count gr)"] us
      by (metis Diff_subset le_less_trans)
    show ?thesis
    proof (cases "usage_count gr = ?c")
      case True
      have fin: "f \<in> users m ?c" "g \<in> users m ?c" using f g0 True by (auto simp: users_def)
      then have "card {f, g} \<le> card (users m ?c)"
        using users_finite [OF ok, of ?c] by (intro card_mono) auto
      then have k2: "card (users m ?c) \<noteq> 1" using g0(2) by auto
      have "card (users m' ?c) = card (users m ?c) - 1" using us fin users_finite [OF ok, of ?c] by simp
      then show ?thesis using True k2 d go(1) lt by (auto simp: discarded_def frame_ok_def)
    next
      case False
      then have "f \<notin> users m (usage_count gr)" using f by (auto simp: users_def)
      then have cnt: "users m' (usage_count gr) = users m (usage_count gr)" using us by simp
      have own: "owns_block fr \<Longrightarrow> owns_block gr \<Longrightarrow> buffer gr \<noteq> buffer fr"
        and inf: "info fr \<noteq> NULL \<Longrightarrow> info gr \<noteq> info fr"
        using sh False by (auto simp: share_ok_def)
      have cin: "usage_count gr = Cin (buffer fr) \<Longrightarrow> owns_block gr \<and> buffer gr = buffer fr"
        using go(1) by (auto simp: frame_ok_def owns_block_def)
      have "counters m' (usage_count gr) = counters m (usage_count gr)"
      proof (cases "card (users m ?c) = 1")
        case one: True
        show ?thesis
        proof (cases "usage_count gr = Cin (buffer fr)")
          case True
          then have "\<not> owns_block fr" using cin own by blast
          then show ?thesis using d one True False by (auto simp: discarded_def)
        qed (use d one False in \<open>auto simp: discarded_def\<close>)
      qed (use d False in \<open>auto simp: discarded_def\<close>)
      moreover have "owns_block gr \<Longrightarrow> blocks m' (buffer gr) = blocks m (buffer gr)"
        using d own by (auto simp: discarded_def split: if_splits)
      moreover have "info gr \<noteq> NULL \<Longrightarrow> infos m' (info gr) = infos m (info gr)"
        using d inf by (auto simp: discarded_def split: if_splits)
      ultimately show ?thesis using go(1,2) lt cnt by (auto simp: frame_ok_def)
    qed
  qed
  have "share_ok gr hr" if "frames m' g = Some gr" "frames m' h = Some hr" for g gr h hr
    using that ok fr' by (auto simp: frames_ok_def split: if_splits)
  then show ?thesis using rest ok fr' unfolding frames_ok_def by auto
qed

section \<open>Copying and allocating\<close>

lemma users_added:
  "frames m' = (frames m)(p \<mapsto> nf) \<Longrightarrow> frames m p = None \<Longrightarrow>
   users m' c = (if c = usage_count nf then insert p (users m c) else users m c)"
  by (auto simp: users_def)

lemma frames_ok_add:
  assumes ok: "frames_ok m" and p: "p \<noteq> NULL" "frames m p = None"
    and fr: "frames m' = (frames m)(p \<mapsto> nf)"
    and cnt: "counters m' = (counters m)(usage_count nf \<mapsto> of_nat (Suc (card (users m (usage_count nf)))))"
    and bl: "\<And>b. blocks m b \<noteq> None \<Longrightarrow> blocks m' b \<noteq> None" and inf: "infos m' = infos m"
    and nf: "frame_ok m' nf" "card (users m (usage_count nf)) < 2 ^ 32 - 1"
    and sh: "share_ok nf nf" "\<And>g gr. frames m g = Some gr \<Longrightarrow> share_ok nf gr \<and> share_ok gr nf"
  shows "frames_ok m'"
proof -
  note us = users_added [OF fr p(2)]
  have pn: "p \<notin> users m c" for c using p(2) by (auto simp: users_def)
  have card: "card (users m' c) = (if c = usage_count nf then Suc (card (users m c)) else card (users m c))" for c
    using us pn users_finite [OF ok, of c] by (cases "c = usage_count nf") simp_all
  have each: "frame_ok m' gr \<and> counters m' (usage_count gr) = Some (of_nat (card (users m' (usage_count gr))))
       \<and> card (users m' (usage_count gr)) < 2 ^ 32" if g: "frames m' g = Some gr" for g gr
  proof (cases "g = p")
    case True
    then have "gr = nf" using g fr by simp
    then show ?thesis using nf cnt card [of "usage_count nf"] by simp
  next
    case False
    then have g0: "frames m g = Some gr" using g fr by simp
    note go = frames_okD [OF ok g0]
    have "frame_ok m' gr" using go(1) bl inf by (auto simp: frame_ok_def split: cptr.splits)
    then show ?thesis using go(2,3) cnt card nf(2) by auto
  qed
  have "share_ok gr hr" if "frames m' g = Some gr" "frames m' h = Some hr" for g gr h hr
    using that ok fr sh by (auto simp: frames_ok_def split: if_splits)
  then show ?thesis using each ok fr p(1) unfolding frames_ok_def by auto
qed

lemma share_ok_refl: "share_ok fr fr"
  by (simp add: share_ok_def)

lemma share_ok_sym: "share_ok fr gr \<Longrightarrow> share_ok gr fr"
  by (auto simp: share_ok_def split: if_splits)

lemma pico_frame_copy_steps:
  assumes ok: "frames_ok m" and f: "frames m f = Some fr" and p: "p_addr \<noteq> NULL" "frames m p_addr = None"
    and lt: "card (users m (usage_count fr)) < 2 ^ 32 - 1"
  shows "\<exists>m'. pico_frame_copy m f p_addr = Some (p_addr, m') \<and> frames_ok m'
     \<and> frames m' = (frames m)(p_addr \<mapsto> fr\<lparr>next_frame := NULL\<rparr>)
     \<and> card (users m' (usage_count fr)) = Suc (card (users m (usage_count fr)))"
proof -
  let ?nf = "fr\<lparr>next_frame := NULL\<rparr>"
  let ?m = "m\<lparr>counters := (counters m)(usage_count fr \<mapsto> of_nat (card (users m (usage_count fr))) + 1),
      frames := (frames m)(p_addr \<mapsto> ?nf)\<rparr>"
  note fo = frames_okD [OF ok f]
  have same: "share_ok ?nf gr \<longleftrightarrow> share_ok fr gr" "share_ok gr ?nf \<longleftrightarrow> share_ok gr fr" for gr
    by (auto simp: share_ok_def owns_block_def ext_buffer_flag_def ext_counter_flag_def)
  have "frames_ok ?m"
  proof (rule frames_ok_add [OF ok p, where nf = ?nf])
    show "frame_ok ?m ?nf" using fo(1)
      by (auto simp: frame_ok_def owns_block_def ext_buffer_flag_def ext_counter_flag_def split: cptr.splits)
    show "share_ok ?nf ?nf" by (simp add: share_ok_def)
    show "share_ok ?nf gr \<and> share_ok gr ?nf" if "frames m g = Some gr" for g gr
      using fo(5) [OF that] by (auto simp: same dest: share_ok_sym)
  qed (use lt in auto)
  moreover have "card (users ?m (usage_count fr)) = Suc (card (users m (usage_count fr)))"
  proof -
    have "users ?m (usage_count fr) = insert p_addr (users m (usage_count fr))"
      using p by (auto simp: users_def)
    moreover have "p_addr \<notin> users m (usage_count fr)" using p by (auto simp: users_def)
    ultimately show ?thesis using users_finite [OF ok] by simp
  qed
  ultimately show ?thesis using f fo(2) p by (auto simp: pico_frame_copy_def)
qed

lemma flag_bits:
  "ext_counter_flag (zero_frame\<lparr>flags := PICO_FRAME_FLAG_EXT_USAGE_COUNTER\<rparr>)"
  "PICO_FRAME_FLAG_EXT_USAGE_COUNTER AND PICO_FRAME_FLAG_EXT_BUFFER = 0"
  "(PICO_FRAME_FLAG_EXT_USAGE_COUNTER OR PICO_FRAME_FLAG_EXT_BUFFER) AND PICO_FRAME_FLAG_EXT_USAGE_COUNTER \<noteq> 0"
  "(PICO_FRAME_FLAG_EXT_USAGE_COUNTER OR PICO_FRAME_FLAG_EXT_BUFFER) AND PICO_FRAME_FLAG_EXT_BUFFER \<noteq> 0"
  "PICO_FRAME_FLAG_EXT_USAGE_COUNTER \<noteq> 0" "PICO_FRAME_FLAG_EXT_BUFFER \<noteq> 0"
  by (simp_all add: ext_counter_flag_def PICO_FRAME_FLAG_EXT_USAGE_COUNTER_def PICO_FRAME_FLAG_EXT_BUFFER_def)

lemma pico_frame_do_alloc_ok:
  assumes ok: "frames_ok m" and p: "p_addr \<noteq> NULL" "frames m p_addr = None"
    and b: "b_addr \<noteq> NULL" "blocks m b_addr = None" "counters m (Cin b_addr) = None" "counters m (Cext b_addr) = None"
    and z: "ext_buffer \<longrightarrow> zerocopy"
  shows "\<exists>m' p. pico_frame_do_alloc m sz zerocopy ext_buffer p_addr b_addr = (p_addr, m') \<and> frames_ok m'
     \<and> frames m' = (frames m)(p_addr \<mapsto> p) \<and> users m' (usage_count p) = {p_addr}
     \<and> buffer_len p = sz \<and> usage_count p = (if zerocopy then Cext b_addr else Cin b_addr)"
proof -
  let ?r = "pico_frame_do_alloc m sz zerocopy ext_buffer p_addr b_addr"
  let ?uc = "if zerocopy then Cext b_addr else Cin b_addr"
  let ?b = "if zerocopy then NULL else b_addr"
  let ?fl = "if ext_buffer then (if zerocopy then PICO_FRAME_FLAG_EXT_USAGE_COUNTER else 0) OR PICO_FRAME_FLAG_EXT_BUFFER
    else (if zerocopy then PICO_FRAME_FLAG_EXT_USAGE_COUNTER else 0)"
  define nf where "nf = zero_frame\<lparr>buffer := ?b, usage_count := ?uc, buffer_len := sz, start := ?b,
       len := sz, net_hdr := ?b, datalink_hdr := ?b, transport_hdr := ?b,
       app_hdr := ?b, payload := ?b, flags := ?fl\<rparr>"
  have r: "fst ?r = p_addr" "frames (snd ?r) = (frames m)(p_addr \<mapsto> nf)" "counters (snd ?r) = (counters m)(?uc \<mapsto> 1)"
    "blocks (snd ?r) = (if zerocopy then blocks m else (blocks m)(b_addr \<mapsto> replicate (unat (frame_buffer_size sz)) 0))"
    "infos (snd ?r) = infos m"
    using p(1) b(1) z by (auto simp: pico_frame_do_alloc_def nf_def Let_def)
  have nf: "usage_count nf = ?uc" "buffer nf = ?b" "info nf = NULL" "buffer_len nf = sz"
    "ext_counter_flag nf = zerocopy" "ext_buffer_flag nf = ext_buffer"
    using z by (auto simp: nf_def zero_frame_def ext_counter_flag_def ext_buffer_flag_def flag_bits)
  have un: "users m ?uc = {}"
    using b(3,4) frames_okD(2) [OF ok] by (fastforce simp: users_def split: if_splits)
  have "frames_ok (snd ?r)"
  proof (rule frames_ok_add [OF ok p r(2)])
    show "counters (snd ?r) = (counters m)(usage_count nf \<mapsto> of_nat (Suc (card (users m (usage_count nf)))))"
      using un by (simp only: r(3) nf(1)) simp
    show "blocks m c \<noteq> None \<Longrightarrow> blocks (snd ?r) c \<noteq> None" for c by (auto simp: r(4))
    show "infos (snd ?r) = infos m" by (rule r(5))
    have "\<not> zerocopy \<Longrightarrow> blocks (snd ?r) b_addr \<noteq> None" using r(4) by simp
    then show "frame_ok (snd ?r) nf" using b(1) z by (auto simp: frame_ok_def owns_block_def nf)
    show "card (users m (usage_count nf)) < 2 ^ 32 - 1" using un by (simp only: nf(1)) simp
    show "share_ok nf nf" by (simp add: share_ok_def)
    show "share_ok nf gr \<and> share_ok gr nf" if g: "frames m g = Some gr" for g gr
    proof -
      have "usage_count gr \<noteq> ?uc" using frames_okD(2) [OF ok g] b(3,4) by auto
      moreover have "\<not> (owns_block nf \<and> owns_block gr \<and> buffer nf = buffer gr)"
        using frames_okD(1) [OF ok g] b(2) by (auto simp: frame_ok_def nf owns_block_def)
      ultimately have "share_ok nf gr" by (auto simp: share_ok_def nf)
      then show ?thesis by (auto dest: share_ok_sym)
    qed
  qed
  moreover have "users (snd ?r) (usage_count nf) = {p_addr}"
    using users_added [OF r(2) p(2), of ?uc] un by (simp add: nf(1))
  ultimately show ?thesis using r(1,2) nf(1,4)
    by (intro exI [of _ "snd ?r"] exI [of _ nf]) (metis prod.collapse)
qed

section \<open>Growing a frame that is not shared\<close>

lemma frame_buffer_size_ge:
  assumes "unat sz \<le> 2 ^ 32 - 4"
  shows "unat sz \<le> unat (frame_buffer_size sz)"
proof (cases "sz mod 4 = 0")
  case False
  have m: "unat (sz mod 4) = unat sz mod 4" by (simp add: unat_mod)
  then have "unat (4 - sz mod 4) = 4 - unat sz mod 4"
    by (subst unat_sub) (simp_all add: word_le_nat_alt)
  moreover have "unat sz mod 4 \<noteq> 0" using False m by (metis unat_eq_zero)
  ultimately show ?thesis using False assms m unat_plus_no_wrap [of sz "4 - sz mod 4"]
    by (simp add: frame_buffer_size_def Let_def)
qed (simp add: frame_buffer_size_def)

text \<open>What the two growing functions have in common; \<open>off\<close> is where the old bytes go.\<close>

definition grown :: "fmem \<Rightarrow> int \<Rightarrow> pico_frame \<Rightarrow> u8 list \<Rightarrow> u32 \<Rightarrow> nat \<Rightarrow> int \<Rightarrow> fmem \<Rightarrow> bool" where
  "grown m f fr old sz off b_addr m' \<longleftrightarrow>
     (\<exists>fr' new. frames m' = (frames m)(f \<mapsto> fr') \<and> blocks m' = (blocks m)(buffer fr := None, b_addr \<mapsto> new)
       \<and> counters m' = (counters m)(usage_count fr := None, Cin b_addr \<mapsto> 1) \<and> infos m' = infos m
       \<and> buffer fr' = b_addr \<and> usage_count fr' = Cin b_addr \<and> buffer_len fr' = sz \<and> flags fr' = 0 \<and> info fr' = info fr
       \<and> take (unat (buffer_len fr)) (drop off new) = take (unat (buffer_len fr)) old
       \<and> start fr' - b_addr = start fr - buffer fr + int off
       \<and> net_hdr fr' - b_addr = net_hdr fr - buffer fr + int off
       \<and> transport_hdr fr' - b_addr = transport_hdr fr - buffer fr + int off
       \<and> payload fr' - b_addr = payload fr - buffer fr + int off)"

lemma grow_steps:
  assumes ok: "frames_ok m" and f: "frames m f = Some fr" and internal: "usage_count fr = Cin (buffer fr)"
    and single: "card (users m (usage_count fr)) = 1"
    and b: "b_addr \<noteq> NULL" "blocks m b_addr = None" "counters m (Cin b_addr) = None"
    and sz: "buffer_len fr \<le> sz" "unat sz \<le> 2 ^ 32 - 4"
    and old: "blocks m (buffer fr) = Some old" "unat (buffer_len fr) \<le> length old"
  shows "\<exists>m'. pico_frame_grow_head m f sz b_addr = Some (0, m')
           \<and> grown m f fr old sz (unat sz - unat (buffer_len fr)) b_addr m'"
    and "\<exists>m'. pico_frame_grow m f sz b_addr = Some (0, m') \<and> grown m f fr old sz 0 b_addr m'"
proof -
  note fo = frames_okD [OF ok f]
  have fl: "\<not> ext_counter_flag fr" "\<not> ext_buffer_flag fr" "buffer fr \<noteq> NULL"
    using fo(1) internal by (auto simp: frame_ok_def)
  have cnt: "counters m (Cin (buffer fr)) = Some 1" using fo(2) single internal by simp
  have ne: "buffer fr \<noteq> b_addr" using old(1) b(2) by auto
  have lens: "unat (buffer_len fr) \<le> unat sz" "unat sz \<le> unat (frame_buffer_size sz)"
    "unat (sz - buffer_len fr) = unat sz - unat (buffer_len fr)"
    using sz frame_buffer_size_ge [OF sz(2)] by (simp_all add: word_le_nat_alt unat_sub)
  have n1: "\<not> sz < buffer_len fr" using sz(1) by simp
  note defs = pico_frame_new_buffer_def copy_block_def pico_frame_update_pointers_def release_buffer_def
    free_block_def Let_def
  let ?n = "unat (buffer_len fr)"
  show "\<exists>m'. pico_frame_grow_head m f sz b_addr = Some (0, m')
           \<and> grown m f fr old sz (unat sz - ?n) b_addr m'"
    using f fl cnt ne lens old fo(4) b n1 internal
    by (auto simp: pico_frame_grow_head_def grown_def defs ext_buffer_flag_def fun_eq_iff min_def)
  show "\<exists>m'. pico_frame_grow m f sz b_addr = Some (0, m') \<and> grown m f fr old sz 0 b_addr m'"
    using f fl cnt ne lens old fo(4) b n1 internal
    by (auto simp: pico_frame_grow_def grown_def defs ext_buffer_flag_def fun_eq_iff min_def)
qed

lemma grown_ok:
  assumes ok: "frames_ok m" and f: "frames m f = Some fr" and internal: "usage_count fr = Cin (buffer fr)"
    and single: "card (users m (usage_count fr)) = 1"
    and b: "b_addr \<noteq> NULL" "blocks m b_addr = None" "counters m (Cin b_addr) = None"
    and g: "grown m f fr old sz off b_addr m'"
  shows "frames_ok m'"
proof -
  obtain fr' new where g': "frames m' = (frames m)(f \<mapsto> fr')" "blocks m' = (blocks m)(buffer fr := None, b_addr \<mapsto> new)"
    "counters m' = (counters m)(usage_count fr := None, Cin b_addr \<mapsto> 1)" "infos m' = infos m"
    "buffer fr' = b_addr" "usage_count fr' = Cin b_addr" "flags fr' = 0" "info fr' = info fr"
    using g unfolding grown_def by blast
  note fo = frames_okD [OF ok f]
  have flg: "\<not> ext_counter_flag fr'" "\<not> ext_buffer_flag fr'"
    by (simp_all add: ext_counter_flag_def ext_buffer_flag_def g'(7))
  have alone: "usage_count gr \<noteq> usage_count fr" if "frames m g = Some gr" "g \<noteq> f" for g gr
  proof
    assume "usage_count gr = usage_count fr"
    then have "{f, g} \<subseteq> users m (usage_count fr)" using that f by (auto simp: users_def)
    then have "card {f, g} \<le> 1" using card_mono [OF users_finite [OF ok]] single by metis
    then show False using that(2) by auto
  qed
  have unused: "usage_count gr \<noteq> Cin b_addr" if "frames m g = Some gr" for g gr
    using frames_okD(2) [OF ok that] b(3) by auto
  have us: "users m' c = (if c = Cin b_addr then {f} else users m c - {f})" for c
  proof (cases "c = Cin b_addr")
    case True
    then show ?thesis using g'(1,6) unused by (auto simp: users_def)
  next
    case False
    then show ?thesis using g'(1,6) by (auto simp: users_def)
  qed
  have each: "frame_ok m' gr \<and> counters m' (usage_count gr) = Some (of_nat (card (users m' (usage_count gr))))
       \<and> card (users m' (usage_count gr)) < 2 ^ 32" if h: "frames m' h = Some gr" for h gr
  proof (cases "h = f")
    case True
    then have "gr = fr'" using h g'(1) by simp
    moreover have "info fr \<noteq> NULL \<longrightarrow> infos m (info fr) \<noteq> None" using fo(1) by (simp add: frame_ok_def)
    ultimately show ?thesis using g' us b flg by (auto simp: frame_ok_def owns_block_def)
  next
    case False
    then have h0: "frames m h = Some gr" using h g'(1) by simp
    note ho = frames_okD [OF ok h0]
    have ne: "usage_count gr \<noteq> usage_count fr" "usage_count gr \<noteq> Cin b_addr"
      using alone [OF h0 False] unused [OF h0] by simp_all
    then have "f \<notin> users m (usage_count gr)" using f by (auto simp: users_def)
    then have cnt: "users m' (usage_count gr) = users m (usage_count gr)" using us ne by simp
    have "owns_block fr" using fo(1) internal by (simp add: frame_ok_def owns_block_def)
    then have "owns_block gr \<Longrightarrow> buffer gr \<noteq> buffer fr" using fo(5) [OF h0] ne by (auto simp: share_ok_def)
    then have "frame_ok m' gr" using ho(1) g'(2,4) by (auto simp: frame_ok_def split: cptr.splits)
    then show ?thesis using ho(2,3) cnt ne g'(3) by simp
  qed
  have new: "share_ok fr' gr" if h: "frames m h = Some gr" "h \<noteq> f" for h gr
  proof -
    have "owns_block gr \<Longrightarrow> buffer gr \<noteq> b_addr"
      using frames_okD(1) [OF ok h(1)] b(2) by (auto simp: frame_ok_def)
    then show ?thesis using fo(5) [OF h(1)] alone [OF h] unused [OF h(1)] g'
      by (auto simp: share_ok_def owns_block_def)
  qed
  have "share_ok gr hr" if "frames m' g = Some gr" "frames m' h = Some hr" for g gr h hr
    using that ok g'(1) new
    by (auto simp: frames_ok_def share_ok_refl dest: share_ok_sym split: if_splits)
  then show ?thesis using each ok g'(1) fo(4) unfolding frames_ok_def by auto
qed

section \<open>Properties\<close>

definition empty_fmem :: fmem where
  "empty_fmem = \<lparr>frames = Map.empty, blocks = Map.empty, counters = Map.empty, infos = Map.empty, notified = []\<rparr>"

lemma frames_ok_empty: "frames_ok empty_fmem"
  by (simp add: frames_ok_def empty_fmem_def)

text \<open>One internal frame at address 1 with the block at address 100, and a copy of it at 2.\<close>

definition one_frame :: fmem where "one_frame = snd (pico_frame_alloc empty_fmem 6 1 100)"

lemma one_frame_ok:
  "\<exists>p. frames_ok one_frame \<and> frames one_frame = Map.empty(1 \<mapsto> p) \<and> users one_frame (usage_count p) = {1}
     \<and> buffer_len p = 6 \<and> usage_count p = Cin 100"
  using pico_frame_do_alloc_ok [OF frames_ok_empty, of 1 100 False False 6]
  by (auto simp: one_frame_def pico_frame_alloc_def empty_fmem_def)

text \<open>C34: \<open>pico_frame_discard\<close> never touches memory that is not allocated, keeps the ownership
  invariant (no other frame loses its counter, buffer or info) and removes just this frame.  The last user of a
  counter frees the counter, the buffer it owns and its info, and no other buffer or info; as long as there are
  other users, the counter is one less and no buffer, info or other counter changes.\<close>

theorem pico_frame_discard_safe:
  assumes "frames_ok m" "frames m f = Some fr"
  shows "\<exists>m'. pico_frame_discard m f = Some m' \<and> frames_ok m' \<and> frames m' = (frames m)(f := None)
     \<and> (if card (users m (usage_count fr)) = 1
        then counters m' (usage_count fr) = None
          \<and> blocks m' = (if owns_block fr then (blocks m)(buffer fr := None) else blocks m)
          \<and> infos m' = (if info fr \<noteq> NULL then (infos m)(info fr := None) else infos m)
        else counters m' = (counters m)(usage_count fr \<mapsto> of_nat (card (users m (usage_count fr)) - 1))
          \<and> blocks m' = blocks m \<and> infos m' = infos m)"
proof -
  obtain m' where m': "pico_frame_discard m f = Some m'" "discarded m f fr m'"
    using pico_frame_discard_steps [OF assms] by blast
  have "ext_counter_flag fr \<or> owns_block fr"
    using frames_okD(1) [OF assms] by (auto simp: frame_ok_def owns_block_def split: cptr.splits)
  then show ?thesis using m' discarded_ok [OF assms m'(2)] by (auto simp: discarded_def)
qed

theorem pico_frame_discard_safe_witness:
  "\<exists>m'. pico_frame_discard one_frame 1 = Some m' \<and> frames m' = Map.empty \<and> blocks m' 100 = None
     \<and> counters m' (Cin 100) = None"
proof -
  obtain p where p: "frames_ok one_frame" "frames one_frame = Map.empty(1 \<mapsto> p)" "users one_frame (usage_count p) = {1}"
    "usage_count p = Cin 100" using one_frame_ok by blast
  have "buffer p = 100" "owns_block p"
    using frames_okD(1) [OF p(1), of 1 p] p(2,4) by (auto simp: frame_ok_def owns_block_def)
  then show ?thesis using pico_frame_discard_safe [OF p(1), of 1 p] p by auto
qed

text \<open>\<open>pico_frame_copy\<close> shares the buffer: it succeeds whenever the allocator does, keeps
  the ownership invariant and counts one user more.\<close>

theorem pico_frame_copy_counts:
  assumes "frames_ok m" "frames m f = Some fr" "p_addr \<noteq> NULL" "frames m p_addr = None"
    and "card (users m (usage_count fr)) < 2 ^ 32 - 1"
  shows "\<exists>m'. pico_frame_copy m f p_addr = Some (p_addr, m') \<and> frames_ok m'
     \<and> frames m' = (frames m)(p_addr \<mapsto> fr\<lparr>next_frame := NULL\<rparr>)
     \<and> card (users m' (usage_count fr)) = Suc (card (users m (usage_count fr)))"
  by (rule pico_frame_copy_steps [OF assms])

theorem pico_frame_copy_counts_witness:
  "\<exists>m'. pico_frame_copy one_frame 1 2 = Some (2, m') \<and> frames_ok m' \<and> card (users m' (Cin 100)) = 2"
proof -
  obtain p where p: "frames_ok one_frame" "frames one_frame = Map.empty(1 \<mapsto> p)"
    "users one_frame (usage_count p) = {1}" "usage_count p = Cin 100" using one_frame_ok by blast
  then show ?thesis using pico_frame_copy_counts [OF p(1), of 1 p 2] by auto
qed

text \<open>A new frame (internal, skeleton or external) has a counter of its own with value 1 and
  leaves every other frame intact.\<close>

theorem pico_frame_do_alloc_fresh:
  assumes "frames_ok m" "p_addr \<noteq> NULL" "frames m p_addr = None"
    and "b_addr \<noteq> NULL" "blocks m b_addr = None" "counters m (Cin b_addr) = None" "counters m (Cext b_addr) = None"
    and "ext_buffer \<longrightarrow> zerocopy"
  shows "\<exists>m' p. pico_frame_do_alloc m sz zerocopy ext_buffer p_addr b_addr = (p_addr, m') \<and> frames_ok m'
     \<and> frames m' = (frames m)(p_addr \<mapsto> p) \<and> users m' (usage_count p) = {p_addr}
     \<and> buffer_len p = sz \<and> usage_count p = (if zerocopy then Cext b_addr else Cin b_addr)"
  by (rule pico_frame_do_alloc_ok [OF assms])

theorem pico_frame_do_alloc_fresh_witness:
  "\<exists>m'. pico_frame_do_alloc one_frame 20 True True 2 200 = (2, m') \<and> frames_ok m'"
proof -
  obtain p where p: "frames_ok one_frame" "frames one_frame = Map.empty(1 \<mapsto> p)" using one_frame_ok by blast
  have "blocks one_frame 200 = None" "counters one_frame (Cin 200) = None" "counters one_frame (Cext 200) = None"
    by code_simp+
  then show ?thesis using pico_frame_do_alloc_fresh [OF p(1), of 2 200 True True 20] p(2) by auto
qed

text \<open>Growing a frame that nobody shares succeeds, keeps the ownership invariant and every byte:
  \<open>pico_frame_grow_head\<close> moves the old bytes to the end of the new buffer, \<open>pico_frame_grow\<close> to
  its beginning, and all header pointers still point at the same bytes.\<close>

theorem pico_frame_grow_keeps_bytes:
  assumes "frames_ok m" "frames m f = Some fr" "usage_count fr = Cin (buffer fr)"
    and "card (users m (usage_count fr)) = 1"
    and "b_addr \<noteq> NULL" "blocks m b_addr = None" "counters m (Cin b_addr) = None"
    and "buffer_len fr \<le> sz" "unat sz \<le> 2 ^ 32 - 4"
    and "blocks m (buffer fr) = Some old" "unat (buffer_len fr) \<le> length old"
  shows "(\<exists>m'. pico_frame_grow_head m f sz b_addr = Some (0, m') \<and> frames_ok m'
            \<and> grown m f fr old sz (unat sz - unat (buffer_len fr)) b_addr m')
     \<and> (\<exists>m'. pico_frame_grow m f sz b_addr = Some (0, m') \<and> frames_ok m' \<and> grown m f fr old sz 0 b_addr m')"
  using grow_steps [OF assms] grown_ok [OF assms(1-7)] by blast+

theorem pico_frame_grow_keeps_bytes_witness:
  "\<exists>m'. pico_frame_grow_head one_frame 1 10 200 = Some (0, m') \<and> frames_ok m'"
proof -
  obtain p where p: "frames_ok one_frame" "frames one_frame = Map.empty(1 \<mapsto> p)"
    "users one_frame (usage_count p) = {1}" "usage_count p = Cin 100" "buffer_len p = 6" using one_frame_ok by blast
  have b: "buffer p = 100"
    using frames_okD(1) [OF p(1), of 1 p] p(2,4) by (simp add: frame_ok_def)
  have "blocks one_frame 200 = None" "counters one_frame (Cin 200) = None"
    "blocks one_frame 100 = Some (replicate 8 0)" by code_simp+
  then show ?thesis
    using pico_frame_grow_keeps_bytes [OF p(1), of 1 p 200 10 "replicate 8 0"] p(2-5) b by auto
qed

text \<open>\<open>pico_frame_deepcopy\<close> does not copy the data: the new frame has the old header fields
  and a buffer of its own, but every byte of it is zero.\<close>

theorem pico_frame_deepcopy_loses_bytes:
  "map_option (\<lambda>(new, m). (new, map_option buffer_len (frames m new), blocks m 200))
     (pico_frame_deepcopy (one_frame\<lparr>blocks := Map.empty(100 \<mapsto> [1, 2, 3, 4, 5, 6, 0, 0])\<rparr>) 1 2 200 0)
   = Some (2, Some 6, Some [0, 0, 0, 0, 0, 0, 0, 0])"
  by code_simp

text \<open>C35: growing a frame whose counter lies in its buffer, while another frame shares it, succeeds and frees the
  buffer and the counter that the other frame goes on using: the next discard of the other one reads freed memory.
  So does growing it at the head.\<close>

theorem pico_frame_grow_shared_dangles:
  assumes "frames_ok m" "frames m f = Some fr" "usage_count fr = Cin (buffer fr)"
    and "frames m g = Some gr" "g \<noteq> f" "usage_count gr = usage_count fr"
    and "b_addr \<noteq> NULL" "blocks m b_addr = None" "buffer_len fr \<le> sz" "unat sz \<le> 2 ^ 32 - 4"
    and "blocks m (buffer fr) = Some old" "unat (buffer_len fr) \<le> length old"
  shows "(\<exists>m'. pico_frame_grow m f sz b_addr = Some (0, m') \<and> frames m' g = Some gr
            \<and> blocks m' (buffer gr) = None \<and> counters m' (usage_count gr) = None \<and> pico_frame_discard m' g = None)
     \<and> (\<exists>m'. pico_frame_grow_head m f sz b_addr = Some (0, m') \<and> frames m' g = Some gr
            \<and> blocks m' (buffer gr) = None \<and> counters m' (usage_count gr) = None \<and> pico_frame_discard m' g = None)"
proof -
  note fo = frames_okD [OF assms(1,2)] and go = frames_okD [OF assms(1,4)]
  have fl: "\<not> ext_counter_flag fr" "\<not> ext_buffer_flag fr" "buffer fr \<noteq> NULL" "buffer gr = buffer fr"
    using fo(1) fo(5) [OF assms(4)] assms(3,6) by (auto simp: frame_ok_def share_ok_def)
  obtain c where cnt: "counters m (Cin (buffer fr)) = Some c" using fo(2) assms(3) by simp
  have ne: "buffer fr \<noteq> b_addr" using assms(8,11) by auto
  have lens: "unat (buffer_len fr) \<le> unat sz" "unat sz \<le> unat (frame_buffer_size sz)"
    "unat (sz - buffer_len fr) = unat sz - unat (buffer_len fr)"
    using assms(9) frame_buffer_size_ge [OF assms(10)] by (simp_all add: word_le_nat_alt unat_sub)
  have n1: "\<not> sz < buffer_len fr" using assms(9) by simp
  note defs = pico_frame_new_buffer_def copy_block_def pico_frame_update_pointers_def release_buffer_def
    free_block_def pico_frame_discard_def Let_def
  show ?thesis
    using assms fl cnt ne lens n1 fo(4) go(4)
    by (auto simp: pico_frame_grow_def pico_frame_grow_head_def defs ext_buffer_flag_def)
qed

text \<open>The frame at 1 and its copy at 2.\<close>

definition shared_frames :: fmem where
  "shared_frames = (case pico_frame_copy one_frame 1 2 of Some (_, m) \<Rightarrow> m | None \<Rightarrow> one_frame)"

theorem pico_frame_grow_shared_dangles_witness:
  "\<exists>m'. pico_frame_grow shared_frames 1 10 200 = Some (0, m') \<and> blocks m' 100 = None \<and> pico_frame_discard m' 2 = None"
proof -
  obtain p where p: "frames_ok one_frame" "frames one_frame = Map.empty(1 \<mapsto> p)"
    "users one_frame (usage_count p) = {1}" "usage_count p = Cin 100" "buffer_len p = 6" using one_frame_ok by blast
  have b: "buffer p = 100" using frames_okD(1) [OF p(1), of 1 p] p(2,4) by (simp add: frame_ok_def)
  obtain m where m: "pico_frame_copy one_frame 1 2 = Some (2, m)" "frames_ok m"
    "frames m = (frames one_frame)(2 \<mapsto> p\<lparr>next_frame := NULL\<rparr>)"
    using pico_frame_copy_steps [OF p(1), of 1 p 2] p(2,3) by auto
  have sh: "shared_frames = m" by (simp add: shared_frames_def m(1))
  have bl: "blocks shared_frames 200 = None" "blocks shared_frames 100 = Some (replicate 8 0)" by code_simp+
  show ?thesis
    using pico_frame_grow_shared_dangles [OF m(2), of 1 p 2 "p\<lparr>next_frame := NULL\<rparr>" 200 10 "replicate 8 0"]
      m(3) p(2,4,5) b bl unfolding sh by auto
qed

end
