(* ===== verification/Queue.thy ===== *)
theory Queue
  imports Frame_Props
begin

text \<open>
  The frame queues of \<open>include/pico_queue.h\<close>: a list of frames linked through their \<open>next\<close>
  field, with counters for frames and bytes.  The links are in the frame memory of \<open>Frame\<close>;
  a null or freed frame met on the way makes the result \<open>None\<close>.  The refinement relates a
  queue to the list of its frames.
\<close>

section \<open>The queue\<close>

record pico_queue =
  qframes :: u32
  qsize :: u32
  max_frames :: u32
  max_size :: u32
  qhead :: int
  qtail :: int
  shared :: bool
  overhead :: u16

definition set_next :: "fmem \<Rightarrow> int \<Rightarrow> int \<Rightarrow> fmem option" where
  "set_next m f v = (case frames m f of None \<Rightarrow> None
     | Some fr \<Rightarrow> Some (m\<lparr>frames := (frames m)(f \<mapsto> fr\<lparr>next_frame := v\<rparr>)\<rparr>))"

text \<open>\<open>Q_LIMIT\<close> is 0; the mutex macros are empty.\<close>

definition pico_enqueue :: "pico_queue \<Rightarrow> fmem \<Rightarrow> int \<Rightarrow> (int \<times> pico_queue \<times> fmem) option" where
  "pico_enqueue q m p =
     (if max_frames q \<noteq> 0 \<and> max_frames q \<le> qframes q then Some (-1, q, m) else do {
        fr \<leftarrow> frames m p;
        (if max_size q \<noteq> 0 \<and> max_size q < buffer_len fr + qsize q then Some (-1, q, m) else do {
          m \<leftarrow> set_next m p NULL;
          (q, m) \<leftarrow> (if qhead q = NULL
             then Some (q\<lparr>qhead := p, qtail := p, qsize := 0, qframes := 0\<rparr>, m)
             else do { m \<leftarrow> set_next m (qtail q) p; Some (q\<lparr>qtail := p\<rparr>, m) });
          let q = q\<lparr>qsize := qsize q + (buffer_len fr + ucast (overhead q)), qframes := qframes q + 1\<rparr>;
          Some (sint (qsize q), q, m) }) })"

definition pico_dequeue :: "pico_queue \<Rightarrow> fmem \<Rightarrow> (int \<times> pico_queue \<times> fmem) option" where
  "pico_dequeue q m =
     (let p = qhead q in
      if p = NULL then Some (NULL, q, m)
      else if qframes q < 1 then Some (NULL, q, m) else do {
        fr \<leftarrow> frames m p;
        let q = q\<lparr>qhead := next_frame fr, qframes := qframes q - 1,
                  qsize := qsize q - (buffer_len fr - ucast (overhead q))\<rparr>;
        let q = (if qhead q = NULL then q\<lparr>qtail := NULL\<rparr> else q);
        m \<leftarrow> set_next m p NULL;
        Some (p, q, m) })"

definition pico_queue_peek :: "pico_queue \<Rightarrow> int" where
  "pico_queue_peek q = (if qframes q < 1 then NULL else qhead q)"

partial_function (option) pico_queue_empty :: "pico_queue \<Rightarrow> fmem \<Rightarrow> (pico_queue \<times> fmem) option" where
  "pico_queue_empty q m = do {
     (p, q, m) \<leftarrow> pico_dequeue q m;
     (if p = NULL then Some (q, m) else do {
        m \<leftarrow> pico_frame_discard m p;
        pico_queue_empty q m }) }"

definition pico_queue_protect :: "pico_queue \<Rightarrow> pico_queue" where
  "pico_queue_protect q = q\<lparr>shared := True\<rparr>"

declare pico_queue_empty.simps [code]

section \<open>The list a queue holds\<close>

fun chain :: "fmem \<Rightarrow> int \<Rightarrow> int list \<Rightarrow> bool" where
  "chain m p [] \<longleftrightarrow> p = NULL"
| "chain m p (x # xs) \<longleftrightarrow> p = x \<and> x \<noteq> NULL \<and>
     (case frames m x of None \<Rightarrow> False | Some fr \<Rightarrow> chain m (next_frame fr) xs)"

definition queue_rep :: "pico_queue \<Rightarrow> fmem \<Rightarrow> int list \<Rightarrow> bool" where
  "queue_rep q m xs \<longleftrightarrow> chain m (qhead q) xs \<and> distinct xs
     \<and> (xs \<noteq> [] \<longrightarrow> qtail q = last xs \<and> qframes q = of_nat (length xs)) \<and> length xs < 2 ^ 32"

definition blen :: "fmem \<Rightarrow> int \<Rightarrow> u32" where
  "blen m p = (case frames m p of None \<Rightarrow> 0 | Some fr \<Rightarrow> buffer_len fr)"

lemma chain_upd: "x \<notin> set xs \<Longrightarrow> chain (m\<lparr>frames := (frames m)(x := v)\<rparr>) p xs = chain m p xs"
  by (induction xs arbitrary: p) (auto split: option.splits)

lemma chain_live: "chain m p xs \<Longrightarrow> x \<in> set xs \<Longrightarrow> frames m x \<noteq> None \<and> x \<noteq> NULL"
  by (induction xs arbitrary: p) (auto split: option.splits)

lemma chain_append:
  assumes "chain m h xs" "xs \<noteq> []" "distinct xs" "p \<notin> set xs" "p \<noteq> NULL"
    and "frames m (last xs) = Some fr" "frames m p = Some fp" "next_frame fp = NULL"
  shows "chain (m\<lparr>frames := (frames m)(last xs \<mapsto> fr\<lparr>next_frame := p\<rparr>)\<rparr>) h (xs @ [p])"
  using assms
proof (induction xs arbitrary: h)
  case (Cons x xs)
  show ?case
  proof (cases "xs = []")
    case True
    then show ?thesis using Cons.prems by (auto split: option.splits)
  next
    case False
    then have "last xs \<noteq> x" using Cons.prems(3) last_in_set [OF False] by auto
    then show ?thesis using Cons False by (auto split: option.splits)
  qed
qed simp

lemma frames_count_u32: "length xs < 2 ^ 32 \<Longrightarrow> xs \<noteq> [] \<Longrightarrow> \<not> (of_nat (length xs) :: u32) < 1"
  using unat_of_nat_u32 [of "length xs"] by (simp add: word_less_nat_alt Suc_le_eq)

lemma queue_nonempty: "queue_rep q m xs \<Longrightarrow> qhead q = NULL \<longleftrightarrow> xs = []"
  by (cases xs) (auto simp: queue_rep_def)

text \<open>Enqueueing appends, or changes nothing when a limit is hit.\<close>

lemma pico_enqueue_rep:
  assumes q: "queue_rep q m xs" and p: "p \<notin> set xs" "p \<noteq> NULL" "frames m p = Some fp" and len: "length xs < 2 ^ 32 - 1"
  shows "\<exists>r q' m'. pico_enqueue q m p = Some (r, q', m') \<and>
     (if max_frames q \<noteq> 0 \<and> max_frames q \<le> qframes q \<or> max_size q \<noteq> 0 \<and> max_size q < buffer_len fp + qsize q
      then r = -1 \<and> q' = q \<and> m' = m
      else queue_rep q' m' (xs @ [p]) \<and> (\<forall>x. blen m' x = blen m x) \<and> max_size q' = max_size q
        \<and> max_frames q' = max_frames q \<and> overhead q' = overhead q
        \<and> qsize q' = (if xs = [] then 0 else qsize q) + (buffer_len fp + ucast (overhead q)))"
proof (cases "max_frames q \<noteq> 0 \<and> max_frames q \<le> qframes q \<or> max_size q \<noteq> 0 \<and> max_size q < buffer_len fp + qsize q")
  case True
  then show ?thesis using p(3) by (auto simp: pico_enqueue_def)
next
  case False
  let ?m1 = "m\<lparr>frames := (frames m)(p \<mapsto> fp\<lparr>next_frame := NULL\<rparr>)\<rparr>"
  have c1: "chain ?m1 (qhead q) xs" using q p(1) by (simp add: queue_rep_def chain_upd)
  show ?thesis
  proof (cases "xs = []")
    case True
    then have "qhead q = NULL" using queue_nonempty [OF q] by simp
    then show ?thesis using True False p
      by (auto simp: pico_enqueue_def set_next_def queue_rep_def blen_def Let_def)
  next
    case ne: False
    have hd0: "qhead q \<noteq> NULL" using queue_nonempty [OF q] ne by simp
    have tl0: "qtail q = last xs" "distinct xs" "qframes q = of_nat (length xs)" using q ne by (simp_all add: queue_rep_def)
    have lp: "last xs \<noteq> p" using p(1) last_in_set [OF ne] by auto
    obtain ft where ft: "frames m (last xs) = Some ft"
      using chain_live [of m "qhead q" xs "last xs"] q ne by (auto simp: queue_rep_def)
    let ?m2 = "?m1\<lparr>frames := (frames ?m1)(last xs \<mapsto> ft\<lparr>next_frame := p\<rparr>)\<rparr>"
    have c2: "chain ?m2 (qhead q) (xs @ [p])"
      by (rule chain_append [OF c1 ne tl0(2) p(1,2)]) (use ft lp in auto)
    have "pico_enqueue q m p = Some (sint (qsize q + (buffer_len fp + ucast (overhead q))),
        q\<lparr>qtail := p, qsize := qsize q + (buffer_len fp + ucast (overhead q)), qframes := qframes q + 1\<rparr>, ?m2)"
      using False p(3) hd0 ft lp tl0(1) by (auto simp: pico_enqueue_def set_next_def Let_def)
    then show ?thesis using False c2 tl0 p ne len lp ft
      by (auto simp: queue_rep_def blen_def)
  qed
qed

text \<open>Dequeueing takes the first frame and leaves the rest.\<close>

lemma pico_dequeue_rep:
  assumes q: "queue_rep q m xs"
  shows "case xs of
      [] \<Rightarrow> pico_dequeue q m = Some (NULL, q, m)
    | x # ys \<Rightarrow> \<exists>q' m'. pico_dequeue q m = Some (x, q', m') \<and> queue_rep q' m' ys
        \<and> (\<forall>y. blen m' y = blen m y) \<and> max_size q' = max_size q \<and> max_frames q' = max_frames q
        \<and> overhead q' = overhead q \<and> qsize q' = qsize q - (blen m x - ucast (overhead q))
        \<and> (\<exists>fr. frames m x = Some fr \<and> frames m' = (frames m)(x \<mapsto> fr\<lparr>next_frame := NULL\<rparr>))
        \<and> counters m' = counters m \<and> blocks m' = blocks m \<and> infos m' = infos m"
proof (cases xs)
  case Nil
  then show ?thesis using queue_nonempty [OF q] by (simp add: pico_dequeue_def Let_def)
next
  case (Cons x ys)
  have c: "chain m (qhead q) (x # ys)" "x \<notin> set ys" using q Cons by (simp_all add: queue_rep_def)
  then obtain fr where fr: "frames m x = Some fr" "chain m (next_frame fr) ys" "qhead q = x" "x \<noteq> NULL"
    by (auto split: option.splits)
  have cnt: "qframes q = of_nat (Suc (length ys))" "\<not> qframes q < 1"
    using q Cons frames_count_u32 [of xs] by (auto simp: queue_rep_def)
  have nx: "next_frame fr = NULL \<longleftrightarrow> ys = []" using fr(2) by (cases ys) auto
  let ?m = "m\<lparr>frames := (frames m)(x \<mapsto> fr\<lparr>next_frame := NULL\<rparr>)\<rparr>"
  have "chain ?m (next_frame fr) ys" using fr(2) c(2) by (simp add: chain_upd)
  then show ?thesis using Cons q fr cnt nx
    by (auto simp: pico_dequeue_def Let_def set_next_def queue_rep_def blen_def)
qed

section \<open>The contract of a queue\<close>

text \<open>
  What the protocol layers rely on: a FIFO of frames.  The state is whatever the queue and
  the memory are.
\<close>

locale fifo =
  fixes holds :: "'q \<Rightarrow> 'f list \<Rightarrow> bool"
    and enq :: "'q \<Rightarrow> 'f \<Rightarrow> 'q option"
    and deq :: "'q \<Rightarrow> ('f \<times> 'q) option"
    and room :: "'q \<Rightarrow> 'f \<Rightarrow> bool"
  assumes enq_law: "holds q xs \<Longrightarrow> room q x \<Longrightarrow> x \<notin> set xs \<Longrightarrow> \<exists>q'. enq q x = Some q' \<and> holds q' (xs @ [x])"
    and deq_law: "holds q (x # xs) \<Longrightarrow> \<exists>q'. deq q = Some (x, q') \<and> holds q' xs"
begin

text \<open>What goes in comes out in the same order.\<close>

fun drain :: "nat \<Rightarrow> 'q \<Rightarrow> 'f list option" where
  "drain 0 q = Some []"
| "drain (Suc n) q = (case deq q of None \<Rightarrow> None
     | Some (x, q') \<Rightarrow> map_option ((#) x) (drain n q'))"

lemma drain_all: "holds q xs \<Longrightarrow> drain (length xs) q = Some xs"
proof (induction xs arbitrary: q)
  case (Cons x xs)
  obtain q' where "deq q = Some (x, q')" "holds q' xs" using deq_law [OF Cons.prems] by blast
  then show ?case using Cons.IH by simp
qed simp

lemma enq_then_drain:
  "holds q xs \<Longrightarrow> room q x \<Longrightarrow> x \<notin> set xs \<Longrightarrow>
   \<exists>q'. enq q x = Some q' \<and> drain (Suc (length xs)) q' = Some (xs @ [x])"
  using enq_law [of q xs x] drain_all [of _ "xs @ [x]"] by auto

end

definition q_holds :: "pico_queue \<times> fmem \<Rightarrow> int list \<Rightarrow> bool" where
  "q_holds qm xs \<longleftrightarrow> queue_rep (fst qm) (snd qm) xs"

definition q_enq :: "pico_queue \<times> fmem \<Rightarrow> int \<Rightarrow> (pico_queue \<times> fmem) option" where
  "q_enq qm p = (case pico_enqueue (fst qm) (snd qm) p of
     None \<Rightarrow> None | Some (r, q', m') \<Rightarrow> Some (q', m'))"

definition q_deq :: "pico_queue \<times> fmem \<Rightarrow> (int \<times> pico_queue \<times> fmem) option" where
  "q_deq qm = pico_dequeue (fst qm) (snd qm)"

text \<open>No limit is set and fewer than \<open>2\<^sup>3\<^sup>2 - 1\<close> frames are queued.\<close>

definition q_room :: "pico_queue \<times> fmem \<Rightarrow> int \<Rightarrow> bool" where
  "q_room qm p \<longleftrightarrow> max_frames (fst qm) = 0 \<and> max_size (fst qm) = 0 \<and> p \<noteq> NULL
     \<and> frames (snd qm) p \<noteq> None \<and> qframes (fst qm) < 2 ^ 32 - 2"

interpretation frame_fifo: fifo q_holds q_enq q_deq q_room
proof unfold_locales
  fix qm xs x assume a: "q_holds qm xs" "q_room qm x" "x \<notin> set xs"
  have len: "length xs < 2 ^ 32 - 1"
  proof (cases "xs = []")
    case False
    then have "qframes (fst qm) = of_nat (length xs)" "length xs < 2 ^ 32"
      using a(1) by (simp_all add: q_holds_def queue_rep_def)
    then have "unat (qframes (fst qm)) = length xs" using unat_of_nat_u32 by simp
    moreover have "unat (qframes (fst qm)) < unat ((2 ^ 32 - 2) :: u32)"
      using a(2) by (simp add: q_room_def word_less_nat_alt)
    ultimately show ?thesis by simp
  qed simp
  obtain fp where "frames (snd qm) x = Some fp" using a(2) by (auto simp: q_room_def)
  then show "\<exists>q'. q_enq qm x = Some q' \<and> q_holds q' (xs @ [x])"
    using pico_enqueue_rep [of "fst qm" "snd qm" xs x fp] a len
    by (auto simp: q_holds_def q_enq_def q_room_def)
next
  fix qm x xs assume "q_holds qm (x # xs)"
  then show "\<exists>q'. q_deq qm = Some (x, q') \<and> q_holds q' xs"
    using pico_dequeue_rep [of "fst qm" "snd qm" "x # xs"] by (auto simp: q_holds_def q_deq_def)
qed

section \<open>Properties\<close>

text \<open>C36: a queue with no limits is a FIFO: a frame that is enqueued comes out after all frames
  that were in the queue, and these come out in their order.\<close>

theorem pico_queue_fifo:
  assumes "queue_rep q m xs" "max_frames q = 0" "max_size q = 0" "qframes q < 2 ^ 32 - 2"
    and "p \<noteq> NULL" "p \<notin> set xs" "frames m p \<noteq> None"
  shows "\<exists>q' m'. q_enq (q, m) p = Some (q', m')
     \<and> frame_fifo.drain (Suc (length xs)) (q', m') = Some (xs @ [p])"
  using frame_fifo.enq_then_drain [of "(q, m)" xs p] assms by (auto simp: q_holds_def q_room_def)

definition empty_queue :: pico_queue where
  "empty_queue = \<lparr>qframes = 0, qsize = 0, max_frames = 0, max_size = 0, qhead = NULL, qtail = NULL,
     shared = False, overhead = 0\<rparr>"

lemma empty_queue_rep: "queue_rep empty_queue m []"
  by (simp add: queue_rep_def empty_queue_def)

theorem pico_queue_fifo_witness:
  "\<exists>q' m'. q_enq (empty_queue, one_frame) 1 = Some (q', m') \<and> frame_fifo.drain 1 (q', m') = Some [1]"
proof -
  have "frames one_frame 1 \<noteq> None" using one_frame_ok by auto
  then show ?thesis
    using pico_queue_fifo [OF empty_queue_rep, where m = one_frame and p = 1]
    by (auto simp: empty_queue_def)
qed

text \<open>The bytes the queue accounts for, with a fixed overhead per frame.\<close>

definition queued_bytes :: "pico_queue \<Rightarrow> fmem \<Rightarrow> int list \<Rightarrow> u32" where
  "queued_bytes q m xs = (\<Sum>x\<leftarrow>xs. blen m x + ucast (overhead q))"

definition accounted :: "pico_queue \<Rightarrow> fmem \<Rightarrow> int list \<Rightarrow> bool" where
  "accounted q m xs \<longleftrightarrow> queue_rep q m xs \<and> overhead q = 0 \<and> (xs \<noteq> [] \<longrightarrow> qsize q = queued_bytes q m xs)"

text \<open>Without overhead the size of a queue is the sum of the lengths of its frames: enqueueing
  and dequeueing keep it so, and enqueueing refuses a frame exactly when a limit would be
  exceeded, leaving the queue as it was.\<close>

theorem pico_queue_accounts:
  assumes "accounted q m xs" "length xs < 2 ^ 32 - 1" "p \<noteq> NULL" "p \<notin> set xs" "frames m p = Some fp"
  shows "\<exists>r q' m'. pico_enqueue q m p = Some (r, q', m')
       \<and> (if max_frames q \<noteq> 0 \<and> max_frames q \<le> qframes q \<or> max_size q \<noteq> 0 \<and> max_size q < buffer_len fp + qsize q
          then r = -1 \<and> q' = q \<and> m' = m else accounted q' m' (xs @ [p])
            \<and> (case xs @ [p] of [] \<Rightarrow> False | x # ys \<Rightarrow>
                 \<exists>q'' m''. pico_dequeue q' m' = Some (x, q'', m'') \<and> accounted q'' m'' ys))"
proof -
  have q: "queue_rep q m xs" "overhead q = 0" using assms(1) by (simp_all add: accounted_def)
  have bytes: "queued_bytes q' m' ys = queued_bytes q m ys"
    if "\<forall>x. blen m' x = blen m x" "overhead q' = overhead q" for q' :: pico_queue and m' ys
    using that by (simp add: queued_bytes_def)
  obtain r q' m' where e: "pico_enqueue q m p = Some (r, q', m')"
    "if max_frames q \<noteq> 0 \<and> max_frames q \<le> qframes q \<or> max_size q \<noteq> 0 \<and> max_size q < buffer_len fp + qsize q
      then r = -1 \<and> q' = q \<and> m' = m
      else queue_rep q' m' (xs @ [p]) \<and> (\<forall>x. blen m' x = blen m x) \<and> max_size q' = max_size q
        \<and> max_frames q' = max_frames q \<and> overhead q' = overhead q
        \<and> qsize q' = (if xs = [] then 0 else qsize q) + (buffer_len fp + ucast (overhead q))"
    using pico_enqueue_rep [OF q(1) assms(4,3,5,2)] by blast
  show ?thesis
  proof (cases "max_frames q \<noteq> 0 \<and> max_frames q \<le> qframes q \<or> max_size q \<noteq> 0 \<and> max_size q < buffer_len fp + qsize q")
    case True
    then show ?thesis using e by auto
  next
    case False
    then have e2: "queue_rep q' m' (xs @ [p])" "\<forall>x. blen m' x = blen m x" "overhead q' = overhead q"
      "qsize q' = (if xs = [] then 0 else qsize q) + buffer_len fp" using e(2) q(2) by auto
    have sz: "qsize q' = queued_bytes q' m' (xs @ [p])"
    proof -
      have "queued_bytes q m (xs @ [p]) = queued_bytes q m xs + buffer_len fp"
        using assms(5) q(2) by (simp add: queued_bytes_def blen_def)
      moreover have "(if xs = [] then 0 else qsize q) = queued_bytes q m xs"
        using assms(1) by (auto simp: accounted_def queued_bytes_def)
      ultimately show ?thesis using e2(4) bytes [OF e2(2,3)] by simp
    qed
    have acc: "accounted q' m' (xs @ [p])" using e2 q(2) sz by (simp add: accounted_def)
    obtain x ys where xy: "xs @ [p] = x # ys" by (cases "xs @ [p]") auto
    obtain q'' m'' where d: "pico_dequeue q' m' = Some (x, q'', m'')" "queue_rep q'' m'' ys"
      "\<forall>y. blen m'' y = blen m' y" "overhead q'' = overhead q'" "qsize q'' = qsize q' - (blen m' x - ucast (overhead q'))"
      using pico_dequeue_rep [OF e2(1)] xy by auto
    have "qsize q'' = queued_bytes q'' m'' ys"
      using sz xy d(3-5) e2(3) q(2) by (simp add: queued_bytes_def)
    then have "accounted q'' m'' ys" using d(2,4) e2(3) q(2) by (simp add: accounted_def)
    then show ?thesis using False e(1) acc xy d(1) by auto
  qed
qed

theorem pico_queue_accounts_witness:
  "\<exists>r q' m'. pico_enqueue empty_queue one_frame 1 = Some (r, q', m') \<and> accounted q' m' [1]"
proof -
  obtain fp where "frames one_frame 1 = Some fp" using one_frame_ok by auto
  moreover have "accounted empty_queue one_frame []" by (simp add: accounted_def empty_queue_rep) (simp add: empty_queue_def)
  ultimately show ?thesis
    using pico_queue_accounts [of empty_queue one_frame "[]" 1 fp] by (auto simp: empty_queue_def)
qed

text \<open>With an overhead, dequeueing subtracts \<open>buffer_len - overhead\<close> where enqueueing added
  \<open>buffer_len + overhead\<close>: with two frames of 6 bytes and an overhead of 100, dequeueing one
  makes the size 306 instead of 106.\<close>

theorem pico_dequeue_overhead_sign:
  "(case pico_frame_alloc one_frame 6 2 200 of (_, m) \<Rightarrow> do {
      (_, q, m) \<leftarrow> pico_enqueue (empty_queue\<lparr>overhead := 100\<rparr>) m 1;
      (_, q, m) \<leftarrow> pico_enqueue q m 2;
      (_, q', m) \<leftarrow> pico_dequeue q m;
      Some (qsize q, qsize q') }) = Some (212, 306)"
  by code_simp

end
