(* ===== verification/Strings_Mod.thy ===== *)
theory Strings_Mod
  imports Pico_Prelude
begin

text \<open>
  The string helpers of \<open>modules/pico_strings.c\<close>.  A pointer into a string is the list of
  characters from there on, \<open>None\<close> is the null pointer, and a read past the end of the list
  (memory that is not part of the string's buffer) makes the result \<open>None\<close>.
\<close>

section \<open>Length and comparison\<close>

fun strnlen_loop :: "u8 list \<Rightarrow> nat \<Rightarrow> nat option" where
  "strnlen_loop str 0 = Some 0"
| "strnlen_loop [] (Suc n) = None"
| "strnlen_loop (c # str) (Suc n) = (if c \<noteq> 0 then map_option Suc (strnlen_loop str n) else Some 0)"

definition pico_strnlen :: "u8 list option \<Rightarrow> nat \<Rightarrow> nat option" where
  "pico_strnlen str n = (case str of None \<Rightarrow> Some 0 | Some s \<Rightarrow> strnlen_loop s n)"

text \<open>The offset of the terminator, or the null pointer.\<close>

definition get_string_terminator_position :: "u8 list option \<Rightarrow> nat \<Rightarrow> nat option option" where
  "get_string_terminator_position block n =
     map_option (\<lambda>l. if n \<noteq> l then Some l else None) (pico_strnlen block n)"

text \<open>\<open>toupper\<close> of the C locale on the value of a (signed) \<open>char\<close>.\<close>

definition toupper :: "u8 \<Rightarrow> int" where
  "toupper c = (if 97 \<le> sint c \<and> sint c \<le> 122 then sint c - 32 else sint c)"

fun pico_strncasecmp :: "u8 list \<Rightarrow> u8 list \<Rightarrow> nat \<Rightarrow> int option" where
  "pico_strncasecmp s1 s2 0 = Some 0"
| "pico_strncasecmp (a # s1) (b # s2) (Suc n) =
     (if toupper a < toupper b then Some (-1)
      else if toupper b < toupper a then Some 1
      else if toupper a = 0 \<and> toupper b = 0 then Some 0
      else pico_strncasecmp s1 s2 n)"
| "pico_strncasecmp s1 s2 (Suc n) = None"

section \<open>Numbers\<close>

definition num2string_validate :: "int \<Rightarrow> u8 list option \<Rightarrow> int \<Rightarrow> int" where
  "num2string_validate num buf n =
     (if num < 0 then -1 else if buf = None then -2 else if n < 2 then -3 else 0)"

text \<open>\<open>buf[i] = buf[i + pos]\<close> for the first \<open>n - pos\<close> indices.\<close>

fun shift_loop :: "u8 list \<Rightarrow> nat \<Rightarrow> nat \<Rightarrow> nat \<Rightarrow> u8 list" where
  "shift_loop buf i 0 pos = buf"
| "shift_loop buf i (Suc k) pos = shift_loop (buf[i := buf ! (i + pos)]) (Suc i) k pos"

definition revert_and_shift :: "u8 list \<Rightarrow> nat \<Rightarrow> nat \<Rightarrow> int \<times> u8 list" where
  "revert_and_shift buf n pos = (int (n - pos), shift_loop buf 0 (n - pos) pos)"

text \<open>The loop that writes digits backwards from \<open>pos\<close>; \<open>None\<close> when there is no room left.\<close>

fun digits_loop :: "nat \<Rightarrow> int \<Rightarrow> u8 list \<Rightarrow> (nat \<times> u8 list) option" where
  "digits_loop 0 quot buf = None"
| "digits_loop (Suc pos) quot buf =
     (let buf = buf[pos := word_of_int (quot mod 10 + 48)]; quot = quot div 10
      in if quot \<noteq> 0 then digits_loop pos quot buf else Some (pos, buf))"

text \<open>The returned value and the buffer; the buffer has at least \<open>n\<close> characters.\<close>

definition num2string :: "int \<Rightarrow> u8 list \<Rightarrow> nat \<Rightarrow> int \<times> u8 list" where
  "num2string num buf n =
     (if num2string_validate num (Some buf) (int n) \<noteq> 0 then (-1, buf)
      else let buf = buf[n - 1 := 0]
           in case digits_loop (n - 1) num buf of
                None \<Rightarrow> (-3, buf)
              | Some (pos, buf) \<Rightarrow> revert_and_shift buf n pos)"

section \<open>What they compute\<close>

text \<open>Decimal notation, most significant digit first.\<close>

function decimal :: "int \<Rightarrow> u8 list" where
  "decimal n = (if n < 10 then [word_of_int (n + 48)]
     else decimal (n div 10) @ [word_of_int (n mod 10 + 48)])"
  by auto
termination by (relation "measure nat") auto

declare decimal.simps [simp del]

lemma decimal_length: "0 < length (decimal n)"
  by (subst decimal.simps) simp

fun parse_decimal :: "u8 list \<Rightarrow> int" where
  "parse_decimal ds = foldl (\<lambda>v d. 10 * v + (uint d - 48)) 0 ds"

lemma uint_digit: "0 \<le> d \<Longrightarrow> d < 10 \<Longrightarrow> uint (word_of_int (d + 48) :: u8) = d + 48"
proof -
  assume "0 \<le> d" "d < 10"
  moreover have "uint (word_of_int (d + 48) :: u8) = (d + 48) mod 2 ^ 8"
    by (simp only: uint_word_of_int) simp
  ultimately show ?thesis by simp
qed

lemma parse_decimal_decimal: "0 \<le> n \<Longrightarrow> parse_decimal (decimal n) = n"
proof (induction n rule: decimal.induct)
  case (1 n)
  show ?case
  proof (cases "n < 10")
    case True
    then show ?thesis using 1(2) uint_digit [of n] by (subst decimal.simps) simp
  next
    case False
    then have "parse_decimal (decimal (n div 10)) = n div 10" using 1 by simp
    then show ?thesis using False uint_digit [of "n mod 10"] by (subst decimal.simps) simp
  qed
qed

lemma digits_loop_decimal:
  assumes "0 \<le> n" "pos \<le> length buf"
  shows "digits_loop pos n buf = (if length (decimal n) \<le> pos
     then Some (pos - length (decimal n),
                take (pos - length (decimal n)) buf @ decimal n @ drop pos buf)
     else None)"
  using assms
proof (induction pos n buf rule: digits_loop.induct)
  case (1 n buf)
  then show ?case using decimal_length [of n] by simp
next
  case (2 pos n buf)
  let ?d = "word_of_int (n mod 10 + 48)"
  have upd: "buf[pos := ?d] = take pos buf @ ?d # drop (Suc pos) buf"
    using 2(3) by (simp add: upd_conv_take_nth_drop)
  show ?case
  proof (cases "n < 10")
    case True
    then have "n mod 10 = n" "n div 10 = 0" using 2(2) by simp_all
    moreover then have "decimal n = [?d]" using True by (subst decimal.simps) simp
    ultimately have "decimal n = [?d]" "n div 10 = 0" by simp_all
    then show ?thesis using upd by (simp add: Let_def)
  next
    case False
    then have d: "decimal n = decimal (n div 10) @ [?d]" by (subst decimal.simps) simp
    have q: "n div 10 \<noteq> 0" using False by linarith
    have "digits_loop pos (n div 10) (buf[pos := ?d]) = (if length (decimal (n div 10)) \<le> pos
       then Some (pos - length (decimal (n div 10)),
                  take (pos - length (decimal (n div 10))) (buf[pos := ?d]) @ decimal (n div 10)
                    @ drop pos (buf[pos := ?d]))
       else None)"
      using 2 q by (simp add: Let_def)
    moreover have "take k (buf[pos := ?d]) = take k buf" if "k \<le> pos" for k
      using that by (simp add: upd)
    moreover have "drop pos (buf[pos := ?d]) = ?d # drop (Suc pos) buf"
      using 2(3) by (simp only: upd) (simp add: drop_append)
    ultimately show ?thesis using d q by (simp add: Let_def)
  qed
qed

lemma shift_loop_take:
  "i + k + pos \<le> length buf \<Longrightarrow> shift_loop buf i k pos = take i buf @ take k (drop (i + pos) buf) @ drop (i + k) buf"
proof (induction k arbitrary: buf i)
  case 0
  then show ?case by simp
next
  case (Suc k)
  let ?b = "buf[i := buf ! (i + pos)]"
  have "shift_loop buf i (Suc k) pos = take (Suc i) ?b @ take k (drop (Suc i + pos) ?b) @ drop (Suc i + k) ?b"
    using Suc.IH [of "Suc i" ?b] Suc.prems by simp
  also have "take (Suc i) ?b = take i buf @ [buf ! (i + pos)]"
    using Suc.prems by (simp add: take_Suc_conv_app_nth)
  also have "drop (Suc i + pos) ?b = drop (Suc i + pos) buf" by simp
  also have "drop (Suc i + k) ?b = drop (i + Suc k) buf" by simp
  also have "take (Suc k) (drop (i + pos) buf) = buf ! (i + pos) # take k (drop (Suc i + pos) buf)"
    using Suc.prems by (simp add: Cons_nth_drop_Suc [symmetric])
  ultimately show ?case
    by (metis (no_types, lifting) append.assoc append_Cons append_Nil)
qed

lemma strnlen_loop_bound: "strnlen_loop s n = Some k \<Longrightarrow> k \<le> n \<and> k \<le> length s
    \<and> (\<forall>i < k. s ! i \<noteq> 0) \<and> (k < n \<longrightarrow> k < length s \<and> s ! k = 0)"
proof (induction s n arbitrary: k rule: strnlen_loop.induct)
  case (3 c str n)
  show ?case
  proof (cases "c = 0")
    case True
    then show ?thesis using 3(2) by simp
  next
    case False
    then obtain j where j: "strnlen_loop str n = Some j" "k = Suc j" using 3(2) by auto
    have ih: "j \<le> n \<and> j \<le> length str \<and> (\<forall>i<j. str ! i \<noteq> 0) \<and> (j < n \<longrightarrow> j < length str \<and> str ! j = 0)"
      by (rule 3(1) [OF False j(1)])
    moreover have "(c # str) ! i \<noteq> 0" if "i < k" for i
      using that ih False j(2) by (cases i) auto
    ultimately show ?thesis using j(2) by simp
  qed
qed auto

section \<open>Properties\<close>

text \<open>When the digits fit they end up at the front, with a terminator, and the bytes behind the first
  \<open>n\<close> stay.\<close>

lemma num2string_fits:
  assumes "n \<le> length buf" "0 \<le> num" "2 \<le> n" "length (decimal num) + 1 \<le> n"
  shows "\<exists>w. num2string num buf n = (int (length (decimal num)) + 1, (decimal num @ [0]) @ w)
    \<and> length ((decimal num @ [0]) @ w) = length buf \<and> drop n ((decimal num @ [0]) @ w) = drop n buf"
proof -
  let ?d = "decimal num" and ?b = "buf[n - 1 := 0]"
  define pos where "pos = n - 1 - length ?d"
  let ?b2 = "take pos ?b @ ?d @ 0 # drop n buf"
  have n: "n - 1 < length buf" "0 < n" "pos \<le> n - 1" "n - pos = length ?d + 1" "pos + (n - pos) = n" "n - (n - pos) = pos"
    using assms by (auto simp: pos_def)
  have db: "drop (n - 1) ?b = 0 # drop n buf" using n by (simp add: drop_update_swap Cons_nth_drop_Suc [symmetric])
  have dl: "digits_loop (n - 1) num ?b = Some (pos, ?b2)"
    using digits_loop_decimal [of num "n - 1" ?b] assms n db by (simp add: pos_def)
  have b2: "length ?b2 = length buf" using n assms by simp
  have dr: "drop pos ?b2 = ?d @ 0 # drop n buf" using n by (simp add: min_absorb2)
  have front: "take (n - pos) (drop pos ?b2) = ?d @ [0]" by (simp only: dr n(4)) simp
  define w where "w = drop (n - pos) ?b2"
  have "shift_loop ?b2 0 (n - pos) pos = take (n - pos) (drop pos ?b2) @ w"
    using shift_loop_take [of 0 "n - pos" pos ?b2] b2 n assms(1) by (simp only: take_0 append_Nil add_0 w_def)
  then have sh: "shift_loop ?b2 0 (n - pos) pos = (?d @ [0]) @ w" by (simp only: front)
  have r: "num2string num buf n = (int (length ?d) + 1, (?d @ [0]) @ w)"
    using assms dl sh n(4) by (simp add: num2string_def num2string_validate_def revert_and_shift_def)
  have len: "length (?d @ [0]) = n - pos" "length w = length buf - (n - pos)"
    using n(4) b2 by (simp_all only: w_def length_drop) simp
  have "drop n ((?d @ [0]) @ w) = drop pos w"
    using drop_append [of n "?d @ [0]" w] len(1) n(3,6) by simp
  also have "\<dots> = drop n ?b2" by (simp only: w_def drop_drop n(5))
  also have "\<dots> = drop n buf" using n assms by (simp add: min_absorb2)
  finally have "drop n ((?d @ [0]) @ w) = drop n buf" .
  moreover have "length ((?d @ [0]) @ w) = length buf" using len n assms(1) by (simp only: length_append)
  ultimately show ?thesis using r by blast
qed

text \<open>\<open>num2string\<close> writes the decimal digits and a terminator to the front of the buffer and
  returns their number whenever they fit, reads nothing outside the buffer, and reports every
  other case by a negative value; parsing the digits gives the number back.\<close>

theorem num2string_decimal:
  assumes "n \<le> length buf"
  shows "case num2string num buf n of (r, buf') \<Rightarrow>
     if num < 0 \<or> n < 2 then r = -1 \<and> buf' = buf
     else if n < length (decimal num) + 1 then r = -3
     else r = int (length (decimal num)) + 1 \<and> length buf' = length buf
       \<and> take (nat r) buf' = decimal num @ [0] \<and> drop n buf' = drop n buf
       \<and> parse_decimal (take (nat r - 1) buf') = num"
proof (cases "num < 0 \<or> n < 2")
  case True
  then show ?thesis by (auto simp: num2string_def num2string_validate_def)
next
  case False
  then have n: "0 \<le> num" "2 \<le> n" "n - 1 < length buf" using assms by auto
  show ?thesis
  proof (cases "n < length (decimal num) + 1")
    case True
    have "digits_loop (n - 1) num (buf[n - 1 := 0]) = None"
      using digits_loop_decimal [of num "n - 1" "buf[n - 1 := 0]"] n True by simp
    then have "num2string num buf n = (-3, buf[n - 1 := 0])"
      using False by (simp add: num2string_def num2string_validate_def)
    then show ?thesis using False True by simp
  next
    case fits: False
    obtain w where w: "num2string num buf n = (int (length (decimal num)) + 1, (decimal num @ [0]) @ w)"
      "length ((decimal num @ [0]) @ w) = length buf" "drop n ((decimal num @ [0]) @ w) = drop n buf"
      using num2string_fits [OF assms n(1,2)] fits by (auto simp: not_less)
    have "nat (int (length (decimal num)) + 1) = length (decimal num) + 1" by simp
    then show ?thesis using False fits w parse_decimal_decimal [OF n(1)]
      by (simp del: parse_decimal.simps)
  qed
qed

theorem num2string_decimal_witness:
  "case num2string 305 (replicate 8 255) 8 of (r, buf') \<Rightarrow>
     r = 4 \<and> take 4 buf' = [51, 48, 53, 0] \<and> parse_decimal (take 3 buf') = 305"
proof -
  have d: "decimal 305 = [51, 48, 53]" by code_simp
  show ?thesis using num2string_decimal [of 8 "replicate 8 255" 305] by (simp add: d split: prod.splits)
qed

text \<open>\<open>pico_strnlen\<close> reads no further than the first terminator or \<open>n\<close> characters, and
  \<open>get_string_terminator_position\<close> finds the first terminator if there is one before \<open>n\<close>.\<close>

theorem pico_strnlen_first_zero:
  assumes "pico_strnlen (Some s) n = Some k"
  shows "k \<le> n \<and> (\<forall>i < k. s ! i \<noteq> 0)
     \<and> get_string_terminator_position (Some s) n = Some (if k < n then Some k else None)
     \<and> (k < n \<longrightarrow> k < length s \<and> s ! k = 0)"
  using assms strnlen_loop_bound [of s n k]
  by (auto simp: pico_strnlen_def get_string_terminator_position_def)

theorem pico_strnlen_first_zero_witness:
  "get_string_terminator_position (Some [104, 105, 0]) 9 = Some (Some 2)"
proof -
  have "pico_strnlen (Some [104, 105, 0]) 9 = Some 2" by code_simp
  from pico_strnlen_first_zero [OF this] show ?thesis by simp
qed

end
