(* ===== verification/Heap.thy ===== *)
theory Heap
  imports Pico_Prelude "HOL-Library.Multiset" "HOL-Library.Monad_Syntax"
begin

text \<open>
  The binary heap of \<open>include/heap.h\<close> (the macro \<open>DECLARE_HEAP\<close>).  The blocks \<open>top[0]\<close>,
  \<open>top[1]\<close>, \ldots of \<open>MAX_BLOCK_SIZE / sizeof (type)\<close> elements each are one list
  \<open>elems\<close>: element \<open>idx\<close> is \<open>top[idx / epb][idx % epb]\<close>, and \<open>length elems\<close> is what is
  allocated.  Elements live at the indices 1 to \<open>n\<close>.  The field \<open>orderby\<close> is the argument
  \<open>key\<close>, a zeroed element is \<open>zero\<close>, and \<open>mem_ok\<close> says whether \<open>PICO_ZALLOC\<close> succeeds.
\<close>

section \<open>Operations\<close>

record 'a heap =
  hsize :: nat
  hn :: nat
  elems :: "'a list"

definition MAX_BLOCK_SIZE :: nat where "MAX_BLOCK_SIZE = 1600"
definition MAX_BLOCK_COUNT :: nat where "MAX_BLOCK_COUNT = 16"

definition heap_get_element :: "'a heap \<Rightarrow> nat \<Rightarrow> 'a" where
  "heap_get_element h idx = elems h ! idx"

definition heap_init :: "'a heap" where
  "heap_init = \<lparr>hsize = 0, hn = 0, elems = []\<rparr>"

text \<open>The last block is allocated anew with room for the element \<open>n\<close>; the elements before
  \<open>n\<close> are copied, those of earlier blocks stay.\<close>

definition heap_increase_size :: "nat \<Rightarrow> 'a \<Rightarrow> 'a heap \<Rightarrow> bool \<Rightarrow> int \<times> 'a heap" where
  "heap_increase_size epb zero h mem_ok =
     (if hn h + 1 > epb * MAX_BLOCK_COUNT then (-1, h)
      else if \<not> mem_ok then (-1, h)
      else (0, h\<lparr>elems := take (hn h) (elems h @ replicate (hn h) zero) @ [zero], hsize := hsize h + 1\<rparr>))"

function sift_up :: "('a \<Rightarrow> 'b::linorder) \<Rightarrow> 'a \<Rightarrow> nat \<Rightarrow> 'a list \<Rightarrow> 'a list" where
  "sift_up key el i xs =
     (if i > 1 \<and> key (xs ! (i div 2)) > key el
      then sift_up key el (i div 2) (xs[i := xs ! (i div 2)])
      else xs[i := el])"
  by pat_completeness auto
termination by (relation "measure (\<lambda>(key, el, i, xs). i)") auto

declare sift_up.simps [simp del]

definition heap_insert ::
    "('a \<Rightarrow> 'b::linorder) \<Rightarrow> nat \<Rightarrow> 'a \<Rightarrow> 'a heap \<Rightarrow> 'a \<Rightarrow> bool \<Rightarrow> int \<times> 'a heap" where
  "heap_insert key epb zero h el mem_ok =
     (let h1 = h\<lparr>hn := hn h + 1\<rparr>;
          (r, h2) = (if hn h1 \<ge> hsize h1 then heap_increase_size epb zero h1 mem_ok else (0, h1)) in
      if r \<noteq> 0 then (-1, h2\<lparr>hn := hn h2 - 1\<rparr>)
      else if hn h2 = 1 then (0, h2\<lparr>elems := (elems h2)[1 := el]\<rparr>)
      else (0, h2\<lparr>elems := sift_up key el (hn h2) (elems h2)\<rparr>))"

text \<open>\<open>n\<close> is the number of elements left.\<close>

partial_function (option) sift_down ::
    "('a \<Rightarrow> 'b::linorder) \<Rightarrow> 'a \<Rightarrow> nat \<Rightarrow> nat \<Rightarrow> 'a list \<Rightarrow> 'a list option" where
  "sift_down key lst n i xs =
     (if i * 2 \<le> n then
        (let child = 2 * i;
             child = (if child \<noteq> n \<and> key (xs ! (child + 1)) < key (xs ! child) then child + 1 else child) in
         if key lst > key (xs ! child) then sift_down key lst n child (xs[i := xs ! child])
         else Some (xs[i := lst]))
      else Some (xs[i := lst]))"

declare sift_down.simps [code]

text \<open>The returned value, \<open>*first\<close> and the heap.\<close>

definition heap_peek :: "('a \<Rightarrow> 'b::linorder) \<Rightarrow> 'a heap \<Rightarrow> (int \<times> 'a option \<times> 'a heap) option" where
  "heap_peek key h =
     (if hn h = 0 then Some (-1, None, h) else do {
        let first = heap_get_element h 1;
        let lst = heap_get_element h (hn h);
        let h = h\<lparr>hn := hn h - 1\<rparr>;
        xs \<leftarrow> sift_down key lst (hn h) 1 (elems h);
        Some (0, Some first, h\<lparr>elems := xs\<rparr>) })"

definition heap_first :: "'a heap \<Rightarrow> 'a option" where
  "heap_first h = (if hn h = 0 then None else Some (heap_get_element h 1))"

section \<open>Invariant and contents\<close>

definition heap_ord :: "('a \<Rightarrow> 'b::linorder) \<Rightarrow> 'a list \<Rightarrow> nat \<Rightarrow> bool" where
  "heap_ord key xs n \<longleftrightarrow> (\<forall>i. 2 \<le> i \<longrightarrow> i \<le> n \<longrightarrow> key (xs ! (i div 2)) \<le> key (xs ! i))"

definition heap_ok :: "('a \<Rightarrow> 'b::linorder) \<Rightarrow> 'a heap \<Rightarrow> bool" where
  "heap_ok key h \<longleftrightarrow> heap_ord key (elems h) (hn h) \<and> hsize h \<le> length (elems h)
     \<and> hn h \<le> hsize h \<and> (0 < hn h \<longrightarrow> hn h < length (elems h))"

text \<open>The elements at the indices 1 to \<open>n\<close>.\<close>

definition contents :: "'a list \<Rightarrow> nat \<Rightarrow> 'a multiset" where
  "contents xs n = image_mset (\<lambda>i. xs ! i) (mset_set {1..n})"

definition heap_mset :: "'a heap \<Rightarrow> 'a multiset" where
  "heap_mset h = contents (elems h) (hn h)"

lemma contents_0 [simp]: "contents xs 0 = {#}"
  by (simp add: contents_def)

lemma contents_Suc: "contents xs (Suc n) = add_mset (xs ! Suc n) (contents xs n)"
  by (simp add: contents_def atLeastAtMostSuc_conv)

lemma contents_cong: "(\<And>i. 1 \<le> i \<Longrightarrow> i \<le> n \<Longrightarrow> xs ! i = ys ! i) \<Longrightarrow> contents xs n = contents ys n"
  unfolding contents_def by (rule image_mset_cong) auto

lemma contents_upd:
  assumes "1 \<le> i" "i \<le> n" "n < length xs"
  shows "add_mset (xs ! i) (contents (xs[i := v]) n) = add_mset v (contents xs n)"
proof -
  have s: "mset_set {1..n} = add_mset i (mset_set ({1..n} - {i}))"
    using assms by (simp add: mset_set.remove)
  have "image_mset (\<lambda>j. xs[i := v] ! j) (mset_set ({1..n} - {i})) = image_mset (\<lambda>j. xs ! j) (mset_set ({1..n} - {i}))"
    by (rule image_mset_cong) auto
  then show ?thesis unfolding contents_def s using assms by simp
qed

text \<open>Two exchanges of an element make one.\<close>

lemma exchange_trans:
  assumes "add_mset x A = add_mset e B" "add_mset y B = add_mset x C"
  shows "add_mset y A = add_mset e C"
proof -
  have "add_mset x (add_mset y A) = add_mset y (add_mset e B)" using assms(1) by (simp add: add_mset_commute)
  also have "\<dots> = add_mset x (add_mset e C)" using assms(2) by (metis add_mset_commute)
  finally show ?thesis by simp
qed

lemma contents_size: "size (contents xs n) = n"
  by (simp add: contents_def)

section \<open>Insertion\<close>

lemma sift_up_length [simp]: "length (sift_up key el i xs) = length xs"
  by (induction key el i xs rule: sift_up.induct) (subst sift_up.simps, simp)

lemma sift_up_contents:
  assumes "1 \<le> i" "i \<le> n" "n < length xs"
  shows "add_mset (xs ! i) (contents (sift_up key el i xs) n) = add_mset el (contents xs n)"
  using assms
proof (induction key el i xs rule: sift_up.induct)
  case (1 key el i xs)
  show ?case
  proof (cases "i > 1 \<and> key (xs ! (i div 2)) > key el")
    case True
    let ?xs = "xs[i := xs ! (i div 2)]"
    have lt: "i div 2 < i" "1 \<le> i div 2" using True by auto
    have "add_mset (?xs ! (i div 2)) (contents (sift_up key el (i div 2) ?xs) n) = add_mset el (contents ?xs n)"
      using 1 True lt by simp
    moreover have "?xs ! (i div 2) = xs ! (i div 2)" using lt by simp
    moreover have "sift_up key el i xs = sift_up key el (i div 2) ?xs" using True by (subst sift_up.simps) simp
    ultimately show ?thesis using exchange_trans [OF _ contents_upd [OF 1(2-4), of "xs ! (i div 2)"]] by simp
  next
    case False
    then have "sift_up key el i xs = xs[i := el]" by (subst sift_up.simps) auto
    then show ?thesis using contents_upd [OF 1(2-4)] by simp
  qed
qed

text \<open>While the hole moves up, all is in order but for the hole, and the children of the hole
  are not below the parent of the hole.\<close>

lemma sift_up_ord:
  assumes "1 \<le> i" "i \<le> n" "n < length xs"
    and "\<forall>j. 2 \<le> j \<longrightarrow> j \<le> n \<longrightarrow> j \<noteq> i \<longrightarrow> j div 2 \<noteq> i \<longrightarrow> key (xs ! (j div 2)) \<le> key (xs ! j)"
    and "\<forall>j. 2 \<le> j \<longrightarrow> j \<le> n \<longrightarrow> j div 2 = i \<longrightarrow> key el \<le> key (xs ! j)"
    and "\<forall>j. 2 \<le> j \<longrightarrow> j \<le> n \<longrightarrow> j div 2 = i \<longrightarrow> 2 \<le> i \<longrightarrow> key (xs ! (i div 2)) \<le> key (xs ! j)"
  shows "heap_ord key (sift_up key el i xs) n"
  using assms
proof (induction key el i xs rule: sift_up.induct)
  case (1 key el i xs)
  show ?case
  proof (cases "i > 1 \<and> key (xs ! (i div 2)) > key el")
    case True
    let ?xs = "xs[i := xs ! (i div 2)]" and ?h = "i div 2"
    have h: "?h < i" "1 \<le> ?h" using True by auto
    have nth: "?xs ! j = (if j = i then xs ! ?h else xs ! j)" for j using 1(3,4) by auto
    have "heap_ord key (sift_up key el ?h ?xs) n"
    proof (rule 1(1) [OF True])
      show "\<forall>j. 2 \<le> j \<longrightarrow> j \<le> n \<longrightarrow> j \<noteq> ?h \<longrightarrow> j div 2 \<noteq> ?h \<longrightarrow> key (?xs ! (j div 2)) \<le> key (?xs ! j)"
        using 1(5,7) h True by (auto simp: nth)
      show "\<forall>j. 2 \<le> j \<longrightarrow> j \<le> n \<longrightarrow> j div 2 = ?h \<longrightarrow> key el \<le> key (?xs ! j)"
      proof (intro allI impI)
        fix j assume j: "2 \<le> j" "j \<le> n" "j div 2 = ?h"
        show "key el \<le> key (?xs ! j)"
        proof (cases "j = i")
          case False
          have "j div 2 \<noteq> i" using j h by simp
          then have "key (xs ! (j div 2)) \<le> key (xs ! j)" using 1(5) j False by blast
          moreover have "key el \<le> key (xs ! (j div 2))" using True j(3) by (simp add: less_imp_le)
          ultimately have "key el \<le> key (xs ! j)" by (rule order_trans [rotated])
          then show ?thesis using False by (simp add: nth)
        qed (use True in \<open>simp add: nth less_imp_le\<close>)
      qed
      show "\<forall>j. 2 \<le> j \<longrightarrow> j \<le> n \<longrightarrow> j div 2 = ?h \<longrightarrow> 2 \<le> ?h \<longrightarrow> key (?xs ! (?h div 2)) \<le> key (?xs ! j)"
      proof (intro allI impI)
        fix j assume j: "2 \<le> j" "j \<le> n" "j div 2 = ?h" "2 \<le> ?h"
        have hh: "?h div 2 \<noteq> i" "?h div 2 < ?h" using h by auto
        then have up: "key (xs ! (?h div 2)) \<le> key (xs ! ?h)" using 1(5,3) j h by auto
        show "key (?xs ! (?h div 2)) \<le> key (?xs ! j)"
        proof (cases "j = i")
          case False
          have "j div 2 \<noteq> i" using j h by simp
          then have "key (xs ! ?h) \<le> key (xs ! j)" using 1(5) j False by metis
          then show ?thesis using up hh False by (simp add: nth)
        qed (use up hh in \<open>simp add: nth\<close>)
      qed
    qed (use 1(3,4) h in auto)
    moreover have "sift_up key el i xs = sift_up key el ?h ?xs" using True by (subst sift_up.simps) simp
    ultimately show ?thesis by simp
  next
    case False
    then have eq: "sift_up key el i xs = xs[i := el]" by (subst sift_up.simps) auto
    have "key (xs ! (i div 2)) \<le> key el" if "2 \<le> i" using False that by auto
    then show ?thesis unfolding heap_ord_def eq using 1(2-6)
      by (auto simp: nth_list_update)
  qed
qed

lemma heap_insert_ok:
  fixes key :: "'a \<Rightarrow> 'b::linorder"
  assumes ok: "heap_ok key h"
  shows "case heap_insert key epb zero h el mem_ok of (r, h') \<Rightarrow> heap_ok key h' \<and>
     (if r = 0 then heap_mset h' = add_mset el (heap_mset h) else r = -1 \<and> h' = h \<and>
        (\<not> mem_ok \<or> hn h + 2 > epb * MAX_BLOCK_COUNT))"
proof -
  let ?n = "Suc (hn h)"
  have len: "hsize h \<le> length (elems h)" "hn h \<le> hsize h" "0 < hn h \<Longrightarrow> hn h < length (elems h)"
    and ord: "heap_ord key (elems h) (hn h)" using ok by (simp_all add: heap_ok_def)
  show ?thesis
  proof (cases "hsize h \<le> ?n \<and> (?n + 1 > epb * MAX_BLOCK_COUNT \<or> \<not> mem_ok)")
    case True
    then have "heap_insert key epb zero h el mem_ok = (-1, h)"
      by (auto simp: heap_insert_def heap_increase_size_def Let_def)
    then show ?thesis using True ok by auto
  next
    case False
    define xs where "xs = (if hsize h \<le> ?n then take ?n (elems h @ replicate ?n zero) @ [zero] else elems h)"
    define sz where "sz = (if hsize h \<le> ?n then Suc (hsize h) else hsize h)"
    define ys where "ys = (if ?n = 1 then xs[1 := el] else sift_up key el ?n xs)"
    have ins: "heap_insert key epb zero h el mem_ok = (0, \<lparr>hsize = sz, hn = ?n, elems = ys\<rparr>)"
      using False by (auto simp: heap_insert_def heap_increase_size_def Let_def xs_def sz_def ys_def)
    have same: "xs ! i = elems h ! i" if "1 \<le> i" "i \<le> hn h" for i
      using that len(3) by (simp add: xs_def nth_append min_def)
    have lx: "?n < length xs" "sz \<le> length xs" "?n \<le> sz" using len by (auto simp: xs_def sz_def min_def)
    have c: "contents xs (hn h) = heap_mset h" unfolding heap_mset_def by (rule contents_cong) (rule same)
    have up: "ys = sift_up key el ?n xs"
      by (simp add: ys_def) (subst sift_up.simps, simp)
    have "add_mset (xs ! ?n) (contents ys ?n) = add_mset el (contents xs ?n)"
      unfolding up using lx by (intro sift_up_contents) auto
    then have ms: "contents ys ?n = add_mset el (heap_mset h)"
      by (simp add: contents_Suc c)
    have ordx: "key (xs ! (j div 2)) \<le> key (xs ! j)" if "2 \<le> j" "j \<le> hn h" for j
    proof -
      have "1 \<le> j div 2" "j div 2 \<le> hn h" using that by auto
      then show ?thesis using ord that same by (simp add: heap_ord_def)
    qed
    have "heap_ord key ys ?n" unfolding up
    proof (rule sift_up_ord)
      show "\<forall>j. 2 \<le> j \<longrightarrow> j \<le> ?n \<longrightarrow> j \<noteq> ?n \<longrightarrow> j div 2 \<noteq> ?n \<longrightarrow> key (xs ! (j div 2)) \<le> key (xs ! j)"
        using ordx by simp
      have no: "j div 2 \<noteq> ?n" if "2 \<le> j" "j \<le> ?n" for j using that by linarith
      show "\<forall>j. 2 \<le> j \<longrightarrow> j \<le> ?n \<longrightarrow> j div 2 = ?n \<longrightarrow> key el \<le> key (xs ! j)" using no by blast
      show "\<forall>j. 2 \<le> j \<longrightarrow> j \<le> ?n \<longrightarrow> j div 2 = ?n \<longrightarrow> 2 \<le> ?n \<longrightarrow> key (xs ! (?n div 2)) \<le> key (xs ! j)"
        using no by blast
    qed (use lx in auto)
    moreover have "length ys = length xs" by (simp add: up)
    ultimately show ?thesis using ins ms lx by (simp add: heap_ok_def heap_mset_def)
  qed
qed

section \<open>Removal of the least element\<close>

lemma heap_ord_root: "heap_ord key xs n \<Longrightarrow> 1 \<le> i \<Longrightarrow> i \<le> n \<Longrightarrow> key (xs ! 1) \<le> key (xs ! i)"
proof (induction i rule: less_induct)
  case (less i)
  show ?case
  proof (cases "i = 1")
    case False
    then have "key (xs ! 1) \<le> key (xs ! (i div 2))" using less by (intro less.IH) auto
    also have "\<dots> \<le> key (xs ! i)" using less.prems False by (simp add: heap_ord_def)
    finally show ?thesis .
  qed simp
qed

text \<open>The hole at \<open>i\<close> moves down; \<open>n\<close> elements are left and \<open>lst\<close> fills the hole.\<close>

lemma sift_down_ok:
  fixes key :: "'a \<Rightarrow> 'b::linorder"
  assumes "1 \<le> i" "i \<le> n" "n < length xs"
    and "\<forall>j. 2 \<le> j \<longrightarrow> j \<le> n \<longrightarrow> j \<noteq> i \<longrightarrow> j div 2 \<noteq> i \<longrightarrow> key (xs ! (j div 2)) \<le> key (xs ! j)"
    and "2 \<le> i \<longrightarrow> key (xs ! (i div 2)) \<le> key lst"
    and "\<forall>j. 2 \<le> j \<longrightarrow> j \<le> n \<longrightarrow> j div 2 = i \<longrightarrow> 2 \<le> i \<longrightarrow> key (xs ! (i div 2)) \<le> key (xs ! j)"
  shows "\<exists>ys. sift_down key lst n i xs = Some ys \<and> length ys = length xs
     \<and> add_mset (xs ! i) (contents ys n) = add_mset lst (contents xs n) \<and> heap_ord key ys n"
  using assms
proof (induction "n - i" arbitrary: i xs rule: less_induct)
  case less
  note p = less.prems
  have stop: ?case if e: "sift_down key lst n i xs = Some (xs[i := lst])"
    and ch: "\<forall>j. 2 \<le> j \<longrightarrow> j \<le> n \<longrightarrow> j div 2 = i \<longrightarrow> key lst \<le> key (xs ! j)"
  proof -
    have "heap_ord key (xs[i := lst]) n" unfolding heap_ord_def
    proof (intro allI impI)
      fix j assume j: "2 \<le> j" "j \<le> n"
      have nth: "xs[i := lst] ! k = (if k = i then lst else xs ! k)" for k using p(2,3) by auto
      have "j div 2 \<noteq> j" using j by auto
      then show "key (xs[i := lst] ! (j div 2)) \<le> key (xs[i := lst] ! j)"
        using p(4,5) ch j by (auto simp: nth)
    qed
    then show ?thesis using e contents_upd [OF p(1-3), of lst] by simp
  qed
  show ?case
  proof (cases "i * 2 \<le> n")
    case False
    then have "sift_down key lst n i xs = Some (xs[i := lst])" by (subst sift_down.simps) simp
    moreover have "\<forall>j. 2 \<le> j \<longrightarrow> j \<le> n \<longrightarrow> j div 2 = i \<longrightarrow> key lst \<le> key (xs ! j)" using False by auto
    ultimately show ?thesis by (rule stop)
  next
    case True
    define c where "c = (if 2 * i \<noteq> n \<and> key (xs ! (2 * i + 1)) < key (xs ! (2 * i)) then 2 * i + 1 else 2 * i)"
    have c: "c div 2 = i" "2 \<le> c" "c \<le> n" "i < c" using True p(1) by (auto simp: c_def)
    have sib: "key (xs ! c) \<le> key (xs ! j)" if "j div 2 = i" "j \<le> n" for j
    proof -
      have "j = 2 * i \<or> j = 2 * i + 1" using that by auto
      then show ?thesis using that by (auto simp: c_def)
    qed
    have step: "sift_down key lst n i xs = (if key lst > key (xs ! c)
       then sift_down key lst n c (xs[i := xs ! c]) else Some (xs[i := lst]))"
      using True by (subst sift_down.simps) (simp add: c_def Let_def)
    show ?thesis
    proof (cases "key lst > key (xs ! c)")
      case False
      then have "key lst \<le> key (xs ! c)" by simp
      then have "\<forall>j. 2 \<le> j \<longrightarrow> j \<le> n \<longrightarrow> j div 2 = i \<longrightarrow> key lst \<le> key (xs ! j)"
        using sib order_trans by blast
      then show ?thesis using stop step False by simp
    next
      case gt: True
      let ?xs = "xs[i := xs ! c]"
      have nth: "?xs ! j = (if j = i then xs ! c else xs ! j)" for j using p(2,3) by auto
      have "\<exists>ys. sift_down key lst n c ?xs = Some ys \<and> length ys = length ?xs
         \<and> add_mset (?xs ! c) (contents ys n) = add_mset lst (contents ?xs n) \<and> heap_ord key ys n"
      proof (rule less.hyps)
        show "\<forall>j. 2 \<le> j \<longrightarrow> j \<le> n \<longrightarrow> j \<noteq> c \<longrightarrow> j div 2 \<noteq> c \<longrightarrow> key (?xs ! (j div 2)) \<le> key (?xs ! j)"
        proof (intro allI impI)
          fix j assume j: "2 \<le> j" "j \<le> n" "j \<noteq> c" "j div 2 \<noteq> c"
          show "key (?xs ! (j div 2)) \<le> key (?xs ! j)"
          proof (cases "j = i")
            case True
            then have "key (xs ! (i div 2)) \<le> key (xs ! c)" using p(6) c j(1) by blast
            moreover have "j div 2 \<noteq> i" using True j(1) by auto
            ultimately show ?thesis using True by (simp add: nth)
          next
            case False
            then show ?thesis using sib [of j] j p(4) by (auto simp: nth)
          qed
        qed
        show "2 \<le> c \<longrightarrow> key (?xs ! (c div 2)) \<le> key lst" using c gt by (simp add: nth)
        show "\<forall>j. 2 \<le> j \<longrightarrow> j \<le> n \<longrightarrow> j div 2 = c \<longrightarrow> 2 \<le> c \<longrightarrow> key (?xs ! (c div 2)) \<le> key (?xs ! j)"
        proof (intro allI impI)
          fix j assume j: "2 \<le> j" "j \<le> n" "j div 2 = c" "2 \<le> c"
          have "j \<noteq> i" "j div 2 \<noteq> i" using j c by auto
          then have "key (xs ! (j div 2)) \<le> key (xs ! j)" using p(4) j(1,2) by blast
          then show "key (?xs ! (c div 2)) \<le> key (?xs ! j)" using j c \<open>j \<noteq> i\<close> by (simp add: nth)
        qed
      qed (use c p(1-3) in auto)
      then obtain ys where ys: "sift_down key lst n c ?xs = Some ys" "length ys = length xs"
        "add_mset (?xs ! c) (contents ys n) = add_mset lst (contents ?xs n)" "heap_ord key ys n" by auto
      have "?xs ! c = xs ! c" using c by simp
      then have "add_mset (xs ! i) (contents ys n) = add_mset lst (contents xs n)"
        using exchange_trans [OF _ contents_upd [OF p(1-3), of "xs ! c"]] ys(3) by simp
      then show ?thesis using step gt ys by simp
    qed
  qed
qed

lemma heap_peek_ok:
  fixes key :: "'a \<Rightarrow> 'b::linorder"
  assumes ok: "heap_ok key h" and ne: "0 < hn h"
  shows "\<exists>x h'. heap_peek key h = Some (0, Some x, h') \<and> heap_first h = Some x \<and> heap_ok key h'
     \<and> heap_mset h = add_mset x (heap_mset h') \<and> (\<forall>y \<in># heap_mset h. key x \<le> key y)"
proof -
  obtain n where n: "hn h = Suc n" using ne by (cases "hn h") auto
  let ?xs = "elems h" and ?x = "elems h ! 1" and ?l = "elems h ! Suc n"
  have len: "hsize h \<le> length ?xs" "Suc n \<le> hsize h" "Suc n < length ?xs" and ord: "heap_ord key ?xs (Suc n)"
    using ok n by (simp_all add: heap_ok_def)
  have least: "key ?x \<le> key y" if "y \<in># heap_mset h" for y
    using that heap_ord_root [OF ord] by (auto simp: heap_mset_def contents_def n)
  have "\<exists>ys. sift_down key ?l n 1 ?xs = Some ys \<and> length ys = length ?xs \<and> heap_ord key ys n
      \<and> heap_mset h = add_mset ?x (contents ys n)"
  proof (cases "n = 0")
    case True
    then have "sift_down key ?l n 1 ?xs = Some (?xs[1 := ?l])" by (subst sift_down.simps) simp
    then show ?thesis using True by (simp add: heap_ord_def heap_mset_def n contents_Suc)
  next
    case False
    have "\<exists>ys. sift_down key ?l n 1 ?xs = Some ys \<and> length ys = length ?xs
       \<and> add_mset (?xs ! 1) (contents ys n) = add_mset ?l (contents ?xs n) \<and> heap_ord key ys n"
    proof (rule sift_down_ok)
      show "\<forall>j. 2 \<le> j \<longrightarrow> j \<le> n \<longrightarrow> j \<noteq> 1 \<longrightarrow> j div 2 \<noteq> 1 \<longrightarrow> key (?xs ! (j div 2)) \<le> key (?xs ! j)"
        using ord by (simp add: heap_ord_def)
    qed (use False len in auto)
    then show ?thesis by (auto simp: heap_mset_def n contents_Suc)
  qed
  then obtain ys where ys: "sift_down key ?l n 1 ?xs = Some ys" "length ys = length ?xs" "heap_ord key ys n"
    "heap_mset h = add_mset ?x (contents ys n)" by blast
  have "heap_peek key h = Some (0, Some ?x, h\<lparr>hn := n, elems := ys\<rparr>)"
    using n ys(1) by (simp add: heap_peek_def heap_get_element_def Let_def)
  moreover have "heap_first h = Some ?x" using n by (simp add: heap_first_def heap_get_element_def)
  moreover have "heap_ok key (h\<lparr>hn := n, elems := ys\<rparr>)" using ys(2,3) len by (simp add: heap_ok_def)
  ultimately show ?thesis using ys(4) least by (auto simp: heap_mset_def)
qed

section \<open>The contract of a priority queue\<close>

text \<open>The contents are a multiset; taking returns a least element.\<close>

locale priority_queue =
  fixes key :: "'a \<Rightarrow> 'b::linorder"
    and inv :: "'h \<Rightarrow> bool"
    and items :: "'h \<Rightarrow> 'a multiset"
    and put :: "'h \<Rightarrow> 'a \<Rightarrow> 'h option"
    and pop :: "'h \<Rightarrow> ('a \<times> 'h) option"
  assumes put_law: "inv h \<Longrightarrow> put h x = Some h' \<Longrightarrow> inv h' \<and> items h' = add_mset x (items h)"
    and pop_empty: "inv h \<Longrightarrow> items h = {#} \<Longrightarrow> pop h = None"
    and pop_law: "inv h \<Longrightarrow> items h \<noteq> {#} \<Longrightarrow> \<exists>x h'. pop h = Some (x, h') \<and> inv h'
        \<and> items h = add_mset x (items h') \<and> (\<forall>y \<in># items h. key x \<le> key y)"
begin

fun pop_all :: "nat \<Rightarrow> 'h \<Rightarrow> 'a list" where
  "pop_all 0 h = []"
| "pop_all (Suc k) h = (case pop h of None \<Rightarrow> [] | Some (x, h') \<Rightarrow> x # pop_all k h')"

text \<open>Taking everything out sorts.\<close>

lemma pop_all_sorted:
  "inv h \<Longrightarrow> mset (pop_all (size (items h)) h) = items h \<and> sorted (map key (pop_all (size (items h)) h))"
proof (induction "size (items h)" arbitrary: h)
  case (Suc k)
  have "items h \<noteq> {#}" using Suc.hyps(2) by auto
  then obtain x h' where x: "pop h = Some (x, h')" "inv h'" "items h = add_mset x (items h')"
    "\<forall>y \<in># items h. key x \<le> key y" using pop_law [OF Suc.prems] by blast
  then have k: "k = size (items h')" using Suc.hyps(2) by simp
  then have ih: "mset (pop_all k h') = items h'" "sorted (map key (pop_all k h'))"
    using Suc.hyps(1) [OF k x(2)] by simp_all
  have "set (pop_all k h') = set_mset (items h')" using ih(1) by (metis set_mset_mset)
  then have "\<forall>y \<in> set (pop_all k h'). key x \<le> key y" using x(3,4) by simp
  then show ?case using Suc.hyps(2) [symmetric] x ih by simp
qed simp

text \<open>What is put in comes out once it is the least.\<close>

lemma put_then_pop:
  assumes "inv h" "put h x = Some h'" "\<forall>y \<in># items h. key x < key y"
  shows "\<exists>h''. pop h' = Some (x, h'') \<and> items h'' = items h"
proof -
  have h': "inv h'" "items h' = add_mset x (items h)" using put_law [OF assms(1,2)] by simp_all
  then obtain z h'' where z: "pop h' = Some (z, h'')" "items h' = add_mset z (items h'')"
    "\<forall>y \<in># items h'. key z \<le> key y" using pop_law [OF h'(1)] by (metis add_mset_not_empty)
  have "z = x"
  proof (rule ccontr)
    assume "z \<noteq> x"
    then have "z \<in># items h" using h'(2) z(2) by (metis insert_noteq_member)
    then have "key x < key z" using assms(3) by blast
    moreover have "key z \<le> key x" using z(3) h'(2) by simp
    ultimately show False by simp
  qed
  then show ?thesis using z(1,2) h'(2) by simp
qed

end

definition heap_put :: "('a \<Rightarrow> 'b::linorder) \<Rightarrow> nat \<Rightarrow> 'a \<Rightarrow> bool \<Rightarrow> 'a heap \<Rightarrow> 'a \<Rightarrow> 'a heap option" where
  "heap_put key epb zero mem_ok h el =
     (case heap_insert key epb zero h el mem_ok of (r, h') \<Rightarrow> if r = 0 then Some h' else None)"

definition heap_pop :: "('a \<Rightarrow> 'b::linorder) \<Rightarrow> 'a heap \<Rightarrow> ('a \<times> 'a heap) option" where
  "heap_pop key h = (case heap_peek key h of Some (r, Some x, h') \<Rightarrow> Some (x, h') | _ \<Rightarrow> None)"

interpretation pq: priority_queue key "heap_ok key" heap_mset "heap_put key epb zero mem_ok" "heap_pop key"
  for key :: "'a \<Rightarrow> 'b::linorder" and epb :: nat and zero :: 'a and mem_ok :: bool
proof unfold_locales
  fix h x h' assume "heap_ok key h" "heap_put key epb zero mem_ok h x = Some h'"
  then show "heap_ok key h' \<and> heap_mset h' = add_mset x (heap_mset h)"
    using heap_insert_ok [where key = key and h = h and el = x and epb = epb and zero = zero and mem_ok = mem_ok]
    by (auto simp: heap_put_def split: if_splits prod.splits)
next
  fix h :: "'a heap" assume "heap_ok key h" "heap_mset h = {#}"
  then have "hn h = 0" by (metis contents_size heap_mset_def size_empty)
  then show "heap_pop key h = None" by (simp add: heap_pop_def heap_peek_def)
next
  fix h :: "'a heap" assume a: "heap_ok key h" "heap_mset h \<noteq> {#}"
  then have "0 < hn h" by (cases "hn h") (auto simp: heap_mset_def)
  then show "\<exists>x h'. heap_pop key h = Some (x, h') \<and> heap_ok key h' \<and> heap_mset h = add_mset x (heap_mset h')
      \<and> (\<forall>y \<in># heap_mset h. key x \<le> key y)"
    using heap_peek_ok [OF a(1)] by (auto simp: heap_pop_def)
qed

end
