(* ===== verification/Timers.thy ===== *)
theory Timers
  imports Heap
begin

text \<open>
  Timers, random numbers, sequence comparison and loop scores of \<open>stack/pico_stack.c\<close>.  The
  timer heap holds references (\<open>struct pico_timer_ref\<close>) ordered by expiry; the timers
  themselves are in a memory of their own, so that a timer freed twice or used after it was
  freed is the value \<open>None\<close>.  The clock \<open>PICO_TIME_MS ()\<close> is the argument \<open>now\<close>, and what a
  callback does is the argument \<open>fire\<close>, on the whole state including the rest of the program
  (\<open>world\<close>).
\<close>

section \<open>State\<close>

record pico_timer_ref =
  expire :: u64
  tref_id :: u32
  tref_hash :: u32
  tmr :: nat

text \<open>\<open>struct pico_timer\<close>: the callback (0 is NULL) and its argument.\<close>

record pico_timer =
  timer :: nat
  arg :: nat

record 'w tstate =
  theap :: "pico_timer_ref heap"
  tmem :: "nat \<Rightarrow> pico_timer option"
  pico_tick :: u64
  tmr_id :: u32
  world :: 'w

definition zero_tref :: pico_timer_ref where
  "zero_tref = \<lparr>expire = 0, tref_id = 0, tref_hash = 0, tmr = 0\<rparr>"

text \<open>\<open>sizeof (struct pico_timer_ref)\<close> is 24 on a 64-bit host.\<close>

definition timers_per_block :: nat where "timers_per_block = MAX_BLOCK_SIZE div 24"

section \<open>Expiry\<close>

text \<open>\<open>PICO_FREE (t)\<close>.\<close>

definition free_timer :: "nat \<Rightarrow> 'w tstate \<Rightarrow> 'w tstate option" where
  "free_timer t st = (case tmem st t of None \<Rightarrow> None
     | Some _ \<Rightarrow> Some (st\<lparr>tmem := (tmem st)(t := None)\<rparr>))"

partial_function (option) check_timers_loop ::
    "(u64 \<Rightarrow> pico_timer \<Rightarrow> 'w tstate \<Rightarrow> 'w tstate option) \<Rightarrow> 'w tstate \<Rightarrow> 'w tstate option" where
  "check_timers_loop fire st =
     (case heap_first (theap st) of
        None \<Rightarrow> Some st
      | Some tref \<Rightarrow>
          if expire tref < pico_tick st then do {
            st \<leftarrow> (if tmr tref \<noteq> 0 then do {
                    t \<leftarrow> tmem st (tmr tref);
                    st \<leftarrow> (if timer t \<noteq> 0 then fire (pico_tick st) t st else Some st);
                    free_timer (tmr tref) st
                  } else Some st);
            (_, _, h) \<leftarrow> heap_peek expire (theap st);
            check_timers_loop fire (st\<lparr>theap := h\<rparr>)
          } else Some st)"

definition pico_check_timers ::
    "(u64 \<Rightarrow> pico_timer \<Rightarrow> 'w tstate \<Rightarrow> 'w tstate option) \<Rightarrow> u64 \<Rightarrow> 'w tstate \<Rightarrow> 'w tstate option" where
  "pico_check_timers fire now st = check_timers_loop fire (st\<lparr>pico_tick := now\<rparr>)"

declare check_timers_loop.simps [code]

section \<open>Cancelling\<close>

definition set_ref :: "nat \<Rightarrow> pico_timer_ref \<Rightarrow> 'w tstate \<Rightarrow> 'w tstate" where
  "set_ref i r st = st\<lparr>theap := (theap st)\<lparr>elems := (elems (theap st))[i := r]\<rparr>\<rparr>"

fun cancel_loop :: "u32 \<Rightarrow> nat list \<Rightarrow> 'w tstate \<Rightarrow> 'w tstate option" where
  "cancel_loop tid [] st = Some st"
| "cancel_loop tid (i # is) st =
     (let tref = heap_get_element (theap st) i in
      if tref_id tref = tid then
        (if tmr tref \<noteq> 0 then do {
           st \<leftarrow> free_timer (tmr tref) st;
           Some (set_ref i (tref\<lparr>tmr := 0, tref_id := 0\<rparr>) st)
         } else Some st)
      else cancel_loop tid is st)"

definition pico_timer_cancel :: "u32 \<Rightarrow> 'w tstate \<Rightarrow> 'w tstate option" where
  "pico_timer_cancel tid st =
     (if tid = 0 then Some st else cancel_loop tid [1..<Suc (hn (theap st))] st)"

text \<open>
  \<open>tref[i].id = 0\<close> writes \<open>i\<close> elements behind \<open>tref\<close> in its block; a write past the
  allocated elements of the block is an error.
\<close>

definition clear_id_at :: "nat \<Rightarrow> 'w tstate \<Rightarrow> 'w tstate option" where
  "clear_id_at i st =
     (let b = i div timers_per_block; off = i mod timers_per_block + i;
          idx = b * timers_per_block + off; xs = elems (theap st) in
      if off < timers_per_block \<and> idx < length xs
      then Some (set_ref idx ((xs ! idx)\<lparr>tref_id := 0\<rparr>) st) else None)"

fun cancel_hashed_loop :: "u32 \<Rightarrow> nat list \<Rightarrow> 'w tstate \<Rightarrow> 'w tstate option" where
  "cancel_hashed_loop hash [] st = Some st"
| "cancel_hashed_loop hash (i # is) st =
     (let tref = heap_get_element (theap st) i in
      if tref_hash tref = hash \<and> tmr tref \<noteq> 0 then do {
        st \<leftarrow> free_timer (tmr tref) st;
        st \<leftarrow> clear_id_at i (set_ref i (tref\<lparr>tmr := 0\<rparr>) st);
        cancel_hashed_loop hash is st
      } else cancel_hashed_loop hash is st)"

definition pico_timer_cancel_hashed :: "u32 \<Rightarrow> 'w tstate \<Rightarrow> 'w tstate option" where
  "pico_timer_cancel_hashed hash st =
     (if hash = 0 then Some st else cancel_hashed_loop hash [1..<Suc (hn (theap st))] st)"

section \<open>Adding\<close>

text \<open>\<open>heap_ok\<close> is whether the heap can grow; the result is the id and the state.\<close>

definition pico_timer_ref_add ::
    "u64 \<Rightarrow> u64 \<Rightarrow> nat \<Rightarrow> u32 \<Rightarrow> u32 \<Rightarrow> bool \<Rightarrow> 'w tstate \<Rightarrow> (u32 \<times> 'w tstate) option" where
  "pico_timer_ref_add now ex t tid hash heap_mem st =
     (let tref = \<lparr>expire = now + ex, tref_id = tid, tref_hash = hash, tmr = t\<rparr> in
      case heap_insert expire timers_per_block zero_tref (theap st) tref heap_mem of
        (r, h) \<Rightarrow>
          if r < 0 then map_option (\<lambda>st. (0, st)) (free_timer t (st\<lparr>theap := h\<rparr>))
          else Some (tid, st\<lparr>theap := h\<rparr>))"

text \<open>\<open>t_addr\<close> is the address the allocator returns for the timer, 0 when it fails.\<close>

definition pico_timer_create :: "nat \<Rightarrow> nat \<Rightarrow> nat \<Rightarrow> 'w tstate \<Rightarrow> nat \<times> 'w tstate" where
  "pico_timer_create tm a t_addr st =
     (if t_addr = 0 then (0, st) else (t_addr, st\<lparr>tmem := (tmem st)(t_addr \<mapsto> \<lparr>timer = tm, arg = a\<rparr>)\<rparr>))"

definition pico_timer_add_hashed ::
    "u64 \<Rightarrow> u64 \<Rightarrow> nat \<Rightarrow> nat \<Rightarrow> u32 \<Rightarrow> nat \<Rightarrow> bool \<Rightarrow> 'w tstate \<Rightarrow> (u32 \<times> 'w tstate) option" where
  "pico_timer_add_hashed now ex tm a hash t_addr heap_mem st =
     (let (t, st) = pico_timer_create tm a t_addr st;
          st = (if tmr_id st = 0 then st\<lparr>tmr_id := tmr_id st + 1\<rparr> else st) in
      if t = 0 then Some (0, st)
      else pico_timer_ref_add now ex t (tmr_id st) hash heap_mem (st\<lparr>tmr_id := tmr_id st + 1\<rparr>))"

definition pico_timer_add ::
    "u64 \<Rightarrow> u64 \<Rightarrow> nat \<Rightarrow> nat \<Rightarrow> nat \<Rightarrow> bool \<Rightarrow> 'w tstate \<Rightarrow> (u32 \<times> 'w tstate) option" where
  "pico_timer_add now ex tm a t_addr heap_mem st =
     (let (t, st) = pico_timer_create tm a t_addr st;
          st = (if tmr_id st = 0 then st\<lparr>tmr_id := tmr_id st + 1\<rparr> else st) in
      if t = 0 then Some (0, st)
      else pico_timer_ref_add now ex t (tmr_id st) 0 heap_mem (st\<lparr>tmr_id := tmr_id st + 1\<rparr>))"

section \<open>Random numbers, sequence numbers\<close>

definition pico_rand_feed :: "u32 \<Rightarrow> u32 \<Rightarrow> u32" where
  "pico_rand_feed feed seed =
     (if feed = 0 then seed else (seed * 1664525 + 1013904223) XOR (NOT feed))"

definition pico_rand :: "u64 \<Rightarrow> u32 \<Rightarrow> u32" where
  "pico_rand tick seed = pico_rand_feed (ucast tick) seed"

text \<open>The result is the mathematical value of the C expression; a value that is no \<open>int32_t\<close>
  is an overflow.\<close>

definition pico_seq_compare :: "u32 \<Rightarrow> u32 \<Rightarrow> int" where
  "pico_seq_compare a b =
     (let thresh = drop_bit 1 (- 1 :: u32) in
      if a > b then (if a - b > thresh then - sint (b - a) else sint (a - b))
      else if a < b then (if b - a > thresh then sint (a - b) else - sint (b - a))
      else 0)"

fun pico_to_lowercase :: "u8 list \<Rightarrow> u8 list option" where
  "pico_to_lowercase [] = None"
| "pico_to_lowercase (c # str) =
     (if c = 0 then Some (c # str)
      else map_option ((#) (if sint c \<le> 90 \<and> 65 \<le> sint c then c + 32 else c)) (pico_to_lowercase str))"

section \<open>Loop scores\<close>

definition PROTO_DEF_NR :: nat where "PROTO_DEF_NR = 11"
definition PROTO_DEF_AVG_NR :: nat where "PROTO_DEF_AVG_NR = 4"
definition PROTO_MIN_SCORE :: int where "PROTO_MIN_SCORE = 32"
definition PROTO_MAX_SCORE :: int where "PROTO_MAX_SCORE = 128"
definition PROTO_MAX_LOOP :: int where "PROTO_MAX_LOOP = 128 * 8"

text \<open>One protocol: its score, index and averages, and the running total.  C division
  truncates; the operands are not negative here.\<close>

definition calc_score_step ::
    "int \<Rightarrow> int \<Rightarrow> nat \<Rightarrow> int list \<Rightarrow> int \<Rightarrow> int \<times> nat \<times> int list \<times> int" where
  "calc_score_step tot sc idx av r =
     (if r < sc then
        (let temp = sc - r;
             j = (if idx \<ge> PROTO_DEF_AVG_NR then 0 else idx);
             av = av[j := temp]; idx = j + 1 in
         if r = 0 \<and> sc * 2 \<le> PROTO_MAX_SCORE \<and> tot + sc * 2 < PROTO_MAX_LOOP
         then (sc * 2, idx, av, tot + sc * 2)
         else
           (let sm = sum_list av div 4 in
            if sm > sc - sc div 4 \<and> sc * 2 \<le> PROTO_MAX_SCORE \<and> tot + sc div 2 < PROTO_MAX_LOOP
            then (sc * 2, idx, av, tot + sc * 2)
            else if sm < sc div 4 \<and> sc div 2 \<ge> PROTO_MIN_SCORE
            then (sc div 2, idx, av, tot + sc div 2)
            else (sc, idx, av, tot + sc)))
      else if r = sc then
        (let j = (if idx \<ge> PROTO_DEF_AVG_NR then 0 else idx);
             av = av[j := 0]; idx = j + 1; sm = sum_list av div 2 in
         if sm = 0 \<and> sc div 2 \<ge> PROTO_MIN_SCORE
         then (sc div 2, idx, replicate PROTO_DEF_AVG_NR (sc div 2), tot + sc div 2)
         else (sc, idx, av, tot))
      else (sc, idx, av, tot))"

fun calc_score_loop ::
    "int \<Rightarrow> int list \<Rightarrow> nat list \<Rightarrow> int list list \<Rightarrow> int list \<Rightarrow> int list \<times> nat list \<times> int list list \<times> int" where
  "calc_score_loop tot (s # ss) (i # is) (a # as) (r # rs) =
     (let (s', i', a', tot') = calc_score_step tot s i a r;
          (ss', is', as', t) = calc_score_loop tot' ss is as rs
      in (s' # ss', i' # is', a' # as', t))"
| "calc_score_loop tot ss is as rs = (ss, is, as, tot)"

definition calc_score ::
    "int list \<Rightarrow> nat list \<Rightarrow> int list list \<Rightarrow> int list \<Rightarrow> int list \<times> nat list \<times> int list list" where
  "calc_score score index avg ret =
     (let (ss, is, as, tot) = calc_score_loop 0 score index avg ret in (ss, is, as))"

section \<open>Sequence numbers\<close>

text \<open>The difference as a signed number.\<close>

lemma sint_diff_u32:
  "sint (a - b :: u32) = (let d = uint a - uint b in
     if d < - (2 ^ 31) then d + 2 ^ 32 else if d < 2 ^ 31 then d else d - 2 ^ 32)"
proof -
  have "uint a < 2 ^ 32" "uint b < 2 ^ 32" "0 \<le> uint a" "0 \<le> uint b"
    using uint_lt2p [of a] uint_lt2p [of b] by simp_all
  then show ?thesis by (simp add: sint_u32 uint_sub_if' Let_def)
qed

lemma pico_seq_compare_sint:
  assumes "a - b \<noteq> 0x80000000"
  shows "pico_seq_compare a b = sint (a - b)"
proof -
  have ab: "uint a < 2 ^ 32" "uint b < 2 ^ 32" "0 \<le> uint a" "0 \<le> uint b"
    using uint_lt2p [of a] uint_lt2p [of b] by simp_all
  have th: "uint (drop_bit 1 (- 1 :: u32)) = 2 ^ 31 - 1" by code_simp
  have ne: "uint (a - b) \<noteq> 2 ^ 31"
  proof
    assume "uint (a - b) = 2 ^ 31"
    then have "word_of_int (uint (a - b)) = (word_of_int (2 ^ 31) :: u32)" by simp
    then show False using assms by simp
  qed
  show ?thesis using ab th ne
    by (auto simp: pico_seq_compare_def Let_def sint_diff_u32 word_less_def uint_sub_if' split: if_splits)
qed

section \<open>Expiry fires what is due\<close>

text \<open>Every live reference has a timer of its own.\<close>

definition refs_ok :: "pico_timer_ref multiset \<Rightarrow> (nat \<Rightarrow> pico_timer option) \<Rightarrow> bool" where
  "refs_ok M mem \<longleftrightarrow> (\<forall>r \<in># M. tmr r \<noteq> 0 \<longrightarrow> mem (tmr r) \<noteq> None)
     \<and> (\<forall>t. t \<noteq> 0 \<longrightarrow> size (filter_mset (\<lambda>r. tmr r = t) M) \<le> 1)"

lemma refs_ok_remove:
  assumes "refs_ok (add_mset r M) mem"
  shows "refs_ok M (if tmr r \<noteq> 0 then mem(tmr r := None) else mem)"
proof -
  have one: "size (filter_mset (\<lambda>s. tmr s = t) M) \<le> 1" if "t \<noteq> 0" for t
  proof -
    have "size (filter_mset (\<lambda>s. tmr s = t) M) \<le> size (filter_mset (\<lambda>s. tmr s = t) (add_mset r M))" by simp
    also have "\<dots> \<le> 1" using assms that unfolding refs_ok_def by blast
    finally show ?thesis .
  qed
  have diff: "tmr s \<noteq> tmr r" if s: "s \<in># M" "tmr r \<noteq> 0" for s
  proof
    assume "tmr s = tmr r"
    then have "0 < size (filter_mset (\<lambda>q. tmr q = tmr r) M)" using s(1) by (auto simp: nonempty_has_size [symmetric] filter_mset_eq_mempty_iff)
    then have "1 < size (filter_mset (\<lambda>q. tmr q = tmr r) (add_mset r M))" by simp
    then show False using assms s(2) unfolding refs_ok_def by (metis not_le)
  qed
  show ?thesis using assms one diff by (auto simp: refs_ok_def)
qed

definition fired_world :: "(u64 \<Rightarrow> pico_timer \<Rightarrow> 'w \<Rightarrow> 'w) \<Rightarrow> u64 \<Rightarrow> (nat \<Rightarrow> pico_timer option) \<Rightarrow>
    pico_timer_ref list \<Rightarrow> 'w \<Rightarrow> 'w" where
  "fired_world g now mem refs w = fold (\<lambda>r w. case mem (tmr r) of
      Some t \<Rightarrow> if tmr r \<noteq> 0 \<and> timer t \<noteq> 0 then g now t w else w | None \<Rightarrow> w) refs w"

lemma fired_world_cong:
  "(\<And>r. r \<in> set refs \<Longrightarrow> tmr r \<noteq> 0 \<Longrightarrow> mem' (tmr r) = mem (tmr r)) \<Longrightarrow>
   fired_world g now mem' refs w = fired_world g now mem refs w"
  unfolding fired_world_def by (rule fold_cong) (auto split: option.splits)

text \<open>The timers of the references \<open>M\<close> that are due are freed.\<close>

definition freed_due :: "u64 \<Rightarrow> pico_timer_ref multiset \<Rightarrow> (nat \<Rightarrow> pico_timer option) \<Rightarrow> nat \<Rightarrow> pico_timer option" where
  "freed_due now M mem a = (if a \<noteq> 0 \<and> (\<exists>r \<in># M. expire r < now \<and> tmr r = a) then None else mem a)"

lemma freed_due_none: "\<forall>r \<in># M. \<not> expire r < now \<Longrightarrow> freed_due now M mem = mem"
  by (auto simp: freed_due_def fun_eq_iff)

lemma freed_due_step:
  "expire r < now \<Longrightarrow> freed_due now (add_mset r M) mem = freed_due now M (if tmr r \<noteq> 0 then mem(tmr r := None) else mem)"
  by (auto simp: freed_due_def fun_eq_iff)

lemma check_timers_loop_ok:
  assumes "heap_ok expire (theap st)" "refs_ok (heap_mset (theap st)) (tmem st)"
    and g: "\<And>tick t s. fire tick t s = Some (s\<lparr>world := g tick t (world s)\<rparr>)"
  shows "\<exists>refs st'. check_timers_loop fire st = Some st' \<and> heap_ok expire (theap st')
     \<and> mset refs = filter_mset (\<lambda>r. expire r < pico_tick st) (heap_mset (theap st))
     \<and> heap_mset (theap st') = filter_mset (\<lambda>r. \<not> expire r < pico_tick st) (heap_mset (theap st))
     \<and> sorted (map expire refs) \<and> world st' = fired_world g (pico_tick st) (tmem st) refs (world st)
     \<and> refs_ok (heap_mset (theap st')) (tmem st') \<and> tmem st' = freed_due (pico_tick st) (heap_mset (theap st)) (tmem st)"
  using assms(1,2)
proof (induction "hn (theap st)" arbitrary: st)
  case 0
  then have none: "heap_first (theap st) = None" "heap_mset (theap st) = {#}"
    by (simp_all add: heap_first_def heap_mset_def)
  have "check_timers_loop fire st = Some st" using none(1) by (subst check_timers_loop.simps) simp
  moreover have "tmem st = freed_due (pico_tick st) (heap_mset (theap st)) (tmem st)"
    by (rule freed_due_none [symmetric]) (simp add: none(2))
  ultimately show ?case using 0 by (intro exI [of _ "[]"] exI [of _ st]) (simp add: none(2) fired_world_def)
next
  case (Suc n)
  obtain r h' where h': "heap_peek expire (theap st) = Some (0, Some r, h')" "heap_first (theap st) = Some r"
    "heap_ok expire h'" "heap_mset (theap st) = add_mset r (heap_mset h')"
    "\<forall>y \<in># heap_mset (theap st). expire r \<le> expire y"
    using heap_peek_ok [OF Suc.prems(1)] Suc.hyps(2) by auto
  show ?case
  proof (cases "expire r < pico_tick st")
    case False
    then have stop: "check_timers_loop fire st = Some st" using h'(2) by (subst check_timers_loop.simps) simp
    have late: "\<not> expire y < pico_tick st" if "y \<in># heap_mset (theap st)" for y
      using h'(5) that False by (metis le_less_trans)
    then have "filter_mset (\<lambda>r. expire r < pico_tick st) (heap_mset (theap st)) = {#}"
      "filter_mset (\<lambda>r. \<not> expire r < pico_tick st) (heap_mset (theap st)) = heap_mset (theap st)"
      using filter_mset_cong [of "heap_mset (theap st)" "heap_mset (theap st)"
          "\<lambda>r. \<not> expire r < pico_tick st" "\<lambda>_. True"] by simp_all
    then show ?thesis using stop Suc.prems freed_due_none [of "heap_mset (theap st)"] late
      by (auto simp: fired_world_def intro!: exI [of _ "[]"])
  next
    case True
    let ?mem = "if tmr r \<noteq> 0 then (tmem st)(tmr r := None) else tmem st"
    let ?w = "fired_world g (pico_tick st) (tmem st) [r] (world st)"
    let ?st = "st\<lparr>world := ?w, tmem := ?mem, theap := h'\<rparr>"
    have live: "tmr r \<noteq> 0 \<Longrightarrow> \<exists>t. tmem st (tmr r) = Some t"
      using Suc.prems(2) h'(4) by (auto simp: refs_ok_def)
    have step: "check_timers_loop fire st = check_timers_loop fire ?st"
    proof (cases "tmr r = 0")
      case True
      have "?w = world st" using True by (simp add: fired_world_def split: option.splits)
      then show ?thesis using True h'(1,2) \<open>expire r < pico_tick st\<close>
        by (subst check_timers_loop.simps) simp
    next
      case False
      then obtain t where "tmem st (tmr r) = Some t" using live by blast
      then show ?thesis using False h'(1,2) True g
        by (subst check_timers_loop.simps) (auto simp: free_timer_def fired_world_def)
    qed
    have n: "n = hn (theap ?st)" using Suc.hyps(2) arg_cong [OF h'(4), of size]
      by (simp add: heap_mset_def contents_size)
    have rok: "refs_ok (heap_mset (theap ?st)) (tmem ?st)"
      using refs_ok_remove [of r "heap_mset h'" "tmem st"] Suc.prems(2) h'(4) by simp
    obtain refs st' where ih: "check_timers_loop fire ?st = Some st'" "heap_ok expire (theap st')"
      "mset refs = filter_mset (\<lambda>r. expire r < pico_tick st) (heap_mset h')"
      "heap_mset (theap st') = filter_mset (\<lambda>r. \<not> expire r < pico_tick st) (heap_mset h')"
      "sorted (map expire refs)" "world st' = fired_world g (pico_tick st) ?mem refs ?w"
      "refs_ok (heap_mset (theap st')) (tmem st')" "tmem st' = freed_due (pico_tick st) (heap_mset h') ?mem"
      using Suc.hyps(1) [OF n _ rok] h'(3) by auto
    have sub: "q \<in># heap_mset h'" if "q \<in> set refs" for q
    proof -
      have "q \<in># mset refs" using that by simp
      then show ?thesis unfolding ih(3) by simp
    qed
    have same: "?mem (tmr q) = tmem st (tmr q)" if "q \<in> set refs" "tmr q \<noteq> 0" for q
      using rok sub [OF that(1)] that(2) by (auto simp: refs_ok_def split: if_splits)
    have w: "world st' = fired_world g (pico_tick st) (tmem st) (r # refs) (world st)"
    proof -
      have "world st' = fired_world g (pico_tick st) (tmem st) refs ?w"
        unfolding ih(6) by (rule fired_world_cong) (rule same)
      then show ?thesis by (simp add: fired_world_def)
    qed
    have sorted: "sorted (map expire (r # refs))" using ih(5) sub h'(4,5) by simp
    have "tmem st' = freed_due (pico_tick st) (heap_mset (theap st)) (tmem st)"
      unfolding h'(4) ih(8) by (rule freed_due_step [OF True, symmetric])
    then show ?thesis using step ih(1,2,3,4,7) w sorted h'(4) True
      by (intro exI [of _ "r # refs"] exI [of _ st']) simp
  qed
qed

section \<open>Loop scores stay in bounds\<close>

definition score_ok :: "int \<Rightarrow> nat \<Rightarrow> int list \<Rightarrow> bool" where
  "score_ok sc idx av \<longleftrightarrow> sc \<in> {32, 64, 128} \<and> idx \<le> PROTO_DEF_AVG_NR \<and> length av = PROTO_DEF_AVG_NR"

lemma calc_score_step_ok:
  assumes "score_ok sc idx av"
  shows "case calc_score_step tot sc idx av r of (sc', idx', av', tot') \<Rightarrow> score_ok sc' idx' av'"
proof -
  have len: "length av = 4" "idx \<le> 4" "sc \<in> {32, 64, 128}"
    using assms by (simp_all add: score_ok_def PROTO_DEF_AVG_NR_def)
  define P where "P = (\<lambda>(sc' :: int, idx' :: nat, av' :: int list, tot' :: int). score_ok sc' idx' av')"
  have P: "P (s, i, a, x) \<longleftrightarrow> s \<in> {32, 64, 128} \<and> i \<le> 4 \<and> length a = 4" for s i a x
    by (simp add: P_def score_ok_def PROTO_DEF_AVG_NR_def)
  have dbl: "sc * 2 \<le> PROTO_MAX_SCORE \<Longrightarrow> sc * 2 \<in> {32, 64, 128}"
    and hlv: "sc div 2 \<ge> PROTO_MIN_SCORE \<Longrightarrow> sc div 2 \<in> {32, 64, 128}"
    using len(3) by (auto simp: PROTO_MAX_SCORE_def PROTO_MIN_SCORE_def)
  have idx: "(if idx \<ge> PROTO_DEF_AVG_NR then 0 else idx) + 1 \<le> 4" by (simp add: PROTO_DEF_AVG_NR_def)
  have "P (calc_score_step tot sc idx av r)"
    unfolding calc_score_step_def Let_def
    by (simp only: P if_split length_list_update length_replicate)
       (use len dbl hlv idx in \<open>auto simp: PROTO_DEF_AVG_NR_def\<close>)
  then show ?thesis by (simp add: P_def)
qed

lemma calc_score_loop_ok:
  assumes "length is = length ss" "length as = length ss" "length rs = length ss"
    and "\<forall>k < length ss. score_ok (ss ! k) (is ! k) (as ! k)"
  shows "case calc_score_loop tot ss is as rs of (ss', is', as', t) \<Rightarrow>
     length ss' = length ss \<and> length is' = length ss \<and> length as' = length ss
     \<and> (\<forall>k < length ss. score_ok (ss' ! k) (is' ! k) (as' ! k))"
  using assms
proof (induction tot ss "is" as rs rule: calc_score_loop.induct)
  case (1 tot s ss i "is" a as r rs)
  obtain s' i' a' tot' where st: "calc_score_step tot s i a r = (s', i', a', tot')" by (metis prod_cases4)
  obtain ss' is' as' t where lp: "calc_score_loop tot' ss is as rs = (ss', is', as', t)" by (metis prod_cases4)
  have "score_ok s i a" using 1(5) by (auto dest!: spec [of _ 0])
  then have s': "score_ok s' i' a'" using calc_score_step_ok [where tot = tot and r = r] st by fastforce
  have "score_ok (ss ! k) (is ! k) (as ! k)" if "k < length ss" for k
    using 1(5) [rule_format, of "Suc k"] that by simp
  then have "length ss' = length ss \<and> length is' = length ss \<and> length as' = length ss
     \<and> (\<forall>k < length ss. score_ok (ss' ! k) (is' ! k) (as' ! k))"
    using 1(1) [OF st [symmetric] refl refl refl] 1(2,3,4) lp by simp
  then show ?case using st lp s' by (auto simp: nth_Cons split: nat.splits)
qed auto

section \<open>Adding and cancelling\<close>

lemma pico_timer_add_hashed_ok:
  assumes ok: "heap_ok expire (theap st)" and rok: "refs_ok (heap_mset (theap st)) (tmem st)"
    and t: "t_addr \<noteq> 0" "tmem st t_addr = None" and mem: "heap_mem" "hn (theap st) + 2 \<le> timers_per_block * MAX_BLOCK_COUNT"
  shows "\<exists>i st'. pico_timer_add_hashed now ex tm a hash t_addr heap_mem st = Some (i, st') \<and> i \<noteq> 0
     \<and> heap_ok expire (theap st') \<and> refs_ok (heap_mset (theap st')) (tmem st')
     \<and> heap_mset (theap st') = add_mset \<lparr>expire = now + ex, tref_id = i, tref_hash = hash, tmr = t_addr\<rparr> (heap_mset (theap st))
     \<and> tmem st' = (tmem st)(t_addr \<mapsto> \<lparr>timer = tm, arg = a\<rparr>) \<and> world st' = world st"
proof -
  define i where "i = (if tmr_id st = 0 then 1 else tmr_id st)"
  let ?ref = "\<lparr>expire = now + ex, tref_id = i, tref_hash = hash, tmr = t_addr\<rparr>"
  let ?mem = "(tmem st)(t_addr \<mapsto> \<lparr>timer = tm, arg = a\<rparr>)"
  obtain r h where ins: "heap_insert expire timers_per_block zero_tref (theap st) ?ref heap_mem = (r, h)" by force
  then have h: "heap_ok expire h" "r = 0" "heap_mset h = add_mset ?ref (heap_mset (theap st))"
    using heap_insert_ok [OF ok, where epb = timers_per_block and zero = zero_tref and el = ?ref and mem_ok = heap_mem] mem
    by (auto split: if_splits)
  have add: "pico_timer_add_hashed now ex tm a hash t_addr heap_mem st
      = Some (i, st\<lparr>tmem := ?mem, tmr_id := i + 1, theap := h\<rparr>)"
    using t ins h(2) by (auto simp: pico_timer_add_hashed_def pico_timer_create_def pico_timer_ref_add_def i_def Let_def)
  have fresh: "tmr q \<noteq> t_addr" if "q \<in># heap_mset (theap st)" for q
    using that rok t by (auto simp: refs_ok_def)
  have "refs_ok (heap_mset h) ?mem"
  proof -
    have "filter_mset (\<lambda>q. tmr q = t_addr) (heap_mset (theap st)) = {#}" using fresh by auto
    then show ?thesis using rok fresh t by (auto simp: refs_ok_def h(3))
  qed
  then show ?thesis using add h by (auto simp: i_def)
qed

lemma cancel_loop_ok:
  assumes "\<forall>i \<in> set is. tmr (elems (theap st) ! i) \<noteq> 0 \<longrightarrow> tmem st (tmr (elems (theap st) ! i)) \<noteq> None"
  shows "\<exists>st'. cancel_loop t is st = Some st' \<and>
     (st' = st \<and> (\<forall>i \<in> set is. tref_id (elems (theap st) ! i) \<noteq> t)
      \<or> (\<exists>i \<in> set is. tref_id (elems (theap st) ! i) = t \<and>
           (if tmr (elems (theap st) ! i) = 0 then st' = st
            else st' = set_ref i ((elems (theap st) ! i)\<lparr>tmr := 0, tref_id := 0\<rparr>)
                   (st\<lparr>tmem := (tmem st)(tmr (elems (theap st) ! i) := None)\<rparr>))))"
  using assms
proof (induction "is")
  case (Cons i "is")
  show ?case
  proof (cases "tref_id (elems (theap st) ! i) = t")
    case True
    then show ?thesis using Cons.prems by (auto simp: heap_get_element_def free_timer_def Let_def)
  next
    case False
    then show ?thesis using Cons by (auto simp: heap_get_element_def Let_def)
  qed
qed simp

section \<open>Properties\<close>

text \<open>Away from a distance of exactly \<open>2\<^sup>3\<^sup>1\<close>, \<open>pico_seq_compare\<close> is the wrapped difference of
  two sequence numbers read as a signed number; it never overflows there and is
  antisymmetric.\<close>

theorem pico_seq_compare_is_signed_difference:
  assumes "a - b \<noteq> 0x80000000"
  shows "pico_seq_compare a b = sint (a - b) \<and> pico_seq_compare b a = - pico_seq_compare a b"
proof -
  have "b - a \<noteq> 0x80000000"
  proof
    assume "b - a = 0x80000000"
    then have "- (b - a) = - 0x80000000" by simp
    then show False using assms by simp
  qed
  then have "pico_seq_compare b a = sint (b - a)" by (rule pico_seq_compare_sint)
  moreover have "sint (b - a) = - sint (a - b)"
  proof -
    have "uint (a - b) \<noteq> 2 ^ 31"
    proof
      assume "uint (a - b) = 2 ^ 31"
      then have "word_of_int (uint (a - b)) = (word_of_int (2 ^ 31) :: u32)" by simp
      then show False using assms by simp
    qed
    moreover have "uint a < 2 ^ 32" "uint b < 2 ^ 32" "0 \<le> uint a" "0 \<le> uint b"
      using uint_lt2p [of a] uint_lt2p [of b] by simp_all
    ultimately show ?thesis by (auto simp: sint_diff_u32 Let_def uint_sub_if' word_le_def split: if_splits)
  qed
  ultimately show ?thesis using pico_seq_compare_sint [OF assms] by simp
qed

theorem pico_seq_compare_is_signed_difference_witness:
  "pico_seq_compare 5 0xFFFFFFF0 = 21 \<and> pico_seq_compare 0xFFFFFFF0 5 = - 21"
proof -
  have "(5 :: u32) - 0xFFFFFFF0 \<noteq> 0x80000000" by code_simp
  from pico_seq_compare_is_signed_difference [OF this]
  show ?thesis by simp
qed

text \<open>At a distance of exactly \<open>2\<^sup>3\<^sup>1\<close> the comparison negates the least \<open>int32_t\<close>: the result
  overflows in one direction, and both directions say that the first number is smaller or
  the value is outside the type.\<close>

theorem pico_seq_compare_overflow:
  "pico_seq_compare 0x80000000 0 = 2 ^ 31 \<and> pico_seq_compare 0 0x80000000 = - (2 ^ 31)"
  by code_simp

text \<open>C37: \<open>pico_check_timers\<close> returns, fires exactly the timers whose expiry lies before the clock, each once and
  in the order of expiry, frees their memory and no other, and leaves all others in the heap; the callbacks may do
  anything to the rest of the program, but add and cancel no timers.\<close>

theorem pico_check_timers_fires_due:
  assumes "heap_ok expire (theap st)" "refs_ok (heap_mset (theap st)) (tmem st)"
    and "\<And>tick t s. fire tick t s = Some (s\<lparr>world := g tick t (world s)\<rparr>)"
  shows "\<exists>refs st'. pico_check_timers fire now st = Some st' \<and> heap_ok expire (theap st')
     \<and> mset refs = filter_mset (\<lambda>r. expire r < now) (heap_mset (theap st))
     \<and> heap_mset (theap st') = filter_mset (\<lambda>r. \<not> expire r < now) (heap_mset (theap st))
     \<and> sorted (map expire refs) \<and> world st' = fired_world g now (tmem st) refs (world st)
     \<and> refs_ok (heap_mset (theap st')) (tmem st')
     \<and> (\<forall>a. tmem st' a = (if a \<noteq> 0 \<and> (\<exists>r \<in># heap_mset (theap st). expire r < now \<and> tmr r = a) then None else tmem st a))"
  using check_timers_loop_ok [of "st\<lparr>pico_tick := now\<rparr>" fire g] assms
  by (simp add: pico_check_timers_def freed_due_def fun_eq_iff)

definition empty_timers :: "(nat list) tstate" where
  "empty_timers = \<lparr>theap = heap_init, tmem = Map.empty, pico_tick = 0, tmr_id = 0, world = []\<rparr>"

lemma empty_timers_ok: "heap_ok expire (theap empty_timers)" "heap_mset (theap empty_timers) = {#}"
  by (simp_all add: empty_timers_def heap_init_def heap_ok_def heap_ord_def heap_mset_def)

lemma empty_timers_refs: "refs_ok (heap_mset (theap empty_timers)) (tmem empty_timers)"
  by (simp add: empty_timers_ok refs_ok_def)

theorem pico_check_timers_fires_due_witness:
  "\<exists>i st st'. pico_timer_add_hashed 100 20 1 9 5 4 True empty_timers = Some (i, st)
     \<and> pico_check_timers (\<lambda>tick t s. Some (s\<lparr>world := world s @ [arg t]\<rparr>)) 121 st = Some st'
     \<and> heap_mset (theap st') = {#} \<and> world st' = [9] \<and> tmem st' 4 = None"
proof -
  let ?r = "\<lambda>i. \<lparr>expire = 120, tref_id = i, tref_hash = 5, tmr = 4\<rparr>"
  have room: "hn (theap empty_timers) + 2 \<le> timers_per_block * MAX_BLOCK_COUNT"
    "tmem empty_timers 4 = None" by code_simp+
  obtain i st where st: "pico_timer_add_hashed 100 20 1 9 5 4 True empty_timers = Some (i, st)"
    "heap_ok expire (theap st)" "refs_ok (heap_mset (theap st)) (tmem st)" "heap_mset (theap st) = {#?r i#}"
    "tmem st = [4 \<mapsto> \<lparr>timer = 1, arg = 9\<rparr>]" "world st = []"
    using pico_timer_add_hashed_ok [OF empty_timers_ok(1) empty_timers_refs _ room(2) TrueI room(1),
        of 100 20 1 9 5] empty_timers_ok(2) by (auto simp: empty_timers_def)
  obtain refs st' where st': "pico_check_timers (\<lambda>tick t s. Some (s\<lparr>world := world s @ [arg t]\<rparr>)) 121 st = Some st'"
    "mset refs = filter_mset (\<lambda>r. expire r < 121) (heap_mset (theap st))"
    "heap_mset (theap st') = filter_mset (\<lambda>r. \<not> expire r < 121) (heap_mset (theap st))"
    "world st' = fired_world (\<lambda>tick t w. w @ [arg t]) 121 (tmem st) refs (world st)"
    "\<forall>a. tmem st' a = (if a \<noteq> 0 \<and> (\<exists>r \<in># heap_mset (theap st). expire r < 121 \<and> tmr r = a) then None else tmem st a)"
    using pico_check_timers_fires_due [OF st(2,3), where now = 121
        and fire = "\<lambda>tick t s. Some (s\<lparr>world := world s @ [arg t]\<rparr>)" and g = "\<lambda>tick t w. w @ [arg t]"]
    by blast
  have "mset refs = {#?r i#}" using st'(2) st(4) by simp
  then have "refs = [?r i]" by simp
  then show ?thesis using st st' by (simp add: fired_world_def)
qed

text \<open>When memory allows, \<open>pico_timer_add_hashed\<close> returns a nonzero id and puts one reference
  with that id, hash and expiry, and a timer of its own, into the heap, keeping the heap
  order and everything else in it.\<close>

theorem pico_timer_add_hashed_adds:
  assumes "heap_ok expire (theap st)" "refs_ok (heap_mset (theap st)) (tmem st)"
    and "t_addr \<noteq> 0" "tmem st t_addr = None" "heap_mem" "hn (theap st) + 2 \<le> timers_per_block * MAX_BLOCK_COUNT"
  shows "\<exists>i st'. pico_timer_add_hashed now ex tm a hash t_addr heap_mem st = Some (i, st') \<and> i \<noteq> 0
     \<and> heap_ok expire (theap st') \<and> refs_ok (heap_mset (theap st')) (tmem st')
     \<and> heap_mset (theap st') = add_mset \<lparr>expire = now + ex, tref_id = i, tref_hash = hash, tmr = t_addr\<rparr> (heap_mset (theap st))
     \<and> tmem st' = (tmem st)(t_addr \<mapsto> \<lparr>timer = tm, arg = a\<rparr>) \<and> world st' = world st"
  by (rule pico_timer_add_hashed_ok [OF assms])

theorem pico_timer_add_hashed_adds_witness:
  "\<exists>i st'. pico_timer_add_hashed 100 20 1 9 5 4 True empty_timers = Some (i, st') \<and> i \<noteq> 0
     \<and> heap_mset (theap st') = {#\<lparr>expire = 120, tref_id = i, tref_hash = 5, tmr = 4\<rparr>#}"
  using pico_timer_add_hashed_adds [OF empty_timers_ok(1) empty_timers_refs, of 4 True 100 20 1 9 5]
  by (auto simp: empty_timers_ok) (auto simp: empty_timers_def heap_init_def timers_per_block_def
      MAX_BLOCK_SIZE_def MAX_BLOCK_COUNT_def)

text \<open>The loop scores of all protocols stay powers of two between 32 and 128 and the ring of
  averages is never indexed out of its bounds, whatever the loops return.\<close>

theorem calc_score_bounds:
  assumes "length index = length score" "length avg = length score" "length ret = length score"
    and "\<forall>k < length score. score_ok (score ! k) (index ! k) (avg ! k)"
  shows "case calc_score score index avg ret of (score', index', avg') \<Rightarrow>
     \<forall>k < length score. score_ok (score' ! k) (index' ! k) (avg' ! k)"
  using calc_score_loop_ok [OF assms, of 0] by (auto simp: calc_score_def split: prod.splits)

theorem calc_score_bounds_witness:
  "case calc_score [32, 64] [0, 4] [[0, 0, 0, 0], [9, 9, 9, 9]] [0, 64] of (score', index', avg') \<Rightarrow>
     score_ok (score' ! 0) (index' ! 0) (avg' ! 0) \<and> score_ok (score' ! 1) (index' ! 1) (avg' ! 1)"
proof -
  have "\<forall>k < length [32, 64 :: int]. score_ok ([32, 64] ! k) ([0, 4] ! k) ([[0, 0, 0, 0], [9, 9, 9, 9]] ! k)"
    by (simp add: score_ok_def PROTO_DEF_AVG_NR_def less_Suc_eq)
  from calc_score_bounds [OF _ _ _ this, of "[0, 64]"] show ?thesis
    by (auto split: prod.splits)
qed

text \<open>\<open>pico_timer_cancel_hashed\<close> clears the id of another reference instead of the id of the one
  it cancels: after cancelling the first of two timers, the second can no longer be
  cancelled by its id and stays armed.\<close>

theorem cancel_hashed_clears_wrong_id:
  "(do { (i1, st) \<leftarrow> pico_timer_add_hashed 0 10 1 1 7 101 True empty_timers;
         (i2, st) \<leftarrow> pico_timer_add 0 20 1 2 102 True st;
         st \<leftarrow> pico_timer_cancel_hashed 7 st;
         st \<leftarrow> pico_timer_cancel i2 st;
         Some (tref_id (elems (theap st) ! 1), tref_id (elems (theap st) ! 2), tmr (elems (theap st) ! 2), tmem st 102) })
   = Some (1, 0, 102, Some \<lparr>timer = 1, arg = 2\<rparr>)"
  by code_simp

end
