(* ===== verification/Ipfilter.thy ===== *)
theory Ipfilter
  imports PTree_Spec "HOL-Library.Product_Lexorder"
begin

text \<open>
  The packet filter (\<open>modules/pico_ipfilter.c\<close>): rules in a pointer tree, found by comparing
  them with a rule made from the packet (\<open>filter_id\<close> 0).  Device pointers are naturals, 0 is
  NULL.  Packets are the bytes of their headers.
\<close>

section \<open>Rules and their comparison\<close>

datatype filter_action = FILTER_PRIORITY | FILTER_REJECT | FILTER_DROP | FILTER_COUNT

record filter_node =
  fdev :: nat
  out_addr :: u32
  out_addr_netmask :: u32
  in_addr :: u32
  in_addr_netmask :: u32
  out_port :: u16
  in_port :: u16
  proto :: u8
  priority :: u8
  tos :: u8
  filter_id :: u32
  function_ptr :: filter_action

definition zero_node :: filter_node where
  "zero_node = \<lparr>fdev = 0, out_addr = 0, out_addr_netmask = 0, in_addr = 0, in_addr_netmask = 0,
     out_port = 0, in_port = 0, proto = 0, priority = 0, tos = 0, filter_id = 0,
     function_ptr = FILTER_PRIORITY\<rparr>"

definition ipfilter_uint32_cmp :: "u32 \<Rightarrow> u32 \<Rightarrow> int" where
  "ipfilter_uint32_cmp a b = (if a < b then -1 else if b < a then 1 else 0)"
definition ipfilter_uint16_cmp :: "u16 \<Rightarrow> u16 \<Rightarrow> int" where
  "ipfilter_uint16_cmp a b = (if a < b then -1 else if b < a then 1 else 0)"
definition ipfilter_uint8_cmp :: "u8 \<Rightarrow> u8 \<Rightarrow> int" where
  "ipfilter_uint8_cmp a b = (if a < b then -1 else if b < a then 1 else 0)"
definition ipfilter_ptr_cmp :: "nat \<Rightarrow> nat \<Rightarrow> int" where
  "ipfilter_ptr_cmp a b = (if a < b then -1 else if b < a then 1 else 0)"

definition filter_compare_ports :: "filter_node \<Rightarrow> filter_node \<Rightarrow> int" where
  "filter_compare_ports a b =
     (let cmp = ipfilter_uint16_cmp (in_port a) (in_port b) in
      if cmp \<noteq> 0 then cmp else ipfilter_uint16_cmp (out_port a) (out_port b))"

definition filter_compare_addresses :: "filter_node \<Rightarrow> filter_node \<Rightarrow> int" where
  "filter_compare_addresses a b =
     (let cmp = ipfilter_uint32_cmp (in_addr a AND in_addr_netmask a) (in_addr b AND in_addr_netmask b) in
      if cmp \<noteq> 0 then cmp
      else ipfilter_uint32_cmp (out_addr a AND out_addr_netmask a) (out_addr b AND out_addr_netmask b))"

definition filter_compare_proto :: "filter_node \<Rightarrow> filter_node \<Rightarrow> int" where
  "filter_compare_proto a b = ipfilter_uint8_cmp (proto a) (proto b)"

definition filter_compare_address_port :: "filter_node \<Rightarrow> filter_node \<Rightarrow> int" where
  "filter_compare_address_port a b =
     (let cmp = filter_compare_addresses a b in if cmp \<noteq> 0 then cmp else filter_compare_ports a b)"

definition filter_match_packet_dev :: "filter_node \<Rightarrow> filter_node \<Rightarrow> filter_node \<Rightarrow> int" where
  "filter_match_packet_dev a b rule = (if fdev rule \<noteq> 0 then ipfilter_ptr_cmp (fdev a) (fdev b) else 0)"

definition filter_match_packet_proto :: "filter_node \<Rightarrow> filter_node \<Rightarrow> filter_node \<Rightarrow> int" where
  "filter_match_packet_proto a b rule = (if proto rule \<noteq> 0 then filter_compare_proto a b else 0)"

definition filter_match_packet_addr_in :: "filter_node \<Rightarrow> filter_node \<Rightarrow> filter_node \<Rightarrow> int" where
  "filter_match_packet_addr_in a b rule =
     (if in_addr_netmask rule \<noteq> 0
      then ipfilter_uint32_cmp (in_addr a AND in_addr_netmask rule) (in_addr b AND in_addr_netmask rule)
      else 0)"

definition filter_match_packet_addr_out :: "filter_node \<Rightarrow> filter_node \<Rightarrow> filter_node \<Rightarrow> int" where
  "filter_match_packet_addr_out a b rule =
     (if out_addr_netmask rule \<noteq> 0
      then ipfilter_uint32_cmp (out_addr a AND out_addr_netmask rule) (out_addr b AND out_addr_netmask rule)
      else 0)"

definition filter_match_packet_port_in :: "filter_node \<Rightarrow> filter_node \<Rightarrow> filter_node \<Rightarrow> int" where
  "filter_match_packet_port_in a b rule =
     (if in_port rule \<noteq> 0 then ipfilter_uint16_cmp (in_port a) (in_port b) else 0)"

definition filter_match_packet_port_out :: "filter_node \<Rightarrow> filter_node \<Rightarrow> filter_node \<Rightarrow> int" where
  "filter_match_packet_port_out a b rule =
     (if out_port rule \<noteq> 0 then ipfilter_uint16_cmp (out_port a) (out_port b) else 0)"

definition filter_match_packet_dev_and_proto :: "filter_node \<Rightarrow> filter_node \<Rightarrow> filter_node \<Rightarrow> int" where
  "filter_match_packet_dev_and_proto a b rule =
     (let cmp = filter_match_packet_dev a b rule in
      if cmp \<noteq> 0 then cmp else filter_match_packet_proto a b rule)"

definition filter_match_packet_addr :: "filter_node \<Rightarrow> filter_node \<Rightarrow> filter_node \<Rightarrow> int" where
  "filter_match_packet_addr a b rule =
     (let cmp = filter_match_packet_addr_in a b rule in
      if cmp \<noteq> 0 then cmp else filter_match_packet_addr_out a b rule)"

definition filter_match_packet_port :: "filter_node \<Rightarrow> filter_node \<Rightarrow> filter_node \<Rightarrow> int" where
  "filter_match_packet_port a b rule =
     (let cmp = filter_match_packet_port_in a b rule in
      if cmp \<noteq> 0 then cmp else filter_match_packet_port_out a b rule)"

definition filter_match_packet_find_rule :: "filter_node \<Rightarrow> filter_node \<Rightarrow> filter_node" where
  "filter_match_packet_find_rule a b = (if filter_id a = 0 then b else a)"

definition filter_match_packet :: "filter_node \<Rightarrow> filter_node \<Rightarrow> int" where
  "filter_match_packet a b =
     (let rule = filter_match_packet_find_rule a b;
          cmp = filter_match_packet_dev_and_proto a b rule in
      if cmp \<noteq> 0 then cmp else
      let cmp = filter_match_packet_addr a b rule in
      if cmp \<noteq> 0 then cmp else
      let cmp = filter_match_packet_port a b rule in
      if cmp \<noteq> 0 then cmp else 0)"

definition filter_compare :: "filter_node \<Rightarrow> filter_node \<Rightarrow> int" where
  "filter_compare a b =
     (if filter_id a = 0 \<or> filter_id b = 0 then filter_match_packet a b
      else if filter_id a = filter_id b then 0
      else
        let cmp = ipfilter_ptr_cmp (fdev a) (fdev a) in
        if cmp \<noteq> 0 then cmp else
        let cmp = filter_compare_proto a b in
        if cmp \<noteq> 0 then cmp else filter_compare_address_port a b)"

section \<open>Actions\<close>

text \<open>What happens to the frame: an ICMP message is sent back, the frame is discarded.\<close>

datatype fp_effect = Packet_filtered | Discarded

definition fp_priority :: "int \<times> fp_effect list" where "fp_priority = (0, [])"
definition fp_reject :: "int \<times> fp_effect list" where "fp_reject = (1, [Packet_filtered, Discarded])"
definition fp_drop :: "int \<times> fp_effect list" where "fp_drop = (1, [Discarded])"

definition fp_function :: "filter_action \<Rightarrow> int \<times> fp_effect list" where
  "fp_function a = (case a of FILTER_PRIORITY \<Rightarrow> fp_priority | FILTER_REJECT \<Rightarrow> fp_reject
     | FILTER_DROP \<Rightarrow> fp_drop | FILTER_COUNT \<Rightarrow> fp_priority)"

section \<open>The filter table\<close>

text \<open>The tree and the static counter \<open>filter_id\<close> of \<open>pico_ipv4_filter_add\<close>.\<close>

record filters =
  filter_tree :: "filter_node pico_tree"
  next_id :: u32
  ferr :: pico_err_t

definition pico_ipv4_filter_add_validate :: "u8 \<Rightarrow> filter_action \<Rightarrow> int" where
  "pico_ipv4_filter_add_validate prio action =
     (if sint prio > 10 \<or> sint prio < -10 then -1
      else if action = FILTER_COUNT then -1 else 0)"

definition addr_or_0 :: "u32 option \<Rightarrow> u32" where
  "addr_or_0 a = (case a of None \<Rightarrow> 0 | Some v \<Rightarrow> v)"

text \<open>\<open>mem\<close> and \<open>node_mem\<close>: whether the two allocations (rule, tree node) succeed.\<close>

definition pico_ipv4_filter_add ::
    "filters \<Rightarrow> nat \<Rightarrow> u8 \<Rightarrow> u32 option \<Rightarrow> u32 option \<Rightarrow> u32 option \<Rightarrow> u32 option \<Rightarrow> u16 \<Rightarrow> u16
      \<Rightarrow> u8 \<Rightarrow> u8 \<Rightarrow> filter_action \<Rightarrow> bool \<Rightarrow> bool \<Rightarrow> (u32 \<times> filters) option" where
  "pico_ipv4_filter_add ft dev pr oaddr omask iaddr imask oport iport prio tosv action mem node_mem =
     (if pico_ipv4_filter_add_validate prio action < 0 then Some (0, ft\<lparr>ferr := PICO_ERR_EINVAL\<rparr>)
      else if \<not> mem then Some (0, ft\<lparr>ferr := PICO_ERR_ENOMEM\<rparr>)
      else
        let n = zero_node\<lparr>fdev := dev, proto := pr, out_addr := addr_or_0 oaddr,
              out_addr_netmask := addr_or_0 omask, in_addr := addr_or_0 iaddr,
              in_addr_netmask := addr_or_0 imask, out_port := oport, in_port := iport,
              priority := prio, tos := tosv, filter_id := next_id ft, function_ptr := action\<rparr>;
            ft = ft\<lparr>next_id := next_id ft + 1\<rparr>
        in case pico_tree_insert filter_compare (filter_tree ft) n node_mem of
             None \<Rightarrow> None
           | Some (Ins_NULL, t) \<Rightarrow> Some (filter_id n, ft\<lparr>filter_tree := t\<rparr>)
           | Some (_, t) \<Rightarrow> Some (0, ft\<lparr>filter_tree := t, next_id := next_id ft - 1\<rparr>))"


section \<open>Filtering a packet\<close>

definition ipfilter_apply_filter :: "filters \<Rightarrow> filter_node \<Rightarrow> (int \<times> fp_effect list) option" where
  "ipfilter_apply_filter ft pkt =
     (case pico_tree_findKey filter_compare (filter_tree ft) pkt of
        None \<Rightarrow> None
      | Some None \<Rightarrow> Some (0, [])
      | Some (Some filter_frame) \<Rightarrow> Some (1, snd (fp_function (function_ptr filter_frame))))"

text \<open>A packet: device, priority, IPv4 header and transport header.\<close>

record ip_packet =
  pdev :: nat
  pprio :: u8
  net_bytes :: "u8 list"
  trans_bytes :: "u8 list"

definition ip_tos :: "ip_packet \<Rightarrow> u8" where "ip_tos p = net_bytes p ! 1"
definition ip_proto :: "ip_packet \<Rightarrow> u8" where "ip_proto p = net_bytes p ! 9"
definition ip_src :: "ip_packet \<Rightarrow> u32" where "ip_src p = long_from (drop 12 (net_bytes p))"
definition ip_dst :: "ip_packet \<Rightarrow> u32" where "ip_dst p = long_from (drop 16 (net_bytes p))"
definition trans_sport :: "ip_packet \<Rightarrow> u16" where "trans_sport p = short_from (trans_bytes p)"
definition trans_dport :: "ip_packet \<Rightarrow> u16" where "trans_dport p = short_from (drop 2 (trans_bytes p))"
definition icmp_type :: "ip_packet \<Rightarrow> u8" where "icmp_type p = trans_bytes p ! 0"
definition icmp_code :: "ip_packet \<Rightarrow> u8" where "icmp_code p = trans_bytes p ! 1"

definition PICO_PROTO_ICMP4 :: u8 where "PICO_PROTO_ICMP4 = 1"
definition PICO_PROTO_TCP :: u8 where "PICO_PROTO_TCP = 6"
definition PICO_PROTO_UDP :: u8 where "PICO_PROTO_UDP = 17"
definition PICO_ICMP_UNREACH :: u8 where "PICO_ICMP_UNREACH = 3"
definition PICO_ICMP_UNREACH_FILTER_PROHIB :: u8 where "PICO_ICMP_UNREACH_FILTER_PROHIB = 13"

definition is_filter_prohib :: "ip_packet \<Rightarrow> bool" where
  "is_filter_prohib p \<longleftrightarrow> ip_proto p = PICO_PROTO_ICMP4
     \<and> icmp_type p = PICO_ICMP_UNREACH \<and> icmp_code p = PICO_ICMP_UNREACH_FILTER_PROHIB"

definition packet_node :: "ip_packet \<Rightarrow> filter_node" where
  "packet_node p =
     (let temp = zero_node\<lparr>fdev := pdev p, out_addr := ip_dst p, in_addr := ip_src p\<rparr>;
          temp = (if ip_proto p = PICO_PROTO_TCP \<or> ip_proto p = PICO_PROTO_UDP
                  then temp\<lparr>out_port := short_be (trans_dport p), in_port := short_be (trans_sport p)\<rparr>
                  else temp)
      in temp\<lparr>proto := ip_proto p, priority := pprio p, tos := ip_tos p\<rparr>)"

definition ipfilter :: "filters \<Rightarrow> ip_packet \<Rightarrow> (int \<times> fp_effect list) option" where
  "ipfilter ft p =
     (if ip_proto p \<noteq> PICO_PROTO_TCP \<and> ip_proto p \<noteq> PICO_PROTO_UDP \<and> is_filter_prohib p
      then Some (0, []) else ipfilter_apply_filter ft (packet_node p))"

section \<open>Search along the tree\<close>

text \<open>Between rules and a packet the comparison is not an order.  The search finds a matching rule when the rules
  before it do not send it left and those behind it do not send it right, and goes past it otherwise.\<close>

definition search_order :: "('k \<Rightarrow> 'k \<Rightarrow> int) \<Rightarrow> 'k \<Rightarrow> 'k list \<Rightarrow> bool" where
  "search_order cmp key ks \<longleftrightarrow>
     sorted_wrt (\<lambda>x y. (0 < cmp x key \<longrightarrow> 0 < cmp y key) \<and> (cmp y key < 0 \<longrightarrow> cmp x key < 0)) ks"

lemma find_loop_search_order:
  assumes "tree_rep t (plug C s)" "search_order cmp key (keys_of t s)"
  shows "\<exists>a. find_loop cmp t key (root_of s) = Some a
     \<and> (a = LEAF \<and> (\<forall>x \<in> set (ino s). cmp (key_of t x) key \<noteq> 0) \<or> a \<in> set (ino s) \<and> cmp (key_of t a) key = 0)"
  using assms
proof (induction s arbitrary: C)
  case L
  then show ?case by (subst find_loop.simps) simp
next
  case (N l a r)
  note p = rep_node [OF N.prems(1)]
  have so: "search_order cmp key (keys_of t l)" "search_order cmp key (keys_of t r)"
    "\<And>x. x \<in> set (ino l) \<Longrightarrow> cmp (key_of t a) key < 0 \<Longrightarrow> cmp (key_of t x) key < 0"
    "\<And>x. x \<in> set (ino r) \<Longrightarrow> 0 < cmp (key_of t a) key \<Longrightarrow> 0 < cmp (key_of t x) key"
    using N.prems(2) by (auto simp: search_order_def keys_of_def sorted_wrt_append)
  have "tree_rep t (plug (InL C a r) l)" "tree_rep t (plug (InR C l a) r)" using N.prems(1) by simp_all
  note ih = N.IH(1) [OF this(1) so(1)] N.IH(2) [OF this(2) so(2)]
  consider "cmp (key_of t a) key = 0" | "cmp (key_of t a) key < 0" | "0 < cmp (key_of t a) key" by linarith
  then show ?case
  proof cases
    case 1
    then show ?thesis using p(4) by (subst find_loop.simps) simp
  next
    case 2
    then have "find_loop cmp t key a = find_loop cmp t key (root_of r)" using p by (subst find_loop.simps) simp
    then show ?thesis using ih(2) so(3) 2 by fastforce
  next
    case 3
    then have "find_loop cmp t key a = find_loop cmp t key (root_of l)" using p by (subst find_loop.simps) simp
    then show ?thesis using ih(1) so(4) 3 by fastforce
  qed
qed

lemma findKey_search_order:
  assumes "tree_keys t ks" "search_order cmp key ks" "k \<in> set ks" "cmp k key = 0"
  shows "\<exists>x \<in> set ks. pico_tree_findKey cmp t key = Some (Some x) \<and> cmp x key = 0"
proof -
  obtain s where s: "tree_rep t s" "keys_of t s = ks" using assms(1) by (auto simp: tree_keys_def)
  obtain a where a: "find_loop cmp t key (root_of s) = Some a"
    "a = LEAF \<and> (\<forall>x \<in> set (ino s). cmp (key_of t x) key \<noteq> 0) \<or> a \<in> set (ino s) \<and> cmp (key_of t a) key = 0"
    using find_loop_search_order [of t Top s cmp key] s assms(2) by auto
  have "\<exists>x \<in> set (ino s). key_of t x = k" using assms(3) s(2) by (auto simp: keys_of_def)
  then have ain: "a \<in> set (ino s)" "cmp (key_of t a) key = 0" using a(2) assms(4) by auto
  moreover obtain x where "keyValue (nodes t a) = Some x" using ain(1) s(1) by (auto simp: tree_rep_def)
  moreover have "key_of t a \<in> set ks" using ain(1) s(2) by (auto simp: keys_of_def)
  moreover have "a \<noteq> LEAF" using rep_nonleaf [OF s(1)] ain(1) by metis
  moreover have "pico_tree_findNode cmp t key = Some a" using a(1) s(1) by (simp add: pico_tree_findNode_def tree_rep_def)
  ultimately show ?thesis by (simp add: pico_tree_findKey_def)
qed

text \<open>A root \<open>r\<close> that is less than the key hides all before it, one that is greater all behind it.\<close>

lemma findKey_past_root:
  assumes "tree_keys t (xs @ r # ys)" "distinct (xs @ r # ys)" "keyValue (nodes t (root t)) = Some r"
    and "cmp r key < 0 \<and> (\<forall>y \<in> set ys. cmp y key \<noteq> 0) \<or> 0 < cmp r key \<and> (\<forall>x \<in> set xs. cmp x key \<noteq> 0)"
  shows "pico_tree_findNode cmp t key = Some LEAF"
proof -
  obtain s where s: "tree_rep t s" "keys_of t s = xs @ r # ys" using assms(1) by (auto simp: tree_keys_def)
  obtain l a m where sh: "s = N l a m" using s(2) by (cases s) (auto simp: keys_of_def)
  have a: "root t = a" "key_of t a = r" using s(1) sh assms(3) by (auto simp: tree_rep_def)
  have "keys_of t l @ r # keys_of t m = xs @ r # ys" using s(2) sh a(2) by (simp add: keys_of_def)
  moreover have "r \<notin> set xs" "r \<notin> set ys" using assms(2) by auto
  ultimately have lm: "keys_of t l = xs" "keys_of t m = ys"
    by (auto simp: append_eq_append_conv2 append_eq_Cons_conv Cons_eq_append_conv)
  have tr: "tree_rep t (plug Top (N l a m))" "tree_rep t (plug (InL Top a m) l)" "tree_rep t (plug (InR Top l a) m)"
    using s(1) sh by simp_all
  note p = rep_node [OF tr(1)]
  from assms(4) show ?thesis
  proof
    assume r: "cmp r key < 0 \<and> (\<forall>y \<in> set ys. cmp y key \<noteq> 0)"
    then have "find_loop cmp t key a = find_loop cmp t key (root_of m)" using p a(2) by (subst find_loop.simps) simp
    moreover have "\<forall>x \<in> set (ino m). cmp (key_of t x) key \<noteq> 0" using r lm(2) by (auto simp: keys_of_def)
    ultimately show ?thesis using find_loop_sound [OF tr(3), of cmp key] a(1) by (auto simp: pico_tree_findNode_def)
  next
    assume r: "0 < cmp r key \<and> (\<forall>x \<in> set xs. cmp x key \<noteq> 0)"
    then have "find_loop cmp t key a = find_loop cmp t key (root_of l)" using p a(2) by (subst find_loop.simps) simp
    moreover have "\<forall>x \<in> set (ino l). cmp (key_of t x) key \<noteq> 0" using r lm(1) by (auto simp: keys_of_def)
    ultimately show ?thesis using find_loop_sound [OF tr(2), of cmp key] a(1) by (auto simp: pico_tree_findNode_def)
  qed
qed

section \<open>What a rule matches\<close>

definition rule_matches :: "filter_node \<Rightarrow> filter_node \<Rightarrow> bool" where
  "rule_matches r p \<longleftrightarrow> (fdev r = 0 \<or> fdev r = fdev p) \<and> (proto r = 0 \<or> proto r = proto p)
     \<and> in_addr r AND in_addr_netmask r = in_addr p AND in_addr_netmask r
     \<and> out_addr r AND out_addr_netmask r = out_addr p AND out_addr_netmask r
     \<and> (in_port r = 0 \<or> in_port r = in_port p) \<and> (out_port r = 0 \<or> out_port r = out_port p)"

lemmas cmp_defs = ipfilter_uint32_cmp_def ipfilter_uint16_cmp_def ipfilter_uint8_cmp_def ipfilter_ptr_cmp_def

lemmas match_defs = filter_match_packet_def filter_match_packet_find_rule_def
  filter_match_packet_dev_and_proto_def filter_match_packet_addr_def filter_match_packet_port_def
  filter_match_packet_dev_def filter_match_packet_proto_def filter_match_packet_addr_in_def
  filter_match_packet_addr_out_def filter_match_packet_port_in_def filter_match_packet_port_out_def
  filter_compare_proto_def

lemma cmp_zero:
  "ipfilter_uint32_cmp a b = 0 \<longleftrightarrow> a = b" "ipfilter_uint16_cmp c d = 0 \<longleftrightarrow> c = d"
  "ipfilter_uint8_cmp e f = 0 \<longleftrightarrow> e = f" "ipfilter_ptr_cmp x y = 0 \<longleftrightarrow> x = y"
  by (auto simp: cmp_defs)

lemma filter_compare_packet:
  assumes "filter_id r \<noteq> 0" "filter_id p = 0"
  shows "filter_compare r p = 0 \<longleftrightarrow> rule_matches r p"
proof -
  have "filter_compare r p = filter_match_packet r p" "filter_match_packet_find_rule r p = r"
    using assms by (simp_all add: filter_compare_def filter_match_packet_find_rule_def)
  then show ?thesis
    by (auto simp: match_defs Let_def cmp_zero rule_matches_def)
qed

section \<open>The order of the rules\<close>

definition rule_key :: "filter_node \<Rightarrow> u8 \<times> u32 \<times> u32 \<times> u16 \<times> u16" where
  "rule_key r = (proto r, in_addr r AND in_addr_netmask r, out_addr r AND out_addr_netmask r,
     in_port r, out_port r)"

lemma filter_compare_key:
  assumes "filter_id a \<noteq> 0" "filter_id b \<noteq> 0" "filter_id a = filter_id b \<longrightarrow> a = b"
  shows "filter_compare a b = key_cmp rule_key a b"
  using assms by (auto simp: filter_compare_def key_cmp_def rule_key_def filter_compare_proto_def
      filter_compare_address_port_def filter_compare_addresses_def filter_compare_ports_def cmp_defs
      Let_def less_prod_def)

lemma filter_order:
  assumes "\<forall>r \<in> S. filter_id r \<noteq> 0" "inj_on filter_id S"
  shows "key_order filter_compare (\<lambda>r. r \<in> S)"
  using assms by (intro key_order_by_key [where k = rule_key] filter_compare_key) (auto dest: inj_onD)

definition table_ok :: "filters \<Rightarrow> filter_node list \<Rightarrow> bool" where
  "table_ok ft rs \<longleftrightarrow> tree_keys (filter_tree ft) rs \<and> keys_sorted filter_compare rs
     \<and> (\<forall>r \<in> set rs. filter_id r \<noteq> 0 \<and> filter_id r < next_id ft) \<and> inj_on filter_id (set rs)"

lemma table_distinct:
  assumes "table_ok ft rs" shows "distinct rs"
proof -
  have "filter_id x \<noteq> 0 \<Longrightarrow> filter_compare x x = 0" for x by (simp add: filter_compare_def)
  moreover have "sorted_wrt (\<lambda>x y. filter_compare x y < 0) rs" "\<forall>r \<in> set rs. filter_id r \<noteq> 0"
    using assms by (simp_all add: table_ok_def keys_sorted_def)
  ultimately show ?thesis by (induction rs) auto
qed

section \<open>Properties\<close>

text \<open>Between a rule and a packet the comparison is zero exactly when the rule matches: every
  criterion of the rule that is set (device, protocol, masked addresses, ports) agrees with
  the packet.\<close>

theorem filter_compare_matches:
  assumes "filter_id r \<noteq> 0"
  shows "filter_compare r (packet_node p) = 0 \<longleftrightarrow> rule_matches r (packet_node p)"
  by (rule filter_compare_packet [OF assms]) (simp add: packet_node_def zero_node_def Let_def)

definition sample_packet :: "u8 \<Rightarrow> ip_packet" where
  "sample_packet pr = \<lparr>pdev = 1, pprio = 0, net_bytes = [0x45, 0, 0, 20, 0, 0, 0, 0, 64, pr, 0, 0,
     10, 0, 0, 1, 10, 0, 0, 2], trans_bytes = [0, 80, 0, 81]\<rparr>"

theorem filter_compare_matches_witness:
  "filter_compare (zero_node\<lparr>filter_id := 1, proto := 6\<rparr>) (packet_node (sample_packet 17)) \<noteq> 0"
proof -
  have "\<not> rule_matches (zero_node\<lparr>filter_id := 1, proto := 6\<rparr>) (packet_node (sample_packet 17))"
    by code_simp
  then show ?thesis
    using filter_compare_matches [of "zero_node\<lparr>filter_id := 1, proto := 6\<rparr>" "sample_packet 17"]
    by (simp add: zero_node_def)
qed

lemma ipfilter_ok:
  assumes "table_ok ft rs"
  shows "\<exists>res eff. ipfilter ft p = Some (res, eff) \<and>
     (res = 0 \<and> eff = [] \<or> res = 1 \<and> \<not> is_filter_prohib p \<and>
        (\<exists>r \<in> set rs. rule_matches r (packet_node p) \<and> eff = snd (fp_function (function_ptr r))))"
proof -
  have t: "tree_keys (filter_tree ft) rs" and ids: "\<forall>r \<in> set rs. filter_id r \<noteq> 0"
    using assms by (simp_all add: table_ok_def)
  obtain res where res: "pico_tree_findKey filter_compare (filter_tree ft) (packet_node p) = Some res"
    "\<forall>k. res = Some k \<longrightarrow> k \<in> set rs \<and> filter_compare k (packet_node p) = 0"
    using findKey_sound [OF t] by blast
  have pid: "filter_id (packet_node p) = 0" by (simp add: packet_node_def zero_node_def Let_def)
  have tcp: "ip_proto p = PICO_PROTO_TCP \<or> ip_proto p = PICO_PROTO_UDP \<Longrightarrow> \<not> is_filter_prohib p"
    by (auto simp: is_filter_prohib_def PICO_PROTO_TCP_def PICO_PROTO_UDP_def PICO_PROTO_ICMP4_def)
  show ?thesis
  proof (cases res)
    case None
    then show ?thesis using res(1) by (auto simp: ipfilter_def ipfilter_apply_filter_def)
  next
    case (Some r)
    then have "r \<in> set rs" "rule_matches r (packet_node p)"
      using res(2) ids filter_compare_packet [OF _ pid] by auto
    then show ?thesis using res(1) Some tcp by (auto simp: ipfilter_def ipfilter_apply_filter_def)
  qed
qed

definition no_filters :: filters where
  "no_filters = \<lparr>filter_tree = empty_tree, next_id = 1, ferr = PICO_ERR_NOERR\<rparr>"

lemma no_filters_ok: "table_ok no_filters []"
  by (simp add: table_ok_def no_filters_def tree_keys_empty keys_sorted_def)

text \<open>\<open>pico_ipv4_filter_add\<close> refuses a priority or action out of range and a rule with the same
  criteria as one in the table, in both cases leaving the rules and the counter; otherwise,
  with memory and ids left, it returns a new nonzero id and the table holds the rule at
  its place.\<close>

theorem pico_ipv4_filter_add_correct:
  assumes "table_ok ft rs" "next_id ft \<noteq> 0" "next_id ft \<noteq> - 1"
    and n: "n = zero_node\<lparr>fdev := dev, proto := pr, out_addr := addr_or_0 oa,
              out_addr_netmask := addr_or_0 om, in_addr := addr_or_0 ia,
              in_addr_netmask := addr_or_0 im, out_port := op', in_port := ip,
              priority := prio, tos := ts, filter_id := next_id ft, function_ptr := action\<rparr>"
  shows "\<exists>r ft'. pico_ipv4_filter_add ft dev pr oa om ia im op' ip prio ts action True True = Some (r, ft') \<and>
     (if pico_ipv4_filter_add_validate prio action < 0 then r = 0 \<and> ferr ft' = PICO_ERR_EINVAL \<and> table_ok ft' rs
      else if \<exists>x \<in> set rs. rule_key x = rule_key n then r = 0 \<and> ft' = ft
      else r = next_id ft \<and> table_ok ft' (keys_insert filter_compare n rs) \<and> n \<in> set (keys_insert filter_compare n rs))"
proof (cases "pico_ipv4_filter_add_validate prio action < 0")
  case True
  then show ?thesis using assms(1) by (auto simp: pico_ipv4_filter_add_def table_ok_def)
next
  case ok: False
  let ?S = "insert n (set rs)"
  have nid: "filter_id n = next_id ft" by (simp add: n)
  have rs: "tree_keys (filter_tree ft) rs" "keys_sorted filter_compare rs"
    "\<forall>r \<in> set rs. filter_id r \<noteq> 0 \<and> filter_id r < next_id ft" "inj_on filter_id (set rs)"
    using assms(1) by (simp_all add: table_ok_def)
  have inj: "inj_on filter_id ?S" using rs(3,4) nid by auto
  have ids: "\<forall>r \<in> ?S. filter_id r \<noteq> 0" using rs(3) nid assms(2) by auto
  have ko: "key_order filter_compare (\<lambda>r. r \<in> ?S)" by (rule filter_order [OF ids inj])
  have inv: "tree_inv filter_compare (\<lambda>r. r \<in> ?S) (filter_tree ft) rs"
    using rs(1,2) by (simp add: tree_inv_def)
  have eq: "filter_compare x n = 0 \<longleftrightarrow> rule_key x = rule_key n" if "x \<in> set rs" for x
  proof -
    have "filter_compare x n = key_cmp rule_key x n"
      using that ids nid rs(3) by (intro filter_compare_key) auto
    then show ?thesis by (auto simp: key_cmp_def)
  qed
  have ins: "case keys_find filter_compare n rs of
      Some k \<Rightarrow> pico_tree_insert filter_compare (filter_tree ft) n True = Some (Ins_EEXIST k, filter_tree ft)
    | None \<Rightarrow> \<exists>t'. pico_tree_insert filter_compare (filter_tree ft) n True = Some (Ins_NULL, t')
         \<and> tree_inv filter_compare (\<lambda>r. r \<in> ?S) t' (keys_insert filter_compare n rs)"
    using key_order.insert_inv [OF ko inv, of n True] by (simp split: option.splits)
  have add: "pico_ipv4_filter_add ft dev pr oa om ia im op' ip prio ts action True True =
     (case pico_tree_insert filter_compare (filter_tree ft) n True of
        None \<Rightarrow> None
      | Some (Ins_NULL, t) \<Rightarrow> Some (next_id ft, ft\<lparr>next_id := next_id ft + 1, filter_tree := t\<rparr>)
      | Some (_, t) \<Rightarrow> Some (0, ft\<lparr>next_id := next_id ft, filter_tree := t\<rparr>))"
    using ok by (simp add: pico_ipv4_filter_add_def n Let_def split: option.splits insert_result.splits)
  show ?thesis
  proof (cases "keys_find filter_compare n rs")
    case None
    then have "\<forall>x \<in> set rs. rule_key x \<noteq> rule_key n" using eq key_order.find_None [OF ko] by blast
    moreover obtain t' where t': "pico_tree_insert filter_compare (filter_tree ft) n True = Some (Ins_NULL, t')"
      "tree_inv filter_compare (\<lambda>r. r \<in> ?S) t' (keys_insert filter_compare n rs)" using ins None by auto
    moreover have set: "set (keys_insert filter_compare n rs) = ?S" by (rule key_order.insert_set [OF ko])
    moreover have "next_id ft < next_id ft + 1"
      using assms(3) unatSuc [of "next_id ft"] by (simp add: word_less_nat_alt add.commute eq_neg_iff_add_eq_0)
    then have "\<forall>r \<in> ?S. filter_id r \<noteq> 0 \<and> filter_id r < next_id ft + 1"
      using ids rs(3) nid by (auto intro: less_trans)
    ultimately have "table_ok (ft\<lparr>next_id := next_id ft + 1, filter_tree := t'\<rparr>) (keys_insert filter_compare n rs)"
      using inj by (simp add: table_ok_def tree_inv_def)
    then show ?thesis using add t'(1) ok set \<open>\<forall>x \<in> set rs. rule_key x \<noteq> rule_key n\<close> by auto
  next
    case (Some k)
    then have "k \<in> set rs" "filter_compare k n = 0" using key_order.find_Some [OF ko] by blast+
    then have "\<exists>x \<in> set rs. rule_key x = rule_key n" using eq by blast
    then show ?thesis using add ins Some ok by auto
  qed
qed

theorem pico_ipv4_filter_add_correct_witness:
  "\<exists>ft'. pico_ipv4_filter_add no_filters 0 6 None None None None 0 0 0 0 FILTER_DROP True True = Some (1, ft')
     \<and> table_ok ft' [zero_node\<lparr>proto := 6, filter_id := 1, function_ptr := FILTER_DROP\<rparr>]"
proof -
  have v: "pico_ipv4_filter_add_validate 0 FILTER_DROP = 0" by code_simp
  show ?thesis
    using pico_ipv4_filter_add_correct [OF no_filters_ok _ _ refl, where dev = 0 and pr = 6 and oa = None
        and om = None and ia = None and im = None and op' = 0 and ip = 0 and prio = 0 and ts = 0
        and action = FILTER_DROP] v
    by (auto simp: no_filters_def addr_or_0_def zero_node_def)
qed

text \<open>A rule for protocol \<open>pr\<close>, input address \<open>ia\<close> under \<open>im\<close>, and device \<open>dev\<close>, that drops.\<close>

definition add_drop :: "nat \<Rightarrow> u8 \<Rightarrow> u32 \<Rightarrow> u32 \<Rightarrow> filters \<Rightarrow> (u32 \<times> filters) option" where
  "add_drop dev pr ia im ft =
     pico_ipv4_filter_add ft dev pr None None (Some ia) (Some im) 0 0 0 0 FILTER_DROP True True"

text \<open>Rules that leave nothing open: any protocol, address and port is given, no device.\<close>

definition full_rule :: "filter_node \<Rightarrow> bool" where
  "full_rule r \<longleftrightarrow> filter_id r \<noteq> 0 \<and> fdev r = 0 \<and> proto r \<noteq> 0 \<and> in_addr_netmask r = - 1 \<and> out_addr_netmask r = - 1
     \<and> in_port r \<noteq> 0 \<and> out_port r \<noteq> 0"

definition packet_rank :: "filter_node \<Rightarrow> u8 \<times> u32 \<times> u32 \<times> u16 \<times> u16" where
  "packet_rank r = (proto r, in_addr r, out_addr r, in_port r, out_port r)"

lemma full_rule_compare: "full_rule r \<Longrightarrow> filter_id p = 0 \<Longrightarrow> filter_compare r p = key_cmp packet_rank r p"
proof -
  assume r: "full_rule r" and p: "filter_id p = 0"
  have fc: "filter_compare r p = filter_match_packet r p" "filter_match_packet_find_rule r p = r"
    using r p by (simp_all add: full_rule_def filter_compare_def filter_match_packet_find_rule_def)
  have c: "filter_compare r p = (if proto r \<noteq> proto p then ipfilter_uint8_cmp (proto r) (proto p)
      else if in_addr r \<noteq> in_addr p then ipfilter_uint32_cmp (in_addr r) (in_addr p)
      else if out_addr r \<noteq> out_addr p then ipfilter_uint32_cmp (out_addr r) (out_addr p)
      else if in_port r \<noteq> in_port p then ipfilter_uint16_cmp (in_port r) (in_port p)
      else ipfilter_uint16_cmp (out_port r) (out_port p))"
  proof -
    have "filter_match_packet_dev_and_proto r p r = ipfilter_uint8_cmp (proto r) (proto p)"
      using r by (simp add: full_rule_def filter_match_packet_dev_and_proto_def filter_match_packet_dev_def
          filter_match_packet_proto_def filter_compare_proto_def)
    moreover have "filter_match_packet_addr r p r = (if in_addr r \<noteq> in_addr p then ipfilter_uint32_cmp (in_addr r) (in_addr p)
        else ipfilter_uint32_cmp (out_addr r) (out_addr p))"
      using r by (simp add: full_rule_def filter_match_packet_addr_def filter_match_packet_addr_in_def filter_match_packet_addr_out_def cmp_zero Let_def)
    moreover have "filter_match_packet_port r p r = (if in_port r \<noteq> in_port p then ipfilter_uint16_cmp (in_port r) (in_port p)
        else ipfilter_uint16_cmp (out_port r) (out_port p))"
      using r by (simp add: full_rule_def filter_match_packet_port_def filter_match_packet_port_in_def filter_match_packet_port_out_def cmp_zero Let_def)
    ultimately show ?thesis unfolding fc(1) using fc(2)
      by (simp add: filter_match_packet_def cmp_zero Let_def)
  qed
  show "filter_compare r p = key_cmp packet_rank r p"
    unfolding c key_cmp_def packet_rank_def
    by (cases "proto r = proto p"; cases "in_addr r = in_addr p"; cases "out_addr r = out_addr p"; cases "in_port r = in_port p")
      (simp_all add: cmp_defs less_prod_def)
qed

lemma full_rules_search_order:
  assumes "\<forall>r \<in> set rs. full_rule r" "inj_on filter_id (set rs)" "keys_sorted filter_compare rs" "filter_id p = 0"
  shows "search_order filter_compare p rs"
  unfolding search_order_def
proof (rule sorted_wrt_mono_rel)
  show "sorted_wrt (\<lambda>x y. filter_compare x y < 0) rs" using assms(3) by (simp add: keys_sorted_def)
  fix x y assume xy: "x \<in> set rs" "y \<in> set rs" and lt: "filter_compare x y < 0"
  have full: "full_rule x" "full_rule y" using xy assms(1) by simp_all
  have "filter_compare x y = key_cmp rule_key x y"
    using full xy assms(2) by (intro filter_compare_key) (auto simp: full_rule_def dest: inj_onD)
  moreover have "rule_key z = packet_rank z" if "full_rule z" for z
    using that by (simp add: full_rule_def rule_key_def packet_rank_def)
  ultimately have "packet_rank x < packet_rank y" using lt full by (auto simp: key_cmp_def split: if_splits)
  then show "(0 < filter_compare x p \<longrightarrow> 0 < filter_compare y p) \<and> (filter_compare y p < 0 \<longrightarrow> filter_compare x p < 0)"
    using full_rule_compare [OF full(1) assms(4)] full_rule_compare [OF full(2) assms(4)] by (auto simp: key_cmp_def)
qed

lemma packet_id: "filter_id (packet_node p) = 0"
  by (simp add: packet_node_def zero_node_def Let_def)

text \<open>C38: \<open>ipfilter\<close> always returns.  When it takes a packet (result 1), a rule of the table matches it and its
  action is what happens to the packet; when it does not (result 0), nothing happens to it; a message that a
  packet was filtered is never taken.  A packet that matches a rule is taken when the comparisons with it respect
  the order of the rules, so whenever every rule gives protocol, addresses and ports and no device.\<close>

theorem ipfilter_sound:
  assumes "table_ok ft rs"
  shows "\<exists>res eff. ipfilter ft p = Some (res, eff) \<and>
     (res = 0 \<and> eff = [] \<or> res = 1 \<and> \<not> is_filter_prohib p \<and>
        (\<exists>r \<in> set rs. rule_matches r (packet_node p) \<and> eff = snd (fp_function (function_ptr r))))
     \<and> (search_order filter_compare (packet_node p) rs \<or> (\<forall>r \<in> set rs. full_rule r) \<longrightarrow>
          (res = 1 \<longleftrightarrow> \<not> is_filter_prohib p \<and> (\<exists>r \<in> set rs. rule_matches r (packet_node p))))"
proof -
  obtain res eff where run: "ipfilter ft p = Some (res, eff)" "res = 0 \<and> eff = [] \<or> res = 1 \<and> \<not> is_filter_prohib p \<and>
        (\<exists>r \<in> set rs. rule_matches r (packet_node p) \<and> eff = snd (fp_function (function_ptr r)))"
    using ipfilter_ok [OF assms] by blast
  have t: "tree_keys (filter_tree ft) rs" "\<forall>r \<in> set rs. filter_id r \<noteq> 0" "keys_sorted filter_compare rs" "inj_on filter_id (set rs)"
    using assms by (simp_all add: table_ok_def)
  have "res = 1" if so: "search_order filter_compare (packet_node p) rs \<or> (\<forall>r \<in> set rs. full_rule r)"
    and np: "\<not> is_filter_prohib p" and r: "r \<in> set rs" "rule_matches r (packet_node p)" for r
  proof -
    have "search_order filter_compare (packet_node p) rs"
      using so full_rules_search_order [OF _ t(4,3) packet_id] by blast
    moreover have "filter_compare r (packet_node p) = 0" using filter_compare_packet [OF _ packet_id] r t(2) by blast
    ultimately obtain x where "pico_tree_findKey filter_compare (filter_tree ft) (packet_node p) = Some (Some x)"
      using findKey_search_order [OF t(1) _ r(1)] by blast
    then show ?thesis using run(1) np by (auto simp: ipfilter_def ipfilter_apply_filter_def split: if_splits)
  qed
  then show ?thesis using run by auto
qed

text \<open>Two rules of the packet filter, added one after the other.\<close>

lemma two_rules:
  assumes "n1 = zero_node\<lparr>proto := a, in_addr := ia, in_addr_netmask := im, filter_id := 1, function_ptr := FILTER_DROP\<rparr>"
    and "n2 = zero_node\<lparr>proto := b, in_addr := ja, in_addr_netmask := jm, filter_id := 2, function_ptr := FILTER_DROP\<rparr>"
    and "rule_key n1 \<noteq> rule_key n2"
  shows "\<exists>ft1 ft2. add_drop 0 a ia im no_filters = Some (1, ft1) \<and> add_drop 0 b ja jm ft1 = Some (2, ft2)
    \<and> table_ok ft2 (keys_insert filter_compare n2 [n1])"
proof -
  have v: "pico_ipv4_filter_add_validate 0 FILTER_DROP = 0" by code_simp
  obtain ft1 where ft1: "add_drop 0 a ia im no_filters = Some (1, ft1)" "table_ok ft1 [n1]"
    using pico_ipv4_filter_add_correct [OF no_filters_ok _ _ refl, where dev = 0 and pr = a and oa = None
        and om = None and ia = "Some ia" and im = "Some im" and op' = 0 and ip = 0 and prio = 0 and ts = 0
        and action = FILTER_DROP] v assms(1)
    by (auto simp: no_filters_def addr_or_0_def zero_node_def add_drop_def)
  have nx: "next_id ft1 = 2"
    using ft1(1) v by (auto simp: add_drop_def pico_ipv4_filter_add_def no_filters_def Let_def split: option.splits insert_result.splits)
  have r2: "n2 = zero_node\<lparr>fdev := 0, proto := b, out_addr := addr_or_0 None, out_addr_netmask := addr_or_0 None, in_addr := addr_or_0 (Some ja),
     in_addr_netmask := addr_or_0 (Some jm), out_port := 0, in_port := 0, priority := 0, tos := 0, filter_id := next_id ft1, function_ptr := FILTER_DROP\<rparr>"
    by (simp add: assms(2) nx addr_or_0_def zero_node_def)
  obtain ft2 where "add_drop 0 b ja jm ft1 = Some (2, ft2)" "table_ok ft2 (keys_insert filter_compare n2 [n1])"
    using pico_ipv4_filter_add_correct [OF ft1(2) _ _ r2] v nx assms(3) by (auto simp: add_drop_def)
  then show ?thesis using ft1(1) by blast
qed

definition tcp_rule :: filter_node where "tcp_rule = zero_node\<lparr>proto := 6, filter_id := 1, function_ptr := FILTER_DROP\<rparr>"
definition udp_rule :: filter_node where "udp_rule = zero_node\<lparr>proto := 17, filter_id := 2, function_ptr := FILTER_DROP\<rparr>"

theorem ipfilter_sound_witness:
  "\<exists>ft1 ft2. add_drop 0 6 0 0 no_filters = Some (1, ft1) \<and> add_drop 0 17 0 0 ft1 = Some (2, ft2)
     \<and> ipfilter ft2 (sample_packet 17) = Some (1, [Discarded]) \<and> ipfilter ft2 (sample_packet 1) = Some (0, [])"
proof -
  have a: "rule_key tcp_rule \<noteq> rule_key udp_rule" "keys_insert filter_compare udp_rule [tcp_rule] = [tcp_rule, udp_rule]"
    "tcp_rule = zero_node\<lparr>proto := 6, in_addr := 0, in_addr_netmask := 0, filter_id := 1, function_ptr := FILTER_DROP\<rparr>"
    "udp_rule = zero_node\<lparr>proto := 17, in_addr := 0, in_addr_netmask := 0, filter_id := 2, function_ptr := FILTER_DROP\<rparr>" by code_simp+
  obtain ft1 ft2 where ft: "add_drop 0 6 0 0 no_filters = Some (1, ft1)" "add_drop 0 17 0 0 ft1 = Some (2, ft2)"
    "table_ok ft2 [tcp_rule, udp_rule]"
    using two_rules [OF a(3,4,1)] unfolding a(2) by blast
  have so: "search_order filter_compare (packet_node (sample_packet 17)) [tcp_rule, udp_rule]"
    "search_order filter_compare (packet_node (sample_packet 1)) [tcp_rule, udp_rule]"
    "\<not> is_filter_prohib (sample_packet 17)" "rule_matches udp_rule (packet_node (sample_packet 17))"
    "\<not> rule_matches udp_rule (packet_node (sample_packet 1))" "\<not> rule_matches tcp_rule (packet_node (sample_packet 1))"
    "snd (fp_function (function_ptr udp_rule)) = [Discarded]" "snd (fp_function (function_ptr tcp_rule)) = [Discarded]"
    by (simp_all add: search_order_def) code_simp+
  show ?thesis
    using ft ipfilter_sound [OF ft(3), of "sample_packet 17"] ipfilter_sound [OF ft(3), of "sample_packet 1"] so by auto
qed

text \<open>C39: the search can miss a rule that matches: when the rule at the root is for a protocol with a smaller
  number than the packet's, and for any device, the packet is sent to the right; a rule to the left that matches it, for instance one
  for all protocols, is not found, so unless a rule to the right matches, the packet passes.\<close>

theorem ipfilter_misses_matching_rule:
  assumes "table_ok ft (xs @ r # ys)" "keyValue (nodes (filter_tree ft) (root (filter_tree ft))) = Some r"
    and "fdev r = 0" "proto r \<noteq> 0" "proto r < ip_proto p"
    and "x \<in> set xs" "rule_matches x (packet_node p)" "\<forall>y \<in> set ys. \<not> rule_matches y (packet_node p)"
  shows "ipfilter ft p = Some (0, [])"
proof -
  have t: "tree_keys (filter_tree ft) (xs @ r # ys)" "\<forall>y \<in> set (xs @ r # ys). filter_id y \<noteq> 0"
    "keys_sorted filter_compare (xs @ r # ys)" "inj_on filter_id (set (xs @ r # ys))" using assms(1) by (simp_all add: table_ok_def)
  have d: "distinct (xs @ r # ys)" by (rule table_distinct [OF assms(1)])
  have pr: "proto (packet_node p) = ip_proto p" by (simp add: packet_node_def zero_node_def Let_def)
  have "filter_compare r (packet_node p) < 0"
    using t(2) packet_id [of p] assms(3,4,5) pr by (auto simp: filter_compare_def match_defs cmp_defs Let_def)
  moreover have "\<forall>y \<in> set ys. filter_compare y (packet_node p) \<noteq> 0"
    using filter_compare_packet [OF _ packet_id] t(2) assms(8) by auto
  ultimately have "pico_tree_findNode filter_compare (filter_tree ft) (packet_node p) = Some LEAF"
    using findKey_past_root [OF t(1) d assms(2)] by blast
  then show ?thesis by (simp add: ipfilter_def ipfilter_apply_filter_def pico_tree_findKey_def)
qed

theorem ipfilter_misses_matching_rule_witness:
  "\<exists>ft1 ft2 x. add_drop 0 6 0 0 no_filters = Some (1, ft1) \<and> add_drop 0 0 (ip_src (sample_packet 17)) 0xFFFFFFFF ft1 = Some (2, ft2)
     \<and> rule_matches x (packet_node (sample_packet 17)) \<and> table_ok ft2 [x, tcp_rule] \<and> ipfilter ft2 (sample_packet 17) = Some (0, [])"
proof -
  define x where "x = zero_node\<lparr>proto := 0, in_addr := ip_src (sample_packet 17), in_addr_netmask := 0xFFFFFFFF, filter_id := 2, function_ptr := FILTER_DROP\<rparr>"
  have a: "rule_key tcp_rule \<noteq> rule_key x" "keys_insert filter_compare x [tcp_rule] = [x, tcp_rule]"
    "rule_matches x (packet_node (sample_packet 17))" "fdev tcp_rule = 0" "proto tcp_rule \<noteq> 0" "proto tcp_rule < ip_proto (sample_packet 17)"
    "tcp_rule = zero_node\<lparr>proto := 6, in_addr := 0, in_addr_netmask := 0, filter_id := 1, function_ptr := FILTER_DROP\<rparr>"
    unfolding x_def by code_simp+
  obtain ft1 ft2 where ft: "add_drop 0 6 0 0 no_filters = Some (1, ft1)" "add_drop 0 0 (ip_src (sample_packet 17)) 0xFFFFFFFF ft1 = Some (2, ft2)"
    "table_ok ft2 [x, tcp_rule]"
    using two_rules [OF a(7) x_def a(1)] unfolding a(2) by blast
  have "do { (_, f) \<leftarrow> add_drop 0 6 0 0 no_filters; (_, f) \<leftarrow> add_drop 0 0 (ip_src (sample_packet 17)) 0xFFFFFFFF f;
      keyValue (nodes (filter_tree f) (root (filter_tree f))) } = Some tcp_rule" by code_simp
  then have root: "keyValue (nodes (filter_tree ft2) (root (filter_tree ft2))) = Some tcp_rule" using ft by simp
  show ?thesis using ft a ipfilter_misses_matching_rule [of ft2 "[x]" tcp_rule "[]" "sample_packet 17" x] root by auto
qed



text \<open>The comparison of two rules compares a device pointer with itself: two rules that differ
  only in their device count as the same, and the second one is refused.\<close>

theorem filter_add_ignores_device:
  "(do { (i1, ft) \<leftarrow> add_drop 1 6 0 0 no_filters; (i2, ft) \<leftarrow> add_drop 2 6 0 0 ft; Some (i1, i2) }) = Some (1, 0)"
  by code_simp

end
