(* ===== verification/Tcp_Types.thy ===== *)
theory Tcp_Types
  imports Timers PTree_Spec Checksum
begin

text \<open>
  The data of \<open>modules/pico_tcp.c\<close>: segments, queues, the socket and the constants of
  \<open>pico_tcp.h\<close> and \<open>pico_socket.h\<close>.  A frame is the value of what TCP reads and writes in it:
  the TCP header with its fields in network order, the bytes behind the header, the offset of the
  payload and the frame's own fields.  The frames of a socket are in a store, the queues hold
  their addresses, so a frame changed in place is changed wherever it is referred to.  Calls
  to other parts of the stack (queue to IP, timers, wakeup of the application, sockets) are
  recorded in order in \<open>effects\<close>; what they return is the state's supply of clock, memory and
  timer results.
\<close>

section \<open>Constants\<close>

definition PICO_TCP_RTO_MIN :: u32 where "PICO_TCP_RTO_MIN = 70"
definition PICO_TCP_RTO_MAX :: u32 where "PICO_TCP_RTO_MAX = 120000"
definition PICO_TCP_IW :: u16 where "PICO_TCP_IW = 2"
definition PICO_TCP_SYN_TO :: u32 where "PICO_TCP_SYN_TO = 2000"
definition PICO_TCP_MAX_RETRANS :: u8 where "PICO_TCP_MAX_RETRANS = 10"
definition PICO_TCP_MAX_CONNECT_RETRIES :: u8 where "PICO_TCP_MAX_CONNECT_RETRIES = 3"
definition PICO_TCP_LOOKAHEAD :: u8 where "PICO_TCP_LOOKAHEAD = 0"
definition PICO_TCP_RECOVER :: u8 where "PICO_TCP_RECOVER = 3"
definition PICO_TCP_BLACKOUT :: u8 where "PICO_TCP_BLACKOUT = 4"
definition PICO_TCP_WINDOW_FULL :: u8 where "PICO_TCP_WINDOW_FULL = 6"
definition ONE_GIGABYTE :: u32 where "ONE_GIGABYTE = 1024 * 1024 * 1024"

text \<open>Linux host.\<close>

definition PICO_DEFAULT_SOCKETQ :: u32 where "PICO_DEFAULT_SOCKETQ = 16 * 1024"
definition PICO_SOCKET_LINGER_TIMEOUT :: u32 where "PICO_SOCKET_LINGER_TIMEOUT = 3000"

definition PICO_TCP_FIN :: u8 where "PICO_TCP_FIN = 0x01"
definition PICO_TCP_SYN :: u8 where "PICO_TCP_SYN = 0x02"
definition PICO_TCP_RST :: u8 where "PICO_TCP_RST = 0x04"
definition PICO_TCP_PSH :: u8 where "PICO_TCP_PSH = 0x08"
definition PICO_TCP_ACK :: u8 where "PICO_TCP_ACK = 0x10"
definition PICO_TCP_SYNACK :: u8 where "PICO_TCP_SYNACK = PICO_TCP_SYN OR PICO_TCP_ACK"
definition PICO_TCP_PSHACK :: u8 where "PICO_TCP_PSHACK = PICO_TCP_PSH OR PICO_TCP_ACK"
definition PICO_TCP_FINACK :: u8 where "PICO_TCP_FINACK = PICO_TCP_FIN OR PICO_TCP_ACK"
definition PICO_TCP_FINPSHACK :: u8 where
  "PICO_TCP_FINPSHACK = PICO_TCP_FIN OR PICO_TCP_PSH OR PICO_TCP_ACK"
definition PICO_TCP_RSTACK :: u8 where "PICO_TCP_RSTACK = PICO_TCP_RST OR PICO_TCP_ACK"

definition PICO_TCP_OPTION_END :: u8 where "PICO_TCP_OPTION_END = 0x00"
definition PICO_TCP_OPTION_NOOP :: u8 where "PICO_TCP_OPTION_NOOP = 0x01"
definition PICO_TCP_OPTION_MSS :: u8 where "PICO_TCP_OPTION_MSS = 0x02"
definition PICO_TCP_OPTION_WS :: u8 where "PICO_TCP_OPTION_WS = 0x03"
definition PICO_TCP_OPTION_SACK_OK :: u8 where "PICO_TCP_OPTION_SACK_OK = 0x04"
definition PICO_TCP_OPTION_SACK :: u8 where "PICO_TCP_OPTION_SACK = 0x05"
definition PICO_TCP_OPTION_TIMESTAMP :: u8 where "PICO_TCP_OPTION_TIMESTAMP = 0x08"
definition PICO_TCPOPTLEN_END :: u16 where "PICO_TCPOPTLEN_END = 1"
definition PICO_TCPOPTLEN_MSS :: u8 where "PICO_TCPOPTLEN_MSS = 4"
definition PICO_TCPOPTLEN_WS :: u8 where "PICO_TCPOPTLEN_WS = 3"
definition PICO_TCPOPTLEN_SACK_OK :: u8 where "PICO_TCPOPTLEN_SACK_OK = 2"
definition PICO_TCPOPTLEN_SACK :: u8 where "PICO_TCPOPTLEN_SACK = 2"
definition PICO_TCPOPTLEN_TIMESTAMP :: u8 where "PICO_TCPOPTLEN_TIMESTAMP = 10"
definition PICO_SIZE_TCPHDR :: nat where "PICO_SIZE_TCPHDR = 20"

definition PICO_SOCKET_STATE_SHUT_LOCAL :: u16 where "PICO_SOCKET_STATE_SHUT_LOCAL = 0x0001"
definition PICO_SOCKET_STATE_SHUT_REMOTE :: u16 where "PICO_SOCKET_STATE_SHUT_REMOTE = 0x0002"
definition PICO_SOCKET_STATE_BOUND :: u16 where "PICO_SOCKET_STATE_BOUND = 0x0004"
definition PICO_SOCKET_STATE_CONNECTED :: u16 where "PICO_SOCKET_STATE_CONNECTED = 0x0008"
definition PICO_SOCKET_STATE_CLOSED :: u16 where "PICO_SOCKET_STATE_CLOSED = 0x0020"
definition PICO_SOCKET_STATE_TCP :: u16 where "PICO_SOCKET_STATE_TCP = 0xFF00"
definition PICO_SOCKET_STATE_TCP_CLOSED :: u16 where "PICO_SOCKET_STATE_TCP_CLOSED = 0x0100"
definition PICO_SOCKET_STATE_TCP_LISTEN :: u16 where "PICO_SOCKET_STATE_TCP_LISTEN = 0x0200"
definition PICO_SOCKET_STATE_TCP_SYN_SENT :: u16 where "PICO_SOCKET_STATE_TCP_SYN_SENT = 0x0300"
definition PICO_SOCKET_STATE_TCP_SYN_RECV :: u16 where "PICO_SOCKET_STATE_TCP_SYN_RECV = 0x0400"
definition PICO_SOCKET_STATE_TCP_ESTABLISHED :: u16 where "PICO_SOCKET_STATE_TCP_ESTABLISHED = 0x0500"
definition PICO_SOCKET_STATE_TCP_CLOSE_WAIT :: u16 where "PICO_SOCKET_STATE_TCP_CLOSE_WAIT = 0x0600"
definition PICO_SOCKET_STATE_TCP_LAST_ACK :: u16 where "PICO_SOCKET_STATE_TCP_LAST_ACK = 0x0700"
definition PICO_SOCKET_STATE_TCP_FIN_WAIT1 :: u16 where "PICO_SOCKET_STATE_TCP_FIN_WAIT1 = 0x0800"
definition PICO_SOCKET_STATE_TCP_FIN_WAIT2 :: u16 where "PICO_SOCKET_STATE_TCP_FIN_WAIT2 = 0x0900"
definition PICO_SOCKET_STATE_TCP_CLOSING :: u16 where "PICO_SOCKET_STATE_TCP_CLOSING = 0x0a00"
definition PICO_SOCKET_STATE_TCP_TIME_WAIT :: u16 where "PICO_SOCKET_STATE_TCP_TIME_WAIT = 0x0b00"
definition PICO_SOCKET_STATE_TCP_ARRAYSIZ :: nat where "PICO_SOCKET_STATE_TCP_ARRAYSIZ = 0x0c"

definition PICO_SOCK_EV_RD :: u16 where "PICO_SOCK_EV_RD = 1"
definition PICO_SOCK_EV_WR :: u16 where "PICO_SOCK_EV_WR = 2"
definition PICO_SOCK_EV_CONN :: u16 where "PICO_SOCK_EV_CONN = 4"
definition PICO_SOCK_EV_CLOSE :: u16 where "PICO_SOCK_EV_CLOSE = 8"
definition PICO_SOCK_EV_FIN :: u16 where "PICO_SOCK_EV_FIN = 0x10"
definition PICO_SOCK_EV_ERR :: u16 where "PICO_SOCK_EV_ERR = 0x80"

definition PICO_FRAME_FLAG_SACKED :: u8 where "PICO_FRAME_FLAG_SACKED = 0x80"

section \<open>Frames\<close>

text \<open>An address of either family, its bytes as in memory.\<close>

datatype pico_address = Ip4 u32 | Ip6 "u8 list"

record tcp_frame =
  h_sport :: u16
  h_dport :: u16
  h_seq :: u32
  h_ack :: u32
  h_len :: u8
  h_flags :: u8
  h_rwnd :: u16
  h_crc :: u16
  h_urgent :: u16
  f_body :: "u8 list"
  f_payload :: nat
  f_payload_len :: u16
  f_transport_len :: u16
  f_buffer_len :: u32
  f_timestamp :: u64
  f_flags :: u8
  f_transport_flags_saved :: u8
  f_src :: pico_address
  f_dst :: pico_address

definition zero_tcp_frame :: tcp_frame where
  "zero_tcp_frame = \<lparr>h_sport = 0, h_dport = 0, h_seq = 0, h_ack = 0, h_len = 0, h_flags = 0,
     h_rwnd = 0, h_crc = 0, h_urgent = 0, f_body = [], f_payload = 0, f_payload_len = 0,
     f_transport_len = 0, f_buffer_len = 0, f_timestamp = 0, f_flags = 0,
     f_transport_flags_saved = 0, f_src = Ip4 0, f_dst = Ip4 0\<rparr>"

definition bytes_of_u16 :: "u16 \<Rightarrow> u8 list" where
  "bytes_of_u16 w = [ucast w, ucast (drop_bit 8 w)]"

text \<open>The transport layer of a frame as the bytes from \<open>transport_hdr\<close> on.\<close>

definition pico_tcp_hdr :: "tcp_frame \<Rightarrow> u8 list" where
  "pico_tcp_hdr f = bytes_of_u16 (h_sport f) @ bytes_of_u16 (h_dport f) @ bytes_of_u32 (h_seq f)
     @ bytes_of_u32 (h_ack f) @ [h_len f, h_flags f] @ bytes_of_u16 (h_rwnd f)
     @ bytes_of_u16 (h_crc f) @ bytes_of_u16 (h_urgent f)"

definition transport_bytes :: "tcp_frame \<Rightarrow> u8 list" where
  "transport_bytes f = pico_tcp_hdr f @ f_body f"

text \<open>\<open>n\<close> bytes from offset \<open>off\<close>; reading past the end is an error.\<close>

definition mem_read :: "u8 list \<Rightarrow> nat \<Rightarrow> nat \<Rightarrow> u8 list option" where
  "mem_read m off n = (if off + n \<le> length m then Some (take n (drop off m)) else None)"

definition mem_write :: "u8 list \<Rightarrow> nat \<Rightarrow> u8 list \<Rightarrow> u8 list option" where
  "mem_write m off bs = (if off + length bs \<le> length m
     then Some (take off m @ bs @ drop (off + length bs) m) else None)"

definition frame_payload :: "tcp_frame \<Rightarrow> u8 list option" where
  "frame_payload f = mem_read (transport_bytes f) (f_payload f) (unat (f_payload_len f))"

definition SEQN :: "tcp_frame \<Rightarrow> u32" where "SEQN f = long_be (h_seq f)"
definition ACKN :: "tcp_frame \<Rightarrow> u32" where "ACKN f = long_be (h_ack f)"

section \<open>Queues\<close>

record tcp_input_segment =
  seg_seq :: u32
  seg_payload :: "u8 list"
  seg_payload_len :: u16

text \<open>What a queue holds: an input segment or the address of a frame.\<close>

datatype tcp_elem = Inp tcp_input_segment | Frm int

text \<open>\<open>is_input\<close> stands for the comparison of \<open>pool.compare\<close> with \<open>input_segment_compare\<close>.\<close>

record pico_tcp_queue =
  pool :: "tcp_elem pico_tree"
  is_input :: bool
  tq_max_size :: u32
  tq_size :: u32
  tq_frames :: u32

section \<open>The socket\<close>

record tcp_sack_block =
  sb_left :: u32
  sb_right :: u32

datatype tcp_timer = T_retrans | T_initconn | T_keepalive | T_linger

datatype tcp_effect =
    Send tcp_frame
  | Wakeup u16
  | Parent_wakeup u16
  | Timer_add u64 tcp_timer
  | Timer_cancel u32
  | Socket_add
  | Socket_del
  | Socket_free
  | Frame_push tcp_frame

record pico_socket_tcp =
  state :: u16
  net_set :: bool
  local_addr :: pico_address
  remote_addr :: pico_address
  local_port :: u16
  remote_port :: u16
  ev_pending :: u16
  opt_flags :: u16
  sockport :: bool
  has_wakeup :: bool
  has_parent :: bool
  parent_wakeup :: bool
  max_backlog :: u16
  number_of_pending_conn :: u16
  sock_timestamp :: u64
  dev_mtu :: "u32 option"
  dev_find :: "pico_address \<Rightarrow> u32 option"
  tcpq_in :: pico_tcp_queue
  tcpq_out :: pico_tcp_queue
  tcpq_hold :: pico_tcp_queue
  snd_nxt :: u32
  snd_last :: u32
  snd_old_ack :: u32
  snd_retry :: u32
  snd_last_out :: u32
  avg_rtt :: u32
  rttvar :: u32
  rto :: u32
  in_flight :: u32
  retrans_tmr :: u32
  retrans_tmr_due :: u64
  cwnd_counter :: u16
  cwnd :: u16
  ssthresh :: u16
  recv_wnd :: u16
  recv_wnd_scale :: u16
  rcv_nxt :: u32
  rcv_ackd :: u32
  rcv_processed :: u32
  wnd :: u16
  wnd_scale :: u16
  remote_closed :: u16
  ts_nxt :: u32
  mss :: u16
  sack_ok :: u8
  ts_ok :: u8
  mss_ok :: u8
  sacks :: "tcp_sack_block list"
  jumbo :: u8
  linger_timeout :: u32
  x_mode :: u8
  backoff :: u8
  localZeroWindow :: u8
  keepalive_tmr :: u32
  ack_timestamp :: u64
  ka_time :: u32
  ka_intvl :: u32
  ka_probes :: u32
  ka_retries_count :: u32
  fin_tmr :: u32
  store :: "int \<Rightarrow> tcp_frame"
  next_addr :: int
  discarded :: "int list"
  pico_err :: pico_err_t
  now :: u64
  mem_supply :: "bool list"
  queue_supply :: "bool list"
  tmr_supply :: "u32 list"
  rand_supply :: "u32 list"
  effects :: "tcp_effect list"

text \<open>A record of zeros, what \<open>PICO_ZALLOC\<close> gives, with empty queues.\<close>

definition zero_queue :: "bool \<Rightarrow> pico_tcp_queue" where
  "zero_queue inp = \<lparr>pool = empty_tree, is_input = inp, tq_max_size = 0, tq_size = 0, tq_frames = 0\<rparr>"

definition zero_socket :: pico_socket_tcp where
  "zero_socket = \<lparr>state = 0, net_set = True, local_addr = Ip4 0, remote_addr = Ip4 0,
     local_port = 0, remote_port = 0, ev_pending = 0, opt_flags = 0, sockport = True, has_wakeup = False,
     has_parent = False, parent_wakeup = False, max_backlog = 0, number_of_pending_conn = 0,
     sock_timestamp = 0, dev_mtu = None, dev_find = (\<lambda>_. None), tcpq_in = zero_queue True, tcpq_out = zero_queue False,
     tcpq_hold = zero_queue False, snd_nxt = 0, snd_last = 0, snd_old_ack = 0, snd_retry = 0,
     snd_last_out = 0, avg_rtt = 0, rttvar = 0, rto = 0, in_flight = 0, retrans_tmr = 0,
     retrans_tmr_due = 0, cwnd_counter = 0, cwnd = 0, ssthresh = 0, recv_wnd = 0,
     recv_wnd_scale = 0, rcv_nxt = 0, rcv_ackd = 0, rcv_processed = 0, wnd = 0, wnd_scale = 0,
     remote_closed = 0, ts_nxt = 0, mss = 0, sack_ok = 0, ts_ok = 0, mss_ok = 0, sacks = [],
     jumbo = 0, linger_timeout = 0, x_mode = 0, backoff = 0, localZeroWindow = 0,
     keepalive_tmr = 0, ack_timestamp = 0, ka_time = 0, ka_intvl = 0, ka_probes = 0,
     ka_retries_count = 0, fin_tmr = 0, store = (\<lambda>_. zero_tcp_frame), next_addr = 1,
     discarded = [], pico_err = PICO_ERR_NOERR, now = 0, mem_supply = [], queue_supply = [],
     tmr_supply = [], rand_supply = [], effects = []\<rparr>"

section \<open>Calls to the rest of the stack\<close>

text \<open>An allocation: the next answer of the supply, success when it is used up.\<close>

definition tcp_alloc :: "pico_socket_tcp \<Rightarrow> bool \<times> pico_socket_tcp" where
  "tcp_alloc t = (case mem_supply t of [] \<Rightarrow> (True, t) | b # bs \<Rightarrow> (b, t\<lparr>mem_supply := bs\<rparr>))"

text \<open>\<open>pico_enqueue (&tcp_out, f)\<close>: whether the queue had room.\<close>

definition enqueue_tcp_out :: "pico_socket_tcp \<Rightarrow> tcp_frame \<Rightarrow> bool \<times> pico_socket_tcp" where
  "enqueue_tcp_out t f = (case queue_supply t of
      [] \<Rightarrow> (True, t\<lparr>effects := effects t @ [Send f]\<rparr>)
    | b # bs \<Rightarrow> (b, t\<lparr>queue_supply := bs, effects := (if b then effects t @ [Send f] else effects t)\<rparr>))"

text \<open>\<open>pico_timer_add\<close>: the id of the new timer, 0 on failure.\<close>

definition tcp_timer_add :: "pico_socket_tcp \<Rightarrow> u64 \<Rightarrow> tcp_timer \<Rightarrow> u32 \<times> pico_socket_tcp" where
  "tcp_timer_add t delay cb = (case tmr_supply t of
      [] \<Rightarrow> (0, t)
    | r # rs \<Rightarrow> (r, t\<lparr>tmr_supply := rs,
        effects := (if r = 0 then effects t else effects t @ [Timer_add delay cb])\<rparr>))"

definition tcp_effect :: "pico_socket_tcp \<Rightarrow> tcp_effect \<Rightarrow> pico_socket_tcp" where
  "tcp_effect t e = t\<lparr>effects := effects t @ [e]\<rparr>"

definition sock_wakeup :: "pico_socket_tcp \<Rightarrow> u16 \<Rightarrow> pico_socket_tcp" where
  "sock_wakeup t ev = (if has_wakeup t then tcp_effect t (Wakeup ev) else t)"

definition pico_rand_next :: "pico_socket_tcp \<Rightarrow> u32 \<times> pico_socket_tcp" where
  "pico_rand_next t = (case rand_supply t of [] \<Rightarrow> (0, t) | r # rs \<Rightarrow> (r, t\<lparr>rand_supply := rs\<rparr>))"

definition tcp_frame_discard :: "pico_socket_tcp \<Rightarrow> int \<Rightarrow> pico_socket_tcp" where
  "tcp_frame_discard t p = (if p = 0 then t else t\<lparr>discarded := discarded t @ [p]\<rparr>)"

definition upd_frame :: "pico_socket_tcp \<Rightarrow> int \<Rightarrow> (tcp_frame \<Rightarrow> tcp_frame) \<Rightarrow> pico_socket_tcp" where
  "upd_frame t p g = t\<lparr>store := (store t)(p := g (store t p))\<rparr>"

end
