(* ===== verification/Tcp_Queue.thy ===== *)
theory Tcp_Queue
  imports Tcp_Types "HOL-Library.Monad_Syntax"
begin

text \<open>
  The segment queues of \<open>modules/pico_tcp.c\<close>: trees of segments in the order of their sequence
  numbers, with counters.  The definitions call the tree operations of \<open>PTree\<close> with the code's
  compare functions; \<open>None\<close> is an access to memory the frame or the segment does not have.
\<close>

section \<open>Compare functions\<close>

definition input_segment_compare :: "tcp_input_segment \<Rightarrow> tcp_input_segment \<Rightarrow> int" where
  "input_segment_compare a b = pico_seq_compare (seg_seq a) (seg_seq b)"

definition segment_compare :: "(int \<Rightarrow> tcp_frame) \<Rightarrow> int \<Rightarrow> int \<Rightarrow> int" where
  "segment_compare st a b = pico_seq_compare (SEQN (st a)) (SEQN (st b))"

fun pool_compare :: "(int \<Rightarrow> tcp_frame) \<Rightarrow> tcp_elem \<Rightarrow> tcp_elem \<Rightarrow> int" where
  "pool_compare st (Inp a) (Inp b) = input_segment_compare a b"
| "pool_compare st (Frm a) (Frm b) = segment_compare st a b"
| "pool_compare st _ _ = 0"

fun elem_seq :: "(int \<Rightarrow> tcp_frame) \<Rightarrow> tcp_elem \<Rightarrow> u32" where
  "elem_seq st (Inp s) = seg_seq s"
| "elem_seq st (Frm p) = SEQN (st p)"

fun elem_payload_len :: "(int \<Rightarrow> tcp_frame) \<Rightarrow> tcp_elem \<Rightarrow> u16" where
  "elem_payload_len st (Inp s) = seg_payload_len s"
| "elem_payload_len st (Frm p) = f_payload_len (st p)"

text \<open>A pointer to one of the three queues of a socket.\<close>

datatype tcp_q = Q_in | Q_out | Q_hold

primrec get_q :: "tcp_q \<Rightarrow> pico_socket_tcp \<Rightarrow> pico_tcp_queue" where
  "get_q Q_in t = tcpq_in t"
| "get_q Q_out t = tcpq_out t"
| "get_q Q_hold t = tcpq_hold t"

primrec set_q :: "tcp_q \<Rightarrow> pico_tcp_queue \<Rightarrow> pico_socket_tcp \<Rightarrow> pico_socket_tcp" where
  "set_q Q_in v t = t\<lparr>tcpq_in := v\<rparr>"
| "set_q Q_out v t = t\<lparr>tcpq_out := v\<rparr>"
| "set_q Q_hold v t = t\<lparr>tcpq_hold := v\<rparr>"

section \<open>Looking up\<close>

text \<open>The key searched for is a frame or a segment on the stack; the address of that frame.\<close>

abbreviation STACK :: int where "STACK \<equiv> -1"

definition peek_segment :: "pico_socket_tcp \<Rightarrow> tcp_q \<Rightarrow> u32 \<Rightarrow> tcp_elem option option" where
  "peek_segment t qq seq =
     (let q = get_q qq t in
      if \<not> is_input q then
        (let st = (store t)(STACK := zero_tcp_frame\<lparr>h_seq := long_be seq\<rparr>)
         in pico_tree_findKey (pool_compare st) (pool q) (Frm STACK))
      else pico_tree_findKey (pool_compare (store t)) (pool q)
             (Inp \<lparr>seg_seq = seq, seg_payload = [], seg_payload_len = 0\<rparr>))"

definition first_segment :: "pico_socket_tcp \<Rightarrow> tcp_q \<Rightarrow> tcp_elem option option" where
  "first_segment t qq = pico_tree_first (pool (get_q qq t))"

definition next_segment :: "pico_socket_tcp \<Rightarrow> tcp_q \<Rightarrow> tcp_elem option \<Rightarrow> tcp_elem option option" where
  "next_segment t qq cur = (case cur of None \<Rightarrow> Some None
     | Some c \<Rightarrow> peek_segment t qq (elem_seq (store t) c + ucast (elem_payload_len (store t) c)))"

section \<open>Enqueueing and discarding\<close>

fun enqueue_segment_len :: "pico_socket_tcp \<Rightarrow> tcp_elem \<Rightarrow> u16" where
  "enqueue_segment_len t (Inp s) = seg_payload_len s"
| "enqueue_segment_len t (Frm p) = ucast (f_buffer_len (store t p))"

definition do_enqueue_segment ::
    "pico_socket_tcp \<Rightarrow> tcp_q \<Rightarrow> tcp_elem \<Rightarrow> u16 \<Rightarrow> (int \<times> pico_socket_tcp) option" where
  "do_enqueue_segment t qq f plen =
     (let q = get_q qq t in
      if tq_max_size q < tq_size q + ucast plen then Some (0, t)
      else do {
        let (m, t') = tcp_alloc t;
        (r, tree) \<leftarrow> pico_tree_insert (pool_compare (store t)) (pool q) f m;
        (case r of
           Ins_EEXIST _ \<Rightarrow> Some (0, t)
         | Ins_LEAF \<Rightarrow> Some (0, t')
         | Ins_NULL \<Rightarrow>
             Some (int (unat plen), set_q qq (q\<lparr>pool := tree, tq_size := tq_size q + ucast plen,
               tq_frames := (if plen > 0 then tq_frames q + 1 else tq_frames q)\<rparr>) t')) })"

definition pico_enqueue_segment ::
    "pico_socket_tcp \<Rightarrow> tcp_q \<Rightarrow> tcp_elem option \<Rightarrow> (int \<times> pico_socket_tcp) option" where
  "pico_enqueue_segment t qq f =
     (case f of None \<Rightarrow> Some (-1, t)
      | Some e \<Rightarrow> (let plen = enqueue_segment_len t e in
          if plen = 0 then Some (-1, t) else do_enqueue_segment t qq e plen))"

text \<open>An input segment that is not in the queue would be given to \<open>pico_frame_discard\<close>.\<close>

definition pico_discard_segment :: "pico_socket_tcp \<Rightarrow> tcp_q \<Rightarrow> tcp_elem \<Rightarrow> pico_socket_tcp option" where
  "pico_discard_segment t qq f = do {
     let q = get_q qq t;
     let plen = enqueue_segment_len t f;
     (f1, tree) \<leftarrow> pico_tree_delete (pool_compare (store t)) (pool q) (Some f);
     let q = q\<lparr>pool := tree\<rparr>;
     let t = set_q qq (if f1 \<noteq> None then q\<lparr>tq_size := tq_size q - ucast plen,
               tq_frames := (if plen > 0 then tq_frames q - 1 else tq_frames q)\<rparr> else q) t;
     (case f of
        Inp _ \<Rightarrow> if f1 \<noteq> None then Some t else None
      | Frm p \<Rightarrow> Some (tcp_frame_discard t p)) }"

definition pico_tcp_queue_in_is_empty :: "pico_socket_tcp \<Rightarrow> bool" where
  "pico_tcp_queue_in_is_empty t = (tq_frames (tcpq_in t) = 0)"

section \<open>Releasing from the front\<close>

partial_function (option) release_until_loop ::
    "pico_socket_tcp \<Rightarrow> tcp_q \<Rightarrow> u32 \<Rightarrow> tcp_elem \<Rightarrow> nat \<Rightarrow> (nat \<times> pico_socket_tcp) option" where
  "release_until_loop t qq seq head ret =
     (if pico_seq_compare (elem_seq (store t) head + ucast (elem_payload_len (store t) head)) seq \<le> 0
      then do {
        nxt \<leftarrow> next_segment t qq (Some head);
        t \<leftarrow> pico_discard_segment t qq head;
        (case nxt of None \<Rightarrow> Some (ret + 1, t)
         | Some h \<Rightarrow> release_until_loop t qq seq h (ret + 1)) }
      else Some (ret, t))"

definition release_until :: "pico_socket_tcp \<Rightarrow> tcp_q \<Rightarrow> u32 \<Rightarrow> (nat \<times> pico_socket_tcp) option" where
  "release_until t qq seq = do {
     head \<leftarrow> first_segment t qq;
     (case head of None \<Rightarrow> Some (0, t) | Some h \<Rightarrow> release_until_loop t qq seq h 0) }"

text \<open>\<open>pico_tree_foreach_safe\<close> visits the keys the tree has when the loop starts: the body
  deletes none but the current one.\<close>

primrec release_all_loop ::
    "tcp_elem list \<Rightarrow> pico_socket_tcp \<Rightarrow> tcp_q \<Rightarrow> u32 \<Rightarrow> u64 \<Rightarrow> nat
     \<Rightarrow> (nat \<times> u64 \<times> pico_socket_tcp) option" where
  "release_all_loop [] t qq seq ts ret = Some (ret, ts, t)"
| "release_all_loop (f # fs) t qq seq ts ret =
     (let seq_result =
        pico_seq_compare (elem_seq (store t) f + ucast (elem_payload_len (store t) f)) seq in
      if seq_result \<le> 0 then
        (let ts = (case f of Frm p \<Rightarrow> if seq_result = 0 then f_timestamp (store t p) else ts | Inp _ \<Rightarrow> ts)
         in do { t \<leftarrow> pico_discard_segment t qq f; release_all_loop fs t qq seq ts (ret + 1) })
      else Some (ret, ts, t))"

definition release_all_until ::
    "pico_socket_tcp \<Rightarrow> tcp_q \<Rightarrow> u32 \<Rightarrow> (nat \<times> u64 \<times> pico_socket_tcp) option" where
  "release_all_until t qq seq = do {
     ks \<leftarrow> pico_tree_foreach (pool (get_q qq t));
     release_all_loop ks t qq seq 0 0 }"

primrec discard_all_loop :: "tcp_elem list \<Rightarrow> pico_socket_tcp \<Rightarrow> tcp_q \<Rightarrow> pico_socket_tcp option" where
  "discard_all_loop [] t qq = Some t"
| "discard_all_loop (f # fs) t qq = do {
     (_, tree) \<leftarrow> pico_tree_delete (pool_compare (store t)) (pool (get_q qq t)) (Some f);
     let t = set_q qq ((get_q qq t)\<lparr>pool := tree\<rparr>) t;
     let t = (case f of Inp _ \<Rightarrow> t | Frm p \<Rightarrow> tcp_frame_discard t p);
     discard_all_loop fs t qq }"

definition tcp_discard_all_segments :: "pico_socket_tcp \<Rightarrow> tcp_q \<Rightarrow> pico_socket_tcp option" where
  "tcp_discard_all_segments t qq = do {
     ks \<leftarrow> pico_tree_foreach (pool (get_q qq t));
     t \<leftarrow> discard_all_loop ks t qq;
     Some (set_q qq ((get_q qq t)\<lparr>tq_frames := 0, tq_size := 0\<rparr>) t) }"

section \<open>Received data\<close>

text \<open>Returns NULL for an empty payload or when an allocation fails.\<close>

definition segment_from_frame ::
    "pico_socket_tcp \<Rightarrow> int \<Rightarrow> (tcp_input_segment option \<times> pico_socket_tcp) option" where
  "segment_from_frame t f =
     (if f_payload_len (store t f) = 0 then Some (None, t)
      else let (m1, t) = tcp_alloc t in
        if \<not> m1 then Some (None, t)
        else let (m2, t) = tcp_alloc t in
          if \<not> m2 then Some (None, t)
          else do {
            bs \<leftarrow> frame_payload (store t f);
            Some (Some \<lparr>seg_seq = SEQN (store t f), seg_payload = bs,
                        seg_payload_len = f_payload_len (store t f)\<rparr>, t) })"

partial_function (option) scroll_rcv_nxt :: "pico_socket_tcp \<Rightarrow> pico_socket_tcp option" where
  "scroll_rcv_nxt t = do {
     nxt \<leftarrow> peek_segment t Q_in (rcv_nxt t);
     (case nxt of None \<Rightarrow> Some t
      | Some e \<Rightarrow> scroll_rcv_nxt (t\<lparr>rcv_nxt := rcv_nxt t + ucast (elem_payload_len (store t) e)\<rparr>)) }"

definition tcp_data_in_expected :: "pico_socket_tcp \<Rightarrow> int \<Rightarrow> (int \<times> pico_socket_tcp) option" where
  "tcp_data_in_expected t f =
     (if pico_seq_compare (SEQN (store t f)) (rcv_nxt t) = 0 then do {
        (input, t) \<leftarrow> segment_from_frame t f;
        (case input of
           None \<Rightarrow> Some (-1, t\<lparr>pico_err := PICO_ERR_ENOMEM\<rparr>)
         | Some s \<Rightarrow> do {
             (r, t) \<leftarrow> pico_enqueue_segment t Q_in (Some (Inp s));
             (if r \<le> 0 then Some (-1, t)
              else do {
                let t = t\<lparr>rcv_nxt := SEQN (store t f) + ucast (f_payload_len (store t f))\<rparr>;
                t \<leftarrow> scroll_rcv_nxt t;
                Some (0, t\<lparr>ev_pending := ev_pending t OR PICO_SOCK_EV_RD\<rparr>) }) }) }
      else Some (0, t))"

text \<open>\<open>tcp_sack_prepare\<close>: the blocks of data beyond \<open>rcv_nxt\<close>, at most three.\<close>

definition add_sack :: "pico_socket_tcp \<Rightarrow> u32 \<Rightarrow> u32 \<Rightarrow> pico_socket_tcp" where
  "add_sack t left right =
     t\<lparr>sacks := \<lparr>sb_left = long_be left, sb_right = long_be right\<rparr> # sacks t\<rparr>"

partial_function (option) sack_prepare_loop ::
    "pico_socket_tcp \<Rightarrow> tcp_elem option \<Rightarrow> u32 \<Rightarrow> u32 \<Rightarrow> nat \<Rightarrow> pico_socket_tcp option" where
  "sack_prepare_loop t pkt left right n =
     (if \<not> n < 3 then Some t
      else case pkt of
        None \<Rightarrow>
          (if left \<noteq> 0 then
             (let (m, t) = tcp_alloc t in if m then Some (add_sack t left right) else Some t)
           else Some t)
      | Some e \<Rightarrow>
          (let sq = elem_seq (store t) e; plen = ucast (elem_payload_len (store t) e) in
           if sq < rcv_nxt t then do {
             nxt \<leftarrow> next_segment t Q_in pkt;
             sack_prepare_loop t nxt left right n }
           else if left = 0 then do {
             nxt \<leftarrow> next_segment t Q_in pkt;
             sack_prepare_loop t nxt sq (sq + plen) n }
           else if sq = right then do {
             nxt \<leftarrow> next_segment t Q_in pkt;
             sack_prepare_loop t nxt left (right + plen) n }
           else
             (let (m, t) = tcp_alloc t in
              if \<not> m then Some t
              else do {
                let t = add_sack t left right;
                nxt \<leftarrow> next_segment t Q_in pkt;
                sack_prepare_loop t nxt 0 0 (n + 1) })))"

definition tcp_sack_prepare :: "pico_socket_tcp \<Rightarrow> pico_socket_tcp option" where
  "tcp_sack_prepare t =
     (if sacks t \<noteq> [] then Some t
      else do { pkt \<leftarrow> first_segment t Q_in; sack_prepare_loop t pkt 0 0 0 })"

definition tcp_data_in_high_segment :: "pico_socket_tcp \<Rightarrow> int \<Rightarrow> (int \<times> pico_socket_tcp) option" where
  "tcp_data_in_high_segment t f =
     (if sack_ok t \<noteq> 0 then do {
        (input, t) \<leftarrow> segment_from_frame t f;
        (case input of
           None \<Rightarrow> Some (-1, t\<lparr>pico_err := PICO_ERR_ENOMEM\<rparr>)
         | Some s \<Rightarrow> do {
             (r, t) \<leftarrow> pico_enqueue_segment t Q_in (Some (Inp s));
             (if r \<le> 0 then Some (-1, t)
              else do { t \<leftarrow> tcp_sack_prepare t; Some (0, t) }) }) }
      else Some (0, t))"

section \<open>Reading\<close>

definition tcp_read_in_frame_len :: "tcp_input_segment \<Rightarrow> int \<Rightarrow> u32 \<Rightarrow> u32 \<Rightarrow> u32" where
  "tcp_read_in_frame_len f in_frame_off tot_rd_len read_op_len =
     (let in_frame_len =
        (if in_frame_off > 0 then ucast (seg_payload_len f) - word_of_int in_frame_off
         else ucast (seg_payload_len f))
      in if read_op_len < in_frame_len + tot_rd_len then read_op_len - tot_rd_len else in_frame_len)"

definition tcp_read_check_segment_done ::
    "pico_socket_tcp \<Rightarrow> tcp_input_segment \<Rightarrow> u32 \<Rightarrow> pico_socket_tcp option" where
  "tcp_read_check_segment_done t f in_frame_len =
     (if in_frame_len = 0 \<or> in_frame_len = ucast (seg_payload_len f)
      then pico_discard_segment t Q_in (Inp f) else Some t)"

text \<open>The loop of \<open>pico_tcp_read\<close> without \<open>tcp_read_finish\<close>: the bytes copied so far.\<close>

partial_function (option) read_loop ::
    "pico_socket_tcp \<Rightarrow> u32 \<Rightarrow> u32 \<Rightarrow> u8 list \<Rightarrow> (u8 list \<times> u32 \<times> pico_socket_tcp) option" where
  "read_loop t len tot buf =
     (if tot < len then do {
        (_, t) \<leftarrow> release_until t Q_in (rcv_processed t);
        f \<leftarrow> first_segment t Q_in;
        (case f of
           None \<Rightarrow> Some (buf, tot, t)
         | Some (Frm _) \<Rightarrow> None
         | Some (Inp s) \<Rightarrow>
             (let off = pico_seq_compare (rcv_processed t) (seg_seq s) in
              if off < 0 then Some (buf, tot, t)
              else do {
                let n = tcp_read_in_frame_len s off tot len;
                bs \<leftarrow> mem_read (seg_payload s) (nat off) (unat n);
                let t = t\<lparr>rcv_processed := rcv_processed t + n\<rparr>;
                t \<leftarrow> tcp_read_check_segment_done t s n;
                read_loop t len (tot + n) (buf @ bs) })) }
      else Some (buf, tot, t))"

declare release_until_loop.simps [code] scroll_rcv_nxt.simps [code] sack_prepare_loop.simps [code]
  read_loop.simps [code]

end
