(* ===== verification/Tcp_Reass.thy ===== *)
theory Tcp_Reass
  imports Tcp_Queue
begin

text \<open>
  Reassembly: the input queue of a socket as the list of its segments, and what receiving and
  reading do to it.  Sequence numbers are read as signed offsets from a number \<open>base\<close> near the
  window, where \<open>pico_seq_compare\<close> is an order and the tree of the queue keeps its contract.
\<close>

section \<open>Offsets\<close>

definition soff :: "u32 \<Rightarrow> u32 \<Rightarrow> int" where "soff base x = sint (x - base)"

definition near :: "u32 \<Rightarrow> u32 \<Rightarrow> bool" where "near base x \<longleftrightarrow> \<bar>soff base x\<bar> < 2 ^ 30"

lemma sint_of_int_u32: "- (2 ^ 31) \<le> i \<Longrightarrow> i < 2 ^ 31 \<Longrightarrow> sint (word_of_int i :: u32) = i"
  by (simp add: signed_of_int signed_take_bit_int_eq_self)

lemma word_of_int_soff: "word_of_int (soff base x) = x - base"
  by (simp add: soff_def)

lemma soff_unique: "x = base + word_of_int i \<Longrightarrow> - (2 ^ 31) \<le> i \<Longrightarrow> i < 2 ^ 31 \<Longrightarrow> soff base x = i"
  by (simp add: soff_def sint_of_int_u32)

lemma soff_inject: "soff base x = soff base y \<longleftrightarrow> x = y"
  by (metis diff_add_cancel soff_def word_of_int_soff)

lemma pico_seq_compare_soff:
  assumes "near base x" "near base y"
  shows "pico_seq_compare x y = soff base x - soff base y"
proof -
  have e: "word_of_int (soff base x - soff base y) = x - y"
    by (simp only: of_int_diff word_of_int_soff) simp
  have "- (2 ^ 31) \<le> soff base x - soff base y" "soff base x - soff base y < 2 ^ 31"
    using assms by (auto simp: near_def abs_less_iff)
  then have s: "sint (x - y) = soff base x - soff base y"
    using sint_of_int_u32 [of "soff base x - soff base y"] by (simp only: e)
  have "x - y \<noteq> 0x80000000"
  proof
    assume "x - y = 0x80000000"
    then have "sint (x - y) = - (2 ^ 31)" by simp
    then show False using s assms by (simp add: near_def)
  qed
  then show ?thesis using s by (simp add: pico_seq_compare_sint)
qed

lemma soff_add:
  assumes "near base x" "n < 2 ^ 30"
  shows "soff base (x + of_nat n) = soff base x + int n"
proof (rule soff_unique)
  show "x + of_nat n = base + word_of_int (soff base x + int n)"
    by (simp add: word_of_int_soff)
qed (use assms in \<open>auto simp: near_def\<close>)


section \<open>The queue as a list\<close>

definition in_valid :: "u32 \<Rightarrow> tcp_elem \<Rightarrow> bool" where
  "in_valid base e = (case e of Inp s \<Rightarrow> near base (seg_seq s) | Frm _ \<Rightarrow> False)"

lemma in_compare:
  "in_valid base (Inp a) \<Longrightarrow> in_valid base (Inp b) \<Longrightarrow>
   pool_compare st (Inp a) (Inp b) = soff base (seg_seq a) - soff base (seg_seq b)"
  by (simp add: in_valid_def input_segment_compare_def pico_seq_compare_soff)

lemma in_compare_sign:
  assumes "in_valid base x" "in_valid base y"
  shows "pool_compare st x y = soff base (elem_seq st x) - soff base (elem_seq st y)"
  using assms by (cases x; cases y) (auto simp: in_valid_def input_segment_compare_def pico_seq_compare_soff)

lemma in_valid_cases: "in_valid base e \<Longrightarrow> \<exists>s. e = Inp s"
  by (cases e) (auto simp: in_valid_def)

interpretation in_tree: key_order "pool_compare st" "in_valid base" for st base
proof unfold_locales
  fix x y assume "in_valid base x" "in_valid base y"
  then show "pool_compare st x y < 0 \<longleftrightarrow> 0 < pool_compare st y x"
    using in_compare_sign [of base x y st] in_compare_sign [of base y x st] by simp
next
  fix x y z assume "in_valid base x" "in_valid base y" "in_valid base z"
    "pool_compare st x y \<le> 0" "pool_compare st y z \<le> 0"
  then show "pool_compare st x z \<le> 0"
    using in_compare_sign [of base x y st] in_compare_sign [of base y z st] in_compare_sign [of base x z st] by simp
qed

definition in_rep :: "u32 \<Rightarrow> pico_socket_tcp \<Rightarrow> tcp_input_segment list \<Rightarrow> bool" where
  "in_rep base t segs \<longleftrightarrow> is_input (tcpq_in t)
     \<and> tree_inv (pool_compare (store t)) (in_valid base) (pool (tcpq_in t)) (map Inp segs)"

abbreviation seg_len :: "tcp_input_segment \<Rightarrow> nat" where "seg_len s \<equiv> unat (seg_payload_len s)"

definition seg_start :: "u32 \<Rightarrow> tcp_input_segment \<Rightarrow> int" where "seg_start base s = soff base (seg_seq s)"
definition seg_end :: "u32 \<Rightarrow> tcp_input_segment \<Rightarrow> int" where
  "seg_end base s = seg_start base s + int (seg_len s)"

lemma in_rep_near: "in_rep base t segs \<Longrightarrow> s \<in> set segs \<Longrightarrow> near base (seg_seq s)"
  by (auto simp: in_rep_def tree_inv_def in_valid_def)

lemma in_rep_sorted:
  assumes "in_rep base t segs"
  shows "sorted_wrt (\<lambda>a b. seg_start base a < seg_start base b) segs"
proof -
  have n: "\<forall>s \<in> set segs. near base (seg_seq s)" using in_rep_near [OF assms] by blast
  have "sorted_wrt (\<lambda>a b. input_segment_compare a b < 0) segs"
    using assms by (simp add: in_rep_def tree_inv_def keys_sorted_def sorted_wrt_map)
  then show ?thesis
    by (rule sorted_wrt_mono_rel [rotated])
       (use n pico_seq_compare_soff in \<open>force simp: seg_start_def input_segment_compare_def\<close>)
qed

lemma in_first: "in_rep base t segs \<Longrightarrow>
    first_segment t Q_in = Some (case segs of [] \<Rightarrow> None | s # _ \<Rightarrow> Some (Inp s))"
  using tree_keys_first [of "pool (tcpq_in t)" "map Inp segs"]
  by (auto simp: first_segment_def in_rep_def tree_inv_def split: list.splits)

lemma in_keys_find:
  assumes "near base sq" "\<forall>s \<in> set segs. near base (seg_seq s)"
  shows "keys_find (pool_compare st) (Inp \<lparr>seg_seq = sq, seg_payload = p, seg_payload_len = l\<rparr>) (map Inp segs)
     = map_option Inp (find (\<lambda>s. seg_seq s = sq) segs)"
  using assms(2)
proof (induction segs)
  case (Cons s segs)
  then have "pico_seq_compare (seg_seq s) sq = soff base (seg_seq s) - soff base sq"
    using assms(1) by (simp add: pico_seq_compare_soff)
  then show ?case using Cons soff_inject [of base "seg_seq s" sq] by (simp add: input_segment_compare_def)
qed simp

lemma in_peek:
  assumes "in_rep base t segs" "near base sq"
  shows "peek_segment t Q_in sq = Some (map_option Inp (find (\<lambda>s. seg_seq s = sq) segs))"
proof -
  have "in_valid base (Inp \<lparr>seg_seq = sq, seg_payload = [], seg_payload_len = 0\<rparr>)"
    using assms(2) by (simp add: in_valid_def)
  then have "pico_tree_findKey (pool_compare (store t)) (pool (tcpq_in t)) (Inp \<lparr>seg_seq = sq, seg_payload = [], seg_payload_len = 0\<rparr>)
      = Some (keys_find (pool_compare (store t)) (Inp \<lparr>seg_seq = sq, seg_payload = [], seg_payload_len = 0\<rparr>) (map Inp segs))"
    using assms(1) by (intro in_tree.find_inv) (auto simp: in_rep_def)
  also have "\<dots> = Some (map_option Inp (find (\<lambda>s. seg_seq s = sq) segs))"
    using in_keys_find [OF assms(2)] in_rep_near [OF assms(1)] by simp
  finally show ?thesis using assms(1) by (simp add: peek_segment_def in_rep_def Let_def)
qed

lemma in_discard_first:
  assumes "in_rep base t (s # segs)"
  shows "\<exists>q. pico_discard_segment t Q_in (Inp s) = Some (t\<lparr>tcpq_in := q\<rparr>)
     \<and> in_rep base (t\<lparr>tcpq_in := q\<rparr>) segs"
proof -
  have v: "in_valid base (Inp s)" using in_rep_near [OF assms, of s] by (simp add: in_valid_def)
  have r: "tree_inv (pool_compare (store t)) (in_valid base) (pool (tcpq_in t)) (map Inp (s # segs))"
    using assms by (simp add: in_rep_def)
  obtain tr where "pico_tree_delete (pool_compare (store t)) (pool (tcpq_in t)) (Some (Inp s))
       = Some (keys_find (pool_compare (store t)) (Inp s) (map Inp (s # segs)), tr)"
     "tree_inv (pool_compare (store t)) (in_valid base) tr (keys_delete (pool_compare (store t)) (Inp s) (map Inp (s # segs)))"
    using in_tree.delete_inv [OF r v] by blast
  moreover have "pool_compare (store t) (Inp s) (Inp s) = 0" by (rule in_tree.cmp_refl [OF v])
  ultimately show ?thesis using assms
    by (auto simp: pico_discard_segment_def in_rep_def Let_def)
qed

section \<open>Reading\<close>

text \<open>The payload of a segment is a part of the peer's stream \<open>S\<close>, whose bytes are numbered
  from \<open>base\<close>.\<close>

definition carries :: "u32 \<Rightarrow> (int \<Rightarrow> u8) \<Rightarrow> tcp_input_segment \<Rightarrow> bool" where
  "carries base S s \<longleftrightarrow> length (seg_payload s) = seg_len s \<and> 0 < seg_len s \<and> seg_end base s < 2 ^ 30
     \<and> (\<forall>i < seg_len s. seg_payload s ! i = S (seg_start base s + int i))"

text \<open>The queue of a receiver that has processed the stream up to \<open>p\<close>: no two segments overlap
  and none ends before \<open>p\<close>.\<close>

definition reasm :: "u32 \<Rightarrow> (int \<Rightarrow> u8) \<Rightarrow> int \<Rightarrow> tcp_input_segment list \<Rightarrow> bool" where
  "reasm base S p segs \<longleftrightarrow> (\<forall>s \<in> set segs. carries base S s \<and> p \<le> seg_end base s)
     \<and> sorted_wrt (\<lambda>a b. seg_end base a \<le> seg_start base b) segs"

definition read_of :: "pico_socket_tcp \<Rightarrow> pico_socket_tcp \<Rightarrow> bool" where
  "read_of t t' \<longleftrightarrow> (\<exists>q r. t' = t\<lparr>tcpq_in := q, rcv_processed := r\<rparr>)"

lemma read_of_refl: "read_of t t"
  unfolding read_of_def by (rule exI [of _ "tcpq_in t"], rule exI [of _ "rcv_processed t"]) simp

lemma read_of_trans: "read_of t t' \<Longrightarrow> read_of t' t'' \<Longrightarrow> read_of t t''"
proof -
  assume "read_of t t'" "read_of t' t''"
  then obtain q r q' r' where "t'' = t\<lparr>tcpq_in := q, rcv_processed := r, tcpq_in := q', rcv_processed := r'\<rparr>"
    unfolding read_of_def by blast
  then have "t'' = t\<lparr>tcpq_in := q', rcv_processed := r'\<rparr>" by simp
  then show "read_of t t''" unfolding read_of_def by blast
qed

lemma read_of_q: "read_of t (t\<lparr>tcpq_in := q\<rparr>)"
  unfolding read_of_def by (rule exI [of _ q], rule exI [of _ "rcv_processed t"]) simp

lemma read_of_r: "read_of t (t\<lparr>rcv_processed := r\<rparr>)"
  unfolding read_of_def by (rule exI [of _ "tcpq_in t"], rule exI [of _ r]) simp

lemma in_rep_processed [simp]: "in_rep base (t\<lparr>rcv_processed := r\<rparr>) segs = in_rep base t segs"
  by (simp add: in_rep_def)

lemma ucast_u16_u32: "(ucast (w :: u16) :: u32) = of_nat (unat w)"
  by simp

lemma seg_end_soff:
  assumes "near base (seg_seq s)"
  shows "soff base (seg_seq s + ucast (seg_payload_len s)) = seg_end base s"
proof -
  have "seg_len s < 2 ^ 30" by (rule less_trans [OF unat_u16_less]) simp
  then show ?thesis by (simp only: soff_add [OF assms] seg_end_def seg_start_def ucast_u16_u32)
qed

lemma near_end:
  assumes "near base (seg_seq s)" "seg_end base s < 2 ^ 30"
  shows "near base (seg_seq s + ucast (seg_payload_len s))"
proof -
  have "soff base (seg_seq s) \<le> seg_end base s" by (simp add: seg_end_def seg_start_def)
  then show ?thesis using assms seg_end_soff [OF assms(1)] by (auto simp: near_def)
qed

definition released :: "u32 \<Rightarrow> int \<Rightarrow> tcp_input_segment list \<Rightarrow> tcp_input_segment list" where
  "released base p segs = (case segs of [] \<Rightarrow> [] | s # r \<Rightarrow> if seg_end base s = p then r else segs)"

lemma release_until_rep:
  assumes r: "in_rep base t segs" and m: "reasm base S (soff base (rcv_processed t)) segs"
    and n: "near base (rcv_processed t)"
  shows "\<exists>k q. release_until t Q_in (rcv_processed t) = Some (k, t\<lparr>tcpq_in := q\<rparr>)
     \<and> in_rep base (t\<lparr>tcpq_in := q\<rparr>) (released base (soff base (rcv_processed t)) segs)"
proof (cases segs)
  case Nil
  then have "release_until t Q_in (rcv_processed t) = Some (0, t\<lparr>tcpq_in := tcpq_in t\<rparr>)"
    using in_first [OF r] by (simp add: release_until_def)
  moreover have "in_rep base (t\<lparr>tcpq_in := tcpq_in t\<rparr>) (released base (soff base (rcv_processed t)) segs)"
    using r Nil by (simp add: released_def)
  ultimately show ?thesis by blast
next
  case (Cons s rest)
  let ?p = "soff base (rcv_processed t)"
  let ?e = "seg_seq s + ucast (seg_payload_len s)"
  have s: "carries base S s" "?p \<le> seg_end base s" using m Cons by (auto simp: reasm_def)
  have ns: "near base (seg_seq s)" using in_rep_near [OF r] Cons by simp
  have ne: "near base ?e" using near_end [OF ns] s(1) by (simp add: carries_def)
  have c: "pico_seq_compare ?e (rcv_processed t) = seg_end base s - ?p"
    using pico_seq_compare_soff [OF ne n] seg_end_soff [OF ns] by simp
  have f: "first_segment t Q_in = Some (Some (Inp s))" using in_first [OF r] Cons by simp
  show ?thesis
  proof (cases "seg_end base s = ?p")
    case False
    then have "release_until t Q_in (rcv_processed t) = Some (0, t\<lparr>tcpq_in := tcpq_in t\<rparr>)"
      using f c s(2) by (subst release_until_def, subst release_until_loop.simps) simp
    moreover have "in_rep base (t\<lparr>tcpq_in := tcpq_in t\<rparr>) (released base ?p segs)"
      using r Cons False by (simp add: released_def)
    ultimately show ?thesis by blast
  next
    case True
    obtain q where q: "pico_discard_segment t Q_in (Inp s) = Some (t\<lparr>tcpq_in := q\<rparr>)"
      "in_rep base (t\<lparr>tcpq_in := q\<rparr>) rest" using in_discard_first r Cons by blast
    have nx: "next_segment t Q_in (Some (Inp s)) = Some (map_option Inp (find (\<lambda>x. seg_seq x = ?e) segs))"
      using in_peek [OF r ne] by (simp add: next_segment_def)
    have stop: "0 < pico_seq_compare (seg_seq x + ucast (seg_payload_len x)) (rcv_processed t)"
      if "find (\<lambda>x. seg_seq x = ?e) segs = Some x" for x
    proof -
      have x: "x \<in> set segs" "seg_seq x = ?e" using that by (auto simp: find_Some_iff)
      then have cx: "carries base S x" "near base (seg_seq x)" using m in_rep_near [OF r x(1)] by (simp_all add: reasm_def)
      have "seg_start base x = ?p" using x(2) seg_end_soff [OF ns] True by (simp add: seg_start_def)
      moreover have "0 < seg_len x" using cx(1) by (simp add: carries_def)
      ultimately have "?p < seg_end base x" unfolding seg_end_def by linarith
      then show ?thesis
        using pico_seq_compare_soff [OF near_end [OF cx(2)] n] seg_end_soff [OF cx(2)] cx(1) by (simp add: carries_def)
    qed
    have "\<exists>k. release_until t Q_in (rcv_processed t) = Some (k, t\<lparr>tcpq_in := q\<rparr>)"
    proof (cases "find (\<lambda>x. seg_seq x = ?e) segs")
      case None
      then show ?thesis using f c True nx q(1)
        by (subst release_until_def, subst release_until_loop.simps) simp
    next
      case (Some x)
      then have "release_until_loop (t\<lparr>tcpq_in := q\<rparr>) Q_in (rcv_processed t) (Inp x) 1 = Some (1, t\<lparr>tcpq_in := q\<rparr>)"
        using stop by (subst release_until_loop.simps) force
      then show ?thesis using f c True nx q(1) Some
        by (subst release_until_def, subst release_until_loop.simps) simp
    qed
    then show ?thesis using q(2) True Cons by (auto simp: released_def)
  qed
qed

text \<open>How much of the head segment one round copies.\<close>

lemma read_in_frame_len:
  assumes "0 \<le> off" "off \<le> int (seg_len s)" "tot \<le> len" "unat len < 2 ^ 31"
  shows "unat (tcp_read_in_frame_len s off tot len) = min (seg_len s - nat off) (unat len - unat tot)"
proof -
  define a where "a = (if off > 0 then ucast (seg_payload_len s) - word_of_int off else (ucast (seg_payload_len s) :: u32))"
  have l: "unat (ucast (seg_payload_len s) :: u32) = seg_len s" by (rule unat_ucast_up) simp
  have b: "seg_len s < 65536" by (rule unat_u16_less)
  have o: "unat (word_of_int off :: u32) = nat off" if "0 < off"
  proof -
    have "nat off \<le> seg_len s" using assms(2) by (simp only: nat_le_iff)
    then have "nat off < 2 ^ 32" using b by simp
    then show ?thesis using that unat_of_nat_u32 [of "nat off"] by simp
  qed
  have ua: "unat a = seg_len s - nat off"
  proof (cases "0 < off")
    case True
    then have "(word_of_int off :: u32) \<le> ucast (seg_payload_len s)" using assms(2) by (simp only: word_le_nat_alt o l nat_le_iff)
    then show ?thesis using True o l by (simp add: a_def unat_sub)
  next
    case False
    then show ?thesis using l assms(1) by (simp add: a_def)
  qed
  have t: "unat tot \<le> unat len" using assms(3) by (simp add: word_le_nat_alt)
  have "unat a + unat tot < 2 ^ 32" using ua b t assms(4) by simp
  then have s: "unat (a + tot) = unat a + unat tot" by (simp add: unat_plus_no_wrap)
  have d: "unat (len - tot) = unat len - unat tot" using assms(3) by (simp add: unat_sub)
  have c: "len < a + tot \<longleftrightarrow> unat len < unat a + unat tot" by (simp only: word_less_nat_alt s)
  have "unat (tcp_read_in_frame_len s off tot len) = (if unat len < unat a + unat tot then unat len - unat tot else unat a)"
    unfolding tcp_read_in_frame_len_def a_def [symmetric] Let_def c using d by simp
  also have "\<dots> = min (unat a) (unat len - unat tot)" 
  proof (cases "unat len < unat a + unat tot")
    case True
    then have "min (unat a) (unat len - unat tot) = unat len - unat tot" using t by linarith
    with True show ?thesis by (simp only: if_True)
  next
    case False
    then have "min (unat a) (unat len - unat tot) = unat a" using t by linarith
    with False show ?thesis by (simp only: if_False)
  qed
  finally show ?thesis by (simp only: ua)
qed

lemma released_set: "set (released base p segs) \<subseteq> set segs"
  by (cases segs) (auto simp: released_def)

lemma released_reasm:
  assumes "reasm base S p segs"
  shows "reasm base S p (released base p segs)" "\<forall>s \<in> set (released base p segs). p < seg_end base s"
    "\<forall>s \<in> set segs. s \<in> set (released base p segs) \<or> seg_end base s \<le> p"
proof -
  have gt: "p < seg_end base b" if "carries base S b" "e \<le> seg_start base b" "p \<le> e" for b e
  proof -
    have "0 < seg_len b" using that(1) by (simp add: carries_def)
    then show ?thesis using that(2,3) unfolding seg_end_def by linarith
  qed
  show "reasm base S p (released base p segs)"
    using assms by (cases segs) (auto simp: released_def reasm_def)
  show "\<forall>s \<in> set (released base p segs). p < seg_end base s"
    using assms by (cases segs) (auto simp: released_def reasm_def intro: gt order.not_eq_order_implies_strict)
  show "\<forall>s \<in> set segs. s \<in> set (released base p segs) \<or> seg_end base s \<le> p"
    by (cases segs) (auto simp: released_def)
qed

text \<open>One round that copies from the head segment.\<close>

lemma reasm_advance:
  assumes m: "reasm base S p (s # r)" and p: "seg_start base s \<le> p" and n: "p + int n \<le> seg_end base s"
  shows "reasm base S (p + int n) (s # r)" "reasm base S (p + int n) r"
    "take n (drop (nat (p - seg_start base s)) (seg_payload s)) = map (\<lambda>i. S (p + int i)) [0..<n]"
proof -
  have c: "carries base S s" using m by (simp add: reasm_def)
  have "\<forall>x \<in> set r. p + int n \<le> seg_end base x"
  proof
    fix x assume x: "x \<in> set r"
    then have "carries base S x" "seg_end base s \<le> seg_start base x" using m by (auto simp: reasm_def)
    moreover have "seg_start base x \<le> seg_end base x" by (simp add: seg_end_def)
    ultimately show "p + int n \<le> seg_end base x" using n by linarith
  qed
  then show "reasm base S (p + int n) (s # r)" "reasm base S (p + int n) r" using m n by (auto simp: reasm_def)
  let ?o = "nat (p - seg_start base s)"
  have o: "seg_start base s + int ?o = p" using p by simp
  have b: "?o + n \<le> seg_len s" using n o unfolding seg_end_def by linarith
  show "take n (drop ?o (seg_payload s)) = map (\<lambda>i. S (p + int i)) [0..<n]"
  proof (rule nth_equalityI)
    show "length (take n (drop ?o (seg_payload s))) = length (map (\<lambda>i. S (p + int i)) [0..<n])"
      using b c by (simp add: carries_def)
  next
    fix i assume "i < length (take n (drop ?o (seg_payload s)))"
    then have i: "i < n" by simp
    have "seg_payload s ! (?o + i) = S (seg_start base s + int (?o + i))"
      using c b i by (simp add: carries_def)
    also have "\<dots> = S (p + int i)" using o by (simp add: add.assoc [symmetric])
    finally show "take n (drop ?o (seg_payload s)) ! i = map (\<lambda>i. S (p + int i)) [0..<n] ! i"
      using i b c by (simp add: carries_def)
  qed
qed

lemma map_upt_shift:
  "map (\<lambda>i. S (p + int i)) [0..<n] @ map (\<lambda>i. S (p + int n + int i)) [0..<k] = map (\<lambda>i. S (p + int i)) [0..<n + k]"
  by (rule nth_equalityI) (auto simp: nth_append add.assoc)

definition read_done :: "u32 \<Rightarrow> (int \<Rightarrow> u8) \<Rightarrow> pico_socket_tcp \<Rightarrow> tcp_input_segment list \<Rightarrow> u32 \<Rightarrow> u32
    \<Rightarrow> u8 list \<Rightarrow> nat \<Rightarrow> bool" where
  "read_done base S t segs len tot buf n \<longleftrightarrow>
     (\<exists>t' segs'. read_loop t len tot buf =
          Some (buf @ map (\<lambda>i. S (soff base (rcv_processed t) + int i)) [0..<n], tot + of_nat n, t')
      \<and> read_of t t' \<and> rcv_processed t' = rcv_processed t + of_nat n \<and> n \<le> unat len - unat tot
      \<and> near base (rcv_processed t') \<and> soff base (rcv_processed t') = soff base (rcv_processed t) + int n
      \<and> in_rep base t' segs' \<and> reasm base S (soff base (rcv_processed t')) segs'
      \<and> (\<forall>s \<in> set segs. s \<in> set segs' \<or> seg_end base s \<le> soff base (rcv_processed t'))
      \<and> (n = unat len - unat tot \<or> (\<forall>s \<in> set segs'. soff base (rcv_processed t') < seg_start base s)))"

lemma read_done_0:
  assumes "read_loop t len tot buf = Some (buf, tot, t')" "read_of t t'" "rcv_processed t' = rcv_processed t"
    "near base (rcv_processed t)" "in_rep base t' segs'" "reasm base S (soff base (rcv_processed t)) segs'"
    "\<forall>s \<in> set segs. s \<in> set segs' \<or> seg_end base s \<le> soff base (rcv_processed t)"
    "unat len \<le> unat tot \<or> (\<forall>s \<in> set segs'. soff base (rcv_processed t) < seg_start base s)"
  shows "read_done base S t segs len tot buf 0"
  unfolding read_done_def by (rule exI [of _ t'], rule exI [of _ segs']) (use assms in auto)

lemma read_loop_step:
  assumes r: "in_rep base t (s # rest)" and m: "reasm base S (soff base rp) (s # rest)"
    and n: "near base rp" and tl: "tot < len" "unat len < 2 ^ 31"
    and p: "seg_start base s \<le> soff base rp" "soff base rp < seg_end base s"
    and rp: "rcv_processed t = rp"
    and f: "release_until t1 Q_in (rcv_processed t1) = Some (k0, t)"
  shows "\<exists>k t' segs'. 0 < k \<and> k \<le> unat len - unat tot \<and> in_rep base t' segs'
     \<and> read_loop t1 len tot buf = read_loop t' len (tot + of_nat k)
          (buf @ map (\<lambda>i. S (soff base rp + int i)) [0..<k])
     \<and> read_of t t' \<and> rcv_processed t' = rp + of_nat k \<and> near base (rcv_processed t')
     \<and> soff base (rcv_processed t') = soff base rp + int k
     \<and> reasm base S (soff base (rcv_processed t')) segs'
     \<and> (\<forall>x \<in> set (s # rest). x \<in> set segs' \<or> seg_end base x \<le> soff base (rcv_processed t'))"
proof -
  let ?p = "soff base rp" and ?off = "soff base rp - seg_start base s"
  have c: "carries base S s" using m by (simp add: reasm_def)
  have ns: "near base (seg_seq s)" using in_rep_near [OF r, of s] by simp
  have off: "pico_seq_compare rp (seg_seq s) = ?off"
    using pico_seq_compare_soff [OF n ns] by (simp add: seg_start_def)
  have ob: "0 \<le> ?off" "?off < int (seg_len s)" using p unfolding seg_end_def by linarith+
  define w where "w = tcp_read_in_frame_len s ?off tot len"
  define k where "k = unat w"
  have k: "k = min (seg_len s - nat ?off) (unat len - unat tot)"
    unfolding k_def w_def by (rule read_in_frame_len) (use ob tl in auto)
  have no: "nat ?off < seg_len s" using ob by linarith
  have kp: "0 < k" using k no tl by (simp add: word_less_nat_alt)
  have kl: "k \<le> unat len - unat tot" "nat ?off + k \<le> seg_len s" using k no by linarith+
  have pe: "?p + int k \<le> seg_end base s" using kl(2) ob unfolding seg_end_def by linarith
  note adv = reasm_advance [OF m p(1) pe]
  have w: "w = of_nat k" by (simp add: k_def)
  let ?t2 = "t\<lparr>rcv_processed := rp + w\<rparr>"
  let ?bs = "map (\<lambda>i. S (?p + int i)) [0..<k]"
  have so: "soff base (rp + w) = ?p + int k" unfolding w
  proof (rule soff_add [OF n])
    have "k < 65536" using kl(2) unat_u16_less [of "seg_payload_len s"] by linarith
    then show "k < 2 ^ 30" by simp
  qed
  have nn: "near base (rp + w)"
    using so n pe c by (auto simp: near_def carries_def)
  have len: "length (seg_payload s) = seg_len s" using c by (simp add: carries_def)
  have mr: "mem_read (seg_payload s) (nat ?off) (unat w) = Some ?bs"
    using adv(3) kl(2) len by (simp add: mem_read_def k_def)
  obtain q where q: "pico_discard_segment ?t2 Q_in (Inp s) = Some (?t2\<lparr>tcpq_in := q\<rparr>)"
    "in_rep base (?t2\<lparr>tcpq_in := q\<rparr>) rest" using in_discard_first [of base ?t2 s rest] r by auto
  define t' where "t' = (if w = ucast (seg_payload_len s) then ?t2\<lparr>tcpq_in := q\<rparr> else ?t2)"
  define segs' where "segs' = (if w = ucast (seg_payload_len s) then rest else s # rest)"
  have w0: "w \<noteq> 0" using kp k_def by auto
  have "read_loop t1 len tot buf = read_loop t' len (tot + of_nat k) (buf @ ?bs)"
    using tl f off ob(1) mr q(1) w0 rp in_first [OF r]
    by (subst read_loop.simps)
      (auto simp: tcp_read_check_segment_done_def t'_def w_def [symmetric] w [symmetric] Let_def)
  moreover have "in_rep base t' segs'"
  proof (cases "w = ucast (seg_payload_len s)")
    case True
    then show ?thesis using q(2) True by (simp add: t'_def segs'_def)
  next
    case False
    then show ?thesis using r unfolding t'_def segs'_def by (simp only: if_False in_rep_processed)
  qed
  moreover have "read_of t t'"
    unfolding t'_def by (auto intro: read_of_r read_of_trans [OF read_of_r read_of_q])
  moreover have rp: "rcv_processed t' = rp + w" by (simp add: t'_def)
  moreover have "reasm base S (soff base (rcv_processed t')) segs'"
    using adv(1,2) by (simp add: rp so segs'_def)
  moreover have "\<forall>x \<in> set (s # rest). x \<in> set segs' \<or> seg_end base x \<le> soff base (rcv_processed t')"
  proof (cases "w = ucast (seg_payload_len s)")
    case True
    then have "k = seg_len s" by (simp add: k_def unat_ucast_up)
    then have "seg_end base s \<le> soff base rp + int k" using p(1) unfolding seg_end_def by linarith
    then have "seg_end base s \<le> soff base (rcv_processed t')" using so \<open>rcv_processed t' = rp + w\<close> by simp
    then show ?thesis using True by (simp add: segs'_def)
  next
    case False
    then show ?thesis by (simp add: segs'_def)
  qed
  ultimately show ?thesis using kp kl(1) so nn w by (intro exI [of _ k] exI [of _ t'] exI [of _ segs']) simp
qed

lemma read_loop_ok:
  assumes "in_rep base t segs" "reasm base S (soff base (rcv_processed t)) segs"
    "near base (rcv_processed t)" "unat len < 2 ^ 31"
  shows "\<exists>n. read_done base S t segs len tot buf n"
  using assms(1-3)
proof (induction "unat len - unat tot" arbitrary: t segs tot buf rule: less_induct)
  case less
  let ?p = "soff base (rcv_processed t)"
  show ?case
  proof (cases "tot < len")
    case False
    then have "read_loop t len tot buf = Some (buf, tot, t)" by (subst read_loop.simps) simp
    then have "read_done base S t segs len tot buf 0"
      by (rule read_done_0 [OF _ read_of_refl refl less.prems(3,1,2)])
        (use False in \<open>simp_all add: word_less_nat_alt\<close>)
    then show ?thesis ..
  next
    case tl: True
    obtain k0 q where q: "release_until t Q_in (rcv_processed t) = Some (k0, t\<lparr>tcpq_in := q\<rparr>)"
      "in_rep base (t\<lparr>tcpq_in := q\<rparr>) (released base ?p segs)"
      using release_until_rep [OF less.prems] by blast
    let ?t1 = "t\<lparr>tcpq_in := q\<rparr>" and ?r = "released base ?p segs"
    note rel = released_reasm [OF less.prems(2)]
    note first = in_first [OF q(2)]
    show ?thesis
    proof (cases ?r)
      case Nil
      then have "read_loop t len tot buf = Some (buf, tot, ?t1)"
        using q(1) first tl by (subst read_loop.simps) simp
      then have "read_done base S t segs len tot buf 0"
        by (rule read_done_0 [OF _ read_of_q _ less.prems(3) q(2) rel(1,3)]) (use Nil in simp_all)
      then show ?thesis ..
    next
      case (Cons s rest)
      have s: "?p < seg_end base s" using rel(2) Cons by simp
      show ?thesis
      proof (cases "?p < seg_start base s")
        case True
        have "pico_seq_compare (rcv_processed t) (seg_seq s) < 0"
          using pico_seq_compare_soff [OF less.prems(3) in_rep_near [OF q(2), of s]] True Cons
          by (simp add: seg_start_def)
        then have "read_loop t len tot buf = Some (buf, tot, ?t1)"
          using q(1) first tl Cons by (subst read_loop.simps) simp
        moreover have "\<forall>x \<in> set ?r. ?p < seg_start base x"
        proof
          fix x assume "x \<in> set ?r"
          then consider "x = s" | "seg_end base s \<le> seg_start base x" using rel(1) Cons by (auto simp: reasm_def)
          then show "?p < seg_start base x" using True s by cases auto
        qed
        ultimately have "read_done base S t segs len tot buf 0"
          by (intro read_done_0 [OF _ read_of_q _ less.prems(3) q(2) rel(1,3)]) simp_all
        then show ?thesis ..
      next
        case False
        then have st: "seg_start base s \<le> ?p" by simp
        have ra: "in_rep base ?t1 (s # rest)" and rb: "reasm base S ?p (s # rest)"
          using q(2) rel(1) Cons by simp_all
        obtain k t' segs' where k: "0 < k" "k \<le> unat len - unat tot" "in_rep base t' segs'"
          "read_loop t len tot buf = read_loop t' len (tot + of_nat k) (buf @ map (\<lambda>i. S (?p + int i)) [0..<k])"
          "read_of ?t1 t'" "rcv_processed t' = rcv_processed t + of_nat k" "near base (rcv_processed t')"
          "soff base (rcv_processed t') = ?p + int k" "reasm base S (soff base (rcv_processed t')) segs'"
          "\<forall>x \<in> set ?r. x \<in> set segs' \<or> seg_end base x \<le> soff base (rcv_processed t')"
          using read_loop_step [OF ra rb less.prems(3) tl assms(4) st s _ q(1), of buf] unfolding Cons by auto
        have tk: "unat (tot + of_nat k) = unat tot + k"
        proof -
          have "k < 2 ^ 32" "unat tot + k < 2 ^ 32" using k(2) assms(4) tl by (auto simp: word_less_nat_alt)
          then show ?thesis by (simp add: unat_plus_no_wrap unat_of_nat_u32)
        qed
        have "\<exists>n. read_done base S t' segs' len (tot + of_nat k) (buf @ map (\<lambda>i. S (?p + int i)) [0..<k]) n"
          by (rule less.hyps [OF _ k(3,9,7)]) (use k(1,2) tk in linarith)
        then obtain n where n: "read_done base S t' segs' len (tot + of_nat k) (buf @ map (\<lambda>i. S (?p + int i)) [0..<k]) n" ..
        have "read_done base S t segs len tot buf (k + n)"
        proof -
          obtain t'' segs'' where u: "read_loop t' len (tot + of_nat k) (buf @ map (\<lambda>i. S (?p + int i)) [0..<k]) =
              Some ((buf @ map (\<lambda>i. S (?p + int i)) [0..<k]) @ map (\<lambda>i. S (?p + int k + int i)) [0..<n],
                tot + of_nat k + of_nat n, t'')"
            "read_of t' t''" "rcv_processed t'' = rcv_processed t' + of_nat n" "n \<le> unat len - (unat tot + k)"
            "near base (rcv_processed t'')" "soff base (rcv_processed t'') = ?p + int k + int n"
            "in_rep base t'' segs''" "reasm base S (soff base (rcv_processed t'')) segs''"
            "\<forall>s \<in> set segs'. s \<in> set segs'' \<or> seg_end base s \<le> soff base (rcv_processed t'')"
            "n = unat len - (unat tot + k) \<or> (\<forall>s \<in> set segs''. soff base (rcv_processed t'') < seg_start base s)"
            using n unfolding read_done_def tk k(8) by blast
          have "read_of t t''" by (rule read_of_trans [OF read_of_trans [OF read_of_q k(5)] u(2)])
          moreover have "\<forall>x \<in> set segs. x \<in> set segs'' \<or> seg_end base x \<le> soff base (rcv_processed t'')"
          proof
            fix x assume "x \<in> set segs"
            then consider "x \<in> set segs''" | "seg_end base x \<le> ?p" | "seg_end base x \<le> ?p + int k"
              | "seg_end base x \<le> ?p + int k + int n" using rel(3) k(10) u(9) unfolding k(8) u(6) by blast
            then show "x \<in> set segs'' \<or> seg_end base x \<le> soff base (rcv_processed t'')" unfolding u(6) by cases auto
          qed
          moreover have "k + n = unat len - unat tot \<or> (\<forall>s \<in> set segs''. soff base (rcv_processed t'') < seg_start base s)"
            using u(4,10) k(2) by (cases "n = unat len - (unat tot + k)") auto
          ultimately show ?thesis unfolding read_done_def
            using u k(2,4,6) map_upt_shift [of S ?p k n]
            by (intro exI [of _ t''] exI [of _ segs'']) (simp add: algebra_simps)
        qed
        then show ?thesis ..
      qed
    qed
  qed
qed

section \<open>Receiving\<close>

abbreviation seg_insert :: "u32 \<Rightarrow> tcp_input_segment \<Rightarrow> tcp_input_segment list \<Rightarrow> tcp_input_segment list" where
  "seg_insert base \<equiv> insort_key (seg_start base)"

lemma keys_insert_seg:
  assumes "near base (seg_seq s)" "\<forall>x \<in> set segs. near base (seg_seq x) \<and> seg_start base x \<noteq> seg_start base s"
  shows "keys_insert (pool_compare st) (Inp s) (map Inp segs) = map Inp (seg_insert base s segs)"
  using assms(2)
proof (induction segs)
  case (Cons x segs)
  then have "input_segment_compare s x = seg_start base s - seg_start base x"
    using assms(1) pico_seq_compare_soff [of base "seg_seq s" "seg_seq x"] by (simp add: input_segment_compare_def seg_start_def)
  then show ?case using Cons by auto
qed simp

text \<open>The supplies say that memory is there.\<close>

lemma in_enqueue:
  assumes r: "in_rep base t segs" and n: "near base (seg_seq s)" and new: "\<forall>x \<in> set segs. seg_seq x \<noteq> seg_seq s"
    and l: "0 < seg_len s" and room: "\<not> tq_max_size (tcpq_in t) < tq_size (tcpq_in t) + ucast (seg_payload_len s)"
    and mem: "mem_supply t = []"
  shows "\<exists>q. pico_enqueue_segment t Q_in (Some (Inp s)) = Some (int (seg_len s), t\<lparr>tcpq_in := q\<rparr>)
     \<and> in_rep base (t\<lparr>tcpq_in := q\<rparr>) (seg_insert base s segs)"
proof -
  have v: "in_valid base (Inp s)" using n by (simp add: in_valid_def)
  have near: "\<forall>x \<in> set segs. near base (seg_seq x)" using in_rep_near [OF r] by blast
  have inv: "tree_inv (pool_compare (store t)) (in_valid base) (pool (tcpq_in t)) (map Inp segs)"
    using r by (simp add: in_rep_def)
  have "find (\<lambda>x. seg_seq x = seg_seq s) segs = None" using new by (simp add: find_None_iff)
  then have none: "keys_find (pool_compare (store t)) (Inp s) (map Inp segs) = None"
    using in_keys_find [OF n near, where p = "seg_payload s" and l = "seg_payload_len s" and st = "store t"]
    by (cases s) simp
  obtain tr where tr: "pico_tree_insert (pool_compare (store t)) (pool (tcpq_in t)) (Inp s) True = Some (Ins_NULL, tr)"
    "tree_inv (pool_compare (store t)) (in_valid base) tr (keys_insert (pool_compare (store t)) (Inp s) (map Inp segs))"
    using in_tree.insert_inv [OF inv v, where mem_ok = True] none by auto
  have "keys_insert (pool_compare (store t)) (Inp s) (map Inp segs) = map Inp (seg_insert base s segs)"
    by (rule keys_insert_seg [OF n]) (use near new soff_inject in \<open>auto simp: seg_start_def\<close>)
  moreover have "seg_payload_len s \<noteq> 0" using l by auto
  ultimately show ?thesis using tr room mem r
    by (auto simp: pico_enqueue_segment_def do_enqueue_segment_def tcp_alloc_def in_rep_def Let_def)
qed

lemma carries_less: "carries base S y \<Longrightarrow> seg_start base y < seg_end base y"
proof -
  assume "carries base S y"
  then have "0 < seg_len y" by (simp add: carries_def)
  then show ?thesis unfolding seg_end_def by linarith
qed

lemma no_overlap_new:
  assumes m: "reasm base S p segs" and c: "carries base S s"
    and d: "\<forall>x \<in> set segs. seg_end base x \<le> seg_start base s \<or> seg_end base s \<le> seg_start base x"
  shows "\<forall>x \<in> set segs. seg_seq x \<noteq> seg_seq s"
proof
  fix x assume x: "x \<in> set segs"
  then have "carries base S x" using m by (simp add: reasm_def)
  then have "seg_start base x \<noteq> seg_start base s" using d x carries_less [of base S x] carries_less [OF c] by fastforce
  then show "seg_seq x \<noteq> seg_seq s" by (auto simp: seg_start_def)
qed

lemma reasm_insert:
  assumes r: "in_rep base t segs" and m: "reasm base S p segs" and c: "carries base S s" "p \<le> seg_end base s"
    and d: "\<forall>x \<in> set segs. seg_end base x \<le> seg_start base s \<or> seg_end base s \<le> seg_start base x"
  shows "reasm base S p (seg_insert base s segs)"
  using m d
proof (induction segs)
  case Nil
  then show ?case using c by (simp add: reasm_def)
next
  case (Cons x segs)
  have "reasm base S p segs" "\<forall>y \<in> set segs. seg_end base y \<le> seg_start base s \<or> seg_end base s \<le> seg_start base y"
    using Cons.prems by (simp_all add: reasm_def)
  then have IH: "reasm base S p (seg_insert base s segs)" by (rule Cons.IH)
  have dx: "seg_end base x \<le> seg_start base s \<or> seg_end base s \<le> seg_start base x" using Cons.prems(2) by simp
  have x: "carries base S x" "p \<le> seg_end base x" "\<forall>y \<in> set segs. seg_end base x \<le> seg_start base y"
    using Cons.prems(1) by (simp_all add: reasm_def)
  note ls = carries_less
  show ?case
  proof (cases "seg_start base s \<le> seg_start base x")
    case True
    then have sx: "seg_end base s \<le> seg_start base x" using dx ls [OF x(1)] by linarith
    have "\<forall>y \<in> set segs. seg_end base s \<le> seg_start base y"
    proof
      fix y assume "y \<in> set segs"
      then have "seg_end base x \<le> seg_start base y" using x(3) by blast
      then show "seg_end base s \<le> seg_start base y" using sx ls [OF x(1)] by linarith
    qed
    then show ?thesis using True Cons.prems(1) c sx by (simp add: reasm_def)
  next
    case False
    then have "seg_end base x \<le> seg_start base s" using dx ls [OF c(1)] by linarith
    then have "\<forall>y \<in> set (seg_insert base s segs). seg_end base x \<le> seg_start base y"
      using x(3) by (simp add: set_insort_key)
    then show ?thesis using False IH x by (simp add: reasm_def)
  qed
qed

text \<open>\<open>rcv_nxt\<close> moves to the end of the run of segments that starts at it.\<close>

definition run_end :: "u32 \<Rightarrow> tcp_input_segment list \<Rightarrow> u32 \<Rightarrow> u32 \<Rightarrow> bool" where
  "run_end base segs a b \<longleftrightarrow> near base b \<and> soff base a \<le> soff base b \<and> (\<forall>s \<in> set segs. seg_seq s \<noteq> b)
     \<and> (\<forall>i. soff base a \<le> i \<and> i < soff base b \<longrightarrow> (\<exists>s \<in> set segs. seg_start base s \<le> i \<and> i < seg_end base s))"

lemma in_rep_fields [simp]:
  "in_rep base (t\<lparr>rcv_nxt := r\<rparr>) segs = in_rep base t segs"
  "in_rep base (t\<lparr>ev_pending := e\<rparr>) segs = in_rep base t segs"
  "in_rep base (t\<lparr>sacks := k\<rparr>) segs = in_rep base t segs"
  "in_rep base (t\<lparr>mem_supply := ms\<rparr>) segs = in_rep base t segs"
  by (simp_all add: in_rep_def)

lemma scroll_rcv_nxt_ok:
  assumes "in_rep base t segs" "\<forall>s \<in> set segs. carries base S s" "near base (rcv_nxt t)"
  shows "\<exists>r. scroll_rcv_nxt t = Some (t\<lparr>rcv_nxt := r\<rparr>) \<and> run_end base segs (rcv_nxt t) r"
  using assms(1,3)
proof (induction "nat (2 ^ 30 - soff base (rcv_nxt t))" arbitrary: t rule: less_induct)
  case less
  note pk = in_peek [OF less.prems(1,2)]
  show ?case
  proof (cases "find (\<lambda>s. seg_seq s = rcv_nxt t) segs")
    case None
    then have "scroll_rcv_nxt t = Some (t\<lparr>rcv_nxt := rcv_nxt t\<rparr>)" using pk by (subst scroll_rcv_nxt.simps) simp
    moreover have "run_end base segs (rcv_nxt t) (rcv_nxt t)"
      using None less.prems(2) by (auto simp: run_end_def find_None_iff)
    ultimately show ?thesis by blast
  next
    case (Some s)
    then have s: "s \<in> set segs" "seg_seq s = rcv_nxt t" by (auto simp: find_Some_iff)
    have c: "carries base S s" using assms(2) s(1) by blast
    have ns: "near base (seg_seq s)" by (rule in_rep_near [OF less.prems(1) s(1)])
    let ?e = "rcv_nxt t + ucast (seg_payload_len s)"
    let ?t' = "t\<lparr>rcv_nxt := ?e\<rparr>"
    have e: "soff base ?e = seg_end base s" "near base ?e"
      using seg_end_soff [OF ns] near_end [OF ns] c s(2) by (simp_all add: carries_def)
    have st: "seg_start base s = soff base (rcv_nxt t)" using s(2) by (simp add: seg_start_def)
    have "0 < seg_len s" using c by (simp add: carries_def)
    then have lt: "soff base (rcv_nxt t) < soff base ?e" using st unfolding e(1) seg_end_def by linarith
    moreover have "soff base ?e < 2 ^ 30" using c e(1) by (simp add: carries_def)
    ultimately have "\<exists>r. scroll_rcv_nxt ?t' = Some (?t'\<lparr>rcv_nxt := r\<rparr>) \<and> run_end base segs (rcv_nxt ?t') r"
      by (intro less.hyps) (use less.prems(1) e(2) in auto)
    then obtain r where r: "scroll_rcv_nxt ?t' = Some (t\<lparr>rcv_nxt := r\<rparr>)" "run_end base segs ?e r" by auto
    have "scroll_rcv_nxt t = Some (t\<lparr>rcv_nxt := r\<rparr>)"
      using pk Some r(1) by (subst scroll_rcv_nxt.simps) simp
    moreover have "run_end base segs (rcv_nxt t) r"
      unfolding run_end_def
    proof (intro conjI allI impI)
      show "near base r" "\<forall>s \<in> set segs. seg_seq s \<noteq> r" using r(2) by (auto simp: run_end_def)
      show "soff base (rcv_nxt t) \<le> soff base r" using r(2) lt by (simp add: run_end_def)
      fix i assume i: "soff base (rcv_nxt t) \<le> i \<and> i < soff base r"
      show "\<exists>s \<in> set segs. seg_start base s \<le> i \<and> i < seg_end base s"
      proof (cases "i < soff base ?e")
        case True
        then show ?thesis using s(1) i st e(1) by (intro bexI [of _ s]) auto
      next
        case False
        then show ?thesis using i r(2) by (simp add: run_end_def)
      qed
    qed
    ultimately show ?thesis by blast
  qed
qed

lemma segment_from_frame_ok:
  assumes "f_payload_len (store t f) \<noteq> 0" "mem_supply t = []" "frame_payload (store t f) = Some bs"
  shows "segment_from_frame t f = Some (Some \<lparr>seg_seq = SEQN (store t f), seg_payload = bs,
     seg_payload_len = f_payload_len (store t f)\<rparr>, t)"
  using assms by (simp add: segment_from_frame_def tcp_alloc_def Let_def)

lemma data_in_expected_ok:
  assumes r: "in_rep base t segs" and m: "reasm base S p segs" and n: "near base (rcv_nxt t)"
    and f: "SEQN (store t f) = rcv_nxt t" "frame_payload (store t f) = Some bs"
    and s: "s = \<lparr>seg_seq = rcv_nxt t, seg_payload = bs, seg_payload_len = f_payload_len (store t f)\<rparr>"
    and c: "carries base S s" "p \<le> seg_end base s"
    and d: "\<forall>x \<in> set segs. seg_end base x \<le> seg_start base s \<or> seg_end base s \<le> seg_start base x"
    and room: "\<not> tq_max_size (tcpq_in t) < tq_size (tcpq_in t) + ucast (f_payload_len (store t f))"
    and mem: "mem_supply t = []"
  shows "\<exists>t'. tcp_data_in_expected t f = Some (0, t') \<and> in_rep base t' (seg_insert base s segs)
     \<and> reasm base S p (seg_insert base s segs) \<and> rcv_processed t' = rcv_processed t
     \<and> run_end base (seg_insert base s segs) (rcv_nxt t) (rcv_nxt t')
     \<and> ev_pending t' = ev_pending t OR PICO_SOCK_EV_RD"
proof -
  have l: "0 < seg_len s" using c(1) by (simp add: carries_def)
  note ls = carries_less
  have new: "\<forall>x \<in> set segs. seg_seq x \<noteq> seg_seq s" by (rule no_overlap_new [OF m c(1) d])
  have sq: "seg_seq s = rcv_nxt t" "seg_payload_len s = f_payload_len (store t f)" by (simp_all add: s)
  obtain q where q: "pico_enqueue_segment t Q_in (Some (Inp s)) = Some (int (seg_len s), t\<lparr>tcpq_in := q\<rparr>)"
    "in_rep base (t\<lparr>tcpq_in := q\<rparr>) (seg_insert base s segs)"
    using in_enqueue [OF r _ new l _ mem] n room sq by auto
  let ?segs = "seg_insert base s segs"
  let ?t1 = "t\<lparr>tcpq_in := q, rcv_nxt := rcv_nxt t + ucast (f_payload_len (store t f))\<rparr>"
  have m': "reasm base S p ?segs" by (rule reasm_insert [OF r m c d])
  have e: "soff base (rcv_nxt ?t1) = seg_end base s" "near base (rcv_nxt ?t1)"
    using seg_end_soff [of base s] near_end [of base s] n c(1) sq by (simp_all add: carries_def)
  have "\<forall>x \<in> set ?segs. carries base S x" using m' by (simp add: reasm_def)
  then obtain nx where nx: "scroll_rcv_nxt ?t1 = Some (?t1\<lparr>rcv_nxt := nx\<rparr>)" "run_end base ?segs (rcv_nxt ?t1) nx"
    using scroll_rcv_nxt_ok [of base ?t1 ?segs S] q(2) e(2) by auto
  have st: "seg_start base s = soff base (rcv_nxt t)" using sq by (simp add: seg_start_def)
  have run: "run_end base ?segs (rcv_nxt t) nx"
    unfolding run_end_def
  proof (intro conjI allI impI)
    show "near base nx" "\<forall>s \<in> set ?segs. seg_seq s \<noteq> nx" using nx(2) by (simp_all add: run_end_def)
    show "soff base (rcv_nxt t) \<le> soff base nx" using nx(2) ls [OF c(1)] st e(1) by (simp add: run_end_def)
    fix i assume i: "soff base (rcv_nxt t) \<le> i \<and> i < soff base nx"
    show "\<exists>s \<in> set ?segs. seg_start base s \<le> i \<and> i < seg_end base s"
    proof (cases "i < seg_end base s")
      case True
      then show ?thesis using i st by (intro bexI [of _ s]) (simp_all add: set_insort_key)
    next
      case False
      then show ?thesis using i nx(2) e(1) by (simp add: run_end_def)
    qed
  qed
  have nz: "seg_payload_len s \<noteq> 0" using l by auto
  then have "f_payload_len (store t f) \<noteq> 0" using sq(2) by simp
  then have "segment_from_frame t f = Some (Some s, t)"
    using segment_from_frame_ok [of t f bs] mem f by (simp add: s)
  moreover have "pico_seq_compare (rcv_nxt t) (rcv_nxt t) = 0" using pico_seq_compare_soff [OF n n] by simp
  ultimately have "tcp_data_in_expected t f = Some (0, ?t1\<lparr>rcv_nxt := nx, ev_pending := ev_pending t OR PICO_SOCK_EV_RD\<rparr>)"
    using f(1) q(1) nx(1) nz by (simp add: tcp_data_in_expected_def uint_0_iff)
  then show ?thesis
    by (intro exI [of _ "?t1\<lparr>rcv_nxt := nx, ev_pending := ev_pending t OR PICO_SOCK_EV_RD\<rparr>"])
      (use q(2) m' run in simp)
qed

section \<open>Selective acknowledgement\<close>

definition sack_of :: "pico_socket_tcp \<Rightarrow> pico_socket_tcp \<Rightarrow> bool" where
  "sack_of t t' \<longleftrightarrow> (\<exists>k ms. t' = t\<lparr>mem_supply := ms, sacks := k\<rparr>)"

lemma sack_ofI: "t' = t\<lparr>mem_supply := ms, sacks := k\<rparr> \<Longrightarrow> sack_of t t'"
  unfolding sack_of_def by blast

lemma sack_of_refl: "sack_of t t"
  by (rule sack_ofI [where ms = "mem_supply t" and k = "sacks t"]) simp

lemma sack_of_trans: "sack_of t t' \<Longrightarrow> sack_of t' t'' \<Longrightarrow> sack_of t t''"
  unfolding sack_of_def by (elim exE) (rule exI, rule exI, simp)

lemma sack_of_alloc: "tcp_alloc t = (m, t') \<Longrightarrow> sack_of t t'"
  by (rule sack_ofI [where ms = "case mem_supply t of [] \<Rightarrow> [] | _ # bs \<Rightarrow> bs" and k = "sacks t"])
    (auto simp: tcp_alloc_def split: list.splits)

lemma sack_of_add: "sack_of t (add_sack t l r)"
  by (rule sack_ofI [where ms = "mem_supply t"]) (simp add: add_sack_def)

lemma sack_of_in_rep: "sack_of t t' \<Longrightarrow> in_rep base t' segs = in_rep base t segs"
  by (auto simp: sack_of_def)

lemma sack_prepare_loop_total:
  assumes "in_rep base t segs" "\<forall>s \<in> set segs. carries base S s"
    "case pkt of None \<Rightarrow> True | Some e \<Rightarrow> \<exists>s \<in> set segs. e = Inp s \<and> b \<le> seg_start base s"
  shows "\<exists>t'. sack_prepare_loop t pkt left right n = Some t' \<and> sack_of t t'"
  using assms(1,3)
proof (induction "nat (2 ^ 30 - b)" arbitrary: t pkt left right n b rule: less_induct)
  case less
  obtain m t1 where al: "tcp_alloc t = (m, t1)" by (cases "tcp_alloc t")
  note s1 = sack_of_alloc [OF al]
  have s2: "sack_of t (add_sack t1 left right)" by (rule sack_of_trans [OF s1 sack_of_add])
  consider "\<not> n < 3" | "n < 3" "pkt = None" | e where "n < 3" "pkt = Some e" by (cases pkt) auto
  then show ?case
  proof cases
    case 1
    then show ?thesis using sack_of_refl by (subst sack_prepare_loop.simps) simp
  next
    case 2
    then show ?thesis using al s1 s2 sack_of_refl by (subst sack_prepare_loop.simps) (simp split: if_splits)
  next
    case 3
    then obtain s where s: "s \<in> set segs" "e = Inp s" "b \<le> seg_start base s" using less.prems(2) by auto
    have c: "carries base S s" using assms(2) s(1) by blast
    have ns: "near base (seg_seq s)" by (rule in_rep_near [OF less.prems(1) s(1)])
    have ne: "near base (seg_seq s + ucast (seg_payload_len s))" using near_end [OF ns] c by (simp add: carries_def)
    let ?nx = "find (\<lambda>x. seg_seq x = seg_seq s + ucast (seg_payload_len s)) segs"
    note lt = carries_less [OF c]
    define nx where "nx = map_option Inp ?nx"
    have rec: "\<exists>t''. sack_prepare_loop t' nx l' r' n' = Some t'' \<and> sack_of t t''"
      if t': "sack_of t t'" for t' l' r' n'
    proof -
      have "\<exists>t''. sack_prepare_loop t' nx l' r' n' = Some t'' \<and> sack_of t' t''"
      proof (rule less.hyps [where b = "seg_end base s"])
        show "nat (2 ^ 30 - seg_end base s) < nat (2 ^ 30 - b)" using lt s(3) c by (simp add: carries_def)
        show "in_rep base t' segs" using less.prems(1) sack_of_in_rep [OF t'] by simp
        show "case nx of None \<Rightarrow> True | Some e \<Rightarrow> \<exists>x \<in> set segs. e = Inp x \<and> seg_end base s \<le> seg_start base x"
        proof (cases ?nx)
          case (Some x)
          then have "x \<in> set segs" "seg_seq x = seg_seq s + ucast (seg_payload_len s)" by (auto simp: find_Some_iff)
          then show ?thesis using Some seg_end_soff [OF ns] by (simp add: seg_start_def nx_def)
        qed (simp add: nx_def)
      qed
      then show ?thesis using sack_of_trans [OF t'] by blast
    qed
    have nxt: "next_segment t' Q_in (Some (Inp s)) = Some nx" if "sack_of t t'" for t'
      using in_peek [of base t' segs, OF _ ne] sack_of_in_rep [OF that] less.prems(1) by (simp add: next_segment_def nx_def)
    show ?thesis
      using 3 s(2) al s1 nxt [OF sack_of_refl] nxt [OF s2] rec [OF sack_of_refl] rec [OF s2]
      by (subst sack_prepare_loop.simps) (simp add: Let_def)
  qed
qed

lemma tcp_sack_prepare_total:
  assumes "in_rep base t segs" "\<forall>s \<in> set segs. carries base S s"
  shows "\<exists>t'. tcp_sack_prepare t = Some t' \<and> sack_of t t'"
proof (cases "sacks t = []")
  case True
  then show ?thesis
    using in_first [OF assms(1)] sack_prepare_loop_total [OF assms, where pkt = "case segs of [] \<Rightarrow> None | s # _ \<Rightarrow> Some (Inp s)" and b = "seg_start base (hd segs)"]
    by (auto simp: tcp_sack_prepare_def split: list.splits)
next
  case False
  then show ?thesis using sack_of_refl by (simp add: tcp_sack_prepare_def)
qed

lemma data_in_high_ok:
  assumes r: "in_rep base t segs" and m: "reasm base S p segs" and n: "near base (SEQN (store t f))"
    and f: "sack_ok t \<noteq> 0" "frame_payload (store t f) = Some bs"
    and s: "s = \<lparr>seg_seq = SEQN (store t f), seg_payload = bs, seg_payload_len = f_payload_len (store t f)\<rparr>"
    and c: "carries base S s" "p \<le> seg_end base s"
    and d: "\<forall>x \<in> set segs. seg_end base x \<le> seg_start base s \<or> seg_end base s \<le> seg_start base x"
    and room: "\<not> tq_max_size (tcpq_in t) < tq_size (tcpq_in t) + ucast (f_payload_len (store t f))"
    and mem: "mem_supply t = []"
  shows "\<exists>t'. tcp_data_in_high_segment t f = Some (0, t') \<and> in_rep base t' (seg_insert base s segs)
     \<and> reasm base S p (seg_insert base s segs) \<and> rcv_processed t' = rcv_processed t \<and> rcv_nxt t' = rcv_nxt t"
proof -
  have l: "0 < seg_len s" using c(1) by (simp add: carries_def)
  have nz: "seg_payload_len s \<noteq> 0" using l by auto
  have sq: "seg_seq s = SEQN (store t f)" "seg_payload_len s = f_payload_len (store t f)" by (simp_all add: s)
  have new: "\<forall>x \<in> set segs. seg_seq x \<noteq> seg_seq s" by (rule no_overlap_new [OF m c(1) d])
  obtain q where q: "pico_enqueue_segment t Q_in (Some (Inp s)) = Some (int (seg_len s), t\<lparr>tcpq_in := q\<rparr>)"
    "in_rep base (t\<lparr>tcpq_in := q\<rparr>) (seg_insert base s segs)"
    using in_enqueue [OF r _ new l _ mem] n room sq by auto
  have m': "reasm base S p (seg_insert base s segs)" by (rule reasm_insert [OF r m c d])
  have "\<forall>x \<in> set (seg_insert base s segs). carries base S x" using m' by (simp add: reasm_def)
  then obtain t' where t': "tcp_sack_prepare (t\<lparr>tcpq_in := q\<rparr>) = Some t'" "sack_of (t\<lparr>tcpq_in := q\<rparr>) t'"
    using tcp_sack_prepare_total [OF q(2)] by blast
  have "segment_from_frame t f = Some (Some s, t)"
    using segment_from_frame_ok [of t f bs] mem f nz sq by (simp add: s)
  then have "tcp_data_in_high_segment t f = Some (0, t')"
    using f(1) q(1) t'(1) nz by (simp add: tcp_data_in_high_segment_def uint_0_iff)
  then show ?thesis using q(2) m' t'(2) sack_of_in_rep [OF t'(2)] by (auto simp: sack_of_def)
qed

section \<open>Properties\<close>


text \<open>A receiver that expects byte 100, and a frame with three bytes for it.\<close>

definition rx_frame :: tcp_frame where
  "rx_frame = zero_tcp_frame\<lparr>h_seq := long_be 100, f_body := [1, 2, 3], f_payload := 20, f_payload_len := 3\<rparr>"

definition rx_socket :: "u32 \<Rightarrow> pico_socket_tcp" where
  "rx_socket p = zero_socket\<lparr>sack_ok := 1, rcv_nxt := 100, rcv_processed := p, store := (\<lambda>_. rx_frame),
     tcpq_in := (zero_queue True)\<lparr>tq_max_size := PICO_DEFAULT_SOCKETQ\<rparr>\<rparr>"

definition rx_empty :: "u32 \<Rightarrow> pico_socket_tcp" where
  "rx_empty p = zero_socket\<lparr>rcv_processed := p, tcpq_in := (zero_queue True)\<lparr>tq_max_size := PICO_DEFAULT_SOCKETQ\<rparr>\<rparr>"

definition rx_seg :: "u32 \<Rightarrow> u8 list \<Rightarrow> tcp_input_segment" where
  "rx_seg sq bs = \<lparr>seg_seq = sq, seg_payload = bs, seg_payload_len = of_nat (length bs)\<rparr>"

definition rx_stream :: "int \<Rightarrow> u8" where "rx_stream i = [1, 2, 3] ! nat i"

lemma rx_facts:
  "in_rep 100 (rx_socket p) []" "reasm 100 rx_stream 0 []" "near 100 100" "soff 100 100 = 0"
  "SEQN (store (rx_socket p) 1) = rcv_nxt (rx_socket p)"
  "frame_payload (store (rx_socket p) 1) = Some [1, 2, 3]"
  "rx_seg 100 [1, 2, 3] = \<lparr>seg_seq = rcv_nxt (rx_socket p), seg_payload = [1, 2, 3],
     seg_payload_len = f_payload_len (store (rx_socket p) 1)\<rparr>"
  "\<not> tq_max_size (tcpq_in (rx_socket p)) < tq_size (tcpq_in (rx_socket p)) + ucast (f_payload_len (store (rx_socket p) 1))"
  "mem_supply (rx_socket p) = []" "rcv_nxt (rx_socket p) = 100" "rcv_processed (rx_socket p) = p"
proof -
  show "in_rep 100 (rx_socket p) []" by (simp add: in_rep_def rx_socket_def zero_queue_def tree_inv_empty)
  show "reasm 100 rx_stream 0 []" by (simp add: reasm_def)
  show "near 100 100" "soff 100 100 = 0" by (simp_all add: near_def soff_def)
  show "SEQN (store (rx_socket p) 1) = rcv_nxt (rx_socket p)"
    by (simp add: rx_socket_def rx_frame_def SEQN_def)
  show "frame_payload (store (rx_socket p) 1) = Some [1, 2, 3]"
    by (simp add: rx_socket_def rx_frame_def zero_tcp_frame_def frame_payload_def mem_read_def transport_bytes_def
      pico_tcp_hdr_def bytes_of_u16_def bytes_of_u32_def)
  show "\<not> tq_max_size (tcpq_in (rx_socket p)) < tq_size (tcpq_in (rx_socket p)) + ucast (f_payload_len (store (rx_socket p) 1))"
    by (simp add: rx_socket_def rx_frame_def zero_queue_def PICO_DEFAULT_SOCKETQ_def)
qed (simp_all add: rx_socket_def rx_frame_def rx_seg_def zero_socket_def)

lemma rx_seg_carries: "carries 100 rx_stream (rx_seg 100 [1, 2, 3])" "seg_start 100 (rx_seg 100 [1, 2, 3]) = 0"
  "seg_end 100 (rx_seg 100 [1, 2, 3]) = 3"
proof -
  show s: "seg_start 100 (rx_seg 100 [1, 2, 3]) = 0" by (simp add: seg_start_def rx_seg_def soff_def)
  then show e: "seg_end 100 (rx_seg 100 [1, 2, 3]) = 3" by (simp add: seg_end_def rx_seg_def)
  show "carries 100 rx_stream (rx_seg 100 [1, 2, 3])"
    unfolding carries_def s e by (simp add: rx_seg_def rx_stream_def)
qed


text \<open>C3: when the segments in the queue are parts of the peer's stream, do not overlap and do not end
  before \<open>rcv_processed\<close>, and fewer than \<open>2\<^sup>3\<^sup>1\<close> bytes are asked for, the loop of \<open>pico_tcp_read\<close> ends
  without leaving the memory of a segment, and what it copies to the caller is the peer's stream from
  \<open>rcv_processed\<close> on, without a byte lost, repeated or out of order: up to the length asked for, or
  up to the first byte that has not arrived.\<close>

theorem pico_tcp_read_delivers_stream:
  assumes "in_rep base t segs" "reasm base S (soff base (rcv_processed t)) segs"
    and "near base (rcv_processed t)" "unat len < 2 ^ 31"
  shows "\<exists>n t' segs'. read_loop t len 0 [] =
        Some (map (\<lambda>i. S (soff base (rcv_processed t) + int i)) [0..<n], of_nat n, t')
     \<and> n \<le> unat len \<and> rcv_processed t' = rcv_processed t + of_nat n
     \<and> in_rep base t' segs' \<and> reasm base S (soff base (rcv_processed t')) segs'
     \<and> (\<forall>s \<in> set segs. s \<in> set segs' \<or> seg_end base s \<le> soff base (rcv_processed t) + int n)
     \<and> (n = unat len \<or> (\<forall>s \<in> set segs'. soff base (rcv_processed t) + int n < seg_start base s))"
proof -
  obtain n where "read_done base S t segs len 0 [] n" using read_loop_ok [OF assms] by blast
  then obtain t' segs' where "read_loop t len 0 [] =
        Some ([] @ map (\<lambda>i. S (soff base (rcv_processed t) + int i)) [0..<n], 0 + of_nat n, t')"
      "rcv_processed t' = rcv_processed t + of_nat n" "n \<le> unat len - unat (0 :: u32)"
      "soff base (rcv_processed t') = soff base (rcv_processed t) + int n"
      "in_rep base t' segs'" "reasm base S (soff base (rcv_processed t')) segs'"
      "\<forall>s \<in> set segs. s \<in> set segs' \<or> seg_end base s \<le> soff base (rcv_processed t')"
      "n = unat len - unat (0 :: u32) \<or> (\<forall>s \<in> set segs'. soff base (rcv_processed t') < seg_start base s)"
    unfolding read_done_def by blast
  then show ?thesis by (intro exI [of _ n] exI [of _ t'] exI [of _ segs']) simp
qed

theorem pico_tcp_read_delivers_stream_witness:
  "\<exists>t' n t''. tcp_data_in_expected (rx_socket 100) 1 = Some (0, t')
     \<and> read_loop t' 2 0 [] = Some (map (\<lambda>i. rx_stream (int i)) [0..<n], of_nat n, t'')"
proof -
  obtain t' where t': "tcp_data_in_expected (rx_socket 100) 1 = Some (0, t')"
    "in_rep 100 t' [rx_seg 100 [1, 2, 3]]" "reasm 100 rx_stream 0 [rx_seg 100 [1, 2, 3]]" "rcv_processed t' = 100"
    using data_in_expected_ok [where t = "rx_socket 100" and f = 1, OF rx_facts(1,2) _ rx_facts(5-7) rx_seg_carries(1)]
      rx_facts rx_seg_carries by fastforce
  show ?thesis
    using pico_tcp_read_delivers_stream [OF t'(2), of rx_stream 2] t' rx_facts(3,4) by fastforce
qed

section \<open>Overlapping segments\<close>

lemma in_not_next:
  assumes "in_rep base t segs" "near base (seg_seq s)" "seg_end base s < 2 ^ 30"
    and "\<forall>x \<in> set segs. seg_start base x \<noteq> seg_end base s"
  shows "next_segment t Q_in (Some (Inp s)) = Some None"
proof -
  have "seg_seq x \<noteq> seg_seq s + ucast (seg_payload_len s)" if "x \<in> set segs" for x
    using assms(4) that seg_end_soff [OF assms(2)] by (metis seg_start_def)
  then have "find (\<lambda>x. seg_seq x = seg_seq s + ucast (seg_payload_len s)) segs = None" by (simp add: find_None_iff)
  then show ?thesis using in_peek [OF assms(1) near_end [OF assms(2,3)]] by (simp add: next_segment_def)
qed

text \<open>A read that is past the end of a segment takes its length to be near \<open>2\<^sup>3\<^sup>2\<close>.\<close>

lemma read_past_end_len:
  assumes "int (seg_len s) < off" "off < 2 ^ 31" "tot < len" "unat len < 2 ^ 31"
  shows "unat len - unat tot \<le> unat (tcp_read_in_frame_len s off tot len)"
proof -
  define a where "a = (ucast (seg_payload_len s) - word_of_int off :: u32)"
  obtain d where d: "off = int (seg_len s + d)" "0 < d"
    using zless_iff_Suc_zadd assms(1) by (metis int_ops(5) zero_less_Suc)
  have "int d < 2 ^ 31" using assms(2) d(1) by linarith
  then have d31: "d < 2 ^ 31" by simp
  have "(word_of_int off :: u32) = of_nat (seg_len s + d)" by (simp only: d(1) of_int_of_nat_eq)
  also have "\<dots> = ucast (seg_payload_len s) + of_nat d" by (simp only: of_nat_add ucast_u16_u32)
  finally have "a = - of_nat d" by (simp add: a_def)
  moreover have "unat (- of_nat d :: u32) = 2 ^ 32 - d"
  proof -
    have "(of_nat (2 ^ 32 - d) :: u32) = of_nat (2 ^ 32) - of_nat d" by (rule of_nat_diff) (use d31 in simp)
    then have "(- of_nat d :: u32) = of_nat (2 ^ 32 - d)" by simp
    moreover have "2 ^ 32 - d < 2 ^ 32" using d(2) by simp
    ultimately show ?thesis by (simp only: unat_of_nat_u32)
  qed
  ultimately have a: "unat len \<le> unat a" using d31 assms(4) by simp
  have off0: "0 < off" using assms(1) by linarith
  have "unat (len - tot) = unat len - unat tot" using assms(3) by (simp add: unat_sub)
  moreover have "tcp_read_in_frame_len s off tot len = (if len < a + tot then len - tot else a)"
    using off0 by (simp add: tcp_read_in_frame_len_def a_def)
  ultimately show ?thesis using a by auto
qed

text \<open>The read is at the end of the first segment, and the second one ended before.\<close>

definition reads_outside :: "pico_socket_tcp \<Rightarrow> u32 \<Rightarrow> u32 \<Rightarrow> bool" where
  "reads_outside t len tot \<longleftrightarrow> (\<exists>k u s n. release_until t Q_in (rcv_processed t) = Some (k, u)
     \<and> first_segment u Q_in = Some (Some (Inp s)) \<and> n = tcp_read_in_frame_len s (pico_seq_compare (rcv_processed u) (seg_seq s)) tot len
     \<and> int (length (seg_payload s)) < pico_seq_compare (rcv_processed u) (seg_seq s) \<and> unat len - unat tot \<le> unat n)"

lemma overrun_round:
  assumes r: "in_rep base t (s1 # s2 # rest)" and p: "soff base (rcv_processed t) = seg_end base s1" "near base (rcv_processed t)"
    and e: "seg_end base s2 < seg_end base s1" "length (seg_payload s2) = seg_len s2"
    and nx: "\<forall>x \<in> set (s1 # s2 # rest). seg_start base x \<noteq> seg_end base s1" and tl: "tot < len" "unat len < 2 ^ 31"
  shows "read_loop t len tot buf = None \<and> reads_outside t len tot"
proof -
  let ?p = "rcv_processed t" and ?e = "seg_seq s1 + ucast (seg_payload_len s1)"
  have n1: "near base (seg_seq s1)" "near base (seg_seq s2)" using in_rep_near [OF r] by simp_all
  have e1: "seg_end base s1 < 2 ^ 30" using p by (simp add: near_def)
  have c: "pico_seq_compare ?e ?p = 0"
    using pico_seq_compare_soff [OF near_end [OF n1(1) e1] p(2)] seg_end_soff [OF n1(1)] p(1) by simp
  obtain q where q: "pico_discard_segment t Q_in (Inp s1) = Some (t\<lparr>tcpq_in := q\<rparr>)"
    "in_rep base (t\<lparr>tcpq_in := q\<rparr>) (s2 # rest)" using in_discard_first [OF r] by blast
  let ?u = "t\<lparr>tcpq_in := q\<rparr>"
  have rel: "release_until t Q_in ?p = Some (1, ?u)"
    using in_first [OF r] c q(1) in_not_next [OF r n1(1) e1 nx]
    by (subst release_until_def, subst release_until_loop.simps) simp
  have f: "first_segment ?u Q_in = Some (Some (Inp s2))" using in_first [OF q(2)] by simp
  have off: "pico_seq_compare ?p (seg_seq s2) = seg_end base s1 - seg_start base s2"
    using pico_seq_compare_soff [OF p(2) n1(2)] p(1) by (simp add: seg_start_def)
  have big: "int (seg_len s2) < pico_seq_compare ?p (seg_seq s2)"
    using e(1) unfolding off seg_end_def [of base s2] by linarith
  have "- (2 ^ 30) < seg_start base s2" using n1(2) by (simp add: near_def seg_start_def)
  then have lt: "pico_seq_compare ?p (seg_seq s2) < 2 ^ 31" using e1 unfolding off by simp
  have n0: "\<not> pico_seq_compare ?p (seg_seq s2) < 0" using big by linarith
  have "seg_len s2 < nat (pico_seq_compare ?p (seg_seq s2))" using big by linarith
  then have "mem_read (seg_payload s2) (nat (pico_seq_compare ?p (seg_seq s2))) m = None" for m
    using e(2) by (simp add: mem_read_def)
  then have "read_loop t len tot buf = None"
    using tl(1) rel f n0 by (subst read_loop.simps) (simp add: Let_def)
  moreover have "reads_outside t len tot"
    unfolding reads_outside_def using rel f big e(2) read_past_end_len [OF big lt tl] by fastforce
  ultimately show ?thesis by blast
qed

text \<open>The part of the first segment that is not yet read is copied first, and the segment stays.\<close>

lemma overrun_first_round:
  assumes r: "in_rep base t (s # rest)" and p: "seg_start base s < soff base (rcv_processed t)" "soff base (rcv_processed t) < seg_end base s"
    and n: "near base (rcv_processed t)" and e: "seg_end base s < 2 ^ 30" "length (seg_payload s) = seg_len s"
    and l: "seg_end base s - soff base (rcv_processed t) < int (unat len)" "unat len < 2 ^ 31"
    and m: "m = nat (seg_end base s - soff base (rcv_processed t))"
  shows "read_loop t len 0 [] = read_loop (t\<lparr>rcv_processed := rcv_processed t + of_nat m\<rparr>) len (of_nat m) (drop (seg_len s - m) (seg_payload s))
     \<and> soff base (rcv_processed t + of_nat m) = seg_end base s"
proof -
  let ?p = "rcv_processed t"
  have n1: "near base (seg_seq s)" using in_rep_near [OF r] by simp
  have off: "pico_seq_compare ?p (seg_seq s) = soff base ?p - seg_start base s"
    using pico_seq_compare_soff [OF n n1] by (simp add: seg_start_def)
  define k where "k = soff base ?p - seg_start base s"
  have ob: "0 < k" "k < int (seg_len s)" "m = seg_len s - nat k" "0 < m" "m < seg_len s"
    using p m unfolding seg_end_def k_def by linarith+
  have c: "0 < pico_seq_compare (seg_seq s + ucast (seg_payload_len s)) ?p"
    using pico_seq_compare_soff [OF near_end [OF n1 e(1)] n] seg_end_soff [OF n1] p(2) by simp
  have f: "first_segment t Q_in = Some (Some (Inp s))" using in_first [OF r] by simp
  have rel: "release_until t Q_in ?p = Some (0, t)"
    using f c by (subst release_until_def, subst release_until_loop.simps) simp
  define w where "w = tcp_read_in_frame_len s k 0 len"
  have "m \<le> unat len" using l(1) m by linarith
  moreover have "unat w = min (seg_len s - nat k) (unat len - unat (0 :: u32))"
    unfolding w_def by (rule read_in_frame_len) (use ob(1,2) l(2) in simp_all)
  ultimately have um: "unat w = m" using ob(3) by (metis diff_zero min_absorb1 unsigned_0)
  then have w: "w = of_nat m" by (simp flip: um)
  have nd: "w \<noteq> 0" "w \<noteq> ucast (seg_payload_len s)" using um ob(4,5) by (auto simp: unat_ucast_up)
  have rd: "mem_read (seg_payload s) (nat k) (unat w) = Some (drop (seg_len s - m) (seg_payload s))"
    using um ob e(2) by (simp add: mem_read_def)
  have "0 < unat len" using l(1) p(2) by linarith
  then have "0 < len" by (simp add: word_less_nat_alt)
  then have "read_loop t len 0 [] = read_loop (t\<lparr>rcv_processed := rcv_processed t + w\<rparr>) len w (drop (seg_len s - m) (seg_payload s))"
    using rel f off ob(1) rd nd
    by (subst read_loop.simps) (simp add: Let_def k_def [symmetric] w_def [symmetric] tcp_read_check_segment_done_def)
  moreover have "soff base (?p + of_nat m) = soff base ?p + int m"
    by (rule soff_add [OF n]) (use ob(5) unat_u16_less [of "seg_payload_len s"] in simp)
  ultimately show ?thesis using w m p(2) by simp
qed

text \<open>C27: when the first segment of the queue is partly or wholly read, and the one behind it ends before it does
  and none begins where it ends, a read of more bytes than the first still holds leaves the memory of a segment:
  what is left of the first is copied, the first is dropped, and the next copy begins behind the end of the
  second, whose length is computed as a number near \<open>2\<^sup>3\<^sup>2\<close>, so that it covers all the bytes still asked for.\<close>

theorem pico_tcp_read_overruns:
  assumes "in_rep base t (s1 # s2 # rest)" "near base (rcv_processed t)"
    and "seg_start base s1 < soff base (rcv_processed t)" "soff base (rcv_processed t) \<le> seg_end base s1"
    and "seg_end base s2 < seg_end base s1" "seg_end base s1 < 2 ^ 30" "\<forall>x \<in> set (s1 # s2 # rest). seg_start base x \<noteq> seg_end base s1"
    and "length (seg_payload s1) = seg_len s1" "length (seg_payload s2) = seg_len s2"
    and "m = nat (seg_end base s1 - soff base (rcv_processed t))" "m < unat len" "unat len < 2 ^ 31"
  shows "read_loop t len 0 [] = None
     \<and> read_loop t len 0 [] = read_loop (t\<lparr>rcv_processed := rcv_processed t + of_nat m\<rparr>) len (of_nat m) (drop (seg_len s1 - m) (seg_payload s1))
     \<and> reads_outside (t\<lparr>rcv_processed := rcv_processed t + of_nat m\<rparr>) len (of_nat m)"
proof -
  let ?t = "t\<lparr>rcv_processed := rcv_processed t + of_nat m\<rparr>"
  have first: "read_loop t len 0 [] = read_loop ?t len (of_nat m) (drop (seg_len s1 - m) (seg_payload s1))
     \<and> soff base (rcv_processed t + of_nat m) = seg_end base s1"
  proof (cases "soff base (rcv_processed t) = seg_end base s1")
    case True
    then show ?thesis using assms(8,10) by simp
  next
    case False
    have "0 \<le> seg_end base s1 - soff base (rcv_processed t)" using assms(4) by simp
    then have "seg_end base s1 - soff base (rcv_processed t) < int (unat len)" using assms(10,11) by linarith
    then show ?thesis using assms False by (intro overrun_first_round) simp_all
  qed
  have "unat (of_nat m :: u32) = m" using assms(11,12) by (intro unat_of_nat_u32) simp
  then have tl: "of_nat m < len" using assms(11) by (simp add: word_less_nat_alt)
  have "seg_start base s1 \<le> seg_end base s1" using assms(3,4) by simp
  then have "near base (rcv_processed ?t)"
    using first assms(6) in_rep_near [OF assms(1), of s1] by (simp add: near_def seg_start_def)
  then have "read_loop ?t len (of_nat m) (drop (seg_len s1 - m) (seg_payload s1)) = None \<and> reads_outside ?t len (of_nat m)"
    using first assms(1,5,7,9,12) tl by (intro overrun_round [of base ?t s1 s2 rest]) simp_all
  then show ?thesis using first by simp
qed

text \<open>Of two segments in the queue one lies within the other: bytes 100 to 109, and byte 105.  A read of 20 bytes
  from byte 104 on copies the six up to the end of the first and goes on behind the end of the second.\<close>

theorem pico_tcp_read_overruns_witness:
  "\<exists>t. (do { (_, t) \<leftarrow> pico_enqueue_segment (rx_empty 104) Q_in (Some (Inp (rx_seg 105 [5])));
        (_, t) \<leftarrow> pico_enqueue_segment t Q_in (Some (Inp (rx_seg 100 [0, 1, 2, 3, 4, 5, 6, 7, 8, 9])));
        Some t }) = Some t \<and> rcv_processed t = 104 \<and> read_loop t 20 0 [] = None
     \<and> reads_outside (t\<lparr>rcv_processed := 110\<rparr>) 20 6"
proof -
  let ?a = "rx_seg 100 [0, 1, 2, 3, 4, 5, 6, 7, 8, 9]" and ?b = "rx_seg 105 [5]"
  have so: "soff 100 100 = 0" "soff 100 105 = 5" "soff 100 104 = 4" by (simp_all add: soff_def)
  then have nr: "near 100 100" "near 100 105" "near 100 104" by (simp_all add: near_def)
  have se: "seg_seq ?a = 100" "seg_seq ?b = 105" "seg_start 100 ?a = 0" "seg_start 100 ?b = 5" "seg_len ?a = 10" "seg_len ?b = 1"
    "seg_end 100 ?a = 10" "seg_end 100 ?b = 6" "length (seg_payload ?a) = 10" "length (seg_payload ?b) = 1"
    "seg_payload_len ?a = 10" "seg_payload_len ?b = 1"
    using so by (simp_all add: seg_start_def seg_end_def rx_seg_def)
  have r0: "in_rep 100 (rx_empty 104) []" by (simp add: in_rep_def rx_empty_def zero_queue_def tree_inv_empty)
  have m: "mem_supply (rx_empty 104) = []" "rcv_processed (rx_empty 104) = 104" by (simp_all add: rx_empty_def zero_socket_def)
  obtain q1 where q1: "pico_enqueue_segment (rx_empty 104) Q_in (Some (Inp ?b)) = Some (1, (rx_empty 104)\<lparr>tcpq_in := q1\<rparr>)"
    "in_rep 100 ((rx_empty 104)\<lparr>tcpq_in := q1\<rparr>) [?b]"
    using in_enqueue [OF r0, of ?b] se m(1) nr by (auto simp: rx_empty_def zero_queue_def PICO_DEFAULT_SOCKETQ_def)
  have "map_option (\<lambda>(_, t). (tq_size (tcpq_in t), tq_max_size (tcpq_in t))) (pico_enqueue_segment (rx_empty 104) Q_in (Some (Inp ?b)))
      = Some (1, PICO_DEFAULT_SOCKETQ)" by code_simp
  then have z: "tq_size q1 = 1" "tq_max_size q1 = PICO_DEFAULT_SOCKETQ" using q1(1) by simp_all
  obtain q2 where q2: "pico_enqueue_segment ((rx_empty 104)\<lparr>tcpq_in := q1\<rparr>) Q_in (Some (Inp ?a)) = Some (10, (rx_empty 104)\<lparr>tcpq_in := q2\<rparr>)"
    "in_rep 100 ((rx_empty 104)\<lparr>tcpq_in := q2\<rparr>) [?a, ?b]"
    using in_enqueue [OF q1(2), of ?a] se m(1) nr z by (auto simp: PICO_DEFAULT_SOCKETQ_def)
  show ?thesis
    using pico_tcp_read_overruns [OF q2(2), where m = 6 and len = 20] q1(1) q2(1) se so nr m(2) by simp
qed

end
