(* ===== verification/Tcp_Options.thy ===== *)
theory Tcp_Options
  imports Tcp_Queue
begin

text \<open>
  TCP options of \<open>modules/pico_tcp.c\<close>: how much room they take, how they are written and how those
  of a received segment are read, with the selective acknowledgements.  Options are in
  \<open>f_body\<close>, offset 0 being \<open>transport_hdr + PICO_SIZE_TCPHDR\<close>; writing or reading past the end of the
  frame is \<open>None\<close>.  A parser that does not end is \<open>None\<close> too.
\<close>

section \<open>Sizes\<close>

definition round4 :: "u16 \<Rightarrow> u16" where
  "round4 sz = ucast (push_bit 2 (drop_bit 2 ((ucast sz :: u32) + 3)))"

definition tcp_options_size_frame :: "tcp_frame \<Rightarrow> u16" where
  "tcp_options_size_frame f =
     (let sz = 0 + ucast PICO_TCPOPTLEN_WS;
          sz = (if f_transport_flags_saved f \<noteq> 0 then sz + ucast PICO_TCPOPTLEN_TIMESTAMP else sz);
          sz = sz + PICO_TCPOPTLEN_END
      in round4 sz)"

definition tcp_options_size :: "pico_socket_tcp \<Rightarrow> u8 \<Rightarrow> u16" where
  "tcp_options_size t flags =
     (let sz = (if flags AND PICO_TCP_SYN \<noteq> 0
                then ucast PICO_TCPOPTLEN_MSS + ucast PICO_TCP_OPTION_SACK_OK
                     + ucast PICO_TCPOPTLEN_WS + ucast PICO_TCPOPTLEN_TIMESTAMP
                else (let sz = ucast PICO_TCPOPTLEN_WS;
                          sz = (if ts_ok t \<noteq> 0 then sz + ucast PICO_TCPOPTLEN_TIMESTAMP else sz)
                      in sz + PICO_TCPOPTLEN_END));
          sz = (if flags AND PICO_TCP_ACK \<noteq> 0 \<and> sack_ok t \<noteq> 0 \<and> sacks t \<noteq> []
                then sz + 2 + of_nat (8 * length (sacks t)) else sz)
      in round4 sz)"

definition pico_tcp_overhead :: "pico_socket_tcp option \<Rightarrow> u16" where
  "pico_tcp_overhead s = (case s of None \<Rightarrow> 0
     | Some t \<Rightarrow> of_nat PICO_SIZE_TCPHDR + tcp_options_size t 0)"

section \<open>Writing\<close>

text \<open>\<open>f->start[i] = \<dots>\<close> for the bytes of \<open>bs\<close>; the new index.\<close>

definition put_opt :: "u8 list \<Rightarrow> nat \<Rightarrow> u8 list \<Rightarrow> (u8 list \<times> nat) option" where
  "put_opt m i bs = (case mem_write m i bs of None \<Rightarrow> None | Some m' \<Rightarrow> Some (m', i + length bs))"

definition put_timestamp :: "pico_socket_tcp \<Rightarrow> u8 list \<Rightarrow> nat \<Rightarrow> (u8 list \<times> nat) option" where
  "put_timestamp t m i =
     put_opt m i ([PICO_TCP_OPTION_TIMESTAMP, PICO_TCPOPTLEN_TIMESTAMP]
       @ bytes_of_u32 (long_be (ucast (now t))) @ bytes_of_u32 (long_be (ts_nxt t)))"

primrec sack_blocks :: "tcp_sack_block list \<Rightarrow> u8 list \<Rightarrow> nat \<Rightarrow> nat \<Rightarrow> (u8 list \<times> nat) option" where
  "sack_blocks [] m i len_off = Some (m, i)"
| "sack_blocks (sb # sbs) m i len_off = do {
     (m, i) \<leftarrow> put_opt m i (bytes_of_u32 (sb_left sb) @ bytes_of_u32 (sb_right sb));
     (m, _) \<leftarrow> put_opt m len_off [m ! len_off + 8];
     sack_blocks sbs m i len_off }"

text \<open>The blocks are freed as they are written.\<close>

definition tcp_add_sack_option ::
    "pico_socket_tcp \<Rightarrow> u8 list \<Rightarrow> u8 \<Rightarrow> nat \<Rightarrow> (pico_socket_tcp \<times> u8 list \<times> nat) option" where
  "tcp_add_sack_option t m flags i =
     (if flags AND PICO_TCP_ACK \<noteq> 0 \<and> sack_ok t \<noteq> 0 \<and> sacks t \<noteq> [] then do {
        (m, i) \<leftarrow> put_opt m i [PICO_TCP_OPTION_SACK, PICO_TCPOPTLEN_SACK];
        (m, i) \<leftarrow> sack_blocks (sacks t) m i (i - 1);
        Some (t\<lparr>sacks := []\<rparr>, m, i) }
      else Some (t, m, i))"

definition put_end :: "u8 list \<Rightarrow> nat \<Rightarrow> nat \<Rightarrow> u8 list option" where
  "put_end m i optsiz = (if i < optsiz then mem_write m (optsiz - 1) [PICO_TCP_OPTION_END] else Some m)"

definition tcp_add_options ::
    "pico_socket_tcp \<Rightarrow> u8 list \<Rightarrow> u8 \<Rightarrow> u16 \<Rightarrow> (pico_socket_tcp \<times> u8 list) option" where
  "tcp_add_options t m flags optsiz = do {
     m \<leftarrow> mem_write m 0 (replicate (unat optsiz) PICO_TCP_OPTION_NOOP);
     (m, i) \<leftarrow> (if flags AND PICO_TCP_SYN \<noteq> 0
                then put_opt m 0 [PICO_TCP_OPTION_MSS, PICO_TCPOPTLEN_MSS,
                       ucast (drop_bit 8 (mss t) AND 0xFF), ucast (mss t AND 0xFF),
                       PICO_TCP_OPTION_SACK_OK, PICO_TCPOPTLEN_SACK_OK]
                else Some (m, 0));
     (m, i) \<leftarrow> put_opt m i [PICO_TCP_OPTION_WS, PICO_TCPOPTLEN_WS, ucast (wnd_scale t)];
     (m, i) \<leftarrow> (if flags AND PICO_TCP_SYN \<noteq> 0 \<or> ts_ok t \<noteq> 0 then put_timestamp t m i else Some (m, i));
     (t, m, i) \<leftarrow> tcp_add_sack_option t m flags i;
     m \<leftarrow> put_end m i (unat optsiz);
     Some (t, m) }"

definition tcp_add_options_frame :: "pico_socket_tcp \<Rightarrow> int \<Rightarrow> pico_socket_tcp option" where
  "tcp_add_options_frame t f = do {
     let fr = store t f;
     let optsiz = tcp_options_size_frame fr;
     m \<leftarrow> mem_write (f_body fr) 0 (replicate (unat optsiz) PICO_TCP_OPTION_NOOP);
     (m, i) \<leftarrow> put_opt m 0 [PICO_TCP_OPTION_WS, PICO_TCPOPTLEN_WS, ucast (wnd_scale t)];
     (m, i) \<leftarrow> (if f_transport_flags_saved fr \<noteq> 0 then put_timestamp t m i else Some (m, i));
     m \<leftarrow> put_end m i (unat optsiz);
     Some (upd_frame t f (\<lambda>fr. fr\<lparr>f_body := m\<rparr>)) }"

section \<open>Selective acknowledgements\<close>

text \<open>The result of the last comparison, the number of segments marked, the socket.\<close>

definition tcp_sack_marker ::
    "pico_socket_tcp \<Rightarrow> int \<Rightarrow> u32 \<Rightarrow> u32 \<Rightarrow> u16 \<Rightarrow> int \<times> u16 \<times> pico_socket_tcp" where
  "tcp_sack_marker t f blk_start blk_end cnt =
     (let cmp = pico_seq_compare (SEQN (store t f)) blk_start in
      if cmp > 0 then (0, cnt, t)
      else if cmp = 0 then
        (pico_seq_compare (SEQN (store t f) + ucast (f_payload_len (store t f))) blk_end, cnt + 1,
         upd_frame t f (\<lambda>fr. fr\<lparr>f_flags := f_flags fr OR PICO_FRAME_FLAG_SACKED\<rparr>))
      else (cmp, cnt, t))"

fun process_sack_loop ::
    "tcp_elem list \<Rightarrow> pico_socket_tcp \<Rightarrow> u32 \<Rightarrow> u32 \<Rightarrow> u16 \<Rightarrow> u16 \<times> pico_socket_tcp" where
  "process_sack_loop (Frm f # es) t blk_start blk_end cnt =
     (case tcp_sack_marker t f blk_start blk_end cnt of (cmp, cnt, t) \<Rightarrow>
        if cmp = 0 then (cnt, t) else process_sack_loop es t blk_start blk_end cnt)"
| "process_sack_loop _ t blk_start blk_end cnt = (cnt, t)"

definition tcp_process_sack :: "pico_socket_tcp \<Rightarrow> u32 \<Rightarrow> u32 \<Rightarrow> pico_socket_tcp option" where
  "tcp_process_sack t blk_start blk_end = do {
     fs \<leftarrow> pico_tree_foreach (pool (tcpq_out t));
     let (cnt, t) = process_sack_loop fs t blk_start blk_end 0;
     Some (if x_mode t > PICO_TCP_LOOKAHEAD then
             (if in_flight t > ucast cnt then t\<lparr>in_flight := in_flight t - ucast cnt\<rparr>
              else t\<lparr>in_flight := 0\<rparr>)
           else t) }"

text \<open>\<open>opt\<close> is the option's content from its first block on, \<open>len\<close> the length left for it.\<close>

fun rcv_sack_loop :: "nat \<Rightarrow> pico_socket_tcp \<Rightarrow> u8 list \<Rightarrow> nat \<Rightarrow> pico_socket_tcp option" where
  "rcv_sack_loop 0 t opt i = Some t"
| "rcv_sack_loop (Suc k) t opt i = do {
     l \<leftarrow> mem_read opt i 4;
     r \<leftarrow> mem_read opt (i + 4) 4;
     t \<leftarrow> tcp_process_sack t (long_be (long_from l)) (long_be (long_from r));
     rcv_sack_loop k t opt (i + 8) }"

definition tcp_rcv_sack :: "pico_socket_tcp \<Rightarrow> u8 list \<Rightarrow> int \<Rightarrow> pico_socket_tcp option" where
  "tcp_rcv_sack t opt len =
     (if len < 0 \<or> len mod 8 \<noteq> 0 then Some t else rcv_sack_loop (nat len div 8) t opt 0)"

section \<open>Reading\<close>

text \<open>\<open>tcpopt_len_check\<close>: whether the length is the expected one, and the index after it.\<close>

definition tcpopt_len_check :: "u32 \<Rightarrow> u8 \<Rightarrow> u8 \<Rightarrow> int \<times> u32" where
  "tcpopt_len_check idx len expected =
     (if len \<noteq> expected then (-1, idx + ucast len - 2) else (0, idx))"

definition tcp_parse_option_ws ::
    "pico_socket_tcp \<Rightarrow> u8 \<Rightarrow> u8 list \<Rightarrow> u32 \<Rightarrow> (pico_socket_tcp \<times> u32) option" where
  "tcp_parse_option_ws t len opt idx =
     (case tcpopt_len_check idx len PICO_TCPOPTLEN_WS of (r, idx) \<Rightarrow>
      if r < 0 then Some (t, idx)
      else do {
        v \<leftarrow> mem_read opt (unat idx) 1;
        Some (t\<lparr>recv_wnd_scale := ucast (v ! 0)\<rparr>, idx + 1) })"

definition tcp_parse_option_sack_ok ::
    "pico_socket_tcp \<Rightarrow> int \<Rightarrow> u8 \<Rightarrow> u32 \<Rightarrow> (pico_socket_tcp \<times> u32) option" where
  "tcp_parse_option_sack_ok t f len idx =
     (case tcpopt_len_check idx len PICO_TCPOPTLEN_SACK_OK of (r, idx) \<Rightarrow>
      if r < 0 then Some (t, idx)
      else Some (if h_flags (store t f) AND PICO_TCP_SYN \<noteq> 0 then t\<lparr>sack_ok := 1\<rparr> else t, idx))"

definition tcp_parse_option_mss ::
    "pico_socket_tcp \<Rightarrow> u8 \<Rightarrow> u8 list \<Rightarrow> u32 \<Rightarrow> (pico_socket_tcp \<times> u32) option" where
  "tcp_parse_option_mss t len opt idx =
     (case tcpopt_len_check idx len PICO_TCPOPTLEN_MSS of (r, idx) \<Rightarrow>
      if r < 0 then Some (t, idx)
      else do {
        let t = t\<lparr>mss_ok := 1\<rparr>;
        v \<leftarrow> mem_read opt (unat idx) 2;
        let m = short_from v;
        Some (if mss t > short_be m then t\<lparr>mss := short_be m\<rparr> else t, idx + 2) })"

definition tcp_parse_option_timestamp ::
    "pico_socket_tcp \<Rightarrow> int \<Rightarrow> u8 \<Rightarrow> u8 list \<Rightarrow> u32 \<Rightarrow> (pico_socket_tcp \<times> u32) option" where
  "tcp_parse_option_timestamp t f len opt idx =
     (case tcpopt_len_check idx len PICO_TCPOPTLEN_TIMESTAMP of (r, idx) \<Rightarrow>
      if r < 0 then Some (t, idx)
      else do {
        let t = t\<lparr>ts_ok := 1\<rparr>;
        tsval \<leftarrow> mem_read opt (unat idx) 4;
        tsecr \<leftarrow> mem_read opt (unat (idx + 4)) 4;
        let t = upd_frame t f (\<lambda>fr. fr\<lparr>f_timestamp := ucast (long_be (long_from tsecr))\<rparr>);
        Some (t\<lparr>ts_nxt := long_be (long_from tsval)\<rparr>, idx + 8) })"

text \<open>The switch over the option's type.  \<open>f_body\<close> does not change, so the options are read from
  the frame as it was.\<close>

definition parse_option ::
    "pico_socket_tcp \<Rightarrow> int \<Rightarrow> u8 \<Rightarrow> u8 \<Rightarrow> u8 list \<Rightarrow> u32 \<Rightarrow> (pico_socket_tcp \<times> u32) option" where
  "parse_option t f ty len opt i =
     (if ty = PICO_TCP_OPTION_NOOP \<or> ty = PICO_TCP_OPTION_END then Some (t, i)
      else if ty = PICO_TCP_OPTION_WS then tcp_parse_option_ws t len opt i
      else if ty = PICO_TCP_OPTION_SACK_OK then tcp_parse_option_sack_ok t f len i
      else if ty = PICO_TCP_OPTION_MSS then tcp_parse_option_mss t len opt i
      else if ty = PICO_TCP_OPTION_TIMESTAMP then tcp_parse_option_timestamp t f len opt i
      else if ty = PICO_TCP_OPTION_SACK then do {
        t \<leftarrow> tcp_rcv_sack t (drop (unat i) opt) (int (unat len) - 2);
        Some (t, i + ucast len - 2) }
      else Some (t, i + ucast len - 2))"

partial_function (option) parse_options_loop ::
    "pico_socket_tcp \<Rightarrow> int \<Rightarrow> u8 list \<Rightarrow> u32 \<Rightarrow> pico_socket_tcp option" where
  "parse_options_loop t f opt i =
     (let limit = ucast (f_transport_len (store t f)) - of_nat PICO_SIZE_TCPHDR :: u32 in
      if i < limit then do {
        ty \<leftarrow> mem_read opt (unat i) 1;
        let i = i + 1;
        (len, i) \<leftarrow> (if i < limit \<and> ty ! 0 > 1
                     then do { l \<leftarrow> mem_read opt (unat i) 1; Some (l ! 0, i + 1) }
                     else Some (1, i));
        (if PICO_SIZE_TCPHDR + unat i > f_payload (store t f) then Some t
         else do {
           (t, i) \<leftarrow> parse_option t f (ty ! 0) len opt i;
           parse_options_loop t f opt i }) }
      else Some t)"

definition tcp_parse_options :: "pico_socket_tcp \<Rightarrow> int \<Rightarrow> pico_socket_tcp option" where
  "tcp_parse_options t f =
     (let t = upd_frame t f (\<lambda>fr. fr\<lparr>f_timestamp := 0\<rparr>)
      in parse_options_loop t f (f_body (store t f)) 0)"

declare parse_options_loop.simps [code]

end
