(* ===== verification/Tcp_Options_Props.thy ===== *)
theory Tcp_Options_Props
  imports Tcp_Options
begin

text \<open>
  What the option code of \<open>Tcp_Options\<close> does: where reading the options of a segment ends and
  where it does not, what writing them leaves in the frame, and that a SYN's options are read
  as they were written.
\<close>

section \<open>Options that never end\<close>

text \<open>The space that options and payload take, the bound of the parser's loop.\<close>

definition opt_limit :: "tcp_frame \<Rightarrow> u32" where
  "opt_limit f = ucast (f_transport_len f) - of_nat PICO_SIZE_TCPHDR"

lemma parse_option_short:
  assumes "ty > 1" "l < 2"
  shows "parse_option t f ty l opt j = Some (t, j + ucast l - 2)"
proof -
  have ty: "ty \<noteq> PICO_TCP_OPTION_NOOP" "ty \<noteq> PICO_TCP_OPTION_END"
    using assms(1) by (auto simp: PICO_TCP_OPTION_NOOP_def PICO_TCP_OPTION_END_def)
  have l: "l \<noteq> 2" "l \<noteq> 3" "l \<noteq> 4" "l \<noteq> 10" "unat l < 2"
    using assms(2) by (auto simp: word_less_nat_alt)
  then have "int (unat l) - 2 < 0" by linarith
  then have "tcp_rcv_sack t x (int (unat l) - 2) = Some t" for x by (simp only: tcp_rcv_sack_def if_True simp_thms)
  then show ?thesis using ty l
    by (simp add: parse_option_def tcp_parse_option_ws_def tcp_parse_option_sack_ok_def
      tcp_parse_option_mss_def tcp_parse_option_timestamp_def tcpopt_len_check_def
      PICO_TCPOPTLEN_WS_def PICO_TCPOPTLEN_SACK_OK_def PICO_TCPOPTLEN_MSS_def PICO_TCPOPTLEN_TIMESTAMP_def)
qed

text \<open>At index \<open>i\<close> the options go on with one whose length byte is 0 or lies behind the end.\<close>

definition endless_option :: "tcp_frame \<Rightarrow> u8 list \<Rightarrow> u32 \<Rightarrow> bool" where
  "endless_option f opt i \<longleftrightarrow> i < opt_limit f \<and> unat i < length opt \<and> 1 < opt ! unat i \<and>
     (if i + 1 < opt_limit f
      then Suc (unat i) < length opt \<and> opt ! Suc (unat i) = 0 \<and> PICO_SIZE_TCPHDR + unat i + 2 \<le> f_payload f
      else PICO_SIZE_TCPHDR + unat i + 1 \<le> f_payload f)"

lemma endless_option_timestamp: "endless_option (fr\<lparr>f_timestamp := ts\<rparr>) opt i = endless_option fr opt i"
  by (simp add: endless_option_def opt_limit_def)

text \<open>One round of the loop, with what comes after it as a parameter.\<close>

definition options_round :: "(pico_socket_tcp \<Rightarrow> int \<Rightarrow> u8 list \<Rightarrow> u32 \<Rightarrow> pico_socket_tcp option)
    \<Rightarrow> pico_socket_tcp \<Rightarrow> int \<Rightarrow> u8 list \<Rightarrow> u32 \<Rightarrow> pico_socket_tcp option" where
  "options_round g t f opt i =
     (let limit = ucast (f_transport_len (store t f)) - of_nat PICO_SIZE_TCPHDR :: u32 in
      if i < limit then do {
        ty \<leftarrow> mem_read opt (unat i) 1;
        let i = i + 1;
        (len, i) \<leftarrow> (if i < limit \<and> ty ! 0 > 1
                     then do { l \<leftarrow> mem_read opt (unat i) 1; Some (l ! 0, i + 1) }
                     else Some (1, i));
        (if PICO_SIZE_TCPHDR + unat i > f_payload (store t f) then Some t
         else do {
           (t, i) \<leftarrow> parse_option t f (ty ! 0) len opt i;
           g t f opt i }) }
      else Some t)"

lemma options_round_loop: "parse_options_loop t f opt i = options_round parse_options_loop t f opt i"
  unfolding options_round_def by (subst parse_options_loop.simps) (rule refl)

lemma endless_round:
  assumes "endless_option (store t f) opt i"
  shows "options_round g t f opt i = g t f opt i"
proof -
  have i: "i < opt_limit (store t f)" "unat i < length opt" "1 < opt ! unat i" using assms by (simp_all add: endless_option_def)
  have r0: "mem_read opt (unat i) 1 = Some [opt ! unat i]"
    using i(2) by (simp add: mem_read_def Cons_nth_drop_Suc [symmetric])
  have u1: "unat (i + 1) = Suc (unat i)"
  proof -
    have "unat i < unat (opt_limit (store t f))" using i(1) by (simp add: word_less_nat_alt)
    then have "unat i + 1 < 2 ^ 32" using unat_u32_less [of "opt_limit (store t f)"] by simp
    then show ?thesis by (simp add: unat_plus_no_wrap)
  qed
  show ?thesis
  proof (cases "i + 1 < opt_limit (store t f)")
    case True
    then have e: "Suc (unat i) < length opt" "opt ! Suc (unat i) = 0" "PICO_SIZE_TCPHDR + unat i + 2 \<le> f_payload (store t f)"
      using assms by (simp_all add: endless_option_def)
    have r1: "mem_read opt (Suc (unat i)) 1 = Some [0]"
      using e(1,2) by (simp add: mem_read_def Cons_nth_drop_Suc [symmetric])
    have "unat (i + 1) < unat (opt_limit (store t f))" using True by (simp add: word_less_nat_alt)
    then have "unat (i + 1) + 1 < 2 ^ 32" using unat_u32_less [of "opt_limit (store t f)"] by simp
    then have "unat (i + 1 + 1) = unat (i + 1) + unat (1 :: u32)" by (intro unat_plus_no_wrap) simp
    then have u2: "unat (i + 1 + 1) = unat i + 2" using u1 by (simp only: unat_1)
    have "i + 1 + 1 + ucast (0 :: u8) - 2 = i" by simp
    then show ?thesis
      using i(1,3) True r0 r1 u1 u2 e(3) parse_option_short [of "opt ! unat i" 0 t f opt "i + 1 + 1"]
      unfolding opt_limit_def options_round_def by (simp add: Let_def)
  next
    case False
    then have e: "PICO_SIZE_TCPHDR + unat i + 1 \<le> f_payload (store t f)" using assms by (simp add: endless_option_def)
    show ?thesis
      using i(1,3) False r0 u1 e parse_option_short [of "opt ! unat i" 1 t f opt "i + 1"]
      unfolding opt_limit_def options_round_def by (simp add: Let_def)
  qed
qed

lemma parse_options_loop_hangs:
  assumes "endless_option (store t f) opt i"
  shows "parse_options_loop t f opt i = None"
proof -
  have "(t', f', opt', i') \<noteq> (t, f, opt, i)" if "parse_options_loop t' f' opt' i' = Some r" for t' f' opt' i' r
    using that
  proof (rule parse_options_loop.raw_induct [rotated])
    fix g t' f' opt' i' r
    assume IH: "\<And>t' f' opt' i' r. g t' f' opt' i' = Some r \<Longrightarrow> (t', f', opt', i') \<noteq> (t, f, opt, i)"
      and step: "(let limit = ucast (f_transport_len (store t' f')) - of_nat PICO_SIZE_TCPHDR :: u32 in
      if i' < limit then do {
        ty \<leftarrow> mem_read opt' (unat i') 1;
        let i = i' + 1;
        (len, i) \<leftarrow> (if i < limit \<and> ty ! 0 > 1
                     then do { l \<leftarrow> mem_read opt' (unat i) 1; Some (l ! 0, i + 1) }
                     else Some (1, i));
        (if PICO_SIZE_TCPHDR + unat i > f_payload (store t' f') then Some t'
         else do {
           (t, i) \<leftarrow> parse_option t' f' (ty ! 0) len opt' i;
           g t f' opt' i }) }
      else Some t') = Some r"
    show "(t', f', opt', i') \<noteq> (t, f, opt, i)"
    proof
      assume "(t', f', opt', i') = (t, f, opt, i)"
      then have e: "t' = t" "f' = f" "opt' = opt" "i' = i" by simp_all
      have "g t f opt i = Some r" using step endless_round [OF assms, of g] unfolding e options_round_def by (simp only:)
      then show False using IH by blast
    qed
  qed
  then have "parse_options_loop t f opt i \<noteq> Some r" for r by blast
  then show ?thesis by (cases "parse_options_loop t f opt i") blast+
qed

section \<open>Well-formed options are read to the end\<close>

fun opts_ok :: "u8 list \<Rightarrow> bool" where
  "opts_ok (ty # l # rest) =
     (if ty \<le> 1 then opts_ok (l # rest)
      else 2 \<le> l \<and> unat l - 2 \<le> length rest \<and> opts_ok (drop (unat l - 2) rest))"
| "opts_ok [ty] = (ty \<le> 1)"
| "opts_ok [] = True"

definition parse_keeps :: "int \<Rightarrow> pico_socket_tcp \<Rightarrow> pico_socket_tcp \<Rightarrow> bool" where
  "parse_keeps f t t' \<longleftrightarrow> pool (tcpq_out t') = pool (tcpq_out t)
     \<and> f_payload (store t' f) = f_payload (store t f) \<and> f_transport_len (store t' f) = f_transport_len (store t f)"

lemma parse_keeps_refl [simp]: "parse_keeps f t t"
  by (simp add: parse_keeps_def)

lemma parse_keeps_trans: "parse_keeps f t t' \<Longrightarrow> parse_keeps f t' t'' \<Longrightarrow> parse_keeps f t t''"
  by (simp add: parse_keeps_def)

lemma sack_marker_keeps: "tcp_sack_marker t g b e n = (c, n', t') \<Longrightarrow> parse_keeps f t t'"
  by (auto simp: tcp_sack_marker_def upd_frame_def parse_keeps_def Let_def split: if_splits)

lemma process_sack_loop_keeps: "process_sack_loop es t b e n = (n', t') \<Longrightarrow> parse_keeps f t t'"
proof (induction es t b e n rule: process_sack_loop.induct)
  case (1 g es t b e n)
  obtain c n1 t1 where m: "tcp_sack_marker t g b e n = (c, n1, t1)" by (cases "tcp_sack_marker t g b e n")
  show ?case
  proof (cases "c = 0")
    case True
    then show ?thesis using 1(2) m sack_marker_keeps [OF m] by simp
  next
    case False
    then have "parse_keeps f t1 t'" using 1 m by simp
    then show ?thesis using sack_marker_keeps [OF m] parse_keeps_trans by blast
  qed
qed simp_all

lemma process_sack_ok:
  assumes "tree_keys (pool (tcpq_out t)) ks"
  shows "\<exists>t'. tcp_process_sack t b e = Some t' \<and> parse_keeps f t t'"
proof -
  obtain n t1 where l: "process_sack_loop ks t b e 0 = (n, t1)" by (cases "process_sack_loop ks t b e 0")
  then show ?thesis
    using process_sack_loop_keeps [OF l, of f] tree_keys_foreach [OF assms]
    by (auto simp: tcp_process_sack_def parse_keeps_def)
qed

lemma rcv_sack_loop_ok:
  "tree_keys (pool (tcpq_out t)) ks \<Longrightarrow> i + 8 * k \<le> length opt \<Longrightarrow>
   \<exists>t'. rcv_sack_loop k t opt i = Some t' \<and> parse_keeps f t t'"
proof (induction k arbitrary: t i)
  case (Suc k)
  let ?l = "long_be (long_from (take 4 (drop i opt)))" and ?r = "long_be (long_from (take 4 (drop (i + 4) opt)))"
  obtain t1 where t1: "tcp_process_sack t ?l ?r = Some t1" "parse_keeps f t t1"
    using process_sack_ok [OF Suc.prems(1)] by blast
  have "tree_keys (pool (tcpq_out t1)) ks" using t1(2) Suc.prems(1) by (simp add: parse_keeps_def)
  then obtain t2 where "rcv_sack_loop k t1 opt (i + 8) = Some t2" "parse_keeps f t1 t2"
    using Suc.IH [of t1 "i + 8"] Suc.prems(2) by auto
  then show ?case using t1 Suc.prems(2) parse_keeps_trans by (auto simp: mem_read_def)
qed simp

lemma rcv_sack_ok:
  assumes "tree_keys (pool (tcpq_out t)) ks" "l \<le> int (length opt)"
  shows "\<exists>t'. tcp_rcv_sack t opt l = Some t' \<and> parse_keeps f t t'"
proof (cases "l < 0 \<or> l mod 8 \<noteq> 0")
  case False
  then have "0 + 8 * (nat l div 8) \<le> length opt" using assms(2) by (simp add: nat_le_iff)
  then show ?thesis using rcv_sack_loop_ok [OF assms(1)] False by (auto simp: tcp_rcv_sack_def)
qed (simp add: tcp_rcv_sack_def)

lemma len_check_eq: "tcpopt_len_check i l e = (r, j) \<Longrightarrow> (r = 0 \<and> l = e \<and> j = i) \<or> (r = -1 \<and> j = i + ucast l - 2)"
  by (auto simp: tcpopt_len_check_def split: if_splits)

text \<open>An option whose length fits moves the index to its end.\<close>

lemma parse_option_ok:
  assumes "tree_keys (pool (tcpq_out t)) ks" "ty > 1" "2 \<le> l" "unat i + (unat l - 2) \<le> length opt"
    "length opt < 2 ^ 31"
  shows "\<exists>t'. parse_option t f ty l opt i = Some (t', i + ucast l - 2) \<and> parse_keeps f t t'"
proof -
  note defs = parse_option_def tcp_parse_option_ws_def tcp_parse_option_sack_ok_def
      tcp_parse_option_mss_def tcp_parse_option_timestamp_def PICO_TCP_OPTION_NOOP_def PICO_TCP_OPTION_END_def
      PICO_TCP_OPTION_WS_def PICO_TCP_OPTION_SACK_OK_def PICO_TCP_OPTION_MSS_def PICO_TCP_OPTION_TIMESTAMP_def
      PICO_TCP_OPTION_SACK_def
  have ty: "ty \<noteq> 0" "ty \<noteq> 1" using assms(2) by auto
  consider "ty = 3" | "ty = 4" | "ty = 2" | "ty = 8" | "ty = 5" | "ty \<notin> {2, 3, 4, 5, 8}" by blast
  then show ?thesis
  proof cases
    case 1
    then show ?thesis using assms(4)
      by (auto simp: defs tcpopt_len_check_def PICO_TCPOPTLEN_WS_def mem_read_def parse_keeps_def)
  next
    case 2
    then show ?thesis
      by (auto simp: defs tcpopt_len_check_def PICO_TCPOPTLEN_SACK_OK_def parse_keeps_def)
  next
    case 3
    then show ?thesis using assms(4)
      by (auto simp: defs tcpopt_len_check_def PICO_TCPOPTLEN_MSS_def mem_read_def parse_keeps_def Let_def)
  next
    case 4
    have "unat (i + 4) = unat i + 4" if "l = 10" using assms(4,5) that by (simp add: unat_plus_no_wrap)
    then show ?thesis using assms(4) 4
      by (auto simp: defs tcpopt_len_check_def PICO_TCPOPTLEN_TIMESTAMP_def mem_read_def parse_keeps_def Let_def upd_frame_def)
  next
    case 5
    have "2 \<le> unat l" using assms(3) by (simp add: word_le_nat_alt)
    moreover have "unat l - 2 \<le> length (drop (unat i) opt)" using assms(4) by simp
    ultimately have "int (unat l) - 2 \<le> int (length (drop (unat i) opt))" by linarith
    then obtain t' where "tcp_rcv_sack t (drop (unat i) opt) (int (unat l) - 2) = Some t'" "parse_keeps f t t'"
      using rcv_sack_ok [OF assms(1)] by blast
    then show ?thesis using 5 by (simp add: defs)
  next
    case 6
    then show ?thesis using ty by (simp add: defs)
  qed
qed

lemma u8_le_1:
  assumes "(x :: u8) \<le> 1"
  shows "x = 0 \<or> x = 1"
proof -
  have "unat x = 0 \<or> unat x = 1" using assms by (auto simp: word_le_nat_alt)
  then show ?thesis by (auto simp: word_unat_eq_iff)
qed

lemma opts_ok_drop: "opts_ok (x # xs) \<Longrightarrow> x \<le> 1 \<Longrightarrow> opts_ok xs"
  by (cases xs) auto

lemma rounds_Suc:
  assumes "\<And>g. options_round g t f opt i = g t1 f opt i1" "\<forall>g. (options_round ^^ n) g t1 f opt i1 = g t' f opt k"
  shows "\<forall>g. (options_round ^^ Suc n) g t f opt i = g t' f opt k"
  using assms by simp

lemma rounds_loop: "(options_round ^^ n) parse_options_loop = parse_options_loop"
proof -
  have "options_round parse_options_loop = parse_options_loop" by (intro ext) (rule options_round_loop [symmetric])
  then show ?thesis by (induction n) simp_all
qed

text \<open>The loop reads well-formed options one after the other and comes to what is behind them.\<close>

lemma parse_options_prefix:
  assumes "opts_ok (drop i area)" "i \<le> length area" "opt = area @ rest" "length opt < 2 ^ 31"
    and "tree_keys (pool (tcpq_out t)) ks" "PICO_SIZE_TCPHDR + length area \<le> f_payload (store t f)"
    and "unat (f_transport_len (store t f)) = PICO_SIZE_TCPHDR + length opt"
  shows "\<exists>n t'. (\<forall>g. (options_round ^^ n) g t f opt (of_nat i) = g t' f opt (of_nat (length area))) \<and> parse_keeps f t t'"
  using assms(1,2,5-7)
proof (induction "length area - i" arbitrary: i t rule: less_induct)
  case less
  have u: "unat (of_nat k :: u32) = k" if "k \<le> Suc (length opt)" for k using that assms(4) by (simp add: unat_of_nat_u32)
  have ut: "unat (ucast (f_transport_len (store t f)) :: u32) = 20 + length opt"
    using less.prems(5) by (simp add: unat_ucast_up PICO_SIZE_TCPHDR_def)
  then have "(20 :: u32) \<le> ucast (f_transport_len (store t f))" by (simp add: word_le_nat_alt)
  then have lim: "unat (ucast (f_transport_len (store t f)) - of_nat PICO_SIZE_TCPHDR :: u32) = length opt"
    using ut by (simp add: unat_sub PICO_SIZE_TCPHDR_def)
  have le: "of_nat k < (ucast (f_transport_len (store t f)) - of_nat PICO_SIZE_TCPHDR :: u32) \<longleftrightarrow> k < length opt"
    if "k \<le> Suc (length opt)" for k using lim u [OF that] by (simp add: word_less_nat_alt)
  have lo: "length opt = length area + length rest" using assms(3) by simp
  show ?case
  proof (cases "i < length area")
    case False
    then have "i = length area" using less.prems(2) by simp
    then show ?thesis using parse_keeps_refl by (intro exI [of _ 0] exI [of _ t]) simp
  next
    case ia: True
    have il: "i < length opt" using ia lo by simp
    have r0: "mem_read opt i 1 = Some [opt ! i]" using il by (simp add: mem_read_def Cons_nth_drop_Suc [symmetric])
    obtain x xs where x: "drop i area = x # xs" using ia by (cases "drop i area") auto
    have xi: "opt ! i = x" using x ia assms(3) by (simp add: nth_append Cons_nth_drop_Suc [OF ia, symmetric])
    have xs: "xs = drop (Suc i) area" using x by (metis drop_Suc list.sel(3) tl_drop)
    show ?thesis
    proof (cases "x \<le> 1")
      case True
      then have rec: "\<exists>n t'. (\<forall>g. (options_round ^^ n) g t f opt (of_nat (Suc i)) = g t' f opt (of_nat (length area))) \<and> parse_keeps f t t'"
        using less.prems ia opts_ok_drop [of x xs] x xs by (intro less.hyps) auto
      have "parse_option t f x 1 opt j = Some (t, j)" for j
      proof -
        have "x = 0 \<or> x = 1" using True by (rule u8_le_1)
        then show ?thesis by (auto simp: parse_option_def PICO_TCP_OPTION_NOOP_def PICO_TCP_OPTION_END_def)
      qed
      then have "options_round g t f opt (of_nat i) = g t f opt (of_nat (Suc i))" for g
        using True il ia r0 xi le [of i] u [of i] u [of "Suc i"] less.prems(4)
        by (auto simp: options_round_def Let_def add.commute)
      then show ?thesis using rounds_Suc rec by blast
    next
      case False
      then obtain l ls where l: "xs = l # ls" "2 \<le> l" "unat l - 2 \<le> length ls" "opts_ok (drop (unat l - 2) ls)"
        using less.prems(1) x by (cases xs) auto
      have l2: "2 \<le> unat l" using l(2) by (simp add: word_le_nat_alt)
      have len: "length area = Suc (Suc (i + length ls))"
      proof -
        have "length (drop i area) = Suc (Suc (length ls))" using x l(1) by simp
        then show ?thesis using ia by simp
      qed
      have li: "opt ! Suc i = l"
      proof -
        have "drop (Suc i) area = l # ls" using xs l(1) by simp
        then have "area ! Suc i = l" using Cons_nth_drop_Suc [of "Suc i" area] len by simp
        then show ?thesis using assms(3) len by (simp add: nth_append)
      qed
      have r1: "mem_read opt (Suc i) 1 = Some [l]"
        using li len lo by (simp add: mem_read_def Cons_nth_drop_Suc [symmetric])
      have ty: "1 < x" using False by simp
      have ui: "unat (of_nat (i + 2) :: u32) = i + 2" using u [of "i + 2"] len lo by simp
      obtain t' where t': "parse_option t f x l opt (of_nat (i + 2)) = Some (t', of_nat (i + 2) + ucast l - 2)" "parse_keeps f t t'"
        using parse_option_ok [OF less.prems(3) ty l(2), of "of_nat (i + 2)" opt] ui len lo l(3) assms(4) by auto
      have j: "of_nat (i + 2) + ucast l - 2 = (of_nat (i + unat l) :: u32)" by simp
      have d: "drop (i + unat l) area = drop (unat l - 2) ls"
      proof -
        have "drop (i + unat l) area = drop (unat l) (drop i area)" by (simp add: add.commute)
        also have "\<dots> = drop (unat l) (x # l # ls)" using x l(1) by simp
        also have "\<dots> = drop (unat l - 2) ls"
          using le_Suc_ex [OF l2] by (auto simp del: of_nat_unat)
        finally show ?thesis .
      qed
      have rest: "\<exists>n t''. (\<forall>g. (options_round ^^ n) g t' f opt (of_nat (i + unat l)) = g t'' f opt (of_nat (length area))) \<and> parse_keeps f t' t''"
      proof (rule less.hyps)
        show "length area - (i + unat l) < length area - i" using l2 ia by simp
        show "opts_ok (drop (i + unat l) area)" using d l(4) by simp
        show "i + unat l \<le> length area" using len l(3) l2 by simp
      qed (use t'(2) less.prems(3-5) in \<open>simp_all add: parse_keeps_def\<close>)
      have "options_round g t f opt (of_nat i) = g t' f opt (of_nat (i + unat l))" for g
        using ty il ia r0 r1 xi le [of i] le [of "Suc i"] u [of i] u [of "Suc i"] ui t'(1) less.prems(4) len lo j
        by (simp add: options_round_def Let_def add.commute)
      then show ?thesis using rounds_Suc rest t'(2) parse_keeps_trans by blast
    qed
  qed
qed

lemma parse_options_loop_total:
  assumes "opts_ok area" "opt = area @ rest" "length opt < 2 ^ 31"
    and "tree_keys (pool (tcpq_out t)) ks" "f_payload (store t f) = PICO_SIZE_TCPHDR + length area"
    and "unat (f_transport_len (store t f)) = PICO_SIZE_TCPHDR + length opt"
  shows "\<exists>t'. parse_options_loop t f opt 0 = Some t'"
proof -
  let ?i = "length area"
  obtain n t' where n: "\<forall>g. (options_round ^^ n) g t f opt 0 = g t' f opt (of_nat ?i)" and k: "parse_keeps f t t'"
    using parse_options_prefix [of 0 area opt rest t ks f] assms by auto
  then have t': "parse_options_loop t f opt 0 = parse_options_loop t' f opt (of_nat ?i)" "parse_keeps f t t'"
    using rounds_loop [of n] by metis+
  have u: "unat (of_nat k :: u32) = k" if "k \<le> Suc (length opt)" for k using that assms(3) by (simp add: unat_of_nat_u32)
  have ut: "unat (ucast (f_transport_len (store t' f)) :: u32) = 20 + length opt"
    using assms(6) t'(2) by (simp add: unat_ucast_up PICO_SIZE_TCPHDR_def parse_keeps_def)
  then have "(20 :: u32) \<le> ucast (f_transport_len (store t' f))" by (simp add: word_le_nat_alt)
  then have lim: "unat (ucast (f_transport_len (store t' f)) - of_nat PICO_SIZE_TCPHDR :: u32) = length opt"
    using ut by (simp add: unat_sub PICO_SIZE_TCPHDR_def)
  have le: "of_nat k < (ucast (f_transport_len (store t' f)) - of_nat PICO_SIZE_TCPHDR :: u32) \<longleftrightarrow> k < length opt"
    if "k \<le> Suc (length opt)" for k using lim u [OF that] by (simp add: word_less_nat_alt)
  have rd: "mem_read opt k 1 = Some [opt ! k]" if "k < length opt" for k
    using that by (simp add: mem_read_def Cons_nth_drop_Suc [symmetric])
  have u2: "unat (of_nat ?i + 2 :: u32) = ?i + 2" if "Suc ?i < length opt"
    using u [of "?i + 2"] that by (simp add: add.commute)
  have pl: "f_payload (store t' f) = PICO_SIZE_TCPHDR + ?i" using assms(5) t'(2) by (simp add: parse_keeps_def)
  have "\<exists>t''. parse_options_loop t' f opt (of_nat ?i) = Some t''"
    using assms(2) rd [of ?i] rd [of "Suc ?i"] le [of ?i] le [of "Suc ?i"] u [of ?i] u [of "Suc ?i"] u2 pl
    by (subst parse_options_loop.simps) (auto simp: Let_def add.commute)
  then show ?thesis using t'(1) by simp
qed

section \<open>Written options\<close>

lemma short_be_from: "short_be (short_from [ucast (drop_bit 8 w AND 0xFF), ucast (w AND 0xFF)]) = w" for w :: u16
proof -
  let ?lo = "push_bit 8 (take_bit 8 w)" and ?hi = "take_bit 8 (drop_bit 8 w)"
  have a: "(push_bit 8 (ucast (ucast (w AND 0xFF) :: u8)) :: u16) = ?lo"
    "(ucast (ucast (drop_bit 8 w AND 0xFF) :: u8) :: u16) = ?hi"
    by (simp only: and_0xFF, rule bit_word_eqI, auto simp: bit_simps)+
  have "?lo + ?hi = ?lo OR ?hi" by (rule disjunctive_add) (auto simp: bit_simps)
  then have "short_from [ucast (drop_bit 8 w AND 0xFF), ucast (w AND 0xFF)] = short_be w"
    using a by (simp add: short_from_def short_be_or)
  then show ?thesis by simp
qed

lemma mem_read_append: "length a = i \<Longrightarrow> length b = n \<Longrightarrow> mem_read (a @ b @ c) i n = Some b"
  by (auto simp: mem_read_def)

lemma put_opt_append:
  "i = length pre \<Longrightarrow> length bs \<le> length rest \<Longrightarrow>
   put_opt (pre @ rest) i bs = Some (pre @ bs @ drop (length bs) rest, i + length bs)"
  by (simp add: put_opt_def mem_write_def)

text \<open>The bytes of the options, and the padding behind them.\<close>

definition mss_bytes :: "pico_socket_tcp \<Rightarrow> u8 list" where
  "mss_bytes t = [PICO_TCP_OPTION_MSS, PICO_TCPOPTLEN_MSS, ucast (drop_bit 8 (mss t) AND 0xFF), ucast (mss t AND 0xFF),
     PICO_TCP_OPTION_SACK_OK, PICO_TCPOPTLEN_SACK_OK]"

definition ws_bytes :: "pico_socket_tcp \<Rightarrow> u8 list" where
  "ws_bytes t = [PICO_TCP_OPTION_WS, PICO_TCPOPTLEN_WS, ucast (wnd_scale t)]"

definition ts_bytes :: "pico_socket_tcp \<Rightarrow> u8 list" where
  "ts_bytes t = [PICO_TCP_OPTION_TIMESTAMP, PICO_TCPOPTLEN_TIMESTAMP]
     @ bytes_of_u32 (long_be (ucast (now t))) @ bytes_of_u32 (long_be (ts_nxt t))"

definition block_bytes :: "tcp_sack_block \<Rightarrow> u8 list" where
  "block_bytes sb = bytes_of_u32 (sb_left sb) @ bytes_of_u32 (sb_right sb)"

definition writes_sack :: "pico_socket_tcp \<Rightarrow> u8 \<Rightarrow> bool" where
  "writes_sack t flags \<longleftrightarrow> flags AND PICO_TCP_ACK \<noteq> 0 \<and> sack_ok t \<noteq> 0 \<and> sacks t \<noteq> []"

definition sack_bytes :: "pico_socket_tcp \<Rightarrow> u8 list" where
  "sack_bytes t = [PICO_TCP_OPTION_SACK, PICO_TCPOPTLEN_SACK + of_nat (8 * length (sacks t))] @ concat (map block_bytes (sacks t))"

definition opts_bytes :: "pico_socket_tcp \<Rightarrow> u8 \<Rightarrow> u8 list" where
  "opts_bytes t flags = (if flags AND PICO_TCP_SYN \<noteq> 0 then mss_bytes t else []) @ ws_bytes t
     @ (if flags AND PICO_TCP_SYN \<noteq> 0 \<or> ts_ok t \<noteq> 0 then ts_bytes t else [])
     @ (if writes_sack t flags then sack_bytes t else [])"

definition pad_bytes :: "nat \<Rightarrow> u8 list" where
  "pad_bytes n = (if n = 0 then [] else replicate (n - 1) PICO_TCP_OPTION_NOOP @ [PICO_TCP_OPTION_END])"

lemma length_u32 [simp]: "length (bytes_of_u32 w) = 4"
  by (simp add: bytes_of_u32_def)

lemma length_block [simp]: "length (block_bytes sb) = 8"
  by (simp add: block_bytes_def)

lemma length_blocks [simp]: "length (concat (map block_bytes sbs)) = 8 * length sbs"
  by (induction sbs) auto

lemma opts_fit:
  assumes "length (sacks t) \<le> 3"
  shows "length (opts_bytes t flags) \<le> unat (tcp_options_size t flags)"
proof -
  have "length (sacks t) = 0 \<or> length (sacks t) = 1 \<or> length (sacks t) = 2 \<or> length (sacks t) = 3"
    using assms by linarith
  then show ?thesis
    by (elim disjE) (auto simp: opts_bytes_def mss_bytes_def ws_bytes_def ts_bytes_def sack_bytes_def tcp_options_size_def
      writes_sack_def Let_def round4_def PICO_TCPOPTLEN_MSS_def PICO_TCP_OPTION_SACK_OK_def PICO_TCPOPTLEN_WS_def
      PICO_TCPOPTLEN_TIMESTAMP_def PICO_TCPOPTLEN_END_def)
qed

lemma sack_blocks_append:
  "8 * length sbs \<le> length rest \<Longrightarrow> i = Suc (Suc (length pre)) + length done_b \<Longrightarrow> k = Suc (length pre) \<Longrightarrow>
   sack_blocks sbs (pre @ [o1, c] @ done_b @ rest) i k =
     Some (pre @ [o1, c + of_nat (8 * length sbs)] @ done_b @ concat (map block_bytes sbs) @ drop (8 * length sbs) rest,
       i + 8 * length sbs)"
proof (induction sbs arbitrary: rest i done_b c)
  case (Cons sb sbs)
  have p1: "put_opt (pre @ [o1, c] @ done_b @ rest) i (bytes_of_u32 (sb_left sb) @ bytes_of_u32 (sb_right sb))
      = Some ((pre @ [o1, c] @ done_b) @ block_bytes sb @ drop 8 rest, i + 8)"
    using put_opt_append [of i "pre @ [o1, c] @ done_b" "block_bytes sb" rest] Cons.prems by (simp add: block_bytes_def)
  let ?m = "(pre @ [o1, c] @ done_b) @ block_bytes sb @ drop 8 rest"
  have p2: "put_opt ?m k [?m ! k + 8] = Some (pre @ [o1, c + 8] @ (done_b @ block_bytes sb) @ drop 8 rest, Suc k)"
    using put_opt_append [of k "pre @ [o1]" "[c + 8]" "[c] @ done_b @ block_bytes sb @ drop 8 rest"] Cons.prems(3)
    by (simp add: nth_append)
  have "sack_blocks (sb # sbs) (pre @ [o1, c] @ done_b @ rest) i k
      = sack_blocks sbs (pre @ [o1, c + 8] @ (done_b @ block_bytes sb) @ drop 8 rest) (i + 8) k"
    using p1 p2 by simp
  also have "\<dots> = Some (pre @ [o1, c + 8 + of_nat (8 * length sbs)] @ (done_b @ block_bytes sb) @ concat (map block_bytes sbs)
      @ drop (8 * length sbs) (drop 8 rest), i + 8 + 8 * length sbs)"
    by (rule Cons.IH) (use Cons.prems in auto)
  finally show ?case by (simp add: add.assoc add.commute [of "8 * length sbs"])
qed simp

lemma put_end_append:
  "i = length pre \<Longrightarrow> put_end (pre @ replicate n PICO_TCP_OPTION_NOOP @ rest) i (i + n)
     = Some (pre @ pad_bytes n @ rest)"
  by (cases n) (simp_all add: put_end_def mem_write_def pad_bytes_def replicate_append_same [symmetric])

lemma tcp_add_options_writes:
  assumes "length (sacks t) \<le> 3" "unat (tcp_options_size t flags) \<le> length m"
  shows "tcp_add_options t m flags (tcp_options_size t flags) =
     Some (if writes_sack t flags then t\<lparr>sacks := []\<rparr> else t,
       opts_bytes t flags @ pad_bytes (unat (tcp_options_size t flags) - length (opts_bytes t flags))
         @ drop (unat (tcp_options_size t flags)) m)"
proof -
  define n where "n = unat (tcp_options_size t flags)"
  define rest where "rest = drop n m"
  let ?N = "PICO_TCP_OPTION_NOOP"
  define a where "a = (if flags AND PICO_TCP_SYN \<noteq> 0 then mss_bytes t else [])"
  define w where "w = a @ ws_bytes t"
  define c where "c = (if flags AND PICO_TCP_SYN \<noteq> 0 \<or> ts_ok t \<noteq> 0 then ts_bytes t else [])"
  define p where "p = w @ c"
  define d where "d = (if writes_sack t flags then sack_bytes t else [])"
  have fit: "length a + length (ws_bytes t) + length c + length d \<le> n"
    using opts_fit [OF assms(1), of flags] by (simp only: opts_bytes_def length_append n_def add.assoc a_def c_def d_def)
  have put: "put_opt (pre @ replicate k ?N @ rest) i bs = Some ((pre @ bs) @ replicate (k - length bs) ?N @ rest, i + length bs)"
    if "i = length pre" "length bs \<le> k" for pre k i bs
    using put_opt_append [of i pre bs "replicate k ?N @ rest"] that by simp
  have 0: "mem_write m 0 (replicate n ?N) = Some (replicate n ?N @ rest)"
    using assms(2) by (simp add: mem_write_def n_def rest_def)
  have 1: "(if flags AND PICO_TCP_SYN \<noteq> 0 then put_opt (replicate n ?N @ rest) 0 (mss_bytes t) else Some (replicate n ?N @ rest, 0))
      = Some (a @ replicate (n - length a) ?N @ rest, length a)"
    using put [of 0 "[]" "mss_bytes t" n] fit by (auto simp: a_def)
  have 2: "put_opt (a @ replicate (n - length a) ?N @ rest) (length a) (ws_bytes t)
      = Some (w @ replicate (n - length w) ?N @ rest, length w)"
    using put [of "length a" a "ws_bytes t" "n - length a"] fit by (simp add: w_def)
  have 3: "(if flags AND PICO_TCP_SYN \<noteq> 0 \<or> ts_ok t \<noteq> 0
        then put_opt (w @ replicate (n - length w) ?N @ rest) (length w) (ts_bytes t)
        else Some (w @ replicate (n - length w) ?N @ rest, length w))
      = Some (p @ replicate (n - length p) ?N @ rest, length p)"
    using put [of "length w" "w" "ts_bytes t" "n - length w"] fit by (auto simp: w_def p_def c_def)
  let ?t' = "if writes_sack t flags then t\<lparr>sacks := []\<rparr> else t"
  have 4: "tcp_add_sack_option t (p @ replicate (n - length p) ?N @ rest) flags (length p)
      = Some (?t', (p @ d) @ replicate (n - length (p @ d)) ?N @ rest, length (p @ d))"
  proof (cases "writes_sack t flags")
    case False
    then show ?thesis by (auto simp: tcp_add_sack_option_def writes_sack_def d_def)
  next
    case True
    let ?k = "n - length p"
    have k: "2 + 8 * length (sacks t) \<le> ?k" using fit True by (simp add: sack_bytes_def d_def p_def w_def)
    have "put_opt (p @ replicate ?k ?N @ rest) (length p) [PICO_TCP_OPTION_SACK, PICO_TCPOPTLEN_SACK]
        = Some (p @ [PICO_TCP_OPTION_SACK, PICO_TCPOPTLEN_SACK] @ [] @ replicate (?k - 2) ?N @ rest, length p + 2)"
      using put [of "length p" p "[PICO_TCP_OPTION_SACK, PICO_TCPOPTLEN_SACK]" ?k] k by simp
    moreover have "sack_blocks (sacks t) (p @ [PICO_TCP_OPTION_SACK, PICO_TCPOPTLEN_SACK] @ [] @ replicate (?k - 2) ?N @ rest)
         (length p + 2) (Suc (length p))
        = Some (p @ [PICO_TCP_OPTION_SACK, PICO_TCPOPTLEN_SACK + of_nat (8 * length (sacks t))] @ [] @ concat (map block_bytes (sacks t))
            @ drop (8 * length (sacks t)) (replicate (?k - 2) ?N @ rest), length p + 2 + 8 * length (sacks t))"
      by (rule sack_blocks_append) (use k in auto)
    ultimately show ?thesis using True k
      by (simp add: tcp_add_sack_option_def writes_sack_def sack_bytes_def d_def diff_diff_left)
  qed
  have 5: "put_end ((p @ d) @ replicate (n - length (p @ d)) ?N @ rest) (length (p @ d)) n
      = Some ((p @ d) @ pad_bytes (n - length (p @ d)) @ rest)"
    using put_end_append [of "length (p @ d)" "p @ d" "n - length (p @ d)" rest] fit by (simp add: p_def w_def)
  have ob: "opts_bytes t flags = p @ d" by (simp add: opts_bytes_def p_def w_def a_def c_def d_def)
  show ?thesis
    unfolding tcp_add_options_def n_def [symmetric] rest_def [symmetric] ob 0 put_timestamp_def
      mss_bytes_def [symmetric] ws_bytes_def [symmetric] ts_bytes_def [symmetric]
    using 1 2 3 4 5 by (simp del: append_assoc length_append)
qed

section \<open>Reading written options\<close>

definition opt_frame :: "tcp_frame \<Rightarrow> u8 list \<Rightarrow> bool" where
  "opt_frame fr opt \<longleftrightarrow> unat (opt_limit fr) = length opt \<and> f_payload fr = PICO_SIZE_TCPHDR + length opt \<and> length opt < 2 ^ 31"

lemma opt_frame_index:
  assumes "opt_frame fr opt" "k \<le> Suc (Suc (length opt))"
  shows "unat (of_nat k :: u32) = k"
  using assms by (simp add: opt_frame_def unat_of_nat_u32)

lemma opt_frame_less:
  assumes "opt_frame fr opt" "k \<le> Suc (Suc (length opt))"
  shows "of_nat k < (ucast (f_transport_len fr) - of_nat PICO_SIZE_TCPHDR :: u32) \<longleftrightarrow> k < length opt"
  using assms opt_frame_index [OF assms] by (simp add: opt_frame_def opt_limit_def word_less_nat_alt)

lemma mem_read_one: "i < length opt \<Longrightarrow> mem_read opt i 1 = Some [opt ! i]"
  by (simp add: mem_read_def Cons_nth_drop_Suc [symmetric])

lemma parse_pad_round:
  assumes fr: "opt_frame (store t f) opt" and i: "i < length opt" and ty: "opt ! i = 0 \<or> opt ! i = 1"
  shows "parse_options_loop t f opt (of_nat i) = parse_options_loop t f opt (of_nat (Suc i))"
proof -
  have "parse_option t f (opt ! i) 1 opt j = Some (t, j)" for j
    using ty by (auto simp: parse_option_def PICO_TCP_OPTION_NOOP_def PICO_TCP_OPTION_END_def)
  moreover have "\<not> (1 :: u8) < opt ! i" using ty by auto
  ultimately show ?thesis
    using i mem_read_one [OF i] opt_frame_less [OF fr, of i] opt_frame_index [OF fr, of i] opt_frame_index [OF fr, of "Suc i"] fr
    by (subst parse_options_loop.simps) (auto simp: Let_def add.commute opt_frame_def)
qed

lemma parse_opt_round:
  assumes fr: "opt_frame (store t f) opt" and i: "Suc i < length opt" and ty: "1 < opt ! i"
    and p: "parse_option t f (opt ! i) (opt ! Suc i) opt (of_nat (i + 2)) = Some (t', j)"
  shows "parse_options_loop t f opt (of_nat i) = parse_options_loop t' f opt j"
proof -
  have "unat (of_nat i + 2 :: u32) = i + 2" using opt_frame_index [OF fr, of "i + 2"] i by (simp add: add.commute)
  then show ?thesis
    using i ty p mem_read_one [of i opt] mem_read_one [OF i] opt_frame_less [OF fr, of i] opt_frame_less [OF fr, of "Suc i"]
      opt_frame_index [OF fr, of i] opt_frame_index [OF fr, of "Suc i"] fr
    by (subst parse_options_loop.simps) (auto simp: Let_def add.commute opt_frame_def)
qed

lemma parse_end_round:
  assumes fr: "opt_frame (store t f) opt" and i: "i = length opt"
  shows "parse_options_loop t f opt (of_nat i) = Some t"
  using opt_frame_less [OF fr, of i] i by (subst parse_options_loop.simps) (simp add: Let_def)

definition syn_area :: "pico_socket_tcp \<Rightarrow> u8 list" where
  "syn_area s = mss_bytes s @ ws_bytes s @ ts_bytes s @ pad_bytes 5"

lemma syn_area_written:
  assumes "length m = 24" "length (sacks s) \<le> 3"
  shows "tcp_add_options s m PICO_TCP_SYN (tcp_options_size s PICO_TCP_SYN) = Some (s, syn_area s)"
proof -
  have z: "unat (tcp_options_size s PICO_TCP_SYN) = 24"
    by (simp add: tcp_options_size_def round4_def PICO_TCP_SYN_def PICO_TCP_ACK_def PICO_TCPOPTLEN_MSS_def
      PICO_TCP_OPTION_SACK_OK_def PICO_TCPOPTLEN_WS_def PICO_TCPOPTLEN_TIMESTAMP_def Let_def)
  have o: "opts_bytes s PICO_TCP_SYN = mss_bytes s @ ws_bytes s @ ts_bytes s" "\<not> writes_sack s PICO_TCP_SYN"
    by (simp_all add: opts_bytes_def writes_sack_def PICO_TCP_SYN_def PICO_TCP_ACK_def)
  have "length (opts_bytes s PICO_TCP_SYN) = 19"
    by (simp add: o mss_bytes_def ws_bytes_def ts_bytes_def)
  then show ?thesis using tcp_add_options_writes [OF assms(2), of PICO_TCP_SYN m] z o assms(1) by (simp add: syn_area_def)
qed

lemma pad_bytes_5: "pad_bytes 5 = [1, 1, 1, 1, 0]"
  by code_simp

lemma syn_area_list: "syn_area s =
   [2, 4, ucast (drop_bit 8 (mss s) AND 0xFF), ucast (mss s AND 0xFF), 4, 2, 3, 3, ucast (wnd_scale s), 8, 10]
   @ bytes_of_u32 (long_be (ucast (now s))) @ bytes_of_u32 (long_be (ts_nxt s)) @ [1, 1, 1, 1, 0]"
  by (simp add: syn_area_def mss_bytes_def ws_bytes_def ts_bytes_def pad_bytes_5 PICO_TCP_OPTION_MSS_def
    PICO_TCPOPTLEN_MSS_def PICO_TCP_OPTION_SACK_OK_def PICO_TCPOPTLEN_SACK_OK_def PICO_TCP_OPTION_WS_def
    PICO_TCPOPTLEN_WS_def PICO_TCP_OPTION_TIMESTAMP_def PICO_TCPOPTLEN_TIMESTAMP_def)

lemma syn_area_length [simp]: "length (syn_area s) = 24"
  by (simp add: syn_area_list)

lemma syn_area_nth:
  "syn_area s ! 0 = 2" "syn_area s ! Suc 0 = 4" "syn_area s ! 4 = 4" "syn_area s ! 5 = 2" "syn_area s ! 6 = 3" "syn_area s ! 7 = 3"
  "syn_area s ! 8 = ucast (wnd_scale s)" "syn_area s ! 9 = 8" "syn_area s ! 10 = 10"
  "syn_area s ! 19 = 1" "syn_area s ! 20 = 1" "syn_area s ! 21 = 1" "syn_area s ! 22 = 1" "syn_area s ! 23 = 0"
  by (simp_all add: syn_area_list bytes_of_u32_def)

lemma syn_area_read:
  "mem_read (syn_area s) 2 2 = Some [ucast (drop_bit 8 (mss s) AND 0xFF), ucast (mss s AND 0xFF)]"
  "mem_read (syn_area s) 8 (Suc 0) = Some [ucast (wnd_scale s)]"
  "mem_read (syn_area s) 11 4 = Some (bytes_of_u32 (long_be (ucast (now s))))"
  "mem_read (syn_area s) 15 4 = Some (bytes_of_u32 (long_be (ts_nxt s)))"
  by (simp_all add: syn_area_list mem_read_def bytes_of_u32_def)

lemma opt_frame_upd: "opt_frame (store (upd_frame t f g) f) opt = opt_frame (g (store t f)) opt"
  by (simp add: upd_frame_def)

lemma syn_options_parsed:
  assumes fr: "f_body (store r f) = syn_area s" "f_payload (store r f) = 44" "f_transport_len (store r f) = 44"
    and syn: "h_flags (store r f) AND PICO_TCP_SYN \<noteq> 0"
  shows "\<exists>r'. tcp_parse_options r f = Some r' \<and> recv_wnd_scale r' = ucast (ucast (wnd_scale s) :: u8)
     \<and> mss_ok r' = 1 \<and> mss r' = min (mss r) (mss s) \<and> sack_ok r' = 1 \<and> ts_ok r' = 1
     \<and> ts_nxt r' = ucast (now s) \<and> f_timestamp (store r' f) = ucast (ts_nxt s)"
proof -
  let ?a = "syn_area s"
  define r0 where "r0 = upd_frame r f (\<lambda>fr. fr\<lparr>f_timestamp := 0\<rparr>)"
  define r1 where "r1 = (if mss r > mss s then r0\<lparr>mss_ok := 1, mss := mss s\<rparr> else r0\<lparr>mss_ok := 1\<rparr>)"
  define r2 where "r2 = r1\<lparr>sack_ok := 1\<rparr>"
  define r3 where "r3 = r2\<lparr>recv_wnd_scale := ucast (ucast (wnd_scale s) :: u8)\<rparr>"
  define r4 where "r4 = (upd_frame (r3\<lparr>ts_ok := 1\<rparr>) f (\<lambda>fr. fr\<lparr>f_timestamp := ucast (ts_nxt s)\<rparr>))\<lparr>ts_nxt := ucast (now s)\<rparr>"
  have lim: "unat (opt_limit (store r f)) = 24" using fr(3) by (simp add: opt_limit_def PICO_SIZE_TCPHDR_def)
  have f0: "opt_frame (store r0 f) ?a"
    using lim fr by (simp add: r0_def upd_frame_def opt_frame_def opt_limit_def PICO_SIZE_TCPHDR_def)
  have st: "store r1 = store r0" "store r2 = store r0" "store r3 = store r0" by (simp_all add: r1_def r2_def r3_def)
  have f4: "opt_frame (store r4 f) ?a"
    using f0 st by (simp add: r4_def upd_frame_def opt_frame_def opt_limit_def)
  have h: "h_flags (store r1 f) AND PICO_TCP_SYN \<noteq> 0" using syn by (simp add: st r0_def upd_frame_def)
  have m0: "mss (r0\<lparr>mss_ok := 1\<rparr>) = mss r" by (simp add: r0_def upd_frame_def)
  have p1: "parse_option r0 f 2 4 ?a 2 = Some (r1, 4)"
    using short_be_from [of "mss s"] m0
    by (simp add: parse_option_def tcp_parse_option_mss_def tcpopt_len_check_def syn_area_read Let_def r1_def
      PICO_TCP_OPTION_NOOP_def PICO_TCP_OPTION_END_def PICO_TCP_OPTION_WS_def PICO_TCP_OPTION_SACK_OK_def
      PICO_TCP_OPTION_MSS_def PICO_TCPOPTLEN_MSS_def)
  have p2: "parse_option r1 f 4 2 ?a 6 = Some (r2, 6)"
    using h by (simp add: parse_option_def tcp_parse_option_sack_ok_def tcpopt_len_check_def r2_def
      PICO_TCP_OPTION_NOOP_def PICO_TCP_OPTION_END_def PICO_TCP_OPTION_WS_def PICO_TCP_OPTION_SACK_OK_def PICO_TCPOPTLEN_SACK_OK_def)
  have p3: "parse_option r2 f 3 3 ?a 8 = Some (r3, 9)"
    by (simp add: parse_option_def tcp_parse_option_ws_def tcpopt_len_check_def r3_def syn_area_read
      PICO_TCP_OPTION_NOOP_def PICO_TCP_OPTION_END_def PICO_TCP_OPTION_WS_def PICO_TCPOPTLEN_WS_def)
  have p4: "parse_option r3 f 8 10 ?a 11 = Some (r4, 19)"
    by (simp add: parse_option_def tcp_parse_option_timestamp_def tcpopt_len_check_def r4_def syn_area_read long_from_bytes Let_def
      PICO_TCP_OPTION_NOOP_def PICO_TCP_OPTION_END_def PICO_TCP_OPTION_WS_def PICO_TCP_OPTION_SACK_OK_def
      PICO_TCP_OPTION_MSS_def PICO_TCP_OPTION_TIMESTAMP_def PICO_TCPOPTLEN_TIMESTAMP_def)
  note nth = syn_area_nth
  have "parse_options_loop r0 f ?a 0 = parse_options_loop r1 f ?a 4"
    using parse_opt_round [OF f0, of 0 r1 4] p1 nth(1,2) by simp
  also have "\<dots> = parse_options_loop r2 f ?a 6"
    using parse_opt_round [of r1 f ?a 4 r2 6] f0 st p2 nth(3,4) by simp
  also have "\<dots> = parse_options_loop r3 f ?a 9"
    using parse_opt_round [of r2 f ?a 6 r3 9] f0 st p3 nth(5,6) by simp
  also have "\<dots> = parse_options_loop r4 f ?a 19"
    using parse_opt_round [of r3 f ?a 9 r4 19] f0 st p4 nth(8,9) by simp
  also have "\<dots> = parse_options_loop r4 f ?a 20" using parse_pad_round [OF f4, of 19] nth(10) by simp
  also have "\<dots> = parse_options_loop r4 f ?a 21" using parse_pad_round [OF f4, of 20] nth(11) by simp
  also have "\<dots> = parse_options_loop r4 f ?a 22" using parse_pad_round [OF f4, of 21] nth(12) by simp
  also have "\<dots> = parse_options_loop r4 f ?a 23" using parse_pad_round [OF f4, of 22] nth(13) by simp
  also have "\<dots> = parse_options_loop r4 f ?a 24" using parse_pad_round [OF f4, of 23] nth(14) by simp
  also have "\<dots> = Some r4" using parse_end_round [OF f4, of 24] by simp
  finally have "tcp_parse_options r f = Some r4"
    using fr(1) by (simp add: tcp_parse_options_def r0_def [symmetric] Let_def) (simp add: r0_def upd_frame_def)
  then show ?thesis
    by (auto simp: r4_def r3_def r2_def r1_def r0_def upd_frame_def min_def)
qed

section \<open>Properties\<close>

text \<open>C26: reading the options of a segment never ends when it comes, behind any well-formed options, to an
  option whose length byte is zero, or to one at the very end whose length byte is missing.  After
  some rounds the loop is at that option, and one round more reads only bytes of the segment, changes
  nothing and goes back to the option's first byte.\<close>

theorem tcp_parse_options_hangs:
  assumes "f_body (store t f) = area @ ty # rest" "opts_ok area" "1 < ty" "rest = [] \<or> hd rest = 0"
    and "unat (f_transport_len (store t f)) = PICO_SIZE_TCPHDR + length (area @ ty # rest)"
    and "PICO_SIZE_TCPHDR + length area + (if rest = [] then 1 else 2) \<le> f_payload (store t f)"
    and "tree_keys (pool (tcpq_out t)) ks"
  shows "tcp_parse_options t f = None
    \<and> (\<exists>n t'. \<forall>g. (options_round ^^ n) g (upd_frame t f (\<lambda>fr. fr\<lparr>f_timestamp := 0\<rparr>)) f (area @ ty # rest) 0
           = g t' f (area @ ty # rest) (of_nat (length area))
         \<and> options_round g t' f (area @ ty # rest) (of_nat (length area)) = g t' f (area @ ty # rest) (of_nat (length area)))"
proof -
  let ?t = "upd_frame t f (\<lambda>fr. fr\<lparr>f_timestamp := 0\<rparr>)" and ?b = "area @ ty # rest"
  have lb: "length ?b < 65536" using unat_u16_less [of "f_transport_len (store t f)"] assms(5) by simp
  obtain n t' where t': "\<forall>g. (options_round ^^ n) g ?t f ?b 0 = g t' f ?b (of_nat (length area))" "parse_keeps f ?t t'"
    using parse_options_prefix [of 0 area ?b "ty # rest" ?t ks f] assms lb by (auto simp: upd_frame_def split: if_splits)
  have run: "tcp_parse_options t f = parse_options_loop t' f ?b (of_nat (length area))"
    using t'(1) [rule_format, of parse_options_loop] assms(1)
    by (simp add: rounds_loop tcp_parse_options_def Let_def) (simp add: upd_frame_def)
  have fr: "f_payload (store t' f) = f_payload (store t f)" "f_transport_len (store t' f) = f_transport_len (store t f)"
    using t'(2) by (simp_all add: parse_keeps_def upd_frame_def)
  have u: "unat (of_nat k :: u32) = k" if "k \<le> length ?b" for k using that lb by (simp add: unat_of_nat_u32)
  have ut: "unat (ucast (f_transport_len (store t' f)) :: u32) = 20 + length ?b"
    using assms(5) fr by (simp add: unat_ucast_up PICO_SIZE_TCPHDR_def)
  then have "(20 :: u32) \<le> ucast (f_transport_len (store t' f))" by (simp add: word_le_nat_alt)
  then have lim: "unat (opt_limit (store t' f)) = length ?b"
    using ut by (simp add: opt_limit_def unat_sub PICO_SIZE_TCPHDR_def)
  have le: "of_nat k < opt_limit (store t' f) \<longleftrightarrow> k < length ?b" if "k \<le> length ?b" for k
    using lim u [OF that] by (simp only: word_less_nat_alt)
  have e: "endless_option (store t' f) ?b (of_nat (length area))"
    using assms(3,4,6) fr le [of "length area"] le [of "Suc (length area)"] u [of "length area"]
    by (cases rest) (auto simp: endless_option_def nth_append add.commute)
  show ?thesis using run parse_options_loop_hangs [OF e] endless_round [OF e] t'(1) by auto
qed

theorem tcp_parse_options_hangs_witness:
  "tcp_parse_options (zero_socket\<lparr>store := (\<lambda>_. zero_tcp_frame\<lparr>f_body := [1, 2, 4, 5, 180, 8, 0, 0],
     f_transport_len := 28, f_payload := 28\<rparr>)\<rparr>) 1 = None"
proof -
  let ?t = "zero_socket\<lparr>store := (\<lambda>_. zero_tcp_frame\<lparr>f_body := [1, 2, 4, 5, 180, 8, 0, 0], f_transport_len := 28, f_payload := 28\<rparr>)\<rparr>"
  have "opts_ok [1, 2, 4, 5, 180]" by code_simp
  then show ?thesis
    using tcp_parse_options_hangs [of ?t 1 "[1, 2, 4, 5, 180]" 8 "[0, 0]" "[]"]
    by (simp add: PICO_SIZE_TCPHDR_def zero_queue_def zero_socket_def tree_keys_empty)
qed

text \<open>C25: reading the options ends, without leaving the frame, on every segment whose options are
  well formed: padding bytes, and options with a length of at least two that fit.\<close>

theorem tcp_parse_options_returns:
  assumes "f_body (store t f) = area @ data" "opts_ok area" "length (area @ data) < 2 ^ 31"
    and "f_payload (store t f) = PICO_SIZE_TCPHDR + length area"
    and "unat (f_transport_len (store t f)) = PICO_SIZE_TCPHDR + length (area @ data)"
    and "tree_keys (pool (tcpq_out t)) ks"
  shows "\<exists>t'. tcp_parse_options t f = Some t'"
proof -
  let ?t = "upd_frame t f (\<lambda>fr. fr\<lparr>f_timestamp := 0\<rparr>)"
  have "\<exists>t'. parse_options_loop ?t f (area @ data) 0 = Some t'"
    by (rule parse_options_loop_total [where area = area and ks = ks]) (use assms in \<open>simp_all add: upd_frame_def\<close>)
  then show ?thesis using assms(1) by (simp add: tcp_parse_options_def Let_def) (simp add: upd_frame_def)
qed

theorem tcp_parse_options_returns_witness:
  "\<exists>t'. tcp_parse_options (zero_socket\<lparr>store := (\<lambda>_. zero_tcp_frame\<lparr>f_body := [1, 2, 4, 5, 180, 3, 3, 7, 99],
     f_transport_len := 29, f_payload := 28\<rparr>)\<rparr>) 1 = Some t'"
proof -
  have "opts_ok [1, 2, 4, 5, 180, 3, 3, 7]" by code_simp
  then show ?thesis
    by (intro tcp_parse_options_returns [where area = "[1, 2, 4, 5, 180, 3, 3, 7]" and data = "[99]" and ks = "[]"])
      (simp_all add: PICO_SIZE_TCPHDR_def zero_queue_def zero_socket_def tree_keys_empty)
qed

text \<open>\<open>tcp_add_options\<close> stays within the room \<open>tcp_options_size\<close> reserves and leaves behind it
  what was there: the options for the flags, one after the other, then padding up to the next
  multiple of four, closed by an end option.\<close>

theorem tcp_add_options_layout:
  assumes "length (sacks t) \<le> 3" "unat (tcp_options_size t flags) \<le> length m"
  shows "tcp_add_options t m flags (tcp_options_size t flags) =
     Some (if writes_sack t flags then t\<lparr>sacks := []\<rparr> else t,
       opts_bytes t flags @ pad_bytes (unat (tcp_options_size t flags) - length (opts_bytes t flags))
         @ drop (unat (tcp_options_size t flags)) m)"
  by (rule tcp_add_options_writes [OF assms])

theorem tcp_add_options_layout_witness:
  "tcp_add_options zero_socket [9, 9, 9, 9, 9] PICO_TCP_ACK (tcp_options_size zero_socket PICO_TCP_ACK) =
     Some (zero_socket, [3, 3, 0, 0, 9])"
proof -
  have "unat (tcp_options_size zero_socket PICO_TCP_ACK) = 4" "\<not> writes_sack zero_socket PICO_TCP_ACK"
    "opts_bytes zero_socket PICO_TCP_ACK = [3, 3, 0]" "pad_bytes 1 = [0]" "sacks zero_socket = []"
    by code_simp+
  then show ?thesis using tcp_add_options_layout [of zero_socket PICO_TCP_ACK "[9, 9, 9, 9, 9]"] by simp
qed

text \<open>C5: the options of a SYN are read by the other side as they were written: window scale,
  selective acknowledgements allowed, the smaller of the two segment sizes, and the timestamp
  with its echo.\<close>

theorem tcp_syn_options_roundtrip:
  assumes "length m = 24" "length (sacks s) \<le> 3"
    and "tcp_add_options s m PICO_TCP_SYN (tcp_options_size s PICO_TCP_SYN) = Some (s', f_body (store r f))"
    and "f_payload (store r f) = 44" "f_transport_len (store r f) = 44"
    and "h_flags (store r f) AND PICO_TCP_SYN \<noteq> 0"
  shows "\<exists>r'. tcp_parse_options r f = Some r' \<and> recv_wnd_scale r' = ucast (ucast (wnd_scale s) :: u8)
     \<and> mss_ok r' = 1 \<and> mss r' = min (mss r) (mss s) \<and> sack_ok r' = 1 \<and> ts_ok r' = 1
     \<and> ts_nxt r' = ucast (now s) \<and> f_timestamp (store r' f) = ucast (ts_nxt s)"
proof -
  have "f_body (store r f) = syn_area s" using assms(3) unfolding syn_area_written [OF assms(1,2)] by auto
  then show ?thesis by (rule syn_options_parsed [OF _ assms(4-6)])
qed

theorem tcp_syn_options_roundtrip_witness:
  "\<exists>r'. tcp_parse_options (zero_socket\<lparr>mss := 1460, store := (\<lambda>_. zero_tcp_frame\<lparr>f_payload := 44,
        f_transport_len := 44, h_flags := PICO_TCP_SYN, f_body := syn_area (zero_socket\<lparr>mss := 536\<rparr>)\<rparr>)\<rparr>) 1 = Some r'
     \<and> mss r' = 536 \<and> sack_ok r' = 1"
proof -
  let ?s = "zero_socket\<lparr>mss := 536\<rparr>"
  let ?r = "zero_socket\<lparr>mss := 1460, store := (\<lambda>_. zero_tcp_frame\<lparr>f_payload := 44,
        f_transport_len := 44, h_flags := PICO_TCP_SYN, f_body := syn_area ?s\<rparr>)\<rparr>"
  have s: "length (replicate 24 0) = 24" "length (sacks ?s) \<le> 3" by (simp_all add: zero_socket_def)
  have w: "tcp_add_options ?s (replicate 24 0) PICO_TCP_SYN (tcp_options_size ?s PICO_TCP_SYN) = Some (?s, f_body (store ?r 1))"
    using syn_area_written [OF s] by simp
  show ?thesis using tcp_syn_options_roundtrip [OF s w] by (auto simp: PICO_TCP_SYN_def)
qed

end
