(* ===== verification/Tcp_Output.thy ===== *)
theory Tcp_Output
  imports Tcp_Options
begin

text \<open>
  The sending side of \<open>modules/pico_tcp.c\<close>: checksum, windows, the segments TCP makes itself,
  round trip times, retransmission, output of queued data, Nagle's algorithm.  Sums and shifts
  have the widths of the code.  A frame TCP makes and hands on is a value in \<open>effects\<close>; a
  frame of a queue is changed in the store.
\<close>

section \<open>Checksum\<close>

fun addr_bytes :: "pico_address \<Rightarrow> u8 list" where
  "addr_bytes (Ip4 a) = bytes_of_u32 a"
| "addr_bytes (Ip6 bs) = bs"

definition PICO_PROTO_TCP :: u8 where "PICO_PROTO_TCP = 6"

text \<open>With a socket its addresses are used, else those of the packet.\<close>

definition checksum_addrs :: "pico_socket_tcp option \<Rightarrow> tcp_frame \<Rightarrow> pico_address \<times> pico_address" where
  "checksum_addrs s f = (case s of Some t \<Rightarrow> (local_addr t, remote_addr t) | None \<Rightarrow> (f_src f, f_dst f))"

definition pico_tcp_checksum_ipv4 :: "pico_socket_tcp option \<Rightarrow> tcp_frame \<Rightarrow> u16" where
  "pico_tcp_checksum_ipv4 s f =
     (case checksum_addrs s f of (src, dst) \<Rightarrow>
      (let pseudo = addr_bytes src @ addr_bytes dst @ [0, PICO_PROTO_TCP]
             @ bytes_of_u16 (short_be (f_transport_len f))
       in pico_dualbuffer_checksum pseudo 12 (transport_bytes f) (unat (f_transport_len f))))"

definition pico_tcp_checksum_ipv6 :: "pico_socket_tcp option \<Rightarrow> tcp_frame \<Rightarrow> u16" where
  "pico_tcp_checksum_ipv6 s f =
     (case checksum_addrs s f of (src, dst) \<Rightarrow>
      (let pseudo = addr_bytes src @ addr_bytes dst @ bytes_of_u32 (long_be (ucast (f_transport_len f)))
             @ [0, 0, 0, PICO_PROTO_TCP]
       in pico_dualbuffer_checksum pseudo 40 (transport_bytes f) (unat (f_transport_len f))))"

definition pico_tcp_checksum :: "pico_socket_tcp option \<Rightarrow> tcp_frame \<Rightarrow> u16" where
  "pico_tcp_checksum s f =
     (case checksum_addrs s f of
        (Ip4 _, Ip4 _) \<Rightarrow> pico_tcp_checksum_ipv4 s f
      | (Ip6 _, Ip6 _) \<Rightarrow> pico_tcp_checksum_ipv6 s f
      | _ \<Rightarrow> 0xffff)"

text \<open>\<open>hdr->crc = 0; hdr->crc = short_be (pico_tcp_checksum (f))\<close>.\<close>

definition set_crc :: "pico_socket_tcp option \<Rightarrow> tcp_frame \<Rightarrow> tcp_frame" where
  "set_crc s f = f\<lparr>h_crc := short_be (pico_tcp_checksum s (f\<lparr>h_crc := 0\<rparr>))\<rparr>"

section \<open>The receive window\<close>

function shrink_space :: "nat \<Rightarrow> nat \<Rightarrow> nat \<times> nat" where
  "shrink_space space shift =
     (if 0xFFFF < space then shrink_space (space div 2) (Suc shift) else (space, shift))"
  by pat_completeness auto
termination by (relation "measure fst") auto

declare shrink_space.simps [simp del]

text \<open>Whether a window update is to be sent, and the new state.\<close>

definition tcp_set_space_check_winupdate :: "pico_socket_tcp \<Rightarrow> nat \<Rightarrow> nat \<Rightarrow> bool \<times> pico_socket_tcp" where
  "tcp_set_space_check_winupdate t space shift =
     (if space \<noteq> unat (wnd t) \<or> shift \<noteq> unat (wnd_scale t)
         \<or> int space - int (unat (wnd t)) > int (space div 4)
      then (let t = t\<lparr>wnd := of_nat space, wnd_scale := of_nat shift\<rparr> in
            if wnd t = 0 then (False, t\<lparr>localZeroWindow := 1\<rparr>)
            else if localZeroWindow t \<noteq> 0 then (True, t\<lparr>localZeroWindow := 0\<rparr>)
            else (False, t))
      else (False, t))"

definition tcp_space_step :: "pico_socket_tcp \<Rightarrow> bool \<times> pico_socket_tcp" where
  "tcp_space_step t =
     (let space = (if tq_max_size (tcpq_in t) = 0 then sint ONE_GIGABYTE
                   else sint (tq_max_size (tcpq_in t) - tq_size (tcpq_in t)));
          space = (if space < 0 then 0 else space)
      in case shrink_space (nat space) 0 of (space, shift) \<Rightarrow> tcp_set_space_check_winupdate t space shift)"

section \<open>Segments without data\<close>

text \<open>\<open>net->alloc\<close>: a frame with room for \<open>len\<close> bytes of TCP; headers in front of it take
  \<open>link_overhead\<close> bytes of the buffer (14 of Ethernet and 20 of IPv4, or 40 of IPv6).\<close>

definition link_overhead :: "pico_socket_tcp \<Rightarrow> u32" where
  "link_overhead t = (case local_addr t of Ip4 _ \<Rightarrow> 34 | Ip6 _ \<Rightarrow> 54)"

definition new_frame :: "pico_socket_tcp \<Rightarrow> u16 \<Rightarrow> tcp_frame" where
  "new_frame t len = zero_tcp_frame\<lparr>f_body := replicate (unat len - PICO_SIZE_TCPHDR) 0,
     f_transport_len := len, f_buffer_len := ucast len + link_overhead t\<rparr>"

definition hdr_len :: "pico_socket_tcp \<Rightarrow> u16 \<Rightarrow> u8" where
  "hdr_len t opt_len = ucast (push_bit 2 ((of_nat PICO_SIZE_TCPHDR :: u32) + ucast opt_len) OR ucast (jumbo t))"

partial_function (option) tcp_send_empty :: "pico_socket_tcp \<Rightarrow> u8 \<Rightarrow> bool \<Rightarrow> pico_socket_tcp option" where
  "tcp_send_empty t flags is_keepalive =
     (let opt_len = tcp_options_size t flags;
          (m, t) = tcp_alloc t in
      if \<not> m then Some t
      else
        let f = (new_frame t (of_nat PICO_SIZE_TCPHDR + opt_len))\<lparr>h_len := hdr_len t opt_len, h_flags := flags\<rparr>;
            (update, t) = tcp_space_step t
        in do {
          t \<leftarrow> (if update then tcp_send_empty t PICO_TCP_ACK False else Some t);
          (t, body) \<leftarrow> tcp_add_options t (f_body f) flags opt_len;
          let f = f\<lparr>f_body := body, h_sport := local_port t, h_dport := remote_port t,
                    h_seq := (if is_keepalive then long_be (snd_nxt t - 1) else long_be (snd_nxt t)),
                    h_ack := (if flags AND PICO_TCP_ACK \<noteq> 0 then long_be (rcv_nxt t) else h_ack f)\<rparr>;
          let t = t\<lparr>rcv_ackd := rcv_nxt t\<rparr>;
          let f = set_crc (Some t) (f\<lparr>h_rwnd := short_be (wnd t)\<rparr>);
          Some (snd (enqueue_tcp_out t f)) })"

definition tcp_send_ack :: "pico_socket_tcp \<Rightarrow> pico_socket_tcp option" where
  "tcp_send_ack t = tcp_send_empty t PICO_TCP_ACK False"

definition tcp_send_probe :: "pico_socket_tcp \<Rightarrow> pico_socket_tcp option" where
  "tcp_send_probe t = tcp_send_empty t PICO_TCP_PSHACK True"

definition tcp_set_space :: "pico_socket_tcp \<Rightarrow> pico_socket_tcp option" where
  "tcp_set_space t = (case tcp_space_step t of (update, t) \<Rightarrow> if update then tcp_send_ack t else Some t)"

text \<open>What a reset, a reset that refuses a segment and a FIN have in common: the frame from
  \<open>tcp_set_space\<close> on to the checksum.  \<open>None\<close> in the pair: no memory.\<close>

definition make_control ::
    "pico_socket_tcp \<Rightarrow> u8 \<Rightarrow> u8 \<Rightarrow> u32 \<Rightarrow> u32 \<Rightarrow> (tcp_frame option \<times> pico_socket_tcp) option" where
  "make_control t opt_flags_arg hflags sq ack =
     (let opt_len = tcp_options_size t opt_flags_arg;
          (m, t) = tcp_alloc t in
      if \<not> m then Some (None, t)
      else
        let f = (new_frame t (of_nat PICO_SIZE_TCPHDR + opt_len))\<lparr>h_len := hdr_len t opt_len, h_flags := hflags\<rparr>
        in do {
          t \<leftarrow> tcp_set_space t;
          (t, body) \<leftarrow> tcp_add_options t (f_body f) opt_flags_arg opt_len;
          let f = f\<lparr>f_body := body, h_sport := local_port t, h_dport := remote_port t, h_seq := sq, h_ack := ack\<rparr>;
          let t = t\<lparr>rcv_ackd := rcv_nxt t\<rparr>;
          Some (Some (set_crc (Some t) (f\<lparr>h_rwnd := short_be (wnd t)\<rparr>)), t) })"

definition tcp_do_send_rst :: "pico_socket_tcp \<Rightarrow> u32 \<Rightarrow> (int \<times> pico_socket_tcp) option" where
  "tcp_do_send_rst t sq = do {
     (f, t) \<leftarrow> make_control t PICO_TCP_RST PICO_TCP_RST sq (long_be (rcv_nxt t));
     (case f of None \<Rightarrow> Some (-1, t) | Some f \<Rightarrow> Some (0, snd (enqueue_tcp_out t f))) }"

text \<open>\<open>pico_socket_del\<close>: the socket leaves the tables and is freed later; \<open>sockport\<close> is whether
  \<open>pico_get_sockport\<close> finds the table of its port.\<close>

definition pico_socket_del :: "pico_socket_tcp \<Rightarrow> pico_socket_tcp" where
  "pico_socket_del t =
     (if \<not> sockport t then t\<lparr>pico_err := PICO_ERR_ENXIO\<rparr>
      else tcp_effect (t\<lparr>state := PICO_SOCKET_STATE_CLOSED\<rparr>) Socket_del)"

definition set_tcp_state :: "pico_socket_tcp \<Rightarrow> u16 \<Rightarrow> pico_socket_tcp" where
  "set_tcp_state t st = t\<lparr>state := (state t AND 0x00FF) OR st\<rparr>"

definition set_closed :: "pico_socket_tcp \<Rightarrow> pico_socket_tcp" where
  "set_closed t = t\<lparr>state := (((state t AND 0x00FF) OR PICO_SOCKET_STATE_TCP_CLOSED) AND 0xFF00)
     OR PICO_SOCKET_STATE_CLOSED\<rparr>"

abbreviation TCPSTATE :: "pico_socket_tcp \<Rightarrow> u16" where
  "TCPSTATE t \<equiv> state t AND PICO_SOCKET_STATE_TCP"

definition tcp_send_rst :: "pico_socket_tcp \<Rightarrow> int \<Rightarrow> (int \<times> pico_socket_tcp) option" where
  "tcp_send_rst t fr =
     (if TCPSTATE t > PICO_SOCKET_STATE_TCP_SYN_RECV then tcp_do_send_rst t (h_ack (store t fr))
      else do {
        let t = set_tcp_state t PICO_SOCKET_STATE_TCP_CLOSED;
        (r, t) \<leftarrow> tcp_do_send_rst t (long_be (snd_nxt t));
        let t = t\<lparr>state := (state t AND 0xFF00) OR PICO_SOCKET_STATE_CLOSED\<rparr>;
        Some (r, pico_socket_del (sock_wakeup t PICO_SOCK_EV_FIN)) })"

text \<open>The reset that answers a segment no connection wants: addresses and ports swapped.\<close>

definition tcp_fill_rst_payload :: "tcp_frame \<Rightarrow> tcp_frame \<Rightarrow> tcp_frame" where
  "tcp_fill_rst_payload fr f = f\<lparr>f_dst := f_src fr, f_src := f_dst fr, h_dport := h_sport fr, h_sport := h_dport fr\<rparr>"

definition tcp_fill_rst_header :: "tcp_frame \<Rightarrow> tcp_frame \<Rightarrow> tcp_frame" where
  "tcp_fill_rst_header fr f =
     (let noack = (h_flags fr AND PICO_TCP_ACK = 0);
          f = (if noack then f\<lparr>h_flags := h_flags f OR PICO_TCP_ACK\<rparr> else f);
          f = f\<lparr>h_rwnd := 0\<rparr>;
          f = f\<lparr>h_seq := (if \<not> noack then h_ack fr else 0)\<rparr>;
          f = f\<lparr>h_ack := (if noack then long_be (long_be (h_seq fr) + ucast (f_payload_len fr)) else 0)\<rparr>
      in f\<lparr>h_crc := short_be (pico_tcp_checksum None f)\<rparr>)"

definition pico_tcp_reply_rst :: "pico_socket_tcp \<Rightarrow> int \<Rightarrow> int \<times> pico_socket_tcp" where
  "pico_tcp_reply_rst t p =
     (let fr = store t p in
      if h_flags fr AND PICO_TCP_RST \<noteq> 0 then (-1, t)
      else case tcp_alloc t of (m, t) \<Rightarrow>
        if \<not> m then (-1, t\<lparr>pico_err := PICO_ERR_ENOMEM\<rparr>)
        else
          let f = tcp_fill_rst_payload fr (new_frame t (of_nat PICO_SIZE_TCPHDR));
              f = f\<lparr>h_len := of_nat (PICO_SIZE_TCPHDR * 4), h_flags := PICO_TCP_RST\<rparr>;
              f = tcp_fill_rst_header fr f
          in (0, tcp_effect t (Frame_push f)))"

text \<open>In LISTEN the code tests the RST bit in \<open>fr->flags\<close>, the flags of the frame, not of the
  header.\<close>

definition tcp_nosync_rst :: "pico_socket_tcp \<Rightarrow> int \<Rightarrow> (int \<times> pico_socket_tcp) option" where
  "tcp_nosync_rst t p =
     (let fr = store t p in
      if TCPSTATE t = PICO_SOCKET_STATE_TCP_LISTEN
      then (if f_flags fr AND PICO_TCP_RST \<noteq> 0 then Some (0, t) else Some (pico_tcp_reply_rst t p))
      else do {
        (f, t) \<leftarrow> make_control t PICO_TCP_RSTACK PICO_TCP_RSTACK
                   (if h_flags fr AND PICO_TCP_ACK \<noteq> 0 then h_ack fr else 0)
                   (long_be (SEQN fr + ucast (f_payload_len fr)));
        (case f of None \<Rightarrow> Some (-1, t) | Some f \<Rightarrow> Some (0, snd (enqueue_tcp_out t f))) })"

definition tcp_deltcb :: "pico_socket_tcp \<Rightarrow> pico_socket_tcp option" where
  "tcp_deltcb t = do {
     t \<leftarrow> (if TCPSTATE t \<noteq> PICO_SOCKET_STATE_TCP_TIME_WAIT \<and> TCPSTATE t \<noteq> PICO_SOCKET_STATE_TCP_CLOSING
          then map_option snd (tcp_do_send_rst t (long_be (snd_nxt t))) else Some t);
     Some (pico_socket_del (sock_wakeup (set_closed t) PICO_SOCK_EV_FIN)) }"

definition tcp_linger :: "pico_socket_tcp \<Rightarrow> pico_socket_tcp option" where
  "tcp_linger t =
     (let t = tcp_effect t (Timer_cancel (fin_tmr t)) in
      case tcp_timer_add t (ucast (linger_timeout t)) T_linger of (r, t) \<Rightarrow>
        (let t = t\<lparr>fin_tmr := r\<rparr> in if r = 0 then tcp_deltcb t else Some t))"

definition tcp_send_fin :: "pico_socket_tcp \<Rightarrow> pico_socket_tcp option" where
  "tcp_send_fin t = do {
     (f, t) \<leftarrow> make_control t PICO_TCP_FIN PICO_TCP_FINACK (long_be (snd_nxt t)) (long_be (rcv_nxt t));
     (case f of
        None \<Rightarrow> Some t
      | Some f \<Rightarrow>
          (let t = (if linger_timeout t > 0
                    then (let t = snd (enqueue_tcp_out t f) in t\<lparr>snd_nxt := snd_nxt t + 1\<rparr>) else t)
           in tcp_linger t)) }"

declare tcp_send_empty.simps [code]

end
