(* ===== verification/Tcp_Retrans.thy ===== *)
theory Tcp_Retrans
  imports Tcp_Output
begin

text \<open>
  Round trip times, congestion window, retransmission and the output of queued data of
  \<open>modules/pico_tcp.c\<close>, with Nagle's algorithm and the queueing of data to send.
\<close>

section \<open>Round trip times and congestion\<close>

definition rto_set :: "pico_socket_tcp \<Rightarrow> u32 \<Rightarrow> pico_socket_tcp" where
  "rto_set t r =
     (let r = (if r < PICO_TCP_RTO_MIN then PICO_TCP_RTO_MIN else r);
          r = (if r > PICO_TCP_RTO_MAX then PICO_TCP_RTO_MAX else r)
      in t\<lparr>rto := r\<rparr>)"

definition time_diff :: "u64 \<Rightarrow> u64 \<Rightarrow> u16" where
  "time_diff a b = (if b \<le> a then ucast (a - b) else ucast (b - a))"

definition tcp_rtt :: "pico_socket_tcp \<Rightarrow> u32 \<Rightarrow> pico_socket_tcp" where
  "tcp_rtt t rtt =
     (let avg = avg_rtt t; rvar = rttvar t in
      if avg = 0 then
        (let t = t\<lparr>avg_rtt := rtt, rttvar := drop_bit 1 rtt\<rparr> in rto_set t (avg_rtt t + push_bit 2 (rttvar t)))
      else
        (let v = avg_rtt t - rtt;
             v = (if sint v < 0 then 0 - v else v);
             nvar = drop_bit 2 (push_bit 2 (rttvar t) - rvar + v);
             navg = drop_bit 3 (push_bit 3 (avg_rtt t) - avg + rtt);
             t = t\<lparr>rttvar := nvar, avg_rtt := navg\<rparr>
         in rto_set t (avg_rtt t + push_bit 2 (rttvar t))))"

definition tcp_congestion_control :: "pico_socket_tcp \<Rightarrow> pico_socket_tcp" where
  "tcp_congestion_control t =
     (if x_mode t > PICO_TCP_LOOKAHEAD then t
      else if cwnd t < ssthresh t then t\<lparr>cwnd := cwnd t + 1\<rparr>
      else (let t = t\<lparr>cwnd_counter := cwnd_counter t + 1\<rparr> in
            if cwnd_counter t \<ge> cwnd t then t\<lparr>cwnd := cwnd t + 1, cwnd_counter := 0\<rparr> else t))"

definition tcp_first_timeout :: "pico_socket_tcp \<Rightarrow> pico_socket_tcp" where
  "tcp_first_timeout t = t\<lparr>x_mode := PICO_TCP_BLACKOUT, cwnd := PICO_TCP_IW, in_flight := 0\<rparr>"

definition recv_window :: "pico_socket_tcp \<Rightarrow> u32" where
  "recv_window t = push_bit (unat (recv_wnd_scale t)) (ucast (recv_wnd t))"

section \<open>The retransmission timer\<close>

text \<open>\<open>t->rto << n\<close> as a time.\<close>

definition rto_shift :: "pico_socket_tcp \<Rightarrow> u8 \<Rightarrow> u64" where
  "rto_shift t n = ucast (push_bit (unat n) (rto t))"

primrec earliest_timestamp :: "tcp_elem list \<Rightarrow> pico_socket_tcp \<Rightarrow> u64 \<Rightarrow> u64 \<Rightarrow> u64" where
  "earliest_timestamp [] t next_ts val = val"
| "earliest_timestamp (e # es) t next_ts val =
     (let ts = (case e of Frm p \<Rightarrow> f_timestamp (store t p) | Inp _ \<Rightarrow> 0) in
      if next_ts = 0 \<or> (ts < next_ts \<and> ts > 0)
      then earliest_timestamp es t ts (ts + rto_shift t (backoff t))
      else earliest_timestamp es t next_ts val)"

definition add_retransmission_timer :: "pico_socket_tcp \<Rightarrow> u64 \<Rightarrow> pico_socket_tcp option" where
  "add_retransmission_timer t next_ts = do {
     val \<leftarrow> (if next_ts = 0
            then do { fs \<leftarrow> pico_tree_foreach (pool (tcpq_out t)); Some (earliest_timestamp fs t 0 0) }
            else Some next_ts);
     let t = t\<lparr>retrans_tmr_due := (if val > 0 \<or> val > now t then val else now t + 1)\<rparr>;
     Some (if retrans_tmr t = 0
           then (case tcp_timer_add t (retrans_tmr_due t - now t) T_retrans of (r, t) \<Rightarrow> t\<lparr>retrans_tmr := r\<rparr>)
           else t) }"

definition tcp_add_header :: "pico_socket_tcp \<Rightarrow> int \<Rightarrow> pico_socket_tcp option" where
  "tcp_add_header t p = do {
     let t = upd_frame t p (\<lambda>f. f\<lparr>f_timestamp := now t\<rparr>);
     let f = store t p;
     (t, body) \<leftarrow> tcp_add_options t (f_body f) 0 (f_transport_len f - f_payload_len f - of_nat PICO_SIZE_TCPHDR);
     Some (upd_frame t p (\<lambda>f. set_crc (Some t) (f\<lparr>f_body := body, h_rwnd := short_be (wnd t),
        h_flags := h_flags f OR PICO_TCP_PSH OR PICO_TCP_ACK, h_ack := long_be (rcv_nxt t)\<rparr>))) }"

text \<open>\<open>pico_frame_copy\<close> and \<open>pico_enqueue\<close>: 1 sent, 0 no room, -1 no memory.\<close>

definition send_copy :: "pico_socket_tcp \<Rightarrow> int \<Rightarrow> int \<times> pico_socket_tcp" where
  "send_copy t p = (case tcp_alloc t of (m, t) \<Rightarrow>
     if \<not> m then (-1, t)
     else case enqueue_tcp_out t (store t p) of (r, t) \<Rightarrow> (if r then 1 else 0, t))"

definition tcp_rto_xmit :: "pico_socket_tcp \<Rightarrow> int \<Rightarrow> (int \<times> pico_socket_tcp) option" where
  "tcp_rto_xmit t p =
     (case send_copy t p of (r, t) \<Rightarrow>
        if r > 0 then
          (let t = t\<lparr>snd_last_out := SEQN (store t p), backoff := backoff t + 1\<rparr> in do {
             t \<leftarrow> add_retransmission_timer t (rto_shift t (backoff t) + now t);
             Some (1, t) })
        else do { t \<leftarrow> add_retransmission_timer t (rto_shift t (backoff t) + now t); Some (r, t) })"

definition tcp_next_zerowindow_probe :: "pico_socket_tcp \<Rightarrow> pico_socket_tcp option" where
  "tcp_next_zerowindow_probe t = do {
     t \<leftarrow> tcp_send_probe t;
     let t = t\<lparr>backoff := backoff t + 1\<rparr>;
     add_retransmission_timer t (rto_shift t (backoff t) + now t) }"

definition tcp_is_allowed_to_send :: "pico_socket_tcp \<Rightarrow> bool" where
  "tcp_is_allowed_to_send t \<longleftrightarrow> net_set t
     \<and> (state t AND 0xFF00 = PICO_SOCKET_STATE_TCP_ESTABLISHED \<or> state t AND 0xFF00 = PICO_SOCKET_STATE_TCP_CLOSE_WAIT)
     \<and> backoff t < PICO_TCP_MAX_RETRANS"

partial_function (option) retrans_queue_loop ::
    "pico_socket_tcp \<Rightarrow> tcp_elem option \<Rightarrow> (int \<times> pico_socket_tcp) option" where
  "retrans_queue_loop t e =
     (case e of
        Some (Frm p) \<Rightarrow>
          (if x_mode t = PICO_TCP_WINDOW_FULL
           then do { t \<leftarrow> tcp_next_zerowindow_probe t; Some (-1, t) }
           else do {
             let t = (if x_mode t \<noteq> PICO_TCP_BLACKOUT then tcp_first_timeout t else t);
             t \<leftarrow> tcp_add_header t p;
             (r, t) \<leftarrow> tcp_rto_xmit t p;
             (if r > 0 then Some (-1, t)
              else do { nxt \<leftarrow> next_segment t Q_out e; retrans_queue_loop t nxt }) })
      | _ \<Rightarrow> Some (0, if tq_size (tcpq_out t) < tq_max_size (tcpq_out t)
                     then t\<lparr>ev_pending := ev_pending t OR PICO_SOCK_EV_WR\<rparr> else t))"

definition tcp_retrans_timeout_check_queue :: "pico_socket_tcp \<Rightarrow> (int \<times> pico_socket_tcp) option" where
  "tcp_retrans_timeout_check_queue t = do { e \<leftarrow> first_segment t Q_out; retrans_queue_loop t e }"

definition tcp_retrans_timeout :: "pico_socket_tcp \<Rightarrow> u64 \<Rightarrow> pico_socket_tcp option" where
  "tcp_retrans_timeout t val =
     (let t = t\<lparr>retrans_tmr := 0\<rparr> in
      if retrans_tmr_due t = 0 then Some t
      else if retrans_tmr_due t > val then add_retransmission_timer t (retrans_tmr_due t)
      else
        let t = t\<lparr>retrans_tmr_due := 0\<rparr> in
        if tcp_is_allowed_to_send t then map_option snd (tcp_retrans_timeout_check_queue t)
        else if backoff t \<ge> PICO_TCP_MAX_RETRANS \<and> state t AND 0xFF00 = PICO_SOCKET_STATE_TCP_ESTABLISHED
        then do {
          t \<leftarrow> tcp_discard_all_segments t Q_out;
          Some (pico_socket_del (sock_wakeup t PICO_SOCK_EV_FIN)) }
        else Some t)"

definition tcp_retrans :: "pico_socket_tcp \<Rightarrow> tcp_elem option \<Rightarrow> (int \<times> pico_socket_tcp) option" where
  "tcp_retrans t e =
     (case e of
        Some (Frm p) \<Rightarrow> do {
          t \<leftarrow> tcp_add_header t p;
          (case send_copy t p of (r, t) \<Rightarrow>
             if r < 0 then Some (-1, t)
             else
               let t = (if r > 0 then t\<lparr>in_flight := in_flight t + 1, snd_last_out := SEQN (store t p)\<rparr> else t)
               in do {
                 t \<leftarrow> add_retransmission_timer t (now t + ucast (rto t));
                 Some (int (unat (f_payload_len (store t p))), t) }) }
      | _ \<Rightarrow> Some (0, t))"

section \<open>Sending data\<close>

definition tcp_send_add_tcpflags :: "pico_socket_tcp \<Rightarrow> int \<Rightarrow> pico_socket_tcp" where
  "tcp_send_add_tcpflags t p =
     (let t = (if rcv_nxt t \<noteq> 0 \<and> (rcv_ackd t = 0 \<or> pico_seq_compare (rcv_ackd t) (rcv_nxt t) \<noteq> 0
                   \<or> h_flags (store t p) AND PICO_TCP_ACK \<noteq> 0)
               then (upd_frame t p (\<lambda>f. f\<lparr>h_flags := h_flags f OR PICO_TCP_ACK, h_ack := long_be (rcv_nxt t)\<rparr>))
                      \<lparr>rcv_ackd := rcv_nxt t\<rparr>
               else t);
          t = (if h_flags (store t p) AND PICO_TCP_SYN \<noteq> 0 then t\<lparr>snd_nxt := snd_nxt t + 1\<rparr> else t)
      in if f_payload_len (store t p) > 0
         then (upd_frame t p (\<lambda>f. f\<lparr>h_flags := h_flags f OR PICO_TCP_PSH OR PICO_TCP_ACK,
                 h_ack := long_be (rcv_nxt t)\<rparr>))\<lparr>rcv_ackd := rcv_nxt t\<rparr>
         else t)"

definition tcp_send_try_enqueue :: "pico_socket_tcp \<Rightarrow> int \<Rightarrow> int \<times> pico_socket_tcp" where
  "tcp_send_try_enqueue t p =
     (case send_copy t p of (r, t) \<Rightarrow>
        if r < 0 then (-1, t\<lparr>pico_err := PICO_ERR_ENOMEM\<rparr>)
        else (0, if r > 0 \<and> f_payload_len (store t p) > 0
                 then t\<lparr>in_flight := in_flight t + 1, snd_nxt := snd_nxt t + ucast (f_payload_len (store t p))\<rparr>
                 else t))"

definition tcp_send :: "pico_socket_tcp \<Rightarrow> int \<Rightarrow> int \<times> pico_socket_tcp" where
  "tcp_send t p =
     (let t = upd_frame t p (\<lambda>f. f\<lparr>h_sport := local_port t, h_dport := remote_port t,
                 h_seq := (if h_seq f = 0 then long_be (snd_nxt t) else h_seq f)\<rparr>);
          t = tcp_send_add_tcpflags t p;
          t = upd_frame t p (\<lambda>f. set_crc (Some t) (f\<lparr>h_rwnd := short_be (wnd t)\<rparr>))
      in tcp_send_try_enqueue t p)"

definition pico_tcp_process_out :: "pico_socket_tcp \<Rightarrow> tcp_frame \<Rightarrow> pico_socket_tcp" where
  "pico_tcp_process_out t f =
     (let t = t\<lparr>sock_timestamp := now t\<rparr>;
          t = (if f_payload_len f > 0 \<and> pico_seq_compare (SEQN f + ucast (f_payload_len f)) (snd_nxt t) > 0
               then t\<lparr>snd_nxt := SEQN f + ucast (f_payload_len f)\<rparr> else t)
      in tcp_effect t (Frame_push f))"

text \<open>\<open>pico_socket_frame_alloc\<close>: a frame in the store whose payload is the whole transport part;
  address 0 when there is no memory.\<close>

definition pico_socket_frame_alloc :: "pico_socket_tcp \<Rightarrow> u16 \<Rightarrow> int \<times> pico_socket_tcp" where
  "pico_socket_frame_alloc t len =
     (case tcp_alloc t of (m, t) \<Rightarrow>
        if \<not> m then (0, t\<lparr>pico_err := PICO_ERR_ENOMEM\<rparr>)
        else (next_addr t, t\<lparr>next_addr := next_addr t + 1,
                store := (store t)(next_addr t := (new_frame t len)\<lparr>f_payload := 0, f_payload_len := len\<rparr>)\<rparr>))"

definition pico_tcp_flags_update :: "pico_socket_tcp \<Rightarrow> int \<Rightarrow> pico_socket_tcp" where
  "pico_tcp_flags_update t p = upd_frame t p (\<lambda>f. f\<lparr>f_transport_flags_saved := ts_ok t\<rparr>)"

text \<open>\<open>memcpy\<close> to an offset from \<open>transport_hdr\<close> behind the header.\<close>

definition write_payload :: "pico_socket_tcp \<Rightarrow> int \<Rightarrow> nat \<Rightarrow> u8 list \<Rightarrow> pico_socket_tcp option" where
  "write_payload t p off bs =
     (if off < PICO_SIZE_TCPHDR then None
      else case mem_write (f_body (store t p)) (off - PICO_SIZE_TCPHDR) bs of
        None \<Rightarrow> None | Some b \<Rightarrow> Some (upd_frame t p (\<lambda>f. f\<lparr>f_body := b\<rparr>)))"

definition copy_hdr :: "tcp_frame \<Rightarrow> tcp_frame \<Rightarrow> tcp_frame" where
  "copy_hdr h f = f\<lparr>h_sport := h_sport h, h_dport := h_dport h, h_seq := h_seq h, h_ack := h_ack h,
     h_len := h_len h, h_flags := h_flags h, h_rwnd := h_rwnd h, h_crc := h_crc h, h_urgent := h_urgent h\<rparr>"

text \<open>\<open>tcp_split_segment\<close>: the frame to send, 0 without memory.\<close>

definition tcp_split_segment :: "pico_socket_tcp \<Rightarrow> int \<Rightarrow> u16 \<Rightarrow> (int \<times> pico_socket_tcp) option" where
  "tcp_split_segment t p sz =
     (let overhead = pico_tcp_overhead (Some t); size_f = f_payload_len (store t p) in
      if sz \<ge> size_f then Some (p, t)
      else
        let size1 = sz; size2 = size_f - sz;
            (p1, t) = pico_socket_frame_alloc t (size1 + overhead);
            (p2, t) = pico_socket_frame_alloc t (size2 + overhead)
        in if p1 = 0 \<or> p2 = 0 then Some (0, t\<lparr>pico_err := PICO_ERR_ENOMEM\<rparr>)
        else do {
          let t = upd_frame t p1 (\<lambda>f. f\<lparr>f_payload := f_payload f + unat overhead, f_payload_len := f_payload_len f - overhead\<rparr>);
          let t = upd_frame t p2 (\<lambda>f. f\<lparr>f_payload := f_payload f + unat overhead, f_payload_len := f_payload_len f - overhead\<rparr>);
          b1 \<leftarrow> mem_read (transport_bytes (store t p)) (f_payload (store t p)) (unat size1);
          b2 \<leftarrow> mem_read (transport_bytes (store t p)) (f_payload (store t p) + unat size1) (unat size2);
          t \<leftarrow> write_payload t p1 (f_payload (store t p1)) b1;
          t \<leftarrow> write_payload t p2 (f_payload (store t p2)) b2;
          let t = upd_frame t p1 (copy_hdr (store t p));
          let t = upd_frame t p2 (copy_hdr (store t p));
          let t = upd_frame t p2 (\<lambda>f. f\<lparr>h_seq := long_be (SEQN (store t p) + ucast size1)\<rparr>);
          let t = pico_tcp_flags_update (pico_tcp_flags_update t p1) p2;
          t \<leftarrow> tcp_add_options_frame t p1;
          t \<leftarrow> tcp_add_options_frame t p2;
          t \<leftarrow> pico_discard_segment t Q_out (Frm p);
          (r, t) \<leftarrow> pico_enqueue_segment t Q_out (Some (Frm p2));
          Some (p1, if r < 0 then tcp_frame_discard t p2 else t) })"

section \<open>Closing when the queue is empty\<close>

definition checkLocalClosing :: "pico_socket_tcp \<Rightarrow> (bool \<times> pico_socket_tcp) option" where
  "checkLocalClosing t =
     (if TCPSTATE t = PICO_SOCKET_STATE_TCP_ESTABLISHED
      then do { t \<leftarrow> tcp_send_fin t; Some (True, set_tcp_state t PICO_SOCKET_STATE_TCP_FIN_WAIT1) }
      else Some (False, t))"

definition checkRemoteClosing :: "pico_socket_tcp \<Rightarrow> (bool \<times> pico_socket_tcp) option" where
  "checkRemoteClosing t =
     (if TCPSTATE t = PICO_SOCKET_STATE_TCP_CLOSE_WAIT
      then do { t \<leftarrow> tcp_send_fin t; Some (True, set_tcp_state t PICO_SOCKET_STATE_TCP_LAST_ACK) }
      else Some (False, t))"

definition check_closing :: "pico_socket_tcp \<Rightarrow> pico_socket_tcp option" where
  "check_closing t = do {
     (r, t) \<leftarrow> checkLocalClosing t;
     (if r then Some t else map_option snd (checkRemoteClosing t)) }"

definition pico_tcp_notify_closing :: "pico_socket_tcp \<Rightarrow> pico_socket_tcp option" where
  "pico_tcp_notify_closing t = (if tq_frames (tcpq_out t) = 0 then check_closing t else Some t)"

section \<open>Output\<close>

definition elem_seqn :: "pico_socket_tcp \<Rightarrow> tcp_elem option \<Rightarrow> u32" where
  "elem_seqn t e = (case e of None \<Rightarrow> 0 | Some x \<Rightarrow> elem_seq (store t) x)"

text \<open>The loop of \<open>pico_tcp_output\<close>: segments sent, those with data, the score left.\<close>

partial_function (option) output_loop ::
    "pico_socket_tcp \<Rightarrow> tcp_elem option \<Rightarrow> tcp_elem option \<Rightarrow> nat \<Rightarrow> nat \<Rightarrow> int
     \<Rightarrow> (nat \<times> nat \<times> int \<times> pico_socket_tcp) option" where
  "output_loop t e una sent data_sent loop_score =
     (case e of
        Some (Frm p) \<Rightarrow>
          (if \<not> ucast (cwnd t) \<ge> in_flight t then Some (sent, data_sent, loop_score, t)
           else do {
             let t = upd_frame t p (\<lambda>f. f\<lparr>f_timestamp := now t\<rparr>);
             t \<leftarrow> add_retransmission_timer t (ucast (rto t) + now t);
             t \<leftarrow> tcp_add_options_frame t p;
             let seq_diff = pico_seq_compare (SEQN (store t p)) (elem_seqn t una);
             (if seq_diff < 0 then Some (sent, data_sent, loop_score, t)
              else if word_of_int seq_diff \<ge> recv_window t then
                Some (sent, data_sent, loop_score,
                  if x_mode t \<noteq> PICO_TCP_WINDOW_FULL
                  then t\<lparr>snd_nxt := elem_seqn t una, snd_retry := elem_seqn t una, x_mode := PICO_TCP_WINDOW_FULL\<rparr>
                  else t)
              else do {
                (p, t) \<leftarrow> (if word_of_int (seq_diff + int (unat (f_payload_len (store t p)))) > recv_window t
                          then do {
                            (p, t) \<leftarrow> tcp_split_segment t p (ucast (recv_window t));
                            Some (p, if p = 0 then t
                                     else let t = t\<lparr>cwnd := ucast (in_flight t)\<rparr> in
                                       if cwnd t < 1 then t\<lparr>cwnd := 1\<rparr> else t) }
                          else Some (p, t));
                (if p = 0 then Some (sent, data_sent, loop_score, t)
                 else do {
                   let t = snd (tcp_send t p);
                   let t = t\<lparr>snd_last_out := SEQN (store t p)\<rparr>;
                   (if loop_score - 1 < 1 then Some (sent + 1, data_sent, loop_score - 1, t)
                    else if f_payload_len (store t p) > 0 then do {
                      nxt \<leftarrow> next_segment t Q_out (Some (Frm p));
                      output_loop t nxt una (sent + 1) (data_sent + 1) (loop_score - 1) }
                    else Some (sent + 1, data_sent, loop_score - 1, t)) }) }) })
      | _ \<Rightarrow> Some (sent, data_sent, loop_score, t))"

definition pico_tcp_output :: "pico_socket_tcp \<Rightarrow> int \<Rightarrow> (int \<times> pico_socket_tcp) option" where
  "pico_tcp_output t loop_score = do {
     una \<leftarrow> first_segment t Q_out;
     e \<leftarrow> peek_segment t Q_out (snd_nxt t);
     (sent, data_sent, loop_score, t) \<leftarrow> output_loop t e una 0 0 loop_score;
     let t = (if sent > 0 \<and> data_sent > 0 then rto_set t (rto t) else t);
     t \<leftarrow> (if tq_frames (tcpq_out t) = 0 \<and> state t AND PICO_SOCKET_STATE_SHUT_LOCAL \<noteq> 0
          then check_closing t else Some t);
     Some (loop_score, t) }"

declare retrans_queue_loop.simps [code] output_loop.simps [code]

end
