(* ===== verification/Tcp_Input.thy ===== *)
theory Tcp_Input
  imports Tcp_Retrans
begin

text \<open>
  What a connection of \<open>modules/pico_tcp.c\<close> does with data and acknowledgements: received data,
  Nagle's queue of small segments, the push of data by the socket layer and the processing of an
  acknowledgement.  A NULL dereference and a write past the end of a frame are \<open>None\<close>.
\<close>

section \<open>Received data\<close>

definition hdr_bytes :: "u8 \<Rightarrow> nat" where
  "hdr_bytes l = unat (drop_bit 2 ((ucast l :: u32) AND 0xf0))"

definition tcp_data_in_send_ack :: "pico_socket_tcp \<Rightarrow> int \<Rightarrow> pico_socket_tcp option" where
  "tcp_data_in_send_ack t p =
     (if TCPSTATE t \<noteq> PICO_SOCKET_STATE_TCP_CLOSE_WAIT \<and> TCPSTATE t \<noteq> PICO_SOCKET_STATE_TCP_SYN_SENT
         \<and> TCPSTATE t \<noteq> PICO_SOCKET_STATE_TCP_SYN_RECV \<and> h_flags (store t p) AND PICO_TCP_RST = 0
      then tcp_send_ack t else Some t)"

definition tcp_data_in :: "pico_socket_tcp \<Rightarrow> int \<Rightarrow> (int \<times> pico_socket_tcp) option" where
  "tcp_data_in t p =
     (let f = store t p; payload_len = f_transport_len f - of_nat (hdr_bytes (h_len f)) in
      if hdr_bytes (h_len f) \<le> unat (f_transport_len f) then do {
        t \<leftarrow> tcp_parse_options t p;
        let t = upd_frame t p (\<lambda>f. f\<lparr>f_payload := hdr_bytes (h_len f), f_payload_len := payload_len\<rparr>);
        (ret, t) \<leftarrow> (if pico_seq_compare (SEQN (store t p)) (rcv_nxt t) \<le> 0
                     then tcp_data_in_expected t p else tcp_data_in_high_segment t p);
        t \<leftarrow> tcp_data_in_send_ack t p;
        Some (ret, t) }
      else Some (-1, t))"

section \<open>Nagle's algorithm\<close>

definition IS_NAGLE_ENABLED :: "pico_socket_tcp \<Rightarrow> bool" where
  "IS_NAGLE_ENABLED t \<longleftrightarrow> opt_flags t AND 1 = 0"

definition IS_TCP_IDLE :: "pico_socket_tcp \<Rightarrow> bool" where
  "IS_TCP_IDLE t \<longleftrightarrow> in_flight t = 0 \<and> tq_size (tcpq_out t) = 0"

definition IS_TCP_HOLDQ_EMPTY :: "pico_socket_tcp \<Rightarrow> bool" where
  "IS_TCP_HOLDQ_EMPTY t \<longleftrightarrow> tq_size (tcpq_hold t) = 0"

text \<open>How many bytes of the hold queue fit in one segment.\<close>

partial_function (option) hold_total_loop :: "pico_socket_tcp \<Rightarrow> tcp_elem option \<Rightarrow> u16 \<Rightarrow> u16 option" where
  "hold_total_loop t e tot =
     (case e of
        Some (Frm p) \<Rightarrow>
          (if unat tot + unat (f_payload_len (store t p)) \<le> unat (mss t)
           then do { nxt \<leftarrow> next_segment t Q_hold e; hold_total_loop t nxt (tot + f_payload_len (store t p)) }
           else Some tot)
      | _ \<Rightarrow> Some tot)"

partial_function (option) hold_copy_loop ::
    "pico_socket_tcp \<Rightarrow> int \<Rightarrow> tcp_elem option \<Rightarrow> u16 \<Rightarrow> pico_socket_tcp option" where
  "hold_copy_loop t new e tot =
     (case e of
        Some (Frm p) \<Rightarrow>
          (if unat tot + unat (f_payload_len (store t p)) \<le> unat (mss t)
           then do {
             let plen = f_payload_len (store t p);
             bs \<leftarrow> frame_payload (store t p);
             t \<leftarrow> write_payload t new (f_payload (store t new) + unat tot) bs;
             t \<leftarrow> pico_discard_segment t Q_hold (Frm p);
             nxt \<leftarrow> first_segment t Q_hold;
             hold_copy_loop t new nxt (tot + plen) }
           else Some t)
      | _ \<Rightarrow> Some t)"

text \<open>One segment made of the first ones of the hold queue; address 0 without memory.\<close>

definition pico_hold_segment_make :: "pico_socket_tcp \<Rightarrow> (int \<times> pico_socket_tcp) option" where
  "pico_hold_segment_make t = do {
     let off = pico_tcp_overhead (Some t);
     e \<leftarrow> first_segment t Q_hold;
     (case e of
        Some (Frm p) \<Rightarrow> do {
          nxt \<leftarrow> next_segment t Q_hold e;
          total_len \<leftarrow> hold_total_loop t nxt (f_payload_len (store t p));
          (case pico_socket_frame_alloc t (off + total_len) of (new, t) \<Rightarrow>
             if new = 0 then Some (0, t\<lparr>pico_err := PICO_ERR_ENOMEM\<rparr>)
             else do {
               let t = pico_tcp_flags_update t new;
               let t = upd_frame t new (\<lambda>f. f\<lparr>f_payload := f_payload f + unat off,
                         f_payload_len := f_payload_len f - off, h_seq := h_seq (store t p),
                         h_sport := local_port t, h_dport := remote_port t\<rparr>);
               t \<leftarrow> hold_copy_loop t new e 0;
               let t = upd_frame t new (\<lambda>f. f\<lparr>h_len := ucast (push_bit 2 (of_nat (f_payload f) :: u32) OR scast (jumbo t))\<rparr>);
               t \<leftarrow> tcp_add_options_frame t new;
               Some (new, t) }) }
      | _ \<Rightarrow> None) }"

section \<open>Data from the socket layer\<close>

text \<open>The three ways to queue a segment; the number of bytes taken.\<close>

definition push_enqueue :: "pico_socket_tcp \<Rightarrow> int \<Rightarrow> (int \<times> pico_socket_tcp) option" where
  "push_enqueue t p = do {
     (r, t) \<leftarrow> pico_enqueue_segment t Q_out (Some (Frm p));
     (if r > 0 then Some (int (unat (f_payload_len (store t p))),
                          t\<lparr>snd_last := snd_last t + ucast (f_payload_len (store t p))\<rparr>)
      else Some (0, t)) }"

definition pico_tcp_push_nagle_enqueue :: "pico_socket_tcp \<Rightarrow> int \<Rightarrow> (int \<times> pico_socket_tcp) option" where
  "pico_tcp_push_nagle_enqueue t p = push_enqueue t p"

definition pico_tcp_push_nagle_hold :: "pico_socket_tcp \<Rightarrow> int \<Rightarrow> (int \<times> pico_socket_tcp) option" where
  "pico_tcp_push_nagle_hold t p =
     (let plen = f_payload_len (store t p); total_len = ucast plen + tq_size (tcpq_hold t) in
      if total_len \<ge> ucast (mss t) \<and> tq_max_size (tcpq_out t) - tq_size (tcpq_out t) \<ge> ucast (mss t) then do {
        (r, t) \<leftarrow> pico_enqueue_segment t Q_hold (Some (Frm p));
        (if r > 0 then do {
           let t = t\<lparr>snd_last := snd_last t + ucast plen\<rparr>;
           (new, t) \<leftarrow> pico_hold_segment_make t;
           (if new = 0 then Some (-1, t)
            else do {
              (r, t) \<leftarrow> pico_enqueue_segment t Q_out (Some (Frm new));
              Some (if r > 0 then int (unat (f_payload_len (store t new))) else -1, t) }) }
         else Some (0, t)) }
      else do {
        (r, t) \<leftarrow> pico_enqueue_segment t Q_hold (Some (Frm p));
        (if r > 0 then Some (int (unat plen), t\<lparr>snd_last := snd_last t + ucast plen\<rparr>)
         else Some (0, t\<lparr>pico_err := PICO_ERR_EAGAIN\<rparr>)) })"

definition pico_tcp_push_nagle_on :: "pico_socket_tcp \<Rightarrow> int \<Rightarrow> (int \<times> pico_socket_tcp) option" where
  "pico_tcp_push_nagle_on t p =
     (if IS_TCP_IDLE t \<and> IS_TCP_HOLDQ_EMPTY t then pico_tcp_push_nagle_enqueue t p
      else pico_tcp_push_nagle_hold t p)"

definition pico_tcp_push :: "pico_socket_tcp \<Rightarrow> int \<Rightarrow> (int \<times> pico_socket_tcp) option" where
  "pico_tcp_push t p =
     (let t = t\<lparr>pico_err := PICO_ERR_NOERR\<rparr>;
          t = upd_frame t p (\<lambda>f. f\<lparr>h_sport := local_port t, h_dport := remote_port t,
                h_seq := long_be (snd_last t + 1),
                h_len := ucast (push_bit 2 (of_nat (f_payload f) :: u32) OR scast (jumbo t))\<rparr>);
          t = (if ucast (f_payload_len (store t p)) > tq_max_size (tcpq_out t) - tq_size (tcpq_out t)
               then t\<lparr>ev_pending := ev_pending t AND NOT PICO_SOCK_EV_WR\<rparr> else t)
      in if \<not> IS_NAGLE_ENABLED t then push_enqueue t p else pico_tcp_push_nagle_on t p)"

section \<open>Acknowledgements\<close>

definition tcp_ack_advance_una :: "pico_socket_tcp \<Rightarrow> int \<Rightarrow> (nat \<times> u64 \<times> pico_socket_tcp) option" where
  "tcp_ack_advance_una t p = do {
     (ret, ts, t) \<leftarrow> release_all_until t Q_out (ACKN (store t p));
     Some (ret, ts, if ret > 0 then t\<lparr>ev_pending := ev_pending t OR PICO_SOCK_EV_WR\<rparr> else t) }"

text \<open>Leaving a mode in which nothing is sent.\<close>

definition ack_leave_blackout :: "pico_socket_tcp \<Rightarrow> u16 \<Rightarrow> tcp_elem option \<Rightarrow> pico_socket_tcp" where
  "ack_leave_blackout t acked una =
     (if x_mode t = PICO_TCP_BLACKOUT
         \<or> (x_mode t = PICO_TCP_WINDOW_FULL \<and> sint (recv_window t) > int (unat (mss t)))
      then (let prev_mode = x_mode t; t = t\<lparr>x_mode := PICO_TCP_LOOKAHEAD, backoff := 0\<rparr> in
            if prev_mode = PICO_TCP_BLACKOUT \<and> acked > 0 \<and> una \<noteq> None
            then (let t = t\<lparr>snd_nxt := elem_seqn t una\<rparr> in
                  if retrans_tmr t \<noteq> 0 then t\<lparr>retrans_tmr_due := 0\<rparr> else t)
            else t)
      else t)"

definition ack_fresh :: "pico_socket_tcp \<Rightarrow> int \<Rightarrow> u16 \<Rightarrow> u64 \<Rightarrow> pico_socket_tcp" where
  "ack_fresh t p acked acked_timestamp =
     (let t = t\<lparr>x_mode := PICO_TCP_LOOKAHEAD, backoff := 0\<rparr>;
          rtt = (if f_timestamp (store t p) \<noteq> 0 then ucast (time_diff (now t) (f_timestamp (store t p)))
                 else if acked_timestamp \<noteq> 0 then ucast (time_diff (now t) acked_timestamp) else 0);
          t = (if rtt \<noteq> 0 then tcp_rtt t rtt else t)
      in if ucast acked > in_flight t then t\<lparr>in_flight := 0\<rparr>
         else t\<lparr>in_flight := in_flight t - ucast acked\<rparr>)"

partial_function (option) skip_sacked :: "pico_socket_tcp \<Rightarrow> tcp_elem option \<Rightarrow> tcp_elem option option" where
  "skip_sacked t e = do {
     first \<leftarrow> first_segment t Q_out;
     (case e of
        Some (Frm p) \<Rightarrow>
          (if f_flags (store t p) AND PICO_FRAME_FLAG_SACKED \<noteq> 0 \<and> e \<noteq> first
           then do { nxt \<leftarrow> next_segment t Q_out e; skip_sacked t nxt }
           else Some e)
      | _ \<Rightarrow> Some e) }"

text \<open>The first duplicate acknowledgements count up the mode to RECOVER, where the congestion
  window is set.\<close>

definition dupack_count :: "pico_socket_tcp \<Rightarrow> pico_socket_tcp option" where
  "dupack_count t =
     (let t = t\<lparr>x_mode := x_mode t + 1\<rparr> in
      if x_mode t = PICO_TCP_RECOVER then do {
        let t = t\<lparr>cwnd := (if in_flight t > ucast PICO_TCP_IW then ucast (in_flight t) else PICO_TCP_IW)\<rparr>;
        first \<leftarrow> first_segment t Q_out;
        let t = t\<lparr>snd_retry := elem_seqn t first\<rparr>;
        let t = t\<lparr>ssthresh := (if ssthresh t > cwnd t then drop_bit 2 (ssthresh t) else drop_bit 1 (cwnd t))\<rparr>;
        Some (if ssthresh t < 2 then t\<lparr>ssthresh := 2\<rparr> else t) }
      else Some t)"

definition dupack_recover :: "pico_socket_tcp \<Rightarrow> pico_socket_tcp option" where
  "dupack_recover t = do {
     t \<leftarrow> (if in_flight t \<le> ucast (cwnd t) then do {
            first \<leftarrow> first_segment t Q_out;
            nxt \<leftarrow> peek_segment t Q_out (snd_retry t);
            nxt \<leftarrow> skip_sacked t (if nxt = None then first else nxt);
            let nxt = (if nxt \<noteq> None \<and> pico_seq_compare (elem_seqn t nxt) (snd_nxt t) > 0 then None else nxt);
            let nxt = (if nxt \<noteq> None \<and> pico_seq_compare (elem_seqn t nxt) (elem_seqn t first) > sint (recv_window t)
                       then None else nxt);
            let nxt = (if nxt = None then first else nxt);
            (if nxt \<noteq> None then do {
               e \<leftarrow> peek_segment t Q_out (snd_retry t);
               (_, t) \<leftarrow> tcp_retrans t e;
               Some (t\<lparr>snd_retry := elem_seqn t nxt\<rparr>) }
             else Some t) }
          else Some t);
     let t = t\<lparr>cwnd_counter := cwnd_counter t + 1\<rparr>;
     Some (if cwnd_counter t > 1
           then (let t = t\<lparr>cwnd := cwnd t - 1\<rparr>;
                     t = (if cwnd t < 2 then t\<lparr>cwnd := 2\<rparr> else t)
                 in t\<lparr>cwnd_counter := 0\<rparr>)
           else t) }"

definition is_dupack :: "pico_socket_tcp \<Rightarrow> int \<Rightarrow> bool" where
  "is_dupack t p \<longleftrightarrow> snd_old_ack t = ACKN (store t p)
     \<and> h_flags (store t p) AND (PICO_TCP_PSH OR PICO_TCP_SYN) = 0
     \<and> f_payload_len (store t p) = 0 \<and> ACKN (store t p) \<noteq> snd_nxt t"

partial_function (option) ack_nagle_loop :: "pico_socket_tcp \<Rightarrow> pico_socket_tcp option" where
  "ack_nagle_loop t =
     (if \<not> IS_TCP_HOLDQ_EMPTY t \<and> tq_max_size (tcpq_out t) - tq_size (tcpq_out t) \<ge> ucast (mss t) then do {
        (new, t) \<leftarrow> pico_hold_segment_make t;
        (if new = 0 then Some t
         else do { (_, t) \<leftarrow> pico_enqueue_segment t Q_out (Some (Frm new)); ack_nagle_loop t }) }
      else Some t)"

text \<open>\<open>tcp_ack\<close> up to the end of the detection of duplicates, with the number of segments acked;
  then from the answer to a zero window probe to the output of what was made room for.\<close>

definition ack_receive :: "pico_socket_tcp \<Rightarrow> int \<Rightarrow> (u16 \<times> pico_socket_tcp) option" where
  "ack_receive t p = do {
     t \<leftarrow> tcp_parse_options t p;
     let t = t\<lparr>recv_wnd := short_be (h_rwnd (store t p))\<rparr>;
     (n, acked_timestamp, t) \<leftarrow> tcp_ack_advance_una t p;
     let acked = (of_nat n :: u16);
     una \<leftarrow> first_segment t Q_out;
     let t = ack_leave_blackout (t\<lparr>ack_timestamp := now t\<rparr>) acked una;
     let t = (if acked = 0 \<and> f_payload_len (store t p) = 0 \<and> in_flight t > 0
              then t\<lparr>in_flight := in_flight t - 1\<rparr> else t);
     t \<leftarrow> (if una = None \<or> acked > 0 then Some (ack_fresh t p acked acked_timestamp)
          else if is_dupack t p then
            (if x_mode t < PICO_TCP_RECOVER then dupack_count t
             else if x_mode t = PICO_TCP_RECOVER then dupack_recover t else Some t)
          else Some t);
     Some (acked, t) }"

definition ack_respond :: "pico_socket_tcp \<Rightarrow> int \<Rightarrow> u16 \<Rightarrow> pico_socket_tcp option" where
  "ack_respond t p acked = do {
     t \<leftarrow> (if h_flags (store t p) AND (PICO_TCP_PSH OR PICO_TCP_SYN) = 0 \<and> ACKN (store t p) = snd_nxt t
              \<and> pico_seq_compare (SEQN (store t p)) (rcv_nxt t) < 0
          then tcp_send_ack t else Some t);
     let t = tcp_congestion_control t;
     let t = (if acked > 0 \<and> tq_size (tcpq_out t) < tq_max_size (tcpq_out t)
              then sock_wakeup t PICO_SOCK_EV_WR else t);
     t \<leftarrow> (if IS_NAGLE_ENABLED t then ack_nagle_loop t else Some t);
     (if x_mode t = PICO_TCP_LOOKAHEAD \<and> ucast (cwnd t) \<ge> in_flight t \<and> snd_nxt t > snd_last_out t
      then map_option snd (pico_tcp_output t (int (unat (cwnd t)) - sint (in_flight t))) else Some t) }"

definition tcp_ack :: "pico_socket_tcp \<Rightarrow> int \<Rightarrow> (int \<times> pico_socket_tcp) option" where
  "tcp_ack t p =
     (if p = 0 then Some (-1, t\<lparr>pico_err := PICO_ERR_EINVAL\<rparr>)
      else if h_flags (store t p) AND PICO_TCP_ACK = 0 then Some (-1, t)
      else do {
        (acked, t) \<leftarrow> ack_receive t p;
        t \<leftarrow> ack_respond t p acked;
        t \<leftarrow> add_retransmission_timer t 0;
        Some (0, t\<lparr>snd_old_ack := ACKN (store t p)\<rparr>) })"

declare hold_total_loop.simps [code] hold_copy_loop.simps [code] skip_sacked.simps [code] ack_nagle_loop.simps [code]

end
