(* ===== verification/Tcp_Conn.thy ===== *)
theory Tcp_Conn
  imports Tcp_Input
begin

text \<open>
  Opening, reading, connecting and keeping alive a TCP socket, and the TCP part of the socket layer:
  \<open>modules/pico_tcp.c\<close>, \<open>modules/pico_socket_tcp.c\<close> and the functions of \<open>stack/pico_socket.c\<close> that
  they use.  The device that leads to an address, \<open>pico_ipv4_source_dev_find\<close> and
  \<open>pico_ipv6_source_dev_find\<close>, is the field \<open>dev_find\<close> with the MTU of the device.
\<close>

section \<open>Devices and segment sizes\<close>

definition PICO_MIN_MSS :: u32 where "PICO_MIN_MSS = 1280"

definition get_sock_dev :: "pico_socket_tcp \<Rightarrow> pico_socket_tcp" where
  "get_sock_dev t = t\<lparr>dev_mtu := dev_find t (remote_addr t)\<rparr>"

definition pico_socket_adapt_mss_to_proto :: "pico_socket_tcp \<Rightarrow> u32 \<Rightarrow> u32" where
  "pico_socket_adapt_mss_to_proto t m = (case local_addr t of Ip6 _ \<Rightarrow> m - 40 | Ip4 _ \<Rightarrow> m - 20)"

definition pico_socket_get_mss :: "pico_socket_tcp \<Rightarrow> u32 \<times> pico_socket_tcp" where
  "pico_socket_get_mss t =
     (let t = (if dev_mtu t = None then get_sock_dev t else t);
          m = (case dev_mtu t of None \<Rightarrow> PICO_MIN_MSS | Some mtu \<Rightarrow> mtu)
      in (pico_socket_adapt_mss_to_proto t m, t))"

definition pico_tcp_get_socket_mss :: "pico_socket_tcp \<Rightarrow> u16 \<times> pico_socket_tcp" where
  "pico_tcp_get_socket_mss t =
     (if mss t > 0 then (mss t + of_nat PICO_SIZE_TCPHDR, t)
      else case pico_socket_get_mss t of (m, t) \<Rightarrow> (ucast m, t))"

section \<open>Keepalive\<close>

definition pico_tcp_keepalive :: "pico_socket_tcp \<Rightarrow> u64 \<Rightarrow> pico_socket_tcp option" where
  "pico_tcp_keepalive t tnow = do {
     t \<leftarrow> (if TCPSTATE t = PICO_SOCKET_STATE_TCP_ESTABLISHED \<and> ka_time t > 0 then
            (if ucast (ka_time t) < tnow - ack_timestamp t then do {
               t \<leftarrow> (if ka_retries_count t = 0
                    then do { t \<leftarrow> tcp_send_probe t; Some (t\<lparr>ka_retries_count := ka_retries_count t + 1\<rparr>) }
                    else Some t);
               let t = (if ka_retries_count t > ka_probes t \<and> has_wakeup t
                        then sock_wakeup (t\<lparr>pico_err := PICO_ERR_ECONNRESET\<rparr>) PICO_SOCK_EV_ERR else t);
               (if ucast (ka_retries_count t) * ucast (ka_intvl t) + ucast (ka_time t) < tnow - ack_timestamp t
                then do { t \<leftarrow> tcp_send_probe t; Some (t\<lparr>ka_retries_count := ka_retries_count t + 1\<rparr>) }
                else Some t) }
             else Some (t\<lparr>ka_retries_count := 0\<rparr>))
          else Some t);
     (case tcp_timer_add t 1000 T_keepalive of (r, t) \<Rightarrow>
        (let t = t\<lparr>keepalive_tmr := r\<rparr> in Some (if r = 0 then sock_wakeup t PICO_SOCK_EV_ERR else t))) }"

section \<open>Opening and reading\<close>

definition PICO_PROTO_IPV4 :: u16 where "PICO_PROTO_IPV4 = 0"
definition PICO_PROTO_IPV6 :: u16 where "PICO_PROTO_IPV6 = 41"

text \<open>\<open>s->net\<close> is whether there is one, and the kind of address the socket has.\<close>

definition pico_socket_set_family :: "pico_socket_tcp \<Rightarrow> u16 \<Rightarrow> int \<times> pico_socket_tcp" where
  "pico_socket_set_family t family =
     (let t = (if family = PICO_PROTO_IPV4 then t\<lparr>net_set := True, local_addr := Ip4 0, remote_addr := Ip4 0\<rparr>
               else if family = PICO_PROTO_IPV6
               then t\<lparr>net_set := True, local_addr := Ip6 (replicate 16 0), remote_addr := Ip6 (replicate 16 0)\<rparr>
               else t)
      in (if net_set t then 0 else -1, t))"

text \<open>The argument is the zeroed memory of the new socket with the state of the rest of the
  stack; the result has no socket when memory or timers are used up.\<close>

definition pico_tcp_open :: "pico_socket_tcp \<Rightarrow> u16 \<Rightarrow> (bool \<times> pico_socket_tcp) option" where
  "pico_tcp_open t family =
     (case tcp_alloc t of (m, t) \<Rightarrow>
        if \<not> m then Some (False, t)
        else
          let t = t\<lparr>net_set := False, sock_timestamp := now t\<rparr>;
              t = snd (pico_socket_set_family t family);
              (ms, t) = pico_socket_get_mss t;
              t = t\<lparr>mss := ucast (ms - of_nat PICO_SIZE_TCPHDR)\<rparr>;
              t = t\<lparr>tcpq_in := (zero_queue True)\<lparr>tq_max_size := PICO_DEFAULT_SOCKETQ\<rparr>,
                    tcpq_out := (zero_queue False)\<lparr>tq_max_size := PICO_DEFAULT_SOCKETQ\<rparr>,
                    tcpq_hold := (zero_queue False)\<lparr>tq_max_size := 2 * ucast (mss t)\<rparr>\<rparr>;
              t = rto_set t PICO_TCP_RTO_MIN;
              t = t\<lparr>opt_flags := opt_flags t OR 1, linger_timeout := PICO_SOCKET_LINGER_TIMEOUT\<rparr>;
              (r, t) = tcp_timer_add t 1000 T_keepalive;
              t = t\<lparr>keepalive_tmr := r\<rparr>
          in if r = 0 then Some (False, t)
             else do { t \<leftarrow> tcp_set_space t; Some (True, t) })"

definition pico_socket_tcp_open :: "pico_socket_tcp \<Rightarrow> u16 \<Rightarrow> (bool \<times> pico_socket_tcp) option" where
  "pico_socket_tcp_open t family = do {
     (ok, t) \<leftarrow> pico_tcp_open t family;
     Some (ok, if ok then t else t\<lparr>pico_err := PICO_ERR_ENOMEM\<rparr>) }"

definition tcp_read_finish :: "pico_socket_tcp \<Rightarrow> u32 \<Rightarrow> (u32 \<times> pico_socket_tcp) option" where
  "tcp_read_finish t tot_rd_len = do {
     t \<leftarrow> tcp_set_space t;
     let t = (if tq_size (tcpq_in t) = 0 then t\<lparr>ev_pending := ev_pending t AND NOT PICO_SOCK_EV_RD\<rparr> else t);
     Some (tot_rd_len,
       if remote_closed t \<noteq> 0
       then sock_wakeup (t\<lparr>ev_pending := ev_pending t OR PICO_SOCK_EV_CLOSE,
              state := ((state t AND 0x00FF) OR PICO_SOCKET_STATE_TCP_CLOSE_WAIT) OR PICO_SOCKET_STATE_SHUT_REMOTE\<rparr>)
              PICO_SOCK_EV_CLOSE
       else t) }"

text \<open>The bytes written to the caller's buffer, their number and the socket.\<close>

definition pico_tcp_read :: "pico_socket_tcp \<Rightarrow> u32 \<Rightarrow> (u8 list \<times> u32 \<times> pico_socket_tcp) option" where
  "pico_tcp_read t len = do {
     (buf, tot, t) \<leftarrow> read_loop t len 0 [];
     (n, t) \<leftarrow> tcp_read_finish t tot;
     Some (buf, n, t) }"

definition pico_socket_tcp_read :: "pico_socket_tcp \<Rightarrow> u32 \<Rightarrow> (u8 list \<times> int \<times> pico_socket_tcp) option" where
  "pico_socket_tcp_read t len =
     (if state t AND PICO_SOCKET_STATE_SHUT_REMOTE \<noteq> 0 \<and> pico_tcp_queue_in_is_empty t
      then Some ([], -1, t\<lparr>pico_err := PICO_ERR_ESHUTDOWN\<rparr>)
      else do { (buf, n, t) \<leftarrow> pico_tcp_read t len; Some (buf, sint n, t) })"

section \<open>Connecting\<close>

definition pico_paws :: "pico_socket_tcp \<Rightarrow> u32 \<times> pico_socket_tcp" where
  "pico_paws t = (case pico_rand_next t of (r, t) \<Rightarrow> (long_be r, t))"

text \<open>Seven eighths of the number of segments in a buffer; dividing by 0 is \<open>None\<close>.\<close>

definition init_ssthresh :: "u16 \<Rightarrow> u16 option" where
  "init_ssthresh ms =
     (if ms = 0 then None
      else let n = (ucast (PICO_DEFAULT_SOCKETQ div ucast ms) :: u16) in Some (n - drop_bit 3 n))"

definition initconn_seq :: "pico_socket_tcp \<Rightarrow> pico_socket_tcp" where
  "initconn_seq t =
     (let t = (if snd_nxt t = 0 then (case pico_paws t of (r, t) \<Rightarrow> t\<lparr>snd_nxt := long_be r\<rparr>) else t)
      in t\<lparr>snd_last := snd_nxt t, cwnd := PICO_TCP_IW\<rparr>)"

definition pico_tcp_initconn :: "pico_socket_tcp \<Rightarrow> (int \<times> pico_socket_tcp) option" where
  "pico_tcp_initconn t =
     (let opt_len = tcp_options_size t PICO_TCP_SYN;
          (m, t) = tcp_alloc t in
      if \<not> m then Some (-1, t)
      else
        let (ms, t) = pico_socket_get_mss (initconn_seq t);
            t = t\<lparr>mss := ucast ms - of_nat PICO_SIZE_TCPHDR\<rparr>
        in do {
          th \<leftarrow> init_ssthresh (mss t);
          let t = t\<lparr>ssthresh := th\<rparr>;
          let f = (new_frame t (of_nat PICO_SIZE_TCPHDR + opt_len))
                    \<lparr>h_seq := long_be (snd_nxt t), h_len := hdr_len t opt_len, h_flags := PICO_TCP_SYN\<rparr>;
          t \<leftarrow> tcp_set_space t;
          let f = f\<lparr>h_rwnd := short_be (wnd t)\<rparr>;
          (t, body) \<leftarrow> tcp_add_options t (f_body f) PICO_TCP_SYN opt_len;
          let f = set_crc (Some t) (f\<lparr>f_body := body, h_sport := local_port t, h_dport := remote_port t\<rparr>);
          (case tcp_timer_add t (ucast (push_bit (unat (backoff t)) PICO_TCP_SYN_TO)) T_initconn of (r, t) \<Rightarrow>
             (let t = t\<lparr>retrans_tmr := r\<rparr> in
              if r = 0 then Some (-1, t) else Some (0, snd (enqueue_tcp_out t f)))) })"

definition initconn_retry :: "pico_socket_tcp \<Rightarrow> pico_socket_tcp option" where
  "initconn_retry t =
     (if TCPSTATE t \<noteq> PICO_SOCKET_STATE_TCP_ESTABLISHED then
        (if backoff t > PICO_TCP_MAX_CONNECT_RETRIES
         then Some (pico_socket_del
                (if has_wakeup t then sock_wakeup (t\<lparr>pico_err := PICO_ERR_ECONNREFUSED\<rparr>) PICO_SOCK_EV_ERR else t))
         else map_option snd (pico_tcp_initconn (t\<lparr>backoff := backoff t + 1\<rparr>)))
      else Some t)"

definition tcp_send_synack :: "pico_socket_tcp \<Rightarrow> (int \<times> pico_socket_tcp) option" where
  "tcp_send_synack t =
     (let opt_len = tcp_options_size t PICO_TCP_SYNACK;
          (m, t) = tcp_alloc t in
      if \<not> m then Some (-1, t)
      else
        let p = next_addr t;
            f = (new_frame t (of_nat PICO_SIZE_TCPHDR + opt_len))\<lparr>h_len := hdr_len t opt_len,
                  h_flags := PICO_TCP_SYNACK, h_rwnd := short_be (wnd t), h_seq := long_be (snd_nxt t)\<rparr>;
            t = t\<lparr>next_addr := p + 1, store := (store t)(p := f),
                  rcv_processed := long_be (h_seq f), snd_last := snd_nxt t\<rparr>
        in do {
          t \<leftarrow> tcp_set_space t;
          (t, body) \<leftarrow> tcp_add_options t (f_body f) PICO_TCP_SYNACK opt_len;
          let t = upd_frame t p (\<lambda>f. f\<lparr>f_body := body, f_payload_len := 0, f_timestamp := now t\<rparr>);
          let t = snd (tcp_send t p);
          Some (0, tcp_frame_discard t p) })"

section \<open>Cleaning up and options\<close>

definition pico_tcp_cleanup_queues :: "pico_socket_tcp \<Rightarrow> pico_socket_tcp option" where
  "pico_tcp_cleanup_queues t = do {
     let t = tcp_effect t (Timer_cancel (retrans_tmr t));
     let t = tcp_effect t (Timer_cancel (keepalive_tmr t));
     let t = tcp_effect t (Timer_cancel (fin_tmr t));
     let t = t\<lparr>retrans_tmr := 0, keepalive_tmr := 0, fin_tmr := 0\<rparr>;
     t \<leftarrow> tcp_discard_all_segments t Q_in;
     t \<leftarrow> tcp_discard_all_segments t Q_out;
     tcp_discard_all_segments t Q_hold }"

definition pico_tcp_check_listen_close :: "pico_socket_tcp \<Rightarrow> int \<times> pico_socket_tcp" where
  "pico_tcp_check_listen_close t =
     (if TCPSTATE t = PICO_SOCKET_STATE_TCP_LISTEN then (0, pico_socket_del t) else (-1, t))"

definition pico_tcp_set_bufsize_in :: "pico_socket_tcp \<Rightarrow> u32 \<Rightarrow> int \<times> pico_socket_tcp" where
  "pico_tcp_set_bufsize_in t v = (0, t\<lparr>tcpq_in := (tcpq_in t)\<lparr>tq_max_size := v\<rparr>\<rparr>)"

definition pico_tcp_set_bufsize_out :: "pico_socket_tcp \<Rightarrow> u32 \<Rightarrow> int \<times> pico_socket_tcp" where
  "pico_tcp_set_bufsize_out t v = (0, t\<lparr>tcpq_out := (tcpq_out t)\<lparr>tq_max_size := v\<rparr>\<rparr>)"

definition pico_tcp_get_bufsize_in :: "pico_socket_tcp \<Rightarrow> int \<times> u32" where
  "pico_tcp_get_bufsize_in t = (0, tq_max_size (tcpq_in t))"

definition pico_tcp_get_bufsize_out :: "pico_socket_tcp \<Rightarrow> int \<times> u32" where
  "pico_tcp_get_bufsize_out t = (0, tq_max_size (tcpq_out t))"

definition pico_tcp_set_keepalive_probes :: "pico_socket_tcp \<Rightarrow> u32 \<Rightarrow> int \<times> pico_socket_tcp" where
  "pico_tcp_set_keepalive_probes t v = (0, t\<lparr>ka_probes := v\<rparr>)"

definition pico_tcp_set_keepalive_intvl :: "pico_socket_tcp \<Rightarrow> u32 \<Rightarrow> int \<times> pico_socket_tcp" where
  "pico_tcp_set_keepalive_intvl t v = (0, t\<lparr>ka_intvl := v\<rparr>)"

definition pico_tcp_set_keepalive_time :: "pico_socket_tcp \<Rightarrow> u32 \<Rightarrow> int \<times> pico_socket_tcp" where
  "pico_tcp_set_keepalive_time t v = (0, t\<lparr>ka_time := v\<rparr>)"

definition pico_tcp_set_linger :: "pico_socket_tcp \<Rightarrow> u32 \<Rightarrow> int \<times> pico_socket_tcp" where
  "pico_tcp_set_linger t v = (0, t\<lparr>linger_timeout := v\<rparr>)"

definition sockopt_validate_args :: "pico_socket_tcp \<Rightarrow> u8 \<Rightarrow> 'v option \<Rightarrow> int \<times> pico_socket_tcp" where
  "sockopt_validate_args t proto_number v =
     (if v = None then (-1, t\<lparr>pico_err := PICO_ERR_EINVAL\<rparr>)
      else if proto_number \<noteq> PICO_PROTO_TCP then (-1, t\<lparr>pico_err := PICO_ERR_EPROTONOSUPPORT\<rparr>)
      else (0, t))"

definition tcp_set_nagle_option :: "pico_socket_tcp \<Rightarrow> u32 \<Rightarrow> pico_socket_tcp" where
  "tcp_set_nagle_option t v =
     (if sint v > 0 then t\<lparr>opt_flags := opt_flags t OR 1\<rparr> else t\<lparr>opt_flags := opt_flags t AND NOT 1\<rparr>)"

definition PICO_TCP_NODELAY :: int where "PICO_TCP_NODELAY = 1"
definition PICO_SOCKET_OPT_KEEPIDLE :: int where "PICO_SOCKET_OPT_KEEPIDLE = 4"
definition PICO_SOCKET_OPT_KEEPINTVL :: int where "PICO_SOCKET_OPT_KEEPINTVL = 5"
definition PICO_SOCKET_OPT_KEEPCNT :: int where "PICO_SOCKET_OPT_KEEPCNT = 6"
definition PICO_SOCKET_OPT_LINGER :: int where "PICO_SOCKET_OPT_LINGER = 13"
definition PICO_SOCKET_OPT_RCVBUF :: int where "PICO_SOCKET_OPT_RCVBUF = 52"
definition PICO_SOCKET_OPT_SNDBUF :: int where "PICO_SOCKET_OPT_SNDBUF = 53"

text \<open>The value is the four bytes the pointer leads to; the result has the new bytes.\<close>

definition pico_getsockopt_tcp ::
    "pico_socket_tcp \<Rightarrow> u8 \<Rightarrow> int \<Rightarrow> u32 option \<Rightarrow> int \<times> u32 option \<times> pico_socket_tcp" where
  "pico_getsockopt_tcp t proto_number option v =
     (case sockopt_validate_args t proto_number v of (r, t) \<Rightarrow>
        if r < 0 then (-1, v, t)
        else if option = PICO_TCP_NODELAY then (0, Some (if opt_flags t AND 1 \<noteq> 0 then 1 else 0), t)
        else if option = PICO_SOCKET_OPT_RCVBUF then (case pico_tcp_get_bufsize_in t of (r, x) \<Rightarrow> (r, Some x, t))
        else if option = PICO_SOCKET_OPT_SNDBUF then (case pico_tcp_get_bufsize_out t of (r, x) \<Rightarrow> (r, Some x, t))
        else (-1, v, t))"

definition pico_setsockopt_tcp ::
    "pico_socket_tcp \<Rightarrow> u8 \<Rightarrow> int \<Rightarrow> u32 option \<Rightarrow> int \<times> pico_socket_tcp" where
  "pico_setsockopt_tcp t proto_number option v =
     (case sockopt_validate_args t proto_number v of (r, t) \<Rightarrow>
        if r < 0 then (-1, t)
        else let x = the v in
          if option = PICO_TCP_NODELAY then (0, tcp_set_nagle_option t x)
          else if option = PICO_SOCKET_OPT_RCVBUF then (0, snd (pico_tcp_set_bufsize_in t x))
          else if option = PICO_SOCKET_OPT_SNDBUF then (0, snd (pico_tcp_set_bufsize_out t x))
          else if option = PICO_SOCKET_OPT_KEEPCNT then (0, snd (pico_tcp_set_keepalive_probes t x))
          else if option = PICO_SOCKET_OPT_KEEPIDLE then (0, snd (pico_tcp_set_keepalive_time t x))
          else if option = PICO_SOCKET_OPT_KEEPINTVL then (0, snd (pico_tcp_set_keepalive_intvl t x))
          else if option = PICO_SOCKET_OPT_LINGER then (0, snd (pico_tcp_set_linger t x))
          else (-1, t\<lparr>pico_err := PICO_ERR_EINVAL\<rparr>))"

section \<open>Delivery\<close>

text \<open>The union of addresses read as the other family: the first four bytes, or zeros behind them.\<close>

fun ip4_of :: "pico_address \<Rightarrow> u32" where
  "ip4_of (Ip4 a) = a"
| "ip4_of (Ip6 bs) = long_from bs"

fun ip6_of :: "pico_address \<Rightarrow> u8 list" where
  "ip6_of (Ip4 a) = bytes_of_u32 a @ replicate 12 0"
| "ip6_of (Ip6 bs) = bs"

definition socket_tcp_deliver_ipv4 :: "pico_socket_tcp \<Rightarrow> tcp_frame \<Rightarrow> bool" where
  "socket_tcp_deliver_ipv4 s f \<longleftrightarrow>
     (let s_local = ip4_of (local_addr s); s_remote = ip4_of (remote_addr s);
          p_src = ip4_of (f_src f); p_dst = ip4_of (f_dst f) in
      if remote_port s = h_sport f \<and> s_remote = p_src \<and> (s_local = 0 \<or> s_local = p_dst) then True
      else remote_port s = 0 \<and> (s_local = 0 \<or> s_local = p_dst))"

definition PICO_IP6_ANY :: "u8 list" where "PICO_IP6_ANY = replicate 16 0"

definition socket_tcp_deliver_ipv6 :: "pico_socket_tcp \<Rightarrow> tcp_frame \<Rightarrow> bool" where
  "socket_tcp_deliver_ipv6 s f \<longleftrightarrow>
     (let s_local = ip6_of (local_addr s); s_remote = ip6_of (remote_addr s);
          p_src = ip6_of (f_src f); p_dst = ip6_of (f_dst f) in
      if remote_port s = h_sport f \<and> s_remote = p_src \<and> (s_local = PICO_IP6_ANY \<or> s_local = p_dst) then True
      else remote_port s = 0 \<and> (s_local = PICO_IP6_ANY \<or> s_local = p_dst))"

definition socket_found :: "pico_socket_tcp \<Rightarrow> tcp_frame \<Rightarrow> bool" where
  "socket_found s f = (case f_src f of Ip4 _ \<Rightarrow> socket_tcp_deliver_ipv4 s f | Ip6 _ \<Rightarrow> socket_tcp_deliver_ipv6 s f)"

text \<open>The loop of \<open>pico_socket_tcp_deliver\<close> over the sockets of a port: the index of the socket the
  segment is for.\<close>

primrec deliver_target :: "pico_socket_tcp list \<Rightarrow> nat \<Rightarrow> tcp_frame \<Rightarrow> nat option \<Rightarrow> nat option" where
  "deliver_target [] i f target = target"
| "deliver_target (s # ss) i f target =
     (if socket_found s f then (if remote_port s \<noteq> 0 then Some i else deliver_target ss (i + 1) f (Some i))
      else deliver_target ss (i + 1) f target)"

end
