(* ===== verification/Tcp_Fsm.thy ===== *)
theory Tcp_Fsm
  imports Tcp_Conn
begin

text \<open>
  The state machine of \<open>modules/pico_tcp.c\<close>: the handlers of the states, the table of actions, the
  table of flags a state accepts and \<open>pico_tcp_input\<close>, with the functions of
  \<open>stack/pico_socket.c\<close> that clone, add and close a TCP socket.  A handler's result is \<open>None\<close> when
  the code does not return or leaves its memory.
\<close>

section \<open>Sockets\<close>

definition pico_socket_add :: "pico_socket_tcp \<Rightarrow> pico_socket_tcp" where
  "pico_socket_add t = tcp_effect (t\<lparr>sockport := True, state := state t OR PICO_SOCKET_STATE_BOUND\<rparr>) Socket_add"

definition pico_socket_update_tcp_state :: "pico_socket_tcp \<Rightarrow> u16 \<Rightarrow> pico_socket_tcp" where
  "pico_socket_update_tcp_state t tcp_state = (if tcp_state \<noteq> 0 then set_tcp_state t tcp_state else t)"

definition pico_socket_alter_state ::
    "pico_socket_tcp \<Rightarrow> u16 \<Rightarrow> u16 \<Rightarrow> u16 \<Rightarrow> int \<times> pico_socket_tcp" where
  "pico_socket_alter_state t more_states less_states tcp_state =
     (if more_states AND PICO_SOCKET_STATE_BOUND \<noteq> 0 then (0, pico_socket_add t)
      else if less_states AND PICO_SOCKET_STATE_BOUND \<noteq> 0
      then (if sockport t then 0 else -1, pico_socket_del t)
      else if \<not> sockport t then (-1, t\<lparr>pico_err := PICO_ERR_ENXIO\<rparr>)
      else (0, pico_socket_update_tcp_state
             (t\<lparr>state := (state t OR more_states) AND NOT less_states\<rparr>) tcp_state))"

definition PICO_SHUT_RD :: int where "PICO_SHUT_RD = 1"
definition PICO_SHUT_WR :: int where "PICO_SHUT_WR = 2"
definition PICO_SHUT_RDWR :: int where "PICO_SHUT_RDWR = 3"

definition pico_socket_shutdown :: "pico_socket_tcp \<Rightarrow> int \<Rightarrow> (int \<times> pico_socket_tcp) option" where
  "pico_socket_shutdown t mode =
     (if state t AND PICO_SOCKET_STATE_CLOSED \<noteq> 0 then Some (-1, t\<lparr>pico_err := PICO_ERR_EINVAL\<rparr>)
      else if state t AND PICO_SOCKET_STATE_BOUND = 0
      then do { t \<leftarrow> pico_tcp_cleanup_queues t; Some (0, tcp_effect t Socket_free) }
      else if mode AND PICO_SHUT_RDWR = PICO_SHUT_RDWR then do {
        let t = snd (pico_socket_alter_state t (PICO_SOCKET_STATE_SHUT_LOCAL OR PICO_SOCKET_STATE_SHUT_REMOTE) 0 0);
        t \<leftarrow> pico_tcp_notify_closing t;
        Some (0, t) }
      else if mode AND PICO_SHUT_WR \<noteq> 0 then do {
        let t = snd (pico_socket_alter_state t PICO_SOCKET_STATE_SHUT_LOCAL 0 0);
        t \<leftarrow> pico_tcp_notify_closing t;
        Some (0, t) }
      else if mode AND PICO_SHUT_RD \<noteq> 0
      then Some (0, snd (pico_socket_alter_state t PICO_SOCKET_STATE_SHUT_REMOTE 0 0))
      else Some (0, t))"

definition pico_socket_close :: "pico_socket_tcp \<Rightarrow> (int \<times> pico_socket_tcp) option" where
  "pico_socket_close t =
     (case pico_tcp_check_listen_close t of (r, t) \<Rightarrow>
        if r = 0 then Some (0, t) else pico_socket_shutdown t PICO_SHUT_RDWR)"

text \<open>The new socket starts from zeroed memory and what the rest of the stack answers.\<close>

definition share_env :: "pico_socket_tcp \<Rightarrow> pico_socket_tcp \<Rightarrow> pico_socket_tcp" where
  "share_env t u = t\<lparr>store := store u, next_addr := next_addr u, discarded := discarded u,
     pico_err := pico_err u, now := now u, mem_supply := mem_supply u, queue_supply := queue_supply u,
     tmr_supply := tmr_supply u, rand_supply := rand_supply u, dev_find := dev_find u\<rparr>"

definition pico_socket_clone_assign_address :: "pico_socket_tcp \<Rightarrow> pico_socket_tcp \<Rightarrow> pico_socket_tcp" where
  "pico_socket_clone_assign_address s t =
     (if net_set t then s\<lparr>net_set := True, local_addr := local_addr t, remote_addr := remote_addr t\<rparr> else s)"

definition pico_socket_clone :: "pico_socket_tcp \<Rightarrow> (pico_socket_tcp option \<times> pico_socket_tcp) option" where
  "pico_socket_clone t = do {
     (ok, s) \<leftarrow> pico_socket_tcp_open (share_env zero_socket t)
                  (case local_addr t of Ip4 _ \<Rightarrow> PICO_PROTO_IPV4 | Ip6 _ \<Rightarrow> PICO_PROTO_IPV6);
     let t = share_env t s;
     (if \<not> ok then Some (None, t\<lparr>pico_err := PICO_ERR_EPROTONOSUPPORT\<rparr>)
      else
        let s = s\<lparr>local_port := local_port t, remote_port := remote_port t, state := state t\<rparr>;
            s = pico_socket_clone_assign_address s t
        in if \<not> net_set s then Some (None, t\<lparr>pico_err := PICO_ERR_ENETUNREACH\<rparr>)
           else Some (Some (s\<lparr>has_wakeup := False\<rparr>), t)) }"

section \<open>Passive opening\<close>

text \<open>How the cloned socket is set up for the segment; then the handler, with the new socket, if
  any, beside the result and the listening socket.\<close>

definition syn_child :: "pico_socket_tcp \<Rightarrow> pico_socket_tcp \<Rightarrow> int \<Rightarrow> pico_socket_tcp option" where
  "syn_child t s p =
     (let f = store t p;
          s = s\<lparr>remote_port := h_sport f, remote_addr := f_src f, local_addr := f_dst f\<rparr>;
          (m, s) = pico_socket_get_mss s;
          mtu = (ucast m :: u16);
          s = s\<lparr>mss := mtu - of_nat PICO_SIZE_TCPHDR\<rparr>
      in do {
        s \<leftarrow> tcp_parse_options s p;
        let s = s\<lparr>tcpq_in := (tcpq_in s)\<lparr>tq_max_size := PICO_DEFAULT_SOCKETQ\<rparr>,
                  tcpq_out := (tcpq_out s)\<lparr>tq_max_size := PICO_DEFAULT_SOCKETQ\<rparr>,
                  tcpq_hold := (tcpq_hold s)\<lparr>tq_max_size := 2 * ucast mtu\<rparr>,
                  rcv_nxt := long_be (h_seq f) + 1\<rparr>;
        let (r, s) = pico_paws s;
        let s = s\<lparr>snd_nxt := long_be r, snd_last := long_be r, cwnd := PICO_TCP_IW\<rparr>;
        th \<leftarrow> init_ssthresh (mss s);
        let s = s\<lparr>ssthresh := th, recv_wnd := short_be (h_rwnd f), jumbo := h_len f AND 0x07,
                  linger_timeout := PICO_SOCKET_LINGER_TIMEOUT,
                  has_parent := True, parent_wakeup := has_wakeup t, has_wakeup := has_wakeup t\<rparr>;
        let s = rto_set s PICO_TCP_RTO_MIN;
        Some (s\<lparr>state := PICO_SOCKET_STATE_BOUND OR PICO_SOCKET_STATE_CONNECTED
                         OR PICO_SOCKET_STATE_TCP_SYN_RECV\<rparr>) })"

definition tcp_syn :: "pico_socket_tcp \<Rightarrow> int \<Rightarrow> (int \<times> pico_socket_tcp option \<times> pico_socket_tcp) option" where
  "tcp_syn t p =
     (if number_of_pending_conn t \<ge> max_backlog t then Some (-1, None, t)
      else do {
        (s, t) \<leftarrow> pico_socket_clone t;
        (case s of
           None \<Rightarrow> Some (-1, None, t)
         | Some s \<Rightarrow> do {
             s \<leftarrow> syn_child t s p;
             let t = t\<lparr>number_of_pending_conn := number_of_pending_conn t + 1\<rparr>;
             (_, s) \<leftarrow> tcp_send_synack (pico_socket_add s);
             Some (0, Some s, share_env t s) }) })"

definition tcp_synrecv_syn :: "pico_socket_tcp \<Rightarrow> int \<Rightarrow> (int \<times> pico_socket_tcp) option" where
  "tcp_synrecv_syn t p =
     (if rcv_nxt t = long_be (h_seq (store t p)) + 1
      then do { (_, t) \<leftarrow> tcp_send_synack (t\<lparr>snd_nxt := snd_nxt t - 1\<rparr>); Some (0, t) }
      else do { (_, t) \<leftarrow> tcp_send_rst t p; Some (-1, t) })"

definition tcp_set_init_point :: "pico_socket_tcp \<Rightarrow> pico_socket_tcp" where
  "tcp_set_init_point t = t\<lparr>rcv_processed := rcv_nxt t\<rparr>"

definition tcp_first_ack :: "pico_socket_tcp \<Rightarrow> int \<Rightarrow> (int \<times> pico_socket_tcp) option" where
  "tcp_first_ack t p =
     (if snd_nxt t = ACKN (store t p) then do {
        (_, t) \<leftarrow> tcp_ack (tcp_set_init_point t) p;
        let t = set_tcp_state t PICO_SOCKET_STATE_TCP_ESTABLISHED;
        let t = (if \<not> has_parent t then sock_wakeup t PICO_SOCK_EV_CONN else t);
        let t = (if has_parent t \<and> parent_wakeup t
                 then tcp_effect (t\<lparr>has_wakeup := True\<rparr>) (Parent_wakeup PICO_SOCK_EV_CONN) else t);
        Some (0, t\<lparr>ev_pending := ev_pending t OR PICO_SOCK_EV_WR\<rparr>) }
      else if h_flags (store t p) AND PICO_TCP_RST = 0
      then do { (_, t) \<leftarrow> tcp_nosync_rst t p; Some (0, t) }
      else Some (0, t))"

section \<open>Active opening\<close>

definition tcp_synack :: "pico_socket_tcp \<Rightarrow> int \<Rightarrow> (int \<times> pico_socket_tcp) option" where
  "tcp_synack t p =
     (if ACKN (store t p) = 1 + snd_nxt t then do {
        let t = (tcp_effect t (Timer_cancel (retrans_tmr t)))\<lparr>retrans_tmr := 0\<rparr>;
        let t = t\<lparr>rcv_nxt := long_be (h_seq (store t p))\<rparr>;
        let t = t\<lparr>rcv_processed := rcv_nxt t + 1\<rparr>;
        (_, t) \<leftarrow> tcp_ack t p;
        let t = sock_wakeup (set_tcp_state t PICO_SOCKET_STATE_TCP_ESTABLISHED) PICO_SOCK_EV_CONN;
        let t = t\<lparr>ev_pending := ev_pending t OR PICO_SOCK_EV_WR\<rparr>;
        t \<leftarrow> tcp_send_ack (t\<lparr>rcv_nxt := rcv_nxt t + 1, snd_nxt := snd_nxt t + 1\<rparr>);
        Some (0, t) }
      else if h_flags (store t p) AND PICO_TCP_RST = 0
      then do { (_, t) \<leftarrow> tcp_nosync_rst t p; Some (0, t) }
      else Some (0, t))"

section \<open>Closing\<close>

definition tcp_finwaitack :: "pico_socket_tcp \<Rightarrow> int \<Rightarrow> (int \<times> pico_socket_tcp) option" where
  "tcp_finwaitack t p = do {
     (_, t) \<leftarrow> tcp_ack t p;
     Some (0, if ACKN (store t p) = snd_nxt t - 1
              then set_tcp_state t PICO_SOCKET_STATE_TCP_FIN_WAIT2 else t) }"

definition or_state :: "pico_socket_tcp \<Rightarrow> u16 \<Rightarrow> pico_socket_tcp" where
  "or_state t st = t\<lparr>state := state t OR st\<rparr>"

definition tcp_finwaitfin :: "pico_socket_tcp \<Rightarrow> int \<Rightarrow> (int \<times> pico_socket_tcp) option" where
  "tcp_finwaitfin t p = do {
     let t = t\<lparr>rcv_nxt := long_be (h_seq (store t p)) + 1\<rparr>;
     let t = or_state (set_tcp_state t PICO_SOCKET_STATE_TCP_TIME_WAIT) PICO_SOCKET_STATE_SHUT_REMOTE;
     let t = sock_wakeup t PICO_SOCK_EV_CLOSE;
     t \<leftarrow> (if f_payload_len (store t p) > 0 then map_option snd (tcp_data_in t p) else Some t);
     t \<leftarrow> tcp_send_ack t;
     t \<leftarrow> tcp_linger t;
     Some (0, t) }"

definition tcp_closing_ack :: "pico_socket_tcp \<Rightarrow> int \<Rightarrow> (int \<times> pico_socket_tcp) option" where
  "tcp_closing_ack t p = do {
     (_, t) \<leftarrow> tcp_ack t p;
     t \<leftarrow> (if ACKN (store t p) = snd_nxt t
          then tcp_linger (set_tcp_state t PICO_SOCKET_STATE_TCP_TIME_WAIT) else Some t);
     Some (0, t) }"

definition tcp_lastackwait :: "pico_socket_tcp \<Rightarrow> int \<Rightarrow> (int \<times> pico_socket_tcp) option" where
  "tcp_lastackwait t p =
     Some (0, if ACKN (store t p) = snd_nxt t
              then pico_socket_del (sock_wakeup (set_closed t) PICO_SOCK_EV_FIN) else t)"

definition tcp_attempt_closewait :: "pico_socket_tcp \<Rightarrow> int \<Rightarrow> pico_socket_tcp" where
  "tcp_attempt_closewait t p =
     (let f = store t p in
      if pico_seq_compare (SEQN f) (rcv_nxt t) = 0 then
        (let t = t\<lparr>rcv_nxt := long_be (h_seq f) + 1\<rparr> in
         if pico_seq_compare (SEQN f) (rcv_processed t) = 0 then
           (let t = (if TCPSTATE t = PICO_SOCKET_STATE_TCP_ESTABLISHED
                     then set_tcp_state t PICO_SOCKET_STATE_TCP_CLOSE_WAIT else t)
            in sock_wakeup (or_state t PICO_SOCKET_STATE_SHUT_REMOTE) PICO_SOCK_EV_CLOSE)
         else t\<lparr>remote_closed := 1\<rparr>)
      else t)"

definition tcp_closewait :: "pico_socket_tcp \<Rightarrow> int \<Rightarrow> (int \<times> pico_socket_tcp) option" where
  "tcp_closewait t p = do {
     t \<leftarrow> (if f_payload_len (store t p) > 0 then map_option snd (tcp_data_in t p) else Some t);
     t \<leftarrow> (if h_flags (store t p) AND PICO_TCP_ACK \<noteq> 0 then map_option snd (tcp_ack t p) else Some t);
     let t = tcp_attempt_closewait t p;
     t \<leftarrow> (if TCPSTATE t = PICO_SOCKET_STATE_TCP_CLOSE_WAIT \<or> TCPSTATE t = PICO_SOCKET_STATE_TCP_ESTABLISHED
          then tcp_send_ack t else Some t);
     Some (0, t) }"

definition tcp_rcvfin :: "pico_socket_tcp \<Rightarrow> int \<Rightarrow> (int \<times> pico_socket_tcp) option" where
  "tcp_rcvfin t p = do {
     let t = set_tcp_state t PICO_SOCKET_STATE_TCP_CLOSING;
     t \<leftarrow> tcp_send_ack (t\<lparr>rcv_processed := rcv_nxt t + 1, rcv_nxt := rcv_nxt t + 1\<rparr>);
     Some (0, t) }"

definition tcp_finack :: "pico_socket_tcp \<Rightarrow> int \<Rightarrow> (int \<times> pico_socket_tcp) option" where
  "tcp_finack t p = do {
     t \<leftarrow> tcp_send_ack (t\<lparr>rcv_nxt := rcv_nxt t + 1\<rparr>);
     let t = sock_wakeup t PICO_SOCK_EV_FIN;
     let t = or_state (set_tcp_state t PICO_SOCKET_STATE_TCP_TIME_WAIT) PICO_SOCKET_STATE_SHUT_REMOTE;
     t \<leftarrow> tcp_linger t;
     Some (0, t) }"

definition tcp_closeconn :: "pico_socket_tcp \<Rightarrow> int \<Rightarrow> (int \<times> pico_socket_tcp) option" where
  "tcp_closeconn t p =
     (let f = store t p in
      if pico_seq_compare (SEQN f) (rcv_nxt t) = 0 then do {
        let t = t\<lparr>rcv_nxt := long_be (h_seq f) + 1\<rparr>;
        let t = or_state (set_tcp_state t PICO_SOCKET_STATE_TCP_CLOSE_WAIT) PICO_SOCKET_STATE_SHUT_LOCAL;
        (_, t) \<leftarrow> pico_socket_close t;
        Some (1, t) }
      else Some (0, t))"

section \<open>Resets\<close>

definition tcp_force_closed :: "pico_socket_tcp \<Rightarrow> pico_socket_tcp" where
  "tcp_force_closed t =
     (let t = set_closed t in
      if TCPSTATE t = PICO_SOCKET_STATE_TCP_ESTABLISHED then sock_wakeup t PICO_SOCK_EV_FIN
      else pico_socket_del (sock_wakeup (t\<lparr>pico_err := PICO_ERR_ECONNRESET\<rparr>) PICO_SOCK_EV_FIN))"

definition tcp_rst :: "pico_socket_tcp \<Rightarrow> int \<Rightarrow> (int \<times> pico_socket_tcp) option" where
  "tcp_rst t p =
     (let f = store t p in
      if TCPSTATE t = PICO_SOCKET_STATE_TCP_SYN_SENT then
        (if snd_nxt t + 1 = ACKN f then Some (0, tcp_force_closed t) else Some (0, t))
      else
        (let this_seq = long_be (h_seq f) in
         if this_seq \<ge> rcv_ackd t
            \<and> this_seq \<le> push_bit (unat (wnd_scale t)) (ucast (short_be (h_rwnd f))) + rcv_ackd t
         then Some (0, tcp_force_closed t) else Some (0, t)))"

definition tcp_halfopencon :: "pico_socket_tcp \<Rightarrow> int \<Rightarrow> (int \<times> pico_socket_tcp) option" where
  "tcp_halfopencon t p = do { t \<leftarrow> tcp_send_ack t; Some (0, t) }"

definition tcp_wakeup_pending :: "pico_socket_tcp \<Rightarrow> u16 \<Rightarrow> pico_socket_tcp" where
  "tcp_wakeup_pending t ev = sock_wakeup t ev"

section \<open>The table of actions\<close>

text \<open>The functions the table points to.\<close>

datatype tcp_call = No_call | Call_syn | Call_synack | Call_ack | Call_synrecv_syn | Call_first_ack
  | Call_data_in | Call_closeconn | Call_rst | Call_halfopencon | Call_closewait | Call_send_rst
  | Call_lastackwait | Call_finwaitack | Call_rcvfin | Call_finack | Call_finwaitfin | Call_closing_ack

fun call_simple :: "tcp_call \<Rightarrow> pico_socket_tcp \<Rightarrow> int \<Rightarrow> (int \<times> pico_socket_tcp) option" where
  "call_simple No_call t p = Some (0, t)"
| "call_simple Call_syn t p = None"
| "call_simple Call_synack t p = tcp_synack t p"
| "call_simple Call_ack t p = tcp_ack t p"
| "call_simple Call_synrecv_syn t p = tcp_synrecv_syn t p"
| "call_simple Call_first_ack t p = tcp_first_ack t p"
| "call_simple Call_data_in t p = tcp_data_in t p"
| "call_simple Call_closeconn t p = tcp_closeconn t p"
| "call_simple Call_rst t p = tcp_rst t p"
| "call_simple Call_halfopencon t p = tcp_halfopencon t p"
| "call_simple Call_closewait t p = tcp_closewait t p"
| "call_simple Call_send_rst t p = tcp_send_rst t p"
| "call_simple Call_lastackwait t p = tcp_lastackwait t p"
| "call_simple Call_finwaitack t p = tcp_finwaitack t p"
| "call_simple Call_rcvfin t p = tcp_rcvfin t p"
| "call_simple Call_finack t p = tcp_finack t p"
| "call_simple Call_finwaitfin t p = tcp_finwaitfin t p"
| "call_simple Call_closing_ack t p = tcp_closing_ack t p"

text \<open>The socket after the call and the sockets it created.\<close>

definition tcp_action_call ::
    "tcp_call \<Rightarrow> pico_socket_tcp \<Rightarrow> int \<Rightarrow> (pico_socket_tcp \<times> pico_socket_tcp list) option" where
  "tcp_action_call call t p =
     (if call = Call_syn
      then do { (_, s, t) \<leftarrow> tcp_syn t p; Some (t, case s of None \<Rightarrow> [] | Some s \<Rightarrow> [s]) }
      else do { (_, t) \<leftarrow> call_simple call t p; Some (t, []) })"

record tcp_action_entry =
  tcpstate :: u16
  on_syn :: tcp_call
  on_synack :: tcp_call
  on_ack :: tcp_call
  on_data :: tcp_call
  on_fin :: tcp_call
  on_finack :: tcp_call
  on_rst :: tcp_call

definition tcp_fsm :: "tcp_action_entry list" where
  "tcp_fsm = [
    \<lparr>tcpstate = 0, on_syn = No_call, on_synack = No_call, on_ack = No_call, on_data = No_call,
       on_fin = No_call, on_finack = No_call, on_rst = No_call\<rparr>,
    \<lparr>tcpstate = PICO_SOCKET_STATE_TCP_CLOSED, on_syn = No_call, on_synack = No_call, on_ack = No_call,
       on_data = No_call, on_fin = No_call, on_finack = No_call, on_rst = No_call\<rparr>,
    \<lparr>tcpstate = PICO_SOCKET_STATE_TCP_LISTEN, on_syn = Call_syn, on_synack = No_call, on_ack = No_call,
       on_data = No_call, on_fin = No_call, on_finack = No_call, on_rst = No_call\<rparr>,
    \<lparr>tcpstate = PICO_SOCKET_STATE_TCP_SYN_SENT, on_syn = No_call, on_synack = Call_synack, on_ack = No_call,
       on_data = No_call, on_fin = No_call, on_finack = No_call, on_rst = Call_rst\<rparr>,
    \<lparr>tcpstate = PICO_SOCKET_STATE_TCP_SYN_RECV, on_syn = Call_synrecv_syn, on_synack = No_call,
       on_ack = Call_first_ack, on_data = Call_data_in, on_fin = No_call, on_finack = Call_closeconn, on_rst = Call_rst\<rparr>,
    \<lparr>tcpstate = PICO_SOCKET_STATE_TCP_ESTABLISHED, on_syn = Call_halfopencon, on_synack = Call_ack,
       on_ack = Call_ack, on_data = Call_data_in, on_fin = Call_closewait, on_finack = Call_closewait, on_rst = Call_rst\<rparr>,
    \<lparr>tcpstate = PICO_SOCKET_STATE_TCP_CLOSE_WAIT, on_syn = No_call, on_synack = Call_ack, on_ack = Call_ack,
       on_data = Call_send_rst, on_fin = Call_closewait, on_finack = Call_closewait, on_rst = Call_rst\<rparr>,
    \<lparr>tcpstate = PICO_SOCKET_STATE_TCP_LAST_ACK, on_syn = No_call, on_synack = Call_ack, on_ack = Call_lastackwait,
       on_data = Call_send_rst, on_fin = Call_send_rst, on_finack = Call_send_rst, on_rst = Call_rst\<rparr>,
    \<lparr>tcpstate = PICO_SOCKET_STATE_TCP_FIN_WAIT1, on_syn = No_call, on_synack = Call_ack, on_ack = Call_finwaitack,
       on_data = Call_data_in, on_fin = Call_rcvfin, on_finack = Call_finack, on_rst = Call_rst\<rparr>,
    \<lparr>tcpstate = PICO_SOCKET_STATE_TCP_FIN_WAIT2, on_syn = No_call, on_synack = Call_ack, on_ack = Call_ack,
       on_data = Call_data_in, on_fin = Call_finwaitfin, on_finack = Call_finack, on_rst = Call_rst\<rparr>,
    \<lparr>tcpstate = PICO_SOCKET_STATE_TCP_CLOSING, on_syn = No_call, on_synack = Call_ack, on_ack = Call_closing_ack,
       on_data = Call_send_rst, on_fin = Call_send_rst, on_finack = Call_send_rst, on_rst = Call_rst\<rparr>,
    \<lparr>tcpstate = PICO_SOCKET_STATE_TCP_TIME_WAIT, on_syn = No_call, on_synack = No_call, on_ack = No_call,
       on_data = Call_send_rst, on_fin = No_call, on_finack = No_call, on_rst = No_call\<rparr>]"

text \<open>The rows of \<open>valid_flags\<close>; what is not listed is 0, which no segment has.\<close>

definition closing_flags :: "u8 list" where
  "closing_flags = [PICO_TCP_SYNACK, PICO_TCP_ACK, PICO_TCP_PSH, PICO_TCP_PSHACK, PICO_TCP_FIN,
     PICO_TCP_FINACK, PICO_TCP_FINPSHACK, PICO_TCP_RST]"

definition valid_flags :: "u8 list list" where
  "valid_flags = [[], [], [PICO_TCP_SYN],
     [PICO_TCP_SYNACK, PICO_TCP_RST, PICO_TCP_RSTACK],
     [PICO_TCP_SYN, PICO_TCP_ACK, PICO_TCP_PSH, PICO_TCP_PSHACK, PICO_TCP_FINACK, PICO_TCP_FINPSHACK, PICO_TCP_RST],
     [PICO_TCP_SYN, PICO_TCP_SYNACK, PICO_TCP_ACK, PICO_TCP_PSH, PICO_TCP_PSHACK, PICO_TCP_FIN,
      PICO_TCP_FINACK, PICO_TCP_FINPSHACK, PICO_TCP_RST, PICO_TCP_RSTACK],
     closing_flags, closing_flags, closing_flags, closing_flags, closing_flags, closing_flags]"

definition state_index :: "pico_socket_tcp \<Rightarrow> nat" where
  "state_index t = unat (drop_bit 8 (state t))"

definition invalid_flags :: "pico_socket_tcp \<Rightarrow> u8 \<Rightarrow> bool option" where
  "invalid_flags t flags =
     (if flags = 0 then Some True
      else if state_index t < PICO_SOCKET_STATE_TCP_ARRAYSIZ
      then Some (flags \<notin> set (valid_flags ! state_index t)) else None)"

section \<open>Input\<close>

definition call_if ::
    "bool \<Rightarrow> tcp_call \<Rightarrow> int \<Rightarrow> pico_socket_tcp \<times> pico_socket_tcp list \<Rightarrow> (pico_socket_tcp \<times> pico_socket_tcp list) option" where
  "call_if b call p x = (case x of (t, ss) \<Rightarrow>
     if b then do { (t, ss') \<leftarrow> tcp_action_call call t p; Some (t, ss @ ss') } else Some (t, ss))"

definition tcp_action_by_flags ::
    "tcp_action_entry \<Rightarrow> pico_socket_tcp \<Rightarrow> int \<Rightarrow> u8 \<Rightarrow> (int \<times> pico_socket_tcp \<times> pico_socket_tcp list) option" where
  "tcp_action_by_flags action t p flags = do {
     (t, ss) \<leftarrow> call_if (flags = PICO_TCP_ACK \<or> flags = PICO_TCP_PSHACK) (on_ack action) p (t, []);
     let data = ((f_payload_len (store t p) > 0 \<or> flags AND PICO_TCP_PSH \<noteq> 0)
                 \<and> state t AND PICO_SOCKET_STATE_CLOSED = 0 \<and> TCPSTATE t \<noteq> PICO_SOCKET_STATE_TCP_LISTEN);
     let ret = (if data then int (unat (f_payload_len (store t p))) else 0);
     x \<leftarrow> call_if data (on_data action) p (t, ss);
     x \<leftarrow> call_if (flags = PICO_TCP_FIN) (on_fin action) p x;
     x \<leftarrow> call_if (flags = PICO_TCP_FINACK \<or> flags = PICO_TCP_FINPSHACK) (on_finack action) p x;
     (t, ss) \<leftarrow> call_if (flags AND PICO_TCP_RST \<noteq> 0) (on_rst action) p x;
     Some (ret, t, ss) }"

definition pico_tcp_input :: "pico_socket_tcp \<Rightarrow> int \<Rightarrow> (int \<times> pico_socket_tcp \<times> pico_socket_tcp list) option" where
  "pico_tcp_input t p =
     (let flags = h_flags (store t p) in
      if \<not> state_index t < length tcp_fsm then None
      else do {
        let action = tcp_fsm ! state_index t;
        let t = upd_frame t p (\<lambda>f. f\<lparr>f_payload := hdr_bytes (h_len f),
                  f_payload_len := f_transport_len f - of_nat (hdr_bytes (h_len f))\<rparr>);
        let t = t\<lparr>sock_timestamp := now t\<rparr>;
        invalid \<leftarrow> invalid_flags t flags;
        (ret, t, ss) \<leftarrow>
          (if invalid then Some (0, snd (pico_tcp_reply_rst t p), [])
           else if flags = PICO_TCP_SYN
           then do { (t, ss) \<leftarrow> tcp_action_call (on_syn action) t p; Some (0, t, ss) }
           else if flags = PICO_TCP_SYNACK
           then do { (t, ss) \<leftarrow> tcp_action_call (on_synack action) t p; Some (0, t, ss) }
           else tcp_action_by_flags action t p flags);
        let t = (if ev_pending t \<noteq> 0 then tcp_wakeup_pending t (ev_pending t) else t);
        Some (ret, tcp_frame_discard t p, ss) })"

end
