(* ===== verification/Tcp_Inv.thy ===== *)
theory Tcp_Inv
  imports Tcp_Fsm
begin

text \<open>
  What the functions of the TCP modules leave alone: the state word, the addresses and ports of
  the connection and the bounds of the retransmission timeout.  The relation \<open>keeps\<close> is proved for
  every function that handles data, acknowledgements, options and timers.
\<close>

section \<open>The relation\<close>

text \<open>The state word with the ports and addresses.\<close>

definition core :: "pico_socket_tcp \<Rightarrow> u16 \<times> u16 \<times> u16 \<times> pico_address \<times> pico_address" where
  "core t = (state t, local_port t, remote_port t, local_addr t, remote_addr t)"

definition rto_ok :: "pico_socket_tcp \<Rightarrow> bool" where
  "rto_ok t \<longleftrightarrow> PICO_TCP_RTO_MIN \<le> rto t \<and> rto t \<le> PICO_TCP_RTO_MAX"

definition keeps :: "pico_socket_tcp \<Rightarrow> pico_socket_tcp \<Rightarrow> bool" where
  "keeps t t' \<longleftrightarrow> core t' = core t \<and> (rto_ok t \<longrightarrow> rto_ok t')"

named_theorems keeps_dest

lemma core_update [simp]:
  "core (t\<lparr>net_set := x_net_set\<rparr>) = core t"
  "core (t\<lparr>ev_pending := x_ev_pending\<rparr>) = core t"
  "core (t\<lparr>opt_flags := x_opt_flags\<rparr>) = core t"
  "core (t\<lparr>sockport := x_sockport\<rparr>) = core t"
  "core (t\<lparr>has_wakeup := x_has_wakeup\<rparr>) = core t"
  "core (t\<lparr>has_parent := x_has_parent\<rparr>) = core t"
  "core (t\<lparr>parent_wakeup := x_parent_wakeup\<rparr>) = core t"
  "core (t\<lparr>max_backlog := x_max_backlog\<rparr>) = core t"
  "core (t\<lparr>number_of_pending_conn := x_number_of_pending_conn\<rparr>) = core t"
  "core (t\<lparr>sock_timestamp := x_sock_timestamp\<rparr>) = core t"
  "core (t\<lparr>dev_mtu := x_dev_mtu\<rparr>) = core t"
  "core (t\<lparr>dev_find := x_dev_find\<rparr>) = core t"
  "core (t\<lparr>tcpq_in := x_tcpq_in\<rparr>) = core t"
  "core (t\<lparr>tcpq_out := x_tcpq_out\<rparr>) = core t"
  "core (t\<lparr>tcpq_hold := x_tcpq_hold\<rparr>) = core t"
  "core (t\<lparr>snd_nxt := x_snd_nxt\<rparr>) = core t"
  "core (t\<lparr>snd_last := x_snd_last\<rparr>) = core t"
  "core (t\<lparr>snd_old_ack := x_snd_old_ack\<rparr>) = core t"
  "core (t\<lparr>snd_retry := x_snd_retry\<rparr>) = core t"
  "core (t\<lparr>snd_last_out := x_snd_last_out\<rparr>) = core t"
  "core (t\<lparr>avg_rtt := x_avg_rtt\<rparr>) = core t"
  "core (t\<lparr>rttvar := x_rttvar\<rparr>) = core t"
  "core (t\<lparr>in_flight := x_in_flight\<rparr>) = core t"
  "core (t\<lparr>retrans_tmr := x_retrans_tmr\<rparr>) = core t"
  "core (t\<lparr>retrans_tmr_due := x_retrans_tmr_due\<rparr>) = core t"
  "core (t\<lparr>cwnd_counter := x_cwnd_counter\<rparr>) = core t"
  "core (t\<lparr>cwnd := x_cwnd\<rparr>) = core t"
  "core (t\<lparr>ssthresh := x_ssthresh\<rparr>) = core t"
  "core (t\<lparr>recv_wnd := x_recv_wnd\<rparr>) = core t"
  "core (t\<lparr>recv_wnd_scale := x_recv_wnd_scale\<rparr>) = core t"
  "core (t\<lparr>rcv_nxt := x_rcv_nxt\<rparr>) = core t"
  "core (t\<lparr>rcv_ackd := x_rcv_ackd\<rparr>) = core t"
  "core (t\<lparr>rcv_processed := x_rcv_processed\<rparr>) = core t"
  "core (t\<lparr>wnd := x_wnd\<rparr>) = core t"
  "core (t\<lparr>wnd_scale := x_wnd_scale\<rparr>) = core t"
  "core (t\<lparr>remote_closed := x_remote_closed\<rparr>) = core t"
  "core (t\<lparr>ts_nxt := x_ts_nxt\<rparr>) = core t"
  "core (t\<lparr>mss := x_mss\<rparr>) = core t"
  "core (t\<lparr>sack_ok := x_sack_ok\<rparr>) = core t"
  "core (t\<lparr>ts_ok := x_ts_ok\<rparr>) = core t"
  "core (t\<lparr>mss_ok := x_mss_ok\<rparr>) = core t"
  "core (t\<lparr>sacks := x_sacks\<rparr>) = core t"
  "core (t\<lparr>jumbo := x_jumbo\<rparr>) = core t"
  "core (t\<lparr>linger_timeout := x_linger_timeout\<rparr>) = core t"
  "core (t\<lparr>x_mode := x_x_mode\<rparr>) = core t"
  "core (t\<lparr>backoff := x_backoff\<rparr>) = core t"
  "core (t\<lparr>localZeroWindow := x_localZeroWindow\<rparr>) = core t"
  "core (t\<lparr>keepalive_tmr := x_keepalive_tmr\<rparr>) = core t"
  "core (t\<lparr>ack_timestamp := x_ack_timestamp\<rparr>) = core t"
  "core (t\<lparr>ka_time := x_ka_time\<rparr>) = core t"
  "core (t\<lparr>ka_intvl := x_ka_intvl\<rparr>) = core t"
  "core (t\<lparr>ka_probes := x_ka_probes\<rparr>) = core t"
  "core (t\<lparr>ka_retries_count := x_ka_retries_count\<rparr>) = core t"
  "core (t\<lparr>fin_tmr := x_fin_tmr\<rparr>) = core t"
  "core (t\<lparr>store := x_store\<rparr>) = core t"
  "core (t\<lparr>next_addr := x_next_addr\<rparr>) = core t"
  "core (t\<lparr>discarded := x_discarded\<rparr>) = core t"
  "core (t\<lparr>pico_err := x_pico_err\<rparr>) = core t"
  "core (t\<lparr>now := x_now\<rparr>) = core t"
  "core (t\<lparr>mem_supply := x_mem_supply\<rparr>) = core t"
  "core (t\<lparr>queue_supply := x_queue_supply\<rparr>) = core t"
  "core (t\<lparr>tmr_supply := x_tmr_supply\<rparr>) = core t"
  "core (t\<lparr>rand_supply := x_rand_supply\<rparr>) = core t"
  "core (t\<lparr>effects := x_effects\<rparr>) = core t"
  by (simp_all add: core_def)

lemma rto_ok_update [simp]:
  "rto_ok (t\<lparr>state := x_state\<rparr>) = rto_ok t"
  "rto_ok (t\<lparr>net_set := x_net_set\<rparr>) = rto_ok t"
  "rto_ok (t\<lparr>local_addr := x_local_addr\<rparr>) = rto_ok t"
  "rto_ok (t\<lparr>remote_addr := x_remote_addr\<rparr>) = rto_ok t"
  "rto_ok (t\<lparr>local_port := x_local_port\<rparr>) = rto_ok t"
  "rto_ok (t\<lparr>remote_port := x_remote_port\<rparr>) = rto_ok t"
  "rto_ok (t\<lparr>ev_pending := x_ev_pending\<rparr>) = rto_ok t"
  "rto_ok (t\<lparr>opt_flags := x_opt_flags\<rparr>) = rto_ok t"
  "rto_ok (t\<lparr>sockport := x_sockport\<rparr>) = rto_ok t"
  "rto_ok (t\<lparr>has_wakeup := x_has_wakeup\<rparr>) = rto_ok t"
  "rto_ok (t\<lparr>has_parent := x_has_parent\<rparr>) = rto_ok t"
  "rto_ok (t\<lparr>parent_wakeup := x_parent_wakeup\<rparr>) = rto_ok t"
  "rto_ok (t\<lparr>max_backlog := x_max_backlog\<rparr>) = rto_ok t"
  "rto_ok (t\<lparr>number_of_pending_conn := x_number_of_pending_conn\<rparr>) = rto_ok t"
  "rto_ok (t\<lparr>sock_timestamp := x_sock_timestamp\<rparr>) = rto_ok t"
  "rto_ok (t\<lparr>dev_mtu := x_dev_mtu\<rparr>) = rto_ok t"
  "rto_ok (t\<lparr>dev_find := x_dev_find\<rparr>) = rto_ok t"
  "rto_ok (t\<lparr>tcpq_in := x_tcpq_in\<rparr>) = rto_ok t"
  "rto_ok (t\<lparr>tcpq_out := x_tcpq_out\<rparr>) = rto_ok t"
  "rto_ok (t\<lparr>tcpq_hold := x_tcpq_hold\<rparr>) = rto_ok t"
  "rto_ok (t\<lparr>snd_nxt := x_snd_nxt\<rparr>) = rto_ok t"
  "rto_ok (t\<lparr>snd_last := x_snd_last\<rparr>) = rto_ok t"
  "rto_ok (t\<lparr>snd_old_ack := x_snd_old_ack\<rparr>) = rto_ok t"
  "rto_ok (t\<lparr>snd_retry := x_snd_retry\<rparr>) = rto_ok t"
  "rto_ok (t\<lparr>snd_last_out := x_snd_last_out\<rparr>) = rto_ok t"
  "rto_ok (t\<lparr>avg_rtt := x_avg_rtt\<rparr>) = rto_ok t"
  "rto_ok (t\<lparr>rttvar := x_rttvar\<rparr>) = rto_ok t"
  "rto_ok (t\<lparr>in_flight := x_in_flight\<rparr>) = rto_ok t"
  "rto_ok (t\<lparr>retrans_tmr := x_retrans_tmr\<rparr>) = rto_ok t"
  "rto_ok (t\<lparr>retrans_tmr_due := x_retrans_tmr_due\<rparr>) = rto_ok t"
  "rto_ok (t\<lparr>cwnd_counter := x_cwnd_counter\<rparr>) = rto_ok t"
  "rto_ok (t\<lparr>cwnd := x_cwnd\<rparr>) = rto_ok t"
  "rto_ok (t\<lparr>ssthresh := x_ssthresh\<rparr>) = rto_ok t"
  "rto_ok (t\<lparr>recv_wnd := x_recv_wnd\<rparr>) = rto_ok t"
  "rto_ok (t\<lparr>recv_wnd_scale := x_recv_wnd_scale\<rparr>) = rto_ok t"
  "rto_ok (t\<lparr>rcv_nxt := x_rcv_nxt\<rparr>) = rto_ok t"
  "rto_ok (t\<lparr>rcv_ackd := x_rcv_ackd\<rparr>) = rto_ok t"
  "rto_ok (t\<lparr>rcv_processed := x_rcv_processed\<rparr>) = rto_ok t"
  "rto_ok (t\<lparr>wnd := x_wnd\<rparr>) = rto_ok t"
  "rto_ok (t\<lparr>wnd_scale := x_wnd_scale\<rparr>) = rto_ok t"
  "rto_ok (t\<lparr>remote_closed := x_remote_closed\<rparr>) = rto_ok t"
  "rto_ok (t\<lparr>ts_nxt := x_ts_nxt\<rparr>) = rto_ok t"
  "rto_ok (t\<lparr>mss := x_mss\<rparr>) = rto_ok t"
  "rto_ok (t\<lparr>sack_ok := x_sack_ok\<rparr>) = rto_ok t"
  "rto_ok (t\<lparr>ts_ok := x_ts_ok\<rparr>) = rto_ok t"
  "rto_ok (t\<lparr>mss_ok := x_mss_ok\<rparr>) = rto_ok t"
  "rto_ok (t\<lparr>sacks := x_sacks\<rparr>) = rto_ok t"
  "rto_ok (t\<lparr>jumbo := x_jumbo\<rparr>) = rto_ok t"
  "rto_ok (t\<lparr>linger_timeout := x_linger_timeout\<rparr>) = rto_ok t"
  "rto_ok (t\<lparr>x_mode := x_x_mode\<rparr>) = rto_ok t"
  "rto_ok (t\<lparr>backoff := x_backoff\<rparr>) = rto_ok t"
  "rto_ok (t\<lparr>localZeroWindow := x_localZeroWindow\<rparr>) = rto_ok t"
  "rto_ok (t\<lparr>keepalive_tmr := x_keepalive_tmr\<rparr>) = rto_ok t"
  "rto_ok (t\<lparr>ack_timestamp := x_ack_timestamp\<rparr>) = rto_ok t"
  "rto_ok (t\<lparr>ka_time := x_ka_time\<rparr>) = rto_ok t"
  "rto_ok (t\<lparr>ka_intvl := x_ka_intvl\<rparr>) = rto_ok t"
  "rto_ok (t\<lparr>ka_probes := x_ka_probes\<rparr>) = rto_ok t"
  "rto_ok (t\<lparr>ka_retries_count := x_ka_retries_count\<rparr>) = rto_ok t"
  "rto_ok (t\<lparr>fin_tmr := x_fin_tmr\<rparr>) = rto_ok t"
  "rto_ok (t\<lparr>store := x_store\<rparr>) = rto_ok t"
  "rto_ok (t\<lparr>next_addr := x_next_addr\<rparr>) = rto_ok t"
  "rto_ok (t\<lparr>discarded := x_discarded\<rparr>) = rto_ok t"
  "rto_ok (t\<lparr>pico_err := x_pico_err\<rparr>) = rto_ok t"
  "rto_ok (t\<lparr>now := x_now\<rparr>) = rto_ok t"
  "rto_ok (t\<lparr>mem_supply := x_mem_supply\<rparr>) = rto_ok t"
  "rto_ok (t\<lparr>queue_supply := x_queue_supply\<rparr>) = rto_ok t"
  "rto_ok (t\<lparr>tmr_supply := x_tmr_supply\<rparr>) = rto_ok t"
  "rto_ok (t\<lparr>rand_supply := x_rand_supply\<rparr>) = rto_ok t"
  "rto_ok (t\<lparr>effects := x_effects\<rparr>) = rto_ok t"
  by (simp_all add: rto_ok_def)

lemma keeps_refl [simp, intro]: "keeps t t" by (simp add: keeps_def)

lemma keeps_trans [trans]: "keeps t u \<Longrightarrow> keeps u v \<Longrightarrow> keeps t v" by (simp add: keeps_def)

lemma keeps_state: "keeps t t' \<Longrightarrow> state t' = state t" by (simp add: keeps_def core_def)

lemmas opt_splits = if_splits option.splits prod.splits tcp_elem.splits

text \<open>How a run of the option monad came to its result.\<close>

lemma case_prod_Some: "(case x of (a, b) \<Rightarrow> g a b) = Some y \<longleftrightarrow> (\<exists>a b. x = (a, b) \<and> g a b = Some y)"
  by (cases x) simp

lemma case_prod_pair: "(case x of (a, b) \<Rightarrow> g a b) = (c, d) \<longleftrightarrow> (\<exists>a b. x = (a, b) \<and> g a b = (c, d))"
  by (cases x) simp

lemma case_option_Some: "(case x of None \<Rightarrow> m | Some a \<Rightarrow> g a) = Some y
    \<longleftrightarrow> (x = None \<and> m = Some y) \<or> (\<exists>a. x = Some a \<and> g a = Some y)"
  by (cases x) simp_all

lemma case_elem_Some: "(case x of Inp a \<Rightarrow> h a | Frm a \<Rightarrow> g a) = Some y
    \<longleftrightarrow> (\<exists>a. x = Inp a \<and> h a = Some y) \<or> (\<exists>a. x = Frm a \<and> g a = Some y)"
  by (cases x) simp_all

lemma if_Some: "(if b then x else z) = Some y \<longleftrightarrow> b \<and> x = Some y \<or> \<not> b \<and> z = Some y"
  by simp

lemma if_pair: "(if b then x else z) = (c, d) \<longleftrightarrow> b \<and> x = (c, d) \<or> \<not> b \<and> z = (c, d)"
  by simp

lemmas run_simps = bind_eq_Some_conv case_prod_Some case_prod_pair case_option_Some case_elem_Some
  if_Some if_pair Let_def

section \<open>Calls to the rest of the stack\<close>

lemma core_calls [simp]:
  "core (tcp_effect t e) = core t"
  "core (sock_wakeup t ev) = core t"
  "core (tcp_frame_discard t p) = core t"
  "core (upd_frame t p g) = core t"
  "core (set_q qq q t) = core t"
  "core (snd (enqueue_tcp_out t f)) = core t"
  by (cases qq; simp add: tcp_effect_def sock_wakeup_def tcp_frame_discard_def upd_frame_def
        enqueue_tcp_out_def split: list.split)+

lemma rto_ok_calls [simp]:
  "rto_ok (tcp_effect t e) = rto_ok t"
  "rto_ok (sock_wakeup t ev) = rto_ok t"
  "rto_ok (tcp_frame_discard t p) = rto_ok t"
  "rto_ok (upd_frame t p g) = rto_ok t"
  "rto_ok (set_q qq q t) = rto_ok t"
  "rto_ok (snd (enqueue_tcp_out t f)) = rto_ok t"
  by (cases qq; simp add: tcp_effect_def sock_wakeup_def tcp_frame_discard_def upd_frame_def
        enqueue_tcp_out_def split: list.split)+

lemma keeps_alloc [keeps_dest]: "tcp_alloc t = (b, t') \<Longrightarrow> keeps t t'"
  by (auto simp: tcp_alloc_def keeps_def split: list.splits)

lemma keeps_enqueue_out [keeps_dest]: "enqueue_tcp_out t f = (b, t') \<Longrightarrow> keeps t t'"
  by (auto simp: enqueue_tcp_out_def keeps_def split: list.splits)

lemma keeps_timer_add [keeps_dest]: "tcp_timer_add t d c = (r, t') \<Longrightarrow> keeps t t'"
  by (auto simp: tcp_timer_add_def keeps_def split: list.splits)

lemma keeps_rand [keeps_dest]: "pico_rand_next t = (r, t') \<Longrightarrow> keeps t t'"
  by (auto simp: pico_rand_next_def keeps_def split: list.splits)

lemma timer_add_update [simp]:
  "core (case tcp_timer_add t d c of (r, u) \<Rightarrow> u\<lparr>retrans_tmr := r\<rparr>) = core t"
  "rto_ok (case tcp_timer_add t d c of (r, u) \<Rightarrow> u\<lparr>retrans_tmr := r\<rparr>) = rto_ok t"
  by (simp_all add: tcp_timer_add_def split: list.split)

section \<open>Queues\<close>

lemma keeps_insert_result:
  assumes "(case r of Ins_NULL \<Rightarrow> Some (a, u) | Ins_EEXIST x \<Rightarrow> Some (b, t) | Ins_LEAF \<Rightarrow> Some (b, v)) = Some (c, t')"
    and "keeps t u" "keeps t v"
  shows "keeps t t'"
  using assms by (cases r) auto

lemma keeps_do_enqueue [keeps_dest]: "do_enqueue_segment t qq e n = Some (r, t') \<Longrightarrow> keeps t t'"
  by (auto simp: do_enqueue_segment_def Let_def bind_eq_Some_conv split: if_splits prod.splits
        dest!: keeps_alloc elim!: keeps_insert_result)
     (simp_all add: keeps_def)

lemma keeps_enqueue [keeps_dest]: "pico_enqueue_segment t qq e = Some (r, t') \<Longrightarrow> keeps t t'"
  by (auto simp: pico_enqueue_segment_def Let_def split: opt_splits dest: keeps_do_enqueue)

lemma keeps_discard_segment [keeps_dest]: "pico_discard_segment t qq e = Some t' \<Longrightarrow> keeps t t'"
  by (auto simp: pico_discard_segment_def Let_def bind_eq_Some_conv keeps_def split: opt_splits)

lemma keeps_release_until_loop: "release_until_loop t qq seq h n = Some y \<Longrightarrow> keeps t (snd y)"
  apply (erule release_until_loop.raw_induct [rotated, where P = "\<lambda>t qq seq h n y. keeps t (snd y)"])
  subgoal premises step for rec
    using step(2) by (auto simp: bind_eq_Some_conv split: if_splits option.splits
        dest!: keeps_discard_segment dest: step(1) intro: keeps_trans)
  done

lemma keeps_release_until [keeps_dest]: "release_until t qq seq = Some (r, t') \<Longrightarrow> keeps t t'"
  by (auto simp: release_until_def bind_eq_Some_conv split: option.splits dest!: keeps_release_until_loop)

lemma keeps_release_all_loop [keeps_dest]: "release_all_loop es t qq seq ts n = Some (r, ts', t') \<Longrightarrow> keeps t t'"
proof (induction es arbitrary: t ts n)
  case (Cons e es)
  then show ?case
    by (force simp: Let_def bind_eq_Some_conv keeps_def split: if_splits dest!: keeps_discard_segment)
qed simp

lemma keeps_release_all [keeps_dest]: "release_all_until t qq seq = Some (r, ts', t') \<Longrightarrow> keeps t t'"
  by (auto simp: release_all_until_def bind_eq_Some_conv dest: keeps_release_all_loop)

lemma keeps_discard_all_loop: "discard_all_loop es t qq = Some t' \<Longrightarrow> keeps t t'"
proof (induction es arbitrary: t)
  case (Cons e es)
  then show ?case
    by (cases e; force simp: bind_eq_Some_conv keeps_def)
qed simp

lemma keeps_discard_all [keeps_dest]: "tcp_discard_all_segments t qq = Some t' \<Longrightarrow> keeps t t'"
  by (auto simp: tcp_discard_all_segments_def bind_eq_Some_conv keeps_def dest!: keeps_discard_all_loop)

section \<open>Received data\<close>

lemma keeps_segment_from_frame [keeps_dest]: "segment_from_frame t p = Some (r, t') \<Longrightarrow> keeps t t'"
  by (auto simp: segment_from_frame_def Let_def bind_eq_Some_conv split: if_splits prod.splits
        dest!: keeps_alloc intro: keeps_trans)

lemma keeps_scroll_rcv_nxt [keeps_dest]: "scroll_rcv_nxt t = Some t' \<Longrightarrow> keeps t t'"
  apply (erule scroll_rcv_nxt.raw_induct [rotated, where P = keeps])
  subgoal premises step for rec t y
    using step(2) by (auto simp: bind_eq_Some_conv keeps_def split: option.splits dest!: step(1))
  done

lemma keeps_data_in_expected [keeps_dest]: "tcp_data_in_expected t p = Some (r, t') \<Longrightarrow> keeps t t'"
  by (auto simp: tcp_data_in_expected_def Let_def bind_eq_Some_conv keeps_def split: if_splits option.splits
        dest!: keeps_segment_from_frame keeps_enqueue keeps_scroll_rcv_nxt)

lemma keeps_add_sack [simp]: "keeps t (add_sack t l r)"
  by (simp add: add_sack_def keeps_def)

lemma keeps_sack_prepare_loop [keeps_dest]: "sack_prepare_loop t pkt l r n = Some t' \<Longrightarrow> keeps t t'"
  apply (erule sack_prepare_loop.raw_induct [rotated, where P = "\<lambda>t pkt l r n y. keeps t y"])
  subgoal premises step for rec
    using step(2)
    by (auto simp: bind_eq_Some_conv Let_def split: if_splits option.splits prod.splits
        dest!: keeps_alloc dest: step(1) intro: keeps_trans [OF _ keeps_trans [OF keeps_add_sack]] keeps_trans [OF _ keeps_add_sack])
  done

lemma keeps_sack_prepare [keeps_dest]: "tcp_sack_prepare t = Some t' \<Longrightarrow> keeps t t'"
  by (auto simp: tcp_sack_prepare_def bind_eq_Some_conv split: if_splits dest: keeps_sack_prepare_loop)

lemma keeps_data_in_high [keeps_dest]: "tcp_data_in_high_segment t p = Some (r, t') \<Longrightarrow> keeps t t'"
  by (auto simp: tcp_data_in_high_segment_def Let_def bind_eq_Some_conv keeps_def split: if_splits option.splits
        dest!: keeps_segment_from_frame keeps_enqueue keeps_sack_prepare)

section \<open>Options\<close>

lemma keeps_add_sack_option [keeps_dest]: "tcp_add_sack_option t m fl i = Some (t', r) \<Longrightarrow> keeps t t'"
  by (auto simp: tcp_add_sack_option_def run_simps keeps_def)

lemma keeps_add_options [keeps_dest]: "tcp_add_options t m fl sz = Some (t', m') \<Longrightarrow> keeps t t'"
  by (auto simp: tcp_add_options_def run_simps dest!: keeps_add_sack_option)

lemma keeps_add_options_frame [keeps_dest]: "tcp_add_options_frame t p = Some t' \<Longrightarrow> keeps t t'"
  by (auto simp: tcp_add_options_frame_def run_simps keeps_def)

lemma keeps_sack_marker: "tcp_sack_marker t p a b n = (c, m, t') \<Longrightarrow> keeps t t'"
  by (auto simp: tcp_sack_marker_def run_simps keeps_def)

lemma keeps_process_sack_loop: "process_sack_loop es t a b n = (m, t') \<Longrightarrow> keeps t t'"
proof (induction es arbitrary: t n)
  case (Cons e es)
  then show ?case
    by (cases e) (auto simp: run_simps dest!: keeps_sack_marker intro: keeps_trans)
qed simp

lemma keeps_process_sack [keeps_dest]: "tcp_process_sack t a b = Some t' \<Longrightarrow> keeps t t'"
  by (auto simp: tcp_process_sack_def run_simps keeps_def dest!: keeps_process_sack_loop)

lemma keeps_rcv_sack_loop: "rcv_sack_loop k t opt i = Some t' \<Longrightarrow> keeps t t'"
proof (induction k arbitrary: t i)
  case (Suc k)
  then show ?case by (auto simp: run_simps dest!: keeps_process_sack intro: keeps_trans)
qed simp

lemma keeps_rcv_sack [keeps_dest]: "tcp_rcv_sack t opt l = Some t' \<Longrightarrow> keeps t t'"
  by (auto simp: tcp_rcv_sack_def run_simps keeps_def dest!: keeps_rcv_sack_loop)

lemma keeps_parse_option_ws: "tcp_parse_option_ws t l opt i = Some (t', j) \<Longrightarrow> keeps t t'"
  by (auto simp: tcp_parse_option_ws_def run_simps keeps_def)

lemma keeps_parse_option_sack_ok: "tcp_parse_option_sack_ok t p l i = Some (t', j) \<Longrightarrow> keeps t t'"
  by (auto simp: tcp_parse_option_sack_ok_def run_simps keeps_def)

lemma keeps_parse_option_mss: "tcp_parse_option_mss t l opt i = Some (t', j) \<Longrightarrow> keeps t t'"
  by (auto simp: tcp_parse_option_mss_def run_simps keeps_def)

lemma keeps_parse_option_timestamp: "tcp_parse_option_timestamp t p l opt i = Some (t', j) \<Longrightarrow> keeps t t'"
  by (auto simp: tcp_parse_option_timestamp_def run_simps keeps_def)

lemma keeps_parse_option [keeps_dest]: "parse_option t p ty l opt i = Some (t', j) \<Longrightarrow> keeps t t'"
  unfolding parse_option_def
  by (auto simp: run_simps
        dest: keeps_parse_option_ws keeps_parse_option_sack_ok
        keeps_parse_option_mss keeps_parse_option_timestamp keeps_rcv_sack)

lemma keeps_parse_options_loop: "parse_options_loop t p opt i = Some t' \<Longrightarrow> keeps t t'"
  apply (erule parse_options_loop.raw_induct [rotated, where P = "\<lambda>t p opt i y. keeps t y"])
  subgoal premises step for rec
    using step(2) by (auto simp: run_simps
        dest!: keeps_parse_option dest: step(1) intro: keeps_trans)
  done

lemma keeps_parse_options [keeps_dest]: "tcp_parse_options t p = Some t' \<Longrightarrow> keeps t t'"
  by (auto simp: tcp_parse_options_def run_simps keeps_def dest!: keeps_parse_options_loop)

section \<open>Control segments\<close>

lemma keeps_check_winupdate: "tcp_set_space_check_winupdate t a b = (u, t') \<Longrightarrow> keeps t t'"
  by (auto simp: tcp_set_space_check_winupdate_def run_simps keeps_def)

lemma keeps_space_step [keeps_dest]: "tcp_space_step t = (u, t') \<Longrightarrow> keeps t t'"
  by (auto simp: tcp_space_step_def run_simps
        dest: keeps_check_winupdate)

lemma keeps_send_empty [keeps_dest]: "tcp_send_empty t fl k = Some t' \<Longrightarrow> keeps t t'"
  apply (erule tcp_send_empty.raw_induct [rotated, where P = "\<lambda>t fl k y. keeps t y"])
  subgoal premises step for rec t fl k y
    using step(2) by (auto simp: run_simps keeps_def dest!: keeps_alloc keeps_space_step keeps_add_options step(1))
  done

lemma keeps_send_ack [keeps_dest]: "tcp_send_ack t = Some t' \<Longrightarrow> keeps t t'"
  by (simp add: tcp_send_ack_def keeps_send_empty)

lemma keeps_send_probe [keeps_dest]: "tcp_send_probe t = Some t' \<Longrightarrow> keeps t t'"
  by (simp add: tcp_send_probe_def keeps_send_empty)

lemma keeps_set_space [keeps_dest]: "tcp_set_space t = Some t' \<Longrightarrow> keeps t t'"
  by (auto simp: tcp_set_space_def run_simps keeps_def
        dest!: keeps_space_step keeps_send_ack)

lemma keeps_make_control [keeps_dest]: "make_control t a b c d = Some (f, t') \<Longrightarrow> keeps t t'"
  by (auto simp: make_control_def run_simps keeps_def dest!: keeps_alloc keeps_set_space keeps_add_options)

lemma keeps_do_send_rst [keeps_dest]: "tcp_do_send_rst t s = Some (r, t') \<Longrightarrow> keeps t t'"
  by (auto simp: tcp_do_send_rst_def run_simps keeps_def dest!: keeps_make_control)

lemma keeps_reply_rst [keeps_dest]: "pico_tcp_reply_rst t p = (r, t') \<Longrightarrow> keeps t t'"
  by (auto simp: pico_tcp_reply_rst_def run_simps keeps_def dest!: keeps_alloc)

lemma keeps_nosync_rst [keeps_dest]: "tcp_nosync_rst t p = Some (r, t') \<Longrightarrow> keeps t t'"
  by (auto simp: tcp_nosync_rst_def run_simps keeps_def dest!: keeps_make_control keeps_reply_rst)

section \<open>Round trips and retransmission\<close>

lemma rto_ok_set [simp]: "rto_ok (rto_set t r)"
  by (auto simp: rto_ok_def rto_set_def PICO_TCP_RTO_MIN_def PICO_TCP_RTO_MAX_def Let_def)

lemma core_rto_set [simp]: "core (rto_set t r) = core t"
  by (simp add: rto_set_def run_simps core_def)

lemma keeps_rtt [simp]: "keeps t (tcp_rtt t r)"
  by (simp add: tcp_rtt_def run_simps keeps_def)

lemma keeps_congestion [simp]: "keeps t (tcp_congestion_control t)"
  by (simp add: tcp_congestion_control_def run_simps keeps_def)

lemma keeps_first_timeout [simp]: "keeps t (tcp_first_timeout t)"
  by (simp add: tcp_first_timeout_def keeps_def)

lemma keeps_add_timer [keeps_dest]: "add_retransmission_timer t n = Some t' \<Longrightarrow> keeps t t'"
  by (auto simp: add_retransmission_timer_def run_simps keeps_def dest!: keeps_timer_add)

lemma keeps_add_header [keeps_dest]: "tcp_add_header t p = Some t' \<Longrightarrow> keeps t t'"
  by (auto simp: tcp_add_header_def run_simps keeps_def dest!: keeps_add_options)

lemma keeps_send_copy [keeps_dest]: "send_copy t p = (r, t') \<Longrightarrow> keeps t t'"
  by (auto simp: send_copy_def run_simps keeps_def
        dest!: keeps_alloc keeps_enqueue_out)

lemma keeps_rto_xmit [keeps_dest]: "tcp_rto_xmit t p = Some (r, t') \<Longrightarrow> keeps t t'"
  by (auto simp: tcp_rto_xmit_def run_simps keeps_def dest!: keeps_send_copy keeps_add_timer)

lemma keeps_zerowindow_probe [keeps_dest]: "tcp_next_zerowindow_probe t = Some t' \<Longrightarrow> keeps t t'"
  by (auto simp: tcp_next_zerowindow_probe_def run_simps keeps_def dest!: keeps_send_probe keeps_add_timer)

lemma keeps_retrans [keeps_dest]: "tcp_retrans t e = Some (r, t') \<Longrightarrow> keeps t t'"
  by (auto simp: tcp_retrans_def run_simps keeps_def dest!: keeps_send_copy keeps_add_timer keeps_add_header)

lemma keeps_send [keeps_dest]: "tcp_send t p = (r, t') \<Longrightarrow> keeps t t'"
  by (auto simp: tcp_send_def tcp_send_try_enqueue_def tcp_send_add_tcpflags_def run_simps keeps_def
        dest!: keeps_send_copy)

lemma keeps_frame_alloc [keeps_dest]: "pico_socket_frame_alloc t n = (p, t') \<Longrightarrow> keeps t t'"
  by (auto simp: pico_socket_frame_alloc_def run_simps keeps_def dest!: keeps_alloc)

lemma keeps_flags_update [simp]: "core (pico_tcp_flags_update t p) = core t" "rto_ok (pico_tcp_flags_update t p) = rto_ok t"
  by (simp_all add: pico_tcp_flags_update_def)

lemma keeps_write_payload [keeps_dest]: "write_payload t p n bs = Some t' \<Longrightarrow> keeps t t'"
  by (auto simp: write_payload_def run_simps keeps_def)

lemma keeps_split_segment [keeps_dest]: "tcp_split_segment t p n = Some (q, t') \<Longrightarrow> keeps t t'"
  by (auto simp: tcp_split_segment_def run_simps keeps_def dest!: keeps_frame_alloc keeps_write_payload
        keeps_discard_segment keeps_enqueue keeps_add_options_frame)

section \<open>Nagle's algorithm and data in\<close>

lemma keeps_hold_copy_loop [keeps_dest]: "hold_copy_loop t new e n = Some t' \<Longrightarrow> keeps t t'"
  apply (erule hold_copy_loop.raw_induct [rotated, where P = "\<lambda>t new e n y. keeps t y"])
  subgoal premises step for rec
    using step(2) by (auto simp: run_simps dest!: keeps_write_payload keeps_discard_segment
        dest: step(1) intro: keeps_trans split: tcp_elem.split_asm)
  done

lemma keeps_hold_segment_make [keeps_dest]: "pico_hold_segment_make t = Some (p, t') \<Longrightarrow> keeps t t'"
  by (auto simp: pico_hold_segment_make_def run_simps keeps_def
        dest!: keeps_frame_alloc keeps_hold_copy_loop keeps_add_options_frame)

lemma keeps_push_enqueue [keeps_dest]: "push_enqueue t p = Some (r, t') \<Longrightarrow> keeps t t'"
  by (auto simp: push_enqueue_def run_simps keeps_def dest!: keeps_enqueue)

lemma keeps_push_nagle_hold [keeps_dest]: "pico_tcp_push_nagle_hold t p = Some (r, t') \<Longrightarrow> keeps t t'"
  by (auto simp: pico_tcp_push_nagle_hold_def run_simps keeps_def dest!: keeps_enqueue keeps_hold_segment_make)

lemma keeps_push [keeps_dest]: "pico_tcp_push t p = Some (r, t') \<Longrightarrow> keeps t t'"
  by (auto simp: pico_tcp_push_def pico_tcp_push_nagle_on_def pico_tcp_push_nagle_enqueue_def run_simps keeps_def
        dest!: keeps_push_enqueue keeps_push_nagle_hold)

lemma keeps_data_in_send_ack [keeps_dest]: "tcp_data_in_send_ack t p = Some t' \<Longrightarrow> keeps t t'"
  by (auto simp: tcp_data_in_send_ack_def run_simps dest!: keeps_send_ack)

lemma keeps_data_in [keeps_dest]: "tcp_data_in t p = Some (r, t') \<Longrightarrow> keeps t t'"
  by (auto simp: tcp_data_in_def run_simps keeps_def
        dest!: keeps_parse_options keeps_data_in_expected keeps_data_in_high keeps_data_in_send_ack)

section \<open>Acknowledgements\<close>

lemma keeps_advance_una [keeps_dest]: "tcp_ack_advance_una t p = Some (n, ts, t') \<Longrightarrow> keeps t t'"
  by (auto simp: tcp_ack_advance_una_def run_simps keeps_def dest!: keeps_release_all)

lemma core_leave_blackout [simp]:
  "core (ack_leave_blackout t a u) = core t" "rto_ok (ack_leave_blackout t a u) = rto_ok t"
  by (simp_all add: ack_leave_blackout_def Let_def)

lemma core_fresh [simp]: "core (ack_fresh t p a ts) = core t" "rto_ok t \<Longrightarrow> rto_ok (ack_fresh t p a ts)"
  using keeps_rtt by (simp_all add: ack_fresh_def Let_def keeps_def)

lemma core_congestion [simp]:
  "core (tcp_congestion_control t) = core t" "rto_ok (tcp_congestion_control t) = rto_ok t"
  by (simp_all add: tcp_congestion_control_def Let_def)

lemma keeps_dupack_count [keeps_dest]: "dupack_count t = Some t' \<Longrightarrow> keeps t t'"
  by (auto simp: dupack_count_def run_simps keeps_def)

lemma keeps_dupack_recover [keeps_dest]: "dupack_recover t = Some t' \<Longrightarrow> keeps t t'"
  unfolding dupack_recover_def run_simps
  by (elim exE conjE disjE) (auto simp: keeps_def dest!: keeps_retrans)

lemma keeps_nagle_loop [keeps_dest]: "ack_nagle_loop t = Some t' \<Longrightarrow> keeps t t'"
  apply (erule ack_nagle_loop.raw_induct [rotated, where P = keeps])
  subgoal premises step for rec
    using step(2) by (auto simp: run_simps dest!: keeps_hold_segment_make keeps_enqueue dest: step(1) intro: keeps_trans)
  done

text \<open>The state that \<open>ack_receive\<close> classifies an acknowledgement in.\<close>

definition ack_pre :: "pico_socket_tcp \<Rightarrow> int \<Rightarrow> u16 \<Rightarrow> tcp_elem option \<Rightarrow> pico_socket_tcp" where
  "ack_pre t p acked una =
     (let t = ack_leave_blackout (t\<lparr>ack_timestamp := now t\<rparr>) acked una
      in if acked = 0 \<and> f_payload_len (store t p) = 0 \<and> in_flight t > 0
         then t\<lparr>in_flight := in_flight t - 1\<rparr> else t)"

lemma keeps_ack_pre: "keeps t (ack_pre t p n u)"
  by (simp add: ack_pre_def Let_def keeps_def)

lemma keeps_ack_receive [keeps_dest]: "ack_receive t p = Some (n, t') \<Longrightarrow> keeps t t'"
proof -
  assume run: "ack_receive t p = Some (n, t')"
  obtain u m ts v una where "tcp_parse_options t p = Some u"
    and "tcp_ack_advance_una (u\<lparr>recv_wnd := short_be (h_rwnd (store u p))\<rparr>) p = Some (m, ts, v)"
    and classify: "(if una = None \<or> of_nat m > (0 :: u16) then Some (ack_fresh (ack_pre v p (of_nat m) una) p (of_nat m) ts)
      else if is_dupack (ack_pre v p (of_nat m) una) p then
        (if x_mode (ack_pre v p (of_nat m) una) < PICO_TCP_RECOVER then dupack_count (ack_pre v p (of_nat m) una)
         else if x_mode (ack_pre v p (of_nat m) una) = PICO_TCP_RECOVER then dupack_recover (ack_pre v p (of_nat m) una)
         else Some (ack_pre v p (of_nat m) una))
      else Some (ack_pre v p (of_nat m) una)) = Some t'"
    using run unfolding ack_receive_def Let_def bind_eq_Some_conv case_prod_Some ack_pre_def
    by (elim exE conjE) (simp only: option.inject prod.inject)
  then have "keeps t v" by (auto simp: keeps_def dest!: keeps_parse_options keeps_advance_una)
  also have "keeps v (ack_pre v p (of_nat m) una)" by (rule keeps_ack_pre)
  also have "keeps (ack_pre v p (of_nat m) una) t'"
    using classify by (auto simp: keeps_def dest!: keeps_dupack_count keeps_dupack_recover split: if_split_asm)
  finally show ?thesis .
qed

end
