(* ===== verification/Tcp_States.thy ===== *)
theory Tcp_States
  imports Tcp_Inv
begin

text \<open>
  The states a TCP socket moves through.  \<open>tcp_edge\<close> is the state diagram of RFC 793 as the code has
  it: every operation of the modules on a socket goes along its edges, and never changes the
  connection or takes the retransmission timeout out of its bounds.
\<close>

section \<open>The diagram\<close>

text \<open>A socket that was deleted has TCP state 0; any socket can be forced closed.\<close>

inductive tcp_edge :: "u16 \<Rightarrow> u16 \<Rightarrow> bool" where
  active_open: "tcp_edge PICO_SOCKET_STATE_TCP_SYN_SENT PICO_SOCKET_STATE_TCP_ESTABLISHED"
| passive_open: "tcp_edge PICO_SOCKET_STATE_TCP_SYN_RECV PICO_SOCKET_STATE_TCP_ESTABLISHED"
| early_fin: "tcp_edge PICO_SOCKET_STATE_TCP_SYN_RECV PICO_SOCKET_STATE_TCP_CLOSE_WAIT"
| active_close: "tcp_edge PICO_SOCKET_STATE_TCP_ESTABLISHED PICO_SOCKET_STATE_TCP_FIN_WAIT1"
| passive_close: "tcp_edge PICO_SOCKET_STATE_TCP_ESTABLISHED PICO_SOCKET_STATE_TCP_CLOSE_WAIT"
| last_ack: "tcp_edge PICO_SOCKET_STATE_TCP_CLOSE_WAIT PICO_SOCKET_STATE_TCP_LAST_ACK"
| fin_acked: "tcp_edge PICO_SOCKET_STATE_TCP_FIN_WAIT1 PICO_SOCKET_STATE_TCP_FIN_WAIT2"
| simultaneous: "tcp_edge PICO_SOCKET_STATE_TCP_FIN_WAIT1 PICO_SOCKET_STATE_TCP_CLOSING"
| fin_fin: "tcp_edge PICO_SOCKET_STATE_TCP_FIN_WAIT1 PICO_SOCKET_STATE_TCP_TIME_WAIT"
| fin_wait_fin: "tcp_edge PICO_SOCKET_STATE_TCP_FIN_WAIT2 PICO_SOCKET_STATE_TCP_TIME_WAIT"
| closing_acked: "tcp_edge PICO_SOCKET_STATE_TCP_CLOSING PICO_SOCKET_STATE_TCP_TIME_WAIT"
| forced: "tcp_edge s PICO_SOCKET_STATE_TCP_CLOSED"
| deleted: "tcp_edge s 0"

lemmas state_defs = PICO_SOCKET_STATE_TCP_CLOSED_def PICO_SOCKET_STATE_TCP_LISTEN_def
  PICO_SOCKET_STATE_TCP_SYN_SENT_def PICO_SOCKET_STATE_TCP_SYN_RECV_def
  PICO_SOCKET_STATE_TCP_ESTABLISHED_def PICO_SOCKET_STATE_TCP_CLOSE_WAIT_def
  PICO_SOCKET_STATE_TCP_LAST_ACK_def PICO_SOCKET_STATE_TCP_FIN_WAIT1_def
  PICO_SOCKET_STATE_TCP_FIN_WAIT2_def PICO_SOCKET_STATE_TCP_CLOSING_def PICO_SOCKET_STATE_TCP_TIME_WAIT_def

text \<open>What follows each state.\<close>

inductive_cases from_time_wait: "tcp_edge PICO_SOCKET_STATE_TCP_TIME_WAIT s"
inductive_cases from_last_ack: "tcp_edge PICO_SOCKET_STATE_TCP_LAST_ACK s"
inductive_simps to_established: "tcp_edge s PICO_SOCKET_STATE_TCP_ESTABLISHED"
inductive_simps to_listen: "tcp_edge s PICO_SOCKET_STATE_TCP_LISTEN"

section \<open>The state word\<close>

lemma tcp_part: "(s AND 0xFF00 :: u16) = s AND NOT (mask 8)"
  by (rule arg_cong [where f = "\<lambda>x. s AND x"]) (simp add: mask_eq_decr_exp not_eq_complement)

lemma low_part: "(s AND 0x00FF :: u16) = s AND mask 8"
  by (rule arg_cong [where f = "\<lambda>x. s AND x"]) (simp add: mask_eq_decr_exp)

lemma and_or_tcp: "((s AND 0x00FF) OR st) AND 0xFF00 = (st AND 0xFF00 :: u16)"
  unfolding tcp_part low_part by (rule bit_word_eqI) (auto simp: bit_simps)

lemma TCPSTATE_set [simp]: "TCPSTATE (set_tcp_state t st) = st AND 0xFF00"
  by (simp add: set_tcp_state_def PICO_SOCKET_STATE_TCP_def and_or_tcp)

lemma TCPSTATE_or [simp]: "TCPSTATE (or_state t st) = TCPSTATE t OR (st AND 0xFF00)"
  by (simp add: or_state_def PICO_SOCKET_STATE_TCP_def word_ao_dist)

lemma TCPSTATE_closed [simp]: "TCPSTATE (set_closed t) = PICO_SOCKET_STATE_TCP_CLOSED"
proof -
  have "((x AND 0xFF00) OR 0x20) AND 0xFF00 = (x AND 0xFF00 :: u16)" for x
    by (simp add: word_ao_dist word_bw_assocs)
  then show ?thesis
    by (simp add: set_closed_def PICO_SOCKET_STATE_TCP_def PICO_SOCKET_STATE_CLOSED_def and_or_tcp
        PICO_SOCKET_STATE_TCP_CLOSED_def)
qed

section \<open>Moves\<close>

definition conn :: "pico_socket_tcp \<Rightarrow> u16 \<times> u16 \<times> pico_address \<times> pico_address" where
  "conn t = snd (core t)"

definition moves :: "pico_socket_tcp \<Rightarrow> pico_socket_tcp \<Rightarrow> bool" where
  "moves t t' \<longleftrightarrow> tcp_edge\<^sup>*\<^sup>* (TCPSTATE t) (TCPSTATE t') \<and> conn t' = conn t \<and> (rto_ok t \<longrightarrow> rto_ok t')"

text \<open>Only an established or half closed socket changes its state when it is acknowledged.\<close>

definition acks :: "pico_socket_tcp \<Rightarrow> pico_socket_tcp \<Rightarrow> bool" where
  "acks t t' \<longleftrightarrow> moves t t' \<and>
     (TCPSTATE t \<noteq> PICO_SOCKET_STATE_TCP_ESTABLISHED \<and> TCPSTATE t \<noteq> PICO_SOCKET_STATE_TCP_CLOSE_WAIT
      \<longrightarrow> state t' = state t)"

lemma keeps_moves: "keeps t t' \<Longrightarrow> moves t t'"
  by (simp add: keeps_def moves_def conn_def core_def)

lemma keeps_acks: "keeps t t' \<Longrightarrow> acks t t'"
  by (simp add: acks_def keeps_moves keeps_state)

lemma moves_refl [simp, intro]: "moves t t" by (simp add: moves_def)

lemma moves_trans [trans]: "moves t u \<Longrightarrow> moves u v \<Longrightarrow> moves t v"
  by (auto simp: moves_def)

lemma acks_moves: "acks t t' \<Longrightarrow> moves t t'" by (simp add: acks_def)

lemma acks_keeps: "acks t u \<Longrightarrow> keeps u v \<Longrightarrow> acks t v"
  by (auto simp: acks_def keeps_state intro: moves_trans keeps_moves)

lemma keeps_acks_trans: "keeps t u \<Longrightarrow> acks u v \<Longrightarrow> acks t v"
  by (auto simp: acks_def keeps_state intro: moves_trans keeps_moves)

lemma conn_set [simp]: "conn (set_tcp_state t st) = conn t" "conn (or_state t st) = conn t" "conn (set_closed t) = conn t"
  by (simp_all add: conn_def core_def set_tcp_state_def or_state_def set_closed_def)

lemma rto_ok_set_state [simp]: "rto_ok (set_tcp_state t st) = rto_ok t" "rto_ok (or_state t st) = rto_ok t"
    "rto_ok (set_closed t) = rto_ok t"
  by (simp_all add: set_tcp_state_def or_state_def set_closed_def)

lemma moves_edge: "tcp_edge (TCPSTATE t) st \<Longrightarrow> st AND 0xFF00 = st \<Longrightarrow> moves t (set_tcp_state t st)"
  by (auto simp: moves_def)

lemma moves_set_after: "moves t u \<Longrightarrow> tcp_edge (TCPSTATE t) st \<Longrightarrow> st AND 0xFF00 = st \<Longrightarrow> moves t (set_tcp_state u st)"
  by (auto simp: moves_def)

lemma moves_or: "st AND 0xFF00 = 0 \<Longrightarrow> moves t (or_state t st)"
  by (simp add: moves_def)

lemma moves_closed [simp]: "moves t (set_closed t)"
  by (auto simp: moves_def intro: forced)

lemma moves_wakeup: "moves t (sock_wakeup t e)"
  by (simp add: keeps_moves keeps_def)

lemma moves_del: "moves t (pico_socket_del t)"
proof (cases "sockport t")
  case True
  have "TCPSTATE (pico_socket_del t) = 0"
    using True by (simp add: pico_socket_del_def tcp_effect_def PICO_SOCKET_STATE_CLOSED_def PICO_SOCKET_STATE_TCP_def)
  moreover have "conn (pico_socket_del t) = conn t" "rto_ok (pico_socket_del t) = rto_ok t"
    using True by (simp_all add: pico_socket_del_def conn_def core_def tcp_effect_def)
  ultimately show ?thesis by (auto simp: moves_def intro: deleted)
qed (simp add: pico_socket_del_def keeps_moves keeps_def)

lemma moves_close_del: "moves t (pico_socket_del (sock_wakeup (set_closed t) e))"
  by (meson moves_closed moves_del moves_trans moves_wakeup)

lemma moves_deltcb: "tcp_deltcb t = Some t' \<Longrightarrow> moves t t'"
  by (auto simp: tcp_deltcb_def run_simps dest!: keeps_do_send_rst keeps_moves intro: moves_trans moves_close_del)

lemma moves_linger: "tcp_linger t = Some t' \<Longrightarrow> moves t t'"
proof -
  assume run: "tcp_linger t = Some t'"
  define u where "u = tcp_effect t (Timer_cancel (fin_tmr t))"
  obtain r v where v: "tcp_timer_add u (ucast (linger_timeout u)) T_linger = (r, v)" by fastforce
  have "keeps t u" by (simp add: u_def keeps_def)
  moreover have "keeps u (v\<lparr>fin_tmr := r\<rparr>)" using keeps_timer_add [OF v] by (simp add: keeps_def)
  ultimately have "moves t (v\<lparr>fin_tmr := r\<rparr>)" by (meson keeps_moves moves_trans)
  moreover have "moves (v\<lparr>fin_tmr := r\<rparr>) t'"
    using run v by (auto simp: tcp_linger_def u_def [symmetric] run_simps dest: moves_deltcb)
  ultimately show ?thesis by (rule moves_trans)
qed

lemma moves_send_fin: "tcp_send_fin t = Some t' \<Longrightarrow> moves t t'"
proof -
  assume "tcp_send_fin t = Some t'"
  then obtain f u where f: "make_control t PICO_TCP_FIN PICO_TCP_FINACK (long_be (snd_nxt t)) (long_be (rcv_nxt t)) = Some (f, u)"
    and r: "(case f of None \<Rightarrow> Some u
      | Some f \<Rightarrow> (let t = (if linger_timeout u > 0
          then (let t = snd (enqueue_tcp_out u f) in t\<lparr>snd_nxt := snd_nxt t + 1\<rparr>) else u) in tcp_linger t)) = Some t'"
    by (auto simp: tcp_send_fin_def bind_eq_Some_conv)
  have u: "moves t u" by (rule keeps_moves [OF keeps_make_control [OF f]])
  show ?thesis
  proof (cases f)
    case (Some g)
    define v where "v = (if linger_timeout u > 0
      then (let t = snd (enqueue_tcp_out u g) in t\<lparr>snd_nxt := snd_nxt t + 1\<rparr>) else u)"
    have "keeps u v" by (simp add: v_def keeps_def Let_def)
    moreover have "moves v t'" using r Some by (simp add: v_def Let_def moves_linger)
    ultimately show ?thesis using u by (meson keeps_moves moves_trans)
  qed (use r u in simp)
qed

section \<open>Closing and acknowledgements\<close>

lemma acks_local: "checkLocalClosing t = Some (r, t') \<Longrightarrow> acks t t'"
  by (auto simp: checkLocalClosing_def run_simps acks_def dest!: moves_send_fin
        intro!: moves_set_after active_close)
     (simp add: PICO_SOCKET_STATE_TCP_FIN_WAIT1_def)

lemma acks_remote: "checkRemoteClosing t = Some (r, t') \<Longrightarrow> acks t t'"
  by (auto simp: checkRemoteClosing_def run_simps acks_def dest!: moves_send_fin
        intro!: moves_set_after last_ack)
     (simp add: PICO_SOCKET_STATE_TCP_LAST_ACK_def)

lemma local_kept: "checkLocalClosing t = Some (False, t') \<Longrightarrow> t' = t"
  by (auto simp: checkLocalClosing_def run_simps)

lemma acks_closing: "check_closing t = Some t' \<Longrightarrow> acks t t'"
  by (auto simp: check_closing_def run_simps dest: acks_local) (use local_kept acks_remote in fast)

lemma acks_notify: "pico_tcp_notify_closing t = Some t' \<Longrightarrow> acks t t'"
  by (auto simp: pico_tcp_notify_closing_def run_simps keeps_acks dest: acks_closing)

lemma keeps_send_snd [simp]: "core (snd (tcp_send t p)) = core t" "rto_ok t \<Longrightarrow> rto_ok (snd (tcp_send t p))"
  using keeps_send [of t p "fst (tcp_send t p)" "snd (tcp_send t p)"] by (simp_all add: keeps_def)

lemma keeps_output_loop: "output_loop t e una a b l = Some (c, d, l', t') \<Longrightarrow> keeps t t'"
proof -
  have "output_loop t e una a b l = Some y \<Longrightarrow> keeps t (snd (snd (snd y)))" for y
    apply (erule output_loop.raw_induct [rotated, where P = "\<lambda>t e una a b l y. keeps t (snd (snd (snd y)))"])
    subgoal premises step for rec
      using step(2)
      by (auto simp: run_simps keeps_def dest!: keeps_add_timer keeps_add_options_frame keeps_split_segment step(1))
    done
  then show "output_loop t e una a b l = Some (c, d, l', t') \<Longrightarrow> keeps t t'" by fastforce
qed

lemma acks_output: "pico_tcp_output t l = Some (r, t') \<Longrightarrow> acks t t'"
proof -
  assume run: "pico_tcp_output t l = Some (r, t')"
  then obtain una e a b l' u where loop: "output_loop t e una 0 0 l = Some (a, b, l', u)"
    and fin: "(let v = (if a > 0 \<and> b > 0 then rto_set u (rto u) else u)
      in if tq_frames (tcpq_out v) = 0 \<and> state v AND PICO_SOCKET_STATE_SHUT_LOCAL \<noteq> 0
         then check_closing v else Some v) = Some t'"
    unfolding pico_tcp_output_def bind_eq_Some_conv case_prod_Some Let_def by fast
  define v where "v = (if a > 0 \<and> b > 0 then rto_set u (rto u) else u)"
  have "keeps t u" by (rule keeps_output_loop [OF loop])
  also have "keeps u v" by (simp add: v_def keeps_def)
  finally have "keeps t v" .
  moreover have "acks v t'"
    using fin by (auto simp: v_def [symmetric] Let_def keeps_acks dest: acks_closing split: if_split_asm)
  ultimately show ?thesis by (rule keeps_acks_trans)
qed

lemma acks_respond: "ack_respond t p n = Some t' \<Longrightarrow> acks t t'"
proof -
  assume run: "ack_respond t p n = Some t'"
  obtain u v where "(if h_flags (store t p) AND (PICO_TCP_PSH OR PICO_TCP_SYN) = 0 \<and> ACKN (store t p) = snd_nxt t
              \<and> pico_seq_compare (SEQN (store t p)) (rcv_nxt t) < 0
          then tcp_send_ack t else Some t) = Some u"
    and nagle: "(let t = tcp_congestion_control u;
        t = (if n > 0 \<and> tq_size (tcpq_out t) < tq_max_size (tcpq_out t) then sock_wakeup t PICO_SOCK_EV_WR else t)
      in if IS_NAGLE_ENABLED t then ack_nagle_loop t else Some t) = Some v"
    and out: "(if x_mode v = PICO_TCP_LOOKAHEAD \<and> ucast (cwnd v) \<ge> in_flight v \<and> snd_nxt v > snd_last_out v
      then map_option snd (pico_tcp_output v (int (unat (cwnd v)) - sint (in_flight v))) else Some v) = Some t'"
    using run unfolding ack_respond_def bind_eq_Some_conv Let_def by fast
  then have "keeps t u" by (auto split: if_split_asm dest: keeps_send_ack)
  also have "keeps u v"
    using nagle by (auto simp: Let_def keeps_def dest!: keeps_nagle_loop split: if_split_asm)
  finally have "keeps t v" .
  moreover have "acks v t'"
    using out by (auto simp: keeps_acks dest: acks_output split: if_split_asm)
  ultimately show ?thesis by (rule keeps_acks_trans)
qed

lemma acks_ack: "tcp_ack t p = Some (r, t') \<Longrightarrow> acks t t'"
proof -
  assume run: "tcp_ack t p = Some (r, t')"
  show ?thesis
  proof (cases "p = 0 \<or> h_flags (store t p) AND PICO_TCP_ACK = 0")
    case True
    then show ?thesis using run by (auto simp: tcp_ack_def keeps_acks keeps_def split: if_split_asm)
  next
    case False
    then obtain n u v w where "ack_receive t p = Some (n, u)" "ack_respond u p n = Some v"
      and w: "add_retransmission_timer v 0 = Some w" and t': "t' = w\<lparr>snd_old_ack := ACKN (store w p)\<rparr>"
      using run by (auto simp: tcp_ack_def bind_eq_Some_conv)
    have "acks t v" by (rule keeps_acks_trans [OF keeps_ack_receive acks_respond]) fact+
    moreover have "keeps v t'" using keeps_add_timer [OF w] by (simp add: t' keeps_def)
    ultimately show ?thesis by (rule acks_keeps)
  qed
qed

section \<open>Handlers\<close>

lemma ack_same_state:
  assumes "tcp_ack t p = Some (r, t')" "TCPSTATE t \<noteq> PICO_SOCKET_STATE_TCP_ESTABLISHED"
    "TCPSTATE t \<noteq> PICO_SOCKET_STATE_TCP_CLOSE_WAIT"
  shows "TCPSTATE t' = TCPSTATE t"
  using acks_ack [OF assms(1)] assms by (simp add: acks_def)

lemma keeps_synack_reply [keeps_dest]: "tcp_send_synack t = Some (r, t') \<Longrightarrow> keeps t t'"
proof -
  assume run: "tcp_send_synack t = Some (r, t')"
  obtain m u where a: "tcp_alloc t = (m, u)" by fastforce
  show ?thesis
  proof (cases m)
    case False
    then show ?thesis using run keeps_alloc [OF a] by (auto simp: tcp_send_synack_def Let_def a)
  next
    case True
    then show ?thesis
      using run keeps_alloc [OF a]
      by (auto simp: tcp_send_synack_def Let_def a bind_eq_Some_conv keeps_def
          dest!: keeps_set_space keeps_add_options)
  qed
qed

lemma moves_send_rst: "tcp_send_rst t p = Some (r, t') \<Longrightarrow> moves t t'"
proof -
  assume run: "tcp_send_rst t p = Some (r, t')"
  show ?thesis
  proof (cases "TCPSTATE t > PICO_SOCKET_STATE_TCP_SYN_RECV")
    case True
    then show ?thesis using run by (auto simp: tcp_send_rst_def dest: keeps_do_send_rst keeps_moves)
  next
    case False
    then obtain q u where u: "tcp_do_send_rst (set_tcp_state t PICO_SOCKET_STATE_TCP_CLOSED)
        (long_be (snd_nxt (set_tcp_state t PICO_SOCKET_STATE_TCP_CLOSED))) = Some (q, u)"
      and t': "t' = pico_socket_del (sock_wakeup
                (u\<lparr>state := (state u AND 0xFF00) OR PICO_SOCKET_STATE_CLOSED\<rparr>) PICO_SOCK_EV_FIN)"
      using run by (auto simp: tcp_send_rst_def bind_eq_Some_conv Let_def)
    let ?v = "u\<lparr>state := (state u AND 0xFF00) OR PICO_SOCKET_STATE_CLOSED\<rparr>"
    have "moves t (set_tcp_state t PICO_SOCKET_STATE_TCP_CLOSED)"
      by (rule moves_edge [OF forced]) (simp add: PICO_SOCKET_STATE_TCP_CLOSED_def)
    also have "moves \<dots> u" by (rule keeps_moves [OF keeps_do_send_rst [OF u]])
    also have "moves u ?v"
      by (simp add: moves_def conn_def core_def PICO_SOCKET_STATE_TCP_def PICO_SOCKET_STATE_CLOSED_def
          word_ao_dist word_bw_assocs)
    also have "moves ?v t'" unfolding t' by (meson moves_del moves_trans moves_wakeup)
    finally show ?thesis .
  qed
qed

lemma send_rst_same_state:
  "tcp_send_rst t p = Some (r, t') \<Longrightarrow> TCPSTATE t > PICO_SOCKET_STATE_TCP_SYN_RECV \<Longrightarrow> state t' = state t"
  by (auto simp: tcp_send_rst_def dest!: keeps_do_send_rst keeps_state)

lemma moves_force_closed: "moves t (tcp_force_closed t)"
proof -
  have "tcp_force_closed t = pico_socket_del
          (sock_wakeup ((set_closed t)\<lparr>pico_err := PICO_ERR_ECONNRESET\<rparr>) PICO_SOCK_EV_FIN)"
    by (simp add: tcp_force_closed_def PICO_SOCKET_STATE_TCP_CLOSED_def PICO_SOCKET_STATE_TCP_ESTABLISHED_def Let_def)
  moreover have "moves (set_closed t) ((set_closed t)\<lparr>pico_err := PICO_ERR_ECONNRESET\<rparr>)"
    by (rule keeps_moves) (simp add: keeps_def)
  ultimately show ?thesis by (metis moves_closed moves_del moves_trans moves_wakeup)
qed

lemma moves_rst: "tcp_rst t p = Some (r, t') \<Longrightarrow> moves t t'"
  by (auto simp: tcp_rst_def Let_def moves_force_closed split: if_split_asm)

lemma moves_synack:
  assumes run: "tcp_synack t p = Some (r, t')" and st: "TCPSTATE t = PICO_SOCKET_STATE_TCP_SYN_SENT"
  shows "moves t t'"
proof (cases "ACKN (store t p) = 1 + snd_nxt t")
  case False
  then show ?thesis
    using run by (auto simp: tcp_synack_def bind_eq_Some_conv dest!: keeps_nosync_rst keeps_moves split: if_split_asm)
next
  case True
  define u where "u = (let t = (tcp_effect t (Timer_cancel (retrans_tmr t)))\<lparr>retrans_tmr := 0\<rparr>;
      t = t\<lparr>rcv_nxt := long_be (h_seq (store t p))\<rparr> in t\<lparr>rcv_processed := rcv_nxt t + 1\<rparr>)"
  have tu: "keeps t u" by (simp add: u_def Let_def keeps_def)
  obtain q v where ack: "tcp_ack u p = Some (q, v)"
    and fin: "(let t = sock_wakeup (set_tcp_state v PICO_SOCKET_STATE_TCP_ESTABLISHED) PICO_SOCK_EV_CONN;
        t = t\<lparr>ev_pending := ev_pending t OR PICO_SOCK_EV_WR\<rparr>
      in tcp_send_ack (t\<lparr>rcv_nxt := rcv_nxt t + 1, snd_nxt := snd_nxt t + 1\<rparr>)) = Some t'"
    using run True unfolding tcp_synack_def u_def by (auto simp: bind_eq_Some_conv Let_def)
  have "moves t v" by (rule moves_trans [OF keeps_moves [OF tu] acks_moves [OF acks_ack [OF ack]]])
  then have "moves t (set_tcp_state v PICO_SOCKET_STATE_TCP_ESTABLISHED)"
    by (rule moves_set_after) (simp_all add: st active_open, simp add: PICO_SOCKET_STATE_TCP_ESTABLISHED_def)
  moreover have "keeps (set_tcp_state v PICO_SOCKET_STATE_TCP_ESTABLISHED) t'"
    using fin by (auto simp: Let_def keeps_def dest!: keeps_send_ack)
  ultimately show ?thesis by (meson keeps_moves moves_trans)
qed

lemma moves_first_ack:
  assumes run: "tcp_first_ack t p = Some (r, t')" and st: "TCPSTATE t = PICO_SOCKET_STATE_TCP_SYN_RECV"
  shows "moves t t'"
proof (cases "snd_nxt t = ACKN (store t p)")
  case False
  then show ?thesis
    using run by (auto simp: tcp_first_ack_def bind_eq_Some_conv dest!: keeps_nosync_rst keeps_moves split: if_split_asm)
next
  case True
  then obtain q v where ack: "tcp_ack (tcp_set_init_point t) p = Some (q, v)"
    and t': "keeps (set_tcp_state v PICO_SOCKET_STATE_TCP_ESTABLISHED) t'"
    using run by (auto simp: tcp_first_ack_def bind_eq_Some_conv Let_def keeps_def)
  have "keeps t (tcp_set_init_point t)" by (simp add: tcp_set_init_point_def keeps_def)
  then have "moves t v" using ack by (meson acks_ack acks_moves keeps_moves moves_trans)
  then have "moves t (set_tcp_state v PICO_SOCKET_STATE_TCP_ESTABLISHED)"
    by (rule moves_set_after) (simp_all add: st passive_open, simp add: PICO_SOCKET_STATE_TCP_ESTABLISHED_def)
  then show ?thesis using t' by (meson keeps_moves moves_trans)
qed

lemma moves_synrecv_syn: "tcp_synrecv_syn t p = Some (r, t') \<Longrightarrow> moves t t'"
proof -
  assume run: "tcp_synrecv_syn t p = Some (r, t')"
  have "keeps t (t\<lparr>snd_nxt := snd_nxt t - 1\<rparr>)" by (simp add: keeps_def)
  then show ?thesis
    using run unfolding tcp_synrecv_syn_def
    by (auto simp: bind_eq_Some_conv split: if_split_asm dest: moves_send_rst)
       (meson keeps_moves keeps_synack_reply keeps_trans)
qed

lemma moves_finwaitack:
  assumes run: "tcp_finwaitack t p = Some (r, t')" and st: "TCPSTATE t = PICO_SOCKET_STATE_TCP_FIN_WAIT1"
  shows "moves t t'"
proof -
  obtain q u where ack: "tcp_ack t p = Some (q, u)" using run by (auto simp: tcp_finwaitack_def bind_eq_Some_conv)
  have "moves t u" by (rule acks_moves [OF acks_ack [OF ack]])
  moreover from this have "moves t (set_tcp_state u PICO_SOCKET_STATE_TCP_FIN_WAIT2)"
    by (rule moves_set_after) (simp_all add: st fin_acked, simp add: PICO_SOCKET_STATE_TCP_FIN_WAIT2_def)
  ultimately show ?thesis using run by (simp add: tcp_finwaitack_def ack split: if_split_asm)
qed

lemma moves_time_wait:
  assumes "moves t u" and "tcp_edge (TCPSTATE t) PICO_SOCKET_STATE_TCP_TIME_WAIT"
  shows "moves t (set_tcp_state u PICO_SOCKET_STATE_TCP_TIME_WAIT)"
    and "moves t (or_state (set_tcp_state u PICO_SOCKET_STATE_TCP_TIME_WAIT) PICO_SOCKET_STATE_SHUT_REMOTE)"
proof -
  show *: "moves t (set_tcp_state u PICO_SOCKET_STATE_TCP_TIME_WAIT)"
    using assms by (rule moves_set_after) (simp add: PICO_SOCKET_STATE_TCP_TIME_WAIT_def)
  have "moves x (or_state x PICO_SOCKET_STATE_SHUT_REMOTE)" for x
    by (rule moves_or) (simp add: PICO_SOCKET_STATE_SHUT_REMOTE_def)
  with * show "moves t (or_state (set_tcp_state u PICO_SOCKET_STATE_TCP_TIME_WAIT) PICO_SOCKET_STATE_SHUT_REMOTE)"
    by (rule moves_trans)
qed

lemma moves_finwaitfin:
  assumes run: "tcp_finwaitfin t p = Some (r, t')" and st: "TCPSTATE t = PICO_SOCKET_STATE_TCP_FIN_WAIT2"
  shows "moves t t'"
proof -
  define u where "u = or_state (set_tcp_state (t\<lparr>rcv_nxt := long_be (h_seq (store t p)) + 1\<rparr>)
      PICO_SOCKET_STATE_TCP_TIME_WAIT) PICO_SOCKET_STATE_SHUT_REMOTE"
  have "moves t (t\<lparr>rcv_nxt := long_be (h_seq (store t p)) + 1\<rparr>)" by (rule keeps_moves) (simp add: keeps_def)
  then have tu: "moves t u" unfolding u_def by (rule moves_time_wait) (simp add: st fin_wait_fin)
  obtain v w where "(let t = sock_wakeup u PICO_SOCK_EV_CLOSE in
        if f_payload_len (store t p) > 0 then map_option snd (tcp_data_in t p) else Some t) = Some v"
    and "tcp_send_ack v = Some w" and w: "tcp_linger w = Some t'"
    using run unfolding tcp_finwaitfin_def u_def by (auto simp: bind_eq_Some_conv Let_def)
  then have "keeps u w" by (auto simp: Let_def keeps_def dest!: keeps_data_in keeps_send_ack split: if_split_asm)
  then show ?thesis using tu w by (meson keeps_moves moves_linger moves_trans)
qed

lemma moves_closing_ack:
  assumes run: "tcp_closing_ack t p = Some (r, t')" and st: "TCPSTATE t = PICO_SOCKET_STATE_TCP_CLOSING"
  shows "moves t t'"
proof -
  obtain q u where ack: "tcp_ack t p = Some (q, u)" using run by (auto simp: tcp_closing_ack_def bind_eq_Some_conv)
  have u: "moves t u" by (rule acks_moves [OF acks_ack [OF ack]])
  have "moves t (set_tcp_state u PICO_SOCKET_STATE_TCP_TIME_WAIT)"
    by (rule moves_time_wait [OF u]) (simp add: st closing_acked)
  then show ?thesis
    using run u by (auto simp: tcp_closing_ack_def ack bind_eq_Some_conv dest!: moves_linger
        intro: moves_trans split: if_split_asm)
qed

lemma moves_lastackwait: "tcp_lastackwait t p = Some (r, t') \<Longrightarrow> moves t t'"
  by (auto simp: tcp_lastackwait_def moves_close_del)

lemma moves_rcvfin:
  assumes run: "tcp_rcvfin t p = Some (r, t')" and st: "TCPSTATE t = PICO_SOCKET_STATE_TCP_FIN_WAIT1"
  shows "moves t t'"
proof -
  have "moves t (set_tcp_state t PICO_SOCKET_STATE_TCP_CLOSING)"
    by (rule moves_edge) (simp_all add: st simultaneous, simp add: PICO_SOCKET_STATE_TCP_CLOSING_def)
  moreover have "keeps (set_tcp_state t PICO_SOCKET_STATE_TCP_CLOSING) t'"
    using run by (auto simp: tcp_rcvfin_def Let_def bind_eq_Some_conv keeps_def dest!: keeps_send_ack)
  ultimately show ?thesis by (meson keeps_moves moves_trans)
qed

lemma moves_finack:
  assumes run: "tcp_finack t p = Some (r, t')"
    and st: "TCPSTATE t = PICO_SOCKET_STATE_TCP_FIN_WAIT1 \<or> TCPSTATE t = PICO_SOCKET_STATE_TCP_FIN_WAIT2"
  shows "moves t t'"
proof -
  obtain u where u: "tcp_send_ack (t\<lparr>rcv_nxt := rcv_nxt t + 1\<rparr>) = Some u"
    and w: "tcp_linger (or_state (set_tcp_state (sock_wakeup u PICO_SOCK_EV_FIN)
              PICO_SOCKET_STATE_TCP_TIME_WAIT) PICO_SOCKET_STATE_SHUT_REMOTE) = Some t'"
    using run by (auto simp: tcp_finack_def bind_eq_Some_conv Let_def)
  have "keeps t (sock_wakeup u PICO_SOCK_EV_FIN)" using keeps_send_ack [OF u] by (simp add: keeps_def)
  then have "moves t (or_state (set_tcp_state (sock_wakeup u PICO_SOCK_EV_FIN)
      PICO_SOCKET_STATE_TCP_TIME_WAIT) PICO_SOCKET_STATE_SHUT_REMOTE)"
    by (intro moves_time_wait keeps_moves) (use st fin_fin fin_wait_fin in auto)
  then show ?thesis using w by (meson moves_linger moves_trans)
qed

lemma moves_attempt_closewait: "moves t (tcp_attempt_closewait t p)"
proof -
  define u where "u = t\<lparr>rcv_nxt := long_be (h_seq (store t p)) + 1\<rparr>"
  define v where "v = (if TCPSTATE u = PICO_SOCKET_STATE_TCP_ESTABLISHED
     then set_tcp_state u PICO_SOCKET_STATE_TCP_CLOSE_WAIT else u)"
  have "keeps t u" by (simp add: u_def keeps_def)
  moreover have "moves u v"
    unfolding v_def using passive_close
    by (auto intro!: moves_edge) (simp add: PICO_SOCKET_STATE_TCP_CLOSE_WAIT_def)
  moreover have "moves v (or_state v PICO_SOCKET_STATE_SHUT_REMOTE)"
    by (rule moves_or) (simp add: PICO_SOCKET_STATE_SHUT_REMOTE_def)
  ultimately have "moves t (sock_wakeup (or_state v PICO_SOCKET_STATE_SHUT_REMOTE) PICO_SOCK_EV_CLOSE)"
    by (meson keeps_moves moves_trans moves_wakeup)
  moreover have "moves t (u\<lparr>remote_closed := 1\<rparr>)" by (rule keeps_moves) (simp add: u_def keeps_def)
  ultimately show ?thesis
    by (simp add: tcp_attempt_closewait_def Let_def u_def [symmetric] v_def [symmetric])
qed

lemma moves_closewait: "tcp_closewait t p = Some (r, t') \<Longrightarrow> moves t t'"
proof -
  assume run: "tcp_closewait t p = Some (r, t')"
  then obtain u v where u: "(if f_payload_len (store t p) > 0 then map_option snd (tcp_data_in t p) else Some t) = Some u"
    and v: "(if h_flags (store u p) AND PICO_TCP_ACK \<noteq> 0 then map_option snd (tcp_ack u p) else Some u) = Some v"
    and w: "(let t = tcp_attempt_closewait v p in
        if TCPSTATE t = PICO_SOCKET_STATE_TCP_CLOSE_WAIT \<or> TCPSTATE t = PICO_SOCKET_STATE_TCP_ESTABLISHED
        then tcp_send_ack t else Some t) = Some t'"
    unfolding tcp_closewait_def bind_eq_Some_conv Let_def by fast
  have "moves t u" using u by (auto dest: keeps_data_in keeps_moves split: if_split_asm)
  also have "moves u v" using v by (auto dest: acks_ack acks_moves split: if_split_asm)
  also have "moves v (tcp_attempt_closewait v p)" by (rule moves_attempt_closewait)
  also have "moves (tcp_attempt_closewait v p) t'" using w by (auto simp: Let_def dest: keeps_send_ack keeps_moves split: if_split_asm)
  finally show ?thesis .
qed

section \<open>Closing a socket\<close>

lemma keeps_cleanup [keeps_dest]: "pico_tcp_cleanup_queues t = Some t' \<Longrightarrow> keeps t t'"
  by (auto simp: pico_tcp_cleanup_queues_def bind_eq_Some_conv Let_def keeps_def dest!: keeps_discard_all)

lemma moves_alter:
  assumes "st AND 0xFF00 = 0" "st AND PICO_SOCKET_STATE_BOUND = 0"
  shows "moves t (snd (pico_socket_alter_state t st 0 0))"
proof (cases "sockport t")
  case True
  then have "snd (pico_socket_alter_state t st 0 0) = or_state t st"
    using assms(2) by (simp add: pico_socket_alter_state_def pico_socket_update_tcp_state_def or_state_def)
  then show ?thesis using moves_or [OF assms(1)] by simp
qed (use assms in \<open>simp add: pico_socket_alter_state_def keeps_moves keeps_def\<close>)

lemma moves_shut:
  "moves t (snd (pico_socket_alter_state t (PICO_SOCKET_STATE_SHUT_LOCAL OR PICO_SOCKET_STATE_SHUT_REMOTE) 0 0))"
  "moves t (snd (pico_socket_alter_state t PICO_SOCKET_STATE_SHUT_LOCAL 0 0))"
  "moves t (snd (pico_socket_alter_state t PICO_SOCKET_STATE_SHUT_REMOTE 0 0))"
  by (rule moves_alter; simp add: PICO_SOCKET_STATE_SHUT_LOCAL_def PICO_SOCKET_STATE_SHUT_REMOTE_def
      PICO_SOCKET_STATE_BOUND_def)+

lemma moves_notify: "pico_tcp_notify_closing u = Some t' \<Longrightarrow> moves t u \<Longrightarrow> moves t t'"
  by (meson acks_moves acks_notify moves_trans)

lemma moves_shutdown: "pico_socket_shutdown t mode = Some (r, t') \<Longrightarrow> moves t t'"
  by (auto simp: pico_socket_shutdown_def bind_eq_Some_conv Let_def moves_shut keeps_moves keeps_def split: if_split_asm dest!: keeps_cleanup
      elim!: moves_notify)

lemma moves_close: "pico_socket_close t = Some (r, t') \<Longrightarrow> moves t t'"
  by (auto simp: pico_socket_close_def pico_tcp_check_listen_close_def moves_del dest: moves_shutdown split: if_split_asm)

lemma moves_closeconn:
  assumes run: "tcp_closeconn t p = Some (r, t')" and st: "TCPSTATE t = PICO_SOCKET_STATE_TCP_SYN_RECV"
  shows "moves t t'"
proof (cases "pico_seq_compare (SEQN (store t p)) (rcv_nxt t) = 0")
  case True
  define u where "u = t\<lparr>rcv_nxt := long_be (h_seq (store t p)) + 1\<rparr>"
  have "keeps t u" by (simp add: u_def keeps_def)
  moreover from this have "TCPSTATE u = TCPSTATE t" by (simp add: keeps_state)
  then have "moves u (set_tcp_state u PICO_SOCKET_STATE_TCP_CLOSE_WAIT)"
    by (intro moves_edge) (simp_all add: st early_fin, simp add: PICO_SOCKET_STATE_TCP_CLOSE_WAIT_def)
  moreover have "moves x (or_state x PICO_SOCKET_STATE_SHUT_LOCAL)" for x
    by (rule moves_or) (simp add: PICO_SOCKET_STATE_SHUT_LOCAL_def)
  ultimately have "moves t (or_state (set_tcp_state u PICO_SOCKET_STATE_TCP_CLOSE_WAIT) PICO_SOCKET_STATE_SHUT_LOCAL)"
    by (meson keeps_moves moves_trans)
  moreover obtain q where "pico_socket_close (or_state (set_tcp_state u PICO_SOCKET_STATE_TCP_CLOSE_WAIT)
      PICO_SOCKET_STATE_SHUT_LOCAL) = Some (q, t')"
    using run True by (auto simp: tcp_closeconn_def bind_eq_Some_conv Let_def u_def)
  ultimately show ?thesis by (meson moves_close moves_trans)
qed (use run in \<open>auto simp: tcp_closeconn_def Let_def\<close>)

section \<open>Passive opening\<close>

lemma share_env_keeps [simp]: "core (share_env t u) = core t" "rto_ok (share_env t u) = rto_ok t"
  by (simp_all add: share_env_def core_def rto_ok_def)

lemma keeps_clone: "pico_socket_clone t = Some (s, t') \<Longrightarrow> keeps t t'"
  by (auto simp: pico_socket_clone_def bind_eq_Some_conv Let_def keeps_def split: if_split_asm)

lemma moves_syn: "tcp_syn t p = Some (r, s, t') \<Longrightarrow> moves t t'"
proof -
  assume run: "tcp_syn t p = Some (r, s, t')"
  show ?thesis
  proof (cases "number_of_pending_conn t \<ge> max_backlog t")
    case True
    then show ?thesis using run by (auto simp: tcp_syn_def)
  next
    case False
    then obtain c u where c: "pico_socket_clone t = Some (c, u)" and "keeps u t'"
      using run by (auto simp: tcp_syn_def bind_eq_Some_conv keeps_def split: option.split_asm)
    then show ?thesis using keeps_clone [OF c] by (meson keeps_moves moves_trans)
  qed
qed

section \<open>The table\<close>

text \<open>The states whose row of the table points to a handler.\<close>

fun allowed :: "tcp_call \<Rightarrow> u16 \<Rightarrow> bool" where
  "allowed Call_synack st = (st = PICO_SOCKET_STATE_TCP_SYN_SENT)"
| "allowed Call_first_ack st = (st = PICO_SOCKET_STATE_TCP_SYN_RECV)"
| "allowed Call_closeconn st = (st = PICO_SOCKET_STATE_TCP_SYN_RECV)"
| "allowed Call_finwaitack st = (st = PICO_SOCKET_STATE_TCP_FIN_WAIT1)"
| "allowed Call_rcvfin st = (st = PICO_SOCKET_STATE_TCP_FIN_WAIT1)"
| "allowed Call_finack st = (st = PICO_SOCKET_STATE_TCP_FIN_WAIT1 \<or> st = PICO_SOCKET_STATE_TCP_FIN_WAIT2)"
| "allowed Call_finwaitfin st = (st = PICO_SOCKET_STATE_TCP_FIN_WAIT2)"
| "allowed Call_closing_ack st = (st = PICO_SOCKET_STATE_TCP_CLOSING)"
| "allowed _ st = True"

lemma moves_simple: "call_simple call t p = Some (r, t') \<Longrightarrow> allowed call (TCPSTATE t) \<Longrightarrow> moves t t'"
proof (cases call)
  case Call_halfopencon
  then show "call_simple call t p = Some (r, t') \<Longrightarrow> moves t t'"
    by (auto simp: tcp_halfopencon_def bind_eq_Some_conv dest: keeps_send_ack keeps_moves)
qed (auto dest: moves_synack acks_ack acks_moves moves_synrecv_syn moves_first_ack keeps_data_in keeps_moves
      moves_closeconn moves_rst moves_closewait moves_send_rst moves_lastackwait moves_finwaitack
      moves_rcvfin moves_finack moves_finwaitfin moves_closing_ack)

lemma moves_call: "tcp_action_call call t p = Some (t', ss) \<Longrightarrow> allowed call (TCPSTATE t) \<Longrightarrow> moves t t'"
  by (auto simp: tcp_action_call_def bind_eq_Some_conv dest: moves_syn moves_simple split: if_split_asm)

lemma moves_call_if: "call_if b call p (t, ss) = Some (t', ss') \<Longrightarrow> b \<longrightarrow> allowed call (TCPSTATE t) \<Longrightarrow> moves t t'"
  by (auto simp: call_if_def bind_eq_Some_conv dest: moves_call split: if_split_asm)

text \<open>A row with its handlers in their states.  Data never changes a state in which a FIN has a
  handler.\<close>

definition row_ok :: "tcp_action_entry \<Rightarrow> bool" where
  "row_ok a \<longleftrightarrow> allowed (on_syn a) (tcpstate a) \<and> allowed (on_synack a) (tcpstate a) \<and> allowed (on_ack a) (tcpstate a)
     \<and> allowed (on_fin a) (tcpstate a) \<and> allowed (on_finack a) (tcpstate a)
     \<and> (on_data a = No_call \<or> on_data a = Call_data_in
        \<or> on_data a = Call_send_rst \<and> tcpstate a > PICO_SOCKET_STATE_TCP_SYN_RECV)
     \<and> (on_rst a = No_call \<or> on_rst a = Call_rst)"

lemma rows_ok: "a \<in> set tcp_fsm \<Longrightarrow> row_ok a"
  by (auto simp: tcp_fsm_def row_ok_def state_defs)

lemma data_same_state:
  assumes "row_ok a" "call_if b (on_data a) p (t, ss) = Some (t', ss')" "TCPSTATE t = tcpstate a"
  shows "TCPSTATE t' = TCPSTATE t"
  using assms
  by (auto simp: row_ok_def call_if_def tcp_action_call_def bind_eq_Some_conv split: if_split_asm
      dest!: keeps_data_in keeps_state send_rst_same_state)

lemma moves_by_flags:
  assumes run: "tcp_action_by_flags a t p flags = Some (r, t', ss)" and row: "row_ok a" and st: "TCPSTATE t = tcpstate a"
  shows "moves t t'"
proof -
  obtain t1 s1 d t2 s2 t3 s3 t4 s4 where
    a: "call_if (flags = PICO_TCP_ACK \<or> flags = PICO_TCP_PSHACK) (on_ack a) p (t, []) = Some (t1, s1)" and
    d: "call_if d (on_data a) p (t1, s1) = Some (t2, s2)" and
    f: "call_if (flags = PICO_TCP_FIN) (on_fin a) p (t2, s2) = Some (t3, s3)" and
    fa: "call_if (flags = PICO_TCP_FINACK \<or> flags = PICO_TCP_FINPSHACK) (on_finack a) p (t3, s3) = Some (t4, s4)" and
    r: "call_if (flags AND PICO_TCP_RST \<noteq> 0) (on_rst a) p (t4, s4) = Some (t', ss)"
    using run unfolding tcp_action_by_flags_def by (auto simp: bind_eq_Some_conv Let_def)
  have flags: "PICO_TCP_FIN \<noteq> PICO_TCP_ACK" "PICO_TCP_FIN \<noteq> PICO_TCP_PSHACK" "PICO_TCP_FINACK \<noteq> PICO_TCP_ACK"
    "PICO_TCP_FINACK \<noteq> PICO_TCP_PSHACK" "PICO_TCP_FINPSHACK \<noteq> PICO_TCP_ACK" "PICO_TCP_FINPSHACK \<noteq> PICO_TCP_PSHACK"
    "PICO_TCP_FINACK \<noteq> PICO_TCP_FIN" "PICO_TCP_FINPSHACK \<noteq> PICO_TCP_FIN"
    by (simp_all add: PICO_TCP_FIN_def PICO_TCP_ACK_def PICO_TCP_PSHACK_def PICO_TCP_FINACK_def
        PICO_TCP_FINPSHACK_def PICO_TCP_PSH_def)
  have "moves t t1" using a row st by (intro moves_call_if [OF a]) (simp add: row_ok_def)
  also have "moves t1 t2" using row by (intro moves_call_if [OF d]) (auto simp: row_ok_def)
  also have "moves t2 t3"
  proof (rule moves_call_if [OF f], rule impI)
    assume "flags = PICO_TCP_FIN"
    then have "t1 = t" using a flags by (simp add: call_if_def)
    then show "allowed (on_fin a) (TCPSTATE t2)" using data_same_state [OF row d] st row by (simp add: row_ok_def)
  qed
  also have "moves t3 t4"
  proof (rule moves_call_if [OF fa], rule impI)
    assume "flags = PICO_TCP_FINACK \<or> flags = PICO_TCP_FINPSHACK"
    then have "t1 = t" "t3 = t2" using a f flags by (auto simp: call_if_def)
    then show "allowed (on_finack a) (TCPSTATE t3)" using data_same_state [OF row d] st row by (simp add: row_ok_def)
  qed
  also have "moves t4 t'" using row by (intro moves_call_if [OF r]) (auto simp: row_ok_def)
  finally show ?thesis .
qed

lemma row_state:
  assumes "state_index t < length tcp_fsm"
  shows "tcpstate (tcp_fsm ! state_index t) = TCPSTATE t"
proof -
  have "TCPSTATE t = push_bit 8 (drop_bit 8 (state t))"
    unfolding PICO_SOCKET_STATE_TCP_def tcp_part by (rule bit_word_eqI) (auto simp: bit_simps)
  also have "drop_bit 8 (state t) = of_nat (state_index t)" by (simp add: state_index_def)
  finally have "TCPSTATE t = push_bit 8 (of_nat (state_index t))" .
  moreover have "state_index t \<in> set [0..<12]" using assms by (simp add: tcp_fsm_def)
  ultimately show ?thesis
    by (auto simp: tcp_fsm_def state_defs upt_rec)
qed

end
