(* ===== verification/Tcp_Fsm_Props.thy ===== *)
theory Tcp_Fsm_Props
  imports Tcp_States
begin

text \<open>
  The properties of the TCP state machine: the diagram every segment follows, the invariant of all
  reachable states, what a listening socket creates, and two places where the code leaves the
  diagram of RFC 793.
\<close>

section \<open>Segments follow the diagram\<close>

lemma length_tcp_fsm [simp]: "length tcp_fsm = 12" by (simp add: tcp_fsm_def)

lemma moves_input: "pico_tcp_input t p = Some (r, t', ss) \<Longrightarrow> moves t t'"
proof -
  assume run: "pico_tcp_input t p = Some (r, t', ss)"
  define a where "a = tcp_fsm ! state_index t"
  define u where "u = (upd_frame t p (\<lambda>f. f\<lparr>f_payload := hdr_bytes (h_len f),
      f_payload_len := f_transport_len f - of_nat (hdr_bytes (h_len f))\<rparr>))\<lparr>sock_timestamp := now t\<rparr>"
  have now: "now (upd_frame t p g) = now t" for g by (simp add: upd_frame_def)
  have idx: "state_index t < length tcp_fsm" using run by (auto simp: pico_tcp_input_def Let_def split: if_split_asm)
  have body: "do {
      inv \<leftarrow> invalid_flags u (h_flags (store t p));
      (ret, v, ss) \<leftarrow> (if inv then Some (0, snd (pico_tcp_reply_rst u p), [])
         else if h_flags (store t p) = PICO_TCP_SYN
         then do { (t, ss) \<leftarrow> tcp_action_call (on_syn a) u p; Some (0, t, ss) }
         else if h_flags (store t p) = PICO_TCP_SYNACK
         then do { (t, ss) \<leftarrow> tcp_action_call (on_synack a) u p; Some (0, t, ss) }
         else tcp_action_by_flags a u p (h_flags (store t p)));
      Some (ret, tcp_frame_discard (if ev_pending v \<noteq> 0 then tcp_wakeup_pending v (ev_pending v) else v) p, ss) }
    = Some (r, t', ss)"
    using run idx unfolding pico_tcp_input_def a_def u_def Let_def now by (simp only: not_True_eq_False if_False)
  then obtain inv v where
    v: "(if inv then Some (0, snd (pico_tcp_reply_rst u p), [])
      else if h_flags (store t p) = PICO_TCP_SYN
      then do { (t, ss) \<leftarrow> tcp_action_call (on_syn a) u p; Some (0, t, ss) }
      else if h_flags (store t p) = PICO_TCP_SYNACK
      then do { (t, ss) \<leftarrow> tcp_action_call (on_synack a) u p; Some (0, t, ss) }
      else tcp_action_by_flags a u p (h_flags (store t p))) = Some (r, v, ss)"
    and t': "t' = tcp_frame_discard (if ev_pending v \<noteq> 0 then tcp_wakeup_pending v (ev_pending v) else v) p"
    unfolding bind_eq_Some_conv [where f = "invalid_flags u (h_flags (store t p))"]
    unfolding bind_eq_Some_conv [where g = "\<lambda>(ret, v, ss). Some (ret, tcp_frame_discard (if ev_pending v \<noteq> 0 then tcp_wakeup_pending v (ev_pending v) else v) p, ss)"]
    by (elim exE conjE) (simp only: case_prod_Some option.inject prod.inject, blast)
  have tu: "keeps t u" by (simp add: u_def keeps_def)
  have row: "row_ok a" using idx by (simp add: a_def rows_ok)
  have st: "TCPSTATE u = tcpstate a" using row_state [OF idx] keeps_state [OF tu] by (simp add: a_def)
  have "moves t u" by (rule keeps_moves [OF tu])
  also have "moves u v"
    using v row st
    by (auto simp: bind_eq_Some_conv row_ok_def dest: moves_call split: if_split_asm
        intro: moves_by_flags [OF _ row st] keeps_moves keeps_reply_rst [OF surjective_pairing])
  also have "moves v t'"
    by (rule keeps_moves) (simp add: t' tcp_wakeup_pending_def keeps_def)
  finally show ?thesis .
qed


text \<open>A reset that answers our SYN.\<close>

definition rst_frame :: tcp_frame where
  "rst_frame = zero_tcp_frame\<lparr>h_flags := PICO_TCP_RST, h_ack := long_be 8, h_len := 0x50, f_transport_len := 20\<rparr>"

definition syn_sent_socket :: pico_socket_tcp where
  "syn_sent_socket = zero_socket\<lparr>state := 0x0300, snd_nxt := 7, rto := 70, local_port := 80, store := (\<lambda>_. rst_frame)\<rparr>"


section \<open>Reachable states\<close>

text \<open>What can happen to a socket: a segment, a timer, a call of the application, and a change of
  what the rest of the stack holds (the clock, arrived frames, free memory).\<close>

inductive tcp_step :: "pico_socket_tcp \<Rightarrow> pico_socket_tcp \<Rightarrow> bool" where
  on_input: "pico_tcp_input t p = Some (r, t', ss) \<Longrightarrow> tcp_step t t'"
| on_retrans: "tcp_retrans_timeout t val = Some t' \<Longrightarrow> tcp_step t t'"
| on_keepalive: "pico_tcp_keepalive t val = Some t' \<Longrightarrow> tcp_step t t'"
| on_linger: "tcp_deltcb t = Some t' \<Longrightarrow> tcp_step t t'"
| on_initconn: "initconn_retry t = Some t' \<Longrightarrow> tcp_step t t'"
| on_push: "pico_tcp_push t p = Some (r, t') \<Longrightarrow> tcp_step t t'"
| on_output: "pico_tcp_output t l = Some (r, t') \<Longrightarrow> tcp_step t t'"
| on_read: "pico_socket_tcp_read t n = Some (bs, r, t') \<Longrightarrow> tcp_step t t'"
| on_shutdown: "pico_socket_shutdown t mode = Some (r, t') \<Longrightarrow> tcp_step t t'"
| on_close: "pico_socket_close t = Some (r, t') \<Longrightarrow> tcp_step t t'"
| on_stack: "core t' = core t \<Longrightarrow> rto t' = rto t \<Longrightarrow> tcp_step t t'"

inductive_cases tcp_stepE: "tcp_step t t'"

lemma moves_retrans_queue_loop: "retrans_queue_loop t e = Some (r, t') \<Longrightarrow> keeps t t'"
proof -
  have "retrans_queue_loop t e = Some y \<Longrightarrow> keeps t (snd y)" for y
    apply (erule retrans_queue_loop.raw_induct [rotated, where P = "\<lambda>t e y. keeps t (snd y)"])
    subgoal premises step for rec t e y
    proof (cases "\<exists>p. e = Some (Frm p)")
      case True
      then obtain p where e: "e = Some (Frm p)" by blast
      show ?thesis
      proof (cases "x_mode t = PICO_TCP_WINDOW_FULL")
        case True
        then show ?thesis using step(2) e by (auto simp: bind_eq_Some_conv dest: keeps_zerowindow_probe)
      next
        case False
        define u where "u = (if x_mode t \<noteq> PICO_TCP_BLACKOUT then tcp_first_timeout t else t)"
        obtain v q w where v: "tcp_add_header u p = Some v" and w: "tcp_rto_xmit v p = Some (q, w)"
          and rest: "(if q > 0 then Some (-1, w) else do { nxt \<leftarrow> next_segment w Q_out e; rec w nxt }) = Some y"
          using step(2) e False by (auto simp: bind_eq_Some_conv Let_def u_def)
        have "keeps t u" by (simp add: u_def)
        then have "keeps t w" using v w by (auto simp: keeps_def dest!: keeps_add_header keeps_rto_xmit)
        then show ?thesis
          using rest by (auto simp: bind_eq_Some_conv split: if_split_asm dest: step(1) intro: keeps_trans)
      qed
    next
      case False
      then have "y = (0, if tq_size (tcpq_out t) < tq_max_size (tcpq_out t)
          then t\<lparr>ev_pending := ev_pending t OR PICO_SOCK_EV_WR\<rparr> else t)"
        using step(2) by (auto split: option.split_asm tcp_elem.split_asm)
      then show ?thesis by (simp add: keeps_def)
    qed
    done
  then show "retrans_queue_loop t e = Some (r, t') \<Longrightarrow> keeps t t'" by fastforce
qed

lemma moves_retrans_timeout:
  assumes run: "tcp_retrans_timeout t val = Some t'"
  shows "moves t t'"
proof -
  define u where "u = t\<lparr>retrans_tmr := 0, retrans_tmr_due := 0\<rparr>"
  have tu: "keeps t u" by (simp add: u_def keeps_def)
  consider "keeps t t'"
    | "map_option snd (tcp_retrans_timeout_check_queue u) = Some t'"
    | v where "tcp_discard_all_segments u Q_out = Some v" "t' = pico_socket_del (sock_wakeup v PICO_SOCK_EV_FIN)"
    using run unfolding tcp_retrans_timeout_def
    by (auto simp: Let_def u_def keeps_def bind_eq_Some_conv split: if_split_asm dest!: keeps_add_timer)
  then show ?thesis
  proof cases
    case 2
    then have "keeps u t'"
      by (auto simp: tcp_retrans_timeout_check_queue_def bind_eq_Some_conv dest: moves_retrans_queue_loop)
    then show ?thesis using tu by (meson keeps_moves keeps_trans)
  next
    case 3
    then show ?thesis using tu by (meson keeps_discard_all keeps_moves moves_del moves_trans moves_wakeup)
  qed (rule keeps_moves)
qed

lemma keeps_keepalive:
  assumes run: "pico_tcp_keepalive t val = Some t'"
  shows "keeps t t'"
proof -
  obtain u where u: "(if TCPSTATE t = PICO_SOCKET_STATE_TCP_ESTABLISHED \<and> ka_time t > 0 then
            (if ucast (ka_time t) < val - ack_timestamp t then do {
               t \<leftarrow> (if ka_retries_count t = 0
                    then do { t \<leftarrow> tcp_send_probe t; Some (t\<lparr>ka_retries_count := ka_retries_count t + 1\<rparr>) }
                    else Some t);
               let t = (if ka_retries_count t > ka_probes t \<and> has_wakeup t
                        then sock_wakeup (t\<lparr>pico_err := PICO_ERR_ECONNRESET\<rparr>) PICO_SOCK_EV_ERR else t);
               (if ucast (ka_retries_count t) * ucast (ka_intvl t) + ucast (ka_time t) < val - ack_timestamp t
                then do { t \<leftarrow> tcp_send_probe t; Some (t\<lparr>ka_retries_count := ka_retries_count t + 1\<rparr>) }
                else Some t) }
             else Some (t\<lparr>ka_retries_count := 0\<rparr>))
          else Some t) = Some u"
    and t': "(case tcp_timer_add u 1000 T_keepalive of (r, t) \<Rightarrow>
        (let t = t\<lparr>keepalive_tmr := r\<rparr> in Some (if r = 0 then sock_wakeup t PICO_SOCK_EV_ERR else t))) = Some t'"
    using run unfolding pico_tcp_keepalive_def bind_eq_Some_conv [where x = t'] by blast
  have "keeps t u"
    using u by (auto simp: bind_eq_Some_conv Let_def keeps_def split: if_split_asm dest!: keeps_send_probe)
  also have "keeps u t'"
    using t' by (auto simp: Let_def keeps_def split: prod.split_asm dest!: keeps_timer_add)
  finally show ?thesis .
qed

lemma core_get_mss: "pico_socket_get_mss t = (m, t') \<Longrightarrow> keeps t t'"
  by (auto simp: pico_socket_get_mss_def get_sock_dev_def Let_def keeps_def split: if_split_asm)

lemma keeps_initconn_seq: "keeps t (initconn_seq t)"
  by (auto simp: initconn_seq_def Let_def keeps_def pico_paws_def pico_rand_next_def split: prod.split list.split)

lemma keeps_initconn:
  assumes run: "pico_tcp_initconn t = Some (r, t')"
  shows "keeps t t'"
proof -
  obtain b u where a: "tcp_alloc t = (b, u)" by fastforce
  obtain m w where g: "pico_socket_get_mss (initconn_seq u) = (m, w)" by fastforce
  have uw: "keeps u w" using keeps_initconn_seq core_get_mss [OF g] by (rule keeps_trans)
  show ?thesis
  proof (cases b)
    case False
    then show ?thesis using run keeps_alloc [OF a] by (simp add: pico_tcp_initconn_def a)
  next
    case True
    then have "keeps w t'"
      using run
      by (auto simp: pico_tcp_initconn_def a g Let_def bind_eq_Some_conv case_prod_Some
          keeps_def dest!: keeps_timer_add keeps_set_space keeps_add_options split: if_split_asm)
    then show ?thesis
      using keeps_alloc [OF a] uw by (meson keeps_trans)
  qed
qed

lemma moves_initconn_retry: "initconn_retry t = Some t' \<Longrightarrow> moves t t'"
proof -
  assume run: "initconn_retry t = Some t'"
  have del: "moves t (pico_socket_del (if has_wakeup t
      then sock_wakeup (t\<lparr>pico_err := PICO_ERR_ECONNREFUSED\<rparr>) PICO_SOCK_EV_ERR else t))"
    by (rule moves_trans [OF keeps_moves moves_del]) (simp add: keeps_def)
  have "keeps t (t\<lparr>backoff := backoff t + 1\<rparr>)" by (simp add: keeps_def)
  then show ?thesis
    using run del unfolding initconn_retry_def
    by (auto split: if_split_asm dest!: keeps_initconn intro: keeps_moves keeps_trans)
qed

text \<open>The range of the table of actions.\<close>

lemma edge_range: "tcp_edge s s' \<Longrightarrow> s < 0x0C00 \<Longrightarrow> s' < 0x0C00"
  by (induction rule: tcp_edge.induct) (simp_all add: state_defs)

lemma edges_range: "tcp_edge\<^sup>*\<^sup>* s s' \<Longrightarrow> s < 0x0C00 \<Longrightarrow> s' < 0x0C00"
  by (induction rule: rtranclp_induct) (auto dest: edge_range)

lemma state_index_range: "state_index t < 12 \<longleftrightarrow> TCPSTATE t < 0x0C00"
proof -
  have "TCPSTATE t = push_bit 8 (drop_bit 8 (state t))"
    unfolding PICO_SOCKET_STATE_TCP_def tcp_part by (rule bit_word_eqI) (auto simp: bit_simps)
  moreover have "unat (drop_bit 8 (state t)) * 256 < 2 ^ 16"
  proof -
    have "unat (state t) < 2 ^ 16" using unsigned_less [of "state t"] by simp
    then show ?thesis by (simp add: drop_bit_eq_div unat_div_distrib less_mult_imp_div_less)
  qed
  ultimately have "unat (TCPSTATE t) = state_index t * 256"
    by (simp add: state_index_def push_bit_eq_mult unat_word_ariths mod_less mult.commute)
  then show ?thesis by (simp add: word_less_nat_alt)
qed

lemma moves_range: "moves t t' \<Longrightarrow> state_index t < 12 \<Longrightarrow> state_index t' < 12"
  unfolding state_index_range by (auto simp: moves_def dest: edges_range)

lemma read_loop_keeps: "read_loop t len tot buf = Some (b, n, t') \<Longrightarrow> keeps t t'"
proof -
  have "read_loop t len tot buf = Some y \<Longrightarrow> keeps t (snd (snd y))" for y
    apply (erule read_loop.raw_induct [rotated, where P = "\<lambda>t len tot buf y. keeps t (snd (snd y))"])
    subgoal premises step for rec
      using step(2)
      by (auto simp: run_simps tcp_read_check_segment_done_def keeps_def
          dest!: keeps_release_until keeps_discard_segment step(1) split: if_split_asm)
    done
  then show "read_loop t len tot buf = Some (b, n, t') \<Longrightarrow> keeps t t'" by fastforce
qed

text \<open>After a read the state is as before, or CLOSE_WAIT when the peer's FIN came ahead of the
  reader.\<close>

lemma read_finish_state:
  assumes run: "tcp_read_finish t n = Some (m, t')"
  shows "conn t' = conn t \<and> (rto_ok t \<longrightarrow> rto_ok t')
    \<and> TCPSTATE t' = (if remote_closed t' \<noteq> 0 then PICO_SOCKET_STATE_TCP_CLOSE_WAIT else TCPSTATE t)"
proof -
  obtain u where u: "tcp_set_space t = Some u"
    using run by (auto simp: tcp_read_finish_def bind_eq_Some_conv)
  define v where "v = (if tq_size (tcpq_in u) = 0 then u\<lparr>ev_pending := ev_pending u AND NOT PICO_SOCK_EV_RD\<rparr> else u)"
  have tv: "keeps t v" using keeps_set_space [OF u] by (simp add: v_def keeps_def)
  define w where "w = or_state (set_tcp_state (v\<lparr>ev_pending := ev_pending v OR PICO_SOCK_EV_CLOSE\<rparr>)
      PICO_SOCKET_STATE_TCP_CLOSE_WAIT) PICO_SOCKET_STATE_SHUT_REMOTE"
  have t': "t' = (if remote_closed v \<noteq> 0 then sock_wakeup w PICO_SOCK_EV_CLOSE else v)"
    using run u
    by (cases "tq_size (tcpq_in u) = 0"; cases "remote_closed u = 0")
       (auto simp: tcp_read_finish_def v_def w_def or_state_def set_tcp_state_def)
  have wk: "keeps x (sock_wakeup x e)" for x e by (simp add: keeps_def)
  have rc: "remote_closed (sock_wakeup x e) = remote_closed x" for x e by (simp add: sock_wakeup_def tcp_effect_def)
  have "TCPSTATE w = PICO_SOCKET_STATE_TCP_CLOSE_WAIT"
    by (simp add: w_def PICO_SOCKET_STATE_TCP_CLOSE_WAIT_def PICO_SOCKET_STATE_SHUT_REMOTE_def)
  moreover have "conn w = conn v" "rto_ok w = rto_ok v" "remote_closed w = remote_closed v"
    by (simp_all add: w_def conn_def) (simp_all add: or_state_def set_tcp_state_def core_def)
  ultimately show ?thesis
    using tv wk [of w PICO_SOCK_EV_CLOSE] by (auto simp: t' rc keeps_def conn_def core_def)
qed

lemma read_state:
  assumes "pico_socket_tcp_read t n = Some (bs, r, t')"
  shows "conn t' = conn t \<and> (rto_ok t \<longrightarrow> rto_ok t')
    \<and> (TCPSTATE t' = TCPSTATE t \<or> TCPSTATE t' = PICO_SOCKET_STATE_TCP_CLOSE_WAIT)"
proof -
  have err: "keeps t (t\<lparr>pico_err := PICO_ERR_ESHUTDOWN\<rparr>)" by (simp add: keeps_def)
  show ?thesis
  proof (cases "state t AND PICO_SOCKET_STATE_SHUT_REMOTE \<noteq> 0 \<and> pico_tcp_queue_in_is_empty t")
    case True
    then show ?thesis using assms err by (simp add: pico_socket_tcp_read_def keeps_def conn_def core_def)
  next
    case False
    then obtain b k m u where l: "read_loop t n 0 [] = Some (b, k, u)" and f: "tcp_read_finish u k = Some (m, t')"
      using assms unfolding pico_socket_tcp_read_def pico_tcp_read_def if_not_P [OF False]
      by (auto simp: bind_eq_Some_conv)
    have "keeps t u" using l by (rule read_loop_keeps)
    then have "conn u = conn t" "rto_ok t \<longrightarrow> rto_ok u" "TCPSTATE u = TCPSTATE t"
      by (simp_all add: keeps_state) (simp_all add: keeps_def conn_def)
    then show ?thesis using read_finish_state [OF f] by presburger
  qed
qed

text \<open>The invariant: the state is a row of the table of actions, and the retransmission timeout is in
  its bounds.\<close>

definition sock_inv :: "pico_socket_tcp \<Rightarrow> bool" where
  "sock_inv t \<longleftrightarrow> state_index t < length tcp_fsm \<and> rto_ok t"

lemma moves_inv: "moves t t' \<Longrightarrow> sock_inv t \<Longrightarrow> sock_inv t' \<and> conn t' = conn t"
  by (auto simp: sock_inv_def moves_range) (simp_all add: moves_def)

lemma step_inv:
  assumes "tcp_step t t'" "sock_inv t"
  shows "sock_inv t' \<and> conn t' = conn t"
  using assms(1)
proof cases
  case (on_read n bs r)
  have "state_index t' < 12"
    using read_state [OF on_read] assms(2)
    by (auto simp: sock_inv_def state_index_range PICO_SOCKET_STATE_TCP_CLOSE_WAIT_def)
  then show ?thesis using read_state [OF on_read] assms(2) by (simp add: sock_inv_def)
next
  case on_stack
  then have "keeps t t'" by (simp add: keeps_def rto_ok_def)
  then show ?thesis using assms(2) keeps_moves moves_inv by blast
qed (use assms(2) in \<open>meson moves_inv moves_input moves_retrans_timeout keeps_keepalive keeps_moves moves_deltcb
      moves_initconn_retry keeps_push acks_output acks_moves moves_shutdown moves_close\<close>)+

text \<open>C4: In every state a socket can reach by segments, timers, calls of the application and changes
  in the rest of the stack, its state indexes a row of the tables of actions and of valid flags, the
  retransmission timeout is between 70 and 120000 and the connection is the one it started with.
  So the lookup of \<open>pico_tcp_input\<close> never reads outside of the tables.\<close>

theorem tcp_reachable_invariant:
  assumes "tcp_step\<^sup>*\<^sup>* t t'" and "state_index t < length tcp_fsm" and "rto_ok t"
  shows "state_index t' < length tcp_fsm \<and> rto_ok t' \<and> conn t' = conn t \<and> invalid_flags t' fl \<noteq> None"
proof -
  have "sock_inv t' \<and> conn t' = conn t"
    using assms(1)
  proof (induction rule: rtranclp_induct)
    case (step u v)
    then show ?case using step_inv by fastforce
  qed (use assms in \<open>simp add: sock_inv_def\<close>)
  then show ?thesis
    by (auto simp: sock_inv_def invalid_flags_def PICO_SOCKET_STATE_TCP_ARRAYSIZ_def)
qed

theorem tcp_reachable_invariant_witness:
  "\<exists>t'. tcp_step\<^sup>*\<^sup>* syn_sent_socket t' \<and> TCPSTATE t' = 0 \<and> rto_ok t' \<and> state_index t' < length tcp_fsm"
proof -
  have "map_option (\<lambda>(r, t, ss). TCPSTATE t) (pico_tcp_input syn_sent_socket 1) = Some 0"
    by code_simp
  then obtain r t' ss where run: "pico_tcp_input syn_sent_socket 1 = Some (r, t', ss)" and st: "TCPSTATE t' = 0"
    by auto
  have "tcp_step\<^sup>*\<^sup>* syn_sent_socket t'" by (rule r_into_rtranclp) (rule on_input [OF run])
  moreover have "state_index syn_sent_socket < length tcp_fsm" "rto_ok syn_sent_socket"
    by (simp_all add: state_index_def syn_sent_socket_def tcp_fsm_def rto_ok_def PICO_TCP_RTO_MIN_def
        PICO_TCP_RTO_MAX_def zero_socket_def)
  ultimately show ?thesis using tcp_reachable_invariant [of syn_sent_socket t'] st by blast
qed

section \<open>What a listening socket creates\<close>

text \<open>The window update of a new socket leaves the frames alone.\<close>

lemma store_space_step: "tcp_space_step t = (u, t') \<Longrightarrow> store t' = store t"
  by (auto simp: tcp_space_step_def tcp_set_space_check_winupdate_def run_simps)

lemma store_alloc: "tcp_alloc t = (b, t') \<Longrightarrow> store t' = store t"
  by (auto simp: tcp_alloc_def split: list.split_asm)

lemma store_add_options: "tcp_add_options t m fl n = Some (t', m') \<Longrightarrow> store t' = store t"
  by (auto simp: tcp_add_options_def tcp_add_sack_option_def run_simps)

lemma store_enqueue_out: "store (snd (enqueue_tcp_out t f)) = store t"
  by (simp add: enqueue_tcp_out_def split: list.split)

lemma store_send_empty: "tcp_send_empty t fl k = Some t' \<Longrightarrow> store t' = store t"
  apply (erule tcp_send_empty.raw_induct [rotated, where P = "\<lambda>t fl k y. store y = store t"])
  subgoal premises step for rec t fl k y
    using step(2) by (auto simp: run_simps store_enqueue_out
        dest!: store_alloc store_space_step store_add_options step(1))
  done

lemma store_set_space: "tcp_set_space t = Some t' \<Longrightarrow> store t' = store t"
  by (auto simp: tcp_set_space_def tcp_send_ack_def run_simps dest!: store_space_step store_send_empty)

lemma store_timer_add: "tcp_timer_add t d c = (r, t') \<Longrightarrow> store t' = store t"
  by (auto simp: tcp_timer_add_def split: list.split_asm)

lemma store_get_mss: "pico_socket_get_mss t = (m, t') \<Longrightarrow> store t' = store t"
  by (auto simp: pico_socket_get_mss_def get_sock_dev_def Let_def split: if_split_asm)

lemma store_set_family: "store (snd (pico_socket_set_family t fam)) = store t"
  by (simp add: pico_socket_set_family_def Let_def)

lemma store_rto_set: "store (rto_set t r) = store t"
  by (simp add: rto_set_def Let_def)

lemma store_open: "pico_socket_tcp_open t fam = Some (ok, t') \<Longrightarrow> store t' = store t"
  by (auto simp: pico_socket_tcp_open_def pico_tcp_open_def run_simps store_set_family store_rto_set
      dest!: store_alloc store_set_space store_timer_add store_get_mss)

lemma clone_result:
  assumes "pico_socket_clone t = Some (Some c, u)"
  shows "local_port c = local_port t \<and> store u = store t \<and> number_of_pending_conn u = number_of_pending_conn t
    \<and> max_backlog u = max_backlog t"
proof -
  obtain ok v where "pico_socket_tcp_open (share_env zero_socket t)
      (case local_addr t of Ip4 _ \<Rightarrow> PICO_PROTO_IPV4 | Ip6 _ \<Rightarrow> PICO_PROTO_IPV6) = Some (ok, v)"
    using assms by (auto simp: pico_socket_clone_def bind_eq_Some_conv)
  moreover from store_open [OF this] have "store v = store t" by (simp add: share_env_def)
  ultimately show ?thesis
    using assms by (auto simp: pico_socket_clone_def Let_def share_env_def
        pico_socket_clone_assign_address_def split: if_split_asm)
qed

lemma syn_child_result:
  assumes run: "syn_child t c p = Some s"
  shows "TCPSTATE s = PICO_SOCKET_STATE_TCP_SYN_RECV \<and> rto_ok s
    \<and> conn s = (local_port c, h_sport (store t p), f_dst (store t p), f_src (store t p))"
proof -
  obtain m u where g: "pico_socket_get_mss (c\<lparr>remote_port := h_sport (store t p), remote_addr := f_src (store t p),
      local_addr := f_dst (store t p)\<rparr>) = (m, u)" by fastforce
  have upd: "snd (core (x\<lparr>state := y\<rparr>)) = snd (core x)" for x y by (simp add: core_def)
  have paws: "pico_paws x = (r, y) \<Longrightarrow> snd (core y) = snd (core x)" for x y r
    by (auto simp: pico_paws_def run_simps keeps_def dest!: keeps_rand)
  obtain v where v: "tcp_parse_options (u\<lparr>mss := ucast m - of_nat PICO_SIZE_TCPHDR\<rparr>) p = Some v"
    and s: "conn s = conn v" "state s = PICO_SOCKET_STATE_BOUND OR PICO_SOCKET_STATE_CONNECTED OR PICO_SOCKET_STATE_TCP_SYN_RECV"
    using run unfolding syn_child_def
    by (auto simp: g run_simps conn_def upd dest!: paws)
  have "rto_ok s"
    using run unfolding syn_child_def by (auto simp: run_simps)
  moreover have "conn v = conn (c\<lparr>remote_port := h_sport (store t p), remote_addr := f_src (store t p),
      local_addr := f_dst (store t p)\<rparr>)"
    using core_get_mss [OF g] keeps_parse_options [OF v] by (simp add: keeps_def conn_def)
  ultimately show ?thesis
    using s by (simp add: conn_def core_def PICO_SOCKET_STATE_BOUND_def PICO_SOCKET_STATE_CONNECTED_def
        PICO_SOCKET_STATE_TCP_SYN_RECV_def PICO_SOCKET_STATE_TCP_def)
qed

text \<open>C24: A SYN to a listening socket creates a socket only while there is room in its backlog, which
  it then uses one place of.  The new socket is in SYN_RECV, belongs to the connection from the
  segment's source to its destination and has its retransmission timeout in bounds; the listening
  socket keeps its state.\<close>

theorem tcp_syn_creates_connection:
  assumes "tcp_syn t p = Some (r, Some s, t')"
  shows "number_of_pending_conn t < max_backlog t \<and> number_of_pending_conn t' = number_of_pending_conn t + 1
    \<and> max_backlog t' = max_backlog t \<and> TCPSTATE t' = TCPSTATE t
    \<and> TCPSTATE s = PICO_SOCKET_STATE_TCP_SYN_RECV \<and> rto_ok s
    \<and> conn s = (local_port t, h_sport (store t p), f_dst (store t p), f_src (store t p))"
proof -
  obtain c u d q where room: "\<not> number_of_pending_conn t \<ge> max_backlog t"
    and c: "pico_socket_clone t = Some (Some c, u)" and d: "syn_child u c p = Some d"
    and s: "tcp_send_synack (pico_socket_add d) = Some (q, s)"
    and t': "t' = share_env (u\<lparr>number_of_pending_conn := number_of_pending_conn u + 1\<rparr>) s"
    using assms by (auto simp: tcp_syn_def bind_eq_Some_conv split: if_split_asm option.split_asm)
  have "TCPSTATE (pico_socket_add d) = TCPSTATE d"
    by (simp add: pico_socket_add_def tcp_effect_def PICO_SOCKET_STATE_TCP_def PICO_SOCKET_STATE_BOUND_def
        word_ao_dist)
  moreover have "conn (pico_socket_add d) = conn d" "rto_ok (pico_socket_add d) = rto_ok d"
    by (simp_all add: pico_socket_add_def conn_def core_def tcp_effect_def rto_ok_def)
  moreover have "keeps (pico_socket_add d) s" by (rule keeps_synack_reply [OF s])
  ultimately have "TCPSTATE s = TCPSTATE d \<and> conn s = conn d \<and> (rto_ok d \<longrightarrow> rto_ok s)"
    by (simp add: keeps_state) (simp add: keeps_def conn_def)
  moreover have "state t' = state t"
    using keeps_state [OF keeps_clone [OF c]] by (simp add: t' share_env_def)
  moreover have "number_of_pending_conn t' = number_of_pending_conn t + 1" "max_backlog t' = max_backlog t"
    using clone_result [OF c] by (simp_all add: t' share_env_def)
  ultimately show ?thesis
    using clone_result [OF c] syn_child_result [OF d] room by simp
qed

definition listen_socket :: pico_socket_tcp where
  "listen_socket = zero_socket\<lparr>state := 0x0204, max_backlog := 2, local_port := 80, tmr_supply := [5],
     rand_supply := [77], mem_supply := [True, False], store := (\<lambda>_. zero_tcp_frame\<lparr>h_flags := PICO_TCP_SYN, h_sport := 9, h_len := 0x50,
       f_src := Ip4 1, f_dst := Ip4 2, f_payload := 20, f_transport_len := 20\<rparr>)\<rparr>"

lemma space_of_new_socket:
  assumes "tq_max_size (tcpq_in t) = PICO_DEFAULT_SOCKETQ" "tq_size (tcpq_in t) = 0" "wnd t = 0" "localZeroWindow t = 0"
  shows "tcp_set_space t = Some (t\<lparr>wnd := 0x4000, wnd_scale := 0\<rparr>)"
proof -
  have "shrink_space 16384 0 = (16384, 0)" by (simp add: shrink_space.simps)
  then show ?thesis
    using assms by (simp add: tcp_set_space_def tcp_space_step_def tcp_set_space_check_winupdate_def
        PICO_DEFAULT_SOCKETQ_def Let_def)
qed

lemma listen_clone:
  "\<exists>c u. pico_socket_clone listen_socket = Some (Some c, u) \<and> mem_supply c = [False] \<and> rand_supply c = [77]
     \<and> dev_mtu c = None \<and> dev_find c = (\<lambda>_. None) \<and> store c = store listen_socket
     \<and> number_of_pending_conn u = 0 \<and> tcpq_in c = (zero_queue True)\<lparr>tq_max_size := PICO_DEFAULT_SOCKETQ\<rparr>"
  by (simp add: pico_socket_clone_def pico_socket_tcp_open_def pico_tcp_open_def share_env_def listen_socket_def
      zero_socket_def tcp_alloc_def pico_socket_set_family_def pico_socket_get_mss_def get_sock_dev_def
      PICO_PROTO_IPV4_def PICO_PROTO_IPV6_def rto_set_def tcp_timer_add_def space_of_new_socket zero_queue_def Let_def
      pico_socket_clone_assign_address_def)

lemma listen_parse: "store t 1 = store listen_socket 1 \<Longrightarrow>
    tcp_parse_options t 1 = Some (upd_frame t 1 (\<lambda>fr. fr\<lparr>f_timestamp := 0\<rparr>))"
  by (simp add: tcp_parse_options_def parse_options_loop.simps upd_frame_def listen_socket_def
      zero_tcp_frame_def PICO_SIZE_TCPHDR_def Let_def)

lemma listen_child:
  assumes "mem_supply c = [False]" "rand_supply c = [77]" "dev_mtu c = None" "dev_find c = (\<lambda>_. None)"
    "store c = store listen_socket"
  shows "\<exists>s. syn_child u c 1 = Some s \<and> mem_supply s = [False]"
  using assms
  by (simp add: syn_child_def pico_socket_get_mss_def get_sock_dev_def listen_parse upd_frame_def
      pico_paws_def pico_rand_next_def init_ssthresh_def rto_set_def pico_socket_adapt_mss_to_proto_def
      PICO_MIN_MSS_def PICO_SIZE_TCPHDR_def Let_def split: pico_address.split)

theorem tcp_syn_creates_connection_witness:
  "\<exists>r s t'. tcp_syn listen_socket 1 = Some (r, Some s, t') \<and> number_of_pending_conn t' = 1
     \<and> conn s = (80, 9, Ip4 2, Ip4 1)"
proof -
  obtain c u where c: "pico_socket_clone listen_socket = Some (Some c, u)" "mem_supply c = [False]"
      "rand_supply c = [77]" "dev_mtu c = None" "dev_find c = (\<lambda>_. None)" "store c = store listen_socket"
    using listen_clone by blast
  then obtain d where d: "syn_child u c 1 = Some d" "mem_supply d = [False]" using listen_child by blast
  then have "mem_supply (pico_socket_add d) = [False]" by (simp add: pico_socket_add_def tcp_effect_def)
  then have "\<exists>q s. tcp_send_synack (pico_socket_add d) = Some (q, s)"
    by (simp add: tcp_send_synack_def tcp_alloc_def Let_def)
  then obtain r s t' where run: "tcp_syn listen_socket 1 = Some (r, Some s, t')"
    using c(1) d(1) by (auto simp: tcp_syn_def listen_socket_def zero_socket_def)
  show ?thesis
    using tcp_syn_creates_connection [OF run] run
    by (simp add: listen_socket_def zero_socket_def zero_tcp_frame_def)
qed

section \<open>Where the code leaves the diagram\<close>

lemma not_closing_to_close_wait:
  "\<not> tcp_edge\<^sup>*\<^sup>* PICO_SOCKET_STATE_TCP_FIN_WAIT1 PICO_SOCKET_STATE_TCP_CLOSE_WAIT"
proof
  assume "tcp_edge\<^sup>*\<^sup>* PICO_SOCKET_STATE_TCP_FIN_WAIT1 PICO_SOCKET_STATE_TCP_CLOSE_WAIT"
  moreover have "tcp_edge s s' \<Longrightarrow> s \<in> {0, 0x0100, 0x0800, 0x0900, 0x0a00, 0x0b00} \<Longrightarrow>
      s' \<in> {0, 0x0100, 0x0800, 0x0900, 0x0a00, 0x0b00}" for s s'
    by (induction rule: tcp_edge.induct) (auto simp: state_defs)
  ultimately have "PICO_SOCKET_STATE_TCP_CLOSE_WAIT \<in> {0, 0x0100, 0x0800, 0x0900, 0x0a00, 0x0b00}"
    by (induction rule: rtranclp_induct) (auto simp: PICO_SOCKET_STATE_TCP_FIN_WAIT1_def)
  then show False by (simp add: PICO_SOCKET_STATE_TCP_CLOSE_WAIT_def)
qed

text \<open>C28: the end of a read (\<open>tcp_read_finish\<close>) that leaves \<open>remote_closed\<close> set puts a socket that has closed
  its own side back from FIN_WAIT1 to CLOSE_WAIT, which no run of the state diagram does.\<close>

theorem tcp_read_reopens_fin_wait:
  assumes "tcp_read_finish t n = Some (m, t')" and "TCPSTATE t = PICO_SOCKET_STATE_TCP_FIN_WAIT1"
    and "remote_closed t' \<noteq> 0"
  shows "TCPSTATE t' = PICO_SOCKET_STATE_TCP_CLOSE_WAIT \<and> \<not> tcp_edge\<^sup>*\<^sup>* (TCPSTATE t) (TCPSTATE t')"
  using read_finish_state [OF assms(1)] assms(2,3) not_closing_to_close_wait by simp

definition half_closed_socket :: pico_socket_tcp where
  "half_closed_socket = zero_socket\<lparr>state := 0x080D, remote_closed := 1, wnd := 0x4000,
     tcpq_in := (zero_queue True)\<lparr>tq_max_size := 0x4000\<rparr>\<rparr>"

theorem tcp_read_reopens_fin_wait_witness:
  "\<exists>m t'. tcp_read_finish half_closed_socket 0 = Some (m, t') \<and> TCPSTATE t' = PICO_SOCKET_STATE_TCP_CLOSE_WAIT"
proof -
  have "shrink_space 16384 0 = (16384, 0)" by (simp add: shrink_space.simps)
  then have "tcp_set_space half_closed_socket = Some half_closed_socket"
    by (simp add: tcp_set_space_def tcp_space_step_def tcp_set_space_check_winupdate_def half_closed_socket_def
        zero_queue_def zero_socket_def Let_def)
  then obtain m t' where run: "tcp_read_finish half_closed_socket 0 = Some (m, t')" and "remote_closed t' \<noteq> 0"
    by (auto simp: tcp_read_finish_def half_closed_socket_def sock_wakeup_def zero_socket_def)
  moreover have "TCPSTATE half_closed_socket = PICO_SOCKET_STATE_TCP_FIN_WAIT1"
    by (simp add: half_closed_socket_def zero_socket_def PICO_SOCKET_STATE_TCP_def PICO_SOCKET_STATE_TCP_FIN_WAIT1_def)
  ultimately show ?thesis using tcp_read_reopens_fin_wait [OF run] by blast
qed

text \<open>C29: In FIN_WAIT1 an acknowledgement of everything sent, the FIN included, does not lead to
  FIN_WAIT2: the code compares with the sequence number before, which is that of a segment that
  does not acknowledge the FIN.\<close>

theorem tcp_finwaitack_ignores_ack_of_fin:
  assumes "tcp_finwaitack t p = Some (r, t')" and "TCPSTATE t = PICO_SOCKET_STATE_TCP_FIN_WAIT1"
    and "ACKN (store t' p) = snd_nxt t'"
  shows "TCPSTATE t' = PICO_SOCKET_STATE_TCP_FIN_WAIT1"
proof -
  obtain q u where ack: "tcp_ack t p = Some (q, u)" using assms(1) by (auto simp: tcp_finwaitack_def bind_eq_Some_conv)
  have st: "TCPSTATE u = PICO_SOCKET_STATE_TCP_FIN_WAIT1"
    using ack_same_state [OF ack] assms(2)
    by (simp add: PICO_SOCKET_STATE_TCP_FIN_WAIT1_def PICO_SOCKET_STATE_TCP_ESTABLISHED_def PICO_SOCKET_STATE_TCP_CLOSE_WAIT_def)
  have keep: "store (set_tcp_state u s) = store u" "snd_nxt (set_tcp_state u s) = snd_nxt u" for s
    by (simp_all add: set_tcp_state_def)
  show ?thesis
  proof (cases "ACKN (store u p) = snd_nxt u - 1")
    case True
    then have "t' = set_tcp_state u PICO_SOCKET_STATE_TCP_FIN_WAIT2"
      using assms(1) by (simp add: tcp_finwaitack_def ack)
    then show ?thesis using assms(3) True by (simp add: keep)
  next
    case False
    then show ?thesis using assms(1) st by (simp add: tcp_finwaitack_def ack)
  qed
qed

text \<open>A FIN sent with sequence number 6 and its acknowledgement 7.\<close>

definition fin_wait_socket :: pico_socket_tcp where
  "fin_wait_socket = zero_socket\<lparr>state := 0x080D, snd_nxt := 7, rcv_nxt := 3, cwnd := 2, opt_flags := 1,
     store := (\<lambda>_. zero_tcp_frame\<lparr>h_flags := PICO_TCP_ACK, h_ack := long_be 7, h_seq := long_be 3,
       h_len := 0x50, f_payload := 20, f_transport_len := 20\<rparr>)\<rparr>"

theorem tcp_finwaitack_ignores_ack_of_fin_witness:
  "\<exists>r t'. tcp_finwaitack fin_wait_socket 1 = Some (r, t') \<and> ACKN (store t' 1) = 7
     \<and> TCPSTATE t' = PICO_SOCKET_STATE_TCP_FIN_WAIT1"
proof -
  have "map_option (\<lambda>(r, t). (ACKN (store t 1), snd_nxt t)) (tcp_finwaitack fin_wait_socket 1) = Some (7, 7)"
    by code_simp
  then obtain r t' where run: "tcp_finwaitack fin_wait_socket 1 = Some (r, t')" and "ACKN (store t' 1) = 7" "snd_nxt t' = 7"
    by auto
  moreover have "TCPSTATE fin_wait_socket = PICO_SOCKET_STATE_TCP_FIN_WAIT1"
    by (simp add: fin_wait_socket_def zero_socket_def PICO_SOCKET_STATE_TCP_def PICO_SOCKET_STATE_TCP_FIN_WAIT1_def)
  ultimately show ?thesis using tcp_finwaitack_ignores_ack_of_fin [OF run] by simp
qed

end
