(* ===== verification/Ipv4_Addr.thy ===== *)
theory Ipv4_Addr
  imports Pico_Prelude
begin

text \<open>
  IPv4 addresses in \<open>modules/pico_ipv4.c\<close>: their order, the dotted notation, netmasks and the
  classes of addresses.  An address is the 32-bit variable of the code, its bytes in network order:
  \<open>bytes_of_u32\<close> is the memory the code looks at through \<open>unsigned char *\<close>.  Strings are lists of
  bytes with their terminator; a pointer that may be NULL is an option.
\<close>

section \<open>The code\<close>

definition PICO_IP4_ANY :: u32 where "PICO_IP4_ANY = 0x00000000"
definition PICO_IP4_BCAST :: u32 where "PICO_IP4_BCAST = 0xffffffff"

definition pico_ipv4_compare :: "u32 \<Rightarrow> u32 \<Rightarrow> int" where
  "pico_ipv4_compare a b = (if a < b then - 1 else if a > b then 1 else 0)"

text \<open>The digits of one byte.\<close>

definition octet_digits :: "u8 \<Rightarrow> u8 list" where
  "octet_digits a =
     (if a > 99 then [0x30 + a div 100, 0x30 + (a mod 100) div 10, 0x30 + (a mod 100) mod 10]
      else if a > 9 then [0x30 + a div 10, 0x30 + a mod 10]
      else [0x30 + a])"

text \<open>What the loop writes for the bytes that are left.\<close>

fun dotted :: "u8 list \<Rightarrow> u8 list" where
  "dotted [] = []"
| "dotted [a] = octet_digits a"
| "dotted (a # as) = octet_digits a @ 0x2E # dotted as"

text \<open>The buffer after the call; \<open>None\<close> when the string does not fit in it.\<close>

definition pico_ipv4_to_string :: "u8 list option \<Rightarrow> u32 \<Rightarrow> (int \<times> u8 list option) option" where
  "pico_ipv4_to_string ipbuf ip =
     (case ipbuf of
        None \<Rightarrow> Some (- 1, None)
      | Some m \<Rightarrow>
          (let s = dotted (bytes_of_u32 ip) @ [0] in
           if length s \<le> length m then Some (0, Some (s @ drop (length s) m)) else None))"

definition pico_is_digit :: "u8 \<Rightarrow> bool" where
  "pico_is_digit c \<longleftrightarrow> \<not> (c < 0x30 \<or> c > 0x39)"

text \<open>The loop over the characters: the four bytes and the number of dots; -1 is a return with an
  error, a read past the end of the string is \<open>None\<close>.\<close>

fun ipv4_parse :: "u8 list \<Rightarrow> u8 list \<Rightarrow> nat \<Rightarrow> (u8 list \<times> int) option" where
  "ipv4_parse [] buf cnt = None"
| "ipv4_parse (p # s) buf cnt =
     (if p \<noteq> 0 \<and> cnt < 4 then
        (if pico_is_digit p then ipv4_parse s (buf[cnt := 10 * buf ! cnt + (p - 0x30)]) cnt
         else if p = 0x2E then ipv4_parse s buf (cnt + 1)
         else Some (buf, - 1))
      else Some (buf, int cnt))"

text \<open>The short notations 10.1 and 10.1.2.\<close>

definition ipv4_short :: "u8 list \<Rightarrow> int \<Rightarrow> u8 list option" where
  "ipv4_short buf cnt =
     (if cnt = 1 then Some [buf ! 0, 0, 0, buf ! 1]
      else if cnt = 2 then Some [buf ! 0, buf ! 1, 0, buf ! 2]
      else if cnt \<noteq> 3 then None
      else Some buf)"

text \<open>The result and the address written, if any.\<close>

definition pico_string_to_ipv4 :: "u8 list option \<Rightarrow> (int \<times> u32 option) option" where
  "pico_string_to_ipv4 ipstr =
     (case ipstr of
        None \<Rightarrow> Some (- 1, None)
      | Some s \<Rightarrow>
          (case ipv4_parse s [0, 0, 0, 0] 0 of
             None \<Rightarrow> None
           | Some (buf, cnt) \<Rightarrow>
               (case (if cnt < 0 then None else ipv4_short buf cnt) of
                  None \<Rightarrow> Some (- 1, None)
                | Some b \<Rightarrow> Some (0, Some (long_from b)))))"

text \<open>The loop over the bits, most significant first.\<close>

fun netmask_loop :: "bool list \<Rightarrow> nat \<Rightarrow> bool \<Rightarrow> int" where
  "netmask_loop [] cnt stop = int cnt"
| "netmask_loop (b # bs) cnt stop =
     (if b then (if stop then - 1 else netmask_loop bs (cnt + 1) stop) else netmask_loop bs cnt True)"

definition pico_ipv4_valid_netmask :: "u32 \<Rightarrow> int" where
  "pico_ipv4_valid_netmask m =
     (let mask_swap = long_be m in
      netmask_loop (map (\<lambda>i. push_bit i mask_swap AND 0x80000000 \<noteq> 0) [0..<32]) 0 False)"

definition pico_ipv4_is_unicast :: "u32 \<Rightarrow> bool" where
  "pico_ipv4_is_unicast address = (\<not> (bytes_of_u32 address ! 0 AND 0xe0 = 0xe0))"

definition pico_ipv4_is_multicast :: "u32 \<Rightarrow> bool" where
  "pico_ipv4_is_multicast address =
     (bytes_of_u32 address ! 0 \<noteq> 0xff \<and> bytes_of_u32 address ! 0 AND 0xe0 = 0xe0)"

definition pico_ipv4_is_loopback :: "u32 \<Rightarrow> bool" where
  "pico_ipv4_is_loopback address = (bytes_of_u32 address ! 0 = 0x7f)"

section \<open>The dotted notation\<close>

text \<open>A digit of a byte, as a number and as a character.\<close>

definition digit_char :: "nat \<Rightarrow> u8" where
  "digit_char d = 0x30 + of_nat d"

definition octet_nats :: "nat \<Rightarrow> nat list" where
  "octet_nats n = (if 99 < n then [n div 100, n mod 100 div 10, n mod 10] else if 9 < n then [n div 10, n mod 10] else [n])"

lemma u8_div_mod:
  assumes "n < 256" "m < 256"
  shows "(of_nat n :: u8) div of_nat m = of_nat (n div m)" "(of_nat n :: u8) mod of_nat m = of_nat (n mod m)"
  using assms by (simp_all add: word_arith_nat_div word_arith_nat_mod unat_of_nat)

lemma octet_digits_nats: "octet_digits a = map digit_char (octet_nats (unat a))"
proof -
  define n where "n = unat a"
  have n: "n < 256" "a = of_nat n" using unat_u8_less [of a] by (simp_all add: n_def)
  have d: "a div 100 = of_nat (n div 100)" "a mod 100 = of_nat (n mod 100)"
    "a div 10 = of_nat (n div 10)" "a mod 10 = of_nat (n mod 10)"
    using u8_div_mod [OF n(1), of 100] u8_div_mod [OF n(1), of 10] by (simp_all add: n(2))
  have r: "n mod 100 < 256" by (rule less_trans [OF mod_less_divisor]) simp_all
  have e: "(of_nat (n mod 100) :: u8) div 10 = of_nat (n mod 100 div 10)"
    "(of_nat (n mod 100) :: u8) mod 10 = of_nat (n mod 10)"
    using u8_div_mod [OF r, of 10] mod_mod_cancel [of 10 100 n] by simp_all
  have "a > 99 \<longleftrightarrow> 99 < n" "a > 9 \<longleftrightarrow> 9 < n" by (simp_all add: n_def word_less_nat_alt)
  then show ?thesis
    by (simp only: octet_digits_def octet_nats_def digit_char_def d e n_def [symmetric] if_distrib list.map cong: if_cong)
      (simp add: n(2) digit_char_def)
qed

lemma digit_char_digit:
  assumes "d < 10"
  shows "pico_is_digit (digit_char d)" "digit_char d \<noteq> 0" "digit_char d - 0x30 = of_nat d"
proof -
  have u: "unat (digit_char d) = 48 + d"
    using assms by (simp add: digit_char_def unat_word_ariths unat_of_nat)
  then show "pico_is_digit (digit_char d)" using assms by (simp add: pico_is_digit_def word_less_nat_alt)
  show "digit_char d \<noteq> 0" using u by auto
  show "digit_char d - 0x30 = of_nat d" by (simp add: digit_char_def)
qed

lemma octet_nats_digit: "n < 256 \<Longrightarrow> d \<in> set (octet_nats n) \<Longrightarrow> d < 10"
  by (auto simp: octet_nats_def less_mult_imp_div_less split: if_split_asm)

lemma octet_nats_value: "n < 256 \<Longrightarrow> foldl (\<lambda>v d. 10 * v + d) 0 (octet_nats n) = n"
proof -
  have "n mod 100 mod 10 = n mod 10" by (rule mod_mod_cancel) simp
  moreover have "n div 100 * 100 + n mod 100 = n" "n mod 100 div 10 * 10 + n mod 100 mod 10 = n mod 100"
    by (rule div_mult_mod_eq)+
  ultimately have "100 * (n div 100) + 10 * (n mod 100 div 10) + n mod 10 = n" by linarith
  then show ?thesis by (simp add: octet_nats_def)
qed

lemma foldl_of_nat: "foldl (\<lambda>(v :: u8) d. 10 * v + of_nat d) (of_nat n) ds = of_nat (foldl (\<lambda>v d. 10 * v + d) n ds)"
proof (induction ds arbitrary: n)
  case (Cons d ds)
  have "10 * of_nat n + of_nat d = (of_nat (10 * n + d) :: u8)" by simp
  then show ?case using Cons [of "10 * n + d"] by (simp only: foldl_Cons)
qed simp

lemma parse_digits:
  assumes "\<forall>d \<in> set ds. d < 10" "cnt < 4" "length buf = 4"
  shows "ipv4_parse (map digit_char ds @ s) buf cnt
    = ipv4_parse s (buf[cnt := foldl (\<lambda>v d. 10 * v + of_nat d) (buf ! cnt) ds]) cnt"
  using assms by (induction ds arbitrary: buf) (simp_all add: digit_char_digit)

lemma parse_octet:
  assumes "cnt < 4" "length buf = 4" "buf ! cnt = 0"
  shows "ipv4_parse (octet_digits a @ s) buf cnt = ipv4_parse s (buf[cnt := a]) cnt"
proof -
  have "foldl (\<lambda>v d. 10 * v + of_nat d) (0 :: u8) (octet_nats (unat a)) = a"
    using foldl_of_nat [of 0 "octet_nats (unat a)"] octet_nats_value [OF unat_u8_less] by simp
  then show ?thesis
    using parse_digits [of "octet_nats (unat a)" cnt buf s] octet_nats_digit [OF unat_u8_less] assms
    by (simp add: octet_digits_nats)
qed

lemma parse_dotted:
  "ipv4_parse (dotted [a, b, c, d] @ 0 # s) [0, 0, 0, 0] 0 = Some ([a, b, c, d], 3)"
  by (simp add: parse_octet pico_is_digit_def)

lemma octet_length: "length (octet_digits a) \<le> 3"
  by (simp add: octet_digits_def)

lemma dotted_length: "length bs = 4 \<Longrightarrow> length (dotted bs) \<le> 15"
  using octet_length [of "bs ! 0"] octet_length [of "bs ! 1"] octet_length [of "bs ! 2"] octet_length [of "bs ! 3"]
  by (auto simp: numeral_eq_Suc length_Suc_conv)

text \<open>\<open>pico_ipv4_to_string\<close> needs no more than 16 bytes, and \<open>pico_string_to_ipv4\<close> reads every
  address back from what it has written, whatever lies behind the terminator.\<close>

theorem pico_ipv4_string_roundtrip:
  assumes "16 \<le> length m"
  shows "\<exists>s. pico_ipv4_to_string (Some m) ip = Some (0, Some s) \<and> length s = length m
    \<and> pico_string_to_ipv4 (Some s) = Some (0, Some ip)"
proof -
  obtain a b c d where bs: "bytes_of_u32 ip = [a, b, c, d]" by (simp add: bytes_of_u32_def)
  let ?s = "dotted [a, b, c, d] @ [0]"
  have len: "length ?s \<le> length m" using dotted_length [of "[a, b, c, d]"] assms by simp
  have "pico_string_to_ipv4 (Some (?s @ drop (length ?s) m)) = Some (0, Some (long_from [a, b, c, d]))"
    using parse_dotted [of a b c d "drop (length ?s) m"]
    by (simp add: pico_string_to_ipv4_def ipv4_short_def del: dotted.simps)
  moreover have "long_from [a, b, c, d] = ip" using long_from_bytes [of ip] by (simp only: bs)
  ultimately show ?thesis
    using len unfolding pico_ipv4_to_string_def by (simp add: bs Let_def del: dotted.simps)
qed

theorem pico_ipv4_string_roundtrip_witness:
  "\<exists>s. pico_ipv4_to_string (Some (replicate 16 0xAA)) 0x0100000A = Some (0, Some s) \<and> length s = 16
     \<and> pico_string_to_ipv4 (Some s) = Some (0, Some 0x0100000A)"
  using pico_ipv4_string_roundtrip [of "replicate 16 0xAA" "0x0100000A"] by simp

section \<open>Netmasks\<close>

lemma netmask_loop_stop: "netmask_loop bs cnt True = (if True \<in> set bs then - 1 else int cnt)"
  by (induction bs arbitrary: cnt) auto

lemma netmask_loop_value:
  "netmask_loop bs cnt False
    = (if True \<in> set (dropWhile id bs) then - 1 else int (cnt + length (takeWhile id bs)))"
  by (induction bs arbitrary: cnt) (auto simp: netmask_loop_stop)

lemma netmask_loop_ones:
  "netmask_loop bs 0 False = int k \<longleftrightarrow> k \<le> length bs \<and> bs = replicate k True @ replicate (length bs - k) False"
proof
  assume l: "netmask_loop bs 0 False = int k"
  then have k: "length (takeWhile id bs) = k" and f: "True \<notin> set (dropWhile id bs)"
    by (auto simp: netmask_loop_value split: if_split_asm)
  have "takeWhile id bs = replicate k True"
    using k by (auto intro!: replicate_eqI dest: set_takeWhileD)
  moreover have "dropWhile id bs = replicate (length bs - k) False"
    using f k by (intro replicate_eqI) (auto simp: dropWhile_eq_drop)
  ultimately show "k \<le> length bs \<and> bs = replicate k True @ replicate (length bs - k) False"
    using takeWhile_dropWhile_id [of id bs] length_takeWhile_le [of id bs] k by metis
next
  assume r: "k \<le> length bs \<and> bs = replicate k True @ replicate (length bs - k) False"
  have "takeWhile id (replicate k True @ replicate j False) = replicate k True"
    "dropWhile id (replicate k True @ replicate j False) = replicate j False" for j
    by (induction k) (cases j; simp)+
  then have "takeWhile id bs = replicate k True" "dropWhile id bs = replicate (length bs - k) False"
    using r by metis+
  then show "netmask_loop bs 0 False = int k" by (simp add: netmask_loop_value)
qed

lemma top_bit: "i < 32 \<Longrightarrow> push_bit i (x :: u32) AND 0x80000000 \<noteq> 0 \<longleftrightarrow> bit x (31 - i)"
proof -
  assume i: "i < 32"
  have m: "(0x80000000 :: u32) = push_bit 31 1" by simp
  show ?thesis unfolding m bit_iff_and_push_bit_not_eq_0 [symmetric] using i by (simp add: bit_simps)
qed

lemma map_upt_ones:
  "k \<le> n \<Longrightarrow> map f [0..<n] = replicate k True @ replicate (n - k) False \<longleftrightarrow> (\<forall>i < n. f i = (i < k))"
  by (auto simp: list_eq_iff_nth_eq nth_append)

lemma high_mask:
  assumes "k \<le> 32"
  shows "(\<forall>i < 32. bit x (31 - i) = (i < k)) \<longleftrightarrow> x = (NOT (mask (32 - k)) :: u32)"
proof
  assume a: "\<forall>i < 32. bit x (31 - i) = (i < k)"
  show "x = NOT (mask (32 - k))"
  proof (rule bit_word_eqI)
    fix n assume "n < LENGTH(32)"
    then have n: "n < 32" "31 - (31 - n) = n" by simp_all
    have "31 - n < 32" by simp
    then have "bit x (31 - (31 - n)) = (31 - n < k)" using a by blast
    then have "bit x n = (31 - n < k)" by (simp only: n(2))
    then show "bit x n = bit (NOT (mask (32 - k)) :: u32) n" using n(1) assms by (auto simp: bit_simps)
  qed
next
  assume "x = NOT (mask (32 - k))"
  then show "\<forall>i < 32. bit x (31 - i) = (i < k)" using assms by (auto simp: bit_simps)
qed

lemma leading_ones:
  "k \<le> 32 \<Longrightarrow> map (\<lambda>i. push_bit i (x :: u32) AND 0x80000000 \<noteq> 0) [0..<32] = replicate k True @ replicate (32 - k) False
    \<longleftrightarrow> x = NOT (mask (32 - k))"
  unfolding high_mask [symmetric] by (subst map_upt_ones) (simp_all add: top_bit cong: conj_cong imp_cong all_cong)

text \<open>\<open>pico_ipv4_valid_netmask\<close> returns the length of the prefix when the mask is that of a prefix,
  ones before zeros in network order, and -1 for every other mask.\<close>

theorem pico_ipv4_valid_netmask_prefix:
  "if \<exists>k \<le> 32. long_be m = NOT (mask (32 - k))
   then \<exists>k \<le> 32. long_be m = NOT (mask (32 - k)) \<and> pico_ipv4_valid_netmask m = int k
   else pico_ipv4_valid_netmask m = - 1"
proof -
  let ?bs = "map (\<lambda>i. push_bit i (long_be m) AND 0x80000000 \<noteq> 0) [0..<32]"
  have v: "pico_ipv4_valid_netmask m = netmask_loop ?bs 0 False" by (simp only: pico_ipv4_valid_netmask_def Let_def)
  have "netmask_loop ?bs 0 False = int k \<longleftrightarrow> k \<le> 32 \<and> long_be m = NOT (mask (32 - k))" for k
    using netmask_loop_ones [of ?bs k] leading_ones [of k "long_be m"] by auto
  moreover have "netmask_loop ?bs 0 False = - 1 \<or> (\<exists>k. netmask_loop ?bs 0 False = int k)"
    by (auto simp: netmask_loop_value)
  ultimately show ?thesis unfolding v by (metis (no_types, lifting))
qed

end
