(* ===== verification/PTree_Foreach.thy ===== *)
theory PTree_Foreach
  imports PTree_Spec "HOL-Library.Monad_Syntax"
begin

text \<open>
  The other traversal macros of \<open>pico_tree.h\<close>: \<open>pico_tree_foreach_reverse\<close>, from the last node to
  the first, and the loops over \<open>pico_tree_foreach_safe\<close> whose body deletes keys.
\<close>

section \<open>From the last node to the first\<close>

partial_function (option) foreach_reverse_from :: "'k pico_tree \<Rightarrow> nat \<Rightarrow> 'k list option" where
  "foreach_reverse_from t idx =
     (if idx = LEAF then Some []
      else do { nxt \<leftarrow> pico_tree_prev t idx;
                ks \<leftarrow> foreach_reverse_from t nxt;
                Some (key_of t idx # ks) })"

definition pico_tree_foreach_reverse :: "'k pico_tree \<Rightarrow> 'k list option" where
  "pico_tree_foreach_reverse t = do { l \<leftarrow> pico_tree_lastNode t (root t); foreach_reverse_from t l }"

declare foreach_reverse_from.simps [code]

lemma foreach_reverse_from_rep:
  "tree_rep t s \<Longrightarrow> ino s = rev xs @ ys \<Longrightarrow> foreach_reverse_from t (hd_or_LEAF xs) = Some (map (key_of t) xs)"
proof (induction xs arbitrary: ys)
  case Nil
  then show ?case by (subst foreach_reverse_from.simps) simp
next
  case (Cons a xs)
  have i: "ino s = rev xs @ a # ys" using Cons.prems(2) by simp
  have "a \<noteq> LEAF" using rep_nonleaf [OF Cons.prems(1)] i by (auto simp: in_set_conv_decomp)
  moreover have "foreach_reverse_from t (hd_or_LEAF xs) = Some (map (key_of t) xs)"
    using Cons.IH [OF Cons.prems(1) i] .
  ultimately show ?case
    using pico_tree_prev_rep [OF Cons.prems(1) i] by (subst foreach_reverse_from.simps) simp
qed

lemma tree_keys_foreach_reverse:
  assumes "tree_keys t ks"
  shows "pico_tree_foreach_reverse t = Some (rev ks)"
proof -
  obtain s where s: "tree_rep t s" "keys_of t s = ks" using assms by (auto simp: tree_keys_def)
  have "pico_tree_lastNode t (root t) = Some (hd_or_LEAF (rev (ino s)))"
  proof (cases "s = L")
    case True
    then show ?thesis using s(1) lastNode_leaf [OF s(1)] by (simp add: tree_rep_def)
  next
    case False
    then show ?thesis using s(1) lastNode_rep [of t Top s] by (simp add: tree_rep_def hd_rev)
  qed
  then show ?thesis
    using foreach_reverse_from_rep [OF s(1), of "rev (ino s)" "[]"] s(2) [symmetric]
    by (simp add: pico_tree_foreach_reverse_def keys_of_def rev_map)
qed

lemma tree_inv_foreach: "tree_inv cmp valid t ks \<Longrightarrow> pico_tree_foreach t = Some ks"
  by (simp add: tree_inv_def tree_keys_foreach)

lemma tree_inv_foreach_reverse: "tree_inv cmp valid t ks \<Longrightarrow> pico_tree_foreach_reverse t = Some (rev ks)"
  by (simp add: tree_inv_def tree_keys_foreach_reverse)

section \<open>Deleting every key\<close>

text \<open>The loop \<open>pico_tree_foreach_safe\<close> whose body deletes the current key: it visits the keys the
  tree has when it starts.\<close>

primrec delete_keys :: "('k \<Rightarrow> 'k \<Rightarrow> int) \<Rightarrow> 'k list \<Rightarrow> 'k pico_tree \<Rightarrow> 'k pico_tree option" where
  "delete_keys cmp [] t = Some t"
| "delete_keys cmp (k # ks) t = do { (_, t) \<leftarrow> pico_tree_delete cmp t (Some k); delete_keys cmp ks t }"

definition delete_all :: "('k \<Rightarrow> 'k \<Rightarrow> int) \<Rightarrow> 'k pico_tree \<Rightarrow> 'k pico_tree option" where
  "delete_all cmp t = do { ks \<leftarrow> pico_tree_foreach t; delete_keys cmp ks t }"

context key_order
begin

lemma delete_all_inv:
  assumes "tree_inv cmp valid t ks"
  shows "\<exists>t'. delete_all cmp t = Some t' \<and> tree_inv cmp valid t' []"
proof -
  have "tree_inv cmp valid t ks \<Longrightarrow> \<exists>t'. delete_keys cmp ks t = Some t' \<and> tree_inv cmp valid t' []" for t ks
  proof (induction ks arbitrary: t)
    case (Cons k ks)
    have v: "valid k" using Cons.prems by (simp add: tree_inv_def)
    then obtain t1 where t1: "pico_tree_delete cmp t (Some k) = Some (Some k, t1)" "tree_inv cmp valid t1 ks"
      using delete_inv [OF Cons.prems v] by (auto simp: cmp_refl)
    then show ?case using Cons.IH [OF t1(2)] by auto
  qed simp
  then show ?thesis using assms by (simp add: delete_all_def tree_inv_foreach)
qed

text \<open>An insertion returns and leaves a well-formed tree, with at most the new key more.\<close>

lemma insert_total:
  assumes "tree_inv cmp valid t ks" "valid k"
  shows "\<exists>r t' ks'. pico_tree_insert cmp t k m = Some (r, t') \<and> tree_inv cmp valid t' ks' \<and> set ks' \<subseteq> insert k (set ks)
    \<and> (r = Ins_NULL \<longrightarrow> set ks' = insert k (set ks)) \<and> (r \<noteq> Ins_NULL \<longrightarrow> t' = t)"
  using insert_inv [OF assms, of m] assms(1)
  by (cases "keys_find cmp k ks"; cases m) (fastforce simp: insert_set)+

text \<open>Deleting a key of the tree removes just this key.\<close>

lemma delete_member:
  assumes "tree_inv cmp valid t (xs @ k # ys)"
  shows "\<exists>t'. pico_tree_delete cmp t (Some k) = Some (Some k, t') \<and> tree_inv cmp valid t' (xs @ ys)"
proof -
  have v: "valid k" "keys_sorted cmp (xs @ k # ys)" "\<forall>x \<in> set (k # xs @ k # ys). valid x"
    using assms by (auto simp: tree_inv_def)
  have "keys_find cmp k (xs @ k # ys) = Some k"
    by (rule find_unique) (use v in \<open>auto simp: cmp_refl\<close>)
  moreover have "keys_delete cmp k (xs @ k # ys) = xs @ ys"
    by (rule delete_split) (use v in \<open>auto simp: cmp_refl\<close>)
  ultimately show ?thesis using delete_inv [OF assms v(1)] by simp
qed

lemma insert_exact:
  assumes "tree_inv cmp valid t ks" "valid k"
  shows "\<exists>r t'. pico_tree_insert cmp t k m = Some (r, t') \<and> (if r = Ins_NULL
      then (\<forall>x \<in> set ks. cmp x k \<noteq> 0) \<and> (\<exists>ks'. tree_inv cmp valid t' ks' \<and> set ks' = insert k (set ks)) else t' = t)"
proof (cases "keys_find cmp k ks = None \<and> m")
  case True
  then show ?thesis using insert_inv [OF assms, of m] find_None [of k ks] insert_set [of k ks] by fastforce
next
  case False
  then show ?thesis using insert_inv [OF assms, of m] by (cases "keys_find cmp k ks") auto
qed

lemma delete_exact:
  assumes "tree_inv cmp valid t ks" "valid key"
  shows "\<exists>r t' ks'. pico_tree_delete cmp t (Some key) = Some (r, t') \<and> tree_inv cmp valid t' ks'
    \<and> set ks' = {x \<in> set ks. cmp x key \<noteq> 0}"
  using delete_inv [OF assms] delete_set [of ks key] assms by (fastforce simp: tree_inv_def)

lemma cmp_zero_unique:
  assumes "tree_inv cmp valid t ks" "x \<in> set ks" "y \<in> set ks" "cmp x y = 0"
  shows "x = y"
proof -
  have v: "keys_sorted cmp ks" "\<forall>z \<in> set (y # ks). valid z" using assms by (auto simp: tree_inv_def)
  show ?thesis using find_unique [OF v assms(2,4)] find_unique [OF v assms(3) cmp_refl] v(2) by simp
qed

lemma find_exact:
  assumes "tree_inv cmp valid t ks" "valid key"
  shows "\<exists>r. pico_tree_findKey cmp t key = Some r \<and>
    (case r of None \<Rightarrow> \<forall>x \<in> set ks. cmp x key \<noteq> 0 | Some k \<Rightarrow> k \<in> set ks \<and> cmp k key = 0)"
  using find_inv [OF assms] find_None [of key ks] find_Some [of key ks] by (cases "keys_find cmp key ks") auto

lemma inv_distinct:
  assumes "tree_inv cmp valid t ks"
  shows "distinct ks"
proof -
  have "keys_sorted cmp ks" "\<forall>x \<in> set ks. valid x" using assms by (auto simp: tree_inv_def)
  then show ?thesis by (induction ks) (auto simp: keys_sorted_def cmp_refl)
qed

lemma delete_subset:
  assumes "tree_inv cmp valid t ks" "valid key"
  shows "\<exists>t' ks'. pico_tree_delete cmp t (Some key) = Some (keys_find cmp key ks, t') \<and> tree_inv cmp valid t' ks'
    \<and> set ks' \<subseteq> set ks"
  using delete_inv [OF assms] delete_set [of ks key] assms by (auto simp: tree_inv_def)

lemma find_member:
  assumes "tree_inv cmp valid t ks" "k \<in> set ks" "valid key" "cmp k key = 0"
  shows "pico_tree_findKey cmp t key = Some (Some k)"
  using find_inv [OF assms(1,3)] find_unique [of ks key k] assms by (auto simp: tree_inv_def)

end

end
