(* ===== verification/Ipv4_Route.thy ===== *)
theory Ipv4_Route
  imports Ipv4_Addr PTree_Foreach "HOL-Library.Product_Lexorder"
begin

text \<open>
  The links, the routing table and the multicast groups of \<open>modules/pico_ipv4.c\<close>.  The trees
  \<open>Tree_dev_link\<close> and \<open>Routes\<close> are pointer trees of \<open>PTree\<close> with the compare functions of the code.
  What the code never changes in a link or a route is a record, with the address of the
  structure in \<open>l_ptr\<close>, so that equal records are equal pointers; the groups of a link and the
  state of a group, which change in place, are in stores indexed by these addresses.  Device
  pointers are naturals, 0 is NULL.  Calls to IGMP and AODV are recorded in \<open>ip_calls\<close>; memory is
  the supply \<open>ip_mem\<close>.  \<open>None\<close> is a NULL dereference or a loop that does not end.
\<close>

section \<open>Data\<close>

record pico_ipv4_link =
  l_ptr :: nat
  l_dev :: nat
  l_address :: u32
  l_netmask :: u32

record pico_ipv4_route =
  dest :: u32
  netmask :: u32
  gateway :: u32
  r_link :: "pico_ipv4_link option"
  metric :: u32

record mcast_group_key =
  g_ptr :: nat
  mcast_addr :: u32

record pico_mcast_group =
  filter_mode :: u8
  reference_count :: u16
  MCASTSources :: "u32 pico_tree"

datatype ip_call =
    Igmp_state_change u32 u8 nat
  | Aodv_lookup u32

record ipv4_state =
  Tree_dev_link :: "pico_ipv4_link pico_tree"
  Routes :: "pico_ipv4_route pico_tree"
  MCASTGroups :: "nat \<Rightarrow> mcast_group_key pico_tree"
  mcast_groups :: "nat \<Rightarrow> pico_mcast_group"
  bcast_link :: "pico_ipv4_link option"
  mcast_default_link :: "pico_ipv4_link option"
  next_ptr :: nat
  ip_err :: pico_err_t
  ip_mem :: "bool list"
  ip_calls :: "ip_call list"

definition ip_alloc :: "ipv4_state \<Rightarrow> bool \<times> ipv4_state" where
  "ip_alloc s = (case ip_mem s of [] \<Rightarrow> (True, s) | b # bs \<Rightarrow> (b, s\<lparr>ip_mem := bs\<rparr>))"

definition new_ptr :: "ipv4_state \<Rightarrow> nat \<times> ipv4_state" where
  "new_ptr s = (next_ptr s, s\<lparr>next_ptr := next_ptr s + 1\<rparr>)"

definition PICO_IP_MULTICAST_EXCLUDE :: u8 where "PICO_IP_MULTICAST_EXCLUDE = 0"
definition PICO_IP_MULTICAST_INCLUDE :: u8 where "PICO_IP_MULTICAST_INCLUDE = 1"
definition PICO_IGMP_STATE_CREATE :: nat where "PICO_IGMP_STATE_CREATE = 1"
definition PICO_IGMP_STATE_UPDATE :: nat where "PICO_IGMP_STATE_UPDATE = 2"
definition PICO_IGMP_STATE_DELETE :: nat where "PICO_IGMP_STATE_DELETE = 3"
definition PICO_MCAST_ALL_HOSTS :: u32 where "PICO_MCAST_ALL_HOSTS = long_be 0xE0000001"

section \<open>Compare functions\<close>

definition ipv4_link_compare :: "pico_ipv4_link \<Rightarrow> pico_ipv4_link \<Rightarrow> int" where
  "ipv4_link_compare a b =
     (let c = pico_ipv4_compare (l_address a) (l_address b) in
      if c \<noteq> 0 then c
      else if l_dev a \<noteq> 0 \<and> l_dev b \<noteq> 0 \<and> l_address a = PICO_IP4_ANY \<and> l_address b = PICO_IP4_ANY
      then (if l_dev a < l_dev b then - 1 else if l_dev a > l_dev b then 1 else 0)
      else 0)"

definition ipv4_route_compare :: "pico_ipv4_route \<Rightarrow> pico_ipv4_route \<Rightarrow> int" where
  "ipv4_route_compare a b =
     (let a_nm = long_be (netmask a); b_nm = long_be (netmask b) in
      if a_nm < b_nm then - 1
      else if b_nm < a_nm then 1
      else let c = pico_ipv4_compare (dest a) (dest b) in
        if c \<noteq> 0 then c
        else if metric a < metric b then - 1
        else if metric a > metric b then 1
        else 0)"

definition ipv4_mcast_groups_cmp :: "mcast_group_key \<Rightarrow> mcast_group_key \<Rightarrow> int" where
  "ipv4_mcast_groups_cmp a b = pico_ipv4_compare (mcast_addr a) (mcast_addr b)"

definition ipv4_mcast_sources_cmp :: "u32 \<Rightarrow> u32 \<Rightarrow> int" where
  "ipv4_mcast_sources_cmp a b = pico_ipv4_compare a b"

section \<open>Looking up routes\<close>

definition default_bcast_route :: "ipv4_state \<Rightarrow> pico_ipv4_route" where
  "default_bcast_route s = \<lparr>dest = PICO_IP4_BCAST, netmask = PICO_IP4_BCAST, gateway = 0,
     r_link = bcast_link s, metric = 1000\<rparr>"

primrec route_scan :: "u32 \<Rightarrow> pico_ipv4_route list \<Rightarrow> pico_ipv4_route option" where
  "route_scan addr [] = None"
| "route_scan addr (r # rs) = (if addr AND netmask r = dest r then Some r else route_scan addr rs)"

definition route_find :: "ipv4_state \<Rightarrow> u32 \<Rightarrow> pico_ipv4_route option option" where
  "route_find s addr =
     (if addr = PICO_IP4_ANY then Some None
      else if addr \<noteq> PICO_IP4_BCAST
      then map_option (route_scan addr) (pico_tree_foreach_reverse (Routes s))
      else Some (Some (default_bcast_route s)))"

definition pico_ipv4_route_get_gateway :: "ipv4_state \<Rightarrow> u32 option \<Rightarrow> (u32 \<times> ipv4_state) option" where
  "pico_ipv4_route_get_gateway s addr =
     (case addr of
        None \<Rightarrow> Some (0, s\<lparr>ip_err := PICO_ERR_EINVAL\<rparr>)
      | Some a \<Rightarrow> do {
          route \<leftarrow> route_find s a;
          Some (case route of None \<Rightarrow> (0, s\<lparr>ip_err := PICO_ERR_EHOSTUNREACH\<rparr>) | Some r \<Rightarrow> (gateway r, s)) })"

definition pico_ipv4_source_find :: "ipv4_state \<Rightarrow> u32 option \<Rightarrow> (u32 option \<times> ipv4_state) option" where
  "pico_ipv4_source_find s dst =
     (case dst of
        None \<Rightarrow> Some (None, s\<lparr>ip_err := PICO_ERR_EINVAL\<rparr>)
      | Some a \<Rightarrow> do {
          let s = (if a \<noteq> 0 \<and> pico_ipv4_is_unicast a then s\<lparr>ip_calls := ip_calls s @ [Aodv_lookup a]\<rparr> else s);
          rt \<leftarrow> route_find s a;
          Some (case rt of
              Some r \<Rightarrow> (case r_link r of Some l \<Rightarrow> (Some (l_address l), s)
                                       | None \<Rightarrow> (None, s\<lparr>ip_err := PICO_ERR_EHOSTUNREACH\<rparr>))
            | None \<Rightarrow> (None, s\<lparr>ip_err := PICO_ERR_EHOSTUNREACH\<rparr>)) })"

definition pico_ipv4_source_dev_find :: "ipv4_state \<Rightarrow> u32 option \<Rightarrow> (nat \<times> ipv4_state) option" where
  "pico_ipv4_source_dev_find s dst =
     (case dst of
        None \<Rightarrow> Some (0, s\<lparr>ip_err := PICO_ERR_EINVAL\<rparr>)
      | Some a \<Rightarrow> do {
          rt \<leftarrow> route_find s a;
          Some (case rt of
              Some r \<Rightarrow> (case r_link r of Some l \<Rightarrow> (l_dev l, s)
                                       | None \<Rightarrow> (0, s\<lparr>ip_err := PICO_ERR_EHOSTUNREACH\<rparr>))
            | None \<Rightarrow> (0, s\<lparr>ip_err := PICO_ERR_EHOSTUNREACH\<rparr>)) })"

section \<open>Looking up links\<close>

definition link_key :: "nat \<Rightarrow> u32 \<Rightarrow> pico_ipv4_link" where
  "link_key dev address = \<lparr>l_ptr = 0, l_dev = dev, l_address = address, l_netmask = 0\<rparr>"

definition pico_ipv4_link_get :: "ipv4_state \<Rightarrow> u32 \<Rightarrow> pico_ipv4_link option option" where
  "pico_ipv4_link_get s address = pico_tree_findKey ipv4_link_compare (Tree_dev_link s) (link_key 0 address)"

definition pico_ipv4_link_find :: "ipv4_state \<Rightarrow> u32 option \<Rightarrow> (nat \<times> ipv4_state) option" where
  "pico_ipv4_link_find s address =
     (case address of
        None \<Rightarrow> Some (0, s\<lparr>ip_err := PICO_ERR_EINVAL\<rparr>)
      | Some a \<Rightarrow> do {
          found \<leftarrow> pico_tree_findKey ipv4_link_compare (Tree_dev_link s) (link_key 0 a);
          Some (case found of None \<Rightarrow> (0, s\<lparr>ip_err := PICO_ERR_ENXIO\<rparr>) | Some l \<Rightarrow> (l_dev l, s)) })"

primrec first_of_dev :: "nat \<Rightarrow> pico_ipv4_link list \<Rightarrow> pico_ipv4_link option" where
  "first_of_dev dev [] = None"
| "first_of_dev dev (l # ls) = (if l_dev l = dev then Some l else first_of_dev dev ls)"

definition pico_ipv4_link_by_dev :: "ipv4_state \<Rightarrow> nat \<Rightarrow> pico_ipv4_link option option" where
  "pico_ipv4_link_by_dev s dev = map_option (first_of_dev dev) (pico_tree_foreach (Tree_dev_link s))"

primrec next_of_dev :: "nat \<Rightarrow> pico_ipv4_link option \<Rightarrow> bool \<Rightarrow> pico_ipv4_link list \<Rightarrow> pico_ipv4_link option" where
  "next_of_dev dev prev valid [] = None"
| "next_of_dev dev prev valid (l # ls) =
     (if l_dev l = dev
      then (if prev = Some l then next_of_dev dev prev True ls
            else if valid then Some l else next_of_dev dev prev valid ls)
      else next_of_dev dev prev valid ls)"

definition pico_ipv4_link_by_dev_next ::
    "ipv4_state \<Rightarrow> nat \<Rightarrow> pico_ipv4_link option \<Rightarrow> pico_ipv4_link option option" where
  "pico_ipv4_link_by_dev_next s dev prev =
     map_option (next_of_dev dev prev (prev = None)) (pico_tree_foreach (Tree_dev_link s))"

definition pico_ipv4_is_broadcast :: "ipv4_state \<Rightarrow> u32 \<Rightarrow> bool option" where
  "pico_ipv4_is_broadcast s addr =
     (if addr = PICO_IP4_BCAST then Some True
      else map_option (list_ex (\<lambda>l. l_address l OR NOT (l_netmask l) = addr)) (pico_tree_foreach (Tree_dev_link s)))"

section \<open>Multicast groups\<close>

text \<open>The copy of the filter into the new list of sources; False when memory is short.\<close>

primrec insert_sources :: "u32 list \<Rightarrow> ipv4_state \<Rightarrow> u32 pico_tree \<Rightarrow> (bool \<times> ipv4_state \<times> u32 pico_tree) option" where
  "insert_sources [] s t = Some (True, s, t)"
| "insert_sources (a # as) s t =
     (let (m, s) = ip_alloc s in
      if \<not> m then Some (False, s\<lparr>ip_err := PICO_ERR_ENOMEM\<rparr>, t)
      else do {
        let (m, s) = ip_alloc s;
        (r, t) \<leftarrow> pico_tree_insert ipv4_mcast_sources_cmp t a m;
        (case r of Ins_NULL \<Rightarrow> insert_sources as s t | _ \<Rightarrow> Some (False, s, t)) })"

definition set_group :: "ipv4_state \<Rightarrow> nat \<Rightarrow> pico_mcast_group \<Rightarrow> ipv4_state" where
  "set_group s p g = s\<lparr>mcast_groups := (mcast_groups s)(p := g)\<rparr>"

definition mcast_group_update ::
    "ipv4_state \<Rightarrow> nat \<Rightarrow> u32 pico_tree option \<Rightarrow> u8 \<Rightarrow> (int \<times> ipv4_state) option" where
  "mcast_group_update s p flt mode = do {
     t \<leftarrow> delete_all ipv4_mcast_sources_cmp (MCASTSources (mcast_groups s p));
     (ok, s, t) \<leftarrow> (case flt of
         None \<Rightarrow> Some (True, s, t)
       | Some f \<Rightarrow> do { ks \<leftarrow> pico_tree_foreach f; insert_sources ks s t });
     let g = (mcast_groups s p)\<lparr>MCASTSources := t\<rparr>;
     Some (if ok then (0, set_group s p (g\<lparr>filter_mode := mode\<rparr>)) else (- 1, set_group s p g)) }"

text \<open>The link a group is joined on: that of the address, else the default link.\<close>

definition mcast_link_of :: "ipv4_state \<Rightarrow> u32 option \<Rightarrow> pico_ipv4_link option option" where
  "mcast_link_of s mcast_link = do {
     l \<leftarrow> (case mcast_link of None \<Rightarrow> Some None | Some a \<Rightarrow> pico_ipv4_link_get s a);
     Some (if l = None then mcast_default_link s else l) }"

definition igmp_state_change :: "ipv4_state \<Rightarrow> u32 \<Rightarrow> u8 \<Rightarrow> nat \<Rightarrow> ipv4_state" where
  "igmp_state_change s grp mode ev = s\<lparr>ip_calls := ip_calls s @ [Igmp_state_change grp mode ev]\<rparr>"

definition group_key :: "nat \<Rightarrow> u32 \<Rightarrow> mcast_group_key" where
  "group_key p a = \<lparr>g_ptr = p, mcast_addr = a\<rparr>"

definition mcast_find :: "ipv4_state \<Rightarrow> pico_ipv4_link \<Rightarrow> u32 \<Rightarrow> mcast_group_key option option" where
  "mcast_find s l grp = pico_tree_findKey ipv4_mcast_groups_cmp (MCASTGroups s (l_ptr l)) (group_key 0 grp)"

text \<open>Joining a group the link has, and one it does not have.\<close>

definition mcast_join_old ::
    "ipv4_state \<Rightarrow> mcast_group_key \<Rightarrow> u32 \<Rightarrow> u8 \<Rightarrow> u8 \<Rightarrow> u32 pico_tree option \<Rightarrow> (int \<times> ipv4_state) option" where
  "mcast_join_old s k grp refcnt mode flt =
     (let d = mcast_groups s (g_ptr k);
          s = set_group s (g_ptr k) (if refcnt \<noteq> 0 then d\<lparr>reference_count := reference_count d + 1\<rparr> else d)
      in mcast_group_update (igmp_state_change s grp mode PICO_IGMP_STATE_UPDATE) (g_ptr k) flt mode)"

definition mcast_new_group :: "ipv4_state \<Rightarrow> nat \<times> bool \<times> ipv4_state" where
  "mcast_new_group s =
     (let (p, s) = new_ptr s;
          s = set_group s p \<lparr>filter_mode = PICO_IP_MULTICAST_INCLUDE, reference_count = 1, MCASTSources = empty_tree\<rparr>;
          (m, s) = ip_alloc s
      in (p, m, s))"

definition mcast_join_new ::
    "ipv4_state \<Rightarrow> pico_ipv4_link \<Rightarrow> u32 \<Rightarrow> u8 \<Rightarrow> u32 pico_tree option \<Rightarrow> (int \<times> ipv4_state) option" where
  "mcast_join_new s l grp mode flt =
     (let (m, s) = ip_alloc s in
      if \<not> m then Some (- 1, s\<lparr>ip_err := PICO_ERR_ENOMEM\<rparr>)
      else
        let (p, m, s) = mcast_new_group s in do {
          (r, t) \<leftarrow> pico_tree_insert ipv4_mcast_groups_cmp (MCASTGroups s (l_ptr l)) (group_key p grp) m;
          (if r = Ins_NULL
           then mcast_group_update
                  (igmp_state_change (s\<lparr>MCASTGroups := (MCASTGroups s)(l_ptr l := t)\<rparr>) grp mode PICO_IGMP_STATE_CREATE)
                  p flt mode
           else Some (- 1, s)) })"

definition pico_ipv4_mcast_join ::
    "ipv4_state \<Rightarrow> u32 option \<Rightarrow> u32 \<Rightarrow> u8 \<Rightarrow> u8 \<Rightarrow> u32 pico_tree option \<Rightarrow> (int \<times> ipv4_state) option" where
  "pico_ipv4_mcast_join s mcast_link grp refcnt mode flt = do {
     link \<leftarrow> mcast_link_of s mcast_link;
     l \<leftarrow> link;
     g \<leftarrow> mcast_find s l grp;
     (case g of Some k \<Rightarrow> mcast_join_old s k grp refcnt mode flt | None \<Rightarrow> mcast_join_new s l grp mode flt) }"

definition pico_ipv4_mcast_leave ::
    "ipv4_state \<Rightarrow> u32 option \<Rightarrow> u32 \<Rightarrow> u8 \<Rightarrow> u8 \<Rightarrow> u32 pico_tree option \<Rightarrow> (int \<times> ipv4_state) option" where
  "pico_ipv4_mcast_leave s mcast_link grp refcnt mode flt = do {
     link \<leftarrow> mcast_link_of s mcast_link;
     (case link of
        None \<Rightarrow> Some (- 1, s)
      | Some l \<Rightarrow> do {
          g \<leftarrow> mcast_find s l grp;
          (case g of
             None \<Rightarrow> Some (- 1, s\<lparr>ip_err := PICO_ERR_EINVAL\<rparr>)
           | Some k \<Rightarrow>
               (let d = mcast_groups s (g_ptr k);
                    n = reference_count d - 1;
                    s = (if refcnt \<noteq> 0 then set_group s (g_ptr k) (d\<lparr>reference_count := n\<rparr>) else s)
                in if refcnt \<noteq> 0 \<and> n < 1 then do {
                     let s = igmp_state_change s grp mode PICO_IGMP_STATE_DELETE;
                     t \<leftarrow> delete_all ipv4_mcast_sources_cmp (MCASTSources (mcast_groups s (g_ptr k)));
                     let s = set_group s (g_ptr k) ((mcast_groups s (g_ptr k))\<lparr>MCASTSources := t\<rparr>);
                     (_, t) \<leftarrow> pico_tree_delete ipv4_mcast_groups_cmp (MCASTGroups s (l_ptr l)) (Some k);
                     Some (0, s\<lparr>MCASTGroups := (MCASTGroups s)(l_ptr l := t)\<rparr>) }
                   else do {
                     (r, s) \<leftarrow> mcast_group_update (igmp_state_change s grp mode PICO_IGMP_STATE_UPDATE) (g_ptr k) flt mode;
                     Some (if r < 0 then - 1 else 0, s) })) }) }"

text \<open>The loop over the links: whether a datagram from \<open>src\<close> to the group \<open>dst\<close> received on the
  device \<open>dev\<close> is wanted.\<close>

fun mcast_filter_loop :: "ipv4_state \<Rightarrow> u32 \<Rightarrow> u32 \<Rightarrow> nat \<Rightarrow> pico_ipv4_link list \<Rightarrow> int option" where
  "mcast_filter_loop s src dst dev [] = Some (- 1)"
| "mcast_filter_loop s src dst dev (l # ls) = do {
     g \<leftarrow> mcast_find s l dst;
     (case g of
        Some k \<Rightarrow>
          (if dev = l_dev l then do {
             let d = mcast_groups s (g_ptr k);
             srcs \<leftarrow> pico_tree_foreach (MCASTSources d);
             Some (if filter_mode d = PICO_IP_MULTICAST_INCLUDE then (if src \<in> set srcs then 0 else - 1)
                   else if filter_mode d = PICO_IP_MULTICAST_EXCLUDE then (if src \<in> set srcs then - 1 else 0)
                   else - 1) }
           else mcast_filter_loop s src dst dev ls)
      | None \<Rightarrow> mcast_filter_loop s src dst dev ls) }"

definition pico_ipv4_mcast_filter :: "ipv4_state \<Rightarrow> u32 \<Rightarrow> u32 \<Rightarrow> nat \<Rightarrow> int option" where
  "pico_ipv4_mcast_filter s src dst dev = do {
     ls \<leftarrow> pico_tree_foreach (Tree_dev_link s);
     mcast_filter_loop s src dst dev ls }"

section \<open>Changing routes\<close>

definition route_key :: "u32 \<Rightarrow> u32 \<Rightarrow> u32 \<Rightarrow> pico_ipv4_route" where
  "route_key address nm m = \<lparr>dest = address, netmask = nm, gateway = 0, r_link = None, metric = m\<rparr>"

text \<open>Where the new route leads: the link given, or the link to the gateway, which must be a
  neighbour.\<close>

definition route_target ::
    "ipv4_state \<Rightarrow> u32 \<Rightarrow> pico_ipv4_link option \<Rightarrow> (pico_err_t + pico_ipv4_link) option" where
  "route_target s gw link =
     (if gw = 0 then Some (case link of None \<Rightarrow> Inl PICO_ERR_EINVAL | Some l \<Rightarrow> Inr l)
      else do {
        r \<leftarrow> route_find s gw;
        Some (case r of
            None \<Rightarrow> Inl PICO_ERR_EHOSTUNREACH
          | Some r \<Rightarrow> if gateway r \<noteq> 0 then Inl PICO_ERR_ENETUNREACH
                      else (case r_link r of None \<Rightarrow> Inl PICO_ERR_EINVAL | Some l \<Rightarrow> Inr l)) })"

definition pico_ipv4_route_add ::
    "ipv4_state \<Rightarrow> u32 \<Rightarrow> u32 \<Rightarrow> u32 \<Rightarrow> u32 \<Rightarrow> pico_ipv4_link option \<Rightarrow> (int \<times> ipv4_state) option" where
  "pico_ipv4_route_add s address nm gw m link = do {
     found \<leftarrow> pico_tree_findKey ipv4_route_compare (Routes s) (route_key address nm m);
     (if found \<noteq> None then Some (- 1, s\<lparr>ip_err := PICO_ERR_EINVAL\<rparr>)
      else
        let (ok, s) = ip_alloc s in
        if \<not> ok then Some (- 1, s\<lparr>ip_err := PICO_ERR_ENOMEM\<rparr>)
        else do {
          target \<leftarrow> route_target s gw link;
          (case target of
             Inl e \<Rightarrow> Some (- 1, s\<lparr>ip_err := e\<rparr>)
           | Inr l \<Rightarrow> do {
               let (ok, s) = ip_alloc s;
               (r, t) \<leftarrow> pico_tree_insert ipv4_route_compare (Routes s)
                 \<lparr>dest = address, netmask = nm, gateway = gw, r_link = Some l, metric = m\<rparr> ok;
               Some (case r of Ins_NULL \<Rightarrow> (0, s\<lparr>Routes := t\<rparr>) | _ \<Rightarrow> (- 1, s)) }) }) }"

definition pico_ipv4_route_del :: "ipv4_state \<Rightarrow> u32 \<Rightarrow> u32 \<Rightarrow> u32 \<Rightarrow> (int \<times> ipv4_state) option" where
  "pico_ipv4_route_del s address nm m = do {
     found \<leftarrow> pico_tree_findKey ipv4_route_compare (Routes s) (route_key address nm m);
     (case found of
        None \<Rightarrow> Some (- 1, s\<lparr>ip_err := PICO_ERR_EINVAL\<rparr>)
      | Some r \<Rightarrow> do {
          (_, t) \<leftarrow> pico_tree_delete ipv4_route_compare (Routes s) (Some r);
          Some (0, s\<lparr>Routes := t\<rparr>) }) }"

primrec cleanup_routes_loop :: "pico_ipv4_link \<Rightarrow> pico_ipv4_route list \<Rightarrow> ipv4_state \<Rightarrow> ipv4_state option" where
  "cleanup_routes_loop l [] s = Some s"
| "cleanup_routes_loop l (r # rs) s = do {
     s \<leftarrow> (if r_link r = Some l then map_option snd (pico_ipv4_route_del s (dest r) (netmask r) (metric r)) else Some s);
     cleanup_routes_loop l rs s }"

definition pico_ipv4_cleanup_routes :: "ipv4_state \<Rightarrow> pico_ipv4_link \<Rightarrow> ipv4_state option" where
  "pico_ipv4_cleanup_routes s l = do { rs \<leftarrow> pico_tree_foreach (Routes s); cleanup_routes_loop l rs s }"

definition pico_ipv4_route_set_bcast_link :: "ipv4_state \<Rightarrow> pico_ipv4_link option \<Rightarrow> ipv4_state" where
  "pico_ipv4_route_set_bcast_link s link = (if link \<noteq> None then s\<lparr>bcast_link := link\<rparr> else s)"

section \<open>Adding and deleting links\<close>

text \<open>The first link gets the multicast route; every link joins the group of all hosts.\<close>

definition link_add_mcast :: "ipv4_state \<Rightarrow> pico_ipv4_link \<Rightarrow> ipv4_state option" where
  "link_add_mcast s l = do {
     s \<leftarrow> (if mcast_default_link s = None
          then map_option snd (pico_ipv4_route_add (s\<lparr>mcast_default_link := Some l\<rparr>)
                 (long_be 0xE0000000) (long_be 0xF0000000) (long_be 0) 1 (Some l))
          else Some s);
     map_option snd (pico_ipv4_mcast_join s (Some (l_address l)) PICO_MCAST_ALL_HOSTS 1 PICO_IP_MULTICAST_EXCLUDE None) }"

definition pico_ipv4_link_add :: "ipv4_state \<Rightarrow> nat \<Rightarrow> u32 \<Rightarrow> u32 \<Rightarrow> (int \<times> ipv4_state) option" where
  "pico_ipv4_link_add s dev address nm =
     (if dev = 0 then Some (- 1, s\<lparr>ip_err := PICO_ERR_EINVAL\<rparr>)
      else do {
        found \<leftarrow> pico_tree_findKey ipv4_link_compare (Tree_dev_link s) (link_key dev address);
        (if found \<noteq> None then Some (- 1, s\<lparr>ip_err := PICO_ERR_EADDRINUSE\<rparr>)
         else
           let (ok, s) = ip_alloc s in
           if \<not> ok then Some (- 1, s\<lparr>ip_err := PICO_ERR_ENOMEM\<rparr>)
           else
             let (ok, s) = ip_alloc s in
             if \<not> ok then Some (- 1, s\<lparr>ip_err := PICO_ERR_ENOMEM\<rparr>)
             else
               let (p, s) = new_ptr s;
                   l = \<lparr>l_ptr = p, l_dev = dev, l_address = address, l_netmask = nm\<rparr>;
                   s = s\<lparr>MCASTGroups := (MCASTGroups s)(p := empty_tree)\<rparr>;
                   (ok, s) = ip_alloc s
               in do {
                 (r, t) \<leftarrow> pico_tree_insert ipv4_link_compare (Tree_dev_link s) l ok;
                 (case r of
                    Ins_NULL \<Rightarrow> do {
                      s \<leftarrow> link_add_mcast (s\<lparr>Tree_dev_link := t\<rparr>) l;
                      (_, s) \<leftarrow> pico_ipv4_route_add s (address AND nm) nm 0 1 (Some l);
                      Some (0, if bcast_link s = None then s\<lparr>bcast_link := Some l\<rparr> else s) }
                  | _ \<Rightarrow> Some (- 1, s)) }) })"

definition link_del_mcast :: "ipv4_state \<Rightarrow> pico_ipv4_link \<Rightarrow> u32 \<Rightarrow> ipv4_state option" where
  "link_del_mcast s found address = do {
     s \<leftarrow> (if Some found = mcast_default_link s
          then map_option snd (pico_ipv4_route_del (s\<lparr>mcast_default_link := None\<rparr>)
                 (long_be 0xE0000000) (long_be 0xF0000000) 1)
          else Some s);
     (_, s) \<leftarrow> pico_ipv4_mcast_leave s (Some address) PICO_MCAST_ALL_HOSTS 1 PICO_IP_MULTICAST_EXCLUDE None;
     t \<leftarrow> delete_all ipv4_mcast_groups_cmp (MCASTGroups s (l_ptr found));
     Some (s\<lparr>MCASTGroups := (MCASTGroups s)(l_ptr found := t)\<rparr>) }"

definition pico_ipv4_link_del :: "ipv4_state \<Rightarrow> nat \<Rightarrow> u32 \<Rightarrow> (int \<times> ipv4_state) option" where
  "pico_ipv4_link_del s dev address =
     (if dev = 0 then Some (- 1, s\<lparr>ip_err := PICO_ERR_EINVAL\<rparr>)
      else do {
        found \<leftarrow> pico_tree_findKey ipv4_link_compare (Tree_dev_link s) (link_key dev address);
        (case found of
           None \<Rightarrow> Some (- 1, s\<lparr>ip_err := PICO_ERR_ENXIO\<rparr>)
         | Some l \<Rightarrow> do {
             s \<leftarrow> link_del_mcast s l address;
             s \<leftarrow> pico_ipv4_cleanup_routes s l;
             (_, t) \<leftarrow> pico_tree_delete ipv4_link_compare (Tree_dev_link s) (Some l);
             let s = s\<lparr>Tree_dev_link := t\<rparr>;
             Some (0, if bcast_link s = Some l then s\<lparr>bcast_link := None\<rparr> else s) }) })"

primrec cleanup_links_loop :: "nat \<Rightarrow> pico_ipv4_link list \<Rightarrow> ipv4_state \<Rightarrow> ipv4_state option" where
  "cleanup_links_loop dev [] s = Some s"
| "cleanup_links_loop dev (l # ls) s = do {
     s \<leftarrow> (if dev = l_dev l then map_option snd (pico_ipv4_link_del s dev (l_address l)) else Some s);
     cleanup_links_loop dev ls s }"

definition pico_ipv4_cleanup_links :: "ipv4_state \<Rightarrow> nat \<Rightarrow> ipv4_state option" where
  "pico_ipv4_cleanup_links s dev = do { ls \<leftarrow> pico_tree_foreach (Tree_dev_link s); cleanup_links_loop dev ls s }"

text \<open>What the program starts with.\<close>

definition ipv4_init :: ipv4_state where
  "ipv4_init = \<lparr>Tree_dev_link = empty_tree, Routes = empty_tree, MCASTGroups = (\<lambda>_. empty_tree),
     mcast_groups = (\<lambda>_. \<lparr>filter_mode = 0, reference_count = 0, MCASTSources = empty_tree\<rparr>), bcast_link = None,
     mcast_default_link = None, next_ptr = 1, ip_err = PICO_ERR_NOERR, ip_mem = [], ip_calls = []\<rparr>"

end
