(* ===== verification/Ipv4_Route_Props.thy ===== *)
theory Ipv4_Route_Props
  imports Ipv4_Route
begin

text \<open>
  The properties of links and routes: the compare functions are orders, so the trees are the sorted
  containers of \<open>PTree_Spec\<close>; the route that is found; the invariant that no table refers to a link
  that has been freed, over every sequence of operations.
\<close>

section \<open>The orders of the trees\<close>

definition link_valid :: "pico_ipv4_link \<Rightarrow> bool" where
  "link_valid l \<longleftrightarrow> l_dev l \<noteq> 0 \<or> l_address l \<noteq> PICO_IP4_ANY"

definition link_rank :: "pico_ipv4_link \<Rightarrow> u32 \<times> nat" where
  "link_rank l = (l_address l, if l_address l = PICO_IP4_ANY then l_dev l else 0)"

definition route_rank :: "pico_ipv4_route \<Rightarrow> u32 \<times> u32 \<times> u32" where
  "route_rank r = (long_be (netmask r), dest r, metric r)"

abbreviation every :: "'a \<Rightarrow> bool" where "every x \<equiv> True"

interpretation link_order: key_order ipv4_link_compare link_valid
  by (rule key_order_by_key [where k = link_rank])
    (auto simp: ipv4_link_compare_def key_cmp_def link_rank_def link_valid_def pico_ipv4_compare_def Let_def less_prod_def)

interpretation route_order: key_order ipv4_route_compare every
  by (rule key_order_by_key [where k = route_rank])
    (auto simp: ipv4_route_compare_def key_cmp_def route_rank_def pico_ipv4_compare_def Let_def less_prod_def)

interpretation group_order: key_order ipv4_mcast_groups_cmp every
  by (rule key_order_by_key [where k = mcast_addr]) (auto simp: ipv4_mcast_groups_cmp_def key_cmp_def pico_ipv4_compare_def)

interpretation source_order: key_order ipv4_mcast_sources_cmp every
  by (rule key_order_by_key [where k = id]) (auto simp: ipv4_mcast_sources_cmp_def key_cmp_def pico_ipv4_compare_def)

abbreviation links_are :: "ipv4_state \<Rightarrow> pico_ipv4_link list \<Rightarrow> bool" where
  "links_are s ls \<equiv> tree_inv ipv4_link_compare link_valid (Tree_dev_link s) ls"

abbreviation routes_are :: "ipv4_state \<Rightarrow> pico_ipv4_route list \<Rightarrow> bool" where
  "routes_are s rs \<equiv> tree_inv ipv4_route_compare every (Routes s) rs"

section \<open>The longest prefix\<close>

lemma route_compare_less:
  "ipv4_route_compare a b < 0 \<longleftrightarrow> route_rank a < route_rank b"
  by (auto simp: ipv4_route_compare_def route_rank_def pico_ipv4_compare_def Let_def less_prod_def)

lemma route_scan_Some:
  "route_scan addr rs = Some r \<Longrightarrow> \<exists>xs ys. rs = xs @ r # ys \<and> addr AND netmask r = dest r
     \<and> (\<forall>x \<in> set xs. addr AND netmask x \<noteq> dest x)"
proof (induction rs)
  case (Cons a rs)
  show ?case
  proof (cases "addr AND netmask a = dest a")
    case True
    then have "a # rs = [] @ r # rs \<and> addr AND netmask r = dest r" using Cons.prems by simp
    then show ?thesis by fastforce
  next
    case False
    then obtain xs ys where "rs = xs @ r # ys" "addr AND netmask r = dest r" "\<forall>x \<in> set xs. addr AND netmask x \<noteq> dest x"
      using Cons by auto
    then have "a # rs = (a # xs) @ r # ys" "\<forall>x \<in> set (a # xs). addr AND netmask x \<noteq> dest x" using False by auto
    then show ?thesis using \<open>addr AND netmask r = dest r\<close> by blast
  qed
qed simp

lemma route_scan_None: "route_scan addr rs = None \<longleftrightarrow> (\<forall>r \<in> set rs. addr AND netmask r \<noteq> dest r)"
  by (induction rs) auto

text \<open>C23: \<open>route_find\<close> returns on every well-formed table.  For an address other than 0.0.0.0 and 255.255.255.255 it
  finds a route exactly when one covers the address, and then one with the longest netmask; among the routes to the
  same network it is the one with the greatest metric.\<close>

theorem route_find_longest_prefix:
  assumes "routes_are s rs" and "addr \<noteq> PICO_IP4_ANY" and "addr \<noteq> PICO_IP4_BCAST"
  shows "\<exists>res. route_find s addr = Some res \<and>
    (case res of
       None \<Rightarrow> \<forall>r \<in> set rs. addr AND netmask r \<noteq> dest r
     | Some r \<Rightarrow> r \<in> set rs \<and> addr AND netmask r = dest r
         \<and> (\<forall>x \<in> set rs. addr AND netmask x = dest x \<longrightarrow> long_be (netmask x) \<le> long_be (netmask r)
              \<and> (netmask x = netmask r \<longrightarrow> metric x \<le> metric r)))"
proof -
  have run: "route_find s addr = Some (route_scan addr (rev rs))"
    using assms tree_inv_foreach_reverse [OF assms(1)] by (simp add: route_find_def)
  show ?thesis
  proof (cases "route_scan addr (rev rs)")
    case None
    then show ?thesis using run route_scan_None [of addr "rev rs"] by simp
  next
    case (Some r)
    then obtain xs ys where rs: "rev rs = xs @ r # ys" and m: "addr AND netmask r = dest r"
      and no: "\<forall>x \<in> set xs. addr AND netmask x \<noteq> dest x" using route_scan_Some by blast
    then have rs': "rs = rev ys @ r # rev xs" by (metis rev_append rev.simps(2) rev_rev_ident append.assoc append_Cons append_Nil)
    have less: "route_rank x < route_rank r" if "x \<in> set ys" for x
      using assms(1) that by (auto simp: tree_inv_def keys_sorted_def rs' sorted_wrt_append route_compare_less)
    have "long_be (netmask x) \<le> long_be (netmask r) \<and> (netmask x = netmask r \<longrightarrow> metric x \<le> metric r)"
      if x: "x \<in> set rs" "addr AND netmask x = dest x" for x
    proof -
      have "x = r \<or> x \<in> set ys" using x no by (auto simp: rs')
      then show ?thesis using less [of x] m x(2) by (auto simp: route_rank_def less_prod_def less_imp_le)
    qed
    moreover have "r \<in> set rs" by (simp add: rs')
    ultimately show ?thesis using run Some m by auto
  qed
qed

text \<open>A default route and a route to 10.0.0.0/8; the second is found for 10.0.0.1.\<close>

definition default_route :: pico_ipv4_route where
  "default_route = \<lparr>dest = 0, netmask = 0, gateway = 7, r_link = None, metric = 1\<rparr>"

definition ten_route :: pico_ipv4_route where
  "ten_route = \<lparr>dest = 10, netmask = 0xFF, gateway = 0, r_link = None, metric = 1\<rparr>"

theorem route_find_longest_prefix_witness:
  "\<exists>s. routes_are s [default_route, ten_route] \<and> route_find s 0x0100000A = Some (Some ten_route)"
proof -
  obtain t where "tree_inv ipv4_route_compare every t [ten_route]"
    using route_order.insert_inv [OF tree_inv_empty, where key = ten_route and mem_ok = True] by auto
  then obtain u where u: "tree_inv ipv4_route_compare every u [default_route, ten_route]"
    using route_order.insert_inv [of t "[ten_route]", where key = default_route and mem_ok = True]
    by (auto simp: ipv4_route_compare_def default_route_def ten_route_def long_be_def Let_def)
  define s where "s = ipv4_init\<lparr>Routes := u\<rparr>"
  have r: "routes_are s [default_route, ten_route]" using u by (simp add: s_def)
  obtain res where run: "route_find s 0x0100000A = Some res" and
    res: "case res of None \<Rightarrow> \<forall>r \<in> {default_route, ten_route}. 0x0100000A AND netmask r \<noteq> dest r
      | Some r \<Rightarrow> r \<in> {default_route, ten_route} \<and> (\<forall>x \<in> {default_route, ten_route}.
          0x0100000A AND netmask x = dest x \<longrightarrow> long_be (netmask x) \<le> long_be (netmask r))"
    using route_find_longest_prefix [OF r, of "0x0100000A"]
    by (fastforce simp: PICO_IP4_ANY_def PICO_IP4_BCAST_def split: option.splits)
  have "res = Some ten_route"
    using res by (cases res) (auto simp: default_route_def ten_route_def long_be_def Let_def)
  then show ?thesis using r run by blast
qed

section \<open>Multicast leaves the tables alone\<close>

definition groups_ok :: "ipv4_state \<Rightarrow> bool" where
  "groups_ok s \<longleftrightarrow> (\<forall>p. \<exists>ks. tree_inv ipv4_mcast_groups_cmp every (MCASTGroups s p) ks)
     \<and> (\<forall>p. \<exists>ks. tree_inv ipv4_mcast_sources_cmp every (MCASTSources (mcast_groups s p)) ks)"

text \<open>The same links and routes, and the trees of the groups still well formed.\<close>

definition tables_kept :: "ipv4_state \<Rightarrow> ipv4_state \<Rightarrow> bool" where
  "tables_kept s s' \<longleftrightarrow> Tree_dev_link s' = Tree_dev_link s \<and> Routes s' = Routes s
     \<and> bcast_link s' = bcast_link s \<and> mcast_default_link s' = mcast_default_link s \<and> (groups_ok s \<longrightarrow> groups_ok s')"

lemma tables_kept_refl [simp]: "tables_kept s s" by (simp add: tables_kept_def)

lemma tables_kept_trans [trans]: "tables_kept s u \<Longrightarrow> tables_kept u v \<Longrightarrow> tables_kept s v"
  by (simp add: tables_kept_def)

lemma kept_simps [simp]:
  "tables_kept s (s\<lparr>ip_err := e\<rparr>)" "tables_kept s (s\<lparr>ip_mem := m\<rparr>)" "tables_kept s (s\<lparr>next_ptr := n\<rparr>)"
  "tables_kept s (igmp_state_change s grp mode ev)"
  by (simp_all add: tables_kept_def groups_ok_def igmp_state_change_def)

lemma kept_alloc: "ip_alloc s = (b, s') \<Longrightarrow> tables_kept s s'"
  by (auto simp: ip_alloc_def split: list.split_asm)

lemma kept_new_ptr: "new_ptr s = (p, s') \<Longrightarrow> tables_kept s s'"
  by (auto simp: new_ptr_def)

lemma kept_set_group:
  "\<exists>ks. tree_inv ipv4_mcast_sources_cmp every (MCASTSources g) ks \<Longrightarrow> tables_kept s (set_group s p g)"
  by (simp add: tables_kept_def groups_ok_def set_group_def)

lemma sources_insert:
  assumes "\<exists>ks. tree_inv ipv4_mcast_sources_cmp every t ks"
  shows "\<exists>r t'. pico_tree_insert ipv4_mcast_sources_cmp t a m = Some (r, t') \<and> (\<exists>ks. tree_inv ipv4_mcast_sources_cmp every t' ks)"
proof -
  obtain ks where "tree_inv ipv4_mcast_sources_cmp every t ks" using assms by blast
  then show ?thesis
    using source_order.insert_inv [of t ks, where key = a and mem_ok = m] by (cases "keys_find ipv4_mcast_sources_cmp a ks"; cases m) auto
qed

lemma insert_sources_ok:
  "\<exists>ks. tree_inv ipv4_mcast_sources_cmp every t ks \<Longrightarrow> \<exists>ok s' t'. insert_sources as s t = Some (ok, s', t')
     \<and> tables_kept s s' \<and> mcast_groups s' = mcast_groups s \<and> (\<exists>ks. tree_inv ipv4_mcast_sources_cmp every t' ks)"
proof (induction as arbitrary: s t)
  case (Cons a as)
  obtain m1 s1 where 1: "ip_alloc s = (m1, s1)" by fastforce
  obtain m2 s2 where 2: "ip_alloc s1 = (m2, s2)" by fastforce
  have g: "mcast_groups s1 = mcast_groups s" "mcast_groups s2 = mcast_groups s"
    using 1 2 by (auto simp: ip_alloc_def split: list.split_asm)
  have k: "tables_kept s s1" "tables_kept s s2" "tables_kept s (s1\<lparr>ip_err := PICO_ERR_ENOMEM\<rparr>)"
    using kept_alloc [OF 1] kept_alloc [OF 2] tables_kept_trans kept_simps by blast+
  obtain r t' where t': "pico_tree_insert ipv4_mcast_sources_cmp t a m2 = Some (r, t')"
    "\<exists>ks. tree_inv ipv4_mcast_sources_cmp every t' ks" using sources_insert [OF Cons.prems] by blast
  obtain ok s3 t3 where "insert_sources as s2 t' = Some (ok, s3, t3)" "tables_kept s2 s3" "mcast_groups s3 = mcast_groups s2"
    "\<exists>ks. tree_inv ipv4_mcast_sources_cmp every t3 ks" using Cons.IH [OF t'(2), of s2] by blast
  then show ?case using 1 2 g k t' Cons.prems tables_kept_trans [OF k(2)]
    by (cases m1; cases r) auto
qed auto

definition filter_ok :: "u32 pico_tree option \<Rightarrow> bool" where
  "filter_ok flt \<longleftrightarrow> (\<forall>f. flt = Some f \<longrightarrow> (\<exists>ks. tree_inv ipv4_mcast_sources_cmp every f ks))"

lemma group_update_ok:
  assumes "groups_ok s" "filter_ok flt"
  shows "\<exists>r s'. mcast_group_update s p flt mode = Some (r, s') \<and> tables_kept s s'"
proof -
  obtain t where t: "delete_all ipv4_mcast_sources_cmp (MCASTSources (mcast_groups s p)) = Some t"
    "\<exists>ks. tree_inv ipv4_mcast_sources_cmp every t ks"
    using assms(1) source_order.delete_all_inv unfolding groups_ok_def by meson
  obtain ok s1 t1 where 1: "(case flt of None \<Rightarrow> Some (True, s, t)
       | Some f \<Rightarrow> do { ks \<leftarrow> pico_tree_foreach f; insert_sources ks s t }) = Some (ok, s1, t1)"
     "tables_kept s s1" "\<exists>ks. tree_inv ipv4_mcast_sources_cmp every t1 ks"
  proof (cases flt)
    case None
    then show ?thesis using that [of True s t] t by simp
  next
    case (Some f)
    then obtain ks where "pico_tree_foreach f = Some ks" using assms(2) unfolding filter_ok_def by (metis tree_inv_foreach)
    then show ?thesis using that insert_sources_ok [OF t(2), of ks s] Some by auto
  qed
  have k: "tables_kept s (set_group s1 p ((mcast_groups s1 p)\<lparr>MCASTSources := t1\<rparr>))"
    "tables_kept s (set_group s1 p ((mcast_groups s1 p)\<lparr>MCASTSources := t1, filter_mode := mode\<rparr>))"
    using 1(3) by (auto intro!: tables_kept_trans [OF 1(2)] kept_set_group)
  then show ?thesis using t(1) 1(1) by (cases ok) (auto simp: mcast_group_update_def)
qed

lemma link_of_ok:
  assumes "links_are s ls"
  shows "\<exists>l. mcast_link_of s a = Some l \<and> (\<forall>x. l = Some x \<longrightarrow> x \<in> set ls \<or> mcast_default_link s = Some x)
    \<and> (mcast_default_link s \<noteq> None \<longrightarrow> l \<noteq> None)"
proof (cases a)
  case (Some x)
  have "tree_keys (Tree_dev_link s) ls" using assms by (simp add: tree_inv_def)
  from findKey_sound [OF this, of ipv4_link_compare "link_key 0 x"] show ?thesis
    using Some by (auto simp: mcast_link_of_def pico_ipv4_link_get_def)
qed (simp add: mcast_link_of_def)

lemma group_find_ok: "groups_ok s \<Longrightarrow> \<exists>g. mcast_find s l grp = Some g"
  using group_order.find_inv unfolding groups_ok_def mcast_find_def by blast

lemma kept_groups_ok: "tables_kept s s' \<Longrightarrow> groups_ok s \<Longrightarrow> groups_ok s'"
  by (simp add: tables_kept_def)

lemma sources_ok: "groups_ok s \<Longrightarrow> \<exists>ks. tree_inv ipv4_mcast_sources_cmp every (MCASTSources (mcast_groups s p)) ks"
  by (simp add: groups_ok_def)

lemma kept_set_tree:
  "\<exists>ks. tree_inv ipv4_mcast_groups_cmp every t ks \<Longrightarrow> tables_kept s (s\<lparr>MCASTGroups := (MCASTGroups s)(p := t)\<rparr>)"
  by (simp add: tables_kept_def groups_ok_def)

lemma join_old_ok:
  assumes "groups_ok s" "filter_ok flt"
  shows "\<exists>r s'. mcast_join_old s k grp refcnt mode flt = Some (r, s') \<and> tables_kept s s'"
proof -
  define u where "u = igmp_state_change (set_group s (g_ptr k) (if refcnt \<noteq> 0
      then (mcast_groups s (g_ptr k))\<lparr>reference_count := reference_count (mcast_groups s (g_ptr k)) + 1\<rparr>
      else mcast_groups s (g_ptr k))) grp mode PICO_IGMP_STATE_UPDATE"
  have u: "tables_kept s u" unfolding u_def
    by (rule tables_kept_trans [OF kept_set_group kept_simps(4)]) (use sources_ok [OF assms(1)] in simp)
  then obtain r s' where "mcast_group_update u (g_ptr k) flt mode = Some (r, s')" "tables_kept u s'"
    using group_update_ok [OF kept_groups_ok [OF u assms(1)] assms(2)] by blast
  then show ?thesis using tables_kept_trans [OF u] by (auto simp: mcast_join_old_def u_def Let_def)
qed

lemma new_group_ok:
  assumes "mcast_new_group s = (p, m, s')"
  shows "tables_kept s s'"
proof -
  obtain q u where q: "new_ptr s = (q, u)" by fastforce
  define v where "v = set_group u q \<lparr>filter_mode = PICO_IP_MULTICAST_INCLUDE, reference_count = 1, MCASTSources = empty_tree\<rparr>"
  have "tables_kept u v" unfolding v_def by (rule kept_set_group) (auto intro: tree_inv_empty)
  moreover have "tables_kept v s'"
    using assms q kept_alloc [of v] by (auto simp: mcast_new_group_def v_def split: prod.split_asm)
  ultimately show ?thesis using kept_new_ptr [OF q] tables_kept_trans by blast
qed

lemma join_new_ok:
  assumes "groups_ok s" "filter_ok flt"
  shows "\<exists>r s'. mcast_join_new s l grp mode flt = Some (r, s') \<and> tables_kept s s'"
proof -
  obtain m1 s1 where 1: "ip_alloc s = (m1, s1)" by fastforce
  have k1: "tables_kept s s1" using kept_alloc [OF 1] .
  show ?thesis
  proof (cases m1)
    case False
    then show ?thesis using 1 k1 tables_kept_trans [OF k1] by (auto simp: mcast_join_new_def)
  next
    case True
    obtain p m s4 where 2: "mcast_new_group s1 = (p, m, s4)" by (cases "mcast_new_group s1")
    have k4: "tables_kept s s4" using tables_kept_trans [OF k1 new_group_ok [OF 2]] .
    then obtain ks where "tree_inv ipv4_mcast_groups_cmp every (MCASTGroups s4 (l_ptr l)) ks"
      using kept_groups_ok [OF k4 assms(1)] by (auto simp: groups_ok_def)
    from group_order.insert_total [OF this, where k = "group_key p grp" and m = m]
    obtain r t where t: "pico_tree_insert ipv4_mcast_groups_cmp (MCASTGroups s4 (l_ptr l)) (group_key p grp) m = Some (r, t)"
      "\<exists>ks. tree_inv ipv4_mcast_groups_cmp every t ks" by auto
    define u where "u = igmp_state_change (s4\<lparr>MCASTGroups := (MCASTGroups s4)(l_ptr l := t)\<rparr>) grp mode PICO_IGMP_STATE_CREATE"
    have ku: "tables_kept s u" unfolding u_def
      using tables_kept_trans [OF k4 tables_kept_trans [OF kept_set_tree [OF t(2)] kept_simps(4)]] .
    obtain q s' where q: "mcast_group_update u p flt mode = Some (q, s')" "tables_kept u s'"
      using group_update_ok [OF kept_groups_ok [OF ku assms(1)] assms(2)] by blast
    have "mcast_join_new s l grp mode flt = (if r = Ins_NULL then Some (q, s') else Some (- 1, s4))"
      using 1 2 True t(1) q(1) by (simp add: mcast_join_new_def u_def)
    then show ?thesis using k4 tables_kept_trans [OF ku q(2)] by auto
  qed
qed

lemma mcast_join_ok:
  assumes "links_are s ls" "groups_ok s" "filter_ok flt" "mcast_default_link s \<noteq> None"
  shows "\<exists>r s'. pico_ipv4_mcast_join s a grp refcnt mode flt = Some (r, s') \<and> tables_kept s s'"
proof -
  obtain l where l: "mcast_link_of s a = Some (Some l)" using link_of_ok [OF assms(1), of a] assms(4) by blast
  obtain g where g: "mcast_find s l grp = Some g" using group_find_ok [OF assms(2)] by blast
  show ?thesis
    using l g join_old_ok [OF assms(2,3)] join_new_ok [OF assms(2,3)] by (cases g) (simp_all add: pico_ipv4_mcast_join_def)
qed

lemma mcast_join_kept:
  assumes "groups_ok s" "filter_ok flt" "pico_ipv4_mcast_join s a grp refcnt mode flt = Some (r, s')"
  shows "tables_kept s s'"
proof -
  obtain l g where lg: "mcast_link_of s a = Some (Some l)" "mcast_find s l grp = Some g"
    using assms(3) by (auto simp: pico_ipv4_mcast_join_def bind_eq_Some_conv)
  show ?thesis
  proof (cases g)
    case None
    then have "mcast_join_new s l grp mode flt = Some (r, s')" using lg assms(3) by (simp add: pico_ipv4_mcast_join_def)
    then show ?thesis using join_new_ok [OF assms(1,2), of l grp mode] by auto
  next
    case (Some k)
    then have "mcast_join_old s k grp refcnt mode flt = Some (r, s')" using lg assms(3) by (simp add: pico_ipv4_mcast_join_def)
    then show ?thesis using join_old_ok [OF assms(1,2), of k grp refcnt mode] by auto
  qed
qed

lemma mcast_leave_ok:
  assumes "links_are s ls" "groups_ok s" "filter_ok flt"
  shows "\<exists>r s'. pico_ipv4_mcast_leave s a grp refcnt mode flt = Some (r, s') \<and> tables_kept s s'"
proof -
  obtain link where link: "mcast_link_of s a = Some link" using link_of_ok [OF assms(1), of a] by blast
  show ?thesis
  proof (cases link)
    case None
    then show ?thesis using link by (auto simp: pico_ipv4_mcast_leave_def)
  next
    case (Some l)
    obtain g where g: "mcast_find s l grp = Some g" using group_find_ok [OF assms(2)] by blast
    show ?thesis
    proof (cases g)
      case None
      then show ?thesis using link Some g by (auto simp: pico_ipv4_mcast_leave_def)
    next
      case k: (Some k)
      define d where "d = mcast_groups s (g_ptr k)"
      define u where "u = (if refcnt \<noteq> 0 then set_group s (g_ptr k) (d\<lparr>reference_count := reference_count d - 1\<rparr>) else s)"
      have "tables_kept s u" using assms(2) by (auto simp: u_def d_def groups_ok_def intro!: kept_set_group)
      then have gu: "tables_kept s (igmp_state_change u grp mode ev)" "groups_ok (igmp_state_change u grp mode ev)" for ev
        using assms(2) kept_simps(4) [of u grp mode ev] tables_kept_trans by (auto simp: tables_kept_def)
      show ?thesis
      proof (cases "refcnt \<noteq> 0 \<and> reference_count d - 1 < 1")
        case del: True
        let ?v = "igmp_state_change u grp mode PICO_IGMP_STATE_DELETE"
        obtain t where t: "delete_all ipv4_mcast_sources_cmp (MCASTSources (mcast_groups ?v (g_ptr k))) = Some t"
          "tree_inv ipv4_mcast_sources_cmp every t []"
          using gu(2) source_order.delete_all_inv unfolding groups_ok_def by meson
        define w where "w = set_group ?v (g_ptr k) ((mcast_groups ?v (g_ptr k))\<lparr>MCASTSources := t\<rparr>)"
        have w: "tables_kept s w" unfolding w_def using t(2) by (auto intro!: tables_kept_trans [OF gu(1) [of PICO_IGMP_STATE_DELETE]] kept_set_group)
        obtain ks where "tree_inv ipv4_mcast_groups_cmp every (MCASTGroups w (l_ptr l)) ks"
          using kept_groups_ok [OF w assms(2)] by (auto simp: groups_ok_def)
        from group_order.delete_inv [OF this, of k]
        obtain q t' ks' where t': "pico_tree_delete ipv4_mcast_groups_cmp (MCASTGroups w (l_ptr l)) (Some k) = Some (q, t')"
          "tree_inv ipv4_mcast_groups_cmp every t' ks'" by auto
        have "tables_kept w (w\<lparr>MCASTGroups := (MCASTGroups w)(l_ptr l := t')\<rparr>)"
          using t'(2) by (auto simp: tables_kept_def groups_ok_def)
        then have "tables_kept s (w\<lparr>MCASTGroups := (MCASTGroups w)(l_ptr l := t')\<rparr>)" using w tables_kept_trans by blast
        moreover have "pico_ipv4_mcast_leave s a grp refcnt mode flt = Some (0, w\<lparr>MCASTGroups := (MCASTGroups w)(l_ptr l := t')\<rparr>)"
          using link Some g k del t(1) t'(1)
          by (simp add: pico_ipv4_mcast_leave_def d_def [symmetric] u_def w_def Let_def)
        ultimately show ?thesis by blast
      next
        case upd: False
        let ?v = "igmp_state_change u grp mode PICO_IGMP_STATE_UPDATE"
        obtain q s' where q: "mcast_group_update ?v (g_ptr k) flt mode = Some (q, s')" "tables_kept ?v s'"
          using group_update_ok gu(2) assms(3) by blast
        have "pico_ipv4_mcast_leave s a grp refcnt mode flt = Some (if q < 0 then - 1 else 0, s')"
          using link Some g k upd q(1) by (cases "refcnt = 0") (simp_all add: pico_ipv4_mcast_leave_def Let_def d_def u_def)
        then show ?thesis using q(2) gu(1) tables_kept_trans by blast
      qed
    qed
  qed
qed

end
