(* ===== verification/Ipv4_Route_Inv.thy ===== *)
theory Ipv4_Route_Inv
  imports Ipv4_Route_Props
begin

text \<open>
  No table of \<open>modules/pico_ipv4.c\<close> refers to a freed link: the invariant \<open>ip_ok\<close>, that every
  operation on links, routes and groups returns and keeps it, and the states reachable from the
  first one.
\<close>

section \<open>The invariant\<close>

definition ip_ok :: "ipv4_state \<Rightarrow> pico_ipv4_link list \<Rightarrow> pico_ipv4_route list \<Rightarrow> bool" where
  "ip_ok s ls rs \<longleftrightarrow> links_are s ls \<and> routes_are s rs \<and> groups_ok s \<and> (\<forall>l \<in> set ls. l_dev l \<noteq> 0)
     \<and> (\<forall>r \<in> set rs. \<exists>l \<in> set ls. r_link r = Some l)
     \<and> (\<forall>l. bcast_link s = Some l \<longrightarrow> l \<in> set ls) \<and> (\<forall>l. mcast_default_link s = Some l \<longrightarrow> l \<in> set ls)"

lemma ip_ok_kept: "tables_kept s s' \<Longrightarrow> ip_ok s ls rs \<Longrightarrow> ip_ok s' ls rs"
  by (simp add: ip_ok_def tables_kept_def)

lemma kept_default: "tables_kept s s' \<Longrightarrow> mcast_default_link s' = mcast_default_link s"
  by (simp add: tables_kept_def)

lemma ip_ok_init: "ip_ok ipv4_init [] []"
proof -
  have "groups_ok ipv4_init" unfolding groups_ok_def ipv4_init_def by (simp, blast intro: tree_inv_empty)
  then show ?thesis by (simp add: ip_ok_def ipv4_init_def tree_inv_empty)
qed

section \<open>Routes\<close>

lemma route_find_ok:
  assumes "ip_ok s ls rs"
  shows "\<exists>res. route_find s a = Some res \<and> (\<forall>r l. res = Some r \<longrightarrow> r_link r = Some l \<longrightarrow> l \<in> set ls)"
proof (cases "a = PICO_IP4_ANY \<or> a = PICO_IP4_BCAST")
  case True
  then show ?thesis using assms by (auto simp: route_find_def default_bcast_route_def ip_ok_def)
next
  case False
  have rs: "routes_are s rs" "\<forall>r \<in> set rs. \<exists>l \<in> set ls. r_link r = Some l" using assms by (auto simp: ip_ok_def)
  have run: "route_find s a = Some (route_scan a (rev rs))"
    using False tree_inv_foreach_reverse [OF rs(1)] by (simp add: route_find_def)
  have "r \<in> set rs" if "route_scan a (rev rs) = Some r" for r
    using route_scan_Some [OF that] by (metis in_set_conv_decomp set_rev)
  then show ?thesis using run rs(2) by fastforce
qed

lemma route_target_ok:
  assumes "ip_ok s ls rs" "\<forall>l. link = Some l \<longrightarrow> l \<in> set ls"
  shows "\<exists>t. route_target s gw link = Some t \<and> (\<forall>l. t = Inr l \<longrightarrow> l \<in> set ls)"
proof (cases "gw = 0")
  case True
  then show ?thesis using assms(2) by (auto simp: route_target_def split: option.split)
next
  case False
  then show ?thesis using route_find_ok [OF assms(1), of gw] by (auto simp: route_target_def split: option.split)
qed

lemma route_insert_ok:
  assumes "ip_ok s ls rs" "r_link r = Some l" "l \<in> set ls"
  shows "\<exists>q t rs'. pico_tree_insert ipv4_route_compare (Routes s) r m = Some (q, t) \<and> (q = Ins_NULL \<longrightarrow> ip_ok (s\<lparr>Routes := t\<rparr>) ls rs')"
proof -
  have "routes_are s rs" using assms(1) by (simp add: ip_ok_def)
  from route_order.insert_total [OF this, where k = r and m = m]
  obtain q t ks where q: "pico_tree_insert ipv4_route_compare (Routes s) r m = Some (q, t)"
    "tree_inv ipv4_route_compare every t ks" "set ks \<subseteq> insert r (set rs)" by auto
  then have "ip_ok (s\<lparr>Routes := t\<rparr>) ls ks" using assms by (auto simp: ip_ok_def groups_ok_def)
  then show ?thesis using q(1) by blast
qed

lemma route_add_ok:
  assumes "ip_ok s ls rs" "\<forall>l. link = Some l \<longrightarrow> l \<in> set ls"
  shows "\<exists>r s' rs'. pico_ipv4_route_add s a nm gw m link = Some (r, s') \<and> ip_ok s' ls rs'
    \<and> mcast_default_link s' = mcast_default_link s"
proof -
  obtain found where found: "pico_tree_findKey ipv4_route_compare (Routes s) (route_key a nm m) = Some found"
    using route_order.find_inv assms(1) unfolding ip_ok_def by blast
  obtain m1 s1 where 1: "ip_alloc s = (m1, s1)" by fastforce
  have k1: "tables_kept s s1" using kept_alloc [OF 1] .
  have ok1: "ip_ok s1 ls rs" using ip_ok_kept [OF k1 assms(1)] .
  obtain tg where tg: "route_target s1 gw link = Some tg" "\<forall>l. tg = Inr l \<longrightarrow> l \<in> set ls"
    using route_target_ok [OF ok1 assms(2)] by blast
  obtain m2 s2 where 2: "ip_alloc s1 = (m2, s2)" by fastforce
  have k2: "tables_kept s1 s2" using kept_alloc [OF 2] .
  have ok2: "ip_ok s2 ls rs" using ip_ok_kept [OF k2 ok1] .
  have d: "mcast_default_link s1 = mcast_default_link s" "mcast_default_link s2 = mcast_default_link s"
    using kept_default [OF k1] kept_default [OF k2] by simp_all
  have err: "ip_ok (s\<lparr>ip_err := e\<rparr>) ls rs" "ip_ok (s1\<lparr>ip_err := e\<rparr>) ls rs" for e
    using ip_ok_kept [OF kept_simps(1)] assms(1) ok1 by blast+
  show ?thesis
  proof (cases "found \<noteq> None \<or> \<not> m1")
    case True
    then show ?thesis using found 1 err d by (cases "found = None") (auto simp: pico_ipv4_route_add_def)
  next
    case False
    show ?thesis
    proof (cases tg)
      case (Inl e)
      then show ?thesis using False found 1 tg err d by (auto simp: pico_ipv4_route_add_def)
    next
      case (Inr l)
      define r where "r = \<lparr>dest = a, netmask = nm, gateway = gw, r_link = Some l, metric = m\<rparr>"
      have r: "r_link r = Some l" "l \<in> set ls" using tg(2) Inr by (simp_all add: r_def)
      obtain q t rs' where q: "pico_tree_insert ipv4_route_compare (Routes s2) r m2 = Some (q, t)"
        "q = Ins_NULL \<longrightarrow> ip_ok (s2\<lparr>Routes := t\<rparr>) ls rs'" using route_insert_ok [OF ok2 r, of m2] by blast
      have "pico_ipv4_route_add s a nm gw m link = Some (case q of Ins_NULL \<Rightarrow> (0, s2\<lparr>Routes := t\<rparr>) | _ \<Rightarrow> (- 1, s2))"
        using False found 1 2 tg(1) Inr q(1) by (simp add: pico_ipv4_route_add_def r_def)
      then show ?thesis using q(2) ok2 d by (cases q) auto
    qed
  qed
qed

lemma route_del_member:
  assumes "ip_ok s ls (xs @ r # ys)"
  shows "\<exists>s'. pico_ipv4_route_del s (dest r) (netmask r) (metric r) = Some (0, s') \<and> ip_ok s' ls (xs @ ys)
    \<and> mcast_default_link s' = mcast_default_link s"
proof -
  have rs: "routes_are s (xs @ r # ys)" using assms by (simp add: ip_ok_def)
  have "pico_tree_findKey ipv4_route_compare (Routes s) (route_key (dest r) (netmask r) (metric r)) = Some (Some r)"
    using route_order.find_member [OF rs, of r]
    by (simp add: route_key_def ipv4_route_compare_def pico_ipv4_compare_def Let_def)
  moreover obtain t where "pico_tree_delete ipv4_route_compare (Routes s) (Some r) = Some (Some r, t)"
    "tree_inv ipv4_route_compare every t (xs @ ys)" using route_order.delete_member [OF rs] by blast
  ultimately show ?thesis using assms by (auto simp: pico_ipv4_route_del_def ip_ok_def groups_ok_def)
qed

lemma route_del_ok:
  assumes "ip_ok s ls rs"
  shows "\<exists>r s' rs'. pico_ipv4_route_del s a nm m = Some (r, s') \<and> ip_ok s' ls rs'
    \<and> mcast_default_link s' = mcast_default_link s"
proof -
  have rs: "routes_are s rs" using assms by (simp add: ip_ok_def)
  define k where "k = route_key a nm m"
  have f: "pico_tree_findKey ipv4_route_compare (Routes s) k = Some (keys_find ipv4_route_compare k rs)"
    using route_order.find_inv [OF rs] by simp
  show ?thesis
  proof (cases "keys_find ipv4_route_compare k rs")
    case None
    then show ?thesis using f ip_ok_kept [OF kept_simps(1) assms, of PICO_ERR_EINVAL]
      by (auto simp: pico_ipv4_route_del_def k_def intro!: exI [of _ rs])
  next
    case (Some r)
    obtain t ks where "pico_tree_delete ipv4_route_compare (Routes s) (Some r) = Some (keys_find ipv4_route_compare r rs, t)"
      "tree_inv ipv4_route_compare every t ks" "set ks \<subseteq> set rs"
      using route_order.delete_subset [OF rs, of r] by auto
    then show ?thesis using f Some assms by (fastforce simp: pico_ipv4_route_del_def k_def ip_ok_def groups_ok_def)
  qed
qed

lemma cleanup_loop_ok:
  "ip_ok s ls (ps @ qs) \<Longrightarrow> \<forall>p \<in> set ps. r_link p \<noteq> Some l \<Longrightarrow>
    \<exists>s' rs'. cleanup_routes_loop l qs s = Some s' \<and> ip_ok s' ls rs' \<and> (\<forall>r \<in> set rs'. r_link r \<noteq> Some l)
      \<and> mcast_default_link s' = mcast_default_link s"
proof (induction qs arbitrary: s ps)
  case Nil
  then show ?case by auto
next
  case (Cons q qs)
  show ?case
  proof (cases "r_link q = Some l")
    case True
    obtain s1 where s1: "pico_ipv4_route_del s (dest q) (netmask q) (metric q) = Some (0, s1)" "ip_ok s1 ls (ps @ qs)"
      "mcast_default_link s1 = mcast_default_link s" using route_del_member [OF Cons.prems(1)] by blast
    then show ?thesis using Cons.IH [OF s1(2) Cons.prems(2)] True by simp
  next
    case False
    then show ?thesis using Cons.IH [of s "ps @ [q]"] Cons.prems by simp
  qed
qed

lemma cleanup_routes_ok:
  assumes "ip_ok s ls rs"
  shows "\<exists>s' rs'. pico_ipv4_cleanup_routes s l = Some s' \<and> ip_ok s' ls rs' \<and> (\<forall>r \<in> set rs'. r_link r \<noteq> Some l)
    \<and> mcast_default_link s' = mcast_default_link s"
  using cleanup_loop_ok [of s ls "[]" rs l] assms tree_inv_foreach [of ipv4_route_compare every "Routes s" rs]
  by (simp add: pico_ipv4_cleanup_routes_def ip_ok_def)

section \<open>Deleting links\<close>

lemma delete_groups_ok:
  assumes "groups_ok s"
  shows "\<exists>t. delete_all ipv4_mcast_groups_cmp (MCASTGroups s p) = Some t
    \<and> tables_kept s (s\<lparr>MCASTGroups := (MCASTGroups s)(p := t)\<rparr>)"
  using assms group_order.delete_all_inv kept_set_tree unfolding groups_ok_def by meson

lemma link_del_mcast_ok:
  assumes "ip_ok s ls rs"
  shows "\<exists>s' rs'. link_del_mcast s l a = Some s' \<and> ip_ok s' ls rs' \<and> mcast_default_link s' \<noteq> Some l"
proof -
  obtain s1 rs1 where s1: "(if Some l = mcast_default_link s
          then map_option snd (pico_ipv4_route_del (s\<lparr>mcast_default_link := None\<rparr>)
                 (long_be 0xE0000000) (long_be 0xF0000000) 1)
          else Some s) = Some s1" "ip_ok s1 ls rs1" "mcast_default_link s1 \<noteq> Some l"
  proof (cases "Some l = mcast_default_link s")
    case True
    have "ip_ok (s\<lparr>mcast_default_link := None\<rparr>) ls rs" using assms by (simp add: ip_ok_def groups_ok_def)
    from route_del_ok [OF this, of "long_be 0xE0000000" "long_be 0xF0000000" 1] obtain r u us where
      "pico_ipv4_route_del (s\<lparr>mcast_default_link := None\<rparr>) (long_be 0xE0000000) (long_be 0xF0000000) 1 = Some (r, u)"
      "ip_ok u ls us" "mcast_default_link u = None" by auto
    then show ?thesis using that [of u us] by (simp add: True [symmetric])
  next
    case False
    then show ?thesis using that [of s rs] assms by auto
  qed
  have ok1: "links_are s1 ls" "groups_ok s1" "filter_ok None" using s1(2) by (simp_all add: ip_ok_def filter_ok_def)
  obtain r s2 where s2: "pico_ipv4_mcast_leave s1 (Some a) PICO_MCAST_ALL_HOSTS 1 PICO_IP_MULTICAST_EXCLUDE None = Some (r, s2)"
    "tables_kept s1 s2" using mcast_leave_ok [OF ok1] by blast
  obtain t where t: "delete_all ipv4_mcast_groups_cmp (MCASTGroups s2 (l_ptr l)) = Some t"
    "tables_kept s2 (s2\<lparr>MCASTGroups := (MCASTGroups s2)(l_ptr l := t)\<rparr>)"
    using delete_groups_ok [OF kept_groups_ok [OF s2(2) ok1(2)]] by blast
  have k: "tables_kept s1 (s2\<lparr>MCASTGroups := (MCASTGroups s2)(l_ptr l := t)\<rparr>)" using tables_kept_trans [OF s2(2) t(2)] .
  have "link_del_mcast s l a = Some (s2\<lparr>MCASTGroups := (MCASTGroups s2)(l_ptr l := t)\<rparr>)"
    unfolding link_del_mcast_def s1(1) by (simp add: s2(1) t(1))
  then show ?thesis using ip_ok_kept [OF k s1(2)] kept_default [OF k] s1(3) by auto
qed

lemma link_remove_ok:
  assumes "ip_ok s (xs @ l # ys) rs" "\<forall>r \<in> set rs. r_link r \<noteq> Some l" "mcast_default_link s \<noteq> Some l"
    and "tree_inv ipv4_link_compare link_valid t (xs @ ys)"
  shows "ip_ok (let s = s\<lparr>Tree_dev_link := t\<rparr> in if bcast_link s = Some l then s\<lparr>bcast_link := None\<rparr> else s) (xs @ ys) rs"
  using assms by (auto simp: ip_ok_def groups_ok_def Let_def)

lemma link_del_member:
  assumes "ip_ok s (xs @ l # ys) rs" "d \<noteq> 0"
    and "pico_tree_findKey ipv4_link_compare (Tree_dev_link s) (link_key d a) = Some (Some l)"
  shows "\<exists>s' rs'. pico_ipv4_link_del s d a = Some (0, s') \<and> ip_ok s' (xs @ ys) rs'"
proof -
  obtain s1 rs1 where 1: "link_del_mcast s l a = Some s1" "ip_ok s1 (xs @ l # ys) rs1" "mcast_default_link s1 \<noteq> Some l"
    using link_del_mcast_ok [OF assms(1)] by blast
  obtain s2 rs2 where 2: "pico_ipv4_cleanup_routes s1 l = Some s2" "ip_ok s2 (xs @ l # ys) rs2"
    "\<forall>r \<in> set rs2. r_link r \<noteq> Some l" "mcast_default_link s2 = mcast_default_link s1"
    using cleanup_routes_ok [OF 1(2)] by blast
  have "links_are s2 (xs @ l # ys)" using 2(2) by (simp add: ip_ok_def)
  then obtain t where t: "pico_tree_delete ipv4_link_compare (Tree_dev_link s2) (Some l) = Some (Some l, t)"
    "tree_inv ipv4_link_compare link_valid t (xs @ ys)" using link_order.delete_member by blast
  have "ip_ok (let s = s2\<lparr>Tree_dev_link := t\<rparr> in if bcast_link s = Some l then s\<lparr>bcast_link := None\<rparr> else s) (xs @ ys) rs2"
    using link_remove_ok [OF 2(2,3) _ t(2)] 2(4) 1(3) by simp
  then show ?thesis using assms(2,3) 1(1) 2(1) t(1) by (auto simp: pico_ipv4_link_del_def Let_def)
qed

lemma link_key_valid: "d \<noteq> 0 \<Longrightarrow> link_valid (link_key d a)"
  by (simp add: link_valid_def link_key_def)

lemma link_del_ok:
  assumes "ip_ok s ls rs"
  shows "\<exists>r s' ls' rs'. pico_ipv4_link_del s d a = Some (r, s') \<and> ip_ok s' ls' rs'"
proof (cases "d = 0")
  case True
  then show ?thesis using ip_ok_kept [OF kept_simps(1) assms] by (auto simp: pico_ipv4_link_del_def)
next
  case d: False
  have ls: "links_are s ls" using assms by (simp add: ip_ok_def)
  have f: "pico_tree_findKey ipv4_link_compare (Tree_dev_link s) (link_key d a) = Some (keys_find ipv4_link_compare (link_key d a) ls)"
    using link_order.find_inv [OF ls link_key_valid [OF d]] .
  show ?thesis
  proof (cases "keys_find ipv4_link_compare (link_key d a) ls")
    case None
    then show ?thesis using f d ip_ok_kept [OF kept_simps(1) assms] by (auto simp: pico_ipv4_link_del_def)
  next
    case (Some l)
    then obtain xs ys where "ls = xs @ l # ys" by (meson link_order.find_Some split_list)
    then show ?thesis using link_del_member [of s xs l ys rs d a] assms d f Some by auto
  qed
qed

lemma cleanup_links_loop_ok:
  "ip_ok s (ps @ qs) rs \<Longrightarrow> \<forall>p \<in> set ps. l_dev p \<noteq> d \<Longrightarrow>
    \<exists>s' ls' rs'. cleanup_links_loop d qs s = Some s' \<and> ip_ok s' ls' rs' \<and> (\<forall>l \<in> set ls'. l_dev l \<noteq> d)"
proof (induction qs arbitrary: s ps rs)
  case Nil
  then show ?case by auto
next
  case (Cons q qs)
  have q: "l_dev q \<noteq> 0" "links_are s (ps @ q # qs)" using Cons.prems(1) by (simp_all add: ip_ok_def)
  show ?case
  proof (cases "l_dev q = d")
    case True
    have "pico_tree_findKey ipv4_link_compare (Tree_dev_link s) (link_key d (l_address q)) = Some (Some q)"
      using link_order.find_member [OF q(2), of q "link_key d (l_address q)"] q(1) True
      by (simp add: link_key_valid) (simp add: link_key_def ipv4_link_compare_def pico_ipv4_compare_def Let_def)
    then obtain s1 rs1 where s1: "pico_ipv4_link_del s d (l_address q) = Some (0, s1)" "ip_ok s1 (ps @ qs) rs1"
      using link_del_member [OF Cons.prems(1)] q(1) True by blast
    then show ?thesis using Cons.IH [OF s1(2) Cons.prems(2)] True by simp
  next
    case False
    then show ?thesis using Cons.IH [of s "ps @ [q]" rs] Cons.prems by simp
  qed
qed

lemma cleanup_links_ok:
  assumes "ip_ok s ls rs"
  shows "\<exists>s' ls' rs'. pico_ipv4_cleanup_links s d = Some s' \<and> ip_ok s' ls' rs' \<and> (\<forall>l \<in> set ls'. l_dev l \<noteq> d)"
  using cleanup_links_loop_ok [of s "[]" ls rs d] assms tree_inv_foreach [of ipv4_link_compare link_valid "Tree_dev_link s" ls]
  by (simp add: pico_ipv4_cleanup_links_def ip_ok_def)

section \<open>Adding links\<close>

lemma link_add_mcast_ok:
  assumes "ip_ok s ls rs" "l \<in> set ls"
  shows "\<exists>s' rs'. link_add_mcast s l = Some s' \<and> ip_ok s' ls rs'"
proof -
  obtain s1 rs1 where s1: "(if mcast_default_link s = None
          then map_option snd (pico_ipv4_route_add (s\<lparr>mcast_default_link := Some l\<rparr>)
                 (long_be 0xE0000000) (long_be 0xF0000000) (long_be 0) 1 (Some l))
          else Some s) = Some s1" "ip_ok s1 ls rs1" "mcast_default_link s1 \<noteq> None"
  proof (cases "mcast_default_link s = None")
    case True
    have "ip_ok (s\<lparr>mcast_default_link := Some l\<rparr>) ls rs" "\<forall>x. Some l = Some x \<longrightarrow> x \<in> set ls"
      using assms by (simp_all add: ip_ok_def groups_ok_def)
    from route_add_ok [OF this, of "long_be 0xE0000000" "long_be 0xF0000000" "long_be 0" 1] obtain r u us where
      "pico_ipv4_route_add (s\<lparr>mcast_default_link := Some l\<rparr>) (long_be 0xE0000000) (long_be 0xF0000000) (long_be 0) 1 (Some l)
        = Some (r, u)" "ip_ok u ls us" "mcast_default_link u = Some l" by auto
    then show ?thesis using that [of u us] True by simp
  next
    case False
    then show ?thesis using that [of s rs] assms by auto
  qed
  have ok1: "links_are s1 ls" "groups_ok s1" "filter_ok None" using s1(2) by (simp_all add: ip_ok_def filter_ok_def)
  obtain r s2 where s2: "pico_ipv4_mcast_join s1 (Some (l_address l)) PICO_MCAST_ALL_HOSTS 1 PICO_IP_MULTICAST_EXCLUDE None = Some (r, s2)"
    "tables_kept s1 s2" using mcast_join_ok [OF ok1 s1(3)] by blast
  have "link_add_mcast s l = Some s2" unfolding link_add_mcast_def s1(1) by (simp add: s2(1))
  then show ?thesis using ip_ok_kept [OF s2(2) s1(2)] by blast
qed

lemma link_insert_ok:
  assumes "ip_ok s ls rs" "l_dev l \<noteq> 0"
  shows "\<exists>q t ls'. pico_tree_insert ipv4_link_compare (Tree_dev_link s) l m = Some (q, t)
    \<and> (q = Ins_NULL \<longrightarrow> ip_ok (s\<lparr>Tree_dev_link := t\<rparr>) ls' rs \<and> set ls' = insert l (set ls))"
proof -
  have "links_are s ls" "link_valid l" using assms by (simp_all add: ip_ok_def link_valid_def)
  from link_order.insert_total [OF this, where m = m]
  obtain q t ks where q: "pico_tree_insert ipv4_link_compare (Tree_dev_link s) l m = Some (q, t)"
    "tree_inv ipv4_link_compare link_valid t ks" "q = Ins_NULL \<longrightarrow> set ks = insert l (set ls)" by auto
  then have "q = Ins_NULL \<longrightarrow> ip_ok (s\<lparr>Tree_dev_link := t\<rparr>) ks rs" using assms by (auto simp: ip_ok_def groups_ok_def)
  then show ?thesis using q(1,3) by blast
qed

lemma link_new_ok:
  assumes "ip_ok s ls rs" "l \<in> set ls"
  shows "\<exists>s1 r s2 rs'. link_add_mcast s l = Some s1 \<and> pico_ipv4_route_add s1 a nm 0 m (Some l) = Some (r, s2)
    \<and> ip_ok (if bcast_link s2 = None then s2\<lparr>bcast_link := Some l\<rparr> else s2) ls rs'"
proof -
  obtain s1 rs1 where 1: "link_add_mcast s l = Some s1" "ip_ok s1 ls rs1" using link_add_mcast_ok [OF assms] by blast
  have "\<forall>x. Some l = Some x \<longrightarrow> x \<in> set ls" using assms(2) by simp
  from route_add_ok [OF 1(2) this] obtain r s2 rs2 where
    2: "pico_ipv4_route_add s1 a nm 0 m (Some l) = Some (r, s2)" "ip_ok s2 ls rs2" by blast
  have "ip_ok (if bcast_link s2 = None then s2\<lparr>bcast_link := Some l\<rparr> else s2) ls rs2"
    using 2(2) assms(2) by (auto simp: ip_ok_def groups_ok_def)
  then show ?thesis using 1(1) 2(1) by blast
qed

lemma link_add_ok:
  assumes "ip_ok s ls rs"
  shows "\<exists>r s' ls' rs'. pico_ipv4_link_add s d a nm = Some (r, s') \<and> ip_ok s' ls' rs'"
proof (cases "d = 0")
  case True
  then show ?thesis using ip_ok_kept [OF kept_simps(1) assms] by (auto simp: pico_ipv4_link_add_def)
next
  case d: False
  have ls: "links_are s ls" using assms by (simp add: ip_ok_def)
  obtain found where f: "pico_tree_findKey ipv4_link_compare (Tree_dev_link s) (link_key d a) = Some found"
    using link_order.find_inv [OF ls link_key_valid [OF d]] by blast
  obtain m1 s1 where 1: "ip_alloc s = (m1, s1)" by fastforce
  obtain m2 s2 where 2: "ip_alloc s1 = (m2, s2)" by fastforce
  obtain p s3 where 3: "new_ptr s2 = (p, s3)" by fastforce
  define u where "u = s3\<lparr>MCASTGroups := (MCASTGroups s3)(p := empty_tree)\<rparr>"
  obtain m4 s4 where 4: "ip_alloc u = (m4, s4)" by fastforce
  define l where "l = \<lparr>l_ptr = p, l_dev = d, l_address = a, l_netmask = nm\<rparr>"
  have "tables_kept s3 u" unfolding u_def by (rule kept_set_tree) (blast intro: tree_inv_empty)
  then have k: "tables_kept s s1" "tables_kept s s2" "tables_kept s s4"
    using kept_alloc [OF 1] kept_alloc [OF 2] kept_new_ptr [OF 3] kept_alloc [OF 4] tables_kept_trans by meson+
  have ok: "ip_ok s4 ls rs" "ip_ok (s\<lparr>ip_err := e\<rparr>) ls rs" "ip_ok (s1\<lparr>ip_err := e\<rparr>) ls rs" "ip_ok (s2\<lparr>ip_err := e\<rparr>) ls rs" for e
    using ip_ok_kept [OF _ assms] k kept_simps(1) tables_kept_trans by meson+
  have "l_dev l \<noteq> 0" using d by (simp add: l_def)
  from link_insert_ok [OF ok(1) this, of m4] obtain q t ls' where
    q: "pico_tree_insert ipv4_link_compare (Tree_dev_link s4) l m4 = Some (q, t)"
    "q = Ins_NULL \<longrightarrow> ip_ok (s4\<lparr>Tree_dev_link := t\<rparr>) ls' rs \<and> set ls' = insert l (set ls)" by blast
  show ?thesis
  proof (cases "found = None \<and> m1 \<and> m2")
    case False
    then show ?thesis using f d 1 2 ok(2-4)
      by (cases "found = None"; cases m1) (auto simp: pico_ipv4_link_add_def intro!: exI [of _ ls] exI [of _ rs])
  next
    case found: True
    have run: "pico_ipv4_link_add s d a nm = (case q of
        Ins_NULL \<Rightarrow> do {
          s \<leftarrow> link_add_mcast (s4\<lparr>Tree_dev_link := t\<rparr>) l;
          (_, s) \<leftarrow> pico_ipv4_route_add s (a AND nm) nm 0 1 (Some l);
          Some (0, if bcast_link s = None then s\<lparr>bcast_link := Some l\<rparr> else s) }
      | _ \<Rightarrow> Some (- 1, s4))"
      using found f d 1 2 3 4 q(1) by (simp add: pico_ipv4_link_add_def u_def [symmetric] l_def [symmetric])
    show ?thesis
    proof (cases "q = Ins_NULL")
      case True
      then have "ip_ok (s4\<lparr>Tree_dev_link := t\<rparr>) ls' rs" "l \<in> set ls'" using q(2) by auto
      from link_new_ok [OF this, of "a AND nm" nm 1] show ?thesis using run True by (auto, blast+)
    next
      case False
      then show ?thesis using run ok(1) by (cases q) auto
    qed
  qed
qed

section \<open>The states of the program\<close>

text \<open>One call of an operation that changes the tables, by the rest of the stack or by the
  application; a link that is passed is one of the table.  The memory supply may change between
  calls.\<close>

inductive ip_step :: "ipv4_state \<Rightarrow> ipv4_state \<Rightarrow> bool" where
  Step_link_add: "pico_ipv4_link_add s d a nm = Some (r, s') \<Longrightarrow> ip_step s s'"
| Step_link_del: "pico_ipv4_link_del s d a = Some (r, s') \<Longrightarrow> ip_step s s'"
| Step_cleanup_links: "pico_ipv4_cleanup_links s d = Some s' \<Longrightarrow> ip_step s s'"
| Step_route_add: "\<lbrakk> pico_ipv4_route_add s a nm gw m link = Some (r, s'); pico_tree_foreach (Tree_dev_link s) = Some ls;
      \<forall>l. link = Some l \<longrightarrow> l \<in> set ls \<rbrakk> \<Longrightarrow> ip_step s s'"
| Step_route_del: "pico_ipv4_route_del s a nm m = Some (r, s') \<Longrightarrow> ip_step s s'"
| Step_bcast_link: "\<lbrakk> pico_tree_foreach (Tree_dev_link s) = Some ls; \<forall>l. link = Some l \<longrightarrow> l \<in> set ls \<rbrakk>
      \<Longrightarrow> ip_step s (pico_ipv4_route_set_bcast_link s link)"
| Step_join: "\<lbrakk> pico_ipv4_mcast_join s la grp refcnt mode flt = Some (r, s'); filter_ok flt \<rbrakk> \<Longrightarrow> ip_step s s'"
| Step_leave: "\<lbrakk> pico_ipv4_mcast_leave s la grp refcnt mode flt = Some (r, s'); filter_ok flt \<rbrakk> \<Longrightarrow> ip_step s s'"
| Step_memory: "ip_step s (s\<lparr>ip_mem := m\<rparr>)"

definition ip_reach :: "ipv4_state \<Rightarrow> bool" where
  "ip_reach s \<longleftrightarrow> ip_step\<^sup>*\<^sup>* ipv4_init s"

lemma ip_step_ok:
  assumes "ip_step s s'" "ip_ok s ls rs"
  shows "\<exists>ls' rs'. ip_ok s' ls' rs'"
proof -
  have t: "pico_tree_foreach (Tree_dev_link s) = Some ls" "groups_ok s" "links_are s ls"
    using assms(2) tree_inv_foreach by (auto simp: ip_ok_def)
  from assms(1) show ?thesis
  proof cases
    case (Step_link_add d a nm r)
    then show ?thesis using link_add_ok [OF assms(2), of d a nm] by auto
  next
    case (Step_link_del d a r)
    then show ?thesis using link_del_ok [OF assms(2), of d a] by auto
  next
    case (Step_cleanup_links d)
    then show ?thesis using cleanup_links_ok [OF assms(2), of d] by auto
  next
    case (Step_route_add a nm gw m link r ls')
    then show ?thesis using route_add_ok [OF assms(2), of link a nm gw m] t(1) by auto
  next
    case (Step_route_del a nm m r)
    then show ?thesis using route_del_ok [OF assms(2), of a nm m] by auto
  next
    case (Step_bcast_link ls' link)
    then have "ip_ok s' ls rs" using assms(2) t(1) by (auto simp: pico_ipv4_route_set_bcast_link_def ip_ok_def groups_ok_def)
    then show ?thesis by blast
  next
    case (Step_join la grp refcnt mode flt r)
    then show ?thesis using ip_ok_kept [OF mcast_join_kept assms(2)] t(2) by blast
  next
    case (Step_leave la grp refcnt mode flt r)
    then show ?thesis using mcast_leave_ok [OF t(3,2), of flt la grp refcnt mode] ip_ok_kept [OF _ assms(2)] by fastforce
  next
    case (Step_memory m)
    then show ?thesis using ip_ok_kept [OF kept_simps(2) assms(2)] by blast
  qed
qed

lemma ip_reach_ok: "ip_reach s \<Longrightarrow> \<exists>ls rs. ip_ok s ls rs"
  unfolding ip_reach_def
proof (induction rule: rtranclp_induct)
  case base
  then show ?case using ip_ok_init by blast
next
  case (step s u)
  then show ?case using ip_step_ok by blast
qed

text \<open>C22: in every reachable state, every route, the broadcast route and the default link of
  multicast refer to links of the table, so to none that has been freed; adding and deleting a
  link return, and the cleanup of a device leaves no link of it.\<close>

theorem ipv4_no_dangling_link:
  assumes "ip_reach s"
  shows "\<exists>ls rs. pico_tree_foreach (Tree_dev_link s) = Some ls \<and> pico_tree_foreach (Routes s) = Some rs
     \<and> (\<forall>r \<in> set rs. \<exists>l \<in> set ls. r_link r = Some l)
     \<and> (\<forall>l. bcast_link s = Some l \<or> mcast_default_link s = Some l \<longrightarrow> l \<in> set ls)
     \<and> (\<forall>d a nm. pico_ipv4_link_add s d a nm \<noteq> None \<and> pico_ipv4_link_del s d a \<noteq> None)
     \<and> (\<forall>d. \<exists>s' ls'. pico_ipv4_cleanup_links s d = Some s' \<and> pico_tree_foreach (Tree_dev_link s') = Some ls'
          \<and> (\<forall>l \<in> set ls'. l_dev l \<noteq> d))"
proof -
  obtain ls rs where ok: "ip_ok s ls rs" using ip_reach_ok [OF assms] by blast
  have "\<exists>s' ls'. pico_ipv4_cleanup_links s d = Some s' \<and> pico_tree_foreach (Tree_dev_link s') = Some ls'
      \<and> (\<forall>l \<in> set ls'. l_dev l \<noteq> d)" for d
    using cleanup_links_ok [OF ok, of d] tree_inv_foreach unfolding ip_ok_def by blast
  moreover have "pico_ipv4_link_add s d a nm \<noteq> None \<and> pico_ipv4_link_del s d a \<noteq> None" for d a nm
    using link_add_ok [OF ok, of d a nm] link_del_ok [OF ok, of d a] by auto
  moreover have "pico_tree_foreach (Tree_dev_link s) = Some ls" "pico_tree_foreach (Routes s) = Some rs"
    using ok tree_inv_foreach unfolding ip_ok_def by blast+
  ultimately show ?thesis using ok by (auto simp: ip_ok_def)
qed

text \<open>The state after a link 10.0.0.1/8 was added on device 1 is reachable.\<close>

theorem ipv4_no_dangling_link_witness:
  "\<exists>r s ls. pico_ipv4_link_add ipv4_init 1 0x0100000A 0xFF = Some (r, s) \<and> pico_tree_foreach (Tree_dev_link s) = Some ls
     \<and> (\<forall>l. bcast_link s = Some l \<longrightarrow> l \<in> set ls)"
proof -
  obtain r s where s: "pico_ipv4_link_add ipv4_init 1 0x0100000A 0xFF = Some (r, s)"
    using link_add_ok [OF ip_ok_init, of 1 "0x0100000A" "0xFF"] by blast
  then have "ip_reach s" unfolding ip_reach_def by (blast intro: Step_link_add)
  from ipv4_no_dangling_link [OF this] show ?thesis using s by blast
qed

end
