(* ===== verification/Ip_Frame.thy ===== *)
theory Ip_Frame
  imports Ipv4_Addr Checksum
begin

text \<open>
  Frames as the IPv4 layer sees them: the bytes from \<open>net_hdr\<close> to the end of the buffer, the
  lengths and offsets the headers give, and the fields of \<open>struct pico_frame\<close> the layer uses.
  Multi-byte fields are read and written as the host (little-endian) does.  A field outside the
  buffer is the business of the operations: they test with \<open>in_buffer\<close> and are \<open>None\<close> there.
\<close>

section \<open>Fields in a buffer\<close>

definition get16 :: "u8 list \<Rightarrow> nat \<Rightarrow> u16" where
  "get16 bs o' = push_bit 8 (ucast (bs ! (o' + 1))) + ucast (bs ! o')"

definition get32 :: "u8 list \<Rightarrow> nat \<Rightarrow> u32" where
  "get32 bs o' = push_bit 24 (ucast (bs ! (o' + 3))) + push_bit 16 (ucast (bs ! (o' + 2)))
     + push_bit 8 (ucast (bs ! (o' + 1))) + ucast (bs ! o')"

definition put16 :: "u8 list \<Rightarrow> nat \<Rightarrow> u16 \<Rightarrow> u8 list" where
  "put16 bs o' v = bs[o' := ucast v, o' + 1 := ucast (drop_bit 8 v)]"

definition put32 :: "u8 list \<Rightarrow> nat \<Rightarrow> u32 \<Rightarrow> u8 list" where
  "put32 bs o' v = bs[o' := ucast v, o' + 1 := ucast (drop_bit 8 v), o' + 2 := ucast (drop_bit 16 v), o' + 3 := ucast (drop_bit 24 v)]"

lemma length_put [simp]: "length (put16 bs i v) = length bs" "length (put32 bs i w) = length bs"
  by (simp_all add: put16_def put32_def)

lemma u16_bytes: "push_bit 8 (ucast (ucast (drop_bit 8 v) :: u8)) + ucast (ucast v :: u8) = (v :: u16)"
proof -
  have a: "(push_bit 8 (ucast (ucast (drop_bit 8 v) :: u8)) :: u16) = push_bit 8 (drop_bit 8 v)" "ucast (ucast v :: u8) = take_bit 8 v"
    by (rule bit_word_eqI; auto simp: bit_simps)+
  have "push_bit 8 (drop_bit 8 v) + take_bit 8 v = push_bit 8 (drop_bit 8 v) OR take_bit 8 v"
    by (rule disjunctive_add) (auto simp: bit_simps)
  also have "\<dots> = v"
  proof (rule bit_word_eqI)
    fix n assume "n < LENGTH(16)"
    then show "bit (push_bit 8 (drop_bit 8 v) OR take_bit 8 v) n = bit v n" by (cases "n < 8") (auto simp: bit_simps)
  qed
  finally show ?thesis by (simp only: a)
qed

lemma u32_bytes:
  "push_bit 24 (ucast (ucast (drop_bit 24 w) :: u8)) + push_bit 16 (ucast (ucast (drop_bit 16 w) :: u8))
     + push_bit 8 (ucast (ucast (drop_bit 8 w) :: u8)) + ucast (ucast w :: u8) = (w :: u32)"
  using long_from_bytes [of w] by (simp add: long_from_def bytes_of_u32_def)

lemma get_put_same [simp]:
  "i + 2 \<le> length bs \<Longrightarrow> get16 (put16 bs i v) i = v"
  "i + 4 \<le> length bs \<Longrightarrow> get32 (put32 bs i w) i = w"
  by (simp_all add: get16_def put16_def get32_def put32_def nth_list_update u16_bytes u32_bytes)

lemma nth_put [simp]:
  "j < i \<or> i + 2 \<le> j \<Longrightarrow> put16 bs i v ! j = bs ! j"
  "j < i \<or> i + 4 \<le> j \<Longrightarrow> put32 bs i w ! j = bs ! j"
  by (auto simp: put16_def put32_def)

lemma get_put_other [simp]:
  "j + 2 \<le> i \<or> i + 2 \<le> j \<Longrightarrow> get16 (put16 bs i v) j = get16 bs j"
  "j + 4 \<le> i \<or> i + 2 \<le> j \<Longrightarrow> get32 (put16 bs i v) j = get32 bs j"
  "j + 2 \<le> i \<or> i + 4 \<le> j \<Longrightarrow> get16 (put32 bs i w) j = get16 bs j"
  "j + 4 \<le> i \<or> i + 4 \<le> j \<Longrightarrow> get32 (put32 bs i w) j = get32 bs j"
  by (auto simp: get16_def get32_def)

lemma nth_upd_other [simp]: "j \<noteq> i \<Longrightarrow> bs[i := x] ! j = bs ! j" by simp

lemma get_upd_other [simp]:
  "j + 2 \<le> i \<or> i < j \<Longrightarrow> get16 (bs[i := x]) j = get16 bs j"
  "j + 4 \<le> i \<or> i < j \<Longrightarrow> get32 (bs[i := x]) j = get32 bs j"
  by (auto simp: get16_def get32_def)

section \<open>The IPv4 header\<close>

definition PICO_SIZE_IP4HDR :: nat where "PICO_SIZE_IP4HDR = 20"
definition PICO_IPV4_DONTFRAG :: u16 where "PICO_IPV4_DONTFRAG = 0x4000"
definition PICO_IPV4_MOREFRAG :: u16 where "PICO_IPV4_MOREFRAG = 0x2000"
definition PICO_IPV4_EVIL :: u16 where "PICO_IPV4_EVIL = 0x8000"
definition PICO_IPV4_FRAG_MASK :: u16 where "PICO_IPV4_FRAG_MASK = 0x1FFF"

definition hdr_vhl :: "u8 list \<Rightarrow> u8" where "hdr_vhl h = h ! 0"
definition hdr_len :: "u8 list \<Rightarrow> u16" where "hdr_len h = get16 h 2"
definition hdr_id :: "u8 list \<Rightarrow> u16" where "hdr_id h = get16 h 4"
definition hdr_frag :: "u8 list \<Rightarrow> u16" where "hdr_frag h = get16 h 6"
definition hdr_ttl :: "u8 list \<Rightarrow> u8" where "hdr_ttl h = h ! 8"
definition hdr_proto :: "u8 list \<Rightarrow> u8" where "hdr_proto h = h ! 9"
definition hdr_crc :: "u8 list \<Rightarrow> u16" where "hdr_crc h = get16 h 10"
definition hdr_src :: "u8 list \<Rightarrow> u32" where "hdr_src h = get32 h 12"
definition hdr_dst :: "u8 list \<Rightarrow> u32" where "hdr_dst h = get32 h 16"

lemmas ip_fields = hdr_vhl_def hdr_len_def hdr_id_def hdr_frag_def hdr_ttl_def hdr_proto_def hdr_crc_def hdr_src_def hdr_dst_def

definition PICO_PROTO_ICMP4 :: u8 where "PICO_PROTO_ICMP4 = 1"
definition PICO_PROTO_IGMP :: u8 where "PICO_PROTO_IGMP = 2"
definition PICO_PROTO_TCP :: u8 where "PICO_PROTO_TCP = 6"
definition PICO_PROTO_UDP :: u8 where "PICO_PROTO_UDP = 17"

lemmas proto_numbers = PICO_PROTO_ICMP4_def PICO_PROTO_IGMP_def PICO_PROTO_TCP_def PICO_PROTO_UDP_def

section \<open>Frames\<close>

text \<open>What the layer reads and writes of the socket of an outgoing frame.\<close>

record ip_sock =
  s_proto :: u8
  s_local :: u32
  s_remote :: u32
  s_dev :: nat
  s_mc_ttl :: u8

text \<open>\<open>f_has_net\<close>: \<open>net_hdr\<close> is not NULL.  \<open>f_trans\<close> and \<open>f_payload\<close> are offsets from \<open>net_hdr\<close>;
  \<open>f_info\<close> is the address of the remote endpoint the socket layer attached.\<close>

record ip_frame =
  f_dev :: nat
  f_has_net :: bool
  f_net :: "u8 list"
  f_net_len :: u16
  f_trans :: nat
  f_transport_len :: u16
  f_payload :: "nat option"
  f_payload_len :: u16
  f_frag :: u16
  f_flags :: u8
  f_len :: u32
  f_send_ttl :: u8
  f_send_tos :: u8
  f_priority :: u8
  f_info :: "u32 option"
  f_sock :: "ip_sock option"

definition in_buffer :: "ip_frame \<Rightarrow> nat \<Rightarrow> nat \<Rightarrow> bool" where
  "in_buffer f i n \<longleftrightarrow> i + n \<le> length (f_net f)"

definition PICO_FRAME_FLAG_BCAST :: u8 where "PICO_FRAME_FLAG_BCAST = 0x01"

section \<open>Checksums\<close>

text \<open>\<open>net->crc = 0; net->crc = short_be (pico_checksum (net, f->net_len))\<close>.\<close>

definition set_ip_crc :: "u8 list \<Rightarrow> u16 \<Rightarrow> u8 list" where
  "set_ip_crc h n = (let h = put16 h 10 0 in put16 h 10 (short_be (pico_checksum h (unat n))))"

definition pico_ipv4_checksum :: "ip_frame \<Rightarrow> ip_frame option" where
  "pico_ipv4_checksum f =
     (if in_buffer f 0 (unat (f_net_len f)) then Some (f\<lparr>f_net := set_ip_crc (f_net f) (f_net_len f)\<rparr>) else None)"

text \<open>The checksum of UDP and of TCP: the pseudo header has the addresses of the socket, or those
  of the packet when there is none.\<close>

definition pseudo_hdr :: "ip_frame \<Rightarrow> u8 \<Rightarrow> u8 list" where
  "pseudo_hdr f p =
     (let (src, dst) = (case f_sock f of Some s \<Rightarrow> (s_local s, s_remote s) | None \<Rightarrow> (hdr_src (f_net f), hdr_dst (f_net f)))
      in bytes_of_u32 src @ bytes_of_u32 dst @ [0, p, ucast (short_be (f_transport_len f)), ucast (drop_bit 8 (short_be (f_transport_len f)))])"

definition pico_udp_checksum_ipv4 :: "ip_frame \<Rightarrow> u16 option" where
  "pico_udp_checksum_ipv4 f =
     (if in_buffer f (f_trans f) (unat (f_transport_len f))
      then Some (pico_dualbuffer_checksum (pseudo_hdr f PICO_PROTO_UDP) 12 (drop (f_trans f) (f_net f)) (unat (f_transport_len f)))
      else None)"

definition pico_tcp_checksum_ipv4 :: "ip_frame \<Rightarrow> u16 option" where
  "pico_tcp_checksum_ipv4 f =
     (if in_buffer f (f_trans f) (unat (f_transport_len f))
      then Some (pico_dualbuffer_checksum (pseudo_hdr f PICO_PROTO_TCP) 12 (drop (f_trans f) (f_net f)) (unat (f_transport_len f)))
      else None)"

section \<open>What is stored verifies\<close>

lemma checksum_take: "n \<le> length h \<Longrightarrow> pico_checksum (take n h) n = pico_checksum h n"
  by (cases n) (simp_all add: pico_checksum_def pico_checksum_adder_def)

lemma put16_split: "i + 2 \<le> length h \<Longrightarrow> put16 h i v = take i h @ [ucast v, ucast (drop_bit 8 v)] @ drop (i + 2) h"
  by (simp add: put16_def list_eq_iff_nth_eq nth_append nth_list_update nth_Cons' less_Suc_eq) (auto split: nat_diff_split)

lemma put16_put16 [simp]: "put16 (put16 h i a) i b = put16 h i b"
proof -
  have "h[i := x, i + 1 := y, i := z] = h[i := z, i + 1 := y]" for x y z
    by (subst list_update_swap) simp_all
  then show ?thesis by (simp only: put16_def list_update_overwrite)
qed

lemma crc_bytes_le: "[ucast (short_be c), ucast (drop_bit 8 (short_be c))] = crc_bytes c"
proof -
  have "(ucast (short_be c) :: u8) = ucast (drop_bit 8 c)" "(ucast (drop_bit 8 (short_be c)) :: u8) = ucast c"
    by (rule bit_word_eqI; simp add: bit_simps bit_short_be ac_simps)+
  then show ?thesis by (simp add: crc_bytes_def)
qed

lemma checksum_put_stored:
  assumes "even i" "i + 2 \<le> n" "n \<le> length h" "n \<le> 131072"
  shows "pico_checksum (put16 (put16 h i 0) i (short_be (pico_checksum (put16 h i 0) n))) n = 0"
proof -
  let ?post = "drop (i + 2) (take n h)" and ?c = "pico_checksum (put16 h i 0) n"
  have t: "take n (put16 h i v) = take i h @ [ucast v, ucast (drop_bit 8 v)] @ ?post" for v
  proof -
    have "n - i = Suc (Suc (n - Suc (Suc i)))" using assms(2) by simp
    then show ?thesis using assms by (simp add: put16_split min_def drop_take)
  qed
  have l: "length (take i h) + 2 + length ?post = n" "even (length (take i h))" using assms by simp_all
  have c: "?c = pico_checksum (take i h @ [0, 0] @ ?post) n"
    using checksum_take [of n "put16 h i 0"] assms(3) by (simp add: t)
  have "put16 (put16 h i 0) i (short_be ?c) = put16 h i (short_be ?c)" by simp
  then have "pico_checksum (put16 (put16 h i 0) i (short_be ?c)) n = pico_checksum (take n (put16 h i (short_be ?c))) n"
    using checksum_take [of n "put16 h i (short_be ?c)"] assms(3) by simp
  also have "\<dots> = pico_checksum (take i h @ crc_bytes ?c @ ?post) n"
    by (simp only: t crc_bytes_le append_Cons append_Nil)
  also have "\<dots> = 0" using checksum_stored [of "take i h" ?post] l assms(4) c by simp
  finally show ?thesis .
qed

lemma ip_crc_verifies:
  assumes "12 \<le> unat n" "unat n \<le> length h"
  shows "pico_checksum (set_ip_crc h n) (unat n) = 0"
  using checksum_put_stored [of 10 "unat n" h] assms unat_u16_less [of n] by (simp add: set_ip_crc_def Let_def)

text \<open>The checksum at offset \<open>o\<close> of the transport header, which is stored the same way.\<close>

definition set_l4_crc :: "ip_frame \<Rightarrow> nat \<Rightarrow> u16 \<Rightarrow> ip_frame" where
  "set_l4_crc f i c = f\<lparr>f_net := put16 (f_net f) (f_trans f + i) c\<rparr>"

lemma length_pseudo [simp]: "length (pseudo_hdr f p) = 12"
  by (simp add: pseudo_hdr_def bytes_of_u32_def Let_def split: option.split)

lemma pseudo_set_l4: "20 \<le> f_trans f \<Longrightarrow> pseudo_hdr (set_l4_crc f i c) p = pseudo_hdr f p"
  by (simp add: pseudo_hdr_def set_l4_crc_def ip_fields Let_def split: option.split)

lemma put16_drop: "drop t (put16 h (t + i) v) = put16 (drop t h) i v"
  by (simp add: put16_def drop_update_swap)

lemma put16_append: "put16 (xs @ ys) (length xs + i) v = xs @ put16 ys i v"
  by (simp add: put16_def list_update_append)

lemma l4_crc_verifies:
  assumes "20 \<le> f_trans f" "even i" "i + 2 \<le> n" "f_trans f + n \<le> length (f_net f)" "n \<le> 65535"
    and "f' = set_l4_crc f i 0"
  shows "let f'' = set_l4_crc f' i (short_be (pico_dualbuffer_checksum (pseudo_hdr f' p) 12 (drop (f_trans f') (f_net f')) n))
    in pico_dualbuffer_checksum (pseudo_hdr f'' p) 12 (drop (f_trans f'') (f_net f'')) n = 0"
proof -
  let ?ph = "pseudo_hdr f p" and ?d = "drop (f_trans f) (f_net f)"
  have len: "n \<le> length ?d" using assms(4) by simp
  have cat: "pico_dualbuffer_checksum ?ph 12 ys n = pico_checksum (?ph @ ys) (12 + n)" if "n \<le> length ys" for ys
    using dualbuffer_concat [of 12 ?ph n ys] checksum_take [of "12 + n" "?ph @ ys"] that by simp
  have app: "put16 (?ph @ ys) (12 + i) v = ?ph @ put16 ys i v" for ys v using put16_append [of ?ph] by simp
  have "pico_checksum (put16 (put16 (?ph @ ?d) (12 + i) 0) (12 + i)
      (short_be (pico_checksum (put16 (?ph @ ?d) (12 + i) 0) (12 + n)))) (12 + n) = 0"
    by (rule checksum_put_stored) (use assms(2,3,5) len in auto)
  moreover have pseudo: "pseudo_hdr (f\<lparr>f_net := put16 (put16 (f_net f) (f_trans f + i) 0) (f_trans f + i) c\<rparr>) p = ?ph"
    "pseudo_hdr (f\<lparr>f_net := put16 (f_net f) (f_trans f + i) 0\<rparr>) p = ?ph" for c
    using pseudo_set_l4 [OF assms(1), of i 0 p] pseudo_set_l4 [of "set_l4_crc f i 0" i c p] assms(1)
    by (simp_all add: set_l4_crc_def)
  ultimately have "pico_checksum (?ph @ put16 (put16 ?d i 0) i (short_be (pico_checksum (?ph @ put16 ?d i 0) (12 + n)))) (12 + n) = 0"
    by (simp only: app)
  then show ?thesis
    using len pseudo by (simp add: assms(6) Let_def set_l4_crc_def put16_drop cat)
qed

end
