(* ===== verification/Nat_Table.thy ===== *)
theory Nat_Table
  imports Ip_Frame PTree_Foreach "HOL-Library.Product_Lexorder"
begin

text \<open>
  The translation table of \<open>modules/pico_nat.c\<close>: tuples in two pointer trees, \<open>NATOutbound\<close> by
  source and \<open>NATInbound\<close> by NAT port.  What the code never changes in a tuple is the record
  \<open>pico_nat_tuple\<close> with the address of the structure in \<open>t_ptr\<close>; the session fields, which change in
  place, are in the store \<open>sessions\<close>.  \<open>None\<close> is a loop that does not end or a node used after it
  was freed.  Invariant: both trees have the same tuples.
\<close>

section \<open>Tuples\<close>

record pico_nat_tuple =
  t_ptr :: nat
  t_proto :: u8
  src_port :: u16
  dst_port :: u16
  nat_port :: u16
  src_addr :: u32
  dst_addr :: u32
  nat_addr :: u32

record nat_session =
  conn_active :: u16
  portforward :: bool
  rst :: bool
  syn :: bool
  fin_in :: bool
  fin_out :: bool

record nat_table =
  NATOutbound :: "pico_nat_tuple pico_tree"
  NATInbound :: "pico_nat_tuple pico_tree"
  sessions :: "nat \<Rightarrow> nat_session"
  nat_next :: nat
  nat_mem :: "bool list"
  nat_err :: pico_err_t

definition nat_alloc :: "nat_table \<Rightarrow> bool \<times> nat_table" where
  "nat_alloc n = (case nat_mem n of [] \<Rightarrow> (True, n) | b # bs \<Rightarrow> (b, n\<lparr>nat_mem := bs\<rparr>))"

definition nat_cmp_natport :: "pico_nat_tuple \<Rightarrow> pico_nat_tuple \<Rightarrow> int" where
  "nat_cmp_natport a b = (if nat_port a < nat_port b then - 1 else if nat_port a > nat_port b then 1 else 0)"

definition nat_cmp_srcport :: "pico_nat_tuple \<Rightarrow> pico_nat_tuple \<Rightarrow> int" where
  "nat_cmp_srcport a b = (if src_port a < src_port b then - 1 else if src_port a > src_port b then 1 else 0)"

definition nat_cmp_proto :: "pico_nat_tuple \<Rightarrow> pico_nat_tuple \<Rightarrow> int" where
  "nat_cmp_proto a b = (if t_proto a < t_proto b then - 1 else if t_proto a > t_proto b then 1 else 0)"

definition nat_cmp_address :: "pico_nat_tuple \<Rightarrow> pico_nat_tuple \<Rightarrow> int" where
  "nat_cmp_address a b = pico_ipv4_compare (src_addr a) (src_addr b)"

definition nat_cmp_inbound :: "pico_nat_tuple \<Rightarrow> pico_nat_tuple \<Rightarrow> int" where
  "nat_cmp_inbound a b = (let cport = nat_cmp_natport a b in if cport \<noteq> 0 then cport else nat_cmp_proto a b)"

definition nat_cmp_outbound :: "pico_nat_tuple \<Rightarrow> pico_nat_tuple \<Rightarrow> int" where
  "nat_cmp_outbound a b =
     (let caddr = nat_cmp_address a b in
      if caddr \<noteq> 0 then caddr
      else let cport = nat_cmp_srcport a b in
        if cport \<noteq> 0 then cport else nat_cmp_proto a b)"

section \<open>Finding, adding, deleting\<close>

definition nat_key :: "u16 \<Rightarrow> u32 option \<Rightarrow> u16 \<Rightarrow> u8 \<Rightarrow> pico_nat_tuple" where
  "nat_key np sa sp p = \<lparr>t_ptr = 0, t_proto = p, src_port = sp, dst_port = 0, nat_port = np,
     src_addr = (case sa of None \<Rightarrow> 0 | Some a \<Rightarrow> a), dst_addr = 0, nat_addr = 0\<rparr>"

definition pico_ipv4_nat_find_tuple ::
    "nat_table \<Rightarrow> u16 \<Rightarrow> u32 option \<Rightarrow> u16 \<Rightarrow> u8 \<Rightarrow> pico_nat_tuple option option" where
  "pico_ipv4_nat_find_tuple n np sa sp p =
     (if np \<noteq> 0 then pico_tree_findKey nat_cmp_inbound (NATInbound n) (nat_key np sa sp p)
      else pico_tree_findKey nat_cmp_outbound (NATOutbound n) (nat_key np sa sp p))"

definition pico_ipv4_nat_find :: "nat_table \<Rightarrow> u16 \<Rightarrow> u32 option \<Rightarrow> u16 \<Rightarrow> u8 \<Rightarrow> bool option" where
  "pico_ipv4_nat_find n np sa sp p = map_option (\<lambda>t. t \<noteq> None) (pico_ipv4_nat_find_tuple n np sa sp p)"

definition new_session :: nat_session where
  "new_session = \<lparr>conn_active = 1, portforward = False, rst = False, syn = False, fin_in = False, fin_out = False\<rparr>"

definition pico_ipv4_nat_add ::
    "nat_table \<Rightarrow> u32 \<Rightarrow> u16 \<Rightarrow> u32 \<Rightarrow> u16 \<Rightarrow> u32 \<Rightarrow> u16 \<Rightarrow> u8 \<Rightarrow> (pico_nat_tuple option \<times> nat_table) option" where
  "pico_ipv4_nat_add n da dp sa sp na np p =
     (let (ok, n) = nat_alloc n in
      if \<not> ok then Some (None, n\<lparr>nat_err := PICO_ERR_ENOMEM\<rparr>)
      else
        let t = \<lparr>t_ptr = nat_next n, t_proto = p, src_port = sp, dst_port = dp, nat_port = np,
                 src_addr = sa, dst_addr = da, nat_addr = na\<rparr>;
            n = n\<lparr>nat_next := nat_next n + 1, sessions := (sessions n)(nat_next n := new_session)\<rparr>;
            (ok, n) = nat_alloc n
        in do {
          (r, out) \<leftarrow> pico_tree_insert nat_cmp_outbound (NATOutbound n) t ok;
          (if r \<noteq> Ins_NULL then Some (None, n)
           else
             let (ok, n) = nat_alloc (n\<lparr>NATOutbound := out\<rparr>) in do {
               (r, inb) \<leftarrow> pico_tree_insert nat_cmp_inbound (NATInbound n) t ok;
               (if r \<noteq> Ins_NULL then do {
                  (_, out) \<leftarrow> pico_tree_delete nat_cmp_outbound (NATOutbound n) (Some t);
                  Some (None, n\<lparr>NATOutbound := out\<rparr>) }
                else Some (Some t, n\<lparr>NATInbound := inb\<rparr>)) }) })"

definition pico_ipv4_nat_del :: "nat_table \<Rightarrow> u16 \<Rightarrow> u8 \<Rightarrow> (int \<times> nat_table) option" where
  "pico_ipv4_nat_del n np p = do {
     t \<leftarrow> pico_ipv4_nat_find_tuple n np None 0 p;
     (case t of
        None \<Rightarrow> Some (0, n)
      | Some t \<Rightarrow> do {
          (_, out) \<leftarrow> pico_tree_delete nat_cmp_outbound (NATOutbound n) (Some t);
          (_, inb) \<leftarrow> pico_tree_delete nat_cmp_inbound (NATInbound n) (Some t);
          Some (0, n\<lparr>NATOutbound := out, NATInbound := inb\<rparr>) }) }"

section \<open>Ageing\<close>

datatype nat_ageing = Keep | Delete | Update nat_session

text \<open>\<open>conn_active\<close> is a bit field of 11 bits.\<close>

definition conn_inc :: "nat_session \<Rightarrow> nat_session" where
  "conn_inc e = e\<lparr>conn_active := (conn_active e + 1) AND 0x7FF\<rparr>"

definition age_tuple :: "u8 \<Rightarrow> nat_session \<Rightarrow> nat_ageing" where
  "age_tuple p e =
     (if p = PICO_PROTO_TCP then
        (if portforward e then Keep
         else if conn_active e = 0 \<or> conn_active e > 360 then Delete
         else if rst e \<or> fin_in e \<and> fin_out e then Update (e\<lparr>conn_active := 0\<rparr>)
         else Update (conn_inc e))
      else if p = PICO_PROTO_UDP then
        (if portforward e then Keep else if conn_active e > 1 then Delete else Update (conn_inc e))
      else if conn_active e > 1 then Delete
      else Update (conn_inc e))"

primrec cleanup_loop :: "pico_nat_tuple list \<Rightarrow> nat_table \<Rightarrow> nat_table option" where
  "cleanup_loop [] n = Some n"
| "cleanup_loop (t # ts) n = do {
     live \<leftarrow> pico_tree_findKey nat_cmp_outbound (NATOutbound n) t;
     (if live \<noteq> Some t then None
      else do {
        n \<leftarrow> (case age_tuple (t_proto t) (sessions n (t_ptr t)) of
            Keep \<Rightarrow> Some n
          | Delete \<Rightarrow> map_option snd (pico_ipv4_nat_del n (nat_port t) (t_proto t))
          | Update e \<Rightarrow> Some (n\<lparr>sessions := (sessions n)(t_ptr t := e)\<rparr>));
        cleanup_loop ts n }) }"

definition pico_ipv4_nat_table_cleanup :: "nat_table \<Rightarrow> nat_table option" where
  "pico_ipv4_nat_table_cleanup n = do { ts \<leftarrow> pico_tree_foreach_reverse (NATOutbound n); cleanup_loop ts n }"

definition PICO_NAT_PORT_FORWARD_DEL :: u8 where "PICO_NAT_PORT_FORWARD_DEL = 0"
definition PICO_NAT_PORT_FORWARD_ADD :: u8 where "PICO_NAT_PORT_FORWARD_ADD = 1"

definition pico_ipv4_port_forward ::
    "nat_table \<Rightarrow> u32 \<Rightarrow> u16 \<Rightarrow> u32 \<Rightarrow> u16 \<Rightarrow> u8 \<Rightarrow> u8 \<Rightarrow> (int \<times> nat_table) option" where
  "pico_ipv4_port_forward n na np sa sp p flg =
     (if flg = PICO_NAT_PORT_FORWARD_ADD then do {
        (t, n) \<leftarrow> pico_ipv4_nat_add n 0 0 sa sp na np p;
        Some (case t of
            None \<Rightarrow> (- 1, n\<lparr>nat_err := PICO_ERR_EAGAIN\<rparr>)
          | Some t \<Rightarrow> (0, n\<lparr>sessions := (sessions n)(t_ptr t := (sessions n (t_ptr t))\<lparr>portforward := True\<rparr>)\<rparr>)) }
      else if flg = PICO_NAT_PORT_FORWARD_DEL then pico_ipv4_nat_del n np p
      else Some (- 1, n\<lparr>nat_err := PICO_ERR_EINVAL\<rparr>))"

definition nat_init :: nat_table where
  "nat_init = \<lparr>NATOutbound = empty_tree, NATInbound = empty_tree, sessions = (\<lambda>_. new_session), nat_next = 1,
     nat_mem = [], nat_err = PICO_ERR_NOERR\<rparr>"

section \<open>The invariant\<close>

definition out_rank :: "pico_nat_tuple \<Rightarrow> u32 \<times> u16 \<times> u8" where
  "out_rank t = (src_addr t, src_port t, t_proto t)"

definition in_rank :: "pico_nat_tuple \<Rightarrow> u16 \<times> u8" where
  "in_rank t = (nat_port t, t_proto t)"

abbreviation any_key :: "'a \<Rightarrow> bool" where "any_key x \<equiv> True"

lemmas nat_cmps = nat_cmp_outbound_def nat_cmp_inbound_def nat_cmp_address_def nat_cmp_natport_def nat_cmp_srcport_def
  nat_cmp_proto_def pico_ipv4_compare_def

interpretation out_order: key_order nat_cmp_outbound any_key
  by (rule key_order_by_key [where k = out_rank]) (auto simp: key_cmp_def out_rank_def nat_cmps Let_def less_prod_def)

interpretation in_order: key_order nat_cmp_inbound any_key
  by (rule key_order_by_key [where k = in_rank]) (auto simp: key_cmp_def in_rank_def nat_cmps Let_def less_prod_def)

lemma nat_cmp_zero:
  "nat_cmp_outbound a b = 0 \<longleftrightarrow> out_rank a = out_rank b" "nat_cmp_inbound a b = 0 \<longleftrightarrow> in_rank a = in_rank b"
  by (auto simp: nat_cmps Let_def out_rank_def in_rank_def)

definition nat_ok :: "nat_table \<Rightarrow> pico_nat_tuple list \<Rightarrow> pico_nat_tuple list \<Rightarrow> bool" where
  "nat_ok n os is \<longleftrightarrow> tree_inv nat_cmp_outbound any_key (NATOutbound n) os
     \<and> tree_inv nat_cmp_inbound any_key (NATInbound n) is \<and> set os = set is
     \<and> (\<forall>t \<in> set os. nat_port t \<noteq> 0 \<and> t_ptr t < nat_next n) \<and> inj_on t_ptr (set os)"

lemma nat_ok_init: "nat_ok nat_init [] []"
  by (simp add: nat_ok_def nat_init_def tree_inv_empty)

lemma nat_ok_simps [simp]:
  "nat_ok (n\<lparr>nat_err := e\<rparr>) os is = nat_ok n os is" "nat_ok (n\<lparr>nat_mem := m\<rparr>) os is = nat_ok n os is"
  "nat_ok (n\<lparr>sessions := f\<rparr>) os is = nat_ok n os is"
  by (simp_all add: nat_ok_def)

lemma nat_alloc_ok: "nat_alloc n = (b, n') \<Longrightarrow> nat_ok n' os is = nat_ok n os is"
  by (auto simp: nat_alloc_def split: list.split_asm)

lemma nat_alloc_same:
  "nat_alloc n = (b, n') \<Longrightarrow> NATOutbound n' = NATOutbound n \<and> NATInbound n' = NATInbound n \<and> sessions n' = sessions n
     \<and> nat_next n' = nat_next n"
  by (auto simp: nat_alloc_def split: list.split_asm)

section \<open>What the operations do\<close>

lemma key_ranks:
  "in_rank (nat_key np sa sp p) = (np, p)" "out_rank (nat_key np sa sp p) = (case sa of None \<Rightarrow> 0 | Some a \<Rightarrow> a, sp, p)"
  by (simp_all add: nat_key_def in_rank_def out_rank_def)

lemma find_in_ok:
  assumes "nat_ok n os is" "np \<noteq> 0"
  shows "\<exists>r. pico_ipv4_nat_find_tuple n np sa sp p = Some r \<and>
    (case r of None \<Rightarrow> \<forall>t \<in> set os. in_rank t \<noteq> (np, p) | Some t \<Rightarrow> t \<in> set os \<and> in_rank t = (np, p))"
  using assms in_order.find_exact [of "NATInbound n" "is" "nat_key np sa sp p"]
  by (auto simp: nat_ok_def pico_ipv4_nat_find_tuple_def nat_cmp_zero key_ranks split: option.splits)

lemma find_out_ok:
  assumes "nat_ok n os is"
  shows "\<exists>r. pico_ipv4_nat_find_tuple n 0 (Some sa) sp p = Some r \<and>
    (case r of None \<Rightarrow> \<forall>t \<in> set os. out_rank t \<noteq> (sa, sp, p) | Some t \<Rightarrow> t \<in> set os \<and> out_rank t = (sa, sp, p))"
  using assms out_order.find_exact [of "NATOutbound n" os "nat_key 0 (Some sa) sp p"]
  by (auto simp: nat_ok_def pico_ipv4_nat_find_tuple_def nat_cmp_zero key_ranks split: option.splits)

lemma nat_add_ok:
  assumes "nat_ok n os is" "np \<noteq> 0"
  shows "\<exists>r n' os' is'. pico_ipv4_nat_add n da dp sa sp na np p = Some (r, n') \<and> nat_ok n' os' is' \<and>
    (case r of None \<Rightarrow> set os' = set os
     | Some t \<Rightarrow> set os' = insert t (set os) \<and> out_rank t = (sa, sp, p) \<and> in_rank t = (np, p) \<and> nat_addr t = na
         \<and> sessions n' (t_ptr t) = new_session)"
proof -
  obtain b1 n1 where 1: "nat_alloc n = (b1, n1)" by fastforce
  define t where "t = \<lparr>t_ptr = nat_next n1, t_proto = p, src_port = sp, dst_port = dp, nat_port = np,
    src_addr = sa, dst_addr = da, nat_addr = na\<rparr>"
  define n2 where "n2 = n1\<lparr>nat_next := nat_next n1 + 1, sessions := (sessions n1)(nat_next n1 := new_session)\<rparr>"
  obtain b3 n3 where 3: "nat_alloc n2 = (b3, n3)" by fastforce
  have ok1: "nat_ok n1 os is" using assms(1) nat_alloc_ok [OF 1] by simp
  have ok2: "nat_ok n2 os is" using ok1 unfolding nat_ok_def n2_def by fastforce
  have ok3: "nat_ok n3 os is" using ok2 nat_alloc_ok [OF 3] by simp
  have nx: "nat_next n3 = nat_next n1 + 1" "sessions n3 (t_ptr t) = new_session"
    using nat_alloc_same [OF 3] by (simp_all add: n2_def t_def)
  have tr: "out_rank t = (sa, sp, p)" "in_rank t = (np, p)" "nat_addr t = na" "nat_port t \<noteq> 0" "t_ptr t < nat_next n3"
    using assms(2) nx by (simp_all add: t_def out_rank_def in_rank_def)
  have trees: "tree_inv nat_cmp_outbound any_key (NATOutbound n3) os" using ok3 by (simp add: nat_ok_def)
  obtain r out where out: "pico_tree_insert nat_cmp_outbound (NATOutbound n3) t b3 = Some (r, out)"
    "if r = Ins_NULL then (\<forall>x \<in> set os. nat_cmp_outbound x t \<noteq> 0)
       \<and> (\<exists>ks. tree_inv nat_cmp_outbound any_key out ks \<and> set ks = insert t (set os)) else out = NATOutbound n3"
    using out_order.insert_exact [OF trees, of t b3] by auto
  have fresh: "pico_ipv4_nat_add n da dp sa sp na np p = Some (None, n3)" if "b1" "r \<noteq> Ins_NULL"
    using 1 3 out(1) that by (simp add: pico_ipv4_nat_add_def n2_def t_def)
  show ?thesis
  proof (cases "b1 \<and> r = Ins_NULL")
    case False
    then obtain m where m: "pico_ipv4_nat_add n da dp sa sp na np p = Some (None, m)" "nat_ok m os is"
      using 1 ok1 ok3 fresh by (cases b1) (auto simp: pico_ipv4_nat_add_def)
    show ?thesis by (rule exI [of _ None], rule exI [of _ m], rule exI [of _ os], rule exI [of _ "is"]) (use m in simp)
  next
    case r: True
    then obtain ks where ks: "tree_inv nat_cmp_outbound any_key out ks" "set ks = insert t (set os)"
      "\<forall>x \<in> set os. nat_cmp_outbound x t \<noteq> 0" using out(2) by auto
    obtain b4 n4 where 4: "nat_alloc (n3\<lparr>NATOutbound := out\<rparr>) = (b4, n4)" by fastforce
    have n4: "NATOutbound n4 = out" "NATInbound n4 = NATInbound n3" "sessions n4 = sessions n3" "nat_next n4 = nat_next n3"
      using nat_alloc_same [OF 4] by simp_all
    have itree: "tree_inv nat_cmp_inbound any_key (NATInbound n4) is" using ok3 n4 by (simp add: nat_ok_def)
    obtain q inb where inb: "pico_tree_insert nat_cmp_inbound (NATInbound n4) t b4 = Some (q, inb)"
      "if q = Ins_NULL then (\<forall>x \<in> set is. nat_cmp_inbound x t \<noteq> 0)
         \<and> (\<exists>ks. tree_inv nat_cmp_inbound any_key inb ks \<and> set ks = insert t (set is)) else inb = NATInbound n4"
      using in_order.insert_exact [OF itree, of t b4] by auto
    obtain v out' ks' where del: "pico_tree_delete nat_cmp_outbound (NATOutbound n4) (Some t) = Some (v, out')"
      "tree_inv nat_cmp_outbound any_key out' ks'" "set ks' = {x \<in> insert t (set os). nat_cmp_outbound x t \<noteq> 0}"
      using out_order.delete_exact [of out ks t] ks(1,2) n4(1) by auto
    have run: "pico_ipv4_nat_add n da dp sa sp na np p =
        (if q \<noteq> Ins_NULL then Some (None, n4\<lparr>NATOutbound := out'\<rparr>) else Some (Some t, n4\<lparr>NATInbound := inb\<rparr>))"
      using 1 3 4 r out(1) inb(1) del(1) by (simp add: pico_ipv4_nat_add_def n2_def t_def)
    show ?thesis
    proof (cases "q = Ins_NULL")
      case True
      then obtain js where js: "tree_inv nat_cmp_inbound any_key inb js" "set js = insert t (set is)" using inb(2) by auto
      have "inj_on t_ptr (insert t (set os))"
        using ok1 by (auto simp: nat_ok_def t_def)
      then have "nat_ok (n4\<lparr>NATInbound := inb\<rparr>) ks js" using ok3 ks js n4 tr by (auto simp: nat_ok_def)
      then show ?thesis using run True ks(2) tr nx n4 by fastforce
    next
      case False
      have "set ks' = set os" using del(3) ks(3) nat_cmp_zero(1) [of t t] by auto
      then have "nat_ok (n4\<lparr>NATOutbound := out'\<rparr>) ks' is" using ok3 del(2) n4 by (auto simp: nat_ok_def)
      then show ?thesis using run False \<open>set ks' = set os\<close> by auto
    qed
  qed
qed

lemma nat_del_ok:
  assumes "nat_ok n os is" "np \<noteq> 0"
  shows "\<exists>n' os' is'. pico_ipv4_nat_del n np p = Some (0, n') \<and> nat_ok n' os' is'
    \<and> set os' = {t \<in> set os. in_rank t \<noteq> (np, p)} \<and> sessions n' = sessions n"
proof -
  obtain r where r: "pico_ipv4_nat_find_tuple n np None 0 p = Some r"
    "case r of None \<Rightarrow> \<forall>t \<in> set os. in_rank t \<noteq> (np, p) | Some t \<Rightarrow> t \<in> set os \<and> in_rank t = (np, p)"
    using find_in_ok [OF assms] by blast
  show ?thesis
  proof (cases r)
    case None
    then have "{t \<in> set os. in_rank t \<noteq> (np, p)} = set os" using r(2) by auto
    then show ?thesis using None r(1) assms(1) by (auto simp: pico_ipv4_nat_del_def)
  next
    case (Some t)
    have t: "t \<in> set os" "t \<in> set is" "in_rank t = (np, p)" using r(2) Some assms(1) by (auto simp: nat_ok_def)
    have trees: "tree_inv nat_cmp_outbound any_key (NATOutbound n) os" "tree_inv nat_cmp_inbound any_key (NATInbound n) is"
      using assms(1) by (simp_all add: nat_ok_def)
    obtain a out ks where out: "pico_tree_delete nat_cmp_outbound (NATOutbound n) (Some t) = Some (a, out)"
      "tree_inv nat_cmp_outbound any_key out ks" "set ks = {x \<in> set os. nat_cmp_outbound x t \<noteq> 0}"
      using out_order.delete_exact [OF trees(1), of t] by auto
    obtain b inb js where inb: "pico_tree_delete nat_cmp_inbound (NATInbound n) (Some t) = Some (b, inb)"
      "tree_inv nat_cmp_inbound any_key inb js" "set js = {x \<in> set is. nat_cmp_inbound x t \<noteq> 0}"
      using in_order.delete_exact [OF trees(2), of t] by auto
    have ks: "set ks = set os - {t}"
      using out(3) out_order.cmp_zero_unique [OF trees(1) _ t(1)] nat_cmp_zero(1) [of t t] by auto
    have js: "set js = set is - {t}"
      using inb(3) in_order.cmp_zero_unique [OF trees(2) _ t(2)] nat_cmp_zero(2) [of t t] by auto
    have "x = t" if "x \<in> set os" "in_rank x = (np, p)" for x
      using in_order.cmp_zero_unique [OF trees(2) _ t(2), of x] that t(3) assms(1) by (auto simp: nat_ok_def nat_cmp_zero)
    then have "set ks = {x \<in> set os. in_rank x \<noteq> (np, p)}" using ks t(3) by auto
    moreover have "nat_ok (n\<lparr>NATOutbound := out, NATInbound := inb\<rparr>) ks js"
      using assms(1) out(2) inb(2) ks js by (auto simp: nat_ok_def intro: inj_on_diff)
    ultimately show ?thesis using r(1) Some out(1) inb(1) by (auto simp: pico_ipv4_nat_del_def)
  qed
qed

lemma tuple_live:
  assumes "nat_ok n os is" "t \<in> set os"
  shows "pico_tree_findKey nat_cmp_outbound (NATOutbound n) t = Some (Some t)"
  using out_order.find_member [of "NATOutbound n" os t t] assms by (simp add: nat_ok_def nat_cmp_zero)

lemma tuple_port: "nat_ok n os is \<Longrightarrow> t \<in> set os \<Longrightarrow> nat_port t \<noteq> 0"
  by (simp add: nat_ok_def)

lemma in_rank_unique:
  assumes "nat_ok n os is" "x \<in> set os" "y \<in> set os" "in_rank x = in_rank y"
  shows "x = y"
  using in_order.cmp_zero_unique [of "NATInbound n" "is" x y] assms by (simp add: nat_ok_def nat_cmp_zero)

lemma out_rank_unique:
  assumes "nat_ok n os is" "x \<in> set os" "y \<in> set os" "out_rank x = out_rank y"
  shows "x = y"
  using out_order.cmp_zero_unique [of "NATOutbound n" os x y] assms by (simp add: nat_ok_def nat_cmp_zero)

definition expired :: "nat_table \<Rightarrow> pico_nat_tuple \<Rightarrow> bool" where
  "expired n t \<longleftrightarrow> age_tuple (t_proto t) (sessions n (t_ptr t)) = Delete"

lemma cleanup_step_ok:
  assumes "nat_ok n os is" "t \<in> set os"
  shows "\<exists>n1 os1 is1. cleanup_loop (t # ts) n = cleanup_loop ts n1 \<and> nat_ok n1 os1 is1
    \<and> set os1 = set os - (if expired n t then {t} else {}) \<and> (\<forall>x \<in> set os - {t}. expired n1 x = expired n x)"
proof (cases "age_tuple (t_proto t) (sessions n (t_ptr t))")
  case Keep
  then show ?thesis using tuple_live [OF assms] assms(1) by (auto simp: expired_def)
next
  case Delete
  obtain n1 os1 is1 where n1: "pico_ipv4_nat_del n (nat_port t) (t_proto t) = Some (0, n1)" "nat_ok n1 os1 is1"
    "set os1 = {x \<in> set os. in_rank x \<noteq> (nat_port t, t_proto t)}" "sessions n1 = sessions n"
    using nat_del_ok [OF assms(1) tuple_port [OF assms], of "t_proto t"] by blast
  have "x = t" if "x \<in> set os" "in_rank x = (nat_port t, t_proto t)" for x
    using in_rank_unique [OF assms(1) that(1) assms(2)] that(2) by (simp add: in_rank_def)
  then have "set os1 = set os - {t}" using n1(3) by (auto simp: in_rank_def)
  moreover have "cleanup_loop (t # ts) n = cleanup_loop ts n1" using n1(1) Delete tuple_live [OF assms] by simp
  moreover have "expired n t" "\<forall>x \<in> set os - {t}. expired n1 x = expired n x" using Delete n1(4) by (simp_all add: expired_def)
  ultimately show ?thesis using n1(2) by (intro exI [of _ n1] exI [of _ os1] exI [of _ is1]) simp
next
  case (Update e)
  let ?n = "n\<lparr>sessions := (sessions n)(t_ptr t := e)\<rparr>"
  have "t_ptr x \<noteq> t_ptr t" if "x \<in> set os - {t}" for x
    using assms that by (auto simp: nat_ok_def dest: inj_onD)
  then have "\<forall>x \<in> set os - {t}. expired ?n x = expired n x" by (simp add: expired_def)
  moreover have "nat_ok ?n os is" using assms(1) by simp
  moreover have "cleanup_loop (t # ts) n = cleanup_loop ts ?n" using Update tuple_live [OF assms] by simp
  moreover have "\<not> expired n t" using Update by (simp add: expired_def)
  ultimately show ?thesis by (intro exI [of _ ?n] exI [of _ os] exI [of _ "is"]) simp
qed

lemma nat_cleanup_loop_ok:
  "nat_ok n os is \<Longrightarrow> set ts \<subseteq> set os \<Longrightarrow> distinct ts \<Longrightarrow>
    \<exists>n' os' is'. cleanup_loop ts n = Some n' \<and> nat_ok n' os' is' \<and> set os' = set os - {t \<in> set ts. expired n t}"
proof (induction ts arbitrary: n os "is")
  case Nil
  then show ?case by auto
next
  case (Cons t ts)
  obtain n1 os1 is1 where 1: "cleanup_loop (t # ts) n = cleanup_loop ts n1" "nat_ok n1 os1 is1"
    "set os1 = set os - (if expired n t then {t} else {})" "\<forall>x \<in> set os - {t}. expired n1 x = expired n x"
    using cleanup_step_ok [OF Cons.prems(1), of t ts] Cons.prems(2) by auto
  have "set ts \<subseteq> set os1" "distinct ts" using 1(3) Cons.prems(2,3) by auto
  then obtain n' os' is' where 2: "cleanup_loop ts n1 = Some n'" "nat_ok n' os' is'"
    "set os' = set os1 - {x \<in> set ts. expired n1 x}" using Cons.IH [OF 1(2)] by blast
  have "expired n1 x = expired n x" if "x \<in> set ts" for x using that 1(4) Cons.prems(2,3) by auto
  then have "set os' = set os - {x \<in> set (t # ts). expired n x}" using 2(3) 1(3) by auto
  then show ?case using 1(1) 2(1,2) by (intro exI [of _ n'] exI [of _ os'] exI [of _ is']) simp
qed

lemma cleanup_ok:
  assumes "nat_ok n os is"
  shows "\<exists>n' os' is'. pico_ipv4_nat_table_cleanup n = Some n' \<and> nat_ok n' os' is' \<and> set os' = {t \<in> set os. \<not> expired n t}"
proof -
  have t: "tree_inv nat_cmp_outbound any_key (NATOutbound n) os" using assms by (simp add: nat_ok_def)
  have "distinct os" using out_order.inv_distinct [OF t] .
  then show ?thesis
    using nat_cleanup_loop_ok [OF assms, of "rev os"] tree_inv_foreach_reverse [OF t]
    by (auto simp: pico_ipv4_nat_table_cleanup_def)
qed

end
