(* ===== verification/Nat_Translate.thy ===== *)
theory Nat_Translate
  imports Nat_Table Ipv4_Route
begin

text \<open>
  Address translation (\<open>modules/pico_nat.c\<close>): the port of a new session, the sniffing of TCP flags,
  the translation of outgoing and incoming packets, switching NAT on and off.  Random numbers are
  the supply \<open>nat_rand\<close>; whether a socket has a port (\<open>pico_get_sockport\<close>) is \<open>has_sockport\<close>, and
  whether a timer can be started is \<open>nat_timer\<close>.  \<open>None\<close>: an access outside the buffer or through NULL.
\<close>

section \<open>State\<close>

record nat_state =
  table :: nat_table
  nat_link :: "pico_ipv4_link option"
  nat_rand :: "u32 list"
  has_sockport :: "u8 \<Rightarrow> u16 \<Rightarrow> bool"
  nat_timer :: "bool list"
  nat_error :: pico_err_t

definition PICO_NAT_INBOUND :: u8 where "PICO_NAT_INBOUND = 0"
definition PICO_NAT_OUTBOUND :: u8 where "PICO_NAT_OUTBOUND = 1"
definition PICO_TCP_FIN :: u8 where "PICO_TCP_FIN = 0x01"
definition PICO_TCP_SYN :: u8 where "PICO_TCP_SYN = 0x02"
definition PICO_TCP_RST :: u8 where "PICO_TCP_RST = 0x04"

definition next_rand :: "nat_state \<Rightarrow> u32 \<times> nat_state" where
  "next_rand s = (case nat_rand s of [] \<Rightarrow> (0, s) | r # rs \<Rightarrow> (r, s\<lparr>nat_rand := rs\<rparr>))"

definition pico_ipv4_nat_is_enabled :: "nat_state \<Rightarrow> u32 \<Rightarrow> bool" where
  "pico_ipv4_nat_is_enabled s link_addr =
     (case nat_link s of None \<Rightarrow> False | Some l \<Rightarrow> l_address l = link_addr)"

definition pico_ipv4_nat_enable :: "nat_state \<Rightarrow> pico_ipv4_link option \<Rightarrow> int \<times> nat_state" where
  "pico_ipv4_nat_enable s link =
     (case link of
        None \<Rightarrow> (- 1, s\<lparr>nat_error := PICO_ERR_EINVAL\<rparr>)
      | Some l \<Rightarrow> (case nat_timer s of
          False # ts \<Rightarrow> (- 1, s\<lparr>nat_timer := ts\<rparr>)
        | ts \<Rightarrow> (0, s\<lparr>nat_timer := tl ts, nat_link := Some l\<rparr>)))"

definition pico_ipv4_nat_disable :: "nat_state \<Rightarrow> int \<times> nat_state" where
  "pico_ipv4_nat_disable s = (0, s\<lparr>nat_link := None\<rparr>)"

section \<open>A tuple for a new session\<close>

text \<open>\<open>pico_is_port_free (proto, port, NULL, &pico_proto_ipv4)\<close>: no address is given, so a port is
  taken when NAT or any socket has it.\<close>

definition nat_port_free :: "nat_state \<Rightarrow> u8 \<Rightarrow> u16 \<Rightarrow> bool option" where
  "nat_port_free s p port = do {
     by_nat \<leftarrow> pico_ipv4_nat_find (table s) port None 0 p;
     Some (\<not> by_nat \<and> \<not> has_sockport s p port) }"

primrec port_loop :: "nat \<Rightarrow> u8 \<Rightarrow> nat_state \<Rightarrow> (u16 option \<times> nat_state) option" where
  "port_loop 0 p s = Some (None, s)"
| "port_loop (Suc retry) p s =
     (let (rand, s) = next_rand s;
          nport = ucast (rand AND 0xFFFF);
          nport = nport mod (65535 - 1024) + 1024;
          nport = short_be nport
      in do {
        free \<leftarrow> nat_port_free s p nport;
        (if free then Some (Some nport, s) else port_loop retry p s) })"

definition trans_sport :: "ip_frame \<Rightarrow> u16" where "trans_sport f = get16 (f_net f) (f_trans f)"
definition trans_dport :: "ip_frame \<Rightarrow> u16" where "trans_dport f = get16 (f_net f) (f_trans f + 2)"

definition set_table :: "nat_state \<Rightarrow> nat_table \<Rightarrow> nat_state" where
  "set_table s t = s\<lparr>table := t\<rparr>"

text \<open>\<open>None\<close> in the pair: no free port was found, or memory is short, or the protocol has no ports.\<close>

definition pico_ipv4_nat_generate_tuple :: "nat_state \<Rightarrow> ip_frame \<Rightarrow> (pico_nat_tuple option \<times> nat_state) option" where
  "pico_ipv4_nat_generate_tuple s f =
     (let p = hdr_proto (f_net f) in do {
        (nport, s) \<leftarrow> port_loop 32 p s;
        (case nport of
           None \<Rightarrow> Some (None, s)
         | Some np \<Rightarrow>
             (if p \<noteq> PICO_PROTO_TCP \<and> p \<noteq> PICO_PROTO_UDP then Some (None, s)
              else do {
                l \<leftarrow> nat_link s;
                (t, n) \<leftarrow> pico_ipv4_nat_add (table s) (hdr_dst (f_net f)) (trans_dport f) (hdr_src (f_net f)) (trans_sport f)
                  (l_address l) np p;
                Some (t, set_table s n) })) })"

section \<open>Sniffing\<close>

definition pico_ipv4_nat_set_tcp_flags :: "nat_session \<Rightarrow> u8 \<Rightarrow> u8 \<Rightarrow> nat_session" where
  "pico_ipv4_nat_set_tcp_flags e flags direction =
     (let e = (if flags AND PICO_TCP_SYN \<noteq> 0 then e\<lparr>syn := True\<rparr> else e);
          e = (if flags AND PICO_TCP_RST \<noteq> 0 then e\<lparr>rst := True\<rparr> else e);
          e = (if flags AND PICO_TCP_FIN \<noteq> 0 \<and> direction = PICO_NAT_INBOUND then e\<lparr>fin_in := True\<rparr> else e)
      in if flags AND PICO_TCP_FIN \<noteq> 0 \<and> direction = PICO_NAT_OUTBOUND then e\<lparr>fin_out := True\<rparr> else e)"

definition upd_session :: "nat_state \<Rightarrow> pico_nat_tuple \<Rightarrow> nat_session \<Rightarrow> nat_state" where
  "upd_session s t e = set_table s (table s\<lparr>sessions := (sessions (table s))(t_ptr t := e)\<rparr>)"

definition pico_ipv4_nat_sniff_session :: "nat_state \<Rightarrow> pico_nat_tuple option \<Rightarrow> ip_frame \<Rightarrow> u8 \<Rightarrow> nat_state option" where
  "pico_ipv4_nat_sniff_session s tup f direction =
     (let p = hdr_proto (f_net f) in
      if p = PICO_PROTO_TCP then do {
        t \<leftarrow> tup;
        Some (upd_session s t (pico_ipv4_nat_set_tcp_flags (sessions (table s) (t_ptr t)) (f_net f ! (f_trans f + 13)) direction)) }
      else if p = PICO_PROTO_UDP then do {
        t \<leftarrow> tup;
        Some (upd_session s t ((sessions (table s) (t_ptr t))\<lparr>conn_active := 1\<rparr>)) }
      else Some s)"

section \<open>Translation\<close>

text \<open>The checksums are computed anew: that of the transport header, then that of IP.\<close>

definition renew_l4_crc :: "ip_frame \<Rightarrow> ip_frame option" where
  "renew_l4_crc f =
     (if hdr_proto (f_net f) = PICO_PROTO_TCP then do {
        let f = set_l4_crc f 16 0;
        c \<leftarrow> pico_tcp_checksum_ipv4 f;
        Some (set_l4_crc f 16 (short_be c)) }
      else do {
        let f = set_l4_crc f 6 0;
        c \<leftarrow> pico_udp_checksum_ipv4 f;
        Some (set_l4_crc f 6 (short_be c)) })"

text \<open>How much of the transport header is read and written.\<close>

definition l4_header :: "u8 \<Rightarrow> nat" where
  "l4_header p = (if p = PICO_PROTO_TCP then 18 else 8)"

definition finish_nat :: "nat_state \<Rightarrow> pico_nat_tuple option \<Rightarrow> ip_frame \<Rightarrow> u8 \<Rightarrow> (int \<times> nat_state \<times> ip_frame) option" where
  "finish_nat s t f direction = do {
     s \<leftarrow> pico_ipv4_nat_sniff_session s t f direction;
     f \<leftarrow> pico_ipv4_checksum f;
     Some (0, s, f) }"

definition pico_ipv4_nat_inbound :: "nat_state \<Rightarrow> ip_frame \<Rightarrow> u32 \<Rightarrow> (int \<times> nat_state \<times> ip_frame) option" where
  "pico_ipv4_nat_inbound s f link_addr =
     (let p = hdr_proto (f_net f) in
      if \<not> pico_ipv4_nat_is_enabled s link_addr then Some (- 1, s, f)
      else if p = PICO_PROTO_TCP \<or> p = PICO_PROTO_UDP then
        (if \<not> in_buffer f (f_trans f) (l4_header p) then None
         else do {
           tuple \<leftarrow> pico_ipv4_nat_find_tuple (table s) (trans_dport f) None 0 p;
           (case tuple of
              None \<Rightarrow> Some (- 1, s, f)
            | Some t \<Rightarrow> do {
                let f = f\<lparr>f_net := put32 (f_net f) 16 (src_addr t)\<rparr>;
                let f = f\<lparr>f_net := put16 (f_net f) (f_trans f + 2) (src_port t)\<rparr>;
                f \<leftarrow> renew_l4_crc f;
                finish_nat s (Some t) f PICO_NAT_INBOUND }) })
      else if p = PICO_PROTO_ICMP4 then finish_nat s None f PICO_NAT_INBOUND
      else Some (- 1, s, f))"

definition pico_ipv4_nat_outbound :: "nat_state \<Rightarrow> ip_frame \<Rightarrow> u32 \<Rightarrow> (int \<times> nat_state \<times> ip_frame) option" where
  "pico_ipv4_nat_outbound s f link_addr =
     (let p = hdr_proto (f_net f) in
      if \<not> pico_ipv4_nat_is_enabled s link_addr then Some (- 1, s, f)
      else if p = PICO_PROTO_TCP \<or> p = PICO_PROTO_UDP then
        (if \<not> in_buffer f (f_trans f) (l4_header p) then None
         else do {
           tuple \<leftarrow> pico_ipv4_nat_find_tuple (table s) 0 (Some (hdr_src (f_net f))) (trans_sport f) p;
           (tuple, s) \<leftarrow> (case tuple of None \<Rightarrow> pico_ipv4_nat_generate_tuple s f | Some t \<Rightarrow> Some (Some t, s));
           t \<leftarrow> tuple;
           let f = f\<lparr>f_net := put32 (f_net f) 12 (nat_addr t)\<rparr>;
           let f = f\<lparr>f_net := put16 (f_net f) (f_trans f) (nat_port t)\<rparr>;
           f \<leftarrow> renew_l4_crc f;
           finish_nat s (Some t) f PICO_NAT_OUTBOUND })
      else if p = PICO_PROTO_ICMP4 then finish_nat s None f PICO_NAT_OUTBOUND
      else Some (- 1, s, f))"

end
