(* ===== verification/Nat_Props.thy ===== *)
theory Nat_Props
  imports Nat_Translate
begin

text \<open>
  What translation promises: an outgoing packet gets the address and port of its tuple, a packet
  to that address and port is sent on to where the first one came from, and the checksums of both
  verify.
\<close>

section \<open>Frames that can be translated\<close>

definition l4_checksum :: "ip_frame \<Rightarrow> u16 option" where
  "l4_checksum f = (if hdr_proto (f_net f) = PICO_PROTO_TCP then pico_tcp_checksum_ipv4 f else pico_udp_checksum_ipv4 f)"

definition l4_crc_off :: "u8 \<Rightarrow> nat" where
  "l4_crc_off p = (if p = PICO_PROTO_TCP then 16 else 6)"

text \<open>A received TCP or UDP packet whose lengths \<open>pico_ipv4_process_in\<close> has checked.\<close>

definition l4_frame :: "ip_frame \<Rightarrow> bool" where
  "l4_frame f \<longleftrightarrow> 20 \<le> unat (f_net_len f) \<and> f_trans f = unat (f_net_len f) \<and> f_sock f = None
     \<and> (hdr_proto (f_net f) = PICO_PROTO_TCP \<or> hdr_proto (f_net f) = PICO_PROTO_UDP)
     \<and> l4_header (hdr_proto (f_net f)) \<le> unat (f_transport_len f)
     \<and> f_trans f + unat (f_transport_len f) \<le> length (f_net f)"

lemma l4_header_crc: "l4_crc_off p + 2 \<le> l4_header p" "even (l4_crc_off p)"
  by (simp_all add: l4_crc_off_def l4_header_def)

lemma set_l4_simps [simp]:
  "f_trans (set_l4_crc f i c) = f_trans f" "f_transport_len (set_l4_crc f i c) = f_transport_len f"
  "f_net_len (set_l4_crc f i c) = f_net_len f" "f_sock (set_l4_crc f i c) = f_sock f"
  "length (f_net (set_l4_crc f i c)) = length (f_net f)" "in_buffer (set_l4_crc f i c) a b = in_buffer f a b"
  by (simp_all add: set_l4_crc_def in_buffer_def)

lemma set_l4_again [simp]: "set_l4_crc (set_l4_crc f i a) i b = set_l4_crc f i b"
  by (simp add: set_l4_crc_def)

lemma set_l4_proto [simp]: "20 \<le> f_trans f \<Longrightarrow> hdr_proto (f_net (set_l4_crc f i c)) = hdr_proto (f_net f)"
  by (simp add: set_l4_crc_def hdr_proto_def)

lemma l4_checksum_eq:
  "l4_frame f \<Longrightarrow> l4_checksum f
     = Some (pico_dualbuffer_checksum (pseudo_hdr f (hdr_proto (f_net f))) 12 (drop (f_trans f) (f_net f)) (unat (f_transport_len f)))"
  by (auto simp: l4_checksum_def l4_frame_def pico_tcp_checksum_ipv4_def pico_udp_checksum_ipv4_def in_buffer_def)

lemma l4_frame_set: "l4_frame f \<Longrightarrow> l4_frame (set_l4_crc f i c)"
  by (auto simp: l4_frame_def)

lemma renew_l4_ok:
  assumes "l4_frame f"
  shows "\<exists>c. renew_l4_crc f = Some (set_l4_crc f (l4_crc_off (hdr_proto (f_net f))) c)
    \<and> l4_checksum (set_l4_crc f (l4_crc_off (hdr_proto (f_net f))) c) = Some 0"
proof -
  define p i n where "p = hdr_proto (f_net f)" and "i = l4_crc_off p" and "n = unat (f_transport_len f)"
  define f' where "f' = set_l4_crc f i 0"
  define c where "c = short_be (pico_dualbuffer_checksum (pseudo_hdr f' p) 12 (drop (f_trans f') (f_net f')) n)"
  have f: "20 \<le> f_trans f" "i + 2 \<le> n" "f_trans f + n \<le> length (f_net f)" "n \<le> 65535"
    using assms l4_header_crc(1) [of p] unat_u16_less [of "f_transport_len f"]
    by (auto simp: l4_frame_def p_def i_def n_def)
  have p': "hdr_proto (f_net f') = p" "f_transport_len f' = f_transport_len f" using f(1) by (simp_all add: f'_def p_def)
  have l4: "l4_checksum f' = Some (short_be c)"
    using l4_checksum_eq [OF l4_frame_set [OF assms]] by (simp add: f'_def c_def p_def [symmetric] n_def f(1))
  have "pico_dualbuffer_checksum (pseudo_hdr (set_l4_crc f' i c) p) 12
      (drop (f_trans (set_l4_crc f' i c)) (f_net (set_l4_crc f' i c))) n = 0"
    using l4_crc_verifies [OF f(1) _ f(2,3,4) f'_def, of p] l4_header_crc(2) [of p] by (simp add: Let_def c_def i_def)
  then have "l4_checksum (set_l4_crc f i c) = Some 0"
    using l4_checksum_eq [OF l4_frame_set [OF assms], of i c] f(1) by (simp add: f'_def p_def [symmetric] n_def)
  moreover have "renew_l4_crc f = Some (set_l4_crc f i c)"
  proof (cases "p = PICO_PROTO_TCP")
    case True
    then have "pico_tcp_checksum_ipv4 f' = Some (short_be c)" using l4 p' by (simp add: l4_checksum_def)
    then show ?thesis using True by (simp add: renew_l4_crc_def p_def f'_def i_def l4_crc_off_def)
  next
    case False
    then have "pico_udp_checksum_ipv4 f' = Some (short_be c)" using l4 p' by (simp add: l4_checksum_def)
    then show ?thesis using False by (simp add: renew_l4_crc_def p_def f'_def i_def l4_crc_off_def)
  qed
  ultimately show ?thesis by (auto simp: p_def i_def)
qed

lemma finish_ok:
  assumes "l4_frame f"
  shows "\<exists>e. finish_nat s (Some t) f d = Some (0, upd_session s t e, f\<lparr>f_net := set_ip_crc (f_net f) (f_net_len f)\<rparr>)"
  using assms by (auto simp: finish_nat_def pico_ipv4_nat_sniff_session_def l4_frame_def pico_ipv4_checksum_def in_buffer_def)

lemma ip_crc_simps:
  "20 \<le> i \<Longrightarrow> drop i (set_ip_crc h n) = drop i h" "length (set_ip_crc h n) = length h"
  "20 \<le> i \<Longrightarrow> get16 (set_ip_crc h n) i = get16 h i"
  "hdr_src (set_ip_crc h n) = hdr_src h" "hdr_dst (set_ip_crc h n) = hdr_dst h" "hdr_proto (set_ip_crc h n) = hdr_proto h"
  by (simp_all add: set_ip_crc_def put16_def Let_def ip_fields)

lemma l4_after_ip_crc:
  assumes "l4_frame f"
  shows "l4_frame (f\<lparr>f_net := set_ip_crc (f_net f) n\<rparr>)" "l4_checksum (f\<lparr>f_net := set_ip_crc (f_net f) n\<rparr>) = l4_checksum f"
proof -
  have t: "20 \<le> f_trans f" using assms by (simp add: l4_frame_def)
  show 1: "l4_frame (f\<lparr>f_net := set_ip_crc (f_net f) n\<rparr>)" using assms by (simp add: l4_frame_def ip_crc_simps)
  have "pseudo_hdr (f\<lparr>f_net := set_ip_crc (f_net f) n\<rparr>) p = pseudo_hdr f p" for p
    by (simp add: pseudo_hdr_def ip_crc_simps split: option.split)
  then show "l4_checksum (f\<lparr>f_net := set_ip_crc (f_net f) n\<rparr>) = l4_checksum f"
    using l4_checksum_eq [OF assms] l4_checksum_eq [OF 1] t by (simp add: ip_crc_simps)
qed

section \<open>The port of a new session\<close>

lemma short_be_nonzero: "x \<noteq> 0 \<Longrightarrow> short_be x \<noteq> 0"
  using short_be_inject [of x 0] by (simp add: short_be_def)

lemma port_nonzero: "short_be ((x :: u16) mod (65535 - 1024) + 1024) \<noteq> 0"
proof (rule short_be_nonzero)
  have "unat (x mod (65535 - 1024)) < 64511" by (simp add: unat_mod)
  then have "unat (x mod (65535 - 1024) + 1024) = unat (x mod (65535 - 1024)) + 1024"
    by (subst unat_plus_no_wrap) simp_all
  then show "x mod (65535 - 1024) + 1024 \<noteq> 0" by (metis add_is_0 unat_0 zero_neq_numeral)
qed

lemma next_rand_same: "next_rand s = (r, s') \<Longrightarrow> table s' = table s \<and> nat_link s' = nat_link s \<and> has_sockport s' = has_sockport s"
  by (auto simp: next_rand_def split: list.split_asm)

lemma port_loop_ok:
  assumes "nat_ok (table s) os is"
  shows "\<exists>r s'. port_loop k p s = Some (r, s') \<and> table s' = table s \<and> nat_link s' = nat_link s
    \<and> (\<forall>np. r = Some np \<longrightarrow> np \<noteq> 0)"
  using assms
proof (induction k arbitrary: s)
  case (Suc k)
  obtain x s1 where 1: "next_rand s = (x, s1)" by fastforce
  define np where "np = short_be ((ucast (x AND 0xFFFF) :: u16) mod (65535 - 1024) + 1024)"
  have np: "np \<noteq> 0" using port_nonzero by (simp add: np_def)
  have same: "table s1 = table s" "nat_link s1 = nat_link s" using next_rand_same [OF 1] by simp_all
  then have ok: "nat_ok (table s1) os is" using Suc.prems by simp
  obtain free where free: "nat_port_free s1 p np = Some free"
    using find_in_ok [OF ok np, of None 0 p] by (auto simp: nat_port_free_def pico_ipv4_nat_find_def)
  have "port_loop (Suc k) p s = (if free then Some (Some np, s1) else port_loop k p s1)"
    using 1 free by (simp add: np_def)
  then show ?case using Suc.IH [OF ok] same np by auto
qed simp

lemma generate_ok:
  assumes "nat_ok (table s) os is" "nat_link s = Some l" "l4_frame f"
  shows "\<exists>r s' os' is'. pico_ipv4_nat_generate_tuple s f = Some (r, s') \<and> nat_ok (table s') os' is' \<and> nat_link s' = Some l
    \<and> (case r of None \<Rightarrow> set os' = set os
       | Some t \<Rightarrow> set os' = insert t (set os) \<and> nat_addr t = l_address l
           \<and> out_rank t = (hdr_src (f_net f), trans_sport f, hdr_proto (f_net f)))"
proof -
  define p where "p = hdr_proto (f_net f)"
  obtain r s1 where 1: "port_loop 32 p s = Some (r, s1)" "table s1 = table s" "nat_link s1 = Some l" "\<forall>np. r = Some np \<longrightarrow> np \<noteq> 0"
    using port_loop_ok [OF assms(1), of 32 p] assms(2) by auto
  show ?thesis
  proof (cases r)
    case None
    then have "pico_ipv4_nat_generate_tuple s f = Some (None, s1)"
      using 1(1) by (simp add: pico_ipv4_nat_generate_tuple_def p_def [symmetric])
    then show ?thesis using assms(1) 1 by (intro exI [of _ None] exI [of _ s1] exI [of _ os] exI [of _ "is"]) simp
  next
    case (Some np)
    have ok1: "nat_ok (table s1) os is" using assms(1) 1(2) by simp
    obtain t n os' is' where 2: "pico_ipv4_nat_add (table s1) (hdr_dst (f_net f)) (trans_dport f) (hdr_src (f_net f)) (trans_sport f)
        (l_address l) np p = Some (t, n)" "nat_ok n os' is'"
      "case t of None \<Rightarrow> set os' = set os
       | Some t \<Rightarrow> set os' = insert t (set os) \<and> out_rank t = (hdr_src (f_net f), trans_sport f, p) \<and> in_rank t = (np, p)
           \<and> nat_addr t = l_address l \<and> sessions n (t_ptr t) = new_session"
      using nat_add_ok [OF ok1, of np] 1(4) Some by blast
    have "pico_ipv4_nat_generate_tuple s f = Some (t, set_table s1 n)"
      using 1 2(1) Some assms(3) by (auto simp: pico_ipv4_nat_generate_tuple_def p_def l4_frame_def)
    then show ?thesis using 2(2,3) 1(3)
      by (intro exI [of _ t] exI [of _ "set_table s1 n"] exI [of _ os'] exI [of _ is'])
        (auto simp: set_table_def p_def split: option.splits)
  qed
qed

section \<open>Outgoing and incoming packets\<close>

text \<open>The packet \<open>g\<close> is \<open>f\<close> with other addresses and ports; both checksums verify.\<close>

definition translated :: "ip_frame \<Rightarrow> ip_frame \<Rightarrow> bool" where
  "translated f g \<longleftrightarrow> l4_frame g \<and> hdr_proto (f_net g) = hdr_proto (f_net f) \<and> f_net_len g = f_net_len f
     \<and> f_transport_len g = f_transport_len f
     \<and> pico_checksum (f_net g) (unat (f_net_len g)) = 0 \<and> l4_checksum g = Some 0"

lemma rewrite_ok:
  assumes "l4_frame f" "l4_frame f'" "hdr_proto (f_net f') = hdr_proto (f_net f)" "f_net_len f' = f_net_len f"
    "f_transport_len f' = f_transport_len f"
  shows "\<exists>g e. do { f \<leftarrow> renew_l4_crc f'; finish_nat s (Some t) f d } = Some (0, upd_session s t e, g) \<and> translated f g
     \<and> hdr_src (f_net g) = hdr_src (f_net f') \<and> hdr_dst (f_net g) = hdr_dst (f_net f')
     \<and> trans_sport g = trans_sport f' \<and> trans_dport g = trans_dport f'"
proof -
  define i where "i = l4_crc_off (hdr_proto (f_net f'))"
  obtain c where c: "renew_l4_crc f' = Some (set_l4_crc f' i c)" "l4_checksum (set_l4_crc f' i c) = Some 0"
    using renew_l4_ok [OF assms(2)] by (auto simp: i_def)
  define h where "h = set_l4_crc f' i c"
  have h: "l4_frame h" "l4_checksum h = Some 0" using c(2) l4_frame_set [OF assms(2)] by (simp_all add: h_def)
  define g where "g = h\<lparr>f_net := set_ip_crc (f_net h) (f_net_len h)\<rparr>"
  obtain e where e: "finish_nat s (Some t) h d = Some (0, upd_session s t e, g)" using finish_ok [OF h(1), of s t d] by (auto simp: g_def)
  have b: "20 \<le> f_trans f'" "4 \<le> i" "20 \<le> unat (f_net_len h)" "unat (f_net_len h) \<le> length (f_net h)"
    using assms(2) h(1) by (auto simp: l4_frame_def i_def l4_crc_off_def)
  have "pico_checksum (f_net g) (unat (f_net_len g)) = 0"
    using ip_crc_verifies [of "f_net_len h" "f_net h"] b by (simp add: g_def)
  moreover have "l4_frame g" "l4_checksum g = Some 0" using l4_after_ip_crc [OF h(1)] h(2) by (simp_all add: g_def)
  ultimately have "translated f g" using assms(3-5) b by (simp add: translated_def g_def h_def ip_crc_simps)
  moreover have "hdr_src (f_net g) = hdr_src (f_net f')" "hdr_dst (f_net g) = hdr_dst (f_net f')"
    using b by (simp_all add: g_def ip_crc_simps h_def set_l4_crc_def) (simp_all add: ip_fields)
  moreover have "trans_sport g = trans_sport f'" "trans_dport g = trans_dport f'"
    using b by (simp_all add: g_def trans_sport_def trans_dport_def ip_crc_simps h_def) (simp_all add: set_l4_crc_def)
  ultimately show ?thesis using c(1) e by (auto simp: h_def)
qed

lemma nat_ok_session: "nat_ok (table (upd_session s t e)) os is = nat_ok (table s) os is"
  by (simp add: upd_session_def set_table_def)

lemma link_session [simp]: "nat_link (upd_session s t e) = nat_link s"
  by (simp add: upd_session_def set_table_def)

lemma l4_frame_addr:
  assumes "l4_frame f" "i = 12 \<or> i = 16" "j = 0 \<or> j = 2"
  shows "l4_frame (f\<lparr>f_net := put16 (put32 (f_net f) i a) (f_trans f + j) p\<rparr>)"
    "hdr_proto (put16 (put32 (f_net f) i a) (f_trans f + j) p) = hdr_proto (f_net f)"
proof -
  have "20 \<le> f_trans f" using assms(1) by (simp add: l4_frame_def)
  then show proto: "hdr_proto (put16 (put32 (f_net f) i a) (f_trans f + j) p) = hdr_proto (f_net f)"
    using assms(2,3) by (auto simp: hdr_proto_def)
  then show "l4_frame (f\<lparr>f_net := put16 (put32 (f_net f) i a) (f_trans f + j) p\<rparr>)" using assms(1) by (auto simp: l4_frame_def)
qed

lemma l4_len: "l4_frame f \<Longrightarrow> f_trans f + 8 \<le> length (f_net f) \<and> 20 \<le> f_trans f"
  by (auto simp: l4_frame_def l4_header_def split: if_splits)

lemma l4_in_buffer: "l4_frame f \<Longrightarrow> in_buffer f (f_trans f) (l4_header (hdr_proto (f_net f)))"
  by (auto simp: l4_frame_def in_buffer_def)

lemma outbound_ok:
  assumes "nat_ok (table s) os is" "nat_link s = Some l" "l4_frame f"
    "pico_ipv4_nat_outbound s f (l_address l) = Some (r, s', g)"
  shows "\<exists>t os' is'. r = 0 \<and> nat_ok (table s') os' is' \<and> nat_link s' = Some l \<and> t \<in> set os'
    \<and> out_rank t = (hdr_src (f_net f), trans_sport f, hdr_proto (f_net f)) \<and> translated f g
    \<and> hdr_src (f_net g) = nat_addr t \<and> trans_sport g = nat_port t
    \<and> hdr_dst (f_net g) = hdr_dst (f_net f) \<and> trans_dport g = trans_dport f
    \<and> (t \<in> set os \<or> nat_addr t = l_address l)"
proof -
  define p where "p = hdr_proto (f_net f)"
  have en: "pico_ipv4_nat_is_enabled s (l_address l)" using assms(2) by (simp add: pico_ipv4_nat_is_enabled_def)
  have p: "p = PICO_PROTO_TCP \<or> p = PICO_PROTO_UDP" using assms(3) by (auto simp: l4_frame_def p_def)
  obtain u where u: "pico_ipv4_nat_find_tuple (table s) 0 (Some (hdr_src (f_net f))) (trans_sport f) p = Some u"
    "case u of None \<Rightarrow> True | Some t \<Rightarrow> t \<in> set os \<and> out_rank t = (hdr_src (f_net f), trans_sport f, p)"
    using find_out_ok [OF assms(1), of "hdr_src (f_net f)" "trans_sport f" p] by (auto split: option.splits)
  obtain v s1 os1 is1 where v: "(case u of None \<Rightarrow> pico_ipv4_nat_generate_tuple s f | Some t \<Rightarrow> Some (Some t, s)) = Some (v, s1)"
    "nat_ok (table s1) os1 is1" "nat_link s1 = Some l"
    "case v of None \<Rightarrow> True | Some t \<Rightarrow> t \<in> set os1 \<and> out_rank t = (hdr_src (f_net f), trans_sport f, p)
       \<and> (t \<in> set os \<or> nat_addr t = l_address l)"
  proof (cases u)
    case None
    then show ?thesis using that generate_ok [OF assms(1,2,3)] by (fastforce simp: p_def split: option.splits)
  next
    case (Some t)
    then show ?thesis using that [of u s os "is"] assms(1,2) u(2) by simp
  qed
  have run: "pico_ipv4_nat_outbound s f (l_address l) = do {
      t \<leftarrow> v;
      f \<leftarrow> renew_l4_crc (f\<lparr>f_net := put16 (put32 (f_net f) 12 (nat_addr t)) (f_trans f + 0) (nat_port t)\<rparr>);
      finish_nat s1 (Some t) f PICO_NAT_OUTBOUND }"
    using en p u(1) v(1) l4_in_buffer [OF assms(3)] by (simp add: pico_ipv4_nat_outbound_def p_def)
  then obtain t where t: "v = Some t" using assms(4) by (cases v) auto
  define f' where "f' = f\<lparr>f_net := put16 (put32 (f_net f) 12 (nat_addr t)) (f_trans f + 0) (nat_port t)\<rparr>"
  have f': "l4_frame f'" "hdr_proto (f_net f') = hdr_proto (f_net f)" "f_net_len f' = f_net_len f" "f_transport_len f' = f_transport_len f"
    using l4_frame_addr [OF assms(3), of 12 0] by (simp_all add: f'_def)
  obtain h e where h: "do { f \<leftarrow> renew_l4_crc f'; finish_nat s1 (Some t) f PICO_NAT_OUTBOUND } = Some (0, upd_session s1 t e, h)"
    "translated f h" "hdr_src (f_net h) = hdr_src (f_net f')" "hdr_dst (f_net h) = hdr_dst (f_net f')"
    "trans_sport h = trans_sport f'" "trans_dport h = trans_dport f'"
    using rewrite_ok [OF assms(3) f', of s1 t PICO_NAT_OUTBOUND] by blast
  have gh: "r = 0" "s' = upd_session s1 t e" "g = h" using run t h(1) assms(4) by (simp_all add: f'_def)
  have len: "f_trans f + 8 \<le> length (f_net f)" "20 \<le> f_trans f" using l4_len [OF assms(3)] by simp_all
  have "hdr_src (f_net f') = nat_addr t" "trans_sport f' = nat_port t" "hdr_dst (f_net f') = hdr_dst (f_net f)" "trans_dport f' = trans_dport f"
    using len by (simp_all add: f'_def ip_fields trans_sport_def trans_dport_def)
  then show ?thesis using gh h(2-6) v(2-4) t nat_ok_session by (intro exI [of _ t] exI [of _ os1] exI [of _ is1]) (simp add: p_def)
qed


section \<open>The states of the translator\<close>

text \<open>The packets that reach the translator: TCP and UDP with checked lengths, or another protocol.\<close>

definition nat_frame :: "ip_frame \<Rightarrow> bool" where
  "nat_frame f \<longleftrightarrow> l4_frame f \<or> hdr_proto (f_net f) \<noteq> PICO_PROTO_TCP \<and> hdr_proto (f_net f) \<noteq> PICO_PROTO_UDP"

text \<open>A call of the stack or the application, the timer, or a change of what the supplies say.  A
  forwarded port is not 0.\<close>

inductive nat_step :: "nat_state \<Rightarrow> nat_state \<Rightarrow> bool" where
  Nat_out: "pico_ipv4_nat_outbound s f a = Some (r, s', g) \<Longrightarrow> nat_frame f \<Longrightarrow> nat_step s s'"
| Nat_in: "pico_ipv4_nat_inbound s f a = Some (r, s', g) \<Longrightarrow> nat_frame f \<Longrightarrow> nat_step s s'"
| Nat_forward: "pico_ipv4_port_forward (table s) na np sa sp p flg = Some (r, n) \<Longrightarrow> np \<noteq> 0 \<Longrightarrow> nat_step s (set_table s n)"
| Nat_cleanup: "pico_ipv4_nat_table_cleanup (table s) = Some n \<Longrightarrow> nat_step s (set_table s n)"
| Nat_enable: "pico_ipv4_nat_enable s link = (r, s') \<Longrightarrow> nat_step s s'"
| Nat_disable: "pico_ipv4_nat_disable s = (r, s') \<Longrightarrow> nat_step s s'"
| Nat_supply: "nat_step s (s\<lparr>table := (table s)\<lparr>nat_mem := m\<rparr>, nat_rand := rs, has_sockport := sp, nat_timer := ts\<rparr>)"

definition nat_start :: nat_state where
  "nat_start = \<lparr>table = nat_init, nat_link = None, nat_rand = [], has_sockport = (\<lambda>_ _. False), nat_timer = [],
     nat_error = PICO_ERR_NOERR\<rparr>"

definition nat_reach :: "nat_state \<Rightarrow> bool" where
  "nat_reach s \<longleftrightarrow> nat_step\<^sup>*\<^sup>* nat_start s"

lemma finish_none_same: "finish_nat s None f d = Some (r, s', g) \<Longrightarrow> s' = s"
  by (auto simp: finish_nat_def pico_ipv4_nat_sniff_session_def Let_def bind_eq_Some_conv split: if_splits)

lemma nat_other_same:
  assumes "hdr_proto (f_net f) \<noteq> PICO_PROTO_TCP \<and> hdr_proto (f_net f) \<noteq> PICO_PROTO_UDP \<or> \<not> pico_ipv4_nat_is_enabled s a"
  shows "pico_ipv4_nat_outbound s f a = Some (r, s', g) \<Longrightarrow> s' = s" "pico_ipv4_nat_inbound s f a = Some (r, s', g) \<Longrightarrow> s' = s"
  using assms finish_none_same
  by (auto simp: pico_ipv4_nat_outbound_def pico_ipv4_nat_inbound_def Let_def split: if_splits)

lemma inbound_none_same:
  assumes "nat_ok (table s) os is" "l4_frame f" "pico_ipv4_nat_inbound s f a = Some (r, s', g)"
  shows "nat_ok (table s') os is"
proof -
  have p: "hdr_proto (f_net f) = PICO_PROTO_TCP \<or> hdr_proto (f_net f) = PICO_PROTO_UDP" using assms(2) by (simp add: l4_frame_def)
  consider "s' = s" | t h where "finish_nat s (Some t) h PICO_NAT_INBOUND = Some (r, s', g)"
    using assms(3) p by (auto simp: pico_ipv4_nat_inbound_def Let_def bind_eq_Some_conv split: if_splits option.splits)
  then show ?thesis
  proof cases
    case 2
    then obtain e where "s' = s \<or> s' = upd_session s t e"
      by (auto simp: finish_nat_def pico_ipv4_nat_sniff_session_def Let_def bind_eq_Some_conv split: if_splits)
    then show ?thesis using assms(1) nat_ok_session by auto
  qed (use assms(1) in simp)
qed

lemma forward_ok:
  assumes "nat_ok n os is" "np \<noteq> 0"
  shows "\<exists>r n' os' is'. pico_ipv4_port_forward n na np sa sp p flg = Some (r, n') \<and> nat_ok n' os' is'"
proof (cases "flg = PICO_NAT_PORT_FORWARD_ADD")
  case True
  obtain t n' os' is' where "pico_ipv4_nat_add n 0 0 sa sp na np p = Some (t, n')" "nat_ok n' os' is'"
    using nat_add_ok [OF assms, of 0 0 sa sp na p] by blast
  then obtain r m where "pico_ipv4_port_forward n na np sa sp p flg = Some (r, m)" "nat_ok m os' is'"
    using True by (cases t) (auto simp: pico_ipv4_port_forward_def)
  then show ?thesis by blast
next
  case False
  obtain m os' is' where "pico_ipv4_nat_del n np p = Some (0, m)" "nat_ok m os' is'" using nat_del_ok [OF assms, of p] by blast
  moreover have "nat_ok (n\<lparr>nat_err := PICO_ERR_EINVAL\<rparr>) os is" using assms(1) by simp
  moreover have "pico_ipv4_port_forward n na np sa sp p flg = Some (0, m)
      \<or> pico_ipv4_port_forward n na np sa sp p flg = Some (- 1, n\<lparr>nat_err := PICO_ERR_EINVAL\<rparr>)"
    using False calculation(1) by (simp add: pico_ipv4_port_forward_def)
  ultimately show ?thesis by blast
qed

lemma nat_step_ok:
  assumes "nat_step s s'" "nat_ok (table s) os is"
  shows "\<exists>os' is'. nat_ok (table s') os' is'"
  using assms(1)
proof cases
  case (Nat_out f a r g)
  show ?thesis
  proof (cases "l4_frame f \<and> pico_ipv4_nat_is_enabled s a")
    case True
    then obtain l where "nat_link s = Some l" "a = l_address l" by (auto simp: pico_ipv4_nat_is_enabled_def split: option.splits)
    then show ?thesis using outbound_ok [OF assms(2), of l f r s' g] Nat_out(1) True by blast
  next
    case False
    then have "s' = s" using nat_other_same(1) [OF _ Nat_out(1)] Nat_out(2) by (auto simp: nat_frame_def)
    then show ?thesis using assms(2) by blast
  qed
next
  case (Nat_in f a r g)
  then show ?thesis using inbound_none_same [OF assms(2) _ Nat_in(1)] nat_other_same(2) [OF _ Nat_in(1)] assms(2)
    by (auto simp: nat_frame_def)
next
  case (Nat_forward na np sa sp p flg r n)
  then show ?thesis using forward_ok [OF assms(2), of np na sa sp p flg] by (auto simp: set_table_def)
next
  case (Nat_cleanup n)
  then show ?thesis using cleanup_ok [OF assms(2)] by (auto simp: set_table_def)
next
  case (Nat_enable link r)
  then have "table s' = table s" by (auto simp: pico_ipv4_nat_enable_def split: option.splits list.splits bool.splits)
  then show ?thesis using assms(2) by auto
next
  case (Nat_disable r)
  then have "table s' = table s" by (auto simp: pico_ipv4_nat_disable_def)
  then show ?thesis using assms(2) by auto
next
  case (Nat_supply m rs sp ts)
  then show ?thesis using assms(2) by auto
qed

lemma nat_reach_ok: "nat_reach s \<Longrightarrow> \<exists>os is. nat_ok (table s) os is"
  unfolding nat_reach_def
proof (induction rule: rtranclp_induct)
  case base
  then show ?case using nat_ok_init by (auto simp: nat_start_def)
next
  case (step s u)
  then show ?case using nat_step_ok by blast
qed

text \<open>C20: in every state that packets, the timer, the application and failures of memory lead the translator to,
  while no port 0 is ever forwarded, the two tables hold the same sessions, no two of them share the inside
  address, port and protocol or the NAT port and protocol, and the timer removes exactly the expired ones.\<close>

theorem nat_tables_agree:
  assumes "nat_reach s"
  shows "\<exists>os is. pico_tree_foreach (NATOutbound (table s)) = Some os \<and> pico_tree_foreach (NATInbound (table s)) = Some is
    \<and> set os = set is \<and> distinct (map out_rank os) \<and> distinct (map in_rank os)
    \<and> (\<exists>n os'. pico_ipv4_nat_table_cleanup (table s) = Some n \<and> pico_tree_foreach (NATOutbound n) = Some os'
         \<and> set os' = {t \<in> set os. \<not> expired (table s) t})"
proof -
  obtain os "is" where ok: "nat_ok (table s) os is" using nat_reach_ok [OF assms] by blast
  have t: "tree_inv nat_cmp_outbound any_key (NATOutbound (table s)) os" "tree_inv nat_cmp_inbound any_key (NATInbound (table s)) is"
    "set os = set is" using ok by (simp_all add: nat_ok_def)
  obtain n os' is' where n: "pico_ipv4_nat_table_cleanup (table s) = Some n" "nat_ok n os' is'"
    "set os' = {t \<in> set os. \<not> expired (table s) t}" using cleanup_ok [OF ok] by blast
  have "pico_tree_foreach (NATOutbound n) = Some os'" using n(2) tree_inv_foreach unfolding nat_ok_def by blast
  moreover have "distinct os" using out_order.inv_distinct [OF t(1)] .
  then have "distinct (map out_rank os)" "distinct (map in_rank os)"
    using out_rank_unique [OF ok] in_rank_unique [OF ok] by (auto simp: distinct_map inj_on_def)
  ultimately show ?thesis using tree_inv_foreach [OF t(1)] tree_inv_foreach [OF t(2)] t(3) n(1,3) by auto
qed


text \<open>A DNS query from 10.0.0.1 through the link 1.1.1.1.\<close>

definition nat_link_a :: pico_ipv4_link where
  "nat_link_a = \<lparr>l_ptr = 1, l_dev = 1, l_address = 0x01010101, l_netmask = 0xFFFFFFFF\<rparr>"

definition nat_on :: nat_state where "nat_on = nat_start\<lparr>nat_link := Some nat_link_a\<rparr>"

definition udp_frame :: "u8 list \<Rightarrow> u8 list \<Rightarrow> ip_frame" where
  "udp_frame addrs ports = \<lparr>f_dev = 1, f_has_net = True, f_net = [0x45, 0, 0, 28, 0, 1, 0, 0, 64, 17, 0, 0] @ addrs @ ports @ [0, 8, 0, 0], f_net_len = 20,
     f_trans = 20, f_transport_len = 8, f_payload = None, f_payload_len = 0, f_frag = 0, f_flags = 0, f_len = 28, f_send_ttl = 0,
     f_send_tos = 0, f_priority = 0, f_info = None, f_sock = None\<rparr>"

definition query :: ip_frame where "query = udp_frame [10, 0, 0, 1, 8, 8, 8, 8] [0x12, 0x34, 0, 53]"

lemma nat_on_reach: "nat_reach nat_on"
proof -
  have "pico_ipv4_nat_enable nat_start (Some nat_link_a) = (0, nat_on)"
    by (simp add: pico_ipv4_nat_enable_def nat_on_def nat_start_def)
  then show ?thesis unfolding nat_reach_def by (blast intro: Nat_enable)
qed

text \<open>Two hosts send from the same port; the timer runs once between their packets.\<close>

definition query2 :: ip_frame where "query2 = udp_frame [10, 0, 0, 2, 8, 8, 8, 8] [0x12, 0x34, 0, 53]"

definition nat_two :: "nat_state option" where
  "nat_two = do { (_, s, _) \<leftarrow> pico_ipv4_nat_outbound nat_on query 0x01010101;
     n \<leftarrow> pico_ipv4_nat_table_cleanup (table s);
     (_, s, _) \<leftarrow> pico_ipv4_nat_outbound ((set_table s n)\<lparr>nat_rand := [7]\<rparr>) query2 0x01010101; Some s }"

lemma nat_two_eval:
  "map_option (\<lambda>s. (map_option (map (\<lambda>t. (out_rank t, expired (table s) t))) (pico_tree_foreach (NATOutbound (table s))),
     map_option (\<lambda>n. map_option (map out_rank) (pico_tree_foreach (NATOutbound n))) (pico_ipv4_nat_table_cleanup (table s)))) nat_two
   = Some (Some [((0x0100000A, 0x3412, 17), True), ((0x0200000A, 0x3412, 17), False)], Some (Some [(0x0200000A, 0x3412, 17)]))"
  by code_simp

lemma nat_two_reach:
  assumes "nat_two = Some s"
  shows "nat_reach s"
proof -
  obtain r s1 g n r' g' where st: "pico_ipv4_nat_outbound nat_on query 0x01010101 = Some (r, s1, g)"
    "pico_ipv4_nat_table_cleanup (table s1) = Some n"
    "pico_ipv4_nat_outbound ((set_table s1 n)\<lparr>nat_rand := [7]\<rparr>) query2 0x01010101 = Some (r', s, g')"
    using assms by (auto simp: nat_two_def bind_eq_Some_conv)
  have f: "nat_frame query" "nat_frame query2" unfolding nat_frame_def by code_simp+
  let ?n = "set_table s1 n"
  have "nat_step ?n (?n\<lparr>table := (table ?n)\<lparr>nat_mem := nat_mem (table ?n)\<rparr>, nat_rand := [7], has_sockport := has_sockport ?n, nat_timer := nat_timer ?n\<rparr>)"
    by (rule Nat_supply)
  then have "nat_step ?n (?n\<lparr>nat_rand := [7]\<rparr>)" by simp
  then have "nat_step\<^sup>*\<^sup>* nat_on s"
    using Nat_out [OF st(1) f(1)] Nat_cleanup [OF st(2)] Nat_out [OF st(3) f(2)] by (blast intro: converse_rtranclp_into_rtranclp rtranclp.rtrancl_refl)
  then show ?thesis using nat_on_reach by (simp add: nat_reach_def)
qed

text \<open>A session with port 0 in the inbound table is not found by its port: 0 stands for no port, and the search goes
  to the outbound table.  Deleting the forwarding reports success and leaves it.\<close>

lemma forward_port0_stays:
  "do { (r, n) \<leftarrow> pico_ipv4_port_forward nat_init 0x01010101 0 0x0100000A 80 6 PICO_NAT_PORT_FORWARD_ADD;
      (r', n) \<leftarrow> pico_ipv4_port_forward n 0x01010101 0 0x0100000A 80 6 PICO_NAT_PORT_FORWARD_DEL;
      os \<leftarrow> pico_tree_foreach (NATOutbound n); Some (r, r', map out_rank os) }
   = Some (0, 0, [(0x0100000A, 80, 6)])"
  by code_simp

theorem nat_tables_agree_witness:
  "\<exists>s os is n os'. nat_two = Some s \<and> pico_tree_foreach (NATOutbound (table s)) = Some os
     \<and> map out_rank os = [(0x0100000A, 0x3412, 17), (0x0200000A, 0x3412, 17)] \<and> map (expired (table s)) os = [True, False]
     \<and> pico_tree_foreach (NATInbound (table s)) = Some is \<and> set os = set is \<and> distinct (map in_rank os)
     \<and> pico_ipv4_nat_table_cleanup (table s) = Some n \<and> pico_tree_foreach (NATOutbound n) = Some os'
     \<and> set os' = {t \<in> set os. \<not> expired (table s) t} \<and> map out_rank os' = [(0x0200000A, 0x3412, 17)]"
proof -
  obtain s os n os' where s: "nat_two = Some s" "pico_tree_foreach (NATOutbound (table s)) = Some os"
    "map (\<lambda>t. (out_rank t, expired (table s) t)) os = [((0x0100000A, 0x3412, 17), True), ((0x0200000A, 0x3412, 17), False)]"
    "pico_ipv4_nat_table_cleanup (table s) = Some n" "pico_tree_foreach (NATOutbound n) = Some os'"
    "map out_rank os' = [(0x0200000A, 0x3412, 17)]"
    using nat_two_eval by (auto simp del: map_eq_Cons_conv)
  have "map fst (map (\<lambda>t. (out_rank t, expired (table s) t)) os) = map out_rank os"
    "map snd (map (\<lambda>t. (out_rank t, expired (table s) t)) os) = map (expired (table s)) os" by (simp_all add: comp_def)
  then have os: "map out_rank os = [(0x0100000A, 0x3412, 17), (0x0200000A, 0x3412, 17)]" "map (expired (table s)) os = [True, False]"
    using s(3) by (simp_all del: map_map)
  show ?thesis
    using nat_tables_agree [OF nat_two_reach [OF s(1)]] s os by auto
qed


end
