(* ===== verification/Ipv4_Proc.thy ===== *)
theory Ipv4_Proc
  imports Ipfilter Nat_Translate
begin

text \<open>
  The path of a packet through \<open>modules/pico_ipv4.c\<close>: reception (\<open>pico_ipv4_process_in\<close>), forwarding,
  transmission (\<open>pico_ipv4_frame_push\<close>, \<open>pico_ipv4_process_out\<close>) and rebound.  The tables of \<open>Ipv4_Route\<close>,
  the filter of \<open>Ipfilter\<close> and the translator of \<open>Nat_Translate\<close> are those of the code; what goes to
  queues, other protocols and the data link is recorded in \<open>effects\<close>, in order.  Whether a queue takes a
  frame is the supply \<open>enq_ok\<close>, whether a frame can be allocated \<open>frame_mem\<close>.  \<open>None\<close>: an access outside
  the buffer or through NULL.
\<close>

section \<open>State\<close>

datatype ip_queue = Q_udp_in | Q_icmp4_in | Q_ipv4_in | Q_ipv4_out

datatype ip_effect =
    Discard
  | Enqueue ip_queue ip_frame
  | Transport_receive u8 ip_frame
  | Transport_error u8 ip_frame int
  | Datalink_send ip_frame
  | Filter fp_effect
  | Aodv_refresh u32
  | Icmp_param_problem u8
  | Process_frag u8 ip_frame
  | Notify_dest_unreachable
  | Notify_ttl_expired
  | Notify_pkt_too_big

text \<open>What IPv4 looks at in a device: whether it is called ``loop'', whether it has an Ethernet address,
  and its MTU.\<close>

record ip_device =
  d_loop :: bool
  d_eth :: bool
  d_mtu :: u32

record ip_stack =
  ip :: ipv4_state
  nat_st :: nat_state
  flt :: filters
  devices :: "nat \<Rightarrow> ip_device"
  last_id :: u16
  last_proto :: u16
  last_src :: u32
  last_dst :: u32
  ipv4_progressive_id :: u16
  enq_ok :: "bool list"
  frame_mem :: "bool list"
  ip_error :: pico_err_t
  effects :: "ip_effect list"

definition effect :: "ip_effect \<Rightarrow> ip_stack \<Rightarrow> ip_stack" where
  "effect e s = s\<lparr>effects := effects s @ [e]\<rparr>"

definition discard :: "ip_stack \<Rightarrow> ip_stack" where "discard s = effect Discard s"

definition enqueue :: "ip_queue \<Rightarrow> ip_frame \<Rightarrow> ip_stack \<Rightarrow> bool \<times> ip_stack" where
  "enqueue q f s =
     (case enq_ok s of [] \<Rightarrow> (True, effect (Enqueue q f) s)
      | b # bs \<Rightarrow> (b, (if b then effect (Enqueue q f) else (\<lambda>s. s)) (s\<lparr>enq_ok := bs\<rparr>)))"

section \<open>Reception\<close>

definition run_filter :: "ip_stack \<Rightarrow> ip_frame \<Rightarrow> (bool \<times> ip_stack) option" where
  "run_filter s f =
     (let p = hdr_proto (f_net f);
          n = (if p = Ip_Frame.PICO_PROTO_TCP \<or> p = Ip_Frame.PICO_PROTO_UDP then 4
               else if p = Ip_Frame.PICO_PROTO_ICMP4 then 2 else 0)
      in if n \<noteq> 0 \<and> \<not> in_buffer f (f_trans f) n then None
         else do {
           (r, effs) \<leftarrow> ipfilter (flt s) \<lparr>pdev = f_dev f, pprio = f_priority f, net_bytes = f_net f,
                                       trans_bytes = drop (f_trans f) (f_net f)\<rparr>;
           Some (r \<noteq> 0, s\<lparr>effects := effects s @ map Filter effs\<rparr>) })"

definition pico_ipv4_crc_check :: "ip_stack \<Rightarrow> ip_frame \<Rightarrow> (bool \<times> ip_stack) option" where
  "pico_ipv4_crc_check s f =
     (if \<not> in_buffer f 0 (unat (f_net_len f)) then None
      else if short_be (pico_checksum (f_net f) (unat (f_net_len f))) \<noteq> 0 then Some (False, discard s)
      else Some (True, s))"

definition pico_ipv4_is_invalid_loopback :: "ip_stack \<Rightarrow> u32 \<Rightarrow> nat \<Rightarrow> bool" where
  "pico_ipv4_is_invalid_loopback s address dev \<longleftrightarrow>
     pico_ipv4_is_loopback address \<and> (dev = 0 \<or> \<not> d_loop (devices s dev))"

definition pico_ipv4_is_valid_src :: "ip_stack \<Rightarrow> u32 \<Rightarrow> nat \<Rightarrow> (bool \<times> ip_stack) option" where
  "pico_ipv4_is_valid_src s address dev = do {
     bcast \<leftarrow> pico_ipv4_is_broadcast (ip s) address;
     Some (if bcast \<or> pico_ipv4_is_multicast address \<or> pico_ipv4_is_invalid_loopback s address dev then (False, s)
           else (True, effect (Aodv_refresh address) s)) }"

definition pico_ipv4_process_bcast_in :: "ip_stack \<Rightarrow> ip_frame \<Rightarrow> (bool \<times> ip_stack) option" where
  "pico_ipv4_process_bcast_in s f = do {
     bcast \<leftarrow> pico_ipv4_is_broadcast (ip s) (hdr_dst (f_net f));
     (let p = hdr_proto (f_net f);
          g = f\<lparr>f_flags := f_flags f OR PICO_FRAME_FLAG_BCAST\<rparr>
      in Some (if bcast \<and> p = Ip_Frame.PICO_PROTO_UDP then (True, snd (enqueue Q_udp_in g s))
               else if bcast \<and> p = Ip_Frame.PICO_PROTO_ICMP4 then (True, snd (enqueue Q_icmp4_in g s))
               else (False, s))) }"

definition pico_ipv4_process_mcast_in :: "ip_stack \<Rightarrow> ip_frame \<Rightarrow> (bool \<times> ip_stack) option" where
  "pico_ipv4_process_mcast_in s f =
     (let p = hdr_proto (f_net f) in
      if \<not> pico_ipv4_is_multicast (hdr_dst (f_net f)) then Some (False, s)
      else if p = PICO_PROTO_IGMP then Some (True, effect (Transport_receive PICO_PROTO_IGMP f) s)
      else do {
        r \<leftarrow> pico_ipv4_mcast_filter (ip s) (hdr_src (f_net f)) (hdr_dst (f_net f)) (f_dev f);
        Some (True, if r = 0 \<and> p = Ip_Frame.PICO_PROTO_UDP then snd (enqueue Q_udp_in f s) else discard s) })"

definition pico_ipv4_process_local_unicast_in :: "ip_stack \<Rightarrow> ip_frame \<Rightarrow> (bool \<times> ip_stack) option" where
  "pico_ipv4_process_local_unicast_in s f = do {
     (dev, i) \<leftarrow> pico_ipv4_link_find (ip s) (Some (hdr_dst (f_net f)));
     let s = s\<lparr>ip := i\<rparr>;
     (if dev \<noteq> 0 then do {
        (r, n, f) \<leftarrow> pico_ipv4_nat_inbound (nat_st s) f (hdr_dst (f_net f));
        let s = s\<lparr>nat_st := n\<rparr>;
        Some (True, if r = 0 then snd (enqueue Q_ipv4_in f s) else effect (Transport_receive (hdr_proto (f_net f)) f) s) }
      else do {
        l \<leftarrow> pico_ipv4_link_get (ip s) PICO_IP4_ANY;
        Some (if l \<noteq> None then (True, snd (enqueue Q_udp_in f s)) else (False, s)) }) }"

section \<open>Forwarding\<close>

text \<open>True: the frame may go on.\<close>

definition pico_ipv4_pre_forward_checks :: "ip_stack \<Rightarrow> ip_frame \<Rightarrow> (bool \<times> ip_stack \<times> ip_frame) option" where
  "pico_ipv4_pre_forward_checks s f =
     (let f = f\<lparr>f_net := (f_net f)[8 := hdr_ttl (f_net f) - 1]\<rparr> in
      if hdr_ttl (f_net f) < 1 then Some (False, effect Notify_ttl_expired s, f)
      else
        let f = f\<lparr>f_net := put16 (f_net f) 10 (hdr_crc (f_net f) + 1)\<rparr>; h = f_net f
        in do {
          l \<leftarrow> pico_ipv4_link_get (ip s) (hdr_src h);
          Some (if l \<noteq> None then (False, s, f)
                else if last_src s = hdr_src h \<and> last_id s = hdr_id h \<and> last_dst s = hdr_dst h
                        \<and> last_proto s = ucast (hdr_proto h) then (False, s, f)
                else (True, s\<lparr>last_src := hdr_src h, last_dst := hdr_dst h, last_id := hdr_id h,
                              last_proto := ucast (hdr_proto h)\<rparr>, f)) })"

definition pico_ipv4_forward_check_dev :: "ip_stack \<Rightarrow> ip_frame \<Rightarrow> (bool \<times> ip_stack \<times> ip_frame) option" where
  "pico_ipv4_forward_check_dev s f =
     (if f_dev f = 0 then None
      else let d = devices s (f_dev f);
               f = (if d_eth d then f\<lparr>f_len := f_len f - 14\<rparr> else f)
           in Some (if f_len f > d_mtu d then (False, effect Notify_pkt_too_big s, f) else (True, s, f)))"

definition pico_ipv4_forward :: "ip_stack \<Rightarrow> ip_frame \<Rightarrow> (int \<times> ip_stack) option" where
  "pico_ipv4_forward s f =
     (if \<not> f_has_net f then Some (- 1, s)
      else do {
        rt \<leftarrow> route_find (ip s) (hdr_dst (f_net f));
        (case rt of
           None \<Rightarrow> Some (- 1, effect Notify_dest_unreachable s)
         | Some r \<Rightarrow> do {
             l \<leftarrow> r_link r;
             (ok, s, f) \<leftarrow> pico_ipv4_pre_forward_checks s (f\<lparr>f_dev := l_dev l\<rparr>);
             (if \<not> ok then Some (- 1, s)
              else do {
                (_, n, f) \<leftarrow> pico_ipv4_nat_outbound (nat_st s) f (l_address l);
                (ok, s, f) \<leftarrow> pico_ipv4_forward_check_dev (s\<lparr>nat_st := n\<rparr>) f;
                Some (if \<not> ok then (- 1, s) else (0, effect (Datalink_send f) s)) }) }) })"

definition pico_ipv4_process_finally_try_forward :: "ip_stack \<Rightarrow> ip_frame \<Rightarrow> ip_stack option" where
  "pico_ipv4_process_finally_try_forward s f = do {
     bcast \<leftarrow> pico_ipv4_is_broadcast (ip s) (hdr_dst (f_net f));
     (if bcast \<or> f_flags f AND PICO_FRAME_FLAG_BCAST \<noteq> 0 then Some (discard s)
      else do {
        (r, s) \<leftarrow> pico_ipv4_forward s f;
        Some (if r \<noteq> 0 then discard s else s) }) }"

section \<open>The handler of received packets\<close>

text \<open>The offsets and lengths read from the header.\<close>

definition option_len :: "u8 list \<Rightarrow> u8" where
  "option_len h = (if hdr_vhl h AND 0x0F > 5 then 4 * ((hdr_vhl h AND 0x0F) - 5) else 0)"

definition set_lengths :: "ip_frame \<Rightarrow> ip_frame" where
  "set_lengths f =
     (let h = f_net f; n = option_len h
      in f\<lparr>f_trans := PICO_SIZE_IP4HDR + unat n,
           f_transport_len := short_be (hdr_len h) - of_nat PICO_SIZE_IP4HDR - ucast n,
           f_net_len := of_nat PICO_SIZE_IP4HDR + ucast n,
           f_frag := short_be (hdr_frag h)\<rparr>)"

definition max_allowed :: "ip_frame \<Rightarrow> u16" where
  "max_allowed f = of_int (int (length (f_net f)) - int PICO_SIZE_IP4HDR)"

text \<open>The handlers one after the other, the last one forwards.\<close>

definition process_dispatch :: "ip_stack \<Rightarrow> ip_frame \<Rightarrow> ip_stack option" where
  "process_dispatch s f = do {
     (done, s) \<leftarrow> pico_ipv4_process_bcast_in s f;
     (if done then Some s
      else do {
        (done, s) \<leftarrow> pico_ipv4_process_mcast_in s f;
        (if done then Some s
         else do {
           (done, s) \<leftarrow> pico_ipv4_process_local_unicast_in s f;
           (if done then Some s else pico_ipv4_process_finally_try_forward s f) }) }) }"

text \<open>What is done after the source was accepted.\<close>

definition process_valid :: "ip_stack \<Rightarrow> ip_frame \<Rightarrow> ip_stack option" where
  "process_valid s f =
     (if f_frag f AND PICO_IPV4_EVIL \<noteq> 0 then Some (discard (effect (Icmp_param_problem 0) s))
      else if hdr_vhl (f_net f) AND 0x0F < 5 then Some (discard (effect (Icmp_param_problem 0) s))
      else if f_frag f AND (PICO_IPV4_MOREFRAG OR PICO_IPV4_FRAG_MASK) \<noteq> 0
      then Some (discard (effect (Process_frag (hdr_proto (f_net f)) f) s))
      else process_dispatch s f)"

definition pico_ipv4_process_in :: "ip_stack \<Rightarrow> ip_frame \<Rightarrow> (int \<times> ip_stack) option" where
  "pico_ipv4_process_in s f =
     (if \<not> f_has_net f then Some (- 1, s)
      else if \<not> in_buffer f 0 PICO_SIZE_IP4HDR then None
      else
        let f = set_lengths f in
        if f_transport_len f > max_allowed f then Some (0, discard s)
        else do {
          (filtered, s) \<leftarrow> run_filter s f;
          (if filtered then Some (0, s)
           else do {
             (valid, s) \<leftarrow> pico_ipv4_crc_check s f;
             (if \<not> valid then Some (0, s)
              else do {
                (valid, s) \<leftarrow> pico_ipv4_is_valid_src s (hdr_src (f_net f)) (f_dev f);
                (if \<not> valid then Some (0, discard s)
                 else do { s \<leftarrow> process_valid s f; Some (0, s) }) }) }) })"

text \<open>True: the frame was handed to the data link, whose result is the result.\<close>

definition pico_ipv4_process_out :: "ip_stack \<Rightarrow> ip_frame \<Rightarrow> (bool \<times> ip_stack) option" where
  "pico_ipv4_process_out s f = do {
     (filtered, s) \<leftarrow> run_filter s f;
     Some (if filtered then (False, s) else (True, effect (Datalink_send f) s)) }"

definition pico_ipv4_unreachable :: "ip_stack \<Rightarrow> ip_frame \<Rightarrow> int \<Rightarrow> ip_stack" where
  "pico_ipv4_unreachable s f err =
     effect (Transport_error (hdr_proto (f_net f)) (f\<lparr>f_trans := PICO_SIZE_IP4HDR\<rparr>) err) s"

end
