(* ===== verification/Ipv4_Proc_Props.thy ===== *)
theory Ipv4_Proc_Props
  imports Ipv4_Proc Ipv4_Route_Inv Nat_Props
begin

text \<open>
  What the IPv4 layer promises for a received packet: forwarding keeps the header checksum valid, every
  packet is disposed of exactly once; and where it does not.
\<close>

section \<open>The sum of the words of a header\<close>

lemma le_sum_split:
  assumes "even i" "i + 2 \<le> length xs"
  shows "le_words_sum xs = le_words_sum (take i xs) + (unat (xs ! i) + 256 * unat (xs ! (i + 1))) + le_words_sum (drop (i + 2) xs)"
proof -
  have "drop i xs = xs ! i # xs ! (i + 1) # drop (i + 2) xs"
    using assms(2) by (metis Cons_nth_drop_Suc Suc_eq_plus1 add_2_eq_Suc' add_lessD1 less_eq_Suc_le)
  then have "xs = take i xs @ (xs ! i # xs ! (i + 1) # drop (i + 2) xs)" by (metis append_take_drop_id)
  then have "le_words_sum xs = le_words_sum (take i xs) + le_words_sum (xs ! i # xs ! (i + 1) # drop (i + 2) xs)"
    using le_words_sum_append [of "take i xs" "xs ! i # xs ! (i + 1) # drop (i + 2) xs"] assms by simp
  then show ?thesis by simp
qed

lemma unat_get16: "unat (get16 h i) = unat (h ! i) + 256 * unat (h ! (i + 1))"
  by (simp add: get16_def unat_le_word)

lemma le_sum_put16:
  assumes "even i" "i + 2 \<le> n" "n \<le> length h"
  shows "le_words_sum (take n (put16 h i v)) + unat (get16 h i) = le_words_sum (take n h) + unat v"
proof -
  let ?h = "put16 h i v"
  have tk: "take i (take n ?h) = take i (take n h)" "drop (i + 2) (take n ?h) = drop (i + 2) (take n h)"
    using assms by (simp_all add: put16_def take_update_swap drop_take list_update_beyond)
  have "unat (?h ! i) + 256 * unat (?h ! (i + 1)) = unat v"
    using unat_get16 [of ?h i] assms by simp
  then show ?thesis
    using le_sum_split [OF assms(1), of "take n ?h"] le_sum_split [OF assms(1), of "take n h"] assms(2,3) tk
    by (simp add: unat_get16)
qed

lemma le_sum_byte:
  assumes "even i" "i + 2 \<le> n" "n \<le> length h"
  shows "le_words_sum (take n (h[i := x])) + unat (h ! i) = le_words_sum (take n h) + unat x"
proof -
  let ?h = "h[i := x]"
  have tk: "take i (take n ?h) = take i (take n h)" "drop (i + 2) (take n ?h) = drop (i + 2) (take n h)"
    using assms by (simp_all add: take_update_swap drop_take list_update_beyond)
  then show ?thesis
    using le_sum_split [OF assms(1), of "take n ?h"] le_sum_split [OF assms(1), of "take n h"] assms(2,3) by simp
qed

lemma checksum_zero_iff:
  assumes "n \<le> length h" "n \<le> 131072"
  shows "pico_checksum h n = 0 \<longleftrightarrow> 0 < le_words_sum (take n h) \<and> le_words_sum (take n h) mod 65535 = 0"
proof -
  define l where "l = le_words_sum (take n h)"
  have be: "be_words_sum (take n h) = 0 \<longleftrightarrow> l = 0" "be_words_sum (take n h) mod 65535 = (256 * l) mod 65535"
    unfolding l_def by (rule be_words_sum_0, rule be_le_words_sum)
  define b where "b = be_words_sum (take n h)"
  have oc: "ones_complement b = 65535 \<longleftrightarrow> b \<noteq> 0 \<and> b mod 65535 = 0"
  proof -
    have m: "ones_complement b mod 65535 = b mod 65535" "ones_complement b < 65536" "ones_complement b = 0 \<longleftrightarrow> b = 0"
      by (rule ones_complement_mod, rule ones_complement_bound, rule ones_complement_eq_0)
    show ?thesis
    proof (cases "ones_complement b = 65535")
      case True
      then have "b mod 65535 = 65535 mod 65535" using m(1) by metis
      then show ?thesis using True m(3) by auto
    next
      case False
      then have "ones_complement b mod 65535 = ones_complement b" using m(2) by simp
      then show ?thesis using m False by auto
    qed
  qed
  have "unat (pico_checksum h n) = 65535 - ones_complement b"
    using pico_checksum_rfc1071_lemma [OF assms] by (simp add: rfc1071_def b_def)
  then have "pico_checksum h n = 0 \<longleftrightarrow> ones_complement b = 65535"
    using ones_complement_bound [of b] by (auto simp: unat_eq_zero [symmetric])
  moreover have "b mod 65535 = 0 \<longleftrightarrow> l mod 65535 = 0"
  proof -
    have "b mod 65535 = 0 \<longleftrightarrow> 65535 dvd 256 * l" using be(2) by (simp add: b_def mod_eq_0_iff_dvd)
    also have "\<dots> \<longleftrightarrow> 65535 dvd l"
    proof
      assume "65535 dvd 256 * l"
      then have "65535 dvd 256 * (256 * l)" by (rule dvd_mult)
      moreover have "256 * (256 * l) = 65535 * l + l" by simp
      ultimately show "65535 dvd l" by (metis dvd_add_right_iff dvd_triv_left)
    qed simp
    finally show ?thesis by (simp add: mod_eq_0_iff_dvd)
  qed
  ultimately show ?thesis using oc be(1) by (simp add: b_def l_def)
qed

section \<open>Forwarding keeps the checksum\<close>

lemma forward_sum:
  assumes "12 \<le> n" "n \<le> length h" "h ! 8 \<noteq> 0" "n \<le> 131072"
    and h': "h' = put16 (h[8 := h ! 8 - 1]) 10 (get16 h 10 + 1)"
  shows "pico_checksum h n = 0 \<Longrightarrow> pico_checksum h' n = 0 \<longleftrightarrow> get16 h 10 \<noteq> 0xFFFF"
proof -
  assume ok: "pico_checksum h n = 0"
  define S where "S = le_words_sum (take n h)"
  define T where "T = le_words_sum (take n h')"
  let ?t = "h[8 := h ! 8 - 1]"
  have s: "0 < S" "S mod 65535 = 0" using ok checksum_zero_iff [of n h] assms(2,4) by (simp_all add: S_def)
  have ttl: "unat (h ! 8 - 1) + 1 = unat (h ! 8)" using assms(3) unat_minus_one [OF assms(3)] by (simp add: unat_gt_0)
  have 1: "le_words_sum (take n ?t) + 1 = S"
    using le_sum_byte [of 8 n h "h ! 8 - 1"] assms(1,2) ttl by (simp add: S_def)
  have 2: "T + unat (get16 h 10) = le_words_sum (take n ?t) + unat (get16 h 10 + 1)"
    using le_sum_put16 [of 10 n ?t "get16 h 10 + 1"] assms(1,2) by (simp add: T_def h')
  have iff: "pico_checksum h' n = 0 \<longleftrightarrow> 0 < T \<and> T mod 65535 = 0"
    using checksum_zero_iff [of n h'] assms(2,4) by (simp add: T_def h')
  show "pico_checksum h' n = 0 \<longleftrightarrow> get16 h 10 \<noteq> 0xFFFF"
  proof (cases "get16 h 10 = 0xFFFF")
    case True
    then have "T + 65536 = S" using 1 2 by simp
    then have "S = Suc T + 65535" by simp
    then have "Suc T mod 65535 = 0" using s(2) by (simp only: mod_add_self2)
    then have "T mod 65535 \<noteq> 0" by (auto simp: mod_Suc split: if_splits)
    then show ?thesis using iff True by simp
  next
    case False
    then have "unat (get16 h 10 + 1) = unat (get16 h 10) + 1"
      using unat_u16_less [of "get16 h 10"] by (subst unat_plus_no_wrap) (auto simp: word_unat_eq_iff)
    then have "T = S" using 1 2 by simp
    then show ?thesis using iff s False by simp
  qed
qed

text \<open>C21: when a packet with a valid header and a TTL that is not zero passes the checks before forwarding, its TTL is one
  less and still not zero, nothing else of it but the checksum field has changed, and the new checksum, which the
  code gets by adding one to the field, is valid exactly when the field was not 0xFFFF.\<close>

theorem ipv4_forward_checksum:
  assumes "pico_ipv4_pre_forward_checks s f = Some (True, s', g)" "20 \<le> unat (f_net_len f)" "in_buffer f 0 (unat (f_net_len f))"
    and "hdr_ttl (f_net f) \<noteq> 0" "pico_checksum (f_net f) (unat (f_net_len f)) = 0"
  shows "hdr_ttl (f_net g) = hdr_ttl (f_net f) - 1 \<and> hdr_ttl (f_net g) \<noteq> 0
    \<and> (\<forall>i < length (f_net f). i \<notin> {8, 10, 11} \<longrightarrow> f_net g ! i = f_net f ! i)
    \<and> (pico_checksum (f_net g) (unat (f_net_len g)) = 0 \<longleftrightarrow> hdr_crc (f_net f) \<noteq> 0xFFFF)"
proof -
  define h where "h = f_net f"
  have len: "20 \<le> length h" "unat (f_net_len f) \<le> length h" using assms(2,3) by (simp_all add: in_buffer_def h_def)
  have t: "\<not> hdr_ttl (h[8 := hdr_ttl h - 1]) < 1" and
    g: "f_net g = put16 (h[8 := h ! 8 - 1]) 10 (get16 h 10 + 1)" "f_net_len g = f_net_len f"
    using assms(1) by (auto simp: pico_ipv4_pre_forward_checks_def Let_def bind_eq_Some_conv h_def ip_fields split: if_splits)
  have new: "hdr_ttl (f_net g) = hdr_ttl h - 1" using len by (simp add: g ip_fields)
  moreover have "hdr_ttl (f_net g) \<noteq> 0" using t len new by (simp add: ip_fields word_less_nat_alt unat_gt_0)
  moreover have "f_net g ! i = h ! i" if "i \<notin> {8, 10, 11}" for i
  proof -
    have "i < 10 \<or> 12 \<le> i" using that by auto
    then show ?thesis using that by (auto simp: g)
  qed
  moreover have "pico_checksum (f_net g) (unat (f_net_len g)) = 0 \<longleftrightarrow> hdr_crc h \<noteq> 0xFFFF"
    using forward_sum [of "unat (f_net_len f)" h "f_net g"] assms(2,4,5) len unat_u16_less [of "f_net_len f"]
    by (simp add: g h_def [symmetric] ip_fields)
  ultimately show ?thesis by (simp add: h_def)
qed

text \<open>The program at its start, and a query with a valid header.\<close>

definition stack_start :: ip_stack where
  "stack_start = \<lparr>ip = ipv4_init, nat_st = nat_start, flt = no_filters,
     devices = (\<lambda>_. \<lparr>d_loop = False, d_eth = True, d_mtu = 1500\<rparr>), last_id = 0, last_proto = 0, last_src = 0, last_dst = 0,
     ipv4_progressive_id = 0x91c0, enq_ok = [], frame_mem = [], ip_error = PICO_ERR_NOERR, effects = []\<rparr>"

definition valid_query :: ip_frame where
  "valid_query = query\<lparr>f_net := set_ip_crc (f_net query) 20\<rparr>"

theorem ipv4_forward_checksum_witness:
  "\<exists>s' g. pico_ipv4_pre_forward_checks stack_start valid_query = Some (True, s', g)
     \<and> hdr_ttl (f_net g) = 63 \<and> pico_checksum (f_net g) 20 = 0"
proof -
  have c: "20 \<le> unat (f_net_len valid_query)" "in_buffer valid_query 0 (unat (f_net_len valid_query))"
    "hdr_ttl (f_net valid_query) \<noteq> 0" "pico_checksum (f_net valid_query) (unat (f_net_len valid_query)) = 0" by code_simp+
  have d: "hdr_ttl (f_net valid_query) = 64" "hdr_crc (f_net valid_query) \<noteq> 0xFFFF" by code_simp+
  have "map_option (\<lambda>(ok, s', g). (ok, f_net_len g)) (pico_ipv4_pre_forward_checks stack_start valid_query) = Some (True, 20)"
    by code_simp
  then obtain s' g where g: "pico_ipv4_pre_forward_checks stack_start valid_query = Some (True, s', g)" "f_net_len g = 20" by auto
  show ?thesis using ipv4_forward_checksum [OF g(1) c] g d by simp
qed

section \<open>Every packet is disposed of once\<close>

text \<open>The effects that take the frame away.\<close>

fun consumes :: "ip_effect \<Rightarrow> bool" where
  "consumes Discard = True"
| "consumes (Enqueue q f) = True"
| "consumes (Transport_receive p f) = True"
| "consumes (Datalink_send f) = True"
| "consumes (Filter e) = (e = Discarded)"
| "consumes e = False"

definition disposals :: "ip_stack \<Rightarrow> nat" where
  "disposals s = length (filter consumes (effects s))"

text \<open>The tables are well formed, every rule rejects or drops, NAT is off and the queues have no limit.\<close>

definition stack_ok :: "ip_stack \<Rightarrow> bool" where
  "stack_ok s \<longleftrightarrow> (\<exists>ls rs. ip_ok (ip s) ls rs) \<and> nat_link (nat_st s) = None \<and> enq_ok s = []
     \<and> (\<exists>rules. table_ok (flt s) rules \<and> (\<forall>r \<in> set rules. function_ptr r \<in> {FILTER_REJECT, FILTER_DROP}))"

lemma effect_simps [simp]:
  "ip (effect e s) = ip s" "nat_st (effect e s) = nat_st s" "devices (effect e s) = devices s" "flt (effect e s) = flt s"
  "stack_ok (effect e s) = stack_ok s" "disposals (effect e s) = disposals s + (if consumes e then 1 else 0)"
  by (simp_all add: effect_def stack_ok_def disposals_def)

lemma discard_simps [simp]: "stack_ok (discard s) = stack_ok s" "disposals (discard s) = Suc (disposals s)"
  by (simp_all add: discard_def)

lemma enqueue_ok: "stack_ok s \<Longrightarrow> enqueue q f s = (True, effect (Enqueue q f) s)"
  by (simp add: enqueue_def stack_ok_def)

text \<open>\<open>one\<close>: the operation returns, and takes the frame exactly when its flag says so.\<close>

definition one :: "ip_stack \<Rightarrow> bool \<Rightarrow> ip_stack \<Rightarrow> bool" where
  "one s b s' \<longleftrightarrow> stack_ok s' \<and> disposals s' = disposals s + (if b then 1 else 0)"

text \<open>How much of the transport header the filter reads.\<close>

definition filter_reads :: "u8 \<Rightarrow> nat" where
  "filter_reads p = (if p = Ip_Frame.PICO_PROTO_TCP \<or> p = Ip_Frame.PICO_PROTO_UDP then 4
     else if p = Ip_Frame.PICO_PROTO_ICMP4 then 2 else 0)"

lemma run_filter_one:
  assumes "stack_ok s" "in_buffer f (f_trans f) (filter_reads (hdr_proto (f_net f)))"
  shows "\<exists>b s'. run_filter s f = Some (b, s') \<and> one s b s'"
proof -
  obtain rules where r: "table_ok (flt s) rules" "\<forall>r \<in> set rules. function_ptr r \<in> {FILTER_REJECT, FILTER_DROP}"
    using assms(1) by (auto simp: stack_ok_def)
  define p where "p = \<lparr>pdev = f_dev f, pprio = f_priority f, net_bytes = f_net f, trans_bytes = drop (f_trans f) (f_net f)\<rparr>"
  obtain res eff where e: "ipfilter (flt s) p = Some (res, eff)"
    "res = 0 \<and> eff = [] \<or> res = 1 \<and> (\<exists>r \<in> set rules. eff = snd (fp_function (function_ptr r)))"
    using ipfilter_ok [OF r(1), of p] by blast
  have run: "run_filter s f = Some (res \<noteq> 0, s\<lparr>effects := effects s @ map Filter eff\<rparr>)"
    using e(1) assms(2) by (simp add: run_filter_def p_def Let_def filter_reads_def)
  have "length (filter consumes (map Filter eff)) = (if res \<noteq> 0 then 1 else 0)"
    using e(2) r(2) by (auto simp: fp_function_def fp_reject_def fp_drop_def)
  then show ?thesis using run assms(1) by (auto simp: one_def disposals_def stack_ok_def)
qed

lemma broadcast_ok: "stack_ok s \<Longrightarrow> \<exists>b. pico_ipv4_is_broadcast (ip s) a = Some b"
  using tree_inv_foreach unfolding stack_ok_def ip_ok_def pico_ipv4_is_broadcast_def by (cases "a = PICO_IP4_BCAST") fastforce+

lemma link_get_ok: "stack_ok s \<Longrightarrow> \<exists>l. pico_ipv4_link_get (ip s) a = Some l"
proof -
  assume "stack_ok s"
  then obtain ls where "tree_keys (Tree_dev_link (ip s)) ls" by (auto simp: stack_ok_def ip_ok_def tree_inv_def)
  from findKey_sound [OF this, of ipv4_link_compare "link_key 0 a"] show ?thesis by (auto simp: pico_ipv4_link_get_def)
qed

lemma mcast_filter_loop_ok: "groups_ok i \<Longrightarrow> \<exists>r. mcast_filter_loop i src dst dev ls = Some r"
proof (induction ls)
  case (Cons l ls)
  obtain g where g: "mcast_find i l dst = Some g" using group_find_ok [OF Cons.prems] by blast
  obtain ks where ks: "\<forall>p. pico_tree_foreach (MCASTSources (mcast_groups i p)) = Some (ks p)"
    using sources_ok [OF Cons.prems] tree_inv_foreach by metis
  then show ?case using g Cons by (cases g) (auto simp: Let_def)
qed simp

lemma mcast_filter_ok: "stack_ok s \<Longrightarrow> \<exists>r. pico_ipv4_mcast_filter (ip s) src dst dev = Some r"
  using tree_inv_foreach mcast_filter_loop_ok unfolding stack_ok_def ip_ok_def pico_ipv4_mcast_filter_def by fastforce

lemma valid_src_one:
  assumes "stack_ok s"
  shows "\<exists>b s'. pico_ipv4_is_valid_src s a dev = Some (b, s') \<and> one s False s'"
proof -
  obtain b where "pico_ipv4_is_broadcast (ip s) a = Some b" using broadcast_ok [OF assms] by blast
  then show ?thesis using assms by (auto simp: pico_ipv4_is_valid_src_def one_def)
qed

lemma bcast_in_one:
  assumes "stack_ok s"
  shows "\<exists>b s'. pico_ipv4_process_bcast_in s f = Some (b, s') \<and> one s b s'"
proof -
  obtain b where "pico_ipv4_is_broadcast (ip s) (hdr_dst (f_net f)) = Some b" using broadcast_ok [OF assms] by blast
  then show ?thesis using assms by (auto simp: pico_ipv4_process_bcast_in_def one_def Let_def enqueue_ok)
qed

lemma mcast_in_one:
  assumes "stack_ok s"
  shows "\<exists>b s'. pico_ipv4_process_mcast_in s f = Some (b, s') \<and> one s b s'"
proof -
  obtain r where "pico_ipv4_mcast_filter (ip s) (hdr_src (f_net f)) (hdr_dst (f_net f)) (f_dev f) = Some r"
    using mcast_filter_ok [OF assms] by blast
  then show ?thesis using assms by (auto simp: pico_ipv4_process_mcast_in_def one_def Let_def enqueue_ok)
qed

lemma stack_ok_ip: "stack_ok s \<Longrightarrow> stack_ok (s\<lparr>ip := (ip s)\<lparr>ip_err := e\<rparr>\<rparr>)"
proof -
  assume s: "stack_ok s"
  then obtain ls rs where "ip_ok (ip s) ls rs" by (auto simp: stack_ok_def)
  then have "ip_ok ((ip s)\<lparr>ip_err := e\<rparr>) ls rs" using ip_ok_kept [OF kept_simps(1)] by blast
  then have "\<exists>ls rs. ip_ok ((ip s)\<lparr>ip_err := e\<rparr>) ls rs" by blast
  then show ?thesis using s by (simp add: stack_ok_def)
qed

lemma local_in_one:
  assumes "stack_ok s"
  shows "\<exists>b s'. pico_ipv4_process_local_unicast_in s f = Some (b, s') \<and> one s b s'"
proof -
  have off: "pico_ipv4_nat_inbound (nat_st s) f a = Some (- 1, nat_st s, f)" for a
    using assms by (simp add: pico_ipv4_nat_inbound_def pico_ipv4_nat_is_enabled_def stack_ok_def)
  obtain l where l: "pico_ipv4_link_get (ip s) (hdr_dst (f_net f)) = Some l" using link_get_ok [OF assms] by blast
  obtain dev i where i: "pico_ipv4_link_find (ip s) (Some (hdr_dst (f_net f))) = Some (dev, i)" "i = ip s \<or> i = (ip s)\<lparr>ip_err := PICO_ERR_ENXIO\<rparr>"
    using l by (cases l) (auto simp: pico_ipv4_link_find_def pico_ipv4_link_get_def)
  have s1: "stack_ok (s\<lparr>ip := i\<rparr>)" "disposals (s\<lparr>ip := i\<rparr>) = disposals s" using i(2) assms stack_ok_ip by (auto simp: disposals_def)
  obtain a where "pico_ipv4_link_get i PICO_IP4_ANY = Some a" using link_get_ok [OF s1(1)] by auto
  then show ?thesis using i(1) off s1
    by (auto simp: pico_ipv4_process_local_unicast_in_def one_def Let_def enqueue_ok)
qed

lemma route_link_ok:
  assumes "ip_ok i ls rs" "a \<noteq> PICO_IP4_BCAST"
  shows "\<exists>res. route_find i a = Some res \<and> (\<forall>r. res = Some r \<longrightarrow> (\<exists>l. r_link r = Some l \<and> l_dev l \<noteq> 0))"
proof (cases "a = PICO_IP4_ANY")
  case True
  then show ?thesis by (simp add: route_find_def)
next
  case False
  have rs: "routes_are i rs" "\<forall>r \<in> set rs. \<exists>l \<in> set ls. r_link r = Some l" "\<forall>l \<in> set ls. l_dev l \<noteq> 0"
    using assms(1) by (auto simp: ip_ok_def)
  have run: "route_find i a = Some (route_scan a (rev rs))"
    using False assms(2) tree_inv_foreach_reverse [OF rs(1)] by (simp add: route_find_def)
  have "r \<in> set rs" if "route_scan a (rev rs) = Some r" for r
    using route_scan_Some [OF that] by (metis in_set_conv_decomp set_rev)
  then show ?thesis using run rs(2,3) by fastforce
qed

lemma last_simps [simp]:
  "stack_ok (s\<lparr>last_src := a, last_dst := b, last_id := c, last_proto := d\<rparr>) = stack_ok s"
  "disposals (s\<lparr>last_src := a, last_dst := b, last_id := c, last_proto := d\<rparr>) = disposals s"
  "stack_ok (s\<lparr>last_id := c, last_proto := d, last_src := a, last_dst := b\<rparr>) = stack_ok s"
  "disposals (s\<lparr>last_id := c, last_proto := d, last_src := a, last_dst := b\<rparr>) = disposals s"
  by (simp_all add: stack_ok_def disposals_def)

lemma pre_forward_one:
  assumes "stack_ok s"
  shows "\<exists>b s' g. pico_ipv4_pre_forward_checks s f = Some (b, s', g) \<and> one s False s' \<and> f_dev g = f_dev f"
proof -
  define f1 where "f1 = f\<lparr>f_net := (f_net f)[8 := hdr_ttl (f_net f) - 1]\<rparr>"
  define f2 where "f2 = f1\<lparr>f_net := put16 (f_net f1) 10 (hdr_crc (f_net f1) + 1)\<rparr>"
  obtain l where l: "pico_ipv4_link_get (ip s) (hdr_src (f_net f2)) = Some l" using link_get_ok [OF assms] by blast
  define u where "u = s\<lparr>last_src := hdr_src (f_net f2), last_dst := hdr_dst (f_net f2), last_id := hdr_id (f_net f2),
    last_proto := ucast (hdr_proto (f_net f2))\<rparr>"
  have u: "one s False u" using assms by (simp add: one_def u_def)
  have d: "f_dev f1 = f_dev f" "f_dev f2 = f_dev f" by (simp_all add: f1_def f2_def)
  have "pico_ipv4_pre_forward_checks s f =
      (if hdr_ttl (f_net f1) < 1 then Some (False, effect Notify_ttl_expired s, f1)
       else Some (if l \<noteq> None then (False, s, f2)
                  else if last_src s = hdr_src (f_net f2) \<and> last_id s = hdr_id (f_net f2) \<and> last_dst s = hdr_dst (f_net f2)
                        \<and> last_proto s = ucast (hdr_proto (f_net f2)) then (False, s, f2)
                  else (True, u, f2)))"
    unfolding pico_ipv4_pre_forward_checks_def Let_def f1_def [symmetric] f2_def [symmetric] l u_def by simp
  moreover have "one s False (effect Notify_ttl_expired s)" "one s False s" using assms by (simp_all add: one_def)
  ultimately show ?thesis using u d by (auto split: if_splits)
qed

lemma check_dev_one:
  assumes "stack_ok s" "f_dev f \<noteq> 0"
  shows "\<exists>b s' g. pico_ipv4_forward_check_dev s f = Some (b, s', g) \<and> one s False s'"
proof -
  define g where "g = (if d_eth (devices s (f_dev f)) then f\<lparr>f_len := f_len f - 14\<rparr> else f)"
  have "pico_ipv4_forward_check_dev s f =
      Some (if f_len g > d_mtu (devices s (f_dev f)) then (False, effect Notify_pkt_too_big s, g) else (True, s, g))"
    unfolding pico_ipv4_forward_check_dev_def Let_def g_def using assms(2) by simp
  then show ?thesis using assms(1) by (cases "f_len g > d_mtu (devices s (f_dev f))") (auto simp: one_def)
qed

lemma forward_one:
  assumes "stack_ok s" "hdr_dst (f_net f) \<noteq> PICO_IP4_BCAST" "f_has_net f"
  shows "\<exists>r s'. pico_ipv4_forward s f = Some (r, s') \<and> one s (r = 0) s'"
proof -
  obtain ls rs where "ip_ok (ip s) ls rs" using assms(1) by (auto simp: stack_ok_def)
  then obtain res where res: "route_find (ip s) (hdr_dst (f_net f)) = Some res"
    "\<forall>r. res = Some r \<longrightarrow> (\<exists>l. r_link r = Some l \<and> l_dev l \<noteq> 0)" using route_link_ok [OF _ assms(2)] by blast
  show ?thesis
  proof (cases res)
    case None
    then show ?thesis using res(1) assms by (simp add: pico_ipv4_forward_def one_def)
  next
    case (Some r)
    then obtain l where l: "r_link r = Some l" "l_dev l \<noteq> 0" using res(2) by blast
    obtain b s1 g where 1: "pico_ipv4_pre_forward_checks s (f\<lparr>f_dev := l_dev l\<rparr>) = Some (b, s1, g)" "one s False s1" "f_dev g = l_dev l"
      using pre_forward_one [OF assms(1), of "f\<lparr>f_dev := l_dev l\<rparr>"] by auto
    have off: "pico_ipv4_nat_outbound (nat_st s1) g (l_address l) = Some (- 1, nat_st s1, g)"
      using 1(2) by (simp add: pico_ipv4_nat_outbound_def pico_ipv4_nat_is_enabled_def stack_ok_def one_def)
    obtain d s2 k where 2: "pico_ipv4_forward_check_dev s1 g = Some (d, s2, k)" "one s False s2"
      using check_dev_one [of s1 g] 1(2,3) l(2) by (auto simp: one_def)
    have "pico_ipv4_forward s f = Some (if \<not> b then (- 1, s1) else if \<not> d then (- 1, s2) else (0, effect (Datalink_send k) s2))"
      using assms(3) res(1) Some l(1) 1(1) off 2(1) by (simp add: pico_ipv4_forward_def)
    then show ?thesis using 1(2) 2(2) by (auto simp: one_def)
  qed
qed

lemma try_forward_one:
  assumes "stack_ok s" "f_has_net f"
  shows "\<exists>s'. pico_ipv4_process_finally_try_forward s f = Some s' \<and> one s True s'"
proof -
  obtain b where b: "pico_ipv4_is_broadcast (ip s) (hdr_dst (f_net f)) = Some b" using broadcast_ok [OF assms(1)] by blast
  show ?thesis
  proof (cases "b \<or> f_flags f AND PICO_FRAME_FLAG_BCAST \<noteq> 0")
    case True
    then show ?thesis using b assms(1) by (auto simp: pico_ipv4_process_finally_try_forward_def one_def)
  next
    case False
    then have "hdr_dst (f_net f) \<noteq> PICO_IP4_BCAST" using b by (auto simp: pico_ipv4_is_broadcast_def)
    then obtain r s' where "pico_ipv4_forward s f = Some (r, s')" "one s (r = 0) s'"
      using forward_one [OF assms(1) _ assms(2)] by blast
    then show ?thesis using b False by (auto simp: pico_ipv4_process_finally_try_forward_def one_def)
  qed
qed

lemma one_trans: "one s False u \<Longrightarrow> one u b v \<Longrightarrow> one s b v"
  by (simp add: one_def)

lemma one_ok: "one s b u \<Longrightarrow> stack_ok u" by (simp add: one_def)

lemma dispatch_one:
  assumes "stack_ok s" "f_has_net f"
  shows "\<exists>s'. process_dispatch s f = Some s' \<and> one s True s'"
proof -
  obtain b1 s1 where 1: "pico_ipv4_process_bcast_in s f = Some (b1, s1)" "one s b1 s1" using bcast_in_one [OF assms(1)] by blast
  obtain b2 s2 where 2: "pico_ipv4_process_mcast_in s1 f = Some (b2, s2)" "one s1 b2 s2" using mcast_in_one [OF one_ok [OF 1(2)]] by blast
  obtain b3 s3 where 3: "pico_ipv4_process_local_unicast_in s2 f = Some (b3, s3)" "one s2 b3 s3"
    using local_in_one [OF one_ok [OF 2(2)]] by blast
  obtain s4 where 4: "pico_ipv4_process_finally_try_forward s3 f = Some s4" "one s3 True s4"
    using try_forward_one [OF one_ok [OF 3(2)] assms(2)] by blast
  have run: "process_dispatch s f = Some (if b1 then s1 else if b2 then s2 else if b3 then s3 else s4)"
    using 1(1) 2(1) 3(1) 4(1) by (simp add: process_dispatch_def)
  have "one s True (if b1 then s1 else if b2 then s2 else if b3 then s3 else s4)"
    using 1(2) 2(2) 3(2) 4(2) by (simp add: one_def split: if_splits)
  then show ?thesis using run by blast
qed

lemma process_valid_one:
  assumes "stack_ok s" "f_has_net f"
  shows "\<exists>s'. process_valid s f = Some s' \<and> one s True s'"
  using dispatch_one [OF assms] assms(1) by (auto simp: process_valid_def one_def)

text \<open>The buffer holds the headers that the packet announces.\<close>

definition headers_present :: "ip_frame \<Rightarrow> bool" where
  "headers_present f \<longleftrightarrow> PICO_SIZE_IP4HDR + unat (option_len (f_net f)) + filter_reads (hdr_proto (f_net f)) \<le> length (f_net f)"

lemma set_lengths_simps [simp]:
  "f_net (set_lengths f) = f_net f" "f_has_net (set_lengths f) = f_has_net f" "f_dev (set_lengths f) = f_dev f"
  "f_trans (set_lengths f) = PICO_SIZE_IP4HDR + unat (option_len (f_net f))"
  "unat (f_net_len (set_lengths f)) = PICO_SIZE_IP4HDR + unat (option_len (f_net f))"
proof -
  have "unat (20 + ucast (option_len (f_net f)) :: u16) = 20 + unat (option_len (f_net f))"
    using unat_u8_less [of "option_len (f_net f)"] by (subst unat_plus_no_wrap) (simp_all add: unat_ucast_up)
  then show "unat (f_net_len (set_lengths f)) = PICO_SIZE_IP4HDR + unat (option_len (f_net f))"
    by (simp add: set_lengths_def Let_def PICO_SIZE_IP4HDR_def)
qed (simp_all add: set_lengths_def Let_def)

lemma crc_check_one:
  assumes "stack_ok s" "in_buffer f 0 (unat (f_net_len f))"
  shows "\<exists>b s'. pico_ipv4_crc_check s f = Some (b, s') \<and> one s (\<not> b) s'"
  using assms by (cases "short_be (pico_checksum (f_net f) (unat (f_net_len f))) = 0") (auto simp: pico_ipv4_crc_check_def one_def)

lemma process_in_one:
  assumes "stack_ok s" "f_has_net f" "headers_present f"
  shows "\<exists>s'. pico_ipv4_process_in s f = Some (0, s') \<and> one s True s'"
proof -
  define g where "g = set_lengths f"
  have b: "in_buffer f 0 PICO_SIZE_IP4HDR" "in_buffer g (f_trans g) (filter_reads (hdr_proto (f_net g)))"
    "in_buffer g 0 (unat (f_net_len g))" using assms(3) by (simp_all add: headers_present_def in_buffer_def g_def)
  obtain b1 s1 where 1: "run_filter s g = Some (b1, s1)" "one s b1 s1" using run_filter_one [OF assms(1) b(2)] by blast
  obtain b2 s2 where 2: "pico_ipv4_crc_check s1 g = Some (b2, s2)" "one s1 (\<not> b2) s2"
    using crc_check_one [OF one_ok [OF 1(2)] b(3)] by blast
  obtain b3 s3 where 3: "pico_ipv4_is_valid_src s2 (hdr_src (f_net g)) (f_dev g) = Some (b3, s3)" "one s2 False s3"
    using valid_src_one [OF one_ok [OF 2(2)]] by blast
  obtain s4 where 4: "process_valid s3 g = Some s4" "one s3 True s4"
    using process_valid_one [OF one_ok [OF 3(2)], of g] assms(2) by (auto simp: g_def)
  define u where "u = (if f_transport_len g > max_allowed g then discard s else if b1 then s1 else if \<not> b2 then s2
    else if \<not> b3 then discard s3 else s4)"
  have "pico_ipv4_process_in s f = Some (0, u)"
    using assms(2) b(1) 1(1) 2(1) 3(1) 4(1) by (simp add: pico_ipv4_process_in_def g_def [symmetric] u_def)
  moreover have "one s True u"
    using assms(1) 1(2) 2(2) 3(2) 4(2) by (simp add: u_def one_def split: if_splits)
  ultimately show ?thesis by blast
qed

text \<open>C18: when the tables are well formed, every rule rejects or drops, NAT is off and the queues take
  frames, \<open>pico_ipv4_process_in\<close> returns for every packet whose headers are in the buffer, whatever they
  say, and disposes of the frame exactly once: it is discarded, queued, given to a protocol or sent.\<close>

theorem ipv4_process_in_disposes_once:
  assumes "stack_ok s" "f_has_net f" "headers_present f"
  shows "\<exists>s'. pico_ipv4_process_in s f = Some (0, s') \<and> disposals s' = disposals s + 1 \<and> stack_ok s'"
  using process_in_one [OF assms] by (auto simp: one_def)

lemma stack_start_ok: "stack_ok stack_start"
proof -
  have "\<exists>ls rs. ip_ok ipv4_init ls rs" using ip_ok_init by blast
  moreover have "\<exists>rules. table_ok no_filters rules \<and> (\<forall>r \<in> set rules. function_ptr r \<in> {FILTER_REJECT, FILTER_DROP})"
    by (rule exI [of _ "[]"]) (simp add: no_filters_ok)
  ultimately show ?thesis by (simp add: stack_ok_def stack_start_def nat_start_def)
qed

theorem ipv4_process_in_disposes_once_witness:
  "\<exists>s'. pico_ipv4_process_in stack_start valid_query = Some (0, s') \<and> disposals s' = 1"
proof -
  have "f_has_net valid_query" "headers_present valid_query" "disposals stack_start = 0" by code_simp+
  then show ?thesis using ipv4_process_in_disposes_once [OF stack_start_ok, of valid_query] by auto
qed

section \<open>Where it does not\<close>

text \<open>The length check leaves out the options: a packet of 24 bytes that announces a header of 60 and no
  payload passes it, and the header checksum is computed over memory behind the buffer.\<close>

definition long_header :: ip_frame where
  "long_header = query\<lparr>f_net := [0x4F, 0, 0, 60, 0, 0, 0, 0, 64, 2, 0, 0, 10, 0, 0, 1, 8, 8, 8, 8, 0, 0, 0, 0]\<rparr>"

lemma process_in_reads_past_buffer:
  "f_transport_len (set_lengths long_header) \<le> max_allowed (set_lengths long_header)
     \<and> pico_ipv4_process_in stack_start long_header = None"
  by code_simp

text \<open>A rule with \<open>FILTER_PRIORITY\<close> makes the frame leak: it is neither passed on nor discarded.\<close>

lemma priority_rule_leaks_frame:
  "map_option (\<lambda>(r, s). (r, effects s)) (do {
      (i, ft) \<leftarrow> pico_ipv4_filter_add no_filters 0 17 None None None None 0 0 0 0 FILTER_PRIORITY True True;
      pico_ipv4_process_in (stack_start\<lparr>flt := ft\<rparr>) valid_query }) = Some (0, [])"
  by code_simp

text \<open>An ICMP packet to the address NAT uses: the translator reports success without having changed the
  destination, so the packet is put back into the queue it came from, for ever.\<close>

lemma icmp_to_nat_address_loops:
  assumes "nat_link (nat_st s) = Some l" "hdr_proto (f_net f) = Ip_Frame.PICO_PROTO_ICMP4" "hdr_dst (f_net f) = l_address l"
    and "in_buffer f 0 (unat (f_net_len f))" "12 \<le> unat (f_net_len f)"
    and "pico_ipv4_link_find (ip s) (Some (l_address l)) = Some (dev, i)" "dev \<noteq> 0" "stack_ok s \<or> enq_ok s = []"
  shows "\<exists>g s'. pico_ipv4_process_local_unicast_in s f = Some (True, s') \<and> effects s' = effects s @ [Enqueue Q_ipv4_in g]
    \<and> hdr_dst (f_net g) = hdr_dst (f_net f) \<and> hdr_proto (f_net g) = hdr_proto (f_net f) \<and> nat_st s' = nat_st s"
proof -
  define g where "g = f\<lparr>f_net := set_ip_crc (f_net f) (f_net_len f)\<rparr>"
  have "pico_ipv4_nat_inbound (nat_st s) f (l_address l) = Some (0, nat_st s, g)"
    using assms(1-4)
    by (simp add: pico_ipv4_nat_inbound_def pico_ipv4_nat_is_enabled_def finish_nat_def pico_ipv4_nat_sniff_session_def
        pico_ipv4_checksum_def proto_numbers g_def)
  then show ?thesis using assms
    by (auto simp: pico_ipv4_process_local_unicast_in_def enqueue_def effect_def stack_ok_def g_def ip_crc_simps)
qed

end
