(* ===== verification/Ipv4_Push.thy ===== *)
theory Ipv4_Push
  imports Ipv4_Proc
begin

text \<open>
  Transmission in \<open>modules/pico_ipv4.c\<close>: the header \<open>pico_ipv4_frame_push\<close> writes, the queue it chooses,
  and sending back what was received (\<open>pico_ipv4_rebound\<close>).  A result of 1 stands for the positive
  size of the queue that the code returns.
\<close>

section \<open>New frames\<close>

definition take_mem :: "ip_stack \<Rightarrow> bool \<times> ip_stack" where
  "take_mem s = (case frame_mem s of [] \<Rightarrow> (True, s) | b # bs \<Rightarrow> (b, s\<lparr>frame_mem := bs\<rparr>))"

definition pico_ipv4_alloc :: "ip_stack \<Rightarrow> nat \<Rightarrow> u16 \<Rightarrow> ip_frame option \<times> ip_stack" where
  "pico_ipv4_alloc s dev sz =
     (let (ok, s) = take_mem s in
      (if ok then Some \<lparr>f_dev = dev, f_has_net = True, f_net = replicate (unat (sz + of_nat PICO_SIZE_IP4HDR)) 0,
           f_net_len = of_nat PICO_SIZE_IP4HDR, f_trans = PICO_SIZE_IP4HDR, f_transport_len = sz, f_payload = None,
           f_payload_len = 0, f_frag = 0, f_flags = 0, f_len = ucast sz + of_nat PICO_SIZE_IP4HDR, f_send_ttl = 0,
           f_send_tos = 0, f_priority = 0, f_info = None, f_sock = None\<rparr>
       else None, s))"

section \<open>The header\<close>

definition PICO_IPV4_DEFAULT_TTL :: u8 where "PICO_IPV4_DEFAULT_TTL = 64"
definition PICO_IP_DEFAULT_MULTICAST_TTL :: u8 where "PICO_IP_DEFAULT_MULTICAST_TTL = 1"

text \<open>The loop over the links for an IGMP packet: the link of the device, else the last one.\<close>

primrec igmp_link :: "nat \<Rightarrow> pico_ipv4_link option \<Rightarrow> pico_ipv4_link list \<Rightarrow> pico_ipv4_link option" where
  "igmp_link dev l [] = l"
| "igmp_link dev l (x # xs) = (if l_dev x = dev then Some x else igmp_link dev (Some x) xs)"

text \<open>TTL, first byte, link and the header with the router alert, by destination and protocol.\<close>

definition push_mcast ::
    "ip_stack \<Rightarrow> ip_frame \<Rightarrow> u32 \<Rightarrow> u8 \<Rightarrow> pico_ipv4_link option \<Rightarrow> (u8 \<times> u8 \<times> pico_ipv4_link option \<times> ip_frame) option" where
  "push_mcast s f dst p link =
     (if \<not> pico_ipv4_is_multicast dst then Some (PICO_IPV4_DEFAULT_TTL, 0x45, link, f)
      else if p = Ip_Frame.PICO_PROTO_UDP
      then Some (case f_sock f of Some k \<Rightarrow> s_mc_ttl k | None \<Rightarrow> PICO_IP_DEFAULT_MULTICAST_TTL, 0x45, link, f)
      else if p = PICO_PROTO_IGMP
      then (if \<not> in_buffer f 20 4 then None
            else do {
              let f = f\<lparr>f_net := (f_net f)[20 := 0x94, 21 := 0x04, 22 := 0, 23 := 0]\<rparr>;
              link \<leftarrow> (if f_dev f = 0 then Some link
                       else do {
                         l \<leftarrow> link;
                         (if l_dev l = f_dev f then Some (Some l)
                          else do { ls \<leftarrow> pico_tree_foreach (Tree_dev_link (ip s)); Some (igmp_link (f_dev f) (Some l) ls) }) });
              Some (1, 0x46, link, f) })
      else Some (PICO_IPV4_DEFAULT_TTL, 0x45, link, f))"

definition push_header :: "ip_stack \<Rightarrow> ip_frame \<Rightarrow> u32 \<Rightarrow> u8 \<Rightarrow> u8 \<Rightarrow> u8 \<Rightarrow> pico_ipv4_link \<Rightarrow> u8 list" where
  "push_header s f dst p ttl vhl l =
     (let h = (f_net f)[0 := vhl];
          h = put16 h 2 (short_be (f_transport_len f + f_net_len f));
          h = put16 h 4 (short_be (ipv4_progressive_id s));
          h = put32 h 16 dst;
          h = put32 h 12 (l_address l);
          h = h[8 := if f_send_ttl f > 0 then f_send_ttl f else ttl];
          h = h[1 := f_send_tos f];
          h = h[9 := p];
          h = put16 h 6 (short_be PICO_IPV4_DONTFRAG);
          h = (if p = Ip_Frame.PICO_PROTO_UDP
               then put16 (if f_payload f \<noteq> Some (f_trans f)
                           then put16 h 2 (short_be (f_payload_len f + 8 + f_net_len f)) else h) 6 (short_be (f_frag f))
               else h)
      in if p = Ip_Frame.PICO_PROTO_ICMP4 then put16 h 6 (short_be (f_frag f)) else h)"

section \<open>The queue\<close>

definition push_enqueue :: "ip_stack \<Rightarrow> ip_frame \<Rightarrow> (int \<times> ip_stack) option" where
  "push_enqueue s f = do {
     own \<leftarrow> pico_ipv4_link_get (ip s) (hdr_dst (f_net f));
     (let (ok, s) = enqueue (if own \<noteq> None then Q_ipv4_in else Q_ipv4_out) f s
      in Some (if ok then (1, s) else (- 1, discard s))) }"

text \<open>The loopback copy for a member of the group; False: no memory for it.\<close>

definition push_loopback :: "ip_stack \<Rightarrow> ip_frame \<Rightarrow> u8 \<Rightarrow> (bool \<times> ip_stack) option" where
  "push_loopback s f p =
     (if \<not> pico_ipv4_is_multicast (hdr_dst (f_net f)) \<or> p = PICO_PROTO_IGMP then Some (True, s)
      else do {
        r \<leftarrow> pico_ipv4_mcast_filter (ip s) (hdr_src (f_net f)) (hdr_dst (f_net f)) (f_dev f);
        Some (if r \<noteq> 0 then (True, s)
              else let (ok, s) = take_mem s in
                if \<not> ok then (False, s\<lparr>ip_error := PICO_ERR_ENOMEM\<rparr>)
                else let (ok, s) = enqueue Q_ipv4_in f s in (True, if ok then s else discard s)) })"

definition push_device :: "ip_frame \<Rightarrow> pico_ipv4_link \<Rightarrow> ip_frame" where
  "push_device f l =
     (case f_sock f of
        None \<Rightarrow> f\<lparr>f_dev := l_dev l\<rparr>
      | Some k \<Rightarrow> if s_dev k \<noteq> 0 then f\<lparr>f_dev := s_dev k\<rparr>
                   else f\<lparr>f_dev := l_dev l, f_sock := Some (k\<lparr>s_dev := l_dev l\<rparr>)\<rparr>)"

definition push_error :: "ip_stack \<Rightarrow> pico_err_t \<Rightarrow> (int \<times> ip_stack) option" where
  "push_error s e = Some (- 1, discard (s\<lparr>ip_error := e\<rparr>))"

definition pico_ipv4_frame_push :: "ip_stack \<Rightarrow> ip_frame option \<Rightarrow> u32 option \<Rightarrow> u8 \<Rightarrow> (int \<times> ip_stack) option" where
  "pico_ipv4_frame_push s fr dst p =
     (case (fr, dst) of
        (None, _) \<Rightarrow> Some (- 1, s\<lparr>ip_error := PICO_ERR_EINVAL\<rparr>)
      | (Some f, None) \<Rightarrow> push_error s PICO_ERR_EINVAL
      | (Some f, Some d) \<Rightarrow>
          (if \<not> f_has_net f then push_error s PICO_ERR_EINVAL
           else if d = 0 then push_error s PICO_ERR_EINVAL
           else if \<not> in_buffer f 0 PICO_SIZE_IP4HDR then None
           else do {
             rt \<leftarrow> route_find (ip s) d;
             (case rt of
                None \<Rightarrow> push_error s PICO_ERR_EHOSTUNREACH
              | Some r \<Rightarrow> do {
                  (ttl, vhl, link, f) \<leftarrow> push_mcast s f d p (r_link r);
                  l \<leftarrow> link;
                  let h = push_header s f d p ttl vhl l;
                  let s = (if f_frag f AND PICO_IPV4_MOREFRAG = 0
                           then s\<lparr>ipv4_progressive_id := ipv4_progressive_id s + 1\<rparr> else s);
                  f \<leftarrow> pico_ipv4_checksum (f\<lparr>f_net := h\<rparr>);
                  let f = push_device f l;
                  (ok, s) \<leftarrow> push_loopback s f p;
                  (if \<not> ok then Some (- 1, discard s) else push_enqueue s f) }) }))"

definition pico_ipv4_frame_sock_push :: "ip_stack \<Rightarrow> ip_frame \<Rightarrow> (int \<times> ip_stack) option" where
  "pico_ipv4_frame_sock_push s f =
     (case f_sock f of
        None \<Rightarrow> Some (- 1, discard s)
      | Some k \<Rightarrow> pico_ipv4_frame_push s (Some f) (Some (case f_info f of Some a \<Rightarrow> a | None \<Rightarrow> s_remote k)) (s_proto k))"

section \<open>Rebound\<close>

definition PICO_IPV4_MAXPAYLOAD :: nat where "PICO_IPV4_MAXPAYLOAD = 1480"

text \<open>A fragment with the bytes from \<open>written\<close> on.\<close>

definition rebound_fragment :: "ip_frame \<Rightarrow> nat \<Rightarrow> nat \<Rightarrow> ip_frame \<Rightarrow> ip_frame" where
  "rebound_fragment f written space fr =
     (let n = unat (f_transport_len f);
          fg = (if space + written < n then f_frag fr OR PICO_IPV4_MOREFRAG else f_frag fr AND PICO_IPV4_FRAG_MASK);
          fg = of_nat (written div 8) OR fg
      in fr\<lparr>f_frag := fg, f_net := take PICO_SIZE_IP4HDR (f_net fr) @ take space (drop (f_trans f + written) (f_net f))\<rparr>)"

partial_function (option) rebound_loop :: "ip_stack \<Rightarrow> ip_frame \<Rightarrow> nat \<Rightarrow> (int \<times> ip_stack) option" where
  "rebound_loop s f written =
     (let n = unat (f_transport_len f) in
      if \<not> written < n then Some (int written, s)
      else
        let space = min (n - written) PICO_IPV4_MAXPAYLOAD;
            (fr, s) = pico_ipv4_alloc s 0 (of_nat space)
        in case fr of
             None \<Rightarrow> Some (- 1, s\<lparr>ip_error := PICO_ERR_ENOMEM\<rparr>)
           | Some fr \<Rightarrow>
               if \<not> in_buffer f (f_trans f + written) space then None
               else do {
                 (r, s) \<leftarrow> pico_ipv4_frame_push s (Some (rebound_fragment f written space fr)) (Some (hdr_src (f_net f)))
                   (hdr_proto (f_net f));
                 (if r > 0 then rebound_loop s f (written + space) else Some (int written, s)) })"

declare rebound_loop.simps [code]

definition pico_ipv4_rebound_large :: "ip_stack \<Rightarrow> ip_frame \<Rightarrow> (int \<times> ip_stack) option" where
  "pico_ipv4_rebound_large s f = rebound_loop s f 0"

definition pico_ipv4_rebound :: "ip_stack \<Rightarrow> ip_frame option \<Rightarrow> (int \<times> ip_stack) option" where
  "pico_ipv4_rebound s fr =
     (case fr of
        None \<Rightarrow> Some (- 1, s\<lparr>ip_error := PICO_ERR_EINVAL\<rparr>)
      | Some f \<Rightarrow>
          (if \<not> f_has_net f then Some (- 1, s\<lparr>ip_error := PICO_ERR_EINVAL\<rparr>)
           else if \<not> in_buffer f 0 PICO_SIZE_IP4HDR then None
           else if unat (f_transport_len f) > PICO_IPV4_MAXPAYLOAD then pico_ipv4_rebound_large s f
           else pico_ipv4_frame_push s (Some f) (Some (hdr_src (f_net f))) (hdr_proto (f_net f))))"

end
