(* ===== verification/Ipv4_Push_Props.thy ===== *)
theory Ipv4_Push_Props
  imports Ipv4_Push Ipv4_Proc_Props
begin

text \<open>
  What transmission promises: the header of a pushed frame, the fragments of a rebound packet; and the
  broadcast without a link.
\<close>

section \<open>The header\<close>

definition pushed :: "ip_stack \<Rightarrow> ip_frame \<Rightarrow> u32 \<Rightarrow> u8 \<Rightarrow> pico_ipv4_link \<Rightarrow> ip_frame" where
  "pushed s f d p l =
     push_device (f\<lparr>f_net := set_ip_crc (push_header s f d p PICO_IPV4_DEFAULT_TTL 0x45 l) (f_net_len f)\<rparr>) l"

definition next_id_of :: "ip_stack \<Rightarrow> ip_frame \<Rightarrow> ip_stack" where
  "next_id_of s f = (if f_frag f AND PICO_IPV4_MOREFRAG = 0
     then s\<lparr>ipv4_progressive_id := ipv4_progressive_id s + 1\<rparr> else s)"

lemma next_id_simps [simp]:
  "ip (next_id_of s f) = ip s" "effects (next_id_of s f) = effects s" "enq_ok (next_id_of s f) = enq_ok s"
  "frame_mem (next_id_of s f) = frame_mem s"
  by (simp_all add: next_id_of_def)

lemma length_push_header [simp]: "length (push_header s f d p ttl vhl l) = length (f_net f)"
  by (simp add: push_header_def Let_def)

lemma push_header_fields:
  assumes "20 \<le> length (f_net f)"
  shows "hdr_dst (push_header s f d p ttl vhl l) = d" "hdr_src (push_header s f d p ttl vhl l) = l_address l"
    "hdr_proto (push_header s f d p ttl vhl l) = p" "hdr_vhl (push_header s f d p ttl vhl l) = vhl"
    "hdr_ttl (push_header s f d p ttl vhl l) = (if f_send_ttl f > 0 then f_send_ttl f else ttl)"
    "hdr_id (push_header s f d p ttl vhl l) = short_be (ipv4_progressive_id s)"
    "hdr_frag (push_header s f d p ttl vhl l) = short_be (if p = Ip_Frame.PICO_PROTO_UDP \<or> p = Ip_Frame.PICO_PROTO_ICMP4 then f_frag f
       else PICO_IPV4_DONTFRAG)"
    "p \<noteq> Ip_Frame.PICO_PROTO_UDP \<Longrightarrow> hdr_len (push_header s f d p ttl vhl l) = short_be (f_transport_len f + f_net_len f)"
proof -
  have pos: "xs[0 := vhl] ! 0 = vhl" if "length xs = length (f_net f)" for xs :: "u8 list"
    using assms that by (intro nth_list_update_eq) linarith
  show "hdr_vhl (push_header s f d p ttl vhl l) = vhl" by (auto simp: push_header_def Let_def ip_fields pos)
qed (use assms in \<open>auto simp: push_header_def Let_def ip_fields\<close>)

lemma drop_put16: "i + 2 \<le> k \<Longrightarrow> drop k (put16 h i v) = drop k h"
  by (simp add: put16_def)

lemma drop_put32: "i + 4 \<le> k \<Longrightarrow> drop k (put32 h i v) = drop k h"
  by (simp add: put32_def)

lemma drop_push_header: "drop 20 (push_header s f d p ttl vhl l) = drop 20 (f_net f)"
  by (simp add: push_header_def Let_def drop_put16 drop_put32)

lemma set_ip_crc_fields:
  "hdr_vhl (set_ip_crc h n) = hdr_vhl h" "hdr_len (set_ip_crc h n) = hdr_len h" "hdr_id (set_ip_crc h n) = hdr_id h"
  "hdr_frag (set_ip_crc h n) = hdr_frag h" "hdr_ttl (set_ip_crc h n) = hdr_ttl h"
  by (simp_all add: set_ip_crc_def Let_def ip_fields)

lemma length_set_ip_crc [simp]: "length (set_ip_crc h n) = length h"
  by (simp add: set_ip_crc_def Let_def)

lemma push_device_simps [simp]:
  "f_has_net (push_device f l) = f_has_net f"
  "f_net (push_device f l) = f_net f" "f_net_len (push_device f l) = f_net_len f" "f_trans (push_device f l) = f_trans f"
  "f_transport_len (push_device f l) = f_transport_len f" "f_frag (push_device f l) = f_frag f"
  by (simp_all add: push_device_def split: option.split)

text \<open>The step for a destination that is not a group.\<close>

lemma push_unicast:
  assumes "\<not> pico_ipv4_is_multicast d" "d \<noteq> 0" "f_has_net f" "in_buffer f 0 PICO_SIZE_IP4HDR" "in_buffer f 0 (unat (f_net_len f))"
    and "route_find (ip s) d = Some (Some r)" "r_link r = Some l"
  shows "pico_ipv4_frame_push s (Some f) (Some d) p = push_enqueue (next_id_of s f) (pushed s f d p l)"
proof -
  have len: "20 \<le> length (f_net f)" using assms(4) by (simp add: in_buffer_def PICO_SIZE_IP4HDR_def)
  have c: "pico_ipv4_checksum (f\<lparr>f_net := push_header s f d p PICO_IPV4_DEFAULT_TTL 0x45 l\<rparr>)
      = Some (f\<lparr>f_net := set_ip_crc (push_header s f d p PICO_IPV4_DEFAULT_TTL 0x45 l) (f_net_len f)\<rparr>)"
    using assms(5) by (simp add: pico_ipv4_checksum_def in_buffer_def)
  have lb: "push_loopback u (pushed s f d p l) p = Some (True, u)" for u
    using assms(1) len by (simp add: push_loopback_def pushed_def ip_crc_simps push_header_fields)
  show ?thesis
    unfolding pico_ipv4_frame_push_def
    using assms c lb by (simp add: push_mcast_def next_id_of_def [symmetric] pushed_def [symmetric])
qed

lemma enqueue_effects: "enqueue q f s = (True, s') \<Longrightarrow> effects s' = effects s @ [Enqueue q f]"
  by (auto simp: enqueue_def effect_def split: list.split_asm if_split_asm)

lemma push_enqueue_taken:
  assumes "push_enqueue s f = Some (1, s')"
  shows "\<exists>own. pico_ipv4_link_get (ip s) (hdr_dst (f_net f)) = Some own
    \<and> effects s' = effects s @ [Enqueue (if own \<noteq> None then Q_ipv4_in else Q_ipv4_out) f]"
proof -
  obtain own where own: "pico_ipv4_link_get (ip s) (hdr_dst (f_net f)) = Some own" using assms by (auto simp: push_enqueue_def bind_eq_Some_conv)
  obtain ok u where e: "enqueue (if own \<noteq> None then Q_ipv4_in else Q_ipv4_out) f s = (ok, u)" by fastforce
  have "ok \<and> u = s'" using assms own e by (cases ok) (simp_all add: push_enqueue_def)
  then have "enqueue (if own \<noteq> None then Q_ipv4_in else Q_ipv4_out) f s = (True, s')" using e by simp
  from enqueue_effects [OF this] show ?thesis using own by blast
qed

text \<open>When \<open>pico_ipv4_frame_push\<close> takes a frame for an address that is no group, there is a route to the
  address; exactly one frame is queued, to be received again when the address is the program's own and to
  be sent otherwise; its header has the destination, the address of the route's link as source, the
  protocol, the next identification and a valid checksum, and what follows the header is unchanged.\<close>

theorem ipv4_frame_push_header:
  assumes "pico_ipv4_frame_push s (Some f) (Some d) p = Some (1, s')" "\<not> pico_ipv4_is_multicast d"
    and "20 \<le> unat (f_net_len f)" "in_buffer f 0 (unat (f_net_len f))"
  shows "\<exists>r l own q g. route_find (ip s) d = Some (Some r) \<and> r_link r = Some l \<and> pico_ipv4_link_get (ip s) d = Some own
    \<and> q = (if own \<noteq> None then Q_ipv4_in else Q_ipv4_out) \<and> effects s' = effects s @ [Enqueue q g]
    \<and> hdr_dst (f_net g) = d \<and> hdr_src (f_net g) = l_address l \<and> hdr_proto (f_net g) = p \<and> hdr_vhl (f_net g) = 0x45
    \<and> hdr_ttl (f_net g) = (if f_send_ttl f > 0 then f_send_ttl f else 64)
    \<and> hdr_id (f_net g) = short_be (ipv4_progressive_id s)
    \<and> pico_checksum (f_net g) (unat (f_net_len g)) = 0 \<and> drop 20 (f_net g) = drop 20 (f_net f)"
proof -
  have len: "20 \<le> length (f_net f)" "in_buffer f 0 PICO_SIZE_IP4HDR" using assms(3,4) by (simp_all add: in_buffer_def PICO_SIZE_IP4HDR_def)
  have d: "f_has_net f" "d \<noteq> 0" using assms(1) by (auto simp: pico_ipv4_frame_push_def push_error_def split: if_splits)
  obtain rt where rt: "route_find (ip s) d = Some rt" using assms(1) d len(2) by (auto simp: pico_ipv4_frame_push_def bind_eq_Some_conv)
  then obtain r where r1: "rt = Some r" using assms(1) d len(2) by (cases rt) (auto simp: pico_ipv4_frame_push_def push_error_def)
  then obtain l where "r_link r = Some l"
    using assms(1,2) d len(2) rt by (cases "r_link r") (auto simp: pico_ipv4_frame_push_def push_mcast_def)
  note r = rt [unfolded r1] this
  have run: "push_enqueue (next_id_of s f) (pushed s f d p l) = Some (1, s')"
    using push_unicast [OF assms(2) d(2,1) len(2) assms(4) r] assms(1) by simp
  define g where "g = pushed s f d p l"
  have fields: "hdr_dst (f_net g) = d" "hdr_src (f_net g) = l_address l" "hdr_proto (f_net g) = p" "hdr_vhl (f_net g) = 0x45"
    "hdr_ttl (f_net g) = (if f_send_ttl f > 0 then f_send_ttl f else 64)" "hdr_id (f_net g) = short_be (ipv4_progressive_id s)"
    "drop 20 (f_net g) = drop 20 (f_net f)"
    using len(1) by (simp_all add: g_def pushed_def ip_crc_simps set_ip_crc_fields push_header_fields drop_push_header PICO_IPV4_DEFAULT_TTL_def)
  have crc: "pico_checksum (f_net g) (unat (f_net_len g)) = 0"
    using ip_crc_verifies [of "f_net_len f" "push_header s f d p PICO_IPV4_DEFAULT_TTL 0x45 l"] assms(3,4)
    by (simp add: g_def pushed_def in_buffer_def)
  obtain own where own: "pico_ipv4_link_get (ip s) d = Some own" "effects s' = effects s @ [Enqueue (if own \<noteq> None then Q_ipv4_in else Q_ipv4_out) g]"
    using push_enqueue_taken [OF run] fields(1) by (auto simp: g_def [symmetric])
  show ?thesis using r own fields crc by blast
qed

text \<open>A stack with the network 10.0.0.0/24 on device 1, and a neighbour.\<close>

definition stack_link :: ip_stack where
  "stack_link = stack_start\<lparr>ip := (case pico_ipv4_link_add (ip stack_start) 1 (long_be 0x0A000001) (long_be 0xFFFFFF00) of
     Some (_, t) \<Rightarrow> t | None \<Rightarrow> ip stack_start)\<rparr>"

definition neighbour :: u32 where "neighbour = long_be 0x0A000005"

lemma stack_link_eval:
  "\<not> pico_ipv4_is_multicast neighbour" "neighbour \<noteq> 0" "enq_ok stack_link = []" "frame_mem stack_link = []" "effects stack_link = []"
  "map_option (map_option (\<lambda>r. map_option l_address (r_link r))) (route_find (ip stack_link) neighbour) = Some (Some (Some (long_be 0x0A000001)))"
  "pico_ipv4_link_get (ip stack_link) neighbour = Some None"
  by code_simp+

theorem ipv4_frame_push_header_witness:
  "\<exists>s' g. pico_ipv4_frame_push stack_link (Some valid_query) (Some neighbour) 1 = Some (1, s')
     \<and> effects s' = [Enqueue Q_ipv4_out g] \<and> hdr_src (f_net g) = long_be 0x0A000001 \<and> hdr_dst (f_net g) = neighbour"
proof -
  have "map_option fst (pico_ipv4_frame_push stack_link (Some valid_query) (Some neighbour) 1) = Some 1" by code_simp
  then obtain s' where s': "pico_ipv4_frame_push stack_link (Some valid_query) (Some neighbour) 1 = Some (1, s')" by auto
  have c: "20 \<le> unat (f_net_len valid_query)" "in_buffer valid_query 0 (unat (f_net_len valid_query))" by code_simp+
  show ?thesis using ipv4_frame_push_header [OF s' stack_link_eval(1) c] s' stack_link_eval by auto
qed

section \<open>The fragments of a rebound packet\<close>

text \<open>A packet can be sent back: there is a route to its source, memory, and room in the queues.\<close>

definition can_rebound :: "ip_stack \<Rightarrow> u32 \<Rightarrow> ip_queue \<Rightarrow> bool" where
  "can_rebound s d q \<longleftrightarrow> (\<exists>r l own. route_find (ip s) d = Some (Some r) \<and> r_link r = Some l
     \<and> pico_ipv4_link_get (ip s) d = Some own \<and> q = (if own \<noteq> None then Q_ipv4_in else Q_ipv4_out))
     \<and> \<not> pico_ipv4_is_multicast d \<and> d \<noteq> 0 \<and> enq_ok s = [] \<and> frame_mem s = []"

text \<open>The address a reply to \<open>d\<close> is sent from.\<close>

definition reply_source :: "ip_stack \<Rightarrow> u32 \<Rightarrow> u32 option" where
  "reply_source s d = (case route_find (ip s) d of Some (Some r) \<Rightarrow> map_option l_address (r_link r) | _ \<Rightarrow> None)"

text \<open>The fragment at offset \<open>w\<close> of \<open>f\<close>, as it is queued.\<close>

definition is_fragment :: "ip_stack \<Rightarrow> ip_frame \<Rightarrow> nat \<Rightarrow> nat \<Rightarrow> ip_frame \<Rightarrow> bool" where
  "is_fragment s f w space g \<longleftrightarrow> hdr_dst (f_net g) = hdr_src (f_net f) \<and> hdr_proto (f_net g) = hdr_proto (f_net f)
     \<and> hdr_id (f_net g) = short_be (ipv4_progressive_id s)
     \<and> hdr_frag (f_net g) = short_be (of_nat (w div 8) OR (if w + space < unat (f_transport_len f) then PICO_IPV4_MOREFRAG else 0))
     \<and> drop 20 (f_net g) = take space (drop (f_trans f + w) (f_net f))
     \<and> pico_checksum (f_net g) 20 = 0
     \<and> f_has_net g \<and> length (f_net g) = 20 + space \<and> hdr_vhl (f_net g) = 0x45
     \<and> hdr_len (f_net g) = short_be (of_nat (20 + space)) \<and> reply_source s (hdr_src (f_net f)) = Some (hdr_src (f_net g))"

lemma alloc_ok:
  assumes "frame_mem s = []" "space \<le> 1480"
  shows "\<exists>fr. pico_ipv4_alloc s 0 (of_nat space) = (Some fr, s) \<and> length (f_net fr) = 20 + space \<and> f_has_net fr
    \<and> f_net_len fr = 20 \<and> f_frag fr = 0 \<and> f_sock fr = None \<and> f_transport_len fr = of_nat space"
proof -
  have "unat (of_nat space + 20 :: u16) = space + 20"
    using assms(2) by (subst unat_plus_no_wrap) (simp_all add: unat_of_nat take_bit_nat_eq_self)
  then show ?thesis using assms(1) by (simp add: pico_ipv4_alloc_def take_mem_def PICO_SIZE_IP4HDR_def)
qed

lemma push_fragment:
  assumes "can_rebound s (hdr_src (f_net f)) q" "hdr_proto (f_net f) = Ip_Frame.PICO_PROTO_ICMP4"
    and "space \<le> 1480" "in_buffer f (f_trans f + w) space" "pico_ipv4_alloc s 0 (of_nat space) = (Some fr, s)"
  shows "\<exists>g. pico_ipv4_frame_push s (Some (rebound_fragment f w space fr)) (Some (hdr_src (f_net f))) (hdr_proto (f_net f))
      = Some (1, effect (Enqueue q g) (next_id_of s (rebound_fragment f w space fr))) \<and> is_fragment s f w space g"
proof -
  define d p k where "d = hdr_src (f_net f)" and "p = hdr_proto (f_net f)" and "k = rebound_fragment f w space fr"
  obtain r l own where r: "route_find (ip s) d = Some (Some r)" "r_link r = Some l" "pico_ipv4_link_get (ip s) d = Some own"
    "q = (if own \<noteq> None then Q_ipv4_in else Q_ipv4_out)" "\<not> pico_ipv4_is_multicast d" "d \<noteq> 0" "enq_ok s = []" "frame_mem s = []"
    using assms(1) by (auto simp: can_rebound_def d_def)
  have fr: "length (f_net fr) = 20 + space" "f_has_net fr" "f_net_len fr = 20" "f_frag fr = 0" "f_sock fr = None"
    "f_transport_len fr = of_nat space"
    using alloc_ok [OF r(8) assms(3)] assms(5) by auto
  have len: "length (take space (drop (f_trans f + w) (f_net f))) = space" using assms(4) by (simp add: in_buffer_def)
  have k: "length (f_net k) = 20 + space" "f_has_net k" "f_net_len k = 20" "f_sock k = None" "f_transport_len k = of_nat space"
    "drop 20 (f_net k) = take space (drop (f_trans f + w) (f_net f))"
    "f_frag k = of_nat (w div 8) OR (if space + w < unat (f_transport_len f) then PICO_IPV4_MOREFRAG else 0)"
    using fr len by (simp_all add: k_def rebound_fragment_def PICO_SIZE_IP4HDR_def Let_def)
  define g where "g = pushed s k d p l"
  have kb: "20 \<le> length (f_net k)" "in_buffer k 0 PICO_SIZE_IP4HDR" "in_buffer k 0 (unat (f_net_len k))"
    using k by (simp_all add: in_buffer_def PICO_SIZE_IP4HDR_def)
  have dst: "hdr_dst (f_net g) = d" using kb(1) by (simp add: g_def pushed_def ip_crc_simps push_header_fields)
  have "pico_ipv4_frame_push s (Some k) (Some d) p = push_enqueue (next_id_of s k) g"
    using push_unicast [OF r(5,6) k(2) kb(2,3) r(1,2)] by (simp add: g_def)
  also have "\<dots> = Some (1, effect (Enqueue q g) (next_id_of s k))"
    using r(3,4,7) by (simp add: push_enqueue_def dst enqueue_def)
  finally have run: "pico_ipv4_frame_push s (Some k) (Some d) p = Some (1, effect (Enqueue q g) (next_id_of s k))" .
  have "pico_checksum (set_ip_crc (push_header s k d p PICO_IPV4_DEFAULT_TTL 0x45 l) 20) (unat (20 :: u16)) = 0"
    by (rule ip_crc_verifies) (use kb(1) in simp_all)
  then have "pico_checksum (f_net g) 20 = 0" by (simp add: g_def pushed_def k(3))
  moreover have "hdr_len (f_net g) = short_be (of_nat (20 + space))"
  proof -
    have "p \<noteq> Ip_Frame.PICO_PROTO_UDP" using assms(2) by (simp add: p_def Ip_Frame.PICO_PROTO_ICMP4_def Ip_Frame.PICO_PROTO_UDP_def)
    from push_header_fields(8) [OF kb(1) this] show ?thesis using k(3,5) by (simp add: g_def pushed_def set_ip_crc_fields add.commute)
  qed
  moreover have "reply_source s d = Some (hdr_src (f_net g))"
    using kb(1) r(1,2) by (simp add: reply_source_def g_def pushed_def ip_crc_simps push_header_fields)
  ultimately have "is_fragment s f w space g"
    using kb(1) k dst assms(2)
    by (simp add: is_fragment_def g_def pushed_def ip_crc_simps set_ip_crc_fields push_header_fields drop_push_header d_def p_def add.commute)
  then show ?thesis using run by (auto simp: k_def d_def p_def)
qed


text \<open>The offset of a fragment leaves the flag alone.\<close>

lemma more_flag:
  assumes "w < 65536"
  shows "(of_nat (w div 8) OR PICO_IPV4_MOREFRAG) AND PICO_IPV4_MOREFRAG \<noteq> (0 :: u16)"
  unfolding PICO_IPV4_MOREFRAG_def bit_eq_iff by (auto simp: bit_simps intro!: exI [of _ 13])

lemma can_rebound_effect [simp]: "can_rebound (effect e s) d q = can_rebound s d q"
  by (simp add: can_rebound_def effect_def)

lemma can_rebound_next [simp]: "can_rebound (next_id_of s f) d q = can_rebound s d q"
  by (simp add: can_rebound_def)

lemma alloc_exact:
  "frame_mem s = [] \<Longrightarrow> space \<le> 1480 \<Longrightarrow> \<exists>fr. pico_ipv4_alloc s 0 (of_nat space) = (Some fr, s) \<and> f_frag fr = 0"
  using alloc_ok by blast

text \<open>One step of the loop.\<close>

lemma rebound_step:
  assumes "can_rebound s (hdr_src (f_net f)) q" "hdr_proto (f_net f) = Ip_Frame.PICO_PROTO_ICMP4"
    and "w < unat (f_transport_len f)" "f_trans f + unat (f_transport_len f) \<le> length (f_net f)"
    and space: "space = min (unat (f_transport_len f) - w) 1480"
  shows "\<exists>g s'. rebound_loop s f w = rebound_loop s' f (w + space) \<and> is_fragment s f w space g
    \<and> effects s' = effects s @ [Enqueue q g] \<and> can_rebound s' (hdr_src (f_net f)) q
    \<and> ip s' = ip s \<and> (w + space < unat (f_transport_len f) \<longrightarrow> ipv4_progressive_id s' = ipv4_progressive_id s)"
proof -
  obtain fr where fr: "pico_ipv4_alloc s 0 (of_nat space) = (Some fr, s)" "f_frag fr = 0"
    using alloc_exact [of s space] assms(1) space by (auto simp: can_rebound_def)
  have b: "in_buffer f (f_trans f + w) space" "space \<le> 1480" using assms(3,4) space by (auto simp: in_buffer_def)
  obtain g where g: "pico_ipv4_frame_push s (Some (rebound_fragment f w space fr)) (Some (hdr_src (f_net f))) (hdr_proto (f_net f))
      = Some (1, effect (Enqueue q g) (next_id_of s (rebound_fragment f w space fr)))" "is_fragment s f w space g"
    using push_fragment [OF assms(1,2) b(2,1) fr(1)] by blast
  define s' where "s' = effect (Enqueue q g) (next_id_of s (rebound_fragment f w space fr))"
  have run: "rebound_loop s f w = rebound_loop s' f (w + space)"
    using assms(3) fr(1) g(1) b(1) by (subst rebound_loop.simps) (simp add: space [symmetric] PICO_IPV4_MAXPAYLOAD_def s'_def)
  have keep: "ipv4_progressive_id s' = ipv4_progressive_id s" if "w + space < unat (f_transport_len f)"
  proof -
    have "w < 65536" using assms(3) unsigned_less [of "f_transport_len f", where 'a = nat] by simp
    then show ?thesis using more_flag [of w] that fr(2)
      by (simp add: s'_def effect_def next_id_of_def rebound_fragment_def Let_def add.commute)
  qed
  have "effects s' = effects s @ [Enqueue q g]" by (simp add: s'_def effect_def)
  moreover have "can_rebound s' (hdr_src (f_net f)) q" using assms(1) by (simp add: s'_def)
  moreover have "ip s' = ip s" by (simp add: s'_def effect_def)
  ultimately show ?thesis using run g(2) keep by blast
qed

lemma is_fragment_id: "ipv4_progressive_id s' = ipv4_progressive_id s \<Longrightarrow> ip s' = ip s \<Longrightarrow> is_fragment s' f = is_fragment s f"
  by (simp add: is_fragment_def reply_source_def fun_eq_iff)

text \<open>Fragments from \<open>w\<close> on.\<close>

fun fragments_from :: "ip_stack \<Rightarrow> ip_frame \<Rightarrow> nat \<Rightarrow> ip_frame list \<Rightarrow> bool" where
  "fragments_from s f w [] = (w = unat (f_transport_len f))"
| "fragments_from s f w (g # gs) = (w < unat (f_transport_len f)
     \<and> is_fragment s f w (min (unat (f_transport_len f) - w) 1480) g
     \<and> fragments_from s f (w + min (unat (f_transport_len f) - w) 1480) gs)"

lemma fragments_from_id:
  "ipv4_progressive_id s' = ipv4_progressive_id s \<Longrightarrow> ip s' = ip s \<Longrightarrow> fragments_from s' f w gs = fragments_from s f w gs"
  using is_fragment_id [of s' s f] by (induction gs arbitrary: w) simp_all

lemma fragments_from_full: "fragments_from s f (unat (f_transport_len f)) gs \<longleftrightarrow> gs = []"
  by (cases gs) simp_all

lemma rebound_loop_fragments:
  assumes "can_rebound s (hdr_src (f_net f)) q" "hdr_proto (f_net f) = Ip_Frame.PICO_PROTO_ICMP4"
    and "w \<le> unat (f_transport_len f)" "f_trans f + unat (f_transport_len f) \<le> length (f_net f)"
  shows "\<exists>gs s'. rebound_loop s f w = Some (int (unat (f_transport_len f)), s') \<and> effects s' = effects s @ map (Enqueue q) gs
    \<and> fragments_from s f w gs"
  using assms
proof (induction "unat (f_transport_len f) - w" arbitrary: s w rule: less_induct)
  case less
  define n space where "n = unat (f_transport_len f)" and "space = min (n - w) 1480"
  show ?case
  proof (cases "w = n")
    case True
    then show ?thesis by (subst rebound_loop.simps) (auto simp: n_def intro!: exI [of _ "[]"])
  next
    case False
    then have wn: "w < unat (f_transport_len f)" using less.prems(3) by (simp add: n_def)
    obtain g s1 where step: "rebound_loop s f w = rebound_loop s1 f (w + space)" "is_fragment s f w space g"
      "effects s1 = effects s @ [Enqueue q g]" "can_rebound s1 (hdr_src (f_net f)) q"
      "ip s1 = ip s" "w + space < n \<longrightarrow> ipv4_progressive_id s1 = ipv4_progressive_id s"
      using rebound_step [OF less.prems(1,2) wn less.prems(4) refl] unfolding space_def n_def by blast
    have sm: "unat (f_transport_len f) - (w + space) < unat (f_transport_len f) - w" "w + space \<le> unat (f_transport_len f)"
      using wn by (auto simp: space_def n_def)
    obtain gs s' where ih: "rebound_loop s1 f (w + space) = Some (int n, s')" "effects s' = effects s1 @ map (Enqueue q) gs"
      "fragments_from s1 f (w + space) gs"
      using less.hyps [OF sm(1) step(4) less.prems(2) sm(2) less.prems(4)] unfolding n_def by blast
    have "fragments_from s f (w + space) gs"
    proof (cases "w + space < n")
      case True then show ?thesis using ih(3) step(5,6) fragments_from_id [of s1 s f "w + space" gs] by simp
    next
      case False
      then have "w + space = n" using sm(2) by (simp add: n_def)
      then show ?thesis using ih(3) by (simp add: n_def fragments_from_full)
    qed
    then have "fragments_from s f w (g # gs)" using step(2) wn by (simp add: space_def n_def)
    moreover have "effects s' = effects s @ map (Enqueue q) (g # gs)" using ih(2) step(3) by simp
    ultimately show ?thesis using ih(1) step(1) unfolding n_def by (intro exI [of _ "g # gs"] exI [of _ s']) simp
  qed
qed

lemma fragments_from_bytes:
  "fragments_from s f w gs \<Longrightarrow> concat (map (\<lambda>g. drop 20 (f_net g)) gs)
     = take (unat (f_transport_len f) - w) (drop (f_trans f + w) (f_net f))"
proof (induction gs arbitrary: w)
  case (Cons g gs)
  define n space where "n = unat (f_transport_len f)" and "space = min (n - w) 1480"
  have le: "space \<le> n - w" by (simp add: space_def)
  have "concat (map (\<lambda>g. drop 20 (f_net g)) (g # gs))
      = take space (drop (f_trans f + w) (f_net f)) @ take (n - (w + space)) (drop (f_trans f + (w + space)) (f_net f))"
    using Cons by (simp add: is_fragment_def n_def space_def)
  also have "\<dots> = take (space + (n - (w + space))) (drop (f_trans f + w) (f_net f))" by (simp add: take_add add.assoc add.commute add.left_commute)
  also have "space + (n - (w + space)) = n - w" using le by simp
  finally show ?case by (simp add: n_def)
qed simp

lemma fragments_from_nth:
  "fragments_from s f w gs \<Longrightarrow> i < length gs \<Longrightarrow> is_fragment s f (w + 1480 * i) (min (unat (f_transport_len f) - (w + 1480 * i)) 1480) (gs ! i)"
proof (induction gs arbitrary: w i)
  case (Cons g gs)
  then show ?case
  proof (cases i)
    case (Suc j)
    then have "fragments_from s f (w + min (unat (f_transport_len f) - w) 1480) gs" "j < length gs" using Cons.prems by simp_all
    moreover have "w + min (unat (f_transport_len f) - w) 1480 = w + 1480"
      using calculation by (cases gs) auto
    ultimately show ?thesis using Cons.IH [of "w + 1480" j] Suc by (simp add: algebra_simps)
  qed simp
qed simp

text \<open>C19: an ICMP packet of any size that is sent back is cut into fragments: each is queued for its source
  with the same identification, a valid header checksum, the offset in units of 8 and the flag for more
  fragments on all but the last, and together they carry the payload, in order.\<close>

theorem ipv4_rebound_fragments:
  assumes "can_rebound s (hdr_src (f_net f)) q" "hdr_proto (f_net f) = Ip_Frame.PICO_PROTO_ICMP4"
    and "f_trans f + unat (f_transport_len f) \<le> length (f_net f)"
  shows "\<exists>gs s'. pico_ipv4_rebound_large s f = Some (int (unat (f_transport_len f)), s') \<and> effects s' = effects s @ map (Enqueue q) gs
    \<and> (\<forall>i < length gs. is_fragment s f (1480 * i) (min (unat (f_transport_len f) - 1480 * i) 1480) (gs ! i))
    \<and> concat (map (\<lambda>g. drop 20 (f_net g)) gs) = take (unat (f_transport_len f)) (drop (f_trans f) (f_net f))"
proof -
  obtain gs s' where r: "rebound_loop s f 0 = Some (int (unat (f_transport_len f)), s')" "effects s' = effects s @ map (Enqueue q) gs"
    "fragments_from s f 0 gs"
    using rebound_loop_fragments [OF assms(1,2) _ assms(3), of 0] by auto
  show ?thesis using r fragments_from_nth [OF r(3)] fragments_from_bytes [OF r(3)] by (auto simp: pico_ipv4_rebound_large_def)
qed

text \<open>An answer of 1488 bytes to the neighbour.\<close>

definition big_echo :: ip_frame where
  "big_echo = valid_query\<lparr>f_net := (put32 (take 20 (f_net valid_query)) 12 neighbour)[9 := 1] @ replicate 1488 7,
     f_trans := 20, f_transport_len := 1488\<rparr>"

lemma big_echo_fields:
  "hdr_src (f_net big_echo) = neighbour" "hdr_proto (f_net big_echo) = Ip_Frame.PICO_PROTO_ICMP4"
proof -
  have "length (f_net valid_query) \<ge> 20"
    "hdr_src ((put32 (take 20 (f_net valid_query)) 12 neighbour)[9 := 1]) = neighbour"
    "hdr_proto ((put32 (take 20 (f_net valid_query)) 12 neighbour)[9 := 1]) = Ip_Frame.PICO_PROTO_ICMP4" by code_simp+
  then show "hdr_src (f_net big_echo) = neighbour" "hdr_proto (f_net big_echo) = Ip_Frame.PICO_PROTO_ICMP4"
    by (simp_all add: big_echo_def hdr_src_def hdr_proto_def get32_def nth_append)
qed

theorem ipv4_rebound_fragments_witness:
  "\<exists>gs s'. pico_ipv4_rebound_large stack_link big_echo = Some (1488, s') \<and> effects s' = map (Enqueue Q_ipv4_out) gs
     \<and> concat (map (\<lambda>g. drop 20 (f_net g)) gs) = replicate 1488 7"
proof -
  have len: "length (f_net valid_query) \<ge> 20" by code_simp
  obtain r l where "route_find (ip stack_link) neighbour = Some (Some r)" "r_link r = Some l" using stack_link_eval(6) by auto
  then have c: "can_rebound stack_link (hdr_src (f_net big_echo)) Q_ipv4_out"
    using stack_link_eval by (simp add: can_rebound_def big_echo_fields)
  have n: "unat (f_transport_len big_echo) = 1488" "f_trans big_echo = 20" by (simp_all add: big_echo_def)
  have b: "f_trans big_echo + unat (f_transport_len big_echo) \<le> length (f_net big_echo)" using len by (simp add: n) (simp add: big_echo_def)
  have "drop 20 (f_net big_echo) = replicate 1488 7" using len by (simp add: big_echo_def)
  then show ?thesis using ipv4_rebound_fragments [OF c big_echo_fields(2) b] stack_link_eval(5) unfolding n by auto
qed

section \<open>Broadcast without a link\<close>

text \<open>The route for broadcasts is a static object whose link is not set until the first link is added;
  \<open>pico_ipv4_frame_push\<close> reads its address without a test.\<close>

lemma push_broadcast_without_link:
  assumes "f_has_net f" "bcast_link (ip s) = None"
  shows "pico_ipv4_frame_push s (Some f) (Some PICO_IP4_BCAST) p = None"
proof -
  have c: "\<not> pico_ipv4_is_multicast PICO_IP4_BCAST" "PICO_IP4_BCAST \<noteq> 0" "PICO_IP4_BCAST \<noteq> PICO_IP4_ANY" by code_simp+
  show ?thesis using assms c
    by (simp add: pico_ipv4_frame_push_def route_find_def default_bcast_route_def push_mcast_def)
qed

end
