(* ===== verification/Fragments.thy ===== *)
theory Fragments
  imports Ip_Frame PTree_Foreach Ipv4_Route
begin

text \<open>
  Reassembly of fragments (\<open>modules/pico_fragments.c\<close>) for IPv4 and IPv6, with the delivery of the
  whole packet (\<open>pico_transport_receive\<close> of \<open>stack/pico_stack.c\<close>).  Each family has one tree of
  fragments, ordered by offset, the identification of the packet being assembled and a timer.  Frames are
  values, so \<open>pico_frame_copy\<close> is the frame itself; what is freed, queued or reported is recorded in
  \<open>fr_effects\<close>, in order.  Memory, timer numbers and room in the queues are supplies.  \<open>None\<close>: an
  access outside the bytes of a frame.
\<close>

section \<open>State\<close>

definition PICO_PROTO_IPV4 :: u8 where "PICO_PROTO_IPV4 = 0"
definition PICO_PROTO_IPV6 :: u8 where "PICO_PROTO_IPV6 = 41"
definition PICO_PROTO_ICMP6 :: u8 where "PICO_PROTO_ICMP6 = 58"
definition PICO_SIZE_IP6HDR :: u16 where "PICO_SIZE_IP6HDR = 40"
definition PICO_SIZE_IP6 :: nat where "PICO_SIZE_IP6 = 16"
definition PICO_IPV4_FRAG_TIMEOUT :: nat where "PICO_IPV4_FRAG_TIMEOUT = 15000"
definition PICO_IPV6_FRAG_TIMEOUT :: nat where "PICO_IPV6_FRAG_TIMEOUT = 60000"

datatype frag_effect =
    Frag_discard ip_frame
  | Frag_enqueue u8 ip_frame
  | Frag_proto_unreachable ip_frame
  | Frag_expired ip_frame
  | Frag_timer_on nat
  | Frag_timer_cancel u32

record frag_table =
  fragments :: "ip_frame pico_tree"
  cur_frag_id :: u32
  fragments_timer :: u32

record frag_state =
  ipv4_frags :: frag_table
  ipv6_frags :: frag_table
  fr_links :: ipv4_state
  fr_mem :: "bool list"
  fr_tmr :: "u32 list"
  fr_enq :: "bool list"
  fr_effects :: "frag_effect list"

text \<open>The argument \<open>tree\<close>: \<open>&ipv4_fragments\<close> or \<open>&ipv6_fragments\<close>.\<close>

datatype frag_tree = Ipv4_fragments | Ipv6_fragments

fun tab :: "frag_tree \<Rightarrow> frag_state \<Rightarrow> frag_table" where
  "tab Ipv4_fragments s = ipv4_frags s"
| "tab Ipv6_fragments s = ipv6_frags s"

fun set_tab :: "frag_tree \<Rightarrow> frag_table \<Rightarrow> frag_state \<Rightarrow> frag_state" where
  "set_tab Ipv4_fragments t s = s\<lparr>ipv4_frags := t\<rparr>"
| "set_tab Ipv6_fragments t s = s\<lparr>ipv6_frags := t\<rparr>"

definition set_frags :: "frag_tree \<Rightarrow> ip_frame pico_tree \<Rightarrow> frag_state \<Rightarrow> frag_state" where
  "set_frags tr t s = set_tab tr (tab tr s\<lparr>fragments := t\<rparr>) s"

definition set_frag_id :: "frag_tree \<Rightarrow> u32 \<Rightarrow> frag_state \<Rightarrow> frag_state" where
  "set_frag_id tr i s = set_tab tr (tab tr s\<lparr>cur_frag_id := i\<rparr>) s"

definition set_frag_timer :: "frag_tree \<Rightarrow> u32 \<Rightarrow> frag_state \<Rightarrow> frag_state" where
  "set_frag_timer tr i s = set_tab tr (tab tr s\<lparr>fragments_timer := i\<rparr>) s"

definition frag_effect :: "frag_effect \<Rightarrow> frag_state \<Rightarrow> frag_state" where
  "frag_effect e s = s\<lparr>fr_effects := fr_effects s @ [e]\<rparr>"

definition frag_alloc :: "frag_state \<Rightarrow> bool \<times> frag_state" where
  "frag_alloc s = (case fr_mem s of [] \<Rightarrow> (True, s) | b # bs \<Rightarrow> (b, s\<lparr>fr_mem := bs\<rparr>))"

section \<open>Offset, flag, identification\<close>

definition IP4_FRAG_OFF :: "u16 \<Rightarrow> u32" where
  "IP4_FRAG_OFF frag = push_bit 3 (ucast (frag AND PICO_IPV4_FRAG_MASK))"
definition IP4_FRAG_MORE :: "u16 \<Rightarrow> bool" where
  "IP4_FRAG_MORE frag \<longleftrightarrow> frag AND PICO_IPV4_MOREFRAG \<noteq> 0"
definition IP6_FRAG_OFF :: "u16 \<Rightarrow> u32" where
  "IP6_FRAG_OFF frag = ucast (frag AND 0xFFF8)"
definition IP6_FRAG_MORE :: "u16 \<Rightarrow> bool" where
  "IP6_FRAG_MORE frag \<longleftrightarrow> frag AND 1 \<noteq> 0"

definition IP4_FRAG_ID :: "ip_frame \<Rightarrow> u32" where
  "IP4_FRAG_ID f = ucast (hdr_id (f_net f))"

text \<open>The four bytes \<open>id\<close> of the fragment header.\<close>

definition IP6_FRAG_ID :: "u8 \<times> u8 \<times> u8 \<times> u8 \<Rightarrow> u32" where
  "IP6_FRAG_ID x = (case x of (a, b, c, d) \<Rightarrow>
     push_bit 24 (ucast a) + push_bit 16 (ucast b) + push_bit 8 (ucast c) + ucast d)"

definition pico_fragments_get_offset :: "ip_frame \<Rightarrow> u8 \<Rightarrow> u32" where
  "pico_fragments_get_offset f net =
     (if net = PICO_PROTO_IPV4 then IP4_FRAG_OFF (f_frag f)
      else if net = PICO_PROTO_IPV6 then IP6_FRAG_OFF (f_frag f) else 0)"

definition pico_fragments_get_more_flag :: "ip_frame \<Rightarrow> u8 \<Rightarrow> bool" where
  "pico_fragments_get_more_flag f net =
     (if net = PICO_PROTO_IPV4 then IP4_FRAG_MORE (f_frag f)
      else if net = PICO_PROTO_IPV6 then IP6_FRAG_MORE (f_frag f) else False)"

definition pico_fragments_get_header_length :: "u8 \<Rightarrow> u16" where
  "pico_fragments_get_header_length net =
     (if net = PICO_PROTO_IPV4 then of_nat PICO_SIZE_IP4HDR
      else if net = PICO_PROTO_IPV6 then PICO_SIZE_IP6HDR else 0)"

definition pico_ipv4_frag_compare :: "ip_frame \<Rightarrow> ip_frame \<Rightarrow> int" where
  "pico_ipv4_frag_compare a b =
     (if IP4_FRAG_OFF (f_frag a) > IP4_FRAG_OFF (f_frag b) then 1
      else if IP4_FRAG_OFF (f_frag a) < IP4_FRAG_OFF (f_frag b) then - 1 else 0)"

definition pico_ipv6_frag_compare :: "ip_frame \<Rightarrow> ip_frame \<Rightarrow> int" where
  "pico_ipv6_frag_compare a b =
     (if IP6_FRAG_OFF (f_frag a) > IP6_FRAG_OFF (f_frag b) then 1
      else if IP6_FRAG_OFF (f_frag a) < IP6_FRAG_OFF (f_frag b) then - 1 else 0)"

fun frag_cmp :: "frag_tree \<Rightarrow> ip_frame \<Rightarrow> ip_frame \<Rightarrow> int" where
  "frag_cmp Ipv4_fragments = pico_ipv4_frag_compare"
| "frag_cmp Ipv6_fragments = pico_ipv6_frag_compare"

text \<open>\<open>None\<close> as \<open>b\<close> is NULL; the outer \<open>None\<close> a header that is not in the buffer.\<close>

definition pico_ipv4_frag_match :: "ip_frame \<Rightarrow> ip_frame option \<Rightarrow> int option" where
  "pico_ipv4_frag_match a fb =
     (case fb of None \<Rightarrow> Some (- 1)
      | Some b \<Rightarrow>
          if \<not> f_has_net a \<or> \<not> f_has_net b then Some (- 2)
          else if \<not> in_buffer a 0 PICO_SIZE_IP4HDR \<or> \<not> in_buffer b 0 PICO_SIZE_IP4HDR then None
          else if hdr_src (f_net a) \<noteq> hdr_src (f_net b) then Some 1
          else if hdr_dst (f_net a) \<noteq> hdr_dst (f_net b) then Some 2
          else Some 0)"

definition ip6_src :: "u8 list \<Rightarrow> u8 list" where "ip6_src h = take PICO_SIZE_IP6 (drop 8 h)"
definition ip6_dst :: "u8 list \<Rightarrow> u8 list" where "ip6_dst h = take PICO_SIZE_IP6 (drop 24 h)"

definition pico_ipv6_frag_match :: "ip_frame \<Rightarrow> ip_frame option \<Rightarrow> int option" where
  "pico_ipv6_frag_match a fb =
     (case fb of None \<Rightarrow> Some (- 1)
      | Some b \<Rightarrow>
          if \<not> f_has_net a \<or> \<not> f_has_net b then Some (- 2)
          else if \<not> in_buffer a 0 (unat PICO_SIZE_IP6HDR) \<or> \<not> in_buffer b 0 (unat PICO_SIZE_IP6HDR) then None
          else if ip6_src (f_net a) \<noteq> ip6_src (f_net b) then Some 1
          else if ip6_dst (f_net a) \<noteq> ip6_dst (f_net b) then Some 2
          else Some 0)"

section \<open>Delivery\<close>

text \<open>A queue takes the frame or answers \<open>-1\<close>.\<close>

definition frag_enqueue :: "frag_state \<Rightarrow> u8 \<Rightarrow> ip_frame \<Rightarrow> int \<times> frag_state" where
  "frag_enqueue s p f =
     (case fr_enq s of [] \<Rightarrow> (1, frag_effect (Frag_enqueue p f) s)
      | b # bs \<Rightarrow> if b then (1, frag_effect (Frag_enqueue p f) (s\<lparr>fr_enq := bs\<rparr>)) else (- 1, s\<lparr>fr_enq := bs\<rparr>))"

definition pico_transport_receive :: "frag_state \<Rightarrow> ip_frame \<Rightarrow> u8 \<Rightarrow> int \<times> frag_state" where
  "pico_transport_receive s f p =
     (if p = PICO_PROTO_ICMP4 \<or> p = PICO_PROTO_ICMP6 \<or> p = PICO_PROTO_IGMP \<or> p = PICO_PROTO_UDP \<or> p = PICO_PROTO_TCP
      then frag_enqueue s p f
      else (- 1, frag_effect (Frag_discard f) (frag_effect (Frag_proto_unreachable f) s)))"

text \<open>\<open>pico_frame_alloc\<close>.\<close>

definition full_frame :: "u16 \<Rightarrow> ip_frame" where
  "full_frame n = \<lparr>f_dev = 0, f_has_net = True, f_net = replicate (unat n) 0, f_net_len = 0, f_trans = 0,
     f_transport_len = 0, f_payload = Some 0, f_payload_len = 0, f_frag = 0, f_flags = 0, f_len = ucast n,
     f_send_ttl = 0, f_send_tos = 0, f_priority = 0, f_info = None, f_sock = None\<rparr>"

text \<open>\<open>memcpy\<close> into a frame.\<close>

definition frame_write :: "ip_frame \<Rightarrow> nat \<Rightarrow> u8 list \<Rightarrow> ip_frame option" where
  "frame_write f i bs =
     (if in_buffer f i (length bs)
      then Some (f\<lparr>f_net := take i (f_net f) @ bs @ drop (i + length bs) (f_net f)\<rparr>) else None)"

definition frame_read :: "ip_frame \<Rightarrow> nat \<Rightarrow> nat \<Rightarrow> u8 list option" where
  "frame_read f i n = (if in_buffer f i n then Some (take n (drop i (f_net f))) else None)"

text \<open>The loop that copies and frees the fragments; \<open>bookmark\<close> counts the bytes written.\<close>

primrec reassemble_loop ::
    "frag_tree \<Rightarrow> ip_frame list \<Rightarrow> ip_frame \<Rightarrow> nat \<Rightarrow> frag_state \<Rightarrow> (ip_frame \<times> frag_state) option" where
  "reassemble_loop tr [] full bookmark s = Some (full, s)"
| "reassemble_loop tr (f # fs) full bookmark s = do {
     bs \<leftarrow> frame_read f (f_trans f) (unat (f_transport_len f));
     full \<leftarrow> frame_write full (f_trans full + bookmark) bs;
     (_, t) \<leftarrow> pico_tree_delete (frag_cmp tr) (fragments (tab tr s)) (Some f);
     reassemble_loop tr fs full (bookmark + unat (f_transport_len f))
       (frag_effect (Frag_discard f) (set_frags tr t s)) }"

definition pico_fragments_reassemble :: "frag_state \<Rightarrow> frag_tree \<Rightarrow> nat \<Rightarrow> u8 \<Rightarrow> u8 \<Rightarrow> (int \<times> frag_state) option" where
  "pico_fragments_reassemble s tr len p net = do {
     first \<leftarrow> pico_tree_first (fragments (tab tr s));
     (case first of
        None \<Rightarrow> Some (- 2, s)
      | Some first \<Rightarrow>
          let header_length = pico_fragments_get_header_length net in
          if header_length = 0 then Some (- 3, s)
          else
            let (ok, s) = frag_alloc s in
            if \<not> ok then Some (1, s)
            else do {
              hdr \<leftarrow> frame_read first 0 (unat header_length);
              let full = full_frame (header_length + of_nat len);
              full \<leftarrow> frame_write (full\<lparr>f_net_len := header_length\<rparr>) 0 hdr;
              let full = full\<lparr>f_trans := unat header_length, f_transport_len := of_nat len, f_dev := f_dev first\<rparr>;
              fs \<leftarrow> pico_tree_foreach (fragments (tab tr s));
              (full, s) \<leftarrow> reassemble_loop tr fs full 0 s;
              let (r, s) = pico_transport_receive s full p;
              Some (0, if r = - 1 then frag_effect (Frag_discard full) s else s) }) }"

section \<open>Completion\<close>

definition frags_complete :: "frag_state \<Rightarrow> frag_tree \<Rightarrow> nat \<Rightarrow> u8 \<Rightarrow> u8 \<Rightarrow> frag_state option" where
  "frags_complete s tr len p net = do {
     (r, s) \<leftarrow> pico_fragments_reassemble s tr len p net;
     Some (if r = 0 then set_frag_timer tr 0 (frag_effect (Frag_timer_cancel (fragments_timer (tab tr s))) s) else s) }"

definition pico_ipv4_fragments_complete :: "frag_state \<Rightarrow> nat \<Rightarrow> u8 \<Rightarrow> frag_state option" where
  "pico_ipv4_fragments_complete s len p = frags_complete s Ipv4_fragments len p PICO_PROTO_IPV4"

definition pico_ipv6_fragments_complete :: "frag_state \<Rightarrow> nat \<Rightarrow> u8 \<Rightarrow> frag_state option" where
  "pico_ipv6_fragments_complete s len p = frags_complete s Ipv6_fragments len p PICO_PROTO_IPV6"

definition pico_fragments_complete :: "frag_state \<Rightarrow> nat \<Rightarrow> u8 \<Rightarrow> u8 \<Rightarrow> frag_state option" where
  "pico_fragments_complete s bookmark p net =
     (if net = PICO_PROTO_IPV4 then pico_ipv4_fragments_complete s bookmark p
      else if net = PICO_PROTO_IPV6 then pico_ipv6_fragments_complete s bookmark p
      else Some s)"

primrec check_complete_loop :: "frag_state \<Rightarrow> ip_frame list \<Rightarrow> nat \<Rightarrow> u8 \<Rightarrow> u8 \<Rightarrow> (int \<times> frag_state) option" where
  "check_complete_loop s [] bookmark p net = Some (1, s)"
| "check_complete_loop s (cur # fs) bookmark p net =
     (if unat (pico_fragments_get_offset cur net) \<noteq> bookmark then Some (- 1, s)
      else
        let bookmark = bookmark + unat (f_transport_len cur) in
        if \<not> pico_fragments_get_more_flag cur net
        then do { s \<leftarrow> pico_fragments_complete s bookmark p net; Some (0, s) }
        else check_complete_loop s fs bookmark p net)"

definition pico_fragments_check_complete :: "frag_state \<Rightarrow> frag_tree \<Rightarrow> u8 \<Rightarrow> u8 \<Rightarrow> (int \<times> frag_state) option" where
  "pico_fragments_check_complete s tr p net = do {
     fs \<leftarrow> pico_tree_foreach (fragments (tab tr s));
     check_complete_loop s fs 0 p net }"

section \<open>Expiry\<close>

primrec empty_loop :: "frag_tree \<Rightarrow> ip_frame list \<Rightarrow> frag_state \<Rightarrow> frag_state option" where
  "empty_loop tr [] s = Some s"
| "empty_loop tr (f # fs) s = do {
     (_, t) \<leftarrow> pico_tree_delete (frag_cmp tr) (fragments (tab tr s)) (Some f);
     empty_loop tr fs (frag_effect (Frag_discard f) (set_frags tr t s)) }"

definition pico_fragments_empty_tree :: "frag_state \<Rightarrow> frag_tree \<Rightarrow> frag_state option" where
  "pico_fragments_empty_tree s tr = do { fs \<leftarrow> pico_tree_foreach (fragments (tab tr s)); empty_loop tr fs s }"

definition IS_IPV4 :: "ip_frame \<Rightarrow> bool" where
  "IS_IPV4 f \<longleftrightarrow> f_has_net f \<and> f_net f ! 0 AND 0xF0 = 0x40"
definition IS_IPV6 :: "ip_frame \<Rightarrow> bool" where
  "IS_IPV6 f \<longleftrightarrow> f_has_net f \<and> f_net f ! 0 AND 0xF0 = 0x60"

definition pico_frame_dst_is_unicast :: "frag_state \<Rightarrow> ip_frame \<Rightarrow> bool option" where
  "pico_frame_dst_is_unicast s f =
     (if IS_IPV4 f then do {
        bcast \<leftarrow> pico_ipv4_is_broadcast (fr_links s) (hdr_dst (f_net f));
        Some (\<not> (pico_ipv4_is_multicast (hdr_dst (f_net f)) \<or> bcast)) }
      else if IS_IPV6 f
      then Some (\<not> (hd (ip6_dst (f_net f)) = 0xFF \<or> ip6_dst (f_net f) = replicate PICO_SIZE_IP6 0))
      else Some False)"

definition pico_fragments_send_notify :: "frag_state \<Rightarrow> ip_frame \<Rightarrow> frag_state option" where
  "pico_fragments_send_notify s first =
     (let net = (if IS_IPV4 first then PICO_PROTO_IPV4 else if IS_IPV6 first then PICO_PROTO_IPV6 else 0) in
      if pico_fragments_get_offset first net \<noteq> 0 then Some s
      else do {
        uni \<leftarrow> pico_frame_dst_is_unicast s first;
        Some (if uni then frag_effect (Frag_expired first) s else s) })"

definition pico_frag_expire :: "frag_state \<Rightarrow> frag_tree \<Rightarrow> frag_state option" where
  "pico_frag_expire s tr = do {
     first \<leftarrow> pico_tree_first (fragments (tab tr s));
     (case first of None \<Rightarrow> Some s
      | Some f \<Rightarrow> do { s \<leftarrow> pico_fragments_send_notify s f; pico_fragments_empty_tree s tr }) }"

definition frag_timer_on :: "frag_state \<Rightarrow> frag_tree \<Rightarrow> nat \<Rightarrow> frag_state option" where
  "frag_timer_on s tr timeout =
     (let (i, s) = (case fr_tmr s of [] \<Rightarrow> (1, s) | i # is \<Rightarrow> (i, s\<lparr>fr_tmr := is\<rparr>));
          s = set_frag_timer tr i s
      in if i = 0 then pico_fragments_empty_tree s tr else Some (frag_effect (Frag_timer_on timeout) s))"

definition pico_ipv4_frag_timer_on :: "frag_state \<Rightarrow> frag_state option" where
  "pico_ipv4_frag_timer_on s = frag_timer_on s Ipv4_fragments PICO_IPV4_FRAG_TIMEOUT"

definition pico_ipv6_frag_timer_on :: "frag_state \<Rightarrow> frag_state option" where
  "pico_ipv6_frag_timer_on s = frag_timer_on s Ipv6_fragments PICO_IPV6_FRAG_TIMEOUT"

section \<open>A fragment arrives\<close>

text \<open>The copy is inserted; False: the function returns.\<close>

definition frag_insert :: "frag_state \<Rightarrow> frag_tree \<Rightarrow> ip_frame \<Rightarrow> (bool \<times> frag_state) option" where
  "frag_insert s tr temp =
     (let (ok, s) = frag_alloc s in do {
        (r, t) \<leftarrow> pico_tree_insert (frag_cmp tr) (fragments (tab tr s)) temp ok;
        Some (if r \<noteq> Ins_NULL then (False, frag_effect (Frag_discard temp) s) else (True, set_frags tr t s)) })"

definition pico_ipv4_process_frag :: "frag_state \<Rightarrow> ip_frame \<Rightarrow> u8 \<Rightarrow> frag_state option" where
  "pico_ipv4_process_frag s f p = do {
     first \<leftarrow> pico_tree_first (fragments (ipv4_frags s));
     (go, s) \<leftarrow>
       (if first \<noteq> None then do {
          (first, s) \<leftarrow>
            (if IP4_FRAG_ID f \<noteq> cur_frag_id (ipv4_frags s) \<and> IP4_FRAG_OFF (f_frag f) = 0
             then do {
               s \<leftarrow> pico_fragments_empty_tree s Ipv4_fragments;
               Some (None, set_frag_id Ipv4_fragments 0 s) }
             else Some (first, s));
          m \<leftarrow> pico_ipv4_frag_match f first;
          (if m = 0 \<and> IP4_FRAG_ID f = cur_frag_id (ipv4_frags s)
           then let (ok, s) = frag_alloc s in if \<not> ok then Some (False, s) else frag_insert s Ipv4_fragments f
           else Some (True, s)) }
        else if cur_frag_id (ipv4_frags s) \<noteq> 0 \<and> IP4_FRAG_ID f = cur_frag_id (ipv4_frags s) then Some (False, s)
        else
          let (ok, s) = frag_alloc s in
          if \<not> ok then Some (False, s)
          else do {
            s \<leftarrow> pico_ipv4_frag_timer_on s;
            frag_insert (set_frag_id Ipv4_fragments (IP4_FRAG_ID f) s) Ipv4_fragments f });
     (if go then map_option snd (pico_fragments_check_complete s Ipv4_fragments p PICO_PROTO_IPV4) else Some s) }"

definition pico_ipv6_process_frag :: "frag_state \<Rightarrow> u8 \<times> u8 \<times> u8 \<times> u8 \<Rightarrow> ip_frame \<Rightarrow> u8 \<Rightarrow> frag_state option" where
  "pico_ipv6_process_frag s frag f p = do {
     first \<leftarrow> pico_tree_first (fragments (ipv6_frags s));
     (go, s) \<leftarrow>
       (if first \<noteq> None then do {
          m \<leftarrow> pico_ipv6_frag_match f first;
          (if m = 0 \<and> IP6_FRAG_ID frag = cur_frag_id (ipv6_frags s)
           then let (ok, s) = frag_alloc s in if \<not> ok then Some (False, s) else frag_insert s Ipv6_fragments f
           else Some (True, s)) }
        else if cur_frag_id (ipv6_frags s) \<noteq> 0 \<and> IP6_FRAG_ID frag = cur_frag_id (ipv6_frags s) then Some (False, s)
        else
          let (ok, s) = frag_alloc s in
          if \<not> ok then Some (False, s)
          else do {
            s \<leftarrow> pico_ipv6_frag_timer_on s;
            frag_insert (set_frag_id Ipv6_fragments (IP6_FRAG_ID frag) s) Ipv6_fragments f });
     (if go then map_option snd (pico_fragments_check_complete s Ipv6_fragments p PICO_PROTO_IPV6) else Some s) }"

end
