(* ===== verification/Fragments_Props.thy ===== *)
theory Fragments_Props
  imports Fragments Ipv4_Push_Props "HOL-Library.Multiset"
begin

text \<open>
  Reassembly: fragments that together are a packet are assembled to that packet in whatever order they
  arrive, so a packet that \<open>pico_ipv4_rebound_large\<close> cut up is put together again; and the inputs on
  which the assembly writes outside its buffer, loses a packet or frees it twice.
\<close>

section \<open>The trees\<close>

lemma frag_key_order: "key_order (frag_cmp tr) every"
proof (cases tr)
  case Ipv4_fragments
  then show ?thesis
    by (auto intro!: key_order_by_key [where k = "\<lambda>f. IP4_FRAG_OFF (f_frag f)"] simp: key_cmp_def pico_ipv4_frag_compare_def)
next
  case Ipv6_fragments
  then show ?thesis
    by (auto intro!: key_order_by_key [where k = "\<lambda>f. IP6_FRAG_OFF (f_frag f)"] simp: key_cmp_def pico_ipv6_frag_compare_def)
qed

interpretation frags: key_order "frag_cmp tr" every for tr
  by (rule frag_key_order)

fun net_of :: "frag_tree \<Rightarrow> u8" where
  "net_of Ipv4_fragments = PICO_PROTO_IPV4"
| "net_of Ipv6_fragments = PICO_PROTO_IPV6"

definition frag_off :: "frag_tree \<Rightarrow> ip_frame \<Rightarrow> nat" where
  "frag_off tr f = unat (pico_fragments_get_offset f (net_of tr))"

abbreviation frag_more :: "frag_tree \<Rightarrow> ip_frame \<Rightarrow> bool" where
  "frag_more tr f \<equiv> pico_fragments_get_more_flag f (net_of tr)"

lemmas frag_protos = PICO_PROTO_IPV4_def PICO_PROTO_IPV6_def

lemma frag_cmp_less: "frag_cmp tr a b < 0 \<longleftrightarrow> frag_off tr a < frag_off tr b"
  by (cases tr) (auto simp: frag_off_def pico_fragments_get_offset_def frag_protos pico_ipv4_frag_compare_def
      pico_ipv6_frag_compare_def word_less_nat_alt)

lemma frag_cmp_zero: "frag_cmp tr a b = 0 \<longleftrightarrow> frag_off tr a = frag_off tr b"
  by (cases tr) (auto simp: frag_off_def pico_fragments_get_offset_def frag_protos pico_ipv4_frag_compare_def
      pico_ipv6_frag_compare_def word_less_nat_alt word_unat_eq_iff)

abbreviation frags_inv :: "frag_tree \<Rightarrow> frag_state \<Rightarrow> ip_frame list \<Rightarrow> bool" where
  "frags_inv tr s ks \<equiv> tree_inv (frag_cmp tr) every (fragments (tab tr s)) ks"

lemma tab_simps [simp]:
  "fragments (tab tr (set_frags tr t s)) = t" "cur_frag_id (tab tr (set_frags tr t s)) = cur_frag_id (tab tr s)"
  "fragments (tab tr (set_frag_id tr i s)) = fragments (tab tr s)" "cur_frag_id (tab tr (set_frag_id tr i s)) = i"
  "fragments (tab tr (set_frag_timer tr j s)) = fragments (tab tr s)" "cur_frag_id (tab tr (set_frag_timer tr j s)) = cur_frag_id (tab tr s)"
  "tab tr (frag_effect e s) = tab tr s" "tab tr (s\<lparr>fr_effects := es\<rparr>) = tab tr s"
  "tab tr (s\<lparr>fr_mem := m\<rparr>) = tab tr s" "tab tr (s\<lparr>fr_enq := q\<rparr>) = tab tr s" "tab tr (s\<lparr>fr_tmr := ts\<rparr>) = tab tr s"
  by (cases tr; simp add: set_frags_def set_frag_id_def set_frag_timer_def frag_effect_def)+

lemma env_simps [simp]:
  "fr_effects (set_frags tr t s) = fr_effects s" "fr_effects (set_frag_id tr i s) = fr_effects s"
  "fr_effects (set_frag_timer tr j s) = fr_effects s" "fr_effects (frag_effect e s) = fr_effects s @ [e]"
  "fr_mem (set_frags tr t s) = fr_mem s" "fr_mem (set_frag_id tr i s) = fr_mem s" "fr_mem (set_frag_timer tr j s) = fr_mem s"
  "fr_mem (frag_effect e s) = fr_mem s"
  "fr_enq (set_frags tr t s) = fr_enq s" "fr_enq (set_frag_id tr i s) = fr_enq s" "fr_enq (set_frag_timer tr j s) = fr_enq s"
  "fr_enq (frag_effect e s) = fr_enq s"
  "fr_tmr (set_frags tr t s) = fr_tmr s" "fr_tmr (set_frag_id tr i s) = fr_tmr s" "fr_tmr (set_frag_timer tr j s) = fr_tmr s"
  "fr_tmr (frag_effect e s) = fr_tmr s"
  by (cases tr; simp add: set_frags_def set_frag_id_def set_frag_timer_def frag_effect_def)+

lemma frags_first: "frags_inv tr s ks \<Longrightarrow> pico_tree_first (fragments (tab tr s)) = Some (case ks of [] \<Rightarrow> None | k # _ \<Rightarrow> Some k)"
  by (simp add: tree_inv_def tree_keys_first)

lemma frags_delete_first:
  assumes "frags_inv tr s (f # ks)"
  shows "\<exists>t. pico_tree_delete (frag_cmp tr) (fragments (tab tr s)) (Some f) = Some (Some f, t) \<and> frags_inv tr (set_frags tr t s) ks"
  using frags.delete_member [of tr _ "[]" f ks] assms by fastforce

section \<open>Assembling\<close>

definition frag_payload :: "ip_frame \<Rightarrow> u8 list" where
  "frag_payload f = take (unat (f_transport_len f)) (drop (f_trans f) (f_net f))"

definition frag_ok :: "ip_frame \<Rightarrow> bool" where
  "frag_ok f \<longleftrightarrow> in_buffer f (f_trans f) (unat (f_transport_len f))"

definition frag_sum :: "ip_frame list \<Rightarrow> nat" where
  "frag_sum fs = sum_list (map (\<lambda>f. unat (f_transport_len f)) fs)"

lemma frag_sum_simps [simp]: "frag_sum [] = 0" "frag_sum (f # fs) = unat (f_transport_len f) + frag_sum fs"
  by (simp_all add: frag_sum_def)

lemma length_payload: "frag_ok f \<Longrightarrow> length (frag_payload f) = unat (f_transport_len f)"
  by (simp add: frag_ok_def frag_payload_def in_buffer_def)

lemma length_payloads: "\<forall>f \<in> set fs. frag_ok f \<Longrightarrow> length (concat (map frag_payload fs)) = frag_sum fs"
  by (induction fs) (simp_all add: length_payload)

lemma reassemble_loop_ok:
  assumes "frags_inv tr s fs" "\<forall>f \<in> set fs. frag_ok f"
    and "f_trans full + bookmark + frag_sum fs = length (f_net full)"
  shows "\<exists>s'. reassemble_loop tr fs full bookmark s
      = Some (full\<lparr>f_net := take (f_trans full + bookmark) (f_net full) @ concat (map frag_payload fs)\<rparr>, s')
    \<and> frags_inv tr s' [] \<and> fr_effects s' = fr_effects s @ map Frag_discard fs \<and> cur_frag_id (tab tr s') = cur_frag_id (tab tr s)
    \<and> fr_mem s' = fr_mem s \<and> fr_enq s' = fr_enq s \<and> fr_tmr s' = fr_tmr s"
  using assms
proof (induction fs arbitrary: full bookmark s)
  case Nil
  then show ?case by simp
next
  case (Cons f fs)
  define n g where "n = unat (f_transport_len f)"
    and "g = full\<lparr>f_net := take (f_trans full + bookmark) (f_net full) @ frag_payload f @ drop (f_trans full + bookmark + n) (f_net full)\<rparr>"
  have p: "length (frag_payload f) = n" "frag_ok f" using Cons.prems(2) by (simp_all add: length_payload n_def)
  have r: "frame_read f (f_trans f) (unat (f_transport_len f)) = Some (frag_payload f)"
    using p(2) by (simp add: frame_read_def frag_ok_def frag_payload_def)
  have w: "frame_write full (f_trans full + bookmark) (frag_payload f) = Some g"
    using Cons.prems(3) p(1) by (simp add: frame_write_def in_buffer_def g_def n_def add.assoc)
  obtain t where t: "pico_tree_delete (frag_cmp tr) (fragments (tab tr s)) (Some f) = Some (Some f, t)"
    "frags_inv tr (set_frags tr t s) fs" using frags_delete_first [OF Cons.prems(1)] by blast
  have g: "f_trans g = f_trans full" "length (f_net g) = length (f_net full)"
    "take (f_trans full + bookmark + n) (f_net g) = take (f_trans full + bookmark) (f_net full) @ frag_payload f"
    using Cons.prems(3) p(1) by (auto simp: g_def n_def min_def)
  have bound: "f_trans g + (bookmark + n) + frag_sum fs = length (f_net g)" using Cons.prems(3) g by (simp add: n_def)
  have inv: "frags_inv tr (frag_effect (Frag_discard f) (set_frags tr t s)) fs" using t(2) by simp
  have "\<forall>f \<in> set fs. frag_ok f" using Cons.prems(2) by simp
  from Cons.IH [OF inv this bound] show ?case
    using r w t(1) g by (auto simp: n_def [symmetric] g_def add.assoc)
qed

definition assembled :: "frag_tree \<Rightarrow> ip_frame list \<Rightarrow> ip_frame" where
  "assembled tr fs =
     (let hl = pico_fragments_get_header_length (net_of tr)
      in (full_frame (hl + of_nat (frag_sum fs)))\<lparr>f_net_len := hl, f_trans := unat hl,
           f_net := take (unat hl) (f_net (hd fs)) @ concat (map frag_payload fs),
           f_transport_len := of_nat (frag_sum fs), f_dev := f_dev (hd fs)\<rparr>)"

definition known_proto :: "u8 \<Rightarrow> bool" where
  "known_proto p \<longleftrightarrow> p = Ip_Frame.PICO_PROTO_ICMP4 \<or> p = PICO_PROTO_ICMP6 \<or> p = PICO_PROTO_IGMP
     \<or> p = Ip_Frame.PICO_PROTO_UDP \<or> p = Ip_Frame.PICO_PROTO_TCP"

text \<open>The fragments are copied and freed; what becomes of the packet is up to \<open>pico_transport_receive\<close>.\<close>

lemma reassemble_assembles:
  assumes "frags_inv tr s fs" "fs \<noteq> []" "\<forall>f \<in> set fs. frag_ok f" "unat (pico_fragments_get_header_length (net_of tr)) \<le> length (f_net (hd fs))"
    and "unat (pico_fragments_get_header_length (net_of tr)) + frag_sum fs < 65536" "fr_mem s = []"
  shows "\<exists>s'. pico_fragments_reassemble s tr (frag_sum fs) p (net_of tr)
      = Some (0, case pico_transport_receive s' (assembled tr fs) p of
          (r, s2) \<Rightarrow> if r = - 1 then frag_effect (Frag_discard (assembled tr fs)) s2 else s2)
    \<and> frags_inv tr s' [] \<and> fr_effects s' = fr_effects s @ map Frag_discard fs
    \<and> cur_frag_id (tab tr s') = cur_frag_id (tab tr s) \<and> fr_mem s' = [] \<and> fr_enq s' = fr_enq s \<and> fr_tmr s' = fr_tmr s"
proof -
  define hl full where "hl = pico_fragments_get_header_length (net_of tr)"
    and "full = (full_frame (hl + of_nat (frag_sum fs)))\<lparr>f_net_len := hl,
      f_net := take (unat hl) (f_net (hd fs)) @ replicate (frag_sum fs) 0, f_trans := unat hl,
      f_transport_len := of_nat (frag_sum fs), f_dev := f_dev (hd fs)\<rparr>"
  have hl: "hl \<noteq> 0" "unat hl \<le> length (f_net (hd fs))" using assms(4)
    by (simp_all add: hl_def) (cases tr; simp add: pico_fragments_get_header_length_def frag_protos PICO_SIZE_IP6HDR_def PICO_SIZE_IP4HDR_def)
  have n: "unat (hl + of_nat (frag_sum fs)) = unat hl + frag_sum fs"
    using assms(5) by (subst unat_plus_no_wrap) (simp_all add: hl_def unat_of_nat take_bit_nat_eq_self)
  have bound: "f_trans full + 0 + frag_sum fs = length (f_net full)" using hl(2) by (simp add: full_def)
  obtain s' where s': "reassemble_loop tr fs full 0 s
      = Some (full\<lparr>f_net := take (f_trans full + 0) (f_net full) @ concat (map frag_payload fs)\<rparr>, s')"
    "frags_inv tr s' []" "fr_effects s' = fr_effects s @ map Frag_discard fs" "cur_frag_id (tab tr s') = cur_frag_id (tab tr s)"
    "fr_mem s' = fr_mem s" "fr_enq s' = fr_enq s" "fr_tmr s' = fr_tmr s"
    using reassemble_loop_ok [OF assms(1,3) bound] by blast
  have full: "full\<lparr>f_net := take (f_trans full + 0) (f_net full) @ concat (map frag_payload fs)\<rparr> = assembled tr fs"
    using hl(2) by (simp add: full_def assembled_def hl_def [symmetric] min_def)
  have r: "frame_read (hd fs) 0 (unat hl) = Some (take (unat hl) (f_net (hd fs)))"
    using hl(2) by (simp add: frame_read_def in_buffer_def)
  have w: "frame_write ((full_frame (hl + of_nat (frag_sum fs)))\<lparr>f_net_len := hl\<rparr>) 0 (take (unat hl) (f_net (hd fs)))
      = Some ((full_frame (hl + of_nat (frag_sum fs)))\<lparr>f_net_len := hl,
          f_net := take (unat hl) (f_net (hd fs)) @ replicate (frag_sum fs) 0\<rparr>)"
    using hl(2) n by (simp add: frame_write_def in_buffer_def full_frame_def min_def)
  have "pico_tree_first (fragments (tab tr s)) = Some (Some (hd fs))" using assms(2) frags_first [OF assms(1)] by (cases fs) simp_all
  moreover note r w s'(1) [unfolded full] tree_inv_foreach [OF assms(1)]
  ultimately have "pico_fragments_reassemble s tr (frag_sum fs) p (net_of tr)
      = Some (0, case pico_transport_receive s' (assembled tr fs) p of
          (r, s2) \<Rightarrow> if r = - 1 then frag_effect (Frag_discard (assembled tr fs)) s2 else s2)"
    using assms(6) hl(1)
    by (simp add: pico_fragments_reassemble_def hl_def [symmetric] frag_alloc_def full_def [symmetric] Let_def split: prod.split)
  then show ?thesis using s' assms(6) by (intro exI [of _ s']) simp
qed

lemma reassemble_ok:
  assumes "frags_inv tr s fs" "fs \<noteq> []" "\<forall>f \<in> set fs. frag_ok f" "unat (pico_fragments_get_header_length (net_of tr)) \<le> length (f_net (hd fs))"
    and "unat (pico_fragments_get_header_length (net_of tr)) + frag_sum fs < 65536" "fr_mem s = []" "fr_enq s = []" "known_proto p"
  shows "\<exists>s'. pico_fragments_reassemble s tr (frag_sum fs) p (net_of tr) = Some (0, s') \<and> frags_inv tr s' []
    \<and> fr_effects s' = fr_effects s @ map Frag_discard fs @ [Frag_enqueue p (assembled tr fs)]
    \<and> cur_frag_id (tab tr s') = cur_frag_id (tab tr s) \<and> fr_mem s' = [] \<and> fr_enq s' = [] \<and> fr_tmr s' = fr_tmr s"
proof -
  obtain s' where s': "pico_fragments_reassemble s tr (frag_sum fs) p (net_of tr)
      = Some (0, case pico_transport_receive s' (assembled tr fs) p of
          (r, s2) \<Rightarrow> if r = - 1 then frag_effect (Frag_discard (assembled tr fs)) s2 else s2)"
    "frags_inv tr s' []" "fr_effects s' = fr_effects s @ map Frag_discard fs" "cur_frag_id (tab tr s') = cur_frag_id (tab tr s)"
    "fr_mem s' = []" "fr_enq s' = fr_enq s" "fr_tmr s' = fr_tmr s"
    using reassemble_assembles [OF assms(1-6)] by blast
  have "pico_transport_receive s' (assembled tr fs) p = (1, frag_effect (Frag_enqueue p (assembled tr fs)) s')"
    using assms(7,8) s'(6) by (simp add: pico_transport_receive_def known_proto_def frag_enqueue_def)
  then show ?thesis using s' assms(7) by simp
qed

text \<open>A packet of a protocol the stack does not know is freed by \<open>pico_transport_receive\<close> and again by
  \<open>pico_fragments_reassemble\<close>.\<close>

lemma unknown_protocol_freed_twice:
  assumes "frags_inv tr s fs" "fs \<noteq> []" "\<forall>f \<in> set fs. frag_ok f" "unat (pico_fragments_get_header_length (net_of tr)) \<le> length (f_net (hd fs))"
    and "unat (pico_fragments_get_header_length (net_of tr)) + frag_sum fs < 65536" "fr_mem s = []" "\<not> known_proto p"
  shows "\<exists>s'. pico_fragments_reassemble s tr (frag_sum fs) p (net_of tr) = Some (0, s')
    \<and> fr_effects s' = fr_effects s @ map Frag_discard fs
        @ [Frag_proto_unreachable (assembled tr fs), Frag_discard (assembled tr fs), Frag_discard (assembled tr fs)]"
  using reassemble_assembles [OF assms(1-6), of p] assms(7) by (auto simp: pico_transport_receive_def known_proto_def)

section \<open>Fragments of one packet\<close>

text \<open>The fragments of a packet in order: each starts where the one before ends, and only the last says
  that no more follow.\<close>

fun pieces :: "frag_tree \<Rightarrow> nat \<Rightarrow> ip_frame list \<Rightarrow> bool" where
  "pieces tr w [] = False"
| "pieces tr w [f] = (frag_off tr f = w \<and> \<not> frag_more tr f)"
| "pieces tr w (f # g # fs) = (frag_off tr f = w \<and> frag_more tr f \<and> 0 < unat (f_transport_len f)
     \<and> pieces tr (w + unat (f_transport_len f)) (g # fs))"

lemma pieces_bound: "pieces tr w fs \<Longrightarrow> f \<in> set fs \<Longrightarrow> w \<le> frag_off tr f"
  by (induction tr w fs rule: pieces.induct) auto

lemma pieces_sorted: "pieces tr w fs \<Longrightarrow> keys_sorted (frag_cmp tr) fs"
proof (induction tr w fs rule: pieces.induct)
  case (3 tr w f g fs)
  then have "frag_off tr f < frag_off tr h" if "h \<in> set (g # fs)" for h
    using pieces_bound [of tr "w + unat (f_transport_len f)" "g # fs" h] that by fastforce
  then show ?case using 3 by (auto simp: keys_sorted_def frag_cmp_less)
qed (simp_all add: keys_sorted_def)

lemma pieces_nonempty: "pieces tr w fs \<Longrightarrow> fs \<noteq> []" by (cases fs) auto

lemma keys_sorted_off: "keys_sorted (frag_cmp tr) ks \<longleftrightarrow> sorted_wrt (<) (map (frag_off tr) ks)"
  by (simp add: keys_sorted_def sorted_wrt_map frag_cmp_less)

lemma sorted_off_inj:
  assumes "keys_sorted (frag_cmp tr) fs"
  shows "inj_on (frag_off tr) (set fs)"
proof -
  have "distinct (map (frag_off tr) fs)" using assms unfolding keys_sorted_off by (simp add: strict_sorted_iff)
  then show ?thesis by (simp add: distinct_map)
qed

text \<open>The fragments determine their order.\<close>

lemma sorted_off_unique:
  assumes "keys_sorted (frag_cmp tr) ks" "keys_sorted (frag_cmp tr) fs" "set ks = set fs"
  shows "ks = fs"
proof -
  have "map (frag_off tr) ks = map (frag_off tr) fs"
    using assms unfolding keys_sorted_off by (intro sorted_distinct_set_unique) (auto simp: strict_sorted_iff)
  then show ?thesis using map_inj_on [of "frag_off tr" ks fs] sorted_off_inj [OF assms(2)] assms(3) by simp
qed

lemma check_loop_complete:
  "pieces tr w fs \<Longrightarrow> check_complete_loop s (fs @ es) w p (net_of tr)
     = map_option (\<lambda>s. (0, s)) (pico_fragments_complete s (w + frag_sum fs) p (net_of tr))"
  by (induction tr w fs rule: pieces.induct) (simp_all add: frag_off_def Let_def add.assoc map_option_case split: option.split)

lemma check_loop_incomplete:
  "pieces tr w fs \<Longrightarrow> keys_sorted (frag_cmp tr) ks \<Longrightarrow> set ks \<subset> set fs
     \<Longrightarrow> \<exists>r. check_complete_loop s ks w p (net_of tr) = Some (r, s)"
proof (induction tr w fs arbitrary: ks rule: pieces.induct)
  case (2 tr w f)
  then have "set ks \<subset> {f}" by simp
  then have "ks = []" by (metis psubset_eq set_empty subset_singletonD)
  then show ?case by simp
next
  case (3 tr w f g fs)
  show ?case
  proof (cases ks)
    case (Cons k ks')
    show ?thesis
    proof (cases "frag_off tr k = w")
      case True
      have above: "w < frag_off tr h" if "h \<in> set (g # fs)" for h
        using pieces_bound [of tr "w + unat (f_transport_len f)" "g # fs" h] that 3(2) by fastforce
      then have k: "k = f" using True 3(4) Cons by fastforce
      have later: "frag_off tr k < frag_off tr h" if "h \<in> set ks'" for h
        using 3(3) that by (auto simp: Cons keys_sorted_def frag_cmp_less)
      then have "set ks' \<subseteq> set (g # fs)" using 3(4) k by (fastforce simp: Cons)
      moreover have "set ks' \<noteq> set (g # fs)" using 3(4) k by (auto simp: Cons)
      ultimately have "set ks' \<subset> set (g # fs)" by blast
      moreover have "keys_sorted (frag_cmp tr) ks'" using 3(3) by (simp add: Cons keys_sorted_def)
      ultimately show ?thesis using 3(1) [of ks'] 3(2) True by (simp add: Cons k frag_off_def)
    next
      case False
      then show ?thesis by (simp add: Cons frag_off_def)
    qed
  qed simp
qed simp

section \<open>Fragments in any order\<close>

definition delivered :: "frag_effect list \<Rightarrow> (u8 \<times> ip_frame) list" where
  "delivered es = concat (map (\<lambda>e. case e of Frag_enqueue p f \<Rightarrow> [(p, f)] | _ \<Rightarrow> []) es)"

lemma delivered_simps [simp]:
  "delivered [] = []" "delivered (es @ fs) = delivered es @ delivered fs" "delivered (map Frag_discard gs) = []"
  "delivered [Frag_enqueue p f] = [(p, f)]" "delivered [Frag_timer_on n] = []" "delivered [Frag_timer_cancel i] = []"
  "delivered (Frag_enqueue p f # es) = (p, f) # delivered es"
  by (induction gs) (simp_all add: delivered_def)

text \<open>A fragment of the packet \<open>i\<close> from \<open>src\<close> to \<open>dst\<close>.\<close>

definition frag_of :: "u32 \<Rightarrow> u32 \<Rightarrow> u32 \<Rightarrow> ip_frame \<Rightarrow> bool" where
  "frag_of src dst i f \<longleftrightarrow> f_has_net f \<and> in_buffer f 0 PICO_SIZE_IP4HDR \<and> frag_ok f
     \<and> hdr_src (f_net f) = src \<and> hdr_dst (f_net f) = dst \<and> IP4_FRAG_ID f = i"

text \<open>The fragments \<open>xs\<close> of the packet \<open>i\<close> have arrived; memory, timers and queues do not fail.\<close>

definition arrived :: "frag_state \<Rightarrow> ip_frame set \<Rightarrow> u32 \<Rightarrow> bool" where
  "arrived s xs i \<longleftrightarrow> (\<exists>ks. frags_inv Ipv4_fragments s ks \<and> set ks = xs) \<and> fr_mem s = [] \<and> fr_enq s = [] \<and> fr_tmr s = []
     \<and> (if xs = {} then cur_frag_id (ipv4_frags s) = 0 \<or> cur_frag_id (ipv4_frags s) \<noteq> i else cur_frag_id (ipv4_frags s) = i)"

lemma tab4: "tab Ipv4_fragments s = ipv4_frags s" by simp

lemma frag_insert_ok:
  assumes "frags_inv tr s ks" "fr_mem s = []" "frag_off tr f \<notin> frag_off tr ` set ks"
  shows "\<exists>t ks'. frag_insert s tr f = Some (True, set_frags tr t s) \<and> frags_inv tr (set_frags tr t s) ks' \<and> set ks' = insert f (set ks)"
proof -
  have "keys_find (frag_cmp tr) f ks = None"
    unfolding frags.find_None frag_cmp_zero using assms(3) by (metis imageI)
  then obtain t where "pico_tree_insert (frag_cmp tr) (fragments (tab tr s)) f True = Some (Ins_NULL, t)"
    "tree_inv (frag_cmp tr) every t (keys_insert (frag_cmp tr) f ks)"
    using frags.insert_inv [OF assms(1), where key = f and mem_ok = True] by auto
  then show ?thesis using assms(2)
    by (auto simp: frag_insert_def frag_alloc_def frags.insert_set intro!: exI [of _ t] exI [of _ "keys_insert (frag_cmp tr) f ks"])
qed

lemma timer_on_ok: "fr_tmr s = [] \<Longrightarrow> frag_timer_on s tr n = Some (frag_effect (Frag_timer_on n) (set_frag_timer tr 1 s))"
  by (simp add: frag_timer_on_def)

text \<open>Every new fragment of the packet is taken.\<close>

lemma process_frag_takes:
  assumes "arrived s xs i" "\<forall>g \<in> xs. frag_of src dst i g" "frag_of src dst i f" "frag_off Ipv4_fragments f \<notin> frag_off Ipv4_fragments ` xs"
  shows "\<exists>s1. pico_ipv4_process_frag s f p = map_option snd (pico_fragments_check_complete s1 Ipv4_fragments p PICO_PROTO_IPV4)
    \<and> arrived s1 (insert f xs) i \<and> delivered (fr_effects s1) = delivered (fr_effects s)"
proof -
  obtain ks where ks: "frags_inv Ipv4_fragments s ks" "set ks = xs" "fr_mem s = []" "fr_enq s = []" "fr_tmr s = []"
    using assms(1) by (auto simp: arrived_def)
  have first: "pico_tree_first (fragments (ipv4_frags s)) = Some (case ks of [] \<Rightarrow> None | k # _ \<Rightarrow> Some k)"
    using frags_first [OF ks(1)] by simp
  show ?thesis
  proof (cases ks)
    case Nil
    define s0 where "s0 = set_frag_id Ipv4_fragments i (frag_effect (Frag_timer_on PICO_IPV4_FRAG_TIMEOUT) (set_frag_timer Ipv4_fragments 1 s))"
    have inv: "frags_inv Ipv4_fragments s0 []" using ks(1) Nil by (simp add: s0_def del: tab.simps)
    obtain t ks' where t: "frag_insert s0 Ipv4_fragments f = Some (True, set_frags Ipv4_fragments t s0)"
      "frags_inv Ipv4_fragments (set_frags Ipv4_fragments t s0) ks'" "set ks' = {f}"
      using frag_insert_ok [OF inv, of f] ks(3) by (auto simp: s0_def simp del: tab.simps)
    have id: "\<not> (cur_frag_id (ipv4_frags s) \<noteq> 0 \<and> i = cur_frag_id (ipv4_frags s))" "IP4_FRAG_ID f = i"
      using assms(1,3) ks(2) Nil by (auto simp: arrived_def frag_of_def)
    have run: "pico_ipv4_process_frag s f p
        = map_option snd (pico_fragments_check_complete (set_frags Ipv4_fragments t s0) Ipv4_fragments p PICO_PROTO_IPV4)"
      unfolding pico_ipv4_process_frag_def id(2) using t(1) id(1) first ks(3,5)
      by (simp only: if_not_P [OF id(1)]) (simp add: Nil frag_alloc_def pico_ipv4_frag_timer_on_def timer_on_ok s0_def [symmetric])
    have "arrived (set_frags Ipv4_fragments t s0) (insert f xs) i"
      using t(2,3) ks Nil by (auto simp: arrived_def s0_def tab4 [symmetric] simp del: tab.simps)
    then show ?thesis using run by (intro exI [of _ "set_frags Ipv4_fragments t s0"]) (simp add: s0_def)
  next
    case (Cons k ks')
    have k: "frag_of src dst i k" "k \<in> xs" using assms(2) ks(2) Cons by auto
    then have "xs \<noteq> {}" by blast
    then have id: "cur_frag_id (ipv4_frags s) = i" using assms(1) by (simp add: arrived_def)
    have m: "pico_ipv4_frag_match f (Some k) = Some 0" using k assms(3) by (simp add: pico_ipv4_frag_match_def frag_of_def)
    obtain t ks2 where t: "frag_insert s Ipv4_fragments f = Some (True, set_frags Ipv4_fragments t s)"
      "frags_inv Ipv4_fragments (set_frags Ipv4_fragments t s) ks2" "set ks2 = insert f xs"
      using frag_insert_ok [OF ks(1,3), of f] assms(4) ks(2) by auto
    have run: "pico_ipv4_process_frag s f p
        = map_option snd (pico_fragments_check_complete (set_frags Ipv4_fragments t s) Ipv4_fragments p PICO_PROTO_IPV4)"
      using t(1) id first m ks(3) assms(3) by (simp add: pico_ipv4_process_frag_def Cons frag_alloc_def frag_of_def)
    have "arrived (set_frags Ipv4_fragments t s) (insert f xs) i"
      using t(2,3) ks id by (auto simp: arrived_def tab4 [symmetric] simp del: tab.simps)
    then show ?thesis using run by (intro exI [of _ "set_frags Ipv4_fragments t s"]) simp
  qed
qed

text \<open>A fragment that does not complete the packet.\<close>

lemma process_frag_waits:
  assumes "pieces Ipv4_fragments 0 fs" "\<forall>g \<in> set fs. frag_of src dst i g" "arrived s xs i" "f \<in> set fs" "f \<notin> xs" "insert f xs \<subset> set fs"
  shows "\<exists>s'. pico_ipv4_process_frag s f p = Some s' \<and> arrived s' (insert f xs) i \<and> delivered (fr_effects s') = delivered (fr_effects s)"
proof -
  have "frag_off Ipv4_fragments f \<notin> frag_off Ipv4_fragments ` xs"
    using sorted_off_inj [OF pieces_sorted [OF assms(1)]] assms(4-6) by (auto simp: inj_on_def)
  then obtain s1 where s1: "pico_ipv4_process_frag s f p = map_option snd (pico_fragments_check_complete s1 Ipv4_fragments p PICO_PROTO_IPV4)"
    "arrived s1 (insert f xs) i" "delivered (fr_effects s1) = delivered (fr_effects s)"
    using process_frag_takes [OF assms(3), where f = f and src = src and dst = dst] assms(2,4,6) by blast
  obtain ks where ks: "frags_inv Ipv4_fragments s1 ks" "set ks = insert f xs" using s1(2) by (auto simp: arrived_def)
  have "keys_sorted (frag_cmp Ipv4_fragments) ks" using ks(1) by (simp add: tree_inv_def)
  then obtain r where "check_complete_loop s1 ks 0 p PICO_PROTO_IPV4 = Some (r, s1)"
    using check_loop_incomplete [OF assms(1), of ks s1 p] assms(6) ks(2) by auto
  then show ?thesis using s1 tree_inv_foreach [OF ks(1)] by (simp add: pico_fragments_check_complete_def)
qed

text \<open>The fragment that does.\<close>

lemma process_frag_completes:
  assumes "pieces Ipv4_fragments 0 fs" "\<forall>g \<in> set fs. frag_of src dst i g" "arrived s xs i" "f \<in> set fs" "f \<notin> xs" "insert f xs = set fs"
    and "20 + frag_sum fs < 65536" "known_proto p"
  shows "\<exists>s'. pico_ipv4_process_frag s f p = Some s' \<and> frags_inv Ipv4_fragments s' [] \<and> cur_frag_id (ipv4_frags s') = i
    \<and> delivered (fr_effects s') = delivered (fr_effects s) @ [(p, assembled Ipv4_fragments fs)]"
proof -
  have "frag_off Ipv4_fragments f \<notin> frag_off Ipv4_fragments ` xs"
    using sorted_off_inj [OF pieces_sorted [OF assms(1)]] assms(4-6) by (auto simp: inj_on_def)
  then obtain s1 where s1: "pico_ipv4_process_frag s f p = map_option snd (pico_fragments_check_complete s1 Ipv4_fragments p PICO_PROTO_IPV4)"
    "arrived s1 (insert f xs) i" "delivered (fr_effects s1) = delivered (fr_effects s)"
    using process_frag_takes [OF assms(3), where f = f and src = src and dst = dst] assms(2,4,6) by blast
  obtain ks where ks: "frags_inv Ipv4_fragments s1 ks" "set ks = set fs" using s1(2) assms(6) by (auto simp: arrived_def)
  have "keys_sorted (frag_cmp Ipv4_fragments) ks" using ks(1) by (simp add: tree_inv_def)
  then have "ks = fs" using sorted_off_unique [OF _ pieces_sorted [OF assms(1)] ks(2)] by simp
  then have inv: "frags_inv Ipv4_fragments s1 fs" using ks(1) by simp
  have env: "fr_mem s1 = []" "fr_enq s1 = []" "cur_frag_id (ipv4_frags s1) = i" using s1(2) by (auto simp: arrived_def split: if_splits)
  have ne: "fs \<noteq> []" using pieces_nonempty [OF assms(1)] .
  have hl: "unat (pico_fragments_get_header_length (net_of Ipv4_fragments)) = 20"
    by (simp add: pico_fragments_get_header_length_def PICO_SIZE_IP4HDR_def)
  have hd: "frag_of src dst i (hd fs)" "\<forall>g \<in> set fs. frag_ok g" using assms(2) ne by (auto simp: frag_of_def)
  then have "20 \<le> length (f_net (hd fs))" by (simp add: frag_of_def in_buffer_def PICO_SIZE_IP4HDR_def)
  then obtain s2 where s2: "pico_fragments_reassemble s1 Ipv4_fragments (frag_sum fs) p PICO_PROTO_IPV4 = Some (0, s2)"
    "frags_inv Ipv4_fragments s2 []" "fr_effects s2 = fr_effects s1 @ map Frag_discard fs @ [Frag_enqueue p (assembled Ipv4_fragments fs)]"
    "cur_frag_id (tab Ipv4_fragments s2) = cur_frag_id (tab Ipv4_fragments s1)"
    using reassemble_ok [OF inv ne hd(2) _ _ env(1,2) assms(8)] assms(7) unfolding hl by auto
  define s3 where "s3 = set_frag_timer Ipv4_fragments 0 (frag_effect (Frag_timer_cancel (fragments_timer (tab Ipv4_fragments s2))) s2)"
  have "pico_fragments_complete s1 (0 + frag_sum fs) p PICO_PROTO_IPV4 = Some s3"
    using s2(1) by (simp add: pico_fragments_complete_def pico_ipv4_fragments_complete_def frags_complete_def s3_def)
  then have "pico_ipv4_process_frag s f p = Some s3"
    using s1(1) check_loop_complete [OF assms(1), of s1 "[]" p] tree_inv_foreach [OF inv] by (simp add: pico_fragments_check_complete_def)
  moreover have "frags_inv Ipv4_fragments s3 []" "cur_frag_id (ipv4_frags s3) = i"
    using s2(2,4) env(3) unfolding s3_def tab4 [symmetric] by (simp_all del: tab.simps)
  ultimately show ?thesis using s2(3) s1(3) by (auto simp: s3_def)
qed

primrec process_frags :: "frag_state \<Rightarrow> ip_frame list \<Rightarrow> u8 \<Rightarrow> frag_state option" where
  "process_frags s [] p = Some s"
| "process_frags s (f # fs) p = do { s \<leftarrow> pico_ipv4_process_frag s f p; process_frags s fs p }"

lemma process_frags_append: "process_frags s (xs @ ys) p = do { s \<leftarrow> process_frags s xs p; process_frags s ys p }"
  by (induction xs arbitrary: s) (simp_all add: Option.bind_assoc)

lemma process_frags_wait:
  assumes "pieces Ipv4_fragments 0 fs" "\<forall>g \<in> set fs. frag_of src dst i g"
    and "arrived s xs i" "distinct gs" "set gs \<inter> xs = {}" "xs \<union> set gs \<subset> set fs"
  shows "\<exists>s'. process_frags s gs p = Some s' \<and> arrived s' (xs \<union> set gs) i \<and> delivered (fr_effects s') = delivered (fr_effects s)"
  using assms(3-6)
proof (induction gs arbitrary: s xs)
  case (Cons f gs)
  have f: "f \<in> set fs" "f \<notin> xs" "insert f xs \<subset> set fs" using Cons.prems by auto
  obtain s1 where s1: "pico_ipv4_process_frag s f p = Some s1" "arrived s1 (insert f xs) i" "delivered (fr_effects s1) = delivered (fr_effects s)"
    using process_frag_waits [OF assms(1,2) Cons.prems(1) f] by blast
  have "distinct gs" "set gs \<inter> insert f xs = {}" "insert f xs \<union> set gs \<subset> set fs" using Cons.prems by auto
  from Cons.IH [OF s1(2) this] show ?case using s1 by auto
qed simp

lemma fragments_reassembled:
  assumes "pieces Ipv4_fragments 0 fs" "\<forall>g \<in> set fs. frag_of src dst i g" "arrived s {} i" "mset gs = mset fs"
    and "20 + frag_sum fs < 65536" "known_proto p"
  shows "\<exists>s1 s'. process_frags s (butlast gs) p = Some s1 \<and> delivered (fr_effects s1) = delivered (fr_effects s)
    \<and> process_frags s gs p = Some s' \<and> frags_inv Ipv4_fragments s' []
    \<and> delivered (fr_effects s') = delivered (fr_effects s) @ [(p, assembled Ipv4_fragments fs)]"
proof -
  have gs: "gs \<noteq> []" "set gs = set fs"
    using pieces_nonempty [OF assms(1)] assms(4) mset_eq_setD [OF assms(4)] by auto
  have "sorted_wrt (<) (map (frag_off Ipv4_fragments) fs)" using pieces_sorted [OF assms(1)] by (simp only: keys_sorted_off)
  then have "distinct fs" by (simp add: strict_sorted_iff distinct_map)
  then have "distinct gs" using assms(4) mset_eq_imp_distinct_iff by blast
  moreover obtain ys y where ys: "gs = ys @ [y]" using gs(1) by (cases gs rule: rev_cases) auto
  ultimately have b: "distinct (butlast gs)" "last gs \<notin> set (butlast gs)" "insert (last gs) (set (butlast gs)) = set fs"
    using gs(2) by auto
  then have sub: "{} \<union> set (butlast gs) \<subset> set fs" by auto
  obtain s1 where s1: "process_frags s (butlast gs) p = Some s1" "arrived s1 (set (butlast gs)) i" "delivered (fr_effects s1) = delivered (fr_effects s)"
    using process_frags_wait [OF assms(1,2,3) b(1) _ sub] by auto
  have l: "last gs \<in> set fs" using b(3) by auto
  obtain s' where "pico_ipv4_process_frag s1 (last gs) p = Some s'" "frags_inv Ipv4_fragments s' []"
    "delivered (fr_effects s') = delivered (fr_effects s1) @ [(p, assembled Ipv4_fragments fs)]"
    using process_frag_completes [OF assms(1,2) s1(2) l b(2,3) assms(5,6)] by blast
  moreover from this(1) have "process_frags s gs p = Some s'"
    using process_frags_append [of s "butlast gs" "[last gs]" p] ys s1(1) by simp
  ultimately show ?thesis using s1 by auto
qed

section \<open>The field of the offset and the flag\<close>

lemma frag_field:
  assumes "w < 65536" "8 dvd w"
  shows "unat (IP4_FRAG_OFF (of_nat (w div 8) OR (if b then PICO_IPV4_MOREFRAG else 0))) = w"
    and "IP4_FRAG_MORE (of_nat (w div 8) OR (if b then PICO_IPV4_MOREFRAG else 0)) = b"
proof -
  define x y :: u16 where "x = of_nat (w div 8)" and "y = x OR (if b then PICO_IPV4_MOREFRAG else 0)"
  have ux: "unat x = w div 8" using assms(1) by (simp add: x_def unat_of_nat take_bit_nat_eq_self)
  then have low: "take_bit 13 x = x" using assms(1) by (simp add: word_unat_eq_iff unat_take_bit_mod)
  have mask: "PICO_IPV4_FRAG_MASK = mask 13" by (simp add: PICO_IPV4_FRAG_MASK_def mask_eq_exp_minus_1)
  have xm: "x AND mask 13 = x" using low by (simp add: take_bit_eq_mask)
  have fm: "PICO_IPV4_MOREFRAG AND mask 13 = 0" by (simp add: PICO_IPV4_MOREFRAG_def mask_eq_exp_minus_1)
  have "x AND PICO_IPV4_MOREFRAG = x AND (mask 13 AND PICO_IPV4_MOREFRAG)" using xm by (simp flip: and.assoc)
  then have xf: "x AND PICO_IPV4_MOREFRAG = 0" using fm by (simp add: and.commute)
  have "y AND PICO_IPV4_FRAG_MASK = x" using xm fm by (simp add: y_def mask bit.conj_disj_distrib2)
  then have "unat (IP4_FRAG_OFF y) = unat (push_bit 3 (ucast x :: u32))" by (simp add: IP4_FRAG_OFF_def)
  also have "\<dots> = 8 * (w div 8)"
    using assms(1) ux by (simp add: push_bit_eq_mult unat_word_ariths unsigned_ucast_eq take_bit_nat_eq_self)
  finally show "unat (IP4_FRAG_OFF (of_nat (w div 8) OR (if b then PICO_IPV4_MOREFRAG else 0))) = w"
    using assms(2) by (simp add: x_def y_def)
  have "y AND PICO_IPV4_MOREFRAG = (if b then PICO_IPV4_MOREFRAG else 0)"
    using xf by (simp add: y_def bit.conj_disj_distrib2)
  then show "IP4_FRAG_MORE (of_nat (w div 8) OR (if b then PICO_IPV4_MOREFRAG else 0)) = b"
    by (simp add: IP4_FRAG_MORE_def x_def y_def PICO_IPV4_MOREFRAG_def split: if_splits)
qed

end
