(* ===== verification/Fragments_Rebound.thy ===== *)
theory Fragments_Rebound
  imports Fragments_Props
begin

text \<open>
  Sending and receiving together: a packet that \<open>pico_ipv4_rebound_large\<close> of \<open>modules/pico_ipv4.c\<close> cuts up
  is put together by \<open>modules/pico_fragments.c\<close>; and the inputs on which the assembly writes outside its
  buffer, loses a packet or frees it twice.
\<close>

section \<open>What was cut up is put together\<close>

lemma is_fragment_received:
  assumes g: "is_fragment s f w space g" and w: "8 dvd w" "space \<le> 1480" "w + space \<le> unat (f_transport_len f)"
  defines "h \<equiv> set_lengths g"
  shows "frag_off Ipv4_fragments h = w" "frag_more Ipv4_fragments h = (w + space < unat (f_transport_len f))"
    "unat (f_transport_len h) = space" "frag_payload h = drop 20 (f_net g)" "f_net h = f_net g"
    "\<exists>src. reply_source s (hdr_src (f_net f)) = Some src \<and> frag_of src (hdr_src (f_net f)) (ucast (short_be (ipv4_progressive_id s))) h"
proof -
  have n: "unat (f_transport_len f) < 65536" using unsigned_less [of "f_transport_len f", where 'a = nat] by simp
  have "option_len (f_net g) = 0" using g by (simp add: is_fragment_def option_len_def)
  moreover have "short_be (hdr_len (f_net g)) - 20 = of_nat space" using g by (simp add: is_fragment_def short_be_short_be)
  ultimately have h: "f_trans h = 20" "f_transport_len h = of_nat space" "f_net h = f_net g" "f_has_net h" "f_frag h = short_be (hdr_frag (f_net g))"
    using g by (simp_all add: h_def set_lengths_def Let_def is_fragment_def PICO_SIZE_IP4HDR_def)
  show len: "unat (f_transport_len h) = space" using w(2) by (simp add: h unat_of_nat take_bit_nat_eq_self)
  show "f_net h = f_net g" by (rule h)
  have fr: "f_frag h = of_nat (w div 8) OR (if w + space < unat (f_transport_len f) then PICO_IPV4_MOREFRAG else 0)"
    using g by (simp add: h(5) is_fragment_def short_be_short_be)
  have w65: "w < 65536" using w(3) n by linarith
  show "frag_off Ipv4_fragments h = w" "frag_more Ipv4_fragments h = (w + space < unat (f_transport_len f))"
    using frag_field [OF w65 w(1), of "w + space < unat (f_transport_len f)"]
    by (simp_all add: frag_off_def pico_fragments_get_offset_def pico_fragments_get_more_flag_def fr)
  have l: "length (f_net g) = 20 + space" using g by (simp add: is_fragment_def)
  then show "frag_payload h = drop 20 (f_net g)" using len by (simp add: frag_payload_def h)
  show "\<exists>src. reply_source s (hdr_src (f_net f)) = Some src \<and> frag_of src (hdr_src (f_net f)) (ucast (short_be (ipv4_progressive_id s))) h"
    using g l len by (auto simp: frag_of_def h in_buffer_def PICO_SIZE_IP4HDR_def frag_ok_def IP4_FRAG_ID_def is_fragment_def)
qed

lemma fragments_from_received:
  assumes "fragments_from s f w gs" "8 dvd w" "w < unat (f_transport_len f)"
  shows "pieces Ipv4_fragments w (map set_lengths gs)" "frag_sum (map set_lengths gs) = unat (f_transport_len f) - w"
    "concat (map frag_payload (map set_lengths gs)) = concat (map (\<lambda>g. drop 20 (f_net g)) gs)"
    "\<forall>g \<in> set gs. \<exists>src. reply_source s (hdr_src (f_net f)) = Some src
        \<and> frag_of src (hdr_src (f_net f)) (ucast (short_be (ipv4_progressive_id s))) (set_lengths g)"
proof -
  have "pieces Ipv4_fragments w (map set_lengths gs) \<and> frag_sum (map set_lengths gs) = unat (f_transport_len f) - w
    \<and> concat (map frag_payload (map set_lengths gs)) = concat (map (\<lambda>g. drop 20 (f_net g)) gs)
    \<and> (\<forall>g \<in> set gs. \<exists>src. reply_source s (hdr_src (f_net f)) = Some src
        \<and> frag_of src (hdr_src (f_net f)) (ucast (short_be (ipv4_progressive_id s))) (set_lengths g))"
    using assms
  proof (induction gs arbitrary: w)
    case (Cons g gs)
    define space where "space = min (unat (f_transport_len f) - w) 1480"
    have fr: "is_fragment s f w space g" "fragments_from s f (w + space) gs" using Cons.prems(1) by (simp_all add: space_def)
    have sp: "space \<le> 1480" "w + space \<le> unat (f_transport_len f)" "0 < space" using Cons.prems(3) by (auto simp: space_def)
    note h = is_fragment_received [OF fr(1) Cons.prems(2) sp(1,2)]
    show ?case
    proof (cases gs)
      case Nil
      then show ?thesis using fr(2) h by auto
    next
      case (Cons g' gs')
      then have lt: "w + space < unat (f_transport_len f)" using fr(2) by simp
      then have "space = 1480" by (simp add: space_def min_def split: if_splits)
      then have "8 dvd w + space" using Cons.prems(2) by (simp add: dvd_add)
      from Cons.IH [OF fr(2) this lt] show ?thesis using h lt sp(3) Cons by auto
    qed
  qed simp
  then show "pieces Ipv4_fragments w (map set_lengths gs)" "frag_sum (map set_lengths gs) = unat (f_transport_len f) - w"
    "concat (map frag_payload (map set_lengths gs)) = concat (map (\<lambda>g. drop 20 (f_net g)) gs)"
    "\<forall>g \<in> set gs. \<exists>src. reply_source s (hdr_src (f_net f)) = Some src
        \<and> frag_of src (hdr_src (f_net f)) (ucast (short_be (ipv4_progressive_id s))) (set_lengths g)" by blast+
qed

text \<open>C6: an ICMP packet with 1 to 65515 bytes of payload that \<open>pico_ipv4_rebound_large\<close> sends back in fragments,
  to a source it has a route to and with memory and queues that do not fail, is put together again, in whatever order the fragments arrive, and has the payload of the original, by a receiver that
  holds no fragment of a packet, whose memory, timers and queues do not fail, and for which the identification is
  not that of the packet it completed last.\<close>

theorem ipv4_rebound_reassembled:
  assumes "can_rebound s (hdr_src (f_net f)) q" "hdr_proto (f_net f) = Ip_Frame.PICO_PROTO_ICMP4"
    and "f_trans f + unat (f_transport_len f) \<le> length (f_net f)" "0 < unat (f_transport_len f)" "unat (f_transport_len f) \<le> 65515"
    and "arrived r {} (ucast (short_be (ipv4_progressive_id s)))"
  shows "\<exists>hs s'. pico_ipv4_rebound_large s f = Some (int (unat (f_transport_len f)), s') \<and> effects s' = effects s @ map (Enqueue q) hs
    \<and> (\<forall>gs. mset gs = mset (map set_lengths hs) \<longrightarrow>
        (\<exists>r' full. process_frags r gs Ip_Frame.PICO_PROTO_ICMP4 = Some r'
          \<and> delivered (fr_effects r') = delivered (fr_effects r) @ [(Ip_Frame.PICO_PROTO_ICMP4, full)]
          \<and> drop 20 (f_net full) = take (unat (f_transport_len f)) (drop (f_trans f) (f_net f))))"
proof -
  obtain hs s' where run: "rebound_loop s f 0 = Some (int (unat (f_transport_len f)), s')" "effects s' = effects s @ map (Enqueue q) hs"
    "fragments_from s f 0 hs"
    using rebound_loop_fragments [OF assms(1,2) _ assms(3), of 0] by auto
  note rec = fragments_from_received [OF run(3) _ assms(4), simplified]
  obtain src where src: "reply_source s (hdr_src (f_net f)) = Some src"
    using rec(4) pieces_nonempty [OF rec(1)] by (cases hs) auto
  have "\<exists>r' full. process_frags r gs Ip_Frame.PICO_PROTO_ICMP4 = Some r'
          \<and> delivered (fr_effects r') = delivered (fr_effects r) @ [(Ip_Frame.PICO_PROTO_ICMP4, full)]
          \<and> drop 20 (f_net full) = take (unat (f_transport_len f)) (drop (f_trans f) (f_net f))"
    if gs: "mset gs = mset (map set_lengths hs)" for gs
  proof -
    have fo: "\<forall>g \<in> set (map set_lengths hs). frag_of src (hdr_src (f_net f)) (ucast (short_be (ipv4_progressive_id s))) g"
      using rec(4) src by auto
    have sm: "20 + frag_sum (map set_lengths hs) < 65536" "known_proto Ip_Frame.PICO_PROTO_ICMP4"
      using rec(2) assms(5) by (simp_all add: known_proto_def)
    obtain r' where r': "process_frags r gs Ip_Frame.PICO_PROTO_ICMP4 = Some r'"
      "delivered (fr_effects r') = delivered (fr_effects r) @ [(Ip_Frame.PICO_PROTO_ICMP4, assembled Ipv4_fragments (map set_lengths hs))]"
      using fragments_reassembled [OF rec(1) fo assms(6) gs sm] by blast
    have "hs \<noteq> []" using pieces_nonempty [OF rec(1)] by simp
    then have "frag_of src (hdr_src (f_net f)) (ucast (short_be (ipv4_progressive_id s))) (hd (map set_lengths hs))" using fo by (cases hs) auto
    then have "20 \<le> length (f_net (hd (map set_lengths hs)))" by (simp add: frag_of_def in_buffer_def PICO_SIZE_IP4HDR_def)
    then have "drop 20 (f_net (assembled Ipv4_fragments (map set_lengths hs))) = concat (map frag_payload (map set_lengths hs))"
      by (simp add: assembled_def Let_def pico_fragments_get_header_length_def PICO_SIZE_IP4HDR_def)
    also have "\<dots> = take (unat (f_transport_len f)) (drop (f_trans f) (f_net f))"
      using rec(3) fragments_from_bytes [OF run(3)] by simp
    finally show ?thesis using r' by blast
  qed
  then show ?thesis using run(1,2) by (auto simp: pico_ipv4_rebound_large_def)
qed

section \<open>Where the assembly goes wrong\<close>

text \<open>The buffer has the size of header and fragments in 16 bits; more than that is written to it.\<close>

lemma reassemble_loop_overflow:
  assumes "frags_inv tr s fs" "\<forall>f \<in> set fs. frag_ok f" "f_trans full + bookmark \<le> length (f_net full)"
    and "length (f_net full) < f_trans full + bookmark + frag_sum fs"
  shows "reassemble_loop tr fs full bookmark s = None"
  using assms
proof (induction fs arbitrary: full bookmark s)
  case (Cons f fs)
  define n where "n = unat (f_transport_len f)"
  have p: "length (frag_payload f) = n" "frag_ok f" using Cons.prems(2) by (simp_all add: length_payload n_def)
  have r: "frame_read f (f_trans f) (unat (f_transport_len f)) = Some (frag_payload f)"
    using p(2) by (simp add: frame_read_def frag_ok_def frag_payload_def)
  show ?case
  proof (cases "f_trans full + bookmark + n \<le> length (f_net full)")
    case True
    define g where "g = full\<lparr>f_net := take (f_trans full + bookmark) (f_net full) @ frag_payload f @ drop (f_trans full + bookmark + n) (f_net full)\<rparr>"
    have w: "frame_write full (f_trans full + bookmark) (frag_payload f) = Some g"
      using True p(1) by (simp add: frame_write_def in_buffer_def g_def add.assoc)
    obtain t where t: "pico_tree_delete (frag_cmp tr) (fragments (tab tr s)) (Some f) = Some (Some f, t)"
      "frags_inv tr (set_frags tr t s) fs" using frags_delete_first [OF Cons.prems(1)] by blast
    have "frags_inv tr (frag_effect (Frag_discard f) (set_frags tr t s)) fs" "\<forall>f \<in> set fs. frag_ok f"
      "f_trans g + (bookmark + n) \<le> length (f_net g)" "length (f_net g) < f_trans g + (bookmark + n) + frag_sum fs"
      using t(2) Cons.prems True p(1) by (auto simp: g_def n_def)
    from Cons.IH [OF this] show ?thesis using r w t(1) by (simp add: n_def)
  next
    case False
    then show ?thesis using r p(1) by (simp add: frame_write_def in_buffer_def)
  qed
qed simp

lemma reassemble_overflow:
  assumes "frags_inv Ipv4_fragments s fs" "fs \<noteq> []" "\<forall>f \<in> set fs. frag_ok f" "unat (20 + of_nat len :: u16) < 20 + frag_sum fs" "fr_mem s = []"
  shows "pico_fragments_reassemble s Ipv4_fragments len p PICO_PROTO_IPV4 = None"
proof -
  define size_w :: u16 where "size_w = 20 + of_nat len"
  have sz: "unat size_w < 20 + frag_sum fs" using assms(4) by (simp add: size_w_def)
  have loop: "reassemble_loop Ipv4_fragments fs g 0 s = None"
    if "length (f_net g) = unat size_w" "f_trans g = 20" "20 \<le> length (f_net g)" for g
    using reassemble_loop_overflow [OF assms(1,3)] that sz by simp
  have first: "pico_tree_first (fragments (tab Ipv4_fragments s)) = Some (Some (hd fs))" using assms(2) frags_first [OF assms(1)] by (cases fs) simp_all
  have hl: "pico_fragments_get_header_length PICO_PROTO_IPV4 = 20" by (simp add: pico_fragments_get_header_length_def PICO_SIZE_IP4HDR_def)
  define f0 hdr where "f0 = (full_frame size_w)\<lparr>f_net_len := 20\<rparr>" and "hdr = take 20 (f_net (hd fs))"
  show ?thesis
  proof (cases "20 \<le> length (f_net (hd fs)) \<and> 20 \<le> unat size_w")
    case True
    define g where "g = f0\<lparr>f_net := hdr @ drop 20 (f_net f0)\<rparr>"
    have len: "length hdr = 20" "length (f_net f0) = unat size_w" "length (f_net g) = unat size_w"
      using True by (simp_all add: hdr_def f0_def full_frame_def g_def)
    have "frame_read (hd fs) 0 20 = Some hdr" "frame_write f0 0 hdr = Some g"
      using True len by (simp_all add: frame_read_def frame_write_def in_buffer_def hdr_def [symmetric] g_def)
    then show ?thesis
      using first tree_inv_foreach [OF assms(1)] assms(5) True len(3)
        loop [of "g\<lparr>f_trans := 20, f_transport_len := of_nat len, f_dev := f_dev (hd fs)\<rparr>"]
      by (simp add: pico_fragments_reassemble_def hl frag_alloc_def size_w_def [symmetric] f0_def [symmetric])
  next
    case False
    have "frame_read (hd fs) 0 20 = None \<or> (\<exists>h. frame_read (hd fs) 0 20 = Some h \<and> frame_write f0 0 h = None)"
      using False by (auto simp: frame_read_def frame_write_def in_buffer_def f0_def full_frame_def)
    then show ?thesis
      using first assms(5) by (auto simp: pico_fragments_reassemble_def hl frag_alloc_def size_w_def [symmetric] f0_def [symmetric])
  qed
qed

text \<open>C8: two kinds of valid fragments make \<open>pico_ipv4_process_frag\<close> write behind the end of the buffer it
  assembles in, when the fragment arrives that completes the packet: fragments with more than 65515 bytes of
  payload in all, whose total does not fit the 16 bits of the size, and a fragment behind the last one, which is
  copied although it was not counted.\<close>

theorem ipv4_reassembly_overflows:
  assumes "pieces Ipv4_fragments 0 fs" "keys_sorted pico_ipv4_frag_compare (fs @ es)" "\<forall>g \<in> set (fs @ es). frag_of src dst i g"
    and "65516 \<le> frag_sum fs \<or> 0 < frag_sum es" "arrived s xs i" "f \<notin> xs" "insert f xs = set (fs @ es)"
  shows "pico_ipv4_process_frag s f p = None"
proof -
  have sorted: "keys_sorted (frag_cmp Ipv4_fragments) (fs @ es)" using assms(2) by simp
  have "frag_off Ipv4_fragments f \<notin> frag_off Ipv4_fragments ` xs"
  proof
    assume "frag_off Ipv4_fragments f \<in> frag_off Ipv4_fragments ` xs"
    then obtain x where "x \<in> xs" "frag_off Ipv4_fragments f = frag_off Ipv4_fragments x" by auto
    moreover have "f \<in> set (fs @ es)" "x \<in> set (fs @ es)" using assms(7) calculation(1) by blast+
    ultimately show False using inj_onD [OF sorted_off_inj [OF sorted], of f x] assms(6) by simp
  qed
  then obtain s1 where s1: "pico_ipv4_process_frag s f p = map_option snd (pico_fragments_check_complete s1 Ipv4_fragments p PICO_PROTO_IPV4)"
    "arrived s1 (insert f xs) i"
    using process_frag_takes [OF assms(5), where f = f and src = src and dst = dst] assms(3,7) by blast
  obtain ks where ks: "frags_inv Ipv4_fragments s1 ks" "set ks = set (fs @ es)" using s1(2) assms(7) by (auto simp: arrived_def)
  have "keys_sorted (frag_cmp Ipv4_fragments) ks" using ks(1) by (simp add: tree_inv_def)
  then have "ks = fs @ es" using sorted_off_unique [OF _ sorted ks(2)] by simp
  then have inv: "frags_inv Ipv4_fragments s1 (fs @ es)" using ks(1) by simp
  have env: "fs @ es \<noteq> []" "fr_mem s1 = []" "\<forall>g \<in> set (fs @ es). frag_ok g"
    using s1(2) assms(3) pieces_nonempty [OF assms(1)] by (auto simp: arrived_def frag_of_def)
  have sum_app: "frag_sum (fs @ es) = frag_sum fs + frag_sum es" by (simp add: frag_sum_def)
  have "unat (20 + of_nat (frag_sum fs) :: u16) \<le> 20 + frag_sum fs" "unat (20 + of_nat (frag_sum fs) :: u16) < 65536"
    using unsigned_less [of "20 + of_nat (frag_sum fs) :: u16", where 'a = nat]
    by (simp_all add: unat_word_ariths unat_of_nat take_bit_eq_mod le_trans [OF mod_less_eq_dividend] mod_add_right_eq)
  then have "unat (20 + of_nat (frag_sum fs) :: u16) < 20 + frag_sum (fs @ es)" using assms(4) sum_app by linarith
  then have "pico_fragments_complete s1 (0 + frag_sum fs) p PICO_PROTO_IPV4 = None"
    using reassemble_overflow [OF inv env(1,3) _ env(2), of "frag_sum fs" p]
    by (simp add: pico_fragments_complete_def pico_ipv4_fragments_complete_def frags_complete_def)
  then show ?thesis
    using s1(1) check_loop_complete [OF assms(1), of s1 es p] tree_inv_foreach [OF inv] by (simp add: pico_fragments_check_complete_def)
qed

text \<open>The first fragment of the next packet empties the tree and is not kept, so that packet is never assembled.\<close>

lemma next_packet_is_lost:
  assumes "arrived s xs j" "xs \<noteq> {}" "IP4_FRAG_ID f \<noteq> j" "IP4_FRAG_OFF (f_frag f) = 0"
  shows "\<exists>s'. pico_ipv4_process_frag s f p = Some s' \<and> frags_inv Ipv4_fragments s' [] \<and> delivered (fr_effects s') = delivered (fr_effects s)"
proof -
  obtain ks where ks: "frags_inv Ipv4_fragments s ks" "set ks = xs" using assms(1) by (auto simp: arrived_def)
  have id: "cur_frag_id (ipv4_frags s) = j" using assms(1,2) by (simp add: arrived_def)
  have "frags_inv Ipv4_fragments s ks \<Longrightarrow> \<exists>s'. empty_loop Ipv4_fragments ks s = Some s' \<and> frags_inv Ipv4_fragments s' []
      \<and> delivered (fr_effects s') = delivered (fr_effects s)" for s ks
  proof (induction ks arbitrary: s)
    case (Cons k ks)
    obtain t where t: "pico_tree_delete (frag_cmp Ipv4_fragments) (fragments (tab Ipv4_fragments s)) (Some k) = Some (Some k, t)"
      "frags_inv Ipv4_fragments (set_frags Ipv4_fragments t s) ks" using frags_delete_first [OF Cons.prems] by blast
    define s1 where "s1 = frag_effect (Frag_discard k) (set_frags Ipv4_fragments t s)"
    have "frags_inv Ipv4_fragments s1 ks" using t(2) by (simp add: s1_def del: tab.simps)
    moreover have "delivered (fr_effects s1) = delivered (fr_effects s)" by (simp add: s1_def delivered_def)
    ultimately show ?case using Cons.IH [of s1] t(1) by (simp add: s1_def [symmetric])
  qed simp
  from this [OF ks(1)] obtain s1 where s1: "pico_fragments_empty_tree s Ipv4_fragments = Some s1" "frags_inv Ipv4_fragments s1 []"
    "delivered (fr_effects s1) = delivered (fr_effects s)"
    using tree_inv_foreach [OF ks(1)] by (auto simp: pico_fragments_empty_tree_def)
  define s2 where "s2 = set_frag_id Ipv4_fragments 0 s1"
  have s2: "frags_inv Ipv4_fragments s2 []" "fr_effects s2 = fr_effects s1" using s1(2) unfolding s2_def by (simp_all del: tab.simps)
  obtain k where "pico_tree_first (fragments (ipv4_frags s)) = Some (Some k)"
    using frags_first [OF ks(1)] ks(2) assms(2) by (cases ks) auto
  then have "pico_ipv4_process_frag s f p = Some s2"
    using s1(1) assms(3,4) id tree_inv_foreach [OF s2(1)]
    by (simp add: pico_ipv4_process_frag_def s2_def [symmetric] pico_ipv4_frag_match_def pico_fragments_check_complete_def)
  then show ?thesis using s1(3) s2 by auto
qed

section \<open>Examples\<close>

definition no_frags :: frag_table where
  "no_frags = \<lparr>fragments = empty_tree, cur_frag_id = 0, fragments_timer = 0\<rparr>"

definition frag_start :: frag_state where
  "frag_start = \<lparr>ipv4_frags = no_frags, ipv6_frags = no_frags, fr_links = ipv4_init, fr_mem = [], fr_tmr = [], fr_enq = [], fr_effects = []\<rparr>"

lemma frag_start_arrived: "arrived frag_start {} i"
  by (auto simp: arrived_def frag_start_def no_frags_def tree_inv_empty intro!: exI [of _ "[]"])

text \<open>A fragment from 10.0.0.5 to 10.0.0.1 with the identification \<open>n\<close>, the field \<open>fg\<close> and the payload \<open>bs\<close>.\<close>

definition a_frag :: "u8 \<Rightarrow> u16 \<Rightarrow> u8 list \<Rightarrow> ip_frame" where
  "a_frag n fg bs = query\<lparr>f_net := [0x45, 0, 0, 0, n, 0, 0, 0, 64, 1, 0, 0, 10, 0, 0, 5, 10, 0, 0, 1] @ bs,
     f_net_len := 20, f_trans := 20, f_transport_len := of_nat (length bs), f_frag := fg\<rparr>"

lemma a_frag_of:
  "length bs < 65536 \<Longrightarrow> frag_of (long_be 0x0A000005) (long_be 0x0A000001) (ucast n) (a_frag n fg bs)"
proof -
  assume "length bs < 65536"
  moreover have "f_has_net query" "get32 [0x45, 0, 0, 0, n, 0, 0, 0, 64, 1, 0, 0, 10, 0, 0, 5, 10, 0, 0, 1] 12 = long_be 0x0A000005"
    "get32 [0x45, 0, 0, 0, n, 0, 0, 0, 64, 1, 0, 0, 10, 0, 0, 5, 10, 0, 0, 1] 16 = long_be 0x0A000001"
    "get16 [0x45, 0, 0, 0, n, 0, 0, 0, 64, 1, 0, 0, 10, 0, 0, 5, 10, 0, 0, 1] 4 = ucast n"
    by (code_simp, code_simp, code_simp, simp add: get16_def)
  moreover have "take_bit 16 (ucast n :: u32) = ucast n" by (rule bit_word_eqI) (auto simp: bit_simps dest: bit_imp_le_length)
  ultimately show ?thesis
    by (simp add: frag_of_def a_frag_def in_buffer_def PICO_SIZE_IP4HDR_def frag_ok_def hdr_src_def hdr_dst_def
        IP4_FRAG_ID_def hdr_id_def unat_of_nat take_bit_nat_eq_self get32_def get16_def unsigned_ucast_eq)
qed

lemma a_frag_simps [simp]:
  "f_frag (a_frag n fg bs) = fg" "f_transport_len (a_frag n fg bs) = of_nat (length bs)" "frag_payload (a_frag n fg bs) = take (unat (of_nat (length bs) :: u16)) bs"
  by (simp_all add: a_frag_def frag_payload_def)

text \<open>C7: fragments that together are a packet of a known protocol, of less than 65536 bytes, are assembled in whatever
  order they arrive by a receiver that holds no fragment of a packet, whose memory, timers and queues do not fail, and
  for which their identification is not that of the packet it completed last: nothing is delivered before the last of
  them has come, then the packet is delivered once, with the header of the first fragment and the payloads of all in
  the order of their offsets, and no fragment is kept.\<close>

theorem ipv4_fragments_reassembled:
  assumes "pieces Ipv4_fragments 0 fs" "\<forall>g \<in> set fs. frag_of src dst i g" "arrived s {} i" "mset gs = mset fs"
    and "20 + frag_sum fs < 65536" "known_proto p"
  shows "\<exists>s1 s' full. process_frags s (butlast gs) p = Some s1 \<and> delivered (fr_effects s1) = delivered (fr_effects s)
    \<and> process_frags s gs p = Some s' \<and> delivered (fr_effects s') = delivered (fr_effects s) @ [(p, full)]
    \<and> f_net full = take 20 (f_net (hd fs)) @ concat (map frag_payload fs) \<and> f_trans full = 20
    \<and> unat (f_transport_len full) = frag_sum fs \<and> pico_tree_foreach (fragments (ipv4_frags s')) = Some []"
proof -
  obtain s1 s' where s': "process_frags s (butlast gs) p = Some s1" "delivered (fr_effects s1) = delivered (fr_effects s)"
    "process_frags s gs p = Some s'" "frags_inv Ipv4_fragments s' []"
    "delivered (fr_effects s') = delivered (fr_effects s) @ [(p, assembled Ipv4_fragments fs)]"
    using fragments_reassembled [OF assms] by blast
  have "f_net (assembled Ipv4_fragments fs) = take 20 (f_net (hd fs)) @ concat (map frag_payload fs)"
    "f_trans (assembled Ipv4_fragments fs) = 20" "unat (f_transport_len (assembled Ipv4_fragments fs)) = frag_sum fs"
    using assms(5) by (simp_all add: assembled_def Let_def pico_fragments_get_header_length_def PICO_SIZE_IP4HDR_def unat_of_nat take_bit_nat_eq_self)
  then show ?thesis using s' tree_inv_foreach [OF s'(4)] by auto
qed

theorem ipv4_fragments_reassembled_witness:
  "\<exists>s' full. process_frags frag_start [a_frag 7 1 [9, 10], a_frag 7 0x2000 [1, 2, 3, 4, 5, 6, 7, 8]] 1 = Some s'
     \<and> delivered (fr_effects s') = [(1, full)] \<and> drop 20 (f_net full) = [1, 2, 3, 4, 5, 6, 7, 8, 9, 10]"
proof -
  let ?fs = "[a_frag 7 0x2000 [1, 2, 3, 4, 5, 6, 7, 8], a_frag 7 1 [9, 10]]"
  have a: "pieces Ipv4_fragments 0 ?fs" "20 + frag_sum ?fs < 65536" "known_proto 1" by code_simp+
  have b: "\<forall>g \<in> set ?fs. frag_of (long_be 0x0A000005) (long_be 0x0A000001) (ucast (7 :: u8)) g"
    using a_frag_of [where bs = "[1, 2, 3, 4, 5, 6, 7, 8]" and n = 7 and fg = "0x2000"] a_frag_of [where bs = "[9, 10]" and n = 7 and fg = 1] by simp
  have c: "delivered (fr_effects frag_start) = []" "drop 20 (take 20 (f_net (hd ?fs))) = []" by (simp_all add: frag_start_def)
  have m: "mset [a_frag 7 1 [9, 10], a_frag 7 0x2000 [1, 2, 3, 4, 5, 6, 7, 8]] = mset ?fs" by simp
  have l: "length (take 20 (f_net (hd ?fs))) = 20" by (simp add: a_frag_def)
  show ?thesis
    using ipv4_fragments_reassembled [OF a(1) b frag_start_arrived m a(2,3)] c l by auto
qed

theorem ipv4_rebound_reassembled_witness:
  "\<exists>hs r' full. (\<exists>s'. pico_ipv4_rebound_large stack_link big_echo = Some (1488, s') \<and> effects s' = map (Enqueue Q_ipv4_out) hs)
     \<and> process_frags frag_start (rev (map set_lengths hs)) 1 = Some r'
     \<and> delivered (fr_effects r') = [(1, full)] \<and> drop 20 (f_net full) = replicate 1488 7"
proof -
  have len: "length (f_net valid_query) \<ge> 20" by code_simp
  obtain r l where "route_find (ip stack_link) neighbour = Some (Some r)" "r_link r = Some l" using stack_link_eval(6) by auto
  then have c: "can_rebound stack_link (hdr_src (f_net big_echo)) Q_ipv4_out"
    using stack_link_eval by (simp add: can_rebound_def big_echo_fields)
  have n: "unat (f_transport_len big_echo) = 1488" "f_trans big_echo = 20" by (simp_all add: big_echo_def)
  have b: "f_trans big_echo + unat (f_transport_len big_echo) \<le> length (f_net big_echo)" using len by (simp add: n) (simp add: big_echo_def)
  have d: "drop 20 (f_net big_echo) = replicate 1488 7" using len by (simp add: big_echo_def)
  have p: "Ip_Frame.PICO_PROTO_ICMP4 = 1" "delivered (fr_effects frag_start) = []" by (simp_all add: Ip_Frame.PICO_PROTO_ICMP4_def frag_start_def)
  obtain hs s' where hs: "pico_ipv4_rebound_large stack_link big_echo = Some (int 1488, s')" "effects s' = effects stack_link @ map (Enqueue Q_ipv4_out) hs"
    "\<forall>gs. mset gs = mset (map set_lengths hs) \<longrightarrow>
        (\<exists>r' full. process_frags frag_start gs Ip_Frame.PICO_PROTO_ICMP4 = Some r'
          \<and> delivered (fr_effects r') = delivered (fr_effects frag_start) @ [(Ip_Frame.PICO_PROTO_ICMP4, full)]
          \<and> drop 20 (f_net full) = take 1488 (drop 20 (f_net big_echo)))"
    using ipv4_rebound_reassembled [OF c big_echo_fields(2) b _ _ frag_start_arrived] unfolding n by auto
  have "mset (rev (map set_lengths hs)) = mset (map set_lengths hs)" by simp
  then show ?thesis using hs stack_link_eval(5) d p by (intro exI [of _ hs]) auto
qed

theorem ipv4_reassembly_overflows_witness:
  "\<exists>s. process_frags frag_start [a_frag 7 0x2000 (replicate 65512 1)] 1 = Some s
     \<and> pico_ipv4_process_frag s (a_frag 7 8189 (replicate 8 2)) 1 = None"
proof -
  define g h where "g = a_frag 7 0x2000 (replicate 65512 1)" and "h = a_frag 7 8189 (replicate 8 2)"
  have a: "pieces Ipv4_fragments 0 [g, h]" "65516 \<le> frag_sum [g, h]"
    by (simp_all add: g_def h_def frag_off_def pico_fragments_get_offset_def pico_fragments_get_more_flag_def
        IP4_FRAG_OFF_def IP4_FRAG_MORE_def PICO_IPV4_FRAG_MASK_def PICO_IPV4_MOREFRAG_def push_bit_eq_mult)
  have b: "\<forall>f \<in> set [g, h]. frag_of (long_be 0x0A000005) (long_be 0x0A000001) (ucast (7 :: u8)) f"
    using a_frag_of [where bs = "replicate 65512 1" and n = 7 and fg = "0x2000"] a_frag_of [where bs = "replicate 8 2" and n = 7 and fg = 8189] by (simp add: g_def h_def)
  have "f_frag g \<noteq> f_frag h" by (simp add: g_def h_def)
  then have ne: "g \<noteq> h" by auto
  obtain s where s: "pico_ipv4_process_frag frag_start g 1 = Some s" "arrived s {g} (ucast (7 :: u8))"
    using process_frag_waits [OF a(1) b frag_start_arrived, of g 1] ne by auto
  have "pico_ipv4_process_frag s h 1 = None"
    by (rule ipv4_reassembly_overflows [where fs = "[g, h]" and es = "[]", OF a(1) _ _ _ s(2)])
      (use ne b a(2) pieces_sorted [OF a(1)] in auto)
  then show ?thesis using s(1) by (simp add: g_def h_def)
qed

end
