(* ===== verification/Arp.thy ===== *)
theory Arp
  imports Ip_Frame PTree_Foreach Ipv4_Route
begin

text \<open>
  Address resolution (\<open>modules/pico_arp.c\<close>): the table of neighbours, the frames that wait for an address,
  requests and replies.  A frame is its buffer with the offsets of its headers.  An entry of the table is
  a key (its address in memory, the IPv4 address and the device) in the pointer tree, with the fields that
  change in \<open>entries\<close>.  What is sent, freed, queued or reported is recorded in \<open>a_effects\<close>, in order;
  memory, timers, queues and drivers answer from supplies; Ethernet devices
  are in their default mode, not IEEE 802.15.4.  \<open>None\<close>: an access outside a buffer or
  through NULL.
\<close>

section \<open>Frames\<close>

record eth_frame =
  e_dev :: nat
  e_buf :: "u8 list"
  e_dl :: "nat option"
  e_net :: "nat option"
  e_start :: nat
  e_len :: u32
  e_flags :: u8
  e_fail :: u8

definition buf_read :: "u8 list \<Rightarrow> nat \<Rightarrow> nat \<Rightarrow> u8 list option" where
  "buf_read b i n = (if i + n \<le> length b then Some (take n (drop i b)) else None)"

definition buf_write :: "u8 list \<Rightarrow> nat \<Rightarrow> u8 list \<Rightarrow> u8 list option" where
  "buf_write b i bs = (if i + length bs \<le> length b then Some (take i b @ bs @ drop (i + length bs) b) else None)"

definition buf16 :: "u8 list \<Rightarrow> nat \<Rightarrow> u16 option" where
  "buf16 b i = (if i + 2 \<le> length b then Some (get16 b i) else None)"

definition buf32 :: "u8 list \<Rightarrow> nat \<Rightarrow> u32 option" where
  "buf32 b i = (if i + 4 \<le> length b then Some (get32 b i) else None)"

text \<open>The values in the memory of a little-endian host.\<close>

definition bytes16 :: "u16 \<Rightarrow> u8 list" where "bytes16 v = [ucast v, ucast (drop_bit 8 v)]"
definition bytes32 :: "u32 \<Rightarrow> u8 list" where
  "bytes32 v = [ucast v, ucast (drop_bit 8 v), ucast (drop_bit 16 v), ucast (drop_bit 24 v)]"

definition PICO_SIZE_ETH :: nat where "PICO_SIZE_ETH = 6"
definition PICO_SIZE_ETHHDR :: nat where "PICO_SIZE_ETHHDR = 14"
definition PICO_SIZE_ARPHDR :: nat where "PICO_SIZE_ARPHDR = 28"
definition PICO_IDETH_IPV4 :: u16 where "PICO_IDETH_IPV4 = 0x0008"
definition PICO_IDETH_ARP :: u16 where "PICO_IDETH_ARP = 0x0608"
definition PICO_IDETH_IPV6 :: u16 where "PICO_IDETH_IPV6 = 0xDD86"
definition PICO_ARP_REQUEST :: u16 where "PICO_ARP_REQUEST = 0x0100"
definition PICO_ARP_REPLY :: u16 where "PICO_ARP_REPLY = 0x0200"
definition PICO_ARP_HTYPE_ETH :: u16 where "PICO_ARP_HTYPE_ETH = 0x0100"
definition PICO_ETHADDR_ALL :: "u8 list" where "PICO_ETHADDR_ALL = [0xFF, 0xFF, 0xFF, 0xFF, 0xFF, 0xFF]"
definition PICO_ARP_TIMEOUT :: u64 where "PICO_ARP_TIMEOUT = 600000"
definition PICO_ARP_MAX_PENDING :: nat where "PICO_ARP_MAX_PENDING = 5"
definition PICO_ARP_MAX_RATE :: int where "PICO_ARP_MAX_RATE = 1"
definition PICO_ARP_INTERVAL :: u64 where "PICO_ARP_INTERVAL = 1000"
definition PICO_ARP_STATUS_REACHABLE :: int where "PICO_ARP_STATUS_REACHABLE = 0"
definition PICO_ARP_STATUS_STALE :: int where "PICO_ARP_STATUS_STALE = 2"
definition PICO_ARP_QUERY :: u8 where "PICO_ARP_QUERY = 0"
definition PICO_ARP_PROBE :: u8 where "PICO_ARP_PROBE = 1"
definition PICO_ARP_ANNOUNCE :: u8 where "PICO_ARP_ANNOUNCE = 2"
definition PICO_ARP_CONFLICT_REASON_CONFLICT :: int where "PICO_ARP_CONFLICT_REASON_CONFLICT = 0"
definition PICO_ARP_CONFLICT_REASON_PROBE :: int where "PICO_ARP_CONFLICT_REASON_PROBE = 1"

text \<open>The offsets of the fields of \<open>struct pico_arp_hdr\<close>.\<close>

definition AH_htype :: nat where "AH_htype = 0"
definition AH_ptype :: nat where "AH_ptype = 2"
definition AH_hsize :: nat where "AH_hsize = 4"
definition AH_psize :: nat where "AH_psize = 5"
definition AH_opcode :: nat where "AH_opcode = 6"
definition AH_s_mac :: nat where "AH_s_mac = 8"
definition AH_src :: nat where "AH_src = 14"
definition AH_d_mac :: nat where "AH_d_mac = 18"
definition AH_dst :: nat where "AH_dst = 24"

section \<open>State\<close>

datatype arp_effect =
    Eth_discard eth_frame
  | Dev_send nat "u8 list"
  | Enq_ethernet_out eth_frame
  | Enq_dev_out nat eth_frame
  | Enq_dev_in nat eth_frame
  | Enq_ethernet_in eth_frame
  | Enq_ipv4_in eth_frame
  | Enq_ipv6_in eth_frame
  | Rand_feed u32
  | Arp_timer u64 nat
  | Rate_timer u64
  | Arp_free nat
  | Ip_conflict int
  | Arp_unreachable eth_frame
  | Eth_param_problem eth_frame
  | Nd_postpone eth_frame

record pico_arp =
  a_ptr :: nat
  a_ipv4 :: u32
  a_dev :: nat

record arp_entry =
  a_eth :: "u8 list"
  arp_status :: int
  a_timestamp :: u64

record arp_state =
  arp_tree :: "pico_arp pico_tree"
  entries :: "nat \<Rightarrow> arp_entry"
  arp_next :: nat
  max_arp_reqs :: int
  frames_queued :: "eth_frame option list"
  conflict_set :: bool
  conflict_ip :: u32
  conflict_mac :: "u8 list"
  a_links :: ipv4_state
  a_macs :: "nat \<Rightarrow> u8 list option"
  a_devices :: "nat list"
  a_now :: u64
  a_mem :: "bool list"
  a_tmr :: "bool list"
  a_enq :: "bool list"
  a_send :: "int list"
  a_nd :: "u8 list option list"
  a_err :: pico_err_t
  a_timers :: "pico_arp list"
  a_effects :: "arp_effect list"

definition arp_effect :: "arp_effect \<Rightarrow> arp_state \<Rightarrow> arp_state" where
  "arp_effect e s = s\<lparr>a_effects := a_effects s @ [e]\<rparr>"

definition eth_discard :: "eth_frame \<Rightarrow> arp_state \<Rightarrow> arp_state" where
  "eth_discard f s = arp_effect (Eth_discard f) s"

definition arp_alloc :: "arp_state \<Rightarrow> bool \<times> arp_state" where
  "arp_alloc s = (case a_mem s of [] \<Rightarrow> (True, s) | b # bs \<Rightarrow> (b, s\<lparr>a_mem := bs\<rparr>))"

definition arp_timer_add :: "arp_effect \<Rightarrow> arp_state \<Rightarrow> bool \<times> arp_state" where
  "arp_timer_add e s = (case a_tmr s of [] \<Rightarrow> (True, arp_effect e s)
     | b # bs \<Rightarrow> (b, (if b then arp_effect e else (\<lambda>s. s)) (s\<lparr>a_tmr := bs\<rparr>)))"

definition arp_enqueue :: "arp_effect \<Rightarrow> arp_state \<Rightarrow> int \<times> arp_state" where
  "arp_enqueue e s = (case a_enq s of [] \<Rightarrow> (1, arp_effect e s)
     | b # bs \<Rightarrow> if b then (1, arp_effect e (s\<lparr>a_enq := bs\<rparr>)) else (- 1, s\<lparr>a_enq := bs\<rparr>))"

text \<open>A timer that will call \<open>arp_expire\<close> on the entry \<open>k\<close>; those that are pending are in \<open>a_timers\<close>.\<close>

definition arp_expire_timer :: "u64 \<Rightarrow> pico_arp \<Rightarrow> arp_state \<Rightarrow> bool \<times> arp_state" where
  "arp_expire_timer t k s =
     (let (ok, s) = arp_timer_add (Arp_timer t (a_ptr k)) s in (ok, if ok then s\<lparr>a_timers := a_timers s @ [k]\<rparr> else s))"

text \<open>\<open>dev->send\<close> of a driver.\<close>

definition dev_send :: "nat \<Rightarrow> u8 list \<Rightarrow> arp_state \<Rightarrow> int \<times> arp_state" where
  "dev_send dev bs s = (case a_send s of [] \<Rightarrow> (int (length bs), arp_effect (Dev_send dev bs) s)
     | r # rs \<Rightarrow> (r, arp_effect (Dev_send dev bs) (s\<lparr>a_send := rs\<rparr>)))"

definition arp_compare :: "pico_arp \<Rightarrow> pico_arp \<Rightarrow> int" where
  "arp_compare a b = pico_ipv4_compare (a_ipv4 a) (a_ipv4 b)"

definition arp_key :: "u32 \<Rightarrow> pico_arp" where "arp_key a = \<lparr>a_ptr = 0, a_ipv4 = a, a_dev = 0\<rparr>"

section \<open>To the devices\<close>

definition pico_sendto_dev :: "arp_state \<Rightarrow> eth_frame \<Rightarrow> (int \<times> arp_state) option" where
  "pico_sendto_dev s f =
     (if e_dev f = 0 then Some (- 1, eth_discard f s)
      else do {
        s \<leftarrow> (if e_len f > 8 then do {
                let mid = push_bit 1 (drop_bit 2 (of_nat (length (e_buf f)) :: u32));
                let mid = mid - mid mod 4;
                r \<leftarrow> buf32 (e_buf f) (unat mid);
                Some (arp_effect (Rand_feed r) s) }
              else Some s);
        Some (arp_enqueue (Enq_dev_out (e_dev f) f) s) })"

definition pico_datalink_send :: "arp_state \<Rightarrow> eth_frame \<Rightarrow> (int \<times> arp_state) option" where
  "pico_datalink_send s f =
     (if e_dev f = 0 then None
      else if a_macs s (e_dev f) \<noteq> None then Some (arp_enqueue (Enq_ethernet_out f) s)
      else pico_sendto_dev s f)"

section \<open>Requests\<close>

definition pico_arp_request_xmit :: "arp_state \<Rightarrow> nat \<Rightarrow> u8 list \<Rightarrow> u32 option \<Rightarrow> u32 \<Rightarrow> u8 \<Rightarrow> (int \<times> arp_state) option" where
  "pico_arp_request_xmit s dev q src dst ty = do {
     mac \<leftarrow> a_macs s dev;
     addrs \<leftarrow> (if ty = PICO_ARP_ANNOUNCE then Some (Some (dst, dst))
               else if ty = PICO_ARP_PROBE then Some (Some (0, dst))
               else if ty = PICO_ARP_QUERY then map_option (\<lambda>a. Some (a, dst)) src
               else Some None);
     Some (case addrs of
         None \<Rightarrow> (- 1, s)
       | Some (sa, da) \<Rightarrow>
           dev_send dev (q @ bytes16 PICO_ARP_HTYPE_ETH @ bytes16 PICO_IDETH_IPV4 @ [of_nat PICO_SIZE_ETH, 4]
             @ bytes16 PICO_ARP_REQUEST @ mac @ bytes32 sa @ replicate PICO_SIZE_ETH 0 @ bytes32 da) s) }"

text \<open>\<open>q\<close> above: the Ethernet header written here.\<close>

definition pico_arp_request :: "arp_state \<Rightarrow> nat \<Rightarrow> u32 \<Rightarrow> u8 \<Rightarrow> (int \<times> arp_state) option" where
  "pico_arp_request s dev dst ty =
     (let (ok, s) = arp_alloc s in
      if \<not> ok then Some (- 1, s)
      else do {
        (src, i) \<leftarrow> (if ty = PICO_ARP_QUERY then pico_ipv4_source_find (a_links s) (Some dst) else Some (None, a_links s));
        let s = s\<lparr>a_links := i\<rparr>;
        (if ty = PICO_ARP_QUERY \<and> src = None then Some (- 1, s)
         else do {
           mac \<leftarrow> a_macs s dev;
           pico_arp_request_xmit s dev (PICO_ETHADDR_ALL @ mac @ bytes16 PICO_IDETH_ARP) src dst ty }) })"

section \<open>The table\<close>

definition pico_arp_lookup :: "arp_state \<Rightarrow> u32 \<Rightarrow> u8 list option option" where
  "pico_arp_lookup s dst = do {
     found \<leftarrow> pico_tree_findKey arp_compare (arp_tree s) (arp_key dst);
     Some (case found of None \<Rightarrow> None
       | Some k \<Rightarrow> if arp_status (entries s (a_ptr k)) \<noteq> PICO_ARP_STATUS_STALE then Some (a_eth (entries s (a_ptr k))) else None) }"

primrec reverse_scan :: "(nat \<Rightarrow> arp_entry) \<Rightarrow> u8 list \<Rightarrow> pico_arp list \<Rightarrow> u32 option" where
  "reverse_scan en mac [] = None"
| "reverse_scan en mac (k # ks) = (if a_eth (en (a_ptr k)) = mac then Some (a_ipv4 k) else reverse_scan en mac ks)"

definition pico_arp_reverse_lookup :: "arp_state \<Rightarrow> u8 list \<Rightarrow> u32 option option" where
  "pico_arp_reverse_lookup s mac = map_option (reverse_scan (entries s) mac) (pico_tree_foreach (arp_tree s))"

primrec neighbor_scan :: "nat \<Rightarrow> nat \<Rightarrow> pico_arp list \<Rightarrow> u32 list \<Rightarrow> u32 list" where
  "neighbor_scan dev maxlen [] ns = ns"
| "neighbor_scan dev maxlen (k # ks) ns =
     (if a_dev k = dev
      then if length ns + 1 \<ge> maxlen then ns @ [a_ipv4 k] else neighbor_scan dev maxlen ks (ns @ [a_ipv4 k])
      else neighbor_scan dev maxlen ks ns)"

text \<open>The addresses written to \<open>neighbors\<close>; their number is the result.\<close>

definition pico_arp_get_neighbors :: "arp_state \<Rightarrow> nat \<Rightarrow> nat \<Rightarrow> u32 list option" where
  "pico_arp_get_neighbors s dev maxlen = map_option (\<lambda>ks. neighbor_scan dev maxlen ks []) (pico_tree_foreach (arp_tree s))"

section \<open>Frames that wait\<close>

primrec trigger_loop :: "nat list \<Rightarrow> arp_state \<Rightarrow> arp_state option" where
  "trigger_loop [] s = Some s"
| "trigger_loop (i # is) s =
     (case frames_queued s ! i of
        None \<Rightarrow> trigger_loop is s
      | Some f \<Rightarrow> do {
          (r, s) \<leftarrow> pico_datalink_send s f;
          let s = (if r \<le> 0 then eth_discard f s else s);
          trigger_loop is (s\<lparr>frames_queued := (frames_queued s)[i := None]\<rparr>) })"

definition pico_arp_queued_trigger :: "arp_state \<Rightarrow> arp_state option" where
  "pico_arp_queued_trigger s = trigger_loop [0..<PICO_ARP_MAX_PENDING] s"

primrec postpone_loop :: "nat list \<Rightarrow> eth_frame \<Rightarrow> arp_state \<Rightarrow> arp_state" where
  "postpone_loop [] f s = s"
| "postpone_loop (i # is) f s =
     (if frames_queued s ! i = None
      then if e_fail f < 4 then s\<lparr>frames_queued := (frames_queued s)[i := Some f]\<rparr> else s
      else postpone_loop is f s)"

definition pico_arp_postpone :: "arp_state \<Rightarrow> eth_frame \<Rightarrow> arp_state" where
  "pico_arp_postpone s f = postpone_loop [0..<PICO_ARP_MAX_PENDING] f s"

text \<open>\<open>pico_source_is_local\<close> for IPv4; \<open>n\<close> is the offset of the header.\<close>

definition pico_source_is_local :: "arp_state \<Rightarrow> eth_frame \<Rightarrow> nat \<Rightarrow> (bool \<times> arp_state) option" where
  "pico_source_is_local s f n = do {
     v \<leftarrow> buf_read (e_buf f) n 1;
     (if hd v AND 0xF0 \<noteq> 0x40 then Some (False, s)
      else do {
        src \<leftarrow> buf32 (e_buf f) (n + 12);
        (if src = 0 then Some (True, s)
         else do {
           (dev, i) \<leftarrow> pico_ipv4_link_find (a_links s) (Some src);
           Some (dev \<noteq> 0, s\<lparr>a_links := i\<rparr>) }) }) }"

primrec unreachable_loop :: "nat list \<Rightarrow> u32 \<Rightarrow> arp_state \<Rightarrow> arp_state option" where
  "unreachable_loop [] a s = Some s"
| "unreachable_loop (i # is) a s =
     (case frames_queued s ! i of
        None \<Rightarrow> unreachable_loop is a s
      | Some f \<Rightarrow> do {
          n \<leftarrow> e_net f;
          d \<leftarrow> buf32 (e_buf f) (n + 16);
          (gw, l) \<leftarrow> pico_ipv4_route_get_gateway (a_links s) (Some d);
          let s = s\<lparr>a_links := l\<rparr>;
          s \<leftarrow> (if (if gw = 0 then d else gw) = a
                then do { (loc, s) \<leftarrow> pico_source_is_local s f n; Some (if loc then s else arp_effect (Arp_unreachable f) s) }
                else Some s);
          unreachable_loop is a s })"

definition pico_arp_unreachable :: "arp_state \<Rightarrow> u32 \<Rightarrow> arp_state option" where
  "pico_arp_unreachable s a = unreachable_loop [0..<PICO_ARP_MAX_PENDING] a s"

definition pico_arp_retry :: "arp_state \<Rightarrow> eth_frame \<Rightarrow> u32 \<Rightarrow> (eth_frame \<times> arp_state) option" where
  "pico_arp_retry s f w =
     (let f = f\<lparr>e_fail := e_fail f + 1\<rparr> in
      if e_fail f < 4 then map_option (\<lambda>(_, s). (f, s)) (pico_arp_request s (e_dev f) w PICO_ARP_QUERY)
      else map_option (\<lambda>s. (f, s)) (pico_arp_unreachable s w))"

definition pico_arp_get :: "arp_state \<Rightarrow> eth_frame \<Rightarrow> (u8 list option \<times> eth_frame \<times> arp_state) option" where
  "pico_arp_get s f =
     (case e_net f of
        None \<Rightarrow> Some (None, f, s)
      | Some n \<Rightarrow> do {
          d \<leftarrow> buf32 (e_buf f) (n + 16);
          l \<leftarrow> pico_ipv4_link_get (a_links s) d;
          (case l of
             Some l \<Rightarrow> do { mac \<leftarrow> a_macs s (l_dev l); Some (Some mac, f, s) }
           | None \<Rightarrow> do {
               (gw, i) \<leftarrow> pico_ipv4_route_get_gateway (a_links s) (Some d);
               let s = s\<lparr>a_links := i\<rparr>;
               let w = (if gw \<noteq> 0 then gw else d);
               a4 \<leftarrow> pico_arp_lookup s w;
               (case a4 of
                  Some mac \<Rightarrow> Some (Some mac, f, s)
                | None \<Rightarrow> do { (f, s) \<leftarrow> pico_arp_retry s f w; Some (None, f, s) }) }) })"

section \<open>Entries\<close>

definition set_entry :: "nat \<Rightarrow> arp_entry \<Rightarrow> arp_state \<Rightarrow> arp_state" where
  "set_entry p e s = s\<lparr>entries := (entries s)(p := e)\<rparr>"

definition pico_arp_add_entry :: "arp_state \<Rightarrow> pico_arp \<Rightarrow> (int \<times> arp_state) option" where
  "pico_arp_add_entry s k =
     (let s = set_entry (a_ptr k) ((entries s (a_ptr k))\<lparr>arp_status := PICO_ARP_STATUS_REACHABLE, a_timestamp := a_now s\<rparr>) s;
          (ok, s) = arp_alloc s
      in do {
        (r, t) \<leftarrow> pico_tree_insert arp_compare (arp_tree s) k ok;
        (if r \<noteq> Ins_NULL then Some (- 1, s)
         else do {
           s \<leftarrow> pico_arp_queued_trigger (s\<lparr>arp_tree := t\<rparr>);
           let (ok, s) = arp_expire_timer PICO_ARP_TIMEOUT k s;
           (if \<not> ok then do {
              (_, t) \<leftarrow> pico_tree_delete arp_compare (arp_tree s) (Some k);
              Some (- 1, s\<lparr>arp_tree := t\<rparr>) }
            else Some (0, s)) }) })"

definition pico_arp_create_entry :: "arp_state \<Rightarrow> u8 list \<Rightarrow> u32 \<Rightarrow> nat \<Rightarrow> (int \<times> arp_state) option" where
  "pico_arp_create_entry s hwaddr a dev =
     (let (ok, s) = arp_alloc s in
      if \<not> ok then Some (- 1, s\<lparr>a_err := PICO_ERR_ENOMEM\<rparr>)
      else
        let p = arp_next s;
            s = set_entry p \<lparr>a_eth = hwaddr, arp_status = 0, a_timestamp = 0\<rparr> (s\<lparr>arp_next := p + 1\<rparr>)
        in do {
          (r, s) \<leftarrow> pico_arp_add_entry s \<lparr>a_ptr = p, a_ipv4 = a, a_dev = dev\<rparr>;
          Some (if r < 0 then (- 1, arp_effect (Arp_free p) s) else (0, s)) })"

definition arp_expire :: "arp_state \<Rightarrow> u64 \<Rightarrow> pico_arp \<Rightarrow> arp_state option" where
  "arp_expire s now k =
     (let e = entries s (a_ptr k) in
      if now \<ge> a_timestamp e + PICO_ARP_TIMEOUT
      then map_option snd (pico_arp_request (set_entry (a_ptr k) (e\<lparr>arp_status := PICO_ARP_STATUS_STALE\<rparr>) s)
             (a_dev k) (a_ipv4 k) PICO_ARP_QUERY)
      else
        let (ok, s) = arp_expire_timer (PICO_ARP_TIMEOUT + a_timestamp e - now) k s in
        if ok then Some s
        else do {
          (_, t) \<leftarrow> pico_tree_delete arp_compare (arp_tree s) (Some k);
          Some (arp_effect (Arp_free (a_ptr k)) (s\<lparr>arp_tree := t\<rparr>)) })"

section \<open>Received packets\<close>

definition pico_arp_check_conflict :: "arp_state \<Rightarrow> u8 list \<Rightarrow> nat \<Rightarrow> arp_state option" where
  "pico_arp_check_conflict s b n =
     (if \<not> conflict_set s then Some s
      else do {
        src \<leftarrow> buf32 b (n + AH_src);
        mac \<leftarrow> buf_read b (n + AH_s_mac) PICO_SIZE_ETH;
        dst \<leftarrow> buf32 b (n + AH_dst);
        let s = (if conflict_ip s = src \<and> mac \<noteq> conflict_mac s
                 then arp_effect (Ip_conflict PICO_ARP_CONFLICT_REASON_CONFLICT) s else s);
        Some (if src = 0 \<and> dst = conflict_ip s
              then arp_effect (Ip_conflict PICO_ARP_CONFLICT_REASON_PROBE) s else s) })"

definition pico_arp_lookup_entry :: "arp_state \<Rightarrow> u8 list \<Rightarrow> nat \<Rightarrow> (pico_arp option \<times> arp_state) option" where
  "pico_arp_lookup_entry s b n = do {
     src \<leftarrow> buf32 b (n + AH_src);
     found \<leftarrow> pico_tree_findKey arp_compare (arp_tree s) (arp_key src);
     (case found of
        None \<Rightarrow> Some (None, s)
      | Some k \<Rightarrow>
          if arp_status (entries s (a_ptr k)) = PICO_ARP_STATUS_STALE
          then do {
            (_, t) \<leftarrow> pico_tree_delete arp_compare (arp_tree s) (Some k);
            (r, s) \<leftarrow> pico_arp_add_entry (s\<lparr>arp_tree := t\<rparr>) k;
            Some (if r < 0 then (None, arp_effect (Arp_free (a_ptr k)) s) else (Some k, s)) }
          else do {
            mac \<leftarrow> buf_read b (n + AH_s_mac) PICO_SIZE_ETH;
            Some (Some k, set_entry (a_ptr k) ((entries s (a_ptr k))\<lparr>a_eth := mac, a_timestamp := a_now s\<rparr>) s) }) }"

definition pico_arp_check_incoming_hdr_type :: "u8 list \<Rightarrow> nat \<Rightarrow> bool option" where
  "pico_arp_check_incoming_hdr_type b n = do {
     h \<leftarrow> buf16 b (n + AH_htype);
     p \<leftarrow> buf16 b (n + AH_ptype);
     Some (h = PICO_ARP_HTYPE_ETH \<and> p = PICO_IDETH_IPV4) }"

text \<open>The target address when the header is acceptable.\<close>

definition pico_arp_check_incoming_hdr :: "u8 list \<Rightarrow> nat \<Rightarrow> u32 option option" where
  "pico_arp_check_incoming_hdr b n = do {
     me \<leftarrow> buf32 b (n + AH_dst);
     ok \<leftarrow> pico_arp_check_incoming_hdr_type b n;
     mac \<leftarrow> buf_read b (n + AH_s_mac) PICO_SIZE_ETH;
     Some (if \<not> ok \<or> hd mac AND 1 \<noteq> 0 then None else Some me) }"

definition pico_arp_reply_on_request :: "arp_state \<Rightarrow> eth_frame \<Rightarrow> nat \<Rightarrow> u32 \<Rightarrow> (eth_frame \<times> arp_state) option" where
  "pico_arp_reply_on_request s f n me = do {
     op \<leftarrow> buf16 (e_buf f) (n + AH_opcode);
     (if op \<noteq> PICO_ARP_REQUEST then Some (f, s)
      else do {
        own \<leftarrow> a_macs s (e_dev f);
        dl \<leftarrow> e_dl f;
        b \<leftarrow> buf_write (e_buf f) (n + AH_opcode) (bytes16 PICO_ARP_REPLY);
        smac \<leftarrow> buf_read b (n + AH_s_mac) PICO_SIZE_ETH;
        b \<leftarrow> buf_write b (n + AH_d_mac) smac;
        b \<leftarrow> buf_write b (n + AH_s_mac) own;
        src \<leftarrow> buf32 b (n + AH_src);
        b \<leftarrow> buf_write b (n + AH_dst) (bytes32 src);
        b \<leftarrow> buf_write b (n + AH_src) (bytes32 me);
        saddr \<leftarrow> buf_read b (dl + 6) PICO_SIZE_ETH;
        b \<leftarrow> buf_write b dl saddr;
        b \<leftarrow> buf_write b (dl + 6) own;
        let f = f\<lparr>e_buf := b, e_start := dl, e_len := of_nat (PICO_SIZE_ETHHDR + PICO_SIZE_ARPHDR)\<rparr>;
        bs \<leftarrow> buf_read b dl (PICO_SIZE_ETHHDR + PICO_SIZE_ARPHDR);
        Some (f, snd (dev_send (e_dev f) bs s)) }) }"

definition pico_arp_check_flooding :: "arp_state \<Rightarrow> eth_frame \<Rightarrow> nat \<Rightarrow> u32 \<Rightarrow> (bool \<times> arp_state) option" where
  "pico_arp_check_flooding s f n me = do {
     (link_dev, i) \<leftarrow> pico_ipv4_link_find (a_links s) (Some me);
     let s = s\<lparr>a_links := i\<rparr>;
     op \<leftarrow> buf16 (e_buf f) (n + AH_opcode);
     Some (if link_dev = e_dev f \<and> op = PICO_ARP_REQUEST
           then if max_arp_reqs s = 0 then (False, s) else (True, s\<lparr>max_arp_reqs := max_arp_reqs s - 1\<rparr>)
           else (link_dev = e_dev f, s)) }"

definition pico_arp_process_in :: "arp_state \<Rightarrow> eth_frame \<Rightarrow> nat \<Rightarrow> pico_arp option \<Rightarrow> (int \<times> arp_state) option" where
  "pico_arp_process_in s f n found = do {
     me \<leftarrow> pico_arp_check_incoming_hdr (e_buf f) n;
     (case me of
        None \<Rightarrow> Some (- 1, eth_discard f s)
      | Some me \<Rightarrow> do {
          (ok, s) \<leftarrow> pico_arp_check_flooding s f n me;
          (if \<not> ok then Some (- 1, eth_discard f s)
           else do {
             (r, s) \<leftarrow> (if found = None then do {
                           mac \<leftarrow> buf_read (e_buf f) (n + AH_s_mac) PICO_SIZE_ETH;
                           src \<leftarrow> buf32 (e_buf f) (n + AH_src);
                           pico_arp_create_entry s mac src (e_dev f) }
                         else Some (0, s));
             (if r < 0 then Some (- 1, eth_discard f s)
              else do {
                (f, s) \<leftarrow> pico_arp_reply_on_request s f n me;
                Some (0, eth_discard f s) }) }) }) }"

definition pico_arp_receive :: "arp_state \<Rightarrow> eth_frame \<Rightarrow> (int \<times> arp_state) option" where
  "pico_arp_receive s f =
     (case e_net f of
        None \<Rightarrow> Some (- 1, eth_discard f s)
      | Some n \<Rightarrow> do {
          s \<leftarrow> pico_arp_check_conflict s (e_buf f) n;
          (found, s) \<leftarrow> pico_arp_lookup_entry s (e_buf f) n;
          pico_arp_process_in s f n found })"

section \<open>Rate limit and conflicts\<close>

definition update_max_arp_reqs :: "arp_state \<Rightarrow> arp_state" where
  "update_max_arp_reqs s =
     (let s = (if max_arp_reqs s < PICO_ARP_MAX_RATE then s\<lparr>max_arp_reqs := max_arp_reqs s + 1\<rparr> else s)
      in snd (arp_timer_add (Rate_timer (PICO_ARP_INTERVAL div of_int PICO_ARP_MAX_RATE)) s))"

definition pico_arp_init :: "arp_state \<Rightarrow> arp_state" where
  "pico_arp_init s = snd (arp_timer_add (Rate_timer (PICO_ARP_INTERVAL div of_int PICO_ARP_MAX_RATE)) s)"

definition pico_arp_register_ipconflict :: "arp_state \<Rightarrow> u32 \<Rightarrow> u8 list option \<Rightarrow> bool \<Rightarrow> arp_state" where
  "pico_arp_register_ipconflict s a mac cb =
     s\<lparr>conflict_set := cb, conflict_ip := a, conflict_mac := (case mac of None \<Rightarrow> conflict_mac s | Some m \<Rightarrow> m)\<rparr>"

end
