(* ===== verification/Ethernet.thy ===== *)
theory Ethernet
  imports Arp
begin

text \<open>
  Ethernet framing (\<open>modules/pico_ethernet.c\<close>), \<open>pico_device_broadcast\<close> of \<open>stack/pico_device.c\<close> and
  \<open>pico_stack_recv\<close> of \<open>stack/pico_stack.c\<close>, over the frames and the state of \<open>Arp\<close>.  The answers of the
  IPv6 neighbour tables come from the supply \<open>a_nd\<close>.  A copy of a frame is the frame: the two share their
  buffer in the code, and the original is not used after the copy.
\<close>

definition PICO_ETHADDR_MCAST :: "u8 list" where "PICO_ETHADDR_MCAST = [0x01, 0x00, 0x5e, 0x00, 0x00, 0x00]"
definition PICO_ETHADDR_MCAST6 :: "u8 list" where "PICO_ETHADDR_MCAST6 = [0x33, 0x33, 0x00, 0x00, 0x00, 0x00]"
definition PICO_SIZE_MCAST :: nat where "PICO_SIZE_MCAST = 3"
definition PICO_SIZE_MCAST6 :: nat where "PICO_SIZE_MCAST6 = 2"
definition PICO_SIZE_IP6 :: nat where "PICO_SIZE_IP6 = 16"

text \<open>The offsets of the fields of \<open>struct pico_eth_hdr\<close>, and of the destination in the IP headers.\<close>

definition EH_daddr :: nat where "EH_daddr = 0"
definition EH_saddr :: nat where "EH_saddr = 6"
definition EH_proto :: nat where "EH_proto = 12"
definition IP4_dst :: nat where "IP4_dst = 16"
definition IP6_dst :: nat where "IP6_dst = 24"

definition IS_BCAST :: "eth_frame \<Rightarrow> bool" where
  "IS_BCAST f \<longleftrightarrow> e_flags f AND PICO_FRAME_FLAG_BCAST = PICO_FRAME_FLAG_BCAST"

definition ip_version :: "eth_frame \<Rightarrow> u8 option" where
  "ip_version f = (case e_net f of None \<Rightarrow> Some 0 | Some n \<Rightarrow> map_option (\<lambda>v. hd v AND 0xF0) (buf_read (e_buf f) n 1))"

section \<open>Frames\<close>

definition pico_ethernet_alloc :: "arp_state \<Rightarrow> nat \<Rightarrow> u32 \<Rightarrow> u16 \<Rightarrow> eth_frame option \<times> arp_state" where
  "pico_ethernet_alloc s dev overhead sz =
     (let over = (if dev \<noteq> 0 then overhead else 0);
          n = over + ucast sz + of_nat PICO_SIZE_ETHHDR;
          (ok, s) = arp_alloc s
      in if \<not> ok then (None, s)
         else (Some \<lparr>e_dev = dev, e_buf = replicate (unat n) 0, e_dl = Some (unat over), e_net = Some (unat over + PICO_SIZE_ETHHDR),
                e_start = 0, e_len = n, e_flags = 0, e_fail = 0\<rparr>, s))"

definition pico_stack_recv_new_frame :: "arp_state \<Rightarrow> nat \<Rightarrow> u8 list \<Rightarrow> (eth_frame option \<times> arp_state) option" where
  "pico_stack_recv_new_frame s dev bs =
     (if bs = [] then Some (None, s)
      else
        let (ok, s) = arp_alloc s in
        if \<not> ok then Some (None, s)
        else do {
          let zeros = replicate (length bs) 0;
          s \<leftarrow> (if length bs > 8 then do {
                  let mid = push_bit 1 (drop_bit 2 (of_nat (length bs) :: u32));
                  let mid = mid - mid mod 4;
                  r \<leftarrow> buf32 zeros (unat mid);
                  Some (arp_effect (Rand_feed r) s) }
                else Some s);
          Some (Some \<lparr>e_dev = dev, e_buf = bs, e_dl = None, e_net = None, e_start = 0, e_len = of_nat (length bs),
                  e_flags = 0, e_fail = 0\<rparr>, s) })"

definition pico_stack_recv :: "arp_state \<Rightarrow> nat \<Rightarrow> u8 list \<Rightarrow> (int \<times> arp_state) option" where
  "pico_stack_recv s dev bs = do {
     (f, s) \<leftarrow> pico_stack_recv_new_frame s dev bs;
     Some (case f of
         None \<Rightarrow> (- 1, s)
       | Some f \<Rightarrow>
           let (r, s) = arp_enqueue (Enq_dev_in dev f) s in (r, if r \<le> 0 then eth_discard f s else s)) }"

section \<open>Reception\<close>

definition pico_ipv4_ethernet_receive :: "arp_state \<Rightarrow> eth_frame \<Rightarrow> (int \<times> arp_state) option" where
  "pico_ipv4_ethernet_receive s f = do {
     v \<leftarrow> ip_version f;
     Some (if v = 0x40
           then let (r, s) = arp_enqueue (Enq_ipv4_in f) s in
                if r < 0 then (- 1, eth_discard f s) else (int (length (e_buf f)), s)
           else (- 1, eth_discard f (arp_effect (Eth_param_problem f) s))) }"

definition pico_ipv6_ethernet_receive :: "arp_state \<Rightarrow> eth_frame \<Rightarrow> (int \<times> arp_state) option" where
  "pico_ipv6_ethernet_receive s f = do {
     v \<leftarrow> ip_version f;
     Some (if v = 0x60
           then let (r, s) = arp_enqueue (Enq_ipv6_in f) s in
                if r < 0 then (- 1, eth_discard f s) else (int (length (e_buf f)), s)
           else (- 1, eth_discard f s)) }"

definition pico_eth_receive :: "arp_state \<Rightarrow> eth_frame \<Rightarrow> nat \<Rightarrow> (int \<times> arp_state) option" where
  "pico_eth_receive s f dl = do {
     let f = f\<lparr>e_net := Some (dl + PICO_SIZE_ETHHDR)\<rparr>;
     proto \<leftarrow> buf16 (e_buf f) (dl + EH_proto);
     (if proto = PICO_IDETH_ARP then pico_arp_receive s f
      else if proto = PICO_IDETH_IPV4 then pico_ipv4_ethernet_receive s f
      else if proto = PICO_IDETH_IPV6 then pico_ipv6_ethernet_receive s f
      else Some (- 1, eth_discard f s)) }"

definition pico_eth_check_bcast :: "eth_frame \<Rightarrow> nat \<Rightarrow> eth_frame option" where
  "pico_eth_check_bcast f dl = do {
     d \<leftarrow> buf_read (e_buf f) (dl + EH_daddr) PICO_SIZE_ETH;
     Some (if d = PICO_ETHADDR_ALL then f\<lparr>e_flags := e_flags f OR PICO_FRAME_FLAG_BCAST\<rparr> else f) }"

text \<open>The destinations that are taken in.\<close>

definition eth_for_us :: "u8 list \<Rightarrow> u8 list \<Rightarrow> bool" where
  "eth_for_us mac d \<longleftrightarrow> d = mac \<or> take PICO_SIZE_MCAST d = take PICO_SIZE_MCAST PICO_ETHADDR_MCAST
     \<or> take PICO_SIZE_MCAST6 d = take PICO_SIZE_MCAST6 PICO_ETHADDR_MCAST6 \<or> d = PICO_ETHADDR_ALL"

definition pico_ethernet_receive :: "arp_state \<Rightarrow> eth_frame option \<Rightarrow> (int \<times> arp_state) option" where
  "pico_ethernet_receive s f =
     (case f of
        None \<Rightarrow> Some (- 1, s)
      | Some f \<Rightarrow>
          (case e_dl f of
             None \<Rightarrow> Some (- 1, eth_discard f s)
           | Some dl \<Rightarrow>
               if e_dev f = 0 then Some (- 1, eth_discard f s)
               else do {
                 mac \<leftarrow> a_macs s (e_dev f);
                 d \<leftarrow> buf_read (e_buf f) (dl + EH_daddr) PICO_SIZE_ETH;
                 (if \<not> eth_for_us mac d then Some (- 1, eth_discard f s)
                  else do { f \<leftarrow> pico_eth_check_bcast f dl; pico_eth_receive s f dl }) }))"

definition pico_ethernet_process_in :: "arp_state \<Rightarrow> eth_frame \<Rightarrow> (bool \<times> arp_state) option" where
  "pico_ethernet_process_in s f = map_option (\<lambda>(r, s). (r \<le> 0, s)) (pico_ethernet_receive s (Some f))"

text \<open>From a driver into the stack: \<open>pico_network_receive\<close> and \<open>pico_datalink_receive\<close>.\<close>

definition pico_network_receive :: "arp_state \<Rightarrow> eth_frame \<Rightarrow> (int \<times> arp_state) option" where
  "pico_network_receive s f = do {
     v \<leftarrow> ip_version f;
     Some (if v = 0x40 then (int (length (e_buf f)), snd (arp_enqueue (Enq_ipv4_in f) s))
           else if v = 0x60 then (int (length (e_buf f)), snd (arp_enqueue (Enq_ipv6_in f) s))
           else (- 1, eth_discard f s)) }"

definition pico_datalink_receive :: "arp_state \<Rightarrow> eth_frame \<Rightarrow> (int \<times> arp_state) option" where
  "pico_datalink_receive s f =
     (if e_dev f = 0 then None
      else if a_macs s (e_dev f) \<noteq> None then Some (arp_enqueue (Enq_ethernet_in (f\<lparr>e_dl := Some 0\<rparr>)) s)
      else map_option (\<lambda>(_, s). (0, s)) (pico_network_receive s (f\<lparr>e_net := Some 0\<rparr>)))"

section \<open>The Ethernet destination\<close>

definition destination_is_bcast :: "arp_state \<Rightarrow> eth_frame \<Rightarrow> bool option" where
  "destination_is_bcast s f = do {
     v \<leftarrow> ip_version f;
     (if v = 0x60 then Some False
      else do { n \<leftarrow> e_net f; d \<leftarrow> buf32 (e_buf f) (n + IP4_dst); pico_ipv4_is_broadcast (a_links s) d }) }"

definition destination_is_mcast :: "eth_frame \<Rightarrow> bool option" where
  "destination_is_mcast f = do {
     v \<leftarrow> ip_version f;
     n \<leftarrow> e_net f;
     (if v = 0x60 then map_option (\<lambda>d. hd d = 0xff) (buf_read (e_buf f) (n + IP6_dst) 1)
      else map_option pico_ipv4_is_multicast (buf32 (e_buf f) (n + IP4_dst))) }"

definition pico_ethernet_mcast_translate :: "u32 \<Rightarrow> u8 list \<Rightarrow> u8 list" where
  "pico_ethernet_mcast_translate d m =
     (let a = long_be d in
      m[5 := ucast (a AND 0x000000FF), 4 := ucast (drop_bit 8 (a AND 0x0000FF00)), 3 := ucast (drop_bit 16 (a AND 0x007F0000))])"

definition pico_ethernet_mcast6_translate :: "u8 list \<Rightarrow> u8 list \<Rightarrow> u8 list" where
  "pico_ethernet_mcast6_translate d m =
     m[5 := d ! (PICO_SIZE_IP6 - 1), 4 := d ! (PICO_SIZE_IP6 - 2), 3 := d ! (PICO_SIZE_IP6 - 3), 2 := d ! (PICO_SIZE_IP6 - 4)]"

definition nd_neighbor :: "arp_state \<Rightarrow> u8 list option \<times> arp_state" where
  "nd_neighbor s = (case a_nd s of [] \<Rightarrow> (None, s) | m # ms \<Rightarrow> (m, s\<lparr>a_nd := ms\<rparr>))"

definition pico_ethernet_ipv6_dst :: "arp_state \<Rightarrow> eth_frame \<Rightarrow> (u8 list option \<times> arp_state) option" where
  "pico_ethernet_ipv6_dst s f = do {
     mc \<leftarrow> destination_is_mcast f;
     (if mc then do {
        n \<leftarrow> e_net f;
        d \<leftarrow> buf_read (e_buf f) (n + IP6_dst) PICO_SIZE_IP6;
        Some (Some (pico_ethernet_mcast6_translate d PICO_ETHADDR_MCAST6), s) }
      else Some (nd_neighbor s)) }"

section \<open>Transmission\<close>

definition pico_ethsend_local :: "arp_state \<Rightarrow> eth_frame \<Rightarrow> nat option \<Rightarrow> (bool \<times> arp_state) option" where
  "pico_ethsend_local s f hdr =
     (case hdr of
        None \<Rightarrow> Some (False, s)
      | Some h \<Rightarrow> do {
          d \<leftarrow> buf_read (e_buf f) (h + EH_daddr) PICO_SIZE_ETH;
          sa \<leftarrow> buf_read (e_buf f) (h + EH_saddr) PICO_SIZE_ETH;
          (if d = sa
           then let (ok, s) = arp_alloc s in
                map_option (\<lambda>(_, s). (True, s)) (pico_ethernet_receive s (if ok then Some f else None))
           else Some (False, s)) })"

definition sent_bytes :: "eth_frame \<Rightarrow> u8 list option" where
  "sent_bytes f = buf_read (e_buf f) (e_start f) (unat (e_len f))"

primrec broadcast_loop :: "nat list \<Rightarrow> eth_frame \<Rightarrow> int \<Rightarrow> arp_state \<Rightarrow> (int \<times> arp_state) option" where
  "broadcast_loop [] f r s = Some (r, s)"
| "broadcast_loop (dev # ds) f r s = do {
     bs \<leftarrow> sent_bytes f;
     (if dev \<noteq> e_dev f
      then let (ok, s) = arp_alloc s in
           if \<not> ok then Some (r, s)
           else broadcast_loop ds f r (eth_discard (f\<lparr>e_dev := dev\<rparr>) (snd (dev_send dev bs s)))
      else let (r, s) = dev_send (e_dev f) bs s in broadcast_loop ds f r s) }"

definition pico_device_broadcast :: "arp_state \<Rightarrow> eth_frame \<Rightarrow> (int \<times> arp_state) option" where
  "pico_device_broadcast s f = broadcast_loop (a_devices s) f (- 1) s"

definition pico_ethsend_bcast :: "arp_state \<Rightarrow> eth_frame \<Rightarrow> (bool \<times> arp_state) option" where
  "pico_ethsend_bcast s f = do {
     n \<leftarrow> e_net f;
     d \<leftarrow> buf32 (e_buf f) (n + IP4_dst);
     (if d = PICO_IP4_BCAST then map_option (\<lambda>(_, s). (True, s)) (pico_device_broadcast s f) else Some (False, s)) }"

definition pico_ethsend_dispatch :: "arp_state \<Rightarrow> eth_frame \<Rightarrow> (bool \<times> arp_state) option" where
  "pico_ethsend_dispatch s f = map_option (\<lambda>(r, s). (r > 0, s)) (pico_sendto_dev s f)"

text \<open>\<open>pico_frame_grow_head\<close>: the old bytes at the end of the new buffer, and no flag is kept.\<close>

definition eth_check_headroom :: "arp_state \<Rightarrow> eth_frame \<Rightarrow> (bool \<times> eth_frame \<times> arp_state) option" where
  "eth_check_headroom s f = do {
     headroom \<leftarrow> e_net f;
     Some (if headroom < PICO_SIZE_ETHHDR
           then let (ok, s) = arp_alloc s; g = PICO_SIZE_ETHHDR - headroom in
                if \<not> ok then (False, f, s)
                else (True, f\<lparr>e_buf := replicate g 0 @ e_buf f, e_net := Some (headroom + g), e_dl := map_option ((+) g) (e_dl f),
                        e_start := e_start f + g, e_flags := 0\<rparr>, s)
           else (True, f, s)) }"

definition eth_write_header :: "arp_state \<Rightarrow> eth_frame \<Rightarrow> u8 list \<Rightarrow> u16 \<Rightarrow> eth_frame option" where
  "eth_write_header s f dstmac proto =
     (if e_start f \<ge> PICO_SIZE_ETHHDR
      then do {
        let st = e_start f - PICO_SIZE_ETHHDR;
        mac \<leftarrow> a_macs s (e_dev f);
        b \<leftarrow> buf_write (e_buf f) (st + EH_saddr) mac;
        b \<leftarrow> buf_write b (st + EH_daddr) dstmac;
        b \<leftarrow> buf_write b (st + EH_proto) (bytes16 proto);
        Some (f\<lparr>e_buf := b, e_start := st, e_len := e_len f + of_nat PICO_SIZE_ETHHDR, e_dl := Some st\<rparr>) }
      else Some f)"

definition eth_push :: "arp_state \<Rightarrow> eth_frame \<Rightarrow> u8 list \<Rightarrow> u16 \<Rightarrow> (int \<times> arp_state) option" where
  "eth_push s f dstmac proto = do {
     (ok, f, s) \<leftarrow> eth_check_headroom s f;
     (if \<not> ok then Some (0, eth_discard f s)
      else do {
        f \<leftarrow> eth_write_header s f dstmac proto;
        (r, s) \<leftarrow> pico_ethsend_local s f (e_dl f);
        (r, s) \<leftarrow> (if r then Some (r, s) else pico_ethsend_bcast s f);
        (r, s) \<leftarrow> (if r then Some (r, s) else pico_ethsend_dispatch s f);
        Some (if r then (sint (e_len f), s) else (0, eth_discard f s)) }) }"

definition pico_ethernet_send :: "arp_state \<Rightarrow> eth_frame \<Rightarrow> (int \<times> arp_state) option" where
  "pico_ethernet_send s f = do {
     v \<leftarrow> ip_version f;
     (if v = 0x60
      then do {
        (m, s) \<leftarrow> pico_ethernet_ipv6_dst s f;
        (case m of
           None \<Rightarrow> Some (sint (e_len f), arp_effect (Nd_postpone f) s)
         | Some mac \<Rightarrow> eth_push s f mac PICO_IDETH_IPV6) }
      else do {
        bc \<leftarrow> (if IS_BCAST f then Some True else destination_is_bcast s f);
        (if bc then eth_push s f PICO_ETHADDR_ALL PICO_IDETH_IPV4
         else do {
           mc \<leftarrow> destination_is_mcast f;
           (if mc then do {
              n \<leftarrow> e_net f;
              d \<leftarrow> buf32 (e_buf f) (n + IP4_dst);
              eth_push s f (pico_ethernet_mcast_translate d PICO_ETHADDR_MCAST) PICO_IDETH_IPV4 }
            else do {
              (m, f, s) \<leftarrow> pico_arp_get s f;
              (case m of
                 Some mac \<Rightarrow> eth_push s f mac PICO_IDETH_IPV4
               | None \<Rightarrow> Some (sint (e_len f), pico_arp_postpone s f)) }) }) }) }"

definition pico_ethernet_process_out :: "arp_state \<Rightarrow> eth_frame \<Rightarrow> (int \<times> arp_state) option" where
  "pico_ethernet_process_out s f = pico_ethernet_send s f"

end
