(* ===== verification/Arp_Props.thy ===== *)
theory Arp_Props
  imports Arp Ipv4_Route_Props
begin

text \<open>
  Address resolution: the table, its timers and its memory stay consistent whatever arrives; a packet for us
  teaches us its sender; and an exchange of a request and a reply, after which both neighbours know each other.
\<close>

section \<open>The table\<close>

interpretation arps: key_order arp_compare every
  by (auto intro!: key_order_by_key [where k = a_ipv4] simp: key_cmp_def arp_compare_def pico_ipv4_compare_def)

lemma arp_compare_0 [simp]: "arp_compare a b = 0 \<longleftrightarrow> a_ipv4 a = a_ipv4 b"
  by (auto simp: arp_compare_def pico_ipv4_compare_def)

lemma arp_key_ipv4 [simp]: "a_ipv4 (arp_key a) = a" by (simp add: arp_key_def)

definition freed :: "arp_state \<Rightarrow> nat list" where
  "freed s = List.map_filter (\<lambda>e. case e of Arp_free p \<Rightarrow> Some p | _ \<Rightarrow> None) (a_effects s)"

abbreviation live :: "arp_state \<Rightarrow> pico_arp \<Rightarrow> bool" where
  "live s k \<equiv> arp_status (entries s (a_ptr k)) \<noteq> PICO_ARP_STATUS_STALE"

text \<open>The entries \<open>K\<close> of the table lie at different places, none of which was freed; the timers that are
  pending are those of the entries that are not stale, one for each.\<close>

definition arp_inv :: "arp_state \<Rightarrow> pico_arp set \<Rightarrow> bool" where
  "arp_inv s K \<longleftrightarrow> (\<exists>ks. tree_inv arp_compare every (arp_tree s) ks \<and> set ks = K) \<and> inj_on a_ptr K
     \<and> distinct (freed s) \<and> a_ptr ` K \<inter> set (freed s) = {} \<and> (\<forall>p \<in> a_ptr ` K \<union> set (freed s). p < arp_next s)
     \<and> distinct (a_timers s) \<and> set (a_timers s) = {k \<in> K. live s k}
     \<and> 0 \<le> max_arp_reqs s \<and> max_arp_reqs s \<le> PICO_ARP_MAX_RATE \<and> length (frames_queued s) = PICO_ARP_MAX_PENDING"

text \<open>What most operations leave alone.\<close>

definition same_table :: "arp_state \<Rightarrow> arp_state \<Rightarrow> bool" where
  "same_table s s' \<longleftrightarrow> arp_tree s' = arp_tree s \<and> entries s' = entries s \<and> arp_next s' = arp_next s \<and> freed s' = freed s
     \<and> a_timers s' = a_timers s \<and> max_arp_reqs s' = max_arp_reqs s \<and> length (frames_queued s') = length (frames_queued s)
     \<and> a_now s' = a_now s"

lemma same_refl [simp]: "same_table s s" by (simp add: same_table_def)

lemma same_trans [trans]: "same_table s u \<Longrightarrow> same_table u v \<Longrightarrow> same_table s v"
  by (auto simp: same_table_def)

lemma same_inv: "same_table s s' \<Longrightarrow> arp_inv s K \<Longrightarrow> arp_inv s' K"
  by (simp add: same_table_def arp_inv_def)

lemma freed_append [simp]: "freed (s\<lparr>a_effects := es @ ds\<rparr>) = freed (s\<lparr>a_effects := es\<rparr>) @ freed (s\<lparr>a_effects := ds\<rparr>)"
  by (simp add: freed_def List.map_filter_def)

lemma freed_effect: "freed (arp_effect e s) = freed s @ (case e of Arp_free p \<Rightarrow> [p] | _ \<Rightarrow> [])"
  by (simp add: freed_def arp_effect_def List.map_filter_def split: arp_effect.splits)

abbreviation no_free :: "arp_effect \<Rightarrow> bool" where "no_free e \<equiv> \<forall>p. e \<noteq> Arp_free p"

lemma same_effect: "no_free e \<Longrightarrow> same_table s (arp_effect e s)"
  by (cases e) (simp_all add: same_table_def freed_effect, simp_all add: arp_effect_def)

lemma same_simps [simp]:
  "same_table s (s\<lparr>a_links := i\<rparr>)" "same_table s (s\<lparr>a_mem := m\<rparr>)" "same_table s (s\<lparr>a_tmr := m\<rparr>)" "same_table s (s\<lparr>a_enq := m\<rparr>)"
  "same_table s (s\<lparr>a_send := rs\<rparr>)" "same_table s (s\<lparr>a_err := er\<rparr>)" "same_table s (s\<lparr>frames_queued := (frames_queued s)[j := q]\<rparr>)"
  "same_table s (eth_discard f s)"
  by (simp_all add: same_table_def freed_def eth_discard_def same_effect [unfolded same_table_def freed_def])

lemma same_alloc: "arp_alloc s = (b, s') \<Longrightarrow> same_table s s'"
  by (auto simp: arp_alloc_def split: list.splits)

lemma same_timer: "arp_timer_add e s = (b, s') \<Longrightarrow> no_free e \<Longrightarrow> same_table s s'"
  by (auto simp: arp_timer_add_def same_effect same_trans [OF _ same_effect] split: list.splits if_splits)

lemma same_enqueue: "arp_enqueue e s = (r, s') \<Longrightarrow> no_free e \<Longrightarrow> same_table s s'"
  by (auto simp: arp_enqueue_def same_effect same_trans [OF _ same_effect] split: list.splits if_splits)

lemma same_dev_send: "dev_send d bs s = (r, s') \<Longrightarrow> same_table s s'"
  by (auto simp: dev_send_def same_effect same_trans [OF _ same_effect] split: list.splits)

lemma same_datalink_send:
  assumes "pico_datalink_send s f = Some (r, s')"
  shows "same_table s s'"
proof -
  have e: "arp_enqueue e s = (r, s') \<Longrightarrow> no_free e \<Longrightarrow> same_table s s'" for e s by (rule same_enqueue)
  have "arp_enqueue (Enq_dev_out d f) (arp_effect (Rand_feed x) s) = (r, s') \<Longrightarrow> same_table s s'" for d x
    using same_trans [OF same_effect same_enqueue] by blast
  then show ?thesis using assms e
    by (auto simp: pico_datalink_send_def pico_sendto_dev_def Let_def bind_eq_Some_conv split: if_splits)
qed

lemma same_trigger: "trigger_loop is s = Some s' \<Longrightarrow> same_table s s'"
proof (induction "is" arbitrary: s)
  case (Cons i "is")
  show ?case
  proof (cases "frames_queued s ! i")
    case (Some f)
    obtain r u where u: "pico_datalink_send s f = Some (r, u)"
      "trigger_loop is ((if r \<le> 0 then eth_discard f u else u)\<lparr>frames_queued := (frames_queued (if r \<le> 0 then eth_discard f u else u))[i := None]\<rparr>) = Some s'"
      using Cons.prems Some by (auto simp: bind_eq_Some_conv Let_def)
    have "same_table s u" by (rule same_datalink_send [OF u(1)])
    also have "same_table u (if r \<le> 0 then eth_discard f u else u)" by simp
    also have "same_table \<dots> (\<dots>\<lparr>frames_queued := (frames_queued \<dots>)[i := None]\<rparr>)" by (rule same_simps)
    also have "same_table \<dots> s'" by (rule Cons.IH [OF u(2)])
    finally show ?thesis .
  qed (use Cons in auto)
qed simp

lemma same_xmit: "pico_arp_request_xmit s dev q src dst ty = Some (r, s') \<Longrightarrow> same_table s s'"
  by (auto simp: pico_arp_request_xmit_def bind_eq_Some_conv split: option.splits if_splits dest!: same_dev_send)

lemma same_request:
  assumes "pico_arp_request s dev dst ty = Some (r, s')"
  shows "same_table s s'"
proof -
  obtain ok u where u: "arp_alloc s = (ok, u)" by (cases "arp_alloc s")
  have su: "same_table s u" by (rule same_alloc [OF u])
  have "(\<exists>i. s' = u\<lparr>a_links := i\<rparr> \<or> (\<exists>q src. pico_arp_request_xmit (u\<lparr>a_links := i\<rparr>) dev q src dst ty = Some (r, s')))
      \<or> (\<exists>q. pico_arp_request_xmit u dev q None dst ty = Some (r, s'))" if "ok"
    using assms that u by (auto simp: pico_arp_request_def bind_eq_Some_conv Let_def split: if_splits)
  moreover have "s' = u" if "\<not> ok" using assms that u by (simp add: pico_arp_request_def)
  moreover have "same_table u s'" if "pico_arp_request_xmit (u\<lparr>a_links := i\<rparr>) dev q src dst ty = Some (r, s')" for i q src
    using same_trans [OF same_simps(1) same_xmit [OF that]] .
  moreover have "same_table u s'" if "pico_arp_request_xmit u dev q src dst ty = Some (r, s')" for q src
    by (rule same_xmit [OF that])
  ultimately have "same_table u s'" by (cases ok) auto
  with su show ?thesis by (rule same_trans)
qed

lemma same_local: "pico_source_is_local s f n = Some (b, v) \<Longrightarrow> same_table s v"
  by (auto simp: pico_source_is_local_def bind_eq_Some_conv split: if_splits)

lemma same_unreachable: "unreachable_loop is a s = Some s' \<Longrightarrow> same_table s s'"
proof (induction "is" arbitrary: s)
  case (Cons i "is")
  show ?case
  proof (cases "frames_queued s ! i")
    case (Some f)
    obtain n d gw l where l: "e_net f = Some n" "buf32 (e_buf f) (n + 16) = Some d" "pico_ipv4_route_get_gateway (a_links s) (Some d) = Some (gw, l)"
      using Cons.prems Some by (auto simp: bind_eq_Some_conv)
    have un: "same_table v (arp_effect (Arp_unreachable f) v)" for v by (rule same_effect) simp
    obtain u where u: "same_table (s\<lparr>a_links := l\<rparr>) u" "unreachable_loop is a u = Some s'"
    proof (cases "(if gw = 0 then d else gw) = a")
      case True
      then obtain b v where v: "pico_source_is_local (s\<lparr>a_links := l\<rparr>) f n = Some (b, v)"
        "unreachable_loop is a (if b then v else arp_effect (Arp_unreachable f) v) = Some s'"
        using Cons.prems Some l by (auto simp: bind_eq_Some_conv Let_def simp del: if_split_asm)
      have "same_table (s\<lparr>a_links := l\<rparr>) (if b then v else arp_effect (Arp_unreachable f) v)"
        using same_local [OF v(1)] same_trans [OF same_local [OF v(1)] un] by simp
      then show ?thesis using that v(2) by blast
    next
      case False
      have "unreachable_loop is a (s\<lparr>a_links := l\<rparr>) = Some s'"
        using Cons.prems Some l False by (simp add: Let_def)
      then show ?thesis using that same_refl by blast
    qed
    from u(1) have "same_table s u" by (rule same_trans [OF same_simps(1)])
    then show ?thesis by (rule same_trans [OF _ Cons.IH [OF u(2)]])
  qed (use Cons in auto)
qed simp

lemma same_get:
  assumes "pico_arp_get s f = Some (m, g, s')"
  shows "same_table s s'"
proof -
  have "same_table s u" if "pico_arp_retry s f w = Some (g, u)" for s u w
    using that by (auto simp: pico_arp_retry_def pico_arp_unreachable_def Let_def split: if_splits dest: same_request same_unreachable)
  then show ?thesis using assms
    by (auto simp: pico_arp_get_def bind_eq_Some_conv Let_def split: option.splits intro: same_trans [OF same_simps(1)])
qed

lemma same_postpone: "same_table s (pico_arp_postpone s f)"
proof -
  have "same_table s (postpone_loop is f s)" for "is" by (induction "is") auto
  then show ?thesis by (simp add: pico_arp_postpone_def)
qed

lemma same_conflict:
  assumes "pico_arp_check_conflict s b n = Some s'"
  shows "same_table s s'"
proof -
  have e: "same_table s (arp_effect (Ip_conflict r) s)" for s r by (rule same_effect) simp
  from assms show ?thesis
    by (auto simp: pico_arp_check_conflict_def bind_eq_Some_conv Let_def e split: if_splits intro: same_trans [OF e e])
qed

lemma same_reply:
  assumes "pico_arp_reply_on_request s f n me = Some (g, s')"
  shows "same_table s s'"
  using assms by (auto simp: pico_arp_reply_on_request_def bind_eq_Some_conv Let_def same_dev_send [OF surjective_pairing] split: if_splits)

section \<open>The invariant\<close>

lemma inv_member: "arp_inv s K \<Longrightarrow> x \<in> K \<Longrightarrow> y \<in> K \<Longrightarrow> a_ipv4 x = a_ipv4 y \<Longrightarrow> x = y"
  using arps.cmp_zero_unique by (force simp: arp_inv_def)

lemma inv_find:
  assumes "arp_inv s K"
  shows "\<exists>r. pico_tree_findKey arp_compare (arp_tree s) (arp_key a) = Some r
    \<and> (case r of None \<Rightarrow> \<forall>x \<in> K. a_ipv4 x \<noteq> a | Some k \<Rightarrow> k \<in> K \<and> a_ipv4 k = a)"
proof -
  obtain ks where ks: "tree_inv arp_compare every (arp_tree s) ks" "set ks = K" using assms by (auto simp: arp_inv_def)
  obtain r where "pico_tree_findKey arp_compare (arp_tree s) (arp_key a) = Some r"
    "case r of None \<Rightarrow> \<forall>x\<in>set ks. arp_compare x (arp_key a) \<noteq> 0 | Some k \<Rightarrow> k \<in> set ks \<and> arp_compare k (arp_key a) = 0"
    using arps.find_exact [OF ks(1), of "arp_key a"] by auto
  then show ?thesis using ks(2) by (cases r) auto
qed

lemma inv_delete:
  assumes "arp_inv s K" "k \<in> K"
  shows "\<exists>t. pico_tree_delete arp_compare (arp_tree s) (Some k) = Some (Some k, t)
    \<and> (\<exists>ks. tree_inv arp_compare every t ks \<and> set ks = K - {k})"
proof -
  obtain ks where ks: "tree_inv arp_compare every (arp_tree s) ks" "set ks = K" using assms(1) by (auto simp: arp_inv_def)
  obtain xs ys where split: "ks = xs @ k # ys" using assms(2) ks(2) by (metis split_list)
  have d: "distinct ks" by (rule arps.inv_distinct [OF ks(1)])
  obtain t where "pico_tree_delete arp_compare (arp_tree s) (Some k) = Some (Some k, t)" "tree_inv arp_compare every t (xs @ ys)"
    using arps.delete_member ks(1) unfolding split by blast
  moreover have "set (xs @ ys) = K - {k}" using d split ks(2) by auto
  ultimately show ?thesis by blast
qed

lemma timer_add_cases:
  assumes "arp_expire_timer t k s = (b, s')"
  obtains u where "same_table s u" "b" "s' = u\<lparr>a_timers := a_timers u @ [k]\<rparr>" | "same_table s s'" "\<not> b"
proof -
  obtain c u where u: "arp_timer_add (Arp_timer t (a_ptr k)) s = (c, u)" by (cases "arp_timer_add (Arp_timer t (a_ptr k)) s")
  have "same_table s u" by (rule same_timer [OF u]) simp
  then show ?thesis using that assms u by (cases c) (auto simp: arp_expire_timer_def)
qed

lemma entry_simps [simp]:
  "arp_tree (set_entry p e s) = arp_tree s" "entries (set_entry p e s) = (entries s)(p := e)" "arp_next (set_entry p e s) = arp_next s"
  "freed (set_entry p e s) = freed s" "a_timers (set_entry p e s) = a_timers s" "max_arp_reqs (set_entry p e s) = max_arp_reqs s"
  "frames_queued (set_entry p e s) = frames_queued s" "a_now (set_entry p e s) = a_now s" "a_mem (set_entry p e s) = a_mem s"
  "a_tmr (set_entry p e s) = a_tmr s"
  by (simp_all add: set_entry_def freed_def)

lemma freed_simps [simp]:
  "freed (s\<lparr>arp_tree := t\<rparr>) = freed s" "freed (s\<lparr>a_timers := ts\<rparr>) = freed s" "freed (s\<lparr>arp_next := n\<rparr>) = freed s"
  "freed (s\<lparr>max_arp_reqs := m\<rparr>) = freed s" "freed (arp_effect (Arp_free p) s) = freed s @ [p]"
  by (simp_all add: freed_def arp_effect_def List.map_filter_def)

lemma arp_effect_simps [simp]:
  "arp_tree (arp_effect e s) = arp_tree s" "entries (arp_effect e s) = entries s" "arp_next (arp_effect e s) = arp_next s"
  "a_timers (arp_effect e s) = a_timers s" "max_arp_reqs (arp_effect e s) = max_arp_reqs s"
  "frames_queued (arp_effect e s) = frames_queued s"
  by (simp_all add: arp_effect_def)

text \<open>\<open>k\<close>: an entry that is in no table, has no timer and is not freed.\<close>

definition spare :: "arp_state \<Rightarrow> pico_arp set \<Rightarrow> pico_arp \<Rightarrow> bool" where
  "spare s K k \<longleftrightarrow> a_ptr k \<notin> a_ptr ` K \<and> a_ptr k \<notin> set (freed s) \<and> a_ptr k < arp_next s"

lemma inv_free:
  assumes "arp_inv s K" "spare s K k"
  shows "arp_inv (arp_effect (Arp_free (a_ptr k)) s) K"
  using assms by (auto simp: arp_inv_def spare_def)

lemma live_other:
  assumes "p \<notin> a_ptr ` K"
  shows "{x \<in> K. live (set_entry p e s) x} = {x \<in> K. live s x}"
proof (rule Collect_cong)
  fix x
  show "(x \<in> K \<and> live (set_entry p e s) x) = (x \<in> K \<and> live s x)" using assms by (cases "a_ptr x = p") auto
qed

lemma inv_set_fresh: "arp_inv s K \<Longrightarrow> p \<notin> a_ptr ` K \<Longrightarrow> arp_inv (set_entry p e s) K"
  using live_other [of p K e s] by (simp add: arp_inv_def)

lemma inv_alloc: "arp_inv s K \<Longrightarrow> arp_inv (s\<lparr>arp_next := arp_next s + 1\<rparr>) K"
  by (simp add: arp_inv_def) (meson less_SucI)

lemma add_entry_ok:
  assumes "arp_inv s K" "spare s K k" "pico_arp_add_entry s k = Some (r, s')"
  shows "r = 0 \<and> arp_inv s' (insert k K) \<or> r = - 1 \<and> arp_inv s' K \<and> spare s' K k"
    and "entries s' = (entries s)(a_ptr k := (entries s (a_ptr k))\<lparr>arp_status := PICO_ARP_STATUS_REACHABLE, a_timestamp := a_now s\<rparr>)"
proof -
  define e where "e = (entries s (a_ptr k))\<lparr>arp_status := PICO_ARP_STATUS_REACHABLE, a_timestamp := a_now s\<rparr>"
  obtain ok u where u: "arp_alloc (set_entry (a_ptr k) e s) = (ok, u)" by (cases "arp_alloc (set_entry (a_ptr k) e s)")
  obtain i t where t: "pico_tree_insert arp_compare (arp_tree u) k ok = Some (i, t)"
    using assms(3) u by (auto simp: pico_arp_add_entry_def e_def [symmetric] bind_eq_Some_conv Let_def)
  have same: "same_table (set_entry (a_ptr k) e s) u" by (rule same_alloc [OF u])
  have K: "k \<notin> K" using assms(2) by (auto simp: spare_def)
  have "arp_inv (set_entry (a_ptr k) e s) K" using assms(1,2) by (simp add: inv_set_fresh spare_def)
  then have inv: "arp_inv u K" by (rule same_inv [OF same])
  have tree: "arp_tree u = arp_tree s" "entries u = (entries s)(a_ptr k := e)" "freed u = freed s" "arp_next u = arp_next s"
    using same by (simp_all add: same_table_def)
  have "(r = 0 \<and> arp_inv s' (insert k K) \<or> r = - 1 \<and> arp_inv s' K \<and> spare s' K k) \<and> entries s' = (entries s)(a_ptr k := e)"
  proof (cases "i = Ins_NULL")
    case False
    then show ?thesis using assms(2,3) u t inv tree by (simp add: pico_arp_add_entry_def e_def [symmetric] spare_def)
  next
    case True
    have "\<exists>ks. tree_inv arp_compare every (arp_tree u) ks \<and> set ks = K" using inv by (simp add: arp_inv_def)
    then have ins: "\<exists>ks. tree_inv arp_compare every t ks \<and> set ks = insert k K" and new: "\<forall>x \<in> K. a_ipv4 x \<noteq> a_ipv4 k"
      using arps.insert_exact [of "arp_tree u" _ k ok] t True by fastforce+
    obtain v b w where v: "pico_arp_queued_trigger (u\<lparr>arp_tree := t\<rparr>) = Some v" "arp_expire_timer PICO_ARP_TIMEOUT k v = (b, w)"
      using assms(3) u t True
      by (cases "pico_arp_queued_trigger (u\<lparr>arp_tree := t\<rparr>)"; cases "arp_expire_timer PICO_ARP_TIMEOUT k (the (pico_arp_queued_trigger (u\<lparr>arp_tree := t\<rparr>)))")
        (auto simp: pico_arp_add_entry_def e_def [symmetric])
    have sv: "same_table (u\<lparr>arp_tree := t\<rparr>) v" by (rule same_trigger) (use v(1) in \<open>simp add: pico_arp_queued_trigger_def\<close>)
    have nk: "k \<notin> set (a_timers s)" using assms(1) K by (auto simp: arp_inv_def)
    have ptr: "a_ptr k \<notin> a_ptr ` K" "a_ptr k \<notin> set (freed s)" "a_ptr k < arp_next s" using assms(2) by (simp_all add: spare_def)
    have su: "a_timers u = a_timers s" using same by (simp add: same_table_def)
    have timers: "set (a_timers u) = {x \<in> K. live u x}" using inv by (simp add: arp_inv_def)
    from v(2) show ?thesis
    proof (cases rule: timer_add_cases)
      case (1 x)
      have r: "r = 0" "s' = w" using assms(3) u t True v 1(2) by (simp_all add: pico_arp_add_entry_def e_def [symmetric])
      have sx: "same_table (u\<lparr>arp_tree := t\<rparr>) x" by (rule same_trans [OF sv 1(1)])
      have "live u k" by (simp add: tree e_def PICO_ARP_STATUS_REACHABLE_def PICO_ARP_STATUS_STALE_def)
      then have "arp_inv w (insert k K)"
        using inv ins sx nk su ptr timers K by (auto simp: arp_inv_def 1(3) same_table_def tree)
      then show ?thesis using r sx by (simp add: same_table_def 1(3) tree)
    next
      case 2
      have sx: "same_table (u\<lparr>arp_tree := t\<rparr>) w" by (rule same_trans [OF sv 2(1)])
      obtain ks where ks: "tree_inv arp_compare every t ks" "set ks = insert k K" using ins by blast
      obtain t' kd ks' where t': "pico_tree_delete arp_compare t (Some k) = Some (kd, t')" "tree_inv arp_compare every t' ks'"
        "set ks' = {x \<in> set ks. arp_compare x k \<noteq> 0}"
        using arps.delete_exact [OF ks(1), of k] by auto
      have "set ks' = K" using t'(3) ks(2) new by auto
      moreover have "arp_tree w = t" using sx by (simp add: same_table_def)
      ultimately have r: "r = - 1" "s' = w\<lparr>arp_tree := t'\<rparr>" "\<exists>ks. tree_inv arp_compare every t' ks \<and> set ks = K"
        using assms(3) u t True v 2(2) t' by (auto simp: pico_arp_add_entry_def e_def [symmetric])
      have "arp_inv s' K" using inv r(3) sx by (simp add: arp_inv_def r(2) same_table_def)
      then show ?thesis using r sx ptr by (simp add: same_table_def spare_def tree)
    qed
  qed
  then show "r = 0 \<and> arp_inv s' (insert k K) \<or> r = - 1 \<and> arp_inv s' K \<and> spare s' K k"
    "entries s' = (entries s)(a_ptr k := (entries s (a_ptr k))\<lparr>arp_status := PICO_ARP_STATUS_REACHABLE, a_timestamp := a_now s\<rparr>)"
    by (simp_all add: e_def)
qed

lemma inv_update:
  assumes "arp_inv s K" "arp_status e = arp_status (entries s p)"
  shows "arp_inv (set_entry p e s) K"
proof -
  have "live (set_entry p e s) x = live s x" for x using assms(2) by auto
  then show ?thesis using assms(1) by (simp add: arp_inv_def)
qed

lemma create_entry_ok:
  assumes "arp_inv s K" "pico_arp_create_entry s mac a dev = Some (r, s')"
  shows "\<exists>K'. arp_inv s' K'"
proof -
  obtain ok u where u: "arp_alloc s = (ok, u)" by (cases "arp_alloc s")
  have inv: "arp_inv u K" by (rule same_inv [OF same_alloc [OF u] assms(1)])
  show ?thesis
  proof (cases ok)
    case False
    then have "s' = u\<lparr>a_err := PICO_ERR_ENOMEM\<rparr>" using assms(2) u by (simp add: pico_arp_create_entry_def)
    then show ?thesis using same_inv [OF same_simps(6) inv] by blast
  next
    case True
    define k e where "k = \<lparr>a_ptr = arp_next u, a_ipv4 = a, a_dev = dev\<rparr>" and "e = \<lparr>a_eth = mac, arp_status = 0, a_timestamp = 0\<rparr>"
    define v where "v = set_entry (arp_next u) e (u\<lparr>arp_next := arp_next u + 1\<rparr>)"
    have fresh: "arp_next u \<notin> a_ptr ` K" "arp_next u \<notin> set (freed u)" using inv by (auto simp: arp_inv_def)
    have iv: "arp_inv v K" unfolding v_def by (rule inv_set_fresh [OF inv_alloc [OF inv] fresh(1)])
    have sp: "spare v K k" using fresh by (simp add: spare_def v_def k_def)
    obtain i w where w: "pico_arp_add_entry v k = Some (i, w)"
      using assms(2) u True by (auto simp: pico_arp_create_entry_def Let_def bind_eq_Some_conv v_def k_def e_def)
    have s': "s' = (if i < 0 then arp_effect (Arp_free (a_ptr k)) w else w)"
      using assms(2) u True w by (simp add: pico_arp_create_entry_def Let_def v_def k_def e_def split: if_splits)
    from add_entry_ok(1) [OF iv sp w] show ?thesis
    proof (elim disjE)
      assume "i = 0 \<and> arp_inv w (insert k K)"
      then show ?thesis using s' by auto
    next
      assume "i = - 1 \<and> arp_inv w K \<and> spare w K k"
      then show ?thesis using s' inv_free [of w K k] by auto
    qed
  qed
qed

lemma inv_stale_out:
  assumes "arp_inv s K" "k \<in> K" "\<not> live s k" "\<exists>ks. tree_inv arp_compare every t ks \<and> set ks = K - {k}"
  shows "arp_inv (s\<lparr>arp_tree := t\<rparr>) (K - {k})" "spare (s\<lparr>arp_tree := t\<rparr>) (K - {k}) k"
proof -
  have "{x \<in> K. live s x} = {x \<in> K - {k}. live s x}" using assms(3) by auto
  then show "arp_inv (s\<lparr>arp_tree := t\<rparr>) (K - {k})" using assms(1,4) by (auto simp: arp_inv_def intro: inj_on_diff)
  show "spare (s\<lparr>arp_tree := t\<rparr>) (K - {k}) k" using assms(1,2) by (auto simp: arp_inv_def spare_def inj_on_def)
qed

lemma lookup_entry_ok:
  assumes "arp_inv s K" "pico_arp_lookup_entry s b n = Some (found, s')"
  shows "\<exists>K'. arp_inv s' K'"
proof -
  obtain src where src: "buf32 b (n + AH_src) = Some src" using assms(2) by (auto simp: pico_arp_lookup_entry_def bind_eq_Some_conv)
  obtain fk where fk: "pico_tree_findKey arp_compare (arp_tree s) (arp_key src) = Some fk"
    "case fk of None \<Rightarrow> \<forall>x \<in> K. a_ipv4 x \<noteq> src | Some k \<Rightarrow> k \<in> K \<and> a_ipv4 k = src"
    using inv_find [OF assms(1)] by blast
  show ?thesis
  proof (cases fk)
    case None
    then have "s' = s" using assms(2) src fk(1) by (simp add: pico_arp_lookup_entry_def)
    then show ?thesis using assms(1) by blast
  next
    case (Some k)
    then have k: "k \<in> K" "a_ipv4 k = src" using fk(2) by auto
    show ?thesis
    proof (cases "live s k")
      case True
      have "pico_arp_lookup_entry s b n = do { mac \<leftarrow> buf_read b (n + AH_s_mac) PICO_SIZE_ETH;
          Some (Some k, set_entry (a_ptr k) ((entries s (a_ptr k))\<lparr>a_eth := mac, a_timestamp := a_now s\<rparr>) s) }"
        using src fk(1) Some True by (simp add: pico_arp_lookup_entry_def)
      then obtain mac where "s' = set_entry (a_ptr k) ((entries s (a_ptr k))\<lparr>a_eth := mac, a_timestamp := a_now s\<rparr>) s"
        using assms(2) by (cases "buf_read b (n + AH_s_mac) PICO_SIZE_ETH") simp_all
      moreover have "arp_inv (set_entry (a_ptr k) ((entries s (a_ptr k))\<lparr>a_eth := mac, a_timestamp := a_now s\<rparr>) s) K"
        by (rule inv_update [OF assms(1)]) simp
      ultimately show ?thesis by blast
    next
      case False
      obtain t where t: "pico_tree_delete arp_compare (arp_tree s) (Some k) = Some (Some k, t)"
        "\<exists>ks. tree_inv arp_compare every t ks \<and> set ks = K - {k}" using inv_delete [OF assms(1) k(1)] by blast
      note out = inv_stale_out [OF assms(1) k(1) False t(2)]
      have "pico_arp_lookup_entry s b n = do { (r, v) \<leftarrow> pico_arp_add_entry (s\<lparr>arp_tree := t\<rparr>) k;
          Some (if r < 0 then (None, arp_effect (Arp_free (a_ptr k)) v) else (Some k, v)) }"
        using src fk(1) Some False t(1) by (simp add: pico_arp_lookup_entry_def)
      then obtain i w where w: "pico_arp_add_entry (s\<lparr>arp_tree := t\<rparr>) k = Some (i, w)"
        "(found, s') = (if i < 0 then (None, arp_effect (Arp_free (a_ptr k)) w) else (Some k, w))"
        using assms(2) by (cases "pico_arp_add_entry (s\<lparr>arp_tree := t\<rparr>) k") auto
      have s': "s' = (if i < 0 then arp_effect (Arp_free (a_ptr k)) w else w)" using w(2) by (cases "i < 0") simp_all
      from add_entry_ok(1) [OF out w(1)] show ?thesis
      proof (elim disjE)
        assume "i = 0 \<and> arp_inv w (insert k (K - {k}))"
        then show ?thesis unfolding s' by auto
      next
        assume "i = - 1 \<and> arp_inv w (K - {k}) \<and> spare w (K - {k}) k"
        then show ?thesis unfolding s' using inv_free [of w "K - {k}" k] by auto
      qed
    qed
  qed
qed

lemma inv_rate: "arp_inv s K \<Longrightarrow> 0 \<le> m \<Longrightarrow> m \<le> PICO_ARP_MAX_RATE \<Longrightarrow> arp_inv (s\<lparr>max_arp_reqs := m\<rparr>) K"
  by (simp add: arp_inv_def)

lemma flooding_ok:
  assumes "arp_inv s K" "pico_arp_check_flooding s f n me = Some (ok, s')"
  shows "arp_inv s' K"
proof -
  obtain d i op where link: "pico_ipv4_link_find (a_links s) (Some me) = Some (d, i)" "buf16 (e_buf f) (n + AH_opcode) = Some op"
    using assms(2) by (auto simp: pico_arp_check_flooding_def bind_eq_Some_conv Let_def)
  have i: "arp_inv (s\<lparr>a_links := i\<rparr>) K" by (rule same_inv [OF same_simps(1) assms(1)])
  have m: "0 \<le> max_arp_reqs s" "max_arp_reqs s \<le> PICO_ARP_MAX_RATE" using assms(1) by (simp_all add: arp_inv_def)
  show ?thesis
  proof (cases "d = e_dev f \<and> op = PICO_ARP_REQUEST \<and> max_arp_reqs s \<noteq> 0")
    case True
    then have "s' = s\<lparr>a_links := i\<rparr>\<lparr>max_arp_reqs := max_arp_reqs s - 1\<rparr>"
      using assms(2) link by (simp add: pico_arp_check_flooding_def Let_def)
    then show ?thesis using inv_rate [OF i, of "max_arp_reqs s - 1"] m True by simp
  next
    case False
    then have "s' = s\<lparr>a_links := i\<rparr>" using assms(2) link by (simp add: pico_arp_check_flooding_def Let_def split: if_splits)
    then show ?thesis using i by simp
  qed
qed

lemma receive_ok:
  assumes "arp_inv s K" "pico_arp_receive s f = Some (r, s')"
  shows "\<exists>K'. arp_inv s' K'"
proof (cases "e_net f")
  case None
  then show ?thesis using assms same_inv [OF same_simps(8)] by (auto simp: pico_arp_receive_def)
next
  case (Some n)
  have dis: "\<exists>K. arp_inv (eth_discard g v) K" if "arp_inv v K" for g v K using same_inv [OF same_simps(8) that] by blast
  obtain s1 s2 found where s1: "pico_arp_check_conflict s (e_buf f) n = Some s1" "pico_arp_lookup_entry s1 (e_buf f) n = Some (found, s2)"
    "pico_arp_process_in s2 f n found = Some (r, s')"
    using assms(2) Some by (auto simp: pico_arp_receive_def bind_eq_Some_conv)
  have i1: "arp_inv s1 K" by (rule same_inv [OF same_conflict [OF s1(1)] assms(1)])
  obtain K2 where K2: "arp_inv s2 K2"
    using lookup_entry_ok [OF i1 s1(2)] by blast
  obtain me where me: "pico_arp_check_incoming_hdr (e_buf f) n = Some me" using s1(3) by (auto simp: pico_arp_process_in_def bind_eq_Some_conv)
  show ?thesis
  proof (cases me)
    case None
    then show ?thesis using s1(3) me dis [OF K2, of f] by (auto simp: pico_arp_process_in_def)
  next
    case (Some a)
    obtain ok s3 where s3: "pico_arp_check_flooding s2 f n a = Some (ok, s3)"
      using s1(3) me Some by (auto simp: pico_arp_process_in_def bind_eq_Some_conv)
    have i3: "arp_inv s3 K2" by (rule flooding_ok [OF K2 s3])
    show ?thesis
    proof (cases ok)
      case False
      then show ?thesis using s1(3) me Some s3 dis [OF i3, of f] by (auto simp: pico_arp_process_in_def)
    next
      case True
      obtain i s4 where s4: "(if found = None then do { mac \<leftarrow> buf_read (e_buf f) (n + AH_s_mac) PICO_SIZE_ETH;
          src \<leftarrow> buf32 (e_buf f) (n + AH_src); pico_arp_create_entry s3 mac src (e_dev f) } else Some (0, s3)) = Some (i, s4)"
        using s1(3) me Some s3 True by (auto simp: pico_arp_process_in_def bind_eq_Some_conv)
      obtain K4 where i4: "arp_inv s4 K4"
      proof (cases "found = None")
        case True
        then obtain mac src where "pico_arp_create_entry s3 mac src (e_dev f) = Some (i, s4)" using s4 by (auto simp: bind_eq_Some_conv)
        from create_entry_ok [OF i3 this] show ?thesis using that by blast
      qed (use s4 i3 that in auto)
      show ?thesis
      proof (cases "i < 0")
        case True
        then show ?thesis using s1(3) me Some s3 \<open>ok\<close> s4 dis [OF i4, of f] by (auto simp: pico_arp_process_in_def)
      next
        case False
        then obtain g s5 where s5: "pico_arp_reply_on_request s4 f n a = Some (g, s5)" "s' = eth_discard g s5"
          using s1(3) me Some s3 \<open>ok\<close> s4 by (auto simp: pico_arp_process_in_def bind_eq_Some_conv)
        show ?thesis unfolding s5(2) by (rule dis [OF same_inv [OF same_reply [OF s5(1)] i4]])
      qed
    qed
  qed
qed

text \<open>The timer of \<open>k\<close> has fired.\<close>

lemma expire_ok:
  assumes "arp_inv s K" "k \<in> set (a_timers s)" "arp_expire (s\<lparr>a_timers := remove1 k (a_timers s)\<rparr>) now k = Some s'"
  shows "\<exists>K'. arp_inv s' K'"
proof -
  define u e where "u = s\<lparr>a_timers := remove1 k (a_timers s)\<rparr>" and "e = entries s (a_ptr k)"
  have K: "k \<in> K" "live s k" "inj_on a_ptr K" using assms(1,2) by (auto simp: arp_inv_def)
  have ts: "distinct (remove1 k (a_timers s))" "set (remove1 k (a_timers s)) = {x \<in> K. live s x} - {k}"
    using assms(1) by (auto simp: arp_inv_def)
  show ?thesis
  proof (cases "now \<ge> a_timestamp e + PICO_ARP_TIMEOUT")
    case True
    define v where "v = set_entry (a_ptr k) (e\<lparr>arp_status := PICO_ARP_STATUS_STALE\<rparr>) u"
    have "{x \<in> K. live v x} = {x \<in> K. live s x} - {k}"
      using K by (auto simp: v_def u_def inj_on_def)
    then have "arp_inv v K" using assms(1) ts by (simp add: arp_inv_def v_def u_def)
    moreover obtain r where "pico_arp_request v (a_dev k) (a_ipv4 k) PICO_ARP_QUERY = Some (r, s')"
      using assms(3) True by (auto simp: arp_expire_def u_def [symmetric] e_def Let_def v_def) (auto simp: u_def)
    ultimately show ?thesis using same_inv [OF same_request] by blast
  next
    case False
    obtain b w where w: "arp_expire_timer (PICO_ARP_TIMEOUT + a_timestamp e - now) k u = (b, w)"
      by (cases "arp_expire_timer (PICO_ARP_TIMEOUT + a_timestamp e - now) k u")
    have eu: "entries u (a_ptr k) = e" by (simp add: u_def e_def)
    have run: "(if b then Some w else do { (_, t) \<leftarrow> pico_tree_delete arp_compare (arp_tree w) (Some k);
          Some (arp_effect (Arp_free (a_ptr k)) (w\<lparr>arp_tree := t\<rparr>)) }) = Some s'"
      using assms(3) False w by (simp add: arp_expire_def u_def [symmetric] eu)
    from w show ?thesis
    proof (cases rule: timer_add_cases)
      case (1 x)
      have "{x \<in> K. live x' x} = insert k ({x \<in> K. live s x} - {k})" if "entries x' = entries s" for x' using K that by auto
      then have "arp_inv w K" using assms(1) ts 1 by (auto simp: arp_inv_def same_table_def u_def)
      then show ?thesis using run 1(2) by auto
    next
      case 2
      have sw: "arp_tree w = arp_tree s" using 2 by (simp add: same_table_def u_def)
      obtain t where t: "pico_tree_delete arp_compare (arp_tree s) (Some k) = Some (Some k, t)"
        "\<exists>ks. tree_inv arp_compare every t ks \<and> set ks = K - {k}" using inv_delete [OF assms(1) K(1)] by blast
      have "s' = arp_effect (Arp_free (a_ptr k)) (w\<lparr>arp_tree := t\<rparr>)" using run 2 t(1) sw by simp
      moreover have "arp_inv (w\<lparr>arp_tree := t\<rparr>) (K - {k})" "spare (w\<lparr>arp_tree := t\<rparr>) (K - {k}) k"
        using assms(1) ts 2 t(2) K by (auto simp: arp_inv_def same_table_def u_def spare_def inj_on_def)
      ultimately show ?thesis using inv_free by blast
    qed
  qed
qed

section \<open>Reachable states\<close>

text \<open>The module after \<open>pico_arp_init\<close>: no entry, no frame that waits.\<close>

definition arp_start :: "arp_state \<Rightarrow> bool" where
  "arp_start s \<longleftrightarrow> arp_tree s = empty_tree \<and> a_timers s = [] \<and> a_effects s = [] \<and> max_arp_reqs s = PICO_ARP_MAX_RATE
     \<and> frames_queued s = replicate PICO_ARP_MAX_PENDING None"

text \<open>The calls of the module, its timers, and what others change: the clock, the links, the devices and the
  answers of the environment.\<close>

inductive arp_step :: "arp_state \<Rightarrow> arp_state \<Rightarrow> bool" where
  receive: "pico_arp_receive s f = Some (r, s') \<Longrightarrow> arp_step s s'"
| expire: "k \<in> set (a_timers s) \<Longrightarrow> arp_expire (s\<lparr>a_timers := remove1 k (a_timers s)\<rparr>) (a_now s) k = Some s' \<Longrightarrow> arp_step s s'"
| create: "pico_arp_create_entry s mac a dev = Some (r, s') \<Longrightarrow> arp_step s s'"
| resolve: "pico_arp_get s f = Some (m, g, s') \<Longrightarrow> arp_step s s'"
| postpone: "arp_step s (pico_arp_postpone s f)"
| request: "pico_arp_request s dev dst ty = Some (r, s') \<Longrightarrow> arp_step s s'"
| rate: "arp_step s (update_max_arp_reqs s)"
| conflict: "arp_step s (pico_arp_register_ipconflict s a m cb)"
| others: "arp_step s (s\<lparr>a_now := t, a_links := i, a_macs := ms, a_devices := ds, a_mem := bs, a_tmr := ts, a_enq := qs, a_send := rs\<rparr>)"

definition arp_reach :: "arp_state \<Rightarrow> bool" where
  "arp_reach s \<longleftrightarrow> (\<exists>s0. arp_start s0 \<and> arp_step\<^sup>*\<^sup>* s0 s)"

lemma start_ok: "arp_start s \<Longrightarrow> arp_inv s {}"
  by (auto simp: arp_start_def arp_inv_def tree_inv_empty freed_def List.map_filter_def PICO_ARP_MAX_RATE_def intro!: exI [of _ "[]"])

lemma rate_ok:
  assumes "arp_inv s K"
  shows "arp_inv (update_max_arp_reqs s) K"
proof -
  have t: "same_table u (snd (arp_timer_add (Rate_timer t) u))" for u t using same_timer [OF surjective_pairing] by simp
  have m: "0 \<le> max_arp_reqs s" using assms by (simp add: arp_inv_def)
  have "arp_inv (if max_arp_reqs s < PICO_ARP_MAX_RATE then s\<lparr>max_arp_reqs := max_arp_reqs s + 1\<rparr> else s) K"
    using inv_rate [OF assms, of "max_arp_reqs s + 1"] m assms by simp
  from same_inv [OF t this] show ?thesis by (simp add: update_max_arp_reqs_def Let_def)
qed

lemma step_ok: "arp_step s s' \<Longrightarrow> arp_inv s K \<Longrightarrow> \<exists>K'. arp_inv s' K'"
proof (induction rule: arp_step.induct)
  case (conflict s a m cb)
  have "same_table s (pico_arp_register_ipconflict s a m cb)" by (simp add: same_table_def pico_arp_register_ipconflict_def freed_def)
  then show ?case using same_inv conflict by blast
next
  case (others s t i ms ds bs ts qs rs)
  then show ?case by (auto simp: arp_inv_def freed_def)
qed (blast intro: receive_ok expire_ok create_entry_ok same_inv [OF same_get] same_inv [OF same_postpone] same_inv [OF same_request] rate_ok)+

lemma reach_ok:
  assumes "arp_reach s"
  shows "\<exists>K. arp_inv s K"
proof -
  obtain s0 where s0: "arp_start s0" "arp_step\<^sup>*\<^sup>* s0 s" using assms by (auto simp: arp_reach_def)
  from s0(2) show ?thesis by (induction) (use start_ok [OF s0(1)] step_ok in blast)+
qed

lemma inv_foreach:
  assumes "arp_inv s K"
  shows "\<exists>ks. pico_tree_foreach (arp_tree s) = Some ks \<and> set ks = K \<and> distinct ks \<and> tree_inv arp_compare every (arp_tree s) ks"
proof -
  obtain ks where "tree_inv arp_compare every (arp_tree s) ks" "set ks = K" using assms by (auto simp: arp_inv_def)
  then show ?thesis using tree_inv_foreach arps.inv_distinct by blast
qed

end
