(* ===== verification/Arp_Exchange.thy ===== *)
theory Arp_Exchange
  imports Arp_Props
begin

text \<open>
  A packet for us teaches us its sender, and lets the frames go that wait; a request and its reply, after which
  both neighbours know each other; and what a packet that is not for us, or the sender of an expired entry, does.
\<close>

section \<open>Packets\<close>

text \<open>An ARP packet in an Ethernet frame.\<close>

definition arp_bytes :: "u8 list \<Rightarrow> u8 list \<Rightarrow> u16 \<Rightarrow> u8 list \<Rightarrow> u32 \<Rightarrow> u8 list \<Rightarrow> u32 \<Rightarrow> u8 list" where
  "arp_bytes daddr saddr op smac src dmac dst = daddr @ saddr @ bytes16 PICO_IDETH_ARP @ bytes16 PICO_ARP_HTYPE_ETH
     @ bytes16 PICO_IDETH_IPV4 @ [of_nat PICO_SIZE_ETH, 4] @ bytes16 op @ smac @ bytes32 src @ dmac @ bytes32 dst"

text \<open>A frame that a driver has received, with the bytes \<open>pad\<close> after the packet.\<close>

definition eth_rx :: "nat \<Rightarrow> u8 list \<Rightarrow> u8 list \<Rightarrow> eth_frame" where
  "eth_rx dev bs pad = \<lparr>e_dev = dev, e_buf = bs @ pad, e_dl = Some 0, e_net = Some 14, e_start = 0,
     e_len = of_nat (length bs + length pad), e_flags = 0, e_fail = 0\<rparr>"

abbreviation mac_ok :: "u8 list \<Rightarrow> bool" where "mac_ok m \<equiv> length m = 6"

lemma bytes_back:
  "get16 (bytes16 v @ bs) 0 = v" "get32 (bytes32 w @ bs) 0 = w"
  by (simp_all add: get16_def get32_def bytes16_def bytes32_def u16_bytes u32_bytes)

lemma buf_drop:
  "buf16 (as @ bs) (length as + i) = buf16 bs i" "buf32 (as @ bs) (length as + i) = buf32 bs i"
  "buf_read (as @ bs) (length as + i) n = buf_read bs i n"
  "buf_write (as @ bs) (length as + i) cs = map_option ((@) as) (buf_write bs i cs)"
  by (auto simp: buf16_def buf32_def buf_read_def buf_write_def get16_def get32_def nth_append add.assoc)

lemma buf_here:
  "buf16 (bytes16 v @ bs) 0 = Some v" "buf32 (bytes32 w @ bs) 0 = Some w"
  "length ms = n \<Longrightarrow> buf_read (ms @ bs) 0 n = Some ms"
  "length ms = length cs \<Longrightarrow> buf_write (ms @ bs) 0 cs = Some (cs @ bs)"
  by (simp_all add: buf16_def buf32_def bytes_back buf_read_def buf_write_def) (simp_all add: bytes16_def bytes32_def)

lemma length_bytes [simp]: "length (bytes16 v) = 2" "length (bytes32 w) = 4" "length (bs :: u8 list) = 6 \<Longrightarrow> length (bs @ cs) = 6 + length cs"
  by (simp_all add: bytes16_def bytes32_def)

text \<open>Reading and writing behind a prefix of known length.\<close>

lemma buf_at:
  "length as = i \<Longrightarrow> buf16 (as @ bytes16 v @ bs) i = Some v"
  "length as = i \<Longrightarrow> buf32 (as @ bytes32 w @ bs) i = Some w"
  "length as = i \<Longrightarrow> length ms = n \<Longrightarrow> buf_read (as @ ms @ bs) i n = Some ms"
  "length as = i \<Longrightarrow> length ms = length cs \<Longrightarrow> buf_write (as @ ms @ bs) i cs = Some (as @ cs @ bs)"
  using buf_drop [of as _ 0] buf_drop(3,4) [of as _ 0] by (auto simp: buf_here)

lemmas arp_offsets = AH_htype_def AH_ptype_def AH_hsize_def AH_psize_def AH_opcode_def AH_s_mac_def AH_src_def AH_d_mac_def AH_dst_def

lemma arp_fields:
  fixes op :: u16 and src dst :: u32 and pad :: "u8 list"
  assumes "mac_ok da" "mac_ok sa" "mac_ok sm" "mac_ok dm"
  defines "b \<equiv> arp_bytes da sa op sm src dm dst @ pad"
  shows "buf16 b (14 + AH_htype) = Some PICO_ARP_HTYPE_ETH" "buf16 b (14 + AH_ptype) = Some PICO_IDETH_IPV4"
    "buf16 b (14 + AH_opcode) = Some op" "buf_read b (14 + AH_s_mac) 6 = Some sm" "buf32 b (14 + AH_src) = Some src"
    "buf32 b (14 + AH_dst) = Some dst"
proof -
  note l = assms(1-4)
  show "buf16 b (14 + AH_htype) = Some PICO_ARP_HTYPE_ETH"
    using buf_at(1) [of "da @ sa @ bytes16 PICO_IDETH_ARP" 14] l by (simp add: b_def arp_bytes_def arp_offsets)
  show "buf16 b (14 + AH_ptype) = Some PICO_IDETH_IPV4"
    using buf_at(1) [of "da @ sa @ bytes16 PICO_IDETH_ARP @ bytes16 PICO_ARP_HTYPE_ETH" 16] l by (simp add: b_def arp_bytes_def arp_offsets)
  show "buf16 b (14 + AH_opcode) = Some op"
    using buf_at(1) [of "da @ sa @ bytes16 PICO_IDETH_ARP @ bytes16 PICO_ARP_HTYPE_ETH @ bytes16 PICO_IDETH_IPV4 @ [of_nat PICO_SIZE_ETH, 4]" 20] l
    by (simp add: b_def arp_bytes_def arp_offsets)
  show "buf_read b (14 + AH_s_mac) 6 = Some sm"
    using buf_at(3) [of "da @ sa @ bytes16 PICO_IDETH_ARP @ bytes16 PICO_ARP_HTYPE_ETH @ bytes16 PICO_IDETH_IPV4 @ [of_nat PICO_SIZE_ETH, 4] @ bytes16 op" 22 sm 6] l
    by (simp add: b_def arp_bytes_def arp_offsets)
  show "buf32 b (14 + AH_src) = Some src"
    using buf_at(2) [of "da @ sa @ bytes16 PICO_IDETH_ARP @ bytes16 PICO_ARP_HTYPE_ETH @ bytes16 PICO_IDETH_IPV4 @ [of_nat PICO_SIZE_ETH, 4] @ bytes16 op @ sm" 28] l
    by (simp add: b_def arp_bytes_def arp_offsets)
  show "buf32 b (14 + AH_dst) = Some dst"
    using buf_at(2) [of "da @ sa @ bytes16 PICO_IDETH_ARP @ bytes16 PICO_ARP_HTYPE_ETH @ bytes16 PICO_IDETH_IPV4 @ [of_nat PICO_SIZE_ETH, 4] @ bytes16 op @ sm @ bytes32 src @ dm" 38] l
    by (simp add: b_def arp_bytes_def arp_offsets)
qed

lemma arp_reply_bytes:
  fixes src dst me :: u32 and pad :: "u8 list"
  assumes "mac_ok da" "mac_ok sa" "mac_ok sm" "mac_ok dm" "mac_ok own" "a_macs s dev = Some own"
  defines "f \<equiv> eth_rx dev (arp_bytes da sa PICO_ARP_REQUEST sm src dm dst) pad"
  shows "\<exists>g. pico_arp_reply_on_request s f 14 me = Some (g, snd (dev_send dev (arp_bytes sa own PICO_ARP_REPLY own me sm src) s))"
proof -
  define eb where "eb = da @ sa @ bytes16 PICO_IDETH_ARP"
  define hd where "hd = bytes16 PICO_ARP_HTYPE_ETH @ bytes16 PICO_IDETH_IPV4 @ [of_nat PICO_SIZE_ETH, 4 :: u8]"
  have l: "length eb = 14" "length hd = 6" using assms(1,2) by (simp_all add: eb_def hd_def)
  have b0: "e_buf f = (eb @ hd) @ bytes16 PICO_ARP_REQUEST @ sm @ bytes32 src @ dm @ bytes32 dst @ pad"
    by (simp add: f_def eth_rx_def arp_bytes_def eb_def hd_def)
  have w1: "buf_write (e_buf f) (14 + AH_opcode) (bytes16 PICO_ARP_REPLY)
      = Some ((eb @ hd @ bytes16 PICO_ARP_REPLY) @ sm @ bytes32 src @ dm @ bytes32 dst @ pad)"
    unfolding b0 using buf_at(4) [of "eb @ hd" 20 "bytes16 PICO_ARP_REQUEST" "bytes16 PICO_ARP_REPLY"] l by (simp add: arp_offsets)
  have r1: "buf_read ((eb @ hd @ bytes16 PICO_ARP_REPLY) @ sm @ bytes32 src @ dm @ bytes32 dst @ pad) (14 + AH_s_mac) PICO_SIZE_ETH = Some sm"
    using l assms(3) by (intro buf_at) (simp_all add: arp_offsets PICO_SIZE_ETH_def)
  have w2: "buf_write ((eb @ hd @ bytes16 PICO_ARP_REPLY) @ sm @ bytes32 src @ dm @ bytes32 dst @ pad) (14 + AH_d_mac) sm
      = Some ((eb @ hd @ bytes16 PICO_ARP_REPLY) @ sm @ bytes32 src @ sm @ bytes32 dst @ pad)"
    using buf_at(4) [of "eb @ hd @ bytes16 PICO_ARP_REPLY @ sm @ bytes32 src" 32 dm sm] l assms(3,4) by (simp add: arp_offsets)
  have w3: "buf_write ((eb @ hd @ bytes16 PICO_ARP_REPLY) @ sm @ bytes32 src @ sm @ bytes32 dst @ pad) (14 + AH_s_mac) own
      = Some ((eb @ hd @ bytes16 PICO_ARP_REPLY @ own) @ bytes32 src @ sm @ bytes32 dst @ pad)"
    using buf_at(4) [of "eb @ hd @ bytes16 PICO_ARP_REPLY" 22 sm own] l assms(3,5) by (simp add: arp_offsets)
  have r2: "buf32 ((eb @ hd @ bytes16 PICO_ARP_REPLY @ own) @ bytes32 src @ sm @ bytes32 dst @ pad) (14 + AH_src) = Some src"
    using l assms(5) by (intro buf_at) (simp add: arp_offsets)
  have w4: "buf_write ((eb @ hd @ bytes16 PICO_ARP_REPLY @ own) @ bytes32 src @ sm @ bytes32 dst @ pad) (14 + AH_dst) (bytes32 src)
      = Some ((eb @ hd @ bytes16 PICO_ARP_REPLY @ own) @ bytes32 src @ sm @ bytes32 src @ pad)"
    using buf_at(4) [of "eb @ hd @ bytes16 PICO_ARP_REPLY @ own @ bytes32 src @ sm" 38 "bytes32 dst" "bytes32 src"] l assms(3,5) by (simp add: arp_offsets)
  have w5: "buf_write ((eb @ hd @ bytes16 PICO_ARP_REPLY @ own) @ bytes32 src @ sm @ bytes32 src @ pad) (14 + AH_src) (bytes32 me)
      = Some (da @ sa @ bytes16 PICO_IDETH_ARP @ hd @ bytes16 PICO_ARP_REPLY @ own @ bytes32 me @ sm @ bytes32 src @ pad)"
    using buf_at(4) [of "eb @ hd @ bytes16 PICO_ARP_REPLY @ own" 28 "bytes32 src" "bytes32 me"] l assms(5) by (simp add: arp_offsets eb_def)
  let ?t = "bytes16 PICO_IDETH_ARP @ hd @ bytes16 PICO_ARP_REPLY @ own @ bytes32 me @ sm @ bytes32 src @ pad"
  have r3: "buf_read (da @ sa @ ?t) 6 PICO_SIZE_ETH = Some sa" using assms(1,2) by (intro buf_at) (simp_all add: PICO_SIZE_ETH_def)
  have w6: "buf_write (da @ sa @ ?t) 0 sa = Some (sa @ sa @ ?t)" using assms(1,2) by (intro buf_here) simp
  have w7: "buf_write (sa @ sa @ ?t) 6 own = Some (sa @ own @ ?t)" using assms(2,5) by (intro buf_at) simp_all
  have fin: "sa @ own @ ?t = arp_bytes sa own PICO_ARP_REPLY own me sm src @ pad" by (simp add: arp_bytes_def hd_def)
  have r4: "buf_read (arp_bytes sa own PICO_ARP_REPLY own me sm src @ pad) 0 (PICO_SIZE_ETHHDR + PICO_SIZE_ARPHDR)
      = Some (arp_bytes sa own PICO_ARP_REPLY own me sm src)"
    using assms(2,3,5) by (intro buf_here) (simp add: arp_bytes_def PICO_SIZE_ETHHDR_def PICO_SIZE_ARPHDR_def)
  have op: "buf16 (e_buf f) (14 + AH_opcode) = Some PICO_ARP_REQUEST"
    unfolding b0 using l by (intro buf_at) (simp add: arp_offsets)
  have fd: "e_dev f = dev" "e_dl f = Some 0" by (simp_all add: f_def eth_rx_def)
  show ?thesis
    by (simp add: pico_arp_reply_on_request_def op fd assms(6) w1 r1 w2 w3 r2 w4 w5 r3 w6 w7 fin r4 Let_def
        del: append_assoc append.simps) 
qed

section \<open>Looking up\<close>

lemma lookup_member:
  assumes "arp_inv s K" "k \<in> K"
  shows "pico_arp_lookup s (a_ipv4 k) = Some (if live s k then Some (a_eth (entries s (a_ptr k))) else None)"
proof -
  obtain r where r: "pico_tree_findKey arp_compare (arp_tree s) (arp_key (a_ipv4 k)) = Some r"
    "case r of None \<Rightarrow> \<forall>x \<in> K. a_ipv4 x \<noteq> a_ipv4 k | Some x \<Rightarrow> x \<in> K \<and> a_ipv4 x = a_ipv4 k"
    using inv_find [OF assms(1)] by blast
  then have "r = Some k" using assms(2) inv_member [OF assms(1)] by (cases r) auto
  then show ?thesis using r(1) by (simp add: pico_arp_lookup_def)
qed

lemma lookup_absent:
  assumes "arp_inv s K" "\<forall>x \<in> K. a_ipv4 x \<noteq> a"
  shows "pico_arp_lookup s a = Some None"
proof -
  obtain r where r: "pico_tree_findKey arp_compare (arp_tree s) (arp_key a) = Some r"
    "case r of None \<Rightarrow> \<forall>x \<in> K. a_ipv4 x \<noteq> a | Some x \<Rightarrow> x \<in> K \<and> a_ipv4 x = a"
    using inv_find [OF assms(1)] by blast
  then have "r = None" using assms(2) by (cases r) auto
  then show ?thesis using r(1) by (simp add: pico_arp_lookup_def)
qed

text \<open>The addresses known elsewhere are those known before.\<close>

lemma lookup_other:
  assumes "arp_inv s K" "arp_inv s' (insert k K)" "\<forall>x \<in> K. a_ptr x \<noteq> a_ptr k \<longrightarrow> entries s' (a_ptr x) = entries s (a_ptr x)"
    and "a \<noteq> a_ipv4 k"
  shows "pico_arp_lookup s' a = pico_arp_lookup s a"
proof (cases "\<exists>x \<in> K. a_ipv4 x = a")
  case True
  then obtain x where x: "x \<in> K" "a_ipv4 x = a" by blast
  have "inj_on a_ptr (insert k K)" using assms(2) by (simp add: arp_inv_def)
  then have "a_ptr x \<noteq> a_ptr k" using x assms(4) by (auto simp: inj_on_def)
  then have e: "entries s' (a_ptr x) = entries s (a_ptr x)" using assms(3) x(1) by simp
  have "x \<in> insert k K" using x(1) by simp
  from lookup_member [OF assms(2) this] lookup_member [OF assms(1) x(1)] show ?thesis using x(2) e by simp
next
  case False
  then have "\<forall>x \<in> insert k K. a_ipv4 x \<noteq> a" using assms(4) by auto
  then show ?thesis using lookup_absent [OF assms(2)] lookup_absent [OF assms(1)] by simp
qed

section \<open>Learning an address\<close>

definition waiting :: "eth_frame option list \<Rightarrow> eth_frame list" where
  "waiting q = List.map_filter id q"

lemma waiting_simps [simp]: "waiting [] = []" "waiting (None # q) = waiting q" "waiting (Some f # q) = f # waiting q"
  by (simp_all add: waiting_def List.map_filter_simps)

text \<open>Memory, timers and queues answer, and the frames that wait belong to Ethernet devices.\<close>

definition arp_ready :: "arp_state \<Rightarrow> bool" where
  "arp_ready s \<longleftrightarrow> a_mem s = [] \<and> a_tmr s = [] \<and> a_enq s = []
     \<and> (\<forall>w \<in> set (waiting (frames_queued s)). e_dev w \<noteq> 0 \<and> a_macs s (e_dev w) \<noteq> None)"

lemma datalink_send_runs:
  "a_enq s = [] \<Longrightarrow> e_dev f \<noteq> 0 \<Longrightarrow> a_macs s (e_dev f) \<noteq> None \<Longrightarrow> pico_datalink_send s f = Some (1, arp_effect (Enq_ethernet_out f) s)"
  by (simp add: pico_datalink_send_def arp_enqueue_def)

lemma trigger_runs:
  assumes "frames_queued s = replicate i None @ q" "a_enq s = []" "\<forall>w \<in> set (waiting q). e_dev w \<noteq> 0 \<and> a_macs s (e_dev w) \<noteq> None"
  shows "trigger_loop [i..<i + length q] s
    = Some (s\<lparr>frames_queued := replicate (i + length q) None, a_effects := a_effects s @ map Enq_ethernet_out (waiting q)\<rparr>)"
  using assms
proof (induction q arbitrary: i s)
  case Nil
  then show ?case by simp
next
  case (Cons w q)
  have up: "[i..<i + length (w # q)] = i # [Suc i..<Suc i + length q]" by (simp add: upt_rec)
  have nth: "frames_queued s ! i = w" using Cons.prems(1) by (simp add: nth_append)
  show ?case
  proof (cases w)
    case None
    have "frames_queued s = replicate (Suc i) None @ q" using Cons.prems(1) None by (simp add: replicate_append_same)
    from Cons.IH [OF this Cons.prems(2)] show ?thesis using Cons.prems(3) None nth unfolding up by simp
  next
    case (Some f)
    define u where "u = arp_effect (Enq_ethernet_out f) s"
    define v where "v = u\<lparr>frames_queued := (frames_queued u)[i := None]\<rparr>"
    have s: "pico_datalink_send s f = Some (1, u)"
      unfolding u_def by (rule datalink_send_runs) (use Cons.prems Some in auto)
    have q: "frames_queued v = replicate (Suc i) None @ q"
      using Cons.prems(1) by (simp add: v_def u_def list_update_append replicate_append_same)
    have e: "a_enq v = []" "\<forall>w \<in> set (waiting q). e_dev w \<noteq> 0 \<and> a_macs v (e_dev w) \<noteq> None"
      using Cons.prems Some by (simp_all add: v_def u_def arp_effect_def)
    show ?thesis unfolding up using nth Some s Cons.IH [OF q e] by (simp add: v_def u_def arp_effect_def)
  qed
qed

lemma add_entry_runs:
  assumes "arp_inv v K" "spare v K k" "arp_ready v" "\<forall>x \<in> K. a_ipv4 x \<noteq> a_ipv4 k"
  shows "\<exists>z. pico_arp_add_entry v k = Some (0, z) \<and> arp_inv z (insert k K)
    \<and> entries z = (entries v)(a_ptr k := (entries v (a_ptr k))\<lparr>arp_status := PICO_ARP_STATUS_REACHABLE, a_timestamp := a_now v\<rparr>)
    \<and> frames_queued z = replicate PICO_ARP_MAX_PENDING None \<and> a_macs z = a_macs v \<and> a_links z = a_links v \<and> max_arp_reqs z = max_arp_reqs v
    \<and> a_effects z = a_effects v @ map Enq_ethernet_out (waiting (frames_queued v)) @ [Arp_timer PICO_ARP_TIMEOUT (a_ptr k)]"
proof -
  define e where "e = (entries v (a_ptr k))\<lparr>arp_status := PICO_ARP_STATUS_REACHABLE, a_timestamp := a_now v\<rparr>"
  obtain ks where ks: "tree_inv arp_compare every (arp_tree v) ks" "set ks = K" using assms(1) by (auto simp: arp_inv_def)
  have "keys_find arp_compare k ks = None" using arps.find_None [of k ks] assms(4) ks(2) by simp
  then obtain t where t: "pico_tree_insert arp_compare (arp_tree v) k True = Some (Ins_NULL, t)"
    using arps.insert_inv [OF ks(1), where key = k and mem_ok = True] by auto
  define w where "w = v\<lparr>entries := (entries v)(a_ptr k := e), arp_tree := t\<rparr>"
  have q: "frames_queued w = replicate 0 None @ frames_queued v" "a_enq w = []" "length (frames_queued v) = PICO_ARP_MAX_PENDING"
    "\<forall>x \<in> set (waiting (frames_queued v)). e_dev x \<noteq> 0 \<and> a_macs w (e_dev x) \<noteq> None"
    using assms(1,3) by (simp_all add: w_def arp_ready_def arp_inv_def)
  define z where "z = w\<lparr>frames_queued := replicate PICO_ARP_MAX_PENDING None,
      a_effects := a_effects v @ map Enq_ethernet_out (waiting (frames_queued v)) @ [Arp_timer PICO_ARP_TIMEOUT (a_ptr k)],
      a_timers := a_timers v @ [k]\<rparr>"
  have tr: "pico_arp_queued_trigger w = Some (w\<lparr>frames_queued := replicate PICO_ARP_MAX_PENDING None,
      a_effects := a_effects w @ map Enq_ethernet_out (waiting (frames_queued v))\<rparr>)"
    using trigger_runs [OF q(1,2,4)] q(3) by (simp add: pico_arp_queued_trigger_def)
  have wa: "a_tmr w = []" "a_effects w = a_effects v" "a_timers w = a_timers v" using assms(3) by (simp_all add: w_def arp_ready_def)
  have "pico_arp_add_entry v k = do { s \<leftarrow> pico_arp_queued_trigger w; let (ok, s) = arp_expire_timer PICO_ARP_TIMEOUT k s;
      (if \<not> ok then do { (_, t) \<leftarrow> pico_tree_delete arp_compare (arp_tree s) (Some k); Some (- 1, s\<lparr>arp_tree := t\<rparr>) } else Some (0, s)) }"
    using t assms(3) by (simp add: pico_arp_add_entry_def w_def e_def set_entry_def arp_alloc_def arp_ready_def)
  also have "\<dots> = Some (0, z)"
    using wa by (simp add: tr arp_expire_timer_def arp_timer_add_def z_def arp_effect_def)
  finally have add: "pico_arp_add_entry v k = Some (0, z)" .
  have "arp_inv z (insert k K)" using add_entry_ok(1) [OF assms(1,2) add] by simp
  then show ?thesis using add by (simp add: z_def w_def e_def)
qed

lemma create_entry_runs:
  fixes dev :: nat
  assumes "arp_inv s K" "arp_ready s" "\<forall>x \<in> K. a_ipv4 x \<noteq> a"
  defines "k \<equiv> \<lparr>a_ptr = arp_next s, a_ipv4 = a, a_dev = dev\<rparr>"
  shows "\<exists>s'. pico_arp_create_entry s mac a dev = Some (0, s') \<and> arp_inv s' (insert k K)
    \<and> entries s' = (entries s)(arp_next s := \<lparr>a_eth = mac, arp_status = PICO_ARP_STATUS_REACHABLE, a_timestamp = a_now s\<rparr>)
    \<and> frames_queued s' = replicate PICO_ARP_MAX_PENDING None \<and> a_macs s' = a_macs s
    \<and> a_effects s' = a_effects s @ map Enq_ethernet_out (waiting (frames_queued s)) @ [Arp_timer PICO_ARP_TIMEOUT (arp_next s)]"
proof -
  define v where "v = set_entry (arp_next s) \<lparr>a_eth = mac, arp_status = 0, a_timestamp = 0\<rparr> (s\<lparr>arp_next := arp_next s + 1\<rparr>)"
  have fresh: "arp_next s \<notin> a_ptr ` K" "arp_next s \<notin> set (freed s)" using assms(1) by (auto simp: arp_inv_def)
  have iv: "arp_inv v K" unfolding v_def by (rule inv_set_fresh [OF inv_alloc [OF assms(1)] fresh(1)])
  have sp: "spare v K k" using fresh by (simp add: spare_def v_def k_def)
  have rd: "arp_ready v" using assms(2) by (simp add: arp_ready_def v_def set_entry_def)
  have "\<forall>x \<in> K. a_ipv4 x \<noteq> a_ipv4 k" using assms(3) by (simp add: k_def)
  from add_entry_runs [OF iv sp rd this] obtain z where z: "pico_arp_add_entry v k = Some (0, z)" "arp_inv z (insert k K)"
    "entries z = (entries v)(a_ptr k := (entries v (a_ptr k))\<lparr>arp_status := PICO_ARP_STATUS_REACHABLE, a_timestamp := a_now v\<rparr>)"
    "frames_queued z = replicate PICO_ARP_MAX_PENDING None" "a_macs z = a_macs v"
    "a_effects z = a_effects v @ map Enq_ethernet_out (waiting (frames_queued v)) @ [Arp_timer PICO_ARP_TIMEOUT (a_ptr k)]" by blast
  have "pico_arp_create_entry s mac a dev = Some (0, z)"
    using z(1) assms(2) by (simp add: pico_arp_create_entry_def arp_alloc_def arp_ready_def v_def k_def)
  then show ?thesis using z by (simp add: v_def k_def set_entry_def)
qed

text \<open>What was sent to the devices, and what was queued for the Ethernet layer.\<close>

definition sent :: "arp_effect list \<Rightarrow> (nat \<times> u8 list) list" where
  "sent es = List.map_filter (\<lambda>e. case e of Dev_send d bs \<Rightarrow> Some (d, bs) | _ \<Rightarrow> None) es"

definition ethernet_out :: "arp_effect list \<Rightarrow> eth_frame list" where
  "ethernet_out es = List.map_filter (\<lambda>e. case e of Enq_ethernet_out f \<Rightarrow> Some f | _ \<Rightarrow> None) es"

lemma sent_simps [simp]:
  "sent [] = []" "sent (es @ ds) = sent es @ sent ds" "sent (Dev_send d bs # es) = (d, bs) # sent es"
  "sent (Eth_discard f # es) = sent es" "sent (Arp_timer t p # es) = sent es" "sent (map Enq_ethernet_out fs) = []"
  by (simp_all add: sent_def List.map_filter_def)

lemma ethernet_out_simps [simp]:
  "ethernet_out [] = []" "ethernet_out (es @ ds) = ethernet_out es @ ethernet_out ds" "ethernet_out (Dev_send d bs # es) = ethernet_out es"
  "ethernet_out (Eth_discard f # es) = ethernet_out es" "ethernet_out (Arp_timer t p # es) = ethernet_out es"
  "ethernet_out (map Enq_ethernet_out fs) = fs"
  by (simp_all add: ethernet_out_def List.map_filter_def) (induction fs; simp)

lemma only_conflicts: "set cs \<subseteq> range Ip_conflict \<Longrightarrow> sent cs = [] \<and> ethernet_out cs = [] \<and> freed (s\<lparr>a_effects := es @ cs\<rparr>) = freed (s\<lparr>a_effects := es\<rparr>)"
  by (induction cs) (auto simp: sent_def ethernet_out_def freed_def List.map_filter_def)

lemma conflict_runs:
  assumes "buf32 b (n + AH_src) = Some x" "buf_read b (n + AH_s_mac) PICO_SIZE_ETH = Some y" "buf32 b (n + AH_dst) = Some z"
  shows "\<exists>cs. pico_arp_check_conflict s b n = Some (s\<lparr>a_effects := a_effects s @ cs\<rparr>) \<and> set cs \<subseteq> range Ip_conflict"
proof (cases "conflict_set s")
  case True
  let ?e = "\<lambda>b r. if b then [Ip_conflict r] else []"
  let ?cs = "?e (conflict_ip s = x \<and> y \<noteq> conflict_mac s) PICO_ARP_CONFLICT_REASON_CONFLICT @ ?e (x = 0 \<and> z = conflict_ip s) PICO_ARP_CONFLICT_REASON_PROBE"
  have "pico_arp_check_conflict s b n = Some (s\<lparr>a_effects := a_effects s @ ?cs\<rparr>)"
    using True assms by (simp add: pico_arp_check_conflict_def arp_effect_def Let_def)
  moreover have "set ?cs \<subseteq> range Ip_conflict" by auto
  ultimately show ?thesis by blast
next
  case False
  then show ?thesis by (auto simp: pico_arp_check_conflict_def intro!: exI [of _ "[]"])
qed

lemma flooding_runs:
  assumes "pico_ipv4_link_find (a_links s) (Some me) = Some (e_dev f, i)" "buf16 (e_buf f) (n + AH_opcode) = Some op"
    and "op \<noteq> PICO_ARP_REQUEST \<or> max_arp_reqs s \<noteq> 0"
  shows "\<exists>m. pico_arp_check_flooding s f n me = Some (True, s\<lparr>a_links := i, max_arp_reqs := m\<rparr>)"
  using assms by (auto simp: pico_arp_check_flooding_def Let_def intro: exI [of _ "max_arp_reqs s"])

lemma reply_runs:
  assumes "mac_ok da" "mac_ok sa" "mac_ok sm" "mac_ok dm" "mac_ok own" "a_macs s dev = Some own"
  shows "\<exists>g s'. pico_arp_reply_on_request s (eth_rx dev (arp_bytes da sa op sm src dm dst) pad) 14 me = Some (g, s') \<and> same_table s s'
    \<and> sent (a_effects s') = sent (a_effects s) @ (if op = PICO_ARP_REQUEST then [(dev, arp_bytes sa own PICO_ARP_REPLY own me sm src)] else [])
    \<and> ethernet_out (a_effects s') = ethernet_out (a_effects s) \<and> frames_queued s' = frames_queued s"
proof (cases "op = PICO_ARP_REQUEST")
  case True
  let ?bs = "arp_bytes sa own PICO_ARP_REPLY own me sm src"
  obtain g where g: "pico_arp_reply_on_request s (eth_rx dev (arp_bytes da sa op sm src dm dst) pad) 14 me = Some (g, snd (dev_send dev ?bs s))"
    using arp_reply_bytes [OF assms] True by blast
  have "same_table s (snd (dev_send dev ?bs s))" by (rule same_dev_send [OF surjective_pairing])
  moreover have "a_effects (snd (dev_send dev ?bs s)) = a_effects s @ [Dev_send dev ?bs]" "frames_queued (snd (dev_send dev ?bs s)) = frames_queued s"
    by (simp_all add: dev_send_def arp_effect_def split: list.split)
  ultimately show ?thesis using g True by simp
next
  case False
  have "buf16 (e_buf (eth_rx dev (arp_bytes da sa op sm src dm dst) pad)) (14 + AH_opcode) = Some op"
    using arp_fields(3) [OF assms(1-4)] by (simp add: eth_rx_def)
  then show ?thesis using False by (simp add: pico_arp_reply_on_request_def)
qed

lemma effects_inv: "set cs \<subseteq> range Ip_conflict \<Longrightarrow> arp_inv s K \<Longrightarrow> arp_inv (s\<lparr>a_effects := a_effects s @ cs\<rparr>) K"
  using only_conflicts [of cs "a_effects s" s] by (simp add: arp_inv_def)

lemma links_inv: "arp_inv s K \<Longrightarrow> arp_inv (s\<lparr>a_links := i\<rparr>) K"
  by (rule same_inv [OF same_simps(1)])

text \<open>A packet for us, from a sender that is not in an expired entry.\<close>

definition arp_for_us :: "arp_state \<Rightarrow> nat \<Rightarrow> u16 \<Rightarrow> u8 list \<Rightarrow> u32 \<Rightarrow> bool" where
  "arp_for_us s dev op sm me \<longleftrightarrow> (\<exists>i. pico_ipv4_link_find (a_links s) (Some me) = Some (dev, i)) \<and> hd sm AND 1 = 0
     \<and> (op \<noteq> PICO_ARP_REQUEST \<or> max_arp_reqs s \<noteq> 0)"

lemma receive_runs:
  fixes pad :: "u8 list"
  assumes inv: "arp_inv s K" and rd: "arp_ready s" and m: "mac_ok da" "mac_ok sa" "mac_ok sm" "mac_ok dm" "mac_ok own"
    and us: "arp_for_us s dev op sm me" and own: "a_macs s dev = Some own" and fresh: "\<forall>k \<in> K. a_ipv4 k = src \<longrightarrow> live s k"
  defines "f \<equiv> eth_rx dev (arp_bytes da sa op sm src dm me) pad"
  shows "\<exists>s' K'. pico_arp_receive s f = Some (0, s') \<and> arp_inv s' K' \<and> pico_arp_lookup s' src = Some (Some sm)
    \<and> (\<forall>a. a \<noteq> src \<longrightarrow> pico_arp_lookup s' a = pico_arp_lookup s a)
    \<and> sent (a_effects s') = sent (a_effects s) @ (if op = PICO_ARP_REQUEST then [(dev, arp_bytes sa own PICO_ARP_REPLY own me sm src)] else [])
    \<and> (if pico_arp_lookup s src = Some None
        then frames_queued s' = replicate PICO_ARP_MAX_PENDING None \<and> ethernet_out (a_effects s') = ethernet_out (a_effects s) @ waiting (frames_queued s)
        else frames_queued s' = frames_queued s \<and> ethernet_out (a_effects s') = ethernet_out (a_effects s))"
proof -
  obtain i where link: "pico_ipv4_link_find (a_links s) (Some me) = Some (dev, i)" and uni: "hd sm AND 1 = 0"
    "op \<noteq> PICO_ARP_REQUEST \<or> max_arp_reqs s \<noteq> 0" using us by (auto simp: arp_for_us_def)
  have fd: "e_buf f = arp_bytes da sa op sm src dm me @ pad" "e_net f = Some 14" "e_dev f = dev" by (simp_all add: f_def eth_rx_def)
  note fields = arp_fields [OF m(1-4), of op src me pad, folded fd(1)]
  have rd6: "buf_read (e_buf f) (14 + AH_s_mac) PICO_SIZE_ETH = Some sm" using fields(4) by (simp add: PICO_SIZE_ETH_def)
  obtain cs where cs: "pico_arp_check_conflict s (e_buf f) 14 = Some (s\<lparr>a_effects := a_effects s @ cs\<rparr>)" "set cs \<subseteq> range Ip_conflict"
    using conflict_runs [OF fields(5) rd6 fields(6)] by blast
  define s1 where "s1 = s\<lparr>a_effects := a_effects s @ cs\<rparr>"
  have i1: "arp_inv s1 K" unfolding s1_def by (rule effects_inv [OF cs(2) inv])
  have oc: "sent cs = []" "ethernet_out cs = []" using only_conflicts [OF cs(2)] by simp_all
  have hdr: "pico_arp_check_incoming_hdr (e_buf f) 14 = Some (Some me)"
    using fields(1,2,6) rd6 uni(1) by (simp add: pico_arp_check_incoming_hdr_def pico_arp_check_incoming_hdr_type_def)
  have flood: "\<exists>n. pico_arp_check_flooding u f 14 me = Some (True, u\<lparr>a_links := i, max_arp_reqs := n\<rparr>)"
    if "a_links u = a_links s" "max_arp_reqs u = max_arp_reqs s" for u
    using flooding_runs [of u me f i 14 op] that link fields(3) uni(2) fd(3) by simp
  have finish: "\<exists>s'. pico_arp_receive s f = Some (0, s') \<and> arp_inv s' K' \<and> same_table v s' \<and> frames_queued s' = frames_queued v
      \<and> sent (a_effects s') = sent (a_effects v) @ (if op = PICO_ARP_REQUEST then [(dev, arp_bytes sa own PICO_ARP_REPLY own me sm src)] else [])
      \<and> ethernet_out (a_effects s') = ethernet_out (a_effects v)"
    if r: "pico_arp_receive s f = do { (g, z) \<leftarrow> pico_arp_reply_on_request v f 14 me; Some (0, eth_discard g z) }" "arp_inv v K'" "a_macs v dev = Some own" for v K'
  proof -
    obtain g z where g: "pico_arp_reply_on_request v f 14 me = Some (g, z)" "same_table v z" "ethernet_out (a_effects z) = ethernet_out (a_effects v)"
      "sent (a_effects z) = sent (a_effects v) @ (if op = PICO_ARP_REQUEST then [(dev, arp_bytes sa own PICO_ARP_REPLY own me sm src)] else [])"
      "frames_queued z = frames_queued v"
      using reply_runs [OF m r(3), of op src me pad me] unfolding f_def by blast
    have "same_table v (eth_discard g z)" by (rule same_trans [OF g(2)]) simp
    moreover have "a_effects (eth_discard g z) = a_effects z @ [Eth_discard g]" "frames_queued (eth_discard g z) = frames_queued z"
      by (simp_all add: eth_discard_def arp_effect_def)
    ultimately show ?thesis using r(1,2) g same_inv by auto
  qed
  show ?thesis
  proof (cases "\<exists>k \<in> K. a_ipv4 k = src")
    case True
    then obtain k where k: "k \<in> K" "a_ipv4 k = src" "live s k" using fresh by blast
    have known: "pico_arp_lookup s src \<noteq> Some None" using lookup_member [OF inv k(1)] k by simp
    define e where "e = (entries s (a_ptr k))\<lparr>a_eth := sm, a_timestamp := a_now s\<rparr>"
    define s2 where "s2 = set_entry (a_ptr k) e s1"
    have i2: "arp_inv s2 K" unfolding s2_def by (rule inv_update [OF i1]) (simp add: e_def s1_def)
    have fk: "pico_tree_findKey arp_compare (arp_tree s1) (arp_key src) = Some (Some k)"
    proof -
      obtain r where "pico_tree_findKey arp_compare (arp_tree s1) (arp_key src) = Some r"
        "case r of None \<Rightarrow> \<forall>x \<in> K. a_ipv4 x \<noteq> src | Some x \<Rightarrow> x \<in> K \<and> a_ipv4 x = src" using inv_find [OF i1] by blast
      moreover have "r = Some k" using calculation(2) k inv_member [OF inv] by (cases r) auto
      ultimately show ?thesis by simp
    qed
    have le: "pico_arp_lookup_entry s1 (e_buf f) 14 = Some (Some k, s2)"
      using fields(5) fk k(3) rd6 by (simp add: pico_arp_lookup_entry_def s2_def e_def s1_def)
    obtain n where n: "pico_arp_check_flooding s2 f 14 me = Some (True, s2\<lparr>a_links := i, max_arp_reqs := n\<rparr>)"
      using flood [of s2] by (auto simp: s2_def s1_def set_entry_def)
    define v where "v = s2\<lparr>a_links := i, max_arp_reqs := n\<rparr>"
    have iv: "arp_inv v K" using flooding_ok [OF i2 n] by (simp add: v_def)
    have "pico_arp_receive s f = do { (g, z) \<leftarrow> pico_arp_reply_on_request v f 14 me; Some (0, eth_discard g z) }"
      using cs(1) le hdr n fd(2) by (simp add: pico_arp_receive_def s1_def [symmetric] pico_arp_process_in_def v_def)
    moreover have "a_macs v dev = Some own" using own by (simp add: v_def s2_def s1_def set_entry_def)
    ultimately obtain s' where s': "pico_arp_receive s f = Some (0, s')" "arp_inv s' K" "same_table v s'" "frames_queued s' = frames_queued v"
      "sent (a_effects s') = sent (a_effects v) @ (if op = PICO_ARP_REQUEST then [(dev, arp_bytes sa own PICO_ARP_REPLY own me sm src)] else [])"
      "ethernet_out (a_effects s') = ethernet_out (a_effects v)" using finish iv by blast
    have ent: "entries s' = (entries s)(a_ptr k := e)" using s'(3) by (simp add: same_table_def v_def s2_def s1_def)
    have "pico_arp_lookup s' src = Some (Some sm)" using lookup_member [OF s'(2) k(1)] k(2,3) by (simp add: ent e_def)
    moreover have "pico_arp_lookup s' a = pico_arp_lookup s a" if "a \<noteq> src" for a
      using lookup_other [OF inv, of s' k a] s'(2) k that ent by (simp add: insert_absorb)
    moreover have "a_effects v = a_effects s @ cs" "frames_queued v = frames_queued s" by (simp_all add: v_def s2_def s1_def set_entry_def)
    ultimately show ?thesis using s' oc known by auto
  next
    case False
    then have new: "\<forall>x \<in> K. a_ipv4 x \<noteq> src" by blast
    have fk: "pico_tree_findKey arp_compare (arp_tree s1) (arp_key src) = Some None"
    proof -
      obtain r where "pico_tree_findKey arp_compare (arp_tree s1) (arp_key src) = Some r"
        "case r of None \<Rightarrow> \<forall>x \<in> K. a_ipv4 x \<noteq> src | Some x \<Rightarrow> x \<in> K \<and> a_ipv4 x = src" using inv_find [OF i1] by blast
      moreover have "r = None" using calculation(2) new by (cases r) auto
      ultimately show ?thesis by simp
    qed
    have le: "pico_arp_lookup_entry s1 (e_buf f) 14 = Some (None, s1)"
      using fields(5) fk by (simp add: pico_arp_lookup_entry_def)
    obtain n where n: "pico_arp_check_flooding s1 f 14 me = Some (True, s1\<lparr>a_links := i, max_arp_reqs := n\<rparr>)"
      using flood [of s1] by (auto simp: s1_def)
    define s3 where "s3 = s1\<lparr>a_links := i, max_arp_reqs := n\<rparr>"
    have i3: "arp_inv s3 K" using flooding_ok [OF i1 n] by (simp add: s3_def)
    have r3: "arp_ready s3" using rd by (simp add: arp_ready_def s3_def s1_def)
    let ?k = "\<lparr>a_ptr = arp_next s3, a_ipv4 = src, a_dev = dev\<rparr>"
    let ?e = "\<lparr>a_eth = sm, arp_status = PICO_ARP_STATUS_REACHABLE, a_timestamp = a_now s3\<rparr>"
    obtain v where v: "pico_arp_create_entry s3 sm src dev = Some (0, v)" "arp_inv v (insert ?k K)" "entries v = (entries s3)(arp_next s3 := ?e)"
      "frames_queued v = replicate PICO_ARP_MAX_PENDING None" "a_macs v = a_macs s3"
      "a_effects v = a_effects s3 @ map Enq_ethernet_out (waiting (frames_queued s3)) @ [Arp_timer PICO_ARP_TIMEOUT (arp_next s3)]"
      using create_entry_runs [OF i3 r3 new, where dev = dev and mac = sm] by blast
    have "pico_arp_receive s f = do { (g, z) \<leftarrow> pico_arp_reply_on_request v f 14 me; Some (0, eth_discard g z) }"
      using cs(1) le hdr n fd(2,3) fields(5) rd6 v(1) by (simp add: pico_arp_receive_def s1_def [symmetric] s3_def [symmetric] pico_arp_process_in_def)
    moreover have "a_macs v dev = Some own" using own by (simp add: v(5) s3_def s1_def)
    ultimately obtain s' where s': "pico_arp_receive s f = Some (0, s')" "arp_inv s' (insert ?k K)" "same_table v s'" "frames_queued s' = frames_queued v"
      "sent (a_effects s') = sent (a_effects v) @ (if op = PICO_ARP_REQUEST then [(dev, arp_bytes sa own PICO_ARP_REPLY own me sm src)] else [])"
      "ethernet_out (a_effects s') = ethernet_out (a_effects v)" using finish v(2) by blast
    have ent: "entries s' = (entries s)(arp_next s3 := ?e)" using s'(3) v(3) by (simp add: same_table_def s3_def s1_def)
    have "pico_arp_lookup s' src = Some (Some sm)"
      using lookup_member [OF s'(2), of ?k] by (simp add: ent PICO_ARP_STATUS_REACHABLE_def PICO_ARP_STATUS_STALE_def)
    moreover have "pico_arp_lookup s' a = pico_arp_lookup s a" if "a \<noteq> src" for a
      using lookup_other [OF inv s'(2), of a] that ent by simp
    moreover have "pico_arp_lookup s src = Some None" by (rule lookup_absent [OF inv new])
    moreover have "a_effects s3 = a_effects s @ cs" "frames_queued s3 = frames_queued s" by (simp_all add: s3_def s1_def)
    ultimately show ?thesis using s' v(4,6) oc by auto
  qed
qed

section \<open>The sender of an expired entry\<close>

text \<open>The entry is used again with the address it had: the one in the packet is not read.\<close>

lemma receive_stale:
  fixes pad :: "u8 list"
  assumes inv: "arp_inv s K" and rd: "arp_ready s" and m: "mac_ok da" "mac_ok sa" "mac_ok sm" "mac_ok dm" "mac_ok own"
    and us: "arp_for_us s dev op sm me" and own: "a_macs s dev = Some own" and k: "k \<in> K" "\<not> live s k"
  defines "f \<equiv> eth_rx dev (arp_bytes da sa op sm (a_ipv4 k) dm me) pad"
  shows "\<exists>s' K'. pico_arp_receive s f = Some (0, s') \<and> arp_inv s' K' \<and> pico_arp_lookup s' (a_ipv4 k) = Some (Some (a_eth (entries s (a_ptr k))))"
proof -
  obtain i where link: "pico_ipv4_link_find (a_links s) (Some me) = Some (dev, i)" and uni: "hd sm AND 1 = 0"
    "op \<noteq> PICO_ARP_REQUEST \<or> max_arp_reqs s \<noteq> 0" using us by (auto simp: arp_for_us_def)
  have fd: "e_buf f = arp_bytes da sa op sm (a_ipv4 k) dm me @ pad" "e_net f = Some 14" "e_dev f = dev" by (simp_all add: f_def eth_rx_def)
  note fields = arp_fields [OF m(1-4), of op "a_ipv4 k" me pad, folded fd(1)]
  have rd6: "buf_read (e_buf f) (14 + AH_s_mac) PICO_SIZE_ETH = Some sm" using fields(4) by (simp add: PICO_SIZE_ETH_def)
  obtain cs where cs: "pico_arp_check_conflict s (e_buf f) 14 = Some (s\<lparr>a_effects := a_effects s @ cs\<rparr>)" "set cs \<subseteq> range Ip_conflict"
    using conflict_runs [OF fields(5) rd6 fields(6)] by blast
  define s1 where "s1 = s\<lparr>a_effects := a_effects s @ cs\<rparr>"
  have i1: "arp_inv s1 K" unfolding s1_def by (rule effects_inv [OF cs(2) inv])
  have st: "\<not> live s1 k" using k(2) by (simp add: s1_def)
  obtain r where r: "pico_tree_findKey arp_compare (arp_tree s1) (arp_key (a_ipv4 k)) = Some r"
    "case r of None \<Rightarrow> \<forall>x \<in> K. a_ipv4 x \<noteq> a_ipv4 k | Some x \<Rightarrow> x \<in> K \<and> a_ipv4 x = a_ipv4 k" using inv_find [OF i1] by blast
  then have fk: "r = Some k" using k inv_member [OF inv] by (cases r) auto
  obtain t where t: "pico_tree_delete arp_compare (arp_tree s1) (Some k) = Some (Some k, t)"
    "\<exists>ks. tree_inv arp_compare every t ks \<and> set ks = K - {k}" using inv_delete [OF i1 k(1)] by blast
  note out = inv_stale_out [OF i1 k(1) st t(2)]
  have rd1: "arp_ready (s1\<lparr>arp_tree := t\<rparr>)" using rd by (simp add: arp_ready_def s1_def)
  have "\<forall>x \<in> K - {k}. a_ipv4 x \<noteq> a_ipv4 k" using inv_member [OF inv] k(1) by blast
  from add_entry_runs [OF out rd1 this] obtain z where z: "pico_arp_add_entry (s1\<lparr>arp_tree := t\<rparr>) k = Some (0, z)" "arp_inv z (insert k (K - {k}))"
    "entries z = (entries s1)(a_ptr k := (entries s1 (a_ptr k))\<lparr>arp_status := PICO_ARP_STATUS_REACHABLE, a_timestamp := a_now s1\<rparr>)"
    "a_macs z = a_macs s1" "a_links z = a_links s1" "max_arp_reqs z = max_arp_reqs s1" by auto
  have iz: "arp_inv z K" using z(2) k(1) by (simp add: insert_absorb)
  have le: "pico_arp_lookup_entry s1 (e_buf f) 14 = Some (Some k, z)"
    using fields(5) r(1) fk st t(1) z(1) by (simp add: pico_arp_lookup_entry_def)
  have hdr: "pico_arp_check_incoming_hdr (e_buf f) 14 = Some (Some me)"
    using fields(1,2,6) rd6 uni(1) by (simp add: pico_arp_check_incoming_hdr_def pico_arp_check_incoming_hdr_type_def)
  obtain n where n: "pico_arp_check_flooding z f 14 me = Some (True, z\<lparr>a_links := i, max_arp_reqs := n\<rparr>)"
    using flooding_runs [of z me f i 14 op] link fields(3) uni(2) fd(3) z(5,6) by (auto simp: s1_def)
  define v where "v = z\<lparr>a_links := i, max_arp_reqs := n\<rparr>"
  have iv: "arp_inv v K" using flooding_ok [OF iz n] by (simp add: v_def)
  have mv: "a_macs v dev = Some own" using own z(4) by (simp add: v_def s1_def)
  obtain g u where g: "pico_arp_reply_on_request v f 14 me = Some (g, u)" "same_table v u"
    using reply_runs [OF m mv, of op "a_ipv4 k" me pad me] unfolding f_def by blast
  have "pico_arp_receive s f = Some (0, eth_discard g u)"
    using cs(1) le hdr n fd(2) g(1) by (simp add: pico_arp_receive_def s1_def [symmetric] pico_arp_process_in_def v_def)
  moreover have same: "same_table v (eth_discard g u)" by (rule same_trans [OF g(2)]) simp
  moreover have "entries (eth_discard g u) = entries z" using same by (simp add: same_table_def v_def)
  moreover have "arp_inv (eth_discard g u) K" by (rule same_inv [OF same iv])
  ultimately show ?thesis using lookup_member [of "eth_discard g u" K k] k(1) z(3)
    by (auto simp: s1_def PICO_ARP_STATUS_REACHABLE_def PICO_ARP_STATUS_STALE_def)
qed

text \<open>A packet that is refused, here for the group address of its sender, has changed the entry of the sender.\<close>

lemma receive_refused_updates:
  fixes pad :: "u8 list" and dev :: nat and op :: u16 and me :: u32
  assumes inv: "arp_inv s K" and m: "mac_ok da" "mac_ok sa" "mac_ok sm" "mac_ok dm" and k: "k \<in> K" "live s k" and g: "hd sm AND 1 \<noteq> 0"
  defines "f \<equiv> eth_rx dev (arp_bytes da sa op sm (a_ipv4 k) dm me) pad"
  shows "\<exists>s'. pico_arp_receive s f = Some (- 1, s') \<and> pico_arp_lookup s' (a_ipv4 k) = Some (Some sm)"
proof -
  have fd: "e_buf f = arp_bytes da sa op sm (a_ipv4 k) dm me @ pad" "e_net f = Some 14" by (simp_all add: f_def eth_rx_def)
  note fields = arp_fields [OF m, of op "a_ipv4 k" me pad, folded fd(1)]
  have rd6: "buf_read (e_buf f) (14 + AH_s_mac) PICO_SIZE_ETH = Some sm" using fields(4) by (simp add: PICO_SIZE_ETH_def)
  obtain cs where cs: "pico_arp_check_conflict s (e_buf f) 14 = Some (s\<lparr>a_effects := a_effects s @ cs\<rparr>)" "set cs \<subseteq> range Ip_conflict"
    using conflict_runs [OF fields(5) rd6 fields(6)] by blast
  define s1 where "s1 = s\<lparr>a_effects := a_effects s @ cs\<rparr>"
  have i1: "arp_inv s1 K" unfolding s1_def by (rule effects_inv [OF cs(2) inv])
  obtain r where r: "pico_tree_findKey arp_compare (arp_tree s1) (arp_key (a_ipv4 k)) = Some r"
    "case r of None \<Rightarrow> \<forall>x \<in> K. a_ipv4 x \<noteq> a_ipv4 k | Some x \<Rightarrow> x \<in> K \<and> a_ipv4 x = a_ipv4 k" using inv_find [OF i1] by blast
  then have fk: "r = Some k" using k(1) inv_member [OF inv] by (cases r) auto
  define e where "e = (entries s1 (a_ptr k))\<lparr>a_eth := sm, a_timestamp := a_now s1\<rparr>"
  define s2 where "s2 = set_entry (a_ptr k) e s1"
  have l1: "live s1 k" using k(2) by (simp add: s1_def)
  have i2: "arp_inv s2 K" unfolding s2_def by (rule inv_update [OF i1]) (simp add: e_def)
  have le: "pico_arp_lookup_entry s1 (e_buf f) 14 = Some (Some k, s2)"
    using fields(5) r(1) fk l1 rd6 by (simp add: pico_arp_lookup_entry_def s2_def e_def)
  have hdr: "pico_arp_check_incoming_hdr (e_buf f) 14 = Some None"
    using fields(1,2,6) rd6 g by (simp add: pico_arp_check_incoming_hdr_def pico_arp_check_incoming_hdr_type_def)
  have "pico_arp_receive s f = Some (- 1, eth_discard f s2)"
    using cs(1) le hdr fd(2) by (simp add: pico_arp_receive_def s1_def [symmetric] pico_arp_process_in_def)
  moreover have same: "same_table s2 (eth_discard f s2)" by simp
  moreover have "entries (eth_discard f s2) = entries s2" using same unfolding same_table_def by simp
  moreover have "live (eth_discard f s2) k" using l1 calculation(3) by (simp add: s2_def e_def)
  ultimately show ?thesis
    using lookup_member [OF same_inv [OF same i2] k(1)] by (simp add: s2_def e_def)
qed

section \<open>A request and its reply\<close>

lemma dev_send_ready: "arp_ready s \<Longrightarrow> arp_ready (snd (dev_send d bs s))"
  by (auto simp: arp_ready_def dev_send_def arp_effect_def split: list.splits)

lemma dev_send_simps:
  "a_effects (snd (dev_send d bs s)) = a_effects s @ [Dev_send d bs]" "a_links (snd (dev_send d bs s)) = a_links s"
  "frames_queued (snd (dev_send d bs s)) = frames_queued s" "a_macs (snd (dev_send d bs s)) = a_macs s"
  by (simp_all add: dev_send_def arp_effect_def split: list.split)

lemma request_runs:
  assumes "arp_ready s" "pico_ipv4_source_find (a_links s) (Some dst) = Some (Some src, i)" "a_macs s dev = Some own"
  shows "pico_arp_request s dev dst PICO_ARP_QUERY = Some (dev_send dev
      (arp_bytes PICO_ETHADDR_ALL own PICO_ARP_REQUEST own src (replicate PICO_SIZE_ETH 0) dst) (s\<lparr>a_links := i\<rparr>))"
  using assms by (simp add: pico_arp_request_def arp_alloc_def arp_ready_def pico_arp_request_xmit_def arp_bytes_def
      PICO_ARP_QUERY_def PICO_ARP_ANNOUNCE_def PICO_ARP_PROBE_def)

text \<open>No entry of the address has expired.\<close>

definition arp_fresh :: "arp_state \<Rightarrow> u32 \<Rightarrow> bool" where
  "arp_fresh s a \<longleftrightarrow> (case pico_tree_foreach (arp_tree s) of None \<Rightarrow> False
     | Some ks \<Rightarrow> \<forall>k \<in> set ks. a_ipv4 k = a \<longrightarrow> arp_status (entries s (a_ptr k)) \<noteq> PICO_ARP_STATUS_STALE)"

lemma fresh_live: "arp_inv s K \<Longrightarrow> arp_fresh s a \<longleftrightarrow> (\<forall>k \<in> K. a_ipv4 k = a \<longrightarrow> live s k)"
  using inv_foreach [of s K] by (auto simp: arp_fresh_def)

lemma source_find_links:
  assumes "pico_ipv4_source_find l d = Some (r, l')"
  shows "Tree_dev_link l' = Tree_dev_link l"
proof (cases d)
  case (Some a)
  define u where "u = (if a \<noteq> 0 \<and> pico_ipv4_is_unicast a then l\<lparr>ip_calls := ip_calls l @ [Aodv_lookup a]\<rparr> else l)"
  have u: "Tree_dev_link u = Tree_dev_link l" by (simp add: u_def)
  obtain rt where rt: "route_find u a = Some rt"
    using assms Some by (auto simp: pico_ipv4_source_find_def Let_def u_def [symmetric] bind_eq_Some_conv)
  show ?thesis
  proof (cases "Option.bind rt r_link")
    case None
    then have "l' = u\<lparr>ip_err := PICO_ERR_EHOSTUNREACH\<rparr>"
      using assms Some rt by (cases rt) (simp_all add: pico_ipv4_source_find_def Let_def u_def [symmetric])
    then show ?thesis using u by simp
  next
    case (Some k)
    then have "l' = u"
      using assms \<open>d = Some a\<close> rt by (cases rt) (simp_all add: pico_ipv4_source_find_def Let_def u_def [symmetric])
    then show ?thesis using u by simp
  qed
qed (use assms in \<open>auto simp: pico_ipv4_source_find_def\<close>)

lemma for_us_links:
  assumes "Tree_dev_link (a_links s') = Tree_dev_link (a_links s)" "max_arp_reqs s' = max_arp_reqs s" "arp_for_us s dev op sm me"
  shows "arp_for_us s' dev op sm me"
proof -
  obtain i where i: "pico_ipv4_link_find (a_links s) (Some me) = Some (dev, i)" using assms(3) by (auto simp: arp_for_us_def)
  then obtain found where found: "pico_tree_findKey ipv4_link_compare (Tree_dev_link (a_links s)) (link_key 0 me) = Some found"
    by (auto simp: pico_ipv4_link_find_def bind_eq_Some_conv)
  then have "dev = (case found of None \<Rightarrow> 0 | Some l \<Rightarrow> l_dev l)" using i by (cases found) (simp_all add: pico_ipv4_link_find_def)
  then have "\<exists>i. pico_ipv4_link_find (a_links s') (Some me) = Some (dev, i)"
    using found assms(1) by (cases found) (simp_all add: pico_ipv4_link_find_def)
  then show ?thesis using assms(2,3) by (simp add: arp_for_us_def)
qed

text \<open>C12: an ARP packet that is for us, from a sender of whom we hold no expired entry, teaches us its sender, and nothing
  else: its address is in the table from then on, the other addresses are found as before; a request is answered
  once, to the Ethernet address it came from, with our address; and when the sender is new, every frame that waited
  for an address goes to the Ethernet layer, in order, and none waits any longer.  Memory, queues and the number of
  requests answered in a second do not run out.\<close>

theorem arp_receive_learns:
  assumes "arp_reach s" "arp_ready s" "mac_ok da" "mac_ok sa" "mac_ok sm" "mac_ok dm" "mac_ok own"
    and "arp_for_us s dev op sm me" "a_macs s dev = Some own" "arp_fresh s src"
  shows "\<exists>s'. pico_arp_receive s (eth_rx dev (arp_bytes da sa op sm src dm me) pad) = Some (0, s')
    \<and> pico_arp_lookup s' src = Some (Some sm) \<and> (\<forall>a. a \<noteq> src \<longrightarrow> pico_arp_lookup s' a = pico_arp_lookup s a)
    \<and> sent (a_effects s') = sent (a_effects s) @ (if op = PICO_ARP_REQUEST then [(dev, arp_bytes sa own PICO_ARP_REPLY own me sm src)] else [])
    \<and> (if pico_arp_lookup s src = Some None
        then frames_queued s' = replicate PICO_ARP_MAX_PENDING None \<and> ethernet_out (a_effects s') = ethernet_out (a_effects s) @ waiting (frames_queued s)
        else frames_queued s' = frames_queued s \<and> ethernet_out (a_effects s') = ethernet_out (a_effects s))"
proof -
  obtain K where K: "arp_inv s K" using reach_ok [OF assms(1)] by blast
  have "\<forall>k \<in> K. a_ipv4 k = src \<longrightarrow> live s k" using fresh_live [OF K] assms(10) by simp
  from receive_runs [OF K assms(2-9) this, of pad] show ?thesis by blast
qed

text \<open>C10: a host asks for an address and its neighbour answers, where neither holds an expired entry of the other, both
  have a device, an address on it and the memory and queues they need, and the neighbour still answers requests: the
  neighbour knows the host from the request, the host knows the neighbour from the reply, and when the host did not
  know the neighbour before, the frames that waited for an answer are sent on and none waits any longer.\<close>

theorem arp_exchange:
  assumes "arp_reach a" "arp_ready a" "arp_reach b" "arp_ready b" "mac_ok maca" "mac_ok macb"
    and "a_macs a da = Some maca" "a_macs b db = Some macb"
    and "pico_ipv4_source_find (a_links a) (Some ipb) = Some (Some ipa, l)"
    and "arp_for_us b db PICO_ARP_REQUEST maca ipb" "arp_for_us a da PICO_ARP_REPLY macb ipa" "arp_fresh a ipb" "arp_fresh b ipa"
  shows "\<exists>r a1 q b1 p a2. pico_arp_request a da ipb PICO_ARP_QUERY = Some (r, a1) \<and> sent (a_effects a1) = sent (a_effects a) @ [(da, q)]
    \<and> pico_arp_receive b (eth_rx db q padb) = Some (0, b1) \<and> sent (a_effects b1) = sent (a_effects b) @ [(db, p)]
    \<and> pico_arp_receive a1 (eth_rx da p pada) = Some (0, a2)
    \<and> pico_arp_lookup b1 ipa = Some (Some maca) \<and> pico_arp_lookup a2 ipb = Some (Some macb)
    \<and> (pico_arp_lookup a ipb = Some None \<longrightarrow> ethernet_out (a_effects a2) = ethernet_out (a_effects a) @ waiting (frames_queued a)
         \<and> frames_queued a2 = replicate PICO_ARP_MAX_PENDING None)"
proof -
  define q where "q = arp_bytes PICO_ETHADDR_ALL maca PICO_ARP_REQUEST maca ipa (replicate PICO_SIZE_ETH 0) ipb"
  define p where "p = arp_bytes maca macb PICO_ARP_REPLY macb ipb maca ipa"
  obtain Ka Kb where K: "arp_inv a Ka" "arp_inv b Kb" using reach_ok assms(1,3) by blast
  have z: "mac_ok PICO_ETHADDR_ALL" "mac_ok (replicate PICO_SIZE_ETH 0)" by (simp_all add: PICO_ETHADDR_ALL_def PICO_SIZE_ETH_def)
  have fb: "\<forall>k \<in> Kb. a_ipv4 k = ipa \<longrightarrow> live b k" using fresh_live [OF K(2)] assms(13) by simp
  obtain b1 where b1: "pico_arp_receive b (eth_rx db q padb) = Some (0, b1)" "pico_arp_lookup b1 ipa = Some (Some maca)"
    "sent (a_effects b1) = sent (a_effects b) @ [(db, p)]"
    using receive_runs [OF K(2) assms(4) z(1) assms(5,5) z(2) assms(6,10,8) fb, of padb] unfolding q_def p_def by auto
  define a0 where "a0 = a\<lparr>a_links := l\<rparr>"
  define a1 where "a1 = snd (dev_send da q a0)"
  have req: "pico_arp_request a da ipb PICO_ARP_QUERY = Some (dev_send da q a0)"
    using request_runs [OF assms(2,9,7)] by (simp add: q_def a0_def)
  have same: "same_table a a1" unfolding a1_def by (rule same_trans [OF _ same_dev_send [OF surjective_pairing]]) (simp add: a0_def)
  have i1: "arp_inv a1 Ka" by (rule same_inv [OF same K(1)])
  have r1: "arp_ready a1" unfolding a1_def by (rule dev_send_ready) (use assms(2) in \<open>simp add: arp_ready_def a0_def\<close>)
  have m1: "a_macs a1 da = Some maca" using assms(7) by (simp add: a1_def dev_send_simps a0_def)
  have u1: "arp_for_us a1 da PICO_ARP_REPLY macb ipa"
    by (rule for_us_links [OF _ _ assms(11)]) (use source_find_links [OF assms(9)] same in \<open>simp_all add: a1_def dev_send_simps a0_def same_table_def\<close>)
  have e1: "a_effects a1 = a_effects a @ [Dev_send da q]" "frames_queued a1 = frames_queued a"
    by (simp_all add: a1_def dev_send_simps a0_def)
  have f1: "\<forall>k \<in> Ka. a_ipv4 k = ipb \<longrightarrow> live a1 k" using fresh_live [OF K(1)] assms(12) same by (simp add: same_table_def)
  have l1: "pico_arp_lookup a1 ipb = pico_arp_lookup a ipb" using same unfolding pico_arp_lookup_def same_table_def by metis
  obtain a2 where a2: "pico_arp_receive a1 (eth_rx da p pada) = Some (0, a2)" "pico_arp_lookup a2 ipb = Some (Some macb)"
    "pico_arp_lookup a ipb = Some None \<longrightarrow> ethernet_out (a_effects a2) = ethernet_out (a_effects a) @ waiting (frames_queued a)
         \<and> frames_queued a2 = replicate PICO_ARP_MAX_PENDING None"
    using receive_runs [OF i1 r1 assms(5,6,6,5,5) u1 m1 f1, of pada] e1 l1 unfolding p_def by auto
  have "pico_arp_request a da ipb PICO_ARP_QUERY = Some (fst (dev_send da q a0), a1)" using req by (simp add: a1_def)
  moreover have "sent (a_effects a1) = sent (a_effects a) @ [(da, q)]" using e1 by simp
  ultimately show ?thesis using a2 b1 by blast
qed

section \<open>Two hosts\<close>

text \<open>A host with one Ethernet device and one address.\<close>

definition host_links :: "u32 \<Rightarrow> ipv4_state" where
  "host_links addr = (case pico_ipv4_link_add ipv4_init 1 addr (long_be 0xFFFFFF00) of Some (_, t) \<Rightarrow> t | None \<Rightarrow> ipv4_init)"

definition arp_host :: "u32 \<Rightarrow> u8 list \<Rightarrow> arp_state" where
  "arp_host addr mac = \<lparr>arp_tree = empty_tree, entries = (\<lambda>_. \<lparr>a_eth = [], arp_status = 0, a_timestamp = 0\<rparr>), arp_next = 1,
     max_arp_reqs = PICO_ARP_MAX_RATE, frames_queued = replicate PICO_ARP_MAX_PENDING None, conflict_set = False, conflict_ip = 0,
     conflict_mac = [], a_links = host_links addr, a_macs = (\<lambda>d. if d = 1 then Some mac else None), a_devices = [1],
     a_now = 0, a_mem = [], a_tmr = [], a_enq = [], a_send = [], a_nd = [], a_err = PICO_ERR_NOERR, a_timers = [], a_effects = []\<rparr>"

definition ip_alice :: u32 where "ip_alice = long_be 0x0A000001"
definition ip_bob :: u32 where "ip_bob = long_be 0x0A000002"
definition mac_alice :: "u8 list" where "mac_alice = [2, 0, 0, 0, 0, 1]"
definition mac_bob :: "u8 list" where "mac_bob = [2, 0, 0, 0, 0, 2]"
definition alice :: arp_state where "alice = arp_host ip_alice mac_alice"
definition bob :: arp_state where "bob = arp_host ip_bob mac_bob"

lemma host_links_eval:
  "map_option fst (pico_ipv4_link_find (host_links ip_alice) (Some ip_alice)) = Some 1"
  "map_option fst (pico_ipv4_link_find (host_links ip_bob) (Some ip_bob)) = Some 1"
  "map_option fst (pico_ipv4_source_find (host_links ip_alice) (Some ip_bob)) = Some (Some ip_alice)"
  by code_simp+

lemma host_reach: "arp_reach (arp_host addr mac)"
  unfolding arp_reach_def by (intro exI [of _ "arp_host addr mac"]) (simp add: arp_start_def arp_host_def)

lemma host_ready: "arp_ready (arp_host addr mac)"
proof -
  have "waiting (replicate n None) = []" for n by (induction n) simp_all
  then show ?thesis by (simp add: arp_ready_def arp_host_def)
qed

lemma host_fresh: "arp_fresh (arp_host addr mac) a" "pico_arp_lookup (arp_host addr mac) a = Some None"
proof -
  have "arp_inv (arp_host addr mac) {}" by (rule start_ok) (simp add: arp_start_def arp_host_def)
  then show "arp_fresh (arp_host addr mac) a" "pico_arp_lookup (arp_host addr mac) a = Some None"
    using fresh_live lookup_absent by auto
qed

lemma hosts:
  "arp_for_us alice 1 op mac_bob ip_alice" "arp_for_us bob 1 op mac_alice ip_bob"
  "mac_ok mac_alice" "mac_ok mac_bob" "a_macs alice 1 = Some mac_alice" "a_macs bob 1 = Some mac_bob"
  using host_links_eval
  by (auto simp: arp_for_us_def alice_def bob_def arp_host_def mac_alice_def mac_bob_def PICO_ARP_MAX_RATE_def)

theorem arp_receive_learns_witness:
  "\<exists>s'. pico_arp_receive bob (eth_rx 1 (arp_bytes PICO_ETHADDR_ALL mac_alice PICO_ARP_REQUEST mac_alice ip_alice (replicate 6 0) ip_bob) [])
      = Some (0, s') \<and> pico_arp_lookup s' ip_alice = Some (Some mac_alice)
    \<and> sent (a_effects s') = [(1, arp_bytes mac_alice mac_bob PICO_ARP_REPLY mac_bob ip_bob mac_alice ip_alice)]"
proof -
  have m: "mac_ok PICO_ETHADDR_ALL" "mac_ok (replicate 6 0)" by (simp_all add: PICO_ETHADDR_ALL_def)
  have b: "arp_reach bob" "arp_ready bob" "arp_fresh bob ip_alice" "a_effects bob = []"
    unfolding bob_def by (rule host_reach host_ready host_fresh)+ (simp add: arp_host_def)
  show ?thesis
    using arp_receive_learns [OF b(1,2) m(1) hosts(3,3) m(2) hosts(4) hosts(2) hosts(6) b(3), where pad = "[]" and op = PICO_ARP_REQUEST] b(4) by auto
qed

theorem arp_exchange_witness:
  "\<exists>r a1 q b1 p a2. pico_arp_request alice 1 ip_bob PICO_ARP_QUERY = Some (r, a1)
    \<and> pico_arp_receive bob (eth_rx 1 q []) = Some (0, b1) \<and> pico_arp_receive a1 (eth_rx 1 p []) = Some (0, a2)
    \<and> pico_arp_lookup b1 ip_alice = Some (Some mac_alice) \<and> pico_arp_lookup a2 ip_bob = Some (Some mac_bob)"
proof -
  have b: "arp_reach alice" "arp_ready alice" "arp_fresh alice ip_bob" "arp_reach bob" "arp_ready bob" "arp_fresh bob ip_alice"
    unfolding alice_def bob_def by (rule host_reach host_ready host_fresh)+
  obtain l where l: "pico_ipv4_source_find (a_links alice) (Some ip_bob) = Some (Some ip_alice, l)"
    using host_links_eval(3) by (auto simp: alice_def arp_host_def)
  show ?thesis
    using arp_exchange [OF b(1,2,4,5) hosts(3,4,5,6) l hosts(2,1) b(3,6), where pada = "[]" and padb = "[]"] by blast
qed

text \<open>C13: whatever is received, asked for, expires or fails, the table stays consistent: no two entries have the
  same address or lie at the same place, no entry was freed, none is freed twice, and the timers that are
  pending are those of the entries that are not stale, one for each, so no timer fires on freed memory and
  every entry that is used for sending expires.\<close>

theorem arp_entries_live_and_timed:
  assumes "arp_reach s"
  shows "\<exists>ks. pico_tree_foreach (arp_tree s) = Some ks \<and> distinct (map a_ipv4 ks) \<and> distinct (map a_ptr ks)
    \<and> distinct (freed s) \<and> set (map a_ptr ks) \<inter> set (freed s) = {}
    \<and> distinct (a_timers s) \<and> set (a_timers s) = {k \<in> set ks. arp_status (entries s (a_ptr k)) \<noteq> PICO_ARP_STATUS_STALE}"
proof -
  obtain K where K: "arp_inv s K" using reach_ok [OF assms] by blast
  obtain ks where ks: "pico_tree_foreach (arp_tree s) = Some ks" "set ks = K" "distinct ks" using inv_foreach [OF K] by blast
  have "inj_on a_ipv4 K" using inv_member [OF K] by (auto simp: inj_on_def)
  then show ?thesis using K ks by (auto simp: arp_inv_def distinct_map)
qed

theorem arp_entries_live_and_timed_witness:
  "\<exists>s ks. pico_arp_receive bob (eth_rx 1 (arp_bytes PICO_ETHADDR_ALL mac_alice PICO_ARP_REQUEST mac_alice ip_alice (replicate 6 0) ip_bob) [])
      = Some (0, s) \<and> pico_tree_foreach (arp_tree s) = Some ks \<and> a_timers s \<noteq> [] \<and> set (a_timers s) \<subseteq> set ks"
proof -
  have m: "mac_ok PICO_ETHADDR_ALL" "mac_ok (replicate 6 0)" by (simp_all add: PICO_ETHADDR_ALL_def)
  have b: "arp_reach bob" "arp_ready bob" "arp_inv bob {}"
    unfolding bob_def by (rule host_reach host_ready)+ (rule start_ok, simp add: arp_start_def arp_host_def)
  obtain s K where s: "pico_arp_receive bob (eth_rx 1 (arp_bytes PICO_ETHADDR_ALL mac_alice PICO_ARP_REQUEST mac_alice ip_alice (replicate 6 0) ip_bob) [])
      = Some (0, s)" "arp_inv s K" "pico_arp_lookup s ip_alice = Some (Some mac_alice)"
    using receive_runs [OF b(3,2) m(1) hosts(3,3) m(2) hosts(4) hosts(2) hosts(6), where src = ip_alice and pad = "[]" and op = PICO_ARP_REQUEST] by auto
  have r: "arp_reach s"
    using b(1) arp_step.receive [OF s(1)] by (auto simp: arp_reach_def intro: rtranclp.rtrancl_into_rtrancl)
  obtain ks where ks: "pico_tree_foreach (arp_tree s) = Some ks" "distinct (map a_ptr ks)" "distinct (a_timers s)"
    "set (a_timers s) = {k \<in> set ks. live s k}" using arp_entries_live_and_timed [OF r] by blast
  have K: "set ks = K" using inv_foreach [OF s(2)] ks(1) by auto
  have "\<exists>k \<in> K. live s k"
  proof (rule ccontr)
    assume "\<not> (\<exists>k \<in> K. live s k)"
    then have "pico_arp_lookup s (a_ipv4 k) = Some None" if "k \<in> K" for k using lookup_member [OF s(2) that] that by simp
    moreover obtain k where "k \<in> K" "a_ipv4 k = ip_alice"
      using lookup_absent [OF s(2), of ip_alice] s(3) by fastforce
    ultimately show False using s(3) by force
  qed
  then have "a_timers s \<noteq> []" "set (a_timers s) \<subseteq> set ks" using ks(4) K by auto
  then show ?thesis using s(1) ks(1) by blast
qed

text \<open>C14: when an entry has expired and its host announces another Ethernet address, the address in the packet
  is not read: the entry is used again with the address it had before, though the packet was accepted.\<close>

theorem arp_stale_keeps_old_mac:
  assumes "arp_inv s K" "arp_ready s" "mac_ok da" "mac_ok sa" "mac_ok sm" "mac_ok dm" "mac_ok own"
    and "arp_for_us s dev op sm me" "a_macs s dev = Some own" "k \<in> K" "arp_status (entries s (a_ptr k)) = PICO_ARP_STATUS_STALE"
  shows "\<exists>s'. pico_arp_receive s (eth_rx dev (arp_bytes da sa op sm (a_ipv4 k) dm me) pad) = Some (0, s')
    \<and> pico_arp_lookup s' (a_ipv4 k) = Some (Some (a_eth (entries s (a_ptr k))))"
  using receive_stale [OF assms(1-10), of pad] assms(11) by auto

text \<open>Bob, who knew Alice under the address \<open>mac_bob\<close> long ago.\<close>

definition old_alice :: pico_arp where "old_alice = \<lparr>a_ptr = 1, a_ipv4 = ip_alice, a_dev = 1\<rparr>"

definition bob_stale :: arp_state where
  "bob_stale = bob\<lparr>arp_tree := (case pico_tree_insert arp_compare empty_tree old_alice True of Some (_, t) \<Rightarrow> t | None \<Rightarrow> empty_tree),
     entries := (\<lambda>_. \<lparr>a_eth = mac_bob, arp_status = PICO_ARP_STATUS_STALE, a_timestamp = 0\<rparr>), arp_next := 2\<rparr>"

lemma bob_stale_inv: "arp_inv bob_stale {old_alice}"
proof -
  have "keys_find arp_compare old_alice [] = None" using arps.find_None [of old_alice "[]"] by simp
  then obtain t where t: "pico_tree_insert arp_compare empty_tree old_alice True = Some (Ins_NULL, t)"
    "tree_inv arp_compare every t (keys_insert arp_compare old_alice [])"
    using arps.insert_inv [OF tree_inv_empty, where key = old_alice and mem_ok = True] by auto
  have "set (keys_insert arp_compare old_alice []) = {old_alice}" using arps.insert_set [of old_alice "[]"] by simp
  then have "\<exists>ks. tree_inv arp_compare every (arp_tree bob_stale) ks \<and> set ks = {old_alice}"
    using t by (auto simp: bob_stale_def)
  then show ?thesis
    by (simp add: arp_inv_def) (simp add: bob_stale_def bob_def arp_host_def freed_def List.map_filter_simps PICO_ARP_MAX_RATE_def old_alice_def)
qed

theorem arp_stale_keeps_old_mac_witness:
  "\<exists>s'. pico_arp_receive bob_stale (eth_rx 1 (arp_bytes mac_bob mac_alice PICO_ARP_REPLY mac_alice ip_alice mac_bob ip_bob) []) = Some (0, s')
    \<and> pico_arp_lookup s' ip_alice = Some (Some mac_bob) \<and> mac_bob \<noteq> mac_alice"
proof -
  have r: "arp_ready bob_stale" using host_ready [of ip_bob mac_bob] by (simp add: bob_stale_def bob_def arp_ready_def)
  have u: "arp_for_us bob_stale 1 PICO_ARP_REPLY mac_alice ip_bob"
    by (rule for_us_links [OF _ _ hosts(2)]) (simp_all add: bob_stale_def)
  have m: "a_macs bob_stale 1 = Some mac_bob" using hosts(6) by (simp add: bob_stale_def)
  have k: "old_alice \<in> {old_alice}" "arp_status (entries bob_stale (a_ptr old_alice)) = PICO_ARP_STATUS_STALE"
    "a_eth (entries bob_stale (a_ptr old_alice)) = mac_bob" "a_ipv4 old_alice = ip_alice"
    by (simp_all add: bob_stale_def old_alice_def)
  have "mac_bob \<noteq> mac_alice" by (simp add: mac_alice_def mac_bob_def)
  then show ?thesis
    using arp_stale_keeps_old_mac [OF bob_stale_inv r hosts(4) hosts(3) hosts(3) hosts(4) hosts(4) u m k(1,2), of "[]"] k(3,4) by simp
qed

end
