(* ===== verification/Ethernet_Props.thy ===== *)
theory Ethernet_Props
  imports Ethernet Arp_Exchange
begin

text \<open>
  From one host to the next: what the IPv4 layer hands to Ethernet arrives, unchanged, at the IPv4 layer of the
  neighbour whose address ARP knows; the addresses of groups; and the frames that are lost on the way.
\<close>

section \<open>Headers\<close>

lemma bytes16_cases: "\<exists>a b. bytes16 v = [a, b]" by (simp add: bytes16_def)

lemma buf_write_append:
  "length xs = i \<Longrightarrow> length ms = length cs \<Longrightarrow> buf_write (xs @ ms @ ys) i cs = Some (xs @ cs @ ys)"
  by (rule buf_at)

lemma write_header_bytes:
  assumes "a_macs s (e_dev f) = Some own" "mac_ok own" "mac_ok dst" "14 \<le> e_start f" "e_start f \<le> length (e_buf f)"
  defines "st \<equiv> e_start f - 14"
  shows "eth_write_header s f dst proto = Some (f\<lparr>e_buf := take st (e_buf f) @ dst @ own @ bytes16 proto @ drop (e_start f) (e_buf f),
    e_start := st, e_len := e_len f + 14, e_dl := Some st\<rparr>)"
proof -
  define pre old tl where "pre = take st (e_buf f)" and "old = take 14 (drop st (e_buf f))" and "tl = drop (e_start f) (e_buf f)"
  have st: "st + 14 = e_start f" using assms(4) by (simp add: st_def)
  have b: "e_buf f = pre @ old @ tl"
  proof -
    have "drop 14 (drop st (e_buf f)) = tl" using st by (simp add: tl_def add.commute)
    then show ?thesis by (metis append_take_drop_id old_def pre_def)
  qed
  have l: "length pre = st" "length old = 14" using assms(5) st by (simp_all add: pre_def old_def)
  define o1 o2 o3 where "o1 = take 6 old" and "o2 = take 6 (drop 6 old)" and "o3 = drop 12 old"
  have "take 6 (drop 6 old) @ drop 12 old = drop 6 old" by (metis (no_types) append_take_drop_id drop_drop add_numeral_left numeral_plus_numeral semiring_norm(2,3,6,10))
  then have o: "old = o1 @ o2 @ o3" by (simp add: o1_def o2_def o3_def)
  have lo: "length o1 = 6" "length o2 = 6" "length o3 = 2" using l(2) by (simp_all add: o1_def o2_def o3_def)
  have w1: "buf_write (e_buf f) (st + EH_saddr) own = Some (pre @ o1 @ own @ o3 @ tl)"
    using buf_write_append [of "pre @ o1" "st + 6" o2 own "o3 @ tl"] l lo assms(2) by (simp add: b o EH_saddr_def)
  have w2: "buf_write (pre @ o1 @ own @ o3 @ tl) (st + EH_daddr) dst = Some (pre @ dst @ own @ o3 @ tl)"
    using buf_write_append [of pre st o1 dst "own @ o3 @ tl"] l lo assms(3) by (simp add: EH_daddr_def)
  have w3: "buf_write (pre @ dst @ own @ o3 @ tl) (st + EH_proto) (bytes16 proto) = Some (pre @ dst @ own @ bytes16 proto @ tl)"
    using buf_write_append [of "pre @ dst @ own" "st + 12" o3 "bytes16 proto" tl] l lo assms(2,3) by (simp add: EH_proto_def)
  have "eth_write_header s f dst proto = Some (f\<lparr>e_buf := pre @ dst @ own @ bytes16 proto @ tl, e_start := st, e_len := e_len f + 14, e_dl := Some st\<rparr>)"
    using assms(1,4) w1 w2 w3 by (simp add: eth_write_header_def PICO_SIZE_ETHHDR_def st_def [symmetric])
  then show ?thesis by (simp add: pre_def tl_def)
qed

section \<open>Transmission\<close>

lemma mid_frame_bound:
  assumes "8 \<le> k" "k < 2 ^ 32"
  defines "mid \<equiv> push_bit 1 (drop_bit 2 (of_nat k :: u32))"
  shows "unat (mid - mid mod 4) + 4 \<le> k"
proof -
  have "unat (of_nat k :: u32) = k" using assms(2) by (simp add: unat_of_nat take_bit_nat_eq_self)
  then have d: "unat (drop_bit 2 (of_nat k :: u32)) = k div 4" by (simp add: unat_drop_bit_div)
  have "unat mid = (k div 4 * 2) mod 2 ^ 32" unfolding mid_def by (simp add: push_bit_eq_mult unat_word_ariths d mult.commute)
  then have u: "unat mid = k div 4 * 2" using assms(2) by simp
  have "mid mod 4 \<le> mid" by (simp add: word_le_nat_alt unat_mod)
  then have "unat (mid - mid mod 4) \<le> unat mid" by (simp add: unat_sub)
  then show ?thesis using u assms(1) by simp
qed

lemma sendto_runs:
  assumes "e_dev f \<noteq> 0" "a_enq s = []" "8 \<le> length (e_buf f)" "length (e_buf f) < 2 ^ 32"
  shows "\<exists>es. pico_sendto_dev s f = Some (1, s\<lparr>a_effects := a_effects s @ es @ [Enq_dev_out (e_dev f) f]\<rparr>) \<and> set es \<subseteq> range Rand_feed"
proof (cases "e_len f > 8")
  case True
  define mid where "mid = push_bit 1 (drop_bit 2 (of_nat (length (e_buf f)) :: u32))"
  have "unat (mid - mid mod 4) + 4 \<le> length (e_buf f)" unfolding mid_def by (rule mid_frame_bound [OF assms(3,4)])
  then obtain r where r: "buf32 (e_buf f) (unat (mid - mid mod 4)) = Some r" by (simp add: buf32_def)
  from r have "pico_sendto_dev s f = Some (1, s\<lparr>a_effects := a_effects s @ [Rand_feed r] @ [Enq_dev_out (e_dev f) f]\<rparr>)"
    using assms(1,2) True unfolding mid_def by (simp add: pico_sendto_dev_def Let_def arp_enqueue_def arp_effect_def)
  then show ?thesis by (intro exI [of _ "[Rand_feed r]"]) simp
next
  case False
  then show ?thesis using assms(1,2)
    by (intro exI [of _ "[]"]) (simp add: pico_sendto_dev_def arp_enqueue_def arp_effect_def)
qed

text \<open>The frame that leaves: the header before the bytes from \<open>n\<close> on.\<close>

definition framed :: "eth_frame \<Rightarrow> nat \<Rightarrow> u8 list \<Rightarrow> u8 list \<Rightarrow> u16 \<Rightarrow> eth_frame" where
  "framed f n dst own proto = f\<lparr>e_buf := take (n - 14) (e_buf f) @ dst @ own @ bytes16 proto @ drop n (e_buf f),
     e_start := n - 14, e_len := e_len f + 14, e_dl := Some (n - 14)\<rparr>"

lemma framed_length:
  "14 \<le> n \<Longrightarrow> n \<le> length (e_buf f) \<Longrightarrow> mac_ok dst \<Longrightarrow> mac_ok own \<Longrightarrow> length (e_buf (framed f n dst own proto)) = length (e_buf f)"
  by (simp add: framed_def)

lemma framed_net:
  assumes "14 \<le> n" "n \<le> length (e_buf f)" "mac_ok dst" "mac_ok own"
  shows "drop n (e_buf (framed f n dst own proto)) = drop n (e_buf f)"
  using assms by (simp add: framed_def)

lemma buf32_drop: "n \<le> length b \<Longrightarrow> buf32 b (n + i) = buf32 (drop n b) i"
  by (auto simp: buf32_def get32_def add.assoc)

lemma framed_addrs:
  assumes "14 \<le> n" "n \<le> length (e_buf f)" "mac_ok dst" "mac_ok own"
  shows "buf_read (e_buf (framed f n dst own proto)) (n - 14 + EH_daddr) PICO_SIZE_ETH = Some dst"
    "buf_read (e_buf (framed f n dst own proto)) (n - 14 + EH_saddr) PICO_SIZE_ETH = Some own"
    "buf32 (e_buf (framed f n dst own proto)) (n + i) = buf32 (e_buf f) (n + i)"
proof -
  let ?p = "take (n - 14) (e_buf f)" and ?t = "own @ bytes16 proto @ drop n (e_buf f)"
  have l: "length ?p = n - 14" using assms by simp
  show "buf_read (e_buf (framed f n dst own proto)) (n - 14 + EH_daddr) PICO_SIZE_ETH = Some dst"
    using buf_at(3) [OF l, of dst PICO_SIZE_ETH ?t] assms by (simp add: framed_def EH_daddr_def PICO_SIZE_ETH_def)
  show "buf_read (e_buf (framed f n dst own proto)) (n - 14 + EH_saddr) PICO_SIZE_ETH = Some own"
    using buf_at(3) [of "?p @ dst" "n - 14 + 6" own PICO_SIZE_ETH "bytes16 proto @ drop n (e_buf f)"] l assms
    by (simp add: framed_def EH_saddr_def PICO_SIZE_ETH_def)
  show "buf32 (e_buf (framed f n dst own proto)) (n + i) = buf32 (e_buf f) (n + i)"
    using assms framed_net [OF assms, of proto] framed_length [OF assms, of proto] by (simp add: buf32_drop)
qed

lemma eth_push_runs:
  assumes f: "e_net f = Some n" "e_start f = n" "14 \<le> n" "n + 20 \<le> length (e_buf f)" "length (e_buf f) < 2 ^ 32" "e_dev f \<noteq> 0"
    and m: "a_macs s (e_dev f) = Some own" "mac_ok own" "mac_ok dst" "dst \<noteq> own"
    and ip: "buf32 (e_buf f) (n + IP4_dst) = Some d" "d \<noteq> PICO_IP4_BCAST" and q: "a_enq s = []"
  shows "\<exists>es. eth_push s f dst proto = Some (sint (e_len f + 14),
      s\<lparr>a_effects := a_effects s @ es @ [Enq_dev_out (e_dev f) (framed f n dst own proto)]\<rparr>) \<and> set es \<subseteq> range Rand_feed"
proof -
  let ?g = "framed f n dst own proto"
  have n: "n \<le> length (e_buf f)" using f(4) by simp
  have g: "e_dev ?g = e_dev f" "e_net ?g = Some n" "e_len ?g = e_len f + 14" "e_dl ?g = Some (n - 14)" using f(1) by (simp_all add: framed_def)
  have l: "length (e_buf ?g) = length (e_buf f)" by (rule framed_length [OF f(3) n m(3,2)])
  have h: "eth_check_headroom s f = Some (True, f, s)" using f(1,3) by (simp add: eth_check_headroom_def PICO_SIZE_ETHHDR_def)
  have w: "eth_write_header s f dst proto = Some ?g"
    using write_header_bytes [OF m(1-3), of proto] f(2,3) n by (simp add: framed_def)
  have loc: "pico_ethsend_local s ?g (e_dl ?g) = Some (False, s)"
    using framed_addrs(1,2) [OF f(3) n m(3,2)] m(4) by (simp add: pico_ethsend_local_def g)
  have bc: "pico_ethsend_bcast s ?g = Some (False, s)"
    using framed_addrs(3) [OF f(3) n m(3,2), of proto IP4_dst] ip by (simp add: pico_ethsend_bcast_def g)
  obtain es where es: "pico_sendto_dev s ?g = Some (1, s\<lparr>a_effects := a_effects s @ es @ [Enq_dev_out (e_dev f) ?g]\<rparr>)" "set es \<subseteq> range Rand_feed"
    using sendto_runs [of ?g s] f(4-6) q l g(1) by auto
  have "eth_push s f dst proto = Some (sint (e_len f + 14), s\<lparr>a_effects := a_effects s @ es @ [Enq_dev_out (e_dev f) ?g]\<rparr>)"
    using h w loc bc es(1) g(3) by (simp add: eth_push_def pico_ethsend_dispatch_def)
  then show ?thesis using es(2) by blast
qed

section \<open>Reception\<close>

text \<open>What \<open>pico_devloop\<close> makes of a frame that an Ethernet driver has received.\<close>

lemma receive_ip_runs:
  assumes "a_enq s = []" "a_macs s dev = Some own" "mac_ok own" "mac_ok sa" "eth_for_us own da" "mac_ok da" "dev \<noteq> 0"
    and "ip = v # ip'" "v AND 0xF0 = 0x40"
  defines "f \<equiv> \<lparr>e_dev = dev, e_buf = da @ sa @ bytes16 PICO_IDETH_IPV4 @ ip, e_dl = Some 0, e_net = None, e_start = 0,
      e_len = of_nat (14 + length ip), e_flags = 0, e_fail = 0\<rparr>"
  shows "\<exists>h. pico_ethernet_receive s (Some f) = Some (int (14 + length ip), arp_effect (Enq_ipv4_in h) s)
    \<and> e_net h = Some 14 \<and> drop 14 (e_buf h) = ip \<and> e_dev h = dev \<and> e_flags h = (if da = PICO_ETHADDR_ALL then PICO_FRAME_FLAG_BCAST else 0)"
proof -
  define g where "g = f\<lparr>e_flags := (if da = PICO_ETHADDR_ALL then PICO_FRAME_FLAG_BCAST else 0)\<rparr>"
  define h where "h = g\<lparr>e_net := Some 14\<rparr>"
  have da: "buf_read (e_buf f) EH_daddr PICO_SIZE_ETH = Some da"
    using buf_here(3) [OF assms(6)] by (simp add: f_def EH_daddr_def PICO_SIZE_ETH_def)
  have pr: "buf16 (e_buf f) EH_proto = Some PICO_IDETH_IPV4"
    using buf_at(1) [of "da @ sa" 12 PICO_IDETH_IPV4 ip] assms(4,6) by (simp add: f_def EH_proto_def)
  have net: "drop 14 (e_buf f) = ip" using assms(4,6) by (simp add: f_def)
  then have v: "buf_read (e_buf f) 14 1 = Some [v]" using assms(4,6,8) by (simp add: buf_read_def f_def)
  have c: "pico_eth_check_bcast f 0 = Some g" using da by (simp add: pico_eth_check_bcast_def g_def f_def)
  have l: "length (e_buf h) = 14 + length ip" using assms(4,6) by (simp add: h_def g_def f_def)
  have iv: "ip_version h = Some 0x40" using v assms(9) by (simp add: ip_version_def h_def g_def)
  have "pico_eth_receive s g 0 = pico_ipv4_ethernet_receive s h"
    using pr by (simp add: pico_eth_receive_def g_def h_def PICO_SIZE_ETHHDR_def PICO_IDETH_ARP_def PICO_IDETH_IPV4_def)
  also have "\<dots> = Some (int (14 + length ip), arp_effect (Enq_ipv4_in h) s)"
    using iv l assms(1) by (simp add: pico_ipv4_ethernet_receive_def arp_enqueue_def)
  finally have "pico_ethernet_receive s (Some f) = Some (int (14 + length ip), arp_effect (Enq_ipv4_in h) s)"
    using da c assms(2,5,7) by (simp add: pico_ethernet_receive_def f_def)
  moreover have "drop 14 (e_buf h) = ip" "e_dev h = dev" using net by (simp_all add: h_def g_def f_def)
  ultimately show ?thesis by (auto simp: h_def g_def)
qed

text \<open>The frame of a driver: \<open>pico_stack_recv\<close>, then \<open>pico_devloop\<close>, which sets the Ethernet header.\<close>

lemma stack_recv_runs:
  assumes "a_mem s = []" "a_enq s = []" "bs \<noteq> []" "length bs < 2 ^ 32"
  shows "\<exists>es. pico_stack_recv s dev bs = Some (1, s\<lparr>a_effects := a_effects s @ es @ [Enq_dev_in dev \<lparr>e_dev = dev, e_buf = bs,
      e_dl = None, e_net = None, e_start = 0, e_len = of_nat (length bs), e_flags = 0, e_fail = 0\<rparr>]\<rparr>) \<and> set es \<subseteq> {Rand_feed 0}"
proof (cases "length bs > 8")
  case True
  define mid where "mid = push_bit 1 (drop_bit 2 (of_nat (length bs) :: u32))"
  have m: "unat (mid - mid mod 4) + 4 \<le> length bs" unfolding mid_def by (rule mid_frame_bound) (use True assms(4) in auto)
  have "get32 (replicate (length bs) 0) (unat (mid - mid mod 4)) = 0" using m by (simp add: get32_def)
  then have "buf32 (replicate (length bs) 0) (unat (mid - mid mod 4)) = Some 0" using m by (simp add: buf32_def)
  then show ?thesis using assms(1-3) True unfolding mid_def
    by (intro exI [of _ "[Rand_feed 0]"])
      (simp add: pico_stack_recv_def pico_stack_recv_new_frame_def arp_alloc_def Let_def arp_enqueue_def arp_effect_def)
next
  case False
  then show ?thesis using assms(1-3)
    by (intro exI [of _ "[]"]) (simp add: pico_stack_recv_def pico_stack_recv_new_frame_def arp_alloc_def arp_enqueue_def arp_effect_def)
qed

section \<open>From host to host\<close>

text \<open>The Ethernet address for an IPv4 destination that is not ours: that of the gateway, or its own.\<close>

definition resolves :: "arp_state \<Rightarrow> u32 \<Rightarrow> u8 list \<Rightarrow> bool" where
  "resolves s d mac \<longleftrightarrow> (pico_ipv4_link_get (a_links s) d = Some None \<and>
     (case pico_ipv4_route_get_gateway (a_links s) (Some d) of None \<Rightarrow> False
      | Some (gw, _) \<Rightarrow> pico_arp_lookup s (if gw = 0 then d else gw) = Some (Some mac)))"

lemma lookup_links [simp]: "pico_arp_lookup (s\<lparr>a_links := i\<rparr>) a = pico_arp_lookup s a"
  by (simp add: pico_arp_lookup_def cong: option.case_cong if_cong)

lemma get_resolves:
  assumes "resolves s d mac" "e_net f = Some n" "buf32 (e_buf f) (n + 16) = Some d"
  shows "\<exists>i. pico_arp_get s f = Some (Some mac, f, s\<lparr>a_links := i\<rparr>)"
proof -
  obtain gw i where g: "pico_ipv4_link_get (a_links s) d = Some None" "pico_ipv4_route_get_gateway (a_links s) (Some d) = Some (gw, i)"
    "pico_arp_lookup s (if gw = 0 then d else gw) = Some (Some mac)"
    using assms(1) by (auto simp: resolves_def split: option.splits)
  have w: "(if gw \<noteq> 0 then gw else d) = (if gw = 0 then d else gw)" by simp
  have "pico_arp_get s f = Some (Some mac, f, s\<lparr>a_links := i\<rparr>)"
    using assms(2,3) g by (simp add: pico_arp_get_def Let_def w)
  then show ?thesis by blast
qed

text \<open>A frame of the IPv4 layer: its header at \<open>n\<close>, room for the Ethernet header before it, its start there.\<close>

definition ip_out :: "eth_frame \<Rightarrow> nat \<Rightarrow> u32 \<Rightarrow> bool" where
  "ip_out f n d \<longleftrightarrow> e_net f = Some n \<and> e_start f = n \<and> 14 \<le> n \<and> n + 20 \<le> length (e_buf f) \<and> length (e_buf f) < 2 ^ 31
     \<and> e_len f = of_nat (length (e_buf f) - n) \<and> e_dev f \<noteq> 0 \<and> e_flags f AND PICO_FRAME_FLAG_BCAST = 0
     \<and> (e_buf f ! n) AND 0xF0 = 0x40 \<and> buf32 (e_buf f) (n + IP4_dst) = Some d"

lemma send_runs:
  assumes f: "ip_out f n d" and d: "pico_ipv4_is_broadcast (a_links s) d = Some False" "\<not> pico_ipv4_is_multicast d"
    and r: "resolves s d mac" and m: "a_macs s (e_dev f) = Some own" "mac_ok own" "mac_ok mac" "mac \<noteq> own" and q: "a_enq s = []"
  shows "\<exists>i es. pico_ethernet_send s f = Some (sint (e_len f + 14), s\<lparr>a_links := i,
      a_effects := a_effects s @ es @ [Enq_dev_out (e_dev f) (framed f n mac own PICO_IDETH_IPV4)]\<rparr>)"
proof -
  have ff: "e_net f = Some n" "e_start f = n" "14 \<le> n" "n + 20 \<le> length (e_buf f)" "length (e_buf f) < 2 ^ 32" "e_dev f \<noteq> 0"
    "buf32 (e_buf f) (n + IP4_dst) = Some d" "\<not> IS_BCAST f" using f by (auto simp: ip_out_def IS_BCAST_def PICO_FRAME_FLAG_BCAST_def)
  have "buf_read (e_buf f) n 1 = Some [e_buf f ! n]" using ff(4) by (simp add: buf_read_def take_Suc_conv_app_nth hd_drop_conv_nth)
  then have v: "ip_version f = Some 0x40" using f ff(1) by (simp add: ip_version_def ip_out_def)
  have nb: "d \<noteq> PICO_IP4_BCAST" using d(1) by (auto simp: pico_ipv4_is_broadcast_def)
  have b: "destination_is_bcast s f = Some False" using v ff(1,7) d(1) by (simp add: destination_is_bcast_def)
  have mc: "destination_is_mcast f = Some False" using v ff(1,7) d(2) by (simp add: destination_is_mcast_def)
  obtain i where i: "pico_arp_get s f = Some (Some mac, f, s\<lparr>a_links := i\<rparr>)"
    using get_resolves [OF r ff(1)] ff(7) by (auto simp: IP4_dst_def)
  obtain es where es: "eth_push (s\<lparr>a_links := i\<rparr>) f mac PICO_IDETH_IPV4 = Some (sint (e_len f + 14),
      s\<lparr>a_links := i\<rparr>\<lparr>a_effects := a_effects (s\<lparr>a_links := i\<rparr>) @ es @ [Enq_dev_out (e_dev f) (framed f n mac own PICO_IDETH_IPV4)]\<rparr>)"
    using eth_push_runs [of f n "s\<lparr>a_links := i\<rparr>" own mac d PICO_IDETH_IPV4] ff m nb q by auto
  have "pico_ethernet_send s f = eth_push (s\<lparr>a_links := i\<rparr>) f mac PICO_IDETH_IPV4"
    using v b mc i ff(8) by (simp add: pico_ethernet_send_def)
  then show ?thesis using es by auto
qed

lemma framed_sent:
  assumes "ip_out f n d" "mac_ok mac" "mac_ok own"
  shows "sent_bytes (framed f n mac own p) = Some (mac @ own @ bytes16 p @ drop n (e_buf f))"
proof -
  have n: "14 \<le> n" "n + 20 \<le> length (e_buf f)" "length (e_buf f) < 2 ^ 31" "e_len f = of_nat (length (e_buf f) - n)"
    using assms(1) by (simp_all add: ip_out_def)
  have "e_len (framed f n mac own p) = of_nat (length (e_buf f) - n + 14)" using n by (simp add: framed_def)
  then have l: "unat (e_len (framed f n mac own p)) = length (e_buf f) - n + 14"
    using n unat_of_nat_u32 [of "length (e_buf f) - n + 14"] by simp
  show ?thesis using l n assms(2,3) by (simp add: sent_bytes_def buf_read_def framed_def)
qed

text \<open>C11: a packet that IPv4 hands to Ethernet for a neighbour ARP knows reaches the neighbour: it goes to the
  device in one frame, and what the neighbour's driver, Ethernet and IPv4 layers get of this frame is the packet,
  byte for byte.\<close>

theorem ethernet_delivers:
  assumes "ip_out f n d" "pico_ipv4_is_broadcast (a_links a) d = Some False" "\<not> pico_ipv4_is_multicast d" "resolves a d macb"
    and "a_macs a (e_dev f) = Some maca" "mac_ok maca" "mac_ok macb" "macb \<noteq> maca" "a_enq a = []"
    and "a_macs b db = Some macb" "db \<noteq> 0" "a_enq b = []" "a_mem b = []"
  shows "\<exists>r a' g bs b1 fr b2 fr' k b3 h. pico_ethernet_send a f = Some (r, a') \<and> last (a_effects a') = Enq_dev_out (e_dev f) g
    \<and> sent_bytes g = Some bs \<and> pico_stack_recv b db bs = Some (1, b1) \<and> last (a_effects b1) = Enq_dev_in db fr
    \<and> pico_datalink_receive b1 fr = Some (1, b2) \<and> last (a_effects b2) = Enq_ethernet_in fr'
    \<and> pico_ethernet_receive b2 (Some fr') = Some (k, b3) \<and> 0 < k \<and> last (a_effects b3) = Enq_ipv4_in h
    \<and> e_net h = Some 14 \<and> drop 14 (e_buf h) = drop n (e_buf f)"
proof -
  let ?g = "framed f n macb maca PICO_IDETH_IPV4" and ?ip = "drop n (e_buf f)"
  let ?bs = "macb @ maca @ bytes16 PICO_IDETH_IPV4 @ ?ip"
  have n: "n + 20 \<le> length (e_buf f)" "length (e_buf f) < 2 ^ 31" "(e_buf f ! n) AND 0xF0 = 0x40" using assms(1) by (simp_all add: ip_out_def)
  obtain r a' where s: "pico_ethernet_send a f = Some (r, a')" "last (a_effects a') = Enq_dev_out (e_dev f) ?g"
    using send_runs [OF assms(1-9)] by fastforce
  have sb: "sent_bytes ?g = Some ?bs" by (rule framed_sent [OF assms(1,7,6)])
  let ?fr = "\<lparr>e_dev = db, e_buf = ?bs, e_dl = None, e_net = None, e_start = 0, e_len = of_nat (length ?bs), e_flags = 0, e_fail = 0\<rparr>"
  have ne: "?bs \<noteq> []" "length ?bs < 2 ^ 32" using n assms(6,7) by auto
  obtain es where b1: "pico_stack_recv b db ?bs = Some (1, b\<lparr>a_effects := a_effects b @ es @ [Enq_dev_in db ?fr]\<rparr>)"
    using stack_recv_runs [OF assms(13,12) ne, of db] by blast
  define b1 where "b1 = b\<lparr>a_effects := a_effects b @ es @ [Enq_dev_in db ?fr]\<rparr>"
  define b2 where "b2 = arp_effect (Enq_ethernet_in (?fr\<lparr>e_dl := Some 0\<rparr>)) b1"
  have r2: "pico_datalink_receive b1 ?fr = Some (1, b2)"
    using assms(10-12) by (simp add: pico_datalink_receive_def arp_enqueue_def b2_def b1_def)
  have e2: "a_enq b2 = []" "a_macs b2 db = Some macb" "last (a_effects b2) = Enq_ethernet_in (?fr\<lparr>e_dl := Some 0\<rparr>)"
    using assms(10,12) by (simp_all add: b2_def b1_def arp_effect_def)
  obtain v ip' where ip: "?ip = v # ip'" "v AND 0xF0 = 0x40" using n by (metis Cons_nth_drop_Suc add_leD1 le_add_same_cancel1 less_le_trans linorder_not_less not_add_less1 zero_less_numeral add_less_cancel_left add.right_neutral)
  have fu: "eth_for_us macb macb" by (simp add: eth_for_us_def)
  have lip: "length ?bs = 14 + length ?ip" using assms(6,7) by simp
  obtain h where h: "pico_ethernet_receive b2 (Some (?fr\<lparr>e_dl := Some 0\<rparr>)) = Some (int (14 + length ?ip), arp_effect (Enq_ipv4_in h) b2)"
    "e_net h = Some 14" "drop 14 (e_buf h) = ?ip"
    using receive_ip_runs [OF e2(1,2) assms(7,6) fu assms(7,11) ip] unfolding lip by auto
  have l3: "last (a_effects (arp_effect (Enq_ipv4_in h) b2)) = Enq_ipv4_in h" by (simp add: arp_effect_def)
  have l1: "last (a_effects b1) = Enq_dev_in db ?fr" by (simp add: b1_def)
  have "0 < int (14 + length ?ip)" by simp
  then show ?thesis using s sb b1 [folded b1_def] l1 r2 e2(3) h l3 by blast
qed

section \<open>Groups\<close>

text \<open>The address of a group is one that every host takes in.\<close>

lemma mcast_translate_received: "eth_for_us own (pico_ethernet_mcast_translate d PICO_ETHADDR_MCAST)"
  by (simp add: eth_for_us_def pico_ethernet_mcast_translate_def PICO_ETHADDR_MCAST_def PICO_SIZE_MCAST_def Let_def)

lemma mcast6_translate_received: "eth_for_us own (pico_ethernet_mcast6_translate d PICO_ETHADDR_MCAST6)"
  by (simp add: eth_for_us_def pico_ethernet_mcast6_translate_def PICO_ETHADDR_MCAST6_def PICO_SIZE_MCAST6_def)

section \<open>Lost frames\<close>

text \<open>A frame for our own address is received as a copy; the frame itself is neither freed nor queued.\<close>

lemma own_mac_never_freed:
  assumes f: "e_net f = Some n" "e_start f = n" "14 \<le> n" "n + 20 \<le> length (e_buf f)" "e_dev f \<noteq> 0"
    and m: "a_macs s (e_dev f) = Some own" "mac_ok own" and q: "a_enq s = []" "a_mem s = []" and v: "(e_buf f ! n) AND 0xF0 = 0x40"
  shows "\<exists>h. eth_push s f own PICO_IDETH_IPV4 = Some (sint (e_len f + 14), arp_effect (Enq_ipv4_in h) s)"
proof -
  let ?g = "framed f n own own PICO_IDETH_IPV4"
  have n: "n \<le> length (e_buf f)" using f(4) by simp
  have g: "e_dev ?g = e_dev f" "e_net ?g = Some n" "e_len ?g = e_len f + 14" "e_dl ?g = Some (n - 14)" using f(1) by (simp_all add: framed_def)
  have h: "eth_check_headroom s f = Some (True, f, s)" using f(1,3) by (simp add: eth_check_headroom_def PICO_SIZE_ETHHDR_def)
  have w: "eth_write_header s f own PICO_IDETH_IPV4 = Some ?g"
    using write_header_bytes [OF m(1,2,2), of PICO_IDETH_IPV4] f(2,3) n by (simp add: framed_def)
  note addrs = framed_addrs [OF f(3) n m(2,2), of PICO_IDETH_IPV4]
  have pr: "buf16 (e_buf ?g) (n - 14 + EH_proto) = Some PICO_IDETH_IPV4"
    using buf_at(1) [of "take (n - 14) (e_buf f) @ own @ own" "n - 14 + 12" PICO_IDETH_IPV4 "drop n (e_buf f)"] n m(2)
    by (simp add: framed_def EH_proto_def)
  have net: "n - 14 + PICO_SIZE_ETHHDR = n" using f(3) by (simp add: PICO_SIZE_ETHHDR_def)
  have "drop n (e_buf ?g) = drop n (e_buf f)" "length (e_buf ?g) = length (e_buf f)"
    by (rule framed_net [OF f(3) n m(2,2)], rule framed_length [OF f(3) n m(2,2)])
  then have "buf_read (e_buf ?g) n 1 = Some [e_buf f ! n]" using f(4) by (simp add: buf_read_def take_Suc_conv_app_nth hd_drop_conv_nth)
  moreover obtain k where k: "pico_eth_check_bcast ?g (n - 14) = Some k" "e_buf k = e_buf ?g"
    using addrs(1) by (auto simp: pico_eth_check_bcast_def)
  ultimately have iv: "ip_version (k\<lparr>e_net := Some n\<rparr>) = Some 0x40" using v by (simp add: ip_version_def)
  have "pico_eth_receive s k (n - 14) = pico_ipv4_ethernet_receive s (k\<lparr>e_net := Some n\<rparr>)"
    using pr k(2) net by (simp add: pico_eth_receive_def PICO_IDETH_ARP_def PICO_IDETH_IPV4_def)
  also have "\<dots> = Some (int (length (e_buf ?g)), arp_effect (Enq_ipv4_in (k\<lparr>e_net := Some n\<rparr>)) s)"
    using iv k(2) q(1) by (simp add: pico_ipv4_ethernet_receive_def arp_enqueue_def)
  finally have "pico_ethernet_receive s (Some ?g) = Some (int (length (e_buf ?g)), arp_effect (Enq_ipv4_in (k\<lparr>e_net := Some n\<rparr>)) s)"
    using g addrs(1) m(1) f(5) k(1) by (simp add: pico_ethernet_receive_def eth_for_us_def)
  then have "pico_ethsend_local s ?g (e_dl ?g) = Some (True, arp_effect (Enq_ipv4_in (k\<lparr>e_net := Some n\<rparr>)) s)"
    using addrs(1,2) q(2) by (simp add: pico_ethsend_local_def g arp_alloc_def)
  then show ?thesis using h w g(3) by (auto simp: eth_push_def)
qed

text \<open>When every slot is taken, a frame that waits for an address is dropped without being freed.\<close>

lemma postpone_full:
  assumes "length (frames_queued s) = PICO_ARP_MAX_PENDING" "None \<notin> set (frames_queued s)"
  shows "pico_arp_postpone s f = s"
proof -
  have "postpone_loop is f s = s" if "\<forall>i \<in> set is. frames_queued s ! i \<noteq> None" for "is"
    using that by (induction "is") auto
  moreover have "\<forall>i \<in> set [0..<PICO_ARP_MAX_PENDING]. frames_queued s ! i \<noteq> None" using assms by (metis atLeastLessThan_iff nth_mem set_upt)
  ultimately show ?thesis by (simp add: pico_arp_postpone_def)
qed

section \<open>Alice and Bob\<close>

definition bob_entry :: pico_arp where "bob_entry = \<lparr>a_ptr = 1, a_ipv4 = ip_bob, a_dev = 1\<rparr>"

definition alice_knows :: arp_state where
  "alice_knows = alice\<lparr>arp_tree := (case pico_tree_insert arp_compare empty_tree bob_entry True of Some (_, t) \<Rightarrow> t | None \<Rightarrow> empty_tree),
     entries := (\<lambda>_. \<lparr>a_eth = mac_bob, arp_status = PICO_ARP_STATUS_REACHABLE, a_timestamp = 0\<rparr>), arp_next := 2, a_timers := [bob_entry]\<rparr>"

lemma alice_knows_inv: "arp_inv alice_knows {bob_entry}"
proof -
  have "keys_find arp_compare bob_entry [] = None" using arps.find_None [of bob_entry "[]"] by simp
  then obtain t where t: "pico_tree_insert arp_compare empty_tree bob_entry True = Some (Ins_NULL, t)"
    "tree_inv arp_compare every t (keys_insert arp_compare bob_entry [])"
    using arps.insert_inv [OF tree_inv_empty, where key = bob_entry and mem_ok = True] by auto
  have "set (keys_insert arp_compare bob_entry []) = {bob_entry}" using arps.insert_set [of bob_entry "[]"] by simp
  then have "\<exists>ks. tree_inv arp_compare every (arp_tree alice_knows) ks \<and> set ks = {bob_entry}"
    using t by (auto simp: alice_knows_def)
  then show ?thesis
    by (simp add: arp_inv_def) (auto simp: alice_knows_def alice_def arp_host_def freed_def List.map_filter_simps PICO_ARP_MAX_RATE_def bob_entry_def
        PICO_ARP_STATUS_REACHABLE_def PICO_ARP_STATUS_STALE_def)
qed

definition a_packet :: eth_frame where
  "a_packet = \<lparr>e_dev = 1, e_buf = replicate 14 0 @ [0x45, 0, 0, 20, 0, 1, 0, 0, 64, 17, 0, 0, 10, 0, 0, 1, 10, 0, 0, 2], e_dl = None, e_net = Some 14,
     e_start = 14, e_len = 20, e_flags = 0, e_fail = 0\<rparr>"

lemma a_packet_out: "ip_out a_packet 14 ip_bob"
proof -
  have "buf32 (e_buf a_packet) (14 + IP4_dst) = Some ip_bob" by code_simp
  then show ?thesis by (simp add: ip_out_def a_packet_def nth_append)
qed

lemma alice_resolves: "resolves alice_knows ip_bob mac_bob"
proof -
  have "pico_ipv4_link_get (host_links ip_alice) ip_bob = Some None"
    "map_option fst (pico_ipv4_route_get_gateway (host_links ip_alice) (Some ip_bob)) = Some 0" by code_simp+
  moreover have "pico_arp_lookup alice_knows (a_ipv4 bob_entry) = Some (Some mac_bob)"
    using lookup_member [OF alice_knows_inv, of bob_entry]
    by (simp add: alice_knows_def PICO_ARP_STATUS_REACHABLE_def PICO_ARP_STATUS_STALE_def)
  ultimately show ?thesis
    by (auto simp: resolves_def bob_entry_def) (simp_all add: alice_knows_def alice_def arp_host_def)
qed

theorem ethernet_delivers_witness:
  "\<exists>r a' g bs b1 fr b2 fr' k b3 h. pico_ethernet_send alice_knows a_packet = Some (r, a') \<and> last (a_effects a') = Enq_dev_out 1 g
    \<and> sent_bytes g = Some bs \<and> pico_stack_recv bob 1 bs = Some (1, b1) \<and> last (a_effects b1) = Enq_dev_in 1 fr
    \<and> pico_datalink_receive b1 fr = Some (1, b2) \<and> last (a_effects b2) = Enq_ethernet_in fr'
    \<and> pico_ethernet_receive b2 (Some fr') = Some (k, b3) \<and> last (a_effects b3) = Enq_ipv4_in h \<and> drop 14 (e_buf h) = drop 14 (e_buf a_packet)"
proof -
  have b: "pico_ipv4_is_broadcast (host_links ip_alice) ip_bob = Some False" "\<not> pico_ipv4_is_multicast ip_bob" by code_simp+
  have l: "a_links alice_knows = host_links ip_alice" "a_macs alice_knows (e_dev a_packet) = Some mac_alice" "a_enq alice_knows = []" "e_dev a_packet = 1"
    by (simp_all add: alice_knows_def alice_def arp_host_def a_packet_def)
  have o: "a_enq bob = []" "a_mem bob = []" "(1 :: nat) \<noteq> 0" "mac_bob \<noteq> mac_alice"
    by (simp_all add: bob_def arp_host_def mac_alice_def mac_bob_def)
  show ?thesis
    using ethernet_delivers [OF a_packet_out b(1) [folded l(1)] b(2) alice_resolves l(2) hosts(3,4) o(4) l(3) hosts(6) o(3,1,2)] unfolding l(4) by blast
qed

end
