(* ===== verification/Icmp4.thy ===== *)
theory Icmp4
  imports Ipv4_Push PTree_Foreach
begin

text \<open>
  ICMPv4 (\<open>modules/pico_icmp4.c\<close>): echo replies, error messages and the ping client, over the IPv4 layer of
  \<open>Ipv4_Push\<close>.  A cookie of the ping client lies in the heap \<open>cookies\<close>: \<open>None\<close> there is memory that was freed
  or never allocated, and reading it gives no result.  \<open>Pings\<close> is the pointer tree of the cookies by
  identifier and sequence number; \<open>ping_timers\<close> are the timers that are pending, with the time they are due.
  Callbacks are recorded in \<open>ping_calls\<close>.  Memory and timers answer from supplies.
\<close>

definition PICO_ICMPHDR_UN_SIZE :: nat where "PICO_ICMPHDR_UN_SIZE = 8"
definition PICO_ICMP_ECHOREPLY :: u8 where "PICO_ICMP_ECHOREPLY = 0"
definition PICO_ICMP_ECHO :: u8 where "PICO_ICMP_ECHO = 8"
definition PICO_ICMP_UNREACH :: u8 where "PICO_ICMP_UNREACH = 3"
definition PICO_ICMP_TIME_EXCEEDED :: u8 where "PICO_ICMP_TIME_EXCEEDED = 11"
definition PICO_ICMP_PARAMPROB :: u8 where "PICO_ICMP_PARAMPROB = 12"
definition PICO_ICMP_UNREACH_HOST :: u8 where "PICO_ICMP_UNREACH_HOST = 1"
definition PICO_ICMP_UNREACH_PROTOCOL :: u8 where "PICO_ICMP_UNREACH_PROTOCOL = 2"
definition PICO_ICMP_UNREACH_PORT :: u8 where "PICO_ICMP_UNREACH_PORT = 3"
definition PICO_ICMP_UNREACH_NEEDFRAG :: u8 where "PICO_ICMP_UNREACH_NEEDFRAG = 4"
definition PICO_ICMP_UNREACH_FILTER_PROHIB :: u8 where "PICO_ICMP_UNREACH_FILTER_PROHIB = 13"
definition PICO_ICMP_TIMXCEED_INTRANS :: u8 where "PICO_ICMP_TIMXCEED_INTRANS = 0"
definition PICO_ICMP_TIMXCEED_REASS :: u8 where "PICO_ICMP_TIMXCEED_REASS = 1"
definition PICO_PING_ERR_REPLIED :: u16 where "PICO_PING_ERR_REPLIED = 0"
definition PICO_PING_ERR_TIMEOUT :: u16 where "PICO_PING_ERR_TIMEOUT = 1"
definition PICO_PING_ERR_ABORTED :: u16 where "PICO_PING_ERR_ABORTED = 3"
definition PICO_PING_ERR_PENDING :: u16 where "PICO_PING_ERR_PENDING = 0xFFFF"

text \<open>The offsets of the fields of \<open>struct pico_icmp4_hdr\<close>.\<close>

definition IH_type :: nat where "IH_type = 0"
definition IH_code :: nat where "IH_code = 1"
definition IH_crc :: nat where "IH_crc = 2"
definition IH_id :: nat where "IH_id = 4"
definition IH_seq :: nat where "IH_seq = 6"
definition IH_void :: nat where "IH_void = 4"
definition IH_nmtu :: nat where "IH_nmtu = 6"

section \<open>State\<close>

record ping_key =
  c_ptr :: nat
  c_id :: u16
  c_seq :: u16

record pico_icmp4_ping_cookie =
  c_key :: ping_key
  c_dst :: u32
  c_err :: u16
  c_size :: u16
  c_count :: int
  c_timestamp :: u64
  c_interval :: int
  c_timeout :: int
  c_cb :: bool

record pico_icmp4_stats =
  st_dst :: u32
  st_size :: u16
  st_seq :: u16
  st_time :: u64
  st_ttl :: u8
  st_err :: u16

datatype ping_timer = Ping_timeout nat | Next_ping nat

record icmp_state =
  ic_ip :: ip_stack
  firstpkt :: bool
  last_echo_id :: u16
  last_echo_seq :: u16
  Pings :: "ping_key pico_tree"
  cookies :: "nat \<Rightarrow> pico_icmp4_ping_cookie option"
  cookie_next :: nat
  next_ping_id :: u16
  ping_tick :: u64
  ping_timers :: "(nat \<times> ping_timer) list"
  ic_mem :: "bool list"
  ic_tmr :: "bool list"
  ic_err :: pico_err_t
  ping_calls :: "pico_icmp4_stats list"

definition icmp_alloc :: "icmp_state \<Rightarrow> bool \<times> icmp_state" where
  "icmp_alloc s = (case ic_mem s of [] \<Rightarrow> (True, s) | b # bs \<Rightarrow> (b, s\<lparr>ic_mem := bs\<rparr>))"

text \<open>\<open>pico_timer_add\<close>: due \<open>delay\<close> after now.\<close>

definition ping_timer_add :: "u32 \<Rightarrow> ping_timer \<Rightarrow> icmp_state \<Rightarrow> bool \<times> icmp_state" where
  "ping_timer_add delay t s =
     (let (ok, s) = (case ic_tmr s of [] \<Rightarrow> (True, s) | b # bs \<Rightarrow> (b, s\<lparr>ic_tmr := bs\<rparr>))
      in (ok, if ok then s\<lparr>ping_timers := ping_timers s @ [(unat (ping_tick s) + unat delay, t)]\<rparr> else s))"

section \<open>Frames\<close>

definition frame8 :: "ip_frame \<Rightarrow> nat \<Rightarrow> u8 option" where
  "frame8 f i = (if in_buffer f i 1 then Some (f_net f ! i) else None)"

definition frame16 :: "ip_frame \<Rightarrow> nat \<Rightarrow> u16 option" where
  "frame16 f i = (if in_buffer f i 2 then Some (get16 (f_net f) i) else None)"

definition pico_icmp4_checksum :: "ip_frame \<Rightarrow> ip_frame option" where
  "pico_icmp4_checksum f =
     (let t = f_trans f; n = unat (f_transport_len f); h = put16 (f_net f) (t + IH_crc) 0 in
      if in_buffer f t 4 \<and> in_buffer f t n
      then Some (f\<lparr>f_net := put16 h (t + IH_crc) (short_be (pico_checksum (drop t h) n))\<rparr>) else None)"

section \<open>The ping client\<close>

definition cookie_compare :: "ping_key \<Rightarrow> ping_key \<Rightarrow> int" where
  "cookie_compare a b = (if c_id a < c_id b then - 1 else if c_id a > c_id b then 1 else uint (c_seq a) - uint (c_seq b))"

definition set_cookie :: "nat \<Rightarrow> pico_icmp4_ping_cookie option \<Rightarrow> icmp_state \<Rightarrow> icmp_state" where
  "set_cookie p c s = s\<lparr>cookies := (cookies s)(p := c)\<rparr>"

definition pico_icmp4_send_echo :: "icmp_state \<Rightarrow> pico_icmp4_ping_cookie \<Rightarrow> (int \<times> icmp_state) option" where
  "pico_icmp4_send_echo s c = do {
     (dev, i) \<leftarrow> pico_ipv4_source_dev_find (ip (ic_ip s)) (Some (c_dst c));
     let u = (ic_ip s)\<lparr>ip := i\<rparr>;
     (if dev = 0 then Some (- 1, s\<lparr>ic_ip := u\<rparr>)
      else
        let n = of_nat PICO_ICMPHDR_UN_SIZE + c_size c;
            (echo, u) = pico_ipv4_alloc u dev n
        in case echo of
             None \<Rightarrow> Some (- 1, s\<lparr>ic_ip := u\<rparr>)
           | Some f \<Rightarrow>
               let t = f_trans f in
               (if \<not> in_buffer f t PICO_ICMPHDR_UN_SIZE then None
                else do {
                  let h = (f_net f)[t + IH_type := PICO_ICMP_ECHO, t + IH_code := 0];
                  let h = put16 h (t + IH_id) (short_be (c_id (c_key c)));
                  let h = put16 h (t + IH_seq) (short_be (c_seq (c_key c)));
                  f \<leftarrow> pico_icmp4_checksum (f\<lparr>f_net := h, f_transport_len := n, f_payload := Some (t + PICO_ICMPHDR_UN_SIZE),
                         f_payload_len := c_size c\<rparr>);
                  (r, u) \<leftarrow> pico_ipv4_frame_push u (Some f) (Some (c_dst c)) Ip_Frame.PICO_PROTO_ICMP4;
                  Some (0, s\<lparr>ic_ip := u\<rparr>) })) }"

definition ping_call :: "pico_icmp4_stats \<Rightarrow> icmp_state \<Rightarrow> icmp_state" where
  "ping_call st s = s\<lparr>ping_calls := ping_calls s @ [st]\<rparr>"

definition ping_timeout :: "icmp_state \<Rightarrow> nat \<Rightarrow> icmp_state option" where
  "ping_timeout s p = do {
     c \<leftarrow> cookies s p;
     found \<leftarrow> pico_tree_findKey cookie_compare (Pings s) (c_key c);
     (if found = None then Some s
      else do {
        s \<leftarrow> (if c_err c = PICO_PING_ERR_PENDING
              then if c_cb c then Some (ping_call \<lparr>st_dst = c_dst c, st_size = c_size c, st_seq = c_seq (c_key c), st_time = 0,
                     st_ttl = 0, st_err = PICO_PING_ERR_TIMEOUT\<rparr> s) else None
              else Some s);
        (_, t) \<leftarrow> pico_tree_delete cookie_compare (Pings s) (Some (c_key c));
        Some (set_cookie p None (s\<lparr>Pings := t\<rparr>)) }) }"

text \<open>\<open>send_ping\<close>; its report of a failure has only the error set, the other fields are not initialised.\<close>

definition ping_failed :: "icmp_state \<Rightarrow> nat \<Rightarrow> (int \<times> icmp_state) option" where
  "ping_failed s p = do {
     c \<leftarrow> cookies s p;
     let s = set_cookie p (Some (c\<lparr>c_err := PICO_PING_ERR_ABORTED\<rparr>)) s;
     (if \<not> c_cb c then None
      else do {
        let s = ping_call \<lparr>st_dst = 0, st_size = 0, st_seq = 0, st_time = 0, st_ttl = 0, st_err = PICO_PING_ERR_ABORTED\<rparr> s;
        (_, t) \<leftarrow> pico_tree_delete cookie_compare (Pings s) (Some (c_key c));
        Some (- 1, s\<lparr>Pings := t\<rparr>) }) }"

definition send_ping :: "icmp_state \<Rightarrow> nat \<Rightarrow> (int \<times> icmp_state) option" where
  "send_ping s p = do {
     c \<leftarrow> cookies s p;
     (_, s) \<leftarrow> pico_icmp4_send_echo s c;
     let s = set_cookie p (Some (c\<lparr>c_timestamp := ping_tick s\<rparr>)) s;
     let (ok, s) = ping_timer_add (of_int (c_timeout c)) (Ping_timeout p) s;
     (if \<not> ok then ping_failed s p
      else if c_seq (c_key c) < (of_int (c_count c) :: u16)
      then let (ok2, s2) = ping_timer_add (of_int (c_interval c)) (Next_ping p) s in
           if \<not> ok2 then ping_failed (s2\<lparr>ping_timers := butlast (ping_timers s2)\<rparr>) p else Some (0, s2)
      else Some (0, s)) }"

definition next_ping :: "icmp_state \<Rightarrow> nat \<Rightarrow> icmp_state option" where
  "next_ping s p = do {
     c \<leftarrow> cookies s p;
     found \<leftarrow> pico_tree_findKey cookie_compare (Pings s) (c_key c);
     (if found = None \<or> c_err c = PICO_PING_ERR_ABORTED \<or> \<not> c_seq (c_key c) < (of_int (c_count c) :: u16) then Some s
      else
        let (ok, s) = icmp_alloc s in
        if \<not> ok then Some s
        else do {
          let q = cookie_next s;
          let k = \<lparr>c_ptr = q, c_id = c_id (c_key c), c_seq = c_seq (c_key c) + 1\<rparr>;
          let s = set_cookie q (Some (c\<lparr>c_key := k\<rparr>)) (s\<lparr>cookie_next := q + 1\<rparr>);
          let (mem, s) = icmp_alloc s;
          (r, t) \<leftarrow> pico_tree_insert cookie_compare (Pings s) k mem;
          (if r \<noteq> Ins_NULL then Some (set_cookie q None s)
           else do {
             (r, s) \<leftarrow> send_ping (s\<lparr>Pings := t\<rparr>) q;
             Some (if r \<noteq> 0 then set_cookie q None s else s) }) }) }"

definition ping_recv_reply :: "icmp_state \<Rightarrow> ip_frame \<Rightarrow> icmp_state option" where
  "ping_recv_reply s f = do {
     i \<leftarrow> frame16 f (f_trans f + IH_id);
     q \<leftarrow> frame16 f (f_trans f + IH_seq);
     found \<leftarrow> pico_tree_findKey cookie_compare (Pings s) \<lparr>c_ptr = 0, c_id = short_be i, c_seq = short_be q\<rparr>;
     (case found of
        None \<Rightarrow> Some s
      | Some k \<Rightarrow> do {
          c \<leftarrow> cookies s (c_ptr k);
          (if c_err c = PICO_PING_ERR_ABORTED then Some s
           else if \<not> in_buffer f 0 PICO_SIZE_IP4HDR then None
           else
             let s = set_cookie (c_ptr k) (Some (c\<lparr>c_err := PICO_PING_ERR_REPLIED\<rparr>)) s in
             Some (if c_cb c then ping_call \<lparr>st_dst = hdr_src (f_net f), st_size = c_size c, st_seq = c_seq k,
                     st_time = ping_tick s - c_timestamp c, st_ttl = hdr_ttl (f_net f), st_err = PICO_PING_ERR_REPLIED\<rparr> s else s)) }) }"

text \<open>The destination string is read by \<open>pico_string_to_ipv4\<close>; \<open>cb\<close> says whether there is a callback.\<close>

definition pico_icmp4_ping :: "icmp_state \<Rightarrow> u8 list option \<Rightarrow> int \<Rightarrow> int \<Rightarrow> int \<Rightarrow> int \<Rightarrow> bool \<Rightarrow> (int \<times> icmp_state) option" where
  "pico_icmp4_ping s dst count interval timeout sz cb =
     (if dst = None \<or> interval = 0 \<or> timeout = 0 \<or> count = 0 then Some (- 1, s\<lparr>ic_err := PICO_ERR_EINVAL\<rparr>)
      else
        let (ok, s) = icmp_alloc s in
        if \<not> ok then Some (- 1, s\<lparr>ic_err := PICO_ERR_ENOMEM\<rparr>)
        else do {
          let p = cookie_next s;
          let s = s\<lparr>cookie_next := p + 1\<rparr>;
          (r, a) \<leftarrow> pico_string_to_ipv4 dst;
          (if r < 0 then Some (- 1, s\<lparr>ic_err := PICO_ERR_EINVAL\<rparr>)
           else do {
             a \<leftarrow> a;
             let k = \<lparr>c_ptr = p, c_id = next_ping_id s, c_seq = 1\<rparr>;
             let s = set_cookie p (Some \<lparr>c_key = k, c_dst = a, c_err = PICO_PING_ERR_PENDING, c_size = of_int sz, c_count = count,
                       c_timestamp = 0, c_interval = interval, c_timeout = timeout, c_cb = cb\<rparr>) (s\<lparr>next_ping_id := next_ping_id s + 1\<rparr>);
             let (mem, s) = icmp_alloc s;
             (r, t) \<leftarrow> pico_tree_insert cookie_compare (Pings s) k mem;
             (if r \<noteq> Ins_NULL then Some (- 1, set_cookie p None s)
              else do {
                (r, s) \<leftarrow> send_ping (s\<lparr>Pings := t\<rparr>) p;
                Some (if r \<noteq> 0 then (- 1, set_cookie p None s) else (uint (c_id k), s)) }) }) })"

primrec abort_loop :: "ping_key list \<Rightarrow> u16 \<Rightarrow> nat \<Rightarrow> icmp_state \<Rightarrow> (nat \<times> icmp_state) option" where
  "abort_loop [] i n s = Some (n, s)"
| "abort_loop (k # ks) i n s = do {
     c \<leftarrow> cookies s (c_ptr k);
     (if c_id k = i then abort_loop ks i (n + 1) (set_cookie (c_ptr k) (Some (c\<lparr>c_err := PICO_PING_ERR_ABORTED\<rparr>)) s)
      else abort_loop ks i n s) }"

definition pico_icmp4_ping_abort :: "icmp_state \<Rightarrow> int \<Rightarrow> (int \<times> icmp_state) option" where
  "pico_icmp4_ping_abort s i = do {
     ks \<leftarrow> pico_tree_foreach (Pings s);
     (n, s) \<leftarrow> abort_loop ks (of_int i) 0 s;
     Some (if n > 0 then (0, s) else (- 1, s\<lparr>ic_err := PICO_ERR_ENOENT\<rparr>)) }"

section \<open>Reception\<close>

definition icmp_discard :: "icmp_state \<Rightarrow> icmp_state" where
  "icmp_discard s = s\<lparr>ic_ip := discard (ic_ip s)\<rparr>"

text \<open>The request, its type already changed, is sent back unless it was the last one too.\<close>

definition icmp_echo :: "icmp_state \<Rightarrow> ip_frame \<Rightarrow> (int \<times> icmp_state) option" where
  "icmp_echo s f = do {
     i \<leftarrow> frame16 f (f_trans f + IH_id);
     q \<leftarrow> frame16 f (f_trans f + IH_seq);
     (if \<not> firstpkt s \<and> i = last_echo_id s \<and> last_echo_seq s = q then Some (0, icmp_discard s)
      else do {
        let s = s\<lparr>firstpkt := False, last_echo_id := i, last_echo_seq := q\<rparr>;
        f \<leftarrow> pico_icmp4_checksum f;
        (_, u) \<leftarrow> pico_ipv4_rebound (ic_ip s) (Some f);
        Some (0, s\<lparr>ic_ip := u\<rparr>) }) }"

definition pico_icmp4_process_in :: "icmp_state \<Rightarrow> ip_frame \<Rightarrow> (int \<times> icmp_state) option" where
  "pico_icmp4_process_in s f = do {
     let t = f_trans f;
     ty \<leftarrow> frame8 f (t + IH_type);
     (if ty = PICO_ICMP_ECHO
      then do {
        let f = f\<lparr>f_net := (f_net f)[t + IH_type := PICO_ICMP_ECHOREPLY],
                 f_len := (if f_dev f \<noteq> 0 \<and> d_eth (devices (ic_ip s) (f_dev f)) then f_len f - 14 else f_len f)\<rparr>;
        icmp_echo s f }
      else if ty = PICO_ICMP_UNREACH
      then do {
        code \<leftarrow> frame8 f (t + IH_code);
        let g = f\<lparr>f_net := drop (t + PICO_ICMPHDR_UN_SIZE) (f_net f)\<rparr>;
        (if \<not> in_buffer g 0 10 then None
         else Some (0, s\<lparr>ic_ip := pico_ipv4_unreachable (ic_ip s) g (uint code)\<rparr>)) }
      else if ty = PICO_ICMP_ECHOREPLY
      then do { s \<leftarrow> ping_recv_reply s f; Some (0, icmp_discard s) }
      else Some (0, icmp_discard s)) }"

definition pico_icmp4_process_out :: "icmp_state \<Rightarrow> ip_frame \<Rightarrow> int \<times> icmp_state" where
  "pico_icmp4_process_out s f = (0, s)"

section \<open>Error messages\<close>

text \<open>The message about \<open>f\<close>, quoting \<open>tot\<close> bytes; the reply of the allocator is not tested.\<close>

definition notify_reply :: "icmp_state \<Rightarrow> ip_frame \<Rightarrow> u16 \<Rightarrow> u8 \<Rightarrow> u8 \<Rightarrow> (int \<times> icmp_state) option" where
  "notify_reply s f tot ty code = do {
     let (reply, u) = pico_ipv4_alloc (ic_ip s) (f_dev f) (tot + of_nat PICO_ICMPHDR_UN_SIZE);
     g \<leftarrow> reply;
     let t = f_trans g;
     (if \<not> in_buffer f 0 (unat tot) then None
      else do {
        let h = put16 (put16 ((f_net g)[t + IH_type := ty, t + IH_code := code]) (t + IH_nmtu) (short_be 1500)) (t + IH_void) 0;
        let h = take (t + PICO_ICMPHDR_UN_SIZE) h @ take (unat tot) (f_net f);
        g \<leftarrow> pico_icmp4_checksum (g\<lparr>f_net := h, f_transport_len := tot + of_nat PICO_ICMPHDR_UN_SIZE,
               f_payload := Some (t + PICO_ICMPHDR_UN_SIZE)\<rparr>);
        (_, u) \<leftarrow> pico_ipv4_frame_push u (Some g) (Some (hdr_src (f_net f))) Ip_Frame.PICO_PROTO_ICMP4;
        Some (0, s\<lparr>ic_ip := u\<rparr>) }) }"

definition pico_icmp4_notify :: "icmp_state \<Rightarrow> ip_frame option \<Rightarrow> u8 \<Rightarrow> u8 \<Rightarrow> (int \<times> icmp_state) option" where
  "pico_icmp4_notify s fr ty code =
     (case fr of
        None \<Rightarrow> Some (- 1, s\<lparr>ic_err := PICO_ERR_EINVAL\<rparr>)
      | Some f \<Rightarrow>
          if \<not> f_has_net f \<or> \<not> in_buffer f 0 4 then None
          else
            let tot = short_be (hdr_len (f_net f)) in
            if unat tot < PICO_SIZE_IP4HDR then Some (- 1, s)
            else notify_reply s f (if unat tot > PICO_SIZE_IP4HDR + 8 then of_nat (PICO_SIZE_IP4HDR + 8) else tot) ty code)"

definition pico_icmp4_port_unreachable :: "icmp_state \<Rightarrow> ip_frame option \<Rightarrow> (int \<times> icmp_state) option" where
  "pico_icmp4_port_unreachable s f = pico_icmp4_notify s f PICO_ICMP_UNREACH PICO_ICMP_UNREACH_PORT"
definition pico_icmp4_proto_unreachable :: "icmp_state \<Rightarrow> ip_frame option \<Rightarrow> (int \<times> icmp_state) option" where
  "pico_icmp4_proto_unreachable s f = pico_icmp4_notify s f PICO_ICMP_UNREACH PICO_ICMP_UNREACH_PROTOCOL"
definition pico_icmp4_dest_unreachable :: "icmp_state \<Rightarrow> ip_frame option \<Rightarrow> (int \<times> icmp_state) option" where
  "pico_icmp4_dest_unreachable s f = pico_icmp4_notify s f PICO_ICMP_UNREACH PICO_ICMP_UNREACH_HOST"
definition pico_icmp4_ttl_expired :: "icmp_state \<Rightarrow> ip_frame option \<Rightarrow> (int \<times> icmp_state) option" where
  "pico_icmp4_ttl_expired s f = pico_icmp4_notify s f PICO_ICMP_TIME_EXCEEDED PICO_ICMP_TIMXCEED_INTRANS"
definition pico_icmp4_frag_expired :: "icmp_state \<Rightarrow> ip_frame option \<Rightarrow> (int \<times> icmp_state) option" where
  "pico_icmp4_frag_expired s f = pico_icmp4_notify s f PICO_ICMP_TIME_EXCEEDED PICO_ICMP_TIMXCEED_REASS"
definition pico_icmp4_mtu_exceeded :: "icmp_state \<Rightarrow> ip_frame option \<Rightarrow> (int \<times> icmp_state) option" where
  "pico_icmp4_mtu_exceeded s f = pico_icmp4_notify s f PICO_ICMP_UNREACH PICO_ICMP_UNREACH_NEEDFRAG"
definition pico_icmp4_packet_filtered :: "icmp_state \<Rightarrow> ip_frame option \<Rightarrow> (int \<times> icmp_state) option" where
  "pico_icmp4_packet_filtered s f = pico_icmp4_notify s f PICO_ICMP_UNREACH PICO_ICMP_UNREACH_FILTER_PROHIB"
definition pico_icmp4_param_problem :: "icmp_state \<Rightarrow> ip_frame option \<Rightarrow> u8 \<Rightarrow> (int \<times> icmp_state) option" where
  "pico_icmp4_param_problem s f code = pico_icmp4_notify s f PICO_ICMP_PARAMPROB code"

end
