(* ===== verification/Icmp4_Props.thy ===== *)
theory Icmp4_Props
  imports Icmp4 Ipv4_Push_Props
begin

text \<open>
  ICMPv4: an echo request is answered, an error message quotes its packet, and both carry valid checksums; and
  the frames that are lost or used although they could not be allocated.
\<close>

section \<open>Checksums\<close>

text \<open>\<open>g\<close> is \<open>f\<close> with a valid checksum in its ICMP message of \<open>n\<close> bytes at \<open>t\<close>.\<close>

definition icmp_sealed :: "ip_frame \<Rightarrow> ip_frame \<Rightarrow> nat \<Rightarrow> nat \<Rightarrow> bool" where
  "icmp_sealed f g t n \<longleftrightarrow> (\<exists>h. g = f\<lparr>f_net := h\<rparr> \<and> length h = length (f_net f) \<and> take (t + 2) h = take (t + 2) (f_net f)
     \<and> drop (t + 4) h = drop (t + 4) (f_net f) \<and> pico_checksum (drop t h) n = 0)"

lemma take_put16: "k \<le> i \<Longrightarrow> take k (put16 h i v) = take k h"
  by (simp add: put16_def)

lemma icmp_checksum_runs:
  assumes "4 \<le> unat (f_transport_len f)" "f_trans f + unat (f_transport_len f) \<le> length (f_net f)"
  shows "\<exists>g. pico_icmp4_checksum f = Some g \<and> icmp_sealed f g (f_trans f) (unat (f_transport_len f))"
proof -
  define t n where "t = f_trans f" and "n = unat (f_transport_len f)"
  define c where "c = pico_checksum (drop t (put16 (f_net f) (t + 2) 0)) n"
  define h where "h = put16 (put16 (f_net f) (t + 2) 0) (t + 2) (short_be c)"
  have n: "4 \<le> n" "t + n \<le> length (f_net f)" "n \<le> 131072" using assms unat_u16_less [of "f_transport_len f"] by (simp_all add: n_def t_def)
  have run: "pico_icmp4_checksum f = Some (f\<lparr>f_net := h\<rparr>)"
    using n by (simp add: pico_icmp4_checksum_def Let_def IH_crc_def in_buffer_def t_def [symmetric] n_def [symmetric] h_def c_def del: put16_put16)
  have cd: "c = pico_checksum (put16 (drop t (f_net f)) 2 0) n" unfolding c_def by (simp only: put16_drop)
  have "drop t h = put16 (put16 (drop t (f_net f)) 2 0) 2 (short_be c)" unfolding h_def by (simp only: put16_drop)
  moreover have "pico_checksum (put16 (put16 (drop t (f_net f)) 2 0) 2 (short_be c)) n = 0"
    unfolding cd by (rule checksum_put_stored) (use n in auto)
  ultimately have "pico_checksum (drop t h) n = 0" by simp
  moreover have "length h = length (f_net f)" "take (t + 2) h = take (t + 2) (f_net f)" "drop (t + 4) h = drop (t + 4) (f_net f)"
    by (simp_all add: h_def take_put16 drop_put16)
  ultimately show ?thesis using run unfolding icmp_sealed_def t_def n_def by blast
qed

section \<open>Pushing\<close>

text \<open>\<open>g\<close> is what is queued for the frame \<open>f\<close> to \<open>d\<close>: a valid header, and the bytes behind it.\<close>

definition icmp_queued :: "ip_stack \<Rightarrow> ip_frame \<Rightarrow> u32 \<Rightarrow> ip_frame \<Rightarrow> bool" where
  "icmp_queued s f d g \<longleftrightarrow> hdr_dst (f_net g) = d \<and> reply_source s d = Some (hdr_src (f_net g)) \<and> hdr_proto (f_net g) = Ip_Frame.PICO_PROTO_ICMP4
     \<and> pico_checksum (f_net g) 20 = 0 \<and> drop 20 (f_net g) = drop 20 (f_net f) \<and> f_trans g = f_trans f \<and> f_transport_len g = f_transport_len f"

lemma push_runs:
  assumes "can_rebound s d q" "f_has_net f" "20 \<le> length (f_net f)" "f_net_len f = 20"
  shows "\<exists>g. pico_ipv4_frame_push s (Some f) (Some d) Ip_Frame.PICO_PROTO_ICMP4 = Some (1, effect (Enqueue q g) (next_id_of s f))
    \<and> icmp_queued s f d g"
proof -
  obtain r l own where r: "route_find (ip s) d = Some (Some r)" "r_link r = Some l" "pico_ipv4_link_get (ip s) d = Some own"
    "q = (if own \<noteq> None then Q_ipv4_in else Q_ipv4_out)" "\<not> pico_ipv4_is_multicast d" "d \<noteq> 0" "enq_ok s = []"
    using assms(1) by (auto simp: can_rebound_def)
  define g where "g = pushed s f d Ip_Frame.PICO_PROTO_ICMP4 l"
  have fb: "in_buffer f 0 PICO_SIZE_IP4HDR" "in_buffer f 0 (unat (f_net_len f))" using assms(3,4) by (simp_all add: in_buffer_def PICO_SIZE_IP4HDR_def)
  have dst: "hdr_dst (f_net g) = d" using assms(3) by (simp add: g_def pushed_def ip_crc_simps push_header_fields)
  have "pico_ipv4_frame_push s (Some f) (Some d) Ip_Frame.PICO_PROTO_ICMP4 = push_enqueue (next_id_of s f) g"
    using push_unicast [OF r(5,6) assms(2) fb r(1,2)] by (simp add: g_def)
  also have "\<dots> = Some (1, effect (Enqueue q g) (next_id_of s f))" using r(3,4,7) by (simp add: push_enqueue_def dst enqueue_def)
  finally have run: "pico_ipv4_frame_push s (Some f) (Some d) Ip_Frame.PICO_PROTO_ICMP4 = Some (1, effect (Enqueue q g) (next_id_of s f))" .
  have "pico_checksum (set_ip_crc (push_header s f d Ip_Frame.PICO_PROTO_ICMP4 PICO_IPV4_DEFAULT_TTL 0x45 l) 20) (unat (20 :: u16)) = 0"
    by (rule ip_crc_verifies) (use assms(3) in simp_all)
  then have "pico_checksum (f_net g) 20 = 0" by (simp add: g_def pushed_def assms(4))
  moreover have "reply_source s d = Some (hdr_src (f_net g))"
    using assms(3) r(1,2) by (simp add: reply_source_def g_def pushed_def ip_crc_simps push_header_fields)
  moreover have "hdr_proto (f_net g) = Ip_Frame.PICO_PROTO_ICMP4" "drop 20 (f_net g) = drop 20 (f_net f)" "f_trans g = f_trans f"
    "f_transport_len g = f_transport_len f"
    using assms(3) by (simp_all add: g_def pushed_def ip_crc_simps push_header_fields drop_push_header)
  ultimately have "icmp_queued s f d g" using dst by (simp add: icmp_queued_def)
  with run show ?thesis by blast
qed

section \<open>Echo\<close>

text \<open>An echo request of \<open>n\<close> bytes behind a header without options.\<close>

definition echo_request :: "ip_frame \<Rightarrow> nat \<Rightarrow> bool" where
  "echo_request f n \<longleftrightarrow> f_has_net f \<and> f_net_len f = 20 \<and> f_trans f = 20 \<and> unat (f_transport_len f) = n \<and> 8 \<le> n \<and> 20 + n \<le> length (f_net f)
     \<and> f_net f ! 20 = PICO_ICMP_ECHO \<and> hdr_proto (f_net f) = Ip_Frame.PICO_PROTO_ICMP4"

definition seen_before :: "icmp_state \<Rightarrow> ip_frame \<Rightarrow> bool" where
  "seen_before s f \<longleftrightarrow> \<not> firstpkt s \<and> get16 (f_net f) 24 = last_echo_id s \<and> last_echo_seq s = get16 (f_net f) 26"

lemma echo_fields:
  assumes "echo_request f n"
  shows "frame8 f (f_trans f + IH_type) = Some PICO_ICMP_ECHO"
    "frame16 (f\<lparr>f_net := (f_net f)[20 := PICO_ICMP_ECHOREPLY], f_len := l\<rparr>) (f_trans f + IH_id) = Some (get16 (f_net f) 24)"
    "frame16 (f\<lparr>f_net := (f_net f)[20 := PICO_ICMP_ECHOREPLY], f_len := l\<rparr>) (f_trans f + IH_seq) = Some (get16 (f_net f) 26)"
  using assms by (simp_all add: echo_request_def frame8_def frame16_def in_buffer_def IH_type_def IH_id_def IH_seq_def)

lemma icmp_echo_new:
  assumes "frame16 h (f_trans f + IH_id) = Some i" "frame16 h (f_trans f + IH_seq) = Some w" 
    "\<not> (\<not> firstpkt s \<and> i = last_echo_id s \<and> last_echo_seq s = w)" "pico_icmp4_checksum h = Some k"
    "pico_ipv4_rebound (ic_ip s) (Some k) = Some (r, u)" "f_trans h = f_trans f"
  shows "icmp_echo s h = Some (0, s\<lparr>firstpkt := False, last_echo_id := i, last_echo_seq := w, ic_ip := u\<rparr>)"
  using assms by (auto simp: icmp_echo_def Let_def)

text \<open>A new request is turned into the reply \<open>k\<close>, and that is sent back.\<close>

definition echo_reply :: "ip_frame \<Rightarrow> nat \<Rightarrow> ip_frame \<Rightarrow> bool" where
  "echo_reply f n k \<longleftrightarrow> f_has_net k \<and> f_net_len k = 20 \<and> f_trans k = 20 \<and> unat (f_transport_len k) = n \<and> 20 + n \<le> length (f_net k)
     \<and> hdr_src (f_net k) = hdr_src (f_net f) \<and> hdr_proto (f_net k) = Ip_Frame.PICO_PROTO_ICMP4
     \<and> take 2 (drop 20 (f_net k)) = [PICO_ICMP_ECHOREPLY, f_net f ! 21] \<and> drop 4 (drop 20 (f_net k)) = drop 24 (f_net f)
     \<and> pico_checksum (drop 20 (f_net k)) n = 0"

lemma echo_turned:
  assumes f: "echo_request f n" and new: "\<not> seen_before s f"
  shows "\<exists>k. echo_reply f n k \<and> (\<forall>r u. pico_ipv4_rebound (ic_ip s) (Some k) = Some (r, u) \<longrightarrow>
    pico_icmp4_process_in s f = Some (0, s\<lparr>firstpkt := False, last_echo_id := get16 (f_net f) 24, last_echo_seq := get16 (f_net f) 26, ic_ip := u\<rparr>))"
proof -
  have ff: "f_has_net f" "f_net_len f = 20" "f_trans f = 20" "unat (f_transport_len f) = n" "8 \<le> n" "20 + n \<le> length (f_net f)"
    "hdr_proto (f_net f) = Ip_Frame.PICO_PROTO_ICMP4" using f by (simp_all add: echo_request_def)
  define l where "l = (if f_dev f \<noteq> 0 \<and> d_eth (devices (ic_ip s) (f_dev f)) then f_len f - 14 else f_len f)"
  define h where "h = f\<lparr>f_net := (f_net f)[20 := PICO_ICMP_ECHOREPLY], f_len := l\<rparr>"
  note e = echo_fields(1) [OF f] echo_fields(2,3) [OF f, of l, folded h_def]
  obtain k where k: "pico_icmp4_checksum h = Some k" "icmp_sealed h k 20 n"
    using icmp_checksum_runs [of h] ff by (auto simp: h_def)
  obtain b where b: "k = h\<lparr>f_net := b\<rparr>" "length b = length (f_net f)" "take 22 b = take 22 (f_net h)" "drop 24 b = drop 24 (f_net f)"
    "pico_checksum (drop 20 b) n = 0"
    using k(2) by (auto simp: icmp_sealed_def h_def)
  have t20: "take 20 b = take 20 (f_net f)"
  proof -
    have "take 20 b = take 20 (take 22 b)" by simp
    also have "\<dots> = take 20 (f_net f)" by (simp add: b(3) h_def)
    finally show ?thesis .
  qed
  have nth: "b ! i = f_net f ! i" if "i < 20" for i using t20 that by (metis nth_take)
  have src: "hdr_src (f_net k) = hdr_src (f_net f)" "hdr_proto (f_net k) = hdr_proto (f_net f)"
    by (simp_all add: b(1) ip_fields get32_def nth)
  have "take 2 (drop 20 b) = drop 20 (take 22 b)" by (simp add: drop_take)
  also have "\<dots> = [PICO_ICMP_ECHOREPLY, f_net f ! 21]"
  proof -
    have "length (f_net h) \<ge> 22" "f_net h ! 20 = PICO_ICMP_ECHOREPLY" "f_net h ! 21 = f_net f ! 21" using ff(5,6) by (simp_all add: h_def)
    then show ?thesis by (simp add: b(3) drop_take take_Suc_conv_app_nth numeral_2_eq_2 Cons_nth_drop_Suc [symmetric])
  qed
  finally have rep: "echo_reply f n k" using ff src b by (simp add: echo_reply_def h_def)
  have ty: "20 + IH_type = 20" by (simp add: IH_type_def)
  have "pico_icmp4_process_in s f = icmp_echo s h"
    using e(1) by (simp add: pico_icmp4_process_in_def Let_def ff(3) ty h_def l_def)
  moreover have "icmp_echo s h = Some (0, s\<lparr>firstpkt := False, last_echo_id := get16 (f_net f) 24, last_echo_seq := get16 (f_net f) 26, ic_ip := u\<rparr>)"
    if "pico_ipv4_rebound (ic_ip s) (Some k) = Some (r, u)" for r u
    by (rule icmp_echo_new [OF e(2,3) new [unfolded seen_before_def] k(1) that]) (simp add: h_def)
  ultimately show ?thesis using rep by auto
qed

text \<open>C16: an echo request, an ICMP message of at most 1480 bytes behind a header without options, which is no duplicate of the last one and
  whose sender can be reached, is answered: one packet is queued, to the sender of the request and from this host's
  address on the link to it, with valid header and ICMP checksums; its type is echo reply, and its code, identifier,
  sequence number and data are those of the request.\<close>

theorem icmp_echo_answered:
  assumes f: "echo_request f n" "n \<le> 1480" and r: "can_rebound (ic_ip s) (hdr_src (f_net f)) q" and new: "\<not> seen_before s f"
  shows "\<exists>g s'. pico_icmp4_process_in s f = Some (0, s') \<and> effects (ic_ip s') = effects (ic_ip s) @ [Enqueue q g]
    \<and> hdr_dst (f_net g) = hdr_src (f_net f) \<and> reply_source (ic_ip s) (hdr_src (f_net f)) = Some (hdr_src (f_net g))
    \<and> hdr_proto (f_net g) = Ip_Frame.PICO_PROTO_ICMP4 \<and> pico_checksum (f_net g) 20 = 0
    \<and> take 2 (drop 20 (f_net g)) = [PICO_ICMP_ECHOREPLY, f_net f ! 21] \<and> drop 24 (f_net g) = drop 24 (f_net f)
    \<and> pico_checksum (drop 20 (f_net g)) n = 0 \<and> unat (f_transport_len g) = n"
proof -
  obtain k where k: "echo_reply f n k" "\<And>r u. pico_ipv4_rebound (ic_ip s) (Some k) = Some (r, u) \<Longrightarrow>
    pico_icmp4_process_in s f = Some (0, s\<lparr>firstpkt := False, last_echo_id := get16 (f_net f) 24, last_echo_seq := get16 (f_net f) 26, ic_ip := u\<rparr>)"
    using echo_turned [OF f(1) new] by blast
  have kf: "f_has_net k" "20 \<le> length (f_net k)" "f_net_len k = 20" "unat (f_transport_len k) = n" "hdr_src (f_net k) = hdr_src (f_net f)"
    "hdr_proto (f_net k) = Ip_Frame.PICO_PROTO_ICMP4" using k(1) by (simp_all add: echo_reply_def)
  obtain g where g: "pico_ipv4_frame_push (ic_ip s) (Some k) (Some (hdr_src (f_net f))) Ip_Frame.PICO_PROTO_ICMP4
      = Some (1, effect (Enqueue q g) (next_id_of (ic_ip s) k))" "icmp_queued (ic_ip s) k (hdr_src (f_net f)) g"
    using push_runs [OF r kf(1-3)] by blast
  have "pico_ipv4_rebound (ic_ip s) (Some k) = Some (1, effect (Enqueue q g) (next_id_of (ic_ip s) k))"
    using g(1) kf f(2) by (simp add: pico_ipv4_rebound_def in_buffer_def PICO_SIZE_IP4HDR_def PICO_IPV4_MAXPAYLOAD_def)
  note run = k(2) [OF this]
  have "drop 24 (f_net g) = drop 24 (f_net f)"
  proof -
    have "drop 24 (f_net g) = drop 4 (drop 20 (f_net g))" by simp
    also have "\<dots> = drop 24 (f_net f)" using g(2) k(1) by (simp only: icmp_queued_def echo_reply_def)
    finally show ?thesis .
  qed
  then show ?thesis using run g(2) k(1) by (auto simp: icmp_queued_def echo_reply_def effect_def)
qed

text \<open>A larger request is answered in fragments; it is queued nowhere itself and never freed.\<close>

lemma large_echo_not_freed:
  assumes f: "echo_request f n" "1480 < n" and r: "can_rebound (ic_ip s) (hdr_src (f_net f)) q" and new: "\<not> seen_before s f"
  shows "\<exists>gs s'. pico_icmp4_process_in s f = Some (0, s') \<and> effects (ic_ip s') = effects (ic_ip s) @ map (Enqueue q) gs"
proof -
  obtain k where k: "echo_reply f n k" "\<And>r u. pico_ipv4_rebound (ic_ip s) (Some k) = Some (r, u) \<Longrightarrow>
    pico_icmp4_process_in s f = Some (0, s\<lparr>firstpkt := False, last_echo_id := get16 (f_net f) 24, last_echo_seq := get16 (f_net f) 26, ic_ip := u\<rparr>)"
    using echo_turned [OF f(1) new] by blast
  have kf: "f_has_net k" "f_trans k + unat (f_transport_len k) \<le> length (f_net k)" "unat (f_transport_len k) = n" "hdr_src (f_net k) = hdr_src (f_net f)"
    "hdr_proto (f_net k) = Ip_Frame.PICO_PROTO_ICMP4" using k(1) by (simp_all add: echo_reply_def)
  obtain gs u where gs: "rebound_loop (ic_ip s) k 0 = Some (int n, u)" "effects u = effects (ic_ip s) @ map (Enqueue q) gs"
    using rebound_loop_fragments [OF _ kf(5) _ kf(2), of "ic_ip s" q 0] r kf(3,4) by auto
  have "pico_ipv4_rebound (ic_ip s) (Some k) = Some (int n, u)"
    using gs(1) kf f(2) by (simp add: pico_ipv4_rebound_def pico_ipv4_rebound_large_def in_buffer_def PICO_SIZE_IP4HDR_def PICO_IPV4_MAXPAYLOAD_def)
  note run = k(2) [OF this]
  show ?thesis using run gs(2) by auto
qed

text \<open>A request from the neighbour.\<close>

definition small_request :: ip_frame where
  "small_request = valid_query\<lparr>f_net := (put32 (take 20 (f_net valid_query)) 12 neighbour)[9 := 1] @ [8, 0, 0, 0, 1, 2, 3, 4, 5],
     f_has_net := True, f_net_len := 20, f_trans := 20, f_transport_len := 9\<rparr>"

definition icmp_start :: icmp_state where
  "icmp_start = \<lparr>ic_ip = stack_link, firstpkt = True, last_echo_id = 0, last_echo_seq = 0, Pings = empty_tree,
     cookies = Map.empty, cookie_next = 1, next_ping_id = 0x91c0, ping_tick = 0, ping_timers = [], ic_mem = [], ic_tmr = [],
     ic_err = PICO_ERR_NOERR, ping_calls = []\<rparr>"

theorem icmp_echo_answered_witness:
  "\<exists>g s'. pico_icmp4_process_in icmp_start small_request = Some (0, s') \<and> effects (ic_ip s') = [Enqueue Q_ipv4_out g]
     \<and> hdr_dst (f_net g) = neighbour \<and> take 2 (drop 20 (f_net g)) = [0, 0] \<and> drop 24 (f_net g) = [1, 2, 3, 4, 5]"
proof -
  have r: "echo_request small_request 9" "hdr_src (f_net small_request) = neighbour" "drop 24 (f_net small_request) = [1, 2, 3, 4, 5]"
    "f_net small_request ! 21 = 0" by code_simp+
  have c: "can_rebound (ic_ip icmp_start) (hdr_src (f_net small_request)) Q_ipv4_out"
  proof -
    obtain r l where "route_find (ip stack_link) neighbour = Some (Some r)" "r_link r = Some l" using stack_link_eval(6) by auto
    then show ?thesis using stack_link_eval r(2) by (simp add: can_rebound_def icmp_start_def)
  qed
  have n: "\<not> seen_before icmp_start small_request" by (simp add: seen_before_def icmp_start_def)
  show ?thesis using icmp_echo_answered [OF r(1) _ c n] r stack_link_eval(5)
    by (auto simp: PICO_ICMP_ECHOREPLY_def icmp_start_def)
qed

section \<open>Error messages\<close>

text \<open>C17: an error message about a packet whose total length is at least 20 and whose bytes to be quoted are in its buffer,
  when memory is there and the source of the packet can be reached, goes to that source, from this host's address on the link to it and with valid checksums; it has the type and the code
  given, and behind them the first 28 bytes of the packet, or all of it when its total length is less.  That is the
  header and eight bytes when the header has no options, and less than that when it has.\<close>

theorem icmp_error_quotes:
  assumes f: "f_has_net f" "4 \<le> length (f_net f)" "20 \<le> unat (short_be (hdr_len (f_net f)))"
    and n: "n = min 28 (unat (short_be (hdr_len (f_net f))))" "n \<le> length (f_net f)"
    and r: "can_rebound (ic_ip s) (hdr_src (f_net f)) q"
  shows "\<exists>g s'. pico_icmp4_notify s (Some f) ty code = Some (0, s') \<and> effects (ic_ip s') = effects (ic_ip s) @ [Enqueue q g]
    \<and> hdr_dst (f_net g) = hdr_src (f_net f) \<and> reply_source (ic_ip s) (hdr_src (f_net f)) = Some (hdr_src (f_net g))
    \<and> hdr_proto (f_net g) = Ip_Frame.PICO_PROTO_ICMP4 \<and> pico_checksum (f_net g) 20 = 0
    \<and> take 2 (drop 20 (f_net g)) = [ty, code] \<and> drop 24 (f_net g) = [0, 0, 5, 220] @ take n (f_net f)
    \<and> pico_checksum (drop 20 (f_net g)) (n + 8) = 0"
proof -
  define tot where "tot = (if unat (short_be (hdr_len (f_net f))) > 28 then 28 else short_be (hdr_len (f_net f)) :: u16)"
  have tot: "unat tot = n" using n(1) by (simp add: tot_def)
  have n8: "unat (tot + 8) = n + 8" "unat (tot + 8 + 20) = n + 28" "n \<le> 28"
    using tot n(1) by (simp_all add: unat_word_ariths)
  define fr where "fr = \<lparr>f_dev = f_dev f, f_has_net = True, f_net = replicate (n + 28) (0 :: u8),
           f_net_len = 20, f_trans = 20, f_transport_len = tot + 8, f_payload = None,
           f_payload_len = 0, f_frag = 0, f_flags = 0, f_len = ucast (tot + 8) + 20, f_send_ttl = 0,
           f_send_tos = 0, f_priority = 0, f_info = None, f_sock = None\<rparr>"
  have al: "pico_ipv4_alloc (ic_ip s) (f_dev f) (tot + 8) = (Some fr, ic_ip s)"
    using r n8 by (auto simp: can_rebound_def pico_ipv4_alloc_def take_mem_def PICO_SIZE_IP4HDR_def fr_def)
  define h where "h = replicate 20 (0 :: u8) @ [ty, code, 0, 0, 0, 0, 5, 220] @ take n (f_net f)"
  define k where "k = fr\<lparr>f_net := h, f_payload := Some 28\<rparr>"
  have hl: "length h = n + 28" using n(2) by (simp add: h_def)
  have kf: "f_has_net k" "f_net_len k = 20" "f_trans k = 20" "unat (f_transport_len k) = n + 8" "f_net k = h" "f_transport_len k = tot + 8"
    using n8 by (simp_all add: k_def fr_def)
  have rep: "replicate (n + 28) (0 :: u8) = replicate 20 0 @ [0, 0, 0, 0, 0, 0, 0, 0] @ replicate n 0"
    by (simp add: numeral_eq_Suc replicate_add [symmetric])
  have mtu: "put16 x 26 (short_be 1500) = x[26 := 5, 27 := 220]" for x
  proof -
    have "ucast (short_be 1500 :: u16) = (5 :: u8)" "ucast (drop_bit 8 (short_be 1500 :: u16)) = (220 :: u8)" by code_simp+
    then show ?thesis by (simp add: put16_def)
  qed
  have hd: "take 28 (put16 (put16 ((replicate (n + 28) 0)[20 := ty, 21 := code]) 26 (short_be 1500)) 24 0) @ take n (f_net f) = h"
    unfolding rep h_def mtu by (simp add: put16_def list_update_append numeral_eq_Suc)
  obtain m where m: "pico_icmp4_checksum k = Some m" "icmp_sealed k m 20 (n + 8)"
    using icmp_checksum_runs [of k] kf hl by auto
  obtain b where b: "m = k\<lparr>f_net := b\<rparr>" "length b = n + 28" "take 22 b = take 22 h" "drop 24 b = drop 24 h"
    "pico_checksum (drop 20 b) (n + 8) = 0" using m(2) hl by (auto simp: icmp_sealed_def kf)
  have mf: "f_has_net m" "20 \<le> length (f_net m)" "f_net_len m = 20" using b kf by simp_all
  obtain g where g: "pico_ipv4_frame_push (ic_ip s) (Some m) (Some (hdr_src (f_net f))) Ip_Frame.PICO_PROTO_ICMP4
      = Some (1, effect (Enqueue q g) (next_id_of (ic_ip s) m))" "icmp_queued (ic_ip s) m (hdr_src (f_net f)) g"
    using push_runs [OF r mf] by blast
  have cs: "pico_icmp4_checksum (fr\<lparr>f_net := h, f_transport_len := tot + 8, f_payload := Some 28\<rparr>) = Some m"
    using m(1) by (simp add: k_def fr_def)
  have "notify_reply s f tot ty code = Some (0, s\<lparr>ic_ip := effect (Enqueue q g) (next_id_of (ic_ip s) m)\<rparr>)"
    using al hd cs g(1) tot n(2) kf
    by (simp add: notify_reply_def in_buffer_def PICO_ICMPHDR_UN_SIZE_def Let_def fr_def IH_type_def IH_code_def IH_nmtu_def IH_void_def)
  moreover have "pico_icmp4_notify s (Some f) ty code = notify_reply s f tot ty code"
    using f by (simp add: pico_icmp4_notify_def in_buffer_def PICO_SIZE_IP4HDR_def tot_def Let_def)
  ultimately have run: "pico_icmp4_notify s (Some f) ty code = Some (0, s\<lparr>ic_ip := effect (Enqueue q g) (next_id_of (ic_ip s) m)\<rparr>)"
    by simp
  have d20: "drop 20 (f_net g) = drop 20 b" using g(2) by (simp add: icmp_queued_def b(1))
  have "take 2 (drop 20 b) = drop 20 (take 22 b)" by (simp add: drop_take)
  also have "\<dots> = [ty, code]" by (simp add: b(3) h_def)
  finally have "take 2 (drop 20 (f_net g)) = [ty, code]" by (simp add: d20)
  moreover have "drop 24 (f_net g) = [0, 0, 5, 220] @ take n (f_net f)"
  proof -
    have "drop 24 (f_net g) = drop 4 (drop 20 (f_net g))" by simp
    also have "\<dots> = drop 24 h" unfolding d20 using b(4) by simp
    finally show ?thesis by (simp add: h_def)
  qed
  ultimately show ?thesis using run g(2) b(5) d20 by (auto simp: icmp_queued_def effect_def)
qed

text \<open>A packet of the neighbour about which an error is reported.\<close>

theorem icmp_error_quotes_witness:
  "\<exists>g s'. pico_icmp4_notify icmp_start (Some small_request) PICO_ICMP_UNREACH PICO_ICMP_UNREACH_PORT = Some (0, s')
     \<and> effects (ic_ip s') = [Enqueue Q_ipv4_out g] \<and> hdr_dst (f_net g) = neighbour
     \<and> drop 24 (f_net g) = [0, 0, 5, 220] @ take 28 (f_net small_request)"
proof -
  have r: "hdr_src (f_net small_request) = neighbour" "f_has_net small_request" "4 \<le> length (f_net small_request)"
    "20 \<le> unat (short_be (hdr_len (f_net small_request)))" "28 = min 28 (unat (short_be (hdr_len (f_net small_request))))"
    "28 \<le> length (f_net small_request)" by code_simp+
  have c: "can_rebound (ic_ip icmp_start) (hdr_src (f_net small_request)) Q_ipv4_out"
  proof -
    obtain r l where "route_find (ip stack_link) neighbour = Some (Some r)" "r_link r = Some l" using stack_link_eval(6) by auto
    then show ?thesis using stack_link_eval r(1) by (simp add: can_rebound_def icmp_start_def)
  qed
  have i: "effects (ic_ip icmp_start) = []" using stack_link_eval(5) by (simp add: icmp_start_def)
  show ?thesis using icmp_error_quotes [OF r(2-6) c, where ty = PICO_ICMP_UNREACH and code = PICO_ICMP_UNREACH_PORT] unfolding r(1) i by auto
qed

text \<open>Without memory for the message the pointer is followed all the same.\<close>

lemma notify_no_memory:
  assumes "f_has_net f" "4 \<le> length (f_net f)" "20 \<le> unat (short_be (hdr_len (f_net f)))" "frame_mem (ic_ip s) = False # m"
  shows "pico_icmp4_notify s (Some f) ty code = None"
  using assms by (simp add: pico_icmp4_notify_def notify_reply_def in_buffer_def pico_ipv4_alloc_def take_mem_def Let_def PICO_SIZE_IP4HDR_def)

end
