(* ===== verification/Icmp4_Ping.thy ===== *)
theory Icmp4_Ping
  imports Icmp4_Props Ipv4_Route_Props
begin

text \<open>
  The ping client of \<open>modules/pico_icmp4.c\<close> as a transition system: pings are started and aborted, packets
  arrive, time passes, and the pending timer that is due first is run.  While every ping has an interval
  shorter than its timeout, the cookies in memory are those of the tree and those with a pending timeout, so no
  handler reads a freed one and none is lost; with a longer interval, and with a reply that came before the
  next ping, it goes wrong.
\<close>

section \<open>The tree of cookies\<close>

interpretation ping_order: key_order cookie_compare every
  by unfold_locales (auto simp: cookie_compare_def split: if_splits)

lemma cookie_compare_0: "cookie_compare a b = 0 \<longleftrightarrow> c_id a = c_id b \<and> c_seq a = c_seq b"
  by (auto simp: cookie_compare_def simp flip: word_uint_eq_iff)

section \<open>Timers\<close>

fun timeout_ptrs :: "(nat \<times> ping_timer) list \<Rightarrow> nat list" where
  "timeout_ptrs [] = []"
| "timeout_ptrs ((d, Ping_timeout p) # ts) = p # timeout_ptrs ts"
| "timeout_ptrs ((d, Next_ping p) # ts) = timeout_ptrs ts"

lemma timeout_ptrs_append [simp]: "timeout_ptrs (xs @ ys) = timeout_ptrs xs @ timeout_ptrs ys"
  by (induction xs rule: timeout_ptrs.induct) auto

lemma timeout_ptrs_in: "p \<in> set (timeout_ptrs ts) \<longleftrightarrow> (\<exists>d. (d, Ping_timeout p) \<in> set ts)"
  by (induction ts rule: timeout_ptrs.induct) auto

lemma timeout_ptrs_remove_next: "timeout_ptrs (remove1 (d, Next_ping p) ts) = timeout_ptrs ts"
  by (induction ts rule: timeout_ptrs.induct) auto

lemma timeout_ptrs_unique:
  "distinct (timeout_ptrs ts) \<Longrightarrow> (d, Ping_timeout p) \<in> set ts \<Longrightarrow> (e, Ping_timeout p) \<in> set ts \<Longrightarrow> d = e"
  by (induction ts rule: timeout_ptrs.induct) (auto simp: timeout_ptrs_in)

lemma timeout_ptrs_remove:
  assumes "distinct (timeout_ptrs ts)" "(d, Ping_timeout p) \<in> set ts"
  shows "timeout_ptrs (remove1 (d, Ping_timeout p) ts) = remove1 p (timeout_ptrs ts)"
  using assms by (induction ts rule: timeout_ptrs.induct) (auto simp: timeout_ptrs_in)

text \<open>\<open>t\<close> is the pending timer due first, at \<open>d\<close>; running it takes it off the list.\<close>

definition first_due :: "icmp_state \<Rightarrow> nat \<Rightarrow> ping_timer \<Rightarrow> bool" where
  "first_due s d t \<longleftrightarrow> (d, t) \<in> set (ping_timers s) \<and> (\<forall>(e, u) \<in> set (ping_timers s). d \<le> e)"

definition ping_fire :: "icmp_state \<Rightarrow> nat \<Rightarrow> ping_timer \<Rightarrow> icmp_state option" where
  "ping_fire s d t =
     (let u = s\<lparr>ping_timers := remove1 (d, t) (ping_timers s)\<rparr> in
      case t of Ping_timeout p \<Rightarrow> ping_timeout u p | Next_ping p \<Rightarrow> next_ping u p)"

section \<open>The invariant\<close>

definition sound_cookie :: "icmp_state \<Rightarrow> ping_key \<Rightarrow> bool" where
  "sound_cookie s k \<longleftrightarrow> (\<exists>c. cookies s (c_ptr k) = Some c \<and> c_key c = k \<and> c_cb c
     \<and> 0 < c_interval c \<and> c_interval c < c_timeout c \<and> c_timeout c < 2 ^ 31)"

text \<open>All but the cookie \<open>q\<close>, which has no timers yet.\<close>

definition pings_but :: "nat set \<Rightarrow> icmp_state \<Rightarrow> ping_key list \<Rightarrow> bool" where
  "pings_but Q s ks \<longleftrightarrow> tree_inv cookie_compare every (Pings s) ks \<and> (\<forall>k \<in> set ks. sound_cookie s k)
     \<and> {p. cookies s p \<noteq> None} = c_ptr ` set ks \<and> set (timeout_ptrs (ping_timers s)) = c_ptr ` set ks - Q
     \<and> distinct (timeout_ptrs (ping_timers s))
     \<and> (\<forall>d p. (d, Next_ping p) \<in> set (ping_timers s) \<longrightarrow> (\<exists>e>d. (e, Ping_timeout p) \<in> set (ping_timers s)))
     \<and> (\<forall>p \<ge> cookie_next s. cookies s p = None)"

definition ping_inv :: "icmp_state \<Rightarrow> bool" where
  "ping_inv s \<longleftrightarrow> (\<exists>ks. pings_but {} s ks)"

definition same_pings :: "icmp_state \<Rightarrow> icmp_state \<Rightarrow> bool" where
  "same_pings s s' \<longleftrightarrow> Pings s' = Pings s \<and> cookies s' = cookies s \<and> cookie_next s' = cookie_next s \<and> ping_timers s' = ping_timers s"

lemma pings_but_timers:
  assumes ks: "pings_but Q s ks" and u: "Pings u = Pings s" "cookies u = cookies s" "cookie_next u = cookie_next s"
    and t: "set (timeout_ptrs (ping_timers u)) = c_ptr ` set ks - R" "distinct (timeout_ptrs (ping_timers u))"
    and n: "\<And>d p. (d, Next_ping p) \<in> set (ping_timers u) \<Longrightarrow> \<exists>e>d. (e, Ping_timeout p) \<in> set (ping_timers u)"
  shows "pings_but R u ks"
proof -
  have "sound_cookie u k = sound_cookie s k" for k by (simp add: sound_cookie_def u(2))
  moreover have "\<forall>d p. (d, Next_ping p) \<in> set (ping_timers u) \<longrightarrow> (\<exists>e>d. (e, Ping_timeout p) \<in> set (ping_timers u))" using n by blast
  ultimately show ?thesis using ks t(2) unfolding pings_but_def u t(1) by blast
qed

lemma same_pings_but: "same_pings s s' \<Longrightarrow> pings_but Q s' ks = pings_but Q s ks"
  by (simp add: same_pings_def pings_but_def sound_cookie_def)

lemma same_pings_inv: "same_pings s s' \<Longrightarrow> ping_inv s' = ping_inv s"
  by (simp add: ping_inv_def same_pings_but)

lemma same_pings_trans: "same_pings s t \<Longrightarrow> same_pings t u \<Longrightarrow> same_pings s u"
  by (simp add: same_pings_def)

lemma same_pings_simps [simp]:
  "same_pings s s" "same_pings s (t\<lparr>ic_ip := u\<rparr>) = same_pings s t" "same_pings s (t\<lparr>ic_err := e\<rparr>) = same_pings s t"
  "same_pings s (t\<lparr>ping_tick := n\<rparr>) = same_pings s t" "same_pings s (t\<lparr>ic_mem := m\<rparr>) = same_pings s t"
  "same_pings s (t\<lparr>ic_tmr := m\<rparr>) = same_pings s t" "same_pings s (ping_call st t) = same_pings s t"
  "same_pings s (t\<lparr>firstpkt := b\<rparr>) = same_pings s t" "same_pings s (t\<lparr>last_echo_id := i\<rparr>) = same_pings s t"
  "same_pings s (t\<lparr>last_echo_seq := q\<rparr>) = same_pings s t" "same_pings s (t\<lparr>next_ping_id := i\<rparr>) = same_pings s t"
  "same_pings s (icmp_discard t) = same_pings s t"
  by (simp_all add: same_pings_def ping_call_def icmp_discard_def)

text \<open>A cookie whose error code is changed.\<close>

lemma pings_but_update:
  assumes "pings_but Q s ks" "cookies s p = Some c" "c_key c' = c_key c" "c_cb c' = c_cb c" "c_interval c' = c_interval c"
    "c_timeout c' = c_timeout c"
  shows "pings_but Q (set_cookie p (Some c') s) ks"
proof -
  have "{x. cookies (set_cookie p (Some c') s) x \<noteq> None} = {x. cookies s x \<noteq> None}" using assms(2) by (auto simp: set_cookie_def)
  moreover have "\<forall>k \<in> set ks. sound_cookie (set_cookie p (Some c') s) k"
    using assms by (auto simp: pings_but_def sound_cookie_def set_cookie_def)
  moreover have "cookies (set_cookie p (Some c') s) x = None" if "cookie_next s \<le> x" for x
    using assms(1,2) that by (auto simp: pings_but_def set_cookie_def)
  ultimately show ?thesis using assms(1) by (simp add: pings_but_def) (simp add: set_cookie_def)
qed

section \<open>Sending\<close>

lemma send_echo_same: "pico_icmp4_send_echo s c = Some (r, s') \<Longrightarrow> same_pings s s' \<and> ping_tick s' = ping_tick s"
  by (auto simp: pico_icmp4_send_echo_def Let_def bind_eq_Some_conv split: if_splits option.splits prod.splits)

lemma send_echo_none:
  assumes "ic_ip s' = ic_ip s" shows "pico_icmp4_send_echo s' c = None \<longleftrightarrow> pico_icmp4_send_echo s c = None"
  using assms by (auto simp: pico_icmp4_send_echo_def Let_def bind_eq_None_conv bind_eq_Some_conv split: if_splits option.splits prod.splits)

lemma alloc_same: "icmp_alloc s = (ok, s') \<Longrightarrow> same_pings s s' \<and> ic_ip s' = ic_ip s"
  by (auto simp: icmp_alloc_def split: list.splits)

lemma ping_timer_add_cases:
  assumes "ping_timer_add delay t s = (ok, s')"
  shows "ping_timers s' = (if ok then ping_timers s @ [(unat (ping_tick s) + unat delay, t)] else ping_timers s)"
    "Pings s' = Pings s" "cookies s' = cookies s" "cookie_next s' = cookie_next s" "ping_tick s' = ping_tick s" "ic_ip s' = ic_ip s"
  using assms by (auto simp: ping_timer_add_def split: list.splits if_splits)

lemma add_timeout:
  assumes "pings_but {q} s ks" "q \<in> c_ptr ` set ks" "ping_timers s' = ping_timers s @ [(d, Ping_timeout q)]"
    and "Pings s' = Pings s" "cookies s' = cookies s" "cookie_next s' = cookie_next s"
  shows "pings_but {} s' ks"
proof -
  have "\<exists>e>d'. (e, Ping_timeout p) \<in> set (ping_timers s')" if "(d', Next_ping p) \<in> set (ping_timers s')" for d' p
  proof -
    have "(d', Next_ping p) \<in> set (ping_timers s)" using assms(3) that by simp
    then have "\<exists>e>d'. (e, Ping_timeout p) \<in> set (ping_timers s)" using assms(1) by (simp add: pings_but_def)
    then show ?thesis using assms(3) by auto
  qed
  then show ?thesis using assms by (auto simp: pings_but_def sound_cookie_def)
qed

lemma add_next:
  assumes "pings_but {} s ks" "(e, Ping_timeout q) \<in> set (ping_timers s)" "d < e" "ping_timers s' = ping_timers s @ [(d, Next_ping q)]"
    and "Pings s' = Pings s" "cookies s' = cookies s" "cookie_next s' = cookie_next s"
  shows "pings_but {} s' ks"
proof -
  have "\<exists>e>d'. (e, Ping_timeout p) \<in> set (ping_timers s')" if "(d', Next_ping p) \<in> set (ping_timers s')" for d' p
    using assms(1-4) that by (auto simp: pings_but_def)
  then show ?thesis using assms by (auto simp: pings_but_def sound_cookie_def)
qed

lemma delay_less:
  assumes "0 < i" "i < t" "t < 2 ^ 31" shows "unat (of_int i :: u32) < unat (of_int t :: u32)"
proof -
  have "unat (of_int x :: u32) = nat x" if "0 \<le> x" "x < 2 ^ 31" for x
    using that by (simp add: unat_eq_nat_uint uint_word_of_int take_bit_int_eq_self)
  then show ?thesis using assms by simp
qed

text \<open>Taking a cookie without timers out of the tree and out of memory.\<close>

lemma cookie_removed:
  assumes p: "pings_but Q s ks" "Q \<subseteq> {q}" "q \<notin> set (timeout_ptrs (ping_timers s))"
    and k: "k \<in> set ks" "c_ptr k = q" and del: "pico_tree_delete cookie_compare (Pings s) (Some k) = Some (x, t)"
  shows "pings_but {} (set_cookie q None (s\<lparr>Pings := t\<rparr>)) (keys_delete cookie_compare k ks)"
proof -
  define js where "js = keys_delete cookie_compare k ks"
  have inv: "tree_inv cookie_compare every (Pings s) ks" using p(1) by (simp add: pings_but_def)
  have so: "keys_sorted cookie_compare ks" using inv by (simp add: tree_inv_def)
  have t: "tree_inv cookie_compare every t js" using ping_order.delete_inv [OF inv, of k] del by (simp add: js_def)
  have uniq: "y = k" if "y \<in> set ks" "cookie_compare y k = 0" for y
    using ping_order.find_unique [OF so _ that] ping_order.find_unique [OF so _ k(1) ping_order.cmp_refl] by simp
  have set: "set js = set ks - {k}"
  proof -
    have "set js = {y \<in> set ks. cookie_compare y k \<noteq> 0}" using ping_order.delete_set [OF so, of k] by (simp add: js_def)
    then show ?thesis using uniq ping_order.cmp_refl [of k] by blast
  qed
  have ptr: "y = k" if "y \<in> set ks" "c_ptr y = q" for y
  proof -
    have "sound_cookie s y" "sound_cookie s k" using that(1) k(1) p(1) by (simp_all add: pings_but_def)
    then show ?thesis using that(2) k(2) by (auto simp: sound_cookie_def)
  qed
  have img: "c_ptr ` set js = c_ptr ` set ks - {q}" unfolding set using ptr k by blast
  have old: "{y. cookies s y \<noteq> None} = c_ptr ` set ks" "\<forall>y \<in> set ks. sound_cookie s y"
    "set (timeout_ptrs (ping_timers s)) = c_ptr ` set ks - Q" using p(1) by (simp_all add: pings_but_def)
  have "\<forall>y \<in> set js. sound_cookie (set_cookie q None (s\<lparr>Pings := t\<rparr>)) y"
  proof
    fix y assume "y \<in> set js"
    then have "y \<in> set ks" "c_ptr y \<noteq> q" using set ptr by blast+
    then have "sound_cookie s y" "c_ptr y \<noteq> q" using old(2) by simp_all
    then show "sound_cookie (set_cookie q None (s\<lparr>Pings := t\<rparr>)) y" by (simp add: sound_cookie_def set_cookie_def)
  qed
  moreover have "{y. cookies (set_cookie q None (s\<lparr>Pings := t\<rparr>)) y \<noteq> None} = c_ptr ` set js"
  proof -
    have "{y. cookies (set_cookie q None (s\<lparr>Pings := t\<rparr>)) y \<noteq> None} = {y. cookies s y \<noteq> None} - {q}" by (auto simp: set_cookie_def)
    then show ?thesis by (simp only: old(1) img)
  qed
  moreover have "set (timeout_ptrs (ping_timers s)) = c_ptr ` set js" using old(3) p(2,3) unfolding img by blast
  ultimately show ?thesis using p(1) t by (simp add: pings_but_def js_def [symmetric]) (simp add: set_cookie_def)
qed

lemma ping_failed_inv:
  assumes p: "pings_but {q} s ks" and k: "k \<in> set ks" "c_ptr k = q"
  shows "\<exists>s'. ping_failed s q = Some (- 1, s') \<and> ping_inv (set_cookie q None s')"
proof -
  obtain c where c: "cookies s q = Some c" "c_key c = k" "c_cb c" using p k by (auto simp: pings_but_def sound_cookie_def)
  define u where "u = ping_call \<lparr>st_dst = 0, st_size = 0, st_seq = 0, st_time = 0, st_ttl = 0, st_err = PICO_PING_ERR_ABORTED\<rparr>
    (set_cookie q (Some (c\<lparr>c_err := PICO_PING_ERR_ABORTED\<rparr>)) s)"
  have "pings_but {q} (set_cookie q (Some (c\<lparr>c_err := PICO_PING_ERR_ABORTED\<rparr>)) s) ks" by (rule pings_but_update [OF p c(1)]) simp_all
  then have u: "pings_but {q} u ks" using same_pings_but [of "set_cookie q (Some (c\<lparr>c_err := PICO_PING_ERR_ABORTED\<rparr>)) s" u] by (simp add: u_def)
  have "Pings u = Pings s" by (simp add: u_def ping_call_def set_cookie_def)
  moreover obtain x t where t: "pico_tree_delete cookie_compare (Pings u) (Some k) = Some (x, t)"
    using ping_order.delete_inv [of "Pings u" ks k] u by (auto simp: pings_but_def)
  ultimately have "ping_failed s q = Some (- 1, u\<lparr>Pings := t\<rparr>)" using c by (simp add: ping_failed_def u_def Let_def)
  moreover have "q \<notin> set (timeout_ptrs (ping_timers u))" using u by (simp add: pings_but_def)
  then have "ping_inv (set_cookie q None (u\<lparr>Pings := t\<rparr>))" using cookie_removed [OF u _ _ k t] by (auto simp: ping_inv_def)
  ultimately show ?thesis by blast
qed

text \<open>A cookie of the tree that has no timers gets them, or is taken out of the tree for its caller to free.\<close>

lemma send_ping_inv:
  assumes p: "pings_but {q} s ks" and k: "k \<in> set ks" "c_ptr k = q"
    and echo: "pico_icmp4_send_echo s (the (cookies s q)) \<noteq> None"
  shows "\<exists>r s'. send_ping s q = Some (r, s') \<and> ping_inv (if r \<noteq> 0 then set_cookie q None s' else s')"
proof -
  obtain c where c: "cookies s q = Some c" "c_key c = k" "0 < c_interval c" "c_interval c < c_timeout c" "c_timeout c < 2 ^ 31"
    using p k by (auto simp: pings_but_def sound_cookie_def)
  obtain r s1 where e: "pico_icmp4_send_echo s c = Some (r, s1)" using echo c(1) by auto
  define s2 where "s2 = set_cookie q (Some (c\<lparr>c_timestamp := ping_tick s1\<rparr>)) s1"
  have same: "same_pings s s1" using send_echo_same [OF e] by simp
  have s1: "pings_but {q} s1 ks" "cookies s1 q = Some c" using same p c(1) same_pings_but [OF same, of "{q}" ks] by (simp_all add: same_pings_def)
  have s2: "pings_but {q} s2 ks" unfolding s2_def by (rule pings_but_update [OF s1]) simp_all
  have qk: "q \<in> c_ptr ` set ks" using k by auto
  obtain ok s3 where t1: "ping_timer_add (of_int (c_timeout c)) (Ping_timeout q) s2 = (ok, s3)" by fastforce
  note f1 = ping_timer_add_cases [OF t1]
  have run: "send_ping s q = (if \<not> ok then ping_failed s3 q
      else if c_seq (c_key c) < (of_int (c_count c) :: u16)
      then let (ok2, s4) = ping_timer_add (of_int (c_interval c)) (Next_ping q) s3 in
           if \<not> ok2 then ping_failed (s4\<lparr>ping_timers := butlast (ping_timers s4)\<rparr>) q else Some (0, s4)
      else Some (0, s3))"
    using c(1) e t1 by (simp add: send_ping_def s2_def Let_def)
  show ?thesis
  proof (cases ok)
    case False
    then have "pings_but {q} s3 ks" using same_pings_but [of s2 s3] f1 s2 by (simp add: same_pings_def)
    from ping_failed_inv [OF this k] show ?thesis using run False by (auto intro!: exI [of _ "- 1 :: int"])
  next
    case ok: True
    define d where "d = unat (ping_tick s2) + unat (of_int (c_timeout c) :: u32)"
    have s3: "pings_but {} s3 ks" "(d, Ping_timeout q) \<in> set (ping_timers s3)" "ping_timers s3 = ping_timers s2 @ [(d, Ping_timeout q)]"
      using add_timeout [OF s2 qk _ f1(2,3,4)] f1(1) ok by (simp_all add: d_def)
    show ?thesis
    proof (cases "c_seq (c_key c) < (of_int (c_count c) :: u16)")
      case False
      then show ?thesis using run ok s3(1) by (auto simp: ping_inv_def)
    next
      case seq: True
      obtain ok2 s4 where t2: "ping_timer_add (of_int (c_interval c)) (Next_ping q) s3 = (ok2, s4)" by fastforce
      note f2 = ping_timer_add_cases [OF t2]
      have run2: "send_ping s q = (if \<not> ok2 then ping_failed (s4\<lparr>ping_timers := butlast (ping_timers s4)\<rparr>) q else Some (0, s4))"
        using run ok seq t2 by simp
      show ?thesis
      proof (cases ok2)
        case True
        have "unat (ping_tick s3) + unat (of_int (c_interval c) :: u32) < d"
          using delay_less [OF c(3,4,5)] f1(5) by (simp add: d_def)
        then have "pings_but {} s4 ks" using add_next [OF s3(1,2) _ _ f2(2,3,4)] f2(1) True by simp
        then show ?thesis using run2 True by (auto simp: ping_inv_def)
      next
        case False
        have "same_pings s2 (s4\<lparr>ping_timers := butlast (ping_timers s4)\<rparr>)" using f1(2-6) f2 s3(3) False by (simp add: same_pings_def)
        then have "pings_but {q} (s4\<lparr>ping_timers := butlast (ping_timers s4)\<rparr>) ks" using same_pings_but s2 by blast
        from ping_failed_inv [OF this k] show ?thesis using run2 False by (auto intro!: exI [of _ "- 1 :: int"])
      qed
    qed
  qed
qed

lemma send_ping_cases:
  assumes p: "pings_but {q} s ks" and k: "k \<in> set ks" "c_ptr k = q"
  shows "send_ping s q = None \<Longrightarrow> pico_icmp4_send_echo s (the (cookies s q)) = None"
    "send_ping s q = Some (r, s') \<Longrightarrow> ping_inv (if r \<noteq> 0 then set_cookie q None s' else s')"
proof -
  obtain c where c: "cookies s q = Some c" using p k by (auto simp: pings_but_def sound_cookie_def)
  note main = send_ping_inv [OF p k]
  show "pico_icmp4_send_echo s (the (cookies s q)) = None" if "send_ping s q = None" using main that by (cases "pico_icmp4_send_echo s (the (cookies s q))") auto
  assume r: "send_ping s q = Some (r, s')"
  have "send_ping s q = None" if "pico_icmp4_send_echo s (the (cookies s q)) = None" using that c by (simp add: send_ping_def)
  then have "pico_icmp4_send_echo s (the (cookies s q)) \<noteq> None" using r by (metis option.distinct(1))
  then show "ping_inv (if r \<noteq> 0 then set_cookie q None s' else s')" using main r by (auto split del: if_split)
qed

text \<open>A cookie is allocated at \<open>q\<close> and put into the tree.\<close>

lemma new_cookie:
  assumes p: "pings_but {} s ks" and q: "q = cookie_next s" "c_ptr k = q"
    and c: "c_key c = k" "c_cb c" "0 < c_interval c" "c_interval c < c_timeout c" "c_timeout c < 2 ^ 31"
    and u: "Pings u = Pings s" "cookies u = (cookies s)(q := Some c)" "cookie_next u = q + 1" "ping_timers u = ping_timers s"
  shows "\<exists>r t. pico_tree_insert cookie_compare (Pings s) k mem = Some (r, t)
     \<and> (if r \<noteq> Ins_NULL then ping_inv (set_cookie q None u) else \<exists>js. pings_but {q} (u\<lparr>Pings := t\<rparr>) js \<and> k \<in> set js)"
proof -
  have inv: "tree_inv cookie_compare every (Pings s) ks" and fresh: "\<forall>x \<ge> q. cookies s x = None"
    and old: "{x. cookies s x \<noteq> None} = c_ptr ` set ks" "\<forall>y \<in> set ks. sound_cookie s y"
    using p q(1) by (simp_all add: pings_but_def)
  have "q \<notin> {x. cookies s x \<noteq> None}" using fresh by simp
  then have nq: "q \<notin> c_ptr ` set ks" by (simp only: old(1) not_False_eq_True)
  have undone: "ping_inv (set_cookie q None u)"
  proof -
    have "cookies (set_cookie q None u) = cookies s" using fresh u(2) by (auto simp: set_cookie_def)
    moreover have "Pings (set_cookie q None u) = Pings s" "ping_timers (set_cookie q None u) = ping_timers s"
      "cookie_next (set_cookie q None u) = q + 1" using u by (simp_all add: set_cookie_def)
    ultimately have "pings_but {} (set_cookie q None u) ks" using p q(1) by (simp add: pings_but_def sound_cookie_def)
    then show ?thesis by (auto simp: ping_inv_def)
  qed
  show ?thesis
  proof (cases "keys_find cookie_compare k ks = None \<and> mem")
    case True
    then obtain t where t: "pico_tree_insert cookie_compare (Pings s) k mem = Some (Ins_NULL, t)"
      "tree_inv cookie_compare every t (keys_insert cookie_compare k ks)"
      using ping_order.insert_inv [OF inv, where key = k and mem_ok = mem] by auto
    define js where "js = keys_insert cookie_compare k ks"
    have js: "set js = insert k (set ks)" by (simp add: js_def ping_order.insert_set)
    have "{x. cookies u x \<noteq> None} = insert q {x. cookies s x \<noteq> None}" using u(2) by auto
    then have img: "{x. cookies u x \<noteq> None} = c_ptr ` set js" by (simp only: old(1)) (simp add: js q(2))
    have "sound_cookie (u\<lparr>Pings := t\<rparr>) y" if "y \<in> set js" for y
    proof (cases "y = k")
      case True
      then show ?thesis using c u(2) q(2) by (simp add: sound_cookie_def)
    next
      case False
      then have "y \<in> set ks" using that js by simp
      then have "sound_cookie s y" "c_ptr y \<noteq> q" using old(2) nq by auto
      then show ?thesis using u(2) by (simp add: sound_cookie_def)
    qed
    moreover have "set (timeout_ptrs (ping_timers s)) = c_ptr ` set js - {q}" using p nq by (auto simp: pings_but_def js q(2))
    ultimately have "pings_but {q} (u\<lparr>Pings := t\<rparr>) js"
      using p u fresh t(2) img by (simp add: pings_but_def js_def [symmetric])
    then show ?thesis using t(1) js by auto
  next
    case False
    then have "\<exists>r. pico_tree_insert cookie_compare (Pings s) k mem = Some (r, Pings s) \<and> r \<noteq> Ins_NULL"
      using ping_order.insert_inv [OF inv, where key = k and mem_ok = mem] by (auto split: option.splits if_splits)
    then show ?thesis using undone by auto
  qed
qed

section \<open>Timers that run\<close>

lemma timeout_runs:
  assumes inv: "ping_inv s" and due: "first_due s d (Ping_timeout p)"
  shows "\<exists>s'. ping_fire s d (Ping_timeout p) = Some s' \<and> ping_inv s'"
proof -
  obtain ks where ks: "pings_but {} s ks" using inv by (auto simp: ping_inv_def)
  define u where "u = s\<lparr>ping_timers := remove1 (d, Ping_timeout p) (ping_timers s)\<rparr>"
  have di: "distinct (timeout_ptrs (ping_timers s))" and pt: "set (timeout_ptrs (ping_timers s)) = c_ptr ` set ks"
    and nx: "\<And>d p. (d, Next_ping p) \<in> set (ping_timers s) \<Longrightarrow> \<exists>e>d. (e, Ping_timeout p) \<in> set (ping_timers s)"
    using ks by (simp_all add: pings_but_def)
  have mem: "(d, Ping_timeout p) \<in> set (ping_timers s)" and low: "\<And>e t. (e, t) \<in> set (ping_timers s) \<Longrightarrow> d \<le> e"
    using due by (auto simp: first_due_def)
  have rm: "timeout_ptrs (ping_timers u) = remove1 p (timeout_ptrs (ping_timers s))"
    using timeout_ptrs_remove [OF di mem] by (simp add: u_def)
  have nu: "\<exists>e>d'. (e, Ping_timeout p') \<in> set (ping_timers u)" if "(d', Next_ping p') \<in> set (ping_timers u)" for d' p'
  proof -
    have n: "(d', Next_ping p') \<in> set (ping_timers s)" using that set_remove1_subset [of "(d, Ping_timeout p)" "ping_timers s"] by (auto simp: u_def)
    obtain e where e: "e > d'" "(e, Ping_timeout p') \<in> set (ping_timers s)" using nx [OF n] by blast
    have "p' \<noteq> p"
    proof
      assume "p' = p"
      then have "d = e" using timeout_ptrs_unique [OF di mem] e(2) by blast
      then show False using e(1) low [OF n] by simp
    qed
    then have "(e, Ping_timeout p') \<in> set (ping_timers u)" using e(2) by (simp add: u_def in_set_remove1)
    then show ?thesis using e(1) by blast
  qed
  have tu: "set (timeout_ptrs (ping_timers u)) = c_ptr ` set ks - {p}" "distinct (timeout_ptrs (ping_timers u))"
    using rm di pt by simp_all
  have fu: "Pings u = Pings s" "cookies u = cookies s" "cookie_next u = cookie_next s" by (simp_all add: u_def)
  have u: "pings_but {p} u ks" by (rule pings_but_timers [OF ks fu tu nu])
  have "p \<in> c_ptr ` set ks" using mem pt timeout_ptrs_in by blast
  then obtain k where k: "k \<in> set ks" "c_ptr k = p" by auto
  then obtain c where c: "cookies u p = Some c" "c_key c = k" "c_cb c" using u by (auto simp: pings_but_def sound_cookie_def)
  have inv: "tree_inv cookie_compare every (Pings u) ks" using u by (simp add: pings_but_def)
  have "keys_find cookie_compare k ks \<noteq> None" using k(1) ping_order.cmp_refl [of k] by (auto simp: ping_order.find_None)
  then have found: "\<exists>x. pico_tree_findKey cookie_compare (Pings u) k = Some (Some x)" using ping_order.find_inv [OF inv, of k] by auto
  define v where "v = (if c_err c = PICO_PING_ERR_PENDING then ping_call \<lparr>st_dst = c_dst c, st_size = c_size c, st_seq = c_seq (c_key c),
    st_time = 0, st_ttl = 0, st_err = PICO_PING_ERR_TIMEOUT\<rparr> u else u)"
  have v: "same_pings u v" by (simp add: v_def)
  have vi: "pings_but {p} v ks" "Pings v = Pings u" using same_pings_but [OF v] u v by (simp_all add: same_pings_def)
  obtain x t where t: "pico_tree_delete cookie_compare (Pings v) (Some k) = Some (x, t)" using ping_order.delete_inv [OF inv, of k] vi(2) by auto
  have "ping_fire s d (Ping_timeout p) = Some (set_cookie p None (v\<lparr>Pings := t\<rparr>))"
  proof -
    have "ping_fire s d (Ping_timeout p) = ping_timeout u p" by (simp add: ping_fire_def u_def)
    also have "\<dots> = Some (set_cookie p None (v\<lparr>Pings := t\<rparr>))"
    proof -
      have "(if c_err c = PICO_PING_ERR_PENDING then if c_cb c then Some (ping_call \<lparr>st_dst = c_dst c, st_size = c_size c,
          st_seq = c_seq (c_key c), st_time = 0, st_ttl = 0, st_err = PICO_PING_ERR_TIMEOUT\<rparr> u) else None else Some u) = Some v"
        using c(3) by (simp add: v_def)
      moreover obtain y where "pico_tree_findKey cookie_compare (Pings u) k = Some (Some y)" using found by blast
      moreover have "pico_tree_delete cookie_compare (Pings v) (Some k) = Some (x, t)" by (rule t)
      ultimately show ?thesis using c(1,2) by (simp add: ping_timeout_def)
    qed
    finally show ?thesis .
  qed
  moreover have "p \<notin> set (timeout_ptrs (ping_timers v))" using vi(1) by (simp add: pings_but_def)
  ultimately show ?thesis using cookie_removed [OF vi(1) _ _ k t] by (auto simp: ping_inv_def)
qed

lemma next_ping_runs:
  assumes inv: "ping_inv s" and due: "first_due s d (Next_ping p)"
  shows "ping_fire s d (Next_ping p) = Some s' \<Longrightarrow> ping_inv s'"
    "ping_fire s d (Next_ping p) = None \<Longrightarrow> \<exists>c k. cookies s p = Some c \<and> pico_icmp4_send_echo s (c\<lparr>c_key := k\<rparr>) = None"
proof -
  obtain ks where ks: "pings_but {} s ks" using inv by (auto simp: ping_inv_def)
  define u where "u = s\<lparr>ping_timers := remove1 (d, Next_ping p) (ping_timers s)\<rparr>"
  have di: "distinct (timeout_ptrs (ping_timers s))" and pt: "set (timeout_ptrs (ping_timers s)) = c_ptr ` set ks"
    and nx: "\<And>d p. (d, Next_ping p) \<in> set (ping_timers s) \<Longrightarrow> \<exists>e>d. (e, Ping_timeout p) \<in> set (ping_timers s)"
    using ks by (simp_all add: pings_but_def)
  have tm: "timeout_ptrs (ping_timers u) = timeout_ptrs (ping_timers s)" by (simp add: u_def timeout_ptrs_remove_next)
  have "\<exists>e>d'. (e, Ping_timeout p') \<in> set (ping_timers u)" if "(d', Next_ping p') \<in> set (ping_timers u)" for d' p'
  proof -
    have "(d', Next_ping p') \<in> set (ping_timers s)" using that set_remove1_subset [of "(d, Next_ping p)" "ping_timers s"] by (auto simp: u_def)
    then obtain e where "e > d'" "(e, Ping_timeout p') \<in> set (ping_timers s)" using nx by blast
    then show ?thesis by (auto simp: u_def)
  qed
  then have u: "pings_but {} u ks" using di pt tm by (intro pings_but_timers [OF ks]) (simp_all add: u_def)
  have "(d, Next_ping p) \<in> set (ping_timers s)" using due by (simp add: first_due_def)
  then have "p \<in> c_ptr ` set ks" using nx pt timeout_ptrs_in by blast
  then obtain k where k: "k \<in> set ks" "c_ptr k = p" by auto
  then obtain c where c: "cookies u p = Some c" "c_key c = k" "c_cb c" "0 < c_interval c" "c_interval c < c_timeout c" "c_timeout c < 2 ^ 31"
    using u by (auto simp: pings_but_def sound_cookie_def)
  have tree: "tree_inv cookie_compare every (Pings u) ks" using u by (simp add: pings_but_def)
  have "keys_find cookie_compare k ks \<noteq> None" using k(1) ping_order.cmp_refl [of k] by (auto simp: ping_order.find_None)
  then obtain x where found: "pico_tree_findKey cookie_compare (Pings u) k = Some (Some x)" using ping_order.find_inv [OF tree, of k] by auto
  have fire: "ping_fire s d (Next_ping p) = next_ping u p" by (simp add: ping_fire_def u_def)
  have uinv: "ping_inv u" using u by (auto simp: ping_inv_def)
  define go where "go = (\<not> (c_err c = PICO_PING_ERR_ABORTED \<or> \<not> c_seq (c_key c) < (of_int (c_count c) :: u16)))"
  obtain ok s1 where a1: "icmp_alloc u = (ok, s1)" by fastforce
  note s1 = alloc_same [OF a1]
  define q where "q = cookie_next s1"
  define w where "w = \<lparr>c_ptr = q, c_id = c_id (c_key c), c_seq = c_seq (c_key c) + 1\<rparr>"
  define s2 where "s2 = set_cookie q (Some (c\<lparr>c_key := w\<rparr>)) (s1\<lparr>cookie_next := q + 1\<rparr>)"
  obtain mem s3 where a2: "icmp_alloc s2 = (mem, s3)" by fastforce
  note s3 = alloc_same [OF a2]
  have f3: "Pings s3 = Pings u" "cookies s3 = (cookies u)(q := Some (c\<lparr>c_key := w\<rparr>))" "cookie_next s3 = q + 1" "ping_timers s3 = ping_timers u"
    "q = cookie_next u" "ic_ip s3 = ic_ip s"
    using s1 s3 by (simp_all add: same_pings_def s2_def set_cookie_def q_def u_def)
  obtain r t where ins: "pico_tree_insert cookie_compare (Pings u) w mem = Some (r, t)"
    "if r \<noteq> Ins_NULL then ping_inv (set_cookie q None s3) else \<exists>js. pings_but {q} (s3\<lparr>Pings := t\<rparr>) js \<and> w \<in> set js"
    using new_cookie [OF u f3(5), of w "c\<lparr>c_key := w\<rparr>" s3 mem] c f3 by (auto simp: w_def)
  define v where "v = s3\<lparr>Pings := t\<rparr>"
  have a2': "icmp_alloc (set_cookie q (Some (c\<lparr>c_key := \<lparr>c_ptr = q, c_id = c_id k, c_seq = c_seq k + 1\<rparr>\<rparr>)) (s1\<lparr>cookie_next := Suc q\<rparr>)) = (mem, s3)"
    and ins': "pico_tree_insert cookie_compare (Pings u) \<lparr>c_ptr = q, c_id = c_id k, c_seq = c_seq k + 1\<rparr> mem = Some (r, t)"
    using a2 ins(1) c(2) by (simp_all add: s2_def w_def)
  have run: "next_ping u p = (if \<not> go then Some u else if \<not> ok then Some s1 else if r \<noteq> Ins_NULL then Some (set_cookie q None s3)
      else do { (r, s) \<leftarrow> send_ping v q; Some (if r \<noteq> 0 then set_cookie q None s else s) })"
    using c(1,2) found a1 a2' ins' f3(1) by (auto simp: next_ping_def go_def Let_def q_def [symmetric] v_def)
  have none: "pico_icmp4_send_echo s (c\<lparr>c_key := w\<rparr>) = None" if r0: "go" "ok" "r = Ins_NULL" and sn: "send_ping v q = None"
  proof -
    obtain js where js: "pings_but {q} v js" "w \<in> set js" using ins(2) r0 by (auto simp: v_def)
    have "pico_icmp4_send_echo v (the (cookies v q)) = None" by (rule send_ping_cases(1) [OF js _ sn]) (simp add: w_def)
    then show ?thesis using send_echo_none [of v s] f3(2,6) by (simp add: v_def)
  qed
  have "cookies s p = Some c" using c(1) by (simp add: u_def)
  show "\<exists>c k. cookies s p = Some c \<and> pico_icmp4_send_echo s (c\<lparr>c_key := k\<rparr>) = None" if "ping_fire s d (Next_ping p) = None"
  proof -
    have "go" "ok" "r = Ins_NULL" using that unfolding fire run by (auto split: if_splits)
    moreover have "send_ping v q = None"
      using that calculation unfolding fire run by (cases "send_ping v q") auto
    ultimately show ?thesis using none \<open>cookies s p = Some c\<close> by blast
  qed
  show "ping_inv s'" if s': "ping_fire s d (Next_ping p) = Some s'"
  proof (cases "go \<and> ok \<and> r = Ins_NULL")
    case True
    then obtain js where js: "pings_but {q} v js" "w \<in> set js" using ins(2) by (auto simp: v_def)
    obtain r' s'' where sp: "send_ping v q = Some (r', s'')" "s' = (if r' \<noteq> 0 then set_cookie q None s'' else s'')"
      using s' True unfolding fire run by (auto simp: bind_eq_Some_conv)
    show ?thesis using send_ping_cases(2) [OF js _ sp(1)] sp(2) by (simp add: w_def)
  next
    case False
    then show ?thesis using s' uinv same_pings_inv s1 ins(2) unfolding fire run by (auto split: if_splits)
  qed
qed

section \<open>The other operations\<close>

lemma ping_start_inv:
  assumes inv: "ping_inv s" and c: "0 < interval" "interval < timeout" "timeout < 2 ^ 31"
    and run: "pico_icmp4_ping s dst count interval timeout sz True = Some (r, s')"
  shows "ping_inv s'"
proof (cases "dst = None \<or> interval = 0 \<or> timeout = 0 \<or> count = 0")
  case True
  then have "s' = s\<lparr>ic_err := PICO_ERR_EINVAL\<rparr>" using run by (auto simp: pico_icmp4_ping_def)
  then have "same_pings s s'" by simp
  then show ?thesis using inv same_pings_inv by blast
next
  case given: False
  obtain ok s1 where a1: "icmp_alloc s = (ok, s1)" by fastforce
  note s1 = alloc_same [OF a1]
  obtain ks where ks: "pings_but {} s1 ks" using inv s1 same_pings_but by (auto simp: ping_inv_def)
  have i1: "ping_inv s1" using ks by (auto simp: ping_inv_def)
  define q where "q = cookie_next s1"
  have fresh: "ping_inv (s1\<lparr>cookie_next := q + 1, ic_err := e\<rparr>)" for e
  proof -
    have "pings_but {} (s1\<lparr>cookie_next := q + 1, ic_err := e\<rparr>) ks" using ks by (simp add: pings_but_def sound_cookie_def q_def)
    then show ?thesis by (auto simp: ping_inv_def)
  qed
  show ?thesis
  proof (cases ok)
    case False
    then have "s' = s1\<lparr>ic_err := PICO_ERR_ENOMEM\<rparr>" using run given a1 by (auto simp: pico_icmp4_ping_def)
    then have "same_pings s1 s'" by simp
    then show ?thesis using i1 same_pings_inv by blast
  next
    case True
    obtain p a where pa: "pico_string_to_ipv4 dst = Some (p, a)"
      using run given a1 True by (auto simp: pico_icmp4_ping_def Let_def bind_eq_Some_conv)
    show ?thesis
    proof (cases "p < 0")
      case neg: True
      then have "s' = s1\<lparr>cookie_next := q + 1, ic_err := PICO_ERR_EINVAL\<rparr>" using run given a1 True pa by (auto simp: pico_icmp4_ping_def q_def)
      then show ?thesis using fresh by simp
    next
      case False
      define k where "k = \<lparr>c_ptr = q, c_id = next_ping_id s1, c_seq = 1\<rparr>"
      obtain b where b: "a = Some b" using run given a1 True pa False by (cases a) (auto simp: pico_icmp4_ping_def Let_def)
      define c0 where "c0 = \<lparr>c_key = k, c_dst = b, c_err = PICO_PING_ERR_PENDING, c_size = of_int sz, c_count = count,
                       c_timestamp = 0, c_interval = interval, c_timeout = timeout, c_cb = True\<rparr>"
      define s2 where "s2 = set_cookie q (Some c0) (s1\<lparr>cookie_next := q + 1, next_ping_id := next_ping_id s1 + 1\<rparr>)"
      obtain mem s3 where a2: "icmp_alloc s2 = (mem, s3)" by fastforce
      note s3 = alloc_same [OF a2]
      have f3: "Pings s3 = Pings s1" "cookies s3 = (cookies s1)(q := Some c0)" "cookie_next s3 = q + 1" "ping_timers s3 = ping_timers s1"
        using s3 by (simp_all add: same_pings_def s2_def set_cookie_def)
      obtain e t where ins: "pico_tree_insert cookie_compare (Pings s1) k mem = Some (e, t)"
        "if e \<noteq> Ins_NULL then ping_inv (set_cookie q None s3) else \<exists>js. pings_but {q} (s3\<lparr>Pings := t\<rparr>) js \<and> k \<in> set js"
        using new_cookie [OF ks q_def, of k c0 s3 mem] c f3 by (auto simp: k_def c0_def)
      have a2': "icmp_alloc (set_cookie q (Some c0) (s1\<lparr>cookie_next := Suc q, next_ping_id := next_ping_id s1 + 1\<rparr>)) = (mem, s3)"
        using a2 by (simp add: s2_def)
      have "(e \<noteq> Ins_NULL \<and> s' = set_cookie q None s3)
          \<or> (\<exists>x u. e = Ins_NULL \<and> send_ping (s3\<lparr>Pings := t\<rparr>) q = Some (x, u) \<and> s' = (if x \<noteq> 0 then set_cookie q None u else u))"
        using run given a1 True pa False b a2' ins(1) f3(1)
        by (simp add: pico_icmp4_ping_def Let_def q_def [symmetric] k_def [symmetric] c0_def [symmetric])
          (auto simp: q_def bind_eq_Some_conv split: if_splits)
      moreover have "ping_inv (if x \<noteq> 0 then set_cookie q None u else u)" if sp: "send_ping (s3\<lparr>Pings := t\<rparr>) q = Some (x, u)" and e: "e = Ins_NULL" for x u
      proof -
        obtain js where js: "pings_but {q} (s3\<lparr>Pings := t\<rparr>) js" "k \<in> set js" using ins(2) e by auto
        show ?thesis by (rule send_ping_cases(2) [OF js _ sp]) (simp add: k_def)
      qed
      ultimately show ?thesis using ins(2) by auto
    qed
  qed
qed

lemma abort_loop_runs:
  "pings_but {} s ks \<Longrightarrow> set js \<subseteq> set ks \<Longrightarrow> \<exists>m s'. abort_loop js i n s = Some (m, s') \<and> pings_but {} s' ks"
proof (induction js arbitrary: n s)
  case (Cons k js)
  have "sound_cookie s k" using Cons.prems by (auto simp: pings_but_def)
  then obtain c where c: "cookies s (c_ptr k) = Some c" by (auto simp: sound_cookie_def)
  have "pings_but {} (set_cookie (c_ptr k) (Some (c\<lparr>c_err := PICO_PING_ERR_ABORTED\<rparr>)) s) ks"
    by (rule pings_but_update [OF Cons.prems(1) c]) simp_all
  then show ?case using Cons.IH Cons.prems c by auto
qed simp

lemma abort_runs:
  assumes "ping_inv s"
  shows "\<exists>r s'. pico_icmp4_ping_abort s i = Some (r, s') \<and> ping_inv s'"
proof -
  obtain ks where ks: "pings_but {} s ks" using assms by (auto simp: ping_inv_def)
  then have e: "pico_tree_foreach (Pings s) = Some ks" by (auto simp: pings_but_def tree_inv_def tree_keys_foreach)
  obtain m s' where m: "abort_loop ks (of_int i) 0 s = Some (m, s')" "pings_but {} s' ks" using abort_loop_runs [OF ks order_refl] by blast
  have "pings_but {} (s'\<lparr>ic_err := PICO_ERR_ENOENT\<rparr>) ks" using m(2) same_pings_but [of s' "s'\<lparr>ic_err := PICO_ERR_ENOENT\<rparr>"] by simp
  then show ?thesis using m e by (auto simp: pico_icmp4_ping_abort_def ping_inv_def)
qed

lemma reply_inv:
  assumes "ping_inv s"
  shows "ping_recv_reply s f = Some s' \<Longrightarrow> ping_inv s'"
    "frame16 f (f_trans f + IH_id) \<noteq> None \<Longrightarrow> frame16 f (f_trans f + IH_seq) \<noteq> None \<Longrightarrow> in_buffer f 0 PICO_SIZE_IP4HDR
      \<Longrightarrow> ping_recv_reply s f \<noteq> None"
proof -
  obtain ks where ks: "pings_but {} s ks" using assms by (auto simp: ping_inv_def)
  then have tree: "tree_inv cookie_compare every (Pings s) ks" by (simp add: pings_but_def)
  note fi = ping_order.find_inv [OF tree]
  have live: "\<exists>c. cookies s (c_ptr k) = Some c" if "keys_find cookie_compare x ks = Some k" for x k
    using ks ping_order.find_Some [OF that] by (auto simp: pings_but_def sound_cookie_def)
  show "ping_recv_reply s f \<noteq> None" if fields: "frame16 f (f_trans f + IH_id) \<noteq> None" "frame16 f (f_trans f + IH_seq) \<noteq> None"
    and len: "in_buffer f 0 PICO_SIZE_IP4HDR"
  proof -
    obtain i w where iw: "frame16 f (f_trans f + IH_id) = Some i" "frame16 f (f_trans f + IH_seq) = Some w" using fields by auto
    show ?thesis
    proof (cases "keys_find cookie_compare \<lparr>c_ptr = 0, c_id = short_be i, c_seq = short_be w\<rparr> ks")
      case None
      then show ?thesis using iw by (simp add: ping_recv_reply_def fi)
    next
      case (Some k)
      then show ?thesis using iw len live [OF Some] by (auto simp: ping_recv_reply_def fi Let_def)
    qed
  qed
  assume r: "ping_recv_reply s f = Some s'"
  have upd: "ping_inv (ping_call st (set_cookie p (Some (c\<lparr>c_err := e\<rparr>)) s))" "ping_inv (set_cookie p (Some (c\<lparr>c_err := e\<rparr>)) s)"
    if "cookies s p = Some c" for p c e st
  proof -
    have "pings_but {} (set_cookie p (Some (c\<lparr>c_err := e\<rparr>)) s) ks" by (rule pings_but_update [OF ks that]) simp_all
    then show "ping_inv (set_cookie p (Some (c\<lparr>c_err := e\<rparr>)) s)" by (auto simp: ping_inv_def)
    then show "ping_inv (ping_call st (set_cookie p (Some (c\<lparr>c_err := e\<rparr>)) s))"
      using same_pings_inv [of "set_cookie p (Some (c\<lparr>c_err := e\<rparr>)) s" "ping_call st (set_cookie p (Some (c\<lparr>c_err := e\<rparr>)) s)"] by simp
  qed
  obtain i w where iw: "frame16 f (f_trans f + IH_id) = Some i" "frame16 f (f_trans f + IH_seq) = Some w"
    using r by (auto simp: ping_recv_reply_def bind_eq_Some_conv)
  show "ping_inv s'"
  proof (cases "keys_find cookie_compare \<lparr>c_ptr = 0, c_id = short_be i, c_seq = short_be w\<rparr> ks")
    case None
    then show ?thesis using r iw assms by (simp add: ping_recv_reply_def fi)
  next
    case (Some k)
    then obtain c where c: "cookies s (c_ptr k) = Some c" using live by blast
    have "s' = s \<or> (\<exists>st e. s' = ping_call st (set_cookie (c_ptr k) (Some (c\<lparr>c_err := e\<rparr>)) s))
        \<or> (\<exists>e. s' = set_cookie (c_ptr k) (Some (c\<lparr>c_err := e\<rparr>)) s)"
      using r iw Some c unfolding ping_recv_reply_def by (auto simp: fi Let_def split: if_splits)
    then show ?thesis using assms upd [OF c] by auto
  qed
qed

section \<open>The transition system\<close>

inductive ping_step :: "icmp_state \<Rightarrow> icmp_state \<Rightarrow> bool" where
  Time: "ping_step s (s\<lparr>ping_tick := n\<rparr>)"
| Supplies: "ping_step s (s\<lparr>ic_mem := m, ic_tmr := t, ic_ip := u\<rparr>)"
| Start: "0 < interval \<Longrightarrow> interval < timeout \<Longrightarrow> timeout < 2 ^ 31 \<Longrightarrow>
    pico_icmp4_ping s dst count interval timeout sz True = Some (r, s') \<Longrightarrow> ping_step s s'"
| Abort: "pico_icmp4_ping_abort s i = Some (r, s') \<Longrightarrow> ping_step s s'"
| Packet: "pico_icmp4_process_in s f = Some (r, s') \<Longrightarrow> ping_step s s'"
| Fire: "first_due s d t \<Longrightarrow> ping_fire s d t = Some s' \<Longrightarrow> ping_step s s'"

inductive ping_reach :: "icmp_state \<Rightarrow> bool" where
  Init: "Pings s = empty_tree \<Longrightarrow> cookies s = Map.empty \<Longrightarrow> ping_timers s = [] \<Longrightarrow> ping_reach s"
| Step: "ping_reach s \<Longrightarrow> ping_step s s' \<Longrightarrow> ping_reach s'"

lemma echo_same: "icmp_echo s f = Some (r, s') \<Longrightarrow> same_pings s s'"
  by (auto simp: icmp_echo_def Let_def bind_eq_Some_conv split: if_splits)

lemma process_in_inv:
  assumes "ping_inv s" "pico_icmp4_process_in s f = Some (r, s')"
  shows "ping_inv s'"
proof -
  have "same_pings s s' \<or> (\<exists>s1. ping_recv_reply s f = Some s1 \<and> same_pings s1 s')"
    using assms(2) by (auto simp: pico_icmp4_process_in_def Let_def bind_eq_Some_conv split: if_splits dest: echo_same)
  then show ?thesis using assms(1) reply_inv(1) same_pings_inv by blast
qed

lemma ping_reach_inv: "ping_reach s \<Longrightarrow> ping_inv s"
proof (induction rule: ping_reach.induct)
  case (Init s)
  then have "pings_but {} s []" by (simp add: pings_but_def tree_inv_empty)
  then show ?case by (auto simp: ping_inv_def)
next
  case (Step s s')
  from Step(2) show ?case
  proof cases
    case (Time n)
    then show ?thesis using Step.IH same_pings_inv [of s s'] by simp
  next
    case (Supplies m t u)
    then show ?thesis using Step.IH same_pings_inv [of s s'] by simp
  next
    case (Start interval timeout dst count sz r)
    then show ?thesis using ping_start_inv [OF Step.IH] by blast
  next
    case (Abort i r)
    then show ?thesis using abort_runs [OF Step.IH, of i] by auto
  next
    case (Packet f r)
    then show ?thesis using process_in_inv [OF Step.IH] by blast
  next
    case (Fire d t)
    show ?thesis
    proof (cases t)
      case (Ping_timeout p)
      then show ?thesis using Fire timeout_runs [OF Step.IH, of d p] by auto
    next
      case (Next_ping p)
      then show ?thesis using Fire next_ping_runs(1) [OF Step.IH, of d p] by auto
    qed
  qed
qed

section \<open>Properties\<close>

text \<open>C15: while every ping is started with a callback, and with an interval that is positive and shorter than its timeout,
  which is less than \<open>2\<^sup>3\<^sup>1\<close>, in every state that pings, aborts, packets, time and timers can lead to, the cookies in
  memory are exactly those with a pending timeout, each with one: none is lost.  The timer due first finds its cookie:
  a timeout runs and frees it, the next ping runs if its echo request can be sent, and an abort reads no freed cookie
  either.\<close>

theorem ping_cookies_live:
  assumes "ping_reach s"
  shows "{p. cookies s p \<noteq> None} = set (timeout_ptrs (ping_timers s)) \<and> distinct (timeout_ptrs (ping_timers s))
    \<and> (\<forall>d p. first_due s d (Ping_timeout p) \<longrightarrow> cookies s p \<noteq> None \<and> ping_fire s d (Ping_timeout p) \<noteq> None)
    \<and> (\<forall>d p. first_due s d (Next_ping p) \<longrightarrow> (\<exists>c. cookies s p = Some c
        \<and> ((\<forall>k. pico_icmp4_send_echo s (c\<lparr>c_key := k\<rparr>) \<noteq> None) \<longrightarrow> ping_fire s d (Next_ping p) \<noteq> None)))
    \<and> (\<forall>i. pico_icmp4_ping_abort s i \<noteq> None)"
proof (intro conjI allI impI)
  note inv = ping_reach_inv [OF assms]
  obtain ks where ks: "pings_but {} s ks" using inv by (auto simp: ping_inv_def)
  show live: "{p. cookies s p \<noteq> None} = set (timeout_ptrs (ping_timers s))" using ks by (simp add: pings_but_def)
  show "distinct (timeout_ptrs (ping_timers s))" using ks by (simp add: pings_but_def)
  have nx: "(d, Next_ping p) \<in> set (ping_timers s) \<Longrightarrow> \<exists>e. (e, Ping_timeout p) \<in> set (ping_timers s)" for d p
    using ks unfolding pings_but_def by blast
  show "pico_icmp4_ping_abort s i \<noteq> None" for i using abort_runs [OF inv, of i] by auto
  fix d p
  show "ping_fire s d (Ping_timeout p) \<noteq> None" if "first_due s d (Ping_timeout p)" using timeout_runs [OF inv that] by auto
  show "cookies s p \<noteq> None" if "first_due s d (Ping_timeout p)"
    using that live timeout_ptrs_in by (auto simp: first_due_def)
  show "\<exists>c. cookies s p = Some c \<and> ((\<forall>k. pico_icmp4_send_echo s (c\<lparr>c_key := k\<rparr>) \<noteq> None) \<longrightarrow> ping_fire s d (Next_ping p) \<noteq> None)"
    if due: "first_due s d (Next_ping p)"
  proof -
    have "p \<in> set (timeout_ptrs (ping_timers s))" using due nx timeout_ptrs_in by (auto simp: first_due_def)
    then obtain c where c: "cookies s p = Some c" using live by blast
    then have "ping_fire s d (Next_ping p) = None \<Longrightarrow> \<exists>k. pico_icmp4_send_echo s (c\<lparr>c_key := k\<rparr>) = None"
      using next_ping_runs(2) [OF inv due] by auto
    then show ?thesis using c by blast
  qed
qed

text \<open>A ping of the neighbour 10.0.0.5: two requests.\<close>

definition dotted_neighbour :: "u8 list" where "dotted_neighbour = [49, 48, 46, 48, 46, 48, 46, 53, 0]"

lemma ping_two:
  "map_option (\<lambda>(r, s). (r, ping_timers s)) (pico_icmp4_ping icmp_start (Some dotted_neighbour) 2 1000 5000 8 True)
     = Some (0x91c0, [(5000, Ping_timeout 1), (1000, Next_ping 1)])"
  by code_simp

theorem ping_cookies_live_witness:
  "\<exists>s. ping_step icmp_start s \<and> ping_timers s = [(5000, Ping_timeout 1), (1000, Next_ping 1)] \<and> {p. cookies s p \<noteq> None} = {1}"
proof -
  obtain s where s: "pico_icmp4_ping icmp_start (Some dotted_neighbour) 2 1000 5000 8 True = Some (0x91c0, s)"
    "ping_timers s = [(5000, Ping_timeout 1), (1000, Next_ping 1)]" using ping_two by auto
  have step: "ping_step icmp_start s" using ping_step.Start [OF _ _ _ s(1)] by simp
  have "ping_reach icmp_start" by (rule ping_reach.Init) (simp_all add: icmp_start_def)
  then show ?thesis using ping_cookies_live [OF ping_reach.Step [OF _ step]] step s(2) by auto
qed

text \<open>With an interval longer than the timeout, the timeout frees the cookie that the next ping then reads.\<close>

lemma ping_slow_reads_freed:
  "map_option (\<lambda>s. ping_timers s) (do { (r, s) \<leftarrow> pico_icmp4_ping icmp_start (Some dotted_neighbour) 2 5000 1000 8 True;
      ping_fire s 1000 (Ping_timeout 1) }) = Some [(5000, Next_ping 1)]"
  "do { (r, s) \<leftarrow> pico_icmp4_ping icmp_start (Some dotted_neighbour) 2 5000 1000 8 True; s \<leftarrow> ping_fire s 1000 (Ping_timeout 1);
      ping_fire s 5000 (Next_ping 1) } = None"
  by code_simp+

text \<open>A ping without a callback is accepted, and its first timeout without an answer calls it.\<close>

lemma ping_without_callback:
  "map_option (\<lambda>s. ping_timers s) (do { (r, s) \<leftarrow> pico_icmp4_ping icmp_start (Some dotted_neighbour) 2 1000 5000 8 False;
      ping_fire s 1000 (Next_ping 1) }) = Some [(5000, Ping_timeout 1), (5000, Ping_timeout 2)]"
  "do { (r, s) \<leftarrow> pico_icmp4_ping icmp_start (Some dotted_neighbour) 2 1000 5000 8 False; s \<leftarrow> ping_fire s 1000 (Next_ping 1);
      ping_fire s 5000 (Ping_timeout 1) } = None"
  by code_simp+

text \<open>The next cookie is a copy, with the answer that the last one has: the second request is never answered, and
  its timeout is not reported.\<close>

definition first_reply :: ip_frame where
  "first_reply = small_request\<lparr>f_net := take 20 (f_net small_request) @ [0, 0, 0, 0, 0x91, 0xC0, 0, 1], f_transport_len := 8\<rparr>"

lemma ping_timeout_unreported:
  "map_option (\<lambda>s. (map (\<lambda>st. (st_seq st, st_err st)) (ping_calls s), ping_timers s))
     (do { (r, s) \<leftarrow> pico_icmp4_ping icmp_start (Some dotted_neighbour) 2 1000 5000 8 True; s \<leftarrow> ping_recv_reply s first_reply;
           s \<leftarrow> ping_fire s 1000 (Next_ping 1); s \<leftarrow> ping_fire s 5000 (Ping_timeout 1); ping_fire s 5000 (Ping_timeout 2) })
   = Some ([(1, PICO_PING_ERR_REPLIED)], [])"
  by code_simp

end
