(* ===== verification/Spec2Isabelle.thy ===== *)
theory Spec2Isabelle
  imports Checksum PTree_Spec Frame_Props Queue Strings_Mod Timers Ipfilter
    Tcp_Reass Tcp_Options_Props Tcp_Fsm_Props Ipv4_Route_Inv
    Nat_Props Ipv4_Proc_Props Ipv4_Push_Props Fragments_Rebound Ethernet_Props Icmp4_Ping
begin

text \<open>
  A verification development for picoTCP, the TCP/IP stack of this repository (\<open>src/lib/picotcp\<close>; the paths
  below are relative to it).

  The program.  A driver hands the bytes of a frame to \<open>pico_stack_recv\<close>; the loops of the protocol layers move
  frames through queues: Ethernet (\<open>modules/pico_ethernet.c\<close>) and ARP (\<open>modules/pico_arp.c\<close>), IPv4
  (\<open>modules/pico_ipv4.c\<close>) with its packet filter, address translation and fragments, then ICMP, UDP and TCP
  (\<open>modules/pico_tcp.c\<close>), which deliver to sockets.  What is sent takes the same way down.  Under all of them lie
  the packet buffers and their queues, the red-black tree that holds every table, the binary heap of the timers,
  and the Internet checksum.

  The theories, from the bottom up.
  \<^item> \<open>Pico_Prelude\<close>: the C integer types as words, the error codes, and lemmas on words and lists.
  \<^item> \<open>Checksum\<close>: \<open>pico_checksum\<close> of \<open>stack/pico_frame.c\<close>, equal to the sum of RFC 1071.
  \<^item> \<open>PTree\<close>, \<open>PTree_Shape\<close>, \<open>PTree_Search\<close>, \<open>PTree_Insert\<close>, \<open>PTree_Delete\<close>, \<open>PTree_Spec\<close>, \<open>PTree_Foreach\<close>:
    \<open>stack/pico_tree.c\<close> as nodes with parent and child pointers.  A shape is the tree the pointers stand for; every
    operation returns on every well-formed tree and computes the operation on sorted lists.  The locale
    \<open>key_order\<close> is what the container asks of a compare function, \<open>sorted_container\<close> what it promises;
    both are interpreted on the compare functions of the tables above it.
  \<^item> \<open>Frame\<close>, \<open>Frame_Props\<close>: packet buffers in a memory with shared usage counters (\<open>stack/pico_frame.c\<close>); the
    ownership invariant.  \<open>Queue\<close>: the linked queues of \<open>include/pico_queue.h\<close>, a refinement of lists.
  \<^item> \<open>Strings_Mod\<close>, \<open>Heap\<close>, \<open>Timers\<close>: \<open>modules/pico_strings.c\<close>, \<open>include/heap.h\<close>, and from
    \<open>stack/pico_stack.c\<close> the timers, random numbers, sequence comparison and loop scores.
  \<^item> \<open>Ipfilter\<close>: the rules of \<open>modules/pico_ipfilter.c\<close> in their tree; which rule is found, and which are missed.
  \<^item> \<open>Tcp_Types\<close>, \<open>Tcp_Queue\<close>, \<open>Tcp_Options\<close>, \<open>Tcp_Output\<close>, \<open>Tcp_Retrans\<close>, \<open>Tcp_Input\<close>, \<open>Tcp_Conn\<close>,
    \<open>Tcp_Fsm\<close>: \<open>modules/pico_tcp.c\<close> and the TCP part of \<open>stack/pico_socket.c\<close>.  \<open>Tcp_States\<close> has the
    diagram of states, \<open>Tcp_Inv\<close> what each function leaves alone, \<open>Tcp_Fsm_Props\<close> the invariant of all
    reachable states, \<open>Tcp_Options_Props\<close> the options there and back and where their parser loops for ever,
    \<open>Tcp_Reass\<close> the stream of bytes that reading delivers, and where segments that overlap make it leave their memory.
  \<^item> \<open>Ipv4_Addr\<close>, \<open>Ip_Frame\<close>, \<open>Ipv4_Route\<close>, \<open>Ipv4_Proc\<close>, \<open>Ipv4_Push\<close>: \<open>modules/pico_ipv4.c\<close>: addresses and their
    text, the fields of a header, links, routes and groups, reception and forwarding, transmission.
    \<open>Ipv4_Route_Props\<close>, \<open>Ipv4_Route_Inv\<close>, \<open>Ipv4_Proc_Props\<close> and \<open>Ipv4_Push_Props\<close> hold what they promise.
  \<^item> \<open>Nat_Table\<close>, \<open>Nat_Translate\<close>, \<open>Nat_Props\<close>: \<open>modules/pico_nat.c\<close>; the two tables agree, and a reply to a
    translated packet reaches its sender.
  \<^item> \<open>Fragments\<close>, \<open>Fragments_Props\<close>, \<open>Fragments_Rebound\<close>: \<open>modules/pico_fragments.c\<close>; fragments in any order
    give back the packet, also the one that the transmission of \<open>Ipv4_Push\<close> cut up.
  \<^item> \<open>Arp\<close>, \<open>Arp_Props\<close>, \<open>Arp_Exchange\<close>: \<open>modules/pico_arp.c\<close>; the table and its timers, request and reply
    between two hosts.  \<open>Ethernet\<close>, \<open>Ethernet_Props\<close>: \<open>modules/pico_ethernet.c\<close>, \<open>pico_device_broadcast\<close> and
    the entry of \<open>stack/pico_stack.c\<close>; what one host sends, the other receives.
  \<^item> \<open>Icmp4\<close>, \<open>Icmp4_Props\<close>, \<open>Icmp4_Ping\<close>: \<open>modules/pico_icmp4.c\<close>; echo, error messages, and the ping client
    as a transition system whose invariant says that no cookie is lost or used after it was freed.

  Correspondence.  Definitions have the names of the functions they translate; a part of a function that is a
  definition of its own is named after what it does.  Structs are records, enumerations datatypes, integers words
  of their width, read as \<open>int\<close> where the code computes in \<open>int\<close>.  A function that can fail in the code returns
  its C result with the new state; a result \<open>None\<close> of the option type means that the code reads or writes memory it does
  not own, follows a null pointer, or does not return.  Loops whose end is not
  structural are \<open>partial_function (option)\<close>; the theorems say when they return, so no fuel is needed.

  Memory.  Trees, frames and queues are modelled with their pointers and freed objects in \<open>PTree\<close>, \<open>Frame\<close> and
  \<open>Queue\<close>, ARP entries and ping cookies by address in \<open>Arp\<close> and \<open>Icmp4\<close>.  The layers of IPv4, ARP, Ethernet, fragments and ICMP
  see a frame as a value with its bytes; that two frames may share a buffer is the subject of \<open>Frame\<close>.
  A buffer has the length asked for, without the bytes the allocator rounds it up by.  Where a function has no
  state in the model, \<open>pico_err\<close> is left out: in the conversions of addresses and in \<open>do_enqueue_segment\<close>.

  What answers from outside.  Whether memory is left, a timer can be had, a queue has room or a driver takes a
  frame comes from supplies of Booleans in the state, so that every error path is a branch; an empty supply means
  success.  Random numbers and clocks are fields of the state.  Enqueueing for another layer, sending on
  a device, notifications and callbacks are recorded in the order they happen and do not reenter.

  Not modelled, and why.  UDP sockets, the socket tables and the loops of the layers: their parts that TCP, NAT
  and Ethernet need are modelled there, the rest dispatches through function pointers.  IGMP, MLD and IPv6 with
  its neighbours and ICMPv6, 6LoWPAN, AODV, OLSR, DHCP, DNS, mDNS, TFTP, SNTP and link-local addresses are
  protocols of their own beside the path of packets described here; what the modelled layers call of them is a recorded effect or a supply.
  Drivers and the POSIX glue are system calls; MD5 and the memory manager are hooks for a platform.  The C++
  programs of the repository call into the stack, \<open>json.hpp\<close> and libtins are third-party code, and
  \<open>picotcp.bak\<close> is an older copy.
\<close>

end
